(* ===== verification/Prelude.thy ===== *)
theory Prelude
  imports Main "HOL-Library.Word"
begin

text \<open>
  The vocabulary every component of the development shares.

  \<^item> The machine integers of the Rust sources: \<open>u8\<close> to \<open>u64\<close> and \<open>i64\<close> are words of their
    width. A \<open>usize\<close> (a length, an index, a byte position) is a \<open>nat\<close> with the bound
    \<open>usize_max\<close> of a 64-bit target, and its checked and saturating operations are written out.
  \<^item> The safe slice accesses of the standard library (\<open>get(i)\<close>, \<open>get(a..b)\<close>, \<open>get(a..)\<close>),
    which return an option where \<open>xs ! i\<close> would be unspecified.
  \<^item> \<open>to_be_bytes\<close>, \<open>from_be_bytes\<close>, \<open>to_le_bytes\<close> and \<open>from_le_bytes\<close> for any width, with
    the interface \<open>int_codec\<close> that the wire and file formats use.
  \<^item> The interface \<open>roundtrip_codec\<close> of every encoder with its decoder, and \<open>step_system\<close>, the
    states a machine reaches from its initial state.
\<close>

section \<open>Machine integers\<close>

type_synonym u8 = "8 word"
type_synonym u16 = "16 word"
type_synonym u32 = "32 word"
type_synonym u64 = "64 word"
type_synonym i64 = "64 word"
type_synonym bytes = "u8 list"

named_theorems bytes_simps "lengths, slices and values of encoded integers"

definition usize_max :: nat where
  "usize_max = 2 ^ 64 - 1"

definition checked_add_usize :: "nat \<Rightarrow> nat \<Rightarrow> nat option" where
  "checked_add_usize a b = (if a + b \<le> usize_max then Some (a + b) else None)"

definition sat_add_usize :: "nat \<Rightarrow> nat \<Rightarrow> nat" where
  "sat_add_usize a b = min (a + b) usize_max"

definition sat_mul_usize :: "nat \<Rightarrow> nat \<Rightarrow> nat" where
  "sat_mul_usize a b = min (a * b) usize_max"

text \<open>Saturating arithmetic on words: \<open>saturating_add\<close>, \<open>saturating_sub\<close>, \<open>saturating_mul\<close>.\<close>

definition sat_add :: "'a::len word \<Rightarrow> 'a word \<Rightarrow> 'a word" where
  "sat_add a b = (if unat a + unat b < 2 ^ LENGTH('a) then a + b else - 1)"

definition sat_sub :: "'a::len word \<Rightarrow> 'a word \<Rightarrow> 'a word" where
  "sat_sub a b = (if a < b then 0 else a - b)"

definition sat_mul :: "'a::len word \<Rightarrow> 'a word \<Rightarrow> 'a word" where
  "sat_mul a b = (if unat a * unat b < 2 ^ LENGTH('a) then a * b else - 1)"

definition checked_add :: "'a::len word \<Rightarrow> 'a word \<Rightarrow> 'a word option" where
  "checked_add a b = (if unat a + unat b < 2 ^ LENGTH('a) then Some (a + b) else None)"

lemma unat_less_exp: "unat w < 2 ^ LENGTH('a)"
  for w :: "'a::len word"
  by simp

lemma unat_eq_iff: "unat v = unat w \<longleftrightarrow> v = w"
  for v w :: "'a::len word"
  by (auto intro: unsigned_word_eqI)

lemma unat_sat_add: "unat (sat_add a b) = min (unat a + unat b) (2 ^ LENGTH('a) - 1)"
  for a b :: "'a::len word"
proof (cases "unat a + unat b < 2 ^ LENGTH('a)")
  case True
  then show ?thesis
    by (simp add: sat_add_def unat_word_ariths)
next
  case False
  then show ?thesis
    by (simp add: sat_add_def unsigned_minus_1_eq_mask mask_eq_exp_minus_1)
qed

lemma unat_sat_sub: "unat (sat_sub a b) = unat a - unat b"
  for a b :: "'a::len word"
  by (simp add: sat_sub_def unat_sub_if' word_less_nat_alt word_le_nat_alt)

lemma unat_min: "unat (min a b) = min (unat a) (unat b)"
  for a b :: "'a::len word"
  by (simp add: min_def word_le_nat_alt)

lemma unat_max: "unat (max a b) = max (unat a) (unat b)"
  for a b :: "'a::len word"
  by (simp add: max_def word_le_nat_alt)

lemma sat_sub_le: "sat_sub a b \<le> a"
  for a b :: "'a::len word"
  by (simp add: word_le_nat_alt unat_sat_sub)

lemma unat_ucast_32_64: "unat (ucast (w :: u32) :: u64) = unat w"
  using unat_less_exp [of w] by (simp add: unsigned_ucast_eq take_bit_nat_eq_self)

lemma checked_add_Some: "checked_add a b = Some c \<Longrightarrow> unat c = unat a + unat b"
  for a b :: "'a::len word"
  by (auto simp: checked_add_def unat_word_ariths split: if_splits)

section \<open>Results\<close>

text \<open>\<open>Option::ok_or\<close> and \<open>Result::and_then\<close>, which the \<open>?\<close> operator of the sources amounts to.\<close>

definition ok_or :: "'a option \<Rightarrow> 'e \<Rightarrow> 'e + 'a" where
  "ok_or x e = (case x of None \<Rightarrow> Inl e | Some a \<Rightarrow> Inr a)"

definition and_then :: "'e + 'a \<Rightarrow> ('a \<Rightarrow> 'e + 'b) \<Rightarrow> 'e + 'b" where
  "and_then r f = (case r of Inl e \<Rightarrow> Inl e | Inr a \<Rightarrow> f a)"

lemma ok_or_simps [simp]:
  "ok_or None e = Inl e"
  "ok_or (Some a) e = Inr a"
  by (simp_all add: ok_or_def)

lemma and_then_simps [simp]:
  "and_then (Inl e) f = Inl e"
  "and_then (Inr a) f = f a"
  by (simp_all add: and_then_def)

lemma ok_or_Inr [simp]: "ok_or x e = Inr a \<longleftrightarrow> x = Some a"
  by (cases x) auto

lemma and_then_Inr: "and_then r f = Inr b \<longleftrightarrow> (\<exists>a. r = Inr a \<and> f a = Inr b)"
  by (cases r) auto

lemma and_then_cong [fundef_cong]:
  "r = r' \<Longrightarrow> (\<And>a. r' = Inr a \<Longrightarrow> f a = g a) \<Longrightarrow> and_then r f = and_then r' g"
  by (cases r') auto

lemma option_eqI: "(\<And>a. x = Some a \<longleftrightarrow> y = Some a) \<Longrightarrow> x = y"
  by (cases x; cases y) auto

section \<open>Slices\<close>

definition get_at :: "'a list \<Rightarrow> nat \<Rightarrow> 'a option" where
  "get_at xs i = (if i < length xs then Some (xs ! i) else None)"

definition get_range :: "'a list \<Rightarrow> nat \<Rightarrow> nat \<Rightarrow> 'a list option" where
  "get_range xs a b = (if a \<le> b \<and> b \<le> length xs then Some (take (b - a) (drop a xs)) else None)"

definition get_from :: "'a list \<Rightarrow> nat \<Rightarrow> 'a list option" where
  "get_from xs a = (if a \<le> length xs then Some (drop a xs) else None)"

text \<open>\<open>iter().position(p)\<close>: the first index where \<open>p\<close> holds.\<close>

fun position :: "('a \<Rightarrow> bool) \<Rightarrow> 'a list \<Rightarrow> nat option" where
  "position p [] = None"
| "position p (x # xs) = (if p x then Some 0 else map_option Suc (position p xs))"

text \<open>\<open>VecDeque::remove(i)\<close> and \<open>Vec::remove(i)\<close> for an index in range.\<close>

definition remove_at :: "nat \<Rightarrow> 'a list \<Rightarrow> 'a list" where
  "remove_at i xs = take i xs @ drop (Suc i) xs"

lemma get_at_append [simp]: "get_at (xs @ ys) (length xs) = (case ys of [] \<Rightarrow> None | y # _ \<Rightarrow> Some y)"
  by (cases ys) (auto simp: get_at_def nth_append)

lemma get_range_append [simp]:
  "get_range (xs @ ys @ zs) (length xs) (length xs + length ys) = Some ys"
  by (simp add: get_range_def)

lemma get_at_Some: "get_at xs i = Some x \<Longrightarrow> i < length xs \<and> x = xs ! i"
  by (auto simp: get_at_def split: if_splits)

lemma position_None: "position p xs = None \<longleftrightarrow> (\<forall>x \<in> set xs. \<not> p x)"
  by (induction xs) auto

lemma position_Some:
  "position p xs = Some i \<longleftrightarrow> i < length xs \<and> p (xs ! i) \<and> (\<forall>j < i. \<not> p (xs ! j))"
proof (induction xs arbitrary: i)
  case Nil
  then show ?case by simp
next
  case (Cons x xs)
  show ?case
    by (cases i) (use Cons in \<open>auto simp: less_Suc_eq_0_disj\<close>)
qed

lemma position_Some_less: "position p xs = Some i \<Longrightarrow> i < length xs"
  by (simp add: position_Some)

lemma position_append:
  "\<forall>x \<in> set xs. \<not> p x \<Longrightarrow> p y \<Longrightarrow> position p (xs @ y # ys) = Some (length xs)"
  by (induction xs) auto

lemma length_remove_at: "i < length xs \<Longrightarrow> length (remove_at i xs) = length xs - 1"
  by (simp add: remove_at_def)

lemma remove_at_split: "i < length xs \<Longrightarrow> xs = take i xs @ xs ! i # drop (Suc i) xs"
  by (rule id_take_nth_drop)

lemma set_remove_at_subset: "set (remove_at i xs) \<subseteq> set xs"
  by (auto simp: remove_at_def dest: in_set_takeD in_set_dropD)

lemma map_remove_at: "map f (remove_at i xs) = remove_at i (map f xs)"
  by (simp add: remove_at_def take_map drop_map)

lemma distinct_remove_at:
  assumes "distinct xs" and "i < length xs"
  shows "distinct (remove_at i xs)" and "set (remove_at i xs) = set xs - {xs ! i}"
proof -
  have "distinct (take i xs @ xs ! i # drop (Suc i) xs)"
    using assms remove_at_split [of i xs] by simp
  then show "distinct (remove_at i xs)"
    by (simp add: remove_at_def)
  have "set xs = set (take i xs @ xs ! i # drop (Suc i) xs)"
    using assms(2) remove_at_split [of i xs] by simp
  moreover have "xs ! i \<notin> set (take i xs)" "xs ! i \<notin> set (drop (Suc i) xs)"
    using \<open>distinct (take i xs @ xs ! i # drop (Suc i) xs)\<close> by auto
  ultimately show "set (remove_at i xs) = set xs - {xs ! i}"
    by (auto simp: remove_at_def)
qed

lemma length_filter_update:
  "k < length xs \<Longrightarrow> length (filter P (xs[k := x])) + (if P (xs ! k) then 1 else 0)
    = length (filter P xs) + (if P x then 1 else 0)"
proof (induction xs arbitrary: k)
  case (Cons y ys)
  then show ?case
    using Cons.IH [of "k - 1"] by (cases k) auto
qed simp

lemma filter_neq: "p \<notin> set xs \<Longrightarrow> filter (\<lambda>q. q \<noteq> p) xs = xs"
  by (rule filter_True) auto

lemma length_filter_all: "length (filter P xs) = length xs \<longleftrightarrow> (\<forall>x \<in> set xs. P x)"
proof (induction xs)
  case Nil
  then show ?case by simp
next
  case (Cons x xs)
  have "length (filter P xs) \<noteq> Suc (length xs)"
    using length_filter_le [of P xs] by linarith
  with Cons show ?case by auto
qed

section \<open>Iterators\<close>

text \<open>\<open>Iterator::max_by_key\<close>: of several maximal elements the last one is returned.\<close>

definition max_by_key :: "('a \<Rightarrow> 'k::linorder) \<Rightarrow> 'a list \<Rightarrow> 'a option" where
  "max_by_key f xs =
     fold (\<lambda>x best. case best of None \<Rightarrow> Some x
                              | Some y \<Rightarrow> if f y \<le> f x then Some x else Some y) xs None"

lemma max_by_key_snoc:
  "max_by_key f (xs @ [x]) =
     (case max_by_key f xs of None \<Rightarrow> Some x
                            | Some y \<Rightarrow> if f y \<le> f x then Some x else Some y)"
  by (simp add: max_by_key_def)

lemma max_by_key_Nil [simp]: "max_by_key f [] = None"
  by (simp add: max_by_key_def)

lemma max_by_key_None [simp]: "max_by_key f xs = None \<longleftrightarrow> xs = []"
  by (induction xs rule: rev_induct)
    (auto simp: max_by_key_snoc max_by_key_def split: option.splits)

lemma max_by_key_Some: "max_by_key f xs = Some x \<Longrightarrow> x \<in> set xs \<and> (\<forall>y \<in> set xs. f y \<le> f x)"
proof (induction xs arbitrary: x rule: rev_induct)
  case Nil
  then show ?case
    by (simp add: max_by_key_def)
next
  case (snoc z xs)
  show ?case
  proof (cases "max_by_key f xs")
    case None
    with snoc.prems show ?thesis
      by (simp add: max_by_key_snoc)
  next
    case (Some y)
    with snoc.prems snoc.IH [OF Some] show ?thesis
      by (auto simp: max_by_key_snoc split: if_splits)
  qed
qed

text \<open>The first element with \<open>A\<close>, all elements before it having \<open>B\<close>.\<close>

lemma split_first_Cons:
  "(\<exists>pre u post. s # ss = pre @ u # post \<and> A u \<and> (\<forall>t \<in> set pre. B t)) \<longleftrightarrow>
     A s \<or> (B s \<and> (\<exists>pre u post. ss = pre @ u # post \<and> A u \<and> (\<forall>t \<in> set pre. B t)))"
  (is "?L \<longleftrightarrow> ?R")
proof
  assume ?L
  then show ?R
    unfolding Cons_eq_append_conv by fastforce
next
  assume ?R
  then show ?L
  proof
    assume "A s"
    then have "s # ss = [] @ s # ss \<and> A s \<and> (\<forall>t \<in> set []. B t)"
      by simp
    then show ?L by blast
  next
    assume "B s \<and> (\<exists>pre u post. ss = pre @ u # post \<and> A u \<and> (\<forall>t \<in> set pre. B t))"
    then obtain pre u post where "s # ss = (s # pre) @ u # post \<and> A u \<and> (\<forall>t \<in> set (s # pre). B t)"
      by auto
    then show ?L by blast
  qed
qed

lemma find_split:
  "find P xs = Some x \<longleftrightarrow> (\<exists>pre u post. xs = pre @ u # post \<and> (P u \<and> u = x) \<and> (\<forall>y \<in> set pre. \<not> P y))"
proof (induction xs)
  case (Cons y ys)
  then show ?case
    unfolding split_first_Cons by auto
qed simp

lemma find_rev:
  "find P (rev xs) = Some x \<longleftrightarrow> (\<exists>pre post. xs = pre @ x # post \<and> P x \<and> (\<forall>y \<in> set post. \<not> P y))"
proof -
  have "rev xs = pre @ u # post \<longleftrightarrow> xs = rev post @ u # rev pre" for pre u post
    by (metis append.assoc append_Cons append_Nil rev.simps(2) rev_append rev_rev_ident)
  then show ?thesis
    unfolding find_split by (metis rev_rev_ident set_rev)
qed

text \<open>The last maximal element is the last element of the list sorted stably by the key.\<close>

lemma max_by_key_last:
  "max_by_key f xs = Some x \<Longrightarrow> x = last (filter (\<lambda>y. f y = f x) xs)"
proof (induction xs arbitrary: x rule: rev_induct)
  case Nil
  then show ?case by simp
next
  case (snoc z xs)
  show ?case
  proof (cases "max_by_key f xs")
    case None
    with snoc.prems show ?thesis
      by (simp add: max_by_key_snoc)
  next
    case (Some y)
    with snoc.prems snoc.IH [OF Some] show ?thesis
      by (auto simp: max_by_key_snoc split: if_splits)
  qed
qed

lemma last_filter_last: "xs \<noteq> [] \<Longrightarrow> P (last xs) \<Longrightarrow> last (filter P xs) = last xs"
  by (induction xs rule: rev_induct) auto

lemma max_by_key_sort:
  "max_by_key f xs = (if xs = [] then None else Some (last (sort_key f xs)))"
proof (cases "xs = []")
  case True
  then show ?thesis by simp
next
  case False
  then obtain x where x: "max_by_key f xs = Some x"
    by (cases "max_by_key f xs") auto
  let ?ys = "sort_key f xs"
  have ys: "?ys \<noteq> []" "set ?ys = set xs"
    using False by (metis length_0_conv length_sort, simp)
  then have "last ?ys \<in> set xs"
    using last_in_set [OF ys(1)] by simp
  then have "f (last ?ys) \<le> f x"
    using max_by_key_Some [OF x] by blast
  moreover have "f x \<le> f (last ?ys)"
  proof -
    obtain i where i: "i < length ?ys" "?ys ! i = x"
      using max_by_key_Some [OF x] ys(2) by (metis in_set_conv_nth)
    then have "map f ?ys ! i \<le> map f ?ys ! (length ?ys - 1)"
      by (intro sorted_nth_mono) auto
    with i show ?thesis
      by (simp add: last_conv_nth ys(1))
  qed
  ultimately have "f (last ?ys) = f x"
    by simp
  then have "last ?ys = last (filter (\<lambda>y. f y = f x) ?ys)"
    using last_filter_last [of ?ys "\<lambda>y. f y = f x"] ys(1) by simp
  also have "\<dots> = x"
    using max_by_key_last [OF x] by (simp add: sort_key_stable)
  finally show ?thesis
    using False x by simp
qed

section \<open>Integers as bytes\<close>

fun le_bytes :: "nat \<Rightarrow> nat \<Rightarrow> bytes" where
  "le_bytes 0 v = []"
| "le_bytes (Suc k) v = word_of_nat v # le_bytes k (v div 256)"

fun le_val :: "bytes \<Rightarrow> nat" where
  "le_val [] = 0"
| "le_val (b # bs) = unat b + 256 * le_val bs"

definition be_bytes :: "nat \<Rightarrow> nat \<Rightarrow> bytes" where
  "be_bytes k v = rev (le_bytes k v)"

definition be_val :: "bytes \<Rightarrow> nat" where
  "be_val bs = le_val (rev bs)"

lemma length_le_bytes [simp]: "length (le_bytes k v) = k"
  by (induction k arbitrary: v) auto

lemma length_be_bytes [simp]: "length (be_bytes k v) = k"
  by (simp add: be_bytes_def)

lemma le_val_le_bytes: "le_val (le_bytes k v) = v mod 256 ^ k"
proof (induction k arbitrary: v)
  case 0
  then show ?case by simp
next
  case (Suc k)
  have "le_val (le_bytes (Suc k) v) = v mod 256 + 256 * (v div 256 mod 256 ^ k)"
    using Suc by (simp add: unsigned_of_nat take_bit_eq_mod)
  then show ?case
    by (simp add: mod_mult2_eq)
qed

lemma le_val_less: "le_val bs < 256 ^ length bs"
proof (induction bs)
  case Nil
  then show ?case by simp
next
  case (Cons b bs)
  have "unat b < 256"
    using unat_less_exp [of b] by simp
  with Cons show ?case by simp
qed

lemma le_bytes_le_val: "le_bytes (length bs) (le_val bs) = bs"
proof (induction bs)
  case Nil
  then show ?case by simp
next
  case (Cons b bs)
  have "unat b < 256"
    using unat_less_exp [of b] by simp
  moreover have zero: "(256 :: u8) = 0"
    by simp
  have "(word_of_nat (unat b + 256 * le_val bs) :: u8) = b"
    by (simp add: zero)
  ultimately show ?case
    using Cons by simp
qed

lemma be_val_be_bytes: "be_val (be_bytes k v) = v mod 256 ^ k"
  by (simp add: be_val_def be_bytes_def le_val_le_bytes)

lemma be_bytes_be_val: "be_bytes (length bs) (be_val bs) = bs"
  using le_bytes_le_val [of "rev bs"] by (simp add: be_val_def be_bytes_def)

definition to_be :: "'a::len word \<Rightarrow> bytes" where
  "to_be w = be_bytes (LENGTH('a) div 8) (unat w)"

definition from_be :: "bytes \<Rightarrow> 'a::len word" where
  "from_be bs = word_of_nat (be_val bs)"

definition to_le :: "'a::len word \<Rightarrow> bytes" where
  "to_le w = le_bytes (LENGTH('a) div 8) (unat w)"

definition from_le :: "bytes \<Rightarrow> 'a::len word" where
  "from_le bs = word_of_nat (le_val bs)"

text \<open>
  The interface of a fixed-width integer encoding: \<open>n\<close> bytes, and both round trips. The wire
  messages and the resume files only rely on these three laws.
\<close>

locale int_codec =
  fixes enc :: "'a::len word \<Rightarrow> bytes" and dec :: "bytes \<Rightarrow> 'a word" and n :: nat
  assumes length_enc: "length (enc w) = n"
    and dec_enc: "dec (enc w) = w"
    and enc_dec: "length bs = n \<Longrightarrow> enc (dec bs) = bs"
begin

lemma enc_inject: "enc v = enc w \<longleftrightarrow> v = w"
  by (metis dec_enc)

lemma take_enc: "take n (enc w @ rest) = enc w"
  by (simp add: length_enc)

lemma get_range_enc:
  "length pre = a \<Longrightarrow> get_range (pre @ enc w @ rest) a (a + n) = Some (enc w)"
  by (simp add: get_range_def length_enc)

end

lemma pow_256: "(256::nat) ^ k = 2 ^ (8 * k)"
  by (simp add: power_mult)

interpretation be16: int_codec "to_be :: u16 \<Rightarrow> bytes" from_be 2
proof unfold_locales
  fix w :: u16 and bs :: bytes
  show "length (to_be w) = 2"
    by (simp add: to_be_def)
  show "from_be (to_be w) = w"
    using unat_less_exp [of w] by (simp add: to_be_def from_be_def be_val_be_bytes)
  assume "length bs = 2"
  then show "to_be (from_be bs :: u16) = bs"
    using le_val_less [of "rev bs"] be_bytes_be_val [of bs]
    by (simp add: to_be_def from_be_def be_val_def unsigned_of_nat take_bit_eq_mod)
qed

interpretation be32: int_codec "to_be :: u32 \<Rightarrow> bytes" from_be 4
proof unfold_locales
  fix w :: u32 and bs :: bytes
  show "length (to_be w) = 4"
    by (simp add: to_be_def)
  show "from_be (to_be w) = w"
    using unat_less_exp [of w] by (simp add: to_be_def from_be_def be_val_be_bytes)
  assume "length bs = 4"
  then show "to_be (from_be bs :: u32) = bs"
    using le_val_less [of "rev bs"] be_bytes_be_val [of bs]
    by (simp add: to_be_def from_be_def be_val_def unsigned_of_nat take_bit_eq_mod)
qed

interpretation be64: int_codec "to_be :: u64 \<Rightarrow> bytes" from_be 8
proof unfold_locales
  fix w :: u64 and bs :: bytes
  show "length (to_be w) = 8"
    by (simp add: to_be_def)
  show "from_be (to_be w) = w"
    using unat_less_exp [of w] by (simp add: to_be_def from_be_def be_val_be_bytes)
  assume "length bs = 8"
  then show "to_be (from_be bs :: u64) = bs"
    using le_val_less [of "rev bs"] be_bytes_be_val [of bs]
    by (simp add: to_be_def from_be_def be_val_def unsigned_of_nat take_bit_eq_mod)
qed

interpretation le32: int_codec "to_le :: u32 \<Rightarrow> bytes" from_le 4
proof unfold_locales
  fix w :: u32 and bs :: bytes
  show "length (to_le w) = 4"
    by (simp add: to_le_def)
  show "from_le (to_le w) = w"
    using unat_less_exp [of w] by (simp add: to_le_def from_le_def le_val_le_bytes)
  assume "length bs = 4"
  then show "to_le (from_le bs :: u32) = bs"
    using le_val_less [of bs] le_bytes_le_val [of bs]
    by (simp add: to_le_def from_le_def unsigned_of_nat take_bit_eq_mod)
qed

interpretation le64: int_codec "to_le :: u64 \<Rightarrow> bytes" from_le 8
proof unfold_locales
  fix w :: u64 and bs :: bytes
  show "length (to_le w) = 8"
    by (simp add: to_le_def)
  show "from_le (to_le w) = w"
    using unat_less_exp [of w] by (simp add: to_le_def from_le_def le_val_le_bytes)
  assume "length bs = 8"
  then show "to_le (from_le bs :: u64) = bs"
    using le_val_less [of bs] le_bytes_le_val [of bs]
    by (simp add: to_le_def from_le_def unsigned_of_nat take_bit_eq_mod)
qed

section \<open>Encoders with decoders\<close>

text \<open>
  What a caller expects of an encoder and its decoder: on the values in \<open>valid\<close>, decoding what
  was encoded returns the value. Two consequences every format shares: encodings of different
  values differ, and the decoder reaches every valid value.
\<close>

locale roundtrip_codec =
  fixes enc :: "'a \<Rightarrow> 'c" and dec :: "'c \<Rightarrow> 'e + 'a" and valid :: "'a \<Rightarrow> bool"
  assumes roundtrip: "valid x \<Longrightarrow> dec (enc x) = Inr x"
begin

lemma encoding_injective: "valid x \<Longrightarrow> valid y \<Longrightarrow> enc x = enc y \<Longrightarrow> x = y"
  by (metis roundtrip sum.inject(2))

lemma decoder_onto: "valid x \<Longrightarrow> \<exists>c. dec c = Inr x"
  by (blast intro: roundtrip)

end

section \<open>Machines\<close>

text \<open>
  A machine with operations: \<open>run op s\<close> is the state after one call. The states reached from
  \<open>init\<close>, and the rule that an invariant every operation keeps holds in all of them.
\<close>

inductive reached :: "'s set \<Rightarrow> ('op \<Rightarrow> 's \<Rightarrow> 's) \<Rightarrow> 's \<Rightarrow> bool" for I step where
  reached_init: "s \<in> I \<Longrightarrow> reached I step s"
| reached_step: "reached I step s \<Longrightarrow> reached I step (step op s)"

locale step_system =
  fixes init :: "'s set" and step :: "'op \<Rightarrow> 's \<Rightarrow> 's" and inv :: "'s \<Rightarrow> bool"
  assumes inv_init: "s \<in> init \<Longrightarrow> inv s"
    and inv_step: "inv s \<Longrightarrow> inv (step op s)"
begin

lemma reached_inv: "reached init step s \<Longrightarrow> inv s"
  by (induction rule: reached.induct) (auto intro: inv_init inv_step)

lemma inv_fold: "inv s \<Longrightarrow> inv (fold step ops s)"
  by (induction ops arbitrary: s) (auto intro: inv_step)

end

text \<open>
  Threads that take turns: a turn of thread \<open>i\<close> changes the state of that thread only, and uses up one
  of the turns that are left to it.
\<close>

locale thread_system =
  fixes step :: "nat \<Rightarrow> 's \<Rightarrow> 's" and threads :: "'s \<Rightarrow> 't list" and left :: "nat \<Rightarrow> 't \<Rightarrow> nat"
  assumes same_length: "length (threads (step i s)) = length (threads s)"
    and others: "j \<noteq> i \<Longrightarrow> threads (step i s) ! j = threads s ! j"
    and progress: "i < length (threads s) \<Longrightarrow> left i (threads (step i s) ! i) \<le> left i (threads s ! i) - 1"
begin

lemma fold_length: "length (threads (fold step ops s)) = length (threads s)"
  by (induction ops arbitrary: s) (simp_all add: same_length)

lemma left_fold: "i < length (threads s) \<Longrightarrow> left i (threads (fold step ops s) ! i) \<le> left i (threads s ! i) - count_list ops i"
proof (induction ops arbitrary: s)
  case (Cons j ops)
  have "left i (threads (fold step ops (step j s)) ! i) \<le> left i (threads (step j s) ! i) - count_list ops i"
    using Cons by (simp add: same_length)
  moreover have "left i (threads (step j s) ! i) \<le> left i (threads s ! i) - (if j = i then 1 else 0)"
    using progress [OF Cons.prems] others [of i j s] by auto
  ultimately show ?case
    by (simp split: if_splits)
qed simp

lemma turns_used_up:
  assumes "i < length (threads s)" "left i (threads s ! i) \<le> count_list ops i"
  shows "left i (threads (fold step ops s) ! i) = 0"
  using left_fold [OF assms(1), of ops] assms(2) by simp

end

lemma reached_fold: "s \<in> I \<Longrightarrow> reached I step (fold step ops s)"
proof (induction ops rule: rev_induct)
  case Nil
  then show ?case by (simp add: reached_init)
next
  case (snoc op ops)
  then show ?case by (simp add: reached_step)
qed

end
