(* ===== verification/Decimal.thy ===== *)
theory Decimal
  imports Prelude
begin

text \<open>
  The parts of the Rust standard library the text formats rest on: \<open>to_string\<close> of integers,
  \<open>str::parse\<close> of decimal integers and \<open>str::from_utf8\<close>. The parsers take what
  \<open>from_str_radix\<close> takes: an optional \<open>+\<close> (and \<open>-\<close> for signed types), at least one digit, any
  number of leading zeros, and a value that fits.
\<close>

section \<open>Printing\<close>

fun nat_to_string :: "nat \<Rightarrow> bytes" where
  "nat_to_string n =
     (if n < 10 then [48 + word_of_nat n]
      else nat_to_string (n div 10) @ [48 + word_of_nat (n mod 10)])"

declare nat_to_string.simps [simp del]

definition int_to_string :: "int \<Rightarrow> bytes" where
  "int_to_string i =
     (if i < 0 then 45 # nat_to_string (nat (- i)) else nat_to_string (nat i))"

text \<open>The same digits as characters, for messages made with \<open>format!\<close>.\<close>

definition show_nat :: "nat \<Rightarrow> string" where
  "show_nat n = map (\<lambda>b. char_of (unat b)) (nat_to_string n)"

section \<open>Parsing\<close>

definition is_digit :: "u8 \<Rightarrow> bool" where
  "is_digit b \<longleftrightarrow> 48 \<le> b \<and> b \<le> 57"

fun parse_digits :: "nat \<Rightarrow> bytes \<Rightarrow> nat option" where
  "parse_digits acc [] = Some acc"
| "parse_digits acc (b # bs) =
     (if is_digit b then parse_digits (10 * acc + unat (b - 48)) bs else None)"

definition bounded :: "nat \<Rightarrow> nat option \<Rightarrow> nat option" where
  "bounded m r = (case r of None \<Rightarrow> None | Some v \<Rightarrow> if v \<le> m then Some v else None)"

text \<open>The unsigned parser with largest value \<open>m\<close>: a leading plus sign is accepted.\<close>

fun parse_unsigned :: "nat \<Rightarrow> bytes \<Rightarrow> nat option" where
  "parse_unsigned m [] = None"
| "parse_unsigned m (b # bs) =
     (if (b = 43 \<or> b = 45) \<and> bs = [] then None
      else if b = 43 then bounded m (parse_digits 0 bs)
      else bounded m (parse_digits 0 (b # bs)))"

definition parse_usize :: "bytes \<Rightarrow> nat option" where
  "parse_usize bs = parse_unsigned usize_max bs"

fun parse_i64 :: "bytes \<Rightarrow> i64 option" where
  "parse_i64 [] = None"
| "parse_i64 (b # bs) =
     (if (b = 43 \<or> b = 45) \<and> bs = [] then None
      else if b = 43 then map_option word_of_nat (bounded (2 ^ 63 - 1) (parse_digits 0 bs))
      else if b = 45 then
        map_option (\<lambda>v. - word_of_nat v) (bounded (2 ^ 63) (parse_digits 0 bs))
      else map_option word_of_nat (bounded (2 ^ 63 - 1) (parse_digits 0 (b # bs))))"

section \<open>UTF-8\<close>

definition utf8_cont :: "u8 \<Rightarrow> bool" where
  "utf8_cont b \<longleftrightarrow> 128 \<le> b \<and> b \<le> 191"

fun utf8_valid :: "bytes \<Rightarrow> bool" where
  "utf8_valid [] = True"
| "utf8_valid (b # bs) =
     (if b < 128 then utf8_valid bs
      else if 194 \<le> b \<and> b \<le> 223 then
        (case bs of c1 # r \<Rightarrow> utf8_cont c1 \<and> utf8_valid r | _ \<Rightarrow> False)
      else if 224 \<le> b \<and> b \<le> 239 then
        (case bs of
           c1 # c2 # r \<Rightarrow>
             utf8_cont c1 \<and> (b = 224 \<longrightarrow> 160 \<le> c1) \<and> (b = 237 \<longrightarrow> c1 \<le> 159)
               \<and> utf8_cont c2 \<and> utf8_valid r
         | _ \<Rightarrow> False)
      else if 240 \<le> b \<and> b \<le> 244 then
        (case bs of
           c1 # c2 # c3 # r \<Rightarrow>
             utf8_cont c1 \<and> (b = 240 \<longrightarrow> 144 \<le> c1) \<and> (b = 244 \<longrightarrow> c1 \<le> 143)
               \<and> utf8_cont c2 \<and> utf8_cont c3 \<and> utf8_valid r
         | _ \<Rightarrow> False)
      else False)"

section \<open>Parsing what was printed\<close>

lemma digit_u8:
  assumes "n < 10"
  shows "unat (48 + word_of_nat n :: u8) = 48 + n"
proof -
  have "unat (48 + word_of_nat n :: u8) = (48 + n) mod 256"
    using assms by (simp add: unat_word_ariths unsigned_of_nat take_bit_eq_mod)
  with assms show ?thesis by simp
qed

lemma is_digit_u8: "n < 10 \<Longrightarrow> is_digit (48 + word_of_nat n)"
  by (simp add: is_digit_def word_le_nat_alt digit_u8)

lemma digit_value:
  assumes "n < 10"
  shows "unat (word_of_nat n :: u8) = n"
proof -
  have "unat (word_of_nat n :: u8) = n mod 256"
    by (simp add: unsigned_of_nat take_bit_eq_mod)
  with assms show ?thesis
    by simp
qed

lemma nat_to_string_digits: "\<forall>b \<in> set (nat_to_string n). is_digit b"
proof (induction n rule: nat_to_string.induct)
  case (1 n)
  then show ?case
    by (subst nat_to_string.simps) (auto simp: is_digit_u8)
qed

lemma nat_to_string_nonempty [simp]: "nat_to_string n \<noteq> []"
  by (subst nat_to_string.simps) simp

lemma parse_digits_append:
  "parse_digits acc (xs @ ys) =
     (case parse_digits acc xs of None \<Rightarrow> None | Some v \<Rightarrow> parse_digits v ys)"
  by (induction xs arbitrary: acc) auto

lemma parse_digits_nat_to_string: "parse_digits 0 (nat_to_string n) = Some n"
proof (induction n rule: nat_to_string.induct)
  case (1 n)
  show ?case
  proof (cases "n < 10")
    case True
    then show ?thesis
      by (subst nat_to_string.simps) (simp add: is_digit_u8 digit_value)
  next
    case False
    with 1 have IH: "parse_digits 0 (nat_to_string (n div 10)) = Some (n div 10)"
      by simp
    have d: "n mod 10 < 10" by simp
    have "10 * (n div 10) + unat (word_of_nat (n mod 10) :: u8) = n"
      by (subst digit_value [OF d]) simp
    then show ?thesis
      using False IH is_digit_u8 [OF d]
      by (subst nat_to_string.simps) (simp add: parse_digits_append)
  qed
qed

lemma digit_not_sign: "is_digit b \<Longrightarrow> b \<noteq> 43 \<and> b \<noteq> 45"
  by (auto simp: is_digit_def)

lemma nat_to_string_Cons: "\<exists>d ds. nat_to_string n = d # ds \<and> is_digit d"
  using nat_to_string_digits [of n] by (cases "nat_to_string n") auto

lemma parse_unsigned_nat_to_string:
  "parse_unsigned m (nat_to_string n) = (if n \<le> m then Some n else None)"
proof -
  obtain d ds where d: "nat_to_string n = d # ds" "is_digit d"
    using nat_to_string_Cons by blast
  then have "parse_unsigned m (d # ds) = bounded m (parse_digits 0 (nat_to_string n))"
    using digit_not_sign [of d] by simp
  also have "\<dots> = (if n \<le> m then Some n else None)"
    by (simp add: parse_digits_nat_to_string bounded_def)
  finally show ?thesis
    by (simp only: d(1))
qed

lemma parse_usize_nat_to_string: "n \<le> usize_max \<Longrightarrow> parse_usize (nat_to_string n) = Some n"
  by (simp add: parse_usize_def parse_unsigned_nat_to_string)

lemma parse_i64_int_to_string: "parse_i64 (int_to_string (sint n)) = Some n"
proof -
  have range: "- (2 ^ 63) \<le> sint n" "sint n < 2 ^ 63"
    using sint_ge [of n] sint_lt [of n] by simp_all
  show ?thesis
  proof (cases "sint n < 0")
    case True
    define v where "v = nat (- sint n)"
    have v: "v \<le> 2 ^ 63" "- int v = sint n"
      using True range(1) by (auto simp: v_def)
    have "- word_of_nat v = (word_of_int (- int v) :: i64)"
      by simp
    then have "- word_of_nat v = n"
      by (simp add: v(2))
    with True v(1) show ?thesis
      by (simp add: int_to_string_def v_def [symmetric] parse_digits_nat_to_string bounded_def)
  next
    case False
    define v where "v = nat (sint n)"
    have v: "v \<le> 2 ^ 63 - 1" "int v = sint n"
      using False range(2) by (auto simp: v_def)
    have "word_of_nat v = (word_of_int (int v) :: i64)"
      by simp
    then have w: "word_of_nat v = n"
      by (simp add: v(2))
    obtain d ds where d: "nat_to_string v = d # ds" "is_digit d"
      using nat_to_string_Cons by blast
    have "parse_i64 (d # ds)
        = map_option word_of_nat (bounded (2 ^ 63 - 1) (parse_digits 0 (nat_to_string v)))"
      using d digit_not_sign [of d] by simp
    also have "\<dots> = Some n"
      using v(1) w by (simp add: parse_digits_nat_to_string bounded_def)
    finally show ?thesis
      using False d by (simp add: int_to_string_def v_def [symmetric])
  qed
qed

lemma utf8_valid_ascii: "\<forall>b \<in> set bs. b < 128 \<Longrightarrow> utf8_valid bs"
  by (induction bs) auto

lemma digit_ascii: "is_digit b \<Longrightarrow> b < 128"
  by (auto simp: is_digit_def intro: order.strict_trans1)

lemma utf8_nat_to_string: "utf8_valid (nat_to_string n)"
  by (rule utf8_valid_ascii) (use nat_to_string_digits digit_ascii in blast)

lemma utf8_int_to_string: "utf8_valid (int_to_string i)"
  by (simp add: int_to_string_def utf8_nat_to_string)

text \<open>Printed numbers have no superfluous leading zero, and a 64-bit integer needs 20 bytes.\<close>

lemma nat_to_string_hd:
  "0 < n \<Longrightarrow> \<exists>d ds. nat_to_string n = d # ds \<and> d \<noteq> 48 \<and> is_digit d"
proof (induction n rule: nat_to_string.induct)
  case (1 n)
  show ?case
  proof (cases "n < 10")
    case True
    have "48 + word_of_nat n \<noteq> (48 :: u8)"
    proof
      assume "48 + word_of_nat n = (48 :: u8)"
      then have "unat (48 + word_of_nat n :: u8) = 48" by simp
      with True "1.prems" show False by (simp add: digit_u8)
    qed
    then show ?thesis
      using True is_digit_u8 [OF True] by (subst nat_to_string.simps) auto
  next
    case False
    with "1.IH" obtain d ds where
      "nat_to_string (n div 10) = d # ds" "d \<noteq> 48" "is_digit d"
      by (auto simp: div_greater_zero_iff)
    with False show ?thesis
      by (subst nat_to_string.simps) auto
  qed
qed

lemma length_nat_to_string: "n < 10 ^ k \<Longrightarrow> 0 < k \<Longrightarrow> length (nat_to_string n) \<le> k"
proof (induction n arbitrary: k rule: nat_to_string.induct)
  case (1 n)
  show ?case
  proof (cases "n < 10")
    case True
    then show ?thesis
      using "1.prems" by (subst nat_to_string.simps) simp
  next
    case False
    from "1.prems"(2) obtain j where k: "k = Suc j"
      by (cases k) auto
    with False "1.prems"(1) have j: "0 < j"
      by (cases j) auto
    have "n div 10 < 10 ^ j"
      using "1.prems"(1) k by (simp add: less_mult_imp_div_less)
    then have "length (nat_to_string (n div 10)) \<le> j"
      using "1.IH" False j by blast
    with False k show ?thesis
      by (subst nat_to_string.simps) simp
  qed
qed

lemma length_int_to_string: "length (int_to_string (sint n)) \<le> 20"
  for n :: i64
proof -
  have range: "- (2 ^ 63) \<le> sint n" "sint n < 2 ^ 63"
    using sint_ge [of n] sint_lt [of n] by simp_all
  have "length (nat_to_string (nat (- sint n))) \<le> 19"
    by (rule length_nat_to_string) (use range in auto)
  moreover have "length (nat_to_string (nat (sint n))) \<le> 19"
    by (rule length_nat_to_string) (use range in auto)
  ultimately show ?thesis
    by (simp add: int_to_string_def)
qed

section \<open>Literals\<close>

text \<open>The bytes of a string literal; two literals with the same bytes are the same literal.\<close>

definition ascii :: "string \<Rightarrow> bytes" where
  "ascii s = map of_char s"

lemma of_char_u8_inject: "(of_char c :: u8) = of_char d \<longleftrightarrow> c = d"
proof
  assume "(of_char c :: u8) = of_char d"
  then have "unat (word_of_nat (of_char c) :: u8) = unat (word_of_nat (of_char d) :: u8)"
    by (simp add: of_nat_of_char)
  then show "c = d"
    by (simp add: unsigned_of_nat take_bit_eq_mod)
qed simp

lemma ascii_inject: "ascii s = ascii t \<longleftrightarrow> s = t"
proof -
  have "inj (of_char :: char \<Rightarrow> u8)"
    by (rule injI) (simp add: of_char_u8_inject)
  then show ?thesis
    by (simp add: ascii_def inj_map_eq_map)
qed

end
