(* ===== verification/Bencode.thy ===== *)
theory Bencode
  imports Decimal "HOL-Library.List_Lexorder"
begin

text \<open>
  The bencode codec, \<open>crates/p2p-distribute/src/bencode.rs\<close>: \<open>BencodeValue\<close>, \<open>DecodeError\<close>,
  \<open>encode_into\<close>, \<open>encode\<close>, \<open>decode\<close> and the recursive-descent decoders with their depth limit.
  A position is a \<open>nat\<close>, returned with the value where the code advances \<open>pos\<close>.

  The recursion of \<open>decode_value\<close> ends at the depth limit. The loops over the elements of a list
  or dictionary carry fuel: \<open>None\<close> is "out of fuel" and never a result of the code. A loop starts
  with one unit more than the input has bytes, which is always enough (\<open>decode_total\<close>), since every
  round consumes at least one byte.
\<close>

section \<open>Values and errors\<close>

datatype bencode_value =
  BBytes bytes
| BInt i64
| BList "bencode_value list"
| BDict "(bytes \<times> bencode_value) list"

datatype decode_error =
  UnexpectedEof nat
| InvalidToken u8 nat
| MalformedInt nat string
| InvalidStringLength nat
| UnsortedKey nat
| TooDeep nat nat
| TrailingData nat nat

definition MAX_DECODE_DEPTH :: nat where
  "MAX_DECODE_DEPTH = 64"

definition MAX_INT_DIGITS :: nat where
  "MAX_INT_DIGITS = 20"

section \<open>Accessors\<close>

fun as_bytes :: "bencode_value \<Rightarrow> bytes option" where
  "as_bytes (BBytes b) = Some b"
| "as_bytes _ = None"

fun as_int :: "bencode_value \<Rightarrow> i64 option" where
  "as_int (BInt n) = Some n"
| "as_int _ = None"

fun as_list :: "bencode_value \<Rightarrow> bencode_value list option" where
  "as_list (BList l) = Some l"
| "as_list _ = None"

fun as_dict :: "bencode_value \<Rightarrow> (bytes \<times> bencode_value) list option" where
  "as_dict (BDict d) = Some d"
| "as_dict _ = None"

definition dict_get :: "bencode_value \<Rightarrow> bytes \<Rightarrow> bencode_value option" where
  "dict_get v key =
     (case as_dict v of None \<Rightarrow> None
      | Some entries \<Rightarrow> map_option snd (find (\<lambda>(k, _). k = key) entries))"

section \<open>Encoding\<close>

lemma size_item: "v \<in> set items \<Longrightarrow> size v < Suc (size_list size items)"
  by (induction items) auto

lemma size_entry:
  "(key, val) \<in> set entries \<Longrightarrow> size val < Suc (size_list (size_prod (\<lambda>_. 0) size) entries)"
  by (induction entries) auto

text \<open>
  \<open>encode_into\<close> appends to \<open>out\<close>; the dictionary entries are written in the order of their keys
  (the stable \<open>sort_by\<close> with the lexicographic order of byte strings).
\<close>

function encode_into :: "bencode_value \<Rightarrow> bytes \<Rightarrow> bytes" where
  "encode_into (BBytes b) out = out @ nat_to_string (length b) @ [58] @ b"
| "encode_into (BInt n) out = out @ [105] @ int_to_string (sint n) @ [101]"
| "encode_into (BList items) out =
     fold (\<lambda>item out'. encode_into item out') items (out @ [108]) @ [101]"
| "encode_into (BDict entries) out =
     fold (\<lambda>(key, val) out'. encode_into val (out' @ nat_to_string (length key) @ [58] @ key))
       (sort_key fst entries) (out @ [100]) @ [101]"
  by pat_completeness auto
termination
  by (relation "measure (\<lambda>(v, out). size v)") (auto dest: size_item size_entry)

definition encode :: "bencode_value \<Rightarrow> bytes" where
  "encode v = encode_into v []"

section \<open>Decoding\<close>

definition find_byte :: "bytes \<Rightarrow> nat \<Rightarrow> u8 \<Rightarrow> nat option" where
  "find_byte data from needle =
     (case get_from data from of None \<Rightarrow> None
      | Some rest \<Rightarrow> map_option (sat_add_usize from) (position (\<lambda>b. b = needle) rest))"

definition decode_int :: "bytes \<Rightarrow> nat \<Rightarrow> decode_error + bencode_value \<times> nat" where
  "decode_int data pos =
     and_then (ok_or (checked_add_usize pos 1) (UnexpectedEof pos)) (\<lambda>p.
     and_then (ok_or (find_byte data p 101) (UnexpectedEof p)) (\<lambda>end.
     and_then (ok_or (get_range data p end) (UnexpectedEof p)) (\<lambda>digits.
       if digits = [] then Inl (MalformedInt pos ''empty integer'')
       else if length digits > MAX_INT_DIGITS then Inl (MalformedInt pos ''integer too long'')
       else if length digits > 1 \<and> get_at digits 0 = Some 48
       then Inl (MalformedInt pos ''leading zero'')
       else if digits = [45, 48] then Inl (MalformedInt pos ''negative zero'')
       else if digits = [45] then Inl (MalformedInt pos ''bare minus sign'')
       else if length digits > 2 \<and> get_at digits 0 = Some 45 \<and> get_at digits 1 = Some 48
       then Inl (MalformedInt pos ''leading zero after minus'')
       else if \<not> utf8_valid digits then Inl (MalformedInt pos ''non-ASCII digits'')
       else
         and_then (ok_or (parse_i64 digits) (MalformedInt pos ''integer parse failed'')) (\<lambda>n.
         and_then (ok_or (checked_add_usize end 1) (UnexpectedEof end)) (\<lambda>p'.
           Inr (BInt n, p'))))))"

definition decode_bytes :: "bytes \<Rightarrow> nat \<Rightarrow> decode_error + bencode_value \<times> nat" where
  "decode_bytes data pos =
     and_then (ok_or (find_byte data pos 58) (InvalidStringLength pos)) (\<lambda>colon.
     and_then (ok_or (get_range data pos colon) (InvalidStringLength pos)) (\<lambda>len_digits.
       if \<not> utf8_valid len_digits then Inl (InvalidStringLength pos)
       else
         and_then (ok_or (parse_usize len_digits) (InvalidStringLength pos)) (\<lambda>len.
         and_then (ok_or (checked_add_usize colon 1) (UnexpectedEof colon)) (\<lambda>data_start.
         and_then (ok_or (checked_add_usize data_start len) (UnexpectedEof data_start)) (\<lambda>data_end.
         and_then (ok_or (get_range data data_start data_end) (UnexpectedEof data_start)) (\<lambda>bs.
           Inr (BBytes bs, data_end)))))))"

type_synonym decoded = "(decode_error + bencode_value \<times> nat) option"

text \<open>
  The two loops. \<open>dv\<close> is the recursive call \<open>decode_value(data, pos, depth + 1)\<close>; each round
  spends one unit of fuel.
\<close>

primrec list_loop ::
  "nat \<Rightarrow> (nat \<Rightarrow> decoded) \<Rightarrow> bytes \<Rightarrow> nat \<Rightarrow> bencode_value list \<Rightarrow> decoded"
where
  "list_loop 0 dv data pos items = None"
| "list_loop (Suc fuel) dv data pos items =
     (case get_at data pos of None \<Rightarrow> Some (Inl (UnexpectedEof pos))
      | Some b \<Rightarrow>
          if b = 101 then
            (case checked_add_usize pos 1 of None \<Rightarrow> Some (Inl (UnexpectedEof pos))
             | Some p \<Rightarrow> Some (Inr (BList items, p)))
          else
            (case dv pos of
               None \<Rightarrow> None
             | Some (Inl e) \<Rightarrow> Some (Inl e)
             | Some (Inr (v, p)) \<Rightarrow> list_loop fuel dv data p (items @ [v])))"

definition decode_list :: "(nat \<Rightarrow> decoded) \<Rightarrow> bytes \<Rightarrow> nat \<Rightarrow> decoded" where
  "decode_list dv data pos =
     (case checked_add_usize pos 1 of None \<Rightarrow> Some (Inl (UnexpectedEof pos))
      | Some p \<Rightarrow> list_loop (Suc (length data)) dv data p [])"

text \<open>One key with its value, then the check of the key order, then the value.\<close>

primrec dict_loop ::
  "nat \<Rightarrow> (nat \<Rightarrow> decoded) \<Rightarrow> bytes \<Rightarrow> nat \<Rightarrow> (bytes \<times> bencode_value) list \<Rightarrow> decoded"
where
  "dict_loop 0 dv data pos entries = None"
| "dict_loop (Suc fuel) dv data pos entries =
     (case get_at data pos of None \<Rightarrow> Some (Inl (UnexpectedEof pos))
      | Some b \<Rightarrow>
          if b = 101 then
            (case checked_add_usize pos 1 of None \<Rightarrow> Some (Inl (UnexpectedEof pos))
             | Some p \<Rightarrow> Some (Inr (BDict entries, p)))
          else
            (case dv pos of
               None \<Rightarrow> None
             | Some (Inl e) \<Rightarrow> Some (Inl e)
             | Some (Inr (kv, p)) \<Rightarrow>
                 (case as_bytes kv of
                    None \<Rightarrow>
                      Some (Inl (InvalidToken
                        (case get_at data pos of None \<Rightarrow> 0 | Some x \<Rightarrow> x) pos))
                  | Some key \<Rightarrow>
                      if entries \<noteq> [] \<and> key \<le> fst (last entries)
                      then Some (Inl (UnsortedKey pos))
                      else
                        (case dv p of
                           None \<Rightarrow> None
                         | Some (Inl e) \<Rightarrow> Some (Inl e)
                         | Some (Inr (val, p')) \<Rightarrow>
                             dict_loop fuel dv data p' (entries @ [(key, val)])))))"

definition decode_dict :: "(nat \<Rightarrow> decoded) \<Rightarrow> bytes \<Rightarrow> nat \<Rightarrow> decoded" where
  "decode_dict dv data pos =
     (case checked_add_usize pos 1 of None \<Rightarrow> Some (Inl (UnexpectedEof pos))
      | Some p \<Rightarrow> dict_loop (Suc (length data)) dv data p [])"

function decode_value :: "bytes \<Rightarrow> nat \<Rightarrow> nat \<Rightarrow> decoded" where
  "decode_value data pos depth =
     (if depth > MAX_DECODE_DEPTH then Some (Inl (TooDeep MAX_DECODE_DEPTH pos))
      else case get_at data pos of None \<Rightarrow> Some (Inl (UnexpectedEof pos))
      | Some first \<Rightarrow>
          if first = 105 then Some (decode_int data pos)
          else if first = 108 then
            decode_list (\<lambda>p. decode_value data p (sat_add_usize depth 1)) data pos
          else if first = 100 then
            decode_dict (\<lambda>p. decode_value data p (sat_add_usize depth 1)) data pos
          else if 48 \<le> first \<and> first \<le> 57 then Some (decode_bytes data pos)
          else Some (Inl (InvalidToken first pos)))"
  by pat_completeness auto
termination
  by (relation "measure (\<lambda>(data, pos, depth). Suc MAX_DECODE_DEPTH - depth)")
    (auto simp: sat_add_usize_def MAX_DECODE_DEPTH_def usize_max_def)

declare decode_value.simps [simp del]

definition decode :: "bytes \<Rightarrow> (decode_error + bencode_value) option" where
  "decode data =
     (case decode_value data 0 0 of
        None \<Rightarrow> None
      | Some (Inl e) \<Rightarrow> Some (Inl e)
      | Some (Inr (v, pos)) \<Rightarrow>
          if pos < length data then Some (Inl (TrailingData pos (length data - pos)))
          else Some (Inr v))"

section \<open>The decoder always answers, and within the input\<close>

definition advances :: "bytes \<Rightarrow> nat \<Rightarrow> decode_error + bencode_value \<times> nat \<Rightarrow> bool" where
  "advances data pos r \<longleftrightarrow>
     (case r of Inl _ \<Rightarrow> True | Inr (v, p) \<Rightarrow> pos < p \<and> p \<le> length data)"

definition answers :: "bytes \<Rightarrow> nat \<Rightarrow> decoded \<Rightarrow> bool" where
  "answers data pos d \<longleftrightarrow> (\<exists>r. d = Some r \<and> advances data pos r)"

lemma answersE:
  assumes "answers data pos d"
  obtains (err) e where "d = Some (Inl e)"
  | (val) v p where "d = Some (Inr (v, p))" "pos < p" "p \<le> length data"
proof -
  from assms obtain r where r: "d = Some r" "advances data pos r"
    by (auto simp: answers_def)
  show thesis
  proof (cases r)
    case (Inl e)
    with r(1) show ?thesis by (simp add: err)
  next
    case (Inr vp)
    with r show ?thesis
      by (cases vp) (simp add: advances_def val)
  qed
qed

lemma answers_simps [simp]:
  "answers data pos (Some r) = advances data pos r"
  "\<not> answers data pos None"
  "advances data pos (Inl e)"
  "advances data pos (Inr (v, p)) \<longleftrightarrow> pos < p \<and> p \<le> length data"
  by (simp_all add: answers_def advances_def)

lemma checked_add_usize_SomeD: "checked_add_usize a b = Some c \<Longrightarrow> c = a + b \<and> a + b \<le> usize_max"
  by (simp add: checked_add_usize_def split: if_splits)

lemma find_byte_bounds:
  "find_byte data from needle = Some i \<Longrightarrow> length data \<le> usize_max \<Longrightarrow>
     from \<le> i \<and> i < length data \<and> data ! i = needle"
  by (auto simp: find_byte_def get_from_def position_Some sat_add_usize_def split: if_splits)

lemma get_range_SomeD:
  "get_range xs a b = Some ys \<Longrightarrow> a \<le> b \<and> b \<le> length xs \<and> length ys = b - a"
  by (auto simp: get_range_def split: if_splits)

lemma decode_int_advances: "length data \<le> usize_max \<Longrightarrow> advances data pos (decode_int data pos)"
  by (auto simp: advances_def decode_int_def and_then_Inr split: sum.splits if_splits
      dest!: checked_add_usize_SomeD find_byte_bounds)

lemma decode_bytes_advances: "length data \<le> usize_max \<Longrightarrow> advances data pos (decode_bytes data pos)"
  by (auto simp: advances_def decode_bytes_def and_then_Inr split: sum.splits if_splits
      dest!: checked_add_usize_SomeD find_byte_bounds get_range_SomeD)

lemma list_loop_answers:
  assumes "\<And>p. answers data p (dv p)" and "length data - pos < fuel" and "pos0 < pos \<or> pos0 \<le> pos"
  shows "answers data pos0 (list_loop fuel dv data pos items)"
  using assms(2,3)
proof (induction fuel arbitrary: pos items)
  case 0
  then show ?case by simp
next
  case (Suc fuel)
  show ?case
  proof (cases "get_at data pos")
    case None
    then show ?thesis by simp
  next
    case (Some b)
    then have pos: "pos < length data"
      by (simp add: get_at_def split: if_splits)
    show ?thesis
    proof (cases "b = 101")
      case True
      with Some pos Suc.prems show ?thesis
        by (auto dest!: checked_add_usize_SomeD split: option.splits)
    next
      case False
      from assms(1) [of pos] show ?thesis
      proof (cases rule: answersE)
        case (err e)
        with Some False show ?thesis by simp
      next
        case (val v p)
        with Suc.prems pos have "length data - p < fuel" "pos0 < p \<or> pos0 \<le> p"
          by auto
        from Suc.IH [OF this] Some False val show ?thesis by simp
      qed
    qed
  qed
qed

lemma dict_loop_answers:
  assumes "\<And>p. answers data p (dv p)" and "length data - pos < fuel" and "pos0 \<le> pos"
  shows "answers data pos0 (dict_loop fuel dv data pos entries)"
  using assms(2,3)
proof (induction fuel arbitrary: pos entries)
  case 0
  then show ?case by simp
next
  case (Suc fuel)
  show ?case
  proof (cases "get_at data pos")
    case None
    then show ?thesis by simp
  next
    case (Some b)
    then have pos: "pos < length data"
      by (simp add: get_at_def split: if_splits)
    show ?thesis
    proof (cases "b = 101")
      case True
      with Some pos Suc.prems show ?thesis
        by (auto dest!: checked_add_usize_SomeD split: option.splits)
    next
      case False
      from assms(1) [of pos] show ?thesis
      proof (cases rule: answersE)
        case (err e)
        with Some False show ?thesis by simp
      next
        case (val kv p)
        from assms(1) [of p] show ?thesis
        proof (cases rule: answersE)
          case (err e)
          with Some False val show ?thesis by (simp split: option.splits)
        next
          case (val v' p')
          with Suc.prems pos \<open>pos < p\<close> have "length data - p' < fuel" "pos0 \<le> p'"
            by auto
          from Suc.IH [OF this] Some False \<open>dv pos = Some (Inr (kv, p))\<close> val show ?thesis
            by (simp split: option.splits)
        qed
      qed
    qed
  qed
qed

lemma decode_list_answers:
  assumes "\<And>p. answers data p (dv p)"
  shows "answers data pos (decode_list dv data pos)"
  unfolding decode_list_def
  by (auto split: option.splits dest!: checked_add_usize_SomeD
      intro!: list_loop_answers assms simp del: list_loop.simps)

lemma decode_dict_answers:
  assumes "\<And>p. answers data p (dv p)"
  shows "answers data pos (decode_dict dv data pos)"
  unfolding decode_dict_def
  by (auto split: option.splits dest!: checked_add_usize_SomeD
      intro!: dict_loop_answers assms simp del: dict_loop.simps)

lemma decode_value_answers:
  assumes "length data \<le> usize_max"
  shows "answers data pos (decode_value data pos depth)"
  using assms
proof (induction data pos depth rule: decode_value.induct)
  case (1 data pos depth)
  then show ?case
    by (subst decode_value.simps) (auto split: option.splits
        intro!: decode_list_answers decode_dict_answers decode_int_advances decode_bytes_advances)
qed

section \<open>Canonical values\<close>

text \<open>
  The values the decoder can produce: the keys of every dictionary strictly increase. The nesting
  depth counts the levels of non-empty lists and dictionaries, as \<open>depth\<close> does.
\<close>

fun canonical :: "bencode_value \<Rightarrow> bool" where
  "canonical (BBytes b) = True"
| "canonical (BInt n) = True"
| "canonical (BList items) = list_all canonical items"
| "canonical (BDict entries) =
     (sorted_wrt (<) (map fst entries) \<and> list_all (\<lambda>(k, v). canonical v) entries)"

fun nesting :: "bencode_value \<Rightarrow> nat" where
  "nesting (BBytes b) = 0"
| "nesting (BInt n) = 0"
| "nesting (BList items) = fold (\<lambda>v m. max (Suc (nesting v)) m) items 0"
| "nesting (BDict entries) = fold (\<lambda>(k, v) m. max (Suc (nesting v)) m) entries 0"

lemma fold_max_le: "(fold (\<lambda>x m. max (f x) m) xs a \<le> (n::nat)) \<longleftrightarrow> a \<le> n \<and> (\<forall>x \<in> set xs. f x \<le> n)"
  by (induction xs arbitrary: a) auto

lemma nesting_le:
  "nesting (BList items) \<le> n \<longleftrightarrow> (\<forall>v \<in> set items. Suc (nesting v) \<le> n)"
  "nesting (BDict entries) \<le> n \<longleftrightarrow> (\<forall>(k, v) \<in> set entries. Suc (nesting v) \<le> n)"
proof -
  have "(\<lambda>(k :: bytes, v) m. max (Suc (nesting v)) m) = (\<lambda>x m. max (Suc (nesting (snd x))) m)"
    by auto
  then show "nesting (BDict entries) \<le> n \<longleftrightarrow> (\<forall>(k, v) \<in> set entries. Suc (nesting v) \<le> n)"
    by (simp only: nesting.simps fold_max_le) auto
qed (simp add: fold_max_le)

definition yields_canonical :: "decoded \<Rightarrow> bool" where
  "yields_canonical d \<longleftrightarrow> (\<forall>v p. d = Some (Inr (v, p)) \<longrightarrow> canonical v)"

lemma yields_canonical_simps [simp]:
  "yields_canonical None"
  "yields_canonical (Some (Inl e))"
  "yields_canonical (Some (Inr (v, p))) \<longleftrightarrow> canonical v"
  by (simp_all add: yields_canonical_def)

lemma yields_canonicalD: "yields_canonical d \<Longrightarrow> d = Some (Inr (v, p)) \<Longrightarrow> canonical v"
  by (simp add: yields_canonical_def)

lemma list_loop_canonical:
  assumes dv: "\<And>p. yields_canonical (dv p)" and "list_all canonical items"
  shows "yields_canonical (list_loop fuel dv data pos items)"
  using assms(2)
proof (induction fuel arbitrary: pos items)
  case 0
  then show ?case by simp
next
  case (Suc fuel)
  have "yields_canonical (list_loop fuel dv data p (items @ [v]))"
    if "dv pos = Some (Inr (v, p))" for v p
    using yields_canonicalD [OF dv that] Suc.prems by (intro Suc.IH) simp
  with Suc.prems show ?case
    by (simp split: option.split sum.split)
qed

lemma sorted_wrt_snoc:
  assumes "sorted_wrt (<) (map fst entries)"
    and "entries \<noteq> [] \<longrightarrow> fst (last entries) < (k :: 'a::linorder)"
  shows "sorted_wrt (<) (map fst (entries @ [(k, v)]))"
proof (cases entries rule: rev_cases)
  case Nil
  then show ?thesis by simp
next
  case (snoc es e)
  with assms have "\<forall>x \<in> fst ` set es. x < fst e" and "fst e < k"
    by (auto simp: sorted_wrt_append)
  then have "\<forall>x \<in> fst ` set es. x < k"
    using less_trans by blast
  with assms(1) \<open>fst e < k\<close> snoc show ?thesis
    by (simp add: sorted_wrt_append)
qed

lemma dict_loop_canonical:
  assumes dv: "\<And>p. yields_canonical (dv p)" and "canonical (BDict entries)"
  shows "yields_canonical (dict_loop fuel dv data pos entries)"
  using assms(2)
proof (induction fuel arbitrary: pos entries)
  case 0
  then show ?case by simp
next
  case (Suc fuel)
  have "yields_canonical (dict_loop fuel dv data p' (entries @ [(key, val)]))"
    if "\<not> (entries \<noteq> [] \<and> key \<le> fst (last entries))" and "dv p = Some (Inr (val, p'))"
    for key val p p'
  proof (rule Suc.IH)
    have "canonical val"
      by (rule yields_canonicalD [OF dv that(2)])
    moreover have "entries \<noteq> [] \<longrightarrow> fst (last entries) < key"
      using that(1) by auto
    ultimately show "canonical (BDict (entries @ [(key, val)]))"
      using Suc.prems sorted_wrt_snoc [of entries key val] by simp
  qed
  with Suc.prems show ?case
    by (cases "entries = []") (simp_all split: option.split sum.split)
qed

lemma decode_value_canonical: "yields_canonical (decode_value data pos depth)"
proof (induction data pos depth rule: decode_value.induct)
  case (1 data pos depth)
  have leaf: "yields_canonical (Some (decode_int data pos))"
    "yields_canonical (Some (decode_bytes data pos))"
    by (auto simp: yields_canonical_def decode_int_def decode_bytes_def and_then_Inr split: if_splits)
  have list: "yields_canonical (decode_list dv data pos)" if "\<And>p. yields_canonical (dv p)" for dv
    using list_loop_canonical [OF that, of "[]"]
    by (simp add: decode_list_def split: option.split del: list_loop.simps)
  have dict: "yields_canonical (decode_dict dv data pos)" if "\<And>p. yields_canonical (dv p)" for dv
    using dict_loop_canonical [OF that, of "[]"]
    by (simp add: decode_dict_def split: option.split del: dict_loop.simps)
  show ?case
    using 1 by (subst decode_value.simps)
      (simp add: leaf list dict split: option.split)
qed

section \<open>Decoding what was encoded\<close>

lemma fold_appends:
  "(\<And>x out. x \<in> set xs \<Longrightarrow> f x out = out @ g x) \<Longrightarrow> fold f xs out = out @ concat (map g xs)"
  by (induction xs arbitrary: out) auto

lemma encode_into_append: "encode_into v out = out @ encode v"
proof (induction v out rule: encode_into.induct)
  case (1 b out)
  then show ?case by (simp add: encode_def)
next
  case (2 n out)
  then show ?case by (simp add: encode_def)
next
  case (3 items out)
  then have "fold (\<lambda>item out'. encode_into item out') items o1 = o1 @ concat (map encode items)" for o1
    by (intro fold_appends) auto
  then show ?case by (simp add: encode_def)
next
  case (4 entries out)
  have "fold (\<lambda>(key, val) out'. encode_into val (out' @ nat_to_string (length key) @ [58] @ key))
       (sort_key fst entries) o1
     = o1 @ concat (map (\<lambda>(key, val). nat_to_string (length key) @ [58] @ key @ encode val)
         (sort_key fst entries))" for o1
    by (rule fold_appends) (use 4 in auto)
  then show ?case by (simp add: encode_def)
qed

lemma encode_simps:
  "encode (BBytes b) = nat_to_string (length b) @ 58 # b"
  "encode (BInt n) = 105 # int_to_string (sint n) @ [101]"
  "encode (BList items) = 108 # concat (map encode items) @ [101]"
  "encode (BDict entries) =
     100 # concat (map (\<lambda>(k, v). encode (BBytes k) @ encode v) (sort_key fst entries)) @ [101]"
proof -
  have "fold (\<lambda>item out'. encode_into item out') items o1 = o1 @ concat (map encode items)" for o1
    by (rule fold_appends) (rule encode_into_append)
  then show "encode (BList items) = 108 # concat (map encode items) @ [101]"
    by (simp add: encode_def)
  have "fold (\<lambda>(key, val) out'. encode_into val (out' @ nat_to_string (length key) @ [58] @ key))
       (sort_key fst entries) o1
     = o1 @ concat (map (\<lambda>(k, v). encode (BBytes k) @ encode v) (sort_key fst entries))" for o1
    by (rule fold_appends) (auto simp: encode_into_append [of _ "_ @ _"] encode_def [of "BBytes _"])
  then show "encode (BDict entries) =
     100 # concat (map (\<lambda>(k, v). encode (BBytes k) @ encode v) (sort_key fst entries)) @ [101]"
    by (simp add: encode_def [of "BDict _"])
qed (simp_all add: encode_def)

lemma encode_first: "\<exists>b bs. encode v = b # bs \<and> b \<noteq> 101"
proof (cases v)
  case (BBytes b)
  obtain d ds where "nat_to_string (length b) = d # ds" "is_digit d"
    using nat_to_string_Cons by blast
  then show ?thesis
    using BBytes by (auto simp: encode_simps is_digit_def)
qed (auto simp: encode_simps)

lemma int_to_string_shape:
  fixes i :: int
  defines "s \<equiv> int_to_string i"
  shows "s \<noteq> []" "\<forall>b \<in> set s. b \<noteq> 101" "\<not> (1 < length s \<and> get_at s 0 = Some 48)"
    "s \<noteq> [45, 48]" "s \<noteq> [45]"
    "\<not> (2 < length s \<and> get_at s 0 = Some 45 \<and> get_at s 1 = Some 48)"
proof -
  have digits: "\<forall>b \<in> set (nat_to_string n). b \<noteq> 101" for n
    using nat_to_string_digits [of n] by (auto simp: is_digit_def)
  consider "i < 0" | "i = 0" | "i > 0" by linarith
  then have "s \<noteq> [] \<and> (\<forall>b \<in> set s. b \<noteq> 101) \<and> \<not> (1 < length s \<and> get_at s 0 = Some 48)
     \<and> s \<noteq> [45, 48] \<and> s \<noteq> [45] \<and> \<not> (2 < length s \<and> get_at s 0 = Some 45 \<and> get_at s 1 = Some 48)"
  proof cases
    case 1
    then obtain d ds where "nat_to_string (nat (- i)) = d # ds" "d \<noteq> 48"
      using nat_to_string_hd [of "nat (- i)"] by auto
    with 1 digits [of "nat (- i)"] show ?thesis
      by (auto simp: s_def int_to_string_def get_at_def)
  next
    case 2
    have "nat_to_string 0 = [48]"
      by (subst nat_to_string.simps) simp
    with 2 show ?thesis
      by (simp add: s_def int_to_string_def get_at_def)
  next
    case 3
    then obtain d ds where d: "nat_to_string (nat i) = d # ds" "d \<noteq> 48" "is_digit d"
      using nat_to_string_hd [of "nat i"] by auto
    with 3 digits [of "nat i"] digit_not_sign [OF d(3)] show ?thesis
      by (auto simp: s_def int_to_string_def get_at_def)
  qed
  then show "s \<noteq> []" "\<forall>b \<in> set s. b \<noteq> 101" "\<not> (1 < length s \<and> get_at s 0 = Some 48)"
    "s \<noteq> [45, 48]" "s \<noteq> [45]"
    "\<not> (2 < length s \<and> get_at s 0 = Some 45 \<and> get_at s 1 = Some 48)"
    by blast+
qed

lemma find_byte_here:
  assumes "data = pre @ xs @ b # post" and "\<forall>x \<in> set xs. x \<noteq> b"
    and "length data \<le> usize_max" and "from = length pre"
  shows "find_byte data from b = Some (from + length xs)"
proof -
  have "position (\<lambda>x. x = b) (xs @ b # post) = Some (length xs)"
    by (rule position_append) (use assms(2) in auto)
  moreover have "length pre + length xs \<le> usize_max"
    using assms(1,3) by simp
  ultimately show ?thesis
    using assms(1,4) by (simp add: find_byte_def get_from_def sat_add_usize_def)
qed

lemma decode_int_encode:
  assumes "data = pre @ encode (BInt n) @ post" and "length data \<le> usize_max"
  shows "decode_int data (length pre) = Inr (BInt n, length pre + length (encode (BInt n)))"
proof -
  define s where "s = int_to_string (sint n)"
  note shape = int_to_string_shape [of "sint n", folded s_def]
  have data: "data = (pre @ [105]) @ s @ 101 # post"
    using assms(1) by (simp add: encode_simps s_def)
  have bound: "length pre + length s + 2 \<le> usize_max"
    using assms(2) data by simp
  have "find_byte data (length pre + 1) 101 = Some (length pre + 1 + length s)"
    by (rule find_byte_here [OF data shape(2) assms(2)]) simp
  moreover have "get_range data (length pre + 1) (length pre + 1 + length s) = Some s"
    using get_range_append [of "pre @ [105]" s "101 # post"] data by simp
  moreover have "length s \<le> MAX_INT_DIGITS"
    using length_int_to_string [of n] by (simp add: s_def MAX_INT_DIGITS_def)
  moreover have "utf8_valid s" "parse_i64 s = Some n"
    by (simp_all add: s_def utf8_int_to_string parse_i64_int_to_string)
  ultimately show ?thesis
    using bound shape by (simp add: decode_int_def checked_add_usize_def encode_simps s_def)
qed

lemma decode_bytes_encode:
  assumes "data = pre @ encode (BBytes b) @ post" and "length data \<le> usize_max"
  shows "decode_bytes data (length pre) = Inr (BBytes b, length pre + length (encode (BBytes b)))"
proof -
  define s where "s = nat_to_string (length b)"
  have data: "data = pre @ s @ 58 # (b @ post)" "data = (pre @ s @ [58]) @ b @ post"
    using assms(1) by (simp_all add: encode_simps s_def)
  have bound: "length pre + length s + 1 + length b \<le> usize_max"
    using assms(2) data by simp
  have no_colon: "\<forall>x \<in> set s. x \<noteq> 58"
    using nat_to_string_digits [of "length b"] by (auto simp: s_def is_digit_def)
  have "find_byte data (length pre) 58 = Some (length pre + length s)"
    by (rule find_byte_here [OF data(1) no_colon assms(2)]) simp
  moreover have "get_range data (length pre) (length pre + length s) = Some s"
    using data(1) by simp
  moreover have "get_range data (length pre + length s + 1) (length pre + length s + 1 + length b) = Some b"
    using get_range_append [of "pre @ s @ [58]" b post] data(2) by (simp add: add.assoc)
  moreover have "utf8_valid s" "parse_usize s = Some (length b)"
    using bound by (simp_all add: s_def utf8_nat_to_string parse_usize_nat_to_string)
  ultimately show ?thesis
    using bound by (simp add: decode_bytes_def checked_add_usize_def encode_simps s_def add.assoc)
qed

text \<open>
  What the recursive call does on the encoding of \<open>v\<close> wherever it stands in \<open>data\<close>. The two
  loops return the elements they meet, given this of each element.
\<close>

definition reads :: "(nat \<Rightarrow> decoded) \<Rightarrow> bytes \<Rightarrow> bencode_value \<Rightarrow> bool" where
  "reads dv data v \<longleftrightarrow>
     (\<forall>pre post. data = pre @ encode v @ post \<longrightarrow>
        dv (length pre) = Some (Inr (v, length pre + length (encode v))))"

lemma readsD:
  "reads dv data v \<Longrightarrow> data = pre @ encode v @ post \<Longrightarrow> pos = length pre \<Longrightarrow>
     dv pos = Some (Inr (v, length (pre @ encode v)))"
  by (simp add: reads_def)

lemma list_loop_encode:
  assumes "\<And>v. v \<in> set items \<Longrightarrow> reads dv data v"
    and "data = pre @ concat (map encode items) @ 101 # post"
    and "length data \<le> usize_max" and "length (concat (map encode items)) < fuel"
  shows "list_loop fuel dv data (length pre) acc
     = Some (Inr (BList (acc @ items), length pre + length (concat (map encode items)) + 1))"
  using assms
proof (induction items arbitrary: pre acc fuel)
  case Nil
  then obtain f where "fuel = Suc f" by (cases fuel) auto
  with Nil show ?case
    by (simp add: checked_add_usize_def)
next
  case (Cons v items)
  obtain b bs where b: "encode v = b # bs" "b \<noteq> 101"
    using encode_first by blast
  from Cons.prems(4) obtain f where f: "fuel = Suc f" by (cases fuel) auto
  have split: "data = pre @ encode v @ (concat (map encode items) @ 101 # post)"
    "data = (pre @ encode v) @ concat (map encode items) @ 101 # post"
    using Cons.prems(2) by simp_all
  have dv: "dv (length pre) = Some (Inr (v, length (pre @ encode v)))"
    by (rule readsD [OF Cons.prems(1) split(1)]) simp_all
  have "get_at data (length pre) = Some b"
    using split(1) b(1) by simp
  moreover have "length (concat (map encode items)) < f"
    using Cons.prems(4) f b(1) by simp
  then have "list_loop f dv data (length (pre @ encode v)) (acc @ [v])
    = Some (Inr (BList ((acc @ [v]) @ items),
        length (pre @ encode v) + length (concat (map encode items)) + 1))"
    by (intro Cons.IH split(2) Cons.prems(3)) (auto intro: Cons.prems(1))
  ultimately show ?case
    using f dv b(2) by simp
qed

abbreviation encode_entry :: "bytes \<times> bencode_value \<Rightarrow> bytes" where
  "encode_entry \<equiv> (\<lambda>(k, v). encode (BBytes k) @ encode v)"

lemma dict_loop_encode:
  assumes "\<And>k v. (k, v) \<in> set entries \<Longrightarrow> reads dv data (BBytes k) \<and> reads dv data v"
    and "data = pre @ concat (map encode_entry entries) @ 101 # post"
    and "length data \<le> usize_max" and "length (concat (map encode_entry entries)) < fuel"
    and "sorted_wrt (<) (map fst (acc @ entries))"
  shows "dict_loop fuel dv data (length pre) acc
     = Some (Inr (BDict (acc @ entries), length pre + length (concat (map encode_entry entries)) + 1))"
  using assms
proof (induction entries arbitrary: pre acc fuel)
  case Nil
  then obtain f where "fuel = Suc f" by (cases fuel) auto
  with Nil show ?case
    by (simp add: checked_add_usize_def)
next
  case (Cons e entries)
  obtain k v where e: "e = (k, v)" by (cases e)
  obtain b bs where b: "encode (BBytes k) = b # bs" "b \<noteq> 101"
    using encode_first by blast
  from Cons.prems(4) obtain f where f: "fuel = Suc f" by (cases fuel) auto
  have split: "data = pre @ encode (BBytes k) @ (encode v @ concat (map encode_entry entries) @ 101 # post)"
    "data = (pre @ encode (BBytes k)) @ encode v @ (concat (map encode_entry entries) @ 101 # post)"
    "data = (pre @ encode (BBytes k) @ encode v) @ concat (map encode_entry entries) @ 101 # post"
    using Cons.prems(2) e by simp_all
  have rk: "reads dv data (BBytes k)" and rv: "reads dv data v"
    using Cons.prems(1) e by auto
  have key: "dv (length pre) = Some (Inr (BBytes k, length (pre @ encode (BBytes k))))"
    by (rule readsD [OF rk split(1)]) simp
  have val: "dv (length (pre @ encode (BBytes k)))
      = Some (Inr (v, length (pre @ encode (BBytes k) @ encode v)))"
    using readsD [OF rv split(2)] by simp
  have first: "get_at data (length pre) = Some b"
    using split(1) b(1) by simp
  have order: "\<not> (acc \<noteq> [] \<and> k \<le> fst (last acc))"
    using Cons.prems(5) e by (cases acc rule: rev_cases) (auto simp: sorted_wrt_append)
  have fuel: "length (concat (map encode_entry entries)) < f"
    using Cons.prems(4) f b(1) e by simp
  have sorted: "sorted_wrt (<) (map fst ((acc @ [(k, v)]) @ entries))"
    using Cons.prems(5) e by simp
  have "dict_loop f dv data (length (pre @ encode (BBytes k) @ encode v)) (acc @ [(k, v)])
    = Some (Inr (BDict ((acc @ [(k, v)]) @ entries),
        length (pre @ encode (BBytes k) @ encode v) + length (concat (map encode_entry entries)) + 1))"
    using Cons.prems(1) by (intro Cons.IH [OF _ split(3) Cons.prems(3) fuel sorted]) auto
  with f key val first order b(2) e show ?case
    by (simp add: add.assoc)
qed

lemma sort_key_sorted: "sorted_wrt (<) (map fst (entries :: ('a::linorder \<times> 'b) list)) \<Longrightarrow> sort_key fst entries = entries"
  by (simp add: sort_key_id_if_sorted strict_sorted_iff)

lemma decode_value_encode:
  assumes "canonical v" and "depth + nesting v \<le> MAX_DECODE_DEPTH"
    and "length data \<le> usize_max" and "data = pre @ encode v @ post"
  shows "decode_value data (length pre) depth = Some (Inr (v, length pre + length (encode v)))"
  using assms
proof (induction v arbitrary: depth pre post)
  case (BBytes b)
  obtain d ds where d: "nat_to_string (length b) = d # ds" "is_digit d"
    using nat_to_string_Cons by blast
  have "get_at data (length pre) = Some d"
    using BBytes.prems(4) d(1) by (simp add: encode_simps)
  moreover have "decode_bytes data (length pre) = Inr (BBytes b, length pre + length (encode (BBytes b)))"
    by (rule decode_bytes_encode [OF BBytes.prems(4,3)])
  moreover have "d \<noteq> 105" "d \<noteq> 108" "d \<noteq> 100" "48 \<le> d" "d \<le> 57"
    using d(2) by (auto simp: is_digit_def)
  ultimately show ?case
    using BBytes.prems(2) by (subst decode_value.simps) simp
next
  case (BInt n)
  have "get_at data (length pre) = Some 105"
    using BInt.prems(4) by (simp add: encode_simps)
  moreover have "decode_int data (length pre) = Inr (BInt n, length pre + length (encode (BInt n)))"
    by (rule decode_int_encode [OF BInt.prems(4,3)])
  ultimately show ?case
    using BInt.prems(2) by (subst decode_value.simps) simp
next
  case (BList items)
  let ?dv = "\<lambda>p. decode_value data p (sat_add_usize depth 1)"
  have depth: "depth \<le> MAX_DECODE_DEPTH"
    using BList.prems(2) by simp
  have step: "sat_add_usize depth 1 = Suc depth"
    using depth by (simp add: sat_add_usize_def MAX_DECODE_DEPTH_def usize_max_def)
  have "reads ?dv data v" if v: "v \<in> set items" for v
    unfolding reads_def step
  proof (intro allI impI)
    fix pre post
    assume "data = pre @ encode v @ post"
    have "Suc (nesting v) \<le> MAX_DECODE_DEPTH - depth"
    proof -
      have "nesting (BList items) \<le> MAX_DECODE_DEPTH - depth"
        using BList.prems(2) by linarith
      with v show ?thesis
        unfolding nesting_le(1) by blast
    qed
    then have "Suc depth + nesting v \<le> MAX_DECODE_DEPTH" by simp
    moreover have "canonical v"
      using BList.prems(1) v by (simp add: list_all_iff)
    ultimately show "decode_value data (length pre) (Suc depth) = Some (Inr (v, length pre + length (encode v)))"
      using BList.IH [OF v] BList.prems(3) \<open>data = pre @ encode v @ post\<close> by blast
  qed
  moreover have data: "data = (pre @ [108]) @ concat (map encode items) @ 101 # post"
    using BList.prems(4) by (simp add: encode_simps)
  moreover have "length (concat (map encode items)) < Suc (length data)"
    by (subst data) simp
  ultimately have "list_loop (Suc (length data)) ?dv data (length (pre @ [108])) []
     = Some (Inr (BList ([] @ items), length (pre @ [108]) + length (concat (map encode items)) + 1))"
    using BList.prems(3) by (intro list_loop_encode)
  moreover have "get_at data (length pre) = Some 108"
    by (subst data) simp
  moreover have "checked_add_usize (length pre) 1 = Some (length (pre @ [108]))"
    using BList.prems(3) data by (simp add: checked_add_usize_def)
  ultimately show ?case
    using depth by (subst decode_value.simps)
      (simp add: decode_list_def encode_simps del: list_loop.simps)
next
  case (BDict entries)
  let ?dv = "\<lambda>p. decode_value data p (sat_add_usize depth 1)"
  have depth: "depth \<le> MAX_DECODE_DEPTH"
    using BDict.prems(2) by simp
  have step: "sat_add_usize depth 1 = Suc depth"
    using depth by (simp add: sat_add_usize_def MAX_DECODE_DEPTH_def usize_max_def)
  have within: "Suc depth + nesting v \<le> MAX_DECODE_DEPTH" if "(k, v) \<in> set entries" for k v
    using nesting_le(2) [of entries "MAX_DECODE_DEPTH - depth"] BDict.prems(2) that
    by (fastforce simp del: nesting.simps)
  have key: "reads ?dv data (BBytes k)" if "(k, v) \<in> set entries" for k v
    unfolding reads_def step
  proof (intro allI impI)
    fix pre post
    assume data: "data = pre @ encode (BBytes k) @ post"
    obtain d ds where d: "nat_to_string (length k) = d # ds" "is_digit d"
      using nat_to_string_Cons by blast
    have "get_at data (length pre) = Some d"
      using data d(1) by (simp add: encode_simps)
    moreover have "d \<noteq> 105" "d \<noteq> 108" "d \<noteq> 100" "48 \<le> d" "d \<le> 57"
      using d(2) by (auto simp: is_digit_def)
    ultimately show "decode_value data (length pre) (Suc depth)
        = Some (Inr (BBytes k, length pre + length (encode (BBytes k))))"
      using within [OF that] decode_bytes_encode [OF data BDict.prems(3)]
      by (subst decode_value.simps) simp
  qed
  have val: "reads ?dv data v" if "(k, v) \<in> set entries" for k v
    unfolding reads_def step
  proof (intro allI impI)
    fix pre post
    assume "data = pre @ encode v @ post"
    moreover have "canonical v"
      using BDict.prems(1) that by (auto simp: list_all_iff)
    ultimately show "decode_value data (length pre) (Suc depth)
        = Some (Inr (v, length pre + length (encode v)))"
      using BDict.IH [OF that] within [OF that] BDict.prems(3) by force
  qed
  have sorted: "sort_key fst entries = entries"
    using BDict.prems(1) by (intro sort_key_sorted) simp
  have data: "data = (pre @ [100]) @ concat (map encode_entry entries) @ 101 # post"
    using BDict.prems(4) by (simp add: encode_simps(4) sorted)
  have "length (concat (map encode_entry entries)) < Suc (length data)"
    by (subst data) simp
  moreover have "sorted_wrt (<) (map fst ([] @ entries))"
    using BDict.prems(1) by simp
  ultimately have "dict_loop (Suc (length data)) ?dv data (length (pre @ [100])) []
     = Some (Inr (BDict ([] @ entries), length (pre @ [100]) + length (concat (map encode_entry entries)) + 1))"
    using BDict.prems(3) data key val by (intro dict_loop_encode) auto
  moreover have "get_at data (length pre) = Some 100"
    by (subst data) simp
  moreover have "checked_add_usize (length pre) 1 = Some (length (pre @ [100]))"
    using BDict.prems(3) data by (simp add: checked_add_usize_def)
  ultimately show ?case
    using depth by (subst decode_value.simps)
      (simp add: decode_dict_def encode_simps(4) sorted del: dict_loop.simps)
qed

section \<open>Properties\<close>

definition encodable :: "bencode_value \<Rightarrow> bool" where
  "encodable v \<longleftrightarrow> canonical v \<and> nesting v \<le> MAX_DECODE_DEPTH \<and> length (encode v) \<le> usize_max"

lemma decode_encode_encodable: "encodable v \<Longrightarrow> decode (encode v) = Some (Inr v)"
  using decode_value_encode [of v 0 "encode v" "[]" "[]"]
  by (simp add: decode_def encodable_def)

interpretation bencode: roundtrip_codec encode "\<lambda>bs. the (decode bs)" encodable
  by unfold_locales (simp add: decode_encode_encodable)

lemma decode_answers:
  assumes "length data \<le> usize_max"
  shows "\<exists>r. decode data = Some r"
proof -
  obtain r where "decode_value data 0 0 = Some r"
    using decode_value_answers [OF assms, of 0 0] by (auto simp: answers_def)
  then show ?thesis
    by (auto simp: decode_def split: sum.split)
qed

lemma decode_yields_canonical: "decode data = Some (Inr v) \<Longrightarrow> canonical v"
  using yields_canonicalD [OF decode_value_canonical, of data 0 0]
  by (auto simp: decode_def split: option.splits sum.splits if_splits prod.splits)

text \<open>
  C14: The decoder is a left inverse of the encoder. For every value whose dictionaries have
  strictly increasing keys, which nests at most \<open>MAX_DECODE_DEPTH\<close> levels deep, and whose encoding
  fits the address space, decoding the encoding returns exactly that value.
\<close>
theorem bencode_roundtrip:
  assumes "canonical v" and "nesting v \<le> MAX_DECODE_DEPTH" and "length (encode v) \<le> usize_max"
  shows "decode (encode v) = Some (Inr v)"
  using assms by (intro decode_encode_encodable) (simp add: encodable_def)

theorem bencode_roundtrip_witness:
  "decode (encode (BDict [([97], BList [BInt 5, BBytes [1, 2]]), ([98], BInt (- 7))]))
     = Some (Inr (BDict [([97], BList [BInt 5, BBytes [1, 2]]), ([98], BInt (- 7))]))"
proof (rule bencode_roundtrip)
  let ?v = "BDict [([97], BList [BInt 5, BBytes [1, 2]]), ([98], BInt (- 7))]"
  show "canonical ?v" and "nesting ?v \<le> MAX_DECODE_DEPTH"
    by (simp_all add: MAX_DECODE_DEPTH_def)
  show "length (encode ?v) \<le> usize_max"
    by (simp add: encode_simps nat_to_string.simps int_to_string_def usize_max_def)
qed

text \<open>
  C15: Decoding is total on untrusted bytes. For every input that fits the address space the
  decoder returns (the loops never exhaust their fuel and the recursion stops at the depth
  limit), and what it accepts has strictly increasing keys in every dictionary at every level.
\<close>
theorem bencode_decode_total:
  assumes "length data \<le> usize_max"
  shows "\<exists>r. decode data = Some r \<and> (\<forall>v. r = Inr v \<longrightarrow> canonical v)"
  using decode_answers [OF assms] decode_yields_canonical by blast

theorem bencode_decode_total_witness:
  "\<exists>r. decode [100, 49, 58, 98, 105, 49, 101, 49, 58, 97, 105, 49, 101, 101] = Some r
      \<and> (\<forall>v. r = Inr v \<longrightarrow> canonical v)"
  by (rule bencode_decode_total) (simp add: usize_max_def)

text \<open>
  The decoder is not injective: the integer \<open>i+5e\<close> and the byte string \<open>01:a\<close> are accepted,
  though neither is the encoding of the value it decodes to (\<open>i5e\<close> and \<open>1:a\<close>). The checks for
  leading zeros and the negative zero do not see a leading plus sign, and the length of a byte
  string has no such check at all.
\<close>
theorem bencode_accepts_noncanonical:
  "decode [105, 43, 53, 101] = Some (Inr (BInt 5)) \<and> encode (BInt 5) = [105, 53, 101]
   \<and> decode [48, 49, 58, 97] = Some (Inr (BBytes [97])) \<and> encode (BBytes [97]) = [49, 58, 97]"
  by (simp_all add: decode_def decode_value.simps decode_int_def decode_bytes_def find_byte_def
      get_from_def get_range_def get_at_def checked_add_usize_def sat_add_usize_def usize_max_def
      MAX_INT_DIGITS_def parse_usize_def bounded_def is_digit_def encode_simps nat_to_string.simps
      int_to_string_def)

end
