(* ===== verification/Message.thy ===== *)
theory Message
  imports Prelude
begin

text \<open>
  The peer wire protocol, \<open>crates/p2p-distribute/src/message.rs\<close>: \<open>PeerMessage\<close>, \<open>MessageError\<close>,
  \<open>encode_message\<close>, \<open>decode_message\<close> and their helpers. Lengths are written with the casts of the
  code (\<open>len() as u32\<close> is \<open>word_of_nat\<close>, which wraps). A message is framed by a four byte length;
  the decoder reads one message from the front of its input and ignores what follows.
\<close>

section \<open>Messages and errors\<close>

datatype peer_message =
  KeepAlive
| Choke
| Unchoke
| Interested
| NotInterested
| Have (piece_index: u32)
| Bitfield (bits: bytes)
| Request u32 u32 u32
| Piece u32 u32 bytes
| Cancel u32 u32 u32
| Port u16
| Extended u8 bytes

datatype message_error =
  MsgTooShort u32 u32
| MsgTooLarge u32 u32
| MsgUnknownId u8
| MsgInvalidPayload u8 string

definition LENGTH_PREFIX_SIZE :: nat where "LENGTH_PREFIX_SIZE = 4"
definition MSG_CHOKE :: u8 where "MSG_CHOKE = 0"
definition MSG_UNCHOKE :: u8 where "MSG_UNCHOKE = 1"
definition MSG_INTERESTED :: u8 where "MSG_INTERESTED = 2"
definition MSG_NOT_INTERESTED :: u8 where "MSG_NOT_INTERESTED = 3"
definition MSG_HAVE :: u8 where "MSG_HAVE = 4"
definition MSG_BITFIELD :: u8 where "MSG_BITFIELD = 5"
definition MSG_REQUEST :: u8 where "MSG_REQUEST = 6"
definition MSG_PIECE :: u8 where "MSG_PIECE = 7"
definition MSG_CANCEL :: u8 where "MSG_CANCEL = 8"
definition MSG_PORT :: u8 where "MSG_PORT = 9"
definition MSG_EXTENDED :: u8 where "MSG_EXTENDED = 20"

definition MAX_MESSAGE_LENGTH :: u32 where
  "MAX_MESSAGE_LENGTH = 16 * 1024 * 1024"

lemmas msg_ids = MSG_CHOKE_def MSG_UNCHOKE_def MSG_INTERESTED_def MSG_NOT_INTERESTED_def
  MSG_HAVE_def MSG_BITFIELD_def MSG_REQUEST_def MSG_PIECE_def MSG_CANCEL_def MSG_PORT_def
  MSG_EXTENDED_def

fun message_id :: "peer_message \<Rightarrow> u8 option" where
  "message_id KeepAlive = None"
| "message_id Choke = Some MSG_CHOKE"
| "message_id Unchoke = Some MSG_UNCHOKE"
| "message_id Interested = Some MSG_INTERESTED"
| "message_id NotInterested = Some MSG_NOT_INTERESTED"
| "message_id (Have _) = Some MSG_HAVE"
| "message_id (Bitfield _) = Some MSG_BITFIELD"
| "message_id (Request _ _ _) = Some MSG_REQUEST"
| "message_id (Piece _ _ _) = Some MSG_PIECE"
| "message_id (Cancel _ _ _) = Some MSG_CANCEL"
| "message_id (Port _) = Some MSG_PORT"
| "message_id (Extended _ _) = Some MSG_EXTENDED"

fun is_data :: "peer_message \<Rightarrow> bool" where
  "is_data (Piece _ _ _) = True"
| "is_data _ = False"

fun is_control :: "peer_message \<Rightarrow> bool" where
  "is_control KeepAlive = False"
| "is_control (Piece _ _ _) = False"
| "is_control _ = True"

section \<open>Encoding\<close>

definition encode_id_only :: "u8 \<Rightarrow> bytes" where
  "encode_id_only mid = to_be (1 :: u32) @ [mid]"

definition encode_index_begin_length :: "u8 \<Rightarrow> u32 \<Rightarrow> u32 \<Rightarrow> u32 \<Rightarrow> bytes" where
  "encode_index_begin_length mid index begin len =
     to_be (13 :: u32) @ [mid] @ to_be index @ to_be begin @ to_be len"

fun encode_message :: "peer_message \<Rightarrow> bytes" where
  "encode_message KeepAlive = [0, 0, 0, 0]"
| "encode_message Choke = encode_id_only MSG_CHOKE"
| "encode_message Unchoke = encode_id_only MSG_UNCHOKE"
| "encode_message Interested = encode_id_only MSG_INTERESTED"
| "encode_message NotInterested = encode_id_only MSG_NOT_INTERESTED"
| "encode_message (Have i) = to_be (5 :: u32) @ [MSG_HAVE] @ to_be i"
| "encode_message (Bitfield bs) =
     to_be (sat_add 1 (word_of_nat (length bs)) :: u32) @ [MSG_BITFIELD] @ bs"
| "encode_message (Request i b l) = encode_index_begin_length MSG_REQUEST i b l"
| "encode_message (Piece i b blk) =
     to_be (sat_add 9 (word_of_nat (length blk)) :: u32) @ [MSG_PIECE] @ to_be i @ to_be b @ blk"
| "encode_message (Cancel i b l) = encode_index_begin_length MSG_CANCEL i b l"
| "encode_message (Port p) = to_be (3 :: u32) @ [MSG_PORT] @ to_be p"
| "encode_message (Extended x payload) =
     to_be (sat_add 2 (word_of_nat (length payload)) :: u32) @ [MSG_EXTENDED] @ [x] @ payload"

section \<open>Decoding\<close>

definition read_u32 :: "bytes \<Rightarrow> nat \<Rightarrow> message_error + u32" where
  "read_u32 data offset =
     and_then (ok_or (get_range data offset (sat_add_usize offset 4))
         (MsgTooShort (word_of_nat (sat_add_usize offset 4)) (word_of_nat (length data))))
       (\<lambda>slice'. Inr (from_be slice'))"

definition decode_index_begin_length :: "u8 \<Rightarrow> bytes \<Rightarrow> message_error + u32 \<times> u32 \<times> u32" where
  "decode_index_begin_length msg_id payload =
     (if length payload < 12
      then Inl (MsgInvalidPayload msg_id ''requires 12-byte payload (index + begin + length)'')
      else and_then (read_u32 payload 0) (\<lambda>index.
           and_then (read_u32 payload 4) (\<lambda>begin.
           and_then (read_u32 payload 8) (\<lambda>len. Inr (index, begin, len)))))"

text \<open>The body of a message: the match on the identifier.\<close>

definition decode_body :: "u8 \<Rightarrow> bytes \<Rightarrow> message_error + peer_message" where
  "decode_body msg_id payload =
     (if msg_id = MSG_CHOKE then Inr Choke
      else if msg_id = MSG_UNCHOKE then Inr Unchoke
      else if msg_id = MSG_INTERESTED then Inr Interested
      else if msg_id = MSG_NOT_INTERESTED then Inr NotInterested
      else if msg_id = MSG_HAVE then
        and_then (ok_or (get_range payload 0 4)
            (MsgInvalidPayload msg_id ''have message requires 4-byte piece index''))
          (\<lambda>idx. Inr (Have (from_be idx)))
      else if msg_id = MSG_BITFIELD then Inr (Bitfield payload)
      else if msg_id = MSG_REQUEST then
        and_then (decode_index_begin_length msg_id payload) (\<lambda>(i, b, l). Inr (Request i b l))
      else if msg_id = MSG_PIECE then
        (if length payload < 8
         then Inl (MsgInvalidPayload msg_id
           ''piece message requires at least 8 bytes (index + begin)'')
         else and_then (read_u32 payload 0) (\<lambda>index.
              and_then (read_u32 payload 4) (\<lambda>begin.
                Inr (Piece index begin
                  (case get_from payload 8 of None \<Rightarrow> [] | Some blk \<Rightarrow> blk)))))
      else if msg_id = MSG_CANCEL then
        and_then (decode_index_begin_length msg_id payload) (\<lambda>(i, b, l). Inr (Cancel i b l))
      else if msg_id = MSG_PORT then
        (if length payload < 2
         then Inl (MsgInvalidPayload msg_id ''port message requires 2-byte port'')
         else Inr (Port (from_be (take 2 payload))))
      else if msg_id = MSG_EXTENDED then
        and_then (ok_or (get_at payload 0)
            (MsgInvalidPayload msg_id ''extended message requires at least 1-byte extension ID''))
          (\<lambda>x. Inr (Extended x (case get_from payload 1 of None \<Rightarrow> [] | Some p \<Rightarrow> p)))
      else Inl (MsgUnknownId msg_id))"

definition decode_message :: "bytes \<Rightarrow> message_error + peer_message" where
  "decode_message data =
     and_then (ok_or (get_range data 0 LENGTH_PREFIX_SIZE)
         (MsgTooShort (word_of_nat LENGTH_PREFIX_SIZE) (word_of_nat (length data)))) (\<lambda>len_bytes.
       let len = (from_be len_bytes :: u32) in
       if len = 0 then Inr KeepAlive
       else if len > MAX_MESSAGE_LENGTH then Inl (MsgTooLarge len MAX_MESSAGE_LENGTH)
       else
         let total_len = sat_add_usize LENGTH_PREFIX_SIZE (unat len) in
         if length data < total_len
         then Inl (MsgTooShort (word_of_nat total_len) (word_of_nat (length data)))
         else
           and_then (ok_or (get_range data LENGTH_PREFIX_SIZE total_len)
               (MsgTooShort (word_of_nat total_len) (word_of_nat (length data)))) (\<lambda>body.
           and_then (ok_or (get_at body 0) (MsgTooShort 1 0)) (\<lambda>msg_id.
             decode_body msg_id (case get_from body 1 of None \<Rightarrow> [] | Some p \<Rightarrow> p))))"

section \<open>Decoding what was encoded\<close>

text \<open>The identifier and payload of a message other than the keep-alive.\<close>

fun payload_of :: "peer_message \<Rightarrow> bytes" where
  "payload_of (Have i) = to_be i"
| "payload_of (Bitfield bs) = bs"
| "payload_of (Request i b l) = to_be i @ to_be b @ to_be l"
| "payload_of (Piece i b blk) = to_be i @ to_be b @ blk"
| "payload_of (Cancel i b l) = to_be i @ to_be b @ to_be l"
| "payload_of (Port p) = to_be p"
| "payload_of (Extended x payload) = x # payload"
| "payload_of _ = []"

definition fits_frame :: "peer_message \<Rightarrow> bool" where
  "fits_frame m \<longleftrightarrow> length (payload_of m) < unat MAX_MESSAGE_LENGTH"

lemma unat_MAX_MESSAGE_LENGTH: "unat MAX_MESSAGE_LENGTH = 16777216"
  by (simp add: MAX_MESSAGE_LENGTH_def)

lemma length_to_be32 [simp]: "length (to_be (w :: u32)) = 4"
  by (rule be32.length_enc)

lemma length_to_be16 [simp]: "length (to_be (w :: u16)) = 2"
  by (rule be16.length_enc)

lemma unat_u32_of_nat: "n < 4294967296 \<Longrightarrow> unat (word_of_nat n :: u32) = n"
  by (simp add: unsigned_of_nat take_bit_eq_mod)

lemma sat_add_length:
  fixes k :: u32
  assumes "unat k + n < 4294967296"
  shows "sat_add k (word_of_nat n) = word_of_nat (unat k + n)"
  using assms by (simp add: sat_add_def unat_u32_of_nat)

lemma encode_message_frame:
  assumes "message_id m = Some mid" and "fits_frame m"
  shows "encode_message m
     = to_be (word_of_nat (Suc (length (payload_of m))) :: u32) @ mid # payload_of m"
  using assms
  by (cases m) (auto simp: encode_id_only_def encode_index_begin_length_def fits_frame_def
      unat_MAX_MESSAGE_LENGTH sat_add_length)

lemma read_u32_first:
  "read_u32 (to_be w @ rest) 0 = Inr w"
  by (simp add: read_u32_def sat_add_usize_def usize_max_def get_range_def be32.dec_enc)

lemma read_u32_second:
  "read_u32 (to_be (v :: u32) @ to_be w @ rest) 4 = Inr w"
  by (simp add: read_u32_def sat_add_usize_def usize_max_def get_range_def be32.dec_enc)

lemma read_u32_third:
  "read_u32 (to_be (u :: u32) @ to_be (v :: u32) @ to_be w) 8 = Inr w"
  by (simp add: read_u32_def sat_add_usize_def usize_max_def get_range_def be32.dec_enc)

lemma decode_index_begin_length_enc:
  "decode_index_begin_length mid (to_be i @ to_be b @ to_be l) = Inr (i, b, l)"
  using read_u32_first [of i "to_be b @ to_be l"] read_u32_second [of i b "to_be l"]
    read_u32_third [of i b l]
  by (simp add: decode_index_begin_length_def)

lemma decode_body_payload:
  assumes "message_id m = Some mid"
  shows "decode_body mid (payload_of m) = Inr m"
proof (cases m)
  case (Piece i b blk)
  with assms read_u32_first [of i "to_be b @ blk"] read_u32_second [of i b blk] show ?thesis
    by (auto simp: decode_body_def msg_ids get_from_def)
next
  case (Have i)
  with assms show ?thesis
    by (auto simp: decode_body_def msg_ids get_range_def be32.dec_enc)
next
  case (Port p)
  with assms show ?thesis
    by (auto simp: decode_body_def msg_ids be16.dec_enc)
qed (use assms in \<open>auto simp: decode_body_def msg_ids decode_index_begin_length_enc get_at_def get_from_def\<close>)

text \<open>One frame at the front of a stream: what follows the frame does not matter.\<close>

lemma decode_message_frame:
  assumes "0 < n" and "n \<le> unat MAX_MESSAGE_LENGTH" and "length body = n"
  shows "decode_message (to_be (word_of_nat n :: u32) @ body @ rest) = decode_body (hd body) (tl body)"
proof -
  have n: "unat (word_of_nat n :: u32) = n"
    using assms(2) by (simp add: unat_u32_of_nat unat_MAX_MESSAGE_LENGTH)
  have "(word_of_nat n :: u32) \<noteq> 0"
    using n assms(1) by (metis unat_0 less_numeral_extra(3))
  moreover have "\<not> word_of_nat n > MAX_MESSAGE_LENGTH"
    using n assms(2) by (simp add: word_less_nat_alt)
  moreover have "sat_add_usize 4 n = 4 + n"
    using assms(2) by (simp add: sat_add_usize_def usize_max_def unat_MAX_MESSAGE_LENGTH)
  moreover obtain b bs where "body = b # bs"
    using assms(1,3) by (cases body) auto
  moreover have "take n (body @ rest) = body"
    using assms(3) by simp
  ultimately show ?thesis
    using n assms(3)
    by (simp add: decode_message_def LENGTH_PREFIX_SIZE_def get_range_def be32.dec_enc
        get_at_def get_from_def Let_def)
qed

lemma decode_encode_message:
  assumes "fits_frame m"
  shows "decode_message (encode_message m @ rest) = Inr m"
proof (cases "message_id m")
  case None
  then have "m = KeepAlive"
    by (cases m) auto
  then show ?thesis
    by (simp add: decode_message_def LENGTH_PREFIX_SIZE_def get_range_def from_be_def be_val_def)
next
  case (Some mid)
  have "decode_message (encode_message m @ rest)
      = decode_message (to_be (word_of_nat (Suc (length (payload_of m))) :: u32)
          @ (mid # payload_of m) @ rest)"
    using encode_message_frame [OF Some assms] by simp
  also have "\<dots> = decode_body mid (payload_of m)"
    by (subst decode_message_frame) (use assms in \<open>auto simp: fits_frame_def\<close>)
  finally show ?thesis
    using decode_body_payload [OF Some] by simp
qed

interpretation wire: roundtrip_codec encode_message decode_message fits_frame
  by unfold_locales (use decode_encode_message [of _ "[]"] in simp)

section \<open>Reading a stream\<close>

lemma get_range_front:
  "b \<le> length xs \<Longrightarrow> get_range (xs @ ys) a b = get_range xs a b"
  by (simp add: get_range_def)

lemma decode_message_stable_aux:
  assumes "decode_message data = r" and "\<And>n l. r \<noteq> Inl (MsgTooShort n l)"
  shows "decode_message (data @ rest) = r"
proof (cases "length data < LENGTH_PREFIX_SIZE")
  case True
  then show ?thesis
    using assms by (auto simp: decode_message_def get_range_def LENGTH_PREFIX_SIZE_def)
next
  case False
  define len where "len = (from_be (take 4 data) :: u32)"
  define total where "total = sat_add_usize 4 (unat len)"
  have front: "get_range (data @ rest) 0 4 = Some (take 4 data)" "get_range data 0 4 = Some (take 4 data)"
    using False by (simp_all add: get_range_def LENGTH_PREFIX_SIZE_def)
  consider "len = 0" | "len \<noteq> 0" "len > MAX_MESSAGE_LENGTH"
    | "len \<noteq> 0" "\<not> len > MAX_MESSAGE_LENGTH" "length data < total"
    | "len \<noteq> 0" "\<not> len > MAX_MESSAGE_LENGTH" "total \<le> length data"
    by linarith
  then show ?thesis
  proof cases
    case 1
    then show ?thesis
      using assms(1) front
      by (simp add: decode_message_def LENGTH_PREFIX_SIZE_def Let_def flip: len_def)
  next
    case 2
    then show ?thesis
      using assms(1) front
      by (simp add: decode_message_def LENGTH_PREFIX_SIZE_def Let_def flip: len_def)
  next
    case 3
    then have "r = Inl (MsgTooShort (word_of_nat total) (word_of_nat (length data)))"
      using assms(1) front
      by (simp add: decode_message_def LENGTH_PREFIX_SIZE_def Let_def flip: len_def total_def)
    with assms(2) show ?thesis by blast
  next
    case 4
    have "4 \<le> total"
      by (simp add: total_def sat_add_usize_def usize_max_def)
    then obtain body where "get_range data 4 total = Some body"
      using 4(3) by (simp add: get_range_def)
    then show ?thesis
      using 4 assms(1) front get_range_front [OF 4(3), of rest 4]
      by (simp add: decode_message_def LENGTH_PREFIX_SIZE_def Let_def flip: len_def total_def)
  qed
qed

section \<open>Properties\<close>

text \<open>
  A framed message is read back exactly. For every message whose body fits the 16 MiB frame
  limit, decoding the encoding followed by any further bytes of the stream returns the message.
\<close>
theorem message_roundtrip:
  assumes "length (payload_of m) < unat MAX_MESSAGE_LENGTH"
  shows "decode_message (encode_message m @ rest) = Inr m"
  using assms by (intro decode_encode_message) (simp add: fits_frame_def)

theorem message_roundtrip_witness:
  "decode_message (encode_message (Piece 7 16384 [222, 173]) @ [0, 0, 0, 1, 9])
     = Inr (Piece 7 16384 [222, 173])"
  by (rule message_roundtrip) (simp add: unat_MAX_MESSAGE_LENGTH)

text \<open>
  The decoder can be run on a growing receive buffer. Every answer other than "too short"
  (a message, an oversized frame, an unknown identifier, a bad payload) is final: more bytes
  behind the buffer never change it.
\<close>
theorem decode_message_stable:
  assumes "decode_message data = r" and "\<And>needed actual. r \<noteq> Inl (MsgTooShort needed actual)"
  shows "decode_message (data @ rest) = r"
  using assms by (rule decode_message_stable_aux)

theorem decode_message_stable_witness:
  "decode_message ([0, 0, 0, 1, 99] @ [1, 2, 3]) = Inl (MsgUnknownId 99)"
proof (rule decode_message_stable)
  show "decode_message [0, 0, 0, 1, 99] = Inl (MsgUnknownId 99)"
    by (simp add: decode_message_def LENGTH_PREFIX_SIZE_def get_range_def from_be_def be_val_def
        MAX_MESSAGE_LENGTH_def sat_add_usize_def usize_max_def get_at_def get_from_def
        decode_body_def msg_ids)
qed simp

end
