(* ===== verification/FastExtension.thy ===== *)
theory FastExtension
  imports Message
begin

text \<open>
  The fast extension of the wire protocol, \<open>crates/p2p-distribute/src/fast_extension.rs\<close>: the five
  messages with their codec, \<open>AllowedFastSet\<close> (at most 100 pieces, in the order they were added)
  and \<open>SuggestCache\<close> (at most 50 pieces, the most recent last). The two containers are lists, as
  their \<open>Vec\<close> fields are, and are refined to a function of the history of \<open>add\<close> calls.
\<close>

section \<open>Messages\<close>

datatype fast_message =
  SuggestPiece u32
| HaveAll
| HaveNone
| RejectRequest u32 u32 u32
| AllowedFast u32

datatype fast_decode_error =
  PayloadTooShort u8 u32 u32
| NotFastMessage u8

definition MSG_SUGGEST_PIECE :: u8 where "MSG_SUGGEST_PIECE = 13"
definition MSG_HAVE_ALL :: u8 where "MSG_HAVE_ALL = 14"
definition MSG_HAVE_NONE :: u8 where "MSG_HAVE_NONE = 15"
definition MSG_REJECT_REQUEST :: u8 where "MSG_REJECT_REQUEST = 16"
definition MSG_ALLOWED_FAST :: u8 where "MSG_ALLOWED_FAST = 17"
definition MAX_ALLOWED_FAST_COUNT :: nat where "MAX_ALLOWED_FAST_COUNT = 100"
definition MAX_SUGGESTIONS :: nat where "MAX_SUGGESTIONS = 50"

lemmas fast_ids = MSG_SUGGEST_PIECE_def MSG_HAVE_ALL_def MSG_HAVE_NONE_def
  MSG_REJECT_REQUEST_def MSG_ALLOWED_FAST_def

fun fast_message_id :: "fast_message \<Rightarrow> u8" where
  "fast_message_id (SuggestPiece _) = MSG_SUGGEST_PIECE"
| "fast_message_id HaveAll = MSG_HAVE_ALL"
| "fast_message_id HaveNone = MSG_HAVE_NONE"
| "fast_message_id (RejectRequest _ _ _) = MSG_REJECT_REQUEST"
| "fast_message_id (AllowedFast _) = MSG_ALLOWED_FAST"

fun fast_encode :: "fast_message \<Rightarrow> bytes" where
  "fast_encode (SuggestPiece i) = to_be (5 :: u32) @ [fast_message_id (SuggestPiece i)] @ to_be i"
| "fast_encode (AllowedFast i) = to_be (5 :: u32) @ [fast_message_id (AllowedFast i)] @ to_be i"
| "fast_encode HaveAll = to_be (1 :: u32) @ [fast_message_id HaveAll]"
| "fast_encode HaveNone = to_be (1 :: u32) @ [fast_message_id HaveNone]"
| "fast_encode (RejectRequest i b l) =
     to_be (13 :: u32) @ [fast_message_id (RejectRequest i b l)] @ to_be i @ to_be b @ to_be l"

definition read_u32_at :: "bytes \<Rightarrow> nat \<Rightarrow> fast_decode_error + u32" where
  "read_u32_at data offset =
     and_then (ok_or (get_range data offset (sat_add_usize offset 4))
         (PayloadTooShort 0 (word_of_nat (sat_add_usize offset 4)) (word_of_nat (length data))))
       (\<lambda>bs. Inr (from_be bs))"

definition read_piece_index :: "bytes \<Rightarrow> u8 \<Rightarrow> fast_decode_error + u32" where
  "read_piece_index payload msg_id =
     (if length payload < 4 then Inl (PayloadTooShort msg_id 4 (word_of_nat (length payload)))
      else read_u32_at payload 0)"

definition fast_decode :: "u8 \<Rightarrow> bytes \<Rightarrow> fast_decode_error + fast_message" where
  "fast_decode msg_id payload =
     (if msg_id = MSG_SUGGEST_PIECE then
        and_then (read_piece_index payload msg_id) (\<lambda>index. Inr (SuggestPiece index))
      else if msg_id = MSG_HAVE_ALL then Inr HaveAll
      else if msg_id = MSG_HAVE_NONE then Inr HaveNone
      else if msg_id = MSG_REJECT_REQUEST then
        (if length payload < 12
         then Inl (PayloadTooShort msg_id 12 (word_of_nat (length payload)))
         else and_then (read_u32_at payload 0) (\<lambda>index.
              and_then (read_u32_at payload 4) (\<lambda>begin.
              and_then (read_u32_at payload 8) (\<lambda>len. Inr (RejectRequest index begin len)))))
      else if msg_id = MSG_ALLOWED_FAST then
        and_then (read_piece_index payload msg_id) (\<lambda>index. Inr (AllowedFast index))
      else Inl (NotFastMessage msg_id))"

lemma read_u32_at_enc:
  "read_u32_at (to_be w @ rest) 0 = Inr w"
  "read_u32_at (to_be (v :: u32) @ to_be w @ rest) 4 = Inr w"
  "read_u32_at (to_be (u :: u32) @ to_be (v :: u32) @ to_be w) 8 = Inr w"
  by (simp_all add: read_u32_at_def sat_add_usize_def usize_max_def get_range_def be32.dec_enc)

lemma fast_decode_frame:
  "\<exists>payload. fast_encode m = to_be (word_of_nat (Suc (length payload)) :: u32)
       @ fast_message_id m # payload
     \<and> length payload \<le> 12 \<and> fast_decode (fast_message_id m) payload = Inr m"
proof (cases m)
  case (RejectRequest i b l)
  then show ?thesis
    using read_u32_at_enc(1) [of i "to_be b @ to_be l"] read_u32_at_enc(2) [of i b "to_be l"]
      read_u32_at_enc(3) [of i b l]
    by (intro exI [of _ "to_be i @ to_be b @ to_be l"]) (simp add: fast_decode_def fast_ids)
next
  case (SuggestPiece i)
  then show ?thesis
    using read_u32_at_enc(1) [of i "[]"]
    by (intro exI [of _ "to_be i"]) (simp add: fast_decode_def fast_ids read_piece_index_def)
next
  case (AllowedFast i)
  then show ?thesis
    using read_u32_at_enc(1) [of i "[]"]
    by (intro exI [of _ "to_be i"]) (simp add: fast_decode_def fast_ids read_piece_index_def)
qed (simp_all add: fast_decode_def fast_ids)

text \<open>The identifiers of the extension are free in the base protocol.\<close>

lemma fast_message_id_unknown: "decode_body (fast_message_id m) payload = Inl (MsgUnknownId (fast_message_id m))"
  by (cases m) (simp_all add: decode_body_def msg_ids fast_ids)

section \<open>The allowed-fast set\<close>

type_synonym allowed_fast_set = "u32 list"

definition afs_new :: allowed_fast_set where
  "afs_new = []"

definition afs_add :: "u32 \<Rightarrow> allowed_fast_set \<Rightarrow> bool \<times> allowed_fast_set" where
  "afs_add p pieces =
     (if length pieces \<ge> MAX_ALLOWED_FAST_COUNT then (False, pieces)
      else if p \<in> set pieces then (False, pieces)
      else (True, pieces @ [p]))"

definition afs_contains :: "u32 \<Rightarrow> allowed_fast_set \<Rightarrow> bool" where
  "afs_contains p pieces \<longleftrightarrow> p \<in> set pieces"

definition afs_clear :: "allowed_fast_set \<Rightarrow> allowed_fast_set" where
  "afs_clear pieces = []"

text \<open>The pieces of a history in the order of their first occurrence.\<close>

definition firsts :: "'a list \<Rightarrow> 'a list" where
  "firsts xs = rev (remdups (rev xs))"

lemma firsts_simps [simp]:
  "firsts [] = []"
  "firsts (xs @ [x]) = (if x \<in> set xs then firsts xs else firsts xs @ [x])"
  "set (firsts xs) = set xs"
  "distinct (firsts xs)"
  by (simp_all add: firsts_def)

lemma afs_history:
  "fold (\<lambda>p s. snd (afs_add p s)) ps afs_new = take MAX_ALLOWED_FAST_COUNT (firsts ps)"
proof (induction ps rule: rev_induct)
  case Nil
  then show ?case by (simp add: afs_new_def)
next
  case (snoc p ps)
  have full: "length (firsts ps) < MAX_ALLOWED_FAST_COUNT \<Longrightarrow> take MAX_ALLOWED_FAST_COUNT (firsts ps) = firsts ps"
    by simp
  have "\<lbrakk>p \<notin> set ps; \<not> MAX_ALLOWED_FAST_COUNT \<le> length (firsts ps)\<rbrakk> \<Longrightarrow>
     take MAX_ALLOWED_FAST_COUNT (firsts ps @ [p]) = firsts ps @ [p]"
    by simp
  with snoc full show ?case
    by (auto simp: afs_add_def not_le min_def simp del: take_append dest: in_set_takeD)
      (auto simp: min_def split: if_splits dest: in_set_takeD)
qed

section \<open>The suggestion cache\<close>

type_synonym suggest_cache = "u32 list"

definition suggest_new :: suggest_cache where
  "suggest_new = []"

definition suggest_add :: "u32 \<Rightarrow> suggest_cache \<Rightarrow> suggest_cache" where
  "suggest_add p suggestions =
     (let kept = filter (\<lambda>q. q \<noteq> p) suggestions;
          trimmed = (if length kept \<ge> MAX_SUGGESTIONS then remove_at 0 kept else kept)
      in trimmed @ [p])"

definition is_suggested :: "u32 \<Rightarrow> suggest_cache \<Rightarrow> bool" where
  "is_suggested p suggestions \<longleftrightarrow> p \<in> set suggestions"

definition suggest_clear :: "suggest_cache \<Rightarrow> suggest_cache" where
  "suggest_clear suggestions = []"

text \<open>The last \<open>n\<close> elements of a list.\<close>

definition last_n :: "nat \<Rightarrow> 'a list \<Rightarrow> 'a list" where
  "last_n n xs = drop (length xs - n) xs"

lemma remdups_snoc: "remdups (xs @ [x]) = filter (\<lambda>y. y \<noteq> x) (remdups xs) @ [x]"
  by (induction xs) auto

lemma suggest_add_last_n:
  assumes "distinct xs"
  shows "suggest_add p (last_n MAX_SUGGESTIONS xs)
     = last_n MAX_SUGGESTIONS (filter (\<lambda>q. q \<noteq> p) xs @ [p])"
proof (cases "length xs \<le> MAX_SUGGESTIONS")
  case True
  have shrink: "length (filter (\<lambda>q. q \<noteq> p) xs) \<le> length xs"
    by simp
  show ?thesis
  proof (cases "length (filter (\<lambda>q. q \<noteq> p) xs) < MAX_SUGGESTIONS")
    case less: True
    with True show ?thesis
      by (simp add: suggest_add_def last_n_def not_le)
  next
    case False
    with True shrink have "length (filter (\<lambda>q. q \<noteq> p) xs) = MAX_SUGGESTIONS"
      by linarith
    moreover have "0 < MAX_SUGGESTIONS"
      by (simp add: MAX_SUGGESTIONS_def)
    ultimately show ?thesis
      using True by (simp add: suggest_add_def last_n_def remove_at_def Let_def Suc_diff_le)
  qed
next
  case False
  define a where "a = take (length xs - MAX_SUGGESTIONS) xs"
  define l where "l = drop (length xs - MAX_SUGGESTIONS) xs"
  have xs: "xs = a @ l" and l: "length l = MAX_SUGGESTIONS"
    using False by (simp_all add: a_def l_def)
  have last_n: "last_n MAX_SUGGESTIONS xs = l"
    by (simp add: last_n_def l_def)
  show ?thesis
  proof (cases "p \<in> set l")
    case True
    then obtain l1 l2 where l12: "l = l1 @ p # l2"
      by (meson split_list)
    with assms xs have "p \<notin> set a" "p \<notin> set l1" "p \<notin> set l2"
      by auto
    then have "filter (\<lambda>q. q \<noteq> p) a = a" "filter (\<lambda>q. q \<noteq> p) l = l1 @ l2"
      using l12 by (simp_all add: filter_neq)
    moreover from l l12 have "Suc (length l1 + length l2) = MAX_SUGGESTIONS" by simp
    ultimately have "suggest_add p l = l1 @ l2 @ [p]"
      "last_n MAX_SUGGESTIONS (filter (\<lambda>q. q \<noteq> p) xs @ [p]) = l1 @ l2 @ [p]"
      by (simp_all add: suggest_add_def last_n_def Let_def xs)
    then show ?thesis
      by (simp add: last_n)
  next
    case False
    then have "filter (\<lambda>q. q \<noteq> p) l = l"
      by (rule filter_neq)
    moreover have "l \<noteq> []"
      using l by (auto simp: MAX_SUGGESTIONS_def)
    ultimately have "suggest_add p l = tl l @ [p]"
      "last_n MAX_SUGGESTIONS (filter (\<lambda>q. q \<noteq> p) xs @ [p]) = tl l @ [p]"
      using l by (simp_all add: suggest_add_def last_n_def Let_def remove_at_def xs drop_Suc Suc_diff_le
          length_greater_0_conv [symmetric] del: length_greater_0_conv)
    then show ?thesis
      by (simp add: last_n)
  qed
qed

lemma suggest_history:
  "fold suggest_add ps suggest_new = last_n MAX_SUGGESTIONS (remdups ps)"
proof (induction ps rule: rev_induct)
  case Nil
  then show ?case by (simp add: suggest_new_def last_n_def)
next
  case (snoc p ps)
  then show ?case
    by (simp add: suggest_add_last_n remdups_snoc del: remdups_append2)
qed

section \<open>Properties\<close>

text \<open>
  A fast-extension message survives the wire. Its encoding is a frame with the right length
  prefix and identifier, the base decoder passes the frame on as an unknown identifier, and the
  extension decoder returns the message from the identifier and the rest of the frame.
\<close>
theorem fast_message_roundtrip:
  "decode_message (fast_encode m) = Inl (MsgUnknownId (fast_message_id m))
   \<and> get_at (fast_encode m) 4 = Some (fast_message_id m)
   \<and> fast_decode (fast_message_id m) (drop 5 (fast_encode m)) = Inr m"
proof -
  obtain payload where p: "fast_encode m = to_be (word_of_nat (Suc (length payload)) :: u32)
       @ fast_message_id m # payload" "length payload \<le> 12"
    "fast_decode (fast_message_id m) payload = Inr m"
    using fast_decode_frame by blast
  have "decode_message (fast_encode m) = decode_body (fast_message_id m) payload"
    using decode_message_frame [of "Suc (length payload)" "fast_message_id m # payload" "[]"] p(2)
    by (simp add: p(1) unat_MAX_MESSAGE_LENGTH)
  with p show ?thesis
    by (simp add: fast_message_id_unknown get_at_def nth_append)
qed

text \<open>
  The suggestion cache holds exactly the 50 most recently suggested pieces. After any history
  of \<open>add\<close> calls it is the last 50 entries of the history with only the latest occurrence of each
  piece kept, so it has no duplicates and its order is the order of recency.
\<close>
theorem suggest_cache_refines_history:
  "fold suggest_add ps suggest_new = last_n 50 (remdups ps)
   \<and> distinct (fold suggest_add ps suggest_new)
   \<and> length (fold suggest_add ps suggest_new) \<le> 50"
  using suggest_history [of ps] by (simp add: last_n_def MAX_SUGGESTIONS_def)

text \<open>
  The allowed-fast set cannot be grown past its bound by a peer. After any history of \<open>add\<close>
  calls it holds the first 100 distinct pieces of the history, in the order of their first \<open>add\<close>.
\<close>
theorem allowed_fast_refines_history:
  "fold (\<lambda>p s. snd (afs_add p s)) ps afs_new = take 100 (rev (remdups (rev ps)))"
  using afs_history [of ps] by (simp add: firsts_def MAX_ALLOWED_FAST_COUNT_def)

end
