(* ===== verification/Bits.thy ===== *)
theory Bits
  imports Prelude
begin

unbundle bit_operations_syntax

text \<open>
  The bit operations of the packed bitfields (\<open>(b >> k) & 1 == 1\<close>, \<open>b |= 1 << k\<close>,
  \<open>b &= !(1 << k)\<close>, \<open>count_ones\<close>) and the interface \<open>bitset\<close> of a packed set of piece indices. Two
  components provide it: the peer bitfields, which store bit 0 in the most significant bit of the
  first byte, and the resume file, which stores it in the least significant bit.
\<close>

section \<open>One byte\<close>

definition bit_is_set :: "u8 \<Rightarrow> nat \<Rightarrow> bool" where
  "bit_is_set b k \<longleftrightarrow> drop_bit k b AND 1 = 1"

definition bit_or :: "u8 \<Rightarrow> nat \<Rightarrow> u8" where
  "bit_or b k = b OR push_bit k 1"

definition bit_and_not :: "u8 \<Rightarrow> nat \<Rightarrow> u8" where
  "bit_and_not b k = b AND NOT (push_bit k 1)"

definition count_ones :: "u8 \<Rightarrow> nat" where
  "count_ones b = length (filter (bit b) [0..<8])"

lemma bit_is_set_iff [simp]: "bit_is_set b k \<longleftrightarrow> bit b k"
  by (simp add: bit_is_set_def bit_iff_odd_drop_bit and_one_eq odd_iff_mod_2_eq_one)

lemma bit_exp_u8: "k < 8 \<Longrightarrow> bit (2 ^ k :: u8) j \<longleftrightarrow> j = k"
  by (auto simp: bit_exp_iff)

lemma bit_bit_or: "k < 8 \<Longrightarrow> bit (bit_or b k) j \<longleftrightarrow> bit b j \<or> j = k"
  by (auto simp: bit_or_def bit_or_iff bit_exp_u8)

lemma bit_bit_and_not: "k < 8 \<Longrightarrow> bit (bit_and_not b k) j \<longleftrightarrow> bit b j \<and> j \<noteq> k"
  by (auto simp: bit_and_not_def bit_and_iff bit_not_iff bit_exp_u8 dest: bit_imp_le_length)

lemma count_ones_le: "count_ones b \<le> 8"
  unfolding count_ones_def by (rule order_trans [OF length_filter_le]) simp

section \<open>Packed sets of indices\<close>

locale bitset =
  fixes has :: "'s \<Rightarrow> 'i \<Rightarrow> bool" and put :: "'s \<Rightarrow> 'i \<Rightarrow> 's" and in_range :: "'s \<Rightarrow> 'i \<Rightarrow> bool"
  assumes has_put: "has (put s i) j \<longleftrightarrow> has s j \<or> i = j \<and> in_range s i"
    and range_put: "in_range (put s i) j = in_range s j"
    and has_range: "has s j \<Longrightarrow> in_range s j"
begin

lemma put_idem: "has s i \<Longrightarrow> has (put s i) j = has s j"
  by (auto simp: has_put)

lemma put_commute: "has (put (put s i) k) j = has (put (put s k) i) j"
  by (auto simp: has_put range_put)

lemma range_fold: "in_range (fold (\<lambda>i s. put s i) is s) j = in_range s j"
  by (induction "is" arbitrary: s) (simp_all add: range_put)

lemma has_fold: "has (fold (\<lambda>i s. put s i) is s) j \<longleftrightarrow> has s j \<or> j \<in> set is \<and> in_range s j"
  by (induction "is" arbitrary: s) (auto simp: has_put range_put)

end

end
