(* ===== verification/Bitfield.thy ===== *)
theory Bitfield
  imports Bits
begin

text \<open>
  The bitfields peers announce, \<open>crates/p2p-distribute/src/bitfield.rs\<close>: \<open>PeerBitfield\<close> with all
  its operations and \<open>rarity_scores\<close>. Piece 0 is the most significant bit of the first byte. The
  bits behind the last piece are the spare bits; \<open>no_spare\<close> says that they are zero.
\<close>

record peer_bitfield =
  bf_bytes :: bytes
  bf_piece_count :: u32

section \<open>Operations\<close>

definition bytes_needed :: "u32 \<Rightarrow> nat" where
  "bytes_needed piece_count = unat (sat_add piece_count 7 div 8)"

definition bf_new_empty :: "u32 \<Rightarrow> peer_bitfield" where
  "bf_new_empty pc = \<lparr>bf_bytes = replicate (bytes_needed pc) 0, bf_piece_count = pc\<rparr>"

definition bf_new_full :: "u32 \<Rightarrow> peer_bitfield" where
  "bf_new_full pc =
     (let byte_count = bytes_needed pc;
          bs = replicate byte_count 255;
          spare = sat_mul_usize byte_count 8 - unat pc
      in \<lparr>bf_bytes =
            (if spare > 0 \<and> bs \<noteq> [] then butlast bs @ [and (last bs) (push_bit spare 255)] else bs),
          bf_piece_count = pc\<rparr>)"

definition bf_from_wire :: "u32 \<Rightarrow> bytes \<Rightarrow> peer_bitfield option" where
  "bf_from_wire pc wire =
     (if length wire \<noteq> bytes_needed pc then None
      else Some \<lparr>bf_bytes = wire, bf_piece_count = pc\<rparr>)"

definition byte_idx :: "u32 \<Rightarrow> nat" where
  "byte_idx index = unat (index div 8)"

definition bit_idx :: "u32 \<Rightarrow> nat" where
  "bit_idx index = unat (7 - index mod 8)"

definition bf_has_piece :: "peer_bitfield \<Rightarrow> u32 \<Rightarrow> bool" where
  "bf_has_piece bf index =
     (if index \<ge> bf_piece_count bf then False
      else case get_at (bf_bytes bf) (byte_idx index) of
             None \<Rightarrow> False
           | Some b \<Rightarrow> bit_is_set b (bit_idx index))"

definition bf_set_piece :: "peer_bitfield \<Rightarrow> u32 \<Rightarrow> peer_bitfield" where
  "bf_set_piece bf index =
     (if index \<ge> bf_piece_count bf then bf
      else case get_at (bf_bytes bf) (byte_idx index) of
             None \<Rightarrow> bf
           | Some b \<Rightarrow>
               bf\<lparr>bf_bytes := (bf_bytes bf)[byte_idx index := bit_or b (bit_idx index)]\<rparr>)"

definition bf_clear_piece :: "peer_bitfield \<Rightarrow> u32 \<Rightarrow> peer_bitfield" where
  "bf_clear_piece bf index =
     (if index \<ge> bf_piece_count bf then bf
      else case get_at (bf_bytes bf) (byte_idx index) of
             None \<Rightarrow> bf
           | Some b \<Rightarrow>
               bf\<lparr>bf_bytes := (bf_bytes bf)[byte_idx index := bit_and_not b (bit_idx index)]\<rparr>)"

text \<open>The sum of at most \<open>2 ^ 29\<close> counts of at most 8 does not overflow the \<open>u32\<close> of the code.\<close>

definition bf_count_have :: "peer_bitfield \<Rightarrow> nat" where
  "bf_count_have bf = min (sum_list (map count_ones (bf_bytes bf))) (unat (bf_piece_count bf))"

definition bf_is_complete :: "peer_bitfield \<Rightarrow> bool" where
  "bf_is_complete bf \<longleftrightarrow> bf_count_have bf = unat (bf_piece_count bf)"

definition bf_is_empty :: "peer_bitfield \<Rightarrow> bool" where
  "bf_is_empty bf \<longleftrightarrow> list_all (\<lambda>b. b = 0) (bf_bytes bf)"

definition bf_as_wire_bytes :: "peer_bitfield \<Rightarrow> bytes" where
  "bf_as_wire_bytes bf = bf_bytes bf"

text \<open>One pass over the scores for every bitfield.\<close>

definition add_scores :: "peer_bitfield \<Rightarrow> u32 list \<Rightarrow> u32 list" where
  "add_scores bf scores =
     map (\<lambda>(i, score). if bf_has_piece bf (word_of_nat i) then sat_add score 1 else score)
       (enumerate 0 scores)"

definition rarity_scores :: "peer_bitfield list \<Rightarrow> u32 \<Rightarrow> u32 list" where
  "rarity_scores bitfields piece_count = fold add_scores bitfields (replicate (unat piece_count) 0)"

section \<open>The set of announced pieces\<close>

lemma byte_idx_eq: "byte_idx i = unat i div 8"
  by (simp add: byte_idx_def unat_div)

lemma bit_idx_eq: "bit_idx i = 7 - unat i mod 8"
proof -
  have "unat (i mod 8) = unat i mod 8"
    by (simp add: unat_mod)
  moreover have "i mod 8 \<le> 7"
    using mod_less_divisor [of 8 "unat i"] by (simp add: word_le_nat_alt unat_mod)
  ultimately show ?thesis
    by (simp add: bit_idx_def unat_sub)
qed

lemma index_eq:
  assumes "byte_idx i = byte_idx j" and "bit_idx i = bit_idx j"
  shows "i = j"
proof -
  have "unat i mod 8 = unat j mod 8"
    using assms(2) mod_less_divisor [of 8 "unat i"] mod_less_divisor [of 8 "unat j"]
    unfolding bit_idx_eq by linarith
  with assms(1) have "unat i = unat j"
    unfolding byte_idx_eq by (metis div_mult_mod_eq)
  then show ?thesis
    by (rule unsigned_word_eqI)
qed

definition bf_in_range :: "peer_bitfield \<Rightarrow> u32 \<Rightarrow> bool" where
  "bf_in_range bf i \<longleftrightarrow> i < bf_piece_count bf \<and> byte_idx i < length (bf_bytes bf)"

lemma bf_has_piece_iff:
  "bf_has_piece bf i \<longleftrightarrow> bf_in_range bf i \<and> bit (bf_bytes bf ! byte_idx i) (bit_idx i)"
  by (auto simp: bf_has_piece_def bf_in_range_def get_at_def not_less)

lemma bit_idx_less: "bit_idx i < 8"
  by (simp add: bit_idx_eq)

lemma bf_has_set_piece:
  "bf_has_piece (bf_set_piece bf i) j \<longleftrightarrow> bf_has_piece bf j \<or> i = j \<and> bf_in_range bf i"
proof (cases "bf_in_range bf i")
  case False
  then have "bf_set_piece bf i = bf"
    by (auto simp: bf_set_piece_def bf_in_range_def get_at_def)
  with False show ?thesis by simp
next
  case True
  then have set: "bf_set_piece bf i = bf\<lparr>bf_bytes := (bf_bytes bf)
      [byte_idx i := bit_or (bf_bytes bf ! byte_idx i) (bit_idx i)]\<rparr>"
    by (auto simp: bf_set_piece_def bf_in_range_def get_at_def not_le)
  show ?thesis
  proof (cases "byte_idx i = byte_idx j")
    case same: True
    with True show ?thesis
      using index_eq [OF same]
      by (auto simp: set bf_has_piece_iff bf_in_range_def bit_bit_or bit_idx_less)
  next
    case False
    then show ?thesis
      by (auto simp: set bf_has_piece_iff bf_in_range_def)
  qed
qed

lemma bf_has_clear_piece:
  "bf_has_piece (bf_clear_piece bf i) j \<longleftrightarrow> bf_has_piece bf j \<and> i \<noteq> j"
proof (cases "bf_in_range bf i")
  case False
  then have "bf_clear_piece bf i = bf"
    by (auto simp: bf_clear_piece_def bf_in_range_def get_at_def)
  with False show ?thesis
    by (auto simp: bf_has_piece_iff)
next
  case True
  then have clear: "bf_clear_piece bf i = bf\<lparr>bf_bytes := (bf_bytes bf)
      [byte_idx i := bit_and_not (bf_bytes bf ! byte_idx i) (bit_idx i)]\<rparr>"
    by (auto simp: bf_clear_piece_def bf_in_range_def get_at_def not_le)
  show ?thesis
  proof (cases "byte_idx i = byte_idx j")
    case same: True
    with True show ?thesis
      using index_eq [OF same]
      by (auto simp: clear bf_has_piece_iff bf_in_range_def bit_bit_and_not bit_idx_less)
  next
    case False
    then show ?thesis
      by (auto simp: clear bf_has_piece_iff bf_in_range_def)
  qed
qed

lemma bf_bytes_unchanged [simp]:
  "length (bf_bytes (bf_set_piece bf i)) = length (bf_bytes bf)"
  "bf_piece_count (bf_set_piece bf i) = bf_piece_count bf"
  "length (bf_bytes (bf_clear_piece bf i)) = length (bf_bytes bf)"
  "bf_piece_count (bf_clear_piece bf i) = bf_piece_count bf"
  by (simp_all add: bf_set_piece_def bf_clear_piece_def split: option.split)

interpretation pieces: bitset bf_has_piece bf_set_piece bf_in_range
proof unfold_locales
  fix bf i j
  show "bf_has_piece (bf_set_piece bf i) j \<longleftrightarrow> bf_has_piece bf j \<or> i = j \<and> bf_in_range bf i"
    by (rule bf_has_set_piece)
  show "bf_in_range (bf_set_piece bf i) j = bf_in_range bf j"
    by (simp add: bf_in_range_def)
  show "bf_has_piece bf j \<Longrightarrow> bf_in_range bf j"
    by (simp add: bf_has_piece_iff)
qed

section \<open>Counting\<close>

text \<open>All bits of the field in the order of the pieces, the spare bits at the end.\<close>

definition bits_of :: "bytes \<Rightarrow> bool list" where
  "bits_of bs = concat (map (\<lambda>b. map (\<lambda>k. bit b (7 - k)) [0..<8]) bs)"

definition no_spare :: "peer_bitfield \<Rightarrow> bool" where
  "no_spare bf \<longleftrightarrow> list_all Not (drop (unat (bf_piece_count bf)) (bits_of (bf_bytes bf)))"

definition bf_wf :: "peer_bitfield \<Rightarrow> bool" where
  "bf_wf bf \<longleftrightarrow> length (bf_bytes bf) = bytes_needed (bf_piece_count bf)
     \<and> unat (bf_piece_count bf) \<le> 2 ^ 32 - 8"

lemma bits_of_Cons: "bits_of (b # bs) = map (\<lambda>k. bit b (7 - k)) [0..<8] @ bits_of bs"
  by (simp add: bits_of_def)

lemma length_bits_of [simp]: "length (bits_of bs) = 8 * length bs"
  by (induction bs) (simp_all add: bits_of_Cons, simp add: bits_of_def)

lemma nth_bits_of:
  "j < 8 * length bs \<Longrightarrow> bits_of bs ! j = bit (bs ! (j div 8)) (7 - j mod 8)"
proof (induction bs arbitrary: j)
  case Nil
  then show ?case by simp
next
  case (Cons b bs)
  show ?case
  proof (cases "j < 8")
    case True
    then show ?thesis
      by (simp add: bits_of_Cons nth_append)
  next
    case False
    then have j: "j div 8 = Suc ((j - 8) div 8)" "j mod 8 = (j - 8) mod 8"
      by (simp_all add: div_if mod_if)
    have "bits_of (b # bs) ! j = bits_of bs ! (j - 8)"
      using False by (simp add: bits_of_Cons nth_append)
    with Cons False j show ?thesis by simp
  qed
qed

lemma count_ones_bits: "count_ones b = length (filter (\<lambda>x. x) (map (\<lambda>k. bit b (7 - k)) [0..<8]))"
proof -
  have "map (\<lambda>k. 7 - k) [0..<8] = rev [0..<(8::nat)]"
    by (simp add: upt_rec)
  then have "map (\<lambda>k. bit b (7 - k)) [0..<8] = map (bit b) (rev [0..<8])"
    by (metis (no_types, lifting) map_map comp_def map_eq_conv)
  then show ?thesis
    by (simp add: count_ones_def filter_map comp_def rev_filter [symmetric])
qed

lemma count_ones_sum: "sum_list (map count_ones bs) = length (filter (\<lambda>x. x) (bits_of bs))"
proof (induction bs)
  case Nil
  then show ?case by (simp add: bits_of_def)
next
  case (Cons b bs)
  then show ?case by (simp add: bits_of_Cons count_ones_bits)
qed

lemma bytes_needed_eq:
  "unat pc \<le> 2 ^ 32 - 8 \<Longrightarrow> bytes_needed pc = (unat pc + 7) div 8"
  by (simp add: bytes_needed_def unat_div unat_sat_add)

lemma bf_has_piece_bits:
  assumes "bf_wf bf"
  shows "bf_has_piece bf i \<longleftrightarrow> i < bf_piece_count bf \<and> bits_of (bf_bytes bf) ! unat i"
proof (cases "i < bf_piece_count bf")
  case True
  with assms have "unat i < 8 * length (bf_bytes bf)"
    by (auto simp: bf_wf_def bytes_needed_eq word_less_nat_alt)
  with True show ?thesis
    by (simp add: bf_has_piece_iff bf_in_range_def byte_idx_eq bit_idx_eq nth_bits_of
        less_mult_imp_div_less mult.commute)
qed (simp add: bf_has_piece_iff bf_in_range_def)

lemma all_drop_iff:
  "list_all P (drop n xs) \<longleftrightarrow> (\<forall>j < length xs. n \<le> j \<longrightarrow> P (xs ! j))"
proof
  assume *: "list_all P (drop n xs)"
  show "\<forall>j < length xs. n \<le> j \<longrightarrow> P (xs ! j)"
  proof (intro allI impI)
    fix j
    assume "j < length xs" "n \<le> j"
    then have "drop n xs ! (j - n) = xs ! j" "j - n < length (drop n xs)"
      by simp_all
    with * show "P (xs ! j)"
      by (metis list_all_length)
  qed
qed (auto simp: list_all_length)

lemma no_spare_iff:
  "no_spare bf \<longleftrightarrow> (\<forall>j < 8 * length (bf_bytes bf). unat (bf_piece_count bf) \<le> j
      \<longrightarrow> \<not> bits_of (bf_bytes bf) ! j)"
  by (simp add: no_spare_def all_drop_iff)

lemma count_have_card_aux:
  assumes "bf_wf bf" and "no_spare bf"
  shows "bf_count_have bf = card {i. bf_has_piece bf i}"
proof -
  let ?n = "8 * length (bf_bytes bf)" and ?pc = "unat (bf_piece_count bf)"
  have "{j. j < ?n \<and> bits_of (bf_bytes bf) ! j} = unat ` {i. bf_has_piece bf i}" (is "?J = _")
  proof (intro set_eqI iffI)
    fix j
    assume "j \<in> ?J"
    then have "j < ?n" "bits_of (bf_bytes bf) ! j" by auto
    moreover from this assms(2) have "j < ?pc"
      unfolding no_spare_iff using not_le by blast
    moreover from this have "j < 2 ^ 32"
      using unat_less_exp [of "bf_piece_count bf"] by simp
    then have "unat (word_of_nat j :: u32) = j"
      by (simp add: unsigned_of_nat take_bit_eq_mod)
    ultimately show "j \<in> unat ` {i. bf_has_piece bf i}"
      using assms(1) by (intro image_eqI [of _ _ "word_of_nat j"])
        (simp_all add: bf_has_piece_bits word_less_nat_alt)
  next
    fix j
    assume "j \<in> unat ` {i. bf_has_piece bf i}"
    then obtain i where i: "j = unat i" "bf_has_piece bf i" by auto
    have "?pc \<le> ?n"
      using assms(1) by (simp add: bf_wf_def bytes_needed_eq)
    moreover have "unat i < ?pc" "bits_of (bf_bytes bf) ! unat i"
      using i(2) assms(1) by (simp_all add: bf_has_piece_bits word_less_nat_alt)
    ultimately show "j \<in> ?J"
      using i(1) by simp
  qed
  moreover have "card (unat ` {i. bf_has_piece bf i}) = card {i. bf_has_piece bf i}"
    by (intro card_image inj_onI) (simp add: unsigned_word_eqI)
  moreover have "sum_list (map count_ones (bf_bytes bf)) = card ?J"
    by (simp add: count_ones_sum length_filter_conv_card)
  ultimately have ones: "sum_list (map count_ones (bf_bytes bf)) = card {i. bf_has_piece bf i}"
    by simp
  have "unat ` {i. bf_has_piece bf i} \<subseteq> {..<?pc}"
    using assms(1) by (auto simp: bf_has_piece_bits word_less_nat_alt)
  then have "card (unat ` {i. bf_has_piece bf i}) \<le> ?pc"
    using card_mono [of "{..<?pc}"] by auto
  with ones \<open>card (unat ` {i. bf_has_piece bf i}) = _\<close> show ?thesis
    by (simp add: bf_count_have_def)
qed

lemma card_less_pieces: "card {i :: u32. i < n} = unat n"
proof -
  have "bij_betw unat {i :: u32. i < n} {..<unat n}"
  proof (rule bij_betw_imageI)
    show "inj_on unat {i :: u32. i < n}"
      by (intro inj_onI) (simp add: unsigned_word_eqI)
    show "unat ` {i :: u32. i < n} = {..<unat n}"
    proof (intro set_eqI iffI)
      fix j
      assume "j \<in> {..<unat n}"
      moreover from this have "j < 2 ^ 32"
        using unat_less_exp [of n] by simp
      then have "unat (word_of_nat j :: u32) = j"
        by (simp add: unsigned_of_nat take_bit_eq_mod)
      ultimately show "j \<in> unat ` {i :: u32. i < n}"
        by (intro image_eqI [of _ _ "word_of_nat j"]) (simp_all add: word_less_nat_alt)
    qed (auto simp: word_less_nat_alt)
  qed
  then show ?thesis
    using bij_betw_same_card by fastforce
qed

lemma is_complete_iff_aux:
  assumes "bf_wf bf" and "no_spare bf"
  shows "bf_is_complete bf \<longleftrightarrow> (\<forall>i < bf_piece_count bf. bf_has_piece bf i)"
proof -
  have sub: "{i. bf_has_piece bf i} \<subseteq> {i. i < bf_piece_count bf}"
    using assms(1) by (auto simp: bf_has_piece_bits)
  have "bf_is_complete bf \<longleftrightarrow> card {i. bf_has_piece bf i} = card {i. i < bf_piece_count bf}"
    by (simp add: bf_is_complete_def count_have_card_aux [OF assms] card_less_pieces)
  also have "\<dots> \<longleftrightarrow> {i. bf_has_piece bf i} = {i. i < bf_piece_count bf}"
    using sub card_subset_eq [OF finite sub] by auto
  also have "\<dots> \<longleftrightarrow> (\<forall>i < bf_piece_count bf. bf_has_piece bf i)"
    using sub by auto
  finally show ?thesis .
qed

section \<open>The spare bits stay zero\<close>

lemma position_eq:
  "j div 8 = unat i div 8 \<Longrightarrow> 7 - j mod 8 = 7 - unat i mod 8 \<Longrightarrow> j = unat i"
proof -
  assume "j div 8 = unat i div 8" and "7 - j mod 8 = 7 - unat i mod 8"
  moreover from this(2) have "j mod 8 = unat i mod 8"
    using mod_less_divisor [of 8 j] mod_less_divisor [of 8 "unat i"] by linarith
  ultimately show ?thesis
    by (metis div_mult_mod_eq)
qed

lemma no_spare_set_piece: "no_spare bf \<Longrightarrow> no_spare (bf_set_piece bf i)"
  unfolding no_spare_iff
  by (auto simp: bf_set_piece_def get_at_def nth_bits_of nth_list_update bit_bit_or bit_idx_less
      byte_idx_eq bit_idx_eq word_less_nat_alt word_le_nat_alt
      split: option.splits if_splits dest!: position_eq [OF sym])

lemma no_spare_clear_piece: "no_spare bf \<Longrightarrow> no_spare (bf_clear_piece bf i)"
  unfolding no_spare_iff
  by (auto simp: bf_clear_piece_def get_at_def nth_bits_of nth_list_update bit_bit_and_not bit_idx_less
      split: option.splits if_splits)

lemma bf_wf_ops [simp]:
  "bf_wf (bf_set_piece bf i) = bf_wf bf"
  "bf_wf (bf_clear_piece bf i) = bf_wf bf"
  by (simp_all add: bf_wf_def)

lemma bf_new_empty:
  assumes "unat pc \<le> 2 ^ 32 - 8"
  shows "bf_wf (bf_new_empty pc)" and "no_spare (bf_new_empty pc)"
    and "\<not> bf_has_piece (bf_new_empty pc) i"
proof -
  show "bf_wf (bf_new_empty pc)"
    using assms by (simp add: bf_new_empty_def bf_wf_def)
  show "no_spare (bf_new_empty pc)"
    by (auto simp: no_spare_iff bf_new_empty_def nth_bits_of)
  show "\<not> bf_has_piece (bf_new_empty pc) i"
    by (simp add: bf_has_piece_iff bf_new_empty_def bf_in_range_def)
qed

lemma bit_255: "bit (255 :: u8) k \<longleftrightarrow> k < 8"
proof -
  have "(255 :: u8) = - 1" by simp
  then show ?thesis
    by (simp only: bit_minus_1_iff) simp
qed

lemma bits_of_new_full:
  assumes "unat pc \<le> 2 ^ 32 - 8" and "j < 8 * length (bf_bytes (bf_new_full pc))"
  shows "bits_of (bf_bytes (bf_new_full pc)) ! j \<longleftrightarrow> j < unat pc"
proof -
  define n where "n = bytes_needed pc"
  define spare where "spare = sat_mul_usize n 8 - unat pc"
  have n: "n = (unat pc + 7) div 8"
    using assms(1) by (simp add: n_def bytes_needed_eq)
  then have spare: "unat pc + spare = 8 * n" "spare < 8"
    using assms(1) by (auto simp: spare_def sat_mul_usize_def usize_max_def)
  have len: "length (bf_bytes (bf_new_full pc)) = n"
    by (auto simp: bf_new_full_def n_def Let_def)
  then have j: "j div 8 < n" "j < 8 * n"
    using assms(2) by (simp_all add: less_mult_imp_div_less mult.commute)
  have j8: "j = 8 * (j div 8) + j mod 8" by simp
  have nth: "bf_bytes (bf_new_full pc) ! (j div 8)
    = (if spare > 0 \<and> j div 8 = n - 1 then and 255 (push_bit spare 255) else 255)"
  proof -
    have "bf_bytes (bf_new_full pc) = (if spare > 0 \<and> replicate n 255 \<noteq> ([] :: bytes)
      then butlast (replicate n 255) @ [and (last (replicate n 255)) (push_bit spare 255)]
      else replicate n 255)"
      by (simp only: bf_new_full_def Let_def n_def spare_def peer_bitfield.select_convs)
    then show ?thesis
      using j(1) by (auto simp: nth_append nth_butlast)
  qed
  have last: "j div 8 = n - 1 \<Longrightarrow> spare \<le> 7 - j mod 8 \<longleftrightarrow> j < unat pc"
    using spare j j8 mod_less_divisor [of 8 j] by linarith
  have front: "j div 8 \<noteq> n - 1 \<Longrightarrow> j < unat pc"
    using spare j j8 mod_less_divisor [of 8 j] by linarith
  have ones: "bit (255 :: u8) (7 - x)" "bit (255 :: u8) (7 - x - y)" for x y
    by (rule iffD2 [OF bit_255], simp)+
  show ?thesis
    using j len nth last front spare(1)
    by (auto simp: nth_bits_of ones bit_and_iff bit_push_bit_iff diff_diff_left [symmetric]
        simp del: diff_diff_left bit_numeral_word_iff split: if_splits)
qed

lemma bf_new_full:
  assumes "unat pc \<le> 2 ^ 32 - 8"
  shows "bf_wf (bf_new_full pc)" and "no_spare (bf_new_full pc)"
    and "bf_has_piece (bf_new_full pc) i \<longleftrightarrow> i < pc"
proof -
  have pc [simp]: "bf_piece_count (bf_new_full pc) = pc"
    by (simp add: bf_new_full_def Let_def)
  show wf: "bf_wf (bf_new_full pc)"
    using assms by (auto simp: bf_wf_def bf_new_full_def Let_def)
  show "no_spare (bf_new_full pc)"
    using bits_of_new_full [OF assms] by (auto simp: no_spare_iff)
  have "i < pc \<Longrightarrow> unat i < 8 * length (bf_bytes (bf_new_full pc))"
    using wf by (auto simp: bf_wf_def bytes_needed_eq word_less_nat_alt)
  then show "bf_has_piece (bf_new_full pc) i \<longleftrightarrow> i < pc"
    using bits_of_new_full [OF assms] by (auto simp: bf_has_piece_bits [OF wf] word_less_nat_alt)
qed

section \<open>Rarity\<close>

lemma length_add_scores [simp]: "length (add_scores bf scores) = length scores"
  by (simp add: add_scores_def)

lemma nth_add_scores:
  "i < length scores \<Longrightarrow> add_scores bf scores ! i
     = (if bf_has_piece bf (word_of_nat i) then sat_add (scores ! i) 1 else scores ! i)"
  by (simp add: add_scores_def nth_enumerate_eq)

lemma fold_add_scores:
  assumes "i < length scores" and "unat (scores ! i) + length bfs < 2 ^ 32"
  shows "length (fold add_scores bfs scores) = length scores
    \<and> unat (fold add_scores bfs scores ! i)
      = unat (scores ! i) + length (filter (\<lambda>bf. bf_has_piece bf (word_of_nat i)) bfs)"
  using assms
proof (induction bfs arbitrary: scores)
  case Nil
  then show ?case by simp
next
  case (Cons bf bfs)
  have "unat (add_scores bf scores ! i)
    = unat (scores ! i) + (if bf_has_piece bf (word_of_nat i) then 1 else 0)"
    using Cons.prems by (simp add: nth_add_scores unat_sat_add)
  with Cons.prems Cons.IH [of "add_scores bf scores"] show ?case
    by auto
qed

section \<open>Properties\<close>

text \<open>
  The completion test of a bitfield is right for a conforming peer. For a well-formed field
  whose spare bits are zero, \<open>count_have\<close> is the number of pieces the peer has, and \<open>is_complete\<close>
  holds exactly when the peer has every piece.
\<close>
theorem bitfield_count_correct:
  assumes "bf_wf bf" and "no_spare bf"
  shows "bf_count_have bf = card {i. bf_has_piece bf i}
     \<and> (bf_is_complete bf \<longleftrightarrow> (\<forall>i. i < bf_piece_count bf \<longrightarrow> bf_has_piece bf i))"
  using count_have_card_aux [OF assms] is_complete_iff_aux [OF assms] by simp

theorem bitfield_count_correct_witness:
  "bf_count_have (bf_new_full 10) = card {i. bf_has_piece (bf_new_full 10) i}
     \<and> (bf_is_complete (bf_new_full 10)
        \<longleftrightarrow> (\<forall>i. i < bf_piece_count (bf_new_full 10) \<longrightarrow> bf_has_piece (bf_new_full 10) i))"
  by (rule bitfield_count_correct; rule bf_new_full) simp_all

text \<open>
  \<open>set_piece\<close> and \<open>clear_piece\<close> change one piece and nothing else. Neither moves another piece,
  an index past the piece count is ignored, and the spare bits stay zero, so the counts of a field
  built by the code itself stay right.
\<close>
theorem bitfield_update_correct:
  assumes "bf_wf bf" and "no_spare bf"
  shows "(bf_has_piece (bf_set_piece bf i) j \<longleftrightarrow> bf_has_piece bf j \<or> j = i \<and> i < bf_piece_count bf)
     \<and> (bf_has_piece (bf_clear_piece bf i) j \<longleftrightarrow> bf_has_piece bf j \<and> j \<noteq> i)
     \<and> no_spare (bf_set_piece bf i) \<and> no_spare (bf_clear_piece bf i)"
proof -
  have "bf_in_range bf i \<longleftrightarrow> i < bf_piece_count bf"
    using assms(1) by (auto simp: bf_in_range_def bf_wf_def bytes_needed_eq byte_idx_eq
        word_less_nat_alt)
  then show ?thesis
    using assms(2) pieces.has_put [of bf i j] bf_has_clear_piece [of bf i j]
    by (auto intro: no_spare_set_piece no_spare_clear_piece)
qed

theorem bitfield_update_correct_witness:
  "(bf_has_piece (bf_set_piece (bf_new_empty 12) 9) 9
       \<longleftrightarrow> bf_has_piece (bf_new_empty 12) 9 \<or> (9 :: u32) = 9 \<and> 9 < bf_piece_count (bf_new_empty 12))
   \<and> (bf_has_piece (bf_clear_piece (bf_new_empty 12) 9) 9
       \<longleftrightarrow> bf_has_piece (bf_new_empty 12) 9 \<and> (9 :: u32) \<noteq> 9)
   \<and> no_spare (bf_set_piece (bf_new_empty 12) 9) \<and> no_spare (bf_clear_piece (bf_new_empty 12) 9)"
  by (rule bitfield_update_correct; rule bf_new_empty) simp_all

text \<open>
  A peer can make an incomplete field look complete. A field taken from the wire keeps the
  spare bits the peer sent: with one piece and the byte 64 the peer lacks piece 0, and yet the
  field counts one piece and is complete, and it passes the length check of \<open>from_wire\<close>.
\<close>
theorem bitfield_spare_bits_counted:
  "\<exists>bf. bf_from_wire 1 [64] = Some bf \<and> \<not> bf_has_piece bf 0 \<and> bf_count_have bf = 1
     \<and> bf_is_complete bf"
proof -
  have "bytes_needed 1 = 1"
    by (simp add: bytes_needed_eq)
  moreover have "count_ones 64 = 1"
    by code_simp
  moreover have "bit_idx 0 = 7" "byte_idx 0 = 0" "\<not> bit (64 :: u8) 7"
    by (simp_all add: bit_idx_eq byte_idx_eq)
  ultimately show ?thesis
    by (simp add: bf_from_wire_def bf_has_piece_iff bf_count_have_def bf_is_complete_def)
qed

text \<open>
  The rarity of a piece is the number of peers that announced it. With fewer than \<open>2 ^ 32\<close>
  peers no score saturates, and the result has one score for every piece.
\<close>
theorem rarity_scores_count:
  assumes "length bfs < 2 ^ 32" and "i < unat pc"
  shows "length (rarity_scores bfs pc) = unat pc
     \<and> unat (rarity_scores bfs pc ! i)
        = length (filter (\<lambda>bf. bf_has_piece bf (word_of_nat i)) bfs)"
  using fold_add_scores [of i "replicate (unat pc) 0" bfs] assms by (simp add: rarity_scores_def)

theorem rarity_scores_count_witness:
  "length (rarity_scores [bf_new_full 3, bf_new_empty 3] 3) = unat (3 :: u32)
     \<and> unat (rarity_scores [bf_new_full 3, bf_new_empty 3] 3 ! 2)
        = length (filter (\<lambda>bf. bf_has_piece bf (word_of_nat 2)) [bf_new_full 3, bf_new_empty 3])"
  by (rule rarity_scores_count) simp_all

end
