(* ===== verification/PieceMap.thy ===== *)
theory PieceMap
  imports Prelude
begin

text \<open>
  The shared piece map, \<open>crates/p2p-distribute/src/piece_map.rs\<close>: \<open>PieceState\<close> and
  \<open>SharedPieceMap\<close>. Every method that changes the map performs one atomic access to one
  \<open>AtomicU8\<close>, so any execution of the threads that share the map is a sequence of these
  accesses. The states are kept as the bytes the code stores; \<open>pm_step\<close> is one call, with the
  boolean it returns, and a history is a list of calls of all threads in the order of their
  atomic accesses.
\<close>

section \<open>States\<close>

datatype piece_state = Needed | InFlight | Done | Failed

fun ps_to_u8 :: "piece_state \<Rightarrow> u8" where
  "ps_to_u8 Needed = 0"
| "ps_to_u8 InFlight = 1"
| "ps_to_u8 Done = 2"
| "ps_to_u8 Failed = 3"

definition ps_from_u8 :: "u8 \<Rightarrow> piece_state" where
  "ps_from_u8 v =
     (if v = 1 then InFlight else if v = 2 then Done else if v = 3 then Failed else Needed)"

lemma ps_from_to_u8 [simp]: "ps_from_u8 (ps_to_u8 s) = s"
  by (cases s) (simp_all add: ps_from_u8_def)

lemma ps_to_u8_inject [simp]: "ps_to_u8 s = ps_to_u8 t \<longleftrightarrow> s = t"
  by (metis ps_from_to_u8)

declare ps_to_u8.simps [simp del]

record piece_map =
  pm_states :: bytes
  pm_piece_count :: u32

section \<open>Operations\<close>

definition pm_new :: "u32 \<Rightarrow> piece_map" where
  "pm_new pc = \<lparr>pm_states = replicate (unat pc) (ps_to_u8 Needed), pm_piece_count = pc\<rparr>"

definition pm_from_verified :: "u32 \<Rightarrow> bool list \<Rightarrow> piece_map" where
  "pm_from_verified pc verified =
     \<lparr>pm_states = map (\<lambda>i. if (case get_at verified i of None \<Rightarrow> False | Some v \<Rightarrow> v)
                         then ps_to_u8 Done else ps_to_u8 Needed) [0..<unat pc],
      pm_piece_count = pc\<rparr>"

definition pm_get :: "piece_map \<Rightarrow> u32 \<Rightarrow> piece_state" where
  "pm_get m index =
     (case get_at (pm_states m) (unat index) of None \<Rightarrow> Needed | Some a \<Rightarrow> ps_from_u8 a)"

text \<open>\<open>compare_exchange\<close> and \<open>store\<close> on one cell, a no-op out of range.\<close>

definition pm_cas :: "piece_state \<Rightarrow> piece_state \<Rightarrow> u32 \<Rightarrow> piece_map \<Rightarrow> bool \<times> piece_map" where
  "pm_cas old new' index m =
     (case get_at (pm_states m) (unat index) of
        None \<Rightarrow> (False, m)
      | Some a \<Rightarrow>
          if a = ps_to_u8 old
          then (True, m\<lparr>pm_states := (pm_states m)[unat index := ps_to_u8 new']\<rparr>)
          else (False, m))"

definition pm_store :: "piece_state \<Rightarrow> u32 \<Rightarrow> piece_map \<Rightarrow> piece_map" where
  "pm_store s index m =
     (case get_at (pm_states m) (unat index) of
        None \<Rightarrow> m
      | Some _ \<Rightarrow> m\<lparr>pm_states := (pm_states m)[unat index := ps_to_u8 s]\<rparr>)"

definition pm_try_claim :: "u32 \<Rightarrow> piece_map \<Rightarrow> bool \<times> piece_map" where
  "pm_try_claim = pm_cas Needed InFlight"

definition pm_mark_done :: "u32 \<Rightarrow> piece_map \<Rightarrow> piece_map" where
  "pm_mark_done = pm_store Done"

definition pm_mark_failed :: "u32 \<Rightarrow> piece_map \<Rightarrow> piece_map" where
  "pm_mark_failed = pm_store Failed"

definition pm_retry_failed :: "u32 \<Rightarrow> piece_map \<Rightarrow> bool \<times> piece_map" where
  "pm_retry_failed = pm_cas Failed Needed"

definition pm_done_count :: "piece_map \<Rightarrow> u32" where
  "pm_done_count m = word_of_nat (length (filter (\<lambda>a. a = ps_to_u8 Done) (pm_states m)))"

definition pm_is_complete :: "piece_map \<Rightarrow> bool" where
  "pm_is_complete m \<longleftrightarrow> pm_done_count m = pm_piece_count m"

definition pm_next_needed :: "piece_map \<Rightarrow> u32 option" where
  "pm_next_needed m = map_option word_of_nat (position (\<lambda>a. a = ps_to_u8 Needed) (pm_states m))"

section \<open>Histories\<close>

datatype pm_call = TryClaim u32 | MarkDone u32 | MarkFailed u32 | RetryFailed u32

fun pm_step :: "pm_call \<Rightarrow> piece_map \<Rightarrow> bool \<times> piece_map" where
  "pm_step (TryClaim i) m = pm_try_claim i m"
| "pm_step (MarkDone i) m = (True, pm_mark_done i m)"
| "pm_step (MarkFailed i) m = (True, pm_mark_failed i m)"
| "pm_step (RetryFailed i) m = pm_retry_failed i m"

text \<open>The answers of a history, in order, and the map behind it.\<close>

primrec pm_run :: "pm_call list \<Rightarrow> piece_map \<Rightarrow> bool list \<times> piece_map" where
  "pm_run [] m = ([], m)"
| "pm_run (c # cs) m =
     (let (ok, m') = pm_step c m; (oks, m'') = pm_run cs m' in (ok # oks, m''))"

text \<open>How many calls \<open>c\<close> of the history returned true.\<close>

definition granted :: "pm_call \<Rightarrow> pm_call list \<Rightarrow> piece_map \<Rightarrow> nat" where
  "granted c cs m = length (filter (\<lambda>x. x = (c, True)) (zip cs (fst (pm_run cs m))))"

section \<open>Well-formed maps\<close>

definition pm_wf :: "piece_map \<Rightarrow> bool" where
  "pm_wf m \<longleftrightarrow> length (pm_states m) = unat (pm_piece_count m)
     \<and> list_all (\<lambda>a. ps_to_u8 (ps_from_u8 a) = a) (pm_states m)"

lemma pm_wf_new: "pm_wf (pm_new pc)"
  by (simp add: pm_wf_def pm_new_def list_all_iff)

lemma pm_wf_from_verified: "pm_wf (pm_from_verified pc v)"
  by (auto simp: pm_wf_def pm_from_verified_def list_all_iff)

lemma pm_wf_update:
  "pm_wf m \<Longrightarrow> pm_wf (m\<lparr>pm_states := (pm_states m)[k := ps_to_u8 s]\<rparr>)"
  using set_update_subset_insert [of "pm_states m" k "ps_to_u8 s"]
  by (auto simp: pm_wf_def list_all_iff)

lemma pm_wf_step: "pm_wf m \<Longrightarrow> pm_wf (snd (pm_step c m))"
  by (cases c) (auto simp: pm_try_claim_def pm_retry_failed_def pm_mark_done_def pm_mark_failed_def
      pm_cas_def pm_store_def intro: pm_wf_update split: option.split)

interpretation piece_map: step_system "range pm_new \<union> range (\<lambda>(pc, v). pm_from_verified pc v)"
  "\<lambda>c m. snd (pm_step c m)" pm_wf
  by unfold_locales (auto simp: pm_wf_new pm_wf_from_verified intro: pm_wf_step)

lemma pm_run_state: "snd (pm_run cs m) = fold (\<lambda>c m. snd (pm_step c m)) cs m"
  by (induction cs arbitrary: m) (simp_all add: Let_def split_beta)

lemma pm_wf_run: "pm_wf m \<Longrightarrow> pm_wf (snd (pm_run cs m))"
  by (simp add: pm_run_state piece_map.inv_fold)

lemma pm_states_range:
  "pm_wf m \<Longrightarrow> k < length (pm_states m) \<Longrightarrow> ps_to_u8 (ps_from_u8 (pm_states m ! k)) = pm_states m ! k"
  by (simp add: pm_wf_def list_all_length)

lemma pm_get_nth: "unat i < length (pm_states m) \<Longrightarrow> pm_get m i = ps_from_u8 (pm_states m ! unat i)"
  by (simp add: pm_get_def get_at_def)

lemma pm_get_update:
  "unat i < length (pm_states m) \<Longrightarrow>
   pm_get (m\<lparr>pm_states := (pm_states m)[unat i := ps_to_u8 s]\<rparr>) j = (if i = j then s else pm_get m j)"
  by (auto simp: pm_get_def get_at_def nth_list_update unat_eq_iff)

text \<open>What a call does, in terms of the piece states.\<close>

lemma pm_cas_get:
  assumes "pm_wf m"
  shows "fst (pm_cas old new' i m) \<longleftrightarrow> i < pm_piece_count m \<and> pm_get m i = old"
    and "pm_get (snd (pm_cas old new' i m)) j =
      (if i = j \<and> i < pm_piece_count m \<and> pm_get m i = old then new' else pm_get m j)"
  using assms pm_states_range [OF assms, of "unat i"]
  by (auto simp: pm_cas_def get_at_def pm_wf_def pm_get_nth pm_get_update word_less_nat_alt
      simp flip: ps_to_u8_inject)

lemma pm_store_get:
  assumes "pm_wf m"
  shows "pm_get (pm_store s i m) j = (if i = j \<and> i < pm_piece_count m then s else pm_get m j)"
  using assms
  by (auto simp: pm_store_def get_at_def pm_wf_def pm_get_update word_less_nat_alt)

lemma pm_count_step [simp]: "pm_piece_count (snd (pm_step c m)) = pm_piece_count m"
  by (cases c) (auto simp: pm_try_claim_def pm_retry_failed_def pm_mark_done_def pm_mark_failed_def
      pm_cas_def pm_store_def split: option.split)

text \<open>
  A claim takes the piece out of \<open>Needed\<close>, and only a granted retry brings it back: the number of
  claims granted is at most the number of retries granted, plus one while the piece is needed.
\<close>

lemma granted_Nil [simp]: "granted c [] m = 0"
  by (simp add: granted_def)

lemma granted_Cons [simp]:
  "granted c (d # cs) m =
     (if d = c \<and> fst (pm_step d m) then 1 else 0) + granted c cs (snd (pm_step d m))"
  by (auto simp: granted_def Let_def split_beta)

lemma claims_bounded:
  assumes "pm_wf m"
  shows "granted (TryClaim i) cs m
     \<le> granted (RetryFailed i) cs m + (if pm_get m i = Needed then 1 else 0)"
  using assms
proof (induction cs arbitrary: m)
  case Nil
  then show ?case by simp
next
  case (Cons c cs)
  note IH = Cons.IH [OF pm_wf_step [OF Cons.prems, of c]]
  show ?case
  proof (cases c)
    case (TryClaim j)
    with IH pm_cas_get [OF Cons.prems, of Needed InFlight j] show ?thesis
      by (auto simp: pm_try_claim_def split: if_splits)
  next
    case (MarkDone j)
    with IH pm_store_get [OF Cons.prems, of Done j] show ?thesis
      by (auto simp: pm_mark_done_def split: if_splits)
  next
    case (MarkFailed j)
    with IH pm_store_get [OF Cons.prems, of Failed j] show ?thesis
      by (auto simp: pm_mark_failed_def split: if_splits)
  next
    case (RetryFailed j)
    with IH pm_cas_get [OF Cons.prems, of Failed Needed j] show ?thesis
      by (auto simp: pm_retry_failed_def split: if_splits)
  qed
qed

section \<open>Completion and selection\<close>

lemma pm_is_complete_iff:
  assumes "pm_wf m"
  shows "pm_is_complete m \<longleftrightarrow> (\<forall>i. i < pm_piece_count m \<longrightarrow> pm_get m i = Done)"
proof -
  let ?d = "length (filter (\<lambda>a. a = ps_to_u8 Done) (pm_states m))" and ?n = "length (pm_states m)"
  have n: "?n = unat (pm_piece_count m)" "?n < 2 ^ 32"
    using assms unat_less_exp [of "pm_piece_count m"] by (simp_all add: pm_wf_def)
  have "?d \<le> ?n"
    by simp
  with n have d: "unat (word_of_nat ?d :: u32) = ?d"
    by (simp add: unsigned_of_nat take_bit_eq_mod)
  have "pm_is_complete m \<longleftrightarrow> ?d = ?n"
    using n(1) d by (simp add: pm_is_complete_def pm_done_count_def flip: unat_eq_iff)
  also have "\<dots> \<longleftrightarrow> (\<forall>a \<in> set (pm_states m). a = ps_to_u8 Done)"
    by (rule length_filter_all)
  also have "\<dots> \<longleftrightarrow> (\<forall>k < ?n. pm_states m ! k = ps_to_u8 Done)"
    by (simp add: all_set_conv_all_nth)
  also have "\<dots> \<longleftrightarrow> (\<forall>i. i < pm_piece_count m \<longrightarrow> pm_get m i = Done)"
  proof (intro iffI allI impI)
    fix i
    assume "\<forall>k < ?n. pm_states m ! k = ps_to_u8 Done" and "i < pm_piece_count m"
    with n(1) show "pm_get m i = Done"
      by (simp add: pm_get_nth word_less_nat_alt)
  next
    fix k
    assume all: "\<forall>i. i < pm_piece_count m \<longrightarrow> pm_get m i = Done" and k: "k < ?n"
    then have "unat (word_of_nat k :: u32) = k"
      using n(2) by (simp add: unsigned_of_nat take_bit_eq_mod)
    with all [rule_format, of "word_of_nat k"] k n(1) pm_states_range [OF assms k]
    show "pm_states m ! k = ps_to_u8 Done"
      by (simp add: word_less_nat_alt pm_get_nth)
  qed
  finally show ?thesis .
qed

lemma pm_from_verified_get:
  "pm_get (pm_from_verified pc v) i = Done \<longleftrightarrow> i < pc \<and> unat i < length v \<and> v ! unat i"
  by (auto simp: pm_get_def pm_from_verified_def get_at_def word_less_nat_alt)

lemma pm_next_needed_Some:
  assumes "pm_wf m" and "pm_next_needed m = Some i"
  shows "i < pm_piece_count m \<and> pm_get m i = Needed \<and> (\<forall>j < i. pm_get m j \<noteq> Needed)"
proof -
  obtain k where k: "position (\<lambda>a. a = ps_to_u8 Needed) (pm_states m) = Some k" "i = word_of_nat k"
    using assms(2) by (auto simp: pm_next_needed_def)
  then have len: "k < length (pm_states m)" and at: "pm_states m ! k = ps_to_u8 Needed"
    and before: "\<forall>j < k. pm_states m ! j \<noteq> ps_to_u8 Needed"
    by (simp_all add: position_Some)
  have "length (pm_states m) < 2 ^ 32"
    using assms(1) unat_less_exp [of "pm_piece_count m"] by (simp add: pm_wf_def)
  with len k(2) have i: "unat i = k"
    by (simp add: unsigned_of_nat take_bit_eq_mod)
  have "pm_get m j \<noteq> Needed" if "j < i" for j
    using before [rule_format, of "unat j"] that i len pm_states_range [OF assms(1), of "unat j"]
    by (simp add: word_less_nat_alt pm_get_nth) (metis)
  with len at i assms(1) show ?thesis
    by (simp add: pm_get_nth pm_wf_def word_less_nat_alt)
qed

lemma pm_next_needed_None:
  assumes "pm_wf m" and "pm_next_needed m = None" and "i < pm_piece_count m"
  shows "pm_get m i \<noteq> Needed"
proof -
  have i: "unat i < length (pm_states m)"
    using assms(1,3) by (simp add: pm_wf_def word_less_nat_alt)
  then have "pm_states m ! unat i \<noteq> ps_to_u8 Needed"
    using assms(2) by (simp add: pm_next_needed_def position_None)
  with i pm_states_range [OF assms(1) i] show ?thesis
    by (metis pm_get_nth)
qed

section \<open>Properties\<close>

text \<open>
  A piece is claimed by one thread at a time. In every interleaving of the calls of any number
  of threads on a fresh map, the claims granted for a piece exceed the retries granted for it by
  at most one: two claims of the same piece succeed only with a granted retry between them.
\<close>
theorem piece_claim_exclusive:
  "granted (TryClaim i) calls (pm_new pc) \<le> Suc (granted (RetryFailed i) calls (pm_new pc))"
  using claims_bounded [OF pm_wf_new, of i calls pc] by (simp split: if_splits)

text \<open>
  A map is complete exactly when every piece is done. This holds after any history of calls
  on a fresh map or on a map resumed from verified pieces.
\<close>
theorem piece_map_complete_iff:
  "pm_is_complete (snd (pm_run calls (pm_from_verified pc v)))
   \<longleftrightarrow> (\<forall>i. i < pc \<longrightarrow> pm_get (snd (pm_run calls (pm_from_verified pc v))) i = Done)"
proof -
  have "pm_piece_count (snd (pm_run calls m)) = pm_piece_count m" for m
    unfolding pm_run_state by (induction calls arbitrary: m) simp_all
  then show ?thesis
    using pm_is_complete_iff [OF pm_wf_run [OF pm_wf_from_verified], of calls pc v]
    by (simp add: pm_from_verified_def)
qed

theorem piece_map_complete_iff_witness:
  "pm_is_complete (snd (pm_run [TryClaim 0, MarkDone 0] (pm_from_verified 2 [False, True])))"
proof -
  let ?m = "snd (pm_run [TryClaim 0, MarkDone 0] (pm_from_verified 2 [False, True]))"
  have m: "?m = \<lparr>pm_states = [2, 2], pm_piece_count = 2\<rparr>"
    by (simp add: pm_from_verified_def pm_try_claim_def pm_mark_done_def pm_cas_def pm_store_def get_at_def
        upt_conv_Cons ps_to_u8.simps del: upt_Suc)
  have "pm_get ?m i = Done" if "i < 2" for i
  proof -
    have "unat i = 0 \<or> unat i = 1"
      using that by (auto simp: word_less_nat_alt)
    then show ?thesis
      unfolding m by (auto simp: pm_get_def get_at_def ps_from_u8_def)
  qed
  then show ?thesis
    using piece_map_complete_iff [of "[TryClaim 0, MarkDone 0]" 2 "[False, True]"] by simp
qed

text \<open>
  \<open>next_needed\<close> returns the first piece that is needed, and nothing only when no piece is;
  claiming what it returns succeeds as long as no other thread came first.
\<close>
theorem next_needed_claimable:
  assumes "pm_wf m"
  shows "case pm_next_needed m of
      None \<Rightarrow> \<forall>i. i < pm_piece_count m \<longrightarrow> pm_get m i \<noteq> Needed
    | Some i \<Rightarrow> pm_get m i = Needed \<and> (\<forall>j. j < i \<longrightarrow> pm_get m j \<noteq> Needed)
        \<and> fst (pm_try_claim i m) \<and> pm_get (snd (pm_try_claim i m)) i = InFlight"
  using pm_next_needed_None [OF assms] pm_next_needed_Some [OF assms]
    pm_cas_get [OF assms, of Needed InFlight]
  by (auto simp: pm_try_claim_def split: option.split)

theorem next_needed_claimable_witness:
  "case pm_next_needed (pm_from_verified 3 [True]) of
      None \<Rightarrow> \<forall>i. i < pm_piece_count (pm_from_verified 3 [True]) \<longrightarrow>
        pm_get (pm_from_verified 3 [True]) i \<noteq> Needed
    | Some i \<Rightarrow> pm_get (pm_from_verified 3 [True]) i = Needed
        \<and> (\<forall>j. j < i \<longrightarrow> pm_get (pm_from_verified 3 [True]) j \<noteq> Needed)
        \<and> fst (pm_try_claim i (pm_from_verified 3 [True]))
        \<and> pm_get (snd (pm_try_claim i (pm_from_verified 3 [True]))) i = InFlight"
  by (rule next_needed_claimable) (rule pm_wf_from_verified)

text \<open>
  A done piece can be lost again. \<open>mark_failed\<close> stores without looking at the state, so the
  late failure of a duplicate download turns a piece that is done into a failed one, a transition
  the state diagram of the map does not have, and a completed map is incomplete again.
\<close>
theorem late_failure_undoes_done:
  "let m = snd (pm_run [TryClaim 0, MarkDone 0] (pm_new 1));
       m' = snd (pm_run [MarkFailed 0] m)
   in pm_is_complete m \<and> pm_get m 0 = Done \<and> pm_get m' 0 = Failed \<and> \<not> pm_is_complete m'"
  by (simp add: pm_new_def pm_try_claim_def pm_mark_done_def pm_mark_failed_def pm_cas_def
      pm_store_def get_at_def pm_is_complete_def pm_done_count_def pm_get_def ps_from_u8_def
      ps_to_u8.simps)

end
