(* ===== verification/Resume.thy ===== *)
theory Resume
  imports Bits PieceMap "HOL-Library.Mapping"
begin

text \<open>
  Crash recovery, \<open>crates/p2p-distribute/src/resume.rs\<close>: \<open>ResumeState\<close> with its packed bitfield
  and its file format, \<open>PeerState\<close> with its file format, the write to a temporary file followed by
  a rename, and \<open>SubPieceProgress\<close>. A file system is a map from paths to contents; \<open>fs::write\<close>
  may be cut off by a crash after any number of bytes, \<open>fs::rename\<close> is atomic. I/O errors other
  than a missing file are not modelled.
\<close>

unbundle bit_operations_syntax

section \<open>The packed bitfield\<close>

definition packed_byte_count :: "u32 \<Rightarrow> nat" where
  "packed_byte_count piece_count = sat_add_usize (unat piece_count) 7 div 8"

definition set_packed_bit :: "bytes \<Rightarrow> u32 \<Rightarrow> bytes" where
  "set_packed_bit bitfield index =
     (case get_at bitfield (unat (index div 8)) of
        None \<Rightarrow> bitfield
      | Some b \<Rightarrow> bitfield[unat (index div 8) := bit_or b (unat (index mod 8))])"

definition get_packed_bit :: "bytes \<Rightarrow> u32 \<Rightarrow> bool" where
  "get_packed_bit bitfield index =
     (case get_at bitfield (unat (index div 8)) of
        None \<Rightarrow> False
      | Some b \<Rightarrow> bit_is_set b (unat (index mod 8)))"

definition packed_range :: "bytes \<Rightarrow> u32 \<Rightarrow> bool" where
  "packed_range bitfield index \<longleftrightarrow> unat index div 8 < length bitfield"

lemma get_packed_bit_iff:
  "get_packed_bit bs i \<longleftrightarrow> packed_range bs i \<and> bit (bs ! (unat i div 8)) (unat i mod 8)"
  by (auto simp: get_packed_bit_def packed_range_def get_at_def unat_div unat_mod)

lemma set_packed_bit_eq:
  "set_packed_bit bs i =
     (if packed_range bs i
      then bs[unat i div 8 := bit_or (bs ! (unat i div 8)) (unat i mod 8)] else bs)"
  by (auto simp: set_packed_bit_def packed_range_def get_at_def unat_div unat_mod)

lemma length_set_packed_bit [simp]: "length (set_packed_bit bs i) = length bs"
  by (simp add: set_packed_bit_eq)

lemma index_eq_div_mod:
  "unat i div 8 = unat j div 8 \<Longrightarrow> unat i mod 8 = unat j mod 8 \<Longrightarrow> i = j" for i j :: u32
  by (metis div_mult_mod_eq unat_eq_iff)

lemma get_set_packed_bit:
  "get_packed_bit (set_packed_bit bs i) j \<longleftrightarrow> get_packed_bit bs j \<or> i = j \<and> packed_range bs i"
proof (cases "unat i div 8 = unat j div 8")
  case True
  then show ?thesis
    using index_eq_div_mod [OF True]
    by (auto simp: get_packed_bit_iff set_packed_bit_eq packed_range_def bit_bit_or)
next
  case False
  then show ?thesis
    by (auto simp: get_packed_bit_iff set_packed_bit_eq packed_range_def)
qed

interpretation packed: bitset get_packed_bit set_packed_bit packed_range
proof unfold_locales
  show "get_packed_bit (set_packed_bit bs i) j \<longleftrightarrow> get_packed_bit bs j \<or> i = j \<and> packed_range bs i"
    for bs i j by (rule get_set_packed_bit)
qed (simp_all add: packed_range_def get_packed_bit_iff)

section \<open>Resume state\<close>

datatype resume_error =
  Io
| InvalidMagic bytes
| UnsupportedVersion u8
| Truncated nat nat
| PieceCountMismatch u32 u32
| FileSizeMismatch u64 u64

record resume_state =
  rs_piece_count :: u32
  rs_file_size :: u64
  rs_bitfield :: bytes

definition MAGIC :: bytes where "MAGIC = [80, 50, 80, 82]"
definition VERSION :: u8 where "VERSION = 1"
definition HEADER_SIZE :: nat where "HEADER_SIZE = 17"

definition rs_new :: "u32 \<Rightarrow> u64 \<Rightarrow> resume_state" where
  "rs_new pc fs = \<lparr>rs_piece_count = pc, rs_file_size = fs,
     rs_bitfield = replicate (packed_byte_count pc) 0\<rparr>"

text \<open>The indices \<open>0..piece_count\<close> of the loops.\<close>

definition piece_indices :: "u32 \<Rightarrow> u32 list" where
  "piece_indices pc = map word_of_nat [0..<unat pc]"

definition rs_from_piece_map :: "piece_map \<Rightarrow> u64 \<Rightarrow> resume_state" where
  "rs_from_piece_map m fs =
     \<lparr>rs_piece_count = pm_piece_count m, rs_file_size = fs,
      rs_bitfield = fold (\<lambda>i bf. if pm_get m i = Done then set_packed_bit bf i else bf)
        (piece_indices (pm_piece_count m)) (replicate (packed_byte_count (pm_piece_count m)) 0)\<rparr>"

definition rs_mark_done :: "u32 \<Rightarrow> resume_state \<Rightarrow> resume_state" where
  "rs_mark_done i s = s\<lparr>rs_bitfield := set_packed_bit (rs_bitfield s) i\<rparr>"

definition rs_is_done :: "resume_state \<Rightarrow> u32 \<Rightarrow> bool" where
  "rs_is_done s i = get_packed_bit (rs_bitfield s) i"

definition rs_done_count :: "resume_state \<Rightarrow> u32" where
  "rs_done_count s =
     fold (\<lambda>i count. if rs_is_done s i then sat_add count 1 else count)
       (piece_indices (rs_piece_count s)) 0"

definition rs_to_verified_pieces :: "resume_state \<Rightarrow> bool list" where
  "rs_to_verified_pieces s = map (rs_is_done s) (piece_indices (rs_piece_count s))"

definition rs_validate :: "resume_state \<Rightarrow> u32 \<Rightarrow> u64 \<Rightarrow> resume_error + unit" where
  "rs_validate s pc fs =
     (if rs_piece_count s \<noteq> pc then Inl (PieceCountMismatch pc (rs_piece_count s))
      else if rs_file_size s \<noteq> fs then Inl (FileSizeMismatch fs (rs_file_size s))
      else Inr ())"

text \<open>The bytes \<open>save\<close> writes and what \<open>load\<close> makes of the bytes it reads.\<close>

definition rs_bytes :: "resume_state \<Rightarrow> bytes" where
  "rs_bytes s = MAGIC @ [VERSION] @ to_le (rs_piece_count s) @ to_le (rs_file_size s) @ rs_bitfield s"

definition rs_parse :: "bytes \<Rightarrow> resume_error + resume_state" where
  "rs_parse data =
     (let short = Truncated HEADER_SIZE (length data) in
      if length data < HEADER_SIZE then Inl short
      else
        and_then (ok_or (get_range data 0 4) short) (\<lambda>magic.
        if magic \<noteq> MAGIC then Inl (InvalidMagic magic) else
        and_then (ok_or (get_at data 4) short) (\<lambda>version.
        if version \<noteq> VERSION then Inl (UnsupportedVersion version) else
        and_then (ok_or (get_range data 5 9) short) (\<lambda>pc_bytes.
        and_then (ok_or (get_range data 9 17) short) (\<lambda>fs_bytes.
          let piece_count = (from_le pc_bytes :: u32);
              expected_bytes = packed_byte_count piece_count;
              rest = (case get_from data HEADER_SIZE of None \<Rightarrow> [] | Some r \<Rightarrow> r)
          in if length rest < expected_bytes
             then Inl (Truncated (sat_add_usize HEADER_SIZE expected_bytes) (length data))
             else Inr \<lparr>rs_piece_count = piece_count, rs_file_size = from_le fs_bytes,
                        rs_bitfield = take expected_bytes rest\<rparr>)))))"

section \<open>Files\<close>

type_synonym file_system = "(string, bytes) mapping"

definition tmp_sibling :: "string \<Rightarrow> string" where
  "tmp_sibling path = path @ ''.tmp''"

definition fs_rename :: "string \<Rightarrow> string \<Rightarrow> file_system \<Rightarrow> file_system" where
  "fs_rename src dst fs =
     (case Mapping.lookup fs src of
        None \<Rightarrow> fs
      | Some c \<Rightarrow> Mapping.update dst c (Mapping.delete src fs))"

text \<open>Where a crash may stop a save: after some bytes of the temporary file, or after the rename.\<close>

datatype save_progress = NotStarted | Writing nat | Renamed

fun save_until :: "save_progress \<Rightarrow> string \<Rightarrow> bytes \<Rightarrow> file_system \<Rightarrow> file_system" where
  "save_until NotStarted path buf fs = fs"
| "save_until (Writing n) path buf fs = Mapping.update (tmp_sibling path) (take n buf) fs"
| "save_until Renamed path buf fs =
     fs_rename (tmp_sibling path) path (Mapping.update (tmp_sibling path) buf fs)"

definition rs_save :: "string \<Rightarrow> resume_state \<Rightarrow> file_system \<Rightarrow> file_system" where
  "rs_save path s fs = save_until Renamed path (rs_bytes s) fs"

definition rs_load :: "string \<Rightarrow> file_system \<Rightarrow> resume_error + resume_state" where
  "rs_load path fs =
     (case Mapping.lookup fs path of None \<Rightarrow> Inl Io | Some data \<Rightarrow> rs_parse data)"

lemma tmp_sibling_neq [simp]: "tmp_sibling path \<noteq> path"
  by (simp add: tmp_sibling_def)

lemma lookup_save_until:
  "Mapping.lookup (save_until p path buf fs) path
     = (if p = Renamed then Some buf else Mapping.lookup fs path)"
  by (cases p) (simp_all add: fs_rename_def lookup_update lookup_update_neq)

section \<open>Loading what was saved\<close>

definition rs_wf :: "resume_state \<Rightarrow> bool" where
  "rs_wf s \<longleftrightarrow> length (rs_bitfield s) = packed_byte_count (rs_piece_count s)"

lemma rs_parse_bytes:
  assumes "rs_wf s"
  shows "rs_parse (rs_bytes s) = Inr s"
  using assms le32.length_enc [of "rs_piece_count s"] le64.length_enc [of "rs_file_size s"]
  by (simp add: rs_parse_def rs_bytes_def MAGIC_def HEADER_SIZE_def get_range_def get_at_def
      get_from_def le32.dec_enc le64.dec_enc rs_wf_def Let_def)

interpretation resume_file: roundtrip_codec rs_bytes rs_parse rs_wf
  by unfold_locales (rule rs_parse_bytes)

lemma rs_wf_new: "rs_wf (rs_new pc fs)"
  by (simp add: rs_wf_def rs_new_def)

lemma rs_wf_mark_done: "rs_wf s \<Longrightarrow> rs_wf (rs_mark_done i s)"
  by (simp add: rs_wf_def rs_mark_done_def)

lemma rs_wf_parse: "rs_parse data = Inr s \<Longrightarrow> rs_wf s"
  by (auto simp: rs_parse_def rs_wf_def and_then_Inr Let_def split: if_splits)

lemma length_fold_bits:
  "length (fold (\<lambda>i bf. if P i then set_packed_bit bf i else bf) is bf) = length bf"
  by (induction "is" arbitrary: bf) auto

lemma rs_wf_from_piece_map: "rs_wf (rs_from_piece_map m fs)"
  by (simp add: rs_wf_def rs_from_piece_map_def length_fold_bits)

lemma fold_cond_filter:
  "fold (\<lambda>i s. if P i then f i s else s) is s = fold f (filter P is) s"
  by (induction "is" arbitrary: s) auto

lemma set_piece_indices [simp]: "set (piece_indices pc) = {i. i < pc}"
proof (intro set_eqI iffI)
  fix i :: u32
  assume "i \<in> {i. i < pc}"
  then show "i \<in> set (piece_indices pc)"
    by (auto simp: piece_indices_def word_less_nat_alt intro: image_eqI [of _ _ "unat i"])
next
  fix i
  assume "i \<in> set (piece_indices pc)"
  then obtain k where k: "i = word_of_nat k" "k < unat pc"
    by (auto simp: piece_indices_def)
  then have "k < 2 ^ 32"
    using unat_less_exp [of pc] by simp
  with k show "i \<in> {i. i < pc}"
    by (simp add: word_less_nat_alt unsigned_of_nat take_bit_eq_mod)
qed

lemma packed_byte_count_eq: "packed_byte_count pc = (unat pc + 7) div 8"
  using unat_less_exp [of pc] by (simp add: packed_byte_count_def sat_add_usize_def usize_max_def)

lemma packed_rangeI:
  "length bf = packed_byte_count pc \<Longrightarrow> i < pc \<Longrightarrow> packed_range bf i"
  by (simp add: packed_range_def packed_byte_count_eq word_less_nat_alt)

lemma rs_from_piece_map_done:
  assumes "i < pm_piece_count m"
  shows "rs_is_done (rs_from_piece_map m fs) i \<longleftrightarrow> pm_get m i = Done"
proof -
  let ?bf = "replicate (packed_byte_count (pm_piece_count m)) 0 :: bytes"
  have "rs_is_done (rs_from_piece_map m fs) i \<longleftrightarrow>
      get_packed_bit ?bf i \<or> i \<in> set (filter (\<lambda>i. pm_get m i = Done)
        (piece_indices (pm_piece_count m))) \<and> packed_range ?bf i"
    using packed.has_fold [of "filter (\<lambda>i. pm_get m i = Done) (piece_indices (pm_piece_count m))" ?bf i]
    by (simp add: rs_is_done_def rs_from_piece_map_def fold_cond_filter)
  moreover have "\<not> get_packed_bit ?bf i"
    by (auto simp: get_packed_bit_iff packed_range_def)
  moreover have "packed_range ?bf i"
    using assms by (intro packed_rangeI) simp_all
  ultimately show ?thesis
    using assms by simp
qed

lemma distinct_piece_indices: "distinct (piece_indices pc)"
proof -
  have "k < 2 ^ 32" if "k < unat pc" for k
    using that unat_less_exp [of pc] by simp
  then have "unat (word_of_nat k :: u32) = k" if "k < unat pc" for k
    using that by (simp add: unsigned_of_nat take_bit_eq_mod)
  then have "inj_on (word_of_nat :: nat \<Rightarrow> u32) (set [0..<unat pc])"
    by (intro inj_on_inverseI [of _ unat]) simp
  then show ?thesis
    by (simp add: piece_indices_def distinct_map)
qed

lemma fold_count:
  "unat acc + length is < 2 ^ 32 \<Longrightarrow>
   unat (fold (\<lambda>i count. if P i then sat_add count 1 else count) is (acc :: u32))
     = unat acc + length (filter P is)"
proof (induction "is" arbitrary: acc)
  case Nil
  then show ?case by simp
next
  case (Cons i "is")
  from Cons.prems Cons.IH [of "sat_add acc 1"] Cons.IH [of acc] show ?case
    by (auto simp: unat_sat_add)
qed

lemma rs_done_count_card: "unat (rs_done_count s) = card {i. i < rs_piece_count s \<and> rs_is_done s i}"
proof -
  have "length (piece_indices (rs_piece_count s)) < 2 ^ 32"
    using unat_less_exp [of "rs_piece_count s"] by (simp add: piece_indices_def)
  then have "unat (rs_done_count s) = length (filter (rs_is_done s) (piece_indices (rs_piece_count s)))"
    using fold_count [of 0 "piece_indices (rs_piece_count s)" "rs_is_done s"]
    by (simp add: rs_done_count_def)
  also have "\<dots> = card (set (filter (rs_is_done s) (piece_indices (rs_piece_count s))))"
    by (intro distinct_card [symmetric] distinct_filter distinct_piece_indices)
  also have "set (filter (rs_is_done s) (piece_indices (rs_piece_count s)))
      = {i. i < rs_piece_count s \<and> rs_is_done s i}"
    by auto
  finally show ?thesis .
qed

lemma resumed_get:
  "pm_get (pm_from_verified pc (rs_to_verified_pieces s)) i = Done
     \<longleftrightarrow> i < pc \<and> i < rs_piece_count s \<and> rs_is_done s i"
  by (auto simp: pm_from_verified_get rs_to_verified_pieces_def piece_indices_def word_less_nat_alt)

section \<open>Progress within a piece\<close>

type_synonym sub_piece_progress = "(u32, u64) mapping"

definition sp_update :: "u32 \<Rightarrow> u64 \<Rightarrow> sub_piece_progress \<Rightarrow> sub_piece_progress" where
  "sp_update i received p = Mapping.update i received p"

definition sp_bytes_received :: "sub_piece_progress \<Rightarrow> u32 \<Rightarrow> u64" where
  "sp_bytes_received p i = (case Mapping.lookup p i of None \<Rightarrow> 0 | Some v \<Rightarrow> v)"

definition sp_complete :: "u32 \<Rightarrow> sub_piece_progress \<Rightarrow> sub_piece_progress" where
  "sp_complete i p = Mapping.delete i p"

definition sp_reset :: "u32 \<Rightarrow> sub_piece_progress \<Rightarrow> sub_piece_progress" where
  "sp_reset i p = Mapping.delete i p"

definition sp_in_progress_count :: "sub_piece_progress \<Rightarrow> nat" where
  "sp_in_progress_count p = Mapping.size p"

section \<open>Properties\<close>

text \<open>
  C9: A save survives a crash at any point. Whether the process stops before the save, after any
  number of bytes of the temporary file, or after the rename, a later load of the path returns
  either what it returned before the save or exactly the state that was saved.
\<close>
theorem resume_save_crash_safe:
  assumes "rs_wf s"
  shows "rs_load path (save_until p path (rs_bytes s) fs)
      = (if p = Renamed then Inr s else rs_load path fs)"
  using rs_parse_bytes [OF assms] by (simp add: rs_load_def lookup_save_until)

theorem resume_save_crash_safe_witness:
  "rs_load ''a'' (save_until (Writing 7) ''a'' (rs_bytes (rs_new 9 100))
       (rs_save ''a'' (rs_new 9 100) Mapping.empty))
     = (if Writing 7 = Renamed then Inr (rs_new 9 100)
        else rs_load ''a'' (rs_save ''a'' (rs_new 9 100) Mapping.empty))"
  by (rule resume_save_crash_safe) (rule rs_wf_new)

text \<open>
  A download resumes with exactly the pieces it had. Snapshotting a piece map, saving the
  snapshot, loading the file and building a new map from it yields a map in which a piece is done
  exactly when it was done before; pieces in any other state are downloaded again.
\<close>
theorem resume_restores_done_pieces:
  "\<exists>s. rs_load path (rs_save path (rs_from_piece_map m fsize) fs) = Inr s
     \<and> rs_validate s (pm_piece_count m) fsize = Inr ()
     \<and> (\<forall>i. pm_get (pm_from_verified (pm_piece_count m) (rs_to_verified_pieces s)) i = Done
          \<longleftrightarrow> i < pm_piece_count m \<and> pm_get m i = Done)"
proof (intro exI conjI)
  let ?s = "rs_from_piece_map m fsize"
  show "rs_load path (rs_save path ?s fs) = Inr ?s"
    using rs_parse_bytes [OF rs_wf_from_piece_map]
    by (simp add: rs_load_def rs_save_def lookup_save_until del: save_until.simps)
  have count: "rs_piece_count ?s = pm_piece_count m" "rs_file_size ?s = fsize"
    by (simp_all add: rs_from_piece_map_def)
  then show "rs_validate ?s (pm_piece_count m) fsize = Inr ()"
    by (simp add: rs_validate_def)
  show "\<forall>i. pm_get (pm_from_verified (pm_piece_count m) (rs_to_verified_pieces ?s)) i = Done
          \<longleftrightarrow> i < pm_piece_count m \<and> pm_get m i = Done"
    using rs_from_piece_map_done [of _ m fsize] by (auto simp: resumed_get count)
qed

text \<open>
  C21: What \<open>load\<close> accepts is a well-formed state whose operations mean what they say: the bitfield
  has the packed length, \<open>mark_done\<close> of a piece marks that piece and no other, and \<open>done_count\<close> is
  the number of marked pieces below the piece count, whatever the spare bits of the file are.
\<close>
theorem resume_loaded_state_correct:
  assumes "rs_parse data = Inr s" and "i < rs_piece_count s"
  shows "length (rs_bitfield s) = packed_byte_count (rs_piece_count s)
    \<and> (rs_is_done (rs_mark_done i s) j \<longleftrightarrow> rs_is_done s j \<or> j = i)
    \<and> unat (rs_done_count s) = card {k. k < rs_piece_count s \<and> rs_is_done s k}"
proof -
  have wf: "length (rs_bitfield s) = packed_byte_count (rs_piece_count s)"
    using rs_wf_parse [OF assms(1)] by (simp add: rs_wf_def)
  with assms(2) have "packed_range (rs_bitfield s) i"
    by (intro packed_rangeI)
  then have "rs_is_done (rs_mark_done i s) j \<longleftrightarrow> rs_is_done s j \<or> j = i"
    by (auto simp: rs_is_done_def rs_mark_done_def packed.has_put)
  with wf rs_done_count_card show ?thesis by simp
qed

theorem resume_loaded_state_correct_witness:
  "length (rs_bitfield (rs_new 9 100)) = packed_byte_count (rs_piece_count (rs_new 9 100))
    \<and> (rs_is_done (rs_mark_done 3 (rs_new 9 100)) 4 \<longleftrightarrow> rs_is_done (rs_new 9 100) 4 \<or> (4 :: u32) = 3)
    \<and> unat (rs_done_count (rs_new 9 100))
        = card {k. k < rs_piece_count (rs_new 9 100) \<and> rs_is_done (rs_new 9 100) k}"
proof (rule resume_loaded_state_correct)
  show "rs_parse (rs_bytes (rs_new 9 100)) = Inr (rs_new 9 100)"
    by (rule rs_parse_bytes) (rule rs_wf_new)
  show "3 < rs_piece_count (rs_new 9 100)"
    by (simp add: rs_new_def)
qed

end
