(* ===== verification/PeerFile.thy ===== *)
theory PeerFile
  imports Resume
begin

text \<open>
  The companion file of known peers, \<open>PeerState\<close> of \<open>crates/p2p-distribute/src/resume.rs\<close>, with
  the records of \<open>peer_stats.rs\<close> it stores. An entry has 66 bytes; the exclusion counts are a list
  beside the reputations, and a missing count is written as zero.
\<close>

datatype trust_level = Untested | Probationary | Established | Trusted

record peer_reputation =
  pr_peer_id :: bytes
  pr_trust_level :: trust_level
  pr_pieces_served :: u64
  pr_corruption_count :: u32
  pr_avg_speed :: u64
  pr_last_seen :: u64
  pr_banned :: bool

record peer_state =
  ps_reputations :: "peer_reputation list"
  ps_exclusion_counts :: "u32 list"

definition PEER_MAGIC :: bytes where "PEER_MAGIC = [80, 50, 80, 80]"
definition PEER_VERSION :: u8 where "PEER_VERSION = 1"
definition PEER_ENTRY_SIZE :: nat where "PEER_ENTRY_SIZE = 66"
definition PEER_HEADER_SIZE :: nat where "PEER_HEADER_SIZE = 9"

fun trust_level_to_u8 :: "trust_level \<Rightarrow> u8" where
  "trust_level_to_u8 Untested = 0"
| "trust_level_to_u8 Probationary = 1"
| "trust_level_to_u8 Established = 2"
| "trust_level_to_u8 Trusted = 3"

definition trust_level_from_u8 :: "u8 \<Rightarrow> trust_level" where
  "trust_level_from_u8 b =
     (if b = 0 then Untested else if b = 1 then Probationary else if b = 2 then Established
      else if b = 3 then Trusted else Untested)"

section \<open>Writing\<close>

definition entry_bytes :: "peer_reputation \<Rightarrow> u32 \<Rightarrow> bytes" where
  "entry_bytes rep exc =
     pr_peer_id rep @ [trust_level_to_u8 (pr_trust_level rep)]
     @ to_le (pr_pieces_served rep) @ to_le (pr_corruption_count rep) @ to_le (pr_avg_speed rep)
     @ to_le (pr_last_seen rep) @ [if pr_banned rep then 1 else 0] @ to_le exc"

definition exclusion_at :: "peer_state \<Rightarrow> nat \<Rightarrow> u32" where
  "exclusion_at s i = (case get_at (ps_exclusion_counts s) i of None \<Rightarrow> 0 | Some e \<Rightarrow> e)"

definition peers_bytes :: "peer_state \<Rightarrow> bytes" where
  "peers_bytes s =
     PEER_MAGIC @ [PEER_VERSION] @ to_le (word_of_nat (length (ps_reputations s)) :: u32)
     @ concat (map (\<lambda>(i, rep). entry_bytes rep (exclusion_at s i)) (enumerate 0 (ps_reputations s)))"

section \<open>Reading\<close>

text \<open>One entry at \<open>offset\<close>; \<open>short\<close> is the error of every access past the end.\<close>

definition parse_entry ::
  "resume_error \<Rightarrow> bytes \<Rightarrow> nat \<Rightarrow> resume_error + peer_reputation \<times> u32"
where
  "parse_entry short data offset =
     and_then (ok_or (get_range data offset (sat_add_usize offset PEER_ENTRY_SIZE)) short) (\<lambda>entry.
     and_then (ok_or (get_range entry 0 32) short) (\<lambda>peer_id.
     and_then (ok_or (get_at entry 32) short) (\<lambda>trust_byte.
     and_then (ok_or (get_range entry 33 41) short) (\<lambda>lps.
     and_then (ok_or (get_range entry 41 45) short) (\<lambda>lcc.
     and_then (ok_or (get_range entry 45 53) short) (\<lambda>avg_speed.
     and_then (ok_or (get_range entry 53 61) short) (\<lambda>last_seen.
       let banned = (case get_at entry 61 of None \<Rightarrow> 0 | Some b \<Rightarrow> b) \<noteq> 0 in
     and_then (ok_or (get_range entry 62 66) short) (\<lambda>exc.
       Inr (\<lparr>pr_peer_id = peer_id, pr_trust_level = trust_level_from_u8 trust_byte,
             pr_pieces_served = from_le lps, pr_corruption_count = from_le lcc,
             pr_avg_speed = from_le avg_speed, pr_last_seen = from_le last_seen,
             pr_banned = banned\<rparr>, from_le exc)))))))))"

primrec parse_entries ::
  "nat \<Rightarrow> resume_error \<Rightarrow> bytes \<Rightarrow> nat \<Rightarrow> peer_state \<Rightarrow> resume_error + peer_state"
where
  "parse_entries 0 short data offset s = Inr s"
| "parse_entries (Suc n) short data offset s =
     and_then (parse_entry short data offset) (\<lambda>(rep, exc).
       parse_entries n short data (sat_add_usize offset PEER_ENTRY_SIZE)
         (s\<lparr>ps_reputations := ps_reputations s @ [rep],
            ps_exclusion_counts := ps_exclusion_counts s @ [exc]\<rparr>))"

definition peers_parse :: "bytes \<Rightarrow> resume_error + peer_state" where
  "peers_parse data =
     (let short = Truncated PEER_HEADER_SIZE (length data) in
      if length data < PEER_HEADER_SIZE then Inl short
      else
        and_then (ok_or (get_range data 0 4) short) (\<lambda>magic.
        if magic \<noteq> PEER_MAGIC then Inl (InvalidMagic magic) else
        and_then (ok_or (get_at data 4) short) (\<lambda>version.
        if version \<noteq> PEER_VERSION then Inl (UnsupportedVersion version) else
        and_then (ok_or (get_range data 5 9) short) (\<lambda>ec_bytes.
          let entry_count = unat (from_le ec_bytes :: u32);
              expected = sat_add_usize PEER_HEADER_SIZE (sat_mul_usize entry_count PEER_ENTRY_SIZE)
          in if length data < expected then Inl (Truncated expected (length data))
             else parse_entries entry_count (Truncated expected (length data)) data PEER_HEADER_SIZE
                    \<lparr>ps_reputations = [], ps_exclusion_counts = []\<rparr>))))"

section \<open>Reading what was written\<close>

definition reputation_ok :: "peer_reputation \<Rightarrow> bool" where
  "reputation_ok rep \<longleftrightarrow> length (pr_peer_id rep) = 32"

lemma trust_level_roundtrip [simp]: "trust_level_from_u8 (trust_level_to_u8 t) = t"
  by (cases t) (simp_all add: trust_level_from_u8_def)

lemma length_entry_bytes [simp]: "reputation_ok rep \<Longrightarrow> length (entry_bytes rep exc) = 66"
  by (simp add: entry_bytes_def reputation_ok_def le32.length_enc le64.length_enc)

lemma parse_entry_bytes:
  assumes "reputation_ok rep" and "data = pre @ entry_bytes rep exc @ post"
    and "offset = length pre" and "length data \<le> usize_max"
  shows "parse_entry short data offset = Inr (rep, exc)"
proof -
  let ?e = "entry_bytes rep exc"
  have "sat_add_usize offset PEER_ENTRY_SIZE = offset + 66"
    using assms by (simp add: sat_add_usize_def PEER_ENTRY_SIZE_def)
  then have entry: "get_range data offset (sat_add_usize offset PEER_ENTRY_SIZE) = Some ?e"
    using assms(1-3) get_range_append [of pre ?e post] by simp
  have fields: "get_range ?e 0 32 = Some (pr_peer_id rep)"
    "get_at ?e 32 = Some (trust_level_to_u8 (pr_trust_level rep))"
    "get_range ?e 33 41 = Some (to_le (pr_pieces_served rep))"
    "get_range ?e 41 45 = Some (to_le (pr_corruption_count rep))"
    "get_range ?e 45 53 = Some (to_le (pr_avg_speed rep))"
    "get_range ?e 53 61 = Some (to_le (pr_last_seen rep))"
    "get_at ?e 61 = Some (if pr_banned rep then 1 else 0)"
    "get_range ?e 62 66 = Some (to_le exc)"
    using assms(1)
    by (simp_all add: entry_bytes_def reputation_ok_def get_range_def get_at_def nth_append
        le32.length_enc le64.length_enc)
  then show ?thesis
    using entry by (simp add: parse_entry_def le32.dec_enc le64.dec_enc)
qed

abbreviation all_entries :: "(nat \<Rightarrow> u32) \<Rightarrow> nat \<Rightarrow> peer_reputation list \<Rightarrow> bytes" where
  "all_entries exc k reps \<equiv> concat (map (\<lambda>(i, rep). entry_bytes rep (exc i)) (enumerate k reps))"

lemma parse_entries_bytes:
  assumes "list_all reputation_ok reps" and "data = pre @ all_entries exc k reps"
    and "offset = length pre" and "length data \<le> usize_max"
  shows "parse_entries (length reps) short data offset s
     = Inr (s\<lparr>ps_reputations := ps_reputations s @ reps,
              ps_exclusion_counts := ps_exclusion_counts s @ map exc [k..<k + length reps]\<rparr>)"
  using assms
proof (induction reps arbitrary: pre offset k s)
  case Nil
  then show ?case by simp
next
  case (Cons rep reps)
  have data: "data = pre @ entry_bytes rep (exc k) @ all_entries exc (Suc k) reps"
    "data = (pre @ entry_bytes rep (exc k)) @ all_entries exc (Suc k) reps"
    using Cons.prems(2) by simp_all
  have entry: "parse_entry short data offset = Inr (rep, exc k)"
    using Cons.prems data(1) by (intro parse_entry_bytes) simp_all
  have size: "length (entry_bytes rep (exc k)) = 66"
    using Cons.prems(1) by simp
  then have "sat_add_usize offset PEER_ENTRY_SIZE = length (pre @ entry_bytes rep (exc k))"
    using Cons.prems(3,4) data(1) by (simp add: sat_add_usize_def PEER_ENTRY_SIZE_def)
  then have "parse_entries (length reps) short data (sat_add_usize offset PEER_ENTRY_SIZE) s'
     = Inr (s'\<lparr>ps_reputations := ps_reputations s' @ reps,
          ps_exclusion_counts := ps_exclusion_counts s' @ map exc [Suc k..<Suc k + length reps]\<rparr>)" for s'
    using Cons.prems(1,4) by (intro Cons.IH [OF _ data(2)]) simp_all
  then show ?case
    by (simp add: entry upt_conv_Cons del: upt_Suc)
qed

lemma length_all_entries:
  "list_all reputation_ok reps \<Longrightarrow> length (all_entries exc k reps) = 66 * length reps"
  by (induction reps arbitrary: k) simp_all

lemma peers_parse_bytes:
  assumes "list_all reputation_ok (ps_reputations s)" and "length (ps_reputations s) < 2 ^ 32"
  shows "peers_parse (peers_bytes s)
    = Inr (s\<lparr>ps_exclusion_counts := map (exclusion_at s) [0..<length (ps_reputations s)]\<rparr>)"
proof -
  let ?n = "length (ps_reputations s)" and ?data = "peers_bytes s"
  let ?count = "to_le (word_of_nat ?n :: u32)"
  let ?pre = "PEER_MAGIC @ [PEER_VERSION] @ ?count"
  have data: "?data = ?pre @ all_entries (exclusion_at s) 0 (ps_reputations s)"
    by (simp add: peers_bytes_def)
  have pre: "length ?pre = 9"
    by (simp add: PEER_MAGIC_def le32.length_enc)
  then have len: "length ?data = 9 + 66 * ?n"
    using length_all_entries [OF assms(1)] by (simp add: data)
  have n: "unat (word_of_nat ?n :: u32) = ?n"
    using assms(2) by (simp add: unsigned_of_nat take_bit_eq_mod)
  have "9 + 66 * ?n \<le> usize_max"
    using assms(2) by (simp add: usize_max_def)
  then have expected: "sat_add_usize 9 (sat_mul_usize ?n 66) = length ?data" "length ?data \<le> usize_max"
    using len by (simp_all add: sat_add_usize_def sat_mul_usize_def)
  have heads: "get_range ?data 0 4 = Some PEER_MAGIC" "get_at ?data 4 = Some PEER_VERSION"
    "get_range ?data 5 9 = Some ?count"
    by (simp_all add: data get_range_def get_at_def PEER_MAGIC_def le32.length_enc)
  have "parse_entries ?n short ?data 9 \<lparr>ps_reputations = [], ps_exclusion_counts = []\<rparr>
     = Inr (s\<lparr>ps_exclusion_counts := map (exclusion_at s) [0..<?n]\<rparr>)" for short
    by (subst parse_entries_bytes [OF assms(1) data _ expected(2)]) (simp_all add: pre [symmetric])
  then show ?thesis
    using len heads n expected(1)
    by (simp add: peers_parse_def PEER_HEADER_SIZE_def PEER_ENTRY_SIZE_def le32.dec_enc Let_def)
qed

definition peers_ok :: "peer_state \<Rightarrow> bool" where
  "peers_ok s \<longleftrightarrow> list_all reputation_ok (ps_reputations s) \<and> length (ps_reputations s) < 2 ^ 32
     \<and> length (ps_exclusion_counts s) = length (ps_reputations s)"

lemma exclusion_at_all:
  "length (ps_exclusion_counts s) = n \<Longrightarrow> map (exclusion_at s) [0..<n] = ps_exclusion_counts s"
  by (rule nth_equalityI) (simp_all add: exclusion_at_def get_at_def)

interpretation peers_file: roundtrip_codec peers_bytes peers_parse peers_ok
  by unfold_locales (auto simp: peers_ok_def peers_parse_bytes exclusion_at_all)

section \<open>Properties\<close>

text \<open>
  Peer reputations survive a restart. Loading the file that was saved for fewer than
  \<open>2 ^ 32\<close> peers returns every reputation unchanged, bans included, with one exclusion count for
  each peer: the saved one, or zero where the list of counts was too short.
\<close>
theorem peer_state_roundtrip:
  assumes "list_all (\<lambda>r. length (pr_peer_id r) = 32) (ps_reputations s)"
    and "length (ps_reputations s) < 2 ^ 32"
  shows "peers_parse (peers_bytes s)
    = Inr (s\<lparr>ps_exclusion_counts := map (exclusion_at s) [0..<length (ps_reputations s)]\<rparr>)"
  using assms by (intro peers_parse_bytes) (simp_all add: reputation_ok_def [abs_def])

theorem peer_state_roundtrip_witness:
  "let r = \<lparr>pr_peer_id = replicate 32 7, pr_trust_level = Trusted, pr_pieces_served = 500,
             pr_corruption_count = 3, pr_avg_speed = 50000, pr_last_seen = 9, pr_banned = True\<rparr>;
       s = \<lparr>ps_reputations = [r, r], ps_exclusion_counts = [4]\<rparr>
   in peers_parse (peers_bytes s) = Inr (s\<lparr>ps_exclusion_counts := [4, 0]\<rparr>)"
proof -
  let ?r = "\<lparr>pr_peer_id = replicate 32 7, pr_trust_level = Trusted, pr_pieces_served = 500,
             pr_corruption_count = 3, pr_avg_speed = 50000, pr_last_seen = 9, pr_banned = True\<rparr>"
  let ?s = "\<lparr>ps_reputations = [?r, ?r], ps_exclusion_counts = [4]\<rparr>"
  have "peers_parse (peers_bytes ?s)
      = Inr (?s\<lparr>ps_exclusion_counts := map (exclusion_at ?s) [0..<length (ps_reputations ?s)]\<rparr>)"
    by (rule peer_state_roundtrip) simp_all
  moreover have "map (exclusion_at ?s) [0..<length (ps_reputations ?s)] = [4, 0]"
    by (simp add: exclusion_at_def get_at_def upt_rec)
  ultimately show ?thesis
    unfolding Let_def by (simp only:)
qed

end
