(* ===== verification/Storage.thy ===== *)
theory Storage
  imports Prelude
begin

text \<open>
  Storage backends, \<open>crates/p2p-distribute/src/storage.rs\<close>: the trait \<open>PieceStorage\<close> as a record
  of operations (the vtable of a trait object), \<open>MemoryStorage\<close> and \<open>CoalescingStorage\<close>. The
  locale \<open>piece_storage\<close> states what the callers of the trait rely on, over the flat contents of a
  backend; it is interpreted on \<open>MemoryStorage\<close>. \<open>FileStorage\<close> is in the theory of that name. Locks are never poisoned in the model: a poisoned lock needs a panic, and the
  operations do not panic.
\<close>

section \<open>The trait\<close>

datatype storage_error =
  StorageIo u64 string
| StorageFailed string

record 's storage_ops =
  op_write :: "u32 \<Rightarrow> u64 \<Rightarrow> bytes \<Rightarrow> 's \<Rightarrow> (storage_error + unit) \<times> 's"
  op_read :: "u64 \<Rightarrow> nat \<Rightarrow> 's \<Rightarrow> storage_error + bytes"
  op_flush :: "'s \<Rightarrow> (storage_error + unit) \<times> 's"

text \<open>
  \<open>op_read offset n\<close> stands for a read into a buffer of \<open>n\<close> bytes; it returns the bytes written to
  the front of the buffer, whose number is the count the code returns.
\<close>

definition overwrite :: "nat \<Rightarrow> bytes \<Rightarrow> bytes \<Rightarrow> bytes" where
  "overwrite offset data xs = take offset xs @ data @ drop (offset + length data) xs"

lemma length_overwrite [simp]:
  "offset + length data \<le> length xs \<Longrightarrow> length (overwrite offset data xs) = length xs"
  by (simp add: overwrite_def)

lemma nth_overwrite:
  "offset + length data \<le> length xs \<Longrightarrow> p < length xs \<Longrightarrow>
   overwrite offset data xs ! p
     = (if offset \<le> p \<and> p < offset + length data then data ! (p - offset) else xs ! p)"
  by (auto simp: overwrite_def nth_append)

lemma overwrite_idem: "offset + length data \<le> length xs \<Longrightarrow>
   overwrite offset data (overwrite offset data xs) = overwrite offset data xs"
  by (rule nth_equalityI) (simp_all add: nth_overwrite)

lemma overwrite_same:
  assumes "offset + n \<le> length xs"
  shows "overwrite offset (take n (drop offset xs)) xs = xs"
  using assms by (intro nth_equalityI) (auto simp: nth_overwrite)

text \<open>
  The contract. A write inside the contents replaces its range and nothing else; a write past the
  end is an error and changes nothing; a read returns the bytes there are, and none or an error
  past the end; a flush keeps the contents.
\<close>

locale piece_storage =
  fixes ops :: "'s storage_ops" and content :: "'s \<Rightarrow> bytes" and ok :: "'s \<Rightarrow> bool"
  assumes write_in: "ok s \<Longrightarrow> unat off + length d \<le> length (content s) \<Longrightarrow>
      \<exists>s'. op_write ops i off d s = (Inr (), s') \<and> ok s' \<and> content s' = overwrite (unat off) d (content s)"
    and write_out: "ok s \<Longrightarrow> \<not> unat off + length d \<le> length (content s) \<Longrightarrow>
      \<exists>e. op_write ops i off d s = (Inl e, s)"
    and read_in: "ok s \<Longrightarrow> unat off \<le> length (content s) \<Longrightarrow>
      op_read ops off n s = Inr (take n (drop (unat off) (content s)))"
    and read_out: "ok s \<Longrightarrow> \<not> unat off \<le> length (content s) \<Longrightarrow>
      op_read ops off n s = Inr [] \<or> (\<exists>e. op_read ops off n s = Inl e)"
    and flush_ok: "ok s \<Longrightarrow> \<exists>s'. op_flush ops s = (Inr (), s') \<and> ok s' \<and> content s' = content s"
begin

lemma write_ok: "ok s \<Longrightarrow> ok (snd (op_write ops i off d s))"
  using write_in [of s off d i] write_out [of s off d i]
  by (cases "unat off + length d \<le> length (content s)") auto

lemma write_length: "ok s \<Longrightarrow> length (content (snd (op_write ops i off d s))) = length (content s)"
  using write_in [of s off d i] write_out [of s off d i]
  by (cases "unat off + length d \<le> length (content s)") auto

text \<open>The trait asks for idempotent writes: a repeated write succeeds and changes nothing.\<close>

lemma write_idempotent:
  assumes "ok s" and "op_write ops i off d s = (Inr (), s')"
  shows "\<exists>s''. op_write ops i off d s' = (Inr (), s'') \<and> content s'' = content s'"
proof -
  have fits: "unat off + length d \<le> length (content s)"
    using write_out [OF assms(1), of off d i] assms(2) by force
  then have s': "ok s'" "content s' = overwrite (unat off) d (content s)"
    using write_in [OF assms(1) fits, of i] assms(2) by auto
  from fits have "unat off + length d \<le> length (content s')"
    by (simp add: s'(2))
  from write_in [OF s'(1) this, of i] s'(2) fits show ?thesis
    by (auto simp: overwrite_idem)
qed

lemma read_after_write:
  assumes "ok s" and "op_write ops i off d s = (Inr (), s')"
  shows "op_read ops off (length d) s' = Inr d"
proof -
  have fits: "unat off + length d \<le> length (content s)"
    using write_out [OF assms(1), of off d i] assms(2) by force
  then have s': "ok s'" "content s' = overwrite (unat off) d (content s)"
    using write_in [OF assms(1) fits, of i] assms(2) by auto
  then show ?thesis
    using fits read_in [OF s'(1), of off "length d"] by (simp add: overwrite_def)
qed

end

section \<open>Memory storage\<close>

type_synonym memory_storage = bytes

definition ms_new :: "u64 \<Rightarrow> memory_storage" where
  "ms_new file_size = replicate (unat file_size) 0"

definition ms_write :: "u32 \<Rightarrow> u64 \<Rightarrow> bytes \<Rightarrow> memory_storage \<Rightarrow> (storage_error + unit) \<times> memory_storage" where
  "ms_write piece_index offset data buf =
     (let start = unat offset in
      case checked_add_usize start (length data) of
        None \<Rightarrow> (Inl (StorageIo offset ''offset overflow''), buf)
      | Some end' \<Rightarrow>
          (case get_range buf start end' of
             None \<Rightarrow> (Inl (StorageIo offset ''write extends past end of storage''), buf)
           | Some _ \<Rightarrow> (Inr (), overwrite start data buf)))"

definition ms_read :: "u64 \<Rightarrow> nat \<Rightarrow> memory_storage \<Rightarrow> storage_error + bytes" where
  "ms_read offset n data =
     (let start = unat offset;
          available = length data - start;
          to_read = min n available
      in ok_or (get_range data start (sat_add_usize start to_read))
           (StorageIo offset ''read past end of storage''))"

definition ms_flush :: "memory_storage \<Rightarrow> (storage_error + unit) \<times> memory_storage" where
  "ms_flush data = (Inr (), data)"

definition memory_ops :: "memory_storage storage_ops" where
  "memory_ops = \<lparr>op_write = ms_write, op_read = ms_read, op_flush = ms_flush\<rparr>"

definition ms_ok :: "memory_storage \<Rightarrow> bool" where
  "ms_ok data \<longleftrightarrow> length data \<le> usize_max"

interpretation mem: piece_storage memory_ops "\<lambda>s. s" ms_ok
proof unfold_locales
  fix s :: bytes and off :: u64 and d i
  assume ok: "ms_ok s"
  show "unat off + length d \<le> length s \<Longrightarrow>
      \<exists>s'. op_write memory_ops i off d s = (Inr (), s') \<and> ms_ok s' \<and> s' = overwrite (unat off) d s"
    using ok by (simp add: memory_ops_def ms_write_def checked_add_usize_def get_range_def ms_ok_def)
  show "\<not> unat off + length d \<le> length s \<Longrightarrow> \<exists>e. op_write memory_ops i off d s = (Inl e, s)"
    using ok by (auto simp: memory_ops_def ms_write_def checked_add_usize_def get_range_def Let_def
        split: option.split)
  show "unat off \<le> length s \<Longrightarrow> op_read memory_ops off n s = Inr (take n (drop (unat off) s))" for n
    using ok by (auto simp: memory_ops_def ms_read_def sat_add_usize_def get_range_def ms_ok_def
        Let_def min_def)
  show "\<not> unat off \<le> length s \<Longrightarrow>
      op_read memory_ops off n s = Inr [] \<or> (\<exists>e. op_read memory_ops off n s = Inl e)" for n
    by (simp add: memory_ops_def ms_read_def get_range_def Let_def)
  show "\<exists>s'. op_flush memory_ops s = (Inr (), s') \<and> ms_ok s' \<and> s' = s"
    using ok by (simp add: memory_ops_def ms_flush_def)
qed

section \<open>Coalescing storage\<close>

record buffered_write =
  bw_offset :: u64
  bw_piece :: u32
  bw_data :: bytes

record 's coalescing =
  cs_inner :: 's
  cs_buffer :: "buffered_write list"
  cs_threshold :: nat

definition cs_new :: "'s \<Rightarrow> nat \<Rightarrow> 's coalescing" where
  "cs_new inner threshold = \<lparr>cs_inner = inner, cs_buffer = [], cs_threshold = threshold\<rparr>"

text \<open>The loop over \<open>buf.drain(..)\<close>: the first error ends it.\<close>

primrec drain_writes ::
  "'s storage_ops \<Rightarrow> buffered_write list \<Rightarrow> 's \<Rightarrow> (storage_error + unit) \<times> 's"
where
  "drain_writes ops [] s = (Inr (), s)"
| "drain_writes ops (w # ws) s =
     (case op_write ops (bw_piece w) (bw_offset w) (bw_data w) s of
        (Inl e, s') \<Rightarrow> (Inl e, s')
      | (Inr _, s') \<Rightarrow> drain_writes ops ws s')"

text \<open>However the loop ends, dropping the \<open>Drain\<close> empties the buffer.\<close>

definition flush_buffer :: "'s storage_ops \<Rightarrow> 's coalescing \<Rightarrow> (storage_error + unit) \<times> 's coalescing" where
  "flush_buffer ops c =
     (if cs_buffer c = [] then (Inr (), c)
      else
        (case drain_writes ops (sort_key bw_offset (cs_buffer c)) (cs_inner c) of
           (Inl e, s') \<Rightarrow> (Inl e, c\<lparr>cs_inner := s', cs_buffer := []\<rparr>)
         | (Inr _, s') \<Rightarrow>
             (case op_flush ops s' of
                (r, s'') \<Rightarrow> (r, c\<lparr>cs_inner := s'', cs_buffer := []\<rparr>))))"

definition cs_write ::
  "'s storage_ops \<Rightarrow> u32 \<Rightarrow> u64 \<Rightarrow> bytes \<Rightarrow> 's coalescing \<Rightarrow> (storage_error + unit) \<times> 's coalescing"
where
  "cs_write ops piece_index offset data c =
     (let total_buffered = sum_list (map (length \<circ> bw_data) (cs_buffer c));
          c' = c\<lparr>cs_buffer := cs_buffer c
                  @ [\<lparr>bw_offset = offset, bw_piece = piece_index, bw_data = data\<rparr>]\<rparr>
      in if cs_threshold c > 0 \<and> sat_add_usize total_buffered (length data) \<ge> cs_threshold c
         then flush_buffer ops c'
         else (Inr (), c'))"

definition cs_read :: "'s storage_ops \<Rightarrow> u64 \<Rightarrow> nat \<Rightarrow> 's coalescing \<Rightarrow> storage_error + bytes" where
  "cs_read ops offset n c = op_read ops offset n (cs_inner c)"

definition cs_flush :: "'s storage_ops \<Rightarrow> 's coalescing \<Rightarrow> (storage_error + unit) \<times> 's coalescing" where
  "cs_flush ops c = flush_buffer ops c"

section \<open>Writes in offset order\<close>

definition apply_writes :: "buffered_write list \<Rightarrow> bytes \<Rightarrow> bytes" where
  "apply_writes ws xs = fold (\<lambda>w. overwrite (unat (bw_offset w)) (bw_data w)) ws xs"

definition fits :: "nat \<Rightarrow> buffered_write \<Rightarrow> bool" where
  "fits n w \<longleftrightarrow> unat (bw_offset w) + length (bw_data w) \<le> n"

definition covers :: "nat \<Rightarrow> buffered_write \<Rightarrow> bool" where
  "covers p w \<longleftrightarrow> unat (bw_offset w) \<le> p \<and> p < unat (bw_offset w) + length (bw_data w)"

text \<open>Two writes may share their offset (a piece written again) or must not overlap.\<close>

definition compatible :: "buffered_write list \<Rightarrow> bool" where
  "compatible ws \<longleftrightarrow> (\<forall>v \<in> set ws. \<forall>w \<in> set ws. bw_offset v = bw_offset w
     \<or> unat (bw_offset v) + length (bw_data v) \<le> unat (bw_offset w)
     \<or> unat (bw_offset w) + length (bw_data w) \<le> unat (bw_offset v))"

lemma length_apply_writes:
  "list_all (fits (length xs)) ws \<Longrightarrow> length (apply_writes ws xs) = length xs"
  by (induction ws arbitrary: xs) (simp_all add: apply_writes_def fits_def)

lemma nth_apply_writes:
  assumes "list_all (fits (length xs)) ws" and "p < length xs"
  shows "apply_writes ws xs ! p
    = (case rev (filter (covers p) ws) of [] \<Rightarrow> xs ! p | w # _ \<Rightarrow> bw_data w ! (p - unat (bw_offset w)))"
  using assms(1)
proof (induction ws rule: rev_induct)
  case Nil
  then show ?case by (simp add: apply_writes_def)
next
  case (snoc w ws)
  then have len: "length (apply_writes ws xs) = length xs"
    by (intro length_apply_writes) simp
  have "apply_writes (ws @ [w]) xs ! p
      = overwrite (unat (bw_offset w)) (bw_data w) (apply_writes ws xs) ! p"
    by (simp add: apply_writes_def)
  also have "\<dots> = (if covers p w then bw_data w ! (p - unat (bw_offset w)) else apply_writes ws xs ! p)"
    using snoc.prems assms(2) len by (subst nth_overwrite) (simp_all add: fits_def covers_def)
  finally show ?case
    using snoc by simp
qed

lemma covering_writes_stable:
  assumes "compatible ws"
  shows "filter (covers p) (sort_key bw_offset ws) = filter (covers p) ws"
proof (cases "\<exists>w \<in> set ws. covers p w")
  case False
  then show ?thesis
    by (auto simp: filter_empty_conv)
next
  case True
  then obtain w where w: "w \<in> set ws" "covers p w" by blast
  have same: "covers p v \<Longrightarrow> bw_offset v = bw_offset w" if "v \<in> set ws" for v
    using assms that w unfolding compatible_def covers_def by fastforce
  have "filter (covers p) xs = filter (covers p) (filter (\<lambda>v. bw_offset v = bw_offset w) xs)"
    if "set xs = set ws" for xs
    using same that by (auto intro: filter_cong)
  from this [of ws] this [of "sort_key bw_offset ws"] show ?thesis
    by (simp add: sort_key_stable)
qed

lemma apply_writes_sorted:
  assumes "compatible ws" and "list_all (fits (length xs)) ws"
  shows "apply_writes (sort_key bw_offset ws) xs = apply_writes ws xs"
proof -
  have sorted: "list_all (fits (length xs)) (sort_key bw_offset ws)"
    using assms(2) by (simp add: list_all_iff)
  show ?thesis
    using assms by (intro nth_equalityI)
      (simp_all add: length_apply_writes [OF sorted] length_apply_writes nth_apply_writes [OF sorted]
        nth_apply_writes covering_writes_stable)
qed

lemma compatible_subset: "compatible ws \<Longrightarrow> set vs \<subseteq> set ws \<Longrightarrow> compatible vs"
  unfolding compatible_def by blast

context piece_storage begin

lemma drain_writes_content:
  assumes "ok s" and "list_all (fits (length (content s))) ws"
  shows "\<exists>s'. drain_writes ops ws s = (Inr (), s') \<and> ok s' \<and> content s' = apply_writes ws (content s)"
  using assms
proof (induction ws arbitrary: s)
  case Nil
  then show ?case by (simp add: apply_writes_def)
next
  case (Cons w ws)
  then obtain s' where s': "op_write ops (bw_piece w) (bw_offset w) (bw_data w) s = (Inr (), s')"
    "ok s'" "content s' = overwrite (unat (bw_offset w)) (bw_data w) (content s)"
    using write_in [of s "bw_offset w" "bw_data w" "bw_piece w"] by (auto simp: fits_def)
  moreover have "length (content s') = length (content s)"
    using Cons.prems(2) by (simp add: s'(3) fits_def)
  ultimately show ?case
    using Cons.IH [of s'] Cons.prems(2) by (auto simp: apply_writes_def)
qed

lemma flush_buffer_content:
  assumes "ok (cs_inner c)" and "compatible (cs_buffer c)"
    and "list_all (fits (length (content (cs_inner c)))) (cs_buffer c)"
  shows "\<exists>c'. flush_buffer ops c = (Inr (), c') \<and> ok (cs_inner c') \<and> cs_buffer c' = []
     \<and> cs_threshold c' = cs_threshold c
     \<and> content (cs_inner c') = apply_writes (cs_buffer c) (content (cs_inner c))"
proof (cases "cs_buffer c = []")
  case True
  with assms(1) show ?thesis
    by (simp add: flush_buffer_def apply_writes_def)
next
  case False
  let ?ws = "sort_key bw_offset (cs_buffer c)"
  have "list_all (fits (length (content (cs_inner c)))) ?ws"
    using assms(3) by (simp add: list_all_iff)
  then obtain s' where s': "drain_writes ops ?ws (cs_inner c) = (Inr (), s')" "ok s'"
    "content s' = apply_writes ?ws (content (cs_inner c))"
    using drain_writes_content [OF assms(1)] by blast
  obtain s'' where "op_flush ops s' = (Inr (), s'')" "ok s''" "content s'' = content s'"
    using flush_ok [OF s'(2)] by blast
  with False s' show ?thesis
    by (simp add: flush_buffer_def apply_writes_sorted [OF assms(2,3)])
qed


text \<open>
  One buffered write: whatever is flushed on the way, the pending contents (the inner contents
  with the buffer applied in the order of arrival) are those of the write in place.
\<close>

lemma cs_write_content:
  defines "w \<equiv> \<lambda>i off d. \<lparr>bw_offset = off, bw_piece = i, bw_data = d\<rparr>"
  assumes "ok (cs_inner c)" and "compatible (cs_buffer c @ [w i off d])"
    and "list_all (fits (length (content (cs_inner c)))) (cs_buffer c @ [w i off d])"
  shows "\<exists>c'. cs_write ops i off d c = (Inr (), c') \<and> ok (cs_inner c')
     \<and> set (cs_buffer c') \<subseteq> set (cs_buffer c @ [w i off d])
     \<and> length (content (cs_inner c')) = length (content (cs_inner c))
     \<and> apply_writes (cs_buffer c') (content (cs_inner c'))
        = apply_writes (cs_buffer c @ [w i off d]) (content (cs_inner c))"
proof -
  let ?c = "c\<lparr>cs_buffer := cs_buffer c @ [w i off d]\<rparr>"
  obtain c' where c': "flush_buffer ops ?c = (Inr (), c')" "ok (cs_inner c')" "cs_buffer c' = []"
    "content (cs_inner c') = apply_writes (cs_buffer c @ [w i off d]) (content (cs_inner c))"
    using flush_buffer_content [of ?c] assms(2-4) by auto
  moreover have "apply_writes [] xs = xs" for xs
    by (simp add: apply_writes_def)
  moreover have "length (content (cs_inner c')) = length (content (cs_inner c))"
    using c'(4) assms(4) by (simp add: length_apply_writes)
  ultimately show ?thesis
    using assms(2) by (auto simp: cs_write_def Let_def w_def)
qed

lemma cs_writes_content:
  assumes "ok (cs_inner c)" and "cs_buffer c = []" and "compatible ws"
    and "list_all (fits (length (content (cs_inner c)))) ws"
  shows "let c' = fold (\<lambda>w c. snd (cs_write ops (bw_piece w) (bw_offset w) (bw_data w) c)) ws c
     in ok (cs_inner c') \<and> set (cs_buffer c') \<subseteq> set ws
       \<and> length (content (cs_inner c')) = length (content (cs_inner c))
       \<and> apply_writes (cs_buffer c') (content (cs_inner c')) = apply_writes ws (content (cs_inner c))"
  using assms(3,4)
proof (induction ws rule: rev_induct)
  case Nil
  with assms(1,2) show ?case by simp
next
  case (snoc w ws)
  let ?c = "fold (\<lambda>w c. snd (cs_write ops (bw_piece w) (bw_offset w) (bw_data w) c)) ws c"
  have "compatible ws"
    using snoc.prems(1) by (simp add: compatible_def)
  with snoc have IH: "ok (cs_inner ?c)" "set (cs_buffer ?c) \<subseteq> set ws"
    "length (content (cs_inner ?c)) = length (content (cs_inner c))"
    "apply_writes (cs_buffer ?c) (content (cs_inner ?c)) = apply_writes ws (content (cs_inner c))"
    by (simp_all add: Let_def)
  have w: "\<lparr>bw_offset = bw_offset w, bw_piece = bw_piece w, bw_data = bw_data w\<rparr> = w"
    by simp
  have "compatible (cs_buffer ?c @ [w])"
    by (rule compatible_subset [OF snoc.prems(1)]) (use IH(2) in auto)
  moreover have "list_all (fits (length (content (cs_inner ?c)))) (cs_buffer ?c @ [w])"
    using snoc.prems(2) IH(2,3) by (auto simp: list_all_iff)
  ultimately obtain c' where "cs_write ops (bw_piece w) (bw_offset w) (bw_data w) ?c = (Inr (), c')"
    "ok (cs_inner c')" "set (cs_buffer c') \<subseteq> set (cs_buffer ?c @ [w])"
    "length (content (cs_inner c')) = length (content (cs_inner ?c))"
    "apply_writes (cs_buffer c') (content (cs_inner c'))
       = apply_writes (cs_buffer ?c @ [w]) (content (cs_inner ?c))"
    using cs_write_content [OF IH(1), where i = "bw_piece w" and off = "bw_offset w" and d = "bw_data w"]
    by (auto simp: w)
  with IH show ?case
    by (auto simp: Let_def apply_writes_def)
qed

end

section \<open>Properties\<close>

text \<open>
  C12: Coalescing is transparent. Whatever the threshold, buffering any sequence of in-range writes
  that overlap only where they repeat an offset and then flushing leaves the backend with the
  bytes that writing each of them directly in the order of arrival would have left.
\<close>
theorem coalescing_flush_transparent:
  assumes "compatible ws" and "list_all (fits (length file)) ws" and "length file \<le> usize_max"
  shows "let c = fold (\<lambda>w c. snd (cs_write memory_ops (bw_piece w) (bw_offset w) (bw_data w) c)) ws
             (cs_new file threshold)
     in fst (cs_flush memory_ops c) = Inr ()
        \<and> cs_inner (snd (cs_flush memory_ops c)) = apply_writes ws file"
proof -
  let ?c = "fold (\<lambda>w c. snd (cs_write memory_ops (bw_piece w) (bw_offset w) (bw_data w) c)) ws
             (cs_new file threshold)"
  have c: "ms_ok (cs_inner ?c)" "set (cs_buffer ?c) \<subseteq> set ws" "length (cs_inner ?c) = length file"
    "apply_writes (cs_buffer ?c) (cs_inner ?c) = apply_writes ws file"
    using mem.cs_writes_content [of "cs_new file threshold" ws] assms
    by (simp_all add: cs_new_def ms_ok_def Let_def)
  have "compatible (cs_buffer ?c)"
    by (rule compatible_subset [OF assms(1) c(2)])
  moreover have "list_all (fits (length (cs_inner ?c))) (cs_buffer ?c)"
    using assms(2) c(2,3) by (auto simp: list_all_iff)
  ultimately show ?thesis
    using mem.flush_buffer_content [OF c(1)] c(4) by (auto simp: cs_flush_def Let_def)
qed

theorem coalescing_flush_transparent_witness:
  "let ws = [\<lparr>bw_offset = 2, bw_piece = 1, bw_data = [7, 8]\<rparr>, \<lparr>bw_offset = 0, bw_piece = 0, bw_data = [5]\<rparr>];
       c = fold (\<lambda>w c. snd (cs_write memory_ops (bw_piece w) (bw_offset w) (bw_data w) c)) ws
             (cs_new [0, 0, 0, 0] 3)
   in fst (cs_flush memory_ops c) = Inr ()
        \<and> cs_inner (snd (cs_flush memory_ops c)) = apply_writes ws [0, 0, 0, 0]"
  using coalescing_flush_transparent [of "[\<lparr>bw_offset = 2, bw_piece = 1, bw_data = [7, 8]\<rparr>,
      \<lparr>bw_offset = 0, bw_piece = 0, bw_data = [5]\<rparr>]" "[0, 0, 0, 0]" 3]
  by (simp add: compatible_def fits_def usize_max_def Let_def)

text \<open>
  A failed flush loses the writes behind the failure. One write past the end of the backend
  makes the flush fail; the writes sorted behind it are dropped with the buffer, and the next
  flush reports success though their bytes were never written.
\<close>
theorem coalescing_error_loses_writes:
  "let c0 = cs_new [0, 0, 0, 0] 100;
       c1 = snd (cs_write memory_ops 0 1 [1, 1, 1, 1] c0);
       c2 = snd (cs_write memory_ops 1 2 [9] c1);
       (r, c3) = cs_flush memory_ops c2
   in r = Inl (StorageIo 1 ''write extends past end of storage'')
      \<and> cs_flush memory_ops c3 = (Inr (), c3) \<and> cs_inner c3 = [0, 0, 0, 0]"
  by (simp add: cs_new_def cs_write_def cs_flush_def flush_buffer_def memory_ops_def ms_write_def
      checked_add_usize_def sat_add_usize_def usize_max_def get_range_def Let_def)

text \<open>
  The documentation says that a threshold of zero disables buffering; the code buffers every
  write until an explicit flush. With threshold zero a write of two bytes leaves the backend
  unchanged, and a read through the wrapper does not see it.
\<close>
theorem coalescing_zero_threshold_buffers:
  "let (r, c) = cs_write memory_ops 0 0 [1, 2] (cs_new [0, 0] 0)
   in r = Inr () \<and> cs_inner c = [0, 0] \<and> cs_read memory_ops 0 2 c = Inr [0, 0]"
  by (simp add: cs_new_def cs_write_def cs_read_def memory_ops_def ms_read_def get_range_def
      sat_add_usize_def usize_max_def Let_def)

end
