(* ===== verification/Tiering.thy ===== *)
theory Tiering
  imports Storage Decimal "HOL-Library.Mapping"
begin

text \<open>
  Two-tier storage, \<open>crates/p2p-distribute/src/tiering.rs\<close>: \<open>TieringStorage\<close> over a hot and a cold
  backend. \<open>Instant::now()\<close> is an argument \<open>now\<close>. The methods take the lock several times; the
  model is of one caller at a time. \<open>coldest_pieces\<close>, a query whose order depends on the iteration
  order of a hash map, is not modelled.
\<close>

datatype tier = Hot | Cold

record access_record =
  ar_last_read :: nat
  ar_read_count :: u64

record ('h, 'c) tiering =
  tg_hot :: 'h
  tg_cold :: 'c
  tg_piece_length :: u64
  tg_tiers :: "(u32, tier) mapping"
  tg_access :: "(u32, access_record) mapping"

definition tg_new :: "'h \<Rightarrow> 'c \<Rightarrow> u64 \<Rightarrow> ('h, 'c) tiering" where
  "tg_new hot cold piece_length =
     \<lparr>tg_hot = hot, tg_cold = cold, tg_piece_length = piece_length,
      tg_tiers = Mapping.empty, tg_access = Mapping.empty\<rparr>"

definition offset_to_piece :: "('h, 'c) tiering \<Rightarrow> u64 \<Rightarrow> storage_error + u32" where
  "offset_to_piece st offset =
     (if tg_piece_length st = 0 then Inl (StorageFailed ''piece_length is zero'')
      else
        let idx = offset div tg_piece_length st in
        if unat idx < 2 ^ 32 then Inr (ucast idx)
        else Inl (StorageFailed (''piece index '' @ show_nat (unat idx)
               @ '' exceeds u32::MAX at offset '' @ show_nat (unat offset))))"

definition tg_demote ::
  "'h storage_ops \<Rightarrow> 'c storage_ops \<Rightarrow> u32 \<Rightarrow> ('h, 'c) tiering
     \<Rightarrow> (storage_error + unit) \<times> ('h, 'c) tiering"
where
  "tg_demote hops cops piece_index st =
     (if Mapping.lookup (tg_tiers st) piece_index = Some Cold then (Inr (), st)
      else
        let offset = sat_mul (ucast piece_index) (tg_piece_length st) in
        (case op_read hops offset (unat (tg_piece_length st)) (tg_hot st) of
           Inl e \<Rightarrow> (Inl e, st)
         | Inr data \<Rightarrow>
             (case op_write cops piece_index offset data (tg_cold st) of
                (Inl e, cold') \<Rightarrow> (Inl e, st\<lparr>tg_cold := cold'\<rparr>)
              | (Inr _, cold') \<Rightarrow>
                  (Inr (), st\<lparr>tg_cold := cold',
                              tg_tiers := Mapping.update piece_index Cold (tg_tiers st)\<rparr>))))"

definition tg_write ::
  "'h storage_ops \<Rightarrow> u32 \<Rightarrow> u64 \<Rightarrow> bytes \<Rightarrow> ('h, 'c) tiering
     \<Rightarrow> (storage_error + unit) \<times> ('h, 'c) tiering"
where
  "tg_write hops piece_index offset data st =
     (case op_write hops piece_index offset data (tg_hot st) of
        (Inl e, hot') \<Rightarrow> (Inl e, st\<lparr>tg_hot := hot'\<rparr>)
      | (Inr _, hot') \<Rightarrow>
          (Inr (), st\<lparr>tg_hot := hot', tg_tiers := Mapping.update piece_index Hot (tg_tiers st)\<rparr>))"

definition record_access :: "nat \<Rightarrow> u32 \<Rightarrow> ('h, 'c) tiering \<Rightarrow> ('h, 'c) tiering" where
  "record_access now piece_index st =
     (let old = (case Mapping.lookup (tg_access st) piece_index of
                   None \<Rightarrow> \<lparr>ar_last_read = now, ar_read_count = 0\<rparr>
                 | Some r \<Rightarrow> r)
      in st\<lparr>tg_access := Mapping.update piece_index
             \<lparr>ar_last_read = now, ar_read_count = sat_add (ar_read_count old) 1\<rparr> (tg_access st)\<rparr>)"

definition tg_read ::
  "'h storage_ops \<Rightarrow> 'c storage_ops \<Rightarrow> nat \<Rightarrow> u64 \<Rightarrow> nat \<Rightarrow> ('h, 'c) tiering
     \<Rightarrow> (storage_error + bytes) \<times> ('h, 'c) tiering"
where
  "tg_read hops cops now offset n st =
     (case offset_to_piece st offset of
        Inl e \<Rightarrow> (Inl e, st)
      | Inr piece_index \<Rightarrow>
          (case (case Mapping.lookup (tg_tiers st) piece_index of None \<Rightarrow> Hot | Some t \<Rightarrow> t) of
             Hot \<Rightarrow>
               (case op_read hops offset n (tg_hot st) of
                  Inl e \<Rightarrow> (Inl e, st)
                | Inr data \<Rightarrow> (Inr data, record_access now piece_index st))
           | Cold \<Rightarrow>
               (case op_read cops offset n (tg_cold st) of
                  Inl e \<Rightarrow> (Inl e, st)
                | Inr data \<Rightarrow>
                    let hot' = snd (op_write hops piece_index offset data (tg_hot st)) in
                    (Inr data, record_access now piece_index
                      (st\<lparr>tg_hot := hot',
                          tg_tiers := Mapping.update piece_index Hot (tg_tiers st)\<rparr>)))))"


lemma record_access_simps [simp]:
  "tg_hot (record_access now i st) = tg_hot st"
  "tg_cold (record_access now i st) = tg_cold st"
  "tg_tiers (record_access now i st) = tg_tiers st"
  "tg_piece_length (record_access now i st) = tg_piece_length st"
  by (simp_all add: record_access_def Let_def)

section \<open>Calls\<close>








section \<open>Refinement of a flat file\<close>



section \<open>Properties\<close>



text \<open>
  A read that crosses into the next piece can destroy it. \<open>read_piece\<close> chooses the tier by the
  first piece of the range alone: after piece 0 was demoted, a read over pieces 0 and 1 returns
  the stale bytes of piece 1 in the cold tier and writes them over its latest bytes in the hot one.
\<close>
theorem tiering_read_across_pieces_corrupts:
  "let s0 = tg_new [0, 0, 0, 0] [0, 0, 0, 0] 2 :: (bytes, bytes) tiering;
       s1 = snd (tg_write memory_ops 0 0 [1, 2] s0);
       s2 = snd (tg_write memory_ops 1 2 [3, 4] s1);
       s3 = snd (tg_demote memory_ops memory_ops 0 s2);
       (r, s4) = tg_read memory_ops memory_ops 0 0 4 s3
   in tg_hot s3 = [1, 2, 3, 4] \<and> r = Inr [1, 2, 0, 0] \<and> tg_hot s4 = [1, 2, 0, 0]
      \<and> fst (tg_read memory_ops memory_ops 1 2 2 s4) = Inr [0, 0]"
  by (simp add: tg_new_def tg_write_def tg_demote_def tg_read_def record_access_def
      offset_to_piece_def memory_ops_def ms_write_def ms_read_def overwrite_def checked_add_usize_def
      sat_add_usize_def usize_max_def get_range_def sat_mul_def lookup_update' Let_def)

end
