(* ===== verification/Merkle.thy ===== *)
theory Merkle
  imports Prelude
begin

text \<open>
  The sub-piece hash tree, \<open>crates/p2p-distribute/src/merkle.rs\<close>: \<open>MerkleTree\<close> with its
  construction, leaf checks, inclusion proofs and proof verification. SHA-256 comes from the crate
  \<open>sha2\<close> and is a parameter \<open>h\<close>; what is used of it is that a digest has 32 bytes and, for the
  soundness of a proof, that it does not collide on the strings the two computations hash.
\<close>

section \<open>The tree\<close>

definition LEAF_SIZE :: nat where
  "LEAF_SIZE = 256 * 1024"

definition MIN_PIECE_SIZE_FOR_MERKLE :: nat where
  "MIN_PIECE_SIZE_FOR_MERKLE = 1024 * 1024"

record merkle_tree =
  mt_levels :: "bytes list list"
  mt_leaf_count :: nat

text \<open>The 32 bytes of the constant, written as one big-endian number.\<close>

definition EMPTY_HASH :: bytes where
  "EMPTY_HASH =
     be_bytes 32 0xe3b0c44298fc1c149afbf4c8996fb92427ae41e4649b934ca495991b7852b855"

definition combine_hashes :: "(bytes \<Rightarrow> bytes) \<Rightarrow> bytes \<Rightarrow> bytes \<Rightarrow> bytes" where
  "combine_hashes h left right = h (left @ right)"

text \<open>Pairs of neighbours are combined, an odd last node is promoted.\<close>

fun combine_level :: "(bytes \<Rightarrow> bytes) \<Rightarrow> bytes list \<Rightarrow> bytes list" where
  "combine_level h [] = []"
| "combine_level h [x] = [x]"
| "combine_level h (x # y # rest) = combine_hashes h x y # combine_level h rest"

lemma length_combine_level [simp]: "length (combine_level h l) = (length l + 1) div 2"
  by (induction h l rule: combine_level.induct) auto

text \<open>
  The chunk the loops read at \<open>offset\<close>, and where they go on. A slice has at most \<open>isize::MAX\<close>
  bytes, so the saturating addition of the code does not saturate.
\<close>

definition chunk_end :: "bytes \<Rightarrow> nat \<Rightarrow> nat" where
  "chunk_end data offset = min (length data) (offset + LEAF_SIZE)"

definition chunk_at :: "bytes \<Rightarrow> nat \<Rightarrow> bytes" where
  "chunk_at data offset =
     (case get_range data offset (chunk_end data offset) of None \<Rightarrow> [] | Some c \<Rightarrow> c)"

lemma chunk_end_progress: "offset < length data \<Longrightarrow> offset < chunk_end data offset"
  by (simp add: chunk_end_def LEAF_SIZE_def)

function leaf_hashes_from :: "(bytes \<Rightarrow> bytes) \<Rightarrow> bytes \<Rightarrow> nat \<Rightarrow> bytes list" where
  "leaf_hashes_from h data offset =
     (if offset < length data
      then h (chunk_at data offset) # leaf_hashes_from h data (chunk_end data offset)
      else [])"
  by pat_completeness auto
termination
  by (relation "measure (\<lambda>(h, data, offset). length data - offset)")
    (auto intro!: diff_less_mono2 chunk_end_progress)

declare leaf_hashes_from.simps [simp del]

function build_levels :: "(bytes \<Rightarrow> bytes) \<Rightarrow> bytes list \<Rightarrow> bytes list list" where
  "build_levels h prev =
     (if length prev \<le> 1 then [prev] else prev # build_levels h (combine_level h prev))"
  by pat_completeness auto
termination
  by (relation "measure (\<lambda>(h, prev). length prev)") auto

declare build_levels.simps [simp del]

definition merkle_build :: "(bytes \<Rightarrow> bytes) \<Rightarrow> bytes \<Rightarrow> merkle_tree" where
  "merkle_build h data =
     \<lparr>mt_levels = build_levels h (leaf_hashes_from h data 0),
      mt_leaf_count = (if data = [] then 0 else (length data + (LEAF_SIZE - 1)) div LEAF_SIZE)\<rparr>"

definition root_hash :: "merkle_tree \<Rightarrow> bytes" where
  "root_hash t =
     (if mt_levels t = [] then EMPTY_HASH
      else case last (mt_levels t) of [] \<Rightarrow> EMPTY_HASH | r # _ \<Rightarrow> r)"

definition leaf_hash :: "merkle_tree \<Rightarrow> nat \<Rightarrow> bytes option" where
  "leaf_hash t i = (case mt_levels t of [] \<Rightarrow> None | leaves # _ \<Rightarrow> get_at leaves i)"

definition verify_leaf :: "(bytes \<Rightarrow> bytes) \<Rightarrow> merkle_tree \<Rightarrow> nat \<Rightarrow> bytes \<Rightarrow> bool" where
  "verify_leaf h t i data = (case leaf_hash t i of None \<Rightarrow> False | Some e \<Rightarrow> h data = e)"

function find_corrupt_from :: "(bytes \<Rightarrow> bytes) \<Rightarrow> merkle_tree \<Rightarrow> bytes \<Rightarrow> nat \<Rightarrow> nat \<Rightarrow> nat list" where
  "find_corrupt_from h t data offset idx =
     (if offset < length data \<and> idx < mt_leaf_count t
      then (if \<not> verify_leaf h t idx (chunk_at data offset) then [idx] else [])
           @ find_corrupt_from h t data (chunk_end data offset) (idx + 1)
      else [])"
  by pat_completeness auto
termination
  by (relation "measure (\<lambda>(h, t, data, offset, idx). length data - offset)")
    (auto intro!: diff_less_mono2 chunk_end_progress)

declare find_corrupt_from.simps [simp del]

definition find_corrupt_leaves :: "(bytes \<Rightarrow> bytes) \<Rightarrow> merkle_tree \<Rightarrow> bytes \<Rightarrow> nat list" where
  "find_corrupt_leaves h t data = find_corrupt_from h t data 0 0"

section \<open>Proofs of inclusion\<close>

record proof_node =
  pn_hash :: bytes
  pn_is_left :: bool

definition sibling_of :: "nat \<Rightarrow> nat" where
  "sibling_of idx = Bit_Operations.xor idx 1"

primrec proof_nodes :: "bytes list list \<Rightarrow> nat \<Rightarrow> proof_node list" where
  "proof_nodes [] idx = []"
| "proof_nodes (level # levels) idx =
     (if length level \<le> 1 then []
      else
        let sibling = sibling_of idx in
        (case get_at level sibling of
           None \<Rightarrow> []
         | Some s \<Rightarrow> [\<lparr>pn_hash = s, pn_is_left = sibling < idx\<rparr>])
        @ proof_nodes levels (idx div 2))"

definition merkle_proof :: "merkle_tree \<Rightarrow> nat \<Rightarrow> proof_node list option" where
  "merkle_proof t leaf_index =
     (if leaf_index \<ge> mt_leaf_count t then None else Some (proof_nodes (mt_levels t) leaf_index))"

definition proof_step :: "(bytes \<Rightarrow> bytes) \<Rightarrow> proof_node \<Rightarrow> bytes \<Rightarrow> bytes" where
  "proof_step h node current =
     (if pn_is_left node then combine_hashes h (pn_hash node) current
      else combine_hashes h current (pn_hash node))"

definition verify_proof :: "(bytes \<Rightarrow> bytes) \<Rightarrow> merkle_tree \<Rightarrow> bytes \<Rightarrow> proof_node list \<Rightarrow> bool" where
  "verify_proof h t leaf_data nodes \<longleftrightarrow> fold (proof_step h) nodes (h leaf_data) = root_hash t"

section \<open>Leaves\<close>

definition leaf :: "bytes \<Rightarrow> nat \<Rightarrow> bytes" where
  "leaf data i = take LEAF_SIZE (drop (i * LEAF_SIZE) data)"

definition leaves_in :: "bytes \<Rightarrow> nat" where
  "leaves_in data = (length data + (LEAF_SIZE - 1)) div LEAF_SIZE"

lemma LEAF_SIZE_pos: "0 < LEAF_SIZE"
  by (simp add: LEAF_SIZE_def)

lemma less_leaves_in: "i < leaves_in data \<longleftrightarrow> i * LEAF_SIZE < length data"
proof -
  have "i < leaves_in data \<longleftrightarrow> Suc i * LEAF_SIZE \<le> length data + (LEAF_SIZE - 1)"
    unfolding leaves_in_def using less_eq_div_iff_mult_less_eq [OF LEAF_SIZE_pos, of "Suc i"]
    by (simp add: Suc_le_eq)
  then show ?thesis
    using LEAF_SIZE_pos by auto
qed

lemma mt_leaf_count_build: "mt_leaf_count (merkle_build h data) = leaves_in data"
  by (simp add: merkle_build_def leaves_in_def LEAF_SIZE_def)

lemma chunk_at_leaf: "i * LEAF_SIZE < length data \<Longrightarrow> chunk_at data (i * LEAF_SIZE) = leaf data i"
  by (auto simp: chunk_at_def chunk_end_def get_range_def leaf_def min_def)

lemma leaf_hashes_from_eq:
  "leaf_hashes_from h data (k * LEAF_SIZE) = map (\<lambda>i. h (leaf data i)) [k..<leaves_in data]"
proof (induction "leaves_in data - k" arbitrary: k)
  case 0
  then have "leaves_in data \<le> k" "\<not> k * LEAF_SIZE < length data"
    by (simp_all add: not_less flip: less_leaves_in)
  then show ?case
    by (subst leaf_hashes_from.simps) simp
next
  case (Suc n)
  then have k: "k < leaves_in data" by simp
  have "leaf_hashes_from h data (chunk_end data (k * LEAF_SIZE))
      = map (\<lambda>i. h (leaf data i)) [Suc k..<leaves_in data]"
  proof (cases "Suc k * LEAF_SIZE \<le> length data")
    case True
    then have "chunk_end data (k * LEAF_SIZE) = Suc k * LEAF_SIZE"
      by (simp add: chunk_end_def)
    then show ?thesis
      using Suc.hyps(1) [of "Suc k"] Suc.hyps(2) by simp
  next
    case False
    then have "chunk_end data (k * LEAF_SIZE) = length data" "\<not> Suc k < leaves_in data"
      by (auto simp: chunk_end_def less_leaves_in)
    then show ?thesis
      by (subst leaf_hashes_from.simps) simp
  qed
  then show ?case
    using k by (subst leaf_hashes_from.simps)
      (simp add: less_leaves_in chunk_at_leaf upt_conv_Cons del: upt_Suc)
qed

lemma leaf_hashes_eq: "leaf_hashes_from h data 0 = map (\<lambda>i. h (leaf data i)) [0..<leaves_in data]"
  using leaf_hashes_from_eq [of h data 0] by simp

lemma build_levels_first: "\<exists>ls. build_levels h prev = prev # ls"
  by (subst build_levels.simps) simp

lemma leaf_hash_build:
  "leaf_hash (merkle_build h data) i = (if i < leaves_in data then Some (h (leaf data i)) else None)"
  using build_levels_first [of h "leaf_hashes_from h data 0"]
  by (auto simp: leaf_hash_def merkle_build_def leaf_hashes_eq get_at_def)

lemma find_corrupt_from_eq:
  "find_corrupt_from h t data (k * LEAF_SIZE) k
     = filter (\<lambda>i. \<not> verify_leaf h t i (leaf data i)) [k..<min (leaves_in data) (mt_leaf_count t)]"
proof (induction "leaves_in data - k" arbitrary: k)
  case 0
  then have "leaves_in data \<le> k" "\<not> k * LEAF_SIZE < length data"
    by (simp_all add: not_less flip: less_leaves_in)
  then show ?case
    by (subst find_corrupt_from.simps) simp
next
  case (Suc n)
  then have k: "k < leaves_in data" by simp
  show ?case
  proof (cases "k < mt_leaf_count t")
    case False
    then show ?thesis
      by (subst find_corrupt_from.simps) simp
  next
    case True
    have "find_corrupt_from h t data (chunk_end data (k * LEAF_SIZE)) (Suc k)
      = filter (\<lambda>i. \<not> verify_leaf h t i (leaf data i)) [Suc k..<min (leaves_in data) (mt_leaf_count t)]"
    proof (cases "Suc k * LEAF_SIZE \<le> length data")
      case True
      then have "chunk_end data (k * LEAF_SIZE) = Suc k * LEAF_SIZE"
        by (simp add: chunk_end_def)
      then show ?thesis
      using Suc.hyps(1) [of "Suc k"] Suc.hyps(2) by simp
    next
      case False
      then have "chunk_end data (k * LEAF_SIZE) = length data" "\<not> Suc k < leaves_in data"
        by (auto simp: chunk_end_def less_leaves_in)
      then show ?thesis
        by (subst find_corrupt_from.simps) simp
    qed
    with k True show ?thesis
      by (subst find_corrupt_from.simps)
        (simp add: less_leaves_in chunk_at_leaf upt_conv_Cons del: upt_Suc)
  qed
qed

lemma find_corrupt_leaves_eq:
  "find_corrupt_leaves h (merkle_build h good) data
     = filter (\<lambda>i. h (leaf data i) \<noteq> h (leaf good i)) [0..<min (leaves_in data) (leaves_in good)]"
  using find_corrupt_from_eq [of h "merkle_build h good" data 0]
  by (auto simp: find_corrupt_leaves_def verify_leaf_def leaf_hash_build mt_leaf_count_build
      intro: filter_cong)

section \<open>Completeness of proofs\<close>

lemma nth_combine_level:
  "j < (length l + 1) div 2 \<Longrightarrow> combine_level h l ! j
     = (if 2 * j + 1 < length l then combine_hashes h (l ! (2 * j)) (l ! (2 * j + 1)) else l ! (2 * j))"
proof (induction h l arbitrary: j rule: combine_level.induct)
  case (3 h x y rest)
  then show ?case
    by (cases j) auto
qed auto

lemma sibling_of_eq: "sibling_of i = (if even i then Suc i else i - 1)"
  unfolding sibling_of_def xor_one_eq by simp

lemma proof_step_parent:
  assumes "i < length level" and "1 < length level"
  shows "fold (proof_step h)
      (case get_at level (sibling_of i) of None \<Rightarrow> []
       | Some s \<Rightarrow> [\<lparr>pn_hash = s, pn_is_left = sibling_of i < i\<rparr>]) (level ! i)
    = combine_level h level ! (i div 2)"
proof -
  have "i div 2 < (length level + 1) div 2"
    using assms(1) by linarith
  note nth = nth_combine_level [OF this, of h]
  show ?thesis
  proof (cases "even i")
    case True
    then show ?thesis
      using nth assms by (auto simp: sibling_of_eq get_at_def proof_step_def)
  next
    case False
    then have "2 * (i div 2) = i - 1" "2 * (i div 2) + 1 = i" "0 < i"
      by (auto elim!: oddE)
    moreover from this assms(1) have "i - 1 < length level" by simp
    ultimately show ?thesis
      using False nth assms by (simp add: sibling_of_eq get_at_def proof_step_def)
  qed
qed

lemma proof_nodes_root:
  assumes "i < length prev"
  shows "fold (proof_step h) (proof_nodes (build_levels h prev) i) (prev ! i)
    = hd (last (build_levels h prev)) \<and> last (build_levels h prev) \<noteq> []"
  using assms
proof (induction h prev arbitrary: i rule: build_levels.induct)
  case (1 h prev)
  show ?case
  proof (cases "length prev \<le> 1")
    case True
    with 1(2) obtain x where "prev = [x]" "i = 0"
      by (cases prev) auto
    then show ?thesis
      by (simp add: build_levels.simps)
  next
    case False
    have "i div 2 < length (combine_level h prev)"
      using 1(2) by simp
    from 1(1) [OF False this] proof_step_parent [OF 1(2), of h] False
      build_levels_first [of h "combine_level h prev"]
    show ?thesis
      by (subst (1 2 3) build_levels.simps) (auto simp: Let_def)
  qed
qed

lemma verify_own_proof:
  assumes "i < leaves_in data"
  shows "verify_proof h (merkle_build h data) (leaf data i)
    (proof_nodes (mt_levels (merkle_build h data)) i)"
proof -
  let ?hs = "leaf_hashes_from h data 0"
  have i: "i < length ?hs" "?hs ! i = h (leaf data i)"
    using assms by (simp_all add: leaf_hashes_eq)
  have root: "root_hash (merkle_build h data) = hd (last (build_levels h ?hs))"
    using proof_nodes_root [OF i(1), of h] build_levels_first [of h ?hs]
    by (auto simp: root_hash_def merkle_build_def split: list.split)
  show ?thesis
    using proof_nodes_root [OF i(1), of h] i(2)
    unfolding verify_proof_def root by (simp add: merkle_build_def)
qed

section \<open>Soundness of proofs\<close>

text \<open>The strings a verification hashes.\<close>

fun step_input :: "proof_node \<Rightarrow> bytes \<Rightarrow> bytes" where
  "step_input node current = (if pn_is_left node then pn_hash node @ current else current @ pn_hash node)"

fun hashed :: "(bytes \<Rightarrow> bytes) \<Rightarrow> bytes \<Rightarrow> proof_node list \<Rightarrow> bytes set" where
  "hashed h input [] = {input}"
| "hashed h input (n # ns) = insert input (hashed h (step_input n (h input)) ns)"

lemma hashed_input: "input \<in> hashed h input ns"
  by (cases ns) simp_all

lemma proof_step_input: "proof_step h n current = h (step_input n current)"
  by (simp add: proof_step_def combine_hashes_def)

lemma same_shape_same_leaf:
  assumes "\<And>x. length (h x) = 32"
    and "map pn_is_left p = map pn_is_left q"
    and "list_all (\<lambda>n. length (pn_hash n) = 32) p" and "list_all (\<lambda>n. length (pn_hash n) = 32) q"
    and "inj_on h (hashed h c p \<union> hashed h d q)"
    and "fold (proof_step h) p (h c) = fold (proof_step h) q (h d)"
  shows "c = d \<and> p = q"
  using assms(2-)
proof (induction p arbitrary: c d q)
  case Nil
  then show ?case
    by (auto dest: inj_onD)
next
  case (Cons m p)
  then obtain n q' where q: "q = n # q'"
    by (cases q) auto
  have "step_input m (h c) = step_input n (h d) \<and> p = q'"
    by (rule Cons.IH) (use Cons.prems q in \<open>auto simp: proof_step_input intro: inj_on_subset\<close>)
  moreover from this have "pn_hash m = pn_hash n \<and> h c = h d"
    using Cons.prems(1-3) q assms(1) by (auto split: if_splits)
  moreover from this have "c = d"
    using inj_onD [OF Cons.prems(4), of c d] hashed_input by blast
  ultimately show ?case
    using Cons.prems(1) q by auto
qed

lemma length_combined:
  "(\<And>x. length (h x) = 32) \<Longrightarrow> list_all (\<lambda>x. length x = 32) l
     \<Longrightarrow> list_all (\<lambda>x. length x = 32) (combine_level h l)"
  by (induction h l rule: combine_level.induct) (auto simp: combine_hashes_def)

lemma length_proof_hashes:
  assumes "\<And>x. length (h x) = 32" and "list_all (\<lambda>x. length x = 32) prev"
  shows "list_all (\<lambda>n. length (pn_hash n) = 32) (proof_nodes (build_levels h prev) i)"
  using assms
proof (induction h prev arbitrary: i rule: build_levels.induct)
  case (1 h prev)
  show ?case
  proof (cases "length prev \<le> 1")
    case True
    then show ?thesis
      by (simp add: build_levels.simps)
  next
    case False
    have "list_all (\<lambda>n. length (pn_hash n) = 32)
        (proof_nodes (build_levels h (combine_level h prev)) (i div 2))"
      using 1 False length_combined [of h prev] by blast
    moreover have "length s = 32" if "get_at prev j = Some s" for j s
      using that 1(3) by (auto dest!: get_at_Some simp: list_all_length)
    ultimately show ?thesis
      using False by (subst build_levels.simps) (auto simp: Let_def split: option.split)
  qed
qed

section \<open>Properties\<close>

text \<open>
  C7: Every leaf of a piece has a proof, and the proof is accepted. For every leaf index of the
  data a tree was built from, \<open>proof\<close> returns a proof, \<open>verify_proof\<close> accepts it with the leaf,
  and \<open>verify_leaf\<close> accepts the leaf, also where the number of nodes of a level is odd.
\<close>
theorem merkle_proof_complete:
  assumes "i < mt_leaf_count (merkle_build h data)"
  shows "\<exists>p. merkle_proof (merkle_build h data) i = Some p
     \<and> verify_proof h (merkle_build h data) (leaf data i) p
     \<and> verify_leaf h (merkle_build h data) i (leaf data i)"
  using assms verify_own_proof [of i data h]
  by (simp add: merkle_proof_def mt_leaf_count_build verify_leaf_def leaf_hash_build)

theorem merkle_proof_complete_witness:
  "\<exists>p. merkle_proof (merkle_build (take 32) (replicate 700000 5)) 2 = Some p
     \<and> verify_proof (take 32) (merkle_build (take 32) (replicate 700000 5)) (leaf (replicate 700000 5) 2) p
     \<and> verify_leaf (take 32) (merkle_build (take 32) (replicate 700000 5)) 2 (leaf (replicate 700000 5) 2)"
  by (rule merkle_proof_complete)
    (simp add: mt_leaf_count_build leaves_in_def LEAF_SIZE_def)

text \<open>
  C6: A proof of the right shape binds its leaf. If the verifier accepts data with a proof that
  goes left and right as the proof of leaf \<open>i\<close> does, then the data is leaf \<open>i\<close> and the proof is the
  tree's own, provided digests have 32 bytes and do not collide on the strings that the two
  verifications hash.
\<close>
theorem merkle_proof_sound:
  assumes "\<And>x. length (h x) = 32" and "merkle_proof (merkle_build h data) i = Some p"
    and "map pn_is_left q = map pn_is_left p" and "list_all (\<lambda>n. length (pn_hash n) = 32) q"
    and "inj_on h (hashed h d q \<union> hashed h (leaf data i) p)"
    and "verify_proof h (merkle_build h data) d q"
  shows "d = leaf data i \<and> q = p"
proof -
  have i: "i < leaves_in data" and p: "p = proof_nodes (mt_levels (merkle_build h data)) i"
    using assms(2) by (auto simp: merkle_proof_def mt_leaf_count_build split: if_splits)
  have "list_all (\<lambda>x. length x = 32) (leaf_hashes_from h data 0)"
    using assms(1) by (simp add: leaf_hashes_eq list_all_iff)
  then have "list_all (\<lambda>n. length (pn_hash n) = 32) p"
    using length_proof_hashes [OF assms(1)] by (simp add: p merkle_build_def)
  moreover have "fold (proof_step h) q (h d) = fold (proof_step h) p (h (leaf data i))"
    using assms(6) verify_own_proof [OF i, of h] by (simp add: verify_proof_def p)
  ultimately show ?thesis
    using same_shape_same_leaf [OF assms(1,3,4) _ assms(5)] by blast
qed

theorem merkle_proof_sound_witness:
  "let h = (\<lambda>x :: bytes. be_bytes 32 (length x)); data = replicate 262145 0;
       p = [\<lparr>pn_hash = h (leaf data 0), pn_is_left = True\<rparr>]
   in merkle_proof (merkle_build h data) 1 = Some p \<and> [0] = leaf data 1 \<and> p = p"
proof -
  let ?h = "\<lambda>x :: bytes. be_bytes 32 (length x)" and ?data = "replicate 262145 0 :: bytes"
  let ?p = "[\<lparr>pn_hash = ?h (leaf ?data 0), pn_is_left = True\<rparr>]"
  have leaves: "leaves_in ?data = 2" "leaf ?data 1 = [0]"
    by (simp_all add: leaves_in_def LEAF_SIZE_def leaf_def)
  have two: "[0..<2] = [0, 1 :: nat]"
    by (simp add: upt_rec)
  have levels: "mt_levels (merkle_build ?h ?data)
      = [[?h (leaf ?data 0), ?h [0]], [?h (?h (leaf ?data 0) @ ?h [0])]]"
    by (simp add: merkle_build_def leaf_hashes_eq leaves two build_levels.simps combine_hashes_def
        flip: One_nat_def)
  have p: "merkle_proof (merkle_build ?h ?data) 1 = Some ?p"
    by (simp add: merkle_proof_def mt_leaf_count_build leaves levels sibling_of_eq get_at_def)
  have "[0] = leaf ?data 1 \<and> ?p = ?p"
  proof (rule merkle_proof_sound [OF _ p])
    show "inj_on ?h (hashed ?h [0] ?p \<union> hashed ?h (leaf ?data 1) ?p)"
    proof -
      have "?h [0] \<noteq> ?h (?h (leaf ?data 0) @ ?h [0])"
        using be_val_be_bytes [of 32 1] be_val_be_bytes [of 32 64] by auto
      then show ?thesis
        by (simp add: leaves flip: One_nat_def) auto
    qed
    show "verify_proof ?h (merkle_build ?h ?data) [0] ?p"
      by (simp add: verify_proof_def proof_step_input root_hash_def levels)
  qed simp_all
  with p show ?thesis
    by (simp add: Let_def)
qed

text \<open>
  C8: Comparing data with the tree of the good data localises the corruption exactly. The leaves
  reported are those, among the leaves both have, where the data differs, provided the hash does
  not collide on the leaves of the two.
\<close>
theorem merkle_localises_corruption:
  assumes "inj_on h (leaf data ` {..<leaves_in data} \<union> leaf good ` {..<leaves_in good})"
  shows "find_corrupt_leaves h (merkle_build h good) data
     = filter (\<lambda>i. leaf data i \<noteq> leaf good i) [0..<min (leaves_in data) (leaves_in good)]"
  unfolding find_corrupt_leaves_eq
  by (rule filter_cong) (use assms in \<open>auto dest: inj_onD\<close>)

theorem merkle_localises_corruption_witness:
  "find_corrupt_leaves (\<lambda>x. x) (merkle_build (\<lambda>x. x) [1, 2]) [1, 3]
     = filter (\<lambda>i. leaf [1, 3] i \<noteq> leaf [1, 2] i) [0..<min (leaves_in [1, 3]) (leaves_in [1, 2])]"
  by (rule merkle_localises_corruption) simp

text \<open>
  Leaves and inner nodes are not told apart. \<open>verify_proof\<close> checks neither the length of a proof
  nor a tag on what it hashes, so for every piece of two leaves it accepts, with the empty proof,
  the 64 bytes made of the two leaf digests as if they were a leaf of the piece.
\<close>
theorem merkle_accepts_inner_node_as_leaf:
  assumes "leaves_in data = 2"
  shows "verify_proof h (merkle_build h data) (h (leaf data 0) @ h (leaf data 1)) []"
proof -
  have "leaf_hashes_from h data 0 = [h (leaf data 0), h (leaf data 1)]"
    by (simp add: leaf_hashes_eq assms upt_rec)
  then have "build_levels h (leaf_hashes_from h data 0)
      = [[h (leaf data 0), h (leaf data 1)], [h (h (leaf data 0) @ h (leaf data 1))]]"
    by (simp add: build_levels.simps combine_hashes_def)
  then show ?thesis
    by (simp add: verify_proof_def merkle_build_def root_hash_def)
qed

theorem merkle_accepts_inner_node_as_leaf_witness:
  "verify_proof (\<lambda>x. be_bytes 32 (length x)) (merkle_build (\<lambda>x. be_bytes 32 (length x)) (replicate 262145 0))
     (be_bytes 32 (length (leaf (replicate 262145 0) 0)) @ be_bytes 32 (length (leaf (replicate 262145 0) 1))) []"
  by (rule merkle_accepts_inner_node_as_leaf) (simp add: leaves_in_def LEAF_SIZE_def)

end
