(* ===== verification/Validator.thy ===== *)
theory Validator
  imports Merkle
begin

text \<open>
  Torrent metadata and piece validation, \<open>crates/p2p-distribute/src/torrent_info.rs\<close> and
  \<open>piece_validator.rs\<close>: \<open>TorrentInfo\<close> and \<open>PieceValidator\<close> with its quarantine. SHA-1 (crate
  \<open>sha1\<close>) and SHA-256 are the parameters \<open>sha1\<close> and \<open>h\<close>.
\<close>

section \<open>Torrent metadata\<close>

record torrent_info =
  ti_piece_length :: u64
  ti_piece_hashes :: bytes
  ti_file_size :: u64
  ti_file_name :: string

definition ti_piece_count :: "torrent_info \<Rightarrow> u32" where
  "ti_piece_count info = word_of_nat (length (ti_piece_hashes info) div 20)"

text \<open>A \<open>u32\<close> times 20 plus 20 does not overflow a 64-bit \<open>usize\<close>, but the checks are kept.\<close>

definition ti_piece_hash :: "torrent_info \<Rightarrow> u32 \<Rightarrow> bytes option" where
  "ti_piece_hash info index =
     (if unat index * 20 > usize_max then None
      else case checked_add_usize (unat index * 20) 20 of
             None \<Rightarrow> None
           | Some end' \<Rightarrow> get_range (ti_piece_hashes info) (unat index * 20) end')"

definition ti_piece_offset :: "torrent_info \<Rightarrow> u32 \<Rightarrow> u64" where
  "ti_piece_offset info index = sat_mul (ucast index) (ti_piece_length info)"

definition ti_piece_size :: "torrent_info \<Rightarrow> u32 \<Rightarrow> u32" where
  "ti_piece_size info index =
     ucast (min (sat_sub (ti_file_size info) (ti_piece_offset info index)) (ti_piece_length info))"

section \<open>Validator\<close>

datatype validation_result =
  Valid
| Invalid "nat list"

record quarantine_entry =
  qe_piece_index :: u32
  qe_source_peer :: nat
  qe_retry_count :: u32
  qe_corrupt_leaves :: "nat list"

datatype retry_decision =
  Retry u32 nat "nat list"
| PermanentFailure u32

record piece_validator =
  pv_info :: torrent_info
  pv_max_retries :: u32
  pv_use_merkle :: bool
  pv_quarantine :: "quarantine_entry list"
  pv_permanent :: "u32 list"
  pv_cache :: "(u32 \<times> merkle_tree) list"

definition pv_new :: "torrent_info \<Rightarrow> u32 \<Rightarrow> bool \<Rightarrow> piece_validator" where
  "pv_new info max_retries use_merkle =
     \<lparr>pv_info = info, pv_max_retries = max_retries, pv_use_merkle = use_merkle,
      pv_quarantine = [], pv_permanent = [], pv_cache = []\<rparr>"

definition pv_find_corrupt ::
  "(bytes \<Rightarrow> bytes) \<Rightarrow> u32 \<Rightarrow> bytes \<Rightarrow> piece_validator \<Rightarrow> nat list \<times> piece_validator"
where
  "pv_find_corrupt h piece_index data pv =
     (let tree = merkle_build h data;
          corrupt = find_corrupt_leaves h tree data
      in (corrupt,
          if \<not> list_ex (\<lambda>(idx, _). idx = piece_index) (pv_cache pv)
          then pv\<lparr>pv_cache := pv_cache pv @ [(piece_index, tree)]\<rparr> else pv))"

definition validate_piece ::
  "(bytes \<Rightarrow> bytes) \<Rightarrow> (bytes \<Rightarrow> bytes) \<Rightarrow> u32 \<Rightarrow> bytes \<Rightarrow> piece_validator
     \<Rightarrow> validation_result \<times> piece_validator"
where
  "validate_piece sha1 h piece_index data pv =
     (case ti_piece_hash (pv_info pv) piece_index of
        None \<Rightarrow> (Invalid [], pv)
      | Some expected \<Rightarrow>
          if sha1 data = expected then (Valid, pv)
          else if pv_use_merkle pv \<and> length data \<ge> MIN_PIECE_SIZE_FOR_MERKLE
          then apfst Invalid (pv_find_corrupt h piece_index data pv)
          else (Invalid [], pv))"

definition pv_quarantine_piece :: "u32 \<Rightarrow> nat \<Rightarrow> nat list \<Rightarrow> piece_validator \<Rightarrow> piece_validator" where
  "pv_quarantine_piece piece_index source_peer corrupt_leaves pv =
     (case position (\<lambda>e. qe_piece_index e = piece_index) (pv_quarantine pv) of
        Some k \<Rightarrow>
          let e = pv_quarantine pv ! k in
          pv\<lparr>pv_quarantine := (pv_quarantine pv)[k :=
            e\<lparr>qe_retry_count := sat_add (qe_retry_count e) 1, qe_source_peer := source_peer,
              qe_corrupt_leaves := corrupt_leaves\<rparr>]\<rparr>
      | None \<Rightarrow>
          pv\<lparr>pv_quarantine := pv_quarantine pv @
            [\<lparr>qe_piece_index = piece_index, qe_source_peer = source_peer, qe_retry_count = 0,
              qe_corrupt_leaves = corrupt_leaves\<rparr>]\<rparr>)"

definition pv_next_retry :: "piece_validator \<Rightarrow> retry_decision option \<times> piece_validator" where
  "pv_next_retry pv =
     (case pv_quarantine pv of
        [] \<Rightarrow> (None, pv)
      | entry # rest \<Rightarrow>
          let pv' = pv\<lparr>pv_quarantine := rest\<rparr> in
          if qe_retry_count entry \<ge> pv_max_retries pv
          then (Some (PermanentFailure (qe_piece_index entry)),
                pv'\<lparr>pv_permanent := pv_permanent pv @ [qe_piece_index entry]\<rparr>)
          else (Some (Retry (qe_piece_index entry) (qe_source_peer entry) (qe_corrupt_leaves entry)),
                pv'))"

definition pv_is_permanently_failed :: "piece_validator \<Rightarrow> u32 \<Rightarrow> bool" where
  "pv_is_permanently_failed pv i \<longleftrightarrow> i \<in> set (pv_permanent pv)"

definition pv_leaf_count_for_piece :: "piece_validator \<Rightarrow> u32 \<Rightarrow> nat" where
  "pv_leaf_count_for_piece pv i =
     (let size = unat (ti_piece_size (pv_info pv) i) in
      if size = 0 then 0 else sat_add_usize size (LEAF_SIZE - 1) div LEAF_SIZE)"

section \<open>Pieces tile the file\<close>

lemma ti_piece_offset_val:
  assumes "unat (i :: u32) * unat (ti_piece_length info) < 2 ^ 64"
  shows "unat (ti_piece_offset info i) = unat i * unat (ti_piece_length info)"
proof -
  have "unat (ucast i :: u64) = unat i"
    using unat_less_exp [of i] by (simp add: unsigned_ucast_eq take_bit_nat_eq_self)
  with assms show ?thesis
    by (simp add: ti_piece_offset_def sat_mul_def unat_word_ariths)
qed

lemma ti_piece_size_val:
  assumes "unat i * unat (ti_piece_length info) \<le> unat (ti_file_size info)"
    and "unat (ti_piece_length info) < 2 ^ 32"
  shows "unat (ti_piece_size info i)
    = min (unat (ti_file_size info) - unat i * unat (ti_piece_length info)) (unat (ti_piece_length info))"
proof -
  have "unat i * unat (ti_piece_length info) < 2 ^ 64"
    using assms(1) unat_less_exp [of "ti_file_size info"] by simp
  note off = ti_piece_offset_val [OF this]
  have "unat (min (sat_sub (ti_file_size info) (ti_piece_offset info i)) (ti_piece_length info)) < 2 ^ 32"
    using assms(2) by (simp add: unat_min)
  then show ?thesis
    by (simp add: ti_piece_size_def unsigned_ucast_eq take_bit_nat_eq_self unat_min unat_sat_sub off)
qed

lemma piece_sizes_sum:
  assumes "n * unat (ti_piece_length info) < unat (ti_file_size info) + unat (ti_piece_length info)"
    and "unat (ti_piece_length info) < 2 ^ 32" and "n \<le> 2 ^ 32"
  shows "(\<Sum>k<n. unat (ti_piece_size info (word_of_nat k)))
    = min (unat (ti_file_size info)) (n * unat (ti_piece_length info))"
  using assms(1,3)
proof (induction n)
  case 0
  then show ?case by simp
next
  case (Suc n)
  let ?pl = "unat (ti_piece_length info)" and ?fs = "unat (ti_file_size info)"
  have n: "unat (word_of_nat n :: u32) = n"
    using Suc.prems(2) by (simp add: unsigned_of_nat take_bit_nat_eq_self)
  have fits: "n * ?pl < ?fs"
    using Suc.prems(1) by simp
  then have "unat (ti_piece_size info (word_of_nat n)) = min (?fs - n * ?pl) ?pl"
    using ti_piece_size_val [of "word_of_nat n" info] assms(2) n by simp
  moreover have "min ?fs (n * ?pl) + min (?fs - n * ?pl) ?pl = min ?fs (Suc n * ?pl)"
    using fits by auto
  ultimately show ?case
    using Suc fits by simp
qed

section \<open>Validation\<close>

lemma own_tree_never_corrupt: "find_corrupt_leaves h (merkle_build h data) data = []"
  by (simp add: find_corrupt_leaves_eq)

lemma pv_find_corrupt_empty: "fst (pv_find_corrupt h i data pv) = []"
  by (simp add: pv_find_corrupt_def own_tree_never_corrupt Let_def)

lemma validate_piece_result:
  "fst (validate_piece sha1 h i data pv)
     = (if ti_piece_hash (pv_info pv) i = Some (sha1 data) then Valid else Invalid [])"
  by (auto simp: validate_piece_def pv_find_corrupt_empty split: option.split)

section \<open>Quarantine\<close>

definition pv_inv :: "piece_validator \<Rightarrow> bool" where
  "pv_inv pv \<longleftrightarrow> distinct (map qe_piece_index (pv_quarantine pv))"

lemma pv_inv_new: "pv_inv (pv_new info m u)"
  by (simp add: pv_inv_def pv_new_def)

lemma pv_inv_quarantine:
  assumes "pv_inv pv"
  shows "pv_inv (pv_quarantine_piece i p ls pv)"
proof (cases "position (\<lambda>e. qe_piece_index e = i) (pv_quarantine pv)")
  case None
  then have "pv_quarantine (pv_quarantine_piece i p ls pv) = pv_quarantine pv @
      [\<lparr>qe_piece_index = i, qe_source_peer = p, qe_retry_count = 0, qe_corrupt_leaves = ls\<rparr>]"
    by (simp add: pv_quarantine_piece_def)
  moreover have "i \<notin> set (map qe_piece_index (pv_quarantine pv))"
    using None by (auto simp: position_None)
  ultimately show ?thesis
    using assms by (simp add: pv_inv_def)
next
  case (Some k)
  then have k: "k < length (pv_quarantine pv)" "qe_piece_index (pv_quarantine pv ! k) = i"
    by (simp_all add: position_Some)
  have "map qe_piece_index ((pv_quarantine pv)[k := e]) = map qe_piece_index (pv_quarantine pv)"
    if "qe_piece_index e = i" for e
    using k that by (simp add: map_update list_update_same_conv)
  with Some k assms show ?thesis
    by (simp add: pv_quarantine_piece_def pv_inv_def Let_def)
qed

lemma pv_inv_next_retry: "pv_inv pv \<Longrightarrow> pv_inv (snd (pv_next_retry pv))"
  by (auto simp: pv_next_retry_def pv_inv_def Let_def split: list.split)

datatype pv_call = Quarantine u32 nat "nat list" | NextRetry

fun pv_step :: "pv_call \<Rightarrow> piece_validator \<Rightarrow> piece_validator" where
  "pv_step (Quarantine i p ls) pv = pv_quarantine_piece i p ls pv"
| "pv_step NextRetry pv = snd (pv_next_retry pv)"

interpretation validator: step_system "{pv. \<exists>info m u. pv = pv_new info m u}" pv_step pv_inv
proof unfold_locales
  show "pv_inv (pv_step c pv)" if "pv_inv pv" for c pv
    using that by (cases c) (simp_all add: pv_inv_quarantine pv_inv_next_retry)
qed (auto simp: pv_inv_new)

text \<open>
  The cycle of a coordinator that quarantines a bad piece, takes it out to retry it, and
  quarantines it again when the retry is bad: \<open>n\<close> rounds and the decisions they return.
\<close>

primrec bad_rounds :: "nat \<Rightarrow> u32 \<Rightarrow> nat \<Rightarrow> piece_validator \<Rightarrow> retry_decision option list \<times> piece_validator" where
  "bad_rounds 0 i p pv = ([], pv)"
| "bad_rounds (Suc n) i p pv =
     (let (d, pv') = pv_next_retry (pv_quarantine_piece i p [] pv);
          (ds, pv'') = bad_rounds n i p pv'
      in (d # ds, pv''))"

lemma bad_rounds_retry:
  assumes "pv_quarantine pv = []" and "0 < pv_max_retries pv"
  shows "bad_rounds n i p pv = (replicate n (Some (Retry i p [])), pv)"
proof (induction n)
  case 0
  then show ?case by simp
next
  case (Suc n)
  have "\<not> pv_max_retries pv \<le> 0"
    using assms(2) by (simp only: not_le)
  then have "pv_next_retry (pv_quarantine_piece i p [] pv) = (Some (Retry i p []), pv)"
    using assms(1) by (simp add: pv_next_retry_def pv_quarantine_piece_def)
  with Suc show ?case
    by (simp add: Let_def)
qed

section \<open>Properties\<close>

text \<open>
  The pieces tile the file. When the piece length fits 32 bits and the piece count is the
  number of pieces that covers the file, the sizes of the pieces add up to the file size: every
  piece but the last has the full length, and the last has the rest.
\<close>
theorem piece_sizes_tile_file:
  assumes "unat (ti_piece_length info) < 2 ^ 32" and "n \<le> 2 ^ 32"
    and "unat (ti_file_size info) \<le> n * unat (ti_piece_length info)"
    and "n * unat (ti_piece_length info) < unat (ti_file_size info) + unat (ti_piece_length info)"
  shows "(\<Sum>k<n. unat (ti_piece_size info (word_of_nat k))) = unat (ti_file_size info)"
  using piece_sizes_sum [OF assms(4,1,2)] assms(3) by simp

theorem piece_sizes_tile_file_witness:
  "let info = \<lparr>ti_piece_length = 100, ti_piece_hashes = [], ti_file_size = 250, ti_file_name = ''f''\<rparr>
   in (\<Sum>k<3. unat (ti_piece_size info (word_of_nat k))) = unat (ti_file_size info)"
  unfolding Let_def by (rule piece_sizes_tile_file) simp_all

text \<open>
  A piece is valid exactly when its SHA-1 digest is the one of the torrent at its index, and
  the report of an invalid piece names no leaf, for every hash function and every piece: the
  validator compares the data with the tree of the same data, so the localisation that the
  documentation promises for large pieces never finds anything.
\<close>
theorem validate_piece_exact:
  "fst (validate_piece sha1 h i data pv)
     = (if ti_piece_hash (pv_info pv) i = Some (sha1 data) then Valid else Invalid [])"
  by (rule validate_piece_result)

text \<open>
  The retry budget is never spent. Taking a piece out of quarantine forgets its retry count,
  so a piece that is bad again and again is retried forever from the same state, and never becomes
  a permanent failure, whatever positive number of retries is configured.
\<close>
theorem retry_budget_never_exhausted:
  assumes "pv_quarantine pv = []" and "0 < pv_max_retries pv"
  shows "bad_rounds n i p pv = (replicate n (Some (Retry i p [])), pv)"
  using assms by (rule bad_rounds_retry)

theorem retry_budget_never_exhausted_witness:
  "let pv = pv_new \<lparr>ti_piece_length = 100, ti_piece_hashes = [], ti_file_size = 250,
              ti_file_name = ''f''\<rparr> 3 True
   in bad_rounds 1000 7 0 pv = (replicate 1000 (Some (Retry 7 0 [])), pv)"
  unfolding Let_def by (rule retry_budget_never_exhausted) (simp_all add: pv_new_def)

text \<open>
  A piece is quarantined at most once. In every state reached from a new validator by any
  sequence of \<open>quarantine\<close> and \<open>next_retry\<close> calls the quarantined pieces are distinct.
\<close>
theorem quarantine_distinct:
  "distinct (map qe_piece_index (pv_quarantine (fold pv_step calls (pv_new info m u))))"
  using validator.inv_fold [OF pv_inv_new, of calls info m u] by (simp add: pv_inv_def)

end
