(* ===== verification/Streaming.thy ===== *)
theory Streaming
  imports Prelude
begin

text \<open>
  Streaming reads, \<open>crates/p2p-distribute/src/streaming.rs\<close>: \<open>ByteRange\<close>, \<open>ByteRangeMap\<close>,
  \<open>PieceMapping\<close>, the head and tail pieces of \<open>BufferPolicy\<close> and \<open>evaluate_peer_priority\<close>. The map
  is refined to the set of available byte positions. The progress ratios are floating point
  displays and are not modelled.
\<close>

section \<open>Ranges\<close>

record byte_range =
  br_start :: u64
  br_end :: u64

definition br_len :: "byte_range \<Rightarrow> u64" where
  "br_len r = sat_sub (br_end r) (br_start r)"

definition br_is_empty :: "byte_range \<Rightarrow> bool" where
  "br_is_empty r \<longleftrightarrow> br_end r \<le> br_start r"

definition contains_range :: "byte_range \<Rightarrow> byte_range \<Rightarrow> bool" where
  "contains_range r other \<longleftrightarrow> br_start r \<le> br_start other \<and> br_end r \<ge> br_end other"

definition mergeable_with :: "byte_range \<Rightarrow> byte_range \<Rightarrow> bool" where
  "mergeable_with r other \<longleftrightarrow> br_start r \<le> br_end other \<and> br_start other \<le> br_end r"

definition br_merge :: "byte_range \<Rightarrow> byte_range \<Rightarrow> byte_range" where
  "br_merge r other =
     \<lparr>br_start = min (br_start r) (br_start other), br_end = max (br_end r) (br_end other)\<rparr>"

section \<open>The map\<close>

record byte_range_map =
  bm_ranges :: "byte_range list"
  bm_file_size :: u64

definition bm_new :: "u64 \<Rightarrow> byte_range_map" where
  "bm_new file_size = \<lparr>bm_ranges = [], bm_file_size = file_size\<rparr>"

definition fully_available :: "u64 \<Rightarrow> byte_range_map" where
  "fully_available file_size =
     (if file_size > 0
      then (bm_new file_size)\<lparr>bm_ranges := [\<lparr>br_start = 0, br_end = file_size\<rparr>]\<rparr>
      else bm_new file_size)"

definition bm_is_complete :: "byte_range_map \<Rightarrow> bool" where
  "bm_is_complete m \<longleftrightarrow>
     (case bm_ranges m of
        [r] \<Rightarrow> br_start r = 0 \<and> br_end r \<ge> bm_file_size m
      | _ \<Rightarrow> False)"

definition available_bytes :: "byte_range_map \<Rightarrow> u64" where
  "available_bytes m = sum_list (map br_len (bm_ranges m))"

definition has_range :: "byte_range_map \<Rightarrow> u64 \<Rightarrow> u64 \<Rightarrow> bool" where
  "has_range m start len =
     (if len = 0 then True
      else case checked_add start len of
             None \<Rightarrow> False
           | Some e \<Rightarrow>
               list_ex (\<lambda>r. contains_range r \<lparr>br_start = start, br_end = e\<rparr>) (bm_ranges m))"

definition contiguous_from :: "byte_range_map \<Rightarrow> u64 \<Rightarrow> u64" where
  "contiguous_from m offset =
     (case find (\<lambda>r. br_start r \<le> offset \<and> br_end r > offset) (bm_ranges m) of
        None \<Rightarrow> 0
      | Some r \<Rightarrow> br_end r - offset)"

text \<open>The closure of \<open>retain\<close>: it grows \<open>merged\<close> while it drops the ranges it absorbs.\<close>

fun retain_merge :: "byte_range list \<Rightarrow> byte_range \<Rightarrow> byte_range list \<times> byte_range" where
  "retain_merge [] merged = ([], merged)"
| "retain_merge (r # rs) merged =
     (if mergeable_with r merged then retain_merge rs (br_merge merged r)
      else apfst ((#) r) (retain_merge rs merged))"

text \<open>\<open>binary_search_by_key\<close> on starts in increasing order, none of them equal to the key.\<close>

definition insert_pos :: "u64 \<Rightarrow> byte_range list \<Rightarrow> nat" where
  "insert_pos key rs = length (takeWhile (\<lambda>r. br_start r < key) rs)"

definition bm_insert :: "byte_range \<Rightarrow> byte_range_map \<Rightarrow> byte_range_map" where
  "bm_insert rng m =
     (if br_is_empty rng then m
      else
        let (kept, merged) = retain_merge (bm_ranges m) rng;
            pos = insert_pos (br_start merged) kept
        in m\<lparr>bm_ranges := take pos kept @ merged # drop pos kept\<rparr>)"

definition first_gap_from :: "byte_range_map \<Rightarrow> u64 \<Rightarrow> u64 option" where
  "first_gap_from m offset =
     (case find (\<lambda>r. br_start r \<le> offset \<and> br_end r > offset) (bm_ranges m) of
        Some r \<Rightarrow> if br_end r \<ge> bm_file_size m then None else Some (br_end r)
      | None \<Rightarrow> if offset \<ge> bm_file_size m then None else Some offset)"

section \<open>The set of available positions\<close>

definition covers_pos :: "byte_range \<Rightarrow> u64 \<Rightarrow> bool" where
  "covers_pos r x \<longleftrightarrow> br_start r \<le> x \<and> x < br_end r"

definition available :: "byte_range_map \<Rightarrow> u64 set" where
  "available m = {x. \<exists>r \<in> set (bm_ranges m). covers_pos r x}"

text \<open>The invariant: no empty range, and a gap between a range and the ones behind it.\<close>

definition separated :: "byte_range list \<Rightarrow> bool" where
  "separated rs \<longleftrightarrow> sorted_wrt (\<lambda>a b. br_end a < br_start b) rs
     \<and> list_all (\<lambda>r. br_start r < br_end r) rs"

lemma separated_Cons:
  "separated (r # rs) \<longleftrightarrow>
     br_start r < br_end r \<and> (\<forall>q \<in> set rs. br_end r < br_start q) \<and> separated rs"
  by (auto simp: separated_def)

lemma merge_covers:
  assumes "mergeable_with r q" and "br_start r < br_end r" and "br_start q < br_end q"
  shows "covers_pos (br_merge q r) x \<longleftrightarrow> covers_pos q x \<or> covers_pos r x"
  using assms unfolding mergeable_with_def br_merge_def covers_pos_def min_def max_def
  by auto

lemma merge_nonempty:
  "br_start q < br_end q \<Longrightarrow> br_start (br_merge q r) < br_end (br_merge q r)"
  by (auto simp: br_merge_def min_def max_def)

lemma retain_merge_covers:
  assumes "retain_merge rs m = (kept, m')" and "br_start m < br_end m"
    and "list_all (\<lambda>r. br_start r < br_end r) rs"
  shows "br_start m' < br_end m' \<and> set kept \<subseteq> set rs
    \<and> ((\<exists>r \<in> set kept. covers_pos r x) \<or> covers_pos m' x
        \<longleftrightarrow> (\<exists>r \<in> set rs. covers_pos r x) \<or> covers_pos m x)"
  using assms
proof (induction rs arbitrary: m kept)
  case Nil
  then show ?case by simp
next
  case (Cons r rs)
  show ?case
  proof (cases "mergeable_with r m")
    case True
    with Cons.prems Cons.IH [of "br_merge m r" kept] merge_covers [OF True, of x]
      merge_nonempty [of m r]
    show ?thesis by auto
  next
    case False
    then obtain k where k: "kept = r # k" "retain_merge rs m = (k, m')"
      using Cons.prems(1) by (cases "retain_merge rs m") auto
    with Cons.IH [OF k(2)] Cons.prems(2,3) show ?thesis by auto
  qed
qed

lemma retain_merge_behind:
  "(\<forall>r \<in> set rs. br_end m < br_start r) \<Longrightarrow> retain_merge rs m = (rs, m)"
  by (induction rs) (auto simp: mergeable_with_def not_le)

lemma retain_merge_start:
  assumes "retain_merge rs m = (kept, m')" and "b < br_start m" and "\<forall>r \<in> set rs. b < br_start r"
  shows "b < br_start m'"
  using assms
proof (induction rs arbitrary: m kept)
  case Nil
  then show ?case by simp
next
  case (Cons r rs)
  show ?case
  proof (cases "mergeable_with r m")
    case True
    with Cons.prems show ?thesis
      by (intro Cons.IH [of "br_merge m r" kept]) (auto simp: br_merge_def)
  next
    case False
    then obtain k where "retain_merge rs m = (k, m')"
      using Cons.prems(1) by (cases "retain_merge rs m") auto
    with Cons show ?thesis by auto
  qed
qed

lemma retain_merge_separated:
  assumes "retain_merge rs m = (kept, m')" and "separated rs" and "br_start m < br_end m"
  shows "separated kept \<and> (\<forall>r \<in> set kept. br_end r < br_start m' \<or> br_end m' < br_start r)"
  using assms
proof (induction rs arbitrary: m kept)
  case Nil
  then show ?case by (simp add: separated_def)
next
  case (Cons r rs)
  show ?case
  proof (cases "mergeable_with r m")
    case True
    with Cons.prems merge_nonempty [of m r] show ?thesis
      by (intro Cons.IH [of "br_merge m r" kept]) (auto simp: separated_Cons)
  next
    case False
    then obtain k where k: "kept = r # k" "retain_merge rs m = (k, m')"
      using Cons.prems(1) by (cases "retain_merge rs m") auto
    note sep = Cons.prems(2) [unfolded separated_Cons]
    have IH: "separated k" "\<forall>q \<in> set k. br_end q < br_start m' \<or> br_end m' < br_start q"
      using Cons.IH [OF k(2)] sep Cons.prems(3) by auto
    have "set k \<subseteq> set rs"
      using retain_merge_covers [OF k(2) Cons.prems(3)] sep by (auto simp: separated_def)
    with sep IH(1) k(1) have "separated kept"
      by (auto simp: separated_Cons)
    moreover have "br_end r < br_start m' \<or> br_end m' < br_start r"
    proof (cases "br_end r < br_start m")
      case True
      with retain_merge_start [OF k(2)] sep show ?thesis by blast
    next
      case behind: False
      with False have "br_end m < br_start r"
        by (auto simp: mergeable_with_def)
      moreover from this sep have "\<forall>q \<in> set rs. br_end m < br_start q"
        by (meson less_trans)
      ultimately show ?thesis
        using retain_merge_behind [of rs m] k(2) by simp
    qed
    ultimately show ?thesis
      using IH(2) k(1) by simp
  qed
qed

lemma separated_insert:
  assumes "separated kept" and "br_start m < br_end m"
    and "\<forall>r \<in> set kept. br_end r < br_start m \<or> br_end m < br_start r"
  shows "separated (take (insert_pos (br_start m) kept) kept
    @ m # drop (insert_pos (br_start m) kept) kept)"
  using assms(1,3)
proof (induction kept)
  case Nil
  with assms(2) show ?case by (simp add: insert_pos_def separated_def)
next
  case (Cons r rs)
  note sep = Cons.prems(1) [unfolded separated_Cons]
  show ?case
  proof (cases "br_start r < br_start m")
    case True
    with sep Cons.prems(2) assms(2) have "br_end r < br_start m"
      by (auto dest: less_trans)
    moreover have "set (take p rs @ m # drop p rs) \<subseteq> insert m (set rs)" for p
      by (auto dest: in_set_takeD in_set_dropD)
    ultimately have "\<forall>q \<in> set (take (insert_pos (br_start m) rs) rs
        @ m # drop (insert_pos (br_start m) rs) rs). br_end r < br_start q"
      using sep by blast
    with True Cons sep show ?thesis
      by (simp add: insert_pos_def separated_Cons)
  next
    case False
    with Cons.prems(2) sep assms(2) have "br_end m < br_start r"
      by (auto simp: not_less dest: less_trans)
    with sep have "\<forall>q \<in> set rs. br_end m < br_start q"
      by (meson less_trans)
    with False sep assms(2) \<open>br_end m < br_start r\<close> show ?thesis
      by (simp add: insert_pos_def separated_Cons)
  qed
qed

lemma bm_insert_correct:
  assumes "separated (bm_ranges m)"
  shows "separated (bm_ranges (bm_insert rng m))"
    and "x \<in> available (bm_insert rng m) \<longleftrightarrow> x \<in> available m \<or> covers_pos rng x"
proof -
  obtain kept m' where km: "retain_merge (bm_ranges m) rng = (kept, m')"
    by (cases "retain_merge (bm_ranges m) rng")
  have "separated (bm_ranges (bm_insert rng m))
    \<and> (x \<in> available (bm_insert rng m) \<longleftrightarrow> x \<in> available m \<or> covers_pos rng x)"
  proof (cases "br_is_empty rng")
    case True
    with assms show ?thesis
      by (auto simp: bm_insert_def covers_pos_def br_is_empty_def)
  next
    case False
    then have ne: "br_start rng < br_end rng"
      by (simp add: br_is_empty_def not_le)
    let ?p = "insert_pos (br_start m') kept"
    have ranges: "bm_ranges (bm_insert rng m) = take ?p kept @ m' # drop ?p kept"
      using False km by (simp add: bm_insert_def Let_def)
    have "set (take ?p kept @ m' # drop ?p kept) = insert m' (set kept)"
      by (metis append_take_drop_id set_append set_simps(2) Un_insert_right)
    moreover have "separated (take ?p kept @ m' # drop ?p kept)"
      using retain_merge_separated [OF km assms ne] retain_merge_covers [OF km ne, of x] assms
      by (intro separated_insert) (auto simp: separated_def)
    ultimately show ?thesis
      using retain_merge_covers [OF km ne, of x] assms
      by (auto simp: available_def ranges separated_def)
  qed
  then show "separated (bm_ranges (bm_insert rng m))"
    and "x \<in> available (bm_insert rng m) \<longleftrightarrow> x \<in> available m \<or> covers_pos rng x"
    by blast+
qed

section \<open>Queries\<close>

lemma separated_apart:
  assumes "separated rs" and "r \<in> set rs" and "q \<in> set rs"
  shows "r = q \<or> br_end r < br_start q \<or> br_end q < br_start r"
  using assms by (induction rs) (auto simp: separated_Cons)

lemma separated_nonempty: "separated rs \<Longrightarrow> r \<in> set rs \<Longrightarrow> br_start r < br_end r"
  by (auto simp: separated_def list_all_iff)

lemma separated_distinct: "separated rs \<Longrightarrow> distinct rs"
  by (induction rs) (auto simp: separated_Cons dest: less_trans)

lemma distinct_singleton: "distinct xs \<Longrightarrow> x \<in> set xs \<Longrightarrow> (\<And>y. y \<in> set xs \<Longrightarrow> y = x) \<Longrightarrow> xs = [x]"
proof (cases xs)
  case (Cons y ys)
  assume "distinct xs" and all: "\<And>y. y \<in> set xs \<Longrightarrow> y = x"
  then have "y = x" "\<forall>z \<in> set ys. z = x" "x \<notin> set ys"
    using Cons by auto
  then show ?thesis
    using Cons by (cases ys) auto
qed simp

lemma end_missing:
  assumes "separated (bm_ranges m)" and "r \<in> set (bm_ranges m)"
  shows "br_end r \<notin> available m"
proof
  assume "br_end r \<in> available m"
  then obtain q where q: "q \<in> set (bm_ranges m)" "br_start q \<le> br_end r" "br_end r < br_end q"
    by (auto simp: available_def covers_pos_def)
  with separated_apart [OF assms q(1)] separated_nonempty [OF assms]
  show False
    by (auto dest: less_trans)
qed

lemma find_covering:
  "find (\<lambda>r. br_start r \<le> x \<and> br_end r > x) (bm_ranges m) = Some r
     \<Longrightarrow> r \<in> set (bm_ranges m) \<and> covers_pos r x"
  "find (\<lambda>r. br_start r \<le> x \<and> br_end r > x) (bm_ranges m) = None \<Longrightarrow> x \<notin> available m"
  by (auto simp: find_Some_iff find_None_iff available_def covers_pos_def)

lemma availableI: "r \<in> set (bm_ranges m) \<Longrightarrow> br_start r \<le> x \<Longrightarrow> x < br_end r \<Longrightarrow> x \<in> available m"
  by (auto simp: available_def covers_pos_def)

lemma has_range_iff:
  assumes "separated (bm_ranges m)" and "len \<noteq> 0" and "checked_add start len = Some e"
  shows "has_range m start len \<longleftrightarrow> (\<forall>x. start \<le> x \<and> x < e \<longrightarrow> x \<in> available m)"
proof
  assume "has_range m start len"
  then obtain r where "r \<in> set (bm_ranges m)" "br_start r \<le> start" "e \<le> br_end r"
    using assms(2,3) by (auto simp: has_range_def list_ex_iff contains_range_def)
  then show "\<forall>x. start \<le> x \<and> x < e \<longrightarrow> x \<in> available m"
    by (auto intro: availableI dest: order_trans less_le_trans)
next
  assume all: "\<forall>x. start \<le> x \<and> x < e \<longrightarrow> x \<in> available m"
  have "start < e"
    using checked_add_Some [OF assms(3)] assms(2) by (simp add: word_less_nat_alt unat_gt_0)
  with all obtain r where r: "r \<in> set (bm_ranges m)" "covers_pos r start"
    by (auto simp: available_def)
  have "e \<le> br_end r"
  proof (rule ccontr)
    assume "\<not> e \<le> br_end r"
    with all r(2) have "br_end r \<in> available m"
      by (auto simp: covers_pos_def not_le dest: less_imp_le)
    with end_missing [OF assms(1) r(1)] show False by simp
  qed
  with r assms(2,3) show "has_range m start len"
    by (auto simp: has_range_def list_ex_iff contains_range_def covers_pos_def)
qed

lemma first_gap_Some:
  assumes "separated (bm_ranges m)" and "first_gap_from m offset = Some g"
  shows "offset \<le> g \<and> g < bm_file_size m \<and> g \<notin> available m
    \<and> (\<forall>x. offset \<le> x \<and> x < g \<longrightarrow> x \<in> available m)"
proof (cases "find (\<lambda>r. br_start r \<le> offset \<and> br_end r > offset) (bm_ranges m)")
  case None
  with assms(2) find_covering(2) [OF None] show ?thesis
    by (auto simp: first_gap_from_def split: if_splits)
next
  case (Some r)
  then have r: "r \<in> set (bm_ranges m)" "covers_pos r offset"
    using find_covering(1) by blast+
  with Some assms(2) end_missing [OF assms(1) r(1)] show ?thesis
    by (auto simp: first_gap_from_def covers_pos_def split: if_splits
        intro: availableI [OF r(1)] dest: order_trans)
qed

lemma first_gap_None:
  assumes "first_gap_from m offset = None" and "offset \<le> x" and "x < bm_file_size m"
  shows "x \<in> available m"
proof (cases "find (\<lambda>r. br_start r \<le> offset \<and> br_end r > offset) (bm_ranges m)")
  case None
  with assms show ?thesis
    by (auto simp: first_gap_from_def split: if_splits)
next
  case (Some r)
  with find_covering(1) [OF Some] assms show ?thesis
    by (auto simp: first_gap_from_def covers_pos_def split: if_splits
        intro!: availableI [of r] dest: order_trans less_le_trans)
qed

lemma contiguous_from_correct:
  assumes "separated (bm_ranges m)"
  shows "offset + contiguous_from m offset \<notin> available m
    \<and> (\<forall>x. offset \<le> x \<and> x < offset + contiguous_from m offset \<longrightarrow> x \<in> available m)"
proof (cases "find (\<lambda>r. br_start r \<le> offset \<and> br_end r > offset) (bm_ranges m)")
  case None
  then show ?thesis
    using find_covering(2) [OF None] by (auto simp: contiguous_from_def)
next
  case (Some r)
  then have r: "r \<in> set (bm_ranges m)" "covers_pos r offset"
    using find_covering(1) by blast+
  with Some end_missing [OF assms r(1)] show ?thesis
    by (auto simp: contiguous_from_def covers_pos_def intro: availableI [OF r(1)] dest: order_trans)
qed

lemma is_complete_iff:
  assumes "separated (bm_ranges m)" and "list_all (\<lambda>r. br_end r \<le> bm_file_size m) (bm_ranges m)"
    and "0 < bm_file_size m"
  shows "bm_is_complete m \<longleftrightarrow> (\<forall>x < bm_file_size m. x \<in> available m)"
proof
  assume "bm_is_complete m"
  then obtain r where "bm_ranges m = [r]" "br_start r = 0" "bm_file_size m \<le> br_end r"
    by (auto simp: bm_is_complete_def split: list.splits)
  then show "\<forall>x < bm_file_size m. x \<in> available m"
    by (auto intro!: availableI [of r] dest: less_le_trans)
next
  assume all: "\<forall>x < bm_file_size m. x \<in> available m"
  then obtain r where r: "r \<in> set (bm_ranges m)" "covers_pos r 0"
    using assms(3) by (auto simp: available_def)
  have "\<not> br_end r < bm_file_size m"
    using all end_missing [OF assms(1) r(1)] by blast
  then have e: "br_end r = bm_file_size m" "br_start r = 0"
    using assms(2) r by (auto simp: list_all_iff covers_pos_def)
  have "q = r" if "q \<in> set (bm_ranges m)" for q
  proof -
    have "br_end q \<le> br_end r" "br_start q < br_end q"
      using assms(2) that e separated_nonempty [OF assms(1) that] by (auto simp: list_all_iff)
    with separated_apart [OF assms(1) that r(1)] e show ?thesis
      by (auto dest: less_trans less_le_trans)
  qed
  moreover have "distinct (bm_ranges m)"
    by (rule separated_distinct [OF assms(1)])
  ultimately have "bm_ranges m = [r]"
    using r(1) by (blast intro: distinct_singleton)
  with e show "bm_is_complete m"
    by (simp add: bm_is_complete_def)
qed

lemma card_covers: "card {x. covers_pos r x} = unat (br_len r)"
proof -
  have "bij_betw unat {x. covers_pos r x} {unat (br_start r)..<unat (br_end r)}"
  proof (rule bij_betw_imageI)
    show "inj_on unat {x. covers_pos r x}"
      by (intro inj_onI) (simp add: unat_eq_iff)
    show "unat ` {x. covers_pos r x} = {unat (br_start r)..<unat (br_end r)}"
    proof (intro set_eqI iffI)
      fix k
      assume k: "k \<in> {unat (br_start r)..<unat (br_end r)}"
      then have "k < 2 ^ 64"
        using unat_less_exp [of "br_end r"] by simp
      then have "unat (word_of_nat k :: u64) = k"
        by (simp add: unsigned_of_nat take_bit_nat_eq_self)
      with k show "k \<in> unat ` {x. covers_pos r x}"
        by (intro image_eqI [of _ _ "word_of_nat k"])
          (auto simp: covers_pos_def word_less_nat_alt word_le_nat_alt)
    qed (auto simp: covers_pos_def word_less_nat_alt word_le_nat_alt)
  qed
  then show ?thesis
    using bij_betw_same_card by (fastforce simp: br_len_def unat_sat_sub)
qed

lemma available_Cons:
  "available (m\<lparr>bm_ranges := r # rs\<rparr>) = {x. covers_pos r x} \<union> available (m\<lparr>bm_ranges := rs\<rparr>)"
  by (auto simp: available_def)

lemma covers_disjoint:
  assumes "\<forall>q \<in> set rs. br_end r < br_start q"
  shows "{x. covers_pos r x} \<inter> available (m\<lparr>bm_ranges := rs\<rparr>) = {}"
  using assms by (force simp: available_def covers_pos_def)

lemma available_bytes_card:
  assumes "separated rs"
  shows "unat (sum_list (map br_len rs)) = card (available (m\<lparr>bm_ranges := rs\<rparr>))"
  using assms
proof (induction rs)
  case Nil
  then show ?case by (simp add: available_def)
next
  case (Cons r rs)
  let ?A = "available (m\<lparr>bm_ranges := r # rs\<rparr>)" and ?B = "available (m\<lparr>bm_ranges := rs\<rparr>)"
  have disj: "card ?A = card {x. covers_pos r x} + card ?B"
    unfolding available_Cons using Cons.prems
    by (intro card_Un_disjoint covers_disjoint) (auto simp: separated_Cons)
  have "br_end r \<notin> ?A"
    using end_missing [of "m\<lparr>bm_ranges := r # rs\<rparr>" r] Cons.prems by simp
  then have "card ?A < card (UNIV :: u64 set)"
    by (intro psubset_card_mono) auto
  then have "unat (br_len r) + unat (sum_list (map br_len rs)) < 2 ^ 64"
    using disj Cons by (simp add: card_covers separated_Cons card_word)
  then show ?case
    using disj Cons by (simp add: card_covers separated_Cons unat_word_ariths)
qed

section \<open>Pieces of a file\<close>

text \<open>
  The additions and subtractions of this part are unchecked in the source: with overflow checks
  they panic, which is \<open>None\<close> here.
\<close>

record piece_mapping =
  fm_file_offset :: u64
  fm_piece_size :: u64
  fm_total_pieces :: u32
  fm_file_size :: u64

definition pieces_for_range :: "piece_mapping \<Rightarrow> u64 \<Rightarrow> u64 \<Rightarrow> (u32 \<times> u32) option" where
  "pieces_for_range fm offset len =
     (case checked_add (fm_file_offset fm) offset of None \<Rightarrow> None
      | Some torrent_start \<Rightarrow>
     (case checked_add torrent_start (sat_sub len 1) of None \<Rightarrow> None
      | Some torrent_end \<Rightarrow>
          if fm_piece_size fm = 0 \<or> fm_total_pieces fm = 0 then None
          else Some (ucast (torrent_start div fm_piece_size fm),
                     min (ucast (torrent_end div fm_piece_size fm)) (fm_total_pieces fm - 1))))"

definition all_file_pieces :: "piece_mapping \<Rightarrow> (u32 \<times> u32) option" where
  "all_file_pieces fm = pieces_for_range fm 0 (fm_file_size fm)"

text \<open>The loops over \<open>0..head_count\<close> and \<open>0..tail_count\<close>.\<close>

definition head_tail_priority_pieces :: "u32 \<Rightarrow> u32 \<Rightarrow> piece_mapping \<Rightarrow> u32 list option" where
  "head_tail_priority_pieces head_pieces tail_pieces fm =
     (case all_file_pieces fm of None \<Rightarrow> None
      | Some (first, last') \<Rightarrow>
          if last' < first then None
          else (case checked_add (last' - first) 1 of None \<Rightarrow> None
                | Some span \<Rightarrow>
                    let heads = map (\<lambda>i. first + word_of_nat i) [0..<unat (min head_pieces span)]
                    in Some (fold (\<lambda>i pieces. let p = last' - word_of_nat i in
                                if p \<in> set pieces then pieces else pieces @ [p])
                              [0..<unat (min tail_pieces span)] heads)))"

lemma fold_add_new:
  "set (fold (\<lambda>i ps. let p = f i in if p \<in> set ps then ps else ps @ [p]) is ps) = set ps \<union> f ` set is"
  "distinct ps \<Longrightarrow> distinct (fold (\<lambda>i ps. let p = f i in if p \<in> set ps then ps else ps @ [p]) is ps)"
  by (induction "is" arbitrary: ps) (auto simp: Let_def)

lemma pieces_for_range_mem:
  assumes "pieces_for_range fm offset len = Some (first, last')" and "0 < len"
    and "unat (fm_file_offset fm) + unat offset + unat len \<le> unat (fm_total_pieces fm) * unat (fm_piece_size fm)"
  shows "first \<le> p \<and> p \<le> last' \<longleftrightarrow>
     (\<exists>x. unat (fm_file_offset fm) + unat offset \<le> x \<and> x < unat (fm_file_offset fm) + unat offset + unat len
        \<and> x div unat (fm_piece_size fm) = unat p)"
proof -
  let ?ps = "unat (fm_piece_size fm)" and ?n = "unat (fm_total_pieces fm)"
    and ?a = "unat (fm_file_offset fm) + unat offset"
  obtain s e where s: "checked_add (fm_file_offset fm) offset = Some s"
    and e: "checked_add s (sat_sub len 1) = Some e"
    and nz: "fm_piece_size fm \<noteq> 0" "fm_total_pieces fm \<noteq> 0"
    and fl: "first = ucast (s div fm_piece_size fm)"
      "last' = min (ucast (e div fm_piece_size fm)) (fm_total_pieces fm - 1)"
    using assms(1) by (auto simp: pieces_for_range_def split: option.splits if_splits)
  have len: "0 < unat len"
    using assms(2) by (simp add: word_less_nat_alt)
  have su: "unat s = ?a" and eu: "unat e = ?a + (unat len - 1)"
    using checked_add_Some [OF s] checked_add_Some [OF e] by (simp_all add: unat_sat_sub)
  have ps: "0 < ?ps"
    using nz(1) by (simp add: unat_gt_0)
  have less: "?a div ?ps < ?n" "(?a + (unat len - 1)) div ?ps < ?n"
    using assms(3) len by (auto intro!: less_mult_imp_div_less)
  then have small: "?a div ?ps < 2 ^ 32" "(?a + (unat len - 1)) div ?ps < 2 ^ 32"
    using unat_less_exp [of "fm_total_pieces fm"] by simp_all
  have f: "unat first = ?a div ?ps"
    using small(1) by (simp add: fl unsigned_ucast_eq take_bit_nat_eq_self unat_div su)
  have "unat (ucast (e div fm_piece_size fm) :: u32) = (?a + (unat len - 1)) div ?ps"
    using small(2) by (simp add: unsigned_ucast_eq take_bit_nat_eq_self unat_div eu)
  moreover have "unat (fm_total_pieces fm - 1) = ?n - 1"
    using nz(2) by (simp add: unat_minus_one)
  ultimately have l: "unat last' = (?a + (unat len - 1)) div ?ps"
    using less(2) by (auto simp: fl min_def word_le_nat_alt)
  show ?thesis
  proof
    assume p: "first \<le> p \<and> p \<le> last'"
    let ?x = "max ?a (unat p * ?ps)"
    have lo: "?a div ?ps \<le> unat p" and hi: "unat p \<le> (?a + (unat len - 1)) div ?ps"
      using p f l by (simp_all add: word_le_nat_alt)
    have "unat p * ?ps \<le> ?a + (unat len - 1)"
      using hi by (metis div_times_less_eq_dividend mult_le_mono1 order_trans)
    moreover have "?a < (unat p + 1) * ?ps"
      using lo ps by (metis Suc_eq_plus1 div_less_iff_less_mult le_imp_less_Suc)
    then have "?x div ?ps = unat p"
      using ps by (intro div_nat_eqI) (auto simp: max_def mult.commute)
    ultimately show "\<exists>x. ?a \<le> x \<and> x < ?a + unat len \<and> x div ?ps = unat p"
      using len by (intro exI [of _ ?x]) auto
  next
    assume "\<exists>x. ?a \<le> x \<and> x < ?a + unat len \<and> x div ?ps = unat p"
    then obtain x where x: "?a \<le> x" "x \<le> ?a + (unat len - 1)" "x div ?ps = unat p"
      using len by auto
    then have "?a div ?ps \<le> unat p" "unat p \<le> (?a + (unat len - 1)) div ?ps"
      using div_le_mono [OF x(1), of ?ps] div_le_mono [OF x(2), of ?ps] by simp_all
    with f l show "first \<le> p \<and> p \<le> last'"
      by (simp add: word_le_nat_alt)
  qed
qed

section \<open>Peers by their distance to the playhead\<close>

datatype peer_priority = PrioNone | PrioLow | PrioMedium | PrioHigh

fun peer_priority_rank :: "peer_priority \<Rightarrow> nat" where
  "peer_priority_rank PrioNone = 0"
| "peer_priority_rank PrioLow = 1"
| "peer_priority_rank PrioMedium = 2"
| "peer_priority_rank PrioHigh = 3"

lemma peer_priority_rank_inject: "peer_priority_rank a = peer_priority_rank b \<Longrightarrow> a = b"
  by (cases a; cases b) simp_all

instantiation peer_priority :: linorder
begin

definition less_eq_peer_priority :: "peer_priority \<Rightarrow> peer_priority \<Rightarrow> bool" where
  "less_eq_peer_priority a b \<longleftrightarrow> peer_priority_rank a \<le> peer_priority_rank b"

definition less_peer_priority :: "peer_priority \<Rightarrow> peer_priority \<Rightarrow> bool" where
  "less_peer_priority a b \<longleftrightarrow> peer_priority_rank a < peer_priority_rank b"

instance
  by standard (auto simp: less_eq_peer_priority_def less_peer_priority_def
      intro: peer_priority_rank_inject)

end

definition evaluate_peer_priority :: "u32 list \<Rightarrow> u32 \<Rightarrow> u32 \<Rightarrow> peer_priority" where
  "evaluate_peer_priority peer_pieces playhead prebuffer_end =
     (let (has_playhead, has_prebuffer, has_any) =
        fold (\<lambda>piece (a, b, c). (a \<or> piece = playhead,
            b \<or> piece > playhead \<and> piece \<le> prebuffer_end, True)) peer_pieces (False, False, False)
      in if has_playhead then PrioHigh
         else if has_prebuffer then PrioMedium
         else if has_any then PrioLow
         else PrioNone)"

lemma fold_flags:
  "fold (\<lambda>piece (a, b, c). (a \<or> P piece, b \<or> Q piece, True)) ps (a, b, c)
     = (a \<or> (\<exists>p \<in> set ps. P p), b \<or> (\<exists>p \<in> set ps. Q p), c \<or> ps \<noteq> [])"
  by (induction ps arbitrary: a b c) auto

lemma evaluate_peer_priority_eq:
  "evaluate_peer_priority ps playhead e =
     (if playhead \<in> set ps then PrioHigh
      else if \<exists>p \<in> set ps. playhead < p \<and> p \<le> e then PrioMedium
      else if ps \<noteq> [] then PrioLow else PrioNone)"
  by (auto simp: evaluate_peer_priority_def fold_flags)

section \<open>Properties\<close>

text \<open>
  Inserting a range makes exactly its bytes available. From a map whose ranges are non-empty
  and separated by gaps, \<open>insert\<close> yields such a map again, and a byte is available in it exactly
  when it was before or lies in the range, however many ranges had to be coalesced.
\<close>
theorem byte_range_insert_correct:
  assumes "separated (bm_ranges m)"
  shows "separated (bm_ranges (bm_insert rng m))
    \<and> available (bm_insert rng m) = available m \<union> {x. br_start rng \<le> x \<and> x < br_end rng}"
  using bm_insert_correct [OF assms, where rng = rng] by (auto simp: covers_pos_def)

theorem byte_range_insert_correct_witness:
  "let m = bm_insert \<lparr>br_start = 30, br_end = 40\<rparr> (bm_insert \<lparr>br_start = 0, br_end = 10\<rparr> (bm_new 50))
   in separated (bm_ranges (bm_insert \<lparr>br_start = 10, br_end = 30\<rparr> m))
    \<and> available (bm_insert \<lparr>br_start = 10, br_end = 30\<rparr> m) = available m \<union> {x. 10 \<le> x \<and> x < 30}"
  using byte_range_insert_correct [of "bm_insert \<lparr>br_start = 30, br_end = 40\<rparr>
      (bm_insert \<lparr>br_start = 0, br_end = 10\<rparr> (bm_new 50))" "\<lparr>br_start = 10, br_end = 30\<rparr>"]
    bm_insert_correct(1) [OF bm_insert_correct(1)]
  by (simp add: bm_new_def separated_def Let_def)

text \<open>
  The queries of the streaming reader mean what they say on a map with separated ranges: a
  range is reported present exactly when each of its bytes is available, the contiguous bytes from
  an offset are available and the next one is not, and the first gap is the first missing byte of
  the file at or after the offset.
\<close>
theorem byte_range_queries_correct:
  assumes "separated (bm_ranges m)"
  shows "(len \<noteq> 0 \<and> checked_add offset len = Some e \<longrightarrow>
      has_range m offset len = (\<forall>x. offset \<le> x \<and> x < e \<longrightarrow> x \<in> available m))
    \<and> offset + contiguous_from m offset \<notin> available m
    \<and> (\<forall>x. offset \<le> x \<and> x < offset + contiguous_from m offset \<longrightarrow> x \<in> available m)
    \<and> (case first_gap_from m offset of
         None \<Rightarrow> \<forall>x. offset \<le> x \<and> x < bm_file_size m \<longrightarrow> x \<in> available m
       | Some g \<Rightarrow> offset \<le> g \<and> g < bm_file_size m \<and> g \<notin> available m
           \<and> (\<forall>x. offset \<le> x \<and> x < g \<longrightarrow> x \<in> available m))
    \<and> unat (available_bytes m) = card (available m)"
proof -
  have "available_bytes m = sum_list (map br_len (bm_ranges m))" "m\<lparr>bm_ranges := bm_ranges m\<rparr> = m"
    by (simp_all add: available_bytes_def)
  with available_bytes_card [OF assms, of m] have "unat (available_bytes m) = card (available m)"
    by simp
  with has_range_iff [OF assms, of len offset e] contiguous_from_correct [OF assms, of offset]
    first_gap_Some [OF assms, of offset] first_gap_None [of m offset]
  show ?thesis
    by (auto split: option.split)
qed

theorem byte_range_queries_correct_witness:
  "let m = bm_insert \<lparr>br_start = 5, br_end = 10\<rparr> (bm_new 50) in
    ((3 :: u64) \<noteq> 0 \<and> checked_add (6 :: u64) 3 = Some 9 \<longrightarrow>
      has_range m 6 3 = (\<forall>x. 6 \<le> x \<and> x < 9 \<longrightarrow> x \<in> available m))
    \<and> 6 + contiguous_from m 6 \<notin> available m
    \<and> (\<forall>x. 6 \<le> x \<and> x < 6 + contiguous_from m 6 \<longrightarrow> x \<in> available m)
    \<and> (case first_gap_from m 6 of
         None \<Rightarrow> \<forall>x. 6 \<le> x \<and> x < bm_file_size m \<longrightarrow> x \<in> available m
       | Some g \<Rightarrow> 6 \<le> g \<and> g < bm_file_size m \<and> g \<notin> available m
           \<and> (\<forall>x. 6 \<le> x \<and> x < g \<longrightarrow> x \<in> available m))
    \<and> unat (available_bytes m) = card (available m)"
  unfolding Let_def
  by (rule byte_range_queries_correct, rule bm_insert_correct) (simp add: bm_new_def separated_def)

text \<open>
  A non-empty file is complete exactly when every byte of it is available, for a map with
  separated ranges inside the file.
\<close>
theorem byte_range_complete_iff:
  assumes "separated (bm_ranges m)" and "list_all (\<lambda>r. br_end r \<le> bm_file_size m) (bm_ranges m)"
    and "0 < bm_file_size m"
  shows "bm_is_complete m \<longleftrightarrow> (\<forall>x. x < bm_file_size m \<longrightarrow> x \<in> available m)"
  using is_complete_iff [OF assms] by blast

theorem byte_range_complete_iff_witness:
  "bm_is_complete (fully_available 7) \<longleftrightarrow>
     (\<forall>x. x < bm_file_size (fully_available 7) \<longrightarrow> x \<in> available (fully_available 7))"
  by (rule byte_range_complete_iff) (simp_all add: fully_available_def bm_new_def separated_def)

text \<open>
  An empty file is never complete. The map that \<open>fully_available\<close> builds for a file of size zero
  has no range and reports that the file is incomplete, although no byte of it is missing and there
  is no gap from offset zero on.
\<close>
theorem empty_file_never_complete:
  "\<not> bm_is_complete (fully_available 0) \<and> first_gap_from (fully_available 0) 0 = None
   \<and> \<not> bm_is_complete (bm_insert \<lparr>br_start = 0, br_end = 0\<rparr> (fully_available 0))"
  by (simp add: fully_available_def bm_new_def bm_is_complete_def first_gap_from_def bm_insert_def
      br_is_empty_def)

text \<open>
  A read asks for exactly the pieces it needs. For a non-empty range inside the torrent a piece
  is between the two pieces that \<open>pieces_for_range\<close> returns exactly when it holds a byte of the range.
\<close>
theorem pieces_for_range_exact:
  assumes "pieces_for_range fm offset len = Some (first, last')" and "0 < len"
    and "unat (fm_file_offset fm) + unat offset + unat len
      \<le> unat (fm_total_pieces fm) * unat (fm_piece_size fm)"
  shows "first \<le> p \<and> p \<le> last' \<longleftrightarrow>
     (\<exists>x. unat (fm_file_offset fm) + unat offset \<le> x
        \<and> x < unat (fm_file_offset fm) + unat offset + unat len
        \<and> x div unat (fm_piece_size fm) = unat p)"
  using assms by (rule pieces_for_range_mem)

theorem pieces_for_range_exact_witness:
  "let fm = \<lparr>fm_file_offset = 50, fm_piece_size = 100, fm_total_pieces = 4, fm_file_size = 300\<rparr> in
   (0 :: u32) \<le> 1 \<and> (1 :: u32) \<le> 2 \<longleftrightarrow>
     (\<exists>x. unat (fm_file_offset fm) + unat (40 :: u64) \<le> x
        \<and> x < unat (fm_file_offset fm) + unat (40 :: u64) + unat (200 :: u64)
        \<and> x div unat (fm_piece_size fm) = unat (1 :: u32))"
  unfolding Let_def
  by (rule pieces_for_range_exact) (simp_all add: pieces_for_range_def checked_add_def sat_sub_def)

text \<open>
  A peer that announces more pieces is never ranked lower: the priority of a peer is monotone
  in the set of its pieces, in the order of the priority levels.
\<close>
theorem peer_priority_mono:
  assumes "set ps \<subseteq> set qs"
  shows "evaluate_peer_priority ps playhead e \<le> evaluate_peer_priority qs playhead e"
proof -
  have "ps \<noteq> [] \<Longrightarrow> qs \<noteq> []"
    using assms by auto
  with assms show ?thesis
    by (auto simp: evaluate_peer_priority_eq less_eq_peer_priority_def)
qed

theorem peer_priority_mono_witness:
  "evaluate_peer_priority [9] 3 6 \<le> evaluate_peer_priority [9, 5] 3 6"
  by (rule peer_priority_mono) simp

end
