(* ===== verification/Lifecycle.thy ===== *)
theory Lifecycle
  imports Decimal "HOL-Library.Sublist"
begin

text \<open>
  The two state machines of a download: \<open>DownloadStateMachine\<close> of
  \<open>crates/p2p-distribute/src/state.rs\<close> and \<open>ConnectionState\<close> of \<open>connection.rs\<close>. Each operation is
  a function from the state to its result and the new state; a rejected transition is an error
  value and leaves the state as it was. The diagrams of the documentation are stated as inductive
  relations, which the operations are compared with. An \<open>Instant\<close> is a number of nanoseconds.
\<close>

section \<open>Downloads\<close>

datatype download_state =
  DQueued
| DChecking u32
| DDownloading
| DSeeding
| DPaused download_state
| DError string
| DCompleted

fun show_state :: "download_state \<Rightarrow> string" where
  "show_state DQueued = ''queued''"
| "show_state (DChecking p) = ''checking ('' @ show_nat (unat p) @ ''%)''"
| "show_state DDownloading = ''downloading''"
| "show_state DSeeding = ''seeding''"
| "show_state (DPaused previous) = ''paused (was: '' @ show_state previous @ '')''"
| "show_state (DError message) = ''error: '' @ message"
| "show_state DCompleted = ''completed''"

record transition_error =
  te_from :: string
  te_to :: string
  te_reason :: string

definition reject :: "download_state \<Rightarrow> string \<Rightarrow> string \<Rightarrow> (transition_error + unit) \<times> download_state" where
  "reject s to reason = (Inl \<lparr>te_from = show_state s, te_to = to, te_reason = reason\<rparr>, s)"

definition dsm_new :: download_state where
  "dsm_new = DQueued"

definition start_checking :: "download_state \<Rightarrow> (transition_error + unit) \<times> download_state" where
  "start_checking s =
     (case s of
        DQueued \<Rightarrow> (Inr (), DChecking 0)
      | other \<Rightarrow> reject other ''checking'' ''can only start checking from queued state'')"

definition update_checking_progress :: "u32 \<Rightarrow> download_state \<Rightarrow> download_state" where
  "update_checking_progress progress s =
     (case s of DChecking _ \<Rightarrow> DChecking (min progress 100) | _ \<Rightarrow> s)"

definition start_downloading :: "download_state \<Rightarrow> (transition_error + unit) \<times> download_state" where
  "start_downloading s =
     (case s of
        DQueued \<Rightarrow> (Inr (), DDownloading)
      | DChecking _ \<Rightarrow> (Inr (), DDownloading)
      | DPaused DDownloading \<Rightarrow> (Inr (), DDownloading)
      | other \<Rightarrow> reject other ''downloading''
          ''can only start downloading from queued, checking, or paused(downloading)'')"

definition start_seeding :: "download_state \<Rightarrow> (transition_error + unit) \<times> download_state" where
  "start_seeding s =
     (case s of
        DDownloading \<Rightarrow> (Inr (), DSeeding)
      | other \<Rightarrow> reject other ''seeding'' ''can only start seeding from downloading'')"

definition dsm_pause :: "download_state \<Rightarrow> (transition_error + unit) \<times> download_state" where
  "dsm_pause s =
     (case s of
        DQueued \<Rightarrow> (Inr (), DPaused s)
      | DChecking _ \<Rightarrow> (Inr (), DPaused s)
      | DDownloading \<Rightarrow> (Inr (), DPaused s)
      | DSeeding \<Rightarrow> (Inr (), DPaused s)
      | DPaused _ \<Rightarrow>
          (Inl \<lparr>te_from = ''paused'', te_to = ''paused'', te_reason = ''already paused''\<rparr>, s)
      | other \<Rightarrow> reject other ''paused'' ''cannot pause from a terminal state'')"

definition dsm_resume :: "download_state \<Rightarrow> (transition_error + unit) \<times> download_state" where
  "dsm_resume s =
     (case s of
        DPaused previous \<Rightarrow> (Inr (), previous)
      | other \<Rightarrow> reject other ''resume'' ''can only resume from paused state'')"

definition dsm_fail :: "string \<Rightarrow> download_state \<Rightarrow> download_state" where
  "dsm_fail message s = DError message"

definition dsm_complete :: "download_state \<Rightarrow> (transition_error + unit) \<times> download_state" where
  "dsm_complete s =
     (case s of
        DDownloading \<Rightarrow> (Inr (), DCompleted)
      | DSeeding \<Rightarrow> (Inr (), DCompleted)
      | other \<Rightarrow> reject other ''completed'' ''can only complete from downloading or seeding'')"

definition dsm_is_terminal :: "download_state \<Rightarrow> bool" where
  "dsm_is_terminal s \<longleftrightarrow> (case s of DError _ \<Rightarrow> True | DCompleted \<Rightarrow> True | _ \<Rightarrow> False)"

definition dsm_is_active :: "download_state \<Rightarrow> bool" where
  "dsm_is_active s \<longleftrightarrow> s = DDownloading \<or> s = DSeeding"

datatype dsm_call =
  StartChecking | Progress u32 | StartDownloading | StartSeeding | Pause | Resume
| Fail string | Complete

fun dsm_step :: "dsm_call \<Rightarrow> download_state \<Rightarrow> (transition_error + unit) \<times> download_state" where
  "dsm_step StartChecking s = start_checking s"
| "dsm_step (Progress p) s = (Inr (), update_checking_progress p s)"
| "dsm_step StartDownloading s = start_downloading s"
| "dsm_step StartSeeding s = start_seeding s"
| "dsm_step Pause s = dsm_pause s"
| "dsm_step Resume s = dsm_resume s"
| "dsm_step (Fail m) s = (Inr (), dsm_fail m s)"
| "dsm_step Complete s = dsm_complete s"

text \<open>The diagram of the documentation, with the failure edge the code has from every state.\<close>

inductive diagram :: "download_state \<Rightarrow> download_state \<Rightarrow> bool" where
  check: "diagram DQueued (DChecking 0)"
| progress: "p \<le> 100 \<Longrightarrow> diagram (DChecking q) (DChecking p)"
| download: "s = DQueued \<or> (\<exists>p. s = DChecking p) \<Longrightarrow> diagram s DDownloading"
| seed: "diagram DDownloading DSeeding"
| complete: "dsm_is_active s \<Longrightarrow> diagram s DCompleted"
| pause: "s = DQueued \<or> (\<exists>p. s = DChecking p) \<or> dsm_is_active s \<Longrightarrow> diagram s (DPaused s)"
| resume: "diagram (DPaused s) s"
| fail: "diagram s (DError m)"

inductive_cases diagram_to_completed: "diagram s DCompleted"
inductive_simps diagram_from_completed: "diagram DCompleted t"

text \<open>The states a machine reaches: a pause remembers a state that can be paused.\<close>

definition pausable :: "download_state \<Rightarrow> bool" where
  "pausable s \<longleftrightarrow> (case s of DQueued \<Rightarrow> True | DChecking p \<Rightarrow> p \<le> 100 | DDownloading \<Rightarrow> True
     | DSeeding \<Rightarrow> True | _ \<Rightarrow> False)"

definition dsm_inv :: "download_state \<Rightarrow> bool" where
  "dsm_inv s \<longleftrightarrow> (case s of DPaused p \<Rightarrow> pausable p | DError _ \<Rightarrow> True | DCompleted \<Rightarrow> True
     | _ \<Rightarrow> pausable s)"

lemmas dsm_defs = start_checking_def update_checking_progress_def start_downloading_def
  start_seeding_def dsm_pause_def dsm_resume_def dsm_fail_def dsm_complete_def reject_def

lemma dsm_inv_step: "dsm_inv s \<Longrightarrow> dsm_inv (snd (dsm_step c s))"
  by (cases c) (auto simp: dsm_defs dsm_inv_def pausable_def split: download_state.splits)

interpretation download: step_system "{dsm_new}" "\<lambda>c s. snd (dsm_step c s)" dsm_inv
proof unfold_locales
  show "dsm_inv s" if "s \<in> {dsm_new}" for s
    using that by (simp add: dsm_new_def dsm_inv_def pausable_def)
qed (rule dsm_inv_step)

lemma dsm_step_diagram:
  assumes "dsm_step c s = (Inr (), t)"
  shows "s = t \<or> diagram s t"
  using assms
  by (cases c; cases s)
    (auto simp: dsm_defs dsm_is_active_def intro!: diagram.intros split: download_state.splits)

lemma dsm_step_rejected: "dsm_step c s = (Inl e, t) \<Longrightarrow> t = s"
  by (cases c) (auto simp: dsm_defs split: download_state.splits)

section \<open>Connections\<close>

datatype close_reason =
  CloseNormal | HandshakeTimeout | InfoHashMismatch | ProtocolError | RemoteClosed | CloseIoError
| KeepAliveTimeout

datatype connection_phase =
  Connecting | Handshaking | BitfieldExchange | Ready | Closing close_reason | Closed

fun show_reason :: "close_reason \<Rightarrow> string" where
  "show_reason CloseNormal = ''normal shutdown''"
| "show_reason HandshakeTimeout = ''handshake timeout''"
| "show_reason InfoHashMismatch = ''info hash mismatch''"
| "show_reason ProtocolError = ''protocol error''"
| "show_reason RemoteClosed = ''remote closed''"
| "show_reason CloseIoError = ''I/O error''"
| "show_reason KeepAliveTimeout = ''keep-alive timeout''"

fun show_phase :: "connection_phase \<Rightarrow> string" where
  "show_phase Connecting = ''connecting''"
| "show_phase Handshaking = ''handshaking''"
| "show_phase BitfieldExchange = ''bitfield exchange''"
| "show_phase Ready = ''ready''"
| "show_phase (Closing r) = ''closing ('' @ show_reason r @ '')''"
| "show_phase Closed = ''closed''"

datatype connection_error = InvalidTransition string string

record connection =
  cn_phase :: connection_phase
  cn_created_at :: nat
  cn_last_transition :: nat
  cn_last_message :: nat
  cn_am_choking :: bool
  cn_am_interested :: bool
  cn_peer_choking :: bool
  cn_peer_interested :: bool
  cn_fast_extension :: bool

definition cn_new :: "nat \<Rightarrow> connection" where
  "cn_new now =
     \<lparr>cn_phase = Connecting, cn_created_at = now, cn_last_transition = now, cn_last_message = now,
      cn_am_choking = True, cn_am_interested = False, cn_peer_choking = True,
      cn_peer_interested = False, cn_fast_extension = False\<rparr>"

definition cn_is_terminal :: "connection \<Rightarrow> bool" where
  "cn_is_terminal c \<longleftrightarrow> (case cn_phase c of Closing _ \<Rightarrow> True | Closed \<Rightarrow> True | _ \<Rightarrow> False)"

definition cn_is_ready :: "connection \<Rightarrow> bool" where
  "cn_is_ready c \<longleftrightarrow> cn_phase c = Ready"

text \<open>A transition to \<open>target\<close> with its guard, and the name the error gives to the target.\<close>

definition cn_goto ::
  "bool \<Rightarrow> connection_phase \<Rightarrow> string \<Rightarrow> nat \<Rightarrow> connection \<Rightarrow> (connection_error + unit) \<times> connection"
where
  "cn_goto ok target name now c =
     (if \<not> ok then (Inl (InvalidTransition (show_phase (cn_phase c)) name), c)
      else (Inr (), c\<lparr>cn_phase := target, cn_last_transition := now\<rparr>))"

definition to_handshaking :: "nat \<Rightarrow> connection \<Rightarrow> (connection_error + unit) \<times> connection" where
  "to_handshaking now c = cn_goto (cn_phase c = Connecting) Handshaking ''handshaking'' now c"

definition to_bitfield_exchange :: "nat \<Rightarrow> connection \<Rightarrow> (connection_error + unit) \<times> connection" where
  "to_bitfield_exchange now c =
     cn_goto (cn_phase c = Handshaking) BitfieldExchange ''bitfield exchange'' now c"

definition to_ready :: "nat \<Rightarrow> connection \<Rightarrow> (connection_error + unit) \<times> connection" where
  "to_ready now c = cn_goto (cn_phase c = BitfieldExchange) Ready ''ready'' now c"

definition to_closing ::
  "close_reason \<Rightarrow> nat \<Rightarrow> connection \<Rightarrow> (connection_error + unit) \<times> connection"
where
  "to_closing reason now c = cn_goto (\<not> cn_is_terminal c) (Closing reason) ''closing'' now c"

definition to_closed :: "nat \<Rightarrow> connection \<Rightarrow> (connection_error + unit) \<times> connection" where
  "to_closed now c =
     cn_goto (case cn_phase c of Closing _ \<Rightarrow> True | _ \<Rightarrow> False) Closed ''closed'' now c"

definition can_request :: "connection \<Rightarrow> bool" where
  "can_request c \<longleftrightarrow> cn_is_ready c \<and> \<not> cn_peer_choking c \<and> cn_am_interested c"

definition can_serve :: "connection \<Rightarrow> bool" where
  "can_serve c \<longleftrightarrow> cn_is_ready c \<and> \<not> cn_am_choking c \<and> cn_peer_interested c"

definition secs_since :: "nat \<Rightarrow> nat \<Rightarrow> nat" where
  "secs_since now before = (now - before) div 1000000000"

definition is_handshake_timed_out :: "nat \<Rightarrow> connection \<Rightarrow> bool" where
  "is_handshake_timed_out now c \<longleftrightarrow>
     (cn_phase c = Connecting \<or> cn_phase c = Handshaking) \<and> secs_since now (cn_created_at c) > 30"

definition is_keepalive_timed_out :: "nat \<Rightarrow> connection \<Rightarrow> bool" where
  "is_keepalive_timed_out now c \<longleftrightarrow>
     cn_is_ready c \<and> secs_since now (cn_last_message c) > 120 * 2"

datatype cn_call =
  ToHandshaking nat | ToBitfield nat | ToReady nat | ToClosing close_reason nat | ToClosed nat
| SetAmChoking bool | SetAmInterested bool | SetPeerChoking bool | SetPeerInterested bool
| SetFast bool | MessageReceived nat

fun cn_step :: "cn_call \<Rightarrow> connection \<Rightarrow> (connection_error + unit) \<times> connection" where
  "cn_step (ToHandshaking now) c = to_handshaking now c"
| "cn_step (ToBitfield now) c = to_bitfield_exchange now c"
| "cn_step (ToReady now) c = to_ready now c"
| "cn_step (ToClosing r now) c = to_closing r now c"
| "cn_step (ToClosed now) c = to_closed now c"
| "cn_step (SetAmChoking b) c = (Inr (), c\<lparr>cn_am_choking := b\<rparr>)"
| "cn_step (SetAmInterested b) c = (Inr (), c\<lparr>cn_am_interested := b\<rparr>)"
| "cn_step (SetPeerChoking b) c = (Inr (), c\<lparr>cn_peer_choking := b\<rparr>)"
| "cn_step (SetPeerInterested b) c = (Inr (), c\<lparr>cn_peer_interested := b\<rparr>)"
| "cn_step (SetFast b) c = (Inr (), c\<lparr>cn_fast_extension := b\<rparr>)"
| "cn_step (MessageReceived now) c = (Inr (), c\<lparr>cn_last_message := now\<rparr>)"

lemmas cn_defs = to_handshaking_def to_bitfield_exchange_def to_ready_def to_closing_def
  to_closed_def cn_goto_def

fun phase_rank :: "connection_phase \<Rightarrow> nat" where
  "phase_rank Connecting = 0"
| "phase_rank Handshaking = 1"
| "phase_rank BitfieldExchange = 2"
| "phase_rank Ready = 3"
| "phase_rank (Closing r) = 4"
| "phase_rank Closed = 5"

lemma phase_rank_step: "phase_rank (cn_phase c) \<le> phase_rank (cn_phase (snd (cn_step call c)))"
  by (cases call; cases "cn_phase c") (auto simp: cn_defs cn_is_terminal_def)

abbreviation cn_run :: "cn_call list \<Rightarrow> connection \<Rightarrow> connection" where
  "cn_run calls c \<equiv> fold (\<lambda>call c. snd (cn_step call c)) calls c"

lemma phase_rank_run: "phase_rank (cn_phase c) \<le> phase_rank (cn_phase (cn_run calls c))"
proof (induction calls arbitrary: c)
  case Nil
  then show ?case by simp
next
  case (Cons call calls)
  then show ?case
    using order_trans [OF phase_rank_step] by fastforce
qed

lemma phase_step:
  "cn_phase (snd (cn_step call c)) = p \<Longrightarrow> p \<noteq> cn_phase c \<Longrightarrow>
     (p = Handshaking \<longrightarrow> cn_phase c = Connecting \<and> (\<exists>t. call = ToHandshaking t))
   \<and> (p = BitfieldExchange \<longrightarrow> cn_phase c = Handshaking \<and> (\<exists>t. call = ToBitfield t))
   \<and> (p = Ready \<longrightarrow> cn_phase c = BitfieldExchange \<and> (\<exists>t. call = ToReady t))"
  by (cases call) (auto simp: cn_defs split: if_splits)

text \<open>What a history must contain for the connection to be in a phase.\<close>

lemma subseq_snoc: "subseq xs ys \<Longrightarrow> subseq xs (ys @ [y])"
  using list_emb_append2 by (metis subseq_order.order_refl subseq_order.trans subseq_rev_drop_many)

lemma phase_history:
  shows "cn_phase (cn_run calls (cn_new t)) = Handshaking \<Longrightarrow> \<exists>t1. subseq [ToHandshaking t1] calls"
    and "cn_phase (cn_run calls (cn_new t)) = BitfieldExchange \<Longrightarrow>
      \<exists>t1 t2. subseq [ToHandshaking t1, ToBitfield t2] calls"
    and "cn_phase (cn_run calls (cn_new t)) = Ready \<Longrightarrow>
      \<exists>t1 t2 t3. subseq [ToHandshaking t1, ToBitfield t2, ToReady t3] calls"
proof (induction calls rule: rev_induct)
  case Nil
  {
    case 1 then show ?case by (simp add: cn_new_def)
  next
    case 2 then show ?case by (simp add: cn_new_def)
  next
    case 3 then show ?case by (simp add: cn_new_def)
  }
next
  case (snoc call calls)
  let ?c = "cn_run calls (cn_new t)"
  have app: "subseq (xs @ [call]) (calls @ [call])" if "subseq xs calls" for xs
    using that by (simp add: list_emb_append_mono)
  {
    case 1
    show ?case
    proof (cases "cn_phase ?c = Handshaking")
      case True
      with snoc.IH(1) show ?thesis by (blast intro: subseq_snoc)
    next
      case False
      with 1 phase_step [of call ?c Handshaking] obtain t1 where "call = ToHandshaking t1"
        by auto
      with app [of "[]"] show ?thesis by auto
    qed
  next
    case 2
    show ?case
    proof (cases "cn_phase ?c = BitfieldExchange")
      case True
      with snoc.IH(2) show ?thesis by (blast intro: subseq_snoc)
    next
      case False
      with 2 phase_step [of call ?c BitfieldExchange] snoc.IH(1)
      obtain t1 t2 where "subseq [ToHandshaking t1] calls" "call = ToBitfield t2"
        by auto
      with app show ?thesis by fastforce
    qed
  next
    case 3
    show ?case
    proof (cases "cn_phase ?c = Ready")
      case True
      with snoc.IH(3) show ?thesis by (blast intro: subseq_snoc)
    next
      case False
      with 3 phase_step [of call ?c Ready] snoc.IH(2)
      obtain t1 t2 t3 where "subseq [ToHandshaking t1, ToBitfield t2] calls" "call = ToReady t3"
        by auto
      with app show ?thesis by fastforce
    qed
  }
qed

section \<open>Properties\<close>

text \<open>
  The download machine follows its diagram. In every state a new machine reaches, a call that
  succeeds either leaves the state or takes an edge of the documented diagram, a rejected call
  changes nothing, progress stays at most 100, and a pause remembers a state that is neither
  paused nor terminal.
\<close>
theorem download_follows_diagram:
  "let s = fold (\<lambda>c s. snd (dsm_step c s)) calls dsm_new
   in dsm_inv s
      \<and> (case dsm_step c s of (Inr _, t) \<Rightarrow> s = t \<or> diagram s t | (Inl e, t) \<Rightarrow> t = s)"
proof -
  have "dsm_inv (fold (\<lambda>c s. snd (dsm_step c s)) calls dsm_new)"
    by (rule download.inv_fold) (simp add: dsm_new_def dsm_inv_def pausable_def)
  then show ?thesis
    using dsm_step_diagram [of c] dsm_step_rejected [of c]
    by (auto simp: Let_def split: prod.split sum.split)
qed

text \<open>
  Pausing loses nothing. Whatever state can be paused is exactly the state the resume returns
  to, and a paused machine cannot be paused again.
\<close>
theorem pause_resume_restores:
  assumes "dsm_pause s = (Inr (), t)"
  shows "dsm_resume t = (Inr (), s) \<and> (\<exists>e. dsm_pause t = (Inl e, t))"
  using assms by (auto simp: dsm_defs split: download_state.splits)

theorem pause_resume_restores_witness:
  "dsm_resume (DPaused (DChecking 40)) = (Inr (), DChecking 40)
   \<and> (\<exists>e. dsm_pause (DPaused (DChecking 40)) = (Inl e, DPaused (DChecking 40)))"
  by (rule pause_resume_restores) (simp add: dsm_pause_def)

text \<open>
  The terminal state is not terminal. \<open>Completed\<close> is documented as the terminal state, and no
  other call leaves it, but \<open>fail\<close> does not look at the state and turns a completed download into a
  failed one.
\<close>
theorem completed_can_fail:
  "dsm_is_terminal DCompleted \<and> dsm_step (Fail m) DCompleted = (Inr (), DError m)
   \<and> (snd (dsm_step c DCompleted) \<noteq> DCompleted \<longleftrightarrow> (\<exists>m. c = Fail m))"
  by (cases c) (simp_all add: dsm_defs dsm_is_terminal_def)

text \<open>
  A connection is ready only after the handshake. If any history of calls leaves a new
  connection ready, it contains the transitions to the handshake, to the bitfield exchange and to
  the ready phase in this order; and no history brings a closing or closed connection back, so
  \<open>can_request\<close> and \<open>can_serve\<close> stay false for it.
\<close>
theorem connection_ready_after_handshake:
  "(cn_is_ready (fold (\<lambda>call c. snd (cn_step call c)) calls (cn_new t)) \<longrightarrow>
      (\<exists>t1 t2 t3. subseq [ToHandshaking t1, ToBitfield t2, ToReady t3] calls))
   \<and> (cn_is_terminal c \<longrightarrow>
      cn_is_terminal (cn_run calls c) \<and> \<not> can_request (cn_run calls c) \<and> \<not> can_serve (cn_run calls c))"
proof -
  have terminal: "cn_is_terminal d \<longleftrightarrow> 4 \<le> phase_rank (cn_phase d)" for d
    by (cases "cn_phase d") (simp_all add: cn_is_terminal_def)
  have "cn_is_terminal d \<Longrightarrow> \<not> cn_is_ready d" for d
    by (auto simp: cn_is_terminal_def cn_is_ready_def)
  then show ?thesis
    using phase_history(3) [of calls t] phase_rank_run [of c calls] terminal
    by (auto simp: cn_is_ready_def can_request_def can_serve_def dest: order_trans)
qed

theorem connection_ready_after_handshake_witness:
  "(\<exists>t1 t2 t3. subseq [ToHandshaking t1, ToBitfield t2, ToReady t3]
      [ToHandshaking 1, SetFast True, ToBitfield 2, ToReady 3])
   \<and> cn_is_terminal (cn_run [ToHandshaking 1, SetFast True, ToBitfield 2, ToReady 3]
       (snd (to_closing CloseNormal 5 (cn_new 0))))"
proof -
  let ?calls = "[ToHandshaking 1, SetFast True, ToBitfield 2, ToReady 3]"
  have "cn_is_ready (fold (\<lambda>call c. snd (cn_step call c)) ?calls (cn_new 0))"
    by (simp add: cn_is_ready_def cn_defs cn_new_def)
  moreover have "cn_is_terminal (snd (to_closing CloseNormal 5 (cn_new 0)))"
    by (simp add: cn_is_terminal_def cn_defs cn_new_def)
  ultimately show ?thesis
    using connection_ready_after_handshake [of ?calls 0 "snd (to_closing CloseNormal 5 (cn_new 0))"]
    by blast
qed

end
