(* ===== verification/UploadQueue.thy ===== *)
theory UploadQueue
  imports Prelude
begin

text \<open>
  Upload slots, \<open>crates/p2p-distribute/src/upload_queue.rs\<close>: \<open>UploadQueue\<close> with its active slots and
  its waiting line. A peer identity is any type with equality; an \<open>Instant\<close> is a number of
  nanoseconds. The interface \<open>fifo_line\<close> states the discipline of the waiting line.
\<close>

section \<open>Operations\<close>

datatype slot_result =
  Granted
| Queued nat nat
| QueueFull nat

record 'p queue_entry =
  qu_peer :: 'p
  qu_queued_at :: nat

record 'p upload_queue =
  uq_max_slots :: nat
  uq_max_queue :: nat
  uq_active :: "'p list"
  uq_waiting :: "'p queue_entry list"

definition uq_new :: "nat \<Rightarrow> nat \<Rightarrow> 'p upload_queue" where
  "uq_new max_slots max_queue =
     \<lparr>uq_max_slots = max_slots, uq_max_queue = max_queue, uq_active = [], uq_waiting = []\<rparr>"

definition request_slot :: "'p \<Rightarrow> nat \<Rightarrow> 'p upload_queue \<Rightarrow> slot_result \<times> 'p upload_queue" where
  "request_slot p now q =
     (if p \<in> set (uq_active q) then (Granted, q)
      else case position (\<lambda>e. qu_peer e = p) (uq_waiting q) of
        Some pos \<Rightarrow> (Queued (sat_add_usize pos 1) pos, q)
      | None \<Rightarrow>
          if length (uq_active q) < uq_max_slots q
          then (Granted, q\<lparr>uq_active := uq_active q @ [p]\<rparr>)
          else if length (uq_waiting q) < uq_max_queue q
          then
            let waiting = uq_waiting q @ [\<lparr>qu_peer = p, qu_queued_at = now\<rparr>];
                pos = length waiting
            in (Queued pos (pos - 1), q\<lparr>uq_waiting := waiting\<rparr>)
          else (QueueFull (uq_max_queue q), q))"

definition release_slot :: "'p \<Rightarrow> 'p upload_queue \<Rightarrow> 'p option \<times> 'p upload_queue" where
  "release_slot p q =
     (let active = (case position (\<lambda>x. x = p) (uq_active q) of
                      None \<Rightarrow> uq_active q
                    | Some pos \<Rightarrow> remove_at pos (uq_active q))
      in if length active < uq_max_slots q
         then (case uq_waiting q of
                 [] \<Rightarrow> (None, q\<lparr>uq_active := active\<rparr>)
               | e # rest \<Rightarrow>
                   (Some (qu_peer e), q\<lparr>uq_active := active @ [qu_peer e], uq_waiting := rest\<rparr>))
         else (None, q\<lparr>uq_active := active\<rparr>))"

definition cancel_queue :: "'p \<Rightarrow> 'p upload_queue \<Rightarrow> bool \<times> 'p upload_queue" where
  "cancel_queue p q =
     (case position (\<lambda>e. qu_peer e = p) (uq_waiting q) of
        None \<Rightarrow> (False, q)
      | Some pos \<Rightarrow> (True, q\<lparr>uq_waiting := remove_at pos (uq_waiting q)\<rparr>))"

definition queue_position :: "'p upload_queue \<Rightarrow> 'p \<Rightarrow> nat option" where
  "queue_position q p =
     map_option (\<lambda>k. sat_add_usize k 1) (position (\<lambda>e. qu_peer e = p) (uq_waiting q))"

definition uq_is_active :: "'p upload_queue \<Rightarrow> 'p \<Rightarrow> bool" where
  "uq_is_active q p \<longleftrightarrow> p \<in> set (uq_active q)"

definition evict_stale :: "nat \<Rightarrow> nat \<Rightarrow> 'p upload_queue \<Rightarrow> 'p upload_queue" where
  "evict_stale now max_wait q =
     q\<lparr>uq_waiting := filter (\<lambda>e. now - qu_queued_at e < max_wait) (uq_waiting q)\<rparr>"

datatype 'p uq_call = Request 'p nat | Release 'p | CancelQueue 'p | EvictStale nat nat

fun uq_step :: "'p uq_call \<Rightarrow> 'p upload_queue \<Rightarrow> 'p upload_queue" where
  "uq_step (Request p now) q = snd (request_slot p now q)"
| "uq_step (Release p) q = snd (release_slot p q)"
| "uq_step (CancelQueue p) q = snd (cancel_queue p q)"
| "uq_step (EvictStale now w) q = evict_stale now w q"

section \<open>Invariant\<close>

definition waiting_peers :: "'p upload_queue \<Rightarrow> 'p list" where
  "waiting_peers q = map qu_peer (uq_waiting q)"

text \<open>
  No peer appears twice, the bounds hold, and a peer waits only while every slot is taken.
\<close>

definition uq_inv :: "'p upload_queue \<Rightarrow> bool" where
  "uq_inv q \<longleftrightarrow> distinct (uq_active q @ waiting_peers q)
     \<and> length (uq_active q) \<le> uq_max_slots q \<and> length (uq_waiting q) \<le> uq_max_queue q
     \<and> (uq_waiting q \<noteq> [] \<longrightarrow> length (uq_active q) = uq_max_slots q)"

lemma waiting_position_None:
  "position (\<lambda>e. qu_peer e = p) (uq_waiting q) = None \<longleftrightarrow> p \<notin> set (waiting_peers q)"
  by (auto simp: position_None waiting_peers_def)

lemma length_remove_at_Suc: "i < length xs \<Longrightarrow> Suc (length (remove_at i xs)) = length xs"
  by (simp add: length_remove_at)

lemma uq_inv_request: "uq_inv q \<Longrightarrow> uq_inv (snd (request_slot p now q))"
  using waiting_position_None [of p q]
  by (auto simp: request_slot_def uq_inv_def waiting_peers_def Let_def split: option.split)

lemma uq_inv_release:
  assumes inv: "uq_inv q"
  shows "uq_inv (snd (release_slot p q))"
proof -
  define active where "active = (case position (\<lambda>x. x = p) (uq_active q) of
      None \<Rightarrow> uq_active q | Some pos \<Rightarrow> remove_at pos (uq_active q))"
  have "set active \<subseteq> set (uq_active q)" "distinct active"
    "length active \<le> length (uq_active q)"
    using inv position_Some_less [of "\<lambda>x. x = p" "uq_active q"] set_remove_at_subset
    by (auto simp: active_def uq_inv_def distinct_remove_at length_remove_at split: option.split)
  moreover have "length (uq_active q) \<le> Suc (length active)"
    using position_Some_less [of "\<lambda>x. x = p" "uq_active q"]
    by (auto simp: active_def length_remove_at_Suc split: option.split)
  ultimately show ?thesis
    using inv unfolding release_slot_def active_def [symmetric] Let_def
    by (cases "uq_waiting q") (auto simp: uq_inv_def waiting_peers_def)
qed

lemma uq_inv_cancel: "uq_inv q \<Longrightarrow> uq_inv (snd (cancel_queue p q))"
proof (cases "position (\<lambda>e. qu_peer e = p) (uq_waiting q)")
  case (Some pos)
  assume inv: "uq_inv q"
  from Some have pos: "pos < length (uq_waiting q)"
    by (rule position_Some_less)
  have "distinct (remove_at pos (waiting_peers q))" "set (remove_at pos (waiting_peers q)) \<subseteq> set (waiting_peers q)"
    using inv pos set_remove_at_subset [of pos "waiting_peers q"]
    by (simp_all add: uq_inv_def waiting_peers_def distinct_remove_at)
  with Some pos inv show ?thesis
    by (auto simp: cancel_queue_def uq_inv_def waiting_peers_def map_remove_at length_remove_at)
qed (simp add: cancel_queue_def)

lemma uq_inv_evict: "uq_inv q \<Longrightarrow> uq_inv (evict_stale now w q)"
proof -
  assume inv: "uq_inv q"
  then have "length (filter (\<lambda>e. now - qu_queued_at e < w) (uq_waiting q)) \<le> uq_max_queue q"
    by (auto simp: uq_inv_def intro: order_trans [OF length_filter_le])
  with inv show ?thesis
    by (auto simp: uq_inv_def evict_stale_def waiting_peers_def distinct_map_filter)
qed

lemma uq_inv_step: "uq_inv q \<Longrightarrow> uq_inv (uq_step c q)"
  by (cases c) (simp_all add: uq_inv_request uq_inv_release uq_inv_cancel uq_inv_evict)

lemma uq_inv_new: "uq_inv (uq_new s w)"
  by (simp add: uq_inv_def uq_new_def waiting_peers_def)

interpretation upload_queue: step_system "{q. \<exists>s w. q = uq_new s w}" uq_step uq_inv
  by unfold_locales (auto intro: uq_inv_new uq_inv_step)

section \<open>First come, first served\<close>

text \<open>
  \<open>precedes xs a b\<close>: \<open>a\<close> stands before \<open>b\<close>. As long as both wait, no operation changes their order.
\<close>

definition precedes :: "'p list \<Rightarrow> 'p \<Rightarrow> 'p \<Rightarrow> bool" where
  "precedes xs a b \<longleftrightarrow> (\<exists>us vs ws. xs = us @ a # vs @ b # ws)"

locale fifo_line =
  fixes line :: "'s \<Rightarrow> 'p list" and step :: "'op \<Rightarrow> 's \<Rightarrow> 's" and inv :: "'s \<Rightarrow> bool"
  assumes line_distinct: "inv s \<Longrightarrow> distinct (line s)"
    and inv_keep: "inv s \<Longrightarrow> inv (step c s)"
    and line_step: "inv s \<Longrightarrow> \<exists>P ys. line (step c s) = filter P (line s) @ ys \<and> set ys \<inter> set (line s) = {}"
begin

lemma order_kept:
  assumes "inv s" and "precedes (line s) a b" and "b \<in> set (line (step c s))"
    and "a \<in> set (line (step c s))"
  shows "precedes (line (step c s)) a b"
proof -
  obtain us vs ws where line: "line s = us @ a # vs @ b # ws"
    using assms(2) by (auto simp: precedes_def)
  obtain P ys where step: "line (step c s) = filter P (line s) @ ys" "set ys \<inter> set (line s) = {}"
    using line_step [OF assms(1)] by blast
  moreover have "a \<in> set (line s)" "b \<in> set (line s)"
    using line by simp_all
  ultimately have "P a" "P b"
    using assms(3,4) by auto
  then have "line (step c s) = filter P us @ a # filter P vs @ b # (filter P ws @ ys)"
    using step(1) line by simp
  then show ?thesis
    unfolding precedes_def by blast
qed

end

lemma filter_tail: "distinct xs \<Longrightarrow> tl xs = filter (\<lambda>x. x \<noteq> hd xs) xs"
  by (cases xs) (auto simp: filter_neq)

lemma remove_at_filter:
  assumes "distinct xs" and "i < length xs"
  shows "remove_at i xs = filter (\<lambda>x. x \<noteq> xs ! i) xs"
proof -
  have split: "xs = take i xs @ xs ! i # drop (Suc i) xs"
    using assms(2) by (rule id_take_nth_drop)
  with assms(1) have d: "distinct (take i xs @ xs ! i # drop (Suc i) xs)"
    by simp
  have "filter (\<lambda>x. x \<noteq> xs ! i) (take i xs @ xs ! i # drop (Suc i) xs) = take i xs @ drop (Suc i) xs"
    using d by (simp add: filter_neq)
  with split show ?thesis
    by (simp add: remove_at_def)
qed

lemma map_filter_distinct:
  assumes "distinct (map f xs)"
  shows "map f (filter F xs) = filter (\<lambda>x. \<exists>e \<in> set xs. F e \<and> f e = x) (map f xs)"
proof -
  have "filter F xs = filter ((\<lambda>x. \<exists>e \<in> set xs. F e \<and> f e = x) \<circ> f) xs"
    using assms by (intro filter_cong) (auto simp: distinct_map dest: inj_onD)
  then show ?thesis
    by (simp add: filter_map)
qed

lemma only_filtered: "ys = filter P xs \<Longrightarrow> \<exists>P zs. ys = filter P xs @ zs \<and> set zs \<inter> set xs = {}"
  by (intro exI [of _ P] exI [of _ "[]"]) simp

lemma waiting_step:
  assumes inv: "uq_inv q"
  shows "\<exists>P ys. waiting_peers (uq_step c q) = filter P (waiting_peers q) @ ys
    \<and> set ys \<inter> set (waiting_peers q) = {}"
proof (cases c)
  case (Request p now)
  show ?thesis
  proof (cases "waiting_peers (uq_step c q) = waiting_peers q")
    case True
    then show ?thesis
      by (intro exI [of _ "\<lambda>_. True"] exI [of _ "[]"]) simp
  next
    case False
    then have "waiting_peers (uq_step c q) = waiting_peers q @ [p]" "p \<notin> set (waiting_peers q)"
      using Request waiting_position_None [of p q]
      by (auto simp: request_slot_def waiting_peers_def Let_def split: option.splits if_splits)
    then show ?thesis
      by (intro exI [of _ "\<lambda>_. True"] exI [of _ "[p]"]) simp
  qed
next
  case (Release p)
  have "waiting_peers (uq_step c q) = waiting_peers q \<or> waiting_peers (uq_step c q) = tl (waiting_peers q)"
    using Release by (auto simp: release_slot_def waiting_peers_def Let_def split: list.split)
  moreover have "tl (waiting_peers q) = filter (\<lambda>x. x \<noteq> hd (waiting_peers q)) (waiting_peers q)"
    using inv by (intro filter_tail) (simp add: uq_inv_def)
  ultimately have "waiting_peers (uq_step c q) = filter (\<lambda>_. True) (waiting_peers q)
      \<or> waiting_peers (uq_step c q) = filter (\<lambda>x. x \<noteq> hd (waiting_peers q)) (waiting_peers q)"
    by simp
  then show ?thesis
    by (elim disjE) (rule only_filtered, assumption)+
next
  case (CancelQueue p)
  show ?thesis
  proof (cases "position (\<lambda>e. qu_peer e = p) (uq_waiting q)")
    case None
    with CancelQueue show ?thesis
      by (intro exI [of _ "\<lambda>_. True"] exI [of _ "[]"]) (simp add: cancel_queue_def)
  next
    case (Some pos)
    then have "pos < length (waiting_peers q)"
      by (auto simp: waiting_peers_def dest: position_Some_less)
    moreover have "distinct (waiting_peers q)"
      using inv by (simp add: uq_inv_def)
    ultimately have "waiting_peers (uq_step c q)
        = filter (\<lambda>x. x \<noteq> waiting_peers q ! pos) (waiting_peers q)"
      using CancelQueue Some by (simp add: cancel_queue_def remove_at_filter [symmetric])
        (simp add: waiting_peers_def map_remove_at)
    then show ?thesis
      by (intro exI [of _ "\<lambda>x. x \<noteq> waiting_peers q ! pos"] exI [of _ "[]"]) simp
  qed
next
  case (EvictStale now w)
  have "distinct (waiting_peers q)"
    using inv by (simp add: uq_inv_def)
  then have "waiting_peers (uq_step c q)
      = filter (\<lambda>x. \<exists>e \<in> set (uq_waiting q). now - qu_queued_at e < w \<and> qu_peer e = x) (waiting_peers q)"
    using EvictStale map_filter_distinct [of qu_peer "uq_waiting q" "\<lambda>e. now - qu_queued_at e < w"]
    by (simp add: evict_stale_def waiting_peers_def)
  then show ?thesis
    by (rule only_filtered)
qed

interpretation waiting: fifo_line waiting_peers uq_step uq_inv
proof unfold_locales
  fix q :: "'p upload_queue" and c
  assume inv: "uq_inv q"
  then show "distinct (waiting_peers q)"
    by (simp add: uq_inv_def)
  show "uq_inv (uq_step c q)"
    using inv by (rule uq_inv_step)
  show "\<exists>P ys. waiting_peers (uq_step c q) = filter P (waiting_peers q) @ ys
      \<and> set ys \<inter> set (waiting_peers q) = {}"
    using inv by (rule waiting_step)
qed

section \<open>Properties\<close>

text \<open>
  The upload slots are handed out soundly. In every state a new queue reaches by any calls no
  peer is active or waiting twice or both at once, the slots and the line keep their bounds, and
  a peer waits only while every slot is taken: no slot is idle while someone stands in line.
\<close>
theorem upload_queue_invariant:
  "let q = fold uq_step calls (uq_new slots line)
   in distinct (uq_active q @ map qu_peer (uq_waiting q))
      \<and> length (uq_active q) \<le> uq_max_slots q \<and> length (uq_waiting q) \<le> uq_max_queue q
      \<and> (uq_waiting q = [] \<or> length (uq_active q) = uq_max_slots q)"
  using upload_queue.inv_fold [OF uq_inv_new, of calls slots line]
  by (auto simp: uq_inv_def waiting_peers_def Let_def)

text \<open>
  First come, first served. While two peers both stay in line no call changes which of them is
  first: not a request, a release, a cancelled wait or an eviction of stale entries.
\<close>
theorem upload_queue_fifo:
  assumes "q = fold uq_step calls (uq_new slots line)"
    and "map qu_peer (uq_waiting q) = us @ a # vs @ b # ws"
    and "a \<in> set (map qu_peer (uq_waiting (uq_step c q)))"
    and "b \<in> set (map qu_peer (uq_waiting (uq_step c q)))"
  shows "\<exists>us' vs' ws'. map qu_peer (uq_waiting (uq_step c q)) = us' @ a # vs' @ b # ws'"
proof -
  have "uq_inv q"
    unfolding assms(1) by (rule upload_queue.inv_fold [OF uq_inv_new])
  moreover have "precedes (waiting_peers q) a b"
    using assms(2) by (auto simp: precedes_def waiting_peers_def)
  ultimately have "precedes (waiting_peers (uq_step c q)) a b"
    using assms(3,4) by (intro waiting.order_kept) (simp_all add: waiting_peers_def)
  then show ?thesis
    by (simp add: precedes_def waiting_peers_def)
qed

theorem upload_queue_fifo_witness:
  "let q = fold uq_step [Request 1 0, Request 2 0, Request 3 1, Request 4 2] (uq_new 1 5) :: nat upload_queue
   in \<exists>us vs ws. map qu_peer (uq_waiting (uq_step (Release 1) q)) = us @ 3 # vs @ 4 # ws"
proof -
  let ?q = "fold uq_step [Request 1 0, Request 2 0, Request 3 1, Request 4 2] (uq_new 1 5) :: nat upload_queue"
  have q: "?q = \<lparr>uq_max_slots = 1, uq_max_queue = 5, uq_active = [1],
      uq_waiting = [\<lparr>qu_peer = 2, qu_queued_at = 0\<rparr>, \<lparr>qu_peer = 3, qu_queued_at = 1\<rparr>,
                    \<lparr>qu_peer = 4, qu_queued_at = 2\<rparr>]\<rparr>"
    by (simp add: uq_new_def request_slot_def Let_def)
  have "\<exists>us vs ws. map qu_peer (uq_waiting (uq_step (Release 1) ?q)) = us @ 3 # vs @ 4 # ws"
    by (rule upload_queue_fifo [OF refl, of _ _ _ "[2]" _ "[]" _ "[]"])
      (unfold q, simp_all add: release_slot_def remove_at_def Let_def)
  then show ?thesis
    by (simp only: Let_def)
qed

end
