(* ===== verification/Cache.thy ===== *)
theory Cache
  imports Prelude "HOL-Library.Mapping"
begin

text \<open>
  The piece cache, \<open>crates/p2p-distribute/src/cache.rs\<close>: \<open>PieceCache\<close>, a hash map of entries beside
  a deque in the order of use. It is refined to a list of pieces in the order of their last use.
\<close>

section \<open>Operations\<close>

record cache_entry =
  ce_size_bytes :: u32
  ce_last_access :: nat

record piece_cache =
  pc_capacity :: u32
  pc_entries :: "(u32, cache_entry) mapping"
  pc_lru :: "u32 list"
  pc_total :: u64

definition pc_with_capacity :: "u32 \<Rightarrow> piece_cache" where
  "pc_with_capacity capacity =
     \<lparr>pc_capacity = capacity, pc_entries = Mapping.empty, pc_lru = [], pc_total = 0\<rparr>"

definition drop_from_lru :: "u32 \<Rightarrow> u32 list \<Rightarrow> u32 list" where
  "drop_from_lru p order =
     (case position (\<lambda>q. q = p) order of None \<Rightarrow> order | Some pos \<Rightarrow> remove_at pos order)"

definition pc_touch :: "u32 \<Rightarrow> nat \<Rightarrow> piece_cache \<Rightarrow> piece_cache" where
  "pc_touch p now c =
     (case Mapping.lookup (pc_entries c) p of
        None \<Rightarrow> c
      | Some e \<Rightarrow>
          c\<lparr>pc_entries := Mapping.update p (e\<lparr>ce_last_access := now\<rparr>) (pc_entries c),
            pc_lru := p # drop_from_lru p (pc_lru c)\<rparr>)"

definition pc_evict_lru :: "piece_cache \<Rightarrow> u32 option \<times> piece_cache" where
  "pc_evict_lru c =
     (if pc_lru c = [] then (None, c)
      else
        let victim = last (pc_lru c);
            c' = c\<lparr>pc_lru := butlast (pc_lru c)\<rparr>
        in (Some victim,
            case Mapping.lookup (pc_entries c) victim of
              None \<Rightarrow> c'
            | Some e \<Rightarrow> c'\<lparr>pc_entries := Mapping.delete victim (pc_entries c),
                           pc_total := sat_sub (pc_total c) (ucast (ce_size_bytes e))\<rparr>))"

definition pc_insert :: "u32 \<Rightarrow> u32 \<Rightarrow> nat \<Rightarrow> piece_cache \<Rightarrow> u32 option \<times> piece_cache" where
  "pc_insert p size_bytes now c =
     (if Mapping.lookup (pc_entries c) p \<noteq> None then (None, pc_touch p now c)
      else
        let (evicted, c') =
              (if (word_of_nat (Mapping.size (pc_entries c)) :: u32) \<ge> pc_capacity c
               then pc_evict_lru c else (None, c))
        in (evicted,
            c'\<lparr>pc_entries := Mapping.update p \<lparr>ce_size_bytes = size_bytes, ce_last_access = now\<rparr>
                  (pc_entries c'),
               pc_lru := p # pc_lru c',
               pc_total := sat_add (pc_total c') (ucast size_bytes)\<rparr>))"

definition pc_remove :: "u32 \<Rightarrow> piece_cache \<Rightarrow> bool \<times> piece_cache" where
  "pc_remove p c =
     (case Mapping.lookup (pc_entries c) p of
        None \<Rightarrow> (False, c)
      | Some e \<Rightarrow>
          (True, c\<lparr>pc_entries := Mapping.delete p (pc_entries c),
                   pc_total := sat_sub (pc_total c) (ucast (ce_size_bytes e)),
                   pc_lru := drop_from_lru p (pc_lru c)\<rparr>))"

definition pc_contains :: "piece_cache \<Rightarrow> u32 \<Rightarrow> bool" where
  "pc_contains c p \<longleftrightarrow> Mapping.lookup (pc_entries c) p \<noteq> None"

definition pc_len :: "piece_cache \<Rightarrow> u32" where
  "pc_len c = word_of_nat (Mapping.size (pc_entries c))"

datatype cache_call = CInsert u32 u32 nat | CTouch u32 nat | CRemove u32

fun pc_step :: "cache_call \<Rightarrow> piece_cache \<Rightarrow> piece_cache" where
  "pc_step (CInsert p s now) c = snd (pc_insert p s now c)"
| "pc_step (CTouch p now) c = pc_touch p now c"
| "pc_step (CRemove p) c = snd (pc_remove p c)"

section \<open>Invariant\<close>

definition size_of :: "piece_cache \<Rightarrow> u32 \<Rightarrow> nat" where
  "size_of c p = (case Mapping.lookup (pc_entries c) p of None \<Rightarrow> 0 | Some e \<Rightarrow> unat (ce_size_bytes e))"

definition pc_inv :: "piece_cache \<Rightarrow> bool" where
  "pc_inv c \<longleftrightarrow> distinct (pc_lru c) \<and> Mapping.keys (pc_entries c) = set (pc_lru c)
     \<and> length (pc_lru c) \<le> max 1 (unat (pc_capacity c))
     \<and> unat (pc_total c) = sum_list (map (size_of c) (pc_lru c))"

lemma in_keys: "p \<in> Mapping.keys m \<longleftrightarrow> Mapping.lookup m p \<noteq> None"
  by (simp add: keys_is_none_rep Option.is_none_def)

lemma drop_from_lru_filter:
  assumes "distinct order"
  shows "drop_from_lru p order = filter (\<lambda>q. q \<noteq> p) order"
proof (cases "position (\<lambda>q. q = p) order")
  case None
  then have "p \<notin> set order"
    by (auto simp: position_None)
  with None show ?thesis
    by (simp add: drop_from_lru_def filter_neq)
next
  case (Some i)
  then have i: "i < length order" "order ! i = p"
    by (simp_all add: position_Some)
  then have split: "order = take i order @ p # drop (Suc i) order"
    using id_take_nth_drop [of i order] by simp
  with assms have "distinct (take i order @ p # drop (Suc i) order)"
    by simp
  then have "filter (\<lambda>q. q \<noteq> p) (take i order @ p # drop (Suc i) order) = take i order @ drop (Suc i) order"
    by (simp add: filter_neq)
  with split Some show ?thesis
    by (simp add: drop_from_lru_def remove_at_def)
qed

lemma sum_size_filter:
  fixes f :: "'a \<Rightarrow> nat"
  assumes "distinct order" and "p \<in> set order"
  shows "sum_list (map f order) = f p + sum_list (map f (filter (\<lambda>q. q \<noteq> p) order))"
  using assms
proof (induction order)
  case (Cons q order)
  then show ?case
    by (cases "q = p") (auto simp: filter_neq add.left_commute)
qed simp

lemma size_of_less: "size_of c p < 2 ^ 32"
  using unat_less_exp [where 'a = 32] by (auto simp: size_of_def split: option.split)

lemma sum_size_less:
  "sum_list (map (size_of c) xs) \<le> length xs * (2 ^ 32 - 1)"
proof (induction xs)
  case (Cons x xs)
  then show ?case
    using size_of_less [of c x] by simp
qed simp

text \<open>What is left after a piece of the cache is taken out.\<close>

lemma pc_inv_take_out:
  assumes inv: "pc_inv c" and e: "Mapping.lookup (pc_entries c) p = Some e"
  shows "pc_inv (c\<lparr>pc_entries := Mapping.delete p (pc_entries c),
      pc_total := sat_sub (pc_total c) (ucast (ce_size_bytes e)),
      pc_lru := filter (\<lambda>q. q \<noteq> p) (pc_lru c)\<rparr>)" (is "pc_inv ?c")
proof -
  have p: "p \<in> set (pc_lru c)"
    using inv e in_keys [of p "pc_entries c"] by (simp add: pc_inv_def)
  have d: "distinct (pc_lru c)"
    using inv by (simp add: pc_inv_def)
  have "sum_list (map (size_of ?c) (filter (\<lambda>q. q \<noteq> p) (pc_lru c)))
      = sum_list (map (size_of c) (filter (\<lambda>q. q \<noteq> p) (pc_lru c)))"
    by (rule arg_cong [where f = sum_list]) (auto simp: size_of_def lookup_delete_neq [where k = p])
  then have "unat (pc_total ?c) = sum_list (map (size_of ?c) (pc_lru ?c))"
    using inv sum_size_filter [OF d p, of "size_of c"] e
    by (simp add: pc_inv_def unat_sat_sub unat_ucast_32_64 size_of_def [of c p])
  moreover have "length (filter (\<lambda>q. q \<noteq> p) (pc_lru c)) \<le> max 1 (unat (pc_capacity c))"
    by (rule order_trans [OF length_filter_le]) (use inv in \<open>simp add: pc_inv_def\<close>)
  ultimately show ?thesis
    using inv by (auto simp: pc_inv_def)
qed

lemma last_filter: "distinct xs \<Longrightarrow> xs \<noteq> [] \<Longrightarrow> butlast xs = filter (\<lambda>q. q \<noteq> last xs) xs"
  by (cases xs rule: rev_cases) (auto simp: filter_neq)

lemma pc_remove_eq:
  assumes "pc_inv c"
  shows "pc_inv (snd (pc_remove p c))"
    and "pc_lru (snd (pc_remove p c)) = filter (\<lambda>q. q \<noteq> p) (pc_lru c)"
    and "pc_capacity (snd (pc_remove p c)) = pc_capacity c"
proof -
  have d: "distinct (pc_lru c)"
    using assms by (simp add: pc_inv_def)
  show "pc_inv (snd (pc_remove p c))"
    using pc_inv_take_out [OF assms, of p] assms
    by (auto simp: pc_remove_def drop_from_lru_filter [OF d] split: option.split)
  show "pc_lru (snd (pc_remove p c)) = filter (\<lambda>q. q \<noteq> p) (pc_lru c)"
    using assms in_keys [of p "pc_entries c"]
    by (auto simp: pc_remove_def drop_from_lru_filter [OF d] pc_inv_def filter_neq split: option.split)
  show "pc_capacity (snd (pc_remove p c)) = pc_capacity c"
    by (simp add: pc_remove_def split: option.split)
qed

lemma pc_evict_eq:
  assumes "pc_inv c" and "pc_lru c \<noteq> []"
  shows "pc_evict_lru c = (Some (last (pc_lru c)), snd (pc_remove (last (pc_lru c)) c))"
proof -
  have d: "distinct (pc_lru c)"
    using assms(1) by (simp add: pc_inv_def)
  have "last (pc_lru c) \<in> Mapping.keys (pc_entries c)"
    using assms by (simp add: pc_inv_def)
  then obtain e where "Mapping.lookup (pc_entries c) (last (pc_lru c)) = Some e"
    by (auto simp: in_keys)
  then show ?thesis
    using assms(2) by (simp add: pc_evict_lru_def pc_remove_def drop_from_lru_filter [OF d]
        last_filter [OF d assms(2)] Let_def)
qed

lemma pc_touch_eq:
  assumes "pc_inv c"
  shows "pc_inv (pc_touch p now c)"
    and "pc_lru (pc_touch p now c)
      = (if p \<in> set (pc_lru c) then p # filter (\<lambda>q. q \<noteq> p) (pc_lru c) else pc_lru c)"
proof -
  have d: "distinct (pc_lru c)"
    using assms by (simp add: pc_inv_def)
  have p: "Mapping.lookup (pc_entries c) p \<noteq> None \<longleftrightarrow> p \<in> set (pc_lru c)"
    using assms in_keys [of p "pc_entries c"] by (simp add: pc_inv_def)
  show "pc_lru (pc_touch p now c)
      = (if p \<in> set (pc_lru c) then p # filter (\<lambda>q. q \<noteq> p) (pc_lru c) else pc_lru c)"
    using p by (auto simp: pc_touch_def drop_from_lru_filter [OF d] split: option.split)
  show "pc_inv (pc_touch p now c)"
  proof (cases "Mapping.lookup (pc_entries c) p")
    case None
    with assms show ?thesis
      by (simp add: pc_touch_def)
  next
    case (Some e)
    let ?c = "pc_touch p now c"
    have c: "?c = c\<lparr>pc_entries := Mapping.update p (e\<lparr>ce_last_access := now\<rparr>) (pc_entries c),
        pc_lru := p # filter (\<lambda>q. q \<noteq> p) (pc_lru c)\<rparr>"
      using Some by (simp add: pc_touch_def drop_from_lru_filter [OF d])
    have sizes: "size_of ?c = size_of c"
      using Some by (auto simp: c size_of_def lookup_update' fun_eq_iff)
    have "length (p # filter (\<lambda>q. q \<noteq> p) (pc_lru c)) = length (pc_lru c)"
      using sum_size_filter [OF d, of p "\<lambda>_. 1 :: nat"] p Some by (simp add: sum_list_triv)
    then show ?thesis
      using assms p Some sizes sum_size_filter [OF d, of p "size_of c"]
      by (auto simp: pc_inv_def c)
  qed
qed

lemma pc_inv_insert_new:
  assumes inv: "pc_inv c" and new: "p \<notin> set (pc_lru c)"
    and room: "length (pc_lru c) < max 1 (unat (pc_capacity c))"
  shows "pc_inv (c\<lparr>pc_entries := Mapping.update p \<lparr>ce_size_bytes = s, ce_last_access = now\<rparr> (pc_entries c),
      pc_lru := p # pc_lru c, pc_total := sat_add (pc_total c) (ucast s)\<rparr>)" (is "pc_inv ?c")
proof -
  have "length (pc_lru c) < 2 ^ 32 - 1"
    using room unat_less_exp [of "pc_capacity c"] by simp
  then have "length (pc_lru c) * (2 ^ 32 - 1) + (2 ^ 32 - 1) < (2 :: nat) ^ 64"
    by simp
  then have "unat (pc_total c) + unat s < 2 ^ 64"
    using inv sum_size_less [of c "pc_lru c"] unat_less_exp [of s] by (simp add: pc_inv_def)
  then have "unat (pc_total ?c) = unat (pc_total c) + unat s"
    by (simp add: unat_sat_add unat_ucast_32_64)
  moreover have "sum_list (map (size_of ?c) (pc_lru c)) = sum_list (map (size_of c) (pc_lru c))"
    using new by (intro arg_cong [where f = sum_list]) (auto simp: size_of_def lookup_update')
  moreover have "size_of ?c p = unat s"
    by (simp add: size_of_def lookup_update)
  ultimately show ?thesis
    using inv new room by (auto simp: pc_inv_def)
qed

lemma pc_size:
  assumes "pc_inv c"
  shows "unat (word_of_nat (Mapping.size (pc_entries c)) :: u32) = length (pc_lru c)"
proof -
  have "Mapping.size (pc_entries c) = length (pc_lru c)"
    using assms by (simp add: Mapping.size_def pc_inv_def distinct_card)
  moreover have "length (pc_lru c) < 2 ^ 32"
    using assms unat_less_exp [of "pc_capacity c"] by (auto simp: pc_inv_def max_def split: if_splits)
  ultimately show ?thesis
    by (simp add: unsigned_of_nat take_bit_nat_eq_self)
qed

lemma pc_insert_eq:
  assumes inv: "pc_inv c"
  shows "pc_inv (snd (pc_insert p s now c))"
    and "pc_lru (snd (pc_insert p s now c))
      = p # (if p \<in> set (pc_lru c) then filter (\<lambda>q. q \<noteq> p) (pc_lru c)
             else take (max 1 (unat (pc_capacity c)) - 1) (pc_lru c))"
    and "fst (pc_insert p s now c)
      = (if p \<in> set (pc_lru c) \<or> length (pc_lru c) < unat (pc_capacity c) \<or> pc_lru c = [] then None
         else Some (last (pc_lru c)))"
proof -
  have p: "Mapping.lookup (pc_entries c) p \<noteq> None \<longleftrightarrow> p \<in> set (pc_lru c)"
    using inv in_keys [of p "pc_entries c"] by (simp add: pc_inv_def)
  have full: "(word_of_nat (Mapping.size (pc_entries c)) :: u32) \<ge> pc_capacity c
      \<longleftrightarrow> \<not> length (pc_lru c) < unat (pc_capacity c)"
    by (simp add: word_le_nat_alt pc_size [OF inv] not_less)
  have bound: "length (pc_lru c) \<le> max 1 (unat (pc_capacity c))"
    using inv by (simp add: pc_inv_def)
  have "pc_inv (snd (pc_insert p s now c))
    \<and> pc_lru (snd (pc_insert p s now c))
      = p # (if p \<in> set (pc_lru c) then filter (\<lambda>q. q \<noteq> p) (pc_lru c)
             else take (max 1 (unat (pc_capacity c)) - 1) (pc_lru c))
    \<and> fst (pc_insert p s now c)
      = (if p \<in> set (pc_lru c) \<or> length (pc_lru c) < unat (pc_capacity c) \<or> pc_lru c = [] then None
         else Some (last (pc_lru c)))"
  proof (cases "p \<in> set (pc_lru c)")
    case True
    with p pc_touch_eq [OF inv, of p now] show ?thesis
      by (simp add: pc_insert_def)
  next
    case new: False
    then have none: "Mapping.lookup (pc_entries c) p = None"
      using p by blast
    show ?thesis
    proof (cases "length (pc_lru c) < unat (pc_capacity c) \<or> pc_lru c = []")
      case True
      then have "pc_insert p s now c = (None, c\<lparr>pc_entries := Mapping.update p
          \<lparr>ce_size_bytes = s, ce_last_access = now\<rparr> (pc_entries c),
          pc_lru := p # pc_lru c, pc_total := sat_add (pc_total c) (ucast s)\<rparr>)"
        using none full by (auto simp: pc_insert_def pc_evict_lru_def)
      with True new pc_inv_insert_new [OF inv new, of s now] show ?thesis
        by auto
    next
      case False
      let ?v = "last (pc_lru c)"
      let ?c = "snd (pc_remove ?v c)"
      have ne: "pc_lru c \<noteq> []" and len: "length (pc_lru c) = max 1 (unat (pc_capacity c))"
        using False bound by (auto simp: max_def Suc_le_eq le_Suc_eq split: if_splits)
      have insert: "pc_insert p s now c = (Some ?v, ?c\<lparr>pc_entries := Mapping.update p
          \<lparr>ce_size_bytes = s, ce_last_access = now\<rparr> (pc_entries ?c),
          pc_lru := p # pc_lru ?c, pc_total := sat_add (pc_total ?c) (ucast s)\<rparr>)"
        using none full False pc_evict_eq [OF inv ne] by (simp add: pc_insert_def)
      have lru: "pc_lru ?c = butlast (pc_lru c)"
        using pc_remove_eq(2) [OF inv] last_filter [OF _ ne] inv by (simp add: pc_inv_def)
      then have "p \<notin> set (pc_lru ?c)" "length (pc_lru ?c) < max 1 (unat (pc_capacity ?c))"
        using new len ne pc_remove_eq(3) [OF inv] by (auto dest: in_set_butlastD)
      from pc_inv_insert_new [OF pc_remove_eq(1) [OF inv] this, of s now] show ?thesis
        using insert lru new False len by (simp add: butlast_conv_take)
    qed
  qed
  then show "pc_inv (snd (pc_insert p s now c))"
    and "pc_lru (snd (pc_insert p s now c))
      = p # (if p \<in> set (pc_lru c) then filter (\<lambda>q. q \<noteq> p) (pc_lru c)
             else take (max 1 (unat (pc_capacity c)) - 1) (pc_lru c))"
    and "fst (pc_insert p s now c)
      = (if p \<in> set (pc_lru c) \<or> length (pc_lru c) < unat (pc_capacity c) \<or> pc_lru c = [] then None
         else Some (last (pc_lru c)))"
    by blast+
qed

lemma pc_inv_new: "pc_inv (pc_with_capacity n)"
  by (simp add: pc_inv_def pc_with_capacity_def)

lemma pc_inv_step: "pc_inv c \<Longrightarrow> pc_inv (pc_step call c)"
  by (cases call) (simp_all add: pc_insert_eq pc_touch_eq pc_remove_eq)

lemma pc_insert_zero:
  assumes inv: "pc_inv c" and cap: "pc_capacity c = 0"
  shows "pc_lru (snd (pc_insert p s now c)) = [p]" and "fst (pc_insert p s now c) \<noteq> Some p"
proof -
  have "length (pc_lru c) \<le> 1"
    using inv cap by (simp add: pc_inv_def)
  then have "pc_lru c = [] \<or> (\<exists>x. pc_lru c = [x])"
    by (cases "pc_lru c") auto
  then show "pc_lru (snd (pc_insert p s now c)) = [p]" and "fst (pc_insert p s now c) \<noteq> Some p"
    using cap by (auto simp: pc_insert_eq [OF inv])
qed

interpretation cache: step_system "{c. \<exists>n. c = pc_with_capacity n}" pc_step pc_inv
  by unfold_locales (auto intro: pc_inv_new pc_inv_step)

lemma pc_capacity_step [simp]: "pc_capacity (pc_step call c) = pc_capacity c"
proof (cases call)
  case (CInsert p s now)
  have "pc_capacity (pc_touch p now c) = pc_capacity c" "pc_capacity (snd (pc_evict_lru c)) = pc_capacity c"
    by (auto simp: pc_touch_def pc_evict_lru_def Let_def split: option.split)
  then show ?thesis
    using CInsert by (auto simp: pc_insert_def split: prod.splits if_splits)
next
  case (CTouch p now)
  then show ?thesis
    by (auto simp: pc_touch_def split: option.split)
next
  case (CRemove p)
  then show ?thesis
    by (auto simp: pc_remove_def split: option.split)
qed

lemma pc_capacity_run [simp]: "pc_capacity (fold pc_step calls c) = pc_capacity c"
  by (induction calls arbitrary: c) simp_all

text \<open>The order of use alone, as the abstract cache: a list of pieces, the last used first.\<close>

fun lru_step :: "nat \<Rightarrow> cache_call \<Rightarrow> u32 list \<Rightarrow> u32 list" where
  "lru_step n (CInsert p s now) used =
     p # (if p \<in> set used then filter (\<lambda>q. q \<noteq> p) used else take (n - 1) used)"
| "lru_step n (CTouch p now) used = (if p \<in> set used then p # filter (\<lambda>q. q \<noteq> p) used else used)"
| "lru_step n (CRemove p) used = filter (\<lambda>q. q \<noteq> p) used"

lemma pc_lru_step:
  assumes "pc_inv c"
  shows "pc_lru (pc_step call c) = lru_step (max 1 (unat (pc_capacity c))) call (pc_lru c)"
  by (cases call) (simp_all add: pc_insert_eq [OF assms] pc_touch_eq [OF assms] pc_remove_eq [OF assms])

lemma pc_lru_run:
  assumes "pc_inv c"
  shows "pc_lru (fold pc_step calls c) = fold (lru_step (max 1 (unat (pc_capacity c)))) calls (pc_lru c)"
  using assms
proof (induction calls arbitrary: c)
  case (Cons call calls)
  from Cons.IH [OF pc_inv_step [OF Cons.prems]] show ?case
    by (simp add: pc_lru_step [OF Cons.prems])
qed simp

lemma pc_run_lru:
  "let c = fold pc_step calls (pc_with_capacity n)
   in pc_lru c = fold (lru_step (max 1 (unat n))) calls []
      \<and> distinct (pc_lru c) \<and> (\<forall>p. pc_contains c p = (p \<in> set (pc_lru c)))
      \<and> unat (pc_len c) = length (pc_lru c)
      \<and> unat (pc_total c) = sum_list (map (size_of c) (pc_lru c))"
proof -
  let ?c = "fold pc_step calls (pc_with_capacity n)"
  have inv: "pc_inv ?c"
    by (rule cache.inv_fold [OF pc_inv_new])
  have "pc_lru ?c = fold (lru_step (max 1 (unat n))) calls []"
    using pc_lru_run [OF pc_inv_new, of calls n] by (simp add: pc_with_capacity_def)
  moreover have "pc_contains ?c p = (p \<in> set (pc_lru ?c))" for p
    using inv in_keys [of p "pc_entries ?c"] by (simp add: pc_inv_def pc_contains_def)
  ultimately show ?thesis
    using inv pc_size [OF inv] by (simp add: pc_inv_def pc_len_def Let_def)
qed

section \<open>Properties\<close>

text \<open>
  The cache is an LRU list. After any calls on a new cache the pieces it holds, in its order, are
  those of the abstract list that puts an inserted or touched piece in front and drops the piece
  used longest ago when there is no room; the map holds exactly these pieces, each once, and the
  byte count is the sum of their sizes, never saturated.
\<close>
theorem cache_refines_lru:
  "let c = fold pc_step calls (pc_with_capacity n)
   in pc_lru c = fold (lru_step (max 1 (unat n))) calls []
      \<and> distinct (pc_lru c) \<and> (\<forall>p. pc_contains c p = (p \<in> set (pc_lru c)))
      \<and> unat (pc_len c) = length (pc_lru c)
      \<and> unat (pc_total c) = sum_list (map (size_of c) (pc_lru c))"
  by (rule pc_run_lru)

text \<open>
  The right piece is evicted. An insert into a cache reached by any calls reports a piece exactly
  if the piece inserted is new and the cache is full, and the piece reported is the one used
  longest ago; it is gone afterwards and every other piece is still there.
\<close>
theorem cache_evicts_least_recent:
  assumes "c = fold pc_step calls (pc_with_capacity n)"
    and "pc_insert p s now c = (evicted, c')"
  shows "evicted = (if pc_contains c p \<or> pc_len c < n \<or> pc_lru c = [] then None else Some (last (pc_lru c)))
    \<and> (\<forall>q. pc_contains c' q = (q = p \<or> (pc_contains c q \<and> evicted \<noteq> Some q)))"
proof -
  have inv: "pc_inv c"
    unfolding assms(1) by (rule cache.inv_fold [OF pc_inv_new])
  have inv': "pc_inv c'" and lru': "pc_lru c' = p # (if p \<in> set (pc_lru c) then filter (\<lambda>q. q \<noteq> p) (pc_lru c)
             else take (max 1 (unat (pc_capacity c)) - 1) (pc_lru c))"
    and ev: "evicted = (if p \<in> set (pc_lru c) \<or> length (pc_lru c) < unat (pc_capacity c) \<or> pc_lru c = [] then None
         else Some (last (pc_lru c)))"
    using pc_insert_eq [OF inv, of p s now] assms(2) by simp_all
  have cap: "pc_capacity c = n"
    by (simp add: assms(1) pc_with_capacity_def)
  have has: "pc_contains d q = (q \<in> set (pc_lru d))" if "pc_inv d" for d q
    using that in_keys [of q "pc_entries d"] by (simp add: pc_inv_def pc_contains_def)
  have len: "pc_len c < n \<longleftrightarrow> length (pc_lru c) < unat (pc_capacity c)"
    by (simp add: word_less_nat_alt pc_len_def pc_size [OF inv] cap)
  have bound: "length (pc_lru c) \<le> max 1 (unat (pc_capacity c))" and d: "distinct (pc_lru c)"
    using inv by (simp_all add: pc_inv_def)
  have "q \<in> set (pc_lru c') \<longleftrightarrow> q = p \<or> (q \<in> set (pc_lru c) \<and> evicted \<noteq> Some q)" for q
  proof (cases "p \<in> set (pc_lru c) \<or> length (pc_lru c) < unat (pc_capacity c) \<or> pc_lru c = []")
    case True
    then show ?thesis
      using lru' ev by auto
  next
    case False
    with bound have "take (max 1 (unat (pc_capacity c)) - 1) (pc_lru c) = butlast (pc_lru c)"
      by (auto simp: butlast_conv_take max_def le_Suc_eq not_less)
    with False lru' ev last_filter [OF d] show ?thesis
      by auto
  qed
  with ev len show ?thesis
    by (simp add: has [OF inv] has [OF inv'])
qed

theorem cache_evicts_least_recent_witness:
  "let c = fold pc_step [CInsert 1 10 0, CInsert 2 20 1, CTouch 1 2] (pc_with_capacity 2)
   in pc_lru c = [1, 2] \<and> fst (pc_insert 3 30 3 c) = Some 2"
proof -
  let ?c = "fold pc_step [CInsert 1 10 0, CInsert 2 20 1, CTouch 1 2] (pc_with_capacity 2)"
  have lru: "pc_lru ?c = [1, 2]"
    using pc_run_lru [of "[CInsert 1 10 0, CInsert 2 20 1, CTouch 1 2]" 2] by (simp add: Let_def)
  have has: "\<not> pc_contains ?c 3" "\<not> pc_len ?c < 2"
    using pc_run_lru [of "[CInsert 1 10 0, CInsert 2 20 1, CTouch 1 2]" 2] lru
    by (simp_all add: Let_def word_less_nat_alt)
  have "fst (pc_insert 3 30 3 ?c) = Some 2"
    using cache_evicts_least_recent [OF refl prod.collapse [symmetric], of 3 30 3
        "[CInsert 1 10 0, CInsert 2 20 1, CTouch 1 2]" 2] lru has by simp
  with lru show ?thesis
    by (simp add: Let_def)
qed

text \<open>
  A cache of capacity 0 caches. The constructor documents that with capacity 0 every insert
  immediately evicts, but the insert evicts before it stores: the piece just inserted always stays.
\<close>
theorem zero_capacity_caches:
  "let c = fold pc_step calls (pc_with_capacity 0); (evicted, c') = pc_insert p s now c
   in pc_contains c' p \<and> evicted \<noteq> Some p \<and> pc_lru c' = [p]"
proof -
  let ?c = "fold pc_step calls (pc_with_capacity 0)"
  have inv: "pc_inv ?c"
    by (rule cache.inv_fold [OF pc_inv_new])
  have cap: "pc_capacity ?c = 0"
    by (simp add: pc_with_capacity_def)
  have inv': "pc_inv (snd (pc_insert p s now ?c))"
    and lru': "pc_lru (snd (pc_insert p s now ?c)) = [p]"
    and ev: "fst (pc_insert p s now ?c) \<noteq> Some p"
    using pc_insert_zero [OF inv cap, of p s now] pc_insert_eq(1) [OF inv] by auto
  have "pc_contains (snd (pc_insert p s now ?c)) p"
    using inv' lru' in_keys [of p "pc_entries (snd (pc_insert p s now ?c))"]
    by (simp add: pc_inv_def pc_contains_def)
  with lru' ev show ?thesis
    by (simp add: Let_def prod.case_eq_if)
qed

end
