(* ===== verification/ArcCache.thy ===== *)
theory ArcCache
  imports Prelude "HOL-Library.Mapping"
begin

text \<open>
  The cache of piece data, \<open>crates/p2p-distribute/src/piece_data_cache.rs\<close>: the ARC algorithm with its
  two resident lists T1 and T2, the ghost lists B1 and B2, the adaptive target \<open>p\<close> and the budget in
  bytes. A list has its most recently used element in front, as the deques of the code.

  The loop that trims a ghost list ends only when the ghost capacity is not zero. The capacity is a
  64-bit number cut to 32 bits, so zero can occur; an operation that would loop forever is \<open>None\<close>.
\<close>

section \<open>State\<close>

definition DEFAULT_CACHE_BYTES :: u64 where
  "DEFAULT_CACHE_BYTES = 32 * 1024 * 1024"

record cache_stats =
  cst_hits :: u64
  cst_misses :: u64
  cst_evictions :: u64
  cst_resident_pieces :: u32
  cst_resident_bytes :: u64
  cst_max_bytes :: u64
  cst_ghost_hits_b1 :: u64
  cst_ghost_hits_b2 :: u64
  cst_arc_target_t1 :: u32

record arc =
  arc_t1 :: "u32 list"
  arc_t2 :: "u32 list"
  arc_b1 :: "u32 list"
  arc_b2 :: "u32 list"
  arc_b1_set :: "u32 set"
  arc_b2_set :: "u32 set"
  arc_entries :: "(u32, bytes) mapping"
  arc_current_bytes :: u64
  arc_max_bytes :: u64
  arc_ghost_cap :: u32
  arc_p :: u32
  arc_hits :: u64
  arc_misses :: u64
  arc_evictions :: u64
  arc_ghost_hits_b1 :: u64
  arc_ghost_hits_b2 :: u64

definition ghost_cap_of :: "u64 \<Rightarrow> u32" where
  "ghost_cap_of max_bytes = ucast (max (max_bytes div (256 * 1024)) 16)"

definition arc_new :: "u64 \<Rightarrow> arc" where
  "arc_new max_bytes =
     \<lparr>arc_t1 = [], arc_t2 = [], arc_b1 = [], arc_b2 = [], arc_b1_set = {}, arc_b2_set = {},
      arc_entries = Mapping.empty, arc_current_bytes = 0, arc_max_bytes = max_bytes,
      arc_ghost_cap = ghost_cap_of max_bytes, arc_p = 0, arc_hits = 0, arc_misses = 0,
      arc_evictions = 0, arc_ghost_hits_b1 = 0, arc_ghost_hits_b2 = 0\<rparr>"

section \<open>Lists\<close>

text \<open>\<open>VecDeque::pop_back\<close>.\<close>

definition pop_back :: "'a list \<Rightarrow> ('a \<times> 'a list) option" where
  "pop_back xs = (if xs = [] then None else Some (last xs, butlast xs))"

text \<open>\<open>if let Some(pos) = l.iter().position(..) { l.remove(pos) }\<close>.\<close>

definition remove_first :: "'a \<Rightarrow> 'a list \<Rightarrow> 'a list" where
  "remove_first x xs = (case position (\<lambda>y. y = x) xs of None \<Rightarrow> xs | Some pos \<Rightarrow> remove_at pos xs)"

text \<open>The loop of \<open>add_to_ghost_b1\<close> and \<open>add_to_ghost_b2\<close> over a list and its set.\<close>

partial_function (option) trim_ghost :: "u32 \<Rightarrow> u32 list \<Rightarrow> u32 set \<Rightarrow> (u32 list \<times> u32 set) option" where
  "trim_ghost cap xs s =
     (if word_of_nat (length xs) \<ge> cap then
        (case pop_back xs of
           Some (old, xs') \<Rightarrow> trim_ghost cap xs' (s - {old})
         | None \<Rightarrow> trim_ghost cap xs s)
      else Some (xs, s))"

declare trim_ghost.simps [code]

definition add_to_ghost_b1 :: "u32 \<Rightarrow> arc \<Rightarrow> arc option" where
  "add_to_ghost_b1 i c =
     (case trim_ghost (arc_ghost_cap c) (arc_b1 c) (arc_b1_set c) of
        None \<Rightarrow> None
      | Some (b, s) \<Rightarrow> Some (c\<lparr>arc_b1 := i # b, arc_b1_set := insert i s\<rparr>))"

definition add_to_ghost_b2 :: "u32 \<Rightarrow> arc \<Rightarrow> arc option" where
  "add_to_ghost_b2 i c =
     (case trim_ghost (arc_ghost_cap c) (arc_b2 c) (arc_b2_set c) of
        None \<Rightarrow> None
      | Some (b, s) \<Rightarrow> Some (c\<lparr>arc_b2 := i # b, arc_b2_set := insert i s\<rparr>))"

definition remove_from_ghost_b1 :: "u32 \<Rightarrow> arc \<Rightarrow> arc" where
  "remove_from_ghost_b1 i c =
     c\<lparr>arc_b1_set := arc_b1_set c - {i}, arc_b1 := remove_first i (arc_b1 c)\<rparr>"

definition remove_from_ghost_b2 :: "u32 \<Rightarrow> arc \<Rightarrow> arc" where
  "remove_from_ghost_b2 i c =
     c\<lparr>arc_b2_set := arc_b2_set c - {i}, arc_b2 := remove_first i (arc_b2 c)\<rparr>"

section \<open>Eviction\<close>

definition promote_to_t2 :: "u32 \<Rightarrow> arc \<Rightarrow> arc" where
  "promote_to_t2 i c =
     (case position (\<lambda>q. q = i) (arc_t1 c) of
        Some pos \<Rightarrow> c\<lparr>arc_t1 := remove_at pos (arc_t1 c), arc_t2 := i # arc_t2 c\<rparr>
      | None \<Rightarrow>
          (case position (\<lambda>q. q = i) (arc_t2 c) of
             Some pos \<Rightarrow> c\<lparr>arc_t2 := i # remove_at pos (arc_t2 c)\<rparr>
           | None \<Rightarrow> c))"

text \<open>The entry of an evicted piece goes, its bytes are given back, and the eviction is counted.\<close>

definition drop_entry :: "u32 \<Rightarrow> arc \<Rightarrow> arc" where
  "drop_entry i c =
     (case Mapping.lookup (arc_entries c) i of
        None \<Rightarrow> c
      | Some data \<Rightarrow>
          c\<lparr>arc_entries := Mapping.delete i (arc_entries c),
            arc_current_bytes := sat_sub (arc_current_bytes c) (word_of_nat (length data))\<rparr>)"

definition count_eviction :: "arc \<Rightarrow> arc" where
  "count_eviction c = c\<lparr>arc_evictions := sat_add (arc_evictions c) 1\<rparr>"

definition evict_from_t1 :: "arc \<Rightarrow> (bool \<times> arc) option" where
  "evict_from_t1 c =
     (case pop_back (arc_t1 c) of
        None \<Rightarrow> Some (False, c)
      | Some (i, t1) \<Rightarrow>
          map_option (Pair True) (add_to_ghost_b1 i (count_eviction (drop_entry i (c\<lparr>arc_t1 := t1\<rparr>)))))"

definition evict_from_t2 :: "arc \<Rightarrow> (bool \<times> arc) option" where
  "evict_from_t2 c =
     (case pop_back (arc_t2 c) of
        None \<Rightarrow> Some (False, c)
      | Some (i, t2) \<Rightarrow>
          map_option (Pair True) (add_to_ghost_b2 i (count_eviction (drop_entry i (c\<lparr>arc_t2 := t2\<rparr>)))))"

definition arc_replace :: "arc \<Rightarrow> (bool \<times> arc) option" where
  "arc_replace c =
     (if (if arc_t1 c = [] then False
          else if arc_t2 c = [] then True
          else arc_p c < word_of_nat (length (arc_t1 c)))
      then evict_from_t1 c else evict_from_t2 c)"

partial_function (option) ensure_room :: "u64 \<Rightarrow> arc \<Rightarrow> arc option" where
  "ensure_room n c =
     (if sat_add (arc_current_bytes c) n > arc_max_bytes c then
        (case arc_replace c of
           None \<Rightarrow> None
         | Some (evicted, c') \<Rightarrow> if evicted then ensure_room n c' else Some c')
      else Some c)"

declare ensure_room.simps [code]

text \<open>The last lines of every case of \<open>insert\<close> that stores the piece.\<close>

definition store_entry :: "u32 \<Rightarrow> bytes \<Rightarrow> arc \<Rightarrow> arc" where
  "store_entry i data c =
     c\<lparr>arc_current_bytes := sat_add (arc_current_bytes c) (word_of_nat (length data)),
       arc_entries := Mapping.update i data (arc_entries c)\<rparr>"

section \<open>Operations\<close>

definition arc_insert :: "u32 \<Rightarrow> bytes \<Rightarrow> arc \<Rightarrow> arc option" where
  "arc_insert i data c =
     (let n = word_of_nat (length data) in
      if n > arc_max_bytes c then Some c
      else if Mapping.lookup (arc_entries c) i \<noteq> None then Some (promote_to_t2 i c)
      else if i \<in> arc_b1_set c then
        let c1 = c\<lparr>arc_ghost_hits_b1 := sat_add (arc_ghost_hits_b1 c) 1\<rparr>;
            b1_len = word_of_nat (max (length (arc_b1 c1)) 1);
            b2_len = word_of_nat (length (arc_b2 c1));
            delta = max 1 (b2_len div b1_len);
            c2 = c1\<lparr>arc_p := min (sat_add (arc_p c1) delta) (arc_ghost_cap c1)\<rparr>
        in map_option (\<lambda>c'. let c'' = store_entry i data c' in c''\<lparr>arc_t2 := i # arc_t2 c''\<rparr>)
             (ensure_room n (remove_from_ghost_b1 i c2))
      else if i \<in> arc_b2_set c then
        let c1 = c\<lparr>arc_ghost_hits_b2 := sat_add (arc_ghost_hits_b2 c) 1\<rparr>;
            b1_len = word_of_nat (length (arc_b1 c1));
            b2_len = word_of_nat (max (length (arc_b2 c1)) 1);
            delta = max 1 (b1_len div b2_len);
            c2 = c1\<lparr>arc_p := sat_sub (arc_p c1) delta\<rparr>
        in map_option (\<lambda>c'. let c'' = store_entry i data c' in c''\<lparr>arc_t2 := i # arc_t2 c''\<rparr>)
             (ensure_room n (remove_from_ghost_b2 i c2))
      else
        map_option (\<lambda>c'. let c'' = store_entry i data c' in c''\<lparr>arc_t1 := i # arc_t1 c''\<rparr>)
          (ensure_room n c))"

definition arc_get :: "u32 \<Rightarrow> arc \<Rightarrow> bytes option \<times> arc" where
  "arc_get i c =
     (case Mapping.lookup (arc_entries c) i of
        None \<Rightarrow> (None, c\<lparr>arc_misses := sat_add (arc_misses c) 1\<rparr>)
      | Some data \<Rightarrow>
          (let c' = promote_to_t2 i c in (Some data, c'\<lparr>arc_hits := sat_add (arc_hits c') 1\<rparr>)))"

definition arc_remove :: "u32 \<Rightarrow> arc \<Rightarrow> bool \<times> arc" where
  "arc_remove i c =
     (case Mapping.lookup (arc_entries c) i of
        Some data \<Rightarrow>
          (let c' = drop_entry i c in
           (True,
            case position (\<lambda>q. q = i) (arc_t1 c') of
              Some pos \<Rightarrow> c'\<lparr>arc_t1 := remove_at pos (arc_t1 c')\<rparr>
            | None \<Rightarrow> c'\<lparr>arc_t2 := remove_first i (arc_t2 c')\<rparr>))
      | None \<Rightarrow> (False, remove_from_ghost_b2 i (remove_from_ghost_b1 i c)))"

definition arc_clear :: "arc \<Rightarrow> arc" where
  "arc_clear c =
     c\<lparr>arc_entries := Mapping.empty, arc_t1 := [], arc_t2 := [], arc_b1 := [], arc_b2 := [],
       arc_b1_set := {}, arc_b2_set := {}, arc_current_bytes := 0, arc_p := 0\<rparr>"

partial_function (option) evict_to_budget :: "arc \<Rightarrow> arc option" where
  "evict_to_budget c =
     (if arc_current_bytes c > arc_max_bytes c then
        (if arc_t1 c = [] \<and> arc_t2 c = [] then Some c
         else case arc_replace c of
                None \<Rightarrow> None
              | Some (evicted, c') \<Rightarrow> if evicted then evict_to_budget c' else Some c')
      else Some c)"

declare evict_to_budget.simps [code]

definition set_max_bytes :: "u64 \<Rightarrow> arc \<Rightarrow> arc option" where
  "set_max_bytes new_max c =
     (let cap = ghost_cap_of new_max
      in evict_to_budget (c\<lparr>arc_max_bytes := new_max, arc_ghost_cap := cap, arc_p := min (arc_p c) cap\<rparr>))"

definition arc_stats :: "arc \<Rightarrow> cache_stats" where
  "arc_stats c =
     \<lparr>cst_hits = arc_hits c, cst_misses = arc_misses c, cst_evictions = arc_evictions c,
      cst_resident_pieces = word_of_nat (Mapping.size (arc_entries c)),
      cst_resident_bytes = arc_current_bytes c, cst_max_bytes = arc_max_bytes c,
      cst_ghost_hits_b1 = arc_ghost_hits_b1 c, cst_ghost_hits_b2 = arc_ghost_hits_b2 c,
      cst_arc_target_t1 = arc_p c\<rparr>"

section \<open>The invariant\<close>

definition members :: "arc \<Rightarrow> u32 set" where
  "members c = set (arc_t1 c) \<union> set (arc_t2 c) \<union> set (arc_b1 c) \<union> set (arc_b2 c)"

definition entry_size :: "arc \<Rightarrow> u32 \<Rightarrow> nat" where
  "entry_size c i =
     (case Mapping.lookup (arc_entries c) i of None \<Rightarrow> 0 | Some d \<Rightarrow> unat (word_of_nat (length d) :: u64))"

definition resident_size :: "arc \<Rightarrow> nat" where
  "resident_size c = (\<Sum>i \<in> Mapping.keys (arc_entries c). entry_size c i)"

text \<open>
  What holds of the lists in every state: no piece is in two places, the sets mirror the ghost
  lists, exactly the pieces of T1 and T2 have data, and the byte count is their total size.
\<close>

definition arc_ok :: "arc \<Rightarrow> bool" where
  "arc_ok c \<longleftrightarrow>
     distinct (arc_t1 c @ arc_t2 c @ arc_b1 c @ arc_b2 c) \<and>
     arc_b1_set c = set (arc_b1 c) \<and> arc_b2_set c = set (arc_b2 c) \<and>
     Mapping.keys (arc_entries c) = set (arc_t1 c) \<union> set (arc_t2 c) \<and>
     unat (arc_current_bytes c) = resident_size c \<and>
     arc_p c \<le> arc_ghost_cap c \<and> 0 < arc_ghost_cap c \<and> arc_max_bytes c \<noteq> - 1"

definition same_limits :: "arc \<Rightarrow> arc \<Rightarrow> bool" where
  "same_limits c c' \<longleftrightarrow>
     arc_max_bytes c' = arc_max_bytes c \<and> arc_ghost_cap c' = arc_ghost_cap c \<and> arc_p c' = arc_p c"

lemma remove_first_distinct:
  assumes "distinct xs"
  shows "distinct (remove_first x xs)" and "set (remove_first x xs) = set xs - {x}"
proof -
  show "distinct (remove_first x xs)" "set (remove_first x xs) = set xs - {x}"
    using assms distinct_remove_at [OF assms]
    by (auto simp: remove_first_def position_None position_Some dest: in_set_takeD
        split: option.split)
qed

lemma remove_first_absent: "x \<notin> set xs \<Longrightarrow> remove_first x xs = xs"
  by (auto simp: remove_first_def position_Some split: option.split)

lemma remove_first_filter: "distinct xs \<Longrightarrow> remove_first x xs = filter (\<lambda>y. y \<noteq> x) xs"
proof (induction xs)
  case Nil
  then show ?case by (simp add: remove_first_def)
next
  case (Cons y ys)
  then show ?case
    by (cases "y = x")
      (auto simp: remove_first_def remove_at_def filter_neq split: option.splits)
qed

text \<open>Trimming a ghost list drops a suffix, and ends unless the capacity is zero.\<close>

lemma trim_ghost_ends:
  assumes "0 < cap"
  shows "\<exists>ys zs. xs = ys @ zs \<and> trim_ghost cap xs s = Some (ys, s - set zs)"
proof (induction xs arbitrary: s rule: rev_induct)
  case Nil
  show ?case
    using assms by (simp add: trim_ghost.simps [of cap "[]"] word_le_nat_alt word_less_nat_alt)
next
  case (snoc x xs)
  show ?case
  proof (cases "cap \<le> word_of_nat (length (xs @ [x]))")
    case False
    then show ?thesis
      by (intro exI [of _ "xs @ [x]"] exI [of _ "[]"]) (simp add: trim_ghost.simps [of cap "xs @ [x]"])
  next
    case True
    obtain ys zs where ys: "xs = ys @ zs" "trim_ghost cap xs (s - {x}) = Some (ys, (s - {x}) - set zs)"
      using snoc by blast
    have "trim_ghost cap (xs @ [x]) s = trim_ghost cap xs (s - {x})"
      using True by (simp add: trim_ghost.simps [of cap "xs @ [x]"] pop_back_def)
    then show ?thesis
      using ys by (intro exI [of _ ys] exI [of _ "zs @ [x]"]) auto
  qed
qed

lemma trim_ghost_zero: "trim_ghost 0 xs s = None"
proof -
  have "cap \<noteq> 0" if "trim_ghost cap xs s = Some r" for cap xs s r
    using that
  proof (rule trim_ghost.raw_induct [where P = "\<lambda>cap xs s r. cap \<noteq> 0", rotated])
    fix f :: "u32 \<Rightarrow> u32 list \<Rightarrow> u32 set \<Rightarrow> (u32 list \<times> u32 set) option" and cap xs s r
    assume IH: "\<And>cap xs s r. f cap xs s = Some r \<Longrightarrow> cap \<noteq> 0"
      and body: "(if word_of_nat (length xs) \<ge> cap then
              (case pop_back xs of
                 Some (old, xs') \<Rightarrow> f cap xs' (s - {old})
               | None \<Rightarrow> f cap xs s)
            else Some (xs, s)) = Some r"
    show "cap \<noteq> 0"
    proof (cases "word_of_nat (length xs) \<ge> cap")
      case True
      show ?thesis
      proof (cases "pop_back xs")
        case None
        with True body IH [of cap xs s r] show ?thesis by simp
      next
        case (Some p)
        with True body IH [of cap "snd p" "s - {fst p}" r] show ?thesis
          by (simp add: case_prod_unfold)
      qed
    qed auto
  qed
  then have "trim_ghost 0 xs s \<noteq> Some r" for r
    by blast
  then show ?thesis
    using not_Some_eq by blast
qed

lemma entry_size_Some:
  "Mapping.lookup (arc_entries c) i = Some d \<Longrightarrow> entry_size c i = unat (word_of_nat (length d) :: u64)"
  by (simp add: entry_size_def)

lemma arc_ok_finite: "arc_ok c \<Longrightarrow> finite (Mapping.keys (arc_entries c))"
  by (simp add: arc_ok_def)

lemma resident_lookup:
  assumes "arc_ok c" and "i \<in> set (arc_t1 c) \<union> set (arc_t2 c)"
  obtains d where "Mapping.lookup (arc_entries c) i = Some d"
proof -
  have "i \<in> Mapping.keys (arc_entries c)"
    using assms by (simp add: arc_ok_def)
  then show ?thesis
    using that by (auto simp: keys_dom_lookup)
qed

lemma resident_size_delete:
  assumes "finite (Mapping.keys (arc_entries c))" and "i \<in> Mapping.keys (arc_entries c)"
    and "arc_entries c' = Mapping.delete i (arc_entries c)"
  shows "resident_size c' + entry_size c i = resident_size c"
proof -
  have "resident_size c' = (\<Sum>j \<in> Mapping.keys (arc_entries c) - {i}. entry_size c j)"
    unfolding resident_size_def assms(3)
    by (rule sum.cong) (auto simp: entry_size_def assms(3))
  then show ?thesis
    using sum.remove [OF assms(1,2), of "entry_size c"] by (simp add: resident_size_def)
qed

lemma resident_size_update:
  assumes "finite (Mapping.keys (arc_entries c))" and "i \<notin> Mapping.keys (arc_entries c)"
    and "arc_entries c' = Mapping.update i d (arc_entries c)"
  shows "resident_size c' = resident_size c + unat (word_of_nat (length d) :: u64)"
proof -
  have "(\<Sum>j \<in> Mapping.keys (arc_entries c). entry_size c' j) = resident_size c"
    unfolding resident_size_def
    by (rule sum.cong) (use assms(2,3) in \<open>auto simp: entry_size_def lookup_update'\<close>)
  then show ?thesis
    using assms by (simp add: resident_size_def entry_size_def)
qed

section \<open>Eviction\<close>

text \<open>One eviction, of piece \<open>i\<close>.\<close>

definition evicted :: "u32 \<Rightarrow> arc \<Rightarrow> arc \<Rightarrow> bool" where
  "evicted i c c' \<longleftrightarrow>
     arc_ok c' \<and> same_limits c c' \<and> arc_entries c' = Mapping.delete i (arc_entries c) \<and>
     members c' \<subseteq> members c \<and> i \<in> set (arc_t1 c) \<union> set (arc_t2 c) \<and>
     length (arc_t1 c') + length (arc_t2 c') < length (arc_t1 c) + length (arc_t2 c)"

lemma dropped:
  assumes "arc_ok c" and "i \<in> set (arc_t1 c) \<union> set (arc_t2 c)"
    and "arc_entries c' = arc_entries c" and "arc_current_bytes c' = arc_current_bytes c"
  shows "arc_entries (drop_entry i c') = Mapping.delete i (arc_entries c)"
    and "unat (arc_current_bytes (drop_entry i c')) = resident_size (drop_entry i c')"
proof -
  obtain d where d: "Mapping.lookup (arc_entries c) i = Some d"
    using resident_lookup [OF assms(1,2)] .
  then show entries: "arc_entries (drop_entry i c') = Mapping.delete i (arc_entries c)"
    using assms(3) by (simp add: drop_entry_def)
  have "i \<in> Mapping.keys (arc_entries c)"
    using d by (auto simp: keys_dom_lookup)
  from resident_size_delete [OF arc_ok_finite [OF assms(1)] this entries]
  have "resident_size (drop_entry i c') + entry_size c i = unat (arc_current_bytes c)"
    using assms(1) by (simp add: arc_ok_def)
  moreover have "arc_current_bytes (drop_entry i c')
      = sat_sub (arc_current_bytes c) (word_of_nat (length d))"
    using d assms(3,4) by (simp add: drop_entry_def)
  ultimately show "unat (arc_current_bytes (drop_entry i c')) = resident_size (drop_entry i c')"
    by (simp add: unat_sat_sub entry_size_Some [OF d])
qed

lemma drop_entry_lists [simp]:
  "arc_t1 (drop_entry i c) = arc_t1 c" "arc_t2 (drop_entry i c) = arc_t2 c"
  "arc_b1 (drop_entry i c) = arc_b1 c" "arc_b2 (drop_entry i c) = arc_b2 c"
  "arc_b1_set (drop_entry i c) = arc_b1_set c" "arc_b2_set (drop_entry i c) = arc_b2_set c"
  "arc_max_bytes (drop_entry i c) = arc_max_bytes c" "arc_ghost_cap (drop_entry i c) = arc_ghost_cap c"
  "arc_p (drop_entry i c) = arc_p c"
  by (simp_all add: drop_entry_def split: option.split)

lemma count_eviction_lists [simp]:
  "arc_t1 (count_eviction c) = arc_t1 c" "arc_t2 (count_eviction c) = arc_t2 c"
  "arc_b1 (count_eviction c) = arc_b1 c" "arc_b2 (count_eviction c) = arc_b2 c"
  "arc_b1_set (count_eviction c) = arc_b1_set c" "arc_b2_set (count_eviction c) = arc_b2_set c"
  "arc_max_bytes (count_eviction c) = arc_max_bytes c" "arc_ghost_cap (count_eviction c) = arc_ghost_cap c"
  "arc_p (count_eviction c) = arc_p c" "arc_entries (count_eviction c) = arc_entries c"
  "arc_current_bytes (count_eviction c) = arc_current_bytes c"
  by (simp_all add: count_eviction_def)

lemma resident_size_cong: "arc_entries c = arc_entries c' \<Longrightarrow> resident_size c = resident_size c'"
  by (simp add: resident_size_def entry_size_def)

lemma evict_t1:
  assumes ok: "arc_ok c" and "arc_t1 c \<noteq> []"
  shows "\<exists>c'. evict_from_t1 c = Some (True, c') \<and> evicted (last (arc_t1 c)) c c' \<and> arc_t2 c' = arc_t2 c"
proof -
  define i where "i = last (arc_t1 c)"
  define t1 where "t1 = butlast (arc_t1 c)"
  have t1: "arc_t1 c = t1 @ [i]"
    using assms(2) by (simp add: i_def t1_def)
  define c1 where "c1 = count_eviction (drop_entry i (c\<lparr>arc_t1 := t1\<rparr>))"
  obtain ys zs where b: "arc_b1 c = ys @ zs"
      "trim_ghost (arc_ghost_cap c) (arc_b1 c) (arc_b1_set c) = Some (ys, arc_b1_set c - set zs)"
    using trim_ghost_ends [of "arc_ghost_cap c" "arc_b1 c" "arc_b1_set c"] ok by (auto simp: arc_ok_def)
  define c' where "c' = c1\<lparr>arc_b1 := i # ys, arc_b1_set := insert i (arc_b1_set c - set zs)\<rparr>"
  have run: "evict_from_t1 c = Some (True, c')"
    using b(2) assms(2) by (simp add: evict_from_t1_def pop_back_def c'_def c1_def add_to_ghost_b1_def i_def t1_def)
  have drop: "arc_entries c' = Mapping.delete i (arc_entries c)"
      "unat (arc_current_bytes c') = resident_size c'"
    using dropped [OF ok, of i "c\<lparr>arc_t1 := t1\<rparr>"] t1
      resident_size_cong [of c' "drop_entry i (c\<lparr>arc_t1 := t1\<rparr>)"]
    by (simp_all add: c'_def c1_def)
  have "arc_ok c'"
    using ok drop t1 b(1) by (auto simp: arc_ok_def c'_def c1_def)
  then have "evicted i c c'"
    using drop(1) t1 b(1) by (auto simp: evicted_def same_limits_def members_def c'_def c1_def)
  with run show ?thesis
    by (simp add: i_def [symmetric] c'_def c1_def)
qed

lemma evict_t2:
  assumes ok: "arc_ok c" and "arc_t2 c \<noteq> []"
  shows "\<exists>c'. evict_from_t2 c = Some (True, c') \<and> evicted (last (arc_t2 c)) c c'"
proof -
  define i where "i = last (arc_t2 c)"
  define t2 where "t2 = butlast (arc_t2 c)"
  have t2: "arc_t2 c = t2 @ [i]"
    using assms(2) by (simp add: i_def t2_def)
  define c1 where "c1 = count_eviction (drop_entry i (c\<lparr>arc_t2 := t2\<rparr>))"
  obtain ys zs where b: "arc_b2 c = ys @ zs"
      "trim_ghost (arc_ghost_cap c) (arc_b2 c) (arc_b2_set c) = Some (ys, arc_b2_set c - set zs)"
    using trim_ghost_ends [of "arc_ghost_cap c" "arc_b2 c" "arc_b2_set c"] ok by (auto simp: arc_ok_def)
  define c' where "c' = c1\<lparr>arc_b2 := i # ys, arc_b2_set := insert i (arc_b2_set c - set zs)\<rparr>"
  have run: "evict_from_t2 c = Some (True, c')"
    using b(2) assms(2) by (simp add: evict_from_t2_def pop_back_def c'_def c1_def add_to_ghost_b2_def i_def t2_def)
  have drop: "arc_entries c' = Mapping.delete i (arc_entries c)"
      "unat (arc_current_bytes c') = resident_size c'"
    using dropped [OF ok, of i "c\<lparr>arc_t2 := t2\<rparr>"] t2
      resident_size_cong [of c' "drop_entry i (c\<lparr>arc_t2 := t2\<rparr>)"]
    by (simp_all add: c'_def c1_def)
  have "arc_ok c'"
    using ok drop t2 b(1) by (auto simp: arc_ok_def c'_def c1_def)
  then have "evicted i c c'"
    using drop(1) t2 b(1) by (auto simp: evicted_def same_limits_def members_def c'_def c1_def)
  with run show ?thesis
    by (auto simp: i_def [symmetric])
qed

lemma arc_replace_evicts:
  assumes ok: "arc_ok c" and "arc_t1 c \<noteq> [] \<or> arc_t2 c \<noteq> []"
  shows "\<exists>i c'. arc_replace c = Some (True, c') \<and> evicted i c c'"
proof (cases "if arc_t1 c = [] then False else if arc_t2 c = [] then True
          else arc_p c < word_of_nat (length (arc_t1 c))")
  case True
  then have "arc_replace c = evict_from_t1 c" "arc_t1 c \<noteq> []"
    by (simp_all add: arc_replace_def split: if_splits)
  then show ?thesis
    using evict_t1 [OF ok] by metis
next
  case False
  then have "arc_replace c = evict_from_t2 c" "arc_t2 c \<noteq> []"
    using assms(2) by (auto simp: arc_replace_def split: if_splits)
  then show ?thesis
    using evict_t2 [OF ok] by metis
qed

text \<open>What any number of evictions does.\<close>

definition shrunk :: "arc \<Rightarrow> arc \<Rightarrow> bool" where
  "shrunk c c' \<longleftrightarrow>
     arc_ok c' \<and> same_limits c c' \<and> members c' \<subseteq> members c \<and>
     (\<forall>i d. Mapping.lookup (arc_entries c') i = Some d \<longrightarrow> Mapping.lookup (arc_entries c) i = Some d)"

lemma shrunk_refl: "arc_ok c \<Longrightarrow> shrunk c c"
  by (simp add: shrunk_def same_limits_def)

lemma lookup_deleted: "Mapping.lookup (Mapping.delete i m) j = Some d \<Longrightarrow> Mapping.lookup m j = Some d"
  by (cases "i = j") simp_all

lemma evicted_shrunk: "evicted i c c' \<Longrightarrow> shrunk c' c'' \<Longrightarrow> shrunk c c''"
  by (auto simp: evicted_def shrunk_def same_limits_def dest: lookup_deleted)

lemma empty_resident:
  assumes "arc_ok c" and "arc_t1 c = []" and "arc_t2 c = []"
  shows "arc_current_bytes c = 0"
proof -
  have "Mapping.keys (arc_entries c) = {}"
    using assms by (simp add: arc_ok_def)
  then have "unat (arc_current_bytes c) = 0"
    using assms(1) by (simp add: arc_ok_def resident_size_def)
  then show ?thesis
    by (simp add: unat_eq_zero)
qed

lemma over_budget:
  fixes m a b :: u64
  assumes "m \<noteq> - 1"
  shows "m < sat_add a b \<longleftrightarrow> unat m < unat a + unat b"
proof -
  have "unat m \<noteq> unat (- 1 :: u64)"
    using assms by (simp add: unat_eq_iff)
  then have "unat m \<noteq> 2 ^ 64 - 1"
    by (simp add: unsigned_minus_1_eq_mask mask_eq_exp_minus_1)
  moreover have "unat m < 2 ^ 64"
    using unat_less_exp [of m] by simp
  ultimately have "unat m < 2 ^ 64 - 1"
    by linarith
  then show ?thesis
    by (simp add: word_less_nat_alt unat_sat_add)
qed

lemma ensure_room_ends:
  assumes "arc_ok c" and "n \<le> arc_max_bytes c"
  shows "\<exists>c'. ensure_room n c = Some c' \<and> shrunk c c' \<and> unat (arc_current_bytes c') + unat n \<le> unat (arc_max_bytes c)"
  using assms
proof (induction "length (arc_t1 c) + length (arc_t2 c)" arbitrary: c rule: less_induct)
  case less
  have limit: "arc_max_bytes c \<noteq> - 1"
    using less.prems(1) by (simp add: arc_ok_def)
  show ?case
  proof (cases "sat_add (arc_current_bytes c) n > arc_max_bytes c")
    case False
    then show ?thesis
      using shrunk_refl [OF less.prems(1)] over_budget [OF limit, of "arc_current_bytes c" n]
      by (simp add: ensure_room.simps [of n c])
  next
    case True
    have "arc_t1 c \<noteq> [] \<or> arc_t2 c \<noteq> []"
    proof (rule ccontr)
      assume "\<not> ?thesis"
      then have "arc_current_bytes c = 0"
        using empty_resident [OF less.prems(1)] by simp
      then show False
        using True over_budget [OF limit, of 0 n] less.prems(2) by (simp add: word_le_nat_alt)
    qed
    from arc_replace_evicts [OF less.prems(1) this]
    obtain i c1 where c1: "arc_replace c = Some (True, c1)" "evicted i c c1"
      by blast
    then have "arc_max_bytes c1 = arc_max_bytes c" "arc_ok c1"
      "length (arc_t1 c1) + length (arc_t2 c1) < length (arc_t1 c) + length (arc_t2 c)"
      by (simp_all add: evicted_def same_limits_def)
    with less.hyps [of c1] less.prems(2)
    obtain c' where "ensure_room n c1 = Some c'" "shrunk c1 c'"
      "unat (arc_current_bytes c') + unat n \<le> unat (arc_max_bytes c)"
      by auto
    then show ?thesis
      using True c1 evicted_shrunk [OF c1(2)] by (auto simp: ensure_room.simps [of n c])
  qed
qed

lemma evict_to_budget_ends:
  assumes "arc_ok c"
  shows "\<exists>c'. evict_to_budget c = Some c' \<and> shrunk c c' \<and> arc_current_bytes c' \<le> arc_max_bytes c"
  using assms
proof (induction "length (arc_t1 c) + length (arc_t2 c)" arbitrary: c rule: less_induct)
  case less
  show ?case
  proof (cases "arc_current_bytes c > arc_max_bytes c")
    case False
    then show ?thesis
      using shrunk_refl [OF less.prems] by (simp add: evict_to_budget.simps [of c])
  next
    case True
    have "arc_t1 c \<noteq> [] \<or> arc_t2 c \<noteq> []"
      using True empty_resident [OF less.prems] by auto
    from arc_replace_evicts [OF less.prems this] this
    obtain i c1 where c1: "arc_replace c = Some (True, c1)" "evicted i c c1"
      and ne: "\<not> (arc_t1 c = [] \<and> arc_t2 c = [])"
      by blast
    then have "arc_max_bytes c1 = arc_max_bytes c" "arc_ok c1"
      "length (arc_t1 c1) + length (arc_t2 c1) < length (arc_t1 c) + length (arc_t2 c)"
      by (simp_all add: evicted_def same_limits_def)
    with less.hyps [of c1]
    obtain c' where "evict_to_budget c1 = Some c'" "shrunk c1 c'" "arc_current_bytes c' \<le> arc_max_bytes c"
      by auto
    then show ?thesis
      using True c1 ne evicted_shrunk [OF c1(2)] by (auto simp: evict_to_budget.simps [of c])
  qed
qed

section \<open>Every operation keeps the invariant\<close>

definition arc_inv :: "arc \<Rightarrow> bool" where
  "arc_inv c \<longleftrightarrow> arc_ok c \<and> arc_current_bytes c \<le> arc_max_bytes c"

text \<open>Storing a piece that is in no list, in front of T1 or T2.\<close>

lemma store_inv:
  assumes ok: "arc_ok c" and new: "i \<notin> members c"
    and room: "unat (arc_current_bytes c) + unat (word_of_nat (length d) :: u64) \<le> unat (arc_max_bytes c)"
  shows "arc_inv ((store_entry i d c)\<lparr>arc_t1 := i # arc_t1 c\<rparr>)"
    and "arc_inv ((store_entry i d c)\<lparr>arc_t2 := i # arc_t2 c\<rparr>)"
proof -
  let ?n = "word_of_nat (length d) :: u64"
  have "i \<notin> Mapping.keys (arc_entries c)"
    using ok new by (auto simp: arc_ok_def members_def)
  from resident_size_update [OF arc_ok_finite [OF ok] this, of _ d]
  have size: "arc_entries c' = Mapping.update i d (arc_entries c) \<Longrightarrow>
      resident_size c' = unat (arc_current_bytes c) + unat ?n" for c'
    using ok by (simp add: arc_ok_def)
  have "unat (arc_max_bytes c) < 2 ^ 64"
    using unat_less_exp [of "arc_max_bytes c"] by simp
  then have bytes: "unat (sat_add (arc_current_bytes c) ?n) = unat (arc_current_bytes c) + unat ?n"
    using room by (simp add: unat_sat_add)
  note defs = arc_inv_def arc_ok_def store_entry_def members_def word_le_nat_alt
  show "arc_inv ((store_entry i d c)\<lparr>arc_t1 := i # arc_t1 c\<rparr>)"
    using ok new room bytes size [of "(store_entry i d c)\<lparr>arc_t1 := i # arc_t1 c\<rparr>"] by (auto simp: defs)
  show "arc_inv ((store_entry i d c)\<lparr>arc_t2 := i # arc_t2 c\<rparr>)"
    using ok new room bytes size [of "(store_entry i d c)\<lparr>arc_t2 := i # arc_t2 c\<rparr>"] by (auto simp: defs)
qed

lemma promote_eq:
  assumes "arc_ok c" and "i \<in> set (arc_t1 c) \<union> set (arc_t2 c)"
  shows "promote_to_t2 i c = c\<lparr>arc_t1 := filter (\<lambda>j. j \<noteq> i) (arc_t1 c),
    arc_t2 := i # filter (\<lambda>j. j \<noteq> i) (arc_t2 c)\<rparr>"
proof -
  have d: "distinct (arc_t1 c)" "distinct (arc_t2 c)" "set (arc_t1 c) \<inter> set (arc_t2 c) = {}"
    using assms(1) by (auto simp: arc_ok_def)
  have at: "remove_at pos xs = filter (\<lambda>j. j \<noteq> i) xs"
    if "distinct xs" "position (\<lambda>q. q = i) xs = Some pos" for xs :: "u32 list" and pos
    using remove_first_filter [OF that(1), of i] that(2) by (simp add: remove_first_def)
  show ?thesis
  proof (cases "position (\<lambda>q. q = i) (arc_t1 c)")
    case None
    then have "i \<notin> set (arc_t1 c)"
      by (auto simp: position_None)
    moreover then obtain pos where "position (\<lambda>q. q = i) (arc_t2 c) = Some pos"
      using assms(2) by (cases "position (\<lambda>q. q = i) (arc_t2 c)") (auto simp: position_None)
    ultimately show ?thesis
      using None at [OF d(2)] by (simp add: promote_to_t2_def filter_neq)
  next
    case (Some pos)
    then have "i \<in> set (arc_t1 c)"
      by (auto simp: position_Some)
    then have "i \<notin> set (arc_t2 c)"
      using d(3) by blast
    with Some at [OF d(1) Some] show ?thesis
      by (simp add: promote_to_t2_def filter_neq)
  qed
qed

lemma promote_inv:
  assumes "arc_ok c" and "i \<in> set (arc_t1 c) \<union> set (arc_t2 c)"
  shows "arc_ok (promote_to_t2 i c)" and "arc_entries (promote_to_t2 i c) = arc_entries c"
    and "members (promote_to_t2 i c) = members c" and "same_limits c (promote_to_t2 i c)"
    and "arc_current_bytes (promote_to_t2 i c) = arc_current_bytes c"
proof -
  have "resident_size (promote_to_t2 i c) = resident_size c"
    by (rule resident_size_cong) (simp add: promote_eq [OF assms])
  then show "arc_ok (promote_to_t2 i c)"
    using assms by (auto simp: promote_eq [OF assms] arc_ok_def)
  show "members (promote_to_t2 i c) = members c"
    using assms(2) by (auto simp: promote_eq [OF assms] members_def)
qed (simp_all add: promote_eq [OF assms] same_limits_def)

lemma store_room:
  assumes "arc_ok c" and "i \<notin> members c" and "word_of_nat (length d) \<le> arc_max_bytes c"
  shows "\<exists>c'. ensure_room (word_of_nat (length d)) c = Some c' \<and> shrunk c c'
    \<and> arc_inv ((store_entry i d c')\<lparr>arc_t1 := i # arc_t1 c'\<rparr>)
    \<and> arc_inv ((store_entry i d c')\<lparr>arc_t2 := i # arc_t2 c'\<rparr>)"
proof -
  obtain c' where c': "ensure_room (word_of_nat (length d)) c = Some c'" "shrunk c c'"
    "unat (arc_current_bytes c') + unat (word_of_nat (length d) :: u64) \<le> unat (arc_max_bytes c)"
    using ensure_room_ends [OF assms(1,3)] by blast
  then have "arc_ok c'" "i \<notin> members c'" "arc_max_bytes c' = arc_max_bytes c"
    using assms(2) by (auto simp: shrunk_def same_limits_def)
  with c' store_inv [of c' i d] show ?thesis
    by simp
qed

lemma unghost_b1:
  assumes "arc_ok c" and "i \<in> arc_b1_set c" and "q \<le> arc_ghost_cap c"
  shows "arc_ok (remove_from_ghost_b1 i (c\<lparr>arc_ghost_hits_b1 := h, arc_p := q\<rparr>))"
    and "i \<notin> members (remove_from_ghost_b1 i (c\<lparr>arc_ghost_hits_b1 := h, arc_p := q\<rparr>))"
proof -
  let ?c = "remove_from_ghost_b1 i (c\<lparr>arc_ghost_hits_b1 := h, arc_p := q\<rparr>)"
  have d: "distinct (arc_b1 c)"
    using assms(1) by (simp add: arc_ok_def)
  have "resident_size ?c = resident_size c"
    by (rule resident_size_cong) (simp add: remove_from_ghost_b1_def)
  then show "arc_ok ?c"
    using assms remove_first_distinct [OF d, of i] by (auto simp: arc_ok_def remove_from_ghost_b1_def)
  show "i \<notin> members ?c"
    using assms remove_first_distinct [OF d, of i]
    by (auto simp: arc_ok_def remove_from_ghost_b1_def members_def)
qed

lemma unghost_b2:
  assumes "arc_ok c" and "i \<in> arc_b2_set c" and "q \<le> arc_ghost_cap c"
  shows "arc_ok (remove_from_ghost_b2 i (c\<lparr>arc_ghost_hits_b2 := h, arc_p := q\<rparr>))"
    and "i \<notin> members (remove_from_ghost_b2 i (c\<lparr>arc_ghost_hits_b2 := h, arc_p := q\<rparr>))"
proof -
  let ?c = "remove_from_ghost_b2 i (c\<lparr>arc_ghost_hits_b2 := h, arc_p := q\<rparr>)"
  have d: "distinct (arc_b2 c)"
    using assms(1) by (simp add: arc_ok_def)
  have "resident_size ?c = resident_size c"
    by (rule resident_size_cong) (simp add: remove_from_ghost_b2_def)
  then show "arc_ok ?c"
    using assms remove_first_distinct [OF d, of i] by (auto simp: arc_ok_def remove_from_ghost_b2_def)
  show "i \<notin> members ?c"
    using assms remove_first_distinct [OF d, of i]
    by (auto simp: arc_ok_def remove_from_ghost_b2_def members_def)
qed

lemma not_member:
  assumes "arc_ok c" and "Mapping.lookup (arc_entries c) i = None" "i \<notin> arc_b1_set c" "i \<notin> arc_b2_set c"
  shows "i \<notin> members c"
proof -
  have "i \<notin> Mapping.keys (arc_entries c)"
    using assms(2) by (auto simp: keys_dom_lookup)
  with assms show ?thesis
    by (auto simp: arc_ok_def members_def)
qed

lemma arc_insert_inv:
  assumes inv: "arc_inv c"
  shows "\<exists>c'. arc_insert i d c = Some c' \<and> arc_inv c' \<and> arc_max_bytes c' = arc_max_bytes c
    \<and> arc_ghost_cap c' = arc_ghost_cap c
    \<and> (\<forall>j e. Mapping.lookup (arc_entries c') j = Some e \<longrightarrow>
         Mapping.lookup (arc_entries c) j = Some e \<or> j = i \<and> e = d)"
proof -
  have ok: "arc_ok c"
    using inv by (simp add: arc_inv_def)
  let ?n = "word_of_nat (length d) :: u64"
  consider "?n > arc_max_bytes c"
    | "?n \<le> arc_max_bytes c" "Mapping.lookup (arc_entries c) i \<noteq> None"
    | "?n \<le> arc_max_bytes c" "Mapping.lookup (arc_entries c) i = None" "i \<in> arc_b1_set c"
    | "?n \<le> arc_max_bytes c" "Mapping.lookup (arc_entries c) i = None" "i \<notin> arc_b1_set c" "i \<in> arc_b2_set c"
    | "?n \<le> arc_max_bytes c" "Mapping.lookup (arc_entries c) i = None" "i \<notin> arc_b1_set c" "i \<notin> arc_b2_set c"
    by fastforce
  then show ?thesis
  proof cases
    case 1
    with inv show ?thesis
      by (simp add: arc_insert_def)
  next
    case 2
    then have "i \<in> Mapping.keys (arc_entries c)"
      by (auto simp: keys_dom_lookup)
    then have "i \<in> set (arc_t1 c) \<union> set (arc_t2 c)"
      using ok by (simp add: arc_ok_def)
    note promote_inv [OF ok this]
    then show ?thesis
      using inv 2 by (simp add: arc_insert_def not_less [symmetric] arc_inv_def same_limits_def)
  next
    case 3
    define h where "h = sat_add (arc_ghost_hits_b1 c) 1"
    define q where "q = min (sat_add (arc_p c) (max 1 (word_of_nat (length (arc_b2 c))
        div word_of_nat (max (length (arc_b1 c)) 1)))) (arc_ghost_cap c)"
    define c1 where "c1 = remove_from_ghost_b1 i (c\<lparr>arc_ghost_hits_b1 := h, arc_p := q\<rparr>)"
    have c1: "arc_ok c1" "i \<notin> members c1" "arc_max_bytes c1 = arc_max_bytes c"
      "arc_ghost_cap c1 = arc_ghost_cap c" "arc_entries c1 = arc_entries c"
      using unghost_b1 [OF ok 3(3), of q h] by (simp_all add: c1_def q_def remove_from_ghost_b1_def)
    with store_room [of c1 i d] 3(1) obtain c2 where c2: "ensure_room ?n c1 = Some c2" "shrunk c1 c2"
      "arc_inv ((store_entry i d c2)\<lparr>arc_t2 := i # arc_t2 c2\<rparr>)"
      by auto
    have run: "arc_insert i d c = Some ((store_entry i d c2)\<lparr>arc_t2 := i # arc_t2 c2\<rparr>)"
      using 3 c2(1) by (simp add: arc_insert_def Let_def c1_def h_def q_def store_entry_def not_less [symmetric])
    show ?thesis
      using c1 c2 by (auto simp: run shrunk_def same_limits_def store_entry_def lookup_update' split: if_splits)
  next
    case 4
    define h where "h = sat_add (arc_ghost_hits_b2 c) 1"
    define q where "q = sat_sub (arc_p c) (max 1 (word_of_nat (length (arc_b1 c))
        div word_of_nat (max (length (arc_b2 c)) 1)))"
    define c1 where "c1 = remove_from_ghost_b2 i (c\<lparr>arc_ghost_hits_b2 := h, arc_p := q\<rparr>)"
    have "q \<le> arc_ghost_cap c"
      unfolding q_def by (rule order.trans [OF sat_sub_le]) (use ok in \<open>simp add: arc_ok_def\<close>)
    then have c1: "arc_ok c1" "i \<notin> members c1" "arc_max_bytes c1 = arc_max_bytes c"
      "arc_ghost_cap c1 = arc_ghost_cap c" "arc_entries c1 = arc_entries c"
      using unghost_b2 [OF ok 4(4), of q h] by (simp_all add: c1_def remove_from_ghost_b2_def)
    with store_room [of c1 i d] 4(1) obtain c2 where c2: "ensure_room ?n c1 = Some c2" "shrunk c1 c2"
      "arc_inv ((store_entry i d c2)\<lparr>arc_t2 := i # arc_t2 c2\<rparr>)"
      by auto
    have run: "arc_insert i d c = Some ((store_entry i d c2)\<lparr>arc_t2 := i # arc_t2 c2\<rparr>)"
      using 4 c2(1) by (simp add: arc_insert_def Let_def c1_def h_def q_def store_entry_def not_less [symmetric])
    show ?thesis
      using c1 c2 by (auto simp: run shrunk_def same_limits_def store_entry_def lookup_update' split: if_splits)
  next
    case 5
    from store_room [OF ok not_member [OF ok 5(2-4)] 5(1)]
    obtain c2 where c2: "ensure_room ?n c = Some c2" "shrunk c c2"
      "arc_inv ((store_entry i d c2)\<lparr>arc_t1 := i # arc_t1 c2\<rparr>)"
      by auto
    have run: "arc_insert i d c = Some ((store_entry i d c2)\<lparr>arc_t1 := i # arc_t1 c2\<rparr>)"
      using 5 c2(1) by (simp add: arc_insert_def Let_def store_entry_def not_less [symmetric])
    show ?thesis
      using c2 by (auto simp: run shrunk_def same_limits_def store_entry_def lookup_update' split: if_splits)
  qed
qed

lemma arc_get_inv:
  assumes inv: "arc_inv c"
  shows "arc_inv (snd (arc_get i c))" and "arc_entries (snd (arc_get i c)) = arc_entries c"
    and "members (snd (arc_get i c)) = members c" and "fst (arc_get i c) = Mapping.lookup (arc_entries c) i"
    and "same_limits c (snd (arc_get i c))"
proof -
  have ok: "arc_ok c"
    using inv by (simp add: arc_inv_def)
  have counters: "arc_ok (c'\<lparr>arc_hits := h\<rparr>) = arc_ok c'" "arc_ok (c'\<lparr>arc_misses := h\<rparr>) = arc_ok c'" for c' h
    by (simp_all add: arc_ok_def resident_size_def entry_size_def)
  have resident: "i \<in> set (arc_t1 c) \<union> set (arc_t2 c)" if "Mapping.lookup (arc_entries c) i = Some d" for d
  proof -
    have "i \<in> Mapping.keys (arc_entries c)"
      using that by (auto simp: keys_dom_lookup)
    then show ?thesis
      using ok by (simp add: arc_ok_def)
  qed
  note p = promote_inv [OF ok resident]
  show "arc_inv (snd (arc_get i c))"
    using inv p by (auto simp: arc_get_def arc_inv_def counters Let_def same_limits_def split: option.split)
  show "arc_entries (snd (arc_get i c)) = arc_entries c"
    using p by (simp add: arc_get_def Let_def split: option.split)
  show "members (snd (arc_get i c)) = members c"
    using p by (auto simp: arc_get_def Let_def members_def split: option.split)
  show "fst (arc_get i c) = Mapping.lookup (arc_entries c) i"
    by (simp add: arc_get_def Let_def split: option.split)
  show "same_limits c (snd (arc_get i c))"
    using p by (auto simp: arc_get_def Let_def same_limits_def split: option.split)
qed

lemma unghost_ok:
  assumes ok: "arc_ok c"
  shows "arc_ok (remove_from_ghost_b1 i c)" and "arc_ok (remove_from_ghost_b2 i c)"
    and "arc_current_bytes (remove_from_ghost_b1 i c) = arc_current_bytes c"
    and "arc_current_bytes (remove_from_ghost_b2 i c) = arc_current_bytes c"
    and "arc_max_bytes (remove_from_ghost_b1 i c) = arc_max_bytes c"
    and "arc_max_bytes (remove_from_ghost_b2 i c) = arc_max_bytes c"
proof -
  have d: "distinct (arc_b1 c)" "distinct (arc_b2 c)"
    using ok by (simp_all add: arc_ok_def)
  have r: "resident_size (remove_from_ghost_b1 i c) = resident_size c"
      "resident_size (remove_from_ghost_b2 i c) = resident_size c"
    by (rule resident_size_cong, simp add: remove_from_ghost_b1_def remove_from_ghost_b2_def)+
  have b: "set (remove_first i (arc_b1 c)) \<subseteq> set (arc_b1 c)" "set (remove_first i (arc_b2 c)) \<subseteq> set (arc_b2 c)"
    using remove_first_distinct(2) [OF d(1), of i] remove_first_distinct(2) [OF d(2), of i] by auto
  show "arc_ok (remove_from_ghost_b1 i c)"
    using ok r(1) b(1) remove_first_distinct [OF d(1), of i]
    by (simp add: arc_ok_def remove_from_ghost_b1_def) blast
  show "arc_ok (remove_from_ghost_b2 i c)"
    using ok r(2) b(2) remove_first_distinct [OF d(2), of i]
    by (simp add: arc_ok_def remove_from_ghost_b2_def) blast
qed (simp_all add: remove_from_ghost_b1_def remove_from_ghost_b2_def)

lemma arc_remove_inv:
  assumes inv: "arc_inv c"
  shows "arc_inv (snd (arc_remove i c))" and "arc_max_bytes (snd (arc_remove i c)) = arc_max_bytes c"
    and "Mapping.lookup (arc_entries (snd (arc_remove i c))) j
      = (if j = i then None else Mapping.lookup (arc_entries c) j)"
    and "i \<notin> members (snd (arc_remove i c)) \<or> fst (arc_remove i c)"
proof -
  have ok: "arc_ok c"
    using inv by (simp add: arc_inv_def)
  have d: "distinct (arc_t1 c)" "distinct (arc_t2 c)" "distinct (arc_b1 c)" "distinct (arc_b2 c)"
    "set (arc_t1 c) \<inter> set (arc_t2 c) = {}"
    using ok by (auto simp: arc_ok_def)
  show "arc_inv (snd (arc_remove i c))"
  proof (cases "Mapping.lookup (arc_entries c) i")
    case None
    note g = unghost_ok [OF ok, of i]
    with None inv unghost_ok [OF g(1), of i] show ?thesis
      by (simp add: arc_remove_def arc_inv_def)
  next
    case (Some e)
    then have "i \<in> Mapping.keys (arc_entries c)"
      by (auto simp: keys_dom_lookup)
    then have i: "i \<in> set (arc_t1 c) \<union> set (arc_t2 c)"
      using ok by (simp add: arc_ok_def)
    let ?c = "drop_entry i c"
    define c' where "c' = ?c\<lparr>arc_t1 := filter (\<lambda>j. j \<noteq> i) (arc_t1 c), arc_t2 := filter (\<lambda>j. j \<noteq> i) (arc_t2 c)\<rparr>"
    have c': "snd (arc_remove i c) = c'"
    proof (cases "position (\<lambda>q. q = i) (arc_t1 c)")
      case None
      then have "i \<notin> set (arc_t1 c)"
        by (auto simp: position_None)
      then show ?thesis
        using Some None remove_first_filter [OF d(2), of i] by (simp add: arc_remove_def Let_def c'_def filter_neq)
    next
      case (Some pos)
      then have "i \<in> set (arc_t1 c)"
        by (auto simp: position_Some)
      then have "i \<notin> set (arc_t2 c)"
        using d(5) by blast
      then show ?thesis
        using \<open>Mapping.lookup (arc_entries c) i = Some e\<close> Some remove_first_filter [OF d(1), of i]
        by (simp add: arc_remove_def Let_def c'_def filter_neq remove_first_def)
    qed
    have "arc_entries c' = Mapping.delete i (arc_entries c)" "unat (arc_current_bytes c') = resident_size c'"
      using dropped [OF ok i, of c] resident_size_cong [of c' ?c] by (simp_all add: c'_def)
    moreover have "arc_current_bytes c' \<le> arc_current_bytes c"
      using Some sat_sub_le by (simp add: c'_def drop_entry_def)
    ultimately show ?thesis
      using inv unfolding c' by (auto simp: arc_inv_def arc_ok_def c'_def)
  qed
  show "arc_max_bytes (snd (arc_remove i c)) = arc_max_bytes c"
    by (simp add: arc_remove_def Let_def remove_from_ghost_b1_def remove_from_ghost_b2_def split: option.split)
  show "Mapping.lookup (arc_entries (snd (arc_remove i c))) j
      = (if j = i then None else Mapping.lookup (arc_entries c) j)"
    by (auto simp: arc_remove_def Let_def remove_from_ghost_b1_def remove_from_ghost_b2_def drop_entry_def
        split: option.split)
  show "i \<notin> members (snd (arc_remove i c)) \<or> fst (arc_remove i c)"
  proof (cases "Mapping.lookup (arc_entries c) i")
    case None
    then have "i \<notin> Mapping.keys (arc_entries c)"
      by (auto simp: keys_dom_lookup)
    with None ok show ?thesis
      using remove_first_distinct [OF d(3), of i] remove_first_distinct [OF d(4), of i]
      by (auto simp: arc_remove_def members_def remove_from_ghost_b1_def remove_from_ghost_b2_def arc_ok_def)
  qed (simp add: arc_remove_def Let_def)
qed

lemma arc_clear_inv: "arc_inv c \<Longrightarrow> arc_inv (arc_clear c)"
  by (simp add: arc_inv_def arc_ok_def arc_clear_def resident_size_def)

lemma ghost_cap_positive:
  assumes "unat n < 2 ^ 50"
  shows "0 < ghost_cap_of n" and "n \<noteq> - 1"
proof -
  have "unat (max (n div (256 * 1024)) 16) = max (unat n div 262144) 16"
    by (simp add: unat_max unat_div)
  moreover have "unat n div 262144 < 2 ^ 32"
    using assms by (simp add: less_mult_imp_div_less)
  ultimately have "unat (ghost_cap_of n) = max (unat n div 262144) 16"
    by (simp add: ghost_cap_of_def unsigned_ucast_eq take_bit_nat_eq_self)
  then show "0 < ghost_cap_of n"
    by (simp add: word_less_nat_alt)
  have "unat (- 1 :: u64) = 2 ^ 64 - 1"
    by (simp add: unsigned_minus_1_eq_mask mask_eq_exp_minus_1)
  then show "n \<noteq> - 1"
    using assms by auto
qed

lemma set_max_bytes_inv:
  assumes inv: "arc_inv c" and n: "unat n < 2 ^ 50"
  shows "\<exists>c'. set_max_bytes n c = Some c' \<and> arc_inv c' \<and> arc_max_bytes c' = n
    \<and> (\<forall>j e. Mapping.lookup (arc_entries c') j = Some e \<longrightarrow> Mapping.lookup (arc_entries c) j = Some e)"
proof -
  let ?c = "c\<lparr>arc_max_bytes := n, arc_ghost_cap := ghost_cap_of n, arc_p := min (arc_p c) (ghost_cap_of n)\<rparr>"
  have "resident_size ?c = resident_size c"
    by (rule resident_size_cong) simp
  then have "arc_ok ?c"
    using inv ghost_cap_positive [OF n] by (simp add: arc_inv_def arc_ok_def)
  from evict_to_budget_ends [OF this] show ?thesis
    by (auto simp: set_max_bytes_def Let_def shrunk_def same_limits_def arc_inv_def)
qed

lemma arc_new_inv: "unat n < 2 ^ 50 \<Longrightarrow> arc_inv (arc_new n)"
  using ghost_cap_positive [of n] by (simp add: arc_inv_def arc_ok_def arc_new_def resident_size_def)

section \<open>Histories\<close>

datatype arc_op =
  ArcInsert u32 bytes
| ArcGet u32
| ArcRemove u32
| ArcClear
| ArcBudget u64

fun arc_step :: "arc_op \<Rightarrow> arc \<Rightarrow> arc option" where
  "arc_step (ArcInsert i d) c = arc_insert i d c"
| "arc_step (ArcGet i) c = Some (snd (arc_get i c))"
| "arc_step (ArcRemove i) c = Some (snd (arc_remove i c))"
| "arc_step ArcClear c = Some (arc_clear c)"
| "arc_step (ArcBudget n) c = set_max_bytes n c"

fun arc_run :: "arc_op list \<Rightarrow> arc \<Rightarrow> arc option" where
  "arc_run [] c = Some c"
| "arc_run (op # ops) c = (case arc_step op c of None \<Rightarrow> None | Some c' \<Rightarrow> arc_run ops c')"

definition budget_ok :: "arc_op \<Rightarrow> bool" where
  "budget_ok op = (case op of ArcBudget n \<Rightarrow> unat n < 2 ^ 50 | _ \<Rightarrow> True)"

text \<open>The data given for a piece since it was last removed.\<close>

fun live_data :: "u32 \<Rightarrow> arc_op \<Rightarrow> bytes set \<Rightarrow> bytes set" where
  "live_data i (ArcInsert j d) S = (if j = i then insert d S else S)"
| "live_data i (ArcRemove j) S = (if j = i then {} else S)"
| "live_data i ArcClear S = {}"
| "live_data i (ArcGet j) S = S"
| "live_data i (ArcBudget n) S = S"

definition holds_only :: "arc \<Rightarrow> (u32 \<Rightarrow> bytes set) \<Rightarrow> bool" where
  "holds_only c S \<longleftrightarrow> (\<forall>i e. Mapping.lookup (arc_entries c) i = Some e \<longrightarrow> e \<in> S i)"

lemma arc_step_inv:
  assumes inv: "arc_inv c" and "budget_ok op" and live: "holds_only c S"
  shows "\<exists>c'. arc_step op c = Some c' \<and> arc_inv c' \<and> holds_only c' (\<lambda>i. live_data i op (S i))"
proof (cases op)
  case (ArcInsert j d)
  with arc_insert_inv [OF inv, of j d] live show ?thesis
    unfolding holds_only_def by fastforce
next
  case (ArcGet j)
  with arc_get_inv [OF inv, of j] live show ?thesis
    by (simp add: holds_only_def)
next
  case (ArcRemove j)
  with arc_remove_inv [OF inv, of j] live show ?thesis
    by (simp add: holds_only_def)
next
  case ArcClear
  with arc_clear_inv [OF inv] show ?thesis
    by (simp add: arc_clear_def holds_only_def)
next
  case (ArcBudget n)
  with set_max_bytes_inv [OF inv, of n] assms(2) live show ?thesis
    unfolding holds_only_def budget_ok_def by fastforce
qed

lemma arc_run_inv:
  assumes "arc_inv c" and "list_all budget_ok ops" and "holds_only c S"
  shows "\<exists>c'. arc_run ops c = Some c' \<and> arc_inv c' \<and> holds_only c' (\<lambda>i. fold (live_data i) ops (S i))"
  using assms
proof (induction ops arbitrary: c S)
  case (Cons op ops)
  from Cons.prems(2) have "budget_ok op"
    by simp
  from arc_step_inv [OF Cons.prems(1) this Cons.prems(3)]
  obtain c1 where "arc_step op c = Some c1" "arc_inv c1" "holds_only c1 (\<lambda>i. live_data i op (S i))"
    by blast
  with Cons.IH [of c1 "\<lambda>i. live_data i op (S i)"] Cons.prems(2) show ?case
    by simp
qed simp

text \<open>
  C20: with budgets below a pebibyte every sequence of inserts, lookups, removals, clearings and
  budget changes returns. Afterwards no piece is in two of the four lists, exactly the pieces of T1
  and T2 have data, the byte count is the true size of the data and within the budget, the target of
  T1 is within the ghost capacity, and a lookup returns only data that was inserted for the piece
  after its last removal.
\<close>

theorem arc_cache_correct:
  assumes "unat b < 2 ^ 50" and "list_all budget_ok ops"
  shows "\<exists>c. arc_run ops (arc_new b) = Some c \<and>
    distinct (arc_t1 c @ arc_t2 c @ arc_b1 c @ arc_b2 c) \<and>
    Mapping.keys (arc_entries c) = set (arc_t1 c @ arc_t2 c) \<and>
    unat (arc_current_bytes c) = (\<Sum>i \<in> Mapping.keys (arc_entries c). entry_size c i) \<and>
    arc_current_bytes c \<le> arc_max_bytes c \<and> arc_p c \<le> arc_ghost_cap c \<and>
    (fst (arc_get i c) = Some d \<longrightarrow> d \<in> fold (live_data i) ops {})"
proof -
  have "holds_only (arc_new b) (\<lambda>_. {})"
    by (simp add: arc_new_def holds_only_def)
  from arc_run_inv [OF arc_new_inv [OF assms(1)] assms(2) this]
  obtain c where c: "arc_run ops (arc_new b) = Some c" "arc_inv c"
    "holds_only c (\<lambda>i. fold (live_data i) ops {})"
    by blast
  then have "fst (arc_get i c) = Some d \<longrightarrow> d \<in> fold (live_data i) ops {}"
    by (simp add: arc_get_inv(4) [OF c(2)] holds_only_def)
  with c show ?thesis
    by (intro exI [of _ c]) (simp add: arc_inv_def arc_ok_def resident_size_def)
qed

theorem arc_cache_correct_witness:
  "\<exists>c. arc_run [ArcInsert 3 [1, 2], ArcInsert 4 [5], ArcGet 3, ArcBudget 2, ArcRemove 4] (arc_new 3) = Some c
     \<and> arc_current_bytes c \<le> arc_max_bytes c"
proof -
  have "unat (3 :: u64) < 2 ^ 50"
    and "list_all budget_ok [ArcInsert 3 [1, 2], ArcInsert 4 [5], ArcGet 3, ArcBudget 2, ArcRemove 4]"
    by (simp_all add: budget_ok_def)
  from arc_cache_correct [OF this] show ?thesis
    by blast
qed

section \<open>Resistance to scans\<close>

definition frequent_size :: "arc \<Rightarrow> nat" where
  "frequent_size c = (\<Sum>i \<in> set (arc_t2 c). entry_size c i)"

lemma new_length:
  fixes xs :: "u32 list"
  assumes "distinct xs" and "i \<notin> set xs"
  shows "length xs < 2 ^ 32"
proof -
  have "set xs \<subset> UNIV"
    using assms(2) by blast
  then have "card (set xs) < card (UNIV :: u32 set)"
    by (rule psubset_card_mono [rotated]) simp
  then show ?thesis
    using assms(1) by (simp add: distinct_card card_word)
qed

text \<open>With target zero and room beside T2, only pieces of T1 are evicted.\<close>

lemma ensure_room_spares_t2:
  assumes "arc_ok c" and "arc_p c = 0" and "i \<notin> members c"
    and "frequent_size c + unat n \<le> unat (arc_max_bytes c)"
  shows "\<exists>c'. ensure_room n c = Some c' \<and> arc_t2 c' = arc_t2 c
    \<and> (\<forall>j \<in> set (arc_t2 c). Mapping.lookup (arc_entries c') j = Mapping.lookup (arc_entries c) j)"
  using assms
proof (induction "length (arc_t1 c) + length (arc_t2 c)" arbitrary: c rule: less_induct)
  case less
  note ok = less.prems(1)
  have limit: "arc_max_bytes c \<noteq> - 1" and d: "distinct (arc_t1 c)" and i: "i \<notin> set (arc_t1 c)"
    using less.prems(1,3) by (auto simp: arc_ok_def members_def)
  show ?case
  proof (cases "sat_add (arc_current_bytes c) n > arc_max_bytes c")
    case False
    then show ?thesis
      by (simp add: ensure_room.simps [of n c])
  next
    case True
    have t1: "arc_t1 c \<noteq> []"
    proof
      assume "arc_t1 c = []"
      then have "unat (arc_current_bytes c) = frequent_size c"
        using ok by (simp add: arc_ok_def resident_size_def frequent_size_def)
      then show False
        using True less.prems(4) by (simp add: over_budget [OF limit])
    qed
    have "0 < length (arc_t1 c)" "length (arc_t1 c) < 2 ^ 32"
      using t1 new_length [OF d i] by simp_all
    then have "0 < (word_of_nat (length (arc_t1 c)) :: u32)"
      by (simp add: word_less_nat_alt unsigned_of_nat take_bit_nat_eq_self)
    then have "arc_replace c = evict_from_t1 c"
      using t1 less.prems(2) by (simp add: arc_replace_def)
    with evict_t1 [OF ok t1] obtain c1 where c1: "arc_replace c = Some (True, c1)"
      "evicted (last (arc_t1 c)) c c1" "arc_t2 c1 = arc_t2 c"
      by auto
    have last: "last (arc_t1 c) \<notin> set (arc_t2 c)"
      using ok last_in_set [OF t1] by (auto simp: arc_ok_def)
    then have same: "Mapping.lookup (arc_entries c1) j = Mapping.lookup (arc_entries c) j" if "j \<in> set (arc_t2 c)" for j
      using c1(2) that by (cases "j = last (arc_t1 c)") (auto simp: evicted_def)
    then have "frequent_size c1 = frequent_size c"
      unfolding frequent_size_def c1(3) by (intro sum.cong) (simp_all add: entry_size_def)
    then obtain c' where "ensure_room n c1 = Some c'" "arc_t2 c' = arc_t2 c1"
        "\<forall>j \<in> set (arc_t2 c1). Mapping.lookup (arc_entries c') j = Mapping.lookup (arc_entries c1) j"
      using less.hyps [of c1] c1(2) less.prems by (auto simp: evicted_def same_limits_def)
    then show ?thesis
      using True c1 same by (simp add: ensure_room.simps [of n c])
  qed
qed

lemma scan_step:
  assumes inv: "arc_inv c" and p: "arc_p c = 0" and new: "i \<notin> members c"
    and fits: "frequent_size c + unat (word_of_nat (length d) :: u64) \<le> unat (arc_max_bytes c)"
  shows "\<exists>c'. arc_insert i d c = Some c' \<and> arc_inv c' \<and> arc_p c' = 0 \<and> members c' \<subseteq> insert i (members c)
    \<and> arc_max_bytes c' = arc_max_bytes c \<and> arc_t2 c' = arc_t2 c \<and> frequent_size c' = frequent_size c
    \<and> (\<forall>j \<in> set (arc_t2 c). Mapping.lookup (arc_entries c') j = Mapping.lookup (arc_entries c) j)"
proof -
  let ?n = "word_of_nat (length d) :: u64"
  have ok: "arc_ok c"
    using inv by (simp add: arc_inv_def)
  then have miss: "i \<notin> Mapping.keys (arc_entries c)" "i \<notin> arc_b1_set c" "i \<notin> arc_b2_set c"
    using new by (auto simp: arc_ok_def members_def)
  then have none: "Mapping.lookup (arc_entries c) i = None"
    by (auto simp: keys_dom_lookup)
  have n: "?n \<le> arc_max_bytes c"
    using fits by (simp add: word_le_nat_alt)
  from store_room [OF ok new n] obtain c1 where c1: "ensure_room ?n c = Some c1" "shrunk c c1"
    "arc_inv ((store_entry i d c1)\<lparr>arc_t1 := i # arc_t1 c1\<rparr>)"
    by blast
  from ensure_room_spares_t2 [OF ok p new fits] c1(1)
  have t2: "arc_t2 c1 = arc_t2 c"
    "\<forall>j \<in> set (arc_t2 c). Mapping.lookup (arc_entries c1) j = Mapping.lookup (arc_entries c) j"
    by auto
  let ?c = "(store_entry i d c1)\<lparr>arc_t1 := i # arc_t1 c1\<rparr>"
  have run: "arc_insert i d c = Some ?c"
    using n none miss c1(1) by (simp add: arc_insert_def Let_def store_entry_def not_less [symmetric])
  have i: "i \<notin> set (arc_t2 c)"
    using new by (simp add: members_def)
  have same: "Mapping.lookup (arc_entries ?c) j = Mapping.lookup (arc_entries c) j" if "j \<in> set (arc_t2 c)" for j
    using that i t2(2) by (auto simp: store_entry_def lookup_update')
  have "frequent_size ?c = frequent_size c"
    unfolding frequent_size_def using same by (intro sum.cong) (auto simp: entry_size_def store_entry_def t2(1))
  moreover have "arc_p ?c = 0" "arc_max_bytes ?c = arc_max_bytes c" "members ?c \<subseteq> insert i (members c)"
    using c1(2) p by (auto simp: shrunk_def same_limits_def store_entry_def members_def)
  ultimately show ?thesis
    using run c1(3) same t2(1) by (simp add: store_entry_def)
qed

text \<open>
  a scan does not pollute the cache. While there were no ghost hits, inserting any number of
  new, distinct pieces, each of which fits beside the pieces of T2, leaves T2 and its data
  untouched.
\<close>

theorem scan_resistance:
  assumes "arc_inv c" and "arc_p c = 0" and "distinct (map fst scan)" and "set (map fst scan) \<inter> members c = {}"
    and "list_all (\<lambda>(i, d). frequent_size c + unat (word_of_nat (length d) :: u64) \<le> unat (arc_max_bytes c)) scan"
  shows "\<exists>c'. arc_run (map (\<lambda>(i, d). ArcInsert i d) scan) c = Some c' \<and> arc_t2 c' = arc_t2 c
    \<and> (\<forall>j \<in> set (arc_t2 c). fst (arc_get j c') = fst (arc_get j c))"
proof -
  have "\<exists>c'. arc_run (map (\<lambda>(i, d). ArcInsert i d) scan) c = Some c' \<and> arc_inv c' \<and> arc_t2 c' = arc_t2 c
    \<and> (\<forall>j \<in> set (arc_t2 c). Mapping.lookup (arc_entries c') j = Mapping.lookup (arc_entries c) j)"
    using assms
  proof (induction scan arbitrary: c)
    case (Cons x scan)
    obtain i d where x: "x = (i, d)"
      by (cases x)
    from scan_step [OF Cons.prems(1,2), of i d] Cons.prems(4,5) x
    obtain c1 where c1: "arc_insert i d c = Some c1" "arc_inv c1" "arc_p c1 = 0" "members c1 \<subseteq> insert i (members c)"
      "arc_max_bytes c1 = arc_max_bytes c" "arc_t2 c1 = arc_t2 c" "frequent_size c1 = frequent_size c"
      "\<forall>j \<in> set (arc_t2 c). Mapping.lookup (arc_entries c1) j = Mapping.lookup (arc_entries c) j"
      by auto
    have "set (map fst scan) \<inter> members c1 = {}"
      using Cons.prems(3,4) c1(4) x by auto
    with Cons.IH [OF c1(2,3)] Cons.prems(3,5) c1 x show ?case
      by auto
  qed simp
  then show ?thesis
    using arc_get_inv(4) assms(1) by metis
qed

theorem scan_resistance_witness:
  "\<exists>c c'. arc_run [ArcInsert 1 [7], ArcGet 1] (arc_new 10) = Some c \<and> arc_t2 c = [1]
     \<and> arc_run [ArcInsert 2 [1, 2, 3, 4, 5, 6, 7, 8], ArcInsert 3 [1, 2, 3], ArcInsert 4 [2, 3]] c = Some c'
     \<and> arc_t2 c' = [1]"
proof -
  obtain c where run: "arc_run [ArcInsert 1 [7], ArcGet 1] (arc_new 10) = Some c"
    and c: "arc_t1 c = []" "arc_t2 c = [1]" "arc_b1 c = []" "arc_b2 c = []" "arc_p c = 0" "arc_max_bytes c = 10"
      "Mapping.lookup (arc_entries c) 1 = Some [7]"
    by (simp add: arc_insert_def arc_new_def ensure_room.simps sat_add_def store_entry_def arc_get_def
        promote_to_t2_def lookup_update' remove_at_def)
  have small: "unat (10 :: u64) < 2 ^ 50" and ops: "list_all budget_ok [ArcInsert 1 [7], ArcGet 1]"
    and empty: "holds_only (arc_new 10) (\<lambda>_. {})"
    by (simp_all add: budget_ok_def holds_only_def arc_new_def)
  have inv: "arc_inv c"
    using arc_run_inv [OF arc_new_inv [OF small] ops empty] run by simp
  let ?scan = "[(2, [1, 2, 3, 4, 5, 6, 7, 8]), (3, [1, 2, 3]), (4, [2, 3])] :: (u32 \<times> bytes) list"
  have "distinct (map fst ?scan)" "set (map fst ?scan) \<inter> members c = {}"
    "list_all (\<lambda>(i, d). frequent_size c + unat (word_of_nat (length d) :: u64) \<le> unat (arc_max_bytes c)) ?scan"
    using c by (simp_all add: members_def frequent_size_def entry_size_def)
  from scan_resistance [OF inv c(5) this] run c(2) show ?thesis
    by auto
qed
end
