(* ===== verification/Group.thy ===== *)
theory Group
  imports Prelude "HOL-Library.Mapping"
begin

text \<open>
  Closed share groups, \<open>crates/p2p-distribute/src/group.rs\<close>: the roles, the roster and its four
  mutating operations. Peer identities are compared only, so they are a type variable; the
  network identity of the group is not read by any operation and is left out.
\<close>

section \<open>Roles\<close>

datatype group_role = Master | Admin | Mirror | Reader

fun privilege_level :: "group_role \<Rightarrow> u8" where
  "privilege_level Master = 3"
| "privilege_level Admin = 2"
| "privilege_level Mirror = 1"
| "privilege_level Reader = 0"

definition can_manage :: "group_role \<Rightarrow> group_role \<Rightarrow> bool" where
  "can_manage actor target =
     (case actor of
        Master \<Rightarrow> privilege_level actor > privilege_level target
      | Admin \<Rightarrow> privilege_level actor > privilege_level target
      | Mirror \<Rightarrow> False
      | Reader \<Rightarrow> False)"

definition can_publish :: "group_role \<Rightarrow> bool" where
  "can_publish r \<longleftrightarrow> r = Master"

definition role_can_serve :: "group_role \<Rightarrow> bool" where
  "role_can_serve r \<longleftrightarrow> r \<noteq> Reader"

section \<open>The roster\<close>

definition MAX_GROUP_MEMBERS :: nat where "MAX_GROUP_MEMBERS = 500"

record 'p group_member =
  gm_peer :: 'p
  gm_role :: group_role
  gm_join_seq :: u64

datatype 'p group_error =
    GroupFull nat
  | AlreadyMember 'p group_role
  | NotMember 'p
  | InsufficientPrivilege group_role group_role
  | CannotRemoveMaster
  | CannotDemoteMaster
  | OnlyMasterCanPromoteAdmin
  | MultipleMasters

record 'p group_roster =
  gr_members :: "('p, 'p group_member) mapping"
  gr_next_seq :: u64

definition gr_new :: "'p \<Rightarrow> 'p group_roster" where
  "gr_new master =
     \<lparr>gr_members = Mapping.update master \<lparr>gm_peer = master, gm_role = Master, gm_join_seq = 0\<rparr> Mapping.empty,
      gr_next_seq = 1\<rparr>"

definition gr_get :: "'p group_roster \<Rightarrow> 'p \<Rightarrow> 'p group_member option" where
  "gr_get g p = Mapping.lookup (gr_members g) p"

definition role_of :: "'p group_roster \<Rightarrow> 'p \<Rightarrow> group_role option" where
  "role_of g p = map_option gm_role (gr_get g p)"

definition require_member_role :: "'p group_roster \<Rightarrow> 'p \<Rightarrow> 'p group_error + group_role" where
  "require_member_role g p = ok_or (role_of g p) (NotMember p)"

definition set_role :: "'p \<Rightarrow> group_role \<Rightarrow> 'p group_roster \<Rightarrow> 'p group_roster" where
  "set_role p r g =
     (case gr_get g p of
        None \<Rightarrow> g
      | Some m \<Rightarrow> g\<lparr>gr_members := Mapping.update p (m\<lparr>gm_role := r\<rparr>) (gr_members g)\<rparr>)"

definition add_member ::
  "'p \<Rightarrow> 'p \<Rightarrow> group_role \<Rightarrow> 'p group_roster \<Rightarrow> ('p group_error + 'p group_member) \<times> 'p group_roster" where
  "add_member actor new_peer role g =
     (if role = Master then (Inl MultipleMasters, g)
      else
        case require_member_role g actor of
          Inl e \<Rightarrow> (Inl e, g)
        | Inr actor_role \<Rightarrow>
            if role = Admin \<and> actor_role \<noteq> Master then (Inl OnlyMasterCanPromoteAdmin, g)
            else if role \<noteq> Admin \<and> \<not> can_manage actor_role role
            then (Inl (InsufficientPrivilege actor_role role), g)
            else
              case gr_get g new_peer of
                Some existing \<Rightarrow> (Inl (AlreadyMember new_peer (gm_role existing)), g)
              | None \<Rightarrow>
                  if Mapping.size (gr_members g) \<ge> MAX_GROUP_MEMBERS
                  then (Inl (GroupFull MAX_GROUP_MEMBERS), g)
                  else
                    let m = \<lparr>gm_peer = new_peer, gm_role = role, gm_join_seq = gr_next_seq g\<rparr>
                    in (Inr m, g\<lparr>gr_next_seq := sat_add (gr_next_seq g) 1,
                                 gr_members := Mapping.update new_peer m (gr_members g)\<rparr>))"

definition remove_member ::
  "'p \<Rightarrow> 'p \<Rightarrow> 'p group_roster \<Rightarrow> ('p group_error + 'p group_member) \<times> 'p group_roster" where
  "remove_member actor target g =
     (case require_member_role g target of
        Inl e \<Rightarrow> (Inl e, g)
      | Inr target_role \<Rightarrow>
          if target_role = Master then (Inl CannotRemoveMaster, g)
          else
            case require_member_role g actor of
              Inl e \<Rightarrow> (Inl e, g)
            | Inr actor_role \<Rightarrow>
                if \<not> can_manage actor_role target_role
                then (Inl (InsufficientPrivilege actor_role target_role), g)
                else (ok_or (gr_get g target) (NotMember target),
                      g\<lparr>gr_members := Mapping.delete target (gr_members g)\<rparr>))"

definition change_role ::
  "'p \<Rightarrow> 'p \<Rightarrow> group_role \<Rightarrow> 'p group_roster \<Rightarrow> ('p group_error + unit) \<times> 'p group_roster" where
  "change_role actor target new_role g =
     (case gr_get g target of
        None \<Rightarrow> (Inl (NotMember target), g)
      | Some target_member \<Rightarrow>
          if gm_role target_member = Master then (Inl CannotDemoteMaster, g)
          else if new_role = Master then (Inl MultipleMasters, g)
          else
            case require_member_role g actor of
              Inl e \<Rightarrow> (Inl e, g)
            | Inr actor_role \<Rightarrow>
                if new_role = Admin \<and> actor_role \<noteq> Master then (Inl OnlyMasterCanPromoteAdmin, g)
                else if new_role \<noteq> Admin \<and> \<not> can_manage actor_role (gm_role target_member)
                   \<and> \<not> can_manage actor_role new_role
                then (Inl (InsufficientPrivilege actor_role (gm_role target_member)), g)
                else (Inr (), set_role target new_role g))"

definition transfer_master ::
  "'p \<Rightarrow> 'p \<Rightarrow> 'p group_roster \<Rightarrow> ('p group_error + unit) \<times> 'p group_roster" where
  "transfer_master current_master new_master g =
     (case require_member_role g current_master of
        Inl e \<Rightarrow> (Inl e, g)
      | Inr actor_role \<Rightarrow>
          if actor_role \<noteq> Master then (Inl (InsufficientPrivilege actor_role Master), g)
          else
            case require_member_role g new_master of
              Inl e \<Rightarrow> (Inl e, g)
            | Inr _ \<Rightarrow> (Inr (), set_role new_master Master (set_role current_master Admin g)))"

datatype 'p group_call =
    AddMember 'p 'p group_role
  | RemoveMember 'p 'p
  | ChangeRole 'p 'p group_role
  | TransferMaster 'p 'p

fun caller :: "'p group_call \<Rightarrow> 'p" where
  "caller (AddMember a p r) = a"
| "caller (RemoveMember a p) = a"
| "caller (ChangeRole a p r) = a"
| "caller (TransferMaster a p) = a"

fun gr_step :: "'p group_call \<Rightarrow> 'p group_roster \<Rightarrow> 'p group_roster" where
  "gr_step (AddMember a p r) g = snd (add_member a p r g)"
| "gr_step (RemoveMember a p) g = snd (remove_member a p g)"
| "gr_step (ChangeRole a p r) g = snd (change_role a p r g)"
| "gr_step (TransferMaster a p) g = snd (transfer_master a p g)"

section \<open>The roles after each call\<close>

lemma can_manage_cases:
  "can_manage a t \<longleftrightarrow> (a = Master \<and> t \<noteq> Master) \<or> (a = Admin \<and> (t = Mirror \<or> t = Reader))"
  by (cases a; cases t) (simp_all add: can_manage_def)

lemma role_of_new: "role_of (gr_new p) = [p \<mapsto> Master]"
  by (auto simp: role_of_def gr_get_def gr_new_def fun_eq_iff lookup_update')

lemma role_of_set_role [simp]:
  "role_of (set_role p r g) = (if role_of g p = None then role_of g else (role_of g)(p \<mapsto> r))"
  by (auto simp: role_of_def gr_get_def set_role_def fun_eq_iff lookup_update' split: option.split)

lemma role_of_update:
  "role_of (g\<lparr>gr_next_seq := n, gr_members := Mapping.update p m (gr_members g)\<rparr>)
     = (role_of g)(p \<mapsto> gm_role m)"
  by (auto simp: role_of_def gr_get_def fun_eq_iff lookup_update')

lemma role_of_delete:
  "role_of (g\<lparr>gr_members := Mapping.delete p (gr_members g)\<rparr>) = (role_of g)(p := None)"
proof
  fix q
  show "role_of (g\<lparr>gr_members := Mapping.delete p (gr_members g)\<rparr>) q = ((role_of g)(p := None)) q"
    by (cases "p = q") (auto simp: role_of_def gr_get_def)
qed

lemma require_member_role_eq:
  "require_member_role g p = (case role_of g p of None \<Rightarrow> Inl (NotMember p) | Some r \<Rightarrow> Inr r)"
  by (simp add: require_member_role_def ok_or_def split: option.split)

lemma gr_get_role: "gr_get g p = None \<longleftrightarrow> role_of g p = None" "gr_get g p = Some m \<Longrightarrow> role_of g p = Some (gm_role m)"
  by (simp_all add: role_of_def)

text \<open>The policy: what a call may do to the roles, and on whose authority.\<close>

definition may_assign :: "('p \<Rightarrow> group_role option) \<Rightarrow> 'p \<Rightarrow> group_role \<Rightarrow> bool" where
  "may_assign roles a r \<longleftrightarrow> roles a = Some Master \<or> (roles a = Some Admin \<and> r \<noteq> Admin)"

inductive policy ::
  "'p group_call \<Rightarrow> ('p \<Rightarrow> group_role option) \<Rightarrow> ('p \<Rightarrow> group_role option) \<Rightarrow> bool" where
  refused: "policy call roles roles"
| added: "policy (AddMember a p r) roles (roles(p \<mapsto> r))"
    if "roles p = None" and "r \<noteq> Master" and "may_assign roles a r"
| removed: "policy (RemoveMember a p) roles (roles(p := None))"
    if "roles p = Some t" and "t \<noteq> Master" and "may_assign roles a t"
| changed: "policy (ChangeRole a p r) roles (roles(p \<mapsto> r))"
    if "roles p = Some t" and "t \<noteq> Master" and "r \<noteq> Master" and "may_assign roles a r"
| transferred: "policy (TransferMaster a p) roles (roles(a \<mapsto> Admin, p \<mapsto> Master))"
    if "roles a = Some Master" and "roles p \<noteq> None"

lemma policy_holds: "policy call (role_of g) (role_of (gr_step call g))"
proof (cases call)
  case (AddMember a p r)
  then show ?thesis
    by (auto simp: add_member_def require_member_role_eq can_manage_cases gr_get_role role_of_update Let_def
        may_assign_def intro!: policy.refused policy.added split: option.split)
next
  case (RemoveMember a p)
  then show ?thesis
    by (auto simp: remove_member_def require_member_role_eq can_manage_cases role_of_delete may_assign_def
        intro!: policy.refused policy.removed split: option.split)
next
  case (ChangeRole a p r)
  then show ?thesis
    by (auto simp: change_role_def require_member_role_eq can_manage_cases may_assign_def
        intro!: policy.refused policy.changed dest: gr_get_role(2) split: option.split)
next
  case (TransferMaster a p)
  then show ?thesis
    using policy.transferred [of "role_of g" a p]
    by (cases "a = p") (auto simp: transfer_master_def require_member_role_eq intro!: policy.refused split: option.split)
qed

section \<open>Invariant\<close>

definition one_master :: "'p group_roster \<Rightarrow> bool" where
  "one_master g \<longleftrightarrow> (\<exists>!p. role_of g p = Some Master)"

definition members_ok :: "'p group_roster \<Rightarrow> bool" where
  "members_ok g \<longleftrightarrow> finite (Mapping.keys (gr_members g))
     \<and> Mapping.size (gr_members g) \<le> MAX_GROUP_MEMBERS
     \<and> (\<forall>p m. gr_get g p = Some m \<longrightarrow> gm_peer m = p)"

lemma policy_one_master:
  assumes "policy call roles roles'" and "\<And>p. roles p = Some Master \<longleftrightarrow> p = m"
  shows "\<exists>n. \<forall>p. roles' p = Some Master \<longleftrightarrow> p = n"
  using assms
proof (induction call roles roles' rule: policy.induct)
  case (refused call roles)
  then show ?case
    by blast
next
  case (added roles p r a)
  then have "p \<noteq> m"
    by (metis option.distinct(1))
  with added show ?case
    by (intro exI [of _ m]) simp
next
  case (removed roles p t a)
  then have "p \<noteq> m"
    by (metis option.inject)
  with removed show ?case
    by (intro exI [of _ m]) simp
next
  case (changed roles p t r a)
  then have "p \<noteq> m"
    by (metis option.inject)
  with changed show ?case
    by (intro exI [of _ m]) simp
next
  case (transferred roles a p)
  then show ?case
    by (intro exI [of _ p]) simp
qed

lemma one_master_step:
  assumes "one_master g"
  shows "one_master (gr_step call g)"
proof -
  obtain m where "\<And>p. role_of g p = Some Master \<longleftrightarrow> p = m"
    using assms unfolding one_master_def by blast
  from policy_one_master [OF policy_holds [of call] this]
  obtain n where "\<And>p. role_of (gr_step call g) p = Some Master \<longleftrightarrow> p = n"
    by blast
  then show ?thesis
    by (simp add: one_master_def)
qed

lemma gr_get_set_role:
  "gr_get (set_role p r g) q
     = (if q = p then map_option (\<lambda>m. m\<lparr>gm_role := r\<rparr>) (gr_get g p) else gr_get g q)"
  by (auto simp: set_role_def gr_get_def lookup_update' split: option.split)

lemma keys_set_role [simp]: "Mapping.keys (gr_members (set_role p r g)) = Mapping.keys (gr_members g)"
  by (auto simp: set_role_def gr_get_def keys_is_none_rep lookup_update' Option.is_none_def split: option.split)

lemma members_ok_set_role: "members_ok g \<Longrightarrow> members_ok (set_role p r g)"
  by (auto simp: members_ok_def gr_get_set_role Mapping.size_def split: if_splits)

lemma members_ok_add:
  assumes "members_ok g" and "Mapping.size (gr_members g) < MAX_GROUP_MEMBERS"
  shows "members_ok (g\<lparr>gr_next_seq := n,
    gr_members := Mapping.update p \<lparr>gm_peer = p, gm_role = r, gm_join_seq = k\<rparr> (gr_members g)\<rparr>)"
proof -
  have "card (insert p (Mapping.keys (gr_members g))) \<le> MAX_GROUP_MEMBERS"
    using assms by (simp add: members_ok_def Mapping.size_def card_insert_if)
  then show ?thesis
    using assms by (auto simp: members_ok_def gr_get_def Mapping.size_def lookup_update' split: if_splits)
qed

lemma members_ok_delete:
  assumes "members_ok g"
  shows "members_ok (g\<lparr>gr_members := Mapping.delete p (gr_members g)\<rparr>)"
proof -
  have "card (Mapping.keys (gr_members g) - {p}) \<le> MAX_GROUP_MEMBERS"
    using assms by (intro order_trans [OF card_Diff1_le]) (auto simp: members_ok_def Mapping.size_def)
  moreover have "Mapping.lookup (Mapping.delete p (gr_members g)) q = Some m
      \<Longrightarrow> Mapping.lookup (gr_members g) q = Some m" for q m
    by (cases "p = q") auto
  ultimately show ?thesis
    using assms by (auto simp: members_ok_def gr_get_def Mapping.size_def)
qed

lemma members_ok_step:
  assumes "members_ok g"
  shows "members_ok (gr_step call g)"
proof (cases call)
  case (AddMember a p r)
  then show ?thesis
    using assms by (auto simp: add_member_def Let_def intro!: members_ok_add split: sum.split option.split)
next
  case (RemoveMember a p)
  then show ?thesis
    using assms by (auto simp: remove_member_def intro!: members_ok_delete split: sum.split)
next
  case (ChangeRole a p r)
  then show ?thesis
    using assms by (auto simp: change_role_def intro!: members_ok_set_role split: sum.split option.split)
next
  case (TransferMaster a p)
  then show ?thesis
    using assms by (auto simp: transfer_master_def intro!: members_ok_set_role split: sum.split)
qed

lemma roster_new: "one_master (gr_new p)" "members_ok (gr_new p)"
proof -
  show "one_master (gr_new p)"
    by (auto simp: one_master_def role_of_new)
  show "members_ok (gr_new p)"
    by (auto simp: members_ok_def gr_new_def gr_get_def lookup_update' Mapping.size_def
        MAX_GROUP_MEMBERS_def split: if_splits)
qed

interpretation roster: step_system "{g. \<exists>p. g = gr_new p}" gr_step "\<lambda>g. one_master g \<and> members_ok g"
  by unfold_locales (auto intro: roster_new one_master_step members_ok_step)

section \<open>The order of joining\<close>

definition joined_before :: "nat \<Rightarrow> 'p group_roster \<Rightarrow> bool" where
  "joined_before n g \<longleftrightarrow> unat (gr_next_seq g) \<le> n
     \<and> (\<forall>p m. gr_get g p = Some m \<longrightarrow> gm_join_seq m < gr_next_seq g)
     \<and> (\<forall>p q m k. gr_get g p = Some m \<longrightarrow> gr_get g q = Some k \<longrightarrow> gm_join_seq m = gm_join_seq k \<longrightarrow> p = q)"

lemma joined_before_mono: "joined_before n g \<Longrightarrow> n \<le> m \<Longrightarrow> joined_before m g"
  by (auto simp: joined_before_def)

lemma joined_before_set_role: "joined_before n g \<Longrightarrow> joined_before n (set_role p r g)"
  unfolding joined_before_def gr_get_set_role
  by (auto simp: set_role_def split: option.splits if_splits)

lemma joined_before_delete:
  assumes "joined_before n g"
  shows "joined_before n (g\<lparr>gr_members := Mapping.delete p (gr_members g)\<rparr>)"
proof -
  have "Mapping.lookup (Mapping.delete p (gr_members g)) q = Some m
      \<Longrightarrow> Mapping.lookup (gr_members g) q = Some m" for q m
    by (cases "p = q") auto
  then show ?thesis
    using assms unfolding joined_before_def gr_get_def by simp blast
qed

lemma joined_before_add:
  assumes "joined_before n g" and "n + 1 < 2 ^ 64"
  shows "joined_before (n + 1) (g\<lparr>gr_next_seq := sat_add (gr_next_seq g) 1,
    gr_members := Mapping.update p \<lparr>gm_peer = p, gm_role = r, gm_join_seq = gr_next_seq g\<rparr> (gr_members g)\<rparr>)"
proof -
  have next_seq: "unat (sat_add (gr_next_seq g) 1) = unat (gr_next_seq g) + 1"
    using assms by (simp add: joined_before_def unat_sat_add)
  then have "gr_next_seq g < sat_add (gr_next_seq g) 1"
    by (simp add: word_less_nat_alt)
  then have less: "gm_join_seq m < sat_add (gr_next_seq g) 1" "gm_join_seq m \<noteq> gr_next_seq g"
    if "Mapping.lookup (gr_members g) q = Some m" for q m
    using assms(1) that by (fastforce simp: joined_before_def gr_get_def)+
  have seq: "\<forall>p q m k. Mapping.lookup (gr_members g) p = Some m \<longrightarrow> Mapping.lookup (gr_members g) q = Some k
      \<longrightarrow> gm_join_seq m = gm_join_seq k \<longrightarrow> p = q"
    using assms(1) by (simp add: joined_before_def gr_get_def)
  show ?thesis
    unfolding joined_before_def gr_get_def
  proof (intro conjI allI impI, goal_cases)
    case 1
    then show ?case
      using assms(1) next_seq by (simp add: joined_before_def)
  next
    case (2 q m)
    then show ?case
      using less(1) \<open>gr_next_seq g < _\<close> by (auto simp: lookup_update' split: if_splits)
  next
    case (3 q q' m k)
    then show ?case
      using less(2) seq by (auto simp: lookup_update' split: if_splits dest: sym)
  qed
qed

lemma joined_before_step:
  assumes "joined_before n g" and "n + 1 < 2 ^ 64"
  shows "joined_before (n + 1) (gr_step call g)"
proof -
  have "joined_before (n + 1) g"
    using assms(1) by (rule joined_before_mono) simp
  then show ?thesis
    using joined_before_add [OF assms]
    by (cases call) (auto simp: add_member_def remove_member_def change_role_def transfer_master_def Let_def
        intro!: joined_before_delete joined_before_set_role split: sum.split option.split)
qed

lemma joined_before_run:
  "joined_before n g \<Longrightarrow> n + length calls < 2 ^ 64 \<Longrightarrow> joined_before (n + length calls) (fold gr_step calls g)"
proof (induction calls arbitrary: n g)
  case (Cons call calls)
  have "joined_before (n + 1) (gr_step call g)"
    using Cons.prems by (intro joined_before_step) simp_all
  from Cons.IH [OF this] Cons.prems show ?case
    by simp
qed simp

lemma joined_before_new: "joined_before 1 (gr_new p)"
  by (auto simp: joined_before_def gr_new_def gr_get_def lookup_update' split: if_splits)

section \<open>Properties\<close>

text \<open>
  Exactly one master at all times. In every state a new group reaches by any calls, successful or
  refused, by members or strangers, exactly one peer is the master, no peer is entered under
  another peer's identity and the group has at most 500 members.
\<close>
theorem group_one_master:
  "let g = fold gr_step calls (gr_new p)
   in (\<exists>!m. role_of g m = Some Master) \<and> Mapping.size (gr_members g) \<le> 500
      \<and> (\<forall>q. case gr_get g q of None \<Rightarrow> True | Some m \<Rightarrow> gm_peer m = q)"
proof -
  have "one_master (fold gr_step calls (gr_new p))" "members_ok (fold gr_step calls (gr_new p))"
    using roster.inv_fold [of "gr_new p" calls] roster_new [of p] by blast+
  then show ?thesis
    unfolding Let_def one_master_def members_ok_def MAX_GROUP_MEMBERS_def by (simp split: option.split)
qed

text \<open>
  Authority. A call changes some peer's standing only if its caller is the master, or an
  administrator who neither touches the master nor makes an administrator or a master. Mirrors,
  readers and strangers change nothing.
\<close>
theorem group_authority:
  assumes "role_of (gr_step call g) p \<noteq> role_of g p"
  shows "role_of g (caller call) = Some Master
    \<or> (role_of g (caller call) = Some Admin \<and> role_of g p \<noteq> Some Master
        \<and> role_of (gr_step call g) p \<noteq> Some Master \<and> role_of (gr_step call g) p \<noteq> Some Admin)"
  using policy_holds [of call g] assms by (cases rule: policy.cases) (auto simp: may_assign_def split: if_splits)

theorem group_authority_witness:
  "role_of (fold gr_step [AddMember 0 1 Admin, AddMember 1 2 Mirror] (gr_new (0 :: nat))) 1 = Some Admin"
proof -
  let ?g = "fold gr_step [AddMember 0 1 Admin] (gr_new (0 :: nat))"
  have add: "role_of (snd (add_member a q r g)) = (role_of g)(q \<mapsto> r)"
    if "role_of g q = None" "r \<noteq> Master" "Mapping.size (gr_members g) < 500"
      "role_of g a = Some Master \<or> (role_of g a = Some Admin \<and> r \<noteq> Admin)" for a q r and g :: "nat group_roster"
    using that by (cases r) (auto simp: add_member_def require_member_role_eq can_manage_cases gr_get_role
        role_of_update Let_def MAX_GROUP_MEMBERS_def split: option.splits)
  have size0: "Mapping.size (gr_members (gr_new (0 :: nat))) = 1"
    by (simp add: gr_new_def Mapping.size_def)
  have g: "role_of ?g = [0 \<mapsto> Master, 1 \<mapsto> Admin]"
    using add [of "gr_new 0" 1 Admin 0] size0 by (simp add: role_of_new)
  have size: "Mapping.size (gr_members ?g) < 500"
    by (auto simp: add_member_def require_member_role_eq gr_new_def Let_def Mapping.size_def
        split: sum.split option.split)
  have step: "role_of (gr_step (AddMember 1 2 Mirror) ?g) = [0 \<mapsto> Master, 1 \<mapsto> Admin, 2 \<mapsto> Mirror]"
    using add [of ?g 2 Mirror 1] size g by simp
  have "role_of ?g 1 = Some Admin"
    using group_authority [of "AddMember 1 2 Mirror" ?g 2] g step by auto
  then show ?thesis
    using step by simp
qed

text \<open>
  A deterministic order. Up to 2^64 - 2 calls no two members share a join sequence number, so the
  order of the members by it, which the listings use, is determined.
\<close>
theorem group_join_order:
  assumes "length calls + 1 < 2 ^ 64" and "g = fold gr_step calls (gr_new p)"
    and "gr_get g q = Some m" and "gr_get g r = Some k" and "q \<noteq> r"
  shows "gm_join_seq m \<noteq> gm_join_seq k"
  using joined_before_run [OF joined_before_new, of calls p] assms by (auto simp: joined_before_def)

theorem group_join_order_witness:
  "gm_join_seq \<lparr>gm_peer = 0 :: nat, gm_role = Master, gm_join_seq = 0\<rparr>
     \<noteq> gm_join_seq \<lparr>gm_peer = 1 :: nat, gm_role = Mirror, gm_join_seq = 1\<rparr>"
  by (rule group_join_order [where calls = "[AddMember 0 1 Mirror]" and p = "0 :: nat" and q = 0 and r = 1, OF _ refl])
    (simp_all add: add_member_def require_member_role_eq role_of_new can_manage_def Let_def gr_new_def gr_get_def
      role_of_def Mapping.size_def MAX_GROUP_MEMBERS_def lookup_update')

text \<open>
  An administrator can demote another administrator. The documentation of the operation lets
  administrators exchange mirrors and readers only, and an administrator does not outrank another;
  but the check refuses only if the caller can manage neither the target's role nor the new one.
\<close>
theorem admin_demotes_admin:
  "let g = fold gr_step [AddMember 0 1 Admin, AddMember 0 2 Admin] (gr_new (0 :: nat))
   in \<not> can_manage Admin Admin \<and> role_of g 1 = Some Admin \<and> role_of g 2 = Some Admin
      \<and> fst (change_role 1 2 Reader g) = Inr ()
      \<and> role_of (snd (change_role 1 2 Reader g)) 2 = Some Reader
      \<and> fst (remove_member 1 2 g) = Inl (InsufficientPrivilege Admin Admin)"
  by (simp add: add_member_def change_role_def remove_member_def require_member_role_def ok_or_def set_role_def
      role_of_def can_manage_def Let_def gr_new_def gr_get_def Mapping.size_def MAX_GROUP_MEMBERS_def lookup_update')

end
