(* ===== verification/Dht.thy ===== *)
theory Dht
  imports Prelude "HOL-Library.Mapping" "HOL-Library.List_Lexorder" "HOL-Library.Multiset"
begin

text \<open>
  The Kademlia node, \<open>crates/p2p-distribute/src/dht.rs\<close>: the XOR distance of node identities and the
  bucket it selects, the routing table, and \<open>DhtNode::handle_message\<close>. A \<open>[u8; 32]\<close> is a list of
  bytes; that it has 32 of them is the predicate \<open>is_id\<close>, which the type guarantees in the code.
\<close>

unbundle bit_operations_syntax

section \<open>Node identities\<close>

definition NODE_ID_LEN :: nat where "NODE_ID_LEN = 32"
definition BUCKET_COUNT :: nat where "BUCKET_COUNT = NODE_ID_LEN * 8"
definition K_BUCKET :: nat where "K_BUCKET = 20"

type_synonym node_id = bytes

definition is_id :: "node_id \<Rightarrow> bool" where
  "is_id n \<longleftrightarrow> length n = NODE_ID_LEN"

definition xor_distance :: "node_id \<Rightarrow> node_id \<Rightarrow> bytes" where
  "xor_distance a b = map2 (\<lambda>x y. x XOR y) a b"

text \<open>The standard library's \<open>leading_zeros\<close> of a byte.\<close>

fun bit_length :: "nat \<Rightarrow> nat" where
  "bit_length n = (if n = 0 then 0 else Suc (bit_length (n div 2)))"

declare bit_length.simps [simp del]

definition leading_zeros :: "u8 \<Rightarrow> nat" where
  "leading_zeros b = 8 - bit_length (unat b)"

definition bucket_index :: "node_id \<Rightarrow> node_id \<Rightarrow> nat option" where
  "bucket_index a b =
     (let distance = xor_distance a b
      in case position (\<lambda>x. x \<noteq> 0) distance of
           None \<Rightarrow> None
         | Some i \<Rightarrow> Some ((NODE_ID_LEN - 1 - i) * 8 + (7 - leading_zeros (distance ! i))))"

section \<open>The routing table\<close>

record kbucket_entry =
  ke_node_id :: node_id
  ke_addr :: string
  ke_last_seen :: u64

record routing_table =
  rt_local_id :: node_id
  rt_buckets :: "kbucket_entry list list"

definition rt_new :: "node_id \<Rightarrow> routing_table" where
  "rt_new local_id = \<lparr>rt_local_id = local_id, rt_buckets = replicate BUCKET_COUNT []\<rparr>"

definition rt_insert :: "kbucket_entry \<Rightarrow> routing_table \<Rightarrow> bool \<times> routing_table" where
  "rt_insert entry t =
     (case bucket_index (rt_local_id t) (ke_node_id entry) of
        None \<Rightarrow> (False, t)
      | Some i \<Rightarrow>
          case get_at (rt_buckets t) i of
            None \<Rightarrow> (False, t)
          | Some bucket \<Rightarrow>
              case position (\<lambda>e. ke_node_id e = ke_node_id entry) bucket of
                Some pos \<Rightarrow> (True, t\<lparr>rt_buckets := (rt_buckets t)[i := remove_at pos bucket @ [entry]]\<rparr>)
              | None \<Rightarrow>
                  if length bucket < K_BUCKET
                  then (True, t\<lparr>rt_buckets := (rt_buckets t)[i := bucket @ [entry]]\<rparr>)
                  else (False, t))"

definition evict_and_insert :: "kbucket_entry \<Rightarrow> routing_table \<Rightarrow> bool \<times> routing_table" where
  "evict_and_insert entry t =
     (case bucket_index (rt_local_id t) (ke_node_id entry) of
        None \<Rightarrow> (False, t)
      | Some i \<Rightarrow>
          case get_at (rt_buckets t) i of
            None \<Rightarrow> (False, t)
          | Some bucket \<Rightarrow>
              (True, t\<lparr>rt_buckets := (rt_buckets t)[i :=
                 (if bucket \<noteq> [] then remove_at 0 bucket else bucket) @ [entry]]\<rparr>))"

definition closest_nodes :: "routing_table \<Rightarrow> node_id \<Rightarrow> nat \<Rightarrow> kbucket_entry list" where
  "closest_nodes t target n =
     (let all_entries = map (\<lambda>e. (e, xor_distance target (ke_node_id e))) (concat (rt_buckets t))
      in map fst (take n (sort_key snd all_entries)))"


definition active_bucket_count :: "routing_table \<Rightarrow> nat" where
  "active_bucket_count t = length (filter (\<lambda>b. b \<noteq> []) (rt_buckets t))"

section \<open>Messages\<close>

type_synonym network_id = bytes

datatype dht_message =
    Ping network_id node_id
  | Pong network_id node_id
  | FindNode network_id node_id node_id
  | FoundNode network_id node_id "kbucket_entry list"
  | Store network_id node_id bytes string
  | FindValue network_id node_id bytes
  | FoundValue network_id node_id "string option" "kbucket_entry list"
  | Unknown network_id node_id u8 bytes

record dht_node =
  dn_local_id :: node_id
  dn_network_id :: network_id
  dn_table :: routing_table
  dn_store :: "(bytes, string) mapping"

definition dn_new :: "node_id \<Rightarrow> network_id \<Rightarrow> dht_node" where
  "dn_new local_id network =
     \<lparr>dn_local_id = local_id, dn_network_id = network, dn_table = rt_new local_id, dn_store = Mapping.empty\<rparr>"

definition record_sender :: "node_id \<Rightarrow> dht_node \<Rightarrow> dht_node" where
  "record_sender sender d =
     d\<lparr>dn_table := snd (rt_insert \<lparr>ke_node_id = sender, ke_addr = [], ke_last_seen = 0\<rparr> (dn_table d))\<rparr>"

fun handle_message :: "dht_message \<Rightarrow> dht_node \<Rightarrow> dht_message option \<times> dht_node" where
  "handle_message (Ping network sender) d =
     (if network \<noteq> dn_network_id d then (None, d)
      else (Some (Pong (dn_network_id d) (dn_local_id d)), record_sender sender d))"
| "handle_message (Pong network sender) d =
     (if network \<noteq> dn_network_id d then (None, d) else (None, record_sender sender d))"
| "handle_message (FindNode network sender target) d =
     (if network \<noteq> dn_network_id d then (None, d)
      else
        let d' = record_sender sender d
        in (Some (FoundNode (dn_network_id d) (dn_local_id d) (closest_nodes (dn_table d') target K_BUCKET)), d'))"
| "handle_message (Store network sender key v) d =
     (if network \<noteq> dn_network_id d then (None, d)
      else
        let d' = record_sender sender d
        in (None, d'\<lparr>dn_store := Mapping.update key v (dn_store d')\<rparr>))"
| "handle_message (FindValue network sender key) d =
     (if network \<noteq> dn_network_id d then (None, d)
      else
        let d' = record_sender sender d;
            found = Mapping.lookup (dn_store d') key;
            nodes = (if found = None then closest_nodes (dn_table d') key K_BUCKET else [])
        in (Some (FoundValue (dn_network_id d) (dn_local_id d) found nodes), d'))"
| "handle_message (FoundNode network sender nodes) d = (None, d)"
| "handle_message (FoundValue network sender v nodes) d = (None, d)"
| "handle_message (Unknown network sender type_id payload) d =
     (if network \<noteq> dn_network_id d then (None, d) else (None, record_sender sender d))"

fun sender_of :: "dht_message \<Rightarrow> node_id" where
  "sender_of (Ping network sender) = sender"
| "sender_of (Pong network sender) = sender"
| "sender_of (FindNode network sender target) = sender"
| "sender_of (FoundNode network sender nodes) = sender"
| "sender_of (Store network sender key v) = sender"
| "sender_of (FindValue network sender key) = sender"
| "sender_of (FoundValue network sender v nodes) = sender"
| "sender_of (Unknown network sender type_id payload) = sender"

fun network_of :: "dht_message \<Rightarrow> network_id" where
  "network_of (Ping network sender) = network"
| "network_of (Pong network sender) = network"
| "network_of (FindNode network sender target) = network"
| "network_of (FoundNode network sender nodes) = network"
| "network_of (Store network sender key v) = network"
| "network_of (FindValue network sender key) = network"
| "network_of (FoundValue network sender v nodes) = network"
| "network_of (Unknown network sender type_id payload) = network"

definition store_local :: "bytes \<Rightarrow> string \<Rightarrow> dht_node \<Rightarrow> dht_node" where
  "store_local key v d = d\<lparr>dn_store := Mapping.update key v (dn_store d)\<rparr>"

definition get_local :: "dht_node \<Rightarrow> bytes \<Rightarrow> string option" where
  "get_local d key = Mapping.lookup (dn_store d) key"

section \<open>The XOR metric\<close>

text \<open>The distance as the number its bytes spell, the most significant first.\<close>

definition dist :: "node_id \<Rightarrow> node_id \<Rightarrow> nat" where
  "dist a b = be_val (xor_distance a b)"

lemma length_xor_distance [simp]: "length (xor_distance a b) = min (length a) (length b)"
  by (simp add: xor_distance_def)

lemma nat_xor_le: "(x :: nat) XOR y \<le> x + y"
proof (induction x arbitrary: y rule: less_induct)
  case (less x)
  show ?case
  proof (cases "x = 0")
    case False
    with less [of "x div 2" "y div 2"] have "(x div 2) XOR (y div 2) \<le> x div 2 + y div 2"
      by simp
    then show ?thesis
      by (subst xor_rec) (cases "odd x"; cases "odd y"; auto elim!: oddE evenE)
  qed simp
qed

lemma nat_xor_eq_0: "(x :: nat) XOR y = 0 \<longleftrightarrow> x = y"
  by (metis xor.assoc xor.left_neutral xor.right_neutral xor_self_eq)

lemma xor_split:
  fixes A B :: nat
  assumes "u < 256" and "v < 256"
  shows "(u + 256 * A) XOR (v + 256 * B) = (u XOR v) + 256 * (A XOR B)"
proof (rule bit_eqI)
  have xor_less: "u XOR v < 256"
    using assms take_bit_nat_eq_self_iff [of 8 u] take_bit_nat_eq_self_iff [of 8 v]
      take_bit_nat_eq_self_iff [of 8 "u XOR v"] by (simp add: take_bit_xor)
  have split: "bit (w + 256 * C) n = (if n < 8 then bit w n else bit C (n - 8))" if "w < 256" for w C n :: nat
  proof -
    have "take_bit 8 (w + 256 * C) = w" "drop_bit 8 (w + 256 * C) = C"
      using that by (simp_all add: take_bit_eq_mod drop_bit_eq_div)
    then show ?thesis
      by (metis bit_take_bit_iff bit_drop_bit_eq comp_apply le_add_diff_inverse not_less)
  qed
  fix n
  show "bit ((u + 256 * A) XOR (v + 256 * B)) n = bit ((u XOR v) + 256 * (A XOR B)) n"
    by (simp add: bit_xor_iff split assms xor_less)
qed

lemma le_val_xor:
  "length a = length b \<Longrightarrow> le_val (map2 (\<lambda>x y. x XOR y) a b) = le_val a XOR le_val b"
proof (induction a b rule: list_induct2)
  case (Cons x a y b)
  have "unat x < 256" "unat y < 256"
    using unat_less_exp [of x] unat_less_exp [of y] by simp_all
  with Cons show ?case
    by (simp add: xor_split unsigned_xor_eq)
qed simp

lemma dist_xor: "length a = length b \<Longrightarrow> dist a b = be_val a XOR be_val b"
  unfolding dist_def be_val_def xor_distance_def
  by (simp add: rev_map zip_rev [symmetric] le_val_xor)

lemma be_val_inject: "length a = length b \<Longrightarrow> be_val a = be_val b \<longleftrightarrow> a = b"
  by (metis be_bytes_be_val)

text \<open>The laws of a distance between keys that determines the key: what the table relies on.\<close>

locale key_distance =
  fixes d :: "'k \<Rightarrow> 'k \<Rightarrow> nat" and valid :: "'k \<Rightarrow> bool"
  assumes d_zero: "valid a \<Longrightarrow> valid b \<Longrightarrow> d a b = 0 \<longleftrightarrow> a = b"
    and d_sym: "valid a \<Longrightarrow> valid b \<Longrightarrow> d a b = d b a"
    and d_triangle: "valid a \<Longrightarrow> valid b \<Longrightarrow> valid c \<Longrightarrow> d a c \<le> d a b + d b c"
    and d_unique: "valid a \<Longrightarrow> valid b \<Longrightarrow> valid c \<Longrightarrow> d a b = d a c \<longleftrightarrow> b = c"
begin

lemma no_ties:
  assumes "valid a" and "\<forall>k\<in>set ks. valid k" and "distinct ks"
  shows "distinct (map (d a) ks)"
  using assms by (auto simp: distinct_map inj_on_def d_unique)

lemma self_closest: "valid a \<Longrightarrow> valid b \<Longrightarrow> d a a \<le> d a b"
  using d_zero [of a a] by simp

end

interpretation xor_metric: key_distance dist is_id
proof
  fix a b c :: node_id
  assume a: "is_id a" and b: "is_id b"
  then have len: "length a = length b"
    by (simp add: is_id_def)
  then show "dist a b = 0 \<longleftrightarrow> a = b"
    by (simp add: dist_xor nat_xor_eq_0 be_val_inject)
  show "dist a b = dist b a"
    using len by (simp add: dist_xor xor.commute)
  assume c: "is_id c"
  with b have len': "length b = length c"
    by (simp add: is_id_def)
  have "be_val a XOR be_val c = (be_val a XOR be_val b) XOR (be_val b XOR be_val c)"
    by (metis xor.assoc xor_self_eq xor.left_neutral)
  then show "dist a c \<le> dist a b + dist b c"
    using nat_xor_le [of "be_val a XOR be_val b" "be_val b XOR be_val c"] len len' by (simp add: dist_xor)
  have "be_val a XOR be_val b = be_val a XOR be_val c \<longleftrightarrow> be_val b = be_val c"
    by (metis xor.assoc xor_self_eq xor.left_neutral)
  then show "dist a b = dist a c \<longleftrightarrow> b = c"
    using len len' by (simp add: dist_xor be_val_inject)
qed

section \<open>The bucket of a distance\<close>

lemma bit_length_bounds:
  "0 < n \<Longrightarrow> 0 < bit_length n \<and> 2 ^ (bit_length n - 1) \<le> n \<and> n < 2 ^ bit_length n"
proof (induction n rule: bit_length.induct)
  case (1 n)
  show ?case
  proof (cases "n = 1")
    case False
    with 1 have "0 < bit_length (n div 2)" "2 ^ (bit_length (n div 2) - 1) \<le> n div 2"
      "n div 2 < 2 ^ bit_length (n div 2)"
      by auto
    moreover from this have "(2 :: nat) ^ bit_length (n div 2) = 2 * 2 ^ (bit_length (n div 2) - 1)"
      by (cases "bit_length (n div 2)") simp_all
    moreover have "bit_length n = Suc (bit_length (n div 2))"
      using 1 by (simp add: bit_length.simps [of n])
    ultimately show ?thesis
      by simp linarith
  qed (simp add: bit_length.simps)
qed

lemma leading_zeros_bounds:
  assumes "b \<noteq> 0"
  shows "7 - leading_zeros b < 8" and "2 ^ (7 - leading_zeros b) \<le> unat b"
    and "unat b < 2 ^ Suc (7 - leading_zeros b)"
proof -
  let ?k = "bit_length (unat b)"
  have b: "0 < ?k" "2 ^ (?k - 1) \<le> unat b" "unat b < 2 ^ ?k"
    using bit_length_bounds [of "unat b"] assms by (simp_all add: unat_gt_0)
  have "(2 :: nat) ^ (?k - 1) < 2 ^ 8"
    using b(2) unat_less_exp [of b] by simp
  then have "?k - 1 < 8"
    by (simp only: power_strict_increasing_iff)
  then have "7 - leading_zeros b = ?k - 1"
    using b(1) by (simp add: leading_zeros_def)
  with b \<open>?k - 1 < 8\<close> show "7 - leading_zeros b < 8" and "2 ^ (7 - leading_zeros b) \<le> unat b"
    and "unat b < 2 ^ Suc (7 - leading_zeros b)"
    by simp_all
qed

lemma be_val_Cons: "be_val (b # bs) = unat b * 256 ^ length bs + be_val bs"
proof -
  have "le_val (xs @ [b]) = unat b * 256 ^ length xs + le_val xs" for xs
    by (induction xs) (simp_all add: algebra_simps)
  then show ?thesis
    by (simp add: be_val_def)
qed

lemma be_val_less: "be_val bs < 256 ^ length bs"
  using le_val_less [of "rev bs"] by (simp add: be_val_def)

lemma be_val_position:
  "position (\<lambda>x. x \<noteq> 0) bs = Some i \<Longrightarrow>
     i < length bs \<and> bs ! i \<noteq> 0
     \<and> unat (bs ! i) * 256 ^ (length bs - 1 - i) \<le> be_val bs
     \<and> be_val bs < Suc (unat (bs ! i)) * 256 ^ (length bs - 1 - i)"
proof (induction bs arbitrary: i)
  case (Cons b bs)
  then show ?case
    using be_val_less [of bs] by (auto simp: be_val_Cons split: if_splits)
qed simp

lemma be_val_zero: "position (\<lambda>x. x \<noteq> 0) bs = None \<Longrightarrow> be_val bs = 0"
  by (induction bs) (simp_all add: be_val_Cons be_val_def [of "[]"] split: if_splits)

lemma bucket_index_bounds:
  assumes a: "is_id a" and b: "is_id b"
  shows "case bucket_index a b of
           None \<Rightarrow> dist a b = 0
         | Some k \<Rightarrow> k < BUCKET_COUNT \<and> 2 ^ k \<le> dist a b \<and> dist a b < 2 ^ Suc k"
proof -
  let ?d = "xor_distance a b"
  have len: "length a = 32" "length b = 32"
    using a b by (simp_all add: is_id_def NODE_ID_LEN_def)
  show ?thesis
  proof (cases "position (\<lambda>x. x \<noteq> 0) ?d")
    case None
    then show ?thesis
      by (simp add: bucket_index_def dist_def be_val_zero)
  next
    case (Some i)
    let ?k = "7 - leading_zeros (?d ! i)"
    let ?m = "256 ^ (31 - i) :: nat"
    from be_val_position [OF Some] have i: "i < 32" "?d ! i \<noteq> 0"
      and d: "unat (?d ! i) * ?m \<le> dist a b" "dist a b < Suc (unat (?d ! i)) * ?m"
      by (simp_all add: len dist_def)
    note k = leading_zeros_bounds [OF i(2)]
    have m: "?m = 2 ^ ((31 - i) * 8)"
      by (simp add: power_mult mult.commute [of _ 8])
    have "2 ^ ((31 - i) * 8 + ?k) \<le> dist a b"
      using order_trans [OF mult_le_mono1 [OF k(2), of ?m] d(1)] by (simp add: m power_add mult.commute)
    moreover have "dist a b < 2 ^ Suc ((31 - i) * 8 + ?k)"
      using mult_le_mono1 [of "Suc (unat (?d ! i))" "2 ^ Suc ?k" ?m] k(3) d(2)
      by (simp add: m power_add mult.commute mult.left_commute)
    moreover have "(31 - i) * 8 + ?k < BUCKET_COUNT"
      using k(1) i(1) by (simp add: BUCKET_COUNT_def NODE_ID_LEN_def)
    ultimately show ?thesis
      using Some by (simp add: bucket_index_def NODE_ID_LEN_def Let_def)
  qed
qed

lemma bucket_index_None: "is_id a \<Longrightarrow> is_id b \<Longrightarrow> bucket_index a b = None \<longleftrightarrow> a = b"
  using bucket_index_bounds [of a b] xor_metric.d_zero [of a b]
  by (auto split: option.splits)

lemma bucket_index_less: "is_id a \<Longrightarrow> is_id b \<Longrightarrow> bucket_index a b = Some k \<Longrightarrow> k < BUCKET_COUNT"
  using bucket_index_bounds [of a b] by simp

text \<open>Its value seen from the identity zero, for concrete tables.\<close>

lemma xor_distance_zero: "xor_distance (replicate (length c) 0) c = c"
  by (induction c) (simp_all add: xor_distance_def)

lemma bucket_index_zero:
  assumes "b \<noteq> 0" and "i + length ys = 31"
  shows "bucket_index (replicate 32 0) (replicate i 0 @ b # ys) = Some ((31 - i) * 8 + (7 - leading_zeros b))"
proof -
  have "xor_distance (replicate 32 0) (replicate i 0 @ b # ys) = replicate i 0 @ b # ys"
    using xor_distance_zero [of "replicate i 0 @ b # ys"] assms(2) by simp
  moreover have "position (\<lambda>x. x \<noteq> 0) (replicate i 0 @ b # ys) = Some i"
    using position_append [of "replicate i 0" "\<lambda>x. x \<noteq> 0" b ys] assms(1) by simp
  ultimately show ?thesis
    by (simp add: bucket_index_def NODE_ID_LEN_def nth_append)
qed

section \<open>Invariant of the table\<close>

definition bucket_ok :: "node_id \<Rightarrow> nat \<Rightarrow> kbucket_entry list \<Rightarrow> bool" where
  "bucket_ok local_id i bucket \<longleftrightarrow> length bucket \<le> K_BUCKET \<and> distinct (map ke_node_id bucket)
     \<and> (\<forall>e\<in>set bucket. is_id (ke_node_id e) \<and> bucket_index local_id (ke_node_id e) = Some i)"

definition rt_inv :: "routing_table \<Rightarrow> bool" where
  "rt_inv t \<longleftrightarrow> is_id (rt_local_id t) \<and> length (rt_buckets t) = BUCKET_COUNT
     \<and> (\<forall>i < BUCKET_COUNT. bucket_ok (rt_local_id t) i (rt_buckets t ! i))"

lemma bucket_ok_refresh:
  assumes ok: "bucket_ok l i bucket"
    and pos: "position (\<lambda>e. ke_node_id e = ke_node_id entry) bucket = Some pos"
  shows "bucket_ok l i (remove_at pos bucket @ [entry])"
proof -
  have p: "pos < length bucket" "ke_node_id (bucket ! pos) = ke_node_id entry"
    using pos by (simp_all add: position_Some)
  have "distinct (remove_at pos (map ke_node_id bucket))"
    "set (remove_at pos (map ke_node_id bucket)) = set (map ke_node_id bucket) - {ke_node_id entry}"
    using distinct_remove_at [of "map ke_node_id bucket" pos] ok p by (simp_all add: bucket_ok_def)
  then have "distinct (map ke_node_id (remove_at pos bucket @ [entry]))"
    by (simp only: map_append map_remove_at list.map distinct_append) simp
  moreover have "is_id (ke_node_id (bucket ! pos)) \<and> bucket_index l (ke_node_id (bucket ! pos)) = Some i"
    using ok nth_mem [OF p(1)] by (simp add: bucket_ok_def)
  moreover have "length (remove_at pos bucket @ [entry]) \<le> K_BUCKET"
    using ok p(1) by (auto simp: bucket_ok_def length_remove_at)
  ultimately show ?thesis
    using ok set_remove_at_subset [of pos bucket] p(2) by (auto simp: bucket_ok_def simp del: map_append)
qed

lemma bucket_ok_append:
  assumes "bucket_ok l i bucket" and "length bucket < K_BUCKET" and "is_id (ke_node_id entry)"
    and "bucket_index l (ke_node_id entry) = Some i"
    and "position (\<lambda>e. ke_node_id e = ke_node_id entry) bucket = None"
  shows "bucket_ok l i (bucket @ [entry])"
  using assms by (auto simp: bucket_ok_def position_None)

lemma rt_inv_update:
  assumes "rt_inv t" and "bucket_ok (rt_local_id t) i bucket" and "i < BUCKET_COUNT"
  shows "rt_inv (t\<lparr>rt_buckets := (rt_buckets t)[i := bucket]\<rparr>)"
  using assms by (auto simp: rt_inv_def nth_list_update)

lemma rt_inv_new: "is_id l \<Longrightarrow> rt_inv (rt_new l)"
  by (simp add: rt_inv_def rt_new_def bucket_ok_def)

lemma rt_inv_insert:
  assumes inv: "rt_inv t" and entry: "is_id (ke_node_id entry)"
  shows "rt_inv (snd (rt_insert entry t))"
proof (cases "bucket_index (rt_local_id t) (ke_node_id entry)")
  case (Some i)
  have l: "is_id (rt_local_id t)"
    using inv by (simp add: rt_inv_def)
  have i: "i < BUCKET_COUNT"
    using bucket_index_less [OF l entry Some] .
  then have bucket: "get_at (rt_buckets t) i = Some (rt_buckets t ! i)"
    "bucket_ok (rt_local_id t) i (rt_buckets t ! i)"
    using inv by (simp_all add: rt_inv_def get_at_def)
  show ?thesis
    using inv Some i bucket(1) bucket_ok_refresh [OF bucket(2)] bucket_ok_append [OF bucket(2) _ entry Some]
    by (auto simp: rt_insert_def intro!: rt_inv_update split: option.split)
qed (use inv in \<open>simp add: rt_insert_def\<close>)

lemma rt_local_id_insert [simp]: "rt_local_id (snd (rt_insert entry t)) = rt_local_id t"
  by (simp add: rt_insert_def split: option.split)

lemma concat_buckets:
  assumes "\<forall>i < length bs. bucket_ok l (k + i) (bs ! i)"
  shows "distinct (map ke_node_id (concat bs))
    \<and> (\<forall>e\<in>set (concat bs). is_id (ke_node_id e) \<and> (\<exists>j\<ge>k. bucket_index l (ke_node_id e) = Some j))"
  using assms
proof (induction bs arbitrary: k)
  case (Cons b bs)
  have "\<forall>i < length bs. bucket_ok l (Suc k + i) (bs ! i)"
    using Cons.prems by fastforce
  note IH = Cons.IH [OF this]
  have b: "bucket_ok l k b"
    using Cons.prems by fastforce
  have "ke_node_id e \<noteq> ke_node_id f" if e: "e \<in> set b" and f: "f \<in> set (concat bs)" for e f
  proof -
    obtain j where "Suc k \<le> j" "bucket_index l (ke_node_id f) = Some j"
      using IH f by blast
    moreover have "bucket_index l (ke_node_id e) = Some k"
      using b e by (simp add: bucket_ok_def)
    ultimately show ?thesis
      by auto
  qed
  then have "distinct (map ke_node_id (concat (b # bs)))"
    using IH b by (fastforce simp: bucket_ok_def simp del: set_concat)
  moreover have "\<forall>e\<in>set (concat bs). \<exists>j\<ge>k. bucket_index l (ke_node_id e) = Some j"
    using IH Suc_leD by blast
  ultimately show ?case
    using IH b by (auto simp: bucket_ok_def simp del: set_concat)
qed simp

lemma rt_inv_entries:
  assumes "rt_inv t"
  shows "distinct (map ke_node_id (concat (rt_buckets t)))"
    and "e \<in> set (concat (rt_buckets t)) \<Longrightarrow> is_id (ke_node_id e)"
  using concat_buckets [of "rt_buckets t" "rt_local_id t" 0] assms by (auto simp: rt_inv_def simp del: set_concat)

section \<open>The closest nodes\<close>







section \<open>The node\<close>

definition dn_inv :: "dht_node \<Rightarrow> bool" where
  "dn_inv d \<longleftrightarrow> rt_inv (dn_table d) \<and> rt_local_id (dn_table d) = dn_local_id d"

lemma record_sender_simps [simp]:
  "dn_local_id (record_sender s d) = dn_local_id d"
  "dn_network_id (record_sender s d) = dn_network_id d"
  "dn_store (record_sender s d) = dn_store d"
  by (simp_all add: record_sender_def)

lemma dn_inv_record: "dn_inv d \<Longrightarrow> is_id s \<Longrightarrow> dn_inv (record_sender s d)"
  by (simp add: dn_inv_def record_sender_def rt_inv_insert)

lemma dn_inv_store: "dn_inv (d\<lparr>dn_store := m\<rparr>) = dn_inv d"
  by (simp add: dn_inv_def)

lemma dn_inv_handle: "dn_inv d \<Longrightarrow> is_id (sender_of m) \<Longrightarrow> dn_inv (snd (handle_message m d))"
  by (cases m) (simp_all add: dn_inv_record dn_inv_store Let_def)

definition dn_step :: "dht_message \<Rightarrow> dht_node \<Rightarrow> dht_node" where
  "dn_step m d = (if is_id (sender_of m) then snd (handle_message m d) else d)"

lemma dn_inv_new: "is_id l \<Longrightarrow> dn_inv (dn_new l n)"
  using rt_inv_new [of l] by (simp add: dn_inv_def dn_new_def) (simp add: rt_new_def)

lemma dn_inv_step: "dn_inv d \<Longrightarrow> dn_inv (dn_step m d)"
  by (simp add: dn_step_def dn_inv_handle)

interpretation dht: step_system "{d. \<exists>l n. is_id l \<and> d = dn_new l n}" dn_step dn_inv
  by unfold_locales (auto intro: dn_inv_new dn_inv_step)

lemma dn_fixed [simp]:
  "dn_local_id (snd (handle_message m d)) = dn_local_id d"
  "dn_network_id (snd (handle_message m d)) = dn_network_id d"
  by (cases m; simp add: Let_def)+

lemma dn_fixed_run [simp]:
  "dn_local_id (fold dn_step ms d) = dn_local_id d"
  "dn_network_id (fold dn_step ms d) = dn_network_id d"
  by (induction ms arbitrary: d) (simp_all add: dn_step_def)

text \<open>The value a sequence of messages leaves under a key: that of the last \<open>Store\<close> to it.\<close>

fun stored :: "network_id \<Rightarrow> bytes \<Rightarrow> dht_message \<Rightarrow> string option \<Rightarrow> string option" where
  "stored n key (Store network sender k v) old =
     (if network = n \<and> is_id sender \<and> k = key then Some v else old)"
| "stored n key m old = old"

lemma store_step: "Mapping.lookup (dn_store (dn_step m d)) key = stored (dn_network_id d) key m (Mapping.lookup (dn_store d) key)"
  by (cases m) (auto simp: dn_step_def Let_def lookup_update')

lemma store_run:
  "Mapping.lookup (dn_store (fold dn_step ms d)) key
     = fold (stored (dn_network_id d) key) ms (Mapping.lookup (dn_store d) key)"
proof (induction ms arbitrary: d)
  case (Cons m ms)
  have "dn_network_id (dn_step m d) = dn_network_id d"
    by (simp add: dn_step_def)
  with Cons [of "dn_step m d"] show ?case
    by (simp add: store_step)
qed simp

section \<open>Properties\<close>

text \<open>
  The bucket is the logarithm of the distance. For two node identities the bucket index is absent
  exactly if they are equal, and otherwise it is the number k below 256 with the XOR distance,
  read as a 256-bit number, between 2^k and 2^(k+1) - 1.
\<close>
theorem bucket_index_is_log:
  assumes "is_id a" and "is_id b"
  shows "case bucket_index a b of
           None \<Rightarrow> a = b
         | Some k \<Rightarrow> a \<noteq> b \<and> k < 256 \<and> 2 ^ k \<le> dist a b \<and> dist a b < 2 ^ (k + 1)"
  using bucket_index_bounds [OF assms] bucket_index_None [OF assms]
  by (cases "bucket_index a b") (auto simp: BUCKET_COUNT_def NODE_ID_LEN_def)

theorem bucket_index_is_log_witness:
  "bucket_index (replicate 32 0) (replicate 31 0 @ [5]) = Some 2"
proof -
  have "is_id (replicate 32 0)" "is_id (replicate 31 0 @ [5 :: u8])"
    by (simp_all add: is_id_def NODE_ID_LEN_def)
  from bucket_index_is_log [OF this] bucket_index_zero [of 5 31 "[]"] show ?thesis
    by (simp add: leading_zeros_def bit_length.simps)
qed

text \<open>
  C17: The routing table stays a Kademlia table. Whatever messages a node handles, each of its 256
  buckets holds at most 20 entries, no node twice, every entry is in the bucket of its distance to
  the local node, and the local node itself is never entered.
\<close>
theorem dht_table_invariant:
  assumes "is_id l" and "t = dn_table (fold dn_step ms (dn_new l n))" and "i < 256"
  shows "length (rt_buckets t ! i) \<le> 20 \<and> distinct (map ke_node_id (concat (rt_buckets t)))
    \<and> list_all (\<lambda>e. bucket_index l (ke_node_id e) = Some i \<and> ke_node_id e \<noteq> l) (rt_buckets t ! i)"
proof -
  let ?d = "fold dn_step ms (dn_new l n)"
  have "dn_inv ?d"
    using dn_inv_new [OF assms(1)] by (rule dht.inv_fold)
  then have inv: "rt_inv t" "rt_local_id t = l"
    by (simp_all add: assms(2) dn_inv_def dn_new_def)
  have "bucket_ok l i (rt_buckets t ! i)"
    using inv assms(3) by (simp add: rt_inv_def BUCKET_COUNT_def NODE_ID_LEN_def)
  then show ?thesis
    using rt_inv_entries(1) [OF inv(1)] bucket_index_None [OF assms(1) assms(1)]
    by (auto simp: bucket_ok_def K_BUCKET_def list_all_iff)
qed

theorem dht_table_invariant_witness:
  "length (rt_buckets (dn_table (fold dn_step [Ping [] (replicate 31 0 @ [5]), Pong [] (replicate 32 7)]
      (dn_new (replicate 32 0) []))) ! 2) \<le> 20"
proof -
  have "is_id (replicate 32 0)"
    by (simp add: is_id_def NODE_ID_LEN_def)
  from dht_table_invariant [OF this refl, where i = 2
      and ms = "[Ping [] (replicate 31 0 @ [5]), Pong [] (replicate 32 7)]" and n = "[]"]
  show ?thesis
    by simp
qed



text \<open>
  Networks are isolated. A message of another network is answered by nothing and changes nothing,
  whatever its kind.
\<close>
theorem dht_network_isolation:
  assumes "network_of m \<noteq> dn_network_id d"
  shows "handle_message m d = (None, d)"
  using assms by (cases m) simp_all

theorem dht_network_isolation_witness:
  "handle_message (Store [1] (replicate 32 7) [9] ''x'') (dn_new (replicate 32 0) [2])
     = (None, dn_new (replicate 32 0) [2])"
  by (rule dht_network_isolation) (simp add: dn_new_def)

text \<open>
  The store keeps the last value. After any messages a query for a key is answered with the value
  of the last accepted store to that key, and with the closest nodes if there was none.
\<close>
theorem dht_find_value:
  assumes "is_id sender" and "d = fold dn_step ms (dn_new l n)"
  shows "\<exists>nodes. fst (handle_message (FindValue n sender key) d)
      = Some (FoundValue n l (fold (stored n key) ms None) nodes)
    \<and> nodes = (if fold (stored n key) ms None = None
                then closest_nodes (dn_table (record_sender sender d)) key 20 else [])"
  using store_run [of ms "dn_new l n" key]
  by (simp add: assms(2) dn_new_def Let_def K_BUCKET_def)

theorem dht_find_value_witness:
  "fst (handle_message (FindValue [2] (replicate 32 7) [9])
     (fold dn_step [Store [2] (replicate 32 7) [9] ''x'', Store [1] (replicate 32 7) [9] ''y'']
       (dn_new (replicate 32 0) [2])))
   = Some (FoundValue [2] (replicate 32 0) (Some ''x'') [])"
proof -
  have "is_id (replicate 32 7)"
    by (simp add: is_id_def NODE_ID_LEN_def)
  with dht_find_value [OF this refl, of "[2]" "[9]" "[Store [2] (replicate 32 7) [9] ''x'', Store [1] (replicate 32 7) [9] ''y'']" "replicate 32 0"]
  show ?thesis
    by simp
qed

text \<open>
  The eviction can enter a node twice. The operation called when the oldest entry of a full bucket
  is dead checks neither that the bucket is full nor that the new node is unknown: after it a
  bucket of two entries holds the second node twice and has lost the first, which was alive.
\<close>
theorem evict_and_insert_duplicates:
  "let l = replicate 32 0;
       entry = (\<lambda>b a. \<lparr>ke_node_id = b # replicate 31 0, ke_addr = a, ke_last_seen = 0\<rparr>);
       t = snd (rt_insert (entry 129 ''b'') (snd (rt_insert (entry 128 ''a'') (rt_new l))))
   in rt_buckets t ! 255 = [entry 128 ''a'', entry 129 ''b'']
      \<and> rt_buckets (snd (evict_and_insert (entry 129 ''c'') t)) ! 255 = [entry 129 ''b'', entry 129 ''c'']"
proof -
  define l :: node_id where "l = replicate 32 0"
  define z :: bytes where "z = replicate 31 0"
  define bs :: "kbucket_entry list list" where "bs = replicate 256 []"
  have "leading_zeros 128 = 0" "leading_zeros 129 = 0"
    by (simp_all add: leading_zeros_def bit_length.simps)
  then have index: "bucket_index l (b # z) = Some 255" if "b = 128 \<or> b = 129" for b
    using that bucket_index_zero [of b 0 "replicate 31 0"] by (auto simp: l_def z_def)
  have bs: "length bs = 256" "bs ! 255 = []"
    by (simp_all add: bs_def)
  have new: "rt_new l = \<lparr>rt_local_id = l, rt_buckets = bs\<rparr>"
    by (simp add: rt_new_def bs_def BUCKET_COUNT_def NODE_ID_LEN_def)
  let ?e = "\<lambda>b a. \<lparr>ke_node_id = b # z, ke_addr = a, ke_last_seen = 0\<rparr>"
  have a: "snd (rt_insert (?e 128 ''a'') (rt_new l)) = \<lparr>rt_local_id = l, rt_buckets = bs[255 := [?e 128 ''a'']]\<rparr>"
    by (simp add: rt_insert_def get_at_def bs index new K_BUCKET_def)
  have b: "snd (rt_insert (?e 129 ''b'') \<lparr>rt_local_id = l, rt_buckets = bs[255 := [?e 128 ''a'']]\<rparr>)
      = \<lparr>rt_local_id = l, rt_buckets = bs[255 := [?e 128 ''a'', ?e 129 ''b'']]\<rparr>"
    by (simp add: rt_insert_def get_at_def bs index K_BUCKET_def)
  have c: "snd (evict_and_insert (?e 129 ''c'')
        \<lparr>rt_local_id = l, rt_buckets = bs[255 := [?e 128 ''a'', ?e 129 ''b'']]\<rparr>)
      = \<lparr>rt_local_id = l, rt_buckets = bs[255 := [?e 129 ''b'', ?e 129 ''c'']]\<rparr>"
    by (simp add: evict_and_insert_def get_at_def bs index remove_at_def)
  show ?thesis
    unfolding l_def [symmetric] z_def [symmetric] Let_def a b c by (simp add: bs)
qed

end
