(* ===== verification/Budget.thy ===== *)
theory Budget
  imports Prelude "HOL-Library.Mapping" "HOL-Library.Multiset"
begin

text \<open>
  The connection budget, \<open>crates/p2p-distribute/src/budget.rs\<close>: the counters and their guards, refined
  to the multiset of the open connections. Peer identities are strings that are compared only.
\<close>

section \<open>Operations\<close>

record 'p budget =
  bg_max_established :: u32
  bg_max_per_peer :: u32
  bg_max_pending :: u32
  bg_established :: u32
  bg_pending :: u32
  bg_per_peer :: "('p, u32) mapping"

datatype 'p budget_exceeded =
    TotalEstablished u32
  | PerPeer 'p u32
  | TotalPending u32

definition bg_new :: "u32 \<Rightarrow> u32 \<Rightarrow> u32 \<Rightarrow> 'p budget" where
  "bg_new max_established max_pending max_per_peer =
     \<lparr>bg_max_established = max_established, bg_max_per_peer = max_per_peer, bg_max_pending = max_pending,
      bg_established = 0, bg_pending = 0, bg_per_peer = Mapping.empty\<rparr>"

definition bg_peer_count :: "'p budget \<Rightarrow> 'p \<Rightarrow> u32" where
  "bg_peer_count b p = Mapping.lookup_default 0 (bg_per_peer b) p"

definition try_acquire_checked :: "'p \<Rightarrow> 'p budget \<Rightarrow> ('p budget_exceeded + unit) \<times> 'p budget" where
  "try_acquire_checked p b =
     (if bg_established b \<ge> bg_max_established b then (Inl (TotalEstablished (bg_max_established b)), b)
      else if bg_peer_count b p \<ge> bg_max_per_peer b then (Inl (PerPeer p (bg_max_per_peer b)), b)
      else (Inr (), b\<lparr>bg_established := sat_add (bg_established b) 1,
                      bg_per_peer := Mapping.update p (bg_peer_count b p + 1) (bg_per_peer b)\<rparr>))"

definition try_acquire_established :: "'p \<Rightarrow> 'p budget \<Rightarrow> bool \<times> 'p budget" where
  "try_acquire_established p b =
     (case try_acquire_checked p b of (Inl _, b') \<Rightarrow> (False, b') | (Inr _, b') \<Rightarrow> (True, b'))"

definition release_established :: "'p \<Rightarrow> 'p budget \<Rightarrow> 'p budget" where
  "release_established p b =
     (let b' = b\<lparr>bg_established := sat_sub (bg_established b) 1\<rparr>
      in case Mapping.lookup (bg_per_peer b) p of
           None \<Rightarrow> b'
         | Some n \<Rightarrow>
             if sat_sub n 1 = 0 then b'\<lparr>bg_per_peer := Mapping.delete p (bg_per_peer b)\<rparr>
             else b'\<lparr>bg_per_peer := Mapping.update p (sat_sub n 1) (bg_per_peer b)\<rparr>)"

definition try_acquire_pending :: "'p budget \<Rightarrow> bool \<times> 'p budget" where
  "try_acquire_pending b =
     (if bg_pending b \<ge> bg_max_pending b then (False, b)
      else (True, b\<lparr>bg_pending := sat_add (bg_pending b) 1\<rparr>))"

definition release_pending :: "'p budget \<Rightarrow> 'p budget" where
  "release_pending b = b\<lparr>bg_pending := sat_sub (bg_pending b) 1\<rparr>"

definition promote_to_established :: "'p \<Rightarrow> 'p budget \<Rightarrow> bool \<times> 'p budget" where
  "promote_to_established p b = try_acquire_established p (release_pending b)"

definition remaining_established :: "'p budget \<Rightarrow> u32" where
  "remaining_established b = sat_sub (bg_max_established b) (bg_established b)"

definition remaining_pending :: "'p budget \<Rightarrow> u32" where
  "remaining_pending b = sat_sub (bg_max_pending b) (bg_pending b)"

definition has_capacity :: "'p budget \<Rightarrow> bool" where
  "has_capacity b \<longleftrightarrow> bg_established b < bg_max_established b"

datatype 'p budget_call = AcquireEstablished 'p | ReleaseEstablished 'p | AcquirePending | ReleasePending | Promote 'p

fun bg_step :: "'p budget_call \<Rightarrow> 'p budget \<Rightarrow> bool \<times> 'p budget" where
  "bg_step (AcquireEstablished p) b = try_acquire_established p b"
| "bg_step (ReleaseEstablished p) b = (True, release_established p b)"
| "bg_step AcquirePending b = try_acquire_pending b"
| "bg_step ReleasePending b = (True, release_pending b)"
| "bg_step (Promote p) b = promote_to_established p b"

section \<open>The open connections\<close>

text \<open>
  The abstract budget: the multiset of the peers with an open connection, and the number of
  handshakes. A client releases a connection it has; the abstract release of another peer is
  undefined, as in the documentation it does nothing.
\<close>

fun conn_step :: "nat \<Rightarrow> nat \<Rightarrow> nat \<Rightarrow> 'p budget_call \<Rightarrow> 'p multiset \<times> nat \<Rightarrow> (bool \<times> 'p multiset \<times> nat) option" where
  "conn_step est pend per (AcquireEstablished p) (cs, h) =
     (if size cs < est \<and> count cs p < per then Some (True, add_mset p cs, h) else Some (False, cs, h))"
| "conn_step est pend per (ReleaseEstablished p) (cs, h) =
     (if p \<in># cs then Some (True, cs - {#p#}, h) else None)"
| "conn_step est pend per AcquirePending (cs, h) =
     (if h < pend then Some (True, cs, h + 1) else Some (False, cs, h))"
| "conn_step est pend per ReleasePending (cs, h) = Some (True, cs, h - 1)"
| "conn_step est pend per (Promote p) (cs, h) =
     (if size cs < est \<and> count cs p < per then Some (True, add_mset p cs, h - 1) else Some (False, cs, h - 1))"

primrec bg_run :: "'p budget_call list \<Rightarrow> 'p budget \<Rightarrow> bool list \<times> 'p budget" where
  "bg_run [] b = ([], b)"
| "bg_run (c # cs) b = (let (r, b') = bg_step c b; (rs, b'') = bg_run cs b' in (r # rs, b''))"

primrec conn_run ::
  "nat \<Rightarrow> nat \<Rightarrow> nat \<Rightarrow> 'p budget_call list \<Rightarrow> 'p multiset \<times> nat \<Rightarrow> (bool list \<times> 'p multiset \<times> nat) option" where
  "conn_run est pend per [] s = Some ([], s)"
| "conn_run est pend per (c # cs) s =
     (case conn_step est pend per c s of
        None \<Rightarrow> None
      | Some (r, s') \<Rightarrow> map_option (\<lambda>(rs, s''). (r # rs, s'')) (conn_run est pend per cs s'))"

definition represents :: "'p budget \<Rightarrow> 'p multiset \<times> nat \<Rightarrow> bool" where
  "represents b s \<longleftrightarrow> unat (bg_established b) = size (fst s) \<and> unat (bg_pending b) = snd s
     \<and> (\<forall>p. unat (bg_peer_count b p) = count (fst s) p)
     \<and> size (fst s) \<le> unat (bg_max_established b) \<and> snd s \<le> unat (bg_max_pending b)
     \<and> (\<forall>p. count (fst s) p \<le> unat (bg_max_per_peer b))"

definition limits :: "'p budget \<Rightarrow> nat \<times> nat \<times> nat" where
  "limits b = (unat (bg_max_established b), unat (bg_max_pending b), unat (bg_max_per_peer b))"

lemma unat_inc:
  fixes v w :: u32
  assumes "unat v < unat w"
  shows "unat (sat_add v 1) = unat v + 1" and "unat (v + 1) = unat v + 1"
proof -
  have "unat v + 1 < 2 ^ 32"
    using assms unat_less_exp [of w] by simp
  then show "unat (sat_add v 1) = unat v + 1" and "unat (v + 1) = unat v + 1"
    by (simp_all add: unat_sat_add unat_word_ariths)
qed

lemma peer_count_update:
  "bg_peer_count (b\<lparr>bg_established := e, bg_per_peer := Mapping.update p n (bg_per_peer b)\<rparr>) q
     = (if q = p then n else bg_peer_count b q)"
  by (simp add: bg_peer_count_def lookup_default_def lookup_update')

lemma acquire_represents:
  assumes rep: "represents b (cs, h)"
  shows "represents (snd (try_acquire_established p b))
      (if size cs < unat (bg_max_established b) \<and> count cs p < unat (bg_max_per_peer b) then add_mset p cs else cs, h)"
    and "fst (try_acquire_established p b)
      = (size cs < unat (bg_max_established b) \<and> count cs p < unat (bg_max_per_peer b))"
    and "limits (snd (try_acquire_established p b)) = limits b"
proof -
  let ?ok = "size cs < unat (bg_max_established b) \<and> count cs p < unat (bg_max_per_peer b)"
  have guards: "bg_max_established b \<le> bg_established b \<longleftrightarrow> \<not> size cs < unat (bg_max_established b)"
    "bg_max_per_peer b \<le> bg_peer_count b p \<longleftrightarrow> \<not> count cs p < unat (bg_max_per_peer b)"
    using rep by (simp_all add: represents_def word_le_nat_alt not_less)
  have acq: "try_acquire_established p b =
      (if ?ok then (True, b\<lparr>bg_established := sat_add (bg_established b) 1,
          bg_per_peer := Mapping.update p (bg_peer_count b p + 1) (bg_per_peer b)\<rparr>) else (False, b))"
    by (auto simp: try_acquire_established_def try_acquire_checked_def guards)
  show "fst (try_acquire_established p b) = ?ok" "limits (snd (try_acquire_established p b)) = limits b"
    by (simp_all add: acq limits_def)
  show "represents (snd (try_acquire_established p b)) (if ?ok then add_mset p cs else cs, h)"
  proof (cases ?ok)
    case True
    have "unat (bg_established b) < unat (bg_max_established b)"
      "unat (bg_peer_count b p) < unat (bg_max_per_peer b)"
      using rep True by (simp_all add: represents_def)
    note inc = unat_inc(1) [OF this(1)] unat_inc(2) [OF this(2)]
    show ?thesis
      using rep True inc by (auto simp: acq represents_def peer_count_update Suc_le_eq)
  next
    case False
    with rep show ?thesis
      by (auto simp: acq)
  qed
qed

lemma lookup_default_lookup: "Mapping.lookup_default 0 m p = (case Mapping.lookup m p of None \<Rightarrow> 0 | Some n \<Rightarrow> n)"
  by (simp add: lookup_default_def)

lemma lookup_delete_if: "Mapping.lookup (Mapping.delete p m) q = (if q = p then None else Mapping.lookup m q)"
  by (cases "q = p") simp_all

lemma release_counts:
  "bg_established (release_established p b) = sat_sub (bg_established b) 1"
  "bg_peer_count (release_established p b) q
     = (if q = p then sat_sub (bg_peer_count b p) 1 else bg_peer_count b q)"
  "bg_pending (release_established p b) = bg_pending b"
  "limits (release_established p b) = limits b"
  by (auto simp: release_established_def bg_peer_count_def lookup_default_lookup lookup_update' lookup_delete_if
      limits_def Let_def sat_sub_def split: option.split)

lemma release_represents:
  assumes rep: "represents b (cs, h)" and p: "p \<in># cs"
  shows "represents (release_established p b) (cs - {#p#}, h)"
proof -
  have "limits (release_established p b) = limits b"
    by (rule release_counts)
  moreover have "size (cs - {#p#}) = size cs - 1"
    using p by (simp add: size_Diff_singleton)
  moreover have "count (cs - {#p#}) q \<le> count cs q" for q
    by simp
  ultimately show ?thesis
    using rep by (auto simp: represents_def limits_def release_counts unat_sat_sub intro: le_trans [OF diff_le_self])
qed

lemma pending_represents:
  assumes rep: "represents b (cs, h)"
  shows "represents (snd (try_acquire_pending b)) (cs, if h < unat (bg_max_pending b) then h + 1 else h)"
    and "fst (try_acquire_pending b) = (h < unat (bg_max_pending b))"
    and "limits (snd (try_acquire_pending b)) = limits b"
    and "represents (release_pending b) (cs, h - 1)"
    and "limits (release_pending b) = limits b"
proof -
  have guard: "bg_max_pending b \<le> bg_pending b \<longleftrightarrow> \<not> h < unat (bg_max_pending b)"
    and h: "unat (bg_pending b) = h"
    using rep by (simp_all add: represents_def word_le_nat_alt not_less)
  show "fst (try_acquire_pending b) = (h < unat (bg_max_pending b))"
    and "limits (snd (try_acquire_pending b)) = limits b" and "limits (release_pending b) = limits b"
    by (simp_all add: try_acquire_pending_def release_pending_def guard limits_def)
  show "represents (snd (try_acquire_pending b)) (cs, if h < unat (bg_max_pending b) then h + 1 else h)"
  proof (cases "h < unat (bg_max_pending b)")
    case True
    with unat_inc(1) [of "bg_pending b" "bg_max_pending b"] h rep guard show ?thesis
      by (simp add: try_acquire_pending_def represents_def bg_peer_count_def)
  qed (use rep guard in \<open>simp add: try_acquire_pending_def\<close>)
  show "represents (release_pending b) (cs, h - 1)"
    using rep by (auto simp: release_pending_def represents_def bg_peer_count_def unat_sat_sub)
qed

lemma step_represents:
  assumes rep: "represents b s" and lim: "limits b = (est, pend, per)"
    and step: "conn_step est pend per c s = Some (r, s')"
  shows "fst (bg_step c b) = r \<and> represents (snd (bg_step c b)) s' \<and> limits (snd (bg_step c b)) = (est, pend, per)"
proof -
  obtain cs h where s: "s = (cs, h)"
    by force
  have max: "unat (bg_max_established b) = est" "unat (bg_max_pending b) = pend" "unat (bg_max_per_peer b) = per"
    using lim by (simp_all add: limits_def)
  note acquire = acquire_represents [OF rep [unfolded s], unfolded max]
  note pending = pending_represents [OF rep [unfolded s], unfolded max]
  show ?thesis
  proof (cases c)
    case (AcquireEstablished p)
    with acquire [of p] step lim show ?thesis
      by (auto simp: s split: if_splits)
  next
    case (ReleaseEstablished p)
    with release_represents [OF rep [unfolded s], of p] release_counts(4) [of p b] step lim show ?thesis
      by (auto simp: s split: if_splits)
  next
    case AcquirePending
    with pending step lim show ?thesis
      by (auto simp: s split: if_splits)
  next
    case ReleasePending
    with pending step lim show ?thesis
      by (auto simp: s)
  next
    case (Promote p)
    have "unat (bg_max_established (release_pending b)) = est" "unat (bg_max_per_peer (release_pending b)) = per"
      using max by (simp_all add: release_pending_def)
    note acquire_represents [OF pending(4), of p, unfolded this]
    with Promote pending(5) step lim show ?thesis
      by (auto simp: s promote_to_established_def split: if_splits)
  qed
qed

lemma run_represents:
  "represents b s \<Longrightarrow> limits b = (est, pend, per) \<Longrightarrow> conn_run est pend per calls s = Some (rs, s') \<Longrightarrow>
     fst (bg_run calls b) = rs \<and> represents (snd (bg_run calls b)) s' \<and> limits (snd (bg_run calls b)) = (est, pend, per)"
proof (induction calls arbitrary: b s rs)
  case (Cons c calls)
  from Cons.prems(3) obtain r t rs' where step: "conn_step est pend per c s = Some (r, t)"
    and run: "conn_run est pend per calls t = Some (rs', s')" and rs: "rs = r # rs'"
    by (auto split: option.splits)
  note c = step_represents [OF Cons.prems(1,2) step]
  from c Cons.IH [of "snd (bg_step c b)" t rs'] run rs show ?case
    by (simp add: Let_def prod.case_eq_if)
qed simp

lemma represents_new: "represents (bg_new a b c) ({#}, 0)"
  by (simp add: represents_def bg_new_def bg_peer_count_def lookup_default_lookup)

section \<open>Properties\<close>

text \<open>
  The budget counts the open connections. As long as every release is of a connection that was
  granted, the counters answer every call as the multiset of the open connections does, and the
  totals and the count of each peer are those of the multiset and within their limits.
\<close>
theorem budget_refines_connections:
  assumes "conn_run (unat est) (unat pend) (unat per) calls ({#}, 0) = Some (rs, cs, h)"
  shows "\<exists>b. bg_run calls (bg_new est pend per) = (rs, b)
    \<and> unat (bg_established b) = size cs \<and> size cs \<le> unat est
    \<and> unat (bg_pending b) = h \<and> h \<le> unat pend
    \<and> (\<forall>p. unat (bg_peer_count b p) = count cs p \<and> count cs p \<le> unat per)"
proof -
  have lim: "limits (bg_new est pend per :: 'a budget) = (unat est, unat pend, unat per)"
    by (simp add: limits_def bg_new_def)
  from run_represents [OF represents_new lim assms] show ?thesis
    by (intro exI [of _ "snd (bg_run calls (bg_new est pend per))"])
      (auto simp: represents_def limits_def prod_eq_iff)
qed

theorem budget_refines_connections_witness:
  "fst (bg_run [AcquirePending, Promote (1 :: nat), AcquireEstablished 1, AcquireEstablished 2,
      AcquireEstablished 3, ReleaseEstablished 1, AcquireEstablished 3] (bg_new 2 1 1))
   = [True, True, False, True, False, True, True]"
  using budget_refines_connections [of 2 1 1 "[AcquirePending, Promote (1 :: nat), AcquireEstablished 1,
      AcquireEstablished 2, AcquireEstablished 3, ReleaseEstablished 1, AcquireEstablished 3]"]
  by force

text \<open>
  Releasing a connection that is not tracked frees a slot. The documentation makes it a no-op, but the
  total is decremented before the peer is looked up: with a limit of one connection a second one
  is granted while the first is open, and the total then disagrees with the counts of the peers.
\<close>
theorem untracked_release_frees_slot:
  "let (granted, b) = bg_run [AcquireEstablished 1, AcquireEstablished 2, ReleaseEstablished 2,
         AcquireEstablished (2 :: nat)] (bg_new 1 0 1)
   in granted = [True, False, True, True]
      \<and> bg_peer_count b 1 = 1 \<and> bg_peer_count b 2 = 1 \<and> bg_established b = 1"
  by (simp add: bg_new_def try_acquire_established_def try_acquire_checked_def release_established_def
      bg_peer_count_def lookup_default_lookup lookup_update' sat_add_def sat_sub_def Let_def)

end
