(* ===== verification/FileStorage.thy ===== *)
theory FileStorage
  imports Storage
begin

text \<open>
  \<open>FileStorage\<close> and its factory, \<open>crates/p2p-distribute/src/storage.rs\<close>, over a model of the
  output file: its bytes, and a schedule of the I/O faults the operating system will report. A
  fault \<open>Some n\<close> makes \<open>write_all\<close> fail after \<open>n\<close> bytes; a read or a flush that fails changes
  nothing. Writing past the end extends the file, with zeros between, as POSIX has it.

  \<open>piece_sink\<close> is what the download coordinator needs from a backend. It asks less than
  \<open>piece_storage\<close>: a failed write may leave anything in its own range.
\<close>

section \<open>The contract of a writer\<close>

locale piece_sink =
  fixes ops :: "'s storage_ops" and content :: "'s \<Rightarrow> bytes" and ok :: "'s \<Rightarrow> bool"
  assumes sink_write: "ok s \<Longrightarrow> unat off + length d \<le> length (content s) \<Longrightarrow>
      op_write ops i off d s = (r, s') \<Longrightarrow>
      ok s' \<and> length (content s') = length (content s)
      \<and> (\<forall>p < length (content s). p < unat off \<or> unat off + length d \<le> p \<longrightarrow>
           content s' ! p = content s ! p)
      \<and> (r = Inr () \<longrightarrow> take (length d) (drop (unat off) (content s')) = d)"
    and sink_flush: "ok s \<Longrightarrow> op_flush ops s = (r, s') \<Longrightarrow> ok s' \<and> content s' = content s"
begin

text \<open>A range outside the one written keeps its bytes.\<close>

lemma sink_other_range:
  assumes "ok s" "unat off + length d \<le> length (content s)" "op_write ops i off d s = (r, s')"
    and "a + n \<le> unat off \<or> unat off + length d \<le> a"
  shows "take n (drop a (content s')) = take n (drop a (content s))"
proof (rule nth_equalityI)
  note w = sink_write [OF assms(1-3)]
  then show "length (take n (drop a (content s'))) = length (take n (drop a (content s)))"
    by simp
  fix p
  assume "p < length (take n (drop a (content s')))"
  with w assms(4) show "take n (drop a (content s')) ! p = take n (drop a (content s)) ! p"
    by auto
qed

end

sublocale piece_storage \<subseteq> sink: piece_sink ops content ok
proof unfold_locales
  fix s off d i r s'
  assume "ok s" "unat off + length d \<le> length (content s)" "op_write ops i off d s = (r, s')"
  with write_in [of s off d i]
  have "ok s'" "content s' = overwrite (unat off) d (content s)"
    by auto
  with \<open>unat off + length d \<le> length (content s)\<close>
  show "ok s' \<and> length (content s') = length (content s)
      \<and> (\<forall>p < length (content s). p < unat off \<or> unat off + length d \<le> p \<longrightarrow>
           content s' ! p = content s ! p)
      \<and> (r = Inr () \<longrightarrow> take (length d) (drop (unat off) (content s')) = d)"
    by (auto simp: nth_overwrite) (simp add: overwrite_def)
next
  fix s r s'
  assume "ok s" "op_flush ops s = (r, s')"
  with flush_ok [of s] show "ok s' \<and> content s' = content s"
    by auto
qed

section \<open>The output file\<close>

record output_file =
  of_bytes :: bytes
  of_faults :: "nat option list"

definition pad_to :: "nat \<Rightarrow> bytes \<Rightarrow> bytes" where
  "pad_to n xs = xs @ replicate (n - length xs) 0"

text \<open>
  \<open>FileStorage::open\<close>, given the file that exists under the path. \<open>truncate\<close> and \<open>set_len\<close> leave a
  file of zeros.
\<close>

definition file_open :: "bytes option \<Rightarrow> u64 \<Rightarrow> bool \<Rightarrow> bytes" where
  "file_open existing file_size resuming =
     (case existing of
        Some xs \<Rightarrow> if resuming \<and> length xs = unat file_size then xs
                   else replicate (unat file_size) 0
      | None \<Rightarrow> replicate (unat file_size) 0)"

definition file_write ::
  "u32 \<Rightarrow> u64 \<Rightarrow> bytes \<Rightarrow> output_file \<Rightarrow> (storage_error + unit) \<times> output_file" where
  "file_write piece_index offset data f =
     (let put = (\<lambda>d. if d = [] then of_bytes f
                     else overwrite (unat offset) d (pad_to (unat offset) (of_bytes f))) in
      case of_faults f of
        Some n # faults \<Rightarrow>
          (Inl (StorageIo offset ''write failed''), \<lparr>of_bytes = put (take n data), of_faults = faults\<rparr>)
      | faults \<Rightarrow> (Inr (), \<lparr>of_bytes = put data, of_faults = tl faults\<rparr>))"

definition file_read :: "u64 \<Rightarrow> nat \<Rightarrow> output_file \<Rightarrow> storage_error + bytes" where
  "file_read offset n f = Inr (take n (drop (unat offset) (of_bytes f)))"

definition file_flush :: "output_file \<Rightarrow> (storage_error + unit) \<times> output_file" where
  "file_flush f =
     (case of_faults f of
        Some n # faults \<Rightarrow> (Inl (StorageIo 0 ''sync failed''), f\<lparr>of_faults := faults\<rparr>)
      | faults \<Rightarrow> (Inr (), f\<lparr>of_faults := tl faults\<rparr>))"

definition file_ops :: "output_file storage_ops" where
  "file_ops = \<lparr>op_write = file_write, op_read = file_read, op_flush = file_flush\<rparr>"

definition file_create :: "bytes option \<Rightarrow> nat option list \<Rightarrow> u64 \<Rightarrow> bool \<Rightarrow> storage_error + output_file" where
  "file_create existing faults file_size resuming =
     Inr \<lparr>of_bytes = file_open existing file_size resuming, of_faults = faults\<rparr>"

lemma pad_to_id [simp]: "n \<le> length xs \<Longrightarrow> pad_to n xs = xs"
  by (simp add: pad_to_def)

lemma file_write_prefix:
  assumes "op_write file_ops i off d s = (r, s')" and "unat off \<le> length (of_bytes s)"
  obtains k where "of_bytes s' = (if take k d = [] then of_bytes s
      else overwrite (unat off) (take k d) (of_bytes s))" and "r = Inr () \<longrightarrow> take k d = d"
proof (cases "of_faults s")
  case Nil
  with assms that [of "length d"] show thesis
    by (auto simp: file_ops_def file_write_def Let_def split: if_splits)
next
  case (Cons fault faults)
  show thesis
  proof (cases fault)
    case None
    with Cons assms that [of "length d"] show thesis
      by (auto simp: file_ops_def file_write_def Let_def split: if_splits)
  next
    case (Some n)
    with Cons assms that [of n] show thesis
      by (auto simp: file_ops_def file_write_def Let_def split: if_splits)
  qed
qed

interpretation file_sink: piece_sink file_ops of_bytes "\<lambda>_. True"
proof unfold_locales
  fix s s' :: output_file and off :: u64 and d i r
  assume fits: "unat off + length d \<le> length (of_bytes s)"
    and w: "op_write file_ops i off d s = (r, s')"
  from fits have "unat off \<le> length (of_bytes s)"
    by simp
  with w obtain k where k: "of_bytes s' = (if take k d = [] then of_bytes s
      else overwrite (unat off) (take k d) (of_bytes s))" and r: "r = Inr () \<longrightarrow> take k d = d"
    by (rule file_write_prefix)
  have len: "unat off + length (take k d) \<le> length (of_bytes s)"
    using fits by simp
  show "True \<and> length (of_bytes s') = length (of_bytes s)
      \<and> (\<forall>p < length (of_bytes s). p < unat off \<or> unat off + length d \<le> p \<longrightarrow>
           of_bytes s' ! p = of_bytes s ! p)
      \<and> (r = Inr () \<longrightarrow> take (length d) (drop (unat off) (of_bytes s')) = d)"
  proof (cases "take k d = []")
    case True
    with k r show ?thesis
      by auto
  next
    case False
    then have s': "of_bytes s' = overwrite (unat off) (take k d) (of_bytes s)"
      by (simp add: k)
    have "take (length d) (drop (unat off) (of_bytes s')) = d" if "r = Inr ()"
      using r that fits by (simp add: s' overwrite_def)
    moreover have "of_bytes s' ! p = of_bytes s ! p"
      if "p < length (of_bytes s)" "p < unat off \<or> unat off + length d \<le> p" for p
      using nth_overwrite [OF len that(1)] that(2) by (auto simp: s')
    ultimately show ?thesis
      using length_overwrite [OF len] by (simp add: s')
  qed
next
  fix s s' :: output_file and r
  assume "op_flush file_ops s = (r, s')"
  then show "True \<and> of_bytes s' = of_bytes s"
    by (auto simp: file_ops_def file_flush_def split: list.splits option.splits)
qed

end
