(* ===== verification/Selection.thy ===== *)
theory Selection
  imports Bitfield "HOL-Library.Multiset" "HOL-Library.Product_Lexorder"
begin

text \<open>
  Piece selection: \<open>crates/p2p-distribute/src/priority.rs\<close> (\<open>PiecePriority\<close>,
  \<open>PiecePriorityMap\<close>) and \<open>selection.rs\<close> (\<open>select_next_piece\<close>, \<open>select_multiple_pieces\<close>,
  \<open>SpeedCategory\<close>, \<open>select_piece_with_affinity\<close>). The score of a piece packs its priority and
  its rarity into one \<open>u64\<close>; the interface \<open>ranking\<close> says what a score has to promise so that
  sorting by it ranks by priority first and by rarity second, whatever the saturating
  arithmetic does. The clock values that only feed \<open>last_update\<close> are kept as numbers.
\<close>

section \<open>Priorities\<close>

datatype piece_priority = Low | Normal | High | Critical

fun priority_rank :: "piece_priority \<Rightarrow> nat" where
  "priority_rank Low = 0"
| "priority_rank Normal = 1"
| "priority_rank High = 2"
| "priority_rank Critical = 3"

instantiation piece_priority :: linorder
begin

definition less_eq_piece_priority :: "piece_priority \<Rightarrow> piece_priority \<Rightarrow> bool" where
  "p \<le> q \<longleftrightarrow> priority_rank p \<le> priority_rank q"

definition less_piece_priority :: "piece_priority \<Rightarrow> piece_priority \<Rightarrow> bool" where
  "p < q \<longleftrightarrow> priority_rank p < priority_rank q"

instance
proof
  fix p q :: piece_priority
  show "p \<le> q \<Longrightarrow> q \<le> p \<Longrightarrow> p = q"
    by (cases p; cases q) (simp_all add: less_eq_piece_priority_def)
qed (auto simp: less_eq_piece_priority_def less_piece_priority_def)

end

fun weight :: "piece_priority \<Rightarrow> u32" where
  "weight Low = 100"
| "weight Normal = 200"
| "weight High = 500"
| "weight Critical = 1000"

fun priority_display :: "piece_priority \<Rightarrow> string" where
  "priority_display Low = ''low''"
| "priority_display Normal = ''normal''"
| "priority_display High = ''high''"
| "priority_display Critical = ''critical''"

record priority_map =
  prio_list :: "piece_priority list"
  prio_last_update :: nat

definition prio_new :: "u32 \<Rightarrow> nat \<Rightarrow> priority_map" where
  "prio_new piece_count now =
     \<lparr>prio_list = replicate (unat piece_count) Normal, prio_last_update = now\<rparr>"

text \<open>The loops \<open>for &idx in indices { if let Some(p) = priorities.get_mut(idx) { *p = level } }\<close>.\<close>

definition assign :: "piece_priority \<Rightarrow> u32 list \<Rightarrow> piece_priority list \<Rightarrow> piece_priority list" where
  "assign level indices ps =
     fold (\<lambda>idx ps. if unat idx < length ps then ps[unat idx := level] else ps) indices ps"

definition prio_update ::
  "priority_map \<Rightarrow> u32 list \<Rightarrow> u32 list \<Rightarrow> u32 list \<Rightarrow> nat \<Rightarrow> priority_map" where
  "prio_update m critical_pieces high_pieces metadata_pieces now =
     (let reset = map (\<lambda>_. Normal) (prio_list m);
          high = assign High high_pieces reset;
          metadata = assign Critical metadata_pieces high;
          critical = assign Critical critical_pieces metadata
      in \<lparr>prio_list = critical, prio_last_update = now\<rparr>)"

definition prio_mark_completed :: "priority_map \<Rightarrow> u32 list \<Rightarrow> priority_map" where
  "prio_mark_completed m completed_pieces =
     m\<lparr>prio_list := assign Low completed_pieces (prio_list m)\<rparr>"

definition prio_get :: "priority_map \<Rightarrow> u32 \<Rightarrow> piece_priority" where
  "prio_get m i = (case get_at (prio_list m) (unat i) of None \<Rightarrow> Normal | Some p \<Rightarrow> p)"

definition weighted_score :: "priority_map \<Rightarrow> u32 \<Rightarrow> u32 \<Rightarrow> u32 \<Rightarrow> u64" where
  "weighted_score m i rarity max_rarity =
     (let priority_weight = ucast (weight (prio_get m i));
          scale = ucast (sat_add max_rarity 1);
          rarity_inverse = ucast (sat_sub (sat_add max_rarity 1) rarity)
      in sat_add (sat_mul priority_weight scale) rarity_inverse)"

definition prio_piece_count :: "priority_map \<Rightarrow> u32" where
  "prio_piece_count m = word_of_nat (length (prio_list m))"

section \<open>Selection\<close>

record piece_selection =
  sel_piece :: u32
  sel_score :: u64

definition score_at :: "u32 list \<Rightarrow> u32 \<Rightarrow> u32" where
  "score_at scores i = (case get_at scores (unat i) of None \<Rightarrow> 0 | Some r \<Rightarrow> r)"

definition max_score :: "u32 list \<Rightarrow> u32" where
  "max_score scores = fold max scores 0"

text \<open>The \<open>filter_map\<close> over the needed pieces, the same in the three selection functions.\<close>

definition candidates ::
  "u32 list \<Rightarrow> peer_bitfield list \<Rightarrow> priority_map \<Rightarrow> u32 \<Rightarrow> piece_selection list" where
  "candidates needed bitfields priority_map piece_count =
     (let scores = rarity_scores bitfields piece_count;
          max_rarity = max_score scores
      in List.map_filter (\<lambda>i.
           let rarity = score_at scores i in
           if rarity = 0 then None
           else Some \<lparr>sel_piece = i,
                      sel_score = weighted_score priority_map i rarity max_rarity\<rparr>) needed)"

text \<open>The comparator: the score descending, then the piece index ascending.\<close>

definition selection_key :: "piece_selection \<Rightarrow> int \<times> nat" where
  "selection_key s = (- uint (sel_score s), unat (sel_piece s))"

definition first :: "'a list \<Rightarrow> 'a option" where
  "first xs = (case xs of [] \<Rightarrow> None | x # _ \<Rightarrow> Some x)"

definition select_next_piece ::
  "u32 list \<Rightarrow> peer_bitfield list \<Rightarrow> priority_map \<Rightarrow> u32 \<Rightarrow> piece_selection option" where
  "select_next_piece needed bitfields priority_map piece_count =
     (if needed = [] then None
      else first (sort_key selection_key (candidates needed bitfields priority_map piece_count)))"

definition select_multiple_pieces ::
  "u32 list \<Rightarrow> peer_bitfield list \<Rightarrow> priority_map \<Rightarrow> u32 \<Rightarrow> nat \<Rightarrow> piece_selection list" where
  "select_multiple_pieces needed bitfields priority_map piece_count n =
     (if needed = [] \<or> n = 0 then []
      else take n
        (sort_key selection_key (candidates needed bitfields priority_map piece_count)))"

datatype speed_category = Slow | Medium | Fast

definition classify :: "u64 \<Rightarrow> u64 \<Rightarrow> speed_category" where
  "classify speed reference_speed =
     (if reference_speed = 0 then Medium
      else let ratio_pct = sat_mul speed 100 div reference_speed in
           if ratio_pct < 25 then Slow else if ratio_pct > 75 then Fast else Medium)"

fun tiebreak_bias :: "speed_category \<Rightarrow> u32 \<Rightarrow> u32 \<Rightarrow> u32" where
  "tiebreak_bias Fast i piece_count = i"
| "tiebreak_bias Medium i piece_count = (i + piece_count div 2) mod piece_count"
| "tiebreak_bias Slow i piece_count = sat_sub (sat_sub piece_count i) 1"

definition affinity_key :: "piece_selection \<times> u32 \<Rightarrow> int \<times> nat" where
  "affinity_key c = (- uint (sel_score (fst c)), unat (snd c))"

definition select_piece_with_affinity ::
  "u32 list \<Rightarrow> peer_bitfield list \<Rightarrow> priority_map \<Rightarrow> u32 \<Rightarrow> speed_category
    \<Rightarrow> piece_selection option" where
  "select_piece_with_affinity needed bitfields priority_map piece_count category =
     (if needed = [] then None
      else map_option fst (first (sort_key affinity_key
        (map (\<lambda>s. (s, tiebreak_bias category (sel_piece s) piece_count))
          (candidates needed bitfields priority_map piece_count)))))"

section \<open>The first of a sorted list\<close>

lemma first_None [simp]: "first xs = None \<longleftrightarrow> xs = []"
  by (simp add: first_def split: list.split)

lemma sort_key_Nil [simp]: "sort_key f xs = [] \<longleftrightarrow> xs = []"
  by (metis set_empty set_sort)

lemma first_map: "first (map f xs) = map_option f (first xs)"
  by (simp add: first_def split: list.split)

lemma first_sort_Some:
  assumes "first (sort_key f xs) = Some x"
  shows "x \<in> set xs \<and> (\<forall>y \<in> set xs. f x \<le> f y)"
proof -
  obtain ys where ys: "sort_key f xs = x # ys"
    using assms by (auto simp: first_def split: list.splits)
  have "sorted (map f (x # ys))"
    by (metis sorted_sort_key ys)
  moreover have "set xs = set (x # ys)"
    by (metis set_sort ys)
  ultimately show ?thesis
    by auto
qed

lemma insort_key_map: "insort_key f (g x) (map g xs) = map g (insort_key (\<lambda>x. f (g x)) x xs)"
  by (induction xs) simp_all

lemma sort_key_map: "sort_key f (map g xs) = map g (sort_key (\<lambda>x. f (g x)) xs)"
  by (induction xs) (simp_all add: insort_key_map)

text \<open>
  The interface of a comparator that tells all elements apart: its sorted list is determined by
  the elements alone, so taking the first away is the same as sorting without it.
\<close>

locale total_ranking =
  fixes key :: "'a \<Rightarrow> 'k::linorder"
  assumes key_inject: "key x = key y \<Longrightarrow> x = y"
begin

lemma sort_unique:
  assumes "mset xs = mset ys" and "sorted (map key ys)"
  shows "sort_key key xs = ys"
proof -
  have "sort (map key xs) = zs" if "mset zs = mset (map key xs)" and "sorted zs" for zs
    using that by (rule properties_for_sort)
  from this [of "map key ys"] this [of "map key (sort_key key xs)"] assms
  have "map key (sort_key key xs) = map key ys"
    by (simp flip: mset_map) (simp add: mset_map)
  then show ?thesis
    using key_inject by (auto simp: inj_def dest: map_injective)
qed

lemma sort_without_first:
  assumes "sort_key key xs = x # ys"
  shows "sort_key key (remove1 x xs) = ys"
proof (rule sort_unique)
  have "mset xs = add_mset x (mset ys)"
    by (metis assms mset.simps(2) mset_sort)
  then show "mset (remove1 x xs) = mset ys"
    by simp
  show "sorted (map key ys)"
    using sorted_sort_key [of key xs] by (simp add: assms)
qed

lemma first_best:
  "first (sort_key key xs) = Some x \<longleftrightarrow> x \<in> set xs \<and> (\<forall>y \<in> set xs. key x \<le> key y)"
proof
  assume "x \<in> set xs \<and> (\<forall>y \<in> set xs. key x \<le> key y)"
  moreover from this obtain z where z: "first (sort_key key xs) = Some z"
    by (metis first_None list.set_cases not_None_eq set_sort list.distinct(1))
  ultimately show "first (sort_key key xs) = Some x"
    using first_sort_Some [OF z] key_inject [of x z] by (auto intro: antisym)
qed (rule first_sort_Some)

end

interpretation best: total_ranking selection_key
  by unfold_locales (auto simp: selection_key_def unat_eq_iff intro!: piece_selection.equality dest: unsigned_word_eqI)

section \<open>The score ranks by priority, then by rarity\<close>

lemma weight_bounds: "100 \<le> unat (weight p) \<and> unat (weight p) \<le> 1000"
  by (cases p) simp_all

lemma weight_mono: "unat (weight p) < unat (weight q) \<longleftrightarrow> p < q"
  by (cases p; cases q) (simp_all add: less_piece_priority_def)

lemma unat_sat_mul: "unat a * unat b < 2 ^ LENGTH('a) \<Longrightarrow> unat (sat_mul a b) = unat a * unat b"
  for a b :: "'a::len word"
  by (simp add: sat_mul_def unat_mult_lem)

definition score_scale :: "u32 \<Rightarrow> nat" where
  "score_scale max_rarity = min (unat max_rarity + 1) (2 ^ 32 - 1)"

lemma weighted_score_value:
  "unat (weighted_score m i r max_rarity) =
     unat (weight (prio_get m i)) * score_scale max_rarity + (score_scale max_rarity - unat r)"
proof -
  let ?w = "unat (weight (prio_get m i))" and ?s = "score_scale max_rarity"
  have s: "unat (sat_add max_rarity 1) = ?s" "?s < 2 ^ 32"
    by (simp_all add: unat_sat_add score_scale_def)
  have w: "?w * ?s \<le> 1000 * ?s"
    using weight_bounds by (intro mult_right_mono) auto
  then have "unat (sat_mul (ucast (weight (prio_get m i))) (ucast (sat_add max_rarity 1)) :: u64)
    = ?w * ?s"
    using s order.strict_trans1 [OF w, of "2 ^ 64"]
    by (subst unat_sat_mul) (simp_all add: unat_ucast_32_64)
  then show ?thesis
    using s w order.trans [OF w, of "1000 * 2 ^ 32"]
    by (simp add: weighted_score_def min_absorb1 unat_sat_add unat_sat_sub unat_ucast_32_64)
qed

lemma two_tier_less:
  fixes a b S u v :: nat
  assumes "a < S" and "b < S"
  shows "u * S + a < v * S + b \<longleftrightarrow> u < v \<or> u = v \<and> a < b"
proof -
  have lt: "u * S + a < v * S + b" if "u < v" "a < S" for u v a b
    using mult_le_mono1 [of "Suc u" v S] that by simp
  show ?thesis
    using lt [of u v a b] lt [of v u b a] assms by (cases u v rule: linorder_cases) auto
qed

lemma weighted_score_less:
  assumes "0 < r" "r \<le> max_rarity" "0 < t" "t \<le> max_rarity"
  shows "weighted_score m i r max_rarity < weighted_score m j t max_rarity
    \<longleftrightarrow> prio_get m i < prio_get m j \<or> prio_get m i = prio_get m j \<and> t < r"
proof -
  let ?S = "score_scale max_rarity"
  have b: "unat r \<le> ?S" "unat t \<le> ?S" "0 < unat r" "0 < unat t"
    using assms unat_less_exp [of r] unat_less_exp [of t]
    by (auto simp: score_scale_def word_le_nat_alt word_less_nat_alt min_def)
  have "weighted_score m i r max_rarity < weighted_score m j t max_rarity
    \<longleftrightarrow> unat (weight (prio_get m i)) < unat (weight (prio_get m j))
      \<or> unat (weight (prio_get m i)) = unat (weight (prio_get m j)) \<and> ?S - unat r < ?S - unat t"
    unfolding word_less_nat_alt weighted_score_value
    by (rule two_tier_less) (use b in simp_all)
  also have "\<dots> \<longleftrightarrow> prio_get m i < prio_get m j \<or> prio_get m i = prio_get m j \<and> t < r"
    using b weight_mono [of "prio_get m i" "prio_get m j"] weight_mono [of "prio_get m j" "prio_get m i"]
    by (auto simp: word_less_nat_alt)
  finally show ?thesis .
qed

section \<open>The candidates\<close>

text \<open>In how many bitfields a piece is; a piece is available when it is in one of them.\<close>

definition availability :: "peer_bitfield list \<Rightarrow> u32 \<Rightarrow> nat" where
  "availability bfs i = length (filter (\<lambda>bf. bf_has_piece bf i) bfs)"

definition obtainable :: "peer_bitfield list \<Rightarrow> u32 \<Rightarrow> u32 \<Rightarrow> bool" where
  "obtainable bfs pc i \<longleftrightarrow> i < pc \<and> 0 < availability bfs i"

lemma score_at_availability:
  assumes "length bfs < 2 ^ 32"
  shows "unat (score_at (rarity_scores bfs pc) i) = (if i < pc then availability bfs i else 0)"
proof (cases "i < pc")
  case True
  then have "unat i < unat pc"
    by (simp add: word_less_nat_alt)
  with fold_add_scores [of "unat i" "replicate (unat pc) 0" bfs] assms True show ?thesis
    by (simp add: score_at_def get_at_def rarity_scores_def availability_def)
next
  case False
  have "length (fold add_scores bfs scores) = length scores" for scores
    by (induction bfs arbitrary: scores) (simp_all add: add_scores_def)
  with False show ?thesis
    by (simp add: score_at_def get_at_def rarity_scores_def word_less_nat_alt)
qed

lemma fold_max_ge: "a \<le> fold max xs a \<and> (\<forall>x \<in> set xs. x \<le> fold max xs a)"
  for a :: "'a::linorder"
proof (induction xs arbitrary: a)
  case (Cons x xs)
  from Cons.IH [of "max x a"] show ?case
    by auto
qed simp

lemma score_at_le_max: "score_at scores i \<le> max_score scores"
  using fold_max_ge [where xs = scores and a = 0]
  by (auto simp: score_at_def max_score_def dest: get_at_Some split: option.split)

lemma set_map_filter: "y \<in> set (List.map_filter f xs) \<longleftrightarrow> (\<exists>x \<in> set xs. f x = Some y)"
  by (induction xs) (auto simp: List.map_filter_simps split: option.split)

definition candidate :: "peer_bitfield list \<Rightarrow> priority_map \<Rightarrow> u32 \<Rightarrow> u32 \<Rightarrow> piece_selection" where
  "candidate bfs m pc i =
     \<lparr>sel_piece = i,
      sel_score = weighted_score m i (score_at (rarity_scores bfs pc) i)
        (max_score (rarity_scores bfs pc))\<rparr>"

lemma candidates_alt:
  assumes "length bfs < 2 ^ 32"
  shows "candidates needed bfs m pc = map (candidate bfs m pc) (filter (obtainable bfs pc) needed)"
proof -
  have "score_at (rarity_scores bfs pc) i = 0 \<longleftrightarrow> \<not> obtainable bfs pc i" for i
    using score_at_availability [OF assms, of pc i]
    by (auto simp: obtainable_def unat_eq_0 split: if_splits)
  then show ?thesis
    by (induction needed)
      (simp_all add: candidates_def candidate_def Let_def List.map_filter_simps)
qed

text \<open>
  The order the selection promises: piece \<open>i\<close> is to be downloaded before \<open>j\<close> when its priority is
  higher, at equal priority when fewer peers have it, and at equal rarity when it comes first.
\<close>

definition preferred :: "priority_map \<Rightarrow> peer_bitfield list \<Rightarrow> u32 \<Rightarrow> u32 \<Rightarrow> bool" where
  "preferred m bfs i j \<longleftrightarrow>
     prio_get m j < prio_get m i
     \<or> prio_get m j = prio_get m i
       \<and> (availability bfs i < availability bfs j \<or> availability bfs i = availability bfs j \<and> i \<le> j)"

lemma candidate_score_less:
  assumes "length bfs < 2 ^ 32" "obtainable bfs pc i" "obtainable bfs pc j"
  shows "sel_score (candidate bfs m pc i) < sel_score (candidate bfs m pc j)
    \<longleftrightarrow> prio_get m i < prio_get m j
      \<or> prio_get m i = prio_get m j \<and> availability bfs j < availability bfs i"
  using weighted_score_less [of "score_at (rarity_scores bfs pc) i" "max_score (rarity_scores bfs pc)"
      "score_at (rarity_scores bfs pc) j" m i j] score_at_le_max assms
    score_at_availability [OF assms(1), of pc i] score_at_availability [OF assms(1), of pc j]
  by (simp add: candidate_def obtainable_def word_less_nat_alt)

lemma selection_key_le:
  "selection_key a \<le> selection_key b
    \<longleftrightarrow> sel_score b < sel_score a \<or> sel_score a = sel_score b \<and> sel_piece a \<le> sel_piece b"
proof -
  have "uint (sel_score b) \<le> uint (sel_score a)
    \<longleftrightarrow> sel_score b < sel_score a \<or> sel_score a = sel_score b"
    unfolding word_less_def by (metis linorder_neqE_linordered_idom order_le_less unsigned_word_eqI)
  then show ?thesis
    by (auto simp: selection_key_def less_eq_prod_def word_less_def word_le_nat_alt)
qed

lemma candidate_key_le:
  assumes "length bfs < 2 ^ 32" "obtainable bfs pc i" "obtainable bfs pc j"
  shows "selection_key (candidate bfs m pc i) \<le> selection_key (candidate bfs m pc j)
    \<longleftrightarrow> preferred m bfs i j"
proof -
  let ?a = "candidate bfs m pc i" and ?b = "candidate bfs m pc j"
  have "sel_score ?a = sel_score ?b \<longleftrightarrow> \<not> sel_score ?a < sel_score ?b \<and> \<not> sel_score ?b < sel_score ?a"
    by auto
  moreover have "sel_piece ?a = i" "sel_piece ?b = j"
    by (simp_all add: candidate_def)
  ultimately show ?thesis
    using candidate_score_less [OF assms, of m] candidate_score_less [OF assms(1,3,2), of m]
    unfolding selection_key_le preferred_def by (metis linorder_neq_iff)
qed

lemma sel_piece_candidate [simp]: "sel_piece (candidate bfs m pc i) = i"
  by (simp add: candidate_def)

lemma candidate_inject: "candidate bfs m pc i = candidate bfs m pc j \<longleftrightarrow> i = j"
  by (metis sel_piece_candidate)

lemma remove1_map: "inj f \<Longrightarrow> remove1 (f x) (map f xs) = map f (remove1 x xs)"
  by (induction xs) (auto dest: injD)

lemma candidates_remove1:
  assumes "length bfs < 2 ^ 32"
  shows "candidates (remove1 i needed) bfs m pc
    = remove1 (candidate bfs m pc i) (candidates needed bfs m pc)"
  by (simp add: candidates_alt [OF assms] filter_remove1 remove1_map inj_def candidate_inject)

lemma candidates_Nil [simp]: "candidates [] bfs m pc = []"
  by (simp add: candidates_def List.map_filter_simps)

lemma select_next_first:
  "select_next_piece needed bfs m pc = first (sort_key selection_key (candidates needed bfs m pc))"
  by (simp add: select_next_piece_def first_def)

lemma select_multiple_take:
  "select_multiple_pieces needed bfs m pc n
    = take n (sort_key selection_key (candidates needed bfs m pc))"
  by (auto simp: select_multiple_pieces_def)

lemma select_next_Some:
  assumes "length bfs < 2 ^ 32" and "select_next_piece needed bfs m pc = Some s"
  obtains i where "s = candidate bfs m pc i" "i \<in> set needed" "obtainable bfs pc i"
    "\<And>j. j \<in> set needed \<Longrightarrow> obtainable bfs pc j \<Longrightarrow> preferred m bfs i j"
proof -
  have best: "s \<in> set (candidates needed bfs m pc)"
    "\<forall>t \<in> set (candidates needed bfs m pc). selection_key s \<le> selection_key t"
    using assms(2) by (simp_all add: select_next_first best.first_best)
  then obtain i where i: "s = candidate bfs m pc i" "i \<in> set needed" "obtainable bfs pc i"
    by (auto simp: candidates_alt [OF assms(1)])
  have "preferred m bfs i j" if "j \<in> set needed" "obtainable bfs pc j" for j
    using best(2) that i candidate_key_le [OF assms(1) i(3) that(2), of m]
    by (simp add: candidates_alt [OF assms(1)])
  with i that show thesis
    by blast
qed

lemma affinity_first:
  "select_piece_with_affinity needed bfs m pc c =
     map_option fst (first (sort_key affinity_key
       (map (\<lambda>s. (s, tiebreak_bias c (sel_piece s) pc)) (candidates needed bfs m pc))))"
  by (simp add: select_piece_with_affinity_def first_def)

lemma affinity_Fast: "select_piece_with_affinity needed bfs m pc Fast = select_next_piece needed bfs m pc"
proof -
  have "affinity_key (s, sel_piece s) = selection_key s" for s
    by (simp add: affinity_key_def selection_key_def)
  then show ?thesis
    by (simp add: affinity_first select_next_first sort_key_map first_map option.map_comp comp_def
        option.map_ident)
qed

section \<open>Properties\<close>

text \<open>
  The piece to download next is a needed piece that some peer has, and no other available needed
  piece is to be preferred: none has a higher priority, none of the same priority is in fewer
  bitfields, and none of the same priority and rarity has a lower index, although all of this is
  decided by one saturating 64-bit score. Nothing is selected only when no needed piece is available.
\<close>
theorem select_next_piece_best:
  assumes "length bfs < 2 ^ 32"
  shows "case select_next_piece needed bfs m pc of
      None \<Rightarrow> \<forall>i \<in> set needed. \<not> obtainable bfs pc i
    | Some s \<Rightarrow> sel_piece s \<in> set needed \<and> obtainable bfs pc (sel_piece s)
        \<and> (\<forall>j \<in> set needed. obtainable bfs pc j \<longrightarrow> preferred m bfs (sel_piece s) j)"
proof (cases "select_next_piece needed bfs m pc")
  case None
  then have "candidates needed bfs m pc = []"
    by (simp add: select_next_first)
  with None show ?thesis
    by (simp add: candidates_alt [OF assms] filter_empty_conv)
next
  case (Some s)
  then show ?thesis
    by (auto elim: select_next_Some [OF assms])
qed

theorem select_next_piece_best_witness:
  "\<exists>s. select_next_piece [0, 1] [bf_new_full 2] (prio_new 2 0) 2 = Some s
     \<and> preferred (prio_new 2 0) [bf_new_full 2] (sel_piece s) 0
     \<and> preferred (prio_new 2 0) [bf_new_full 2] (sel_piece s) 1"
proof -
  have "obtainable [bf_new_full 2] 2 0" "obtainable [bf_new_full 2] 2 1"
    by (simp_all add: obtainable_def availability_def bf_new_full(3))
  moreover have "length [bf_new_full 2] < 2 ^ 32"
    by simp
  note select_next_piece_best [OF this, where needed = "[0, 1]" and m = "prio_new 2 0" and pc = 2]
  ultimately show ?thesis
    by (cases "select_next_piece [0, 1] [bf_new_full 2] (prio_new 2 0) 2") simp_all
qed

text \<open>
  The reference for batch selection: select the next piece, take it out of the needed pieces, and
  go on, at most \<open>n\<close> times.
\<close>

primrec select_repeatedly ::
  "nat \<Rightarrow> u32 list \<Rightarrow> peer_bitfield list \<Rightarrow> priority_map \<Rightarrow> u32 \<Rightarrow> piece_selection list" where
  "select_repeatedly 0 needed bfs m pc = []"
| "select_repeatedly (Suc n) needed bfs m pc =
     (case select_next_piece needed bfs m pc of
        None \<Rightarrow> []
      | Some s \<Rightarrow> s # select_repeatedly n (remove1 (sel_piece s) needed) bfs m pc)"

text \<open>
  Selecting a batch of \<open>n\<close> pieces with one sort gives what selecting the next piece \<open>n\<close> times
  gives, each time without the pieces already selected.
\<close>
theorem select_multiple_is_repeated_next:
  assumes "length bfs < 2 ^ 32"
  shows "select_multiple_pieces needed bfs m pc n = select_repeatedly n needed bfs m pc"
proof (induction n arbitrary: needed)
  case 0
  then show ?case
    by (simp add: select_multiple_take)
next
  case (Suc n)
  show ?case
  proof (cases "sort_key selection_key (candidates needed bfs m pc)")
    case Nil
    then show ?thesis
      by (simp add: select_multiple_take select_next_first first_def)
  next
    case (Cons s ys)
    then have next_s: "select_next_piece needed bfs m pc = Some s"
      by (simp add: select_next_first first_def)
    then obtain i where "s = candidate bfs m pc i"
      by (rule select_next_Some [OF assms])
    with Cons best.sort_without_first [OF Cons] next_s Suc.IH [of "remove1 i needed"] show ?thesis
      by (simp add: select_multiple_take candidates_remove1 [OF assms])
  qed
qed

theorem select_multiple_is_repeated_next_witness:
  "select_multiple_pieces [1, 0] [bf_new_full 2] (prio_new 2 0) 2 3
    = select_repeatedly 3 [1, 0] [bf_new_full 2] (prio_new 2 0) 2"
  by (rule select_multiple_is_repeated_next) simp

text \<open>
  The speed category of a peer only breaks ties: for every category the piece selected has the
  score of the piece \<open>select_next_piece\<close> selects, and nothing is selected exactly when nothing is
  selected there. For fast peers the two functions are the same.
\<close>
theorem affinity_only_breaks_ties:
  "map_option sel_score (select_piece_with_affinity needed bfs m pc c)
     = map_option sel_score (select_next_piece needed bfs m pc)
   \<and> select_piece_with_affinity needed bfs m pc Fast = select_next_piece needed bfs m pc"
proof -
  let ?cs = "candidates needed bfs m pc"
  let ?xs = "map (\<lambda>s. (s, tiebreak_bias c (sel_piece s) pc)) ?cs"
  have "map_option sel_score (select_piece_with_affinity needed bfs m pc c)
    = map_option sel_score (select_next_piece needed bfs m pc)"
  proof (cases "?cs = []")
    case True
    then show ?thesis
      by (simp add: affinity_first select_next_first first_def)
  next
    case False
    then have "first (sort_key affinity_key ?xs) \<noteq> None" "first (sort_key selection_key ?cs) \<noteq> None"
      by simp_all
    then obtain x s where x: "first (sort_key affinity_key ?xs) = Some x"
      and s: "first (sort_key selection_key ?cs) = Some s"
      by blast
    from first_sort_Some [OF x] first_sort_Some [OF s]
    have "selection_key s \<le> selection_key (fst x)"
      and "affinity_key x \<le> affinity_key (s, tiebreak_bias c (sel_piece s) pc)"
      by auto
    then have "uint (sel_score (fst x)) = uint (sel_score s)"
      by (auto simp: affinity_key_def selection_key_def less_eq_prod_def)
    then have "sel_score (fst x) = sel_score s"
      by (rule unsigned_word_eqI)
    with x s show ?thesis
      by (simp add: affinity_first select_next_first)
  qed
  then show ?thesis
    by (simp add: affinity_Fast)
qed

text \<open>
  After an update the priority of a piece of the torrent depends only on the three sets given:
  critical when the piece is at the playhead or holds metadata, else high when it is in the prebuffer
  window, else normal, whatever its priority was before. Pieces outside the map are normal.
\<close>
theorem priority_update_correct:
  "prio_get (prio_update m critical high metadata now) i =
     (if unat i < length (prio_list m) then
        if i \<in> set critical \<union> set metadata then Critical
        else if i \<in> set high then High else Normal
      else Normal)"
proof -
  have assign: "length (assign level is ps) = length ps
      \<and> (k < length ps \<longrightarrow> assign level is ps ! k = (if k \<in> unat ` set is then level else ps ! k))"
    for level "is" ps k
    by (induction "is" arbitrary: ps) (auto simp: assign_def nth_list_update)
  have mem: "unat i \<in> unat ` set is \<longleftrightarrow> i \<in> set is" for "is" :: "u32 list"
    by (auto simp: unat_eq_iff)
  show ?thesis
    by (simp add: prio_get_def prio_update_def get_at_def assign mem)
qed

text \<open>
  The speed category of a peer, for speeds up to \<open>2 ^ 64 / 100\<close> bytes per second: slow exactly
  when the speed is below a quarter of the fastest peer's, but fast only from 76 percent of it on,
  because the percentage is rounded down before it is compared.
\<close>
theorem classify_bounds:
  assumes "0 < reference" and "unat speed * 100 < 2 ^ 64"
  shows "(classify speed reference = Slow \<longleftrightarrow> unat speed * 4 < unat reference)
    \<and> (classify speed reference = Fast \<longleftrightarrow> unat reference * 76 \<le> unat speed * 100)"
proof -
  let ?q = "unat speed * 100 div unat reference"
  have ref: "0 < unat reference"
    using assms(1) by (simp add: word_less_nat_alt)
  have q: "unat (sat_mul speed 100 div reference) = ?q"
    using assms(2) by (simp add: unat_div unat_sat_mul)
  have "classify speed reference = (if ?q < 25 then Slow else if 75 < ?q then Fast else Medium)"
    using ref by (auto simp: classify_def Let_def word_less_nat_alt q)
  moreover have "?q < 25 \<longleftrightarrow> unat speed * 4 < unat reference"
    using ref by (simp add: div_less_iff_less_mult mult.commute)
  moreover have "75 < ?q \<longleftrightarrow> unat reference * 76 \<le> unat speed * 100"
    using ref less_eq_div_iff_mult_less_eq [of "unat reference" 76 "unat speed * 100"]
    by (simp add: mult.commute Suc_le_eq [symmetric])
  ultimately show ?thesis
    by auto
qed

text \<open>A peer at 75.9 percent of the fastest one is not yet fast.\<close>
theorem classify_bounds_witness:
  "classify 759 1000 = Medium \<and> classify 760 1000 = Fast \<and> classify 249 1000 = Slow"
  using classify_bounds [of 1000 759] classify_bounds [of 1000 760] classify_bounds [of 1000 249]
  by (cases "classify 759 1000") simp_all

end
