(* ===== verification/PeerChoice.thy ===== *)
theory PeerChoice
  imports Prelude "HOL-Library.Product_Lexorder" "HOL-Library.Mapping"
begin

text \<open>
  What the coordinator decides about peers: the vocabulary of \<open>crates/p2p-distribute/src/peer.rs\<close>
  (\<open>PeerKind\<close>, \<open>RejectionReason\<close>, \<open>PeerError\<close>), the selection of the peer that downloads a piece,
  \<open>select_peer_with_exclusion\<close> of \<open>coordinator.rs\<close>, and \<open>PartitionRecovery\<close> of the same file.

  A peer is seen through a \<open>peer_view\<close>: the answers of the trait \<open>Peer\<close>, of its statistics in
  \<open>PeerTracker\<close> and of its failure detector at the moment of the selection. The peers answer over
  the network and the statistics depend on the clock, so the views are inputs.
\<close>

section \<open>Peers\<close>

datatype peer_kind = WebSeed | BtSwarm

datatype rejection_reason =
  RateLimited
| SwarmFull
| InsufficientAuth
| PolicyViolation
| Maintenance
| OtherReason string

fun rejection_display :: "rejection_reason \<Rightarrow> string" where
  "rejection_display RateLimited = ''rate limited''"
| "rejection_display SwarmFull = ''swarm full''"
| "rejection_display InsufficientAuth = ''insufficient authentication''"
| "rejection_display PolicyViolation = ''policy violation''"
| "rejection_display Maintenance = ''peer maintenance''"
| "rejection_display (OtherReason detail) = detail"

datatype peer_error =
  PeHttp u32 string string
| PeBtSwarm u32 string
| PeTimeout u32
| PeRejected u32 rejection_reason
| PeIo string

record peer_view =
  pv_kind :: peer_kind
  pv_has_piece :: bool
  pv_is_choked :: bool
  pv_speed_estimate :: u64
  pv_should_back_off :: bool
  pv_should_avoid :: bool
  pv_is_excluded :: bool
  pv_composite_score :: u64
  pv_suspect :: bool

section \<open>Peer selection\<close>

definition is_blacklisted :: "bool list \<Rightarrow> nat \<Rightarrow> bool" where
  "is_blacklisted blacklisted i = (case get_at blacklisted i of None \<Rightarrow> False | Some b \<Rightarrow> b)"

definition primary_eligible ::
  "u64 \<Rightarrow> nat option \<Rightarrow> bool list \<Rightarrow> nat \<times> peer_view \<Rightarrow> bool" where
  "primary_eligible min_speed excluded blacklisted = (\<lambda>(i, p).
     pv_has_piece p \<and> \<not> pv_is_choked p \<and> \<not> is_blacklisted blacklisted i \<and> excluded \<noteq> Some i
     \<and> (min_speed = 0 \<or> pv_speed_estimate p \<ge> min_speed)
     \<and> \<not> pv_should_back_off p \<and> \<not> pv_should_avoid p \<and> \<not> pv_is_excluded p)"

definition primary_key :: "nat \<times> peer_view \<Rightarrow> nat \<times> nat" where
  "primary_key = (\<lambda>(i, p).
     let score = pv_composite_score p;
         adjusted_score = if pv_suspect p then score div 2 else score
     in (unat adjusted_score, unat (pv_speed_estimate p)))"

definition fallback_eligible :: "bool list \<Rightarrow> nat \<times> peer_view \<Rightarrow> bool" where
  "fallback_eligible blacklisted = (\<lambda>(i, p).
     pv_has_piece p \<and> \<not> pv_is_choked p \<and> \<not> is_blacklisted blacklisted i
     \<and> \<not> pv_should_avoid p \<and> \<not> pv_is_excluded p)"

definition fallback_key :: "nat \<times> peer_view \<Rightarrow> nat \<times> nat" where
  "fallback_key = (\<lambda>(i, p). (unat (pv_composite_score p), unat (pv_speed_estimate p)))"

definition select_peer_with_exclusion ::
  "u64 \<Rightarrow> nat option \<Rightarrow> bool list \<Rightarrow> peer_view list \<Rightarrow> nat option" where
  "select_peer_with_exclusion min_speed excluded blacklisted views =
     (let peers = enumerate 0 views in
      case max_by_key primary_key
             (filter (primary_eligible min_speed excluded blacklisted) peers) of
        Some (idx, _) \<Rightarrow> Some idx
      | None \<Rightarrow> map_option fst
          (max_by_key fallback_key (filter (fallback_eligible blacklisted) peers)))"

section \<open>Partition recovery\<close>

type_synonym partition_recovery = "(nat, bool list) mapping"

record reconciliation_diff =
  rd_gained :: "u32 list"
  rd_lost :: "u32 list"

definition pr_new :: partition_recovery where
  "pr_new = Mapping.empty"

definition pr_save_snapshot :: "nat \<Rightarrow> bool list \<Rightarrow> partition_recovery \<Rightarrow> partition_recovery" where
  "pr_save_snapshot = Mapping.update"

definition pr_discard :: "nat \<Rightarrow> partition_recovery \<Rightarrow> partition_recovery" where
  "pr_discard = Mapping.delete"

definition pr_has_snapshot :: "partition_recovery \<Rightarrow> nat \<Rightarrow> bool" where
  "pr_has_snapshot m p \<longleftrightarrow> Mapping.lookup m p \<noteq> None"

definition bit_at :: "bool list \<Rightarrow> nat \<Rightarrow> bool" where
  "bit_at bits i = (case get_at bits i of None \<Rightarrow> False | Some b \<Rightarrow> b)"

definition pr_reconcile ::
  "nat \<Rightarrow> bool list \<Rightarrow> partition_recovery \<Rightarrow> reconciliation_diff option \<times> partition_recovery" where
  "pr_reconcile p fresh m =
     (case Mapping.lookup m p of
        None \<Rightarrow> (None, m)
      | Some old \<Rightarrow>
          let max_len = max (length old) (length fresh);
              (gained, lost) = fold (\<lambda>i (gained, lost).
                  if \<not> bit_at old i \<and> bit_at fresh i then (gained @ [word_of_nat i], lost)
                  else if bit_at old i \<and> \<not> bit_at fresh i then (gained, lost @ [word_of_nat i])
                  else (gained, lost)) [0..<max_len] ([], [])
          in (Some \<lparr>rd_gained = gained, rd_lost = lost\<rparr>, Mapping.delete p m))"

definition pr_partitioned_count :: "partition_recovery \<Rightarrow> nat" where
  "pr_partitioned_count m = Mapping.size m"

section \<open>Lemmas\<close>

lemma mem_enumerate: "(i, p) \<in> set (enumerate 0 views) \<longleftrightarrow> i < length views \<and> p = views ! i"
  by (auto simp: in_set_enumerate_eq)

lemma primary_fallback:
  "primary_eligible min_speed excluded blacklisted x \<Longrightarrow> fallback_eligible blacklisted x"
  by (auto simp: primary_eligible_def fallback_eligible_def)

lemma bit_at_iff: "bit_at bits i \<longleftrightarrow> i < length bits \<and> bits ! i"
  by (auto simp: bit_at_def get_at_def)

section \<open>Properties\<close>

text \<open>
  The peer selected for a piece has the piece, is not choked, not blacklisted, not rejected
  for good and not in a timed exclusion. The peer that failed the piece last, one below the
  minimum speed or one that asked to back off is selected only when every peer is such; among the
  peers that are not, one of the highest score, halved for suspects, is selected. No peer is
  selected only when none is eligible even with these relaxations.
\<close>
theorem select_peer_correct:
  "case select_peer_with_exclusion min_speed excluded blacklisted views of
     None \<Rightarrow> \<forall>i < length views. \<not> fallback_eligible blacklisted (i, views ! i)
   | Some i \<Rightarrow> i < length views \<and> fallback_eligible blacklisted (i, views ! i)
       \<and> (\<forall>j < length views. primary_eligible min_speed excluded blacklisted (j, views ! j) \<longrightarrow>
            primary_eligible min_speed excluded blacklisted (i, views ! i)
            \<and> primary_key (j, views ! j) \<le> primary_key (i, views ! i))"
proof -
  let ?P = "filter (primary_eligible min_speed excluded blacklisted) (enumerate 0 views)"
  let ?F = "filter (fallback_eligible blacklisted) (enumerate 0 views)"
  show ?thesis
  proof (cases "max_by_key primary_key ?P")
    case (Some x)
    with max_by_key_Some [OF Some] show ?thesis
      by (cases x) (auto simp: select_peer_with_exclusion_def mem_enumerate intro: primary_fallback)
  next
    case None
    then have none: "\<not> primary_eligible min_speed excluded blacklisted (j, views ! j)"
      if "j < length views" for j
      using that by (auto simp: filter_empty_conv mem_enumerate)
    show ?thesis
    proof (cases "max_by_key fallback_key ?F")
      case (Some x)
      with None none max_by_key_Some [OF Some] show ?thesis
        by (cases x) (auto simp: select_peer_with_exclusion_def mem_enumerate)
    next
      case fnone: None
      with None show ?thesis
        by (auto simp: select_peer_with_exclusion_def filter_empty_conv mem_enumerate)
    qed
  qed
qed

theorem select_peer_correct_witness:
  "let v = \<lparr>pv_kind = BtSwarm, pv_has_piece = True, pv_is_choked = False, pv_speed_estimate = 50,
            pv_should_back_off = False, pv_should_avoid = False, pv_is_excluded = False,
            pv_composite_score = 9, pv_suspect = False\<rparr>
   in select_peer_with_exclusion 10 None [False, False, True]
        [v, v\<lparr>pv_composite_score := 12, pv_suspect := True\<rparr>, v\<lparr>pv_composite_score := 99\<rparr>] = Some 0"
proof -
  let ?v = "\<lparr>pv_kind = BtSwarm, pv_has_piece = True, pv_is_choked = False, pv_speed_estimate = 50,
            pv_should_back_off = False, pv_should_avoid = False, pv_is_excluded = False,
            pv_composite_score = 9, pv_suspect = False\<rparr>"
  let ?vs = "[?v, ?v\<lparr>pv_composite_score := 12, pv_suspect := True\<rparr>, ?v\<lparr>pv_composite_score := 99\<rparr>]"
  show ?thesis
    using select_peer_correct [where min_speed = 10 and excluded = None
        and blacklisted = "[False, False, True]" and views = ?vs]
    by (simp add: select_peer_with_exclusion_def max_by_key_def primary_eligible_def primary_key_def
        is_blacklisted_def get_at_def)
qed

text \<open>
  Reconciling a peer that is back reports exactly the pieces it has gained and lost since the
  snapshot, in ascending order, where a bitfield is false behind its end, and drops the snapshot, so
  that a second reconciliation is the one of a fresh join. Other peers' snapshots are kept.
\<close>
theorem reconcile_exact:
  assumes "Mapping.lookup m p = Some old"
  shows "fst (pr_reconcile p fresh m) = Some
      \<lparr>rd_gained = map word_of_nat (filter (\<lambda>i. \<not> bit_at old i \<and> bit_at fresh i)
                     [0..<max (length old) (length fresh)]),
       rd_lost = map word_of_nat (filter (\<lambda>i. bit_at old i \<and> \<not> bit_at fresh i)
                     [0..<max (length old) (length fresh)])\<rparr>
    \<and> (\<forall>q. Mapping.lookup (snd (pr_reconcile p fresh m)) q
          = (if q = p then None else Mapping.lookup m q))"
proof -
  have loop: "fold (\<lambda>i (gained, lost).
        if \<not> bit_at old i \<and> bit_at fresh i then (gained @ [word_of_nat i :: u32], lost)
        else if bit_at old i \<and> \<not> bit_at fresh i then (gained, lost @ [word_of_nat i])
        else (gained, lost)) is (gs, ls)
    = (gs @ map word_of_nat (filter (\<lambda>i. \<not> bit_at old i \<and> bit_at fresh i) is),
       ls @ map word_of_nat (filter (\<lambda>i. bit_at old i \<and> \<not> bit_at fresh i) is))"
    for "is" :: "nat list" and gs ls :: "u32 list"
    by (induction "is" arbitrary: gs ls) auto
  show ?thesis
    by (auto simp: pr_reconcile_def assms loop Let_def lookup_delete lookup_delete_neq)
qed

theorem reconcile_exact_witness:
  "fst (pr_reconcile 7 [True, False, True] (pr_save_snapshot 7 [True, True] pr_new))
    = Some \<lparr>rd_gained = [2], rd_lost = [1]\<rparr>"
proof -
  have "Mapping.lookup (pr_save_snapshot 7 [True, True] pr_new) 7 = Some [True, True]"
    by (simp add: pr_save_snapshot_def lookup_update)
  from reconcile_exact [OF this, of "[True, False, True]"] show ?thesis
    by (simp add: bit_at_def get_at_def upt_conv_Cons)
qed

end
