(* ===== verification/Coordinator.thy ===== *)
theory Coordinator
  imports PieceMap Resume FileStorage Validator Selection PeerChoice
begin

text \<open>
  The download coordinator, \<open>crates/p2p-distribute/src/coordinator.rs\<close>: the worker threads of
  \<open>PieceCoordinator::run\<close> over the shared piece map, the storage, the cancel flag, the fatal error
  and the tracking state behind one mutex.

  A worker is its program counter: \<open>worker\<close> has one constructor per point of the loop at which the
  thread touches shared state, with the local variables that are live there. \<open>worker_step\<close> runs one
  worker from one such point to the next, with one access in between (a load, a compare-exchange, a
  storage write, or the work under one holding of the mutex), and \<open>pool_step\<close> lets any worker run
  its next step, or the caller raise the cancel flag. Every interleaving of the threads is a list
  of such events. A worker that needs the mutex stays where it is while another one holds it, in
  the loop over the failed pieces, the only holding that spans several accesses.

  What comes from outside is in the record \<open>env\<close> of an event: the views of the peers, the outcome
  of a fetch, and in streaming mode the bitfields and the priority map. The statistics that
  \<open>PeerTracker\<close>, \<open>PhiDetector\<close> and \<open>CorruptionLedger\<close> keep only reach the coordinator through the
  views. Progress events are logged, without their times, speeds and peer kinds.
\<close>

section \<open>Errors and configuration\<close>

datatype coord_error =
  NoPeers
| AllPeersFailed u32 u32
| PieceHashMismatch u32 string string
| PeerBlacklistedError nat u32
| IoError u32 string
| StorageFailure u32 storage_error
| Cancelled

record coord_config =
  cc_max_concurrent_pieces :: u32
  cc_max_retries_per_piece :: u32
  cc_min_peer_speed :: u64
  cc_endgame_threshold :: u32
  cc_max_peer_failures :: u32
  cc_resume_path :: "string option"
  cc_streaming :: bool
  cc_piece_data_cache :: bool

text \<open>
  \<open>CoordinatorConfig::default\<close>. The cancel flag is part of the state, and the storage factory is an
  argument of the run.
\<close>

definition cc_default :: coord_config where
  "cc_default =
     \<lparr>cc_max_concurrent_pieces = 8, cc_max_retries_per_piece = 3, cc_min_peer_speed = 10240,
      cc_endgame_threshold = 5, cc_max_peer_failures = 3, cc_resume_path = None,
      cc_streaming = False, cc_piece_data_cache = False\<rparr>"

datatype progress =
  Starting u32 u64 nat bool
| Resumed u32 u32 u64
| PieceComplete u32 u32 u32 u64
| PieceRetry u32
| PeerBlacklisted nat u32
| Complete u64
| AvailabilityUpdate "bool list" u32
| CacheInsert u32 bytes
| ReaderNotified u64 u64

section \<open>State\<close>

record 's coord =
  co_map :: piece_map
  co_cancel :: bool
  co_fatal :: "coord_error option"
  co_store :: 's
  co_peer_failures :: "u32 list"
  co_peer_blacklisted :: "bool list"
  co_retry_counts :: "u32 list"
  co_last_failed_peer :: "nat option list"
  co_bytes_downloaded :: u64
  co_resume_file :: "bytes option"
  co_log :: "progress list"

datatype worker =
  CheckCancel
| CheckComplete
| CheckFatal
| LockEndgame
| Resetting bool nat
| Claiming nat
| Trying "u32 list" nat
| NoClaim
| Scanning nat
| Selecting u32
| NoEligiblePeer u32
| Fetching u32 nat
| Writing u32 nat bytes
| WriteFailed u32 storage_error
| StoreFatal u32 storage_error
| Written u32 nat bytes
| Announcing u32 nat bytes
| Succeeding u32 nat bytes
| HashFailed u32 nat
| FetchFailed u32 nat
| Exited

record env =
  env_views :: "peer_view list"
  env_fetch :: "peer_error + bytes"
  env_bitfields :: "peer_bitfield list"
  env_priorities :: priority_map

text \<open>What a run is given: SHA-1, the torrent, the configuration, the peers and the storage.\<close>

record 's job =
  job_sha1 :: "bytes \<Rightarrow> bytes"
  job_info :: torrent_info
  job_config :: coord_config
  job_peers :: nat
  job_ops :: "'s storage_ops"

abbreviation job_count :: "'s job \<Rightarrow> u32" where
  "job_count job \<equiv> ti_piece_count (job_info job)"

section \<open>Helpers\<close>

text \<open>\<open>if let Some(x) = v.get_mut(i) { *x = f(*x) }\<close>.\<close>

definition modify_at :: "nat \<Rightarrow> ('a \<Rightarrow> 'a) \<Rightarrow> 'a list \<Rightarrow> 'a list" where
  "modify_at i f xs = (case get_at xs i of None \<Rightarrow> xs | Some x \<Rightarrow> xs[i := f x])"

definition hex_digit :: "u8 \<Rightarrow> char" where
  "hex_digit n = ''0123456789abcdef'' ! unat n"

definition hex_encode :: "bytes \<Rightarrow> string" where
  "hex_encode bs = concat (map (\<lambda>b. [hex_digit (drop_bit 4 b), hex_digit (and b 15)]) bs)"

definition verify_piece ::
  "(bytes \<Rightarrow> bytes) \<Rightarrow> torrent_info \<Rightarrow> u32 \<Rightarrow> bytes \<Rightarrow> coord_error + unit" where
  "verify_piece sha1 info i data =
     and_then (ok_or (ti_piece_hash info i) (PieceHashMismatch i ''N/A (out of bounds)'' '''')) (\<lambda>expected.
     let actual = sha1 data in
     if actual \<noteq> expected then Inl (PieceHashMismatch i (hex_encode expected) (hex_encode actual))
     else Inr ())"

section \<open>Bookkeeping under the mutex\<close>

definition bump_retries :: "u32 \<Rightarrow> 's coord \<Rightarrow> 's coord" where
  "bump_retries i c =
     c\<lparr>co_retry_counts := modify_at (unat i) (\<lambda>r. sat_add r 1) (co_retry_counts c)\<rparr>"

definition set_last_failed :: "u32 \<Rightarrow> nat \<Rightarrow> 's coord \<Rightarrow> 's coord" where
  "set_last_failed i peer c =
     c\<lparr>co_last_failed_peer := modify_at (unat i) (\<lambda>_. Some peer) (co_last_failed_peer c)\<rparr>"

definition emit :: "progress \<Rightarrow> 's coord \<Rightarrow> 's coord" where
  "emit e c = c\<lparr>co_log := co_log c @ [e]\<rparr>"

definition handle_piece_success :: "'s job \<Rightarrow> u32 \<Rightarrow> bytes \<Rightarrow> 's coord \<Rightarrow> 's coord" where
  "handle_piece_success job i data c =
     (let total = sat_add (co_bytes_downloaded c) (word_of_nat (length data));
          done_count = pm_done_count (co_map c);
          c1 = emit (PieceComplete i done_count (job_count job) total) (c\<lparr>co_bytes_downloaded := total\<rparr>);
          c2 = (if cc_resume_path (job_config job) \<noteq> None
                then c1\<lparr>co_resume_file :=
                  Some (rs_bytes (rs_from_piece_map (co_map c) (ti_file_size (job_info job))))\<rparr>
                else c1)
      in if done_count mod 10 = 0 \<or> done_count = job_count job
         then emit (AvailabilityUpdate
                (map (\<lambda>i. pm_get (co_map c) i = Done) (piece_indices (job_count job))) (job_count job)) c2
         else c2)"

definition handle_hash_failure :: "'s job \<Rightarrow> u32 \<Rightarrow> nat \<Rightarrow> 's coord \<Rightarrow> 's coord" where
  "handle_hash_failure job i peer c =
     (let c1 = set_last_failed i peer (bump_retries i c);
          c2 = (case get_at (co_peer_failures c1) peer of
             None \<Rightarrow> c1
           | Some n \<Rightarrow>
               let failures = sat_add n 1;
                   c' = c1\<lparr>co_peer_failures := (co_peer_failures c1)[peer := failures]\<rparr>;
                   limit = cc_max_peer_failures (job_config job)
               in if limit > 0 \<and> failures \<ge> limit \<and> \<not> is_blacklisted (co_peer_blacklisted c') peer
                  then emit (PeerBlacklisted peer failures)
                    (c'\<lparr>co_peer_blacklisted := modify_at peer (\<lambda>_. True) (co_peer_blacklisted c')\<rparr>)
                  else c')
      in emit (PieceRetry i) c2)"

definition handle_fetch_failure :: "u32 \<Rightarrow> nat \<Rightarrow> 's coord \<Rightarrow> 's coord" where
  "handle_fetch_failure i peer c = emit (PieceRetry i) (set_last_failed i peer (bump_retries i c))"

section \<open>Claiming\<close>

definition needed_pieces :: "piece_map \<Rightarrow> u32 list" where
  "needed_pieces m = filter (\<lambda>i. pm_get m i = Needed) (piece_indices (pm_piece_count m))"

text \<open>
  The pieces a worker tries to claim in turn: in bulk mode the first needed one, in streaming mode
  the selected one and then every needed one.
\<close>

definition claim_candidates :: "'s job \<Rightarrow> env \<Rightarrow> piece_map \<Rightarrow> u32 list" where
  "claim_candidates job e m =
     (if \<not> cc_streaming (job_config job)
      then (case pm_next_needed m of None \<Rightarrow> [] | Some i \<Rightarrow> [i])
      else let needed = needed_pieces m in
        (case select_next_piece needed (env_bitfields e) (env_priorities e) (job_count job) of
           None \<Rightarrow> needed
         | Some sel \<Rightarrow> sel_piece sel # needed))"

section \<open>One step of a worker\<close>

definition reset_failed :: "'s job \<Rightarrow> bool \<Rightarrow> nat \<Rightarrow> 's coord \<Rightarrow> 's coord" where
  "reset_failed job in_endgame k c =
     (let i = word_of_nat k in
      if pm_get (co_map c) i = Failed then
        let retries = (case get_at (co_retry_counts c) k of None \<Rightarrow> 0 | Some r \<Rightarrow> r);
            limit = cc_max_retries_per_piece (job_config job);
            max_retries = (if in_endgame then sat_mul limit 2 else limit)
        in if retries < max_retries then c\<lparr>co_map := snd (pm_retry_failed i (co_map c))\<rparr> else c
      else c)"

definition last_failed_of :: "'s coord \<Rightarrow> u32 \<Rightarrow> nat option" where
  "last_failed_of c i = (case get_at (co_last_failed_peer c) (unat i) of None \<Rightarrow> None | Some p \<Rightarrow> p)"

fun worker_step :: "'s job \<Rightarrow> env \<Rightarrow> worker \<Rightarrow> 's coord \<Rightarrow> worker \<times> 's coord" where
  "worker_step job e CheckCancel c = (if co_cancel c then Exited else CheckComplete, c)"
| "worker_step job e CheckComplete c = (if pm_is_complete (co_map c) then Exited else CheckFatal, c)"
| "worker_step job e CheckFatal c = (if co_fatal c \<noteq> None then Exited else LockEndgame, c)"
| "worker_step job e LockEndgame c =
     (let remaining = sat_sub (job_count job) (pm_done_count (co_map c))
      in (Resetting (remaining \<le> cc_endgame_threshold (job_config job)) 0, c))"
| "worker_step job e (Resetting in_endgame k) c =
     (if k < unat (job_count job) then (Resetting in_endgame (Suc k), reset_failed job in_endgame k c)
      else (Claiming (unat (job_count job)), c))"
| "worker_step job e (Claiming n) c =
     (if n = 0 then (NoClaim, c)
      else case claim_candidates job e (co_map c) of
             [] \<Rightarrow> (NoClaim, c)
           | cands \<Rightarrow> (Trying cands (if cc_streaming (job_config job) then 0 else n - 1), c))"
| "worker_step job e (Trying [] n) c = (Claiming n, c)"
| "worker_step job e (Trying (i # cands) n) c =
     (case pm_try_claim i (co_map c) of
        (claimed, m) \<Rightarrow> (if claimed then Selecting i else Trying cands n, c\<lparr>co_map := m\<rparr>))"
| "worker_step job e NoClaim c = (if pm_is_complete (co_map c) then Exited else Scanning 0, c)"
| "worker_step job e (Scanning k) c =
     (if k < unat (job_count job) then
        if pm_get (co_map c) (word_of_nat k) = Needed \<or> pm_get (co_map c) (word_of_nat k) = InFlight
        then (CheckCancel, c) else (Scanning (Suc k), c)
      else (Exited, c))"
| "worker_step job e (Selecting i) c =
     (case select_peer_with_exclusion (cc_min_peer_speed (job_config job)) (last_failed_of c i)
             (co_peer_blacklisted c) (take (job_peers job) (env_views e)) of
        Some peer \<Rightarrow> (Fetching i peer, c)
      | None \<Rightarrow> (NoEligiblePeer i, c\<lparr>co_map := pm_mark_failed i (co_map c)\<rparr>))"
| "worker_step job e (NoEligiblePeer i) c = (CheckCancel, bump_retries i c)"
| "worker_step job e (Fetching i peer) c =
     (case env_fetch e of
        Inl err \<Rightarrow> (FetchFailed i peer, c\<lparr>co_map := pm_mark_failed i (co_map c)\<rparr>)
      | Inr data \<Rightarrow>
          (case verify_piece (job_sha1 job) (job_info job) i data of
             Inl err \<Rightarrow> (HashFailed i peer, c\<lparr>co_map := pm_mark_failed i (co_map c)\<rparr>)
           | Inr _ \<Rightarrow> (Writing i peer data, c)))"
| "worker_step job e (Writing i peer data) c =
     (case op_write (job_ops job) i (ti_piece_offset (job_info job) i) data (co_store c) of
        (Inl err, s) \<Rightarrow> (WriteFailed i err, c\<lparr>co_store := s\<rparr>)
      | (Inr _, s) \<Rightarrow> (Written i peer data, c\<lparr>co_store := s\<rparr>))"
| "worker_step job e (WriteFailed i err) c = (StoreFatal i err, c\<lparr>co_cancel := True\<rparr>)"
| "worker_step job e (StoreFatal i err) c = (Exited, c\<lparr>co_fatal := Some (StorageFailure i err)\<rparr>)"
| "worker_step job e (Written i peer data) c =
     (Announcing i peer data, c\<lparr>co_map := pm_mark_done i (co_map c)\<rparr>)"
| "worker_step job e (Announcing i peer data) c =
     (let offset = ti_piece_offset (job_info job) i;
          c1 = (if cc_piece_data_cache (job_config job) then emit (CacheInsert i data) c else c)
      in (Succeeding i peer data,
          if cc_streaming (job_config job)
          then emit (ReaderNotified offset (sat_add offset (word_of_nat (length data)))) c1 else c1))"
| "worker_step job e (Succeeding i peer data) c = (CheckCancel, handle_piece_success job i data c)"
| "worker_step job e (HashFailed i peer) c = (CheckCancel, handle_hash_failure job i peer c)"
| "worker_step job e (FetchFailed i peer) c = (CheckCancel, handle_fetch_failure i peer c)"
| "worker_step job e Exited c = (Exited, c)"

lemma worker_step_Trying:
  "worker_step job e (Trying cands n) c =
     (case cands of
        [] \<Rightarrow> (Claiming n, c)
      | i # rest \<Rightarrow>
          (if fst (pm_try_claim i (co_map c)) then Selecting i else Trying rest n,
           c\<lparr>co_map := snd (pm_try_claim i (co_map c))\<rparr>))"
  by (simp add: prod.case_eq_if split: list.split)

section \<open>The pool of workers\<close>

record 's pool =
  po_workers :: "worker list"
  po_coord :: "'s coord"

fun holds_lock :: "worker \<Rightarrow> bool" where
  "holds_lock (Resetting _ _) = True"
| "holds_lock _ = False"

fun needs_lock :: "worker \<Rightarrow> bool" where
  "needs_lock LockEndgame = True"
| "needs_lock (Selecting _) = True"
| "needs_lock (NoEligiblePeer _) = True"
| "needs_lock (Succeeding _ _ _) = True"
| "needs_lock (HashFailed _ _) = True"
| "needs_lock (FetchFailed _ _) = True"
| "needs_lock _ = False"

datatype event = Work nat env | Cancel

fun pool_step :: "'s job \<Rightarrow> event \<Rightarrow> 's pool \<Rightarrow> 's pool" where
  "pool_step job (Work w e) p =
     (case get_at (po_workers p) w of
        None \<Rightarrow> p
      | Some pc \<Rightarrow>
          if needs_lock pc \<and> list_ex holds_lock (po_workers p) then p
          else (case worker_step job e pc (po_coord p) of
                  (pc', c) \<Rightarrow> \<lparr>po_workers = (po_workers p)[w := pc'], po_coord = c\<rparr>))"
| "pool_step job Cancel p = p\<lparr>po_coord := (po_coord p)\<lparr>co_cancel := True\<rparr>\<rparr>"

text \<open>
  The pool at the start of a run: \<open>min(max_concurrent_pieces, peers)\<close> workers, at least one, and
  fresh tracking state.
\<close>

definition pool_size :: "'s job \<Rightarrow> nat" where
  "pool_size job = max (min (unat (cc_max_concurrent_pieces (job_config job))) (job_peers job)) 1"

definition pool_init :: "'s job \<Rightarrow> piece_map \<Rightarrow> 's \<Rightarrow> bytes option \<Rightarrow> progress list \<Rightarrow> 's pool" where
  "pool_init job m store resume_file log =
     \<lparr>po_workers = replicate (pool_size job) CheckCancel,
      po_coord =
        \<lparr>co_map = m, co_cancel = False, co_fatal = None, co_store = store,
         co_peer_failures = replicate (job_peers job) 0,
         co_peer_blacklisted = replicate (job_peers job) False,
         co_retry_counts = replicate (unat (job_count job)) 0,
         co_last_failed_peer = replicate (unat (job_count job)) None,
         co_bytes_downloaded = 0, co_resume_file = resume_file, co_log = log\<rparr>\<rparr>"

section \<open>Ownership\<close>

text \<open>The piece a worker has claimed and not yet given back, marked done or abandoned.\<close>

fun owned :: "worker \<Rightarrow> u32 option" where
  "owned (Selecting i) = Some i"
| "owned (Fetching i _) = Some i"
| "owned (Writing i _ _) = Some i"
| "owned (WriteFailed i _) = Some i"
| "owned (StoreFatal i _) = Some i"
| "owned (Written i _ _) = Some i"
| "owned _ = None"

text \<open>What a step may do to the map, by what the worker owns before and after it.\<close>

inductive map_effect :: "u32 option \<Rightarrow> u32 option \<Rightarrow> piece_map \<Rightarrow> piece_map \<Rightarrow> bool" where
  effect_none: "map_effect q q m m"
| effect_drop: "map_effect q None m m"
| effect_claim: "fst (pm_try_claim i m) \<Longrightarrow> map_effect None (Some i) m (snd (pm_try_claim i m))"
| effect_release: "s \<in> {Done, Failed} \<Longrightarrow> map_effect (Some i) None m (pm_store s i m)"
| effect_reset: "map_effect None None m (snd (pm_retry_failed i m))"

lemma handle_keeps [simp]:
  "co_map (handle_piece_success job i data c) = co_map c"
  "co_map (handle_hash_failure job i peer c) = co_map c"
  "co_map (handle_fetch_failure i peer c) = co_map c"
  "co_map (bump_retries i c) = co_map c"
  "co_store (handle_piece_success job i data c) = co_store c"
  "co_store (handle_hash_failure job i peer c) = co_store c"
  "co_store (handle_fetch_failure i peer c) = co_store c"
  "co_store (bump_retries i c) = co_store c"
  "co_cancel (handle_piece_success job i data c) = co_cancel c"
  "co_cancel (handle_hash_failure job i peer c) = co_cancel c"
  "co_cancel (handle_fetch_failure i peer c) = co_cancel c"
  "co_cancel (bump_retries i c) = co_cancel c"
  "co_fatal (handle_piece_success job i data c) = co_fatal c"
  "co_fatal (handle_hash_failure job i peer c) = co_fatal c"
  "co_fatal (handle_fetch_failure i peer c) = co_fatal c"
  "co_fatal (bump_retries i c) = co_fatal c"
  by (simp_all add: handle_piece_success_def handle_hash_failure_def handle_fetch_failure_def
      bump_retries_def set_last_failed_def emit_def Let_def split: option.split)

lemma reset_failed_keeps [simp]:
  "co_store (reset_failed job eg k c) = co_store c"
  "co_cancel (reset_failed job eg k c) = co_cancel c"
  "co_fatal (reset_failed job eg k c) = co_fatal c"
  "co_retry_counts (reset_failed job eg k c) = co_retry_counts c"
  "co_resume_file (reset_failed job eg k c) = co_resume_file c"
  by (simp_all add: reset_failed_def Let_def)

lemma try_claim_False: "fst (pm_try_claim i m) = False \<Longrightarrow> snd (pm_try_claim i m) = m"
  by (auto simp: pm_try_claim_def pm_cas_def split: option.splits if_splits)

lemma worker_step_map:
  "map_effect (owned pc) (owned (fst (worker_step job e pc c)))
     (co_map c) (co_map (snd (worker_step job e pc c)))"
proof (cases pc)
  case (Trying cands n)
  show ?thesis
  proof (cases cands)
    case Nil
    with Trying show ?thesis
      by (simp add: effect_none)
  next
    case (Cons i rest)
    with Trying try_claim_False [of i "co_map c"] show ?thesis
      by (auto simp: prod.case_eq_if intro: effect_none effect_claim)
  qed
next
  case (Resetting eg k)
  then show ?thesis
    by (auto simp: reset_failed_def Let_def intro: effect_none effect_reset)
next
  case (Selecting i)
  then show ?thesis
    by (auto simp: pm_mark_failed_def intro: effect_none effect_release split: option.split)
next
  case (Fetching i peer)
  then show ?thesis
    by (auto simp: pm_mark_failed_def intro: effect_none effect_release split: sum.split)
next
  case (Writing i peer data)
  then show ?thesis
    by (auto intro: effect_none split: prod.split sum.split)
next
  case (Written i peer data)
  then show ?thesis
    by (auto simp: pm_mark_done_def intro: effect_release)
qed (auto simp: Let_def emit_def intro: effect_none effect_drop split: list.split)

definition pool_owned :: "worker list \<Rightarrow> piece_map \<Rightarrow> bool" where
  "pool_owned ws m \<longleftrightarrow>
     (\<forall>w < length ws. \<forall>i. owned (ws ! w) = Some i \<longrightarrow> i < pm_piece_count m \<and> pm_get m i = InFlight)
     \<and> (\<forall>v < length ws. \<forall>w < length ws. \<forall>i. owned (ws ! v) = Some i \<and> owned (ws ! w) = Some i \<longrightarrow> v = w)"

lemma pool_ownedD:
  assumes "pool_owned ws m" and "w < length ws" and "owned (ws ! w) = Some i"
  shows "i < pm_piece_count m" "pm_get m i = InFlight"
    "v < length ws \<Longrightarrow> v \<noteq> w \<Longrightarrow> owned (ws ! v) \<noteq> Some i"
  using assms unfolding pool_owned_def by blast+

lemma pm_count_ops [simp]:
  "pm_piece_count (snd (pm_try_claim i m)) = pm_piece_count m"
  "pm_piece_count (snd (pm_retry_failed i m)) = pm_piece_count m"
  "pm_piece_count (pm_store s i m) = pm_piece_count m"
  using pm_count_step [of "TryClaim i" m] pm_count_step [of "RetryFailed i" m]
  by (simp_all add: pm_store_def split: option.split)

lemma pm_wf_store: "pm_wf m \<Longrightarrow> pm_wf (pm_store s i m)"
  by (auto simp: pm_store_def intro: pm_wf_update split: option.split)

lemma effect_wf: "map_effect q q' m m' \<Longrightarrow> pm_wf m \<Longrightarrow> pm_wf m' \<and> pm_piece_count m' = pm_piece_count m"
proof (induction rule: map_effect.induct)
  case (effect_claim i m)
  then show ?case
    using pm_wf_step [of m "TryClaim i"] by simp
next
  case (effect_reset m i)
  then show ?case
    using pm_wf_step [of m "RetryFailed i"] by simp
qed (simp_all add: pm_wf_store)

text \<open>The states behind a step: only the piece a worker owns or claims, or a failed one, changes.\<close>

lemma effect_get:
  assumes "map_effect q q' m m'" and "pm_wf m" and "\<And>i. q = Some i \<Longrightarrow> i < pm_piece_count m"
  shows "pm_get m' j = pm_get m j
    \<or> q = Some j \<and> q' = None \<and> pm_get m' j \<in> {Done, Failed}
    \<or> q = None \<and> q' = Some j \<and> pm_get m j = Needed \<and> pm_get m' j = InFlight
    \<or> q = None \<and> q' = None \<and> pm_get m j = Failed \<and> pm_get m' j = Needed"
  using assms
proof (induction rule: map_effect.induct)
  case (effect_claim i m)
  then show ?case
    using pm_cas_get [OF effect_claim.prems(1), of Needed InFlight i] by (auto simp: pm_try_claim_def)
next
  case (effect_release s i m)
  then show ?case
    using pm_store_get [OF effect_release.prems(1), of s i j] by auto
next
  case (effect_reset m i)
  then show ?case
    using pm_cas_get [OF effect_reset.prems(1), of Failed Needed i] by (auto simp: pm_retry_failed_def)
qed simp_all

end
