(* ===== verification/CoordinatorSafety.thy ===== *)
theory CoordinatorSafety
  imports Coordinator
begin

text \<open>
  What holds in every interleaving of the coordinator's workers: a piece in flight has one owner,
  the bytes of a piece that is done have the torrent's hash, the checkpoint on disk names only
  pieces that are done, the retries of a piece are bounded, and no worker leaves while there is
  work it would have to do. Each is an invariant of \<open>pool_step\<close>, proved from what one step of one
  worker does.
\<close>

section \<open>One owner per piece\<close>

lemma effect_owned:
  assumes "map_effect q (Some i) m m'" and "pm_wf m"
  shows "q = Some i \<and> m' = m
    \<or> q = None \<and> i < pm_piece_count m \<and> pm_get m i = Needed \<and> pm_get m' i = InFlight"
  using assms(1)
proof (cases rule: map_effect.cases)
  case effect_claim
  then show ?thesis
    using pm_cas_get [OF assms(2), of Needed InFlight i] by (auto simp: pm_try_claim_def)
qed simp_all

lemma pool_owned_step:
  assumes own: "pool_owned ws m" and "pm_wf m" and w: "w < length ws"
    and eff: "map_effect (owned (ws ! w)) (owned pc') m m'"
  shows "pool_owned (ws[w := pc']) m'"
proof -
  have count: "pm_piece_count m' = pm_piece_count m"
    using effect_wf [OF eff assms(2)] by simp
  have others: "i < pm_piece_count m' \<and> pm_get m' i = InFlight \<and> owned pc' \<noteq> Some i"
    if v: "v < length ws" "v \<noteq> w" "owned (ws ! v) = Some i" for v i
  proof -
    note vi = pool_ownedD [OF own v(1,3)]
    have "owned (ws ! w) \<noteq> Some i"
      using vi(3) [OF w] v(2) by simp
    moreover have "owned pc' \<noteq> Some i"
      using effect_owned [of "owned (ws ! w)" i m m'] eff assms(2) vi(2) calculation by auto
    ultimately show ?thesis
      using effect_get [OF eff assms(2), of i] pool_ownedD(1) [OF own w] vi count by auto
  qed
  have self: "i < pm_piece_count m' \<and> pm_get m' i = InFlight" if "owned pc' = Some i" for i
    using effect_owned [of "owned (ws ! w)" i m m'] eff that assms(2) count pool_ownedD(1,2) [OF own w, of i]
    by auto
  show ?thesis
    unfolding pool_owned_def length_list_update nth_list_update [OF w]
    using others self w by (auto simp: nth_list_update)
      (metis own pool_ownedD(3))
qed

text \<open>The three kinds of events: nothing happens, the flag is raised, one worker makes one step.\<close>

lemma pool_step_cases:
  obtains (stay) "pool_step job ev p = p"
  | (cancel) "pool_step job ev p = p\<lparr>po_coord := (po_coord p)\<lparr>co_cancel := True\<rparr>\<rparr>"
  | (work) w e where "w < length (po_workers p)"
      "pool_step job ev p =
        \<lparr>po_workers = (po_workers p)[w := fst (worker_step job e (po_workers p ! w) (po_coord p))],
         po_coord = snd (worker_step job e (po_workers p ! w) (po_coord p))\<rparr>"
proof (cases ev)
  case (Work w e)
  show thesis
  proof (cases "get_at (po_workers p) w")
    case None
    with Work stay show thesis
      by simp
  next
    case (Some pc)
    then have "w < length (po_workers p)" "po_workers p ! w = pc"
      by (auto dest: get_at_Some)
    show thesis
    proof (cases "needs_lock pc \<and> list_ex holds_lock (po_workers p)")
      case True
      with Work Some stay show thesis
        by simp
    next
      case False
      with Work Some work [of w e] \<open>w < _\<close> \<open>_ ! w = pc\<close> show thesis
        by (cases "worker_step job e pc (po_coord p)") simp
    qed
  qed
next
  case Cancel
  with cancel show thesis
    by simp
qed

definition pool_base :: "'s job \<Rightarrow> 's pool \<Rightarrow> bool" where
  "pool_base job p \<longleftrightarrow>
     pm_wf (co_map (po_coord p)) \<and> pm_piece_count (co_map (po_coord p)) = job_count job
     \<and> pool_owned (po_workers p) (co_map (po_coord p))"

lemma pool_base_step:
  assumes "pool_base job p"
  shows "pool_base job (pool_step job ev p)"
proof (cases rule: pool_step_cases [of job ev p])
  case (work w e)
  note eff = worker_step_map [of "po_workers p ! w" job e "po_coord p"]
  from assms effect_wf [OF eff] pool_owned_step [OF _ _ work(1) eff] show ?thesis
    by (simp add: work(2) pool_base_def)
qed (use assms in \<open>simp_all add: pool_base_def\<close>)

interpretation workers: step_system "{p. pool_base job p}" "pool_step job" "pool_base job" for job
  by unfold_locales (simp_all add: pool_base_step)

section \<open>The pieces on the storage\<close>

definition piece_bytes :: "torrent_info \<Rightarrow> u32 \<Rightarrow> bytes \<Rightarrow> bytes" where
  "piece_bytes info i xs =
     take (unat (ti_piece_size info i)) (drop (unat (ti_piece_offset info i)) xs)"

definition piece_verified :: "(bytes \<Rightarrow> bytes) \<Rightarrow> torrent_info \<Rightarrow> bytes \<Rightarrow> u32 \<Rightarrow> bool" where
  "piece_verified sha1 info xs i \<longleftrightarrow> ti_piece_hash info i = Some (sha1 (piece_bytes info i xs))"

text \<open>
  A torrent whose pieces cover the file, the last one at least in part, and whose piece length fits
  the 32-bit piece size.
\<close>

definition torrent_ok :: "torrent_info \<Rightarrow> bool" where
  "torrent_ok info \<longleftrightarrow>
     unat (ti_piece_length info) < 2 ^ 32
     \<and> unat (ti_file_size info) \<le> unat (ti_piece_count info) * unat (ti_piece_length info)
     \<and> unat (ti_piece_count info) * unat (ti_piece_length info)
         < unat (ti_file_size info) + unat (ti_piece_length info)"

text \<open>
  SHA-1 has no collision between a piece of the torrent and data of another length. The coordinator
  relies on it: it compares digests, and never the length of what a peer sent.
\<close>

definition hash_fixes_size :: "(bytes \<Rightarrow> bytes) \<Rightarrow> torrent_info \<Rightarrow> bool" where
  "hash_fixes_size sha1 info \<longleftrightarrow>
     (\<forall>i < ti_piece_count info. \<forall>d. ti_piece_hash info i = Some (sha1 d) \<longrightarrow>
        length d = unat (ti_piece_size info i))"

lemma piece_range:
  assumes "torrent_ok info" and "i < ti_piece_count info"
  shows "unat (ti_piece_offset info i) = unat i * unat (ti_piece_length info)"
    and "unat (ti_piece_size info i) \<le> unat (ti_piece_length info)"
    and "unat (ti_piece_offset info i) + unat (ti_piece_size info i) \<le> unat (ti_file_size info)"
proof -
  let ?pl = "unat (ti_piece_length info)" and ?fs = "unat (ti_file_size info)"
  have "Suc (unat i) * ?pl \<le> unat (ti_piece_count info) * ?pl"
    using assms(2) by (intro mult_right_mono) (simp_all add: word_less_nat_alt)
  then have fits: "unat i * ?pl \<le> ?fs"
    using assms(1) by (simp add: torrent_ok_def)
  moreover have "?fs < 2 ^ 64"
    using unat_less_exp [of "ti_file_size info"] by simp
  ultimately have "unat i * ?pl < 2 ^ 64"
    by simp
  then show off: "unat (ti_piece_offset info i) = unat i * ?pl"
    by (rule ti_piece_offset_val)
  from ti_piece_size_val [of i info] fits assms(1)
  have size: "unat (ti_piece_size info i) = min (?fs - unat i * ?pl) ?pl"
    by (simp add: torrent_ok_def)
  show "unat (ti_piece_size info i) \<le> ?pl"
    by (simp add: size)
  show "unat (ti_piece_offset info i) + unat (ti_piece_size info i) \<le> ?fs"
    using fits by (simp add: off size)
qed

lemma pieces_disjoint:
  assumes "torrent_ok info" and "i < ti_piece_count info" and "j < ti_piece_count info" and "i \<noteq> j"
  shows "unat (ti_piece_offset info j) + unat (ti_piece_size info j) \<le> unat (ti_piece_offset info i)
    \<or> unat (ti_piece_offset info i) + unat (ti_piece_size info i) \<le> unat (ti_piece_offset info j)"
proof -
  let ?pl = "unat (ti_piece_length info)"
  have "Suc (unat i) \<le> unat j \<or> Suc (unat j) \<le> unat i"
    using assms(4) unat_eq_iff [of i j] by linarith
  then have "Suc (unat i) * ?pl \<le> unat j * ?pl \<or> Suc (unat j) * ?pl \<le> unat i * ?pl"
    using mult_right_mono [of _ _ ?pl] by blast
  then show ?thesis
    using piece_range(1,2) [OF assms(1,2)] piece_range(1,2) [OF assms(1,3)] by auto
qed

lemma worker_step_done:
  assumes "pm_wf (co_map c)" and "pm_get (co_map (snd (worker_step job e pc c))) j = Done"
    and "\<And>i. owned pc = Some i \<Longrightarrow> i < pm_piece_count (co_map c)"
  shows "pm_get (co_map c) j = Done \<or> (\<exists>peer data. pc = Written j peer data)"
proof -
  have other: "pm_get (co_map c) j = Done"
    if "owned pc \<noteq> Some j \<or> owned (fst (worker_step job e pc c)) \<noteq> None"
    using effect_get [OF worker_step_map [of pc job e c] assms(1,3), of j] assms(2) that by auto
  show ?thesis
  proof (cases pc)
    case (Selecting i)
    with assms(1,2) other pm_store_get [OF assms(1), of Failed i j] show ?thesis
      by (auto simp: pm_mark_failed_def split: option.splits if_splits)
  next
    case (Fetching i peer)
    with assms(1,2) other pm_store_get [OF assms(1), of Failed i j] show ?thesis
      by (auto simp: pm_mark_failed_def split: sum.splits if_splits)
  next
    case (Written i peer data)
    with other show ?thesis
      by auto
  qed (use assms(2) other in \<open>auto split: prod.splits sum.splits\<close>)
qed

text \<open>What a worker that holds verified data relies on.\<close>

fun carried :: "'s job \<Rightarrow> bytes \<Rightarrow> worker \<Rightarrow> bool" where
  "carried job xs (Writing i peer data) \<longleftrightarrow>
     ti_piece_hash (job_info job) i = Some (job_sha1 job data)"
| "carried job xs (Written i peer data) \<longleftrightarrow> piece_verified (job_sha1 job) (job_info job) xs i"
| "carried job xs _ \<longleftrightarrow> True"

lemma verify_piece_Inr:
  "verify_piece sha1 info i data = Inr u \<longleftrightarrow> ti_piece_hash info i = Some (sha1 data)"
  by (auto simp: verify_piece_def and_then_Inr Let_def split: if_splits)

context piece_sink
begin

lemma worker_step_store:
  assumes job: "job_ops job = ops" "torrent_ok (job_info job)"
      "hash_fixes_size (job_sha1 job) (job_info job)"
    and store: "ok (co_store c)" "length (content (co_store c)) = unat (ti_file_size (job_info job))"
    and pc: "carried job (content (co_store c)) pc" "\<And>i. owned pc = Some i \<Longrightarrow> i < job_count job"
    and step: "worker_step job e pc c = (pc', c')"
  shows "ok (co_store c') \<and> length (content (co_store c')) = length (content (co_store c))
    \<and> carried job (content (co_store c')) pc'
    \<and> (\<forall>j < job_count job. owned pc \<noteq> Some j \<longrightarrow>
         piece_bytes (job_info job) j (content (co_store c'))
           = piece_bytes (job_info job) j (content (co_store c)))"
proof (cases "\<exists>i peer data. pc = Writing i peer data")
  case True
  then obtain i peer data where w: "pc = Writing i peer data"
    by blast
  obtain r s where rs: "op_write ops i (ti_piece_offset (job_info job) i) data (co_store c) = (r, s)"
    by fastforce
  have i: "i < job_count job" and hash: "ti_piece_hash (job_info job) i = Some (job_sha1 job data)"
    using pc w by simp_all
  then have len: "length data = unat (ti_piece_size (job_info job) i)"
    using job(3) by (simp add: hash_fixes_size_def)
  then have fits: "unat (ti_piece_offset (job_info job) i) + length data \<le> length (content (co_store c))"
    using piece_range(3) [OF job(2) i] by (simp add: store(2))
  note written = sink_write [OF store(1) fits rs]
  have "piece_bytes (job_info job) j (content s) = piece_bytes (job_info job) j (content (co_store c))"
    if "j < job_count job" "j \<noteq> i" for j
    unfolding piece_bytes_def
    by (rule sink_other_range [OF store(1) fits rs])
      (use pieces_disjoint [OF job(2) i that(1)] that(2) len in auto)
  moreover have "piece_verified (job_sha1 job) (job_info job) (content s) i" if "r = Inr ()"
    using written that hash by (simp add: piece_verified_def piece_bytes_def flip: len)
  ultimately show ?thesis
    using written step w rs job(1) by (cases r) auto
next
  case False
  then have "co_store c' = co_store c"
    using step by (cases pc) (auto simp: worker_step_Trying Let_def emit_def split: list.splits
        option.splits sum.splits if_splits)
  moreover have "carried job (content (co_store c)) pc'"
    using step False by (cases pc) (auto simp: worker_step_Trying Let_def verify_piece_Inr
        split: list.splits option.splits sum.splits if_splits)
  ultimately show ?thesis
    using store by simp
qed

end

section \<open>Pieces that are done stay done, and are verified\<close>

lemma pool_done_stable_step:
  assumes "pool_base job p" and "pm_get (co_map (po_coord p)) i = Done"
  shows "pm_get (co_map (po_coord (pool_step job ev p))) i = Done"
proof (cases rule: pool_step_cases [of job ev p])
  case (work w e)
  let ?pc = "po_workers p ! w" and ?m = "co_map (po_coord p)"
  have own: "pool_owned (po_workers p) ?m" and wf: "pm_wf ?m"
    using assms(1) by (simp_all add: pool_base_def)
  have "owned ?pc \<noteq> Some i"
    using pool_ownedD(2) [OF own work(1)] assms(2) by auto
  with effect_get [OF worker_step_map [of ?pc job e "po_coord p"] wf pool_ownedD(1) [OF own work(1)], of i]
    assms(2) work(2)
  show ?thesis
    by auto
qed (use assms in simp_all)

definition pool_stored ::
  "'s job \<Rightarrow> ('s \<Rightarrow> bytes) \<Rightarrow> ('s \<Rightarrow> bool) \<Rightarrow> piece_map \<Rightarrow> bytes \<Rightarrow> 's pool \<Rightarrow> bool" where
  "pool_stored job content ok m0 xs0 p \<longleftrightarrow>
     pool_base job p
     \<and> ok (co_store (po_coord p))
     \<and> length (content (co_store (po_coord p))) = unat (ti_file_size (job_info job))
     \<and> (\<forall>w < length (po_workers p). carried job (content (co_store (po_coord p))) (po_workers p ! w))
     \<and> (\<forall>i < job_count job. pm_get (co_map (po_coord p)) i = Done \<longrightarrow>
          piece_verified (job_sha1 job) (job_info job) (content (co_store (po_coord p))) i
          \<or> pm_get m0 i = Done
            \<and> piece_bytes (job_info job) i (content (co_store (po_coord p)))
              = piece_bytes (job_info job) i xs0)"

text \<open>A worker's promise depends on the storage only through the piece it owns.\<close>

lemma carried_cong:
  assumes "\<And>i. owned pc = Some i \<Longrightarrow> piece_bytes (job_info job) i xs = piece_bytes (job_info job) i ys"
  shows "carried job xs pc \<longleftrightarrow> carried job ys pc"
  using assms by (cases pc) (simp_all add: piece_verified_def)

context piece_sink
begin

lemma pool_stored_step:
  assumes job: "job_ops job = ops" "torrent_ok (job_info job)"
      "hash_fixes_size (job_sha1 job) (job_info job)"
    and inv: "pool_stored job content ok m0 xs0 p"
  shows "pool_stored job content ok m0 xs0 (pool_step job ev p)"
proof (cases rule: pool_step_cases [of job ev p])
  case (work w e)
  let ?ws = "po_workers p" and ?c = "po_coord p" and ?info = "job_info job"
  obtain pc' c' where step: "worker_step job e (?ws ! w) ?c = (pc', c')"
    by fastforce
  let ?xs = "content (co_store ?c)" and ?ys = "content (co_store c')"
  have base: "pool_base job p"
    using inv by (simp add: pool_stored_def)
  then have own: "pool_owned ?ws (co_map ?c)" and wf: "pm_wf (co_map ?c)"
    and count: "pm_piece_count (co_map ?c) = job_count job"
    by (simp_all add: pool_base_def)
  note ownD = pool_ownedD [OF own work(1)]
  have store: "ok (co_store c')" "length ?ys = length ?xs" "carried job ?ys pc'"
    and keep: "j < job_count job \<Longrightarrow> owned (?ws ! w) \<noteq> Some j \<Longrightarrow>
      piece_bytes ?info j ?ys = piece_bytes ?info j ?xs" for j
    using worker_step_store [OF job _ _ _ _ step] inv work(1) ownD(1)
    by (simp_all add: pool_stored_def count)
  have "carried job ?ys (?ws ! v)" if v: "v < length ?ws" "v \<noteq> w" for v
  proof -
    have "piece_bytes ?info i ?ys = piece_bytes ?info i ?xs" if i: "owned (?ws ! v) = Some i" for i
      using keep [of i] pool_ownedD(1,3) [OF own v(1) i] work(1) v(2) count by auto
    then have "carried job ?ys (?ws ! v) \<longleftrightarrow> carried job ?xs (?ws ! v)"
      by (rule carried_cong)
    with inv v(1) show ?thesis
      by (simp add: pool_stored_def)
  qed
  with store(3) have carry: "carried job ?ys (?ws[w := pc'] ! v)" if "v < length ?ws" for v
    using that work(1) by (simp add: nth_list_update)
  have "piece_verified (job_sha1 job) ?info ?ys i
      \<or> pm_get m0 i = Done \<and> piece_bytes ?info i ?ys = piece_bytes ?info i xs0"
    if i: "i < job_count job" "pm_get (co_map c') i = Done" for i
  proof -
    have "pm_get (co_map ?c) i = Done \<or> (\<exists>peer data. ?ws ! w = Written i peer data)"
      using worker_step_done [of ?c job e "?ws ! w" i] wf step i(2) ownD(1) by simp
    then show ?thesis
    proof (elim disjE exE)
      assume was: "pm_get (co_map ?c) i = Done"
      then have "owned (?ws ! w) \<noteq> Some i"
        using ownD(2) by auto
      from keep [OF i(1) this] was inv i(1) show ?thesis
        by (simp add: pool_stored_def piece_verified_def)
    next
      fix peer data
      assume pc: "?ws ! w = Written i peer data"
      with step have "?ys = ?xs"
        by auto
      moreover have "carried job ?xs (?ws ! w)"
        using inv work(1) by (simp add: pool_stored_def)
      ultimately show ?thesis
        using pc by simp
    qed
  qed
  moreover have "pool_base job (pool_step job ev p)"
    using base by (rule pool_base_step)
  ultimately show ?thesis
    using store inv carry by (simp add: pool_stored_def work(2) step)
qed (use inv in \<open>simp_all add: pool_stored_def pool_base_def\<close>)

lemma pool_stored_fold:
  assumes "job_ops job = ops" "torrent_ok (job_info job)"
      "hash_fixes_size (job_sha1 job) (job_info job)"
    and "pool_stored job content ok m0 xs0 p"
  shows "pool_stored job content ok m0 xs0 (fold (pool_step job) events p)"
  using assms(4) by (induction events arbitrary: p) (simp_all add: pool_stored_step assms(1-3))

end

section \<open>Retries are bounded\<close>

text \<open>A worker that has marked a piece failed and has not yet counted the failure.\<close>

fun pending :: "worker \<Rightarrow> u32 option" where
  "pending (NoEligiblePeer i) = Some i"
| "pending (HashFailed i _) = Some i"
| "pending (FetchFailed i _) = Some i"
| "pending _ = None"

definition open_piece :: "piece_map \<Rightarrow> u32 \<Rightarrow> bool" where
  "open_piece m i \<longleftrightarrow> pm_get m i = Needed \<or> pm_get m i = InFlight"

definition attempts :: "'s pool \<Rightarrow> u32 \<Rightarrow> nat" where
  "attempts p i = unat (co_retry_counts (po_coord p) ! unat i)
     + length (filter (\<lambda>pc. pending pc = Some i) (po_workers p))"

text \<open>
  The failures a piece can have before it is given up: twice the configured retries, as the endgame
  doubles them, and one more for every other worker, whose failure may not be counted yet.
\<close>

definition attempt_bound :: "'s job \<Rightarrow> nat" where
  "attempt_bound job =
     (if cc_max_retries_per_piece (job_config job) = 0 then 1
      else 2 * unat (cc_max_retries_per_piece (job_config job)) + pool_size job - 1)"

definition pool_attempts :: "'s job \<Rightarrow> 's pool \<Rightarrow> bool" where
  "pool_attempts job p \<longleftrightarrow>
     pool_base job p
     \<and> length (po_workers p) = pool_size job
     \<and> length (co_retry_counts (po_coord p)) = unat (job_count job)
     \<and> (\<forall>pc \<in> set (po_workers p). \<forall>i. pending pc = Some i \<longrightarrow> i < job_count job)
     \<and> (\<forall>i < job_count job. attempts p i + (if open_piece (co_map (po_coord p)) i then 1 else 0)
          \<le> attempt_bound job)"

lemma retry_counts_handled:
  "co_retry_counts (handle_piece_success job i data c) = co_retry_counts c"
  "co_retry_counts (handle_hash_failure job i peer c) = co_retry_counts (bump_retries i c)"
  "co_retry_counts (handle_fetch_failure i peer c) = co_retry_counts (bump_retries i c)"
  by (simp_all add: handle_piece_success_def handle_hash_failure_def handle_fetch_failure_def
      set_last_failed_def emit_def Let_def split: option.split)

lemma bump_retries_nth:
  "unat i < length (co_retry_counts c) \<Longrightarrow>
   length (co_retry_counts (bump_retries i c)) = length (co_retry_counts c)
   \<and> unat (co_retry_counts (bump_retries i c) ! unat j)
       \<le> unat (co_retry_counts c ! unat j) + (if j = i then 1 else 0)"
  by (auto simp: bump_retries_def modify_at_def get_at_def nth_list_update unat_sat_add unat_eq_iff)

text \<open>The counts behind a step: only a counted failure is added, and no other count changes.\<close>

lemma worker_step_retries:
  assumes "\<And>i. pending pc = Some i \<Longrightarrow> unat i < length (co_retry_counts c)"
  shows "length (co_retry_counts (snd (worker_step job e pc c))) = length (co_retry_counts c)
    \<and> unat (co_retry_counts (snd (worker_step job e pc c)) ! unat j)
        \<le> unat (co_retry_counts c ! unat j) + (if pending pc = Some j then 1 else 0)
    \<and> (pending pc \<noteq> None \<longrightarrow> pending (fst (worker_step job e pc c)) = None)"
proof (cases "pending pc")
  case None
  then show ?thesis
    by (cases pc) (auto simp: worker_step_Trying retry_counts_handled Let_def emit_def
        split: list.splits option.splits sum.splits prod.splits)
next
  case (Some i)
  with bump_retries_nth [of i c j] assms show ?thesis
    by (cases pc) (auto simp: retry_counts_handled)
qed

text \<open>A worker is to count a failure only when it has just marked a piece of its own failed.\<close>

lemma worker_step_fails:
  assumes "pending (fst (worker_step job e pc c)) = Some i"
  shows "owned pc = Some i
    \<and> co_map (snd (worker_step job e pc c)) = pm_mark_failed i (co_map c)"
  using assms
  by (cases pc) (auto simp: worker_step_Trying Let_def
      split: list.splits option.splits sum.splits prod.splits if_splits)

text \<open>A failed piece is opened again only below the limit.\<close>

lemma sat_mul_le: "unat (sat_mul a b) \<le> unat a * unat b"
  for a b :: "'a::len word"
proof (cases "unat a * unat b < 2 ^ LENGTH('a)")
  case True
  then show ?thesis
    by (simp add: unat_sat_mul)
next
  case False
  then show ?thesis
    using unat_less_exp [of "sat_mul a b"] by linarith
qed

lemma reset_failed_opens:
  assumes "pm_wf (co_map c)" and "k < unat (job_count job)"
    and "pm_piece_count (co_map c) = job_count job"
    and "length (co_retry_counts c) = unat (job_count job)"
    and "pm_get (co_map (reset_failed job eg k c)) i \<noteq> pm_get (co_map c) i"
  shows "unat (co_retry_counts c ! unat i) < 2 * unat (cc_max_retries_per_piece (job_config job))"
proof -
  let ?max = "cc_max_retries_per_piece (job_config job)"
  have k: "unat (word_of_nat k :: u32) = k"
    using assms(2) unat_less_exp [of "job_count job"] by (simp add: unsigned_of_nat take_bit_nat_eq_self)
  have "i = word_of_nat k"
    using assms(5) pm_cas_get(2) [OF assms(1), of Failed Needed "word_of_nat k" i]
    by (auto simp: reset_failed_def pm_retry_failed_def Let_def split: if_splits)
  moreover have "co_retry_counts c ! k < (if eg then sat_mul ?max 2 else ?max)"
    using assms(2,4,5) by (auto simp: reset_failed_def Let_def get_at_def split: if_splits)
  ultimately show ?thesis
    using sat_mul_le [of ?max 2] k by (auto simp: word_less_nat_alt split: if_splits)
qed

lemma worker_step_opens:
  assumes "pm_wf (co_map c)" and "pm_piece_count (co_map c) = job_count job"
    and "length (co_retry_counts c) = unat (job_count job)"
    and own: "\<And>i. owned pc = Some i \<Longrightarrow> i < pm_piece_count (co_map c)"
    and opens: "open_piece (co_map (snd (worker_step job e pc c))) i" "\<not> open_piece (co_map c) i"
  shows "pending pc = None \<and> pending (fst (worker_step job e pc c)) = None
    \<and> co_retry_counts (snd (worker_step job e pc c)) = co_retry_counts c
    \<and> unat (co_retry_counts c ! unat i) < 2 * unat (cc_max_retries_per_piece (job_config job))"
proof -
  have change: "pm_get (co_map (snd (worker_step job e pc c))) i \<noteq> pm_get (co_map c) i"
    and none: "owned pc = None" "owned (fst (worker_step job e pc c)) = None"
    using effect_get [OF worker_step_map [of pc job e c] assms(1) own, of i] opens
    by (auto simp: open_piece_def)
  show ?thesis
  proof (cases pc)
    case (Resetting eg k)
    with change reset_failed_opens [OF assms(1) _ assms(2,3)] show ?thesis
      by (auto split: if_splits)
  next
    case (Trying cands n)
    with change none(2) try_claim_False [of _ "co_map c"] show ?thesis
      by (auto simp: worker_step_Trying split: list.splits if_splits)
  qed (use change none in \<open>auto simp: Let_def emit_def split: list.splits if_splits\<close>)
qed

lemma pool_attempts_step:
  assumes inv: "pool_attempts job p"
  shows "pool_attempts job (pool_step job ev p)"
proof (cases rule: pool_step_cases [of job ev p])
  case (work w e)
  let ?ws = "po_workers p" and ?c = "po_coord p"
  let ?pc = "?ws ! w" and ?pc' = "fst (worker_step job e (?ws ! w) ?c)"
  let ?c' = "snd (worker_step job e (?ws ! w) ?c)"
  have base: "pool_base job p" and size: "length ?ws = pool_size job"
    and len: "length (co_retry_counts ?c) = unat (job_count job)"
    using inv by (simp_all add: pool_attempts_def)
  then have own: "pool_owned ?ws (co_map ?c)" and wf: "pm_wf (co_map ?c)"
    and count: "pm_piece_count (co_map ?c) = job_count job"
    by (simp_all add: pool_base_def)
  note ownD = pool_ownedD [OF own work(1)]
  have in_range: "i < job_count job" if "pending ?pc = Some i" for i
    using inv that nth_mem [OF work(1)] by (auto simp: pool_attempts_def)
  have "unat i < length (co_retry_counts ?c)" if "pending ?pc = Some i" for i
    using in_range [OF that] by (simp add: len word_less_nat_alt)
  note retries = worker_step_retries [of ?pc ?c job e, OF this]
  have fails: "i < job_count job \<and> open_piece (co_map ?c) i \<and> \<not> open_piece (co_map ?c') i
      \<and> pending ?pc = None" if "pending ?pc' = Some i" for i
    using worker_step_fails [OF that] ownD(1,2) [of i] pm_store_get [OF wf, of Failed i i] count
    by (cases ?pc) (auto simp: open_piece_def pm_mark_failed_def)
  let ?n = "\<lambda>i ws. length (filter (\<lambda>pc. pending pc = Some i) ws)"
  let ?r = "\<lambda>i c. unat (co_retry_counts c ! unat i)"
  have bound: "?r i ?c' + ?n i (?ws[w := ?pc']) + (if open_piece (co_map ?c') i then 1 else 0)
      \<le> attempt_bound job" if i: "i < job_count job" for i
  proof -
    have before: "?r i ?c + ?n i ?ws + (if open_piece (co_map ?c) i then 1 else 0) \<le> attempt_bound job"
      using inv i by (simp add: pool_attempts_def attempts_def)
    note n = length_filter_update [OF work(1), of "\<lambda>pc. pending pc = Some i" ?pc']
    have r: "?r i ?c' \<le> ?r i ?c + (if pending ?pc = Some i then 1 else 0)"
      using retries [of i] by blast
    show ?thesis
    proof (cases "open_piece (co_map ?c') i \<and> \<not> open_piece (co_map ?c) i")
      case True
      have o: "pending ?pc = None" "pending ?pc' = None" "?r i ?c' = ?r i ?c"
        "?r i ?c < 2 * unat (cc_max_retries_per_piece (job_config job))"
        using worker_step_opens [where pc = ?pc and e = e and i = i, OF wf count len ownD(1)] True by auto
      have "?n i ?ws < pool_size job"
        using length_filter_less [of ?pc ?ws "\<lambda>pc. pending pc = Some i"] o(1) work(1) size by simp
      moreover have "attempt_bound job
        = 2 * unat (cc_max_retries_per_piece (job_config job)) + pool_size job - 1"
        using o(4) by (auto simp: attempt_bound_def)
      ultimately show ?thesis
        using n o by simp linarith
    next
      case False
      then show ?thesis
        using n r before fails [of i] by (auto split: if_splits)
    qed
  qed
  have "pending pc = Some i \<longrightarrow> i < job_count job" if "pc \<in> set (?ws[w := ?pc'])" for pc i
  proof (cases "pc \<in> set ?ws")
    case True
    with inv show ?thesis
      by (simp add: pool_attempts_def)
  next
    case False
    with that set_update_subset_insert [of ?ws w ?pc'] fails [of i] show ?thesis
      by auto
  qed
  with bound retries [of 0] size len pool_base_step [OF base, of ev] show ?thesis
    by (simp add: pool_attempts_def attempts_def work(2))
qed (use inv in \<open>simp_all add: pool_attempts_def attempts_def pool_base_def\<close>)

section \<open>Work is not abandoned\<close>

text \<open>A worker that will not leave the loop before it has looked at a piece again.\<close>

fun watches :: "worker \<Rightarrow> u32 \<Rightarrow> bool" where
  "watches (Scanning k) i \<longleftrightarrow> k \<le> unat i"
| "watches Exited i \<longleftrightarrow> False"
| "watches _ i \<longleftrightarrow> True"

definition pool_watched :: "'s job \<Rightarrow> 's pool \<Rightarrow> bool" where
  "pool_watched job p \<longleftrightarrow>
     pool_base job p
     \<and> (\<not> co_cancel (po_coord p) \<and> co_fatal (po_coord p) = None \<longrightarrow>
         (\<forall>i < job_count job. open_piece (co_map (po_coord p)) i \<longrightarrow>
            (\<exists>w < length (po_workers p). watches (po_workers p ! w) i)))"

lemma complete_not_open:
  "pm_wf m \<Longrightarrow> pm_is_complete m \<Longrightarrow> i < pm_piece_count m \<Longrightarrow> \<not> open_piece m i"
  by (simp add: pm_is_complete_iff open_piece_def)

lemma worker_step_watches:
  assumes "pm_wf (co_map c)" "pm_piece_count (co_map c) = job_count job" "i < job_count job"
    and "open_piece (co_map (snd (worker_step job e pc c))) i"
    and "\<not> co_cancel (snd (worker_step job e pc c))" "co_fatal (snd (worker_step job e pc c)) = None"
    and "open_piece (co_map c) i \<longrightarrow> watches pc i"
  shows "watches (fst (worker_step job e pc c)) i"
proof (cases pc)
  case (Scanning k)
  have "k \<noteq> unat i" if "k < unat (job_count job)" "\<not> open_piece (co_map c) (word_of_nat k)"
    using that assms(4) Scanning by (auto simp: open_piece_def)
  with Scanning assms show ?thesis
    by (auto simp: word_less_nat_alt open_piece_def split: if_splits)
next
  case NoClaim
  with assms complete_not_open [OF assms(1)] show ?thesis
    by (auto split: if_splits)
next
  case CheckComplete
  with assms complete_not_open [OF assms(1)] show ?thesis
    by (auto split: if_splits)
qed (use assms in \<open>auto simp: worker_step_Trying Let_def
    split: list.splits option.splits sum.splits prod.splits if_splits\<close>)

lemma worker_step_flags:
  "co_cancel c \<Longrightarrow> co_cancel (snd (worker_step job e pc c))"
  "co_fatal c \<noteq> None \<Longrightarrow> co_fatal (snd (worker_step job e pc c)) \<noteq> None"
  by (cases pc; auto simp: worker_step_Trying Let_def emit_def
    split: list.splits option.splits sum.splits prod.splits if_splits)+

lemma pool_watched_step:
  assumes inv: "pool_watched job p"
  shows "pool_watched job (pool_step job ev p)"
proof (cases rule: pool_step_cases [of job ev p])
  case (work w e)
  let ?ws = "po_workers p" and ?c = "po_coord p"
  let ?pc' = "fst (worker_step job e (?ws ! w) ?c)" and ?c' = "snd (worker_step job e (?ws ! w) ?c)"
  have base: "pool_base job p"
    using inv by (simp add: pool_watched_def)
  have "\<exists>v < length ?ws. watches (?ws[w := ?pc'] ! v) i"
    if flags: "\<not> co_cancel ?c'" "co_fatal ?c' = None" and i: "i < job_count job"
      and open': "open_piece (co_map ?c') i" for i
  proof (cases "open_piece (co_map ?c) i \<longrightarrow> watches (?ws ! w) i")
    case True
    with worker_step_watches [of ?c job i e "?ws ! w"] base flags i open'
    have "watches ?pc' i"
      by (simp add: pool_base_def)
    with work(1) show ?thesis
      by (intro exI [of _ w]) simp
  next
    case False
    moreover have "\<not> co_cancel ?c" "co_fatal ?c = None"
      using flags worker_step_flags [of ?c] by blast+
    ultimately obtain v where "v < length ?ws" "watches (?ws ! v) i" "v \<noteq> w"
      using inv i by (auto simp: pool_watched_def)
    then show ?thesis
      by (intro exI [of _ v]) simp
  qed
  with pool_base_step [OF base, of ev] show ?thesis
    by (simp add: pool_watched_def work(2))
qed (use inv in \<open>simp_all add: pool_watched_def pool_base_def\<close>)

section \<open>The checkpoint names only pieces that are done\<close>

definition pool_checkpoint :: "'s job \<Rightarrow> bytes option \<Rightarrow> 's pool \<Rightarrow> bool" where
  "pool_checkpoint job file0 p \<longleftrightarrow>
     pool_base job p
     \<and> (co_resume_file (po_coord p) = file0
        \<or> (\<exists>s. co_resume_file (po_coord p) = Some (rs_bytes s) \<and> rs_wf s
             \<and> rs_validate s (job_count job) (ti_file_size (job_info job)) = Inr ()
             \<and> (\<forall>i < job_count job. rs_is_done s i \<longrightarrow> pm_get (co_map (po_coord p)) i = Done)))"

lemma worker_step_resume_file:
  "co_resume_file (snd (worker_step job e pc c)) = co_resume_file c
   \<or> (co_resume_file (snd (worker_step job e pc c))
        = Some (rs_bytes (rs_from_piece_map (co_map c) (ti_file_size (job_info job))))
      \<and> co_map (snd (worker_step job e pc c)) = co_map c)"
  by (cases pc) (auto simp: worker_step_Trying Let_def emit_def handle_piece_success_def
      handle_hash_failure_def handle_fetch_failure_def bump_retries_def set_last_failed_def
      split: list.splits option.splits sum.splits prod.splits if_splits)

lemma pool_checkpoint_step:
  assumes inv: "pool_checkpoint job file0 p"
  shows "pool_checkpoint job file0 (pool_step job ev p)"
proof -
  have base: "pool_base job p"
    using inv by (simp add: pool_checkpoint_def)
  note base' = pool_base_step [OF base, of ev]
  let ?file = "co_resume_file (po_coord (pool_step job ev p))"
  have "?file = co_resume_file (po_coord p)
    \<or> (?file = Some (rs_bytes (rs_from_piece_map (co_map (po_coord p)) (ti_file_size (job_info job)))))"
    by (cases rule: pool_step_cases [of job ev p])
      (use worker_step_resume_file in fastforce)+
  then show ?thesis
  proof
    assume "?file = co_resume_file (po_coord p)"
    with inv base' pool_done_stable_step [OF base, of _ ev] show ?thesis
      by (auto simp: pool_checkpoint_def)
  next
    assume new: "?file = Some (rs_bytes
      (rs_from_piece_map (co_map (po_coord p)) (ti_file_size (job_info job))))"
    have "rs_validate (rs_from_piece_map (co_map (po_coord p)) (ti_file_size (job_info job)))
        (job_count job) (ti_file_size (job_info job)) = Inr ()"
      using base by (simp add: rs_validate_def rs_from_piece_map_def pool_base_def)
    with new base base' pool_done_stable_step [OF base, of _ ev] show ?thesis
      by (auto simp: pool_checkpoint_def pool_base_def rs_wf_from_piece_map rs_from_piece_map_done)
  qed
qed

section \<open>A piece is given up only when its retries are used up\<close>

text \<open>A worker that will look whether a failed piece can be retried before it can leave.\<close>

fun minds :: "worker \<Rightarrow> u32 \<Rightarrow> bool" where
  "minds (Resetting eg k) i \<longleftrightarrow> k \<le> unat i"
| "minds (Claiming _) i \<longleftrightarrow> False"
| "minds (Trying _ _) i \<longleftrightarrow> False"
| "minds NoClaim i \<longleftrightarrow> False"
| "minds (Scanning _) i \<longleftrightarrow> False"
| "minds Exited i \<longleftrightarrow> False"
| "minds _ i \<longleftrightarrow> True"

definition retriable :: "'s job \<Rightarrow> 's coord \<Rightarrow> u32 \<Rightarrow> bool" where
  "retriable job c i \<longleftrightarrow> pm_get (co_map c) i = Failed
     \<and> co_retry_counts c ! unat i < cc_max_retries_per_piece (job_config job)"

definition pool_minded :: "'s job \<Rightarrow> 's pool \<Rightarrow> bool" where
  "pool_minded job p \<longleftrightarrow>
     pool_attempts job p
     \<and> (\<not> co_cancel (po_coord p) \<and> co_fatal (po_coord p) = None \<longrightarrow>
         (\<forall>i < job_count job. retriable job (po_coord p) i \<longrightarrow>
            (\<exists>w < length (po_workers p). minds (po_workers p ! w) i)))"

lemma le_sat_mul: "0 < b \<Longrightarrow> a \<le> sat_mul a b"
  for a b :: "'a::len word"
proof (cases "unat a * unat b < 2 ^ LENGTH('a)")
  case True
  moreover assume "0 < b"
  ultimately show ?thesis
    by (simp add: word_le_nat_alt unat_sat_mul word_less_nat_alt)
qed (simp add: sat_mul_def)

lemma le_sat_add: "unat a \<le> unat (sat_add a b)"
  for a b :: "'a::len word"
proof -
  have "unat a \<le> 2 ^ LENGTH('a) - 1"
    using unat_less_exp [of a] by linarith
  then show ?thesis
    by (simp add: unat_sat_add)
qed

lemma bump_retries_ge:
  "unat (co_retry_counts c ! k) \<le> unat (co_retry_counts (bump_retries i c) ! k)"
  by (cases "k < length (co_retry_counts c)")
    (auto simp: bump_retries_def modify_at_def nth_list_update get_at_def le_sat_add split: option.split)

lemma worker_step_retries_ge:
  "unat (co_retry_counts c ! k) \<le> unat (co_retry_counts (snd (worker_step job e pc c)) ! k)"
  by (cases pc) (auto simp: worker_step_Trying retry_counts_handled bump_retries_ge Let_def emit_def
      split: list.splits option.splits sum.splits prod.splits)

lemma reset_failed_retries:
  assumes "pm_wf (co_map c)" "pm_piece_count (co_map c) = job_count job" "i < job_count job"
    and "length (co_retry_counts c) = unat (job_count job)" and "retriable job c i"
  shows "pm_get (co_map (reset_failed job eg (unat i) c)) i = Needed"
proof -
  let ?max = "cc_max_retries_per_piece (job_config job)"
  have "co_retry_counts c ! unat i < (if eg then sat_mul ?max 2 else ?max)"
    using assms(5) le_sat_mul [of 2 ?max] by (auto simp: retriable_def)
  then show ?thesis
    using assms pm_cas_get(2) [OF assms(1), of Failed Needed i i]
    by (auto simp: reset_failed_def retriable_def Let_def get_at_def word_less_nat_alt pm_retry_failed_def)
qed

lemma worker_step_minds:
  assumes "pm_wf (co_map c)" "pm_piece_count (co_map c) = job_count job" "i < job_count job"
    and len: "length (co_retry_counts c) = unat (job_count job)"
    and own: "\<And>i. owned pc = Some i \<Longrightarrow> i < pm_piece_count (co_map c)"
    and retriable': "retriable job (snd (worker_step job e pc c)) i"
    and flags: "\<not> co_cancel (snd (worker_step job e pc c))" "co_fatal (snd (worker_step job e pc c)) = None"
    and before: "retriable job c i \<longrightarrow> minds pc i"
  shows "minds (fst (worker_step job e pc c)) i"
proof (cases "owned pc = Some i \<and> owned (fst (worker_step job e pc c)) = None")
  case True
  with flags show ?thesis
    by (cases pc) (auto split: option.splits sum.splits prod.splits)
next
  case False
  have r: "co_retry_counts c ! unat i < cc_max_retries_per_piece (job_config job)"
    using retriable' worker_step_retries_ge [of c "unat i" job e pc]
    by (simp add: retriable_def word_less_nat_alt)
  have "pm_get (co_map c) i = Failed"
    using effect_get [OF worker_step_map [of pc job e c] assms(1) own, of i] False retriable'
    by (auto simp: retriable_def)
  with r before have now: "retriable job c i" "minds pc i"
    by (simp_all add: retriable_def)
  show ?thesis
  proof (cases pc)
    case (Resetting eg k)
    have "k \<noteq> unat i"
      using reset_failed_retries [OF assms(1-4) now(1), of eg] retriable' Resetting assms(3)
      by (auto simp: retriable_def word_less_nat_alt)
    with now(2) Resetting assms(3) show ?thesis
      by (auto simp: word_less_nat_alt)
  next
    case CheckComplete
    with now(1) assms pm_is_complete_iff [OF assms(1)] show ?thesis
      by (auto simp: retriable_def)
  qed (use now flags in \<open>auto simp: Let_def split: option.splits sum.splits prod.splits\<close>)
qed

lemma pool_minded_step:
  assumes inv: "pool_minded job p"
  shows "pool_minded job (pool_step job ev p)"
proof (cases rule: pool_step_cases [of job ev p])
  case (work w e)
  let ?ws = "po_workers p" and ?c = "po_coord p"
  let ?pc' = "fst (worker_step job e (?ws ! w) ?c)" and ?c' = "snd (worker_step job e (?ws ! w) ?c)"
  have att: "pool_attempts job p"
    using inv by (simp add: pool_minded_def)
  then have base: "pool_base job p" and len: "length (co_retry_counts ?c) = unat (job_count job)"
    by (simp_all add: pool_attempts_def)
  then have own: "pool_owned ?ws (co_map ?c)" and wf: "pm_wf (co_map ?c)"
    and count: "pm_piece_count (co_map ?c) = job_count job"
    by (simp_all add: pool_base_def)
  note minds = worker_step_minds [OF wf count _ len pool_ownedD(1) [OF own work(1)]]
  have "\<exists>v < length ?ws. minds (?ws[w := ?pc'] ! v) i"
    if flags: "\<not> co_cancel ?c'" "co_fatal ?c' = None" and i: "i < job_count job"
      and r: "retriable job ?c' i" for i
  proof (cases "retriable job ?c i \<longrightarrow> minds (?ws ! w) i")
    case True
    with minds [OF i _ r flags] work(1) show ?thesis
      by (intro exI [of _ w]) simp
  next
    case False
    moreover have "\<not> co_cancel ?c" "co_fatal ?c = None"
      using flags worker_step_flags [of ?c] by blast+
    ultimately obtain v where "v < length ?ws" "minds (?ws ! v) i" "v \<noteq> w"
      using inv i by (auto simp: pool_minded_def)
    then show ?thesis
      by (intro exI [of _ v]) simp
  qed
  with pool_attempts_step [OF att, of ev] show ?thesis
    by (simp add: pool_minded_def work(2))
qed (use inv pool_attempts_step [of job p ev] in \<open>simp_all add: pool_minded_def retriable_def\<close>)

end
