(* ===== verification/CoordinatorRun.thy ===== *)
theory CoordinatorRun
  imports CoordinatorSafety
begin

text \<open>
  A whole run of the coordinator, \<open>crates/p2p-distribute/src/coordinator.rs\<close>: the checkpoint is
  loaded (\<open>try_load_resume\<close>), the storage is created, the workers run in any interleaving, and
  \<open>PieceCoordinator::run\<close> turns what they leave into its result. The properties put the
  invariants of the workers and this beginning and end together.
\<close>

section \<open>The beginning\<close>

text \<open>
  The map of \<open>PieceCoordinator::new\<close> and of \<open>new_resume\<close>.
\<close>

definition coordinator_new :: "'s job \<Rightarrow> piece_map" where
  "coordinator_new job = pm_new (job_count job)"

definition coordinator_new_resume :: "'s job \<Rightarrow> bool list \<Rightarrow> piece_map" where
  "coordinator_new_resume job verified_pieces = pm_from_verified (job_count job) verified_pieces"

definition resume_piece ::
  "torrent_info \<Rightarrow> resume_state \<Rightarrow> u32 \<Rightarrow> piece_map \<times> u32 \<times> u64 \<Rightarrow> piece_map \<times> u32 \<times> u64" where
  "resume_piece info state i = (\<lambda>(m, pieces_resumed, bytes_resumed).
     if rs_is_done state i \<and> pm_get m i \<noteq> Done
     then (pm_mark_done i m, sat_add pieces_resumed 1,
           sat_add bytes_resumed (ucast (ti_piece_size info i)))
     else (m, pieces_resumed, bytes_resumed))"

text \<open>The file is what exists under the configured resume path.\<close>

definition try_load_resume ::
  "'s job \<Rightarrow> bytes option \<Rightarrow> piece_map \<Rightarrow> bool \<times> piece_map \<times> progress list" where
  "try_load_resume job resume_file m =
     (case cc_resume_path (job_config job) of
        None \<Rightarrow> (False, m, [])
      | Some path \<Rightarrow>
          (case and_then (ok_or resume_file Io) rs_parse of
             Inl e \<Rightarrow> (False, m, [])
           | Inr state \<Rightarrow>
               (case rs_validate state (job_count job) (ti_file_size (job_info job)) of
                  Inl e \<Rightarrow> (False, m, [])
                | Inr _ \<Rightarrow>
                    let (m', pieces_resumed, bytes_resumed) =
                      fold (resume_piece (job_info job) state) (piece_indices (rs_piece_count state))
                        (m, 0, 0)
                    in if pieces_resumed > 0
                       then (True, m', [Resumed pieces_resumed (job_count job) bytes_resumed])
                       else (False, m', []))))"

definition coord_start ::
  "'s job \<Rightarrow> (u64 \<Rightarrow> bool \<Rightarrow> storage_error + 's) \<Rightarrow> peer_kind list \<Rightarrow> bytes option \<Rightarrow> piece_map
    \<Rightarrow> coord_error + 's pool" where
  "coord_start job create kinds resume_file m =
     (if job_peers job = 0 then Inl NoPeers
      else
        let starting = Starting (job_count job) (ti_file_size (job_info job))
              (length (filter (\<lambda>k. k = WebSeed) kinds)) (BtSwarm \<in> set kinds);
            (resuming, m', resumed) = try_load_resume job resume_file m
        in case create (ti_file_size (job_info job)) resuming of
             Inl e \<Rightarrow> Inl (StorageFailure 0 e)
           | Inr store \<Rightarrow> Inr (pool_init job m' store resume_file (starting # resumed)))"

section \<open>The end\<close>

definition coord_finish :: "'s job \<Rightarrow> 's coord \<Rightarrow> (coord_error + unit) \<times> 's coord" where
  "coord_finish job c =
     (case co_fatal c of
        Some e \<Rightarrow> (Inl e, c\<lparr>co_fatal := None\<rparr>)
      | None \<Rightarrow>
          if co_cancel c then (Inl Cancelled, c)
          else
            case (if pm_is_complete (co_map c) then None
                  else find (\<lambda>i. pm_get (co_map c) i = Failed) (piece_indices (job_count job))) of
              Some i \<Rightarrow>
                (Inl (AllPeersFailed i
                   (case get_at (co_retry_counts c) (unat i) of None \<Rightarrow> 0 | Some r \<Rightarrow> r)), c)
            | None \<Rightarrow>
                (case op_flush (job_ops job) (co_store c) of
                   (Inl e, s) \<Rightarrow>
                     (Inl (StorageFailure (sat_sub (job_count job) 1) e), c\<lparr>co_store := s\<rparr>)
                 | (Inr _, s) \<Rightarrow>
                     let c' = emit (Complete (ti_file_size (job_info job))) (c\<lparr>co_store := s\<rparr>)
                     in (Inr (), if cc_resume_path (job_config job) \<noteq> None
                                 then c'\<lparr>co_resume_file := None\<rparr> else c')))"

definition all_exited :: "'s pool \<Rightarrow> bool" where
  "all_exited p \<longleftrightarrow> list_all (\<lambda>pc. pc = Exited) (po_workers p)"

section \<open>The invariants hold from the start\<close>

lemma pool_init_fields [simp]:
  "co_map (po_coord (pool_init job m s file log)) = m"
  "co_store (po_coord (pool_init job m s file log)) = s"
  "co_resume_file (po_coord (pool_init job m s file log)) = file"
  "co_cancel (po_coord (pool_init job m s file log)) = False"
  "co_fatal (po_coord (pool_init job m s file log)) = None"
  "co_retry_counts (po_coord (pool_init job m s file log)) = replicate (unat (job_count job)) 0"
  "po_workers (pool_init job m s file log) = replicate (pool_size job) CheckCancel"
  by (simp_all add: pool_init_def)

lemma pool_size_pos [simp]: "0 < pool_size job"
  by (simp add: pool_size_def)

lemma pool_base_init:
  "pm_wf m \<Longrightarrow> pm_piece_count m = job_count job \<Longrightarrow> pool_base job (pool_init job m s file log)"
  by (simp add: pool_base_def pool_owned_def)

lemma pool_minded_init:
  assumes "pm_wf m" "pm_piece_count m = job_count job"
  shows "pool_minded job (pool_init job m s file log)"
proof -
  have "filter (\<lambda>pc. pending pc = Some i) (replicate n CheckCancel) = []" for i n
    by (simp add: filter_empty_conv)
  moreover have "1 \<le> attempt_bound job"
    using pool_size_pos [of job] unat_eq_0 [of "cc_max_retries_per_piece (job_config job)"]
    by (auto simp: attempt_bound_def)
  ultimately show ?thesis
    using pool_base_init [OF assms]
    by (auto simp: pool_minded_def pool_attempts_def attempts_def word_less_nat_alt
        intro: exI [of _ 0])
qed

lemma pool_watched_init:
  assumes "pm_wf m" "pm_piece_count m = job_count job"
  shows "pool_watched job (pool_init job m s file log)"
  using pool_base_init [OF assms] by (auto simp: pool_watched_def intro: exI [of _ 0])

lemma pool_checkpoint_init:
  assumes "pm_wf m" "pm_piece_count m = job_count job"
  shows "pool_checkpoint job file (pool_init job m s file log)"
  using pool_base_init [OF assms] by (simp add: pool_checkpoint_def)

interpretation minded: step_system "{p. pool_minded job p}" "pool_step job" "pool_minded job" for job
  by unfold_locales (simp_all add: pool_minded_step)

interpretation watched: step_system "{p. pool_watched job p}" "pool_step job" "pool_watched job" for job
  by unfold_locales (simp_all add: pool_watched_step)

interpretation checkpoint: step_system "{p. pool_checkpoint job saved p}" "pool_step job"
  "pool_checkpoint job saved" for job saved
  by unfold_locales (simp_all add: pool_checkpoint_step)

section \<open>What the start hands to the workers\<close>

lemma resume_pieces:
  assumes "pm_wf m"
  shows "pm_wf (fst (fold (resume_piece info state) is (m, n, b)))
    \<and> pm_piece_count (fst (fold (resume_piece info state) is (m, n, b))) = pm_piece_count m
    \<and> (\<forall>i. pm_get (fst (fold (resume_piece info state) is (m, n, b))) i = Done
         \<longleftrightarrow> pm_get m i = Done \<or> i \<in> set is \<and> i < pm_piece_count m \<and> rs_is_done state i)"
  using assms
proof (induction "is" arbitrary: m n b)
  case (Cons j js)
  obtain m' n' b' where step: "resume_piece info state j (m, n, b) = (m', n', b')"
    by (cases "resume_piece info state j (m, n, b)") auto
  then have m': "m' = (if rs_is_done state j \<and> pm_get m j \<noteq> Done then pm_mark_done j m else m)"
    by (auto simp: resume_piece_def split: if_splits)
  have "pm_wf m'" "pm_piece_count m' = pm_piece_count m"
    using Cons.prems by (simp_all add: m' pm_mark_done_def pm_wf_store)
  moreover have "pm_get m' i = Done \<longleftrightarrow>
      pm_get m i = Done \<or> i = j \<and> i < pm_piece_count m \<and> rs_is_done state i" for i
    using pm_store_get [OF Cons.prems, of Done j i] by (auto simp: m' pm_mark_done_def)
  ultimately show ?case
    using Cons.IH [of m' n' b'] by (auto simp: step)
qed simp

lemma try_load_resume_map:
  assumes "pm_wf m" and "try_load_resume job saved m = (resuming, m', log)"
  shows "pm_wf m' \<and> pm_piece_count m' = pm_piece_count m"
  using assms(2) resume_pieces [OF assms(1), of "job_info job"] assms(1)
  by (auto simp: try_load_resume_def Let_def prod.case_eq_if split: option.splits sum.splits if_splits)

text \<open>The maps a coordinator is created with.\<close>

definition created_map :: "'s job \<Rightarrow> piece_map \<Rightarrow> bool" where
  "created_map job m \<longleftrightarrow> pm_wf m \<and> pm_piece_count m = job_count job"

lemma created_map_new: "created_map job (coordinator_new job)"
  by (simp add: created_map_def coordinator_new_def pm_wf_new) (simp add: pm_new_def)

lemma created_map_new_resume: "created_map job (coordinator_new_resume job v)"
  by (simp add: created_map_def coordinator_new_resume_def pm_wf_from_verified)
    (simp add: pm_from_verified_def)

lemma coord_start_Inr:
  assumes "coord_start job create kinds saved m = Inr p" and "created_map job m"
  obtains resuming m' log s where "try_load_resume job saved m = (resuming, m', log)"
    "create (ti_file_size (job_info job)) resuming = Inr s"
    "p = pool_init job m' s saved (Starting (job_count job) (ti_file_size (job_info job))
      (length (filter (\<lambda>k. k = WebSeed) kinds)) (BtSwarm \<in> set kinds) # log)"
    "pm_wf m'" "pm_piece_count m' = job_count job"
proof -
  obtain resuming m' log where load: "try_load_resume job saved m = (resuming, m', log)"
    using prod_cases3 by blast
  with assms try_load_resume_map [OF _ load] that [OF load] show thesis
    by (auto simp: coord_start_def created_map_def split: if_splits sum.splits)
qed

text \<open>A run so far: some start, and then any events.\<close>

definition run_from ::
  "'s job \<Rightarrow> (u64 \<Rightarrow> bool \<Rightarrow> storage_error + 's) \<Rightarrow> bytes option \<Rightarrow> piece_map \<Rightarrow> event list
    \<Rightarrow> 's pool \<Rightarrow> 's pool \<Rightarrow> bool" where
  "run_from job create saved m events p0 p \<longleftrightarrow>
     created_map job m \<and> (\<exists>kinds. coord_start job create kinds saved m = Inr p0)
     \<and> p = fold (pool_step job) events p0"

lemma run_invariants:
  assumes "run_from job create saved m events p0 p"
  shows "pool_minded job p" "pool_watched job p" "pool_checkpoint job saved p"
proof -
  obtain kinds where start: "coord_start job create kinds saved m = Inr p0" "created_map job m"
    and p: "p = fold (pool_step job) events p0"
    using assms by (auto simp: run_from_def)
  obtain m' s log where "p0 = pool_init job m' s saved log"
    and "pm_wf m'" "pm_piece_count m' = job_count job"
    using coord_start_Inr [OF start] by metis
  then have "pool_minded job p0" "pool_watched job p0" "pool_checkpoint job saved p0"
    by (simp_all add: pool_minded_init pool_watched_init pool_checkpoint_init)
  then show "pool_minded job p" "pool_watched job p" "pool_checkpoint job saved p"
    unfolding p by (simp_all add: minded.inv_fold watched.inv_fold checkpoint.inv_fold)
qed



lemma exited_not_open:
  assumes "pool_watched job p" "all_exited p" "\<not> co_cancel (po_coord p)" "co_fatal (po_coord p) = None"
    and "i < job_count job"
  shows "\<not> open_piece (co_map (po_coord p)) i"
  using assms by (auto simp: pool_watched_def all_exited_def list_all_length)

lemma exited_not_retriable:
  assumes "pool_minded job p" "all_exited p" "\<not> co_cancel (po_coord p)" "co_fatal (po_coord p) = None"
    and "i < job_count job"
  shows "\<not> retriable job (po_coord p) i"
  using assms by (auto simp: pool_minded_def all_exited_def list_all_length)

lemma find_piece_index:
  "find P (piece_indices pc) = Some i \<Longrightarrow> i < pc \<and> P i \<and> (\<forall>j < i. \<not> P j)"
proof -
  assume "find P (piece_indices pc) = Some i"
  then obtain k where k: "k < unat pc" "P (word_of_nat k)" "i = word_of_nat k"
      "\<forall>l < k. \<not> P (word_of_nat l)"
    by (auto simp: find_Some_iff piece_indices_def)
  then have "unat i = k"
    using unat_less_exp [of pc] by (simp add: unsigned_of_nat take_bit_nat_eq_self)
  moreover have "\<not> P j" if "j < i" for j
    using k(4) [rule_format, of "unat j"] that \<open>unat i = k\<close> by (simp add: word_less_nat_alt)
  ultimately show ?thesis
    using k by (auto simp: word_less_nat_alt)
qed

lemma find_piece_None:
  "find P (piece_indices pc) = None \<longleftrightarrow> (\<forall>i < pc. \<not> P i)"
  by (simp add: find_None_iff)


section \<open>Properties\<close>



text \<open>
  C5: The result of a run that has come to its end. A fatal storage error is returned as it is, then
  a cancelled run says so. Otherwise the run fails for the first failed piece, every piece before it
  being done, and this piece had at least the configured number of failures and at most twice that
  number plus one for every worker; or every piece is done, and the result is the one of the flush.
\<close>
theorem coordinator_result_exact:
  assumes "run_from job create saved m events p0 p" and "all_exited p"
  shows "(case co_fatal (po_coord p) of
      Some e \<Rightarrow> fst (coord_finish job (po_coord p)) = Inl e
    | None \<Rightarrow>
        if co_cancel (po_coord p) then fst (coord_finish job (po_coord p)) = Inl Cancelled
        else if pm_is_complete (co_map (po_coord p)) then
          fst (coord_finish job (po_coord p)) =
            (case fst (op_flush (job_ops job) (co_store (po_coord p))) of
               Inl e \<Rightarrow> Inl (StorageFailure (sat_sub (job_count job) 1) e) | Inr _ \<Rightarrow> Inr ())
        else \<exists>i a. fst (coord_finish job (po_coord p)) = Inl (AllPeersFailed i a)
          \<and> pm_get (co_map (po_coord p)) i = Failed \<and> (\<forall>j < i. pm_get (co_map (po_coord p)) j = Done)
          \<and> cc_max_retries_per_piece (job_config job) \<le> a
          \<and> unat a \<le> attempt_bound job)"
proof (cases "co_fatal (po_coord p) = None \<and> \<not> co_cancel (po_coord p)
    \<and> \<not> pm_is_complete (co_map (po_coord p))")
  case False
  then show ?thesis
    by (auto simp: coord_finish_def Let_def split: option.splits sum.splits prod.splits)
next
  case True
  let ?c = "po_coord p" and ?m = "co_map (po_coord p)"
  note inv = run_invariants [OF assms(1)]
  then have att: "pool_attempts job p" and wf: "pm_wf ?m" "pm_piece_count ?m = job_count job"
    by (simp_all add: pool_minded_def pool_attempts_def pool_base_def)
  have closed: "pm_get ?m i = Done \<or> pm_get ?m i = Failed" if "i < job_count job" for i
    using exited_not_open [OF inv(2) assms(2) _ _ that] True
    by (cases "pm_get ?m i") (auto simp: open_piece_def)
  then obtain i where find: "find (\<lambda>i. pm_get ?m i = Failed) (piece_indices (job_count job)) = Some i"
    using True wf pm_is_complete_iff [OF wf(1)] find_piece_None [of "\<lambda>i. pm_get ?m i = Failed"]
    by (metis not_Some_eq)
  note i = find_piece_index [OF find]
  have len: "unat i < length (co_retry_counts ?c)"
    using att i by (simp add: pool_attempts_def word_less_nat_alt)
  have "\<not> retriable job ?c i"
    using exited_not_retriable [OF inv(1) assms(2)] True i by simp
  then have "cc_max_retries_per_piece (job_config job) \<le> co_retry_counts ?c ! unat i"
    using i by (simp add: retriable_def not_less)
  moreover have "unat (co_retry_counts ?c ! unat i) \<le> attempt_bound job"
    using att i by (fastforce simp: pool_attempts_def attempts_def)
  moreover have "pm_get ?m j = Done" if "j < i" for j
    using closed [of j] i that by fastforce
  ultimately show ?thesis
    using True find i len by (auto simp: coord_finish_def get_at_def)
qed


text \<open>
  C3: No piece is downloaded by two workers at the same time, and none is given up or retried without
  end: in every interleaving a piece that a worker owns is in flight and no other worker owns it, and
  the failures counted for a piece never exceed twice the configured retries plus one per worker.
\<close>
theorem workers_exclusive_and_bounded:
  assumes "run_from job create saved m events p0 p" and "w < length (po_workers p)"
  shows "(\<forall>i. owned (po_workers p ! w) = Some i \<longrightarrow>
        i < job_count job \<and> pm_get (co_map (po_coord p)) i = InFlight
        \<and> (\<forall>v < length (po_workers p). v \<noteq> w \<longrightarrow> owned (po_workers p ! v) \<noteq> Some i))
    \<and> (\<forall>i < job_count job. unat (co_retry_counts (po_coord p) ! unat i) \<le> attempt_bound job)"
proof -
  have att: "pool_attempts job p"
    using run_invariants(1) [OF assms(1)] by (simp add: pool_minded_def)
  then have own: "pool_owned (po_workers p) (co_map (po_coord p))"
    and count: "pm_piece_count (co_map (po_coord p)) = job_count job"
    by (simp_all add: pool_attempts_def pool_base_def)
  have "unat (co_retry_counts (po_coord p) ! unat i) \<le> attempt_bound job" if "i < job_count job" for i
    using att that by (fastforce simp: pool_attempts_def attempts_def)
  with pool_ownedD [OF own assms(2)] count show ?thesis
    by auto
qed

text \<open>
  A coordinator created from pieces the caller has verified erases them. \<open>new_resume\<close> marks
  them done, but without a checkpoint file to load, the run opens the file as for a fresh download,
  which truncates it; the workers find nothing to do, and the run reports success for a file of zeros.
\<close>
theorem new_resume_erases_pieces:
  assumes "job_ops job = file_ops" "job_peers job = 1" "cc_resume_path (job_config job) = None"
    and "coord_start job (file_create existing []) kinds saved
          (coordinator_new_resume job (replicate (unat (job_count job)) True)) = Inr p0"
  shows "let p = fold (pool_step job) [Work 0 e, Work 0 e] p0 in
    all_exited p
    \<and> fst (coord_finish job (po_coord p)) = Inr ()
    \<and> of_bytes (co_store (snd (coord_finish job (po_coord p))))
        = replicate (unat (ti_file_size (job_info job))) 0"
proof -
  let ?m = "coordinator_new_resume job (replicate (unat (job_count job)) True)"
  have wf: "pm_wf ?m" "pm_piece_count ?m = job_count job"
    using created_map_new_resume [of job] by (simp_all add: created_map_def)
  have "pm_get ?m i = Done" if "i < job_count job" for i
    using that by (simp add: coordinator_new_resume_def pm_from_verified_get word_less_nat_alt)
  then have complete: "pm_is_complete ?m"
    using wf by (simp add: pm_is_complete_iff)
  obtain log where p0: "p0 = pool_init job ?m
      \<lparr>of_bytes = replicate (unat (ti_file_size (job_info job))) 0, of_faults = []\<rparr> saved log"
    using assms by (auto simp: coord_start_def try_load_resume_def file_create_def file_open_def
        split: option.splits)
  have "pool_size job = 1"
    by (simp add: pool_size_def assms(2))
  with p0 complete assms(1,3) show ?thesis
    by (simp add: get_at_def all_exited_def coord_finish_def file_ops_def file_flush_def emit_def Let_def)
qed

section \<open>A run\<close>

text \<open>
  One web seed, one piece of 20 bytes, and the identity as the digest: the worker claims the piece,
  fetches, verifies and writes it, leaves, and the run succeeds.
\<close>

definition example_job :: "bytes job" where
  "example_job =
     \<lparr>job_sha1 = (\<lambda>d. d),
      job_info = \<lparr>ti_piece_length = 20, ti_piece_hashes = replicate 20 7, ti_file_size = 20,
                  ti_file_name = ''f''\<rparr>,
      job_config = cc_default\<lparr>cc_resume_path := Some ''r''\<rparr>, job_peers = 1, job_ops = memory_ops\<rparr>"

definition example_env :: env where
  "example_env =
     \<lparr>env_views = [\<lparr>pv_kind = WebSeed, pv_has_piece = True, pv_is_choked = False,
        pv_speed_estimate = 20000, pv_should_back_off = False, pv_should_avoid = False,
        pv_is_excluded = False, pv_composite_score = 5, pv_suspect = False\<rparr>],
      env_fetch = Inr (replicate 20 7), env_bitfields = [], env_priorities = prio_new 1 0\<rparr>"

definition example_create :: "u64 \<Rightarrow> bool \<Rightarrow> storage_error + bytes" where
  "example_create file_size resuming = Inr (ms_new file_size)"

definition example_events :: "event list" where
  "example_events = replicate 16 (Work 0 example_env)"

definition example_start :: "bytes pool" where
  "example_start = pool_init example_job (coordinator_new example_job) (ms_new 20) None
     [Starting 1 20 1 False]"

definition example_end :: "bytes pool" where
  "example_end = fold (pool_step example_job) example_events example_start"

lemma example_count [simp]: "job_count example_job = 1"
  by (simp add: example_job_def ti_piece_count_def)

lemma pool_step_one:
  "worker_step job e pc c = (pc', c') \<Longrightarrow>
   pool_step job (Work 0 e) \<lparr>po_workers = [pc], po_coord = c\<rparr> = \<lparr>po_workers = [pc'], po_coord = c'\<rparr>"
proof -
  have "\<not> (needs_lock pc \<and> holds_lock pc)"
    by (cases pc) simp_all
  then show "worker_step job e pc c = (pc', c') \<Longrightarrow> ?thesis"
    by (auto simp: get_at_def simp del: worker_step.simps)
qed

lemma example_maps:
  "pm_new 1 = \<lparr>pm_states = [0], pm_piece_count = 1\<rparr>"
  "\<not> pm_is_complete \<lparr>pm_states = [0], pm_piece_count = 1\<rparr>"
  "pm_done_count \<lparr>pm_states = [0], pm_piece_count = 1\<rparr> = 0"
  "pm_next_needed \<lparr>pm_states = [0], pm_piece_count = 1\<rparr> = Some 0"
  "pm_get \<lparr>pm_states = [0], pm_piece_count = 1\<rparr> 0 = Needed"
  "pm_try_claim 0 \<lparr>pm_states = [0], pm_piece_count = 1\<rparr> = (True, \<lparr>pm_states = [1], pm_piece_count = 1\<rparr>)"
  "pm_mark_done 0 \<lparr>pm_states = [1], pm_piece_count = 1\<rparr> = \<lparr>pm_states = [2], pm_piece_count = 1\<rparr>"
  "pm_is_complete \<lparr>pm_states = [2], pm_piece_count = 1\<rparr>"
  by (simp_all add: pm_new_def pm_is_complete_def pm_done_count_def pm_next_needed_def pm_get_def
      pm_try_claim_def pm_cas_def pm_mark_done_def pm_store_def get_at_def ps_to_u8.simps ps_from_u8_def)

lemma example_info:
  "ti_piece_hash (job_info example_job) 0 = Some (replicate 20 7)"
  "ti_piece_offset (job_info example_job) 0 = 0"
  "ti_piece_size (job_info example_job) 0 = 20"
  "ti_file_size (job_info example_job) = 20"
  "job_sha1 example_job = (\<lambda>d. d)" "job_ops example_job = memory_ops" "job_peers example_job = 1"
  "job_config example_job = cc_default\<lparr>cc_resume_path := Some ''r''\<rparr>"
  by (simp_all add: example_job_def ti_piece_hash_def ti_piece_offset_def ti_piece_size_def sat_mul_def
      sat_sub_def usize_max_def checked_add_usize_def get_range_def)

lemma example_end_value:
  "po_workers example_end = [Exited] \<and> co_map (po_coord example_end) = \<lparr>pm_states = [2], pm_piece_count = 1\<rparr>
   \<and> co_store (po_coord example_end) = replicate 20 7 \<and> co_fatal (po_coord example_end) = None
   \<and> co_cancel (po_coord example_end) = False \<and> co_resume_file (po_coord example_end) \<noteq> None"
proof -
  let ?J = example_job and ?E = example_env and ?d = "replicate 20 7 :: bytes"
  let ?m = "\<lambda>s. \<lparr>pm_states = [s], pm_piece_count = 1\<rparr> :: piece_map"
  define c where "c = po_coord example_start"
  have c: "co_map c = ?m 0" "\<not> co_cancel c" "co_fatal c = None" "co_store c = replicate 20 0"
    "co_last_failed_peer c = [None]" "co_peer_blacklisted c = [False]"
    by (simp_all add: c_def example_start_def coordinator_new_def example_maps ms_new_def)
      (simp_all add: pool_init_def example_info)
  let ?c1 = "c\<lparr>co_map := ?m 1\<rparr>"
  let ?c2 = "?c1\<lparr>co_store := ?d\<rparr>"
  let ?c3 = "c\<lparr>co_store := ?d, co_map := ?m 2\<rparr>"
  let ?c4 = "handle_piece_success ?J 0 ?d ?c3"
  have peer: "select_peer_with_exclusion 10240 None [False] (env_views ?E) = Some 0"
    by (simp add: select_peer_with_exclusion_def max_by_key_def primary_eligible_def primary_key_def
        is_blacklisted_def get_at_def example_env_def)
  have steps: "worker_step ?J ?E CheckCancel c = (CheckComplete, c)"
    "worker_step ?J ?E CheckComplete c = (CheckFatal, c)"
    "worker_step ?J ?E CheckFatal c = (LockEndgame, c)"
    "worker_step ?J ?E LockEndgame c = (Resetting True 0, c)"
    "worker_step ?J ?E (Resetting True 0) c = (Resetting True (Suc 0), c)"
    "worker_step ?J ?E (Resetting True (Suc 0)) c = (Claiming (Suc 0), c)"
    "worker_step ?J ?E (Claiming (Suc 0)) c = (Trying [0] 0, c)"
    "worker_step ?J ?E (Trying [0] 0) c = (Selecting 0, ?c1)"
    by (simp_all add: c example_maps reset_failed_def claim_candidates_def example_info cc_default_def
        sat_sub_def Let_def)
  have steps2: "worker_step ?J ?E (Selecting 0) ?c1 = (Fetching 0 0, ?c1)"
    "worker_step ?J ?E (Fetching 0 0) ?c1 = (Writing 0 0 ?d, ?c1)"
    "worker_step ?J ?E (Writing 0 0 ?d) ?c1 = (Written 0 0 ?d, ?c2)"
    "worker_step ?J ?E (Written 0 0 ?d) ?c2 = (Announcing 0 0 ?d, ?c3)"
    "worker_step ?J ?E (Announcing 0 0 ?d) ?c3 = (Succeeding 0 0 ?d, ?c3)"
    "worker_step ?J ?E (Succeeding 0 0 ?d) ?c3 = (CheckCancel, ?c4)"
    "worker_step ?J ?E CheckCancel ?c4 = (CheckComplete, ?c4)"
    "worker_step ?J ?E CheckComplete ?c4 = (Exited, ?c4)"
    using peer by (simp_all add: c example_maps example_info cc_default_def last_failed_of_def get_at_def
        verify_piece_def memory_ops_def ms_write_def checked_add_usize_def usize_max_def get_range_def
        overwrite_def) (simp_all add: example_env_def verify_piece_def example_info)
  have "example_start = \<lparr>po_workers = [CheckCancel], po_coord = c\<rparr>"
    by (simp add: c_def example_start_def pool_init_def pool_size_def example_info)
  then have "example_end = fold (pool_step ?J) (replicate 16 (Work 0 ?E)) \<lparr>po_workers = [CheckCancel], po_coord = c\<rparr>"
    by (simp add: example_end_def example_events_def)
  also have "replicate 16 (Work 0 ?E) = [Work 0 ?E, Work 0 ?E, Work 0 ?E, Work 0 ?E, Work 0 ?E, Work 0 ?E,
      Work 0 ?E, Work 0 ?E, Work 0 ?E, Work 0 ?E, Work 0 ?E, Work 0 ?E, Work 0 ?E, Work 0 ?E, Work 0 ?E,
      Work 0 ?E]"
    by (simp add: eval_nat_numeral)
  also have "fold (pool_step ?J) \<dots> \<lparr>po_workers = [CheckCancel], po_coord = c\<rparr> = \<lparr>po_workers = [Exited], po_coord = ?c4\<rparr>"
    by (simp add: steps [THEN pool_step_one]
        steps2 [THEN pool_step_one] del: pool_step.simps worker_step.simps)
  finally have e: "example_end = \<lparr>po_workers = [Exited], po_coord = ?c4\<rparr>" .
  from arg_cong [OF e, of po_workers] arg_cong [OF e, of po_coord]
  have "po_workers example_end = [Exited]" "po_coord example_end = ?c4"
    by simp_all
  moreover have "co_resume_file ?c4 \<noteq> None"
    by (simp add: handle_piece_success_def emit_def Let_def example_info)
  ultimately show ?thesis
    by (simp add: c)
qed





lemma example_run: "run_from example_job example_create None (coordinator_new example_job)
    example_events example_start example_end"
proof -
  have "coord_start example_job example_create [WebSeed] None (coordinator_new example_job)
    = Inr example_start"
    by (simp add: coord_start_def try_load_resume_def example_info example_create_def example_start_def
        ms_new_def)
  then show ?thesis
    by (auto simp: run_from_def created_map_new example_end_def)
qed



lemma example_exited: "all_exited example_end"
  by (simp add: all_exited_def example_end_value)



theorem coordinator_result_exact_witness:
  "fst (coord_finish example_job (po_coord example_end)) = Inr ()"
  using coordinator_result_exact [OF example_run example_exited]
  by (simp add: example_end_value example_maps example_info memory_ops_def ms_flush_def)

theorem workers_exclusive_and_bounded_witness:
  "unat (co_retry_counts (po_coord example_end) ! 0) \<le> 6"
  using workers_exclusive_and_bounded [OF example_run, of 0]
  by (simp add: example_end_value attempt_bound_def pool_size_def example_info cc_default_def)


definition example_file_job :: "output_file job" where
  "example_file_job =
     \<lparr>job_sha1 = (\<lambda>d. d), job_info = job_info example_job, job_config = cc_default,
      job_peers = 1, job_ops = file_ops\<rparr>"

theorem new_resume_erases_pieces_witness:
  "\<exists>p c. all_exited p \<and> coord_finish example_file_job (po_coord p) = (Inr (), c)
    \<and> of_bytes (co_store c) = replicate 20 0"
proof -
  let ?J = example_file_job
  have ops: "job_ops ?J = file_ops" "job_peers ?J = 1" "cc_resume_path (job_config ?J) = None"
    by (simp_all add: example_file_job_def cc_default_def)
  obtain p0 where "coord_start ?J (file_create (Some (replicate 20 7)) []) [WebSeed] None
      (coordinator_new_resume ?J (replicate (unat (job_count ?J)) True)) = Inr p0"
    by (simp add: coord_start_def try_load_resume_def file_create_def ops)
  note erased = new_resume_erases_pieces [OF ops this, of example_env, unfolded Let_def]
  have "ti_file_size (job_info ?J) = 20"
    by (simp add: example_file_job_def example_info)
  with erased show ?thesis
    by (cases "coord_finish ?J (po_coord (fold (pool_step ?J) [Work 0 example_env, Work 0 example_env] p0))")
      fastforce
qed

end
