(* ===== verification/WorkStealing.thy ===== *)
theory WorkStealing
  imports Prelude
begin

text \<open>
  Work stealing between download threads, \<open>crates/p2p-distribute/src/work_stealing.rs\<close>:
  \<open>StealableTask\<close> (two atomic words, its owner advances the start, thieves bisect the rest) and
  \<open>WorkStealingScheduler\<close>. A thief is modelled by its program counter between the two loads and
  the compare-exchange of \<open>steal\<close>, so that the owner and any number of thieves interleave.
\<close>

section \<open>Tasks\<close>

record stealable_task =
  st_start :: u64
  st_end :: u64

definition st_new :: "u64 \<Rightarrow> u64 \<Rightarrow> stealable_task" where
  "st_new a b = \<lparr>st_start = a, st_end = b\<rparr>"

definition st_remaining :: "stealable_task \<Rightarrow> u64" where
  "st_remaining t = sat_sub (st_end t) (st_start t)"

definition st_is_empty :: "stealable_task \<Rightarrow> bool" where
  "st_is_empty t \<longleftrightarrow> st_remaining t = 0"

text \<open>\<open>fetch_add\<close> wraps around; the value returned saturates.\<close>

definition st_advance :: "u64 \<Rightarrow> stealable_task \<Rightarrow> u64 \<times> stealable_task" where
  "st_advance n t = (sat_add (st_start t) n, t\<lparr>st_start := st_start t + n\<rparr>)"

text \<open>The midpoint \<open>steal\<close> computes from the end and the start it has loaded.\<close>

definition midpoint_of :: "u64 \<Rightarrow> u64 \<Rightarrow> u64 \<Rightarrow> u64" where
  "midpoint_of min_chunk_size current_end current_start =
     (let remaining = sat_sub current_end current_start;
          raw_mid = sat_add current_start (remaining div 2)
      in if min_chunk_size = 0 then raw_mid
         else
           let q = sat_add raw_mid (sat_sub min_chunk_size 1) div min_chunk_size
           in max (min (q * min_chunk_size) (sat_sub current_end 1)) (sat_add current_start 1))"

definition split_point :: "u64 \<Rightarrow> u64 \<Rightarrow> u64 \<Rightarrow> u64 option" where
  "split_point min_chunk_size current_end current_start =
     (if sat_sub current_end current_start < max (sat_mul min_chunk_size 2) 2 then None
      else
        let midpoint = midpoint_of min_chunk_size current_end current_start
        in if midpoint \<le> current_start \<or> midpoint \<ge> current_end then None else Some midpoint)"

text \<open>\<open>steal\<close> when no other thread runs in between: its compare-exchange then succeeds at once.\<close>

definition st_steal :: "u64 \<Rightarrow> stealable_task \<Rightarrow> (u64 \<times> u64) option \<times> stealable_task" where
  "st_steal min_chunk_size t =
     (case split_point min_chunk_size (st_end t) (st_start t) of
        None \<Rightarrow> (None, t)
      | Some midpoint \<Rightarrow> (Some (midpoint, st_end t), t\<lparr>st_end := midpoint\<rparr>))"

section \<open>Thieves and the owner, interleaved\<close>

datatype thief =
  LoadEnd
| LoadStart u64
| CompareExchange u64 u64
| Finished "(u64 \<times> u64) option"

record steal_state =
  ss_task :: stealable_task
  ss_thieves :: "thief list"
  ss_stolen :: "(u64 \<times> u64) list"

datatype steal_event = ThiefStep nat | OwnerAdvance u64

fun thief_step ::
  "u64 \<Rightarrow> thief \<Rightarrow> stealable_task \<Rightarrow> thief \<times> stealable_task \<times> (u64 \<times> u64) list" where
  "thief_step m LoadEnd t = (LoadStart (st_end t), t, [])"
| "thief_step m (LoadStart e) t =
     (case split_point m e (st_start t) of
        None \<Rightarrow> (Finished None, t, [])
      | Some midpoint \<Rightarrow> (CompareExchange e midpoint, t, []))"
| "thief_step m (CompareExchange e midpoint) t =
     (if st_end t = e then (Finished (Some (midpoint, e)), t\<lparr>st_end := midpoint\<rparr>, [(midpoint, e)])
      else (LoadEnd, t, []))"
| "thief_step m (Finished r) t = (Finished r, t, [])"

fun steal_step :: "u64 \<Rightarrow> steal_event \<Rightarrow> steal_state \<Rightarrow> steal_state" where
  "steal_step m (ThiefStep k) s =
     (case get_at (ss_thieves s) k of
        None \<Rightarrow> s
      | Some thief \<Rightarrow>
          (case thief_step m thief (ss_task s) of
             (thief', t, stolen) \<Rightarrow>
               \<lparr>ss_task = t, ss_thieves = (ss_thieves s)[k := thief'], ss_stolen = ss_stolen s @ stolen\<rparr>))"
| "steal_step m (OwnerAdvance n) s = s\<lparr>ss_task := snd (st_advance n (ss_task s))\<rparr>"

definition steal_init :: "u64 \<Rightarrow> u64 \<Rightarrow> nat \<Rightarrow> steal_state" where
  "steal_init a b thieves =
     \<lparr>ss_task = st_new a b, ss_thieves = replicate thieves LoadEnd, ss_stolen = []\<rparr>"

section \<open>The scheduler\<close>

record scheduler =
  sc_tasks :: "stealable_task list"
  sc_min_chunk_size :: u64

definition effective_threads :: "u64 \<Rightarrow> nat \<Rightarrow> u64 \<Rightarrow> nat" where
  "effective_threads file_size thread_count min_chunk_size =
     (if min_chunk_size > 0 \<and> file_size > 0
      then min thread_count (unat (max (file_size div min_chunk_size) 1))
      else thread_count)"

text \<open>\<open>None\<close> is the panic for no threads.\<close>

definition sched_new :: "u64 \<Rightarrow> nat \<Rightarrow> u64 \<Rightarrow> scheduler option" where
  "sched_new file_size thread_count min_chunk_size =
     (if thread_count = 0 then None
      else
        let effective = effective_threads file_size thread_count min_chunk_size;
            segment_size =
              (if effective > 0 \<and> file_size > 0 then file_size div word_of_nat effective else 0);
            task = (\<lambda>i.
              if i < effective then
                st_new (word_of_nat i * segment_size)
                  (if i = effective - 1 then file_size else (word_of_nat i + 1) * segment_size)
              else st_new 0 0)
        in Some \<lparr>sc_tasks = map task [0..<thread_count], sc_min_chunk_size = min_chunk_size\<rparr>)"

definition sched_total_remaining :: "scheduler \<Rightarrow> u64" where
  "sched_total_remaining s = sum_list (map st_remaining (sc_tasks s))"

definition sched_is_complete :: "scheduler \<Rightarrow> bool" where
  "sched_is_complete s \<longleftrightarrow> list_all st_is_empty (sc_tasks s)"

text \<open>The candidate tasks in the order they are tried, the largest first.\<close>

definition steal_candidates :: "nat \<Rightarrow> scheduler \<Rightarrow> nat list" where
  "steal_candidates own s =
     map fst (sort_key (\<lambda>c. - uint (snd c))
       (filter (\<lambda>c. snd c \<ge> sat_mul (sc_min_chunk_size s) 2)
         (map (\<lambda>(i, t). (i, st_remaining t))
           (filter (\<lambda>(i, t). i \<noteq> own) (enumerate 0 (sc_tasks s))))))"

fun steal_first :: "nat list \<Rightarrow> scheduler \<Rightarrow> (u64 \<times> u64) option \<times> scheduler" where
  "steal_first [] s = (None, s)"
| "steal_first (i # is) s =
     (case get_at (sc_tasks s) i of
        None \<Rightarrow> steal_first is s
      | Some t \<Rightarrow>
          (case st_steal (sc_min_chunk_size s) t of
             (Some stolen, t') \<Rightarrow> (Some stolen, s\<lparr>sc_tasks := (sc_tasks s)[i := t']\<rparr>)
           | (None, _) \<Rightarrow> steal_first is s))"

definition steal_from_largest :: "nat \<Rightarrow> scheduler \<Rightarrow> (u64 \<times> u64) option \<times> scheduler" where
  "steal_from_largest own s = steal_first (steal_candidates own s) s"

section \<open>Where a steal splits\<close>

lemma midpoint_between:
  assumes "2 \<le> unat e - unat s"
  shows "unat s < unat (midpoint_of m e s) \<and> unat (midpoint_of m e s) < unat e"
proof -
  have "unat e < 2 ^ 64"
    using unat_less_exp [of e] by simp
  then have "unat s + (unat e - unat s) div 2 < 2 ^ 64" "unat s + 1 < 2 ^ 64"
    using assms by linarith+
  then have "unat (sat_add s (sat_sub e s div 2)) = unat s + (unat e - unat s) div 2"
    and "unat (sat_add s 1) = unat s + 1"
    by (simp_all add: unat_sat_add unat_div unat_sat_sub)
  with assms show ?thesis
    by (auto simp: midpoint_of_def Let_def unat_max unat_min unat_sat_sub)
qed

lemma split_point_between:
  "split_point m e s = Some mid \<Longrightarrow> s < mid \<and> mid < e"
  by (auto simp: split_point_def Let_def split: if_splits)

lemma split_point_None_iff:
  "split_point m e s = None \<longleftrightarrow> sat_sub e s < max (sat_mul m 2) 2"
proof -
  have "2 \<le> unat e - unat s" if "\<not> sat_sub e s < max (sat_mul m 2) 2"
    using that by (simp add: not_less word_le_nat_alt unat_sat_sub unat_max)
  with midpoint_between [of e s m] show ?thesis
    by (cases "sat_sub e s < max (sat_mul m 2) 2")
      (simp_all add: split_point_def Let_def word_le_nat_alt not_le)
qed

section \<open>Ranges that share out bytes\<close>

type_synonym byte_span = "nat \<times> nat"

text \<open>In how many ranges a byte is.\<close>

definition hits :: "byte_span list \<Rightarrow> nat \<Rightarrow> nat" where
  "hits rs x = length (filter (\<lambda>(a, b). a \<le> x \<and> x < b) rs)"

definition span_of :: "u64 \<times> u64 \<Rightarrow> byte_span" where
  "span_of r = (unat (fst r), unat (snd r))"

definition task_span :: "stealable_task \<Rightarrow> byte_span" where
  "task_span t = (unat (st_start t), unat (st_end t))"

lemma hits_simps:
  "hits [] x = 0"
  "hits (r # rs) x = hits [r] x + hits rs x"
  "hits (rs @ qs) x = hits rs x + hits qs x"
  by (simp_all add: hits_def)

declare hits_simps(1,3) [simp]

lemma hits_Cons: "hits ((a, b) # rs) x = (if a \<le> x \<and> x < b then 1 else 0) + hits rs x"
  by (simp add: hits_def)

lemma hits_split: "a \<le> m \<Longrightarrow> m \<le> b \<Longrightarrow> hits [(a, m)] x + hits [(m, b)] x = hits [(a, b)] x"
  by (auto simp: hits_Cons)

lemma hits_update:
  "i < length rs \<Longrightarrow> hits (rs[i := r]) x + hits [rs ! i] x = hits rs x + hits [r] x"
  using length_filter_update [of i rs "\<lambda>(a, b). a \<le> x \<and> x < b" r]
  by (cases r; cases "rs ! i") (simp add: hits_def split: if_splits)

lemma hits_consecutive:
  "(\<And>i. i < n \<Longrightarrow> c i \<le> c (Suc i)) \<Longrightarrow>
   hits (map (\<lambda>i. (c i, c (Suc i))) [0..<n]) x = hits [(c 0, c n)] x \<and> c 0 \<le> c n"
proof (induction n)
  case (Suc n)
  then have "c 0 \<le> c n" "c n \<le> c (Suc n)"
    and "hits (map (\<lambda>i. (c i, c (Suc i))) [0..<n]) x = hits [(c 0, c n)] x"
    by simp_all
  then show ?case
    using hits_split [of "c 0" "c n" "c (Suc n)" x] by simp
qed (simp add: hits_Cons)

section \<open>The interleaved steals\<close>

fun advanced :: "steal_event \<Rightarrow> nat" where
  "advanced (OwnerAdvance n) = unat n"
| "advanced (ThiefStep _) = 0"

definition steal_inv :: "u64 \<Rightarrow> u64 \<Rightarrow> steal_state \<Rightarrow> bool" where
  "steal_inv a b s \<longleftrightarrow>
     a \<le> st_start (ss_task s) \<and> a \<le> st_end (ss_task s)
     \<and> (\<forall>t \<in> set (ss_thieves s). \<forall>e mid. t = CompareExchange e mid \<longrightarrow> a \<le> mid \<and> mid < e)
     \<and> (\<forall>x. hits ((unat a, unat (st_end (ss_task s))) # map span_of (ss_stolen s)) x
          = hits [(unat a, unat b)] x)"

lemma thief_step_inv:
  assumes "thief_step m thief t = (thief', t', stolen)"
    and "a \<le> st_start t" "a \<le> st_end t"
    and "\<And>e mid. thief = CompareExchange e mid \<Longrightarrow> a \<le> mid \<and> mid < e"
  shows "st_start t' = st_start t \<and> a \<le> st_end t'
    \<and> (\<forall>e mid. thief' = CompareExchange e mid \<longrightarrow> a \<le> mid \<and> mid < e)
    \<and> (\<forall>x. hits ((unat a, unat (st_end t')) # map span_of stolen) x = hits [(unat a, unat (st_end t))] x)"
proof (cases thief)
  case (LoadStart e)
  with assms(1,2) split_point_between [of m e "st_start t"] assms(3) show ?thesis
    by (fastforce split: option.splits)
next
  case (CompareExchange e mid)
  with assms(4) have mid: "a \<le> mid" "mid < e"
    by auto
  then have "hits [(unat a, unat mid)] x + hits [(unat mid, unat e)] x = hits [(unat a, unat e)] x" for x
    by (intro hits_split) (simp_all add: word_le_nat_alt word_less_nat_alt)
  with CompareExchange assms(1,3) mid show ?thesis
    by (auto simp: span_of_def hits_simps(2) [of _ "[_]"] split: if_splits)
qed (use assms in auto)

lemma steal_inv_step:
  assumes inv: "steal_inv a b s" and "unat (st_start (ss_task s)) + advanced ev < 2 ^ 64"
  shows "steal_inv a b (steal_step m ev s)
    \<and> unat (st_start (ss_task (steal_step m ev s))) = unat (st_start (ss_task s)) + advanced ev"
proof (cases ev)
  case (OwnerAdvance n)
  then have "unat (st_start (ss_task s) + n) = unat (st_start (ss_task s)) + unat n"
    using assms(2) by (simp add: unat_word_ariths)
  with OwnerAdvance inv show ?thesis
    by (auto simp: steal_inv_def st_advance_def word_le_nat_alt)
next
  case (ThiefStep k)
  show ?thesis
  proof (cases "get_at (ss_thieves s) k")
    case None
    with ThiefStep inv show ?thesis
      by simp
  next
    case (Some thief)
    then have "thief \<in> set (ss_thieves s)"
      using get_at_Some [OF Some] by simp
    obtain thief' t' stolen where st: "thief_step m thief (ss_task s) = (thief', t', stolen)"
      by (metis prod_cases3)
    have step: "st_start t' = st_start (ss_task s)" "a \<le> st_end t'"
      "\<forall>e mid. thief' = CompareExchange e mid \<longrightarrow> a \<le> mid \<and> mid < e"
      "hits ((unat a, unat (st_end t')) # map span_of stolen) x
        = hits [(unat a, unat (st_end (ss_task s)))] x" for x
      using thief_step_inv [OF st, of a] inv \<open>thief \<in> _\<close> by (auto simp: steal_inv_def)
    have "hits ((unat a, unat (st_end t')) # map span_of (ss_stolen s @ stolen)) x
        = hits [(unat a, unat b)] x" for x
    proof -
      have "hits [(unat a, unat (st_end (ss_task s)))] x + hits (map span_of (ss_stolen s)) x
        = hits [(unat a, unat b)] x"
        using inv hits_simps(2) [of "(unat a, unat (st_end (ss_task s)))" "map span_of (ss_stolen s)" x]
        by (simp add: steal_inv_def)
      moreover have "hits [(unat a, unat (st_end t'))] x + hits (map span_of stolen) x
        = hits [(unat a, unat (st_end (ss_task s)))] x"
        using step(4) [of x] hits_simps(2) [of "(unat a, unat (st_end t'))" "map span_of stolen" x] by simp
      ultimately show ?thesis
        using hits_simps(2) [of "(unat a, unat (st_end t'))" "map span_of (ss_stolen s @ stolen)" x] by simp
    qed
    moreover have "\<forall>t \<in> set ((ss_thieves s)[k := thief']). \<forall>e mid. t = CompareExchange e mid \<longrightarrow> a \<le> mid \<and> mid < e"
      using inv step(3) set_update_subset_insert [of "ss_thieves s" k thief'] by (auto simp: steal_inv_def)
    ultimately show ?thesis
      using ThiefStep Some st step(1,2) inv by (simp add: steal_inv_def)
  qed
qed

lemma steal_inv_fold:
  assumes "steal_inv a b s" "unat (st_start (ss_task s)) + sum_list (map advanced events) < 2 ^ 64"
  shows "steal_inv a b (fold (steal_step m) events s)"
  using assms
proof (induction events arbitrary: s)
  case (Cons ev events)
  then show ?case
    using steal_inv_step [OF Cons.prems(1), of ev m] by simp
qed simp

section \<open>The scheduler's histories\<close>

text \<open>
  The scheduler with a ledger of what left its tasks: the ranges stolen, which the thieves then
  download on their own, and the ranges the owners have written.
\<close>

record ledger =
  le_sched :: scheduler
  le_stolen :: "(u64 \<times> u64) list"
  le_written :: "byte_span list"

datatype sched_op = StealFor nat | Written nat u64

fun ledger_step :: "sched_op \<Rightarrow> ledger \<Rightarrow> ledger" where
  "ledger_step (StealFor own) l =
     (case steal_from_largest own (le_sched l) of
        (None, s) \<Rightarrow> l\<lparr>le_sched := s\<rparr>
      | (Some r, s) \<Rightarrow> l\<lparr>le_sched := s, le_stolen := le_stolen l @ [r]\<rparr>)"
| "ledger_step (Written i n) l =
     (case get_at (sc_tasks (le_sched l)) i of
        None \<Rightarrow> l
      | Some t \<Rightarrow>
          if n \<le> st_remaining t then
            l\<lparr>le_sched := (le_sched l)\<lparr>sc_tasks := (sc_tasks (le_sched l))[i := snd (st_advance n t)]\<rparr>,
              le_written := le_written l @ [(unat (st_start t), unat (st_start t) + unat n)]\<rparr>
          else l)"

definition ledger_spans :: "ledger \<Rightarrow> byte_span list" where
  "ledger_spans l = map task_span (sc_tasks (le_sched l)) @ map span_of (le_stolen l) @ le_written l"

lemma st_steal_Some:
  assumes "st_steal m t = (Some r, t')"
  shows "hits [task_span t'] x + hits [span_of r] x = hits [task_span t] x"
proof -
  obtain mid where mid: "split_point m (st_end t) (st_start t) = Some mid"
    and "r = (mid, st_end t)" "t' = t\<lparr>st_end := mid\<rparr>"
    using assms by (auto simp: st_steal_def split: option.splits)
  then show ?thesis
    using split_point_between [OF mid] hits_split [of "unat (st_start t)" "unat mid" "unat (st_end t)" x]
    by (simp add: task_span_def span_of_def word_less_nat_alt)
qed

lemma steal_first_spans:
  "case steal_first victims s of
     (None, s') \<Rightarrow> s' = s
   | (Some r, s') \<Rightarrow> hits (map task_span (sc_tasks s')) x + hits [span_of r] x
       = hits (map task_span (sc_tasks s)) x"
proof (induction victims s rule: steal_first.induct)
  case (2 i victims s)
  show ?case
  proof (cases "get_at (sc_tasks s) i")
    case None
    with 2 show ?thesis
      by simp
  next
    case (Some t)
    then have i: "i < length (sc_tasks s)" "sc_tasks s ! i = t"
      using get_at_Some [OF Some] by simp_all
    obtain r t' where steal: "st_steal (sc_min_chunk_size s) t = (r, t')"
      by fastforce
    show ?thesis
    proof (cases r)
      case None
      with 2 Some steal show ?thesis
        by simp
    next
      case (Some v)
      then show ?thesis
        using \<open>get_at _ _ = _\<close> steal i st_steal_Some [of "sc_min_chunk_size s" t v t' x]
          hits_update [of i "map task_span (sc_tasks s)" "task_span t'" x]
        by (simp add: map_update)
    qed
  qed
qed simp

lemma ledger_step_spans: "hits (ledger_spans (ledger_step op l)) x = hits (ledger_spans l) x"
proof (cases op)
  case (StealFor own)
  obtain r s where steal: "steal_from_largest own (le_sched l) = (r, s)"
    by fastforce
  note cons = hits_simps(2) [where rs = "le_written l" and x = x]
  from steal steal_first_spans [where victims = "steal_candidates own (le_sched l)" and s = "le_sched l" and x = x] StealFor show ?thesis
    by (cases r) (simp_all add: steal_from_largest_def ledger_spans_def cons)
next
  case (Written i n)
  show ?thesis
  proof (cases "get_at (sc_tasks (le_sched l)) i")
    case None
    with Written show ?thesis
      by simp
  next
    case (Some t)
    let ?ts = "sc_tasks (le_sched l)"
    have i: "i < length ?ts" "?ts ! i = t"
      using get_at_Some [OF Some] by simp_all
    show ?thesis
    proof (cases "n \<le> st_remaining t")
      case True
      then have n: "unat n \<le> unat (st_end t) - unat (st_start t)"
        by (simp add: word_le_nat_alt st_remaining_def unat_sat_sub)
      have start: "unat (st_start t + n) = unat (st_start t) + unat n"
        using n unat_less_exp [of "st_end t"] unat_less_exp [of "st_start t"]
        by (cases "unat n = 0") (simp_all add: unat_word_ariths unat_eq_0)
      have "hits [task_span (snd (st_advance n t))] x
          + hits [(unat (st_start t), unat (st_start t) + unat n)] x = hits [task_span t] x"
        using n by (auto simp: st_advance_def task_span_def start hits_Cons)
      with hits_update [of i "map task_span ?ts" "task_span (snd (st_advance n t))" x] Written Some True i
      show ?thesis
        by (simp add: ledger_spans_def map_update)
    next
      case False
      with Written Some show ?thesis
        by simp
    qed
  qed
qed

lemma effective_threads_bounds:
  assumes "0 < n"
  shows "0 < effective_threads file_size n m" "effective_threads file_size n m \<le> n"
proof -
  have "1 \<le> unat (max (file_size div m) 1)"
    by (simp add: unat_max)
  with assms show "0 < effective_threads file_size n m" "effective_threads file_size n m \<le> n"
    by (auto simp: effective_threads_def)
qed

lemma sched_new_spans:
  assumes "sched_new file_size n m = Some s" and "n \<le> usize_max"
  shows "hits (map task_span (sc_tasks s)) x = hits [(0, unat file_size)] x"
proof -
  let ?eff = "effective_threads file_size n m" and ?fs = "unat file_size"
  have n: "0 < n"
    using assms(1) by (auto simp: sched_new_def split: if_splits)
  note eff = effective_threads_bounds [OF n, of file_size m]
  define seg where "seg = (if ?eff > 0 \<and> file_size > 0 then file_size div word_of_nat ?eff else 0)"
  have weff: "unat (word_of_nat k :: u64) = k" if "k \<le> n" for k
    using that assms(2) by (simp add: usize_max_def unsigned_of_nat take_bit_nat_eq_self)
  have seg: "unat seg = ?fs div ?eff"
    using eff weff [of ?eff] by (auto simp: seg_def unat_div word_less_nat_alt)
  define c where "c i = (if i = ?eff then ?fs else i * unat seg)" for i
  have fits: "i * unat seg \<le> ?fs" if "i \<le> ?eff" for i
  proof -
    have "i * unat seg \<le> ?eff * (?fs div ?eff)"
      using that by (simp add: seg)
    also have "\<dots> \<le> ?fs"
      by simp
    finally show ?thesis .
  qed
  define task where "task i = (if i < ?eff then
      st_new (word_of_nat i * seg) (if i = ?eff - 1 then file_size else (word_of_nat i + 1) * seg)
    else st_new 0 0)" for i
  have s: "sc_tasks s = map task [0..<n]"
    using assms(1) n unfolding task_def seg_def by (auto simp: sched_new_def Let_def)
  have mult: "unat (word_of_nat i * seg) = i * unat seg" if "i \<le> ?eff" for i
    using fits [OF that] weff [of i] that eff(2) unat_less_exp [of file_size]
    by (simp add: unat_word_ariths order_le_less_trans)
  have span: "task_span (task i) = (c i, c (Suc i))" if "i < ?eff" for i
    using that mult [of i] mult [of "Suc i"] by (auto simp: task_span_def task_def st_new_def c_def add.commute)
  have "task_span (task i) = (0, 0)" if "\<not> i < ?eff" for i
    using that by (simp add: task_span_def task_def st_new_def)
  moreover have "[0..<n] = [0..<?eff] @ [?eff..<n]"
    using upt_add_eq_append [of 0 ?eff "n - ?eff"] eff by simp
  ultimately have "map task_span (sc_tasks s) = map (\<lambda>i. (c i, c (Suc i))) [0..<?eff]
      @ map (\<lambda>i. (0, 0)) [?eff..<n]"
    using span by (simp add: s)
  moreover have "hits (map (\<lambda>i. (0, 0)) ks) x = 0" for ks :: "nat list"
    by (simp add: hits_def)
  moreover have "c i \<le> c (Suc i)" if "i < ?eff" for i
    using that fits [of i] by (auto simp: c_def)
  then have "hits (map (\<lambda>i. (c i, c (Suc i))) [0..<?eff]) x = hits [(c 0, c ?eff)] x"
    using hits_consecutive [of ?eff c x] by blast
  ultimately show ?thesis
    using eff by (simp add: c_def)
qed

section \<open>Properties\<close>

text \<open>
  C18: In every interleaving of the owner and any number of thieves, the steals share the range out
  without gap or overlap: each byte of the task is either below the end that is left to the owner or in
  exactly one of the stolen ranges. The owner's progress may come at any moment, as long as its start
  does not run past the largest offset.
\<close>
theorem steals_share_out_range:
  assumes "a \<le> b" and "unat a + sum_list (map advanced events) < 2 ^ 64"
  shows "hits ((unat a, unat (st_end (ss_task (fold (steal_step m) events (steal_init a b thieves)))))
      # map span_of (ss_stolen (fold (steal_step m) events (steal_init a b thieves)))) x
    = hits [(unat a, unat b)] x"
proof -
  have "steal_inv a b (steal_init a b thieves)"
    using assms(1) by (simp add: steal_inv_def steal_init_def st_new_def)
  from steal_inv_fold [OF this] assms(2) show ?thesis
    by (simp add: steal_init_def st_new_def steal_inv_def)
qed

theorem steals_share_out_range_witness:
  "hits ((0, unat (st_end (ss_task (fold (steal_step 1)
      [ThiefStep 0, ThiefStep 1, ThiefStep 0, OwnerAdvance 7, ThiefStep 1, ThiefStep 1, ThiefStep 0]
      (steal_init 0 100 2)))))
    # map span_of (ss_stolen (fold (steal_step 1)
      [ThiefStep 0, ThiefStep 1, ThiefStep 0, OwnerAdvance 7, ThiefStep 1, ThiefStep 1, ThiefStep 0]
      (steal_init 0 100 2)))) 60 = 1"
  using steals_share_out_range [where a = 0 and b = 100 and m = 1 and thieves = 2 and x = 60 and
      events = "[ThiefStep 0, ThiefStep 1, ThiefStep 0, OwnerAdvance 7, ThiefStep 1, ThiefStep 1,
        ThiefStep 0]"]
  by (simp add: hits_Cons [of 0 100 "[]"])

text \<open>
  A steal takes from the owner bytes it has already downloaded. The thief loads the start once,
  and its compare-exchange only looks at the end: when the owner passes the midpoint in between, the
  steal succeeds, the stolen range begins below the owner's position, and those bytes are downloaded
  twice, which the scheduler's guarantees exclude.
\<close>
theorem steal_races_with_owner:
  "let s = fold (steal_step 1) [ThiefStep 0, ThiefStep 0, OwnerAdvance 80, ThiefStep 0] (steal_init 0 100 1)
   in ss_stolen s = [(50, 100)] \<and> st_start (ss_task s) = 80 \<and> st_end (ss_task s) = 50
      \<and> ss_thieves s = [Finished (Some (50, 100))]"
  by (simp add: steal_init_def st_new_def get_at_def split_point_def midpoint_of_def sat_sub_def sat_add_def
      sat_mul_def st_advance_def Let_def max_def min_def word_le_nat_alt)

text \<open>
  A steal succeeds exactly when at least twice the minimum chunk, and two bytes, remain; it then
  leaves both sides something. The minimum holds for the range that is split and not for what the thief
  gets: rounding the midpoint up to a chunk boundary can leave the thief a single byte.
\<close>
theorem steal_succeeds_iff:
  "(fst (st_steal m t) \<noteq> None \<longleftrightarrow> max (sat_mul m 2) 2 \<le> st_remaining t)
   \<and> (case st_steal m t of
        (None, t') \<Rightarrow> t' = t
      | (Some (mid, e), t') \<Rightarrow> st_start t < mid \<and> mid < e \<and> e = st_end t
          \<and> t' = \<lparr>st_start = st_start t, st_end = mid\<rparr>)
   \<and> fst (st_steal 100 (st_new 1 201)) = Some (200, 201)"
proof (intro conjI)
  show "fst (st_steal m t) \<noteq> None \<longleftrightarrow> max (sat_mul m 2) 2 \<le> st_remaining t"
    using split_point_None_iff [of m "st_end t" "st_start t"]
    by (auto simp: st_steal_def st_remaining_def not_less simp del: max.bounded_iff split: option.split)
  show "case st_steal m t of (None, t') \<Rightarrow> t' = t
      | (Some (mid, e), t') \<Rightarrow> st_start t < mid \<and> mid < e \<and> e = st_end t
          \<and> t' = \<lparr>st_start = st_start t, st_end = mid\<rparr>"
    by (auto simp: st_steal_def dest: split_point_between split: option.split)
  show "fst (st_steal 100 (st_new 1 201)) = Some (200, 201)"
    by (simp add: st_steal_def st_new_def split_point_def midpoint_of_def sat_sub_def sat_add_def
        sat_mul_def Let_def max_def min_def word_le_nat_alt)
qed

text \<open>
  The scheduler never loses or duplicates a byte when its operations do not overlap: after any
  history of steals and of progress inside a task, every byte of the file is in exactly one place, the
  remaining range of one task, one stolen range, or one written range, and no byte past the end of the
  file is anywhere.
\<close>
theorem scheduler_shares_out_file:
  assumes "sched_new file_size thread_count m = Some s" and "thread_count \<le> usize_max"
  shows "hits (ledger_spans (fold ledger_step ops \<lparr>le_sched = s, le_stolen = [], le_written = []\<rparr>)) x
    = (if x < unat file_size then 1 else 0)"
proof -
  have "hits (ledger_spans (fold ledger_step ops l)) x = hits (ledger_spans l) x" for l
    by (induction ops arbitrary: l) (simp_all add: ledger_step_spans)
  then show ?thesis
    using sched_new_spans [OF assms, of x] by (simp add: ledger_spans_def hits_Cons)
qed

theorem scheduler_shares_out_file_witness:
  "\<exists>s. sched_new 1000 3 100 = Some s
    \<and> hits (ledger_spans (fold ledger_step [Written 0 50, StealFor 2, Written 1 7]
        \<lparr>le_sched = s, le_stolen = [], le_written = []\<rparr>)) 999 = 1"
proof -
  obtain s where s: "sched_new 1000 3 100 = Some s"
    by (simp add: sched_new_def Let_def)
  from scheduler_shares_out_file [OF s, where x = 999
      and ops = "[Written 0 50, StealFor 2, Written 1 7]"] s show ?thesis
    by (simp add: usize_max_def)
qed

end
