(* ===== verification/Workshop.thy ===== *)
theory Workshop
  imports Decimal "HOL-Library.Mapping"
begin

text \<open>
  The identities of the Workshop, \<open>crates/workshop-core/src\<close>: \<open>ResourceId\<close> and
  \<open>ResourceVersion\<close> (\<open>resource.rs\<close>), \<open>BlobId\<close> and the content-addressed store (\<open>blob.rs\<close>), the
  manifest (\<open>manifest.rs\<close>) and the errors (\<open>error.rs\<close>); and the registry index of
  \<open>crates/workshop-registry/src/lib.rs\<close> with its sharded paths, version parser and conversion.

  A \<open>String\<close> is its UTF-8 bytes; \<open>ascii\<close> turns a literal into bytes. SHA-256 is the parameter
  \<open>sha256\<close>, and JSON (crate \<open>serde_json\<close>) stays outside.
\<close>

section \<open>Strings\<close>

text \<open>\<open>str::get(a..b)\<close>: both ends have to be in range and on a character boundary.\<close>

definition char_boundary :: "bytes \<Rightarrow> nat \<Rightarrow> bool" where
  "char_boundary s i \<longleftrightarrow> i = length s \<or> (i < length s \<and> \<not> utf8_cont (s ! i))"

definition str_get :: "bytes \<Rightarrow> nat \<Rightarrow> nat \<Rightarrow> bytes option" where
  "str_get s a b =
     (if a \<le> b \<and> char_boundary s a \<and> char_boundary s b then get_range s a b else None)"

text \<open>The part before the first separator, and what follows it when there is one.\<close>

fun split_once :: "u8 \<Rightarrow> bytes \<Rightarrow> bytes \<times> bytes option" where
  "split_once sep [] = ([], None)"
| "split_once sep (b # bs) =
     (if b = sep then ([], Some bs)
      else case split_once sep bs of (x, r) \<Rightarrow> (b # x, r))"

section \<open>Errors\<close>

datatype workshop_error =
  InvalidIdentifier bytes bytes bytes
| IntegrityMismatch bytes bytes bytes
| NotFound bytes
| VersionNotFound bytes bytes
| IndexFailure bytes
| BlobStoreFailure bytes
| WsIo bytes bytes
| ManifestParse bytes
| AllSourcesFailed nat bytes
| InvalidSignature bytes bytes
| StaleAnnouncement bytes u64 u64
| FutureTimestamp u64 u64 u64
| SequenceJumpTooLarge bytes u64 u64 u64
| RateLimitExceeded bytes u64 u64 u64
| PublisherRevoked bytes bytes

text \<open>
  The messages of the errors. The dash, the arrow and the comparison sign are their UTF-8 bytes.
\<close>

definition n64 :: "u64 \<Rightarrow> bytes" where
  "n64 n = nat_to_string (unat n)"

fun workshop_error_display :: "workshop_error \<Rightarrow> bytes" where
  "workshop_error_display (InvalidIdentifier f v r) =
     ascii ''invalid '' @ f @ ascii '': '' @ [34] @ v @ [34, 32, 226, 128, 148, 32] @ r"
| "workshop_error_display (IntegrityMismatch p e a) =
     ascii ''integrity check failed for '' @ p @ ascii '': expected '' @ e @ ascii '', got '' @ a"
| "workshop_error_display (NotFound i) = ascii ''resource not found: '' @ i"
| "workshop_error_display (VersionNotFound i v) =
     ascii ''version '' @ v @ ascii '' not found for '' @ i"
| "workshop_error_display (IndexFailure d) = ascii ''index error: '' @ d"
| "workshop_error_display (BlobStoreFailure d) = ascii ''blob store error: '' @ d"
| "workshop_error_display (WsIo p e) = ascii ''I/O error at '' @ p @ ascii '': '' @ e"
| "workshop_error_display (ManifestParse d) = ascii ''manifest parse error: '' @ d"
| "workshop_error_display (AllSourcesFailed n e) =
     ascii ''all '' @ nat_to_string n @ ascii '' index sources failed; last error: '' @ e"
| "workshop_error_display (InvalidSignature p r) =
     ascii ''invalid signature on announcement from '' @ p @ ascii '' for '' @ r"
| "workshop_error_display (StaleAnnouncement r received known) =
     ascii ''stale announcement for '' @ r @ ascii '': sequence '' @ n64 received
       @ [32, 226, 137, 164] @ ascii '' known '' @ n64 known"
| "workshop_error_display (FutureTimestamp t d m) =
     ascii ''announcement timestamp '' @ n64 t @ ascii '' is '' @ n64 d
       @ ascii ''s ahead of local time (max '' @ n64 m @ ascii ''s)''"
| "workshop_error_display (SequenceJumpTooLarge r old_seq new_seq max_jump) =
     ascii ''suspicious sequence jump for '' @ r @ ascii '': '' @ n64 old_seq
       @ [32, 226, 134, 146, 32] @ n64 new_seq @ ascii '' (max jump '' @ n64 max_jump @ ascii '')''"
| "workshop_error_display (RateLimitExceeded p n w m) =
     ascii ''rate limit exceeded for '' @ p @ ascii '': '' @ n64 n @ ascii '' announcements in ''
       @ n64 w @ ascii ''s (max '' @ n64 m @ ascii '')''"
| "workshop_error_display (PublisherRevoked p r) =
     ascii ''publisher '' @ p @ ascii '' is revoked: '' @ r"

section \<open>Resource identity\<close>

definition MAX_SLUG_LEN :: nat where
  "MAX_SLUG_LEN = 64"

definition slug_byte :: "u8 \<Rightarrow> bool" where
  "slug_byte b \<longleftrightarrow> (97 \<le> b \<and> b \<le> 122) \<or> (48 \<le> b \<and> b \<le> 57) \<or> b = 45"

fun double_hyphen :: "bytes \<Rightarrow> bool" where
  "double_hyphen (a # b # rest) \<longleftrightarrow> (a = 45 \<and> b = 45) \<or> double_hyphen (b # rest)"
| "double_hyphen _ \<longleftrightarrow> False"

definition validate_slug :: "bytes \<Rightarrow> bytes \<Rightarrow> workshop_error + unit" where
  "validate_slug slug field =
     (let invalid = (\<lambda>reason. Inl (InvalidIdentifier field slug (ascii reason))) in
      if slug = [] then invalid ''must not be empty''
      else if length slug > MAX_SLUG_LEN then invalid ''exceeds maximum length of 64''
      else if \<not> list_all slug_byte slug then
        invalid ''must contain only lowercase ASCII letters, digits, and hyphens''
      else if hd slug = 45 \<or> last slug = 45 then invalid ''must not start or end with a hyphen''
      else if double_hyphen slug then invalid ''must not contain consecutive hyphens''
      else Inr ())"

record resource_id =
  rid_publisher :: bytes
  rid_name :: bytes

definition rid_new :: "bytes \<Rightarrow> bytes \<Rightarrow> workshop_error + resource_id" where
  "rid_new publisher nam =
     and_then (validate_slug publisher (ascii ''publisher'')) (\<lambda>_.
     and_then (validate_slug nam (ascii ''name'')) (\<lambda>_.
     Inr \<lparr>rid_publisher = publisher, rid_name = nam\<rparr>))"

definition rid_display :: "resource_id \<Rightarrow> bytes" where
  "rid_display r = rid_publisher r @ 47 # rid_name r"

record resource_version =
  rv_major :: u32
  rv_minor :: u32
  rv_patch :: u32

definition rv_display :: "resource_version \<Rightarrow> bytes" where
  "rv_display v =
     nat_to_string (unat (rv_major v)) @ 46 # nat_to_string (unat (rv_minor v))
       @ 46 # nat_to_string (unat (rv_patch v))"

record dependency =
  dp_id :: resource_id
  dp_version_req :: bytes
  dp_optional :: bool

datatype channel = Dev | Beta | Release

fun channel_display :: "channel \<Rightarrow> bytes" where
  "channel_display Dev = ascii ''dev''"
| "channel_display Beta = ascii ''beta''"
| "channel_display Release = ascii ''release''"

section \<open>Blobs\<close>

text \<open>A \<open>BlobId\<close> is its 32 bytes. \<open>{b:02x}\<close> prints two lowercase hexadecimal digits.\<close>

type_synonym blob_id = bytes

definition hex_char :: "u8 \<Rightarrow> u8" where
  "hex_char n = (if n < 10 then 48 + n else 87 + n)"

definition to_hex :: "bytes \<Rightarrow> bytes" where
  "to_hex bs = concat (map (\<lambda>b. [hex_char (b div 16), hex_char (b mod 16)]) bs)"

definition hex_value :: "u8 \<Rightarrow> u8 option" where
  "hex_value c =
     (if 48 \<le> c \<and> c \<le> 57 then Some (c - 48)
      else if 97 \<le> c \<and> c \<le> 102 then Some (c - 87)
      else if 65 \<le> c \<and> c \<le> 70 then Some (c - 55)
      else None)"

text \<open>
  \<open>u8::from_str_radix(pair, 16)\<close> on two characters: as for every integer parser of the standard
  library a leading plus sign is accepted.
\<close>

definition parse_hex_pair :: "u8 \<Rightarrow> u8 \<Rightarrow> u8 option" where
  "parse_hex_pair a b =
     (if a = 43 then hex_value b
      else case (hex_value a, hex_value b) of
             (Some x, Some y) \<Rightarrow> Some (16 * x + y)
           | _ \<Rightarrow> None)"

fun parse_hex_pairs :: "bytes \<Rightarrow> bytes option" where
  "parse_hex_pairs (a # b # rest) =
     (case (parse_hex_pair a b, parse_hex_pairs rest) of
        (Some x, Some xs) \<Rightarrow> Some (x # xs)
      | _ \<Rightarrow> None)"
| "parse_hex_pairs _ = Some []"

definition blob_from_hex :: "bytes \<Rightarrow> blob_id option" where
  "blob_from_hex hex = (if length hex \<noteq> 64 then None else parse_hex_pairs hex)"

definition blob_shard_prefix :: "blob_id \<Rightarrow> bytes \<times> bytes" where
  "blob_shard_prefix i =
     (let hex = to_hex i in
      (case str_get hex 0 2 of None \<Rightarrow> ascii ''00'' | Some x \<Rightarrow> x,
       case str_get hex 2 4 of None \<Rightarrow> ascii ''00'' | Some x \<Rightarrow> x))"

text \<open>\<open>MemoryBlobStore\<close>, with the entries of the hash map in a list.\<close>

type_synonym blob_store = "(blob_id \<times> bytes) list"

record gc_stats =
  gc_removed :: u64
  gc_bytes_freed :: u64
  gc_retained :: u64

definition bs_put :: "(bytes \<Rightarrow> bytes) \<Rightarrow> bytes \<Rightarrow> blob_store \<Rightarrow> blob_id \<times> blob_store" where
  "bs_put sha256 data bs =
     (let i = sha256 data in (i, if map_of bs i = None then bs @ [(i, data)] else bs))"

definition bs_get :: "blob_id \<Rightarrow> blob_store \<Rightarrow> bytes option" where
  "bs_get i bs = map_of bs i"

definition bs_has :: "blob_id \<Rightarrow> blob_store \<Rightarrow> bool" where
  "bs_has i bs \<longleftrightarrow> map_of bs i \<noteq> None"

definition bs_gc :: "blob_id list \<Rightarrow> blob_store \<Rightarrow> gc_stats \<times> blob_store" where
  "bs_gc referenced bs =
     (let before = word_of_nat (length bs);
          kept = filter (\<lambda>(i, data). i \<in> set referenced) bs;
          bytes_freed = fold (\<lambda>(i, data) freed.
            if i \<in> set referenced then freed else sat_add freed (word_of_nat (length data))) bs 0;
          retained = word_of_nat (length kept)
      in (\<lparr>gc_removed = sat_sub before retained, gc_bytes_freed = bytes_freed, gc_retained = retained\<rparr>,
          kept))"

section \<open>Manifests\<close>

record package_manifest =
  mf_id :: resource_id
  mf_version :: resource_version
  mf_blob_id :: blob_id
  mf_size :: u64
  mf_info_hash :: "bytes option"
  mf_web_seeds :: "bytes list"
  mf_download_urls :: "bytes list"
  mf_dependencies :: "dependency list"
  mf_channel :: channel
  mf_categories :: "bytes list"

definition mf_new :: "resource_id \<Rightarrow> resource_version \<Rightarrow> blob_id \<Rightarrow> u64 \<Rightarrow> package_manifest" where
  "mf_new i v b n =
     \<lparr>mf_id = i, mf_version = v, mf_blob_id = b, mf_size = n, mf_info_hash = None,
      mf_web_seeds = [], mf_download_urls = [], mf_dependencies = [], mf_channel = Release,
      mf_categories = []\<rparr>"

definition mf_with_info_hash :: "bytes \<Rightarrow> package_manifest \<Rightarrow> package_manifest" where
  "mf_with_info_hash x m = m\<lparr>mf_info_hash := Some x\<rparr>"

definition mf_with_web_seeds :: "bytes list \<Rightarrow> package_manifest \<Rightarrow> package_manifest" where
  "mf_with_web_seeds x m = m\<lparr>mf_web_seeds := x\<rparr>"

definition mf_with_download_urls :: "bytes list \<Rightarrow> package_manifest \<Rightarrow> package_manifest" where
  "mf_with_download_urls x m = m\<lparr>mf_download_urls := x\<rparr>"

definition mf_with_channel :: "channel \<Rightarrow> package_manifest \<Rightarrow> package_manifest" where
  "mf_with_channel x m = m\<lparr>mf_channel := x\<rparr>"

definition mf_with_dependencies :: "dependency list \<Rightarrow> package_manifest \<Rightarrow> package_manifest" where
  "mf_with_dependencies x m = m\<lparr>mf_dependencies := x\<rparr>"

definition mf_with_categories :: "bytes list \<Rightarrow> package_manifest \<Rightarrow> package_manifest" where
  "mf_with_categories x m = m\<lparr>mf_categories := x\<rparr>"

section \<open>The registry index\<close>

datatype registry_error =
  RegParse nat bytes
| RegSerialize bytes
| RegInvalidPackageName bytes bytes
| RegInvalidVersion bytes
| RegInvalidChecksum bytes
| RegIo bytes

fun registry_error_display :: "registry_error \<Rightarrow> bytes" where
  "registry_error_display (RegParse n m) =
     ascii ''parse error on line '' @ nat_to_string n @ ascii '': '' @ m"
| "registry_error_display (RegSerialize m) = ascii ''serialization error: '' @ m"
| "registry_error_display (RegInvalidPackageName n r) =
     ascii ''invalid package name `'' @ n @ ascii ''`: '' @ r"
| "registry_error_display (RegInvalidVersion v) = ascii ''invalid version `'' @ v @ ascii ''`''"
| "registry_error_display (RegInvalidChecksum c) = ascii ''invalid checksum `'' @ c @ ascii ''`''"
| "registry_error_display (RegIo m) = ascii ''index I/O error: '' @ m"

record registry_dep =
  rd_name :: bytes
  rd_publisher :: bytes
  rd_req :: bytes
  rd_source :: bytes
  rd_optional :: bool
  rd_default_features :: bool
  rd_features :: "bytes list"

record registry_entry =
  re_name :: bytes
  re_vers :: bytes
  re_publisher :: bytes
  re_deps :: "registry_dep list"
  re_cksum :: bytes
  re_manifest_hash :: bytes
  re_features :: "(bytes, bytes list) mapping"
  re_yanked :: bool
  re_links :: "bytes option"

definition re_full_name :: "registry_entry \<Rightarrow> bytes" where
  "re_full_name e = re_publisher e @ 47 # re_name e"

definition index_shard_path :: "bytes \<Rightarrow> bytes \<Rightarrow> registry_error + bytes" where
  "index_shard_path publisher nam =
     (if nam = [] then Inl (RegInvalidPackageName nam (ascii ''package name cannot be empty''))
      else if publisher = [] then Inl (RegInvalidPackageName publisher (ascii ''publisher cannot be empty''))
      else
        let n = length nam; tail = publisher @ 47 # nam in
        Inr (if n = 1 then 49 # 47 # tail
             else if n = 2 then 50 # 47 # tail
             else if n = 3 then 51 # 47 # tail
             else
               let first2 = (case str_get nam 0 2 of None \<Rightarrow> nam | Some x \<Rightarrow> x);
                   next2 = (case str_get nam 2 4 of
                      Some x \<Rightarrow> x
                    | None \<Rightarrow> (case str_get nam 2 n of None \<Rightarrow> [] | Some x \<Rightarrow> x))
               in first2 @ 47 # next2 @ 47 # tail))"

definition parse_u32 :: "bytes \<Rightarrow> u32 option" where
  "parse_u32 s = map_option word_of_nat (parse_unsigned (2 ^ 32 - 1) s)"

definition parse_resource_version :: "bytes \<Rightarrow> registry_error + resource_version" where
  "parse_resource_version s =
     (let err = RegInvalidVersion s;
          (major_str, rest1) = split_once 46 s
      in and_then (ok_or rest1 err) (\<lambda>rest1.
         let (minor_str, rest2) = split_once 46 rest1 in
         and_then (ok_or rest2 err) (\<lambda>rest2.
         let (patch_and_pre, _) = split_once 46 rest2 in
         and_then (ok_or (parse_u32 major_str) err) (\<lambda>major.
         and_then (ok_or (parse_u32 minor_str) err) (\<lambda>minor.
         let (patch_str, _) = split_once 45 patch_and_pre in
         and_then (ok_or (parse_u32 patch_str) err) (\<lambda>patch.
         Inr \<lparr>rv_major = major, rv_minor = minor, rv_patch = patch\<rparr>))))))"

definition strip_prefix :: "bytes \<Rightarrow> bytes \<Rightarrow> bytes" where
  "strip_prefix pre s = (if take (length pre) s = pre then drop (length pre) s else s)"

definition to_package_manifest :: "registry_entry \<Rightarrow> registry_error + package_manifest" where
  "to_package_manifest e =
     (case rid_new (re_publisher e) (re_name e) of
        Inl err \<Rightarrow> Inl (RegInvalidPackageName (re_full_name e) (workshop_error_display err))
      | Inr i \<Rightarrow>
          and_then (parse_resource_version (re_vers e)) (\<lambda>version.
          let hash_hex = strip_prefix (ascii ''sha256:'') (re_cksum e) in
          and_then (ok_or (blob_from_hex hash_hex) (RegInvalidChecksum (re_cksum e))) (\<lambda>blob.
          let deps = List.map_filter (\<lambda>d.
                case rid_new (rd_publisher d) (rd_name d) of
                  Inl _ \<Rightarrow> None
                | Inr dep_id \<Rightarrow> Some \<lparr>dp_id = dep_id, dp_version_req = rd_req d,
                                       dp_optional = rd_optional d\<rparr>) (re_deps e)
          in Inr (mf_with_dependencies deps (mf_new i version blob 0)))))"

text \<open>\<open>MemoryRegistry\<close>, the in-memory index.\<close>

type_synonym memory_registry = "(bytes, registry_entry list) mapping"

definition mr_new :: memory_registry where
  "mr_new = Mapping.empty"

definition mr_add :: "registry_entry \<Rightarrow> memory_registry \<Rightarrow> memory_registry" where
  "mr_add e m =
     (let key = re_full_name e
      in Mapping.update key (Mapping.lookup_default [] m key @ [e]) m)"

definition mr_entry_count :: "memory_registry \<Rightarrow> nat" where
  "mr_entry_count m = (\<Sum>k \<in> Mapping.keys m. length (Mapping.lookup_default [] m k))"

definition mr_versions :: "memory_registry \<Rightarrow> resource_id \<Rightarrow> registry_error + registry_entry list" where
  "mr_versions m i = Inr (Mapping.lookup_default [] m (rid_display i))"

text \<open>The provided methods of the trait \<open>RegistryReader\<close>.\<close>

definition reader_version ::
  "(resource_id \<Rightarrow> registry_error + registry_entry list) \<Rightarrow> resource_id \<Rightarrow> bytes
    \<Rightarrow> registry_error + registry_entry option" where
  "reader_version versions i v =
     and_then (versions i) (\<lambda>es. Inr (find (\<lambda>e. re_vers e = v) es))"

definition reader_exists ::
  "(resource_id \<Rightarrow> registry_error + registry_entry list) \<Rightarrow> resource_id \<Rightarrow> registry_error + bool" where
  "reader_exists versions i = and_then (versions i) (\<lambda>es. Inr (es \<noteq> []))"

section \<open>Hexadecimal identities\<close>

lemma hex_digit_value:
  assumes "n < 16"
  shows "hex_value (hex_char n) = Some n" and "hex_char n \<noteq> 43"
proof -
  have n: "unat n < 16"
    using assms by (simp add: word_less_nat_alt)
  have digit: "unat (48 + n) = 48 + unat n" and letter: "unat (87 + n) = 87 + unat n"
    using n by (simp_all add: unat_word_ariths)
  have ten: "n < 10 \<longleftrightarrow> unat n < 10"
    by (simp add: word_less_nat_alt)
  show "hex_value (hex_char n) = Some n"
    using n by (auto simp: hex_char_def hex_value_def ten word_le_nat_alt digit letter)
  have "unat (hex_char n) \<noteq> unat (43 :: u8)"
    using n by (simp add: hex_char_def digit letter)
  then show "hex_char n \<noteq> 43"
    by metis
qed

lemma hex_halves:
  fixes b :: u8
  shows "b div 16 < 16" and "b mod 16 < 16" and "16 * (b div 16) + b mod 16 = b"
proof -
  have "unat b < 256"
    using unat_less_exp [of b] by simp
  then show "b div 16 < 16"
    by (simp add: word_less_nat_alt unat_div)
  show "b mod 16 < 16"
    by (simp add: word_less_nat_alt unat_mod)
  show "16 * (b div 16) + b mod 16 = b"
    by (rule mult_div_mod_eq)
qed

lemma parse_hex_pair_print:
  "parse_hex_pair (hex_char (b div 16)) (hex_char (b mod 16)) = Some b"
  using hex_halves [of b] by (simp add: parse_hex_pair_def hex_digit_value)

lemma length_to_hex [simp]: "length (to_hex bs) = 2 * length bs"
  by (induction bs) (auto simp: to_hex_def)

lemma parse_hex_pairs_print: "parse_hex_pairs (to_hex bs) = Some bs"
proof (induction bs)
  case Nil
  show ?case by (simp add: to_hex_def)
next
  case (Cons b bs)
  then have "parse_hex_pairs (concat (map (\<lambda>b. [hex_char (b div 16), hex_char (b mod 16)]) bs)) = Some bs"
    by (simp add: to_hex_def)
  then show ?case
    by (simp add: to_hex_def parse_hex_pair_print)
qed

lemma parse_hex_pairs_Some:
  "length h = 2 * n \<Longrightarrow>
   parse_hex_pairs h = Some i \<longleftrightarrow>
     length i = n \<and> (\<forall>k < n. parse_hex_pair (h ! (2 * k)) (h ! (2 * k + 1)) = Some (i ! k))"
proof (induction n arbitrary: h i)
  case 0
  then show ?case by auto
next
  case (Suc n)
  then obtain a b rest where h: "h = a # b # rest" "length rest = 2 * n"
    by (cases h; cases "tl h") auto
  note IH = Suc.IH [OF h(2)]
  show ?case
  proof (cases i)
    case Nil
    then show ?thesis by (simp add: h split: option.splits)
  next
    case (Cons x xs)
    have "parse_hex_pairs h = Some i \<longleftrightarrow> parse_hex_pair a b = Some x \<and> parse_hex_pairs rest = Some xs"
      by (auto simp: h Cons split: option.splits)
    then show ?thesis
      by (simp add: IH Cons h less_Suc_eq_0_disj) (auto simp: h)
  qed
qed

text \<open>
  \<open>BlobId::from_hex\<close> inverts \<open>to_hex\<close>, and it is exact: it returns an identity precisely for 64
  bytes whose 32 pairs all parse, the bytes of the identity being the values of the pairs. A
  leading plus sign is a valid pair, so the text \<open>+f\<close> repeated is accepted although it does not
  consist of hexadecimal digits.
\<close>

theorem blob_hex_exact:
  "blob_from_hex (to_hex j) = (if length j = 32 then Some j else None) \<and>
   (blob_from_hex h = Some i \<longleftrightarrow>
     length h = 64 \<and>
     list_all2 (\<lambda>k x. parse_hex_pair (h ! (2 * k)) (h ! (2 * k + 1)) = Some x) [0..<32] i) \<and>
   blob_from_hex (concat (replicate 32 (ascii ''+f''))) = Some (replicate 32 15)"
proof (intro conjI)
  show "blob_from_hex (to_hex j) = (if length j = 32 then Some j else None)"
    by (simp add: blob_from_hex_def parse_hex_pairs_print)
  show "blob_from_hex h = Some i \<longleftrightarrow>
     length h = 64 \<and>
     list_all2 (\<lambda>k x. parse_hex_pair (h ! (2 * k)) (h ! (2 * k + 1)) = Some x) [0..<32] i"
    using parse_hex_pairs_Some [of h 32 i]
    by (auto simp: blob_from_hex_def list_all2_conv_all_nth)
  show "blob_from_hex (concat (replicate 32 (ascii ''+f''))) = Some (replicate 32 15)"
    by code_simp
qed

section \<open>Versions\<close>

lemma split_once_append: "sep \<notin> set xs \<Longrightarrow> split_once sep (xs @ sep # ys) = (xs, Some ys)"
  by (induction xs) auto

lemma split_once_none: "sep \<notin> set xs \<Longrightarrow> split_once sep xs = (xs, None)"
  by (induction xs) auto

lemma printed_no_sep: "\<not> is_digit c \<Longrightarrow> c \<notin> set (nat_to_string n)"
  using nat_to_string_digits [of n] by auto

lemma parse_u32_print: "parse_u32 (nat_to_string (unat v)) = Some v"
  using unat_less_exp [of v] by (simp add: parse_u32_def parse_unsigned_nat_to_string)

lemma separators: "\<not> is_digit 46" "\<not> is_digit 45" "\<not> is_digit 43"
  by (simp_all add: is_digit_def)

text \<open>
  a displayed version parses back to itself, and so does a version with a pre-release suffix
  or with a fourth component appended, which the parser drops. Two components are an error that
  names the input.
\<close>

theorem version_roundtrip:
  "parse_resource_version (rv_display v) = Inr v \<and>
   parse_resource_version (rv_display v @ 45 # pre) = Inr v \<and>
   parse_resource_version (rv_display v @ 46 # tail) = Inr v \<and>
   parse_resource_version (nat_to_string m @ 46 # nat_to_string n)
     = Inl (RegInvalidVersion (nat_to_string m @ 46 # nat_to_string n))"
proof (intro conjI)
  note printed = split_once_append split_once_none printed_no_sep separators parse_u32_print
  show "parse_resource_version (rv_display v) = Inr v"
    by (simp add: parse_resource_version_def rv_display_def printed)
  show "parse_resource_version (rv_display v @ 46 # tail) = Inr v"
    by (simp add: parse_resource_version_def rv_display_def printed)
  show "parse_resource_version (nat_to_string m @ 46 # nat_to_string n)
     = Inl (RegInvalidVersion (nat_to_string m @ 46 # nat_to_string n))"
    by (simp add: parse_resource_version_def printed)
  obtain x r where cut: "split_once 46 (45 # pre) = (45 # x, r)"
    by (cases "split_once 46 pre") auto
  have "sep \<notin> set xs \<Longrightarrow> split_once sep (xs @ ys) = (xs @ fst (split_once sep ys), snd (split_once sep ys))"
    for sep :: u8 and xs ys
    by (induction xs) (auto split: prod.splits)
  note this [of 46 "nat_to_string (unat (rv_patch v))" "45 # pre"]
  then have "split_once 46 (nat_to_string (unat (rv_patch v)) @ 45 # pre)
      = (nat_to_string (unat (rv_patch v)) @ 45 # x, r)"
    using cut by (simp add: printed)
  then show "parse_resource_version (rv_display v @ 45 # pre) = Inr v"
    by (simp add: parse_resource_version_def rv_display_def printed)
qed

section \<open>The blob store\<close>

datatype blob_op = Put bytes | Gc "blob_id list"

fun blob_step :: "(bytes \<Rightarrow> bytes) \<Rightarrow> blob_op \<Rightarrow> blob_store \<Rightarrow> blob_store" where
  "blob_step sha256 (Put data) bs = snd (bs_put sha256 data bs)"
| "blob_step sha256 (Gc ids) bs = snd (bs_gc ids bs)"

definition content_addressed :: "(bytes \<Rightarrow> bytes) \<Rightarrow> blob_store \<Rightarrow> bool" where
  "content_addressed sha256 bs \<longleftrightarrow> distinct (map fst bs) \<and> (\<forall>(i, data) \<in> set bs. i = sha256 data)"

lemma distinct_map_filter_fst: "distinct (map fst bs) \<Longrightarrow> distinct (map fst (filter P bs))"
  by (induction bs) auto

interpretation blobs: step_system "{[]}" "blob_step sha256" "content_addressed sha256"
proof unfold_locales
  fix s :: blob_store
  assume "s \<in> {[]}"
  then show "content_addressed sha256 s"
    by (simp add: content_addressed_def)
next
  fix s :: blob_store and op
  assume inv: "content_addressed sha256 s"
  show "content_addressed sha256 (blob_step sha256 op s)"
  proof (cases op)
    case (Put data)
    with inv show ?thesis
      by (auto simp: content_addressed_def bs_put_def Let_def map_of_eq_None_iff)
  next
    case (Gc ids)
    with inv show ?thesis
      by (auto simp: content_addressed_def bs_gc_def Let_def distinct_map_filter_fst)
  qed
qed

lemma map_of_filter_key: "map_of (filter (\<lambda>(i, data). i \<in> K) bs) j = (if j \<in> K then map_of bs j else None)"
  by (induction bs) auto

lemma freed_sum:
  fixes freed :: u64
  assumes "unat freed + sum_list (map (\<lambda>(i, data). length data) bs) < 2 ^ 64"
  shows "unat (fold (\<lambda>(i, data) freed. if i \<in> K then freed
                      else sat_add freed (word_of_nat (length data))) bs freed)
    = unat freed + sum_list (map (\<lambda>(i, data). length data) (filter (\<lambda>(i, data). i \<notin> K) bs))"
  using assms
proof (induction bs arbitrary: freed)
  case Nil
  then show ?case by simp
next
  case (Cons x bs)
  obtain i data where x: "x = (i, data)"
    by (cases x)
  have "unat (sat_add freed (word_of_nat (length data))) = unat freed + length data"
    using Cons.prems by (simp add: x unat_sat_add unsigned_of_nat take_bit_eq_mod)
  then show ?case
    using Cons.IH [of freed] Cons.IH [of "sat_add freed (word_of_nat (length data))"] Cons.prems
    by (simp add: x)
qed

lemma length_filter_split: "length (filter P xs) + length (filter (\<lambda>x. \<not> P x) xs) = length xs"
  by (rule sum_length_filter_compl)

text \<open>
  in every state the store reaches, a blob is stored once, under the digest of its bytes.
  Putting data makes its digest retrievable, as data with that digest, and changes no other
  identity; garbage collection keeps exactly the referenced blobs, and its statistics are the
  true counts and the true number of bytes freed.
\<close>

theorem blob_store_correct:
  assumes "reached {[]} (blob_step sha256) bs"
    and "length bs < 2 ^ 64" and "sum_list (map (\<lambda>(i, data). length data) bs) < 2 ^ 64"
  shows "distinct (map fst bs)"
    and "bs_get i bs = Some data \<Longrightarrow> i = sha256 data"
    and "fst (bs_put sha256 data bs) = sha256 data"
    and "\<exists>kept. bs_get (sha256 data) (snd (bs_put sha256 data bs)) = Some kept \<and> sha256 kept = sha256 data"
    and "i \<noteq> sha256 data \<Longrightarrow> bs_get i (snd (bs_put sha256 data bs)) = bs_get i bs"
    and "bs_get i (snd (bs_gc ids bs)) = (if i \<in> set ids then bs_get i bs else None)"
    and "unat (gc_retained (fst (bs_gc ids bs))) = length (filter (\<lambda>(i, data). i \<in> set ids) bs)"
    and "unat (gc_removed (fst (bs_gc ids bs))) = length (filter (\<lambda>(i, data). i \<notin> set ids) bs)"
    and "unat (gc_bytes_freed (fst (bs_gc ids bs)))
      = sum_list (map (\<lambda>(i, data). length data) (filter (\<lambda>(i, data). i \<notin> set ids) bs))"
proof -
  have inv: "content_addressed sha256 bs"
    using assms(1) by (rule blobs.reached_inv)
  then show "distinct (map fst bs)"
    by (simp add: content_addressed_def)
  show by_digest: "bs_get i bs = Some data \<Longrightarrow> i = sha256 data" for i data
    using inv by (auto simp: content_addressed_def bs_get_def dest: map_of_SomeD)
  show "fst (bs_put sha256 data bs) = sha256 data"
    by (simp add: bs_put_def Let_def)
  show "\<exists>kept. bs_get (sha256 data) (snd (bs_put sha256 data bs)) = Some kept \<and> sha256 kept = sha256 data"
    using by_digest [of "sha256 data"]
    by (cases "map_of bs (sha256 data)") (auto simp: bs_put_def Let_def bs_get_def map_add_def)
  show "i \<noteq> sha256 data \<Longrightarrow> bs_get i (snd (bs_put sha256 data bs)) = bs_get i bs"
    by (auto simp: bs_put_def Let_def bs_get_def map_add_def split: option.splits)
  show "bs_get i (snd (bs_gc ids bs)) = (if i \<in> set ids then bs_get i bs else None)"
    by (simp add: bs_gc_def Let_def bs_get_def map_of_filter_key)
  let ?kept = "filter (\<lambda>(i, data). i \<in> set ids) bs"
  have split: "length ?kept + length (filter (\<lambda>(i, data). i \<notin> set ids) bs) = length bs"
    using length_filter_split [of "\<lambda>(i, data). i \<in> set ids" bs] by (simp add: case_prod_unfold)
  have kept: "unat (word_of_nat (length ?kept) :: u64) = length ?kept"
    using split assms(2) by (simp add: unsigned_of_nat take_bit_eq_mod)
  then show "unat (gc_retained (fst (bs_gc ids bs))) = length ?kept"
    by (simp add: bs_gc_def Let_def)
  have "unat (word_of_nat (length bs) :: u64) = length bs"
    using assms(2) by (simp add: unsigned_of_nat take_bit_eq_mod)
  then show "unat (gc_removed (fst (bs_gc ids bs))) = length (filter (\<lambda>(i, data). i \<notin> set ids) bs)"
    using kept split by (simp add: bs_gc_def Let_def unat_sat_sub)
  show "unat (gc_bytes_freed (fst (bs_gc ids bs)))
      = sum_list (map (\<lambda>(i, data). length data) (filter (\<lambda>(i, data). i \<notin> set ids) bs))"
    using freed_sum [of 0 bs "set ids"] assms(3) by (simp add: bs_gc_def Let_def)
qed

theorem blob_store_correct_witness:
  "unat (gc_removed (fst (bs_gc [[1]] [([1], [1, 5]), ([2], [2])]))) = 1 \<and>
   unat (gc_bytes_freed (fst (bs_gc [[1]] [([1], [1, 5]), ([2], [2])]))) = 1"
proof -
  have "reached {[]} (blob_step (take 1)) (fold (blob_step (take 1)) [Put [1, 5], Put [2]] [])"
    by (rule reached_fold) simp
  also have "fold (blob_step (take 1)) [Put [1, 5], Put [2]] [] = [([1], [1, 5]), ([2], [2])]"
    by (simp add: bs_put_def Let_def)
  finally show ?thesis
    using blob_store_correct(8) [of "take 1" "[([1], [1, 5]), ([2], [2])]" "[[1]]"]
      blob_store_correct(9) [of "take 1" "[([1], [1, 5]), ([2], [2])]" "[[1]]"]
    by simp
qed

section \<open>Identities and paths\<close>

definition valid_slug :: "bytes \<Rightarrow> bool" where
  "valid_slug s \<longleftrightarrow>
     0 < length s \<and> length s \<le> 64 \<and> (\<forall>b \<in> set s. slug_byte b) \<and> hd s \<noteq> 45 \<and> last s \<noteq> 45 \<and>
     (\<forall>k. Suc k < length s \<longrightarrow> s ! k \<noteq> 45 \<or> s ! Suc k \<noteq> 45)"

lemma double_hyphen_iff: "double_hyphen s \<longleftrightarrow> (\<exists>k. Suc k < length s \<and> s ! k = 45 \<and> s ! Suc k = 45)"
proof (induction s rule: double_hyphen.induct)
  case (1 a b rest)
  have "(\<exists>k. P k) \<longleftrightarrow> P 0 \<or> (\<exists>k. P (Suc k))" for P :: "nat \<Rightarrow> bool"
    by (metis not0_implies_Suc)
  note this [of "\<lambda>k. Suc k < length (a # b # rest) \<and> (a # b # rest) ! k = 45 \<and> (a # b # rest) ! Suc k = 45"]
  then show ?case
    using 1 by simp
qed auto

lemma validate_slug_iff: "validate_slug s field = Inr () \<longleftrightarrow> valid_slug s"
  by (auto simp: validate_slug_def valid_slug_def Let_def MAX_SLUG_LEN_def list_all_iff
      double_hyphen_iff)

lemma rid_new_Inr:
  "rid_new p n = Inr r \<longleftrightarrow> valid_slug p \<and> valid_slug n \<and> r = \<lparr>rid_publisher = p, rid_name = n\<rparr>"
  by (auto simp: rid_new_def and_then_Inr validate_slug_iff)

lemma slug_no_slash: "valid_slug s \<Longrightarrow> 47 \<notin> set s"
  by (auto simp: valid_slug_def slug_byte_def)

lemma last_separator:
  fixes sep :: u8
  assumes "xs @ sep # ys = xs' @ sep # ys'" and "sep \<notin> set ys" and "sep \<notin> set ys'"
  shows "xs = xs' \<and> ys = ys'"
proof -
  have "rev ys @ sep # rev xs = rev ys' @ sep # rev xs'"
    using arg_cong [OF assms(1), of rev] by simp
  then have "(rev ys, Some (rev xs)) = (rev ys', Some (rev xs'))"
    using assms(2,3) by (metis split_once_append set_rev)
  then show ?thesis by simp
qed

definition valid_id :: "resource_id \<Rightarrow> bool" where
  "valid_id r \<longleftrightarrow> valid_slug (rid_publisher r) \<and> valid_slug (rid_name r)"

lemma rid_display_inject:
  assumes "valid_id r" and "valid_id r'" and "rid_display r = rid_display r'"
  shows "r = r'"
proof -
  have "rid_publisher r = rid_publisher r' \<and> rid_name r = rid_name r'"
    using assms(3) by (intro last_separator)
      (use assms(1,2) in \<open>auto simp: rid_display_def valid_id_def dest: slug_no_slash\<close>)
  then show ?thesis by simp
qed

lemma shard_path_tail:
  assumes "valid_slug n" and "valid_slug p" and "index_shard_path p n = Inr path"
  shows "\<exists>pre. path = pre @ 47 # p @ 47 # n"
proof -
  have some: "n \<noteq> []" "p \<noteq> []"
    using assms(1,2) by (auto simp: valid_slug_def)
  consider "length n = 1" | "length n = 2" | "length n = 3" | "length n \<notin> {1, 2, 3}"
    by auto
  then show ?thesis
  proof cases
    case 1
    with some assms(3) have "path = [49] @ 47 # p @ 47 # n"
      by (simp add: index_shard_path_def Let_def)
    then show ?thesis by blast
  next
    case 2
    with some assms(3) have "path = [50] @ 47 # p @ 47 # n"
      by (simp add: index_shard_path_def Let_def)
    then show ?thesis by blast
  next
    case 3
    with some assms(3) have "path = [51] @ 47 # p @ 47 # n"
      by (simp add: index_shard_path_def Let_def)
    then show ?thesis by blast
  next
    case 4
    obtain u v where "path = u @ 47 # v @ 47 # p @ 47 # n"
      using 4 some assms(3) unfolding index_shard_path_def Let_def
      by (simp only: if_False refl insert_iff empty_iff de_Morgan_disj simp_thms sum.inject) metis
    then have "path = (u @ 47 # v) @ 47 # p @ 47 # n"
      by simp
    then show ?thesis by blast
  qed
qed

text \<open>
  the constructor of \<open>ResourceId\<close> accepts exactly the pairs of valid slugs, and the sharded
  index path gives different identities different paths, so that no package's versions are ever
  read from another's file.
\<close>

theorem shard_path_injective:
  assumes "rid_new p n = Inr r" and "rid_new p' n' = Inr r'"
    and "index_shard_path p n = index_shard_path p' n'"
  shows "r = r' \<and> valid_slug p \<and> valid_slug n \<and> (\<exists>path. index_shard_path p n = Inr path)"
proof -
  have valid: "valid_slug p" "valid_slug n" "valid_slug p'" "valid_slug n'"
    using assms(1,2) by (simp_all add: rid_new_Inr)
  then have total: "\<exists>path. index_shard_path p n = Inr path"
    by (auto simp: index_shard_path_def valid_slug_def Let_def)
  then obtain path where path: "index_shard_path p n = Inr path"
    by blast
  obtain pre where pre: "path = (pre @ 47 # p) @ 47 # n"
    using shard_path_tail [OF valid(2,1) path] by auto
  obtain pre' where pre': "path = (pre' @ 47 # p') @ 47 # n'"
    using shard_path_tail [OF valid(4,3)] path assms(3) by auto
  have "pre @ 47 # p = pre' @ 47 # p' \<and> n = n'"
    by (rule last_separator) (use pre pre' valid slug_no_slash in auto)
  moreover from this have "pre = pre' \<and> p = p'"
    by (intro last_separator) (use valid slug_no_slash in auto)
  ultimately show ?thesis
    using assms(1,2) valid total by (simp add: rid_new_Inr)
qed

theorem shard_path_injective_witness:
  "valid_slug (ascii ''al'') \<and> (\<exists>path. index_shard_path (ascii ''al'') (ascii ''map'') = Inr path)"
proof -
  have new: "rid_new (ascii ''al'') (ascii ''map'')
      = Inr \<lparr>rid_publisher = ascii ''al'', rid_name = ascii ''map''\<rparr>"
    by code_simp
  show ?thesis
    using shard_path_injective [OF new new refl] by blast
qed

definition dependency_of :: "registry_dep \<Rightarrow> dependency" where
  "dependency_of d =
     \<lparr>dp_id = \<lparr>rid_publisher = rd_publisher d, rid_name = rd_name d\<rparr>,
      dp_version_req = rd_req d, dp_optional = rd_optional d\<rparr>"

definition well_named :: "registry_dep \<Rightarrow> bool" where
  "well_named d \<longleftrightarrow> valid_slug (rd_publisher d) \<and> valid_slug (rd_name d)"

lemma rid_new_split:
  "(case rid_new p n of Inl e \<Rightarrow> f e | Inr r \<Rightarrow> g r)
     = (if valid_slug p \<and> valid_slug n then g \<lparr>rid_publisher = p, rid_name = n\<rparr>
        else f (projl (rid_new p n)))"
  using rid_new_Inr [of p n "projr (rid_new p n)"] rid_new_Inr [of p n "\<lparr>rid_publisher = p, rid_name = n\<rparr>"]
  by (cases "rid_new p n") auto

lemma kept_dependencies:
  "List.map_filter (\<lambda>d. if valid_slug (rd_publisher d) \<and> valid_slug (rd_name d)
       then Some \<lparr>dp_id = \<lparr>rid_publisher = rd_publisher d, rid_name = rd_name d\<rparr>,
                  dp_version_req = rd_req d, dp_optional = rd_optional d\<rparr>
       else None) ds
   = map dependency_of (filter well_named ds)"
  by (induction ds) (auto simp: dependency_of_def well_named_def map_filter_simps)

text \<open>
  a registry entry converts to a manifest exactly when its publisher and name are slugs, its
  version parses and its checksum, without the \<open>sha256:\<close> prefix, is a blob identity; the manifest
  then carries these values, size 0, and the dependencies in order. A dependency whose publisher or
  name is no slug is left out without an error.
\<close>

theorem package_manifest_exact:
  "to_package_manifest e = Inr m \<longleftrightarrow>
     valid_slug (re_publisher e) \<and> valid_slug (re_name e) \<and>
     (\<exists>v b. parse_resource_version (re_vers e) = Inr v \<and>
        blob_from_hex (strip_prefix (ascii ''sha256:'') (re_cksum e)) = Some b \<and>
        m = mf_with_dependencies (map dependency_of (filter well_named (re_deps e)))
              (mf_new \<lparr>rid_publisher = re_publisher e, rid_name = re_name e\<rparr> v b 0))"
  by (auto simp: to_package_manifest_def rid_new_split and_then_Inr kept_dependencies Let_def)

end
