(* ===== verification/Index.thy ===== *)
theory Index
  imports Workshop
begin

text \<open>
  The package index of \<open>crates/workshop-core/src/index.rs\<close>: the trait \<open>IndexBackend\<close> as a record of
  operations, the in-memory index, and \<open>FailoverIndex\<close>, which asks its backends in order. The
  loop of the failover is shared with \<open>FailoverDiscovery\<close> (theory \<open>Announce\<close>).
\<close>

section \<open>Failover\<close>

text \<open>The loop over the sources: the first success is returned, the last error is kept.\<close>

fun first_ok :: "('s \<Rightarrow> 'e + 'a) \<Rightarrow> 's list \<Rightarrow> 'e option \<Rightarrow> 'e option + 'a" where
  "first_ok ask [] last_error = Inl last_error"
| "first_ok ask (s # ss) last_error =
     (case ask s of
        Inr r \<Rightarrow> Inr r
      | Inl e \<Rightarrow> first_ok ask ss (Some e))"

definition all_failed :: "nat \<Rightarrow> workshop_error option \<Rightarrow> workshop_error" where
  "all_failed n last_error =
     AllSourcesFailed n (case last_error of None \<Rightarrow> [] | Some e \<Rightarrow> workshop_error_display e)"

definition failover :: "('s \<Rightarrow> workshop_error + 'a) \<Rightarrow> 's list \<Rightarrow> workshop_error + 'a" where
  "failover ask sources =
     (case first_ok ask sources None of
        Inr r \<Rightarrow> Inr r
      | Inl last_error \<Rightarrow> Inl (all_failed (length sources) last_error))"

text \<open>The same loop for an operation on \<open>&mut self\<close>: the sources asked are left as the call left them.\<close>

fun first_ok_mut ::
  "('s \<Rightarrow> ('e + 'a) \<times> 's) \<Rightarrow> 's list \<Rightarrow> 'e option \<Rightarrow> ('e option + 'a) \<times> 's list" where
  "first_ok_mut ask [] last_error = (Inl last_error, [])"
| "first_ok_mut ask (s # ss) last_error =
     (case ask s of
        (Inr r, s') \<Rightarrow> (Inr r, s' # ss)
      | (Inl e, s') \<Rightarrow>
          (case first_ok_mut ask ss (Some e) of (r, ss') \<Rightarrow> (r, s' # ss')))"

section \<open>The index\<close>

record update_result =
  ur_new_packages :: u64
  ur_updated_packages :: u64
  ur_removed_packages :: u64

definition ur_is_empty :: "update_result \<Rightarrow> bool" where
  "ur_is_empty u \<longleftrightarrow>
     ur_new_packages u = 0 \<and> ur_updated_packages u = 0 \<and> ur_removed_packages u = 0"

definition ur_total_changes :: "update_result \<Rightarrow> u64" where
  "ur_total_changes u =
     sat_add (sat_add (ur_new_packages u) (ur_updated_packages u)) (ur_removed_packages u)"

text \<open>
  A backend is its state with the operations of the trait; \<open>list\<close> of a hash map returns the keys
  in some order, which is a set here.
\<close>

record 's index_backend =
  ib_state :: 's
  ib_list :: "'s \<Rightarrow> workshop_error + resource_id set"
  ib_get :: "resource_id \<Rightarrow> 's \<Rightarrow> workshop_error + package_manifest list option"
  ib_update :: "'s \<Rightarrow> (workshop_error + update_result) \<times> 's"

type_synonym memory_index = "(resource_id, package_manifest list) mapping"

definition mi_insert :: "package_manifest \<Rightarrow> memory_index \<Rightarrow> memory_index" where
  "mi_insert m ix = Mapping.update (mf_id m) (Mapping.lookup_default [] ix (mf_id m) @ [m]) ix"

definition mi_list :: "memory_index \<Rightarrow> workshop_error + resource_id set" where
  "mi_list ix = Inr (Mapping.keys ix)"

definition mi_get :: "resource_id \<Rightarrow> memory_index \<Rightarrow> workshop_error + package_manifest list option" where
  "mi_get i ix = Inr (Mapping.lookup ix i)"

definition mi_update :: "memory_index \<Rightarrow> (workshop_error + update_result) \<times> memory_index" where
  "mi_update ix =
     (Inr \<lparr>ur_new_packages = 0, ur_updated_packages = 0, ur_removed_packages = 0\<rparr>, ix)"

definition memory_backend :: "memory_index \<Rightarrow> memory_index index_backend" where
  "memory_backend ix = \<lparr>ib_state = ix, ib_list = mi_list, ib_get = mi_get, ib_update = mi_update\<rparr>"

definition fi_new :: "'s index_backend list \<Rightarrow> workshop_error + 's index_backend list" where
  "fi_new backends =
     (if backends = [] then Inl (IndexFailure (ascii ''FailoverIndex requires at least one backend''))
      else Inr backends)"

definition fi_list :: "'s index_backend list \<Rightarrow> workshop_error + resource_id set" where
  "fi_list backends = failover (\<lambda>b. ib_list b (ib_state b)) backends"

definition fi_get ::
  "resource_id \<Rightarrow> 's index_backend list \<Rightarrow> workshop_error + package_manifest list option" where
  "fi_get i backends = failover (\<lambda>b. ib_get b i (ib_state b)) backends"

definition fi_update ::
  "'s index_backend list \<Rightarrow> (workshop_error + update_result) \<times> 's index_backend list" where
  "fi_update backends =
     (case first_ok_mut (\<lambda>b. case ib_update b (ib_state b) of (r, s) \<Rightarrow> (r, b\<lparr>ib_state := s\<rparr>)) backends None of
        (Inr r, bs) \<Rightarrow> (Inr r, bs)
      | (Inl last_error, bs) \<Rightarrow> (Inl (all_failed (length backends) last_error), bs))"

section \<open>Lemmas\<close>

lemma first_ok_Inr:
  "first_ok ask ss e = Inr r \<longleftrightarrow>
     (\<exists>pre s post. ss = pre @ s # post \<and> ask s = Inr r \<and> (\<forall>p \<in> set pre. isl (ask p)))"
proof (induction ss arbitrary: e)
  case (Cons s ss)
  then show ?case
    unfolding split_first_Cons by (cases "ask s") auto
qed simp

lemma first_ok_Inl:
  "first_ok ask ss e = Inl x \<longleftrightarrow>
     (\<forall>s \<in> set ss. isl (ask s)) \<and> x = (if ss = [] then e else Some (projl (ask (last ss))))"
proof (induction ss arbitrary: e)
  case Nil
  then show ?case by auto
next
  case (Cons s ss)
  then show ?case
    by (cases "ask s") auto
qed

lemma failover_Inr:
  "failover ask ss = Inr r \<longleftrightarrow>
     (\<exists>pre s post. ss = pre @ s # post \<and> ask s = Inr r \<and> (\<forall>p \<in> set pre. isl (ask p)))"
  using first_ok_Inr [of ask ss None r]
  by (cases "first_ok ask ss None") (simp_all add: failover_def)

lemma failover_Inl:
  "failover ask ss = Inl x \<longleftrightarrow>
     (\<forall>s \<in> set ss. isl (ask s)) \<and>
     x = all_failed (length ss) (if ss = [] then None else Some (projl (ask (last ss))))"
proof (cases "first_ok ask ss None")
  case (Inl y)
  with first_ok_Inl [of ask ss None y] show ?thesis
    by (auto simp: failover_def)
next
  case (Inr r)
  then have "\<not> (\<forall>s \<in> set ss. isl (ask s))"
    using first_ok_Inl [of ask ss None "if ss = [] then None else Some (projl (ask (last ss)))"] by auto
  with Inr show ?thesis
    by (auto simp: failover_def)
qed

text \<open>
  a failover query answers with the answer of the first backend that succeeds, every backend
  before it having failed; it fails exactly when all of them fail, and the error then carries their
  number and the message of the last one.
\<close>

theorem failover_index_exact:
  "(fi_get i backends = Inr r \<longleftrightarrow>
     (\<exists>pre b post. backends = pre @ b # post \<and> ib_get b i (ib_state b) = Inr r \<and>
        list_all (\<lambda>p. isl (ib_get p i (ib_state p))) pre)) \<and>
   (fi_get i (b # bs) = Inl e \<longleftrightarrow>
     list_all (\<lambda>p. isl (ib_get p i (ib_state p))) (b # bs) \<and>
     e = AllSourcesFailed (Suc (length bs))
           (workshop_error_display (projl (let l = last (b # bs) in ib_get l i (ib_state l))))) \<and>
   (fi_list backends = Inr ids \<longleftrightarrow>
     (\<exists>pre b post. backends = pre @ b # post \<and> ib_list b (ib_state b) = Inr ids \<and>
        list_all (\<lambda>p. isl (ib_list p (ib_state p))) pre))"
  by (simp only: fi_get_def fi_list_def failover_Inr failover_Inl list_all_iff)
    (simp add: all_failed_def Let_def)

lemma mi_get_insert:
  "mi_get i (mi_insert m ix) =
     (if i = mf_id m then Inr (Some (Mapping.lookup_default [] ix i @ [m])) else mi_get i ix)"
  by (simp add: mi_get_def mi_insert_def lookup_update')

end
