(* ===== verification/Announce.thy ===== *)
theory Announce
  imports Index "HOL-Library.Multiset"
begin

text \<open>
  Version announcements, \<open>crates/workshop-core/src/update.rs\<close>: the signed message with its canonical
  bytes, the validator every announcement from the network passes (revocation, clock drift,
  signature, replay, sequence jump, rate), and the discovery sources with their failover.

  The signature scheme is the trait \<open>SignatureVerifier\<close>, a function in the validator's state. Keys,
  digests and signatures are byte lists of their length. The current time is an argument, as in the
  code.
\<close>

section \<open>Announcements\<close>

type_synonym publisher_id = bytes

definition short_hex :: "publisher_id \<Rightarrow> bytes" where
  "short_hex p = to_hex (case get_range p 0 8 of None \<Rightarrow> p | Some x \<Rightarrow> x)"

definition publisher_display :: "publisher_id \<Rightarrow> bytes" where
  "publisher_display p = ascii ''pub:'' @ short_hex p"

record announcement =
  an_publisher_id :: publisher_id
  an_resource :: resource_id
  an_version :: resource_version
  an_blob_id :: blob_id
  an_info_hash :: "bytes option"
  an_sequence :: u64
  an_timestamp :: u64
  an_signature :: bytes

definition canonical_bytes :: "announcement \<Rightarrow> bytes" where
  "canonical_bytes a =
     (let publisher_slug = rid_publisher (an_resource a);
          name_slug = rid_name (an_resource a)
      in an_publisher_id a
         @ word_of_nat (length publisher_slug) # publisher_slug
         @ word_of_nat (length name_slug) # name_slug
         @ to_be (rv_major (an_version a)) @ to_be (rv_minor (an_version a))
         @ to_be (rv_patch (an_version a))
         @ an_blob_id a
         @ (case an_info_hash a of Some hash \<Rightarrow> 1 # hash | None \<Rightarrow> [0])
         @ to_be (an_sequence a) @ to_be (an_timestamp a))"

section \<open>The validator\<close>

record rate_limit_config =
  rl_max_count :: u64
  rl_window_secs :: u64

definition rl_default :: rate_limit_config where
  "rl_default = \<lparr>rl_max_count = 10, rl_window_secs = 3600\<rparr>"

type_synonym verifier = "bytes \<Rightarrow> bytes \<Rightarrow> bytes \<Rightarrow> bool"

record validator_state =
  av_verifier :: verifier
  av_known_sequences :: "(publisher_id \<times> resource_id, u64) mapping"
  av_revoked_publishers :: "publisher_id set"
  av_max_clock_drift_secs :: u64
  av_max_sequence_jump :: u64
  av_rate_limit_log :: "(publisher_id, u64 list) mapping"
  av_rate_limit :: rate_limit_config

definition av_new :: "verifier \<Rightarrow> validator_state" where
  "av_new verify =
     \<lparr>av_verifier = verify, av_known_sequences = Mapping.empty, av_revoked_publishers = {},
      av_max_clock_drift_secs = 300, av_max_sequence_jump = 1000,
      av_rate_limit_log = Mapping.empty, av_rate_limit = rl_default\<rparr>"

definition av_with_max_clock_drift :: "u64 \<Rightarrow> validator_state \<Rightarrow> validator_state" where
  "av_with_max_clock_drift secs v = v\<lparr>av_max_clock_drift_secs := secs\<rparr>"

definition av_with_max_sequence_jump :: "u64 \<Rightarrow> validator_state \<Rightarrow> validator_state" where
  "av_with_max_sequence_jump jump v = v\<lparr>av_max_sequence_jump := jump\<rparr>"

definition av_with_rate_limit :: "rate_limit_config \<Rightarrow> validator_state \<Rightarrow> validator_state" where
  "av_with_rate_limit config v = v\<lparr>av_rate_limit := config\<rparr>"

definition revoke_publisher :: "publisher_id \<Rightarrow> validator_state \<Rightarrow> validator_state" where
  "revoke_publisher p v = v\<lparr>av_revoked_publishers := insert p (av_revoked_publishers v)\<rparr>"

definition known_sequence :: "validator_state \<Rightarrow> publisher_id \<times> resource_id \<Rightarrow> u64" where
  "known_sequence v key = Mapping.lookup_default 0 (av_known_sequences v) key"

text \<open>The log of a publisher after \<open>entry\<close> and \<open>retain\<close>: the acceptances inside the window.\<close>

definition recent_log :: "validator_state \<Rightarrow> publisher_id \<Rightarrow> u64 \<Rightarrow> u64 list" where
  "recent_log v p now_secs =
     (let window_start = sat_sub now_secs (rl_window_secs (av_rate_limit v))
      in filter (\<lambda>ts. window_start \<le> ts) (Mapping.lookup_default [] (av_rate_limit_log v) p))"

definition validate :: "announcement \<Rightarrow> u64 \<Rightarrow> validator_state
    \<Rightarrow> (workshop_error + unit) \<times> validator_state" where
  "validate a now_secs v =
     (let publisher = an_publisher_id a; resource = an_resource a in
      if publisher \<in> av_revoked_publishers v then
        (Inl (PublisherRevoked (publisher_display publisher) (ascii ''key is on revocation list'')), v)
      else if sat_add now_secs (av_max_clock_drift_secs v) < an_timestamp a then
        (Inl (FutureTimestamp (an_timestamp a) (sat_sub (an_timestamp a) now_secs)
                (av_max_clock_drift_secs v)), v)
      else if \<not> av_verifier v publisher (canonical_bytes a) (an_signature a) then
        (Inl (InvalidSignature (publisher_display publisher) (rid_display resource)), v)
      else
        let known_seq = known_sequence v (publisher, resource) in
        if an_sequence a \<le> known_seq then
          (Inl (StaleAnnouncement (rid_display resource) (an_sequence a) known_seq), v)
        else if 0 < known_seq \<and> av_max_sequence_jump v < sat_sub (an_sequence a) known_seq then
          (Inl (SequenceJumpTooLarge (rid_display resource) known_seq (an_sequence a)
                  (av_max_sequence_jump v)), v)
        else
          let log = recent_log v publisher now_secs;
              n = word_of_nat (length log)
          in if rl_max_count (av_rate_limit v) \<le> n then
               (Inl (RateLimitExceeded (publisher_display publisher) n
                       (rl_window_secs (av_rate_limit v)) (rl_max_count (av_rate_limit v))),
                v\<lparr>av_rate_limit_log := Mapping.update publisher log (av_rate_limit_log v)\<rparr>)
             else
               (Inr (),
                v\<lparr>av_known_sequences :=
                    Mapping.update (publisher, resource) (an_sequence a) (av_known_sequences v),
                  av_rate_limit_log :=
                    Mapping.update publisher (log @ [now_secs]) (av_rate_limit_log v)\<rparr>))"

section \<open>Discovery\<close>

text \<open>A source is its state with the operations of the trait \<open>UpdateDiscovery\<close>.\<close>

record 's update_source =
  us_state :: 's
  us_latest :: "resource_id \<Rightarrow> 's \<Rightarrow> workshop_error + announcement option"
  us_all_versions :: "resource_id \<Rightarrow> 's \<Rightarrow> workshop_error + announcement list"
  us_announce :: "announcement \<Rightarrow> 's \<Rightarrow> (workshop_error + unit) \<times> 's"

definition fd_new :: "'s update_source list \<Rightarrow> workshop_error + 's update_source list" where
  "fd_new sources =
     (if sources = [] then Inl (IndexFailure (ascii ''FailoverDiscovery requires at least one source''))
      else Inr sources)"

definition fd_latest ::
  "resource_id \<Rightarrow> 's update_source list \<Rightarrow> workshop_error + announcement option" where
  "fd_latest r sources = failover (\<lambda>s. us_latest s r (us_state s)) sources"

definition fd_all_versions ::
  "resource_id \<Rightarrow> 's update_source list \<Rightarrow> workshop_error + announcement list" where
  "fd_all_versions r sources = failover (\<lambda>s. us_all_versions s r (us_state s)) sources"

text \<open>\<open>announce\<close> calls every source, whatever the others return.\<close>

fun announce_all :: "announcement \<Rightarrow> 's update_source list \<Rightarrow> bool \<times> workshop_error option
    \<Rightarrow> (bool \<times> workshop_error option) \<times> 's update_source list" where
  "announce_all a [] acc = (acc, [])"
| "announce_all a (s # ss) (any_succeeded, last_error) =
     (let (r, st) = us_announce s a (us_state s);
          acc = (case r of Inr _ \<Rightarrow> (True, last_error) | Inl e \<Rightarrow> (any_succeeded, Some e));
          (acc', ss') = announce_all a ss acc
      in (acc', s\<lparr>us_state := st\<rparr> # ss'))"

definition fd_announce :: "announcement \<Rightarrow> 's update_source list
    \<Rightarrow> (workshop_error + unit) \<times> 's update_source list" where
  "fd_announce a sources =
     (let ((any_succeeded, last_error), sources') = announce_all a sources (False, None)
      in (if any_succeeded then Inr () else Inl (all_failed (length sources) last_error), sources'))"

type_synonym memory_discovery = "announcement list"

definition md_seed :: "announcement \<Rightarrow> memory_discovery \<Rightarrow> memory_discovery" where
  "md_seed a as = as @ [a]"

definition md_latest :: "resource_id \<Rightarrow> memory_discovery \<Rightarrow> workshop_error + announcement option" where
  "md_latest r as = Inr (max_by_key an_sequence (filter (\<lambda>a. an_resource a = r) as))"

definition md_all_versions :: "resource_id \<Rightarrow> memory_discovery \<Rightarrow> workshop_error + announcement list" where
  "md_all_versions r as = Inr (sort_key an_sequence (filter (\<lambda>a. an_resource a = r) as))"

definition md_announce :: "announcement \<Rightarrow> memory_discovery
    \<Rightarrow> (workshop_error + unit) \<times> memory_discovery" where
  "md_announce a as = (Inr (), as @ [a])"

section \<open>The signed bytes\<close>

definition an_wf :: "announcement \<Rightarrow> bool" where
  "an_wf a \<longleftrightarrow>
     length (an_publisher_id a) = 32 \<and> valid_id (an_resource a) \<and> length (an_blob_id a) = 32 \<and>
     (case an_info_hash a of None \<Rightarrow> True | Some h \<Rightarrow> length h = 20) \<and> length (an_signature a) = 64"

lemma same_length_append:
  "xs @ ys = xs' @ ys' \<Longrightarrow> length xs = length xs' \<Longrightarrow> xs = xs' \<and> ys = ys'"
  by simp

lemma slug_length_byte:
  assumes "valid_slug s" and "valid_slug s'"
    and "word_of_nat (length s) # s @ rest = (word_of_nat (length s') :: u8) # s' @ rest'"
  shows "s = s' \<and> rest = rest'"
proof -
  have "unat (word_of_nat (length s) :: u8) = length s" "unat (word_of_nat (length s') :: u8) = length s'"
    using assms(1,2) by (simp_all add: valid_slug_def unsigned_of_nat take_bit_eq_mod)
  moreover have "(word_of_nat (length s) :: u8) = word_of_nat (length s')"
    using assms(3) by (simp only: list.inject)
  ultimately have "length s = length s'"
    by metis
  moreover have "s @ rest = s' @ rest'"
    using assms(3) by (simp only: list.inject)
  ultimately show ?thesis
    by (metis same_length_append)
qed

lemma info_hash_tag:
  assumes "case h of None \<Rightarrow> True | Some x \<Rightarrow> length x = 20"
    and "case h' of None \<Rightarrow> True | Some x \<Rightarrow> length x = 20"
    and "(case h of Some x \<Rightarrow> 1 # x | None \<Rightarrow> [0 :: u8]) @ rest
       = (case h' of Some x \<Rightarrow> 1 # x | None \<Rightarrow> [0]) @ rest'"
  shows "h = h' \<and> rest = rest'"
  using assms by (cases h; cases h') auto

text \<open>
  the canonical bytes determine every field of a well-formed announcement but the signature: no
  two announcements that differ in publisher, resource, version, digests, sequence or timestamp are
  signed as the same bytes.
\<close>

theorem canonical_bytes_injective:
  assumes "an_wf a" and "an_wf b" and "canonical_bytes a = canonical_bytes b"
  shows "a\<lparr>an_signature := s\<rparr> = b\<lparr>an_signature := s\<rparr>"
proof -
  note wf = assms(1,2) [unfolded an_wf_def valid_id_def]
  note bytes = assms(3) [unfolded canonical_bytes_def Let_def, simplified]
  have pub: "an_publisher_id a = an_publisher_id b"
    using same_length_append [OF bytes] wf by simp
  note r1 = conjunct2 [OF same_length_append [OF bytes]]
  have slug1: "rid_publisher (an_resource a) = rid_publisher (an_resource b)"
    and slug2: "rid_name (an_resource a) = rid_name (an_resource b)"
    and rest: "to_be (rv_major (an_version a)) @ to_be (rv_minor (an_version a))
         @ to_be (rv_patch (an_version a)) @ an_blob_id a
         @ (case an_info_hash a of Some hash \<Rightarrow> 1 # hash | None \<Rightarrow> [0])
         @ to_be (an_sequence a) @ to_be (an_timestamp a)
       = to_be (rv_major (an_version b)) @ to_be (rv_minor (an_version b))
         @ to_be (rv_patch (an_version b)) @ an_blob_id b
         @ (case an_info_hash b of Some hash \<Rightarrow> 1 # hash | None \<Rightarrow> [0])
         @ to_be (an_sequence b) @ to_be (an_timestamp b)"
    using slug_length_byte [OF _ _ r1] slug_length_byte wf by auto
  have version: "rv_major (an_version a) = rv_major (an_version b)"
      "rv_minor (an_version a) = rv_minor (an_version b)"
      "rv_patch (an_version a) = rv_patch (an_version b)"
    and blob: "an_blob_id a = an_blob_id b"
    and tail: "(case an_info_hash a of Some hash \<Rightarrow> 1 # hash | None \<Rightarrow> [0])
         @ to_be (an_sequence a) @ to_be (an_timestamp a)
       = (case an_info_hash b of Some hash \<Rightarrow> 1 # hash | None \<Rightarrow> [0])
         @ to_be (an_sequence b) @ to_be (an_timestamp b)"
    using rest wf by (auto simp: be32.length_enc be32.enc_inject)
  have "an_info_hash a = an_info_hash b"
    and "an_sequence a = an_sequence b" "an_timestamp a = an_timestamp b"
    using info_hash_tag [OF _ _ tail] wf by (auto simp: be64.length_enc be64.enc_inject)
  with pub slug1 slug2 version blob show ?thesis
    by simp
qed

definition example_announcement :: "u64 \<Rightarrow> u64 \<Rightarrow> announcement" where
  "example_announcement n t =
     \<lparr>an_publisher_id = replicate 32 7,
      an_resource = \<lparr>rid_publisher = ascii ''al'', rid_name = ascii ''map''\<rparr>,
      an_version = \<lparr>rv_major = 1, rv_minor = 0, rv_patch = 0\<rparr>, an_blob_id = replicate 32 1,
      an_info_hash = None, an_sequence = n, an_timestamp = t, an_signature = replicate 64 0\<rparr>"

theorem canonical_bytes_injective_witness:
  "(example_announcement 1 5)\<lparr>an_signature := []\<rparr>
     = (example_announcement 1 5)\<lparr>an_signature := replicate 64 3\<rparr>\<lparr>an_signature := []\<rparr>"
proof (rule canonical_bytes_injective)
  have "validate_slug (ascii ''al'') [] = Inr ()" "validate_slug (ascii ''map'') [] = Inr ()"
    by code_simp+
  then have "valid_id (an_resource (example_announcement 1 5))"
    by (simp add: valid_id_def example_announcement_def validate_slug_iff)
  then show "an_wf (example_announcement 1 5)"
    and "an_wf ((example_announcement 1 5)\<lparr>an_signature := replicate 64 3\<rparr>)"
    by (simp_all add: an_wf_def example_announcement_def)
  show "canonical_bytes (example_announcement 1 5)
      = canonical_bytes ((example_announcement 1 5)\<lparr>an_signature := replicate 64 3\<rparr>)"
    by (simp add: canonical_bytes_def)
qed

section \<open>Histories of announcements\<close>

definition key_of :: "announcement \<Rightarrow> publisher_id \<times> resource_id" where
  "key_of a = (an_publisher_id a, an_resource a)"

definition same_config :: "validator_state \<Rightarrow> validator_state \<Rightarrow> bool" where
  "same_config v w \<longleftrightarrow>
     av_verifier v = av_verifier w \<and> av_max_clock_drift_secs v = av_max_clock_drift_secs w \<and>
     av_max_sequence_jump v = av_max_sequence_jump w \<and> av_rate_limit v = av_rate_limit w"

definition in_bounds :: "u64 \<Rightarrow> u64 \<Rightarrow> u64 \<Rightarrow> bool" where
  "in_bounds jump old fresh \<longleftrightarrow> old < fresh \<and> (old = 0 \<or> unat fresh - unat old \<le> unat jump)"

definition timely :: "u64 \<Rightarrow> announcement \<Rightarrow> u64 \<Rightarrow> bool" where
  "timely drift a now_secs \<longleftrightarrow> unat (an_timestamp a) \<le> unat now_secs + unat drift"

lemma timely_iff: "timely d a t \<longleftrightarrow> \<not> sat_add t d < an_timestamp a"
  using unat_less_exp [of "an_timestamp a"]
  by (simp add: timely_def word_less_nat_alt unat_sat_add) linarith

lemma in_bounds_iff:
  "in_bounds j old fresh \<longleftrightarrow> \<not> fresh \<le> old \<and> \<not> (0 < old \<and> j < sat_sub fresh old)"
  by (auto simp: in_bounds_def word_less_nat_alt [of j] unat_sat_sub not_less word_gt_0)

lemma validate_accepts:
  "fst (validate a t v) = Inr () \<longleftrightarrow>
     an_publisher_id a \<notin> av_revoked_publishers v \<and>
     timely (av_max_clock_drift_secs v) a t \<and>
     av_verifier v (an_publisher_id a) (canonical_bytes a) (an_signature a) \<and>
     in_bounds (av_max_sequence_jump v) (known_sequence v (key_of a)) (an_sequence a) \<and>
     word_of_nat (length (recent_log v (an_publisher_id a) t)) < rl_max_count (av_rate_limit v)"
  by (auto simp: validate_def Let_def timely_iff in_bounds_iff key_of_def)

lemma validate_state:
  assumes "validate a t v = (r, v')"
  shows "same_config v' v" and "av_revoked_publishers v' = av_revoked_publishers v"
    and "known_sequence v' k
      = (if r = Inr () \<and> k = key_of a then an_sequence a else known_sequence v k)"
    and "p \<noteq> an_publisher_id a \<Longrightarrow>
      Mapping.lookup_default [] (av_rate_limit_log v') p = Mapping.lookup_default [] (av_rate_limit_log v) p"
  using assms
  by (auto simp: validate_def Let_def same_config_def known_sequence_def key_of_def
      lookup_default_update' split: if_splits)

datatype validator_event = Announced announcement u64 | Revoked publisher_id

fun av_step :: "validator_event \<Rightarrow> validator_state \<times> (announcement \<times> u64) list
    \<Rightarrow> validator_state \<times> (announcement \<times> u64) list" where
  "av_step (Announced a t) (v, accepted) =
     (case validate a t v of
        (Inr _, v') \<Rightarrow> (v', accepted @ [(a, t)])
      | (Inl _, v') \<Rightarrow> (v', accepted))"
| "av_step (Revoked p) (v, accepted) = (revoke_publisher p v, accepted)"

definition av_run :: "validator_event list \<Rightarrow> validator_state
    \<Rightarrow> validator_state \<times> (announcement \<times> u64) list" where
  "av_run evs v = fold av_step evs (v, [])"

definition av_fresh :: "validator_state \<Rightarrow> bool" where
  "av_fresh v \<longleftrightarrow> av_known_sequences v = Mapping.empty \<and> av_rate_limit_log v = Mapping.empty"

definition sequences_of :: "publisher_id \<times> resource_id \<Rightarrow> (announcement \<times> u64) list \<Rightarrow> u64 list" where
  "sequences_of k accepted = map (an_sequence \<circ> fst) (filter (\<lambda>(a, t). key_of a = k) accepted)"

text \<open>What the validator's state says of the accepted announcements, in every history.\<close>

definition replay_inv :: "validator_state \<Rightarrow> validator_state \<times> (announcement \<times> u64) list \<Rightarrow> bool" where
  "replay_inv v0 s \<longleftrightarrow>
     same_config (fst s) v0 \<and>
     (\<forall>k. successively (in_bounds (av_max_sequence_jump v0)) (0 # sequences_of k (snd s)) \<and>
          known_sequence (fst s) k = last (0 # sequences_of k (snd s))) \<and>
     (\<forall>(a, t) \<in> set (snd s).
        av_verifier v0 (an_publisher_id a) (canonical_bytes a) (an_signature a) \<and>
        timely (av_max_clock_drift_secs v0) a t)"

lemma sequences_of_snoc:
  "sequences_of k (accepted @ [(a, t)])
     = sequences_of k accepted @ (if key_of a = k then [an_sequence a] else [])"
  by (simp add: sequences_of_def)

lemma successively_snoc:
  "successively R (x # xs @ [y]) \<longleftrightarrow> successively R (x # xs) \<and> R (last (x # xs)) y"
  using successively_append_iff [of R "x # xs" "[y]"] by simp

lemma replay_inv_step:
  assumes "replay_inv v0 (v, acc)"
  shows "replay_inv v0 (av_step ev (v, acc))"
proof (cases ev)
  case (Revoked p)
  with assms show ?thesis
    by (simp add: replay_inv_def revoke_publisher_def same_config_def known_sequence_def)
next
  case (Announced a t)
  obtain r v' where val: "validate a t v = (r, v')"
    by (cases "validate a t v")
  note state = validate_state [OF val]
  show ?thesis
  proof (cases r)
    case (Inl e)
    with assms Announced val state(1,3) show ?thesis
      by (simp add: replay_inv_def same_config_def)
  next
    case (Inr u)
    then have ok: "fst (validate a t v) = Inr ()" and r: "r = Inr ()"
      by (simp_all add: val)
    note checks = ok [unfolded validate_accepts]
    have known: "known_sequence v k = last (0 # sequences_of k acc)"
      and steps: "successively (in_bounds (av_max_sequence_jump v0)) (0 # sequences_of k acc)"
      and jump: "av_max_sequence_jump v = av_max_sequence_jump v0" for k
      using assms unfolding replay_inv_def same_config_def fst_conv snd_conv by blast+
    have "successively (in_bounds (av_max_sequence_jump v0)) (0 # sequences_of k (acc @ [(a, t)])) \<and>
        known_sequence v' k = last (0 # sequences_of k (acc @ [(a, t)]))" for k
      using known [of k] steps [of k] state(3) [of k] checks jump
      by (cases "key_of a = k")
        (simp_all add: r sequences_of_snoc successively_snoc [of _ 0 "sequences_of k acc"])
    moreover have "same_config v' v0"
      using state(1) assms by (simp add: replay_inv_def same_config_def)
    moreover have "av_verifier v0 (an_publisher_id a) (canonical_bytes a) (an_signature a) \<and>
        timely (av_max_clock_drift_secs v0) a t"
      using checks assms by (simp add: replay_inv_def same_config_def)
    ultimately show ?thesis
      using assms by (simp add: Announced val r replay_inv_def)
  qed
qed

interpretation announcements: step_system "{(v0, []) | v0'. v0' = v0 \<and> av_fresh v0}" av_step "replay_inv v0"
proof unfold_locales
  fix s :: "validator_state \<times> (announcement \<times> u64) list"
  assume "s \<in> {(v0, []) | v0'. v0' = v0 \<and> av_fresh v0}"
  then show "replay_inv v0 s"
    by (auto simp: replay_inv_def same_config_def sequences_of_def known_sequence_def av_fresh_def
        lookup_default_empty)
next
  fix s :: "validator_state \<times> (announcement \<times> u64) list" and ev
  assume "replay_inv v0 s"
  then show "replay_inv v0 (av_step ev s)"
    using replay_inv_step [of v0 "fst s" "snd s" ev] by simp
qed

text \<open>
  C10: whatever announcements and revocations a validator has seen, the announcements it accepted for
  one publisher and resource have strictly increasing sequence numbers, each but the first at most
  the allowed jump above its predecessor; so no announcement is accepted twice. Each of them carried
  a valid signature and was not dated beyond the drift, and the validator remembers exactly the last
  accepted number.
\<close>

theorem no_replay:
  assumes "av_fresh v0"
  shows "successively (in_bounds (av_max_sequence_jump v0)) (0 # sequences_of k (snd (av_run evs v0))) \<and>
    sorted_wrt (<) (sequences_of k (snd (av_run evs v0))) \<and>
    known_sequence (fst (av_run evs v0)) k = last (0 # sequences_of k (snd (av_run evs v0))) \<and>
    ((a, t) \<in> set (snd (av_run evs v0)) \<longrightarrow>
      av_verifier v0 (an_publisher_id a) (canonical_bytes a) (an_signature a) \<and>
      timely (av_max_clock_drift_secs v0) a t)"
proof -
  have "reached {(v0, []) | v0'. v0' = v0 \<and> av_fresh v0} av_step (av_run evs v0)"
    unfolding av_run_def by (rule reached_fold) (use assms in simp)
  then have inv: "replay_inv v0 (av_run evs v0)"
    by (rule announcements.reached_inv)
  then have steps: "successively (in_bounds (av_max_sequence_jump v0)) (0 # sequences_of k (snd (av_run evs v0)))"
    unfolding replay_inv_def by blast
  have "successively (<) (0 # sequences_of k (snd (av_run evs v0)))"
    using successively_mono [OF steps] by (simp add: in_bounds_def)
  then have "sorted_wrt (<) (0 # sequences_of k (snd (av_run evs v0)))"
    by (simp only: successively_conv_sorted_wrt [OF transp_on_less])
  then have "sorted_wrt (<) (sequences_of k (snd (av_run evs v0)))"
    by simp
  with inv show ?thesis
    unfolding replay_inv_def by blast
qed

definition accept_all :: verifier where
  "accept_all key message signature = True"

lemma fresh_new: "av_fresh (av_new verify)"
  by (simp add: av_fresh_def av_new_def)

theorem no_replay_witness:
  "sorted_wrt (<) (sequences_of (key_of (example_announcement 1 5))
     (snd (av_run [Announced (example_announcement 1 5) 9, Announced (example_announcement 1 5) 9,
                   Announced (example_announcement 3 5) 9] (av_new accept_all))))"
  using no_replay [OF fresh_new] by blast

text \<open>
  C11: \<open>validate\<close> accepts exactly the announcements that pass the six checks of its documentation; a
  rejected announcement leaves every remembered sequence number, the revocations and the
  configuration as they were.
\<close>

theorem validate_exact:
  "(fst (validate a t v) = Inr () \<longleftrightarrow>
     an_publisher_id a \<notin> av_revoked_publishers v \<and>
     unat (an_timestamp a) \<le> unat t + unat (av_max_clock_drift_secs v) \<and>
     av_verifier v (an_publisher_id a) (canonical_bytes a) (an_signature a) \<and>
     known_sequence v (key_of a) < an_sequence a \<and>
     (known_sequence v (key_of a) = 0 \<or>
        unat (an_sequence a) - unat (known_sequence v (key_of a)) \<le> unat (av_max_sequence_jump v)) \<and>
     word_of_nat (length (recent_log v (an_publisher_id a) t)) < rl_max_count (av_rate_limit v)) \<and>
   known_sequence (snd (validate a t v)) k
     = (if fst (validate a t v) = Inr () \<and> k = key_of a then an_sequence a else known_sequence v k) \<and>
   av_revoked_publishers (snd (validate a t v)) = av_revoked_publishers v \<and>
   same_config (snd (validate a t v)) v"
  using validate_accepts [of a t v] validate_state [of a t v "fst (validate a t v)" "snd (validate a t v)"]
  by (simp add: timely_def in_bounds_def)

section \<open>Announcements refused for good\<close>

text \<open>
  A set of states in which every announcement selected by \<open>Q\<close> is refused, and which no event
  leaves: nothing selected is accepted any more.
\<close>

lemma refused_run:
  assumes "\<And>v a t. B v \<Longrightarrow> B (snd (validate a t v))" and "\<And>v p. B v \<Longrightarrow> B (revoke_publisher p v)"
    and refuse: "\<And>v a t. B v \<Longrightarrow> Q a \<Longrightarrow> fst (validate a t v) \<noteq> Inr ()"
    and "B v"
  shows "filter (Q \<circ> fst) (snd (fold av_step evs (v, acc))) = filter (Q \<circ> fst) acc"
  using assms(4)
proof (induction evs arbitrary: v acc)
  case Nil
  then show ?case by simp
next
  case (Cons ev evs)
  show ?case
  proof (cases ev)
    case (Announced a t)
    obtain r v' where val: "validate a t v = (r, v')"
      by (cases "validate a t v")
    have "B v'"
      using assms(1) [of v a t] Cons.prems val by simp
    moreover have "r = Inr () \<Longrightarrow> \<not> Q a"
      using refuse [of v a t] Cons.prems val by auto
    ultimately show ?thesis
      using Cons.IH by (cases r) (simp_all add: Announced val)
  next
    case (Revoked p)
    then show ?thesis
      using Cons.IH assms(2) Cons.prems by simp
  qed
qed

text \<open>
  once a publisher is revoked, no later event makes the validator accept an announcement of this
  publisher.
\<close>

theorem revocation_is_final:
  "filter (\<lambda>x. an_publisher_id (fst x) = p) (snd (fold av_step evs (revoke_publisher p v, accepted)))
     = filter (\<lambda>x. an_publisher_id (fst x) = p) accepted"
proof -
  have "filter ((\<lambda>a. an_publisher_id a = p) \<circ> fst) (snd (fold av_step evs (revoke_publisher p v, accepted)))
     = filter ((\<lambda>a. an_publisher_id a = p) \<circ> fst) accepted"
    by (rule refused_run [where B = "\<lambda>v. p \<in> av_revoked_publishers v"])
      (auto simp: revoke_publisher_def validate_accepts validate_state(2) [OF surjective_pairing])
  then show ?thesis
    by (simp add: comp_def)
qed

text \<open>
  the jump limit does not apply to the first announcement for a publisher and resource. One with
  the largest sequence number, correctly signed and within the drift, is accepted, and from then on
  no announcement for this publisher and resource is accepted any more.
\<close>

theorem first_announcement_captures:
  assumes "av_fresh v" and "an_publisher_id a \<notin> av_revoked_publishers v"
    and "unat (an_timestamp a) \<le> unat t + unat (av_max_clock_drift_secs v)"
    and "av_verifier v (an_publisher_id a) (canonical_bytes a) (an_signature a)"
    and "0 < rl_max_count (av_rate_limit v)" and "an_sequence a = - 1"
  shows "filter (\<lambda>x. key_of (fst x) = key_of a) (snd (av_run (Announced a t # evs) v)) = [(a, t)]"
proof -
  obtain r v' where val: "validate a t v = (r, v')"
    by (cases "validate a t v")
  have "known_sequence v k = 0" "recent_log v p t = []" for k p
    using assms(1) by (simp_all add: av_fresh_def known_sequence_def recent_log_def Let_def lookup_default_empty)
  then have ok: "r = Inr ()"
    using validate_accepts [of a t v] assms(2-6) val
    by (simp add: timely_def in_bounds_def word_gt_0)
  then have full: "known_sequence v' (key_of a) = - 1"
    using validate_state(3) [OF val, of "key_of a"] assms(6) by simp
  have "filter ((\<lambda>b. key_of b = key_of a) \<circ> fst) (snd (fold av_step evs (v', [(a, t)])))
      = filter ((\<lambda>b. key_of b = key_of a) \<circ> fst) [(a, t)]"
  proof (rule refused_run [where B = "\<lambda>v. known_sequence v (key_of a) = - 1"])
    fix v b u
    assume v: "known_sequence v (key_of a) = - 1"
    show refuse: "fst (validate b u v) \<noteq> Inr ()" if "key_of b = key_of a"
      using that v word_order.extremum [of "an_sequence b"]
      by (simp add: validate_accepts in_bounds_def leD)
    show "known_sequence (snd (validate b u v)) (key_of a) = - 1"
      using v refuse
      by (auto simp: validate_state(3) [OF surjective_pairing])
  next
    fix v p
    assume "known_sequence v (key_of a) = - 1"
    then show "known_sequence (revoke_publisher p v) (key_of a) = - 1"
      by (simp add: known_sequence_def revoke_publisher_def)
  qed (rule full)
  then show ?thesis
    by (simp add: av_run_def val ok comp_def)
qed

theorem first_announcement_captures_witness:
  "filter (\<lambda>x. key_of (fst x) = key_of (example_announcement (- 1) 5))
     (snd (av_run [Announced (example_announcement (- 1) 5) 9, Announced (example_announcement 2 5) 9]
       (av_new accept_all))) = [(example_announcement (- 1) 5, 9)]"
  by (rule first_announcement_captures)
    (simp_all add: fresh_new, simp_all add: av_new_def accept_all_def example_announcement_def rl_default_def)

section \<open>The rate limit\<close>

fun event_times :: "validator_event list \<Rightarrow> u64 list" where
  "event_times [] = []"
| "event_times (Announced a t # evs) = t # event_times evs"
| "event_times (Revoked p # evs) = event_times evs"

definition times_of :: "publisher_id \<Rightarrow> (announcement \<times> u64) list \<Rightarrow> u64 list" where
  "times_of p accepted = map snd (filter (\<lambda>(a, t). an_publisher_id a = p) accepted)"

text \<open>The log holds the acceptances of the window, as long as the clock does not run backwards.\<close>

definition logged :: "u64 \<Rightarrow> validator_state \<times> (announcement \<times> u64) list \<Rightarrow> bool" where
  "logged now_secs s \<longleftrightarrow>
     (\<forall>p u. now_secs \<le> u \<longrightarrow>
        recent_log (fst s) p u
          = filter (\<lambda>ts. sat_sub u (rl_window_secs (av_rate_limit (fst s))) \<le> ts) (times_of p (snd s)))"

lemma sat_sub_mono: "t \<le> u \<Longrightarrow> sat_sub t w \<le> sat_sub u w"
  for t u w :: u64
  by (simp add: word_le_nat_alt unat_sat_sub diff_le_mono)

lemma validate_log:
  assumes "validate a t v = (r, v')"
  shows "recent_log v' p u =
    (if p = an_publisher_id a \<and>
        Mapping.lookup_default [] (av_rate_limit_log v') p \<noteq> Mapping.lookup_default [] (av_rate_limit_log v) p
     then filter (\<lambda>ts. sat_sub u (rl_window_secs (av_rate_limit v)) \<le> ts)
            (recent_log v p t @ (if r = Inr () then [t] else []))
     else recent_log v p u)"
    and "r = Inr () \<Longrightarrow> Mapping.lookup_default [] (av_rate_limit_log v') (an_publisher_id a)
        = recent_log v (an_publisher_id a) t @ [t]"
  using assms
  by (auto simp: validate_def Let_def recent_log_def lookup_default_update' split: if_splits)

lemma logged_step:
  assumes "logged t (v, acc)" and "validate a t v = (r, v')"
  shows "logged t (v', if r = Inr () then acc @ [(a, t)] else acc)"
proof -
  have config: "av_rate_limit v' = av_rate_limit v"
    using validate_state(1) [OF assms(2)] by (simp add: same_config_def)
  let ?w = "rl_window_secs (av_rate_limit v)"
  have old: "recent_log v p u = filter (\<lambda>ts. sat_sub u ?w \<le> ts) (times_of p acc)" if "t \<le> u" for p u
    using assms(1) that by (simp add: logged_def)
  have twice: "filter (\<lambda>ts. sat_sub u ?w \<le> ts) (recent_log v p t) = recent_log v p u" if "t \<le> u" for p u
    using sat_sub_mono [OF that, of ?w] by (auto simp: old that intro: filter_cong)
  have logs: "recent_log v' p u = filter (\<lambda>ts. sat_sub u ?w \<le> ts)
      (recent_log v p t @ (if p = an_publisher_id a \<and> r = Inr () then [t] else []))"
    if u: "t \<le> u" for p u
  proof (cases "p = an_publisher_id a \<and> r = Inr ()")
    case True
    then show ?thesis
      using validate_log(2) [OF assms(2)] config by (simp add: recent_log_def Let_def)
  next
    case False
    then show ?thesis
      using validate_log(1) [OF assms(2), of p u] validate_state(4) [OF assms(2), of p] twice [OF u, of p]
      by auto
  qed
  show ?thesis
    unfolding logged_def fst_conv snd_conv config
  proof (intro allI impI)
    fix p u
    assume u: "t \<le> u"
    show "recent_log v' p u = filter (\<lambda>ts. sat_sub u ?w \<le> ts)
        (times_of p (if r = Inr () then acc @ [(a, t)] else acc))"
      using twice [OF u, of p] old [OF u, of p] by (auto simp: logs [OF u] times_of_def)
  qed
qed

lemma logged_run:
  assumes "av_fresh v0" and "sorted (event_times evs)" and "\<forall>t \<in> set (event_times evs). t \<le> now_secs"
  shows "logged now_secs (av_run evs v0)"
proof -
  have "logged now_secs (fold av_step evs (v, acc))"
    if "logged start (v, acc)" "\<forall>t \<in> set (event_times evs). start \<le> t" "start \<le> now_secs" for v acc start
    using assms(2,3) that
  proof (induction evs arbitrary: v acc start rule: event_times.induct)
    case 1
    then show ?case
      by (auto simp: logged_def dest: order.trans)
  next
    case (2 a t evs)
    obtain r v' where val: "validate a t v = (r, v')"
      by (cases "validate a t v")
    have "logged t (v, acc)"
      using 2(4,5) by (auto simp: logged_def dest: order.trans)
    from logged_step [OF this val]
    have "logged t (av_step (Announced a t) (v, acc))"
      by (cases r) (simp_all add: val)
    then show ?case
      using 2(1) [of t] 2(2,3) by (cases "av_step (Announced a t) (v, acc)") auto
  next
    case (3 p evs)
    have "logged start (revoke_publisher p v, acc)"
      using 3(4) by (simp add: logged_def revoke_publisher_def recent_log_def)
    then show ?case
      using 3 by simp
  qed
  moreover have "logged 0 (v0, [])"
    using assms(1) by (simp add: logged_def av_fresh_def recent_log_def times_of_def lookup_default_empty)
  ultimately show ?thesis
    unfolding av_run_def using assms(3) by simp
qed

lemma event_times_snoc: "event_times (evs @ [Announced a t]) = event_times evs @ [t]"
  by (induction evs rule: event_times.induct) auto

lemma av_run_length: "length (snd (fold av_step evs (w, acc))) \<le> length acc + length evs"
proof (induction evs arbitrary: w acc)
  case (Cons ev evs)
  have "length (snd (av_step ev (w, acc))) \<le> Suc (length acc)"
    by (cases ev) (auto split: prod.splits sum.splits)
  then show ?case
    using Cons.IH [of "fst (av_step ev (w, acc))" "snd (av_step ev (w, acc))"] by simp
qed simp

lemma av_run_rate_limit: "av_rate_limit (fst (fold av_step evs (w, acc))) = av_rate_limit w"
proof (induction evs arbitrary: w acc)
  case (Cons ev evs)
  have "av_rate_limit (fst (av_step ev (w, acc))) = av_rate_limit w"
    by (cases ev)
      (auto simp: same_config_def revoke_publisher_def split: prod.splits sum.splits
        dest!: validate_state(1))
  then show ?case
    using Cons.IH [of "fst (av_step ev (w, acc))" "snd (av_step ev (w, acc))"] by simp
qed simp

text \<open>
  if the clock never runs backwards, an announcement is accepted only when fewer announcements of
  its publisher than the limit were accepted within the window before it; so in no window does the
  validator accept more announcements of one publisher than the limit.
\<close>

theorem rate_limit_enforced:
  assumes "av_fresh v" and "sorted (event_times (evs @ [Announced a t]))" and "length evs < 2 ^ 64"
    and "fst (validate a t (fst (av_run evs v))) = Inr ()"
  shows "length (filter (\<lambda>(b, u). an_publisher_id b = an_publisher_id a \<and>
      unat t - unat (rl_window_secs (av_rate_limit v)) \<le> unat u) (snd (av_run evs v)))
    < unat (rl_max_count (av_rate_limit v))"
proof -
  let ?s = "av_run evs v" and ?w = "rl_window_secs (av_rate_limit v)"
  have rate: "av_rate_limit (fst ?s) = av_rate_limit v"
    by (simp add: av_run_def av_run_rate_limit)
  have "logged t ?s"
    by (rule logged_run) (use assms(1,2) in \<open>auto simp: event_times_snoc sorted_append\<close>)
  then have log: "recent_log (fst ?s) (an_publisher_id a) t
      = filter (\<lambda>ts. sat_sub t ?w \<le> ts) (times_of (an_publisher_id a) (snd ?s))"
    by (simp add: logged_def rate)
  have count: "length (recent_log (fst ?s) (an_publisher_id a) t)
      = length (filter (\<lambda>(b, u). an_publisher_id b = an_publisher_id a \<and> unat t - unat ?w \<le> unat u) (snd ?s))"
    unfolding log times_of_def
    by (simp add: filter_map comp_def case_prod_unfold word_le_nat_alt unat_sat_sub)
  moreover have "length (recent_log (fst ?s) (an_publisher_id a) t) < 2 ^ 64"
    unfolding count
    by (rule order.strict_trans1 [OF order.trans [OF length_filter_le] assms(3)])
      (use av_run_length [of evs v "[]"] in \<open>simp add: av_run_def\<close>)
  moreover have "word_of_nat (length (recent_log (fst ?s) (an_publisher_id a) t)) < rl_max_count (av_rate_limit v)"
    using assms(4) by (simp add: validate_accepts rate)
  ultimately show ?thesis
    by (simp add: word_less_nat_alt unsigned_of_nat take_bit_eq_mod)
qed

theorem rate_limit_enforced_witness:
  "length (filter (\<lambda>(b, u). an_publisher_id b = replicate 32 7 \<and> unat (9 :: u64) - 3600 \<le> unat u)
     (snd (av_run [] (av_new accept_all)))) < 10"
proof -
  have "fst (validate (example_announcement 1 5) 9 (fst (av_run [] (av_new accept_all)))) = Inr ()"
    by (simp add: validate_accepts av_run_def av_new_def accept_all_def timely_def in_bounds_def
        known_sequence_def recent_log_def rl_default_def example_announcement_def lookup_default_empty)
  from rate_limit_enforced [OF fresh_new _ _ this]
  show ?thesis
    by (simp add: example_announcement_def av_new_def rl_default_def)
qed

section \<open>Discovery sources\<close>

text \<open>
  \<open>latest\<close> of the in-memory source is the last of \<open>all_versions\<close>, which lists exactly the
  announcements of the resource in the order of their sequence numbers; announcing adds one and
  loses none.
\<close>

theorem memory_discovery_agrees:
  "md_latest r as
     = (let vs = projr (md_all_versions r as) in Inr (if vs = [] then None else Some (last vs))) \<and>
   sorted (map an_sequence (projr (md_all_versions r as))) \<and>
   mset (projr (md_all_versions r as)) = filter_mset (\<lambda>a. an_resource a = r) (mset as) \<and>
   snd (md_announce a as) = as @ [a]"
  by (simp add: md_latest_def md_all_versions_def md_announce_def max_by_key_sort Let_def
      flip: length_0_conv)

lemma announce_all_exact:
  "announce_all a ss (ok, err) =
     ((ok \<or> (\<exists>s \<in> set ss. \<not> isl (fst (us_announce s a (us_state s)))),
       fold (\<lambda>s e. case fst (us_announce s a (us_state s)) of Inr _ \<Rightarrow> e | Inl x \<Rightarrow> Some x) ss err),
      map (\<lambda>s. s\<lparr>us_state := snd (us_announce s a (us_state s))\<rparr>) ss)"
proof (induction ss arbitrary: ok err)
  case (Cons s ss)
  then show ?case
    by (cases "us_announce s a (us_state s)"; cases "fst (us_announce s a (us_state s))") auto
qed simp

text \<open>
  an announcement is handed to every source, whatever the others answer, and the call succeeds
  exactly when at least one of them accepted it.
\<close>

theorem announce_reaches_all:
  "snd (fd_announce a ss) = map (\<lambda>s. s\<lparr>us_state := snd (us_announce s a (us_state s))\<rparr>) ss \<and>
   (fst (fd_announce a ss) = Inr () \<longleftrightarrow> list_ex (\<lambda>s. \<not> isl (fst (us_announce s a (us_state s)))) ss)"
  by (simp add: fd_announce_def announce_all_exact list_ex_iff)

end
