(* ===== verification/Resolver.thy ===== *)
theory Resolver
  imports Workshop
begin

text \<open>
  The dependency resolver, \<open>crates/workshop-resolver/src/lib.rs\<close>: lock files, their consistency with
  a manifest, and the resolution of direct dependencies against a registry. The crate \<open>semver\<close> is a
  record of functions, the registry a function from identities to entries; TOML (crate \<open>toml\<close>) stays
  outside.
\<close>

section \<open>Data\<close>

datatype git_reference = Branch bytes | Tag bytes | Rev bytes | DefaultBranch

datatype dependency_source =
  FromWorkshop "bytes option"
| FromLocal bytes
| FromGit bytes git_reference
| FromUrl bytes bytes

record dependency_spec =
  dx_package :: resource_id
  dx_version_req :: bytes
  dx_source :: dependency_source
  dx_optional :: bool

record lock_metadata =
  lm_ic_lock_version :: u32
  lm_generated_by :: bytes
  lm_generated_at :: bytes
  lm_index_commit :: bytes
  lm_index_url :: bytes

record resolved_package =
  rp_name :: bytes
  rp_version :: bytes
  rp_source :: bytes
  rp_checksum :: bytes
  rp_dependencies :: "bytes list"

record lock_file =
  lf_metadata :: lock_metadata
  lf_package :: "resolved_package list"

datatype consistency_check =
  Consistent
| Inconsistent "bytes list" "bytes list" "(bytes \<times> bytes) list"

record resolve_config =
  rc_registry_url :: bytes
  rc_index_commit :: bytes
  rc_index_url :: bytes
  rc_generated_at :: bytes

datatype resolution_error =
  PackageNotFound bytes
| NoMatchingVersion bytes bytes "bytes list"
| InvalidVersionReq bytes bytes
| ResRegistryError bytes
| LockFileParse bytes
| LockFileSerialize bytes

text \<open>
  What the resolver uses of \<open>semver\<close>: the parser of requirements with its message, the parser of
  versions, and the test whether a version satisfies a requirement.
\<close>

record ('q, 'v) semver =
  sv_req :: "bytes \<Rightarrow> bytes + 'q"
  sv_version :: "bytes \<Rightarrow> 'v option"
  sv_matches :: "'q \<Rightarrow> 'v \<Rightarrow> bool"

section \<open>Lock files\<close>

definition locked_version :: "lock_file \<Rightarrow> bytes \<Rightarrow> resolved_package option" where
  "locked_version lf nam = find (\<lambda>p. rp_name p = nam) (lf_package lf)"

text \<open>The body of the loop over the dependencies; the state is \<open>added\<close> with \<open>changed\<close>.\<close>

definition check_dependency :: "('q, 'v) semver \<Rightarrow> lock_file \<Rightarrow> dependency_spec
    \<Rightarrow> bytes list \<times> (bytes \<times> bytes) list \<Rightarrow> bytes list \<times> (bytes \<times> bytes) list" where
  "check_dependency sv lf dep acc =
     (let (added, changed) = acc;
          locked_names = set (map rp_name (lf_package lf));
          full_name = rid_display (dx_package dep)
      in if full_name \<notin> locked_names then (added @ [full_name], changed)
         else case locked_version lf full_name of
                None \<Rightarrow> (added, changed)
              | Some locked \<Rightarrow>
                  (case sv_req sv (dx_version_req dep) of
                     Inl _ \<Rightarrow> (added, changed)
                   | Inr req \<Rightarrow>
                       (case sv_version sv (rp_version locked) of
                          None \<Rightarrow> (added, changed)
                        | Some ver \<Rightarrow>
                            if \<not> sv_matches sv req ver
                            then (added, changed @ [(full_name, dx_version_req dep)])
                            else (added, changed))))"

definition is_consistent_with :: "('q, 'v) semver \<Rightarrow> dependency_spec list \<Rightarrow> lock_file
    \<Rightarrow> consistency_check" where
  "is_consistent_with sv manifest_deps lf =
     (let manifest_names = set (map (\<lambda>d. rid_display (dx_package d)) manifest_deps);
          (added, changed) = fold (check_dependency sv lf) manifest_deps ([], []);
          removed = filter (\<lambda>n. n \<notin> manifest_names) (map rp_name (lf_package lf))
      in if added = [] \<and> removed = [] \<and> changed = [] then Consistent
         else Inconsistent added removed changed)"

section \<open>Resolution\<close>

definition entry_matches :: "('q, 'v) semver \<Rightarrow> 'q \<Rightarrow> registry_entry \<Rightarrow> bool" where
  "entry_matches sv req e =
     (case sv_version sv (re_vers e) of None \<Rightarrow> False | Some v \<Rightarrow> sv_matches sv req v)"

definition resolved_of :: "resolve_config \<Rightarrow> registry_entry \<Rightarrow> resolved_package" where
  "resolved_of config e =
     \<lparr>rp_name = re_full_name e, rp_version = re_vers e,
      rp_source = ascii ''workshop+'' @ rc_registry_url config, rp_checksum = re_cksum e,
      rp_dependencies = map (\<lambda>d. rd_publisher d @ 47 # rd_name d) (re_deps e)\<rparr>"

definition resolve_one :: "('q, 'v) semver \<Rightarrow> (resource_id \<Rightarrow> registry_error + registry_entry list)
    \<Rightarrow> resolve_config \<Rightarrow> dependency_spec \<Rightarrow> resolution_error + resolved_package" where
  "resolve_one sv versions config spec =
     (case versions (dx_package spec) of
        Inl err \<Rightarrow> Inl (ResRegistryError (registry_error_display err))
      | Inr entries \<Rightarrow>
          if entries = [] then Inl (PackageNotFound (rid_display (dx_package spec)))
          else case sv_req sv (dx_version_req spec) of
            Inl reason \<Rightarrow> Inl (InvalidVersionReq (dx_version_req spec) reason)
          | Inr req \<Rightarrow>
              (case find (entry_matches sv req) (filter (\<lambda>e. \<not> re_yanked e) (rev entries)) of
                 None \<Rightarrow> Inl (NoMatchingVersion (rid_display (dx_package spec)) (dx_version_req spec)
                               (map re_vers entries))
               | Some e \<Rightarrow> Inr (resolved_of config e)))"

fun is_workshop :: "dependency_source \<Rightarrow> bool" where
  "is_workshop (FromWorkshop _) = True"
| "is_workshop _ = False"

fun resolve_all :: "('q, 'v) semver \<Rightarrow> (resource_id \<Rightarrow> registry_error + registry_entry list)
    \<Rightarrow> resolve_config \<Rightarrow> dependency_spec list \<Rightarrow> resolved_package list
    \<Rightarrow> resolution_error + resolved_package list" where
  "resolve_all sv versions config [] resolved = Inr resolved"
| "resolve_all sv versions config (spec # specs) resolved =
     (if \<not> is_workshop (dx_source spec) then resolve_all sv versions config specs resolved
      else case resolve_one sv versions config spec of
             Inl err \<Rightarrow> Inl err
           | Inr p \<Rightarrow> resolve_all sv versions config specs (resolved @ [p]))"

definition resolve :: "('q, 'v) semver \<Rightarrow> dependency_spec list
    \<Rightarrow> (resource_id \<Rightarrow> registry_error + registry_entry list) \<Rightarrow> resolve_config
    \<Rightarrow> resolution_error + lock_file" where
  "resolve sv deps versions config =
     and_then (resolve_all sv versions config deps []) (\<lambda>resolved.
       Inr \<lparr>lf_metadata =
              \<lparr>lm_ic_lock_version = 1, lm_generated_by = ascii ''workshop-resolver 0.1.0-alpha.0'',
               lm_generated_at = rc_generated_at config, lm_index_commit = rc_index_commit config,
               lm_index_url = rc_index_url config\<rparr>,
            lf_package = resolved\<rparr>)"

section \<open>Lemmas\<close>

text \<open>The packages are the dependencies from the Workshop, resolved one by one and in order.\<close>

lemma resolve_all_Inr:
  "resolve_all sv versions config specs acc = Inr ps \<longleftrightarrow>
     (\<exists>qs. ps = acc @ qs \<and>
        list_all2 (\<lambda>s q. resolve_one sv versions config s = Inr q)
          (filter (\<lambda>s. is_workshop (dx_source s)) specs) qs)"
proof (induction specs arbitrary: acc)
  case Nil
  then show ?case by auto
next
  case (Cons s specs)
  show ?case
  proof (cases "is_workshop (dx_source s)")
    case False
    then show ?thesis
      using Cons.IH by simp
  next
    case True
    then show ?thesis
      by (cases "resolve_one sv versions config s") (auto simp: Cons.IH list_all2_Cons1)
  qed
qed

lemma resolve_all_Inl:
  "resolve_all sv versions config specs acc = Inl err \<longleftrightarrow>
     (\<exists>pre s post. specs = pre @ s # post \<and>
        (is_workshop (dx_source s) \<and> resolve_one sv versions config s = Inl err) \<and>
        (\<forall>t \<in> set pre. is_workshop (dx_source t) \<longrightarrow> \<not> isl (resolve_one sv versions config t)))"
proof (induction specs arbitrary: acc)
  case Nil
  then show ?case by simp
next
  case (Cons s specs)
  show ?case
    unfolding split_first_Cons using Cons.IH
    by (cases "resolve_one sv versions config s") auto
qed

section \<open>What a resolution means\<close>

text \<open>The newest entry that is not yanked and satisfies the requirement; entries come oldest first.\<close>

definition newest_match :: "('q, 'v) semver \<Rightarrow> registry_entry list \<Rightarrow> 'q \<Rightarrow> registry_entry \<Rightarrow> bool" where
  "newest_match sv entries q e \<longleftrightarrow>
     (\<exists>older newer. entries = older @ e # newer \<and> \<not> re_yanked e \<and> entry_matches sv q e \<and>
        list_all (\<lambda>x. re_yanked x \<or> \<not> entry_matches sv q x) newer)"

inductive resolves_to :: "('q, 'v) semver \<Rightarrow> (resource_id \<Rightarrow> registry_error + registry_entry list)
    \<Rightarrow> resolve_config \<Rightarrow> dependency_spec \<Rightarrow> resolved_package \<Rightarrow> bool" for sv versions config where
  "versions (dx_package s) = Inr entries \<Longrightarrow> sv_req sv (dx_version_req s) = Inr q \<Longrightarrow>
     newest_match sv entries q e \<Longrightarrow> resolves_to sv versions config s (resolved_of config e)"

inductive unresolvable :: "('q, 'v) semver \<Rightarrow> (resource_id \<Rightarrow> registry_error + registry_entry list)
    \<Rightarrow> dependency_spec \<Rightarrow> resolution_error \<Rightarrow> bool" for sv versions where
  no_registry: "versions (dx_package s) = Inl err \<Longrightarrow>
     unresolvable sv versions s (ResRegistryError (registry_error_display err))"
| no_package: "versions (dx_package s) = Inr [] \<Longrightarrow>
     unresolvable sv versions s (PackageNotFound (rid_display (dx_package s)))"
| no_requirement: "versions (dx_package s) = Inr entries \<Longrightarrow> entries \<noteq> [] \<Longrightarrow>
     sv_req sv (dx_version_req s) = Inl reason \<Longrightarrow>
     unresolvable sv versions s (InvalidVersionReq (dx_version_req s) reason)"
| no_version: "versions (dx_package s) = Inr entries \<Longrightarrow> entries \<noteq> [] \<Longrightarrow>
     sv_req sv (dx_version_req s) = Inr q \<Longrightarrow>
     list_all (\<lambda>x. re_yanked x \<or> \<not> entry_matches sv q x) entries \<Longrightarrow>
     unresolvable sv versions s
       (NoMatchingVersion (rid_display (dx_package s)) (dx_version_req s) (map re_vers entries))"

inductive_simps resolves_to_iff: "resolves_to sv versions config s p"
inductive_simps unresolvable_iff: "unresolvable sv versions s err"

lemma find_matching:
  "find (entry_matches sv q) (filter (\<lambda>e. \<not> re_yanked e) (rev entries)) = Some e
     \<longleftrightarrow> newest_match sv entries q e"
proof -
  have "find P (filter Q xs) = find (\<lambda>x. Q x \<and> P x) xs" for P Q and xs :: "registry_entry list"
    by (induction xs) auto
  then show ?thesis
    by (auto simp: find_rev newest_match_def list_all_iff)
qed

lemma find_matching_none:
  "find (entry_matches sv q) (filter (\<lambda>e. \<not> re_yanked e) (rev entries)) = None
     \<longleftrightarrow> list_all (\<lambda>x. re_yanked x \<or> \<not> entry_matches sv q x) entries"
  by (auto simp: find_None_iff list_all_iff)

lemma newest_match_nonempty: "newest_match sv entries q e \<Longrightarrow> entries \<noteq> []"
  by (auto simp: newest_match_def)

lemma newest_match_unique: "newest_match sv entries q e \<Longrightarrow> newest_match sv entries q e' \<Longrightarrow> e = e'"
  by (simp add: find_matching [symmetric])

lemma resolve_one_Inr: "resolve_one sv versions config s = Inr p \<longleftrightarrow> resolves_to sv versions config s p"
  unfolding resolve_one_def resolves_to_iff
  by (auto simp: find_matching split: sum.splits option.splits dest: newest_match_nonempty)
    (metis find_matching option.distinct(1), metis newest_match_unique)

lemma resolve_one_Inl: "resolve_one sv versions config s = Inl err \<longleftrightarrow> unresolvable sv versions s err"
  unfolding resolve_one_def unresolvable_iff
  by (auto simp: find_matching_none [symmetric] split: sum.splits option.splits)

lemma resolve_one_isl: "isl (resolve_one sv versions config s) \<longleftrightarrow> (\<exists>err. unresolvable sv versions s err)"
  by (cases "resolve_one sv versions config s")
    (auto simp: resolve_one_Inl [of sv versions config, symmetric])

text \<open>
  C19: a resolution succeeds with exactly one package for each dependency from the Workshop, in order:
  the newest entry that is not yanked and satisfies the requirement, with its checksum and
  dependencies. It fails with the error of the first dependency that cannot be resolved, which is
  one of four: the registry failed, knows no version, the requirement does not parse, or every
  version is yanked or does not satisfy it.
\<close>

theorem resolve_exact:
  "(resolve sv deps versions config = Inr lf \<longleftrightarrow>
     list_all2 (resolves_to sv versions config) (filter (\<lambda>s. is_workshop (dx_source s)) deps) (lf_package lf) \<and>
     lf_metadata lf =
       \<lparr>lm_ic_lock_version = 1, lm_generated_by = ascii ''workshop-resolver 0.1.0-alpha.0'',
        lm_generated_at = rc_generated_at config, lm_index_commit = rc_index_commit config,
        lm_index_url = rc_index_url config\<rparr>) \<and>
   (resolve sv deps versions config = Inl err \<longleftrightarrow>
     (\<exists>pre s post. deps = pre @ s # post \<and> is_workshop (dx_source s) \<and> unresolvable sv versions s err \<and>
        list_all (\<lambda>t. \<not> (\<exists>err. unresolvable sv versions t err)) (filter (\<lambda>t. is_workshop (dx_source t)) pre)))"
  (is "(_ \<longleftrightarrow> ?resolved) \<and> (_ \<longleftrightarrow> ?failed)")
proof
  show "resolve sv deps versions config = Inr lf \<longleftrightarrow> ?resolved"
    by (cases lf) (auto simp: resolve_def and_then_Inr resolve_all_Inr resolve_one_Inr)
  have "resolve sv deps versions config = Inl err \<longleftrightarrow> resolve_all sv versions config deps [] = Inl err"
    by (cases "resolve_all sv versions config deps []") (simp_all add: resolve_def)
  then show "resolve sv deps versions config = Inl err \<longleftrightarrow> ?failed"
    by (simp add: resolve_all_Inl resolve_one_Inl resolve_one_isl list_all_iff conj_ac imp_conjL) blast
qed

section \<open>Consistency of a lock file\<close>

definition dependency_name :: "dependency_spec \<Rightarrow> bytes" where
  "dependency_name d = rid_display (dx_package d)"

definition locked_names :: "lock_file \<Rightarrow> bytes set" where
  "locked_names lf = set (map rp_name (lf_package lf))"

text \<open>The locked version does not satisfy the requirement, and both parse.\<close>

definition unsatisfied :: "('q, 'v) semver \<Rightarrow> lock_file \<Rightarrow> dependency_spec \<Rightarrow> bool" where
  "unsatisfied sv lf d \<longleftrightarrow>
     (\<exists>p q v. locked_version lf (dependency_name d) = Some p \<and> sv_req sv (dx_version_req d) = Inr q \<and>
        sv_version sv (rp_version p) = Some v \<and> \<not> sv_matches sv q v)"

lemma locked_version_Some: "locked_version lf n = Some p \<Longrightarrow> n \<in> locked_names lf"
  by (auto simp: locked_version_def locked_names_def find_Some_iff)

lemma check_step:
  "check_dependency sv lf d (added, changed) =
     (added @ (if dependency_name d \<notin> locked_names lf then [dependency_name d] else []),
      changed @ (if unsatisfied sv lf d then [(dependency_name d, dx_version_req d)] else []))"
proof (cases "dependency_name d \<in> locked_names lf")
  case False
  then have "\<not> unsatisfied sv lf d"
    by (auto simp: unsatisfied_def dest: locked_version_Some)
  with False show ?thesis
    by (simp add: check_dependency_def dependency_name_def locked_names_def Let_def)
next
  case True
  then show ?thesis
    by (simp add: check_dependency_def unsatisfied_def dependency_name_def locked_names_def Let_def
        split: option.splits sum.splits)
qed

lemma check_fold:
  "fold (check_dependency sv lf) deps (added, changed) =
     (added @ map dependency_name (filter (\<lambda>d. dependency_name d \<notin> locked_names lf) deps),
      changed @ map (\<lambda>d. (dependency_name d, dx_version_req d)) (filter (unsatisfied sv lf) deps))"
  by (induction deps arbitrary: added changed) (simp_all add: check_step)

lemma consistency:
  "is_consistent_with sv deps lf =
     (let added = map dependency_name (filter (\<lambda>d. dependency_name d \<notin> locked_names lf) deps);
          removed = filter (\<lambda>n. n \<notin> set (map dependency_name deps)) (map rp_name (lf_package lf));
          changed = map (\<lambda>d. (dependency_name d, dx_version_req d)) (filter (unsatisfied sv lf) deps)
      in if added = [] \<and> removed = [] \<and> changed = [] then Consistent
         else Inconsistent added removed changed)"
  by (simp add: is_consistent_with_def check_fold Let_def dependency_name_def)

lemma consistent_iff:
  "is_consistent_with sv deps lf = Consistent \<longleftrightarrow>
     set (map dependency_name deps) = locked_names lf \<and> (\<forall>d \<in> set deps. \<not> unsatisfied sv lf d)"
  by (auto simp: consistency Let_def filter_empty_conv locked_names_def split: if_splits)

text \<open>The contract of a registry: the entries it returns for an identity carry its name.\<close>

definition names_entries :: "(resource_id \<Rightarrow> registry_error + registry_entry list) \<Rightarrow> bool" where
  "names_entries versions \<longleftrightarrow>
     (\<forall>i es. versions i = Inr es \<longrightarrow> (\<forall>e \<in> set es. re_full_name e = rid_display i))"

lemma resolves_to_name:
  "names_entries versions \<Longrightarrow> resolves_to sv versions config s p \<Longrightarrow> rp_name p = dependency_name s"
  by (auto simp: resolves_to_iff names_entries_def newest_match_def resolved_of_def dependency_name_def)

lemma resolved_names:
  assumes "names_entries versions" and "list_all2 (resolves_to sv versions config) ss ps"
  shows "map rp_name ps = map dependency_name ss"
  using assms(2) by (induction rule: list_all2_induct) (simp_all add: resolves_to_name [OF assms(1)])

lemma find_distinct:
  "distinct (map f xs) \<Longrightarrow> x \<in> set xs \<Longrightarrow> find (\<lambda>y. f y = f x) xs = Some x"
  by (induction xs) force+

lemma resolved_satisfied:
  assumes "names_entries versions" and "distinct (map dependency_name ss)"
    and all: "list_all2 (resolves_to sv versions config) ss (lf_package lf)" and "d \<in> set ss"
  shows "\<not> unsatisfied sv lf d"
proof -
  obtain p where p: "p \<in> set (lf_package lf)" "resolves_to sv versions config d p"
    using all assms(4) by (metis in_set_conv_nth list_all2_conv_all_nth)
  have "distinct (map rp_name (lf_package lf))"
    using resolved_names [OF assms(1) all] assms(2) by simp
  then have "locked_version lf (dependency_name d) = Some p"
    using find_distinct [OF _ p(1), of rp_name] resolves_to_name [OF assms(1) p(2)]
    by (simp add: locked_version_def)
  with p(2) show ?thesis
    by (auto simp: unsatisfied_def resolves_to_iff newest_match_def entry_matches_def resolved_of_def
        split: option.splits)
qed

text \<open>
  the lock file of a resolution is consistent with the manifest it was resolved from, provided
  the dependencies are distinct packages of the Workshop and the registry returns the entries of the
  package it is asked for.
\<close>

theorem resolved_lock_consistent:
  assumes "names_entries versions" and "distinct (map dependency_name deps)"
    and "list_all (\<lambda>d. is_workshop (dx_source d)) deps"
    and "resolve sv deps versions config = Inr lf"
  shows "is_consistent_with sv deps lf = Consistent"
proof -
  have "filter (\<lambda>d. is_workshop (dx_source d)) deps = deps"
    using assms(3) by (simp add: list_all_iff)
  then have all: "list_all2 (resolves_to sv versions config) deps (lf_package lf)"
    using assms(4) by (auto simp: resolve_def and_then_Inr resolve_all_Inr resolve_one_Inr)
  then show ?thesis
    using resolved_names [OF assms(1) all] resolved_satisfied [OF assms(1,2) all]
    by (auto simp: consistent_iff locked_names_def)
qed

text \<open>
  a dependency from another source (a path, a repository, a URL) is never locked, but the
  consistency check asks for it: the lock file just resolved from such a manifest is reported as
  inconsistent, with the dependency as added.
\<close>

theorem foreign_dependency_never_consistent:
  assumes "names_entries versions" and "resolve sv deps versions config = Inr lf"
    and "d \<in> set deps"
    and "\<forall>s \<in> set deps. is_workshop (dx_source s) \<longrightarrow> dependency_name s \<noteq> dependency_name d"
  shows "\<exists>added removed changed.
    is_consistent_with sv deps lf = Inconsistent added removed changed \<and> dependency_name d \<in> set added"
proof -
  have "list_all2 (resolves_to sv versions config) (filter (\<lambda>s. is_workshop (dx_source s)) deps) (lf_package lf)"
    using assms(2) by (auto simp: resolve_def and_then_Inr resolve_all_Inr resolve_one_Inr)
  from resolved_names [OF assms(1) this]
  have "dependency_name d \<notin> locked_names lf"
    using assms(4) by (auto simp: locked_names_def)
  with assms(3) have "d \<in> set (filter (\<lambda>d. dependency_name d \<notin> locked_names lf) deps)"
    by simp
  then have "filter (\<lambda>d. dependency_name d \<notin> locked_names lf) deps \<noteq> []"
    and "dependency_name d \<in> set (map dependency_name (filter (\<lambda>d. dependency_name d \<notin> locked_names lf) deps))"
    by (auto simp: filter_empty_conv)
  then show ?thesis
    by (simp add: consistency Let_def)
qed

section \<open>An example\<close>

text \<open>Versions and requirements are single bytes; a requirement accepts the versions from it on.\<close>

definition example_semver :: "(u8, u8) semver" where
  "example_semver =
     \<lparr>sv_req = (\<lambda>s. case s of [x] \<Rightarrow> Inr x | _ \<Rightarrow> Inl []),
      sv_version = (\<lambda>s. case s of [x] \<Rightarrow> Some x | _ \<Rightarrow> None),
      sv_matches = (\<lambda>q v. q \<le> v)\<rparr>"

definition example_entry :: "u8 \<Rightarrow> bool \<Rightarrow> registry_entry" where
  "example_entry v yanked =
     \<lparr>re_name = [109], re_vers = [v], re_publisher = [97], re_deps = [], re_cksum = [],
      re_manifest_hash = [], re_features = Mapping.empty, re_yanked = yanked, re_links = None\<rparr>"

definition example_versions :: "resource_id \<Rightarrow> registry_error + registry_entry list" where
  "example_versions i =
     (if i = \<lparr>rid_publisher = [97], rid_name = [109]\<rparr>
      then Inr [example_entry 1 False, example_entry 3 False, example_entry 4 True] else Inr [])"

definition example_spec :: "resource_id \<Rightarrow> dependency_source \<Rightarrow> dependency_spec" where
  "example_spec i src =
     \<lparr>dx_package = i, dx_version_req = [2], dx_source = src, dx_optional = False\<rparr>"

definition example_config :: resolve_config where
  "example_config = \<lparr>rc_registry_url = [], rc_index_commit = [], rc_index_url = [], rc_generated_at = []\<rparr>"

definition example_deps :: "dependency_spec list" where
  "example_deps = [example_spec \<lparr>rid_publisher = [97], rid_name = [109]\<rparr> (FromWorkshop None)]"

definition local_deps :: "dependency_spec list" where
  "local_deps = example_deps @ [example_spec \<lparr>rid_publisher = [97], rid_name = [110]\<rparr> (FromLocal [])]"

definition example_lock :: lock_file where
  "example_lock = projr (resolve example_semver example_deps example_versions example_config)"

lemma example_names: "names_entries example_versions"
  by (auto simp: names_entries_def example_versions_def example_entry_def re_full_name_def rid_display_def
      split: if_splits)

lemma example_resolution:
  "resolve example_semver example_deps example_versions example_config = Inr example_lock"
  "resolve example_semver local_deps example_versions example_config = Inr example_lock"
  by code_simp+

theorem resolved_lock_consistent_witness:
  "is_consistent_with example_semver example_deps example_lock = Consistent"
proof (rule resolved_lock_consistent [OF example_names _ _ example_resolution(1)])
  show "distinct (map dependency_name example_deps)"
    and "list_all (\<lambda>d. is_workshop (dx_source d)) example_deps"
    by (simp_all add: example_deps_def example_spec_def)
qed

theorem foreign_dependency_never_consistent_witness:
  "\<exists>added removed changed.
     is_consistent_with example_semver local_deps example_lock = Inconsistent added removed changed \<and>
     [97, 47, 110] \<in> set added"
proof -
  let ?d = "example_spec \<lparr>rid_publisher = [97], rid_name = [110]\<rparr> (FromLocal [])"
  have "?d \<in> set local_deps"
    and "\<forall>s \<in> set local_deps. is_workshop (dx_source s) \<longrightarrow> dependency_name s \<noteq> dependency_name ?d"
    by (simp_all add: local_deps_def example_deps_def example_spec_def dependency_name_def rid_display_def)
  from foreign_dependency_never_consistent [OF example_names example_resolution(2) this]
  show ?thesis
    by (simp add: dependency_name_def rid_display_def example_spec_def)
qed

end
