(* ===== verification/Session.thy ===== *)
theory Session
  imports Lifecycle "HOL-Library.Product_Lexorder"
begin

text \<open>
  The session of several downloads, \<open>crates/p2p-distribute/src/session_manager.rs\<close>: the queue of
  \<open>BasicSession\<close> with its priorities and the limit of active downloads. The \<open>Instant\<close> at which a
  download is added is an argument, a number of nanoseconds. Logging and the rate limits of the
  configuration, which \<open>BasicSession\<close> only stores, have no behaviour.
\<close>

section \<open>State\<close>

type_synonym download_handle = u64

record session_config =
  max_active_downloads :: nat
  max_active_checking :: nat
  max_active_seeding :: nat
  download_rate_limit :: u64
  upload_rate_limit :: u64

definition default_session_config :: session_config where
  "default_session_config =
     \<lparr>max_active_downloads = 3, max_active_checking = 1, max_active_seeding = 5,
      download_rate_limit = 0, upload_rate_limit = 0\<rparr>"

text \<open>The priority is a signed integer.\<close>

record download_entry =
  de_handle :: download_handle
  de_priority :: "32 word"
  de_state :: download_state
  de_added_at :: nat

datatype session_event =
  DownloadAdded download_handle
| DownloadStarted download_handle
| DownloadPaused download_handle
| DownloadCompleted download_handle
| DownloadFailed download_handle string
| DownloadRemoved download_handle
| SpeedUpdate u64 u64

datatype session_error =
  SessionNotFound download_handle
| InvalidState download_handle string string

record basic_session =
  bs_config :: session_config
  bs_entries :: "download_entry list"
  bs_events :: "session_event list"
  bs_next_id :: u64

definition session_new :: "session_config \<Rightarrow> basic_session" where
  "session_new config = \<lparr>bs_config = config, bs_entries = [], bs_events = [], bs_next_id = 1\<rparr>"

section \<open>Activation\<close>

definition active_count :: "download_entry list \<Rightarrow> nat" where
  "active_count es = length (filter (\<lambda>e. de_state e = DDownloading) es)"

text \<open>The key \<open>(priority, Reverse(added_at))\<close> of \<open>max_by_key\<close>, over the entries with their indices.\<close>

definition activation_key :: "nat \<times> download_entry \<Rightarrow> int \<times> int" where
  "activation_key x = (sint (de_priority (snd x)), - int (de_added_at (snd x)))"

definition queued_entries :: "download_entry list \<Rightarrow> (nat \<times> download_entry) list" where
  "queued_entries es = filter (\<lambda>(_, e). de_state e = DQueued) (enumerate 0 es)"

function activate_queued ::
  "nat \<Rightarrow> download_entry list \<Rightarrow> session_event list \<Rightarrow> download_entry list \<times> session_event list"
where
  "activate_queued limit es events =
     (if active_count es < limit then
        (case max_by_key activation_key (queued_entries es) of
           None \<Rightarrow> (es, events)
         | Some (i, e) \<Rightarrow>
             activate_queued limit (es[i := e\<lparr>de_state := DDownloading\<rparr>])
               (events @ [DownloadStarted (de_handle e)]))
      else (es, events))"
  by pat_completeness auto

lemma queued_entries_iff:
  "(i, e) \<in> set (queued_entries es) \<longleftrightarrow> i < length es \<and> es ! i = e \<and> de_state e = DQueued"
  by (auto simp: queued_entries_def in_set_enumerate_eq)

lemma distinct_queued: "distinct (map fst (queued_entries es))"
  unfolding queued_entries_def
  by (rule distinct_map_filter) simp

lemma queued_update:
  assumes "i < length es" and "de_state e \<noteq> DQueued"
  shows "queued_entries (es[i := e]) = filter (\<lambda>(j, _). j \<noteq> i) (queued_entries es)"
proof -
  have "filter (\<lambda>(_, e). de_state e = DQueued) (enumerate k (es[j := e])) =
      filter (\<lambda>(n, _). n \<noteq> k + j) (filter (\<lambda>(_, e). de_state e = DQueued) (enumerate k es))"
    if "j < length es" for j k
    using that
  proof (induction es arbitrary: j k)
    case (Cons x es)
    show ?case
    proof (cases j)
      case 0
      have "filter (\<lambda>(n, _). n \<noteq> k) (filter (\<lambda>(_, e). de_state e = DQueued) (enumerate (Suc k) es))
          = filter (\<lambda>(_, e). de_state e = DQueued) (enumerate (Suc k) es)"
        by (rule filter_True) (auto simp: in_set_enumerate_eq)
      then show ?thesis
        using 0 assms(2) by simp
    next
      case (Suc j')
      then show ?thesis
        using Cons.IH [of j' "Suc k"] Cons.prems by simp
    qed
  qed simp
  from this [of i 0] assms(1) show ?thesis
    by (simp add: queued_entries_def)
qed

termination activate_queued
proof (relation "measure (\<lambda>(limit, es, events). length (queued_entries es))")
  fix limit :: nat and es and events :: "session_event list" and x i e
  assume "max_by_key activation_key (queued_entries es) = Some x" and x: "(i, e) = x"
  then have "(i, e) \<in> set (queued_entries es)"
    by (metis max_by_key_Some)
  moreover from this have "i < length es"
    by (simp add: queued_entries_iff)
  ultimately show "((limit, es[i := e\<lparr>de_state := DDownloading\<rparr>], events @ [DownloadStarted (de_handle e)]),
      (limit, es, events)) \<in> measure (\<lambda>(limit, es, events). length (queued_entries es))"
    by (auto simp: queued_update length_filter_less)
qed simp

declare activate_queued.simps [simp del]

definition run_activation :: "basic_session \<Rightarrow> basic_session" where
  "run_activation s =
     (case activate_queued (max_active_downloads (bs_config s)) (bs_entries s) (bs_events s) of
        (es, events) \<Rightarrow> s\<lparr>bs_entries := es, bs_events := events\<rparr>)"

section \<open>Operations\<close>

definition add_download :: "nat \<Rightarrow> 32 word \<Rightarrow> basic_session \<Rightarrow> download_handle \<times> basic_session" where
  "add_download now priority s =
     (let handle = bs_next_id s;
          entry = \<lparr>de_handle = handle, de_priority = priority, de_state = DQueued, de_added_at = now\<rparr>;
          s' = s\<lparr>bs_next_id := handle + 1, bs_entries := bs_entries s @ [entry],
                 bs_events := bs_events s @ [DownloadAdded handle]\<rparr>
      in (handle, run_activation s'))"

definition find_download :: "download_handle \<Rightarrow> basic_session \<Rightarrow> nat option" where
  "find_download handle s = position (\<lambda>e. de_handle e = handle) (bs_entries s)"

definition session_pause :: "download_handle \<Rightarrow> basic_session \<Rightarrow> (session_error + unit) \<times> basic_session" where
  "session_pause handle s =
     (case find_download handle s of
        None \<Rightarrow> (Inl (SessionNotFound handle), s)
      | Some i \<Rightarrow>
          (let e = bs_entries s ! i;
               paused = s\<lparr>bs_entries := (bs_entries s)[i := e\<lparr>de_state := DPaused (de_state e)\<rparr>],
                          bs_events := bs_events s @ [DownloadPaused handle]\<rparr>
           in case de_state e of
                DDownloading \<Rightarrow> (Inr (), run_activation paused)
              | DQueued \<Rightarrow> (Inr (), run_activation paused)
              | DChecking _ \<Rightarrow> (Inr (), run_activation paused)
              | DSeeding \<Rightarrow> (Inr (), run_activation paused)
              | other \<Rightarrow> (Inl (InvalidState handle (show_state other) ''pause''), s)))"

definition session_resume :: "download_handle \<Rightarrow> basic_session \<Rightarrow> (session_error + unit) \<times> basic_session" where
  "session_resume handle s =
     (case find_download handle s of
        None \<Rightarrow> (Inl (SessionNotFound handle), s)
      | Some i \<Rightarrow>
          (let e = bs_entries s ! i in
           case de_state e of
             DPaused _ \<Rightarrow>
               (Inr (), run_activation (s\<lparr>bs_entries := (bs_entries s)[i := e\<lparr>de_state := DQueued\<rparr>]\<rparr>))
           | other \<Rightarrow> (Inl (InvalidState handle (show_state other) ''resume''), s)))"

definition session_remove :: "download_handle \<Rightarrow> basic_session \<Rightarrow> (session_error + unit) \<times> basic_session" where
  "session_remove handle s =
     (case find_download handle s of
        None \<Rightarrow> (Inl (SessionNotFound handle), s)
      | Some i \<Rightarrow>
          (Inr (), run_activation (s\<lparr>bs_entries := remove_at i (bs_entries s),
                                     bs_events := bs_events s @ [DownloadRemoved handle]\<rparr>)))"

definition set_priority :: "download_handle \<Rightarrow> 32 word \<Rightarrow> basic_session \<Rightarrow> (session_error + unit) \<times> basic_session" where
  "set_priority handle priority s =
     (case find_download handle s of
        None \<Rightarrow> (Inl (SessionNotFound handle), s)
      | Some i \<Rightarrow>
          (Inr (), s\<lparr>bs_entries := (bs_entries s)[i := (bs_entries s ! i)\<lparr>de_priority := priority\<rparr>]\<rparr>))"

definition poll_events :: "basic_session \<Rightarrow> session_event list \<times> basic_session" where
  "poll_events s = (bs_events s, s\<lparr>bs_events := []\<rparr>)"

section \<open>What an activation does\<close>

text \<open>
  The reference: the queued downloads ordered once, by descending priority and, within a priority, by
  the time of arrival, and the first of them started.
\<close>

definition activation_order :: "download_entry list \<Rightarrow> (nat \<times> download_entry) list" where
  "activation_order es = rev (sort_key activation_key (queued_entries es))"

definition start_download :: "nat \<times> download_entry \<Rightarrow> download_entry list \<Rightarrow> download_entry list" where
  "start_download x es = es[fst x := (snd x)\<lparr>de_state := DDownloading\<rparr>]"

lemma candidate_in_range:
  assumes "max_by_key activation_key (queued_entries es) = Some (i, e)"
  shows "i < length es" "es ! i = e" "de_state e = DQueued"
proof -
  have "(i, e) \<in> set (queued_entries es)"
    using max_by_key_Some [OF assms] by blast
  then show "i < length es" "es ! i = e" "de_state e = DQueued"
    by (simp_all add: queued_entries_iff)
qed

lemma active_count_start:
  assumes "i < length es" and "de_state (es ! i) = DQueued"
  shows "active_count (es[i := e\<lparr>de_state := DDownloading\<rparr>]) = Suc (active_count es)"
  using length_filter_update [OF assms(1), of "\<lambda>e. de_state e = DDownloading" "e\<lparr>de_state := DDownloading\<rparr>"] assms(2)
  by (simp add: active_count_def)

lemma order_next:
  assumes "max_by_key activation_key (queued_entries es) = Some (i, e)"
  shows "activation_order es = (i, e) # activation_order (es[i := e\<lparr>de_state := DDownloading\<rparr>])"
proof -
  let ?qs = "sort_key activation_key (queued_entries es)"
  note cand = candidate_in_range [OF assms]
  have "queued_entries es \<noteq> []" and last: "last ?qs = (i, e)"
    using assms by (auto simp: max_by_key_sort split: if_splits)
  then have "?qs \<noteq> []"
    by (metis length_0_conv length_sort)
  then have qs: "?qs = butlast ?qs @ [(i, e)]"
    using last by (metis append_butlast_last_id)
  have "distinct (map fst ?qs)"
    using distinct_queued [of es] by (metis distinct_map distinct_sort set_sort)
  then have "\<forall>(j, _) \<in> set (butlast ?qs). j \<noteq> i"
    by (subst (asm) qs) (auto simp: rev_image_eqI)
  then have "filter (\<lambda>(j, _). j \<noteq> i) ?qs = butlast ?qs"
    by (subst qs) (auto simp: filter_id_conv)
  then have "sort_key activation_key (queued_entries (es[i := e\<lparr>de_state := DDownloading\<rparr>])) = butlast ?qs"
    using cand(1) by (simp add: queued_update filter_sort [symmetric])
  then show ?thesis
    unfolding activation_order_def by (subst qs) simp
qed

lemma activate_reference:
  "activate_queued limit es events =
     (let started = take (limit - active_count es) (activation_order es)
      in (fold start_download started es, events @ map (\<lambda>x. DownloadStarted (de_handle (snd x))) started))"
proof (induction limit es events rule: activate_queued.induct)
  case (1 limit es events)
  show ?case
  proof (cases "active_count es < limit")
    case False
    then show ?thesis
      by (simp add: activate_queued.simps [of limit es])
  next
    case True
    show ?thesis
    proof (cases "max_by_key activation_key (queued_entries es)")
      case None
      then show ?thesis
        by (simp add: activate_queued.simps [of limit es] activation_order_def)
    next
      case (Some x)
      obtain i e where x: "x = (i, e)"
        by (cases x)
      note cand = candidate_in_range [OF Some [unfolded x]]
      have "limit - active_count es = Suc (limit - active_count (es[i := e\<lparr>de_state := DDownloading\<rparr>]))"
        using True cand active_count_start [of i es e] by simp
      then show ?thesis
        using 1 [OF True Some] x True Some order_next [OF Some [unfolded x]]
        by (simp add: activate_queued.simps [of limit es] start_download_def Let_def)
    qed
  qed
qed

lemma activate_post:
  assumes "activate_queued limit es events = (es', events')"
  shows "(active_count es \<le> limit \<longrightarrow> active_count es' \<le> limit)
    \<and> (active_count es' < limit \<longrightarrow> queued_entries es' = [])
    \<and> map de_handle es' = map de_handle es
    \<and> (\<forall>e' \<in> set es'. de_state e' = DDownloading \<or> e' \<in> set es)"
  using assms
proof (induction limit es events arbitrary: es' events' rule: activate_queued.induct)
  case (1 limit es events)
  note run = 1(2)
  show ?case
  proof (cases "active_count es < limit")
    case False
    then show ?thesis
      using run by (simp add: activate_queued.simps [of limit es])
  next
    case True
    show ?thesis
    proof (cases "max_by_key activation_key (queued_entries es)")
      case None
      then show ?thesis
        using run True by (simp add: activate_queued.simps [of limit es])
    next
      case (Some x)
      obtain i e where x: "x = (i, e)"
        by (cases x)
      note cand = candidate_in_range [OF Some [unfolded x]]
      let ?es = "es[i := e\<lparr>de_state := DDownloading\<rparr>]"
      have "activate_queued limit ?es (events @ [DownloadStarted (de_handle e)]) = (es', events')"
        using run True Some x by (simp add: activate_queued.simps [of limit es])
      note ih = 1(1) [OF True Some x [symmetric] this]
      have "map de_handle ?es = map de_handle es"
        using cand by (simp add: map_update list_update_same_conv)
      moreover have "\<forall>e' \<in> set ?es. de_state e' = DDownloading \<or> e' \<in> set es"
        using set_update_subset_insert [of es i] by fastforce
      moreover have "active_count ?es \<le> limit"
        using True cand by (simp add: active_count_start)
      ultimately show ?thesis
        using ih by metis
    qed
  qed
qed

lemma activation_order_rest:
  assumes "activate_queued limit es events = (es', events')"
  shows "activation_order es' = drop (limit - active_count es) (activation_order es)"
  using assms
proof (induction limit es events arbitrary: es' events' rule: activate_queued.induct)
  case (1 limit es events)
  note run = 1(2)
  show ?case
  proof (cases "active_count es < limit")
    case False
    then show ?thesis
      using run by (simp add: activate_queued.simps [of limit es])
  next
    case True
    show ?thesis
    proof (cases "max_by_key activation_key (queued_entries es)")
      case None
      then show ?thesis
        using run True by (simp add: activate_queued.simps [of limit es] activation_order_def)
    next
      case (Some x)
      obtain i e where x: "x = (i, e)"
        by (cases x)
      note cand = candidate_in_range [OF Some [unfolded x]]
      let ?es = "es[i := e\<lparr>de_state := DDownloading\<rparr>]"
      have "activate_queued limit ?es (events @ [DownloadStarted (de_handle e)]) = (es', events')"
        using run True Some x by (simp add: activate_queued.simps [of limit es])
      note ih = 1(1) [OF True Some x [symmetric] this]
      have "limit - active_count es = Suc (limit - active_count ?es)"
        using True cand by (simp add: active_count_start)
      with ih show ?thesis
        using order_next [OF Some [unfolded x]] by simp
    qed
  qed
qed

lemma activation_order_sorted: "sorted (rev (map activation_key (activation_order es)))"
  by (simp add: activation_order_def rev_map)

lemma set_activation_order [simp]: "set (activation_order es) = set (queued_entries es)"
  by (simp add: activation_order_def)

section \<open>Histories\<close>

datatype session_call =
  AddDownload nat "32 word"
| PauseDownload download_handle
| ResumeDownload download_handle
| RemoveDownload download_handle
| SetPriority download_handle "32 word"
| PollEvents

fun session_step :: "session_call \<Rightarrow> basic_session \<Rightarrow> basic_session" where
  "session_step (AddDownload now priority) s = snd (add_download now priority s)"
| "session_step (PauseDownload h) s = snd (session_pause h s)"
| "session_step (ResumeDownload h) s = snd (session_resume h s)"
| "session_step (RemoveDownload h) s = snd (session_remove h s)"
| "session_step (SetPriority h priority) s = snd (set_priority h priority s)"
| "session_step PollEvents s = snd (poll_events s)"

definition session_inv :: "basic_session \<Rightarrow> bool" where
  "session_inv s \<longleftrightarrow>
     active_count (bs_entries s) \<le> max_active_downloads (bs_config s) \<and>
     (active_count (bs_entries s) < max_active_downloads (bs_config s) \<longrightarrow> queued_entries (bs_entries s) = [])"

lemma run_activation_post:
  assumes "active_count (bs_entries s) \<le> max_active_downloads (bs_config s)"
  shows "session_inv (run_activation s)"
    and "map de_handle (bs_entries (run_activation s)) = map de_handle (bs_entries s)"
    and "bs_next_id (run_activation s) = bs_next_id s"
    and "bs_config (run_activation s) = bs_config s"
proof -
  obtain es events where run:
    "activate_queued (max_active_downloads (bs_config s)) (bs_entries s) (bs_events s) = (es, events)"
    by fastforce
  note post = activate_post [OF run]
  show "session_inv (run_activation s)"
    "map de_handle (bs_entries (run_activation s)) = map de_handle (bs_entries s)"
    "bs_next_id (run_activation s) = bs_next_id s" "bs_config (run_activation s) = bs_config s"
    using post assms by (simp_all add: session_inv_def run_activation_def run)
qed

lemma active_count_update:
  assumes "de_state e \<noteq> DDownloading"
  shows "active_count (es[i := e]) \<le> active_count es"
proof (cases "i < length es")
  case True
  then show ?thesis
    using assms length_filter_update [OF True, of "\<lambda>e. de_state e = DDownloading" e]
    by (simp add: active_count_def split: if_splits)
qed (simp add: list_update_beyond)

lemma active_count_remove: "active_count (remove_at i es) \<le> active_count es"
proof -
  have "filter P (take i es) @ filter P (drop i es) = filter P es" for P :: "download_entry \<Rightarrow> bool"
    by (metis append_take_drop_id filter_append)
  then have "active_count es = length (filter (\<lambda>e. de_state e = DDownloading) (take i es))
      + length (filter (\<lambda>e. de_state e = DDownloading) (drop i es))"
    by (metis active_count_def length_append)
  moreover have "length (filter P (drop (Suc i) es)) \<le> length (filter P (drop i es))" for P :: "download_entry \<Rightarrow> bool"
    by (cases "i < length es") (simp_all add: Cons_nth_drop_Suc [symmetric])
  ultimately show ?thesis
    by (simp add: active_count_def remove_at_def)
qed

lemma find_download_Some:
  "find_download h s = Some i \<Longrightarrow> i < length (bs_entries s) \<and> de_handle (bs_entries s ! i) = h"
  by (simp add: find_download_def position_Some)

lemma handles_update:
  "i < length es \<Longrightarrow> de_handle e = de_handle (es ! i) \<Longrightarrow> map de_handle (es[i := e]) = map de_handle es"
  by (simp add: map_update list_update_same_conv)

text \<open>What a call does to the handles of the session.\<close>

fun step_handles :: "session_call \<Rightarrow> u64 \<Rightarrow> download_handle list \<Rightarrow> download_handle list" where
  "step_handles (AddDownload _ _) next hs = hs @ [next]"
| "step_handles (RemoveDownload h) next hs =
     (case position (\<lambda>k. k = h) hs of None \<Rightarrow> hs | Some i \<Rightarrow> remove_at i hs)"
| "step_handles _ next hs = hs"

lemma position_map: "position P (map f xs) = position (P \<circ> f) xs"
  by (induction xs) auto

lemma session_step_inv:
  assumes "session_inv s"
  shows "session_inv (session_step c s)
    \<and> map de_handle (bs_entries (session_step c s)) = step_handles c (bs_next_id s) (map de_handle (bs_entries s))
    \<and> bs_next_id (session_step c s) = bs_next_id s + (case c of AddDownload _ _ \<Rightarrow> 1 | _ \<Rightarrow> 0)
    \<and> bs_config (session_step c s) = bs_config s"
proof -
  have room: "active_count (bs_entries s) \<le> max_active_downloads (bs_config s)"
    using assms by (simp add: session_inv_def)
  show ?thesis
  proof (cases c)
    case (AddDownload now p)
    have "active_count (bs_entries s @ [e]) \<le> max_active_downloads (bs_config s)" if "de_state e = DQueued" for e
      using room that by (simp add: active_count_def)
    then show ?thesis
      using AddDownload by (simp add: add_download_def Let_def run_activation_post)
  next
    case (PauseDownload h)
    show ?thesis
    proof (cases "find_download h s")
      case (Some i)
      note i = find_download_Some [OF Some]
      let ?s = "s\<lparr>bs_entries := (bs_entries s)[i := (bs_entries s ! i)\<lparr>de_state := DPaused (de_state (bs_entries s ! i))\<rparr>],
        bs_events := bs_events s @ [DownloadPaused h]\<rparr>"
      have "active_count (bs_entries ?s) \<le> max_active_downloads (bs_config ?s)"
        using active_count_update [of "(bs_entries s ! i)\<lparr>de_state := DPaused (de_state (bs_entries s ! i))\<rparr>" "bs_entries s" i]
          room by simp
      note post = run_activation_post [OF this]
      have "map de_handle (bs_entries ?s) = map de_handle (bs_entries s)"
        using i by (simp add: handles_update)
      with post assms show ?thesis
        using PauseDownload Some by (auto simp: session_pause_def Let_def split: download_state.split)
    qed (use PauseDownload assms in \<open>simp add: session_pause_def\<close>)
  next
    case (ResumeDownload h)
    show ?thesis
    proof (cases "find_download h s")
      case (Some i)
      note i = find_download_Some [OF Some]
      let ?s = "s\<lparr>bs_entries := (bs_entries s)[i := (bs_entries s ! i)\<lparr>de_state := DQueued\<rparr>]\<rparr>"
      have "active_count (bs_entries ?s) \<le> max_active_downloads (bs_config ?s)"
        using active_count_update [of "(bs_entries s ! i)\<lparr>de_state := DQueued\<rparr>" "bs_entries s" i] room by simp
      note post = run_activation_post [OF this]
      have "map de_handle (bs_entries ?s) = map de_handle (bs_entries s)"
        using i by (simp add: handles_update)
      with post assms show ?thesis
        using ResumeDownload Some by (auto simp: session_resume_def Let_def split: download_state.split)
    qed (use ResumeDownload assms in \<open>simp add: session_resume_def\<close>)
  next
    case (RemoveDownload h)
    have find: "position (\<lambda>k. k = h) (map de_handle (bs_entries s)) = find_download h s"
      by (simp add: position_map find_download_def comp_def)
    show ?thesis
    proof (cases "find_download h s")
      case (Some i)
      let ?s = "s\<lparr>bs_entries := remove_at i (bs_entries s), bs_events := bs_events s @ [DownloadRemoved h]\<rparr>"
      have "active_count (bs_entries ?s) \<le> max_active_downloads (bs_config ?s)"
        using active_count_remove [of i "bs_entries s"] room by simp
      note post = run_activation_post [OF this]
      with assms show ?thesis
        using RemoveDownload Some find by (simp add: session_remove_def map_remove_at)
    qed (use RemoveDownload assms find in \<open>simp add: session_remove_def\<close>)
  next
    case (SetPriority h p)
    show ?thesis
    proof (cases "find_download h s")
      case (Some i)
      note i = find_download_Some [OF Some]
      let ?e = "(bs_entries s ! i)\<lparr>de_priority := p\<rparr>"
      have "active_count ((bs_entries s)[i := ?e]) = active_count (bs_entries s)"
        using i length_filter_update [of i "bs_entries s" "\<lambda>e. de_state e = DDownloading" ?e]
        by (simp add: active_count_def split: if_splits)
      moreover have "queued_entries ((bs_entries s)[i := ?e]) = []" if "queued_entries (bs_entries s) = []"
      proof -
        have "de_state (bs_entries s ! j) \<noteq> DQueued" if "j < length (bs_entries s)" for j
          using \<open>queued_entries (bs_entries s) = []\<close> queued_entries_iff [of j _ "bs_entries s"] that by auto
        then have "(j, e) \<notin> set (queued_entries ((bs_entries s)[i := ?e]))" for j e
          using i by (auto simp: queued_entries_iff nth_list_update split: if_splits)
        then show ?thesis
          by (metis list.set_intros(1) neq_Nil_conv prod.exhaust)
      qed
      ultimately show ?thesis
        using SetPriority Some assms i by (auto simp: set_priority_def session_inv_def handles_update)
    qed (use SetPriority assms in \<open>simp add: set_priority_def\<close>)
  next
    case PollEvents
    then show ?thesis
      using assms by (simp add: poll_events_def session_inv_def)
  qed
qed

lemma session_new_inv: "session_inv (session_new config)"
  by (simp add: session_inv_def session_new_def active_count_def queued_entries_def)

interpretation scheduler: step_system "{s. \<exists>config. s = session_new config}" session_step session_inv
  by unfold_locales (use session_new_inv session_step_inv in blast)+

text \<open>
  The specification: a session is a set of handles. The next handle is one more than the number of
  downloads added so far, adding puts it in, removing takes a handle out.
\<close>

fun spec_step :: "session_call \<Rightarrow> nat \<times> download_handle set \<Rightarrow> nat \<times> download_handle set" where
  "spec_step (AddDownload _ _) (n, live) = (Suc n, insert (word_of_nat n) live)"
| "spec_step (RemoveDownload h) (n, live) = (n, live - {h})"
| "spec_step _ (n, live) = (n, live)"

definition live_downloads :: "session_call list \<Rightarrow> download_handle set" where
  "live_downloads calls = snd (fold spec_step calls (1, {}))"

lemma step_handles_spec:
  assumes "distinct hs" and "spec_step c (n, set hs) = (n', live)" and "\<forall>h \<in> set hs. unat h < n" and "n < 2 ^ 64 - 1"
  shows "distinct (step_handles c (word_of_nat n) hs) \<and> set (step_handles c (word_of_nat n) hs) = live
    \<and> word_of_nat n' = (word_of_nat n :: u64) + (case c of AddDownload _ _ \<Rightarrow> 1 | _ \<Rightarrow> 0)
    \<and> n' \<le> Suc n \<and> (\<forall>h \<in> live. unat h < n')"
proof (cases c)
  case (AddDownload now p)
  have n: "unat (word_of_nat n :: u64) = n"
    using assms(4) by (simp add: unsigned_of_nat take_bit_nat_eq_self)
  then have "word_of_nat n \<notin> set hs"
    using assms(3) by force
  with n show ?thesis
    using AddDownload assms by (auto simp: less_Suc_eq)
next
  case (RemoveDownload h)
  then show ?thesis
    using assms distinct_remove_at [OF assms(1)]
    by (auto simp: position_None position_Some split: option.split)
qed (use assms in auto)

lemma session_refines_spec:
  assumes "length calls < 2 ^ 64 - 1"
  shows "\<exists>n. fold spec_step calls (1, {}) = (n, set (map de_handle (bs_entries (fold session_step calls (session_new config)))))
    \<and> bs_next_id (fold session_step calls (session_new config)) = word_of_nat n \<and> n \<le> Suc (length calls)
    \<and> distinct (map de_handle (bs_entries (fold session_step calls (session_new config))))
    \<and> (\<forall>e \<in> set (bs_entries (fold session_step calls (session_new config))). unat (de_handle e) < n)
    \<and> bs_config (fold session_step calls (session_new config)) = config"
  using assms
proof (induction calls rule: rev_induct)
  case Nil
  then show ?case
    by (simp add: session_new_def)
next
  case (snoc c calls)
  let ?s = "fold session_step calls (session_new config)"
  let ?hs = "map de_handle (bs_entries ?s)"
  from snoc obtain n where n: "fold spec_step calls (1, {}) = (n, set ?hs)" "bs_next_id ?s = word_of_nat n"
    "n \<le> Suc (length calls)" "distinct ?hs" "\<forall>h \<in> set ?hs. unat h < n" "bs_config ?s = config"
    by auto
  obtain n' live where spec: "spec_step c (n, set ?hs) = (n', live)"
    by fastforce
  have inv: "session_inv ?s"
    by (rule scheduler.inv_fold [OF session_new_inv])
  have "n < 2 ^ 64 - 1"
    using n(3) snoc.prems by simp
  note hs = step_handles_spec [OF n(4) spec n(5) this]
  note step = session_step_inv [OF inv, of c, unfolded n(2)]
  have "map de_handle (bs_entries (session_step c ?s)) = step_handles c (word_of_nat n) ?hs"
    using step by blast
  then have live: "set (map de_handle (bs_entries (session_step c ?s))) = live"
    "distinct (map de_handle (bs_entries (session_step c ?s)))"
    using hs by argo+
  then have "\<forall>e \<in> set (bs_entries (session_step c ?s)). unat (de_handle e) < n'"
    using hs by (metis imageI set_map)
  with live hs step n spec show ?case
    by (intro exI [of _ n']) simp
qed

text \<open>Of two downloads of one priority that arrived at the same instant the later one is started.\<close>

lemma equal_times_not_fifo:
  "snd (activate_queued 1
     [\<lparr>de_handle = 1, de_priority = 0, de_state = DQueued, de_added_at = 7\<rparr>,
      \<lparr>de_handle = 2, de_priority = 0, de_state = DQueued, de_added_at = 7\<rparr>] []) = [DownloadStarted 2]"
  by (simp add: activate_queued.simps active_count_def queued_entries_def activation_key_def max_by_key_def)

section \<open>Properties\<close>

text \<open>
  C33: the queue of a session is exact in every history. Never more downloads are active than
  the configuration allows; a download waits only while all slots are taken; the handles are distinct,
  and the session holds precisely the downloads that were added and not removed. Fewer calls than
  there are handles are assumed.
\<close>

theorem session_queue_exact:
  assumes "length calls < 2 ^ 64 - 1"
  shows "let es = bs_entries (fold session_step calls (session_new config)) in
    active_count es \<le> max_active_downloads config
    \<and> (active_count es = max_active_downloads config \<or> DQueued \<notin> de_state ` set es)
    \<and> distinct (map de_handle es) \<and> de_handle ` set es = live_downloads calls"
proof -
  let ?es = "bs_entries (fold session_step calls (session_new config))"
  from session_refines_spec [OF assms, of config] have spec:
    "distinct (map de_handle ?es)" "de_handle ` set ?es = live_downloads calls"
    "bs_config (fold session_step calls (session_new config)) = config"
    by (auto simp: live_downloads_def)
  have "session_inv (fold session_step calls (session_new config))"
    by (rule scheduler.inv_fold [OF session_new_inv])
  moreover have "DQueued \<notin> de_state ` set ?es" if "queued_entries ?es = []"
  proof
    assume "DQueued \<in> de_state ` set ?es"
    then obtain j where "j < length ?es" "de_state (?es ! j) = DQueued"
      by (auto simp: in_set_conv_nth)
    then show False
      using queued_entries_iff [of j "?es ! j" ?es] that by simp
  qed
  ultimately show ?thesis
    using spec by (auto simp: session_inv_def Let_def)
qed

theorem session_queue_exact_witness:
  "let es = bs_entries (fold session_step
       [AddDownload 0 0, AddDownload 1 5, AddDownload 2 5, RemoveDownload 1, PauseDownload 2, ResumeDownload 2]
       (session_new (default_session_config\<lparr>max_active_downloads := 1\<rparr>)))
   in active_count es \<le> 1 \<and> de_handle ` set es = {2, 3}"
proof -
  let ?calls = "[AddDownload 0 0, AddDownload 1 5, AddDownload 2 5, RemoveDownload 1, PauseDownload 2, ResumeDownload 2]"
  have fits: "length ?calls < 2 ^ 64 - 1" and live: "live_downloads ?calls = {2, 3}"
    and limit: "max_active_downloads (default_session_config\<lparr>max_active_downloads := 1\<rparr>) = 1"
    by (auto simp: live_downloads_def)
  from session_queue_exact [OF fits, unfolded Let_def live, of "default_session_config\<lparr>max_active_downloads := 1\<rparr>",
      unfolded limit]
  show ?thesis
    unfolding Let_def by blast
qed

text \<open>
  activation is fair. An activation starts the first of the queued downloads in the order
  of descending priority and then of arrival, as many as there are free slots; it announces them in
  that order, and no download that still waits has a higher priority, or an equal one and an earlier
  arrival, than one that was started.
\<close>

theorem activation_starts_best:
  assumes "activate_queued limit es events = (es', events')"
    and "x \<in> set (take (limit - active_count es) (activation_order es))" and "y \<in> set (queued_entries es')"
  shows "es' = fold start_download (take (limit - active_count es) (activation_order es)) es
    \<and> events' = events @ map (\<lambda>x. DownloadStarted (de_handle (snd x))) (take (limit - active_count es) (activation_order es))
    \<and> (sint (de_priority (snd y)) < sint (de_priority (snd x))
       \<or> de_priority (snd y) = de_priority (snd x) \<and> de_added_at (snd x) \<le> de_added_at (snd y))"
proof -
  let ?l = "activation_order es" and ?k = "limit - active_count es"
  have "y \<in> set (drop ?k ?l)"
    using assms(3) activation_order_rest [OF assms(1)] set_activation_order [of es'] by simp
  moreover have "sorted_wrt (\<lambda>x y. activation_key y \<le> activation_key x) (take ?k ?l @ drop ?k ?l)"
    using activation_order_sorted [of es] by (simp add: sorted_wrt_map sorted_wrt_rev)
  ultimately have "activation_key y \<le> activation_key x"
    using assms(2) by (subst (asm) sorted_wrt_append) blast
  then have "sint (de_priority (snd y)) < sint (de_priority (snd x))
       \<or> sint (de_priority (snd y)) = sint (de_priority (snd x)) \<and> de_added_at (snd x) \<le> de_added_at (snd y)"
    by (auto simp: activation_key_def)
  then have "sint (de_priority (snd y)) < sint (de_priority (snd x))
       \<or> de_priority (snd y) = de_priority (snd x) \<and> de_added_at (snd x) \<le> de_added_at (snd y)"
    by (metis signed_word_eqI)
  then show ?thesis
    using assms(1) activate_reference [of limit es events] by (simp add: Let_def)
qed

theorem activation_starts_best_witness:
  "\<exists>es' events'. activate_queued 1
      [\<lparr>de_handle = 1, de_priority = 0, de_state = DQueued, de_added_at = 5\<rparr>,
       \<lparr>de_handle = 2, de_priority = 7, de_state = DQueued, de_added_at = 6\<rparr>] [] = (es', events')
    \<and> events' = [DownloadStarted 2]"
proof -
  let ?e1 = "\<lparr>de_handle = 1, de_priority = 0, de_state = DQueued, de_added_at = 5\<rparr> :: download_entry"
  let ?e2 = "\<lparr>de_handle = 2, de_priority = 7, de_state = DQueued, de_added_at = 6\<rparr> :: download_entry"
  obtain es' events' where run: "activate_queued 1 [?e1, ?e2] [] = (es', events')"
    by fastforce
  have order: "activation_order [?e1, ?e2] = [(1, ?e2), (0, ?e1)]" and slots: "active_count [?e1, ?e2] = 0"
    by (simp_all add: activation_order_def queued_entries_def activation_key_def active_count_def)
  have waits: "(0, ?e1) \<in> set (queued_entries es')"
    using activation_order_rest [OF run]
    by (simp add: order slots set_activation_order [symmetric] del: set_activation_order)
  have "(1, ?e2) \<in> set (take (1 - active_count [?e1, ?e2]) (activation_order [?e1, ?e2]))"
    by (simp add: order slots)
  from activation_starts_best [OF run this waits] have "events' = [DownloadStarted 2]"
    by (simp add: order slots)
  with run show ?thesis
    by blast
qed

end
