(* ===== verification/Vdf.thy ===== *)
theory Vdf
  imports Prelude "HOL-Library.AList"
begin

text \<open>
  The parser of Steam's key-value files, \<open>src/source/vdf/mod.rs\<close>: the tokenizer and the recursive
  parser with its limits. A text is its UTF-8 bytes; the code looks for ASCII characters only, so a
  step inside a longer character never matters, and unescaping characters is unescaping bytes. A
  section is an association list with distinct keys, in the order of their first insertion; the
  \<open>HashMap\<close> of the code has no order.

  The iterator over the tokens is passed through: also an attempt that fails has consumed tokens.
\<close>

section \<open>Values and tokens\<close>

datatype vdf_value = VdfString bytes | VdfSection "(bytes \<times> vdf_value) list"

definition as_str :: "vdf_value \<Rightarrow> bytes option" where
  "as_str v = (case v of VdfString s \<Rightarrow> Some s | VdfSection _ \<Rightarrow> None)"

definition as_section :: "vdf_value \<Rightarrow> (bytes \<times> vdf_value) list option" where
  "as_section v = (case v of VdfString _ \<Rightarrow> None | VdfSection m \<Rightarrow> Some m)"

definition MAX_VDF_INPUT_SIZE :: nat where "MAX_VDF_INPUT_SIZE = 2 * 1024 * 1024"
definition MAX_VDF_DEPTH :: nat where "MAX_VDF_DEPTH = 64"

datatype token = QuotedString bytes | OpenBrace | CloseBrace

section \<open>Tokens\<close>

text \<open>
  The inner loop over a quoted string: its raw bytes, whether an escape was seen, and what is left,
  from the closing quote on.
\<close>

fun scan_quoted :: "bytes \<Rightarrow> bytes \<times> bool \<times> bytes" where
  "scan_quoted [] = ([], False, [])"
| "scan_quoted (b # bs) =
     (if b = 34 then ([], False, b # bs)
      else if b = 92 then
        (case bs of
           [] \<Rightarrow> ([b], False, [])
         | c # r \<Rightarrow> (case scan_quoted r of (raw, _, rest) \<Rightarrow> (b # c # raw, True, rest)))
      else (case scan_quoted bs of (raw, escapes, rest) \<Rightarrow> (b # raw, escapes, rest)))"

fun unescape :: "bytes \<Rightarrow> bytes" where
  "unescape [] = []"
| "unescape (b # bs) =
     (if b = 92 then (case bs of [] \<Rightarrow> [] | c # r \<Rightarrow> c # unescape r) else b # unescape bs)"

definition quoted_text :: "bytes \<Rightarrow> bool \<Rightarrow> bytes" where
  "quoted_text raw has_escapes = (if has_escapes then unescape raw else raw)"

lemma scan_quoted_shorter: "scan_quoted bs = (raw, escapes, rest) \<Longrightarrow> length rest \<le> length bs"
  by (induction bs arbitrary: raw escapes rest rule: scan_quoted.induct)
    (fastforce split: if_splits list.splits prod.splits)+

function tokenize :: "bytes \<Rightarrow> token list" where
  "tokenize [] = []"
| "tokenize (b # bs) =
     (if b = 34 then
        (case scan_quoted bs of
           (raw, escapes, rest) \<Rightarrow> QuotedString (quoted_text raw escapes) # tokenize (drop 1 rest))
      else if b = 123 then OpenBrace # tokenize bs
      else if b = 125 then CloseBrace # tokenize bs
      else if b = 47 \<and> get_at bs 0 = Some 47 then tokenize (dropWhile (\<lambda>c. c \<noteq> 10) (b # bs))
      else tokenize bs)"
  by pat_completeness auto

termination tokenize
proof (relation "measure length", goal_cases)
  case 2
  then show ?case
    by (auto dest: scan_quoted_shorter [OF sym])
next
  case (5 b bs)
  then have "dropWhile (\<lambda>c. c \<noteq> 10) (b # bs) = dropWhile (\<lambda>c. c \<noteq> 10) bs"
    by simp
  then show ?case
    using length_dropWhile_le [of "\<lambda>c. c \<noteq> 10" bs] by simp
qed simp_all

declare tokenize.simps(2) [simp del]

section \<open>Pairs and sections\<close>

function (sequential)
  parse_pair :: "token list \<Rightarrow> nat \<Rightarrow> (bytes \<times> vdf_value) option \<times> token list"
and
  parse_entries_of :: "token list \<Rightarrow> nat \<Rightarrow> (bytes \<times> vdf_value) list \<Rightarrow> (bytes \<times> vdf_value) list \<times> token list"
where
  "parse_pair [] depth = (None, [])"
| "parse_pair (QuotedString key # ts) depth =
     (case ts of
        [] \<Rightarrow> (None, [])
      | QuotedString s # r \<Rightarrow> (Some (key, VdfString s), r)
      | OpenBrace # r \<Rightarrow>
          if depth \<ge> MAX_VDF_DEPTH then (None, ts)
          else (case parse_entries_of r (depth + 1) [] of (m, r') \<Rightarrow> (Some (key, VdfSection m), r'))
      | CloseBrace # r \<Rightarrow> (None, ts))"
| "parse_pair (t # ts) depth = (None, ts)"
| "parse_entries_of [] depth m = (m, [])"
| "parse_entries_of (CloseBrace # r) depth m = (m, r)"
| "parse_entries_of ts depth m =
     (case parse_pair ts depth of
        (Some (k, v), r) \<Rightarrow> parse_entries_of r depth (AList.update k v m)
      | (None, r) \<Rightarrow> (m, r))"
  by pat_completeness auto

lemma parse_shorter:
  "parse_pair_parse_entries_of_dom (Inl (ts, depth)) \<Longrightarrow>
     length (snd (parse_pair ts depth)) \<le> length ts - 1"
  "parse_pair_parse_entries_of_dom (Inr (ts, depth, m)) \<Longrightarrow>
     length (snd (parse_entries_of ts depth m)) \<le> length ts"
proof (induction ts depth and ts depth m rule: parse_pair_parse_entries_of.pinduct)
qed (fastforce simp: parse_pair.psimps parse_entries_of.psimps split: list.split token.split prod.split option.split)+

termination parse_pair
proof (relation "measure (case_sum (\<lambda>(ts, depth). 2 * length ts) (\<lambda>(ts, depth, m). 2 * length ts + 1))", goal_cases)
  case (4 v va depth m x y xa ya)
  from parse_shorter(1) [OF 4(4)] 4(1-3) show ?case
    by (auto dest!: arg_cong [of _ "parse_pair _ _" snd])
next
  case (6 va depth m x y xa ya)
  from parse_shorter(1) [OF 6(4)] 6(1-3) show ?case
    by (auto dest!: arg_cong [of _ "parse_pair _ _" snd])
qed simp_all

lemma parse_pair_shorter: "parse_pair ts depth = (p, r) \<Longrightarrow> length r \<le> length ts - 1"
  and parse_entries_shorter: "parse_entries_of ts depth m = (m', r) \<Longrightarrow> length r \<le> length ts"
proof (induction ts depth and ts depth m arbitrary: p r and m' r rule: parse_pair_parse_entries_of.induct)
qed (fastforce split: list.splits token.splits prod.splits option.splits if_splits)+

section \<open>Files\<close>

function parse_all :: "token list \<Rightarrow> (bytes \<times> vdf_value) list \<Rightarrow> (bytes \<times> vdf_value) list" where
  "parse_all ts m =
     (if ts = [] then m
      else (case parse_pair ts 0 of
              (Some (k, v), r) \<Rightarrow> parse_all r (AList.update k v m)
            | (None, _) \<Rightarrow> m))"
  by pat_completeness auto
termination parse_all
proof (relation "measure (\<lambda>(ts, m). length ts)", goal_cases)
  case (2 ts m x r p k v)
  then have "parse_pair ts 0 = (x, r)"
    by simp
  from parse_pair_shorter [OF this] 2(1) show ?case
    by (cases ts) auto
qed simp

declare parse_all.simps [simp del]

definition vdf_parse :: "bytes \<Rightarrow> (bytes \<times> vdf_value) list option" where
  "vdf_parse input =
     (if length input > MAX_VDF_INPUT_SIZE then None
      else let m = parse_all (tokenize input) [] in if m = [] then None else Some m)"

section \<open>Well-formed documents\<close>

text \<open>Keys are distinct in every section, and sections nest at most \<open>n\<close> deep.\<close>

fun vdf_ok :: "nat \<Rightarrow> vdf_value \<Rightarrow> bool" where
  "vdf_ok n (VdfString s) = True"
| "vdf_ok 0 (VdfSection m) = False"
| "vdf_ok (Suc n) (VdfSection m) = (distinct (map fst m) \<and> (\<forall>p \<in> set m. vdf_ok n (snd p)))"

definition doc_ok :: "nat \<Rightarrow> (bytes \<times> vdf_value) list \<Rightarrow> bool" where
  "doc_ok n m \<longleftrightarrow> distinct (map fst m) \<and> (\<forall>p \<in> set m. vdf_ok n (snd p))"

lemma vdf_ok_section: "0 < n \<Longrightarrow> vdf_ok n (VdfSection m) \<longleftrightarrow> doc_ok (n - 1) m"
  by (cases n) (simp_all add: doc_ok_def)

lemma doc_ok_update:
  assumes "doc_ok n m" and "vdf_ok n v"
  shows "doc_ok n (AList.update k v m)"
proof -
  have "set (AList.update k v m) \<subseteq> insert (k, v) (set m)"
    by (induction m) auto
  with assms show ?thesis
    by (fastforce simp: doc_ok_def distinct_update)
qed

lemma parse_ok:
  "parse_pair ts depth = (Some (k, v), r) \<Longrightarrow> depth \<le> MAX_VDF_DEPTH \<Longrightarrow> vdf_ok (MAX_VDF_DEPTH - depth) v"
  "parse_entries_of ts depth m = (m', r) \<Longrightarrow> depth \<le> MAX_VDF_DEPTH \<Longrightarrow> doc_ok (MAX_VDF_DEPTH - depth) m \<Longrightarrow>
     doc_ok (MAX_VDF_DEPTH - depth) m'"
proof (induction ts depth and ts depth m arbitrary: k v r and m' r rule: parse_pair_parse_entries_of.induct)
  case (2 key ts depth)
  show ?case
  proof (cases ts)
    case (Cons t ts')
    show ?thesis
    proof (cases t)
      case OpenBrace
      with 2(2,3) Cons obtain m where m: "depth < MAX_VDF_DEPTH" "parse_entries_of ts' (depth + 1) [] = (m, r)"
        "v = VdfSection m"
        by (auto split: if_splits prod.splits)
      have "doc_ok (MAX_VDF_DEPTH - (depth + 1)) m"
        using 2(1) [OF Cons OpenBrace _ m(2)] m(1) by (simp add: doc_ok_def)
      with m show ?thesis
        by (simp add: vdf_ok_section)
    qed (use 2(2) Cons in auto)
  qed (use 2(2) in simp)
qed (auto simp: doc_ok_update split: prod.splits option.splits)

section \<open>Printing\<close>

text \<open>
  The specification of the format: a printer with escapes, one pair to a line. The program has no
  printer; Steam writes these files.
\<close>

definition escape :: "bytes \<Rightarrow> bytes" where
  "escape s = concat (map (\<lambda>b. if b = 34 \<or> b = 92 then [92, b] else [b]) s)"

definition quote :: "bytes \<Rightarrow> bytes" where
  "quote s = 34 # escape s @ [34]"

fun print_value :: "vdf_value \<Rightarrow> bytes" where
  "print_value (VdfString s) = quote s"
| "print_value (VdfSection m) =
     [123, 10] @ concat (map (\<lambda>p. quote (fst p) @ 9 # print_value (snd p) @ [10]) m) @ [125]"

definition print_document :: "(bytes \<times> vdf_value) list \<Rightarrow> bytes" where
  "print_document m = concat (map (\<lambda>p. quote (fst p) @ 9 # print_value (snd p) @ [10]) m)"

fun value_tokens :: "vdf_value \<Rightarrow> token list" where
  "value_tokens (VdfString s) = [QuotedString s]"
| "value_tokens (VdfSection m) =
     OpenBrace # concat (map (\<lambda>p. QuotedString (fst p) # value_tokens (snd p)) m) @ [CloseBrace]"

definition entry_tokens :: "(bytes \<times> vdf_value) list \<Rightarrow> token list" where
  "entry_tokens m = concat (map (\<lambda>p. QuotedString (fst p) # value_tokens (snd p)) m)"

lemma entry_tokens_simps [simp]:
  "entry_tokens [] = []"
  "entry_tokens (p # m) = QuotedString (fst p) # value_tokens (snd p) @ entry_tokens m"
  by (simp_all add: entry_tokens_def)

lemma tokenize_skip:
  "tokenize (9 # bs) = tokenize bs" "tokenize (10 # bs) = tokenize bs"
  "tokenize (123 # bs) = OpenBrace # tokenize bs" "tokenize (125 # bs) = CloseBrace # tokenize bs"
  by (simp_all add: tokenize.simps)

lemma scan_escape:
  "scan_quoted (escape s @ 34 # rest) = (escape s, (\<exists>b \<in> set s. b = 34 \<or> b = 92), 34 # rest)"
  by (induction s) (auto simp: escape_def)

lemma unescape_escape: "unescape (escape s) = s"
  by (induction s) (auto simp: escape_def)

lemma escape_plain: "\<not> (\<exists>b \<in> set s. b = 34 \<or> b = 92) \<Longrightarrow> escape s = s"
  by (induction s) (auto simp: escape_def)

lemma tokenize_quote: "tokenize (quote s @ rest) = QuotedString s # tokenize rest"
proof -
  have "quoted_text (escape s) (\<exists>b \<in> set s. b = 34 \<or> b = 92) = s"
    using escape_plain [of s] by (simp add: quoted_text_def unescape_escape)
  then show ?thesis
    by (simp add: quote_def tokenize.simps scan_escape)
qed

lemma tokenize_entries:
  assumes "\<And>p rest. p \<in> set m \<Longrightarrow> tokenize (print_value (snd p) @ rest) = value_tokens (snd p) @ tokenize rest"
  shows "tokenize (concat (map (\<lambda>p. quote (fst p) @ 9 # print_value (snd p) @ [10]) m) @ rest) = entry_tokens m @ tokenize rest"
  using assms by (induction m) (simp_all add: tokenize_quote tokenize_skip)

lemma tokenize_value: "tokenize (print_value v @ rest) = value_tokens v @ tokenize rest"
proof (induction v arbitrary: rest rule: print_value.induct)
  case (1 s)
  show ?case
    by (simp add: tokenize_quote)
next
  case (2 m)
  then have "tokenize (concat (map (\<lambda>p. quote (fst p) @ 9 # print_value (snd p) @ [10]) m) @ 125 # rest)
      = entry_tokens m @ CloseBrace # tokenize rest"
    by (subst tokenize_entries) (auto simp: tokenize_skip)
  then show ?case
    by (simp add: tokenize_skip entry_tokens_def)
qed

lemma tokenize_document: "tokenize (print_document m) = entry_tokens m"
  using tokenize_entries [of m "[]"] by (simp add: tokenize_value print_document_def)

section \<open>Parsing what was printed\<close>

lemma update_fresh: "k \<notin> fst ` set m \<Longrightarrow> AList.update k v m = m @ [(k, v)]"
  by (induction m) auto

text \<open>A pair is parsed back when its value is, and then so are the entries of a section.\<close>

lemma parse_entries_tokens:
  assumes "\<And>p rest. p \<in> set m \<Longrightarrow>
      parse_pair (QuotedString (fst p) # value_tokens (snd p) @ rest) depth = (Some p, rest)"
    and "distinct (map fst (acc @ m))"
  shows "parse_entries_of (entry_tokens m @ CloseBrace # rest) depth acc = (acc @ m, rest)"
  using assms
proof (induction m arbitrary: acc)
  case (Cons p m)
  have "AList.update (fst p) (snd p) acc = acc @ [p]"
    using Cons.prems(2) update_fresh [of "fst p" acc "snd p"] by simp
  moreover have "parse_entries_of (entry_tokens m @ CloseBrace # rest) depth (acc @ [p]) = ((acc @ [p]) @ m, rest)"
    by (rule Cons.IH) (use Cons.prems in auto)
  ultimately show ?case
    using Cons.prems(1) [of p] by (cases p) simp
qed simp

lemma parse_pair_tokens:
  "vdf_ok n v \<Longrightarrow> depth + n \<le> MAX_VDF_DEPTH \<Longrightarrow>
     parse_pair (QuotedString k # value_tokens v @ rest) depth = (Some (k, v), rest)"
proof (induction n v arbitrary: depth k rest rule: vdf_ok.induct)
  case (3 n m)
  have "parse_entries_of (entry_tokens m @ CloseBrace # rest) (depth + 1) [] = ([] @ m, rest)"
    by (rule parse_entries_tokens) (use 3 in auto)
  with 3(3) show ?case
    by (simp add: entry_tokens_def)
qed simp_all

lemma parse_all_tokens:
  assumes "doc_ok MAX_VDF_DEPTH (acc @ m)"
  shows "parse_all (entry_tokens m) acc = acc @ m"
  using assms
proof (induction m arbitrary: acc)
  case (Cons p m)
  have "AList.update (fst p) (snd p) acc = acc @ [p]"
    using Cons.prems update_fresh [of "fst p" acc "snd p"] by (simp add: doc_ok_def)
  moreover have "parse_all (entry_tokens m) (acc @ [p]) = (acc @ [p]) @ m"
    by (rule Cons.IH) (use Cons.prems in simp)
  moreover have "vdf_ok MAX_VDF_DEPTH (snd p)"
    using Cons.prems by (simp add: doc_ok_def)
  from parse_pair_tokens [OF this, of 0 "fst p" "entry_tokens m"]
  have "parse_pair (entry_tokens (p # m)) 0 = (Some p, entry_tokens m)"
    by simp
  then have "parse_all (entry_tokens (p # m)) acc = parse_all (entry_tokens m) (AList.update (fst p) (snd p) acc)"
    by (subst parse_all.simps) (simp del: parse_pair.simps split: prod.split)
  ultimately show ?case
    by simp
qed (simp add: parse_all.simps)

lemma parse_all_ok: "doc_ok MAX_VDF_DEPTH m \<Longrightarrow> doc_ok MAX_VDF_DEPTH (parse_all ts m)"
proof (induction ts m rule: parse_all.induct)
  case (1 ts m)
  show ?case
  proof (cases "ts = []")
    case False
    obtain p r where p: "parse_pair ts 0 = (p, r)"
      by fastforce
    show ?thesis
    proof (cases p)
      case (Some kv)
      obtain k v where kv: "kv = (k, v)"
        by (cases kv)
      have "vdf_ok MAX_VDF_DEPTH v"
        using parse_ok(1) [of ts 0 k v r] p Some kv by simp
      then have "doc_ok MAX_VDF_DEPTH (AList.update k v m)"
        using 1(2) by (rule doc_ok_update [rotated])
      from 1(1) [OF False p [symmetric, unfolded Some kv] refl refl this] show ?thesis
        using False p Some kv by (simp add: parse_all.simps [of ts])
    qed (use False p 1(2) in \<open>simp add: parse_all.simps [of ts]\<close>)
  qed (use 1(2) in \<open>simp add: parse_all.simps\<close>)
qed

text \<open>Nesting that is too deep does not make the parser refuse the file.\<close>

lemma deep_nesting_accepted:
  assumes "tokenize input = QuotedString k # OpenBrace # ts" and "length input \<le> MAX_VDF_INPUT_SIZE"
  shows "vdf_parse input \<noteq> None"
proof -
  obtain m r where "parse_entries_of ts 1 [] = (m, r)"
    by fastforce
  then have "parse_all (tokenize input) [] = parse_all r [(k, VdfSection m)]"
    by (subst parse_all.simps) (simp add: assms(1) MAX_VDF_DEPTH_def)
  moreover have "parse_all r (AList.update k' v' m') \<noteq> []" for r k' v' m'
  proof -
    have "m \<noteq> [] \<Longrightarrow> parse_all r m \<noteq> []" for m r
    proof (induction r m rule: parse_all.induct)
      case (1 ts m)
      have "AList.update k v m \<noteq> []" for k v
        using 1(2) by (cases m) auto
      with 1 show ?case
        by (subst parse_all.simps) (auto split: prod.splits option.splits)
    qed
    moreover have "AList.update k' v' m' \<noteq> []"
      by (cases m') auto
    ultimately show ?thesis
      by blast
  qed
  from this [of r k "VdfSection m" "[]"] have "parse_all r [(k, VdfSection m)] \<noteq> []"
    by simp
  ultimately show ?thesis
    using assms(2) by (simp add: vdf_parse_def)
qed

section \<open>Properties\<close>

text \<open>
  C31: every document of the format that fits the limits is read back. A document with distinct
  keys, sections nested at most 64 deep and a text of at most two megabytes, printed with its
  quotes and backslashes escaped, is parsed to itself.
\<close>

theorem vdf_roundtrip:
  assumes "doc_ok MAX_VDF_DEPTH m" and "m \<noteq> []" and "length (print_document m) \<le> MAX_VDF_INPUT_SIZE"
  shows "vdf_parse (print_document m) = Some m"
  using assms parse_all_tokens [of "[]" m] by (simp add: vdf_parse_def tokenize_document Let_def)

theorem vdf_roundtrip_witness:
  "vdf_parse (print_document [([97], VdfSection [([34, 92], VdfString [98]), ([], VdfSection [])])])
     = Some [([97], VdfSection [([34, 92], VdfString [98]), ([], VdfSection [])])]"
proof (rule vdf_roundtrip)
  show "doc_ok MAX_VDF_DEPTH [([97], VdfSection [([34, 92], VdfString [98]), ([], VdfSection [])])]"
    by (simp add: doc_ok_def MAX_VDF_DEPTH_def numeral_eq_Suc)
  show "length (print_document [([97], VdfSection [([34, 92], VdfString [98]), ([], VdfSection [])])])
      \<le> MAX_VDF_INPUT_SIZE"
    by (simp add: print_document_def quote_def escape_def MAX_VDF_INPUT_SIZE_def)
qed simp

text \<open>
  the parser is bounded on hostile input. Whatever the bytes, it returns, and a result is a
  document that is not empty, has distinct keys everywhere and sections nested at most 64 deep.
\<close>

theorem vdf_parse_bounded:
  assumes "vdf_parse input = Some m"
  shows "length input \<le> MAX_VDF_INPUT_SIZE \<and> m \<noteq> [] \<and> doc_ok MAX_VDF_DEPTH m"
  using assms parse_all_ok [of "[]" "tokenize input"]
  by (auto simp: vdf_parse_def doc_ok_def Let_def split: if_splits)

theorem vdf_parse_bounded_witness:
  "\<exists>m. vdf_parse (print_document [([97], VdfString [98])]) = Some m \<and> doc_ok MAX_VDF_DEPTH m"
proof -
  have "parse_all (entry_tokens [([97], VdfString [98])]) [] = [([97], VdfString [98])]"
    using parse_all_tokens [of "[]" "[([97], VdfString [98])]"] by (simp add: doc_ok_def)
  then have "vdf_parse (print_document [([97], VdfString [98])]) = Some [([97], VdfString [98])]"
    using tokenize_document [of "[([97], VdfString [98])]"]
    by (simp add: vdf_parse_def MAX_VDF_INPUT_SIZE_def print_document_def quote_def escape_def)
  from vdf_parse_bounded [OF this] this show ?thesis
    by blast
qed

end
