(* ===== verification/Files.thy ===== *)
theory Files
  imports Decimal "HOL-Library.Mapping"
begin

text \<open>
  What the installer uses of the standard library: files read whole or from an offset, ASCII case,
  and \<open>String::from_utf8_lossy\<close>. A path is its bytes; a file system maps the paths of the regular
  files to their contents. The errors of the operating system that the installer passes on are the
  kinds that these contents determine.
\<close>

section \<open>Files\<close>

datatype io_error = IoNotFound | IoUnexpectedEof | IoOther string

type_synonym path = bytes
type_synonym disk = "(path, bytes) mapping"

definition fs_read :: "disk \<Rightarrow> path \<Rightarrow> io_error + bytes" where
  "fs_read fs p = ok_or (Mapping.lookup fs p) IoNotFound"

text \<open>
  \<open>seek(SeekFrom::Start(offset))\<close> and \<open>read_exact\<close> into a buffer of \<open>n\<close> bytes: seeking past the end
  is not an error, reading there is.
\<close>

definition read_exact_at :: "bytes \<Rightarrow> nat \<Rightarrow> nat \<Rightarrow> io_error + bytes" where
  "read_exact_at content offset n =
     (let s = take n (drop offset content) in if length s = n then Inr s else Inl IoUnexpectedEof)"

lemma read_exact_at_Inr:
  "read_exact_at content offset n = Inr s \<longleftrightarrow> s = take n (drop offset content) \<and> length s = n"
  by (auto simp: read_exact_at_def Let_def)

section \<open>Text\<close>

text \<open>\<open>to_ascii_lowercase\<close>.\<close>

definition ascii_lower :: "u8 \<Rightarrow> u8" where
  "ascii_lower b = (if 65 \<le> b \<and> b \<le> 90 then b + 32 else b)"

definition to_ascii_lowercase :: "bytes \<Rightarrow> bytes" where
  "to_ascii_lowercase s = map ascii_lower s"

lemma ascii_lower_idem: "ascii_lower (ascii_lower b) = ascii_lower b"
proof -
  have "\<not> (65 \<le> b + 32 \<and> b + 32 \<le> 90)" if "65 \<le> b" "b \<le> 90" for b :: u8
    using that by (simp add: word_le_nat_alt unat_word_ariths)
  then show ?thesis
    by (auto simp: ascii_lower_def)
qed

lemma to_ascii_lowercase_idem [simp]: "to_ascii_lowercase (to_ascii_lowercase s) = to_ascii_lowercase s"
  by (simp add: to_ascii_lowercase_def ascii_lower_idem)

text \<open>
  \<open>String::from_utf8_lossy\<close>: a maximal prefix of a well-formed sequence that is not completed, or a
  byte that starts none, is replaced by the replacement character. \<open>utf8_prefix\<close> gives the length
  of the first sequence and whether it is well-formed.
\<close>

definition replacement_character :: bytes where
  "replacement_character = [239, 191, 189]"

definition second_ok :: "u8 \<Rightarrow> u8 \<Rightarrow> bool" where
  "second_ok b c \<longleftrightarrow> utf8_cont c \<and> (b = 224 \<longrightarrow> 160 \<le> c) \<and> (b = 237 \<longrightarrow> c \<le> 159)
     \<and> (b = 240 \<longrightarrow> 144 \<le> c) \<and> (b = 244 \<longrightarrow> c \<le> 143)"

definition utf8_prefix :: "u8 \<Rightarrow> bytes \<Rightarrow> nat \<times> bool" where
  "utf8_prefix b bs =
     (if b < 128 then (1, True)
      else if 194 \<le> b \<and> b \<le> 223 then
        (case bs of c1 # _ \<Rightarrow> if utf8_cont c1 then (2, True) else (1, False) | [] \<Rightarrow> (1, False))
      else if 224 \<le> b \<and> b \<le> 239 then
        (case bs of
           c1 # r \<Rightarrow>
             if second_ok b c1
             then (case r of c2 # _ \<Rightarrow> if utf8_cont c2 then (3, True) else (2, False) | [] \<Rightarrow> (2, False))
             else (1, False)
         | [] \<Rightarrow> (1, False))
      else if 240 \<le> b \<and> b \<le> 244 then
        (case bs of
           c1 # r \<Rightarrow>
             if second_ok b c1
             then (case r of
                     c2 # r' \<Rightarrow>
                       if utf8_cont c2
                       then (case r' of c3 # _ \<Rightarrow> if utf8_cont c3 then (4, True) else (3, False)
                                      | [] \<Rightarrow> (3, False))
                       else (2, False)
                   | [] \<Rightarrow> (2, False))
             else (1, False)
         | [] \<Rightarrow> (1, False))
      else (1, False))"

lemma utf8_prefix_pos: "0 < fst (utf8_prefix b bs)"
  by (auto simp: utf8_prefix_def split: list.split)

function utf8_lossy :: "bytes \<Rightarrow> bytes" where
  "utf8_lossy [] = []"
| "utf8_lossy (b # bs) =
     (case utf8_prefix b bs of
        (n, valid) \<Rightarrow>
          (if valid then take n (b # bs) else replacement_character) @ utf8_lossy (drop n (b # bs)))"
  by pat_completeness auto

termination utf8_lossy
proof (relation "measure length")
  fix b bs n valid
  assume "(n, valid) = utf8_prefix b bs"
  then have "0 < n"
    using utf8_prefix_pos [of b bs] by (metis fst_conv)
  then show "(drop n (b # bs), b # bs) \<in> measure length"
    by simp
qed simp

declare utf8_lossy.simps(2) [simp del]

lemma utf8_lossy_Cons_ascii: "b < 128 \<Longrightarrow> utf8_lossy (b # bs) = b # utf8_lossy bs"
  by (simp add: utf8_lossy.simps utf8_prefix_def)

lemma utf8_lossy_ascii: "\<forall>b \<in> set bs. b < 128 \<Longrightarrow> utf8_lossy bs = bs"
  by (induction bs) (simp_all add: utf8_lossy_Cons_ascii)

end
