(* ===== verification/Iscab.thy ===== *)
theory Iscab
  imports Files
begin

unbundle bit_operations_syntax

text \<open>
  The InstallShield CAB reader of the installer, \<open>src/iscab/mod.rs\<close>: the header file with its catalog
  and the extraction of one file from a cabinet volume. The header comes from an untrusted source;
  every offset and count in it may be anything.

  The zlib decoder is a library: a parameter that gives, for the compressed bytes, the bytes it
  delivers in order and the error that ends the stream, if one does. \<open>Vec::with_capacity\<close> is assumed
  to succeed; the counts it is called with are discussed at \<open>huge_counts_accepted\<close>.
\<close>

section \<open>Constants and errors\<close>

definition SIGNATURE :: u32 where "SIGNATURE = 0x28635349"
definition FLAG_COMPRESSED :: u16 where "FLAG_COMPRESSED = 4"
definition FD_SIZE_V5 :: nat where "FD_SIZE_V5 = 0x33"
definition FD_SIZE_V6 :: nat where "FD_SIZE_V6 = 0x39"
definition MAX_ISCAB_ENTRY_SIZE :: u64 where "MAX_ISCAB_ENTRY_SIZE = 512 * 1024 * 1024"
definition MAX_CSTRING_LEN :: nat where "MAX_CSTRING_LEN = 4096"

datatype iscab_error =
  IscabIo io_error
| BadSignature u32
| UnsupportedVersion u32
| IscabFileNotFound bytes
| IscabDecompress string
| MissingVolume u32
| IscabCorrupt string

record file_entry =
  fe_full_path :: bytes
  fe_name :: bytes
  fe_flags :: u16
  fe_expanded_size :: u64
  fe_compressed_size :: u64
  fe_data_offset :: u64
  fe_volume :: u32

type_synonym iscab_archive = "file_entry list"

section \<open>Reading fields\<close>

text \<open>\<open>read_u16\<close>, \<open>read_u32\<close> and \<open>read_u64\<close> differ in the width only.\<close>

definition read_field :: "string \<Rightarrow> bytes \<Rightarrow> nat \<Rightarrow> iscab_error + 'a::len word" where
  "read_field ty data offset =
     (let n = LENGTH('a) div 8;
          err = IscabCorrupt (ty @ '' read at offset '' @ show_nat offset @ '' out of bounds'')
      in case get_range data offset (sat_add_usize offset n) of
           None \<Rightarrow> Inl err
         | Some s \<Rightarrow> if length s = n then Inr (from_le s) else Inl err)"

definition le_read_u16 :: "bytes \<Rightarrow> nat \<Rightarrow> iscab_error + u16" where "le_read_u16 = read_field ''u16''"
definition le_read_u32 :: "bytes \<Rightarrow> nat \<Rightarrow> iscab_error + u32" where "le_read_u32 = read_field ''u32''"
definition le_read_u64 :: "bytes \<Rightarrow> nat \<Rightarrow> iscab_error + u64" where "le_read_u64 = read_field ''u64''"

definition read_cstring :: "bytes \<Rightarrow> nat \<Rightarrow> bytes" where
  "read_cstring data offset =
     (let tail = (case get_from data offset of None \<Rightarrow> [] | Some t \<Rightarrow> t);
          scan = take (min (length tail) MAX_CSTRING_LEN) tail;
          len = (case position (\<lambda>b. b = 0) scan of None \<Rightarrow> length scan | Some p \<Rightarrow> p)
      in utf8_lossy (take len scan))"

section \<open>The header\<close>

function read_directories :: "bytes \<Rightarrow> nat \<Rightarrow> nat \<Rightarrow> nat \<Rightarrow> iscab_error + bytes list" where
  "read_directories data file_table_offset count i =
     (if i < count then
        let ptr_offset = sat_add_usize file_table_offset (sat_mul_usize i 4) in
        case checked_add_usize ptr_offset 4 of
          None \<Rightarrow> Inr []
        | Some ptr_end \<Rightarrow>
            if ptr_end > length data then Inr []
            else
              and_then (le_read_u32 data ptr_offset) (\<lambda>p.
                let name = read_cstring data (sat_add_usize file_table_offset (unat p)) in
                and_then (read_directories data file_table_offset count (Suc i)) (\<lambda>names.
                  Inr (name # names)))
      else Inr [])"
  by pat_completeness auto
termination read_directories
  by (relation "measure (\<lambda>(data, offset, count, i). count - i)") auto

declare read_directories.simps [simp del]

text \<open>The sizes, the data offset and the position of the volume of a descriptor.\<close>

definition read_sizes :: "bytes \<Rightarrow> u32 \<Rightarrow> nat \<Rightarrow> iscab_error + (u64 \<times> u64 \<times> u64 \<times> nat)" where
  "read_sizes data major base =
     (if major < 6 then
        and_then (le_read_u32 data (base + 0x0A)) (\<lambda>expanded.
        and_then (le_read_u32 data (base + 0x0E)) (\<lambda>compressed.
        and_then (le_read_u32 data (base + 0x26)) (\<lambda>offset.
          Inr (ucast expanded, ucast compressed, ucast offset, base + 0x2E))))
      else
        and_then (le_read_u64 data (base + 0x0A)) (\<lambda>expanded.
        and_then (le_read_u64 data (base + 0x12)) (\<lambda>compressed.
        and_then (le_read_u32 data (base + 0x2E)) (\<lambda>offset.
          Inr (expanded, compressed, ucast offset, base + 0x36)))))"

definition read_volume :: "bytes \<Rightarrow> nat \<Rightarrow> iscab_error + u32" where
  "read_volume data volume_offset =
     and_then
       (if (case checked_add_usize volume_offset 2 of None \<Rightarrow> False | Some e \<Rightarrow> e \<le> length data)
        then and_then (le_read_u16 data volume_offset) (\<lambda>v. Inr (ucast v))
        else Inr 1)
       (\<lambda>volume. Inr (if volume = 0 then 1 else volume))"

definition read_descriptor ::
  "bytes \<Rightarrow> u32 \<Rightarrow> nat \<Rightarrow> bytes list \<Rightarrow> nat \<Rightarrow> iscab_error + file_entry"
where
  "read_descriptor data major file_table_offset directories base =
     and_then (le_read_u32 data base) (\<lambda>name_ptr.
     and_then (le_read_u32 data (base + 0x04)) (\<lambda>dir_index.
     and_then (le_read_u16 data (base + 0x08)) (\<lambda>flags.
     and_then (read_sizes data major base) (\<lambda>(expanded, compressed, offset, volume_offset).
     and_then (read_volume data volume_offset) (\<lambda>volume.
       let name = read_cstring data (sat_add_usize file_table_offset (unat name_ptr));
           dir = (case get_at directories (unat dir_index) of None \<Rightarrow> [] | Some d \<Rightarrow> d);
           full_path = (if dir = [] then name else dir @ [47] @ name)
       in Inr \<lparr>fe_full_path = full_path, fe_name = name, fe_flags = flags, fe_expanded_size = expanded,
               fe_compressed_size = compressed, fe_data_offset = offset, fe_volume = volume\<rparr>)))))"

function read_descriptors ::
  "bytes \<Rightarrow> u32 \<Rightarrow> nat \<Rightarrow> nat \<Rightarrow> bytes list \<Rightarrow> nat \<Rightarrow> nat \<Rightarrow> nat \<Rightarrow> iscab_error + file_entry list"
where
  "read_descriptors data major file_table_offset file_table_offset2 directories fd_size count i =
     (if i < count then
        let base = sat_add_usize file_table_offset2 (sat_mul_usize i fd_size) in
        case checked_add_usize base fd_size of
          None \<Rightarrow> Inr []
        | Some base_end \<Rightarrow>
            if base_end > length data then Inr []
            else
              and_then (read_descriptor data major file_table_offset directories base) (\<lambda>e.
              and_then (read_descriptors data major file_table_offset file_table_offset2 directories fd_size
                          count (Suc i)) (\<lambda>es.
                Inr (e # es)))
      else Inr [])"
  by pat_completeness auto
termination read_descriptors
  by (relation "measure (\<lambda>(data, major, offset, offset2, directories, fd_size, count, i). count - i)") auto

declare read_descriptors.simps [simp del]

text \<open>\<open>open\<close> on the bytes of the header file.\<close>

definition parse_header :: "bytes \<Rightarrow> iscab_error + iscab_archive" where
  "parse_header data =
     (if length data < 20 then Inl (IscabCorrupt ''header file too small (< 20 bytes)'')
      else
        and_then (le_read_u32 data 0) (\<lambda>signature.
        if signature \<noteq> SIGNATURE then Inl (BadSignature signature)
        else
          and_then (le_read_u32 data 4) (\<lambda>version.
          let major = drop_bit 12 version AND 0xF in
          if major \<noteq> 5 \<and> major \<noteq> 6 then Inl (UnsupportedVersion major)
          else
            and_then (le_read_u32 data 0x0C) (\<lambda>desc.
            let cab_desc_offset = unat desc;
                fd_size = (if major < 6 then FD_SIZE_V5 else FD_SIZE_V6)
            in case checked_add_usize cab_desc_offset 0x24 of
                 None \<Rightarrow> Inl (IscabCorrupt ''cab descriptor offset overflow'')
               | Some cab_desc_end \<Rightarrow>
                   if cab_desc_end > length data
                   then Inl (IscabCorrupt ''cab descriptor offset out of bounds'')
                   else
                     and_then (le_read_u32 data cab_desc_offset) (\<lambda>table.
                     and_then (le_read_u32 data (cab_desc_offset + 0x0C)) (\<lambda>directory_count.
                     and_then (le_read_u32 data (cab_desc_offset + 0x1C)) (\<lambda>file_count.
                     and_then (le_read_u32 data (cab_desc_offset + 0x20)) (\<lambda>table2.
                       let file_table_offset = sat_add_usize cab_desc_offset (unat table);
                           file_table_offset2 = sat_add_usize cab_desc_offset (unat table2)
                       in and_then (read_directories data file_table_offset (unat directory_count) 0)
                            (\<lambda>directories.
                              read_descriptors data major file_table_offset file_table_offset2 directories
                                fd_size (unat file_count) 0)))))))))"

definition iscab_open :: "disk \<Rightarrow> path \<Rightarrow> iscab_error + iscab_archive" where
  "iscab_open fs header_path =
     (case fs_read fs header_path of Inl e \<Rightarrow> Inl (IscabIo e) | Inr data \<Rightarrow> parse_header data)"

definition file_names :: "iscab_archive \<Rightarrow> bytes list" where
  "file_names es = List.map fe_full_path es"

section \<open>Extraction\<close>

type_synonym zlib_decoder = "bytes \<Rightarrow> bytes \<times> string option"

text \<open>
  \<open>take(cap)\<close> and \<open>read_to_end\<close>: reading stops after \<open>cap\<close> bytes, before the decoder reports an
  error that would follow.
\<close>

definition decompress_zlib :: "zlib_decoder \<Rightarrow> bytes \<Rightarrow> nat \<Rightarrow> iscab_error + bytes" where
  "decompress_zlib zlib data expected_size =
     (let cap = sat_add_usize expected_size 1;
          (stream, err) = zlib data
      in if length stream < cap \<and> err \<noteq> None then Inl (IscabDecompress (the err))
         else
           let out = take cap stream in
           if length out > expected_size
           then Inl (IscabCorrupt (''decompressed size '' @ show_nat (length out)
                  @ '' exceeds declared expanded_size '' @ show_nat expected_size))
           else Inr out)"

definition entry_named :: "bytes \<Rightarrow> file_entry \<Rightarrow> bool" where
  "entry_named name e \<longleftrightarrow>
     to_ascii_lowercase (fe_full_path e) = to_ascii_lowercase name \<or>
     to_ascii_lowercase (fe_name e) = to_ascii_lowercase name"

definition size_error :: "string \<Rightarrow> u64 \<Rightarrow> iscab_error" where
  "size_error field n =
     IscabCorrupt (''entry '' @ field @ '' '' @ show_nat (unat n) @ '' exceeds limit ''
       @ show_nat (unat MAX_ISCAB_ENTRY_SIZE))"

text \<open>The part of \<open>extract\<close> after the volume has been opened.\<close>

definition extract_entry :: "zlib_decoder \<Rightarrow> bytes \<Rightarrow> file_entry \<Rightarrow> iscab_error + bytes" where
  "extract_entry zlib content e =
     (if fe_expanded_size e > MAX_ISCAB_ENTRY_SIZE then Inl (size_error ''expanded_size'' (fe_expanded_size e))
      else if fe_compressed_size e > MAX_ISCAB_ENTRY_SIZE
      then Inl (size_error ''compressed_size'' (fe_compressed_size e))
      else
        let compressed = fe_flags e AND FLAG_COMPRESSED \<noteq> 0;
            read_size = (if compressed then fe_compressed_size e else fe_expanded_size e)
        in case read_exact_at content (unat (fe_data_offset e)) (unat read_size) of
             Inl err \<Rightarrow> Inl (IscabIo err)
           | Inr raw \<Rightarrow>
               if compressed then decompress_zlib zlib raw (unat (fe_expanded_size e)) else Inr raw)"

definition iscab_extract ::
  "zlib_decoder \<Rightarrow> disk \<Rightarrow> iscab_archive \<Rightarrow> bytes \<Rightarrow> (u32 \<times> path) list \<Rightarrow> iscab_error + bytes"
where
  "iscab_extract zlib fs es name volumes =
     and_then (ok_or (find (entry_named name) es) (IscabFileNotFound name)) (\<lambda>e.
     and_then (ok_or (map_option snd (find (\<lambda>(idx, _). idx = fe_volume e) volumes)) (MissingVolume (fe_volume e)))
       (\<lambda>vol_path.
       case fs_read fs vol_path of
         Inl err \<Rightarrow> Inl (IscabIo err)
       | Inr content \<Rightarrow> extract_entry zlib content e))"

section \<open>The catalog as a function of the bytes\<close>

text \<open>
  The reference: every field is the number at its place, and the tables are as long as the counts
  say or as the file goes on, whichever is less.
\<close>

definition field_at :: "bytes \<Rightarrow> nat \<Rightarrow> 'a::len word" where
  "field_at data offset = from_le (take (LENGTH('a) div 8) (drop offset data))"

definition table_length :: "bytes \<Rightarrow> nat \<Rightarrow> nat \<Rightarrow> nat \<Rightarrow> nat" where
  "table_length data start row count = min count ((length data - start) div row)"

definition directory_at :: "bytes \<Rightarrow> nat \<Rightarrow> nat \<Rightarrow> bytes" where
  "directory_at data table i = read_cstring data (table + unat (field_at data (table + 4 * i) :: u32))"

definition descriptor_at :: "bytes \<Rightarrow> u32 \<Rightarrow> nat \<Rightarrow> bytes list \<Rightarrow> nat \<Rightarrow> file_entry" where
  "descriptor_at data major table directories base =
     (let name = read_cstring data (table + unat (field_at data base :: u32));
          d = unat (field_at data (base + 4) :: u32);
          dir = (if d < length directories then directories ! d else []);
          volume = field_at data (base + (if major < 6 then 0x2E else 0x36)) :: u16
      in \<lparr>fe_full_path = (if dir = [] then name else dir @ [47] @ name), fe_name = name,
          fe_flags = field_at data (base + 8),
          fe_expanded_size = (if major < 6 then ucast (field_at data (base + 0x0A) :: u32) else field_at data (base + 0x0A)),
          fe_compressed_size = (if major < 6 then ucast (field_at data (base + 0x0E) :: u32) else field_at data (base + 0x12)),
          fe_data_offset = ucast (field_at data (base + (if major < 6 then 0x26 else 0x2E)) :: u32),
          fe_volume = (if volume = 0 then 1 else ucast volume)\<rparr>)"

lemma read_field_in:
  fixes ty :: string
  assumes "offset + LENGTH('a::len) div 8 \<le> length data" and "offset + LENGTH('a) div 8 \<le> usize_max"
  shows "(read_field ty data offset :: iscab_error + 'a word) = Inr (field_at data offset)"
proof -
  have "sat_add_usize offset (LENGTH('a) div 8) = offset + LENGTH('a) div 8"
    using assms(2) by (simp add: sat_add_usize_def)
  then show ?thesis
    using assms(1) by (simp add: read_field_def get_range_def field_at_def Let_def)
qed

lemma le_read_in:
  "offset + 2 \<le> length data \<Longrightarrow> offset < 2 ^ 60 \<Longrightarrow> le_read_u16 data offset = Inr (field_at data offset)"
  "offset + 4 \<le> length data \<Longrightarrow> offset < 2 ^ 60 \<Longrightarrow> le_read_u32 data offset = Inr (field_at data offset)"
  "offset + 8 \<le> length data \<Longrightarrow> offset < 2 ^ 60 \<Longrightarrow> le_read_u64 data offset = Inr (field_at data offset)"
  by (simp_all add: le_read_u16_def le_read_u32_def le_read_u64_def read_field_in usize_max_def)

lemma u32_small: "unat (w :: u32) < 2 ^ 32"
  using unat_less_exp [of w] by simp

lemma small_arith:
  "a < 2 ^ 60 \<Longrightarrow> b < 2 ^ 60 \<Longrightarrow> sat_add_usize a b = a + b"
  "a < 2 ^ 60 \<Longrightarrow> b < 2 ^ 60 \<Longrightarrow> checked_add_usize a b = Some (a + b)"
  "i < 2 ^ 32 \<Longrightarrow> k < 2 ^ 6 \<Longrightarrow> sat_mul_usize i k = i * k"
proof -
  show "i < 2 ^ 32 \<Longrightarrow> k < 2 ^ 6 \<Longrightarrow> sat_mul_usize i k = i * k"
    using mult_strict_mono' [of i "2 ^ 32" k "2 ^ 6"] by (simp add: sat_mul_usize_def usize_max_def)
qed (simp_all add: sat_add_usize_def checked_add_usize_def usize_max_def)

lemma row_fits:
  fixes start row i :: nat
  assumes "0 < row"
  shows "start + i * row + row \<le> L \<longleftrightarrow> i < (L - start) div row"
proof -
  have "i < (L - start) div row \<longleftrightarrow> Suc i * row \<le> L - start"
    using assms by (simp add: less_eq_div_iff_mult_less_eq flip: Suc_le_eq)
  then show ?thesis
    using assms by auto
qed

lemma row_small:
  fixes table i k :: nat
  assumes "table < 2 ^ 33" and "i < 2 ^ 32" and "k < 2 ^ 6"
  shows "table + i * k < 2 ^ 59"
  using mult_strict_mono' [OF assms(2,3)] assms(1) by simp

lemma read_directories_eq:
  assumes "table < 2 ^ 33" and "count < 2 ^ 32"
  shows "read_directories data table count i =
    Inr (map (directory_at data table) [i..<table_length data table 4 count])"
proof (induction "count - i" arbitrary: i rule: less_induct)
  case less
  let ?n = "table_length data table 4 count"
  show ?case
  proof (cases "i < ?n")
    case False
    then have "\<not> (i < count \<and> table + i * 4 + 4 \<le> length data)"
      using row_fits [of 4 table i "length data"] by (auto simp: table_length_def)
    then show ?thesis
      using False assms row_small [of table i 4]
      by (auto simp: read_directories.simps [of data table count i] small_arith)
  next
    case True
    then have i: "i < count" "table + i * 4 + 4 \<le> length data"
      using row_fits [of 4 table i "length data"] by (auto simp: table_length_def)
    have small: "table + i * 4 < 2 ^ 59"
      using row_small [of table i 4] assms i(1) by simp
    have ptr: "sat_add_usize table (sat_mul_usize i 4) = table + i * 4"
      "checked_add_usize (table + i * 4) 4 = Some (table + i * 4 + 4)"
      using i(1) small assms by (simp_all add: small_arith)
    have name: "sat_add_usize table (unat (w :: u32)) = table + unat w" for w
      using assms(1) u32_small [of w] by (simp add: small_arith)
    have rest: "read_directories data table count (Suc i) = Inr (map (directory_at data table) [Suc i..<?n])"
      by (rule less.hyps) (use i(1) in simp)
    have "le_read_u32 data (table + i * 4) = Inr (field_at data (table + i * 4))"
      by (rule le_read_in) (use i(2) small in simp_all)
    then show ?thesis
      using i rest True
      by (simp add: read_directories.simps [of data table count i] ptr name directory_at_def upt_conv_Cons mult.commute)
  qed
qed

lemma read_sizes_eq:
  assumes "base + (if major < 6 then FD_SIZE_V5 else FD_SIZE_V6) \<le> length data" and "base < 2 ^ 59"
  shows "read_sizes data major base = Inr
    ((if major < 6 then ucast (field_at data (base + 0x0A) :: u32) else field_at data (base + 0x0A)),
     (if major < 6 then ucast (field_at data (base + 0x0E) :: u32) else field_at data (base + 0x12)),
     ucast (field_at data (base + (if major < 6 then 0x26 else 0x2E)) :: u32),
     base + (if major < 6 then 0x2E else 0x36))"
  using assms by (simp add: read_sizes_def le_read_in FD_SIZE_V5_def FD_SIZE_V6_def split: if_splits)

lemma read_volume_eq:
  assumes "offset + 2 \<le> length data" and "offset < 2 ^ 59 + 0x36"
  shows "read_volume data offset = Inr
    (if (field_at data offset :: u16) = 0 then 1 else ucast (field_at data offset :: u16))"
proof -
  have "(ucast v :: u32) = 0 \<longleftrightarrow> v = 0" for v :: u16
    by transfer (simp add: take_bit_eq_mod)
  then show ?thesis
    using assms by (simp add: read_volume_def small_arith le_read_in)
qed

lemma read_descriptor_eq:
  assumes "base + (if major < 6 then FD_SIZE_V5 else FD_SIZE_V6) \<le> length data" and "base < 2 ^ 59" and "table < 2 ^ 33"
  shows "read_descriptor data major table directories base = Inr (descriptor_at data major table directories base)"
proof -
  have fits: "base + 0x33 \<le> length data" "\<not> major < 6 \<Longrightarrow> base + 0x39 \<le> length data"
    using assms(1) by (auto simp: FD_SIZE_V5_def FD_SIZE_V6_def split: if_splits)
  have name: "sat_add_usize table (unat (w :: u32)) = table + unat w" for w
    using assms(3) u32_small [of w] by (simp add: small_arith)
  have volume: "read_volume data (base + (if major < 6 then 0x2E else 0x36)) = Inr
      (let v = field_at data (base + (if major < 6 then 0x2E else 0x36)) :: u16 in if v = 0 then 1 else ucast v)"
    unfolding Let_def by (rule read_volume_eq) (use fits assms(2) in \<open>auto split: if_splits\<close>)
  show ?thesis
    using fits assms(2)
    by (simp add: read_descriptor_def le_read_in read_sizes_eq [OF assms(1,2)] volume name descriptor_at_def
        get_at_def Let_def)
qed

lemma read_descriptors_eq:
  assumes "table < 2 ^ 33" and "table2 < 2 ^ 33" and "count < 2 ^ 32"
    and "fd_size = (if major < 6 then FD_SIZE_V5 else FD_SIZE_V6)"
  shows "read_descriptors data major table table2 directories fd_size count i =
    Inr (map (\<lambda>i. descriptor_at data major table directories (table2 + fd_size * i))
           [i..<table_length data table2 fd_size count])"
proof (induction "count - i" arbitrary: i rule: less_induct)
  case less
  let ?n = "table_length data table2 fd_size count"
  have fd: "0 < fd_size" "fd_size < 2 ^ 6"
    using assms(4) by (auto simp: FD_SIZE_V5_def FD_SIZE_V6_def split: if_splits)
  show ?case
  proof (cases "i < ?n")
    case False
    then have "\<not> (i < count \<and> table2 + i * fd_size + fd_size \<le> length data)"
      using row_fits [OF fd(1), of table2 i "length data"] by (auto simp: table_length_def)
    then show ?thesis
      using False assms(2,3) fd row_small [of table2 i fd_size]
      by (auto simp: read_descriptors.simps [of data major table table2 directories fd_size count i] small_arith)
  next
    case True
    then have i: "i < count" "table2 + i * fd_size + fd_size \<le> length data"
      using row_fits [OF fd(1), of table2 i "length data"] by (auto simp: table_length_def)
    have small: "table2 + i * fd_size < 2 ^ 59"
      using row_small [of table2 i fd_size] assms fd i(1) by simp
    have base: "sat_add_usize table2 (sat_mul_usize i fd_size) = table2 + i * fd_size"
      "checked_add_usize (table2 + i * fd_size) fd_size = Some (table2 + i * fd_size + fd_size)"
      using i(1) small assms(2,3) fd by (simp_all add: small_arith)
    have entry: "read_descriptor data major table directories (table2 + i * fd_size) =
        Inr (descriptor_at data major table directories (table2 + i * fd_size))"
      by (rule read_descriptor_eq) (use i(2) small assms in simp_all)
    have "read_descriptors data major table table2 directories fd_size count (Suc i) =
        Inr (map (\<lambda>i. descriptor_at data major table directories (table2 + fd_size * i)) [Suc i..<?n])"
      by (rule less.hyps) (use i(1) in simp)
    then show ?thesis
      using i True entry
      by (simp add: read_descriptors.simps [of data major table table2 directories fd_size count i] base
          upt_conv_Cons mult.commute [of fd_size])
  qed
qed

lemma parse_header_eq:
  "parse_header data =
     (let signature = field_at data 0; major = drop_bit 12 (field_at data 4) AND 0xF;
          desc = unat (field_at data 12 :: u32); fd_size = (if major < 6 then FD_SIZE_V5 else FD_SIZE_V6);
          table = desc + unat (field_at data desc :: u32);
          table2 = desc + unat (field_at data (desc + 0x20) :: u32);
          directories = map (directory_at data table)
            [0..<table_length data table 4 (unat (field_at data (desc + 0x0C) :: u32))]
      in if length data < 20 then Inl (IscabCorrupt ''header file too small (< 20 bytes)'')
         else if signature \<noteq> SIGNATURE then Inl (BadSignature signature)
         else if major \<noteq> 5 \<and> major \<noteq> 6 then Inl (UnsupportedVersion major)
         else if length data < desc + 0x24 then Inl (IscabCorrupt ''cab descriptor offset out of bounds'')
         else Inr (map (\<lambda>i. descriptor_at data major table directories (table2 + fd_size * i))
                [0..<table_length data table2 fd_size (unat (field_at data (desc + 0x1C) :: u32))]))"
proof (cases "length data < 20")
  case True
  then show ?thesis
    by (simp add: parse_header_def)
next
  case False
  let ?desc = "unat (field_at data 12 :: u32)"
  have reads: "le_read_u32 data 0 = Inr (field_at data 0)" "le_read_u32 data 4 = Inr (field_at data 4)"
    "le_read_u32 data 12 = Inr (field_at data 12)"
    using False by (simp_all add: le_read_in)
  have desc: "checked_add_usize ?desc 36 = Some (?desc + 36)"
    using u32_small [of "field_at data 12"] by (simp add: small_arith)
  have table: "sat_add_usize ?desc (unat (w :: u32)) = ?desc + unat w" "?desc + unat w < 8589934592" for w
    using u32_small [of "field_at data 12"] u32_small [of w] by (simp_all add: small_arith)
  show ?thesis
  proof (cases "length data < ?desc + 36")
    case True
    then show ?thesis
      using False reads desc by (simp add: parse_header_def Let_def)
  next
    case inside: False
    have "le_read_u32 data (?desc + k) = Inr (field_at data (?desc + k))" if "k \<le> 32" for k
      by (rule le_read_in) (use inside that u32_small [of "field_at data 12"] in simp_all)
    from this [of 0] this [of 12] this [of 28] this [of 32] show ?thesis
      using False inside reads desc
      by (simp add: parse_header_def Let_def table read_directories_eq read_descriptors_eq u32_small [simplified])
  qed
qed

text \<open>
  Room for the tables is reserved by the counts of the file, before any entry is read: the following
  header of 56 bytes is accepted, and asks for room for \<open>2^32 - 1\<close> names and as many entries.
\<close>

lemma huge_counts_accepted:
  "\<exists>header. length header = 56 \<and> parse_header header = Inr []
     \<and> (field_at header (20 + 12) :: u32) = - 1 \<and> (field_at header (20 + 28) :: u32) = - 1"
proof -
  define header :: bytes where "header =
    [0x49, 0x53, 0x63, 0x28, 0, 0x50, 0, 0, 0, 0, 0, 0, 20, 0, 0, 0, 0, 0, 0, 0] @
    [0, 0, 0, 0, 0, 0, 0, 0, 0, 0, 0, 0, 255, 255, 255, 255, 0, 0, 0, 0, 0, 0, 0, 0, 0, 0, 0, 0,
     255, 255, 255, 255, 36, 0, 0, 0]"
  have fields: "(field_at header 0 :: u32) = SIGNATURE" "(field_at header 4 :: u32) = 0x5000"
    "(field_at header 12 :: u32) = 20" "(field_at header 32 :: u32) = - 1" "(field_at header 48 :: u32) = - 1"
    "(field_at header 52 :: u32) = 36"
    by (simp_all add: header_def field_at_def from_le_def SIGNATURE_def)
  moreover have "length header = 56"
    by (simp add: header_def)
  moreover have "(drop_bit 12 0x5000 AND 0xF :: u32) = 5"
    by simp
  ultimately have "parse_header header = Inr []"
    by (simp add: parse_header_eq Let_def table_length_def FD_SIZE_V5_def)
  with fields \<open>length header = 56\<close> show ?thesis
    by (intro exI [of _ header]) simp
qed

lemma decompress_zlib_Inr:
  assumes "expected < 2 ^ 60"
  shows "decompress_zlib zlib raw expected = Inr out \<longleftrightarrow> zlib raw = (out, None) \<and> length out \<le> expected"
proof -
  obtain stream err where z: "zlib raw = (stream, err)"
    by fastforce
  have "sat_add_usize expected 1 = Suc expected"
    using assms by (simp add: small_arith)
  then show ?thesis
    using z by (auto simp: decompress_zlib_def Let_def min_def)
qed

section \<open>Properties\<close>

lemma extract_entry_Inr:
  "extract_entry zlib content e = Inr out \<longleftrightarrow>
     (let n = unat (if fe_flags e AND FLAG_COMPRESSED = 0 then fe_expanded_size e else fe_compressed_size e);
          raw = take n (drop (unat (fe_data_offset e)) content)
      in fe_expanded_size e \<le> MAX_ISCAB_ENTRY_SIZE \<and> fe_compressed_size e \<le> MAX_ISCAB_ENTRY_SIZE \<and> length raw = n
        \<and> (if fe_flags e AND FLAG_COMPRESSED = 0 then out = raw
           else zlib raw = (out, None) \<and> length out \<le> unat (fe_expanded_size e)))"
proof (cases "fe_expanded_size e \<le> MAX_ISCAB_ENTRY_SIZE \<and> fe_compressed_size e \<le> MAX_ISCAB_ENTRY_SIZE")
  case True
  then have "unat (fe_expanded_size e) < 2 ^ 60"
    by (simp add: MAX_ISCAB_ENTRY_SIZE_def word_le_nat_alt)
  then show ?thesis
    using True by (auto simp: extract_entry_def Let_def read_exact_at_def decompress_zlib_Inr not_less [symmetric])
qed (auto simp: extract_entry_def not_less)


text \<open>
  C24: extraction returns exactly what the catalog says. It succeeds precisely when the first
  entry of that name, without regard to case, lies in a volume that is given and readable, both
  its sizes are within the limit, and its range of the volume is there; the result is that
  range, or what it decompresses to when that ends without an error and is no longer than declared.
\<close>

theorem iscab_extract_exact:
  "iscab_extract zlib fs es name volumes = Inr out \<longleftrightarrow>
     (\<exists>e i vol content. find (entry_named name) es = Some e
        \<and> find (\<lambda>(i, _). i = fe_volume e) volumes = Some (i, vol) \<and> Mapping.lookup fs vol = Some content
        \<and> fe_expanded_size e \<le> MAX_ISCAB_ENTRY_SIZE \<and> fe_compressed_size e \<le> MAX_ISCAB_ENTRY_SIZE
        \<and> (let n = unat (if fe_flags e AND FLAG_COMPRESSED = 0 then fe_expanded_size e else fe_compressed_size e);
               raw = take n (drop (unat (fe_data_offset e)) content)
           in length raw = n
             \<and> (if fe_flags e AND FLAG_COMPRESSED = 0 then out = raw
                else zlib raw = (out, None) \<and> length out \<le> unat (fe_expanded_size e))))"
proof -
  have "iscab_extract zlib fs es name volumes = Inr out \<longleftrightarrow>
     (\<exists>e i vol content. find (entry_named name) es = Some e
        \<and> find (\<lambda>(i, _). i = fe_volume e) volumes = Some (i, vol) \<and> Mapping.lookup fs vol = Some content
        \<and> extract_entry zlib content e = Inr out)"
    by (auto simp: iscab_extract_def and_then_Inr fs_read_def ok_or_def split: option.splits)
  then show ?thesis
    by (simp add: extract_entry_Inr Let_def conj_ac)
qed

end
