(* ===== verification/Executor.thy ===== *)
theory Executor
  imports Iscab
begin

text \<open>
  The executor of install recipes, \<open>src/executor/mod.rs\<close> and \<open>extract.rs\<close>, with the actions of
  \<open>src/actions.rs\<close>: copying, extracting from archives, deleting, in order, until the first error.

  The state is the file system and the progress reported so far; an action that fails keeps what it
  has written. What is not part of the program is an \<open>environment\<close>: the path boundaries of the
  \<open>strict_path\<close> crate, the archive readers of \<open>cnc_formats\<close> and \<open>zip\<close>, the zlib decoder, and the
  operating system's writing and removing of files. The locale \<open>installer_environment\<close> states what of
  them the executor relies on. Directories are not represented: a path is a regular file or nothing.
\<close>

section \<open>Actions, errors, progress\<close>

record file_mapping =
  fm_from :: bytes
  fm_to :: bytes

record raw_extract_entry =
  re_source :: bytes
  re_offset :: u64
  re_length :: u64
  re_to :: bytes

datatype install_action =
  Copy "file_mapping list"
| ExtractMix bytes "file_mapping list"
| ExtractIscab bytes "(u32 \<times> bytes) list" "file_mapping list"
| ExtractRaw "raw_extract_entry list"
| ExtractZip "file_mapping list"
| ExtractMixFromContent bytes "file_mapping list"
| Delete bytes
| ExtractBig bytes "file_mapping list"
| ExtractMeg bytes "file_mapping list"
| ExtractBagIdx bytes bytes "file_mapping list"
| ExtractIso bytes "file_mapping list"
| ExtractMixFromIso bytes bytes "file_mapping list"

datatype install_progress =
  ActionStarted nat nat string
| FileWritten path u64
| Completed nat u64

datatype executor_error =
  ExecIo io_error
| MixNotFound path
| MixEntryNotFound bytes bytes
| ExecIscab iscab_error
| ZipError string
| SourceFileNotFound path
| IsoNotFound path
| IsoEntryNotFound bytes bytes
| PathTraversal bytes string

section \<open>The environment\<close>

text \<open>An opened archive gives the data of an entry by its name, if there is one of that name.\<close>

type_synonym archive = "bytes \<Rightarrow> string + bytes option"

text \<open>
  A ZIP archive: the names by index, the exact lookup, and what reading an entry delivers before it
  ends or fails.
\<close>

record zip_archive =
  zip_names :: "bytes list"
  zip_index_for_name :: "bytes \<Rightarrow> nat option"
  zip_by_index :: "nat \<Rightarrow> string + bytes \<times> io_error option"

record environment =
  try_boundary :: "path \<Rightarrow> string + unit"
  try_create_boundary :: "path \<Rightarrow> string + unit"
  strict_join :: "path \<Rightarrow> bytes \<Rightarrow> string + path"
  os_write :: "path \<Rightarrow> bytes \<Rightarrow> disk \<Rightarrow> (io_error + unit) \<times> disk"
  os_remove :: "path \<Rightarrow> disk \<Rightarrow> (io_error + unit) \<times> disk"
  open_mix :: "bytes \<Rightarrow> string + archive"
  open_big :: "bytes \<Rightarrow> string + archive"
  open_meg :: "bytes \<Rightarrow> string + archive"
  open_iso :: "bytes \<Rightarrow> string + archive"
  open_zip :: "bytes \<Rightarrow> string + zip_archive"
  parse_idx :: "bytes \<Rightarrow> string + (bytes \<Rightarrow> (u32 \<times> u32) option)"
  inflate :: zlib_decoder

section \<open>Computations\<close>

record exec_state =
  ex_files :: disk
  ex_events :: "install_progress list"

type_synonym 'a exec = "exec_state \<Rightarrow> (executor_error + 'a) \<times> exec_state"

definition ret :: "'a \<Rightarrow> 'a exec" where
  "ret a s = (Inr a, s)"

definition fail_with :: "executor_error \<Rightarrow> 'a exec" where
  "fail_with e s = (Inl e, s)"

definition exec_bind :: "'a exec \<Rightarrow> ('a \<Rightarrow> 'b exec) \<Rightarrow> 'b exec" where
  "exec_bind m f s = (case m s of (Inl e, s') \<Rightarrow> (Inl e, s') | (Inr a, s') \<Rightarrow> f a s')"

definition lift_result :: "executor_error + 'a \<Rightarrow> 'a exec" where
  "lift_result r s = (r, s)"

definition on_progress :: "install_progress \<Rightarrow> unit exec" where
  "on_progress e s = (Inr (), s\<lparr>ex_events := ex_events s @ [e]\<rparr>)"

definition file_exists :: "path \<Rightarrow> bool exec" where
  "file_exists p s = (Inr (Mapping.lookup (ex_files s) p \<noteq> None), s)"

definition read_file :: "path \<Rightarrow> bytes exec" where
  "read_file p s = (map_sum ExecIo id (fs_read (ex_files s) p), s)"

definition write_file :: "environment \<Rightarrow> path \<Rightarrow> bytes \<Rightarrow> unit exec" where
  "write_file env p data s =
     (case os_write env p data (ex_files s) of
        (r, fs) \<Rightarrow> (map_sum ExecIo id r, s\<lparr>ex_files := fs\<rparr>))"

definition remove_file :: "environment \<Rightarrow> path \<Rightarrow> unit exec" where
  "remove_file env p s =
     (case os_remove env p (ex_files s) of
        (r, fs) \<Rightarrow> (map_sum ExecIo id r, s\<lparr>ex_files := fs\<rparr>))"

text \<open>The errors of the archive readers become \<open>io::ErrorKind::InvalidData\<close>.\<close>

definition invalid_data :: "string + 'a \<Rightarrow> executor_error + 'a" where
  "invalid_data r = map_sum (ExecIo \<circ> IoOther) id r"

definition message_text :: "bytes \<Rightarrow> string" where
  "message_text s = map (\<lambda>b. char_of (unat b)) s"

section \<open>Helpers of \<open>extract.rs\<close>\<close>

definition bounded_path :: "environment \<Rightarrow> path \<Rightarrow> bytes \<Rightarrow> executor_error + path" where
  "bounded_path env boundary subpath = map_sum (PathTraversal subpath) id (strict_join env boundary subpath)"

text \<open>\<open>dst.create_parent_dir_all()?; dst.write(&data)?\<close> and the report of the file.\<close>

definition write_reported :: "environment \<Rightarrow> path \<Rightarrow> bytes \<Rightarrow> bytes \<Rightarrow> u64 exec" where
  "write_reported env content to data =
     exec_bind (lift_result (bounded_path env content to)) (\<lambda>dst.
     exec_bind (write_file env dst data) (\<lambda>_.
     exec_bind (on_progress (FileWritten dst (word_of_nat (length data)))) (\<lambda>_.
       ret (word_of_nat (length data)))))"

text \<open>
  The loop the extraction functions share: look the entry up, check the destination, write, report,
  count. \<open>entry\<close> is the lookup with the error of the format.
\<close>

primrec extract_mappings ::
  "environment \<Rightarrow> path \<Rightarrow> (bytes \<Rightarrow> bytes exec) \<Rightarrow> file_mapping list \<Rightarrow> nat \<times> u64 \<Rightarrow> (nat \<times> u64) exec"
where
  "extract_mappings env content entry [] counts = ret counts"
| "extract_mappings env content entry (m # ms) counts =
     exec_bind (entry (fm_from m)) (\<lambda>data.
     exec_bind (write_reported env content (fm_to m) data) (\<lambda>bytes.
       extract_mappings env content entry ms (Suc (fst counts), snd counts + bytes)))"

definition archive_entry :: "archive \<Rightarrow> (bytes \<Rightarrow> executor_error) \<Rightarrow> bytes \<Rightarrow> bytes exec" where
  "archive_entry archive missing name =
     lift_result (and_then (invalid_data (archive name)) (\<lambda>data. ok_or data (missing name)))"

definition extract_from_archive ::
  "environment \<Rightarrow> path \<Rightarrow> (bytes \<Rightarrow> string + archive) \<Rightarrow> (path \<Rightarrow> executor_error) \<Rightarrow>
     (bytes \<Rightarrow> executor_error) \<Rightarrow> path \<Rightarrow> file_mapping list \<Rightarrow> (nat \<times> u64) exec"
where
  "extract_from_archive env content open_archive not_found missing p entries =
     exec_bind (file_exists p) (\<lambda>found.
     if \<not> found then fail_with (not_found p)
     else
       exec_bind (read_file p) (\<lambda>data.
       exec_bind (lift_result (invalid_data (open_archive data))) (\<lambda>archive.
         extract_mappings env content (archive_entry archive missing) entries (0, 0))))"

definition extract_from_mix :: "environment \<Rightarrow> path \<Rightarrow> path \<Rightarrow> file_mapping list \<Rightarrow> bytes \<Rightarrow> (nat \<times> u64) exec" where
  "extract_from_mix env mix_path content entries archive_name =
     extract_from_archive env content (open_mix env) MixNotFound (MixEntryNotFound archive_name) mix_path entries"

definition format_entry_missing :: "string \<Rightarrow> bytes \<Rightarrow> bytes \<Rightarrow> executor_error" where
  "format_entry_missing format archive_name entry =
     ZipError (format @ '' entry '' @ [char_of (39 :: nat)] @ message_text entry @ [char_of (39 :: nat)]
       @ '' not found in '' @ message_text archive_name)"

definition extract_from_big :: "environment \<Rightarrow> path \<Rightarrow> path \<Rightarrow> file_mapping list \<Rightarrow> bytes \<Rightarrow> (nat \<times> u64) exec" where
  "extract_from_big env big_path content entries archive_name =
     extract_from_archive env content (open_big env) SourceFileNotFound
       (format_entry_missing ''BIG'' archive_name) big_path entries"

definition extract_from_meg :: "environment \<Rightarrow> path \<Rightarrow> path \<Rightarrow> file_mapping list \<Rightarrow> bytes \<Rightarrow> (nat \<times> u64) exec" where
  "extract_from_meg env meg_path content entries archive_name =
     extract_from_archive env content (open_meg env) SourceFileNotFound
       (format_entry_missing ''MEG'' archive_name) meg_path entries"

definition extract_from_iso :: "environment \<Rightarrow> path \<Rightarrow> path \<Rightarrow> file_mapping list \<Rightarrow> bytes \<Rightarrow> (nat \<times> u64) exec" where
  "extract_from_iso env iso_path content entries archive_name =
     extract_from_archive env content (open_iso env) IsoNotFound (IsoEntryNotFound archive_name) iso_path entries"

text \<open>The MIX archive inside the image is the data of the image's entry.\<close>

definition extract_mix_from_iso ::
  "environment \<Rightarrow> path \<Rightarrow> path \<Rightarrow> bytes \<Rightarrow> file_mapping list \<Rightarrow> bytes \<Rightarrow> (nat \<times> u64) exec"
where
  "extract_mix_from_iso env iso_path content iso_mix_path entries archive_name =
     exec_bind (file_exists iso_path) (\<lambda>found.
     if \<not> found then fail_with (IsoNotFound iso_path)
     else
       exec_bind (read_file iso_path) (\<lambda>data.
       exec_bind (lift_result (invalid_data (open_iso env data))) (\<lambda>iso.
       exec_bind (archive_entry iso (IsoEntryNotFound archive_name) iso_mix_path) (\<lambda>mix_data.
       exec_bind (lift_result (invalid_data (open_mix env mix_data))) (\<lambda>mix.
         extract_mappings env content
           (archive_entry mix (MixEntryNotFound (archive_name @ [58] @ iso_mix_path))) entries (0, 0))))))"

definition extract_raw_entry :: "environment \<Rightarrow> path \<Rightarrow> path \<Rightarrow> raw_extract_entry \<Rightarrow> u64 exec" where
  "extract_raw_entry env source content entry =
     exec_bind (lift_result (bounded_path env source (re_source entry))) (\<lambda>src.
     exec_bind (file_exists src) (\<lambda>found.
     if \<not> found then fail_with (SourceFileNotFound src)
     else
       exec_bind (read_file src) (\<lambda>data.
       exec_bind (lift_result (map_sum ExecIo id
           (read_exact_at data (unat (re_offset entry)) (unat (re_length entry))))) (\<lambda>buf.
       exec_bind (lift_result (bounded_path env content (re_to entry))) (\<lambda>dst.
       exec_bind (write_file env dst buf) (\<lambda>_.
         ret (re_length entry)))))))"

primrec bounded_volumes ::
  "environment \<Rightarrow> path \<Rightarrow> (u32 \<times> bytes) list \<Rightarrow> executor_error + (u32 \<times> path) list"
where
  "bounded_volumes env source [] = Inr []"
| "bounded_volumes env source (v # vs) =
     and_then (bounded_path env source (snd v)) (\<lambda>p.
     and_then (bounded_volumes env source vs) (\<lambda>ps. Inr ((fst v, p) # ps)))"

definition extract_from_iscab ::
  "environment \<Rightarrow> path \<Rightarrow> path \<Rightarrow> bytes \<Rightarrow> (u32 \<times> bytes) list \<Rightarrow> file_mapping list \<Rightarrow> (nat \<times> u64) exec"
where
  "extract_from_iscab env source content header volumes entries =
     exec_bind (lift_result (bounded_path env source header)) (\<lambda>hdr.
     exec_bind (\<lambda>s. (map_sum ExecIscab id (iscab_open (ex_files s) hdr), s)) (\<lambda>archive.
     exec_bind (lift_result (bounded_volumes env source volumes)) (\<lambda>vol_paths.
       extract_mappings env content
         (\<lambda>name s. (map_sum ExecIscab id (iscab_extract (inflate env) (ex_files s) archive name vol_paths), s))
         entries (0, 0))))"

text \<open>\<open>from_path.split('/')\<close>, and the prefixes \<open>1..=parts.len()\<close> with what remains of the path.\<close>

fun split_slash :: "bytes \<Rightarrow> bytes list" where
  "split_slash [] = [[]]"
| "split_slash (b # bs) =
     (case split_slash bs of
        [] \<Rightarrow> [[b]]
      | p # ps \<Rightarrow> if b = 47 then [] # p # ps else (b # p) # ps)"

fun join_slash :: "bytes list \<Rightarrow> bytes" where
  "join_slash [] = []"
| "join_slash [p] = p"
| "join_slash (p # q # ps) = p @ [47] @ join_slash (q # ps)"

text \<open>The entry of the archive: the exact name first, then the first that agrees up to case.\<close>

definition zip_lookup :: "zip_archive \<Rightarrow> bytes \<Rightarrow> nat option" where
  "zip_lookup z name =
     (case zip_index_for_name z name of
        Some i \<Rightarrow> Some i
      | None \<Rightarrow> position (\<lambda>n. to_ascii_lowercase n = to_ascii_lowercase name) (zip_names z))"

text \<open>
  \<open>create_file\<close> and \<open>io::copy\<close>: what was delivered before an error has been written. The body of the
  loop once the archive has been found.
\<close>

definition unzip_entry :: "environment \<Rightarrow> path \<Rightarrow> path \<Rightarrow> bytes \<Rightarrow> bytes \<Rightarrow> bytes \<Rightarrow> (path \<times> u64) exec" where
  "unzip_entry env content zip_path zip_rel entry_name to_path =
     exec_bind (read_file zip_path) (\<lambda>data.
     exec_bind (lift_result (map_sum ZipError id (open_zip env data))) (\<lambda>z.
     exec_bind (lift_result (ok_or (zip_lookup z entry_name)
         (ZipError (''entry '' @ [char_of (39 :: nat)] @ message_text entry_name @ [char_of (39 :: nat)]
           @ '' not found in '' @ message_text zip_rel)))) (\<lambda>i.
     exec_bind (lift_result (map_sum ZipError id (zip_by_index z i))) (\<lambda>(contents, err).
     exec_bind (lift_result (bounded_path env content to_path)) (\<lambda>dst.
     exec_bind (write_file env dst contents) (\<lambda>_.
       case err of None \<Rightarrow> ret (dst, word_of_nat (length contents)) | Some e \<Rightarrow> fail_with (ExecIo e)))))))"

fun find_zip :: "environment \<Rightarrow> path \<Rightarrow> path \<Rightarrow> bytes list \<Rightarrow> bytes list \<Rightarrow> bytes \<Rightarrow> (path \<times> u64) option exec" where
  "find_zip env source content seen [] to_path = ret None"
| "find_zip env source content seen (p # ps) to_path =
     (let zip_rel = join_slash (seen @ [p]) in
      exec_bind (lift_result (bounded_path env source zip_rel)) (\<lambda>zip_path.
      exec_bind (file_exists zip_path) (\<lambda>is_file.
        if is_file \<and> ps \<noteq> []
        then exec_bind (unzip_entry env content zip_path zip_rel (join_slash ps) to_path) (\<lambda>r. ret (Some r))
        else find_zip env source content (seen @ [p]) ps to_path)))"

definition extract_zip_entry :: "environment \<Rightarrow> path \<Rightarrow> bytes \<Rightarrow> bytes \<Rightarrow> path \<Rightarrow> (path \<times> u64) option exec" where
  "extract_zip_entry env source from_path to_path content =
     find_zip env source content [] (split_slash from_path) to_path"

definition extract_zip_mapping :: "environment \<Rightarrow> path \<Rightarrow> path \<Rightarrow> file_mapping \<Rightarrow> u64 exec" where
  "extract_zip_mapping env source content m =
     exec_bind (lift_result (bounded_path env source (fm_from m))) (\<lambda>src.
     exec_bind (file_exists src) (\<lambda>found.
       if found then
         exec_bind (lift_result (bounded_path env content (fm_to m))) (\<lambda>dst.
         exec_bind (read_file src) (\<lambda>data.
         exec_bind (write_file env dst data) (\<lambda>_.
         exec_bind (on_progress (FileWritten dst (word_of_nat (length data)))) (\<lambda>_.
           ret (word_of_nat (length data))))))
       else
         exec_bind (extract_zip_entry env source (fm_from m) (fm_to m) content) (\<lambda>extracted.
           case extracted of
             Some (dst, bytes) \<Rightarrow> exec_bind (on_progress (FileWritten dst bytes)) (\<lambda>_. ret bytes)
           | None \<Rightarrow> fail_with (SourceFileNotFound src))))"

text \<open>The loops that count files and bytes, over anything that reports one file.\<close>

primrec count_each :: "('a \<Rightarrow> u64 exec) \<Rightarrow> 'a list \<Rightarrow> nat \<times> u64 \<Rightarrow> (nat \<times> u64) exec" where
  "count_each f [] counts = ret counts"
| "count_each f (x # xs) counts =
     exec_bind (f x) (\<lambda>bytes. count_each f xs (Suc (fst counts), snd counts + bytes))"

definition extract_from_zip :: "environment \<Rightarrow> path \<Rightarrow> path \<Rightarrow> file_mapping list \<Rightarrow> (nat \<times> u64) exec" where
  "extract_from_zip env source content entries = count_each (extract_zip_mapping env source content) entries (0, 0)"

definition bag_entry :: "(bytes \<Rightarrow> (u32 \<times> u32) option) \<Rightarrow> bytes \<Rightarrow> bytes \<Rightarrow> bytes \<Rightarrow> bytes exec" where
  "bag_entry index bag idx_path name =
     exec_bind (lift_result (ok_or (index name) (format_entry_missing ''BAG/IDX'' idx_path name))) (\<lambda>(offset, n).
       lift_result (map_sum ExecIo id (read_exact_at bag (unat offset) (unat n))))"

definition extract_from_bag_idx ::
  "environment \<Rightarrow> path \<Rightarrow> path \<Rightarrow> bytes \<Rightarrow> bytes \<Rightarrow> file_mapping list \<Rightarrow> (nat \<times> u64) exec"
where
  "extract_from_bag_idx env source content idx_path bag_path entries =
     exec_bind (lift_result (bounded_path env source idx_path)) (\<lambda>idx.
     exec_bind (read_file idx) (\<lambda>idx_data.
     exec_bind (lift_result (invalid_data (parse_idx env idx_data))) (\<lambda>index.
     exec_bind (lift_result (bounded_path env source bag_path)) (\<lambda>bag.
     exec_bind (read_file bag) (\<lambda>bag_data.
       extract_mappings env content (bag_entry index bag_data idx_path) entries (0, 0))))))"

definition describe_action :: "install_action \<Rightarrow> string" where
  "describe_action action =
     (let entries = (\<lambda>es kind name. ''Extracting '' @ show_nat (length es) @ '' entry/entries from '' @ kind
                        @ message_text name)
      in case action of
           Copy files \<Rightarrow> ''Copying '' @ show_nat (length files) @ '' file(s)''
         | ExtractMix mix es \<Rightarrow> entries es '''' mix
         | ExtractMixFromContent mix es \<Rightarrow> entries es '''' mix @ '' (content)''
         | ExtractIscab header _ es \<Rightarrow> entries es ''InstallShield '' header
         | ExtractRaw es \<Rightarrow> ''Extracting '' @ show_nat (length es) @ '' raw byte range(s)''
         | ExtractZip es \<Rightarrow> ''Extracting '' @ show_nat (length es) @ '' entry/entries from ZIP''
         | Delete p \<Rightarrow> ''Deleting '' @ message_text p
         | ExtractBig big es \<Rightarrow> entries es ''BIG '' big
         | ExtractMeg meg es \<Rightarrow> entries es ''MEG '' meg
         | ExtractBagIdx idx _ es \<Rightarrow> entries es ''BAG/IDX '' idx
         | ExtractIso img es \<Rightarrow> entries es ''ISO '' img
         | ExtractMixFromIso img mix es \<Rightarrow> entries es ''MIX '' mix @ '' in ISO '' @ message_text img)"

section \<open>The executor\<close>

definition copy_mapping :: "environment \<Rightarrow> path \<Rightarrow> path \<Rightarrow> file_mapping \<Rightarrow> u64 exec" where
  "copy_mapping env source content m =
     exec_bind (lift_result (bounded_path env source (fm_from m))) (\<lambda>src.
     exec_bind (lift_result (bounded_path env content (fm_to m))) (\<lambda>dst.
     exec_bind (read_file src) (\<lambda>data.
     exec_bind (write_file env dst data) (\<lambda>_.
     exec_bind (on_progress (FileWritten dst (word_of_nat (length data)))) (\<lambda>_.
       ret (word_of_nat (length data)))))))"

definition raw_mapping :: "environment \<Rightarrow> path \<Rightarrow> path \<Rightarrow> raw_extract_entry \<Rightarrow> u64 exec" where
  "raw_mapping env source content entry =
     exec_bind (extract_raw_entry env source content entry) (\<lambda>bytes.
     exec_bind (lift_result (bounded_path env content (re_to entry))) (\<lambda>dst.
     exec_bind (on_progress (FileWritten dst bytes)) (\<lambda>_. ret bytes)))"

definition run_action :: "environment \<Rightarrow> path \<Rightarrow> path \<Rightarrow> install_action \<Rightarrow> (nat \<times> u64) exec" where
  "run_action env source content action =
     (let in_source = (\<lambda>p f. exec_bind (lift_result (bounded_path env source p)) f)
      in case action of
           Copy files \<Rightarrow> count_each (copy_mapping env source content) files (0, 0)
         | ExtractMix p es \<Rightarrow> in_source p (\<lambda>mix. extract_from_mix env mix content es p)
         | ExtractMixFromContent p es \<Rightarrow>
             exec_bind (lift_result (bounded_path env content p)) (\<lambda>mix. extract_from_mix env mix content es p)
         | ExtractIscab header volumes es \<Rightarrow> extract_from_iscab env source content header volumes es
         | ExtractRaw es \<Rightarrow> count_each (raw_mapping env source content) es (0, 0)
         | ExtractZip es \<Rightarrow> extract_from_zip env source content es
         | Delete p \<Rightarrow>
             exec_bind (lift_result (bounded_path env content p)) (\<lambda>target.
             exec_bind (file_exists target) (\<lambda>found.
               if found then exec_bind (remove_file env target) (\<lambda>_. ret (0, 0)) else ret (0, 0)))
         | ExtractBig p es \<Rightarrow> in_source p (\<lambda>big. extract_from_big env big content es p)
         | ExtractMeg p es \<Rightarrow> in_source p (\<lambda>meg. extract_from_meg env meg content es p)
         | ExtractBagIdx idx bag es \<Rightarrow> extract_from_bag_idx env source content idx bag es
         | ExtractIso p es \<Rightarrow> in_source p (\<lambda>iso. extract_from_iso env iso content es p)
         | ExtractMixFromIso p mix es \<Rightarrow> in_source p (\<lambda>iso. extract_mix_from_iso env iso content mix es p))"

text \<open>The loop over the actions with the totals; the index of an action is the position in the recipe.\<close>

primrec run_actions ::
  "environment \<Rightarrow> path \<Rightarrow> path \<Rightarrow> nat \<Rightarrow> nat \<Rightarrow> install_action list \<Rightarrow> nat \<times> u64 \<Rightarrow> (nat \<times> u64) exec"
where
  "run_actions env source content n_actions i [] counts = ret counts"
| "run_actions env source content n_actions i (a # as) counts =
     exec_bind (on_progress (ActionStarted i n_actions (describe_action a))) (\<lambda>_.
     exec_bind (run_action env source content a) (\<lambda>(written, bytes).
       run_actions env source content n_actions (Suc i) as (fst counts + written, snd counts + bytes)))"

definition execute_recipe :: "environment \<Rightarrow> install_action list \<Rightarrow> path \<Rightarrow> path \<Rightarrow> unit exec" where
  "execute_recipe env actions source_root content_root =
     exec_bind (lift_result (map_sum (\<lambda>e. PathTraversal source_root (''invalid source root: '' @ e)) id
         (try_boundary env source_root))) (\<lambda>_.
     exec_bind (lift_result (map_sum (\<lambda>e. PathTraversal content_root (''invalid content root: '' @ e)) id
         (try_create_boundary env content_root))) (\<lambda>_.
     exec_bind (run_actions env source_root content_root (length actions) 0 actions (0, 0)) (\<lambda>(files, bytes).
       on_progress (Completed files bytes))))"

section \<open>What the executor relies on\<close>

text \<open>\<open>p\<close> lies inside the directory \<open>root\<close>.\<close>

definition inside :: "path \<Rightarrow> path \<Rightarrow> bool" where
  "inside root p \<longleftrightarrow> (\<exists>rest. p = root @ 47 # rest)"

text \<open>
  The boundary check gives paths inside the boundary only. A write or a removal, also one that fails,
  touches its own path only; a write that succeeds leaves the data there.
\<close>

locale installer_environment =
  fixes env :: environment
  assumes join_inside: "strict_join env root sub = Inr p \<Longrightarrow> inside root p"
    and write_frame: "q \<noteq> p \<Longrightarrow> Mapping.lookup (snd (os_write env p d fs)) q = Mapping.lookup fs q"
    and write_stores: "os_write env p d fs = (Inr (), fs') \<Longrightarrow> Mapping.lookup fs' p = Some d"
    and remove_frame: "q \<noteq> p \<Longrightarrow> Mapping.lookup (snd (os_remove env p fs)) q = Mapping.lookup fs q"

definition confined :: "path \<Rightarrow> exec_state \<Rightarrow> exec_state \<Rightarrow> bool" where
  "confined content s s' \<longleftrightarrow>
     (\<forall>p. \<not> inside content p \<longrightarrow> Mapping.lookup (ex_files s') p = Mapping.lookup (ex_files s) p)"

text \<open>The files and bytes that a list of events reports, added to a count.\<close>

fun tally :: "install_progress list \<Rightarrow> nat \<times> u64 \<Rightarrow> nat \<times> u64" where
  "tally [] c = c"
| "tally (FileWritten p b # es) c = tally es (Suc (fst c), snd c + b)"
| "tally (_ # es) c = tally es c"

fun last_report :: "install_progress list \<Rightarrow> path \<Rightarrow> u64 option" where
  "last_report [] p = None"
| "last_report (FileWritten q b # es) p =
     (case last_report es p of None \<Rightarrow> if p = q then Some b else None | Some b' \<Rightarrow> Some b')"
| "last_report (_ # es) p = last_report es p"

text \<open>Every change is reported: a path without a report is as before, one with a report has the size of the last one.\<close>

definition accounted :: "exec_state \<Rightarrow> exec_state \<Rightarrow> install_progress list \<Rightarrow> bool" where
  "accounted s s' es \<longleftrightarrow>
     (\<forall>p. case last_report es p of
            None \<Rightarrow> Mapping.lookup (ex_files s') p = Mapping.lookup (ex_files s) p
          | Some b \<Rightarrow> (\<exists>d. Mapping.lookup (ex_files s') p = Some d \<and> b = word_of_nat (length d)))"

fun file_event :: "path \<Rightarrow> install_progress \<Rightarrow> bool" where
  "file_event content (FileWritten p b) = inside content p"
| "file_event content _ = False"

definition pure :: "'a exec \<Rightarrow> bool" where
  "pure m \<longleftrightarrow> (\<forall>s. snd (m s) = s)"

text \<open>The outcome of writing and reporting one file inside the content directory, or of failing to.\<close>

definition file_outcome :: "environment \<Rightarrow> path \<Rightarrow> exec_state \<Rightarrow> executor_error + u64 \<Rightarrow> exec_state \<Rightarrow> bool" where
  "file_outcome env content s r s' \<longleftrightarrow>
     (case r of
        Inr b \<Rightarrow> \<exists>p d. inside content p \<and> os_write env p d (ex_files s) = (Inr (), ex_files s')
                  \<and> ex_events s' = ex_events s @ [FileWritten p b] \<and> b = word_of_nat (length d)
      | Inl e \<Rightarrow> ex_events s' = ex_events s
          \<and> (s' = s \<or> (\<exists>p d. inside content p \<and> ex_files s' = snd (os_write env p d (ex_files s)))))"

definition one_file :: "environment \<Rightarrow> path \<Rightarrow> u64 exec \<Rightarrow> bool" where
  "one_file env content m \<longleftrightarrow> (\<forall>s. file_outcome env content s (fst (m s)) (snd (m s)))"

text \<open>The outcome of reporting the files that are written; if \<open>strict\<close>, nothing else has changed.\<close>

definition report_outcome ::
  "path \<Rightarrow> bool \<Rightarrow> nat \<times> u64 \<Rightarrow> exec_state \<Rightarrow> executor_error + nat \<times> u64 \<Rightarrow> exec_state \<Rightarrow> bool"
where
  "report_outcome content strict c s r s' \<longleftrightarrow>
     (\<exists>es. ex_events s' = ex_events s @ es \<and> list_all (file_event content) es \<and> confined content s s'
        \<and> (\<forall>k. r = Inr k \<longrightarrow> tally es c = k \<and> (strict \<longrightarrow> accounted s s' es)))"

definition reports :: "path \<Rightarrow> bool \<Rightarrow> nat \<times> u64 \<Rightarrow> (nat \<times> u64) exec \<Rightarrow> bool" where
  "reports content strict c m \<longleftrightarrow> (\<forall>s. report_outcome content strict c s (fst (m s)) (snd (m s)))"

named_theorems pure_intro "computations that do not change the state"

lemma pure_lift [pure_intro]: "pure (lift_result r)"
  by (simp add: pure_def lift_result_def)

lemma pure_fail [pure_intro]: "pure (fail_with e)"
  by (simp add: pure_def fail_with_def)

lemma pure_ret [pure_intro]: "pure (ret a)"
  by (simp add: pure_def ret_def)

lemma pure_exists [pure_intro]: "pure (file_exists p)"
  by (simp add: pure_def file_exists_def)

lemma pure_read [pure_intro]: "pure (read_file p)"
  by (simp add: pure_def read_file_def)

lemma pure_archive_entry [pure_intro]: "pure (archive_entry a e name)"
  by (simp add: archive_entry_def pure_lift)

lemma pure_query [pure_intro]: "pure (\<lambda>s. (f s, s))"
  by (simp add: pure_def)

lemma pure_bind [pure_intro]: "pure m \<Longrightarrow> (\<And>a. pure (f a)) \<Longrightarrow> pure (exec_bind m f)"
  by (simp add: pure_def exec_bind_def split: prod.split sum.split) (metis snd_conv)

lemma pure_bag_entry [pure_intro]: "pure (bag_entry index bag p name)"
  unfolding bag_entry_def by (intro pure_intro) (simp add: pure_lift split: prod.split)

lemma pureD: "pure m \<Longrightarrow> m s = (r, s') \<Longrightarrow> s' = s"
  by (metis pure_def snd_conv)

lemma exec_bind_cases:
  assumes "exec_bind m f s = (r, s')"
  obtains (fails) e where "m s = (Inl e, s')" "r = Inl e"
  | (goes) a s1 where "m s = (Inr a, s1)" "f a s1 = (r, s')"
  using assms by (auto simp: exec_bind_def split: prod.splits sum.splits)

lemma exec_bind_assoc: "exec_bind (exec_bind m f) g = exec_bind m (\<lambda>a. exec_bind (f a) g)"
  by (rule ext) (simp add: exec_bind_def split: prod.split sum.split)

lemma tally_append: "tally (es @ es') c = tally es' (tally es c)"
  by (induction es c rule: tally.induct) auto

lemma last_report_append:
  "last_report (es @ es') p = (case last_report es' p of None \<Rightarrow> last_report es p | Some b \<Rightarrow> Some b)"
  by (induction es p rule: last_report.induct) (auto split: option.split)

lemma confined_refl: "confined content s s"
  by (simp add: confined_def)

lemma confined_trans: "confined content s s' \<Longrightarrow> confined content s' s'' \<Longrightarrow> confined content s s''"
  by (simp add: confined_def)

lemma accounted_trans:
  "accounted s s' es \<Longrightarrow> accounted s' s'' es' \<Longrightarrow> accounted s s'' (es @ es')"
  unfolding accounted_def last_report_append
proof (rule allI)
  fix p
  assume "\<forall>p. case last_report es p of None \<Rightarrow> Mapping.lookup (ex_files s') p = Mapping.lookup (ex_files s) p
      | Some b \<Rightarrow> \<exists>d. Mapping.lookup (ex_files s') p = Some d \<and> b = word_of_nat (length d)"
    and "\<forall>p. case last_report es' p of None \<Rightarrow> Mapping.lookup (ex_files s'') p = Mapping.lookup (ex_files s') p
      | Some b \<Rightarrow> \<exists>d. Mapping.lookup (ex_files s'') p = Some d \<and> b = word_of_nat (length d)"
  from this [THEN spec, of p]
  show "case (case last_report es' p of None \<Rightarrow> last_report es p | Some x \<Rightarrow> Some x) of
      None \<Rightarrow> Mapping.lookup (ex_files s'') p = Mapping.lookup (ex_files s) p
    | Some b \<Rightarrow> \<exists>d. Mapping.lookup (ex_files s'') p = Some d \<and> b = word_of_nat (length d)"
    by (cases "last_report es' p"; cases "last_report es p") simp_all
qed

lemma accounted_events: "accounted (s\<lparr>ex_events := es0\<rparr>) s' es \<longleftrightarrow> accounted s s' es"
  by (simp add: accounted_def cong: option.case_cong)

lemma accounted_refl: "accounted s s []"
  by (simp add: accounted_def)

text \<open>A pure step in front changes nothing about what follows.\<close>

lemma bind_pure:
  assumes "pure m"
  shows "exec_bind m f s = (case fst (m s) of Inl e \<Rightarrow> (Inl e, s) | Inr a \<Rightarrow> f a s)"
  using pureD [OF assms, of s] by (cases "m s") (auto simp: exec_bind_def split: sum.split)

lemma file_outcome_fail: "file_outcome env content s (Inl e) s"
  by (simp add: file_outcome_def)

lemma one_file_bind:
  "pure m \<Longrightarrow> (\<And>a s. fst (m s) = Inr a \<Longrightarrow> one_file env content (f a)) \<Longrightarrow> one_file env content (exec_bind m f)"
  by (simp add: one_file_def bind_pure file_outcome_fail split: sum.split)

lemma one_file_fail: "one_file env content (fail_with e)"
  by (simp add: one_file_def fail_with_def file_outcome_fail)

lemma report_outcome_refl: "report_outcome content strict c s (Inl e) s" "report_outcome content strict c s (Inr c) s"
  unfolding report_outcome_def by (auto intro!: exI [of _ "[]"] simp: confined_refl accounted_refl)

lemma reports_bind:
  "pure m \<Longrightarrow> (\<And>a. reports content strict c (f a)) \<Longrightarrow> reports content strict c (exec_bind m f)"
  by (simp add: reports_def bind_pure report_outcome_refl split: sum.split)

lemma reports_fail: "reports content strict c (fail_with e)"
  by (simp add: reports_def fail_with_def report_outcome_refl)

lemma reports_ret: "reports content strict c (ret c)"
  by (simp add: reports_def ret_def report_outcome_refl)

lemma report_outcome_trans:
  assumes "report_outcome content strict c s (Inr k) s'" and "report_outcome content strict k s' r s''"
  shows "report_outcome content strict c s r s''"
proof -
  from assms obtain es es' where "ex_events s' = ex_events s @ es" "list_all (file_event content) es" "confined content s s'"
    "tally es c = k" "strict \<longrightarrow> accounted s s' es" "ex_events s'' = ex_events s' @ es'"
    "list_all (file_event content) es'" "confined content s' s''"
    "\<forall>j. r = Inr j \<longrightarrow> tally es' k = j \<and> (strict \<longrightarrow> accounted s' s'' es')"
    unfolding report_outcome_def by blast
  then show ?thesis
    unfolding report_outcome_def
    by (intro exI [of _ "es @ es'"]) (auto simp: tally_append intro: confined_trans accounted_trans)
qed

context installer_environment
begin

lemma written_confined:
  "inside content p \<Longrightarrow> ex_files s' = snd (os_write env p d (ex_files s)) \<Longrightarrow> confined content s s'"
  unfolding confined_def by (metis write_frame)

lemma file_outcome_reports:
  assumes "file_outcome env content s r s'"
  shows "report_outcome content strict c s (map_sum id (\<lambda>b. (Suc (fst c), snd c + b)) r) s'"
proof (cases r)
  case (Inl e)
  with assms have "ex_events s' = ex_events s" "confined content s s'"
    using written_confined confined_refl by (auto simp: file_outcome_def)
  then show ?thesis
    using Inl by (auto simp: report_outcome_def)
next
  case (Inr b)
  with assms obtain p d where w: "inside content p" "os_write env p d (ex_files s) = (Inr (), ex_files s')"
    "ex_events s' = ex_events s @ [FileWritten p b]" "b = word_of_nat (length d)"
    by (auto simp: file_outcome_def)
  have "Mapping.lookup (ex_files s') q = Mapping.lookup (ex_files s) q" if "q \<noteq> p" for q
    using write_frame [OF that, of d "ex_files s"] w(2) by simp
  then have "accounted s s' [FileWritten p b]"
    using write_stores [OF w(2)] w(4) by (auto simp: accounted_def)
  moreover have "confined content s s'"
    using written_confined [OF w(1), of s' d s] w(2) by simp
  ultimately show ?thesis
    using Inr w(1,3) by (auto simp: report_outcome_def)
qed

lemma count_each_reports:
  assumes "\<And>x. x \<in> set xs \<Longrightarrow> one_file env content (f x)"
  shows "reports content strict c (count_each f xs c)"
  using assms
proof (induction xs arbitrary: c)
  case Nil
  then show ?case
    by (simp add: reports_ret)
next
  case (Cons x xs)
  show ?case
    unfolding reports_def
  proof (rule allI)
    fix s
    obtain r s1 where x: "f x s = (r, s1)"
      by fastforce
    have "file_outcome env content s r s1"
      using Cons.prems [of x] x unfolding one_file_def by (metis fst_conv list.set_intros(1) snd_conv)
    note out = file_outcome_reports [OF this, of strict c]
    show "report_outcome content strict c s (fst (count_each f (x # xs) c s)) (snd (count_each f (x # xs) c s))"
    proof (cases r)
      case (Inl e)
      with x out show ?thesis
        by (simp add: exec_bind_def)
    next
      case (Inr b)
      have "report_outcome content strict (Suc (fst c), snd c + b) s1
          (fst (count_each f xs (Suc (fst c), snd c + b) s1)) (snd (count_each f xs (Suc (fst c), snd c + b) s1))"
        using Cons.IH [of "(Suc (fst c), snd c + b)"] Cons.prems unfolding reports_def by simp
      with Inr x out report_outcome_trans show ?thesis
        by (simp add: exec_bind_def)
    qed
  qed
qed

lemma one_file_tail:
  assumes "b = word_of_nat (length d)"
    and "\<And>dst s. bounded_path env content to = Inr dst \<Longrightarrow>
      g dst s = (Inr b, s\<lparr>ex_events := ex_events s @ [FileWritten dst b]\<rparr>) \<or> (\<exists>e. g dst s = (Inl e, s))"
  shows "one_file env content
    (exec_bind (lift_result (bounded_path env content to)) (\<lambda>dst. exec_bind (write_file env dst d) (\<lambda>_. g dst)))"
proof (rule one_file_bind [OF pure_lift])
  fix dst :: path and s :: exec_state
  assume "fst (lift_result (bounded_path env content to) s) = Inr dst"
  then have dst: "bounded_path env content to = Inr dst"
    by (simp add: lift_result_def)
  then have "strict_join env content to = Inr dst"
    by (cases "strict_join env content to") (simp_all add: bounded_path_def)
  note ins = join_inside [OF this]
  show "one_file env content (exec_bind (write_file env dst d) (\<lambda>_. g dst))"
    unfolding one_file_def
  proof (rule allI)
    fix s :: exec_state
    obtain r fs where w: "os_write env dst d (ex_files s) = (r, fs)"
      by fastforce
    show "file_outcome env content s (fst (exec_bind (write_file env dst d) (\<lambda>_. g dst) s))
        (snd (exec_bind (write_file env dst d) (\<lambda>_. g dst) s))"
    proof (cases r)
      case (Inl e)
      have "ex_files (s\<lparr>ex_files := fs\<rparr>) = snd (os_write env dst d (ex_files s))"
        using w by simp
      with w ins Inl show ?thesis
        by (simp add: exec_bind_def write_file_def file_outcome_def) (metis snd_conv)
    next
      case (Inr u)
      then have ok: "os_write env dst d (ex_files s) = (Inr (), fs)"
        using w by simp
      then have run: "exec_bind (write_file env dst d) (\<lambda>_. g dst) s = g dst (s\<lparr>ex_files := fs\<rparr>)"
        by (simp add: exec_bind_def write_file_def)
      from assms(2) [OF dst, of "s\<lparr>ex_files := fs\<rparr>"] show ?thesis
      proof
        assume "g dst (s\<lparr>ex_files := fs\<rparr>) =
          (Inr b, s\<lparr>ex_files := fs, ex_events := ex_events (s\<lparr>ex_files := fs\<rparr>) @ [FileWritten dst b]\<rparr>)"
        with run ok ins assms(1) show ?thesis
          by (auto simp: file_outcome_def)
      next
        assume "\<exists>e. g dst (s\<lparr>ex_files := fs\<rparr>) = (Inl e, s\<lparr>ex_files := fs\<rparr>)"
        moreover have "fs = snd (os_write env dst d (ex_files s))"
          using ok by simp
        ultimately show ?thesis
          using run ins unfolding file_outcome_def by fastforce
      qed
    qed
  qed
qed

lemma report_tail:
  "exec_bind (on_progress (FileWritten dst b)) (\<lambda>_. ret b) s =
     (Inr b, s\<lparr>ex_events := ex_events s @ [FileWritten dst b]\<rparr>)"
  by (simp add: exec_bind_def on_progress_def ret_def)

lemma one_file_write: "one_file env content (write_reported env content to data)"
  unfolding write_reported_def by (rule one_file_tail) (simp_all add: report_tail)

lemma one_file_copy: "one_file env content (copy_mapping env source content m)"
proof -
  have "copy_mapping env source content m =
      exec_bind (lift_result (bounded_path env source (fm_from m))) (\<lambda>src.
        exec_bind (lift_result (bounded_path env content (fm_to m))) (\<lambda>_.
        exec_bind (read_file src) (\<lambda>data. write_reported env content (fm_to m) data)))"
    by (rule ext) (simp add: copy_mapping_def write_reported_def exec_bind_def lift_result_def read_file_def
        split: prod.split sum.split)
  moreover have "one_file env content \<dots>"
    by (intro one_file_bind pure_intro one_file_write)
  ultimately show ?thesis
    by argo
qed

lemma one_file_raw: "one_file env content (raw_mapping env source content entry)"
proof -
  have "raw_mapping env source content entry =
      exec_bind (lift_result (bounded_path env source (re_source entry))) (\<lambda>src.
      exec_bind (file_exists src) (\<lambda>found.
        if \<not> found then fail_with (SourceFileNotFound src)
        else
          exec_bind (read_file src) (\<lambda>data.
          exec_bind (lift_result (map_sum ExecIo id
              (read_exact_at data (unat (re_offset entry)) (unat (re_length entry))))) (\<lambda>buf.
          exec_bind (lift_result (bounded_path env content (re_to entry))) (\<lambda>dst.
          exec_bind (write_file env dst buf) (\<lambda>_.
          exec_bind (lift_result (bounded_path env content (re_to entry))) (\<lambda>dst'.
          exec_bind (on_progress (FileWritten dst' (re_length entry))) (\<lambda>_. ret (re_length entry)))))))))"
    by (rule ext) (simp add: raw_mapping_def extract_raw_entry_def exec_bind_def lift_result_def read_file_def
        file_exists_def ret_def fail_with_def split: prod.split sum.split)
  moreover have "one_file env content \<dots>"
  proof (intro one_file_bind pure_intro, goal_cases)
    case (1 src s found s')
    show ?case
    proof (cases found)
      case True
      have tail: "one_file env content (exec_bind (lift_result (bounded_path env content (re_to entry))) (\<lambda>dst.
          exec_bind (write_file env dst buf) (\<lambda>_.
          exec_bind (lift_result (bounded_path env content (re_to entry))) (\<lambda>dst'.
          exec_bind (on_progress (FileWritten dst' (re_length entry))) (\<lambda>_. ret (re_length entry))))))"
        if "read_exact_at data (unat (re_offset entry)) (unat (re_length entry)) = Inr buf" for data buf
      proof (rule one_file_tail)
        have "length buf = unat (re_length entry)"
          using that read_exact_at_Inr by blast
        then show "re_length entry = word_of_nat (length buf)"
          by simp
      qed (simp add: exec_bind_def lift_result_def on_progress_def ret_def)
      have read: "read_exact_at data (unat (re_offset entry)) (unat (re_length entry)) = Inr buf"
        if "fst (lift_result (map_sum ExecIo id (read_exact_at data (unat (re_offset entry)) (unat (re_length entry)))) s)
          = Inr buf" for data buf and s :: exec_state
        using that by (cases "read_exact_at data (unat (re_offset entry)) (unat (re_length entry))")
          (simp_all add: lift_result_def)
      show ?thesis
        using True by (auto intro!: one_file_bind [OF pure_read] one_file_bind [OF pure_lift] tail read)
    qed (simp add: one_file_fail)
  qed
  ultimately show ?thesis
    by argo
qed

text \<open>Extraction from a ZIP archive writes before it reports; the search for the archive is pure.\<close>

definition zip_outcome :: "path \<Rightarrow> (path \<times> u64) exec \<Rightarrow> bool" where
  "zip_outcome content m \<longleftrightarrow>
     (\<forall>s r s'. m s = (r, s') \<longrightarrow> ex_events s' = ex_events s \<and>
        (case r of
           Inr (p, b) \<Rightarrow> \<exists>d. inside content p \<and> os_write env p d (ex_files s) = (Inr (), ex_files s') \<and> b = word_of_nat (length d)
         | Inl e \<Rightarrow> s' = s \<or> (\<exists>p d. inside content p \<and> ex_files s' = snd (os_write env p d (ex_files s)))))"

lemma zip_outcome_bind:
  assumes "pure m" and "\<And>a. zip_outcome content (f a)"
  shows "zip_outcome content (exec_bind m f)"
  unfolding zip_outcome_def
proof (intro allI impI)
  fix s r s'
  assume run: "exec_bind m f s = (r, s')"
  show "ex_events s' = ex_events s \<and>
        (case r of
           Inr (p, b) \<Rightarrow> \<exists>d. inside content p \<and> os_write env p d (ex_files s) = (Inr (), ex_files s') \<and> b = word_of_nat (length d)
         | Inl e \<Rightarrow> s' = s \<or> (\<exists>p d. inside content p \<and> ex_files s' = snd (os_write env p d (ex_files s))))"
  proof (cases "fst (m s)")
    case (Inl e)
    with run assms(1) show ?thesis
      by (auto simp: bind_pure)
  next
    case (Inr a)
    with run assms(1) have "f a s = (r, s')"
      by (simp add: bind_pure)
    with assms(2) [of a] show ?thesis
      unfolding zip_outcome_def by blast
  qed
qed

lemma zip_outcome_unzip: "zip_outcome content (unzip_entry env content zip_path zip_rel name to)"
  unfolding unzip_entry_def
proof (intro zip_outcome_bind pure_intro, goal_cases)
  case (1 data z i contents_err)
  obtain contents err where ce: "contents_err = (contents, err)"
    by fastforce
  have "zip_outcome content (exec_bind (lift_result (bounded_path env content to)) (\<lambda>dst.
      exec_bind (write_file env dst contents) (\<lambda>_.
        case err of None \<Rightarrow> ret (dst, word_of_nat (length contents)) | Some e \<Rightarrow> fail_with (ExecIo e))))"
    unfolding zip_outcome_def
  proof (intro allI impI)
    fix s :: exec_state and r s'
    assume run: "exec_bind (lift_result (bounded_path env content to)) (\<lambda>dst.
      exec_bind (write_file env dst contents) (\<lambda>_.
        case err of None \<Rightarrow> ret (dst, word_of_nat (length contents)) | Some e \<Rightarrow> fail_with (ExecIo e))) s = (r, s')"
    show "ex_events s' = ex_events s \<and>
        (case r of
           Inr (p, b) \<Rightarrow> \<exists>d. inside content p \<and> os_write env p d (ex_files s) = (Inr (), ex_files s') \<and> b = word_of_nat (length d)
         | Inl e \<Rightarrow> s' = s \<or> (\<exists>p d. inside content p \<and> ex_files s' = snd (os_write env p d (ex_files s))))"
    proof (cases "strict_join env content to")
      case (Inl e)
      with run show ?thesis
        by (auto simp: exec_bind_def lift_result_def bounded_path_def)
    next
      case (Inr dst)
      obtain w fs where w: "os_write env dst contents (ex_files s) = (w, fs)"
        by fastforce
      have "fs = snd (os_write env dst contents (ex_files s))"
        using w by simp
      then have written: "\<exists>p d. inside content p \<and> fs = snd (os_write env p d (ex_files s))"
        using join_inside [OF Inr] by blast
      from run Inr w have "ex_events s' = ex_events s \<and> ex_files s' = fs"
        and "\<forall>v. r = Inr v \<longrightarrow> w = Inr () \<and> v = (dst, word_of_nat (length contents))"
        by (cases w; auto simp: exec_bind_def lift_result_def bounded_path_def write_file_def ret_def fail_with_def
            split: sum.splits option.splits)+
      with written w join_inside [OF Inr] show ?thesis
        by (auto split: sum.splits)
    qed
  qed
  with ce show ?case
    by simp
qed

lemma find_zip_outcome:
  "find_zip env source content seen parts to s = (r, s') \<Longrightarrow> ex_events s' = ex_events s \<and>
     (case r of
        Inr None \<Rightarrow> s' = s
      | Inr (Some (p, b)) \<Rightarrow>
          \<exists>d. inside content p \<and> os_write env p d (ex_files s) = (Inr (), ex_files s') \<and> b = word_of_nat (length d)
      | Inl e \<Rightarrow> s' = s \<or> (\<exists>p d. inside content p \<and> ex_files s' = snd (os_write env p d (ex_files s))))"
proof (induction parts arbitrary: seen)
  case Nil
  then show ?case
    by (auto simp: ret_def)
next
  case (Cons p ps)
  let ?rel = "join_slash (seen @ [p])"
  show ?case
  proof (cases "strict_join env source ?rel")
    case (Inl e)
    with Cons.prems show ?thesis
      by (auto simp: exec_bind_def lift_result_def bounded_path_def Let_def)
  next
    case (Inr zp)
    show ?thesis
    proof (cases "Mapping.lookup (ex_files s) zp \<noteq> None \<and> ps \<noteq> []")
      case False
      with Cons.prems Inr have "find_zip env source content (seen @ [p]) ps to s = (r, s')"
        by (auto simp: exec_bind_def lift_result_def bounded_path_def file_exists_def Let_def)
      from Cons.IH [OF this] show ?thesis .
    next
      case True
      obtain q s1 where q: "unzip_entry env content zp ?rel (join_slash ps) to s = (q, s1)"
        by fastforce
      with Cons.prems Inr True have "s' = s1" "r = map_sum id Some q"
        by (auto simp: exec_bind_def lift_result_def bounded_path_def file_exists_def Let_def ret_def split: sum.splits)
      with q zip_outcome_unzip [of content zp ?rel "join_slash ps" to] show ?thesis
        unfolding zip_outcome_def by (cases q) fastforce+
    qed
  qed
qed

lemma one_file_zip: "one_file env content (extract_zip_mapping env source content m)"
  unfolding extract_zip_mapping_def
proof (intro one_file_bind pure_intro, goal_cases)
  case (1 src s found s')
  show ?case
  proof (cases found)
    case True
    have "exec_bind (lift_result (bounded_path env content (fm_to m))) (\<lambda>dst.
         exec_bind (read_file src) (\<lambda>data.
         exec_bind (write_file env dst data) (\<lambda>_.
         exec_bind (on_progress (FileWritten dst (word_of_nat (length data)))) (\<lambda>_.
           ret (word_of_nat (length data)))))) =
        exec_bind (lift_result (bounded_path env content (fm_to m))) (\<lambda>_.
        exec_bind (read_file src) (\<lambda>data. write_reported env content (fm_to m) data))"
      by (rule ext) (simp add: write_reported_def exec_bind_def lift_result_def read_file_def
        split: prod.split sum.split)
    moreover have "one_file env content \<dots>"
      by (intro one_file_bind pure_intro one_file_write)
    ultimately show ?thesis
      using True by simp
  next
    case False
    have "file_outcome env content s (fst (f s)) (snd (f s))"
      if f: "f = exec_bind (extract_zip_entry env source (fm_from m) (fm_to m) content) (\<lambda>extracted.
           case extracted of
             Some (dst, bytes) \<Rightarrow> exec_bind (on_progress (FileWritten dst bytes)) (\<lambda>_. ret bytes)
           | None \<Rightarrow> fail_with (SourceFileNotFound src))" for f s
    proof -
      obtain r s1 where z: "extract_zip_entry env source (fm_from m) (fm_to m) content s = (r, s1)"
        by fastforce
      note out = find_zip_outcome [OF z [unfolded extract_zip_entry_def]]
      show ?thesis
      proof (cases r)
        case (Inl e)
        with z out show ?thesis
          by (simp add: f exec_bind_def file_outcome_def)
      next
        case (Inr x)
        show ?thesis
        proof (cases x)
          case None
          with z out Inr show ?thesis
            by (simp add: f exec_bind_def fail_with_def file_outcome_def)
        next
          case (Some pb)
          with z out Inr show ?thesis
            by (cases pb) (auto simp: f exec_bind_def on_progress_def ret_def file_outcome_def)
        qed
      qed
    qed
    with False show ?thesis
      by (simp add: one_file_def)
  qed
qed

lemma extract_mappings_count:
  "extract_mappings env content entry ms c =
     count_each (\<lambda>m. exec_bind (entry (fm_from m)) (write_reported env content (fm_to m))) ms c"
  by (induction ms arbitrary: c) (simp_all add: exec_bind_assoc)

lemma mappings_reports:
  "(\<And>name. pure (entry name)) \<Longrightarrow> reports content strict c (extract_mappings env content entry ms c)"
  unfolding extract_mappings_count by (intro count_each_reports one_file_bind one_file_write)

lemma archive_reports:
  "reports content strict (0, 0) (extract_from_archive env content open_archive not_found missing p es)"
  unfolding extract_from_archive_def
  by (intro reports_bind pure_intro) (auto intro!: reports_fail reports_bind pure_intro mappings_reports)

lemmas archive_formats = extract_from_mix_def extract_from_big_def extract_from_meg_def extract_from_iso_def

lemma mix_in_iso_reports:
  "reports content strict (0, 0) (extract_mix_from_iso env p content mix es name)"
  unfolding extract_mix_from_iso_def
  by (intro reports_bind pure_intro) (auto intro!: reports_fail reports_bind pure_intro mappings_reports)

lemma iscab_reports: "reports content strict (0, 0) (extract_from_iscab env source content header volumes es)"
  unfolding extract_from_iscab_def by (intro reports_bind pure_intro mappings_reports)

lemma bag_reports: "reports content strict (0, 0) (extract_from_bag_idx env source content idx bag es)"
  unfolding extract_from_bag_idx_def by (intro reports_bind pure_intro mappings_reports)

lemma delete_reports:
  "reports content False (0, 0)
     (exec_bind (lift_result (bounded_path env content p)) (\<lambda>target.
      exec_bind (file_exists target) (\<lambda>found.
        if found then exec_bind (remove_file env target) (\<lambda>_. ret (0, 0)) else ret (0, 0))))"
  unfolding reports_def
proof (rule allI)
  fix s :: exec_state
  let ?m = "exec_bind (lift_result (bounded_path env content p)) (\<lambda>target.
      exec_bind (file_exists target) (\<lambda>found.
        if found then exec_bind (remove_file env target) (\<lambda>_. ret (0, 0)) else ret (0, 0)))"
  show "report_outcome content False (0, 0) s (fst (?m s)) (snd (?m s))"
  proof (cases "strict_join env content p")
    case (Inl e)
    then show ?thesis
      by (simp add: exec_bind_def lift_result_def bounded_path_def report_outcome_refl)
  next
    case (Inr target)
    obtain r fs where rm: "os_remove env target (ex_files s) = (r, fs)"
      by fastforce
    have "confined content s (s\<lparr>ex_files := fs\<rparr>)"
      unfolding confined_def
    proof (intro allI impI)
      fix q
      assume "\<not> inside content q"
      then have "q \<noteq> target"
        using join_inside [OF Inr] by blast
      from remove_frame [OF this, of "ex_files s"] rm
      show "Mapping.lookup (ex_files (s\<lparr>ex_files := fs\<rparr>)) q = Mapping.lookup (ex_files s) q"
        by simp
    qed
    then have "report_outcome content False (0, 0) s (map_sum ExecIo (\<lambda>_. (0, 0)) r) (s\<lparr>ex_files := fs\<rparr>)"
      unfolding report_outcome_def by (intro exI [of _ "[]"]) (cases r; auto)
    then show ?thesis
      using Inr rm
      by (cases r) (simp_all add: exec_bind_def lift_result_def bounded_path_def file_exists_def remove_file_def ret_def
          report_outcome_refl)
  qed
qed

lemma run_action_reports:
  "reports content (\<nexists>p. a = Delete p) (0, 0) (run_action env source content a)"
proof (cases a)
  case (Delete p)
  then show ?thesis
    using delete_reports [of content p] by (simp add: run_action_def)
qed (simp_all add: run_action_def archive_formats archive_reports mix_in_iso_reports iscab_reports bag_reports
    extract_from_zip_def count_each_reports one_file_copy one_file_raw one_file_zip reports_bind pure_lift)

end

lemma tally_shift: "tally es (n + k, b + c) = (fst (tally es (n, b)) + k, snd (tally es (n, b)) + c)"
proof (induction es arbitrary: n b)
  case (Cons e es)
  show ?case
  proof (cases e)
    case (FileWritten p x)
    with Cons.IH [of "Suc n" "b + x"] show ?thesis
      by (simp add: ac_simps)
  qed (simp_all add: Cons.IH)
qed simp

fun start_event :: "install_progress \<Rightarrow> bool" where
  "start_event (ActionStarted _ _ _) = True"
| "start_event _ = False"

lemma file_events_not_started: "list_all (file_event content) es \<Longrightarrow> filter start_event es = []"
proof (induction es)
  case (Cons e es)
  then show ?case
    by (cases e) simp_all
qed simp

definition starts :: "nat \<Rightarrow> nat \<Rightarrow> install_action list \<Rightarrow> install_progress list" where
  "starts n i as = map (\<lambda>j. ActionStarted (i + j) n (describe_action (as ! j))) [0..<length as]"

lemma starts_Cons: "starts n i (a # as) = ActionStarted i n (describe_action a) # starts n (Suc i) as"
proof -
  have "[0..<length (a # as)] = 0 # map Suc [0..<length as]"
    by (simp add: upt_conv_Cons map_Suc_upt del: upt_Suc)
  then show ?thesis
    by (simp add: starts_def comp_def del: upt_Suc)
qed

context installer_environment
begin

lemma run_actions_reports:
  assumes "run_actions env source content n i as c s = (r, s')"
  shows "\<exists>es. ex_events s' = ex_events s @ es \<and> confined content s s'
    \<and> list_all (\<lambda>e. file_event content e \<or> start_event e) es
    \<and> (\<forall>k. r = Inr k \<longrightarrow> tally es c = k \<and> filter start_event es = starts n i as
         \<and> ((\<forall>p. Delete p \<notin> set as) \<longrightarrow> accounted s s' es))"
  using assms
proof (induction as arbitrary: i c s)
  case Nil
  then show ?case
    by (auto simp: ret_def confined_refl starts_def accounted_refl)
next
  case (Cons a as)
  let ?start = "ActionStarted i n (describe_action a)"
  let ?s = "s\<lparr>ex_events := ex_events s @ [?start]\<rparr>"
  obtain q s1 where act: "run_action env source content a ?s = (q, s1)"
    by fastforce
  have "report_outcome content (\<nexists>p. a = Delete p) (0, 0) ?s q s1"
    using run_action_reports [of content a source] act unfolding reports_def by (metis fst_conv snd_conv)
  then obtain es where es: "ex_events s1 = ex_events s @ ?start # es" "list_all (file_event content) es"
    "confined content s s1" "\<forall>k. q = Inr k \<longrightarrow> tally es (0, 0) = k \<and> ((\<nexists>p. a = Delete p) \<longrightarrow> accounted ?s s1 es)"
    unfolding report_outcome_def confined_def by auto
  have ok: "list_all (\<lambda>e. file_event content e \<or> start_event e) (?start # es)"
    using es(2) by (auto simp: list_all_iff)
  show ?case
  proof (cases q)
    case (Inl e)
    with Cons.prems act have "s' = s1" "r = Inl e"
      by (simp_all add: exec_bind_def on_progress_def)
    with es ok show ?thesis
      by (intro exI [of _ "?start # es"]) simp
  next
    case (Inr wb)
    obtain w b where wb: "wb = (w, b)"
      by (cases wb)
    have rest: "run_actions env source content n (Suc i) as (fst c + w, snd c + b) s1 = (r, s')"
      using Cons.prems act Inr wb by (simp add: exec_bind_def on_progress_def)
    from Cons.IH [OF this] obtain es' where es': "ex_events s' = ex_events s1 @ es'" "confined content s1 s'"
      "list_all (\<lambda>e. file_event content e \<or> start_event e) es'"
      "\<forall>k. r = Inr k \<longrightarrow> tally es' (fst c + w, snd c + b) = k \<and> filter start_event es' = starts n (Suc i) as
         \<and> ((\<forall>p. Delete p \<notin> set as) \<longrightarrow> accounted s1 s' es')"
      by blast
    have "tally es (0, 0) = (w, b)"
      using es(4) Inr wb by blast
    then have "tally (?start # es) c = (fst c + w, snd c + b)"
      using tally_shift [of es 0 "fst c" 0 "snd c"] by (simp add: add.commute)
    then have "tally (?start # es @ es') c = tally es' (fst c + w, snd c + b)"
      using tally_append [of "?start # es" es' c] by (simp del: tally.simps)
    moreover have "accounted s s' ((?start # es) @ es')" if "r = Inr k" and "\<forall>p. Delete p \<notin> set (a # as)" for k
    proof -
      have "accounted ?s s1 es"
        using that(2) es(4) Inr by auto
      then have "accounted s s1 (?start # es)"
        by (simp add: accounted_def cong: option.case_cong)
      moreover have "accounted s1 s' es'"
        using that es'(4) by simp
      ultimately show ?thesis
        by (rule accounted_trans)
    qed
    ultimately show ?thesis
      using es es' ok file_events_not_started [OF es(2)]
      by (intro exI [of _ "(?start # es) @ es'"])
        (auto simp: tally_append starts_Cons intro: confined_trans simp del: tally.simps)
  qed
qed

lemma execute_recipe_outcome:
  assumes "execute_recipe env actions source content s = (r, s')"
  shows "\<exists>es. ex_events s' = ex_events s @ es \<and> confined content s s'
    \<and> (case r of
         Inl e \<Rightarrow> list_all (\<lambda>e. file_event content e \<or> start_event e) es
       | Inr _ \<Rightarrow> \<exists>es0 n b. es = es0 @ [Completed n b] \<and> list_all (\<lambda>e. file_event content e \<or> start_event e) es0
           \<and> tally es0 (0, 0) = (n, b) \<and> filter start_event es0 = starts (length actions) 0 actions
           \<and> ((\<forall>p. Delete p \<notin> set actions) \<longrightarrow> accounted s s' es))"
proof (cases "try_boundary env source")
  case (Inl e)
  with assms show ?thesis
    by (auto simp: execute_recipe_def exec_bind_def lift_result_def confined_refl)
next
  case src: (Inr u)
  show ?thesis
  proof (cases "try_create_boundary env content")
    case (Inl e)
    with assms src show ?thesis
      by (auto simp: execute_recipe_def exec_bind_def lift_result_def confined_refl)
  next
    case (Inr v)
    obtain q s1 where run: "run_actions env source content (length actions) 0 actions (0, 0) s = (q, s1)"
      by fastforce
    from run_actions_reports [OF run] obtain es where es: "ex_events s1 = ex_events s @ es" "confined content s s1"
      "list_all (\<lambda>e. file_event content e \<or> start_event e) es"
      "\<forall>k. q = Inr k \<longrightarrow> tally es (0, 0) = k \<and> filter start_event es = starts (length actions) 0 actions
         \<and> ((\<forall>p. Delete p \<notin> set actions) \<longrightarrow> accounted s s1 es)"
      by blast
    show ?thesis
    proof (cases q)
      case (Inl e)
      with assms src Inr run have "r = Inl e" "s' = s1"
        by (simp_all add: execute_recipe_def exec_bind_def lift_result_def)
      with es show ?thesis
        by auto
    next
      case ended: (Inr nb)
      obtain n b where nb: "nb = (n, b)"
        by (cases nb)
      from assms src Inr run ended nb have fin: "r = Inr ()" "s' = s1\<lparr>ex_events := ex_events s1 @ [Completed n b]\<rparr>"
        by (simp_all add: execute_recipe_def exec_bind_def lift_result_def on_progress_def)
      have "accounted s s' (es @ [Completed n b])" if "\<forall>p. Delete p \<notin> set actions"
      proof -
        have "accounted s s1 es"
          using es(4) ended that by blast
        then show ?thesis
          by (simp add: accounted_def last_report_append fin cong: option.case_cong)
      qed
      with es ended nb fin show ?thesis
        by (intro exI [of _ "es @ [Completed n b]"]) (auto simp: confined_def)
    qed
  qed
qed

end

section \<open>An ordinary environment\<close>

text \<open>
  Boundaries that refuse a component \<open>..\<close>, an operating system that writes what it is told, and no
  archive formats.
\<close>

definition plain_environment :: environment where
  "plain_environment =
     \<lparr>try_boundary = \<lambda>_. Inr (), try_create_boundary = \<lambda>_. Inr (),
      strict_join = \<lambda>root sub. if [46, 46] \<in> set (split_slash sub) then Inl ''escapes'' else Inr (root @ 47 # sub),
      os_write = \<lambda>p d fs. (Inr (), Mapping.update p d fs), os_remove = \<lambda>p fs. (Inr (), Mapping.delete p fs),
      open_mix = \<lambda>_. Inl ''unsupported'', open_big = \<lambda>_. Inl ''unsupported'', open_meg = \<lambda>_. Inl ''unsupported'',
      open_iso = \<lambda>_. Inl ''unsupported'', open_zip = \<lambda>_. Inl ''unsupported'', parse_idx = \<lambda>_. Inl ''unsupported'',
      inflate = \<lambda>_. ([], Some ''unsupported'')\<rparr>"

interpretation plain: installer_environment plain_environment
proof unfold_locales
  fix p q :: path and fs :: disk and d root sub :: bytes and fs' :: disk
  show "strict_join plain_environment root sub = Inr p \<Longrightarrow> inside root p"
    by (auto simp: plain_environment_def inside_def split: if_splits)
  show "q \<noteq> p \<Longrightarrow> Mapping.lookup (snd (os_write plain_environment p d fs)) q = Mapping.lookup fs q"
    by (simp add: plain_environment_def lookup_update')
  show "os_write plain_environment p d fs = (Inr (), fs') \<Longrightarrow> Mapping.lookup fs' p = Some d"
    by (auto simp: plain_environment_def lookup_update')
  show "q \<noteq> p \<Longrightarrow> Mapping.lookup (snd (os_remove plain_environment p fs)) q = Mapping.lookup fs q"
    by (simp add: plain_environment_def lookup_delete_neq)
qed

definition sample_state :: exec_state where
  "sample_state = \<lparr>ex_files = Mapping.update [115, 47, 97] [1, 2, 3] Mapping.empty, ex_events = []\<rparr>"

definition sample_recipe :: "install_action list" where
  "sample_recipe = [Copy [\<lparr>fm_from = [97], fm_to = [98]\<rparr>],
     ExtractRaw [\<lparr>re_source = [97], re_offset = 1, re_length = 2, re_to = [99]\<rparr>]]"

lemma sample_run:
  "execute_recipe plain_environment sample_recipe [115] [116] sample_state =
     (Inr (), \<lparr>ex_files = Mapping.update [116, 47, 99] [2, 3] (Mapping.update [116, 47, 98] [1, 2, 3] (ex_files sample_state)),
               ex_events = [ActionStarted 0 2 (describe_action (sample_recipe ! 0)), FileWritten [116, 47, 98] 3,
                 ActionStarted 1 2 (describe_action (sample_recipe ! 1)), FileWritten [116, 47, 99] 2, Completed 2 5]\<rparr>)"
  by (simp add: execute_recipe_def sample_recipe_def run_action_def copy_mapping_def raw_mapping_def extract_raw_entry_def
      exec_bind_def lift_result_def bounded_path_def plain_environment_def read_file_def fs_read_def write_file_def
      on_progress_def ret_def file_exists_def read_exact_at_def sample_state_def lookup_update' Let_def)

section \<open>Properties\<close>

text \<open>
  C22: installing never touches anything outside the content directory. Whatever the recipe and
  the archives say, and also when the recipe fails half-way, every path outside the content root
  has the contents it had before.
\<close>

theorem install_confined:
  assumes "installer_environment env" and "\<not> inside content p"
  shows "Mapping.lookup (ex_files (snd (execute_recipe env actions source content s))) p = Mapping.lookup (ex_files s) p"
proof -
  obtain r s' where run: "execute_recipe env actions source content s = (r, s')"
    by fastforce
  from installer_environment.execute_recipe_outcome [OF assms(1) run] assms(2) run show ?thesis
    by (auto simp: confined_def)
qed

theorem install_confined_witness:
  "Mapping.lookup (ex_files (snd (execute_recipe plain_environment sample_recipe [115] [116] sample_state))) [115, 47, 97]
     = Some [1, 2, 3]"
proof -
  have "\<not> inside [116] [115, 47, 97]"
    by (simp add: inside_def)
  from install_confined [OF plain.installer_environment_axioms this, of sample_recipe "[115]" sample_state]
  show ?thesis
    by (simp add: sample_state_def lookup_update')
qed

text \<open>
  the progress of an installation is complete and truthful. A run that succeeds announces
  every action once, in order, with its place in the recipe, and ends with the number of the files it
  reported and the sum of their sizes; a run that fails never reports completion.
\<close>

theorem install_progress_truthful:
  assumes "installer_environment env" and "execute_recipe env actions source content s = (r, s')"
  shows "\<exists>es. ex_events s' = ex_events s @ es \<and>
    (case r of
       Inl e \<Rightarrow> \<forall>n b. Completed n b \<notin> set es
     | Inr _ \<Rightarrow> \<exists>es0 n b. es = es0 @ [Completed n b] \<and> tally es0 (0, 0) = (n, b) \<and> (\<forall>n b. Completed n b \<notin> set es0)
         \<and> filter start_event es0
             = map (\<lambda>i. ActionStarted i (length actions) (describe_action (actions ! i))) [0..<length actions])"
proof -
  have never: "\<forall>n b. Completed n b \<notin> set es"
    if "list_all (\<lambda>e. file_event content e \<or> start_event e) es" for es
    using that by (auto simp: list_all_iff)
  from installer_environment.execute_recipe_outcome [OF assms] never show ?thesis
    by (fastforce simp: starts_def split: sum.splits)
qed

theorem install_progress_truthful_witness:
  "\<exists>es0. ex_events (snd (execute_recipe plain_environment sample_recipe [115] [116] sample_state)) = es0 @ [Completed 2 5]
     \<and> tally es0 (0, 0) = (2, 5)"
  using install_progress_truthful [OF plain.installer_environment_axioms sample_run]
  by (simp add: sample_run)

text \<open>
  an installed file is what was reported. After a recipe without deletions has succeeded,
  every path it reported holds a file of the size last reported for it, and every path it did
  not report is unchanged.
\<close>

theorem installed_files_as_reported:
  assumes "installer_environment env" and "execute_recipe env actions source content s = (Inr (), s')"
    and "\<forall>p. Delete p \<notin> set actions" and "ex_events s' = ex_events s @ es"
  shows "case last_report es p of
      None \<Rightarrow> Mapping.lookup (ex_files s') p = Mapping.lookup (ex_files s) p
    | Some b \<Rightarrow> \<exists>d. Mapping.lookup (ex_files s') p = Some d \<and> b = word_of_nat (length d)"
  using installer_environment.execute_recipe_outcome [OF assms(1,2)] assms(3,4)
  by (auto simp: accounted_def)

theorem installed_files_as_reported_witness:
  "\<exists>d. Mapping.lookup (ex_files (snd (execute_recipe plain_environment sample_recipe [115] [116] sample_state))) [116, 47, 99]
     = Some d \<and> (2 :: u64) = word_of_nat (length d)"
proof -
  have "\<forall>p. Delete p \<notin> set sample_recipe" and start: "ex_events sample_state = []"
    by (simp_all add: sample_recipe_def sample_state_def)
  from installed_files_as_reported [OF plain.installer_environment_axioms sample_run this(1), of _ "[116, 47, 99]"]
  show ?thesis
    unfolding sample_run start by simp
qed

end
