(* ===== verification/Content.thy ===== *)
theory Content
  imports Executor
begin

text \<open>
  The types of the installer's tables, \<open>src/lib.rs\<close>: identifiers of games, packages, sources and
  downloads, and the records of packages, sources and recipes. Identifiers carry the name of their
  enum as a prefix, because several enums share names.
\<close>

section \<open>Identifiers\<close>

datatype game_id =
  Game_RedAlert | Game_TiberianDawn | Game_Dune2 | Game_Dune2000 | Game_TiberianSun | Game_RedAlert2 |
  Game_Generals

definition slug :: "game_id \<Rightarrow> string" where
  "slug g =
     (case g of
        Game_RedAlert \<Rightarrow> ''ra'' | Game_TiberianDawn \<Rightarrow> ''td'' | Game_Dune2 \<Rightarrow> ''dune2'' | Game_Dune2000 \<Rightarrow> ''dune2000''
      | Game_TiberianSun \<Rightarrow> ''ts'' | Game_RedAlert2 \<Rightarrow> ''ra2'' | Game_Generals \<Rightarrow> ''generals'')"

definition is_freeware :: "game_id \<Rightarrow> bool" where
  "is_freeware g \<longleftrightarrow> g \<in> {Game_RedAlert, Game_TiberianDawn, Game_TiberianSun}"

definition ALL_GAMES :: "game_id list" where
  "ALL_GAMES = [Game_RedAlert, Game_TiberianDawn, Game_Dune2, Game_Dune2000, Game_TiberianSun, Game_RedAlert2,
     Game_Generals]"

datatype package_id =
  Package_RaBase | Package_RaAftermathBase | Package_RaCncDesert | Package_RaMusic | Package_RaMoviesAllied |
  Package_RaMoviesSoviet | Package_RaMusicCounterstrike | Package_RaMusicAftermath | Package_TdBase |
  Package_TdCovertOps | Package_TdMusic | Package_TdMoviesGdi | Package_TdMoviesNod | Package_Dune2Base |
  Package_Dune2000Base | Package_TsBase | Package_TsFirestorm | Package_TsMusic | Package_TsMovies |
  Package_Ra2Base | Package_Ra2YurisRevenge | Package_Ra2Music | Package_Ra2Movies | Package_GenBase |
  Package_GenZeroHour

datatype source_id =
  Source_AlliedDisc | Source_SovietDisc | Source_CounterstrikeDisc | Source_AftermathDisc |
  Source_TheFirstDecade | Source_Cnc95 | Source_SteamTuc | Source_SteamCnc | Source_SteamRemastered |
  Source_OriginTuc | Source_OriginCnc | Source_OriginRemastered | Source_TdGdiDisc | Source_TdNodDisc |
  Source_TdCovertOpsDisc | Source_TdSteamCnc | Source_TdSteamRemastered | Source_TdOriginCnc |
  Source_Dune2Disc | Source_GogDune2 | Source_Dune2000Disc | Source_GogDune2000 | Source_TsDisc |
  Source_TsFirestormDisc | Source_TsSteamTuc | Source_TsOriginTuc | Source_Ra2Disc | Source_Ra2YrDisc |
  Source_Ra2TheFirstDecade | Source_Ra2SteamTuc | Source_Ra2OriginTuc | Source_GenDisc | Source_GenZhDisc |
  Source_GenSteamTuc | Source_GenOriginTuc

datatype download_id =
  Download_RaQuickInstall | Download_RaBaseFiles | Download_RaAftermath | Download_RaCncDesert |
  Download_RaMusic | Download_RaMoviesAllied | Download_RaMoviesSoviet | Download_RaMusicCounterstrike |
  Download_RaMusicAftermath | Download_RaFullDiscs | Download_RaFullSet | Download_TdBaseFiles |
  Download_TdMusic | Download_TdMoviesGdi | Download_TdMoviesNod | Download_TdCovertOps | Download_TdGdiIso |
  Download_TdNodIso | Download_TsBaseFiles | Download_TsQuickInstall | Download_TsExpand | Download_TsGdiIso |
  Download_TsNodIso | Download_TsFirestormIso | Download_TsMusic | Download_TsMovies

datatype seeding_policy = PauseDuringOnlinePlay | SeedAlways | KeepNoSeed | ExtractAndDelete

definition allows_seeding :: "seeding_policy \<Rightarrow> bool" where
  "allows_seeding p \<longleftrightarrow> p \<in> {PauseDuringOnlinePlay, SeedAlways}"

definition retains_archives :: "seeding_policy \<Rightarrow> bool" where
  "retains_archives p \<longleftrightarrow> p \<noteq> ExtractAndDelete"

section \<open>Definitions of content\<close>

datatype source_type =
  Type_Disc | Type_Steam | Type_Gog | Type_Origin | Type_Registry | Type_Http | Type_OpenRa | Type_Manual

datatype platform_hint =
  SteamAppId u32
| RegistryKey string string
| GogGameId u64

record id_file_check =
  ic_path :: bytes
  ic_sha1 :: bytes
  ic_prefix_length :: "u64 option"

record content_package =
  cp_id :: package_id
  cp_game :: game_id
  cp_title :: string
  cp_required :: bool
  cp_test_files :: "bytes list"
  cp_sources :: "source_id list"
  cp_download :: "download_id option"

record content_source =
  cs_id :: source_id
  cs_title :: string
  cs_source_type :: source_type
  cs_id_files :: "id_file_check list"
  cs_platform_hint :: "platform_hint option"

record install_recipe =
  rc_source :: source_id
  rc_package :: package_id
  rc_actions :: "install_action list"

section \<open>Writing the tables\<close>

declare ascii_inject [simp]

definition mapping_of :: "string \<Rightarrow> string \<Rightarrow> file_mapping" where
  "mapping_of from to = \<lparr>fm_from = ascii from, fm_to = ascii to\<rparr>"

definition id_file :: "string \<Rightarrow> string \<Rightarrow> u64 option \<Rightarrow> id_file_check" where
  "id_file p sha1 prefix_length = \<lparr>ic_path = ascii p, ic_sha1 = ascii sha1, ic_prefix_length = prefix_length\<rparr>"

definition recipe_of :: "source_id \<Rightarrow> package_id \<Rightarrow> install_action list \<Rightarrow> install_recipe" where
  "recipe_of source package actions = \<lparr>rc_source = source, rc_package = package, rc_actions = actions\<rparr>"

text \<open>The dash of a title, in UTF-8.\<close>

definition em_dash :: string where
  "em_dash = [char_of (226 :: nat), char_of (128 :: nat), char_of (148 :: nat)]"

text \<open>A path of the Windows registry, whose parts are separated by backslashes.\<close>

fun key_path :: "string list \<Rightarrow> string" where
  "key_path [] = []"
| "key_path [p] = p"
| "key_path (p # q # ps) = p @ char_of (92 :: nat) # key_path (q # ps)"

lemma mapping_of_simps [simp]: "fm_from (mapping_of a b) = ascii a" "fm_to (mapping_of a b) = ascii b"
  by (simp_all add: mapping_of_def)

lemma recipe_of_simps [simp]:
  "rc_source (recipe_of s p as) = s" "rc_package (recipe_of s p as) = p" "rc_actions (recipe_of s p as) = as"
  by (simp_all add: recipe_of_def)

lemma id_file_inject [simp]: "id_file p h n = id_file p' h' n' \<longleftrightarrow> p = p' \<and> h = h' \<and> n = n'"
  by (simp add: id_file_def)

end
