(* ===== verification/Packages.thy ===== *)
theory Packages
  imports Content
begin

text \<open>
  The packages of the games, \<open>src/packages/mod.rs\<close>: one definition per element of the table.
\<close>

definition package_ra_base :: content_package where
  "package_ra_base =
    \<lparr>cp_id = Package_RaBase, cp_game = Game_RedAlert, cp_title = ''Base Game Content'',
     cp_required = True,
     cp_test_files = map ascii
       [''allies.mix'', ''conquer.mix'', ''interior.mix'', ''hires.mix'', ''lores.mix'', ''local.mix'',
        ''speech.mix'', ''russian.mix'', ''snow.mix'', ''sounds.mix'', ''temperat.mix''],
     cp_sources = [Source_AlliedDisc, Source_SovietDisc, Source_TheFirstDecade, Source_SteamTuc, Source_OriginTuc,
      Source_SteamRemastered, Source_OriginRemastered],
     cp_download = Some Download_RaBaseFiles\<rparr>"

definition package_ra_aftermath_base :: content_package where
  "package_ra_aftermath_base =
    \<lparr>cp_id = Package_RaAftermathBase, cp_game = Game_RedAlert, cp_title = ''Aftermath Expansion'',
     cp_required = True,
     cp_test_files = map ascii
       [''expand/expand2.mix'', ''expand/hires1.mix'', ''expand/lores1.mix'', ''expand/chrotnk1.aud'',
        ''expand/fixit1.aud'', ''expand/jburn1.aud'', ''expand/jchrge1.aud'', ''expand/jcrisp1.aud'',
        ''expand/jdance1.aud'', ''expand/jjuice1.aud'', ''expand/jjump1.aud'', ''expand/jlight1.aud'',
        ''expand/jpower1.aud'', ''expand/jshock1.aud'', ''expand/jyes1.aud'', ''expand/madchrg2.aud'',
        ''expand/madexplo.aud'', ''expand/mboss1.aud'', ''expand/mhear1.aud'', ''expand/mhotdig1.aud'',
        ''expand/mhowdy1.aud'', ''expand/mhuh1.aud'', ''expand/mlaff1.aud'', ''expand/mrise1.aud'',
        ''expand/mwrench1.aud'', ''expand/myeehaw1.aud'', ''expand/myes1.aud''],
     cp_sources = [Source_AftermathDisc, Source_TheFirstDecade, Source_SteamTuc, Source_OriginTuc, Source_SteamRemastered,
      Source_OriginRemastered],
     cp_download = Some Download_RaAftermath\<rparr>"

definition package_ra_cnc_desert :: content_package where
  "package_ra_cnc_desert =
    \<lparr>cp_id = Package_RaCncDesert, cp_game = Game_RedAlert, cp_title = ''C&C Desert Tileset'',
     cp_required = True,
     cp_test_files = map ascii
       [''cnc/desert.mix''],
     cp_sources = [Source_TheFirstDecade, Source_Cnc95, Source_SteamCnc, Source_OriginCnc, Source_SteamRemastered,
      Source_OriginRemastered],
     cp_download = Some Download_RaCncDesert\<rparr>"

definition package_ra_music :: content_package where
  "package_ra_music =
    \<lparr>cp_id = Package_RaMusic, cp_game = Game_RedAlert, cp_title = ''Red Alert Music'',
     cp_required = False,
     cp_test_files = map ascii
       [''scores.mix''],
     cp_sources = [Source_AlliedDisc, Source_SovietDisc, Source_TheFirstDecade, Source_SteamTuc, Source_OriginTuc,
      Source_SteamRemastered, Source_OriginRemastered],
     cp_download = Some Download_RaMusic\<rparr>"

definition package_ra_movies_allied :: content_package where
  "package_ra_movies_allied =
    \<lparr>cp_id = Package_RaMoviesAllied, cp_game = Game_RedAlert, cp_title = ''Allied Campaign Movies'',
     cp_required = False,
     cp_test_files = map ascii
       [''movies/aagun.vqa'', ''movies/aftrmath.vqa'', ''movies/ally1.vqa'', ''movies/ally10.vqa'',
        ''movies/ally10b.vqa'', ''movies/ally11.vqa'', ''movies/ally12.vqa'', ''movies/ally14.vqa'',
        ''movies/ally2.vqa'', ''movies/ally4.vqa'', ''movies/ally5.vqa'', ''movies/ally6.vqa'',
        ''movies/ally8.vqa'', ''movies/ally9.vqa'', ''movies/allyend.vqa'', ''movies/allymorf.vqa'',
        ''movies/apcescpe.vqa'', ''movies/assess.vqa'', ''movies/battle.vqa'', ''movies/binoc.vqa'',
        ''movies/bmap.vqa'', ''movies/brdgtilt.vqa'', ''movies/crontest.vqa'', ''movies/cronfail.vqa'',
        ''movies/destroyr.vqa'', ''movies/dud.vqa'', ''movies/elevator.vqa'', ''movies/flare.vqa'',
        ''movies/frozen.vqa'', ''movies/grvestne.vqa'', ''movies/landing.vqa'', ''movies/masasslt.vqa'',
        ''movies/mcv.vqa'', ''movies/mcv_land.vqa'', ''movies/montpass.vqa'', ''movies/oildrum.vqa'',
        ''movies/overrun.vqa'', ''movies/prolog.vqa'', ''movies/redintro.vqa'', ''movies/shipsink.vqa'',
        ''movies/shorbom1.vqa'', ''movies/shorbom2.vqa'', ''movies/shorbomb.vqa'', ''movies/snowbomb.vqa'',
        ''movies/soviet1.vqa'', ''movies/sovtstar.vqa'', ''movies/spy.vqa'', ''movies/tanya1.vqa'',
        ''movies/tanya2.vqa'', ''movies/toofar.vqa'', ''movies/trinity.vqa''],
     cp_sources = [Source_AlliedDisc, Source_TheFirstDecade, Source_SteamTuc, Source_OriginTuc, Source_SteamRemastered,
      Source_OriginRemastered],
     cp_download = Some Download_RaMoviesAllied\<rparr>"

definition package_ra_movies_soviet :: content_package where
  "package_ra_movies_soviet =
    \<lparr>cp_id = Package_RaMoviesSoviet, cp_game = Game_RedAlert, cp_title = ''Soviet Campaign Movies'',
     cp_required = False,
     cp_test_files = map ascii
       [''movies/aagun.vqa'', ''movies/airfield.vqa'', ''movies/ally1.vqa'', ''movies/allymorf.vqa'',
        ''movies/averted.vqa'', ''movies/beachead.vqa'', ''movies/bmap.vqa'', ''movies/bombrun.vqa'',
        ''movies/countdwn.vqa'', ''movies/cronfail.vqa'', ''movies/double.vqa'', ''movies/dpthchrg.vqa'',
        ''movies/execute.vqa'', ''movies/flare.vqa'', ''movies/landing.vqa'', ''movies/mcvbrdge.vqa'',
        ''movies/mig.vqa'', ''movies/movingin.vqa'', ''movies/mtnkfact.vqa'', ''movies/nukestok.vqa'',
        ''movies/onthprwl.vqa'', ''movies/periscop.vqa'', ''movies/prolog.vqa'', ''movies/radrraid.vqa'',
        ''movies/redintro.vqa'', ''movies/search.vqa'', ''movies/sfrozen.vqa'', ''movies/sitduck.vqa'',
        ''movies/slntsrvc.vqa'', ''movies/snowbomb.vqa'', ''movies/snstrafe.vqa'', ''movies/sovbatl.vqa'',
        ''movies/sovcemet.vqa'', ''movies/sovfinal.vqa'', ''movies/soviet1.vqa'', ''movies/soviet2.vqa'',
        ''movies/soviet3.vqa'', ''movies/soviet4.vqa'', ''movies/soviet5.vqa'', ''movies/soviet6.vqa'',
        ''movies/soviet7.vqa'', ''movies/soviet8.vqa'', ''movies/soviet9.vqa'', ''movies/soviet10.vqa'',
        ''movies/soviet11.vqa'', ''movies/soviet12.vqa'', ''movies/soviet13.vqa'', ''movies/soviet14.vqa'',
        ''movies/sovmcv.vqa'', ''movies/sovtstar.vqa'', ''movies/spotter.vqa'', ''movies/strafe.vqa'',
        ''movies/take_off.vqa'', ''movies/tesla.vqa'', ''movies/v2rocket.vqa''],
     cp_sources = [Source_SovietDisc, Source_TheFirstDecade, Source_SteamTuc, Source_OriginTuc, Source_SteamRemastered,
      Source_OriginRemastered],
     cp_download = Some Download_RaMoviesSoviet\<rparr>"

definition package_ra_music_counterstrike :: content_package where
  "package_ra_music_counterstrike =
    \<lparr>cp_id = Package_RaMusicCounterstrike, cp_game = Game_RedAlert, cp_title = ''Counterstrike Music'',
     cp_required = False,
     cp_test_files = map ascii
       [''expand/2nd_hand.aud'', ''expand/araziod.aud'', ''expand/backstab.aud'', ''expand/chaos2.aud'',
        ''expand/shut_it.aud'', ''expand/twinmix1.aud'', ''expand/under3.aud'', ''expand/vr2.aud''],
     cp_sources = [Source_CounterstrikeDisc, Source_SteamTuc, Source_OriginTuc, Source_SteamRemastered,
      Source_OriginRemastered],
     cp_download = Some Download_RaMusicCounterstrike\<rparr>"

definition package_ra_music_aftermath :: content_package where
  "package_ra_music_aftermath =
    \<lparr>cp_id = Package_RaMusicAftermath, cp_game = Game_RedAlert, cp_title = ''Aftermath Music'',
     cp_required = False,
     cp_test_files = map ascii
       [''expand/await.aud'', ''expand/bog.aud'', ''expand/float_v2.aud'', ''expand/gloom.aud'',
        ''expand/grndwire.aud'', ''expand/rpt.aud'', ''expand/search.aud'', ''expand/traction.aud'',
        ''expand/wastelnd.aud''],
     cp_sources = [Source_AftermathDisc, Source_SteamTuc, Source_OriginTuc, Source_SteamRemastered, Source_OriginRemastered],
     cp_download = Some Download_RaMusicAftermath\<rparr>"

definition package_td_base :: content_package where
  "package_td_base =
    \<lparr>cp_id = Package_TdBase, cp_game = Game_TiberianDawn, cp_title = ''Tiberian Dawn Base Game'',
     cp_required = True,
     cp_test_files = map ascii
       [''conquer.mix'', ''desert.mix'', ''general.mix'', ''scores.mix'', ''sounds.mix'', ''speech.mix'',
        ''temperat.mix'', ''transit.mix'', ''winter.mix''],
     cp_sources = [Source_TdGdiDisc, Source_TdNodDisc, Source_TdSteamCnc, Source_TdSteamRemastered, Source_TdOriginCnc],
     cp_download = Some Download_TdBaseFiles\<rparr>"

definition package_td_covert_ops :: content_package where
  "package_td_covert_ops =
    \<lparr>cp_id = Package_TdCovertOps, cp_game = Game_TiberianDawn, cp_title = ''Covert Operations Expansion'',
     cp_required = False,
     cp_test_files = map ascii
       [''sc-000.mix'', ''sc-001.mix''],
     cp_sources = [Source_TdCovertOpsDisc, Source_TdSteamCnc, Source_TdOriginCnc],
     cp_download = Some Download_TdCovertOps\<rparr>"

definition package_td_music :: content_package where
  "package_td_music =
    \<lparr>cp_id = Package_TdMusic, cp_game = Game_TiberianDawn, cp_title = ''Tiberian Dawn Music'',
     cp_required = False,
     cp_test_files = map ascii
       [''scores.mix''],
     cp_sources = [Source_TdGdiDisc, Source_TdNodDisc, Source_TdSteamCnc, Source_TdOriginCnc],
     cp_download = Some Download_TdMusic\<rparr>"

definition package_td_movies_gdi :: content_package where
  "package_td_movies_gdi =
    \<lparr>cp_id = Package_TdMoviesGdi, cp_game = Game_TiberianDawn, cp_title = ''GDI Campaign Movies'',
     cp_required = False,
     cp_test_files = map ascii
       [''movies/gdi1.vqa'', ''movies/gdi2.vqa'', ''movies/gdi3.vqa'', ''movies/gdi15.vqa'', ''movies/logo.vqa''],
     cp_sources = [Source_TdGdiDisc, Source_TdSteamCnc, Source_TdOriginCnc],
     cp_download = Some Download_TdMoviesGdi\<rparr>"

definition package_td_movies_nod :: content_package where
  "package_td_movies_nod =
    \<lparr>cp_id = Package_TdMoviesNod, cp_game = Game_TiberianDawn, cp_title = ''Nod Campaign Movies'',
     cp_required = False,
     cp_test_files = map ascii
       [''movies/nod1.vqa'', ''movies/nod2.vqa'', ''movies/nod3.vqa'', ''movies/nod10.vqa'', ''movies/logo.vqa''],
     cp_sources = [Source_TdNodDisc, Source_TdSteamCnc, Source_TdOriginCnc],
     cp_download = Some Download_TdMoviesNod\<rparr>"

definition package_dune2_base :: content_package where
  "package_dune2_base =
    \<lparr>cp_id = Package_Dune2Base, cp_game = Game_Dune2, cp_title = ''Dune II Complete Game (local source only)'',
     cp_required = True,
     cp_test_files = map ascii
       [''DUNE2.EXE'', ''SCENARIO.PAK'', ''SOUND.PAK'', ''DUNE.PAK'', ''ATRE.PAK'', ''HARK.PAK'', ''ORDOS.PAK''],
     cp_sources = [Source_Dune2Disc, Source_GogDune2],
     cp_download = None\<rparr>"

definition package_dune2000_base :: content_package where
  "package_dune2000_base =
    \<lparr>cp_id = Package_Dune2000Base, cp_game = Game_Dune2000, cp_title = ''Dune 2000 Game (local source only)'',
     cp_required = True,
     cp_test_files = map ascii
       [''DUNE2000.EXE'', ''SETUP.Z'', ''LEPTON.FNT'', ''ICON.ICN'', ''MOUSE.SHP''],
     cp_sources = [Source_Dune2000Disc, Source_GogDune2000],
     cp_download = None\<rparr>"

definition package_ts_base :: content_package where
  "package_ts_base =
    \<lparr>cp_id = Package_TsBase, cp_game = Game_TiberianSun, cp_title = ''Tiberian Sun Base Game'',
     cp_required = True,
     cp_test_files = map ascii
       [''tibsun.mix'', ''cache.mix'', ''conquer.mix'', ''local.mix'', ''isosnow.mix'', ''isotemp.mix''],
     cp_sources = [Source_TsDisc, Source_TsSteamTuc, Source_TsOriginTuc],
     cp_download = Some Download_TsBaseFiles\<rparr>"

definition package_ts_firestorm :: content_package where
  "package_ts_firestorm =
    \<lparr>cp_id = Package_TsFirestorm, cp_game = Game_TiberianSun, cp_title = ''Firestorm Expansion'',
     cp_required = False,
     cp_test_files = map ascii
       [''e01sc01.mix'', ''e01sc02.mix''],
     cp_sources = [Source_TsFirestormDisc, Source_TsSteamTuc, Source_TsOriginTuc],
     cp_download = Some Download_TsExpand\<rparr>"

definition package_ts_music :: content_package where
  "package_ts_music =
    \<lparr>cp_id = Package_TsMusic, cp_game = Game_TiberianSun, cp_title = ''Tiberian Sun Music'',
     cp_required = False,
     cp_test_files = map ascii
       [''scores.mix''],
     cp_sources = [Source_TsDisc, Source_TsSteamTuc, Source_TsOriginTuc],
     cp_download = Some Download_TsMusic\<rparr>"

definition package_ts_movies :: content_package where
  "package_ts_movies =
    \<lparr>cp_id = Package_TsMovies, cp_game = Game_TiberianSun, cp_title = ''Tiberian Sun Movies'',
     cp_required = False,
     cp_test_files = map ascii
       [''movies01.mix''],
     cp_sources = [Source_TsDisc, Source_TsSteamTuc, Source_TsOriginTuc],
     cp_download = Some Download_TsMovies\<rparr>"

definition package_ra2_base :: content_package where
  "package_ra2_base =
    \<lparr>cp_id = Package_Ra2Base, cp_game = Game_RedAlert2, cp_title = ''Red Alert 2 Base Game'',
     cp_required = True,
     cp_test_files = map ascii
       [''ra2.mix'', ''language.mix'', ''multi.mix''],
     cp_sources = [Source_Ra2Disc, Source_Ra2TheFirstDecade, Source_Ra2SteamTuc, Source_Ra2OriginTuc],
     cp_download = None\<rparr>"

definition package_ra2_yuris_revenge :: content_package where
  "package_ra2_yuris_revenge =
    \<lparr>cp_id = Package_Ra2YurisRevenge, cp_game = Game_RedAlert2, cp_title = ''Yuri's Revenge Expansion'',
     cp_required = False,
     cp_test_files = map ascii
       [''ra2md.mix'', ''langmd.mix''],
     cp_sources = [Source_Ra2YrDisc, Source_Ra2TheFirstDecade, Source_Ra2SteamTuc, Source_Ra2OriginTuc],
     cp_download = None\<rparr>"

definition package_ra2_music :: content_package where
  "package_ra2_music =
    \<lparr>cp_id = Package_Ra2Music, cp_game = Game_RedAlert2, cp_title = ''Red Alert 2 Music'',
     cp_required = False,
     cp_test_files = map ascii
       [''theme.mix''],
     cp_sources = [Source_Ra2Disc, Source_Ra2TheFirstDecade, Source_Ra2SteamTuc, Source_Ra2OriginTuc],
     cp_download = None\<rparr>"

definition package_ra2_movies :: content_package where
  "package_ra2_movies =
    \<lparr>cp_id = Package_Ra2Movies, cp_game = Game_RedAlert2, cp_title = ''Red Alert 2 Movies'',
     cp_required = False,
     cp_test_files = map ascii
       [''ra2.vqa''],
     cp_sources = [Source_Ra2Disc, Source_Ra2TheFirstDecade, Source_Ra2SteamTuc, Source_Ra2OriginTuc],
     cp_download = None\<rparr>"

definition package_gen_base :: content_package where
  "package_gen_base =
    \<lparr>cp_id = Package_GenBase, cp_game = Game_Generals, cp_title = ''C&C Generals Base Game'',
     cp_required = True,
     cp_test_files = map ascii
       [''INI.big'', ''Terrain.big'', ''W3D.big''],
     cp_sources = [Source_GenDisc, Source_GenSteamTuc, Source_GenOriginTuc],
     cp_download = None\<rparr>"

definition package_gen_zero_hour :: content_package where
  "package_gen_zero_hour =
    \<lparr>cp_id = Package_GenZeroHour, cp_game = Game_Generals, cp_title = ''Zero Hour Expansion'',
     cp_required = False,
     cp_test_files = map ascii
       [''INIZH.big'', ''W3DZH.big''],
     cp_sources = [Source_GenZhDisc],
     cp_download = None\<rparr>"

definition ALL_PACKAGES :: "content_package list" where
  "ALL_PACKAGES =
    [package_ra_base, package_ra_aftermath_base, package_ra_cnc_desert, package_ra_music,
     package_ra_movies_allied, package_ra_movies_soviet, package_ra_music_counterstrike,
     package_ra_music_aftermath, package_td_base, package_td_covert_ops, package_td_music,
     package_td_movies_gdi, package_td_movies_nod, package_dune2_base, package_dune2000_base, package_ts_base,
     package_ts_firestorm, package_ts_music, package_ts_movies, package_ra2_base, package_ra2_yuris_revenge,
     package_ra2_music, package_ra2_movies, package_gen_base, package_gen_zero_hour]"

lemmas package_defs =
  package_ra_base_def package_ra_aftermath_base_def package_ra_cnc_desert_def package_ra_music_def
  package_ra_movies_allied_def package_ra_movies_soviet_def package_ra_music_counterstrike_def
  package_ra_music_aftermath_def package_td_base_def package_td_covert_ops_def package_td_music_def
  package_td_movies_gdi_def package_td_movies_nod_def package_dune2_base_def package_dune2000_base_def
  package_ts_base_def package_ts_firestorm_def package_ts_music_def package_ts_movies_def package_ra2_base_def
  package_ra2_yuris_revenge_def package_ra2_music_def package_ra2_movies_def package_gen_base_def
  package_gen_zero_hour_def

lemma package_ids:
  "cp_id package_ra_base = Package_RaBase"
  "cp_id package_ra_aftermath_base = Package_RaAftermathBase"
  "cp_id package_ra_cnc_desert = Package_RaCncDesert"
  "cp_id package_ra_music = Package_RaMusic"
  "cp_id package_ra_movies_allied = Package_RaMoviesAllied"
  "cp_id package_ra_movies_soviet = Package_RaMoviesSoviet"
  "cp_id package_ra_music_counterstrike = Package_RaMusicCounterstrike"
  "cp_id package_ra_music_aftermath = Package_RaMusicAftermath"
  "cp_id package_td_base = Package_TdBase"
  "cp_id package_td_covert_ops = Package_TdCovertOps"
  "cp_id package_td_music = Package_TdMusic"
  "cp_id package_td_movies_gdi = Package_TdMoviesGdi"
  "cp_id package_td_movies_nod = Package_TdMoviesNod"
  "cp_id package_dune2_base = Package_Dune2Base"
  "cp_id package_dune2000_base = Package_Dune2000Base"
  "cp_id package_ts_base = Package_TsBase"
  "cp_id package_ts_firestorm = Package_TsFirestorm"
  "cp_id package_ts_music = Package_TsMusic"
  "cp_id package_ts_movies = Package_TsMovies"
  "cp_id package_ra2_base = Package_Ra2Base"
  "cp_id package_ra2_yuris_revenge = Package_Ra2YurisRevenge"
  "cp_id package_ra2_music = Package_Ra2Music"
  "cp_id package_ra2_movies = Package_Ra2Movies"
  "cp_id package_gen_base = Package_GenBase"
  "cp_id package_gen_zero_hour = Package_GenZeroHour"
  by (simp_all add: package_defs)

end
