(* ===== verification/Sources.thy ===== *)
theory Sources
  imports Content
begin

text \<open>
  The sources of content, \<open>src/sources.rs\<close>, in the order in which they are tried: one definition per
  element of the table.
\<close>

definition source_allied_disc :: content_source where
  "source_allied_disc =
    \<lparr>cs_id = Source_AlliedDisc, cs_title = ''Red Alert Allied Disc'', cs_source_type = Type_Disc,
     cs_id_files =
       [id_file ''MAIN.MIX'' ''20ebe16f91ff79be2d672f1db5bae9048ff9357c'' (Some 4096),
        id_file ''INSTALL/REDALERT.MIX'' ''0e58f4b54f44f6cd29fecf8cf379d33cf2d4caef'' None],
     cs_platform_hint = None\<rparr>"

definition source_soviet_disc :: content_source where
  "source_soviet_disc =
    \<lparr>cs_id = Source_SovietDisc, cs_title = ''Red Alert Soviet Disc'', cs_source_type = Type_Disc,
     cs_id_files =
       [id_file ''MAIN.MIX'' ''9d108f18560716b684ab8b1da42cc7f3d1b52519'' (Some 4096),
        id_file ''INSTALL/REDALERT.MIX'' ''0e58f4b54f44f6cd29fecf8cf379d33cf2d4caef'' None],
     cs_platform_hint = None\<rparr>"

definition source_counterstrike_disc :: content_source where
  "source_counterstrike_disc =
    \<lparr>cs_id = Source_CounterstrikeDisc, cs_title = ''Counterstrike Expansion Disc'', cs_source_type = Type_Disc,
     cs_id_files =
       [id_file ''README.TXT'' ''0efe8087383f0b159a9633f891fb5f53c6097cd4'' None,
        id_file ''SETUP/INSTALL/CSTRIKE.RTP'' ''fae8ba82db71574f6ecd8fb4ff4026fcb65d2adc'' None],
     cs_platform_hint = None\<rparr>"

definition source_aftermath_disc :: content_source where
  "source_aftermath_disc =
    \<lparr>cs_id = Source_AftermathDisc, cs_title = ''Aftermath Expansion Disc'', cs_source_type = Type_Disc,
     cs_id_files =
       [id_file ''README.TXT'' ''9902fb74c019df1b76ff5634e68f0371d790b5e0'' None,
        id_file ''SETUP/INSTALL/PATCH.RTP'' ''5bce93f834f9322ddaa7233242e5b6c7fea0bf17'' None],
     cs_platform_hint = None\<rparr>"

definition source_the_first_decade :: content_source where
  "source_the_first_decade =
    \<lparr>cs_id = Source_TheFirstDecade, cs_title = ''C&C: The First Decade'', cs_source_type = Type_Disc,
     cs_id_files =
       [id_file ''data1.hdr'' ''bef3a08c3fc1b1caf28ca0dbb97c1f900005930e'' None,
        id_file ''data1.cab'' ''12ad6113a6890a1b4d5651a75378c963eaf513b9'' None],
     cs_platform_hint = None\<rparr>"

definition source_cnc95 :: content_source where
  "source_cnc95 =
    \<lparr>cs_id = Source_Cnc95, cs_title = ''C&C95 Disc'', cs_source_type = Type_Disc,
     cs_id_files =
       [id_file ''CONQUER.MIX'' ''833e02a09aae694659eb312d3838367f681d1b30'' None],
     cs_platform_hint = None\<rparr>"

definition source_steam_tuc :: content_source where
  "source_steam_tuc =
    \<lparr>cs_id = Source_SteamTuc, cs_title = (''Steam '' @ em_dash @ '' The Ultimate Collection (RA)''), cs_source_type = Type_Steam,
     cs_id_files =
       [id_file ''REDALERT.MIX'' ''0e58f4b54f44f6cd29fecf8cf379d33cf2d4caef'' None],
     cs_platform_hint = Some (SteamAppId 2229840)\<rparr>"

definition source_steam_cnc :: content_source where
  "source_steam_cnc =
    \<lparr>cs_id = Source_SteamCnc, cs_title = (''Steam '' @ em_dash @ '' C&C (for desert.mix)''), cs_source_type = Type_Steam,
     cs_id_files =
       [id_file ''CONQUER.MIX'' ''713b53fa4c188ca9619c6bbeadbfc86513704266'' None],
     cs_platform_hint = Some (SteamAppId 2229830)\<rparr>"

definition source_steam_remastered :: content_source where
  "source_steam_remastered =
    \<lparr>cs_id = Source_SteamRemastered, cs_title = (''Steam '' @ em_dash @ '' C&C Remastered Collection''), cs_source_type = Type_Steam,
     cs_id_files =
       [id_file ''Data/CNCDATA/RED_ALERT/CD1/REDALERT.MIX'' ''0e58f4b54f44f6cd29fecf8cf379d33cf2d4caef'' None],
     cs_platform_hint = Some (SteamAppId 1213210)\<rparr>"

definition source_origin_tuc :: content_source where
  "source_origin_tuc =
    \<lparr>cs_id = Source_OriginTuc, cs_title = (''Origin '' @ em_dash @ '' The Ultimate Collection (RA)''), cs_source_type = Type_Origin,
     cs_id_files =
       [id_file ''REDALERT.MIX'' ''0e58f4b54f44f6cd29fecf8cf379d33cf2d4caef'' None],
     cs_platform_hint = Some (RegistryKey (key_path [''SOFTWARE'', ''EA Games'', ''Command and Conquer Red Alert'']) ''Install Dir'')\<rparr>"

definition source_origin_cnc :: content_source where
  "source_origin_cnc =
    \<lparr>cs_id = Source_OriginCnc, cs_title = (''Origin '' @ em_dash @ '' C&C (for desert.mix)''), cs_source_type = Type_Origin,
     cs_id_files =
       [id_file ''CONQUER.MIX'' ''833e02a09aae694659eb312d3838367f681d1b30'' None],
     cs_platform_hint = Some (RegistryKey (key_path [''SOFTWARE'', ''EA Games'', ''CNC and The Covert Operations'']) ''Install Dir'')\<rparr>"

definition source_origin_remastered :: content_source where
  "source_origin_remastered =
    \<lparr>cs_id = Source_OriginRemastered, cs_title = (''Origin '' @ em_dash @ '' C&C Remastered Collection''), cs_source_type = Type_Origin,
     cs_id_files =
       [id_file ''Data/CNCDATA/RED_ALERT/CD1/REDALERT.MIX'' ''0e58f4b54f44f6cd29fecf8cf379d33cf2d4caef'' None],
     cs_platform_hint = Some (RegistryKey (key_path [''SOFTWARE'', ''Petroglyph'', ''CnCRemastered'']) ''Install Dir'')\<rparr>"

definition source_td_gdi_disc :: content_source where
  "source_td_gdi_disc =
    \<lparr>cs_id = Source_TdGdiDisc, cs_title = ''Tiberian Dawn GDI Disc'', cs_source_type = Type_Disc,
     cs_id_files =
       [id_file ''CONQUER.MIX'' ''713b53fa4c188ca9619c6bbeadbfc86513704266'' None],
     cs_platform_hint = None\<rparr>"

definition source_td_nod_disc :: content_source where
  "source_td_nod_disc =
    \<lparr>cs_id = Source_TdNodDisc, cs_title = ''Tiberian Dawn Nod Disc'', cs_source_type = Type_Disc,
     cs_id_files =
       [id_file ''CONQUER.MIX'' ''713b53fa4c188ca9619c6bbeadbfc86513704266'' None],
     cs_platform_hint = None\<rparr>"

definition source_td_covert_ops_disc :: content_source where
  "source_td_covert_ops_disc =
    \<lparr>cs_id = Source_TdCovertOpsDisc, cs_title = ''Covert Operations Disc'', cs_source_type = Type_Disc,
     cs_id_files =
       [id_file ''SC-000.MIX'' ''0000000000000000000000000000000000000000'' None],
     cs_platform_hint = None\<rparr>"

definition source_td_steam_cnc :: content_source where
  "source_td_steam_cnc =
    \<lparr>cs_id = Source_TdSteamCnc, cs_title = (''Steam '' @ em_dash @ '' C&C (Tiberian Dawn)''), cs_source_type = Type_Steam,
     cs_id_files =
       [id_file ''CONQUER.MIX'' ''713b53fa4c188ca9619c6bbeadbfc86513704266'' None],
     cs_platform_hint = Some (SteamAppId 2229830)\<rparr>"

definition source_td_steam_remastered :: content_source where
  "source_td_steam_remastered =
    \<lparr>cs_id = Source_TdSteamRemastered, cs_title = (''Steam '' @ em_dash @ '' C&C Remastered (TD data)''), cs_source_type = Type_Steam,
     cs_id_files =
       [id_file ''Data/CNCDATA/TIBERIAN_DAWN/CD1/CONQUER.MIX'' ''713b53fa4c188ca9619c6bbeadbfc86513704266'' None],
     cs_platform_hint = Some (SteamAppId 1213210)\<rparr>"

definition source_td_origin_cnc :: content_source where
  "source_td_origin_cnc =
    \<lparr>cs_id = Source_TdOriginCnc, cs_title = (''Origin '' @ em_dash @ '' C&C (Tiberian Dawn)''), cs_source_type = Type_Origin,
     cs_id_files =
       [id_file ''CONQUER.MIX'' ''713b53fa4c188ca9619c6bbeadbfc86513704266'' None],
     cs_platform_hint = Some (RegistryKey (key_path [''SOFTWARE'', ''EA Games'', ''CNC and The Covert Operations'']) ''Install Dir'')\<rparr>"

definition source_dune2_disc :: content_source where
  "source_dune2_disc =
    \<lparr>cs_id = Source_Dune2Disc, cs_title = ''Dune II Game Files'', cs_source_type = Type_Disc,
     cs_id_files =
       [id_file ''DUNE2.EXE'' ''0000000000000000000000000000000000000000'' None],
     cs_platform_hint = None\<rparr>"

definition source_gog_dune2 :: content_source where
  "source_gog_dune2 =
    \<lparr>cs_id = Source_GogDune2, cs_title = ''Dune II (GOG.com)'', cs_source_type = Type_Gog,
     cs_id_files =
       [id_file ''DUNE2.EXE'' ''0000000000000000000000000000000000000000'' None],
     cs_platform_hint = Some (GogGameId 1207658856)\<rparr>"

definition source_dune2000_disc :: content_source where
  "source_dune2000_disc =
    \<lparr>cs_id = Source_Dune2000Disc, cs_title = ''Dune 2000 Game Files'', cs_source_type = Type_Disc,
     cs_id_files =
       [id_file ''DUNE2000.EXE'' ''0000000000000000000000000000000000000000'' None],
     cs_platform_hint = None\<rparr>"

definition source_gog_dune2000 :: content_source where
  "source_gog_dune2000 =
    \<lparr>cs_id = Source_GogDune2000, cs_title = ''Dune 2000 (GOG.com)'', cs_source_type = Type_Gog,
     cs_id_files =
       [id_file ''DUNE2000.EXE'' ''0000000000000000000000000000000000000000'' None],
     cs_platform_hint = Some (GogGameId 1207659107)\<rparr>"

definition source_ts_disc :: content_source where
  "source_ts_disc =
    \<lparr>cs_id = Source_TsDisc, cs_title = ''Tiberian Sun Retail CD'', cs_source_type = Type_Disc,
     cs_id_files =
       [id_file ''TIBSUN.MIX'' ''0000000000000000000000000000000000000000'' None],
     cs_platform_hint = None\<rparr>"

definition source_ts_firestorm_disc :: content_source where
  "source_ts_firestorm_disc =
    \<lparr>cs_id = Source_TsFirestormDisc, cs_title = ''Firestorm Expansion CD'', cs_source_type = Type_Disc,
     cs_id_files =
       [id_file ''E01SC01.MIX'' ''0000000000000000000000000000000000000000'' None],
     cs_platform_hint = None\<rparr>"

definition source_ts_steam_tuc :: content_source where
  "source_ts_steam_tuc =
    \<lparr>cs_id = Source_TsSteamTuc, cs_title = (''Steam '' @ em_dash @ '' The Ultimate Collection (TS)''), cs_source_type = Type_Manual,
     cs_id_files =
       [id_file ''TIBSUN.MIX'' ''0000000000000000000000000000000000000000'' None],
     cs_platform_hint = None\<rparr>"

definition source_ts_origin_tuc :: content_source where
  "source_ts_origin_tuc =
    \<lparr>cs_id = Source_TsOriginTuc, cs_title = (''Origin '' @ em_dash @ '' The Ultimate Collection (TS)''), cs_source_type = Type_Origin,
     cs_id_files =
       [id_file ''TIBSUN.MIX'' ''0000000000000000000000000000000000000000'' None],
     cs_platform_hint = Some (RegistryKey (key_path [''SOFTWARE'', ''EA Games'', ''Tiberian Sun'']) ''Install Dir'')\<rparr>"

definition source_ra2_disc :: content_source where
  "source_ra2_disc =
    \<lparr>cs_id = Source_Ra2Disc, cs_title = ''Red Alert 2 Retail CD'', cs_source_type = Type_Disc,
     cs_id_files =
       [id_file ''RA2.MIX'' ''0000000000000000000000000000000000000000'' None],
     cs_platform_hint = None\<rparr>"

definition source_ra2_yr_disc :: content_source where
  "source_ra2_yr_disc =
    \<lparr>cs_id = Source_Ra2YrDisc, cs_title = ''Yuri's Revenge Expansion CD'', cs_source_type = Type_Disc,
     cs_id_files =
       [id_file ''RA2MD.MIX'' ''0000000000000000000000000000000000000000'' None],
     cs_platform_hint = None\<rparr>"

definition source_ra2_the_first_decade :: content_source where
  "source_ra2_the_first_decade =
    \<lparr>cs_id = Source_Ra2TheFirstDecade, cs_title = ''C&C: The First Decade (RA2 + YR)'', cs_source_type = Type_Disc,
     cs_id_files =
       [id_file ''RA2.MIX'' ''0000000000000000000000000000000000000000'' None],
     cs_platform_hint = None\<rparr>"

definition source_ra2_steam_tuc :: content_source where
  "source_ra2_steam_tuc =
    \<lparr>cs_id = Source_Ra2SteamTuc, cs_title = (''Steam '' @ em_dash @ '' The Ultimate Collection (RA2)''), cs_source_type = Type_Steam,
     cs_id_files =
       [id_file ''ra2.mix'' ''3bd92246320f4bf1ff1ed76207ee793c33ff6a05'' None],
     cs_platform_hint = Some (SteamAppId 2229850)\<rparr>"

definition source_ra2_origin_tuc :: content_source where
  "source_ra2_origin_tuc =
    \<lparr>cs_id = Source_Ra2OriginTuc, cs_title = (''Origin '' @ em_dash @ '' The Ultimate Collection (RA2)''), cs_source_type = Type_Origin,
     cs_id_files =
       [id_file ''ra2.mix'' ''3bd92246320f4bf1ff1ed76207ee793c33ff6a05'' None],
     cs_platform_hint = Some (RegistryKey (key_path [''SOFTWARE'', ''EA Games'', ''Red Alert 2'']) ''Install Dir'')\<rparr>"

definition source_gen_disc :: content_source where
  "source_gen_disc =
    \<lparr>cs_id = Source_GenDisc, cs_title = ''C&C Generals Retail Disc'', cs_source_type = Type_Disc,
     cs_id_files =
       [id_file ''INI.big'' ''0000000000000000000000000000000000000000'' None],
     cs_platform_hint = None\<rparr>"

definition source_gen_zh_disc :: content_source where
  "source_gen_zh_disc =
    \<lparr>cs_id = Source_GenZhDisc, cs_title = ''Zero Hour Expansion Disc'', cs_source_type = Type_Disc,
     cs_id_files =
       [id_file ''INIZH.big'' ''0000000000000000000000000000000000000000'' None],
     cs_platform_hint = None\<rparr>"

definition source_gen_steam_tuc :: content_source where
  "source_gen_steam_tuc =
    \<lparr>cs_id = Source_GenSteamTuc, cs_title = (''Steam '' @ em_dash @ '' The Ultimate Collection (Generals)''), cs_source_type = Type_Steam,
     cs_id_files =
       [id_file ''INI.big'' ''3f1957f73bff6aebef8220ed5392a22b274420d6'' None],
     cs_platform_hint = Some (SteamAppId 2229870)\<rparr>"

definition source_gen_origin_tuc :: content_source where
  "source_gen_origin_tuc =
    \<lparr>cs_id = Source_GenOriginTuc, cs_title = (''Origin '' @ em_dash @ '' The Ultimate Collection (Generals)''), cs_source_type = Type_Origin,
     cs_id_files =
       [id_file ''INI.big'' ''3f1957f73bff6aebef8220ed5392a22b274420d6'' None],
     cs_platform_hint = Some (RegistryKey (key_path [''SOFTWARE'', ''EA Games'', ''Command and Conquer Generals Zero Hour'']) ''InstallPath'')\<rparr>"

definition ALL_SOURCES :: "content_source list" where
  "ALL_SOURCES =
    [source_allied_disc, source_soviet_disc, source_counterstrike_disc, source_aftermath_disc,
     source_the_first_decade, source_cnc95, source_steam_tuc, source_steam_cnc, source_steam_remastered,
     source_origin_tuc, source_origin_cnc, source_origin_remastered, source_td_gdi_disc, source_td_nod_disc,
     source_td_covert_ops_disc, source_td_steam_cnc, source_td_steam_remastered, source_td_origin_cnc,
     source_dune2_disc, source_gog_dune2, source_dune2000_disc, source_gog_dune2000, source_ts_disc,
     source_ts_firestorm_disc, source_ts_steam_tuc, source_ts_origin_tuc, source_ra2_disc, source_ra2_yr_disc,
     source_ra2_the_first_decade, source_ra2_steam_tuc, source_ra2_origin_tuc, source_gen_disc,
     source_gen_zh_disc, source_gen_steam_tuc, source_gen_origin_tuc]"

lemmas source_defs =
  source_allied_disc_def source_soviet_disc_def source_counterstrike_disc_def source_aftermath_disc_def
  source_the_first_decade_def source_cnc95_def source_steam_tuc_def source_steam_cnc_def
  source_steam_remastered_def source_origin_tuc_def source_origin_cnc_def source_origin_remastered_def
  source_td_gdi_disc_def source_td_nod_disc_def source_td_covert_ops_disc_def source_td_steam_cnc_def
  source_td_steam_remastered_def source_td_origin_cnc_def source_dune2_disc_def source_gog_dune2_def
  source_dune2000_disc_def source_gog_dune2000_def source_ts_disc_def source_ts_firestorm_disc_def
  source_ts_steam_tuc_def source_ts_origin_tuc_def source_ra2_disc_def source_ra2_yr_disc_def
  source_ra2_the_first_decade_def source_ra2_steam_tuc_def source_ra2_origin_tuc_def source_gen_disc_def
  source_gen_zh_disc_def source_gen_steam_tuc_def source_gen_origin_tuc_def

lemma source_ids:
  "cs_id source_allied_disc = Source_AlliedDisc"
  "cs_id source_soviet_disc = Source_SovietDisc"
  "cs_id source_counterstrike_disc = Source_CounterstrikeDisc"
  "cs_id source_aftermath_disc = Source_AftermathDisc"
  "cs_id source_the_first_decade = Source_TheFirstDecade"
  "cs_id source_cnc95 = Source_Cnc95"
  "cs_id source_steam_tuc = Source_SteamTuc"
  "cs_id source_steam_cnc = Source_SteamCnc"
  "cs_id source_steam_remastered = Source_SteamRemastered"
  "cs_id source_origin_tuc = Source_OriginTuc"
  "cs_id source_origin_cnc = Source_OriginCnc"
  "cs_id source_origin_remastered = Source_OriginRemastered"
  "cs_id source_td_gdi_disc = Source_TdGdiDisc"
  "cs_id source_td_nod_disc = Source_TdNodDisc"
  "cs_id source_td_covert_ops_disc = Source_TdCovertOpsDisc"
  "cs_id source_td_steam_cnc = Source_TdSteamCnc"
  "cs_id source_td_steam_remastered = Source_TdSteamRemastered"
  "cs_id source_td_origin_cnc = Source_TdOriginCnc"
  "cs_id source_dune2_disc = Source_Dune2Disc"
  "cs_id source_gog_dune2 = Source_GogDune2"
  "cs_id source_dune2000_disc = Source_Dune2000Disc"
  "cs_id source_gog_dune2000 = Source_GogDune2000"
  "cs_id source_ts_disc = Source_TsDisc"
  "cs_id source_ts_firestorm_disc = Source_TsFirestormDisc"
  "cs_id source_ts_steam_tuc = Source_TsSteamTuc"
  "cs_id source_ts_origin_tuc = Source_TsOriginTuc"
  "cs_id source_ra2_disc = Source_Ra2Disc"
  "cs_id source_ra2_yr_disc = Source_Ra2YrDisc"
  "cs_id source_ra2_the_first_decade = Source_Ra2TheFirstDecade"
  "cs_id source_ra2_steam_tuc = Source_Ra2SteamTuc"
  "cs_id source_ra2_origin_tuc = Source_Ra2OriginTuc"
  "cs_id source_gen_disc = Source_GenDisc"
  "cs_id source_gen_zh_disc = Source_GenZhDisc"
  "cs_id source_gen_steam_tuc = Source_GenSteamTuc"
  "cs_id source_gen_origin_tuc = Source_GenOriginTuc"
  by (simp_all add: source_defs)

end
