(* ===== verification/Recipes.thy ===== *)
theory Recipes
  imports Content
begin

text \<open>
  The recipe tables of the installer, \<open>src/recipes\<close>: the file mappings and action lists of each game,
  and the recipes, one definition per source, in the order of the tables.
\<close>

section \<open>Red Alert\<close>

definition BASE_DIRECT_COPY :: "file_mapping list" where
  "BASE_DIRECT_COPY =
    [mapping_of ''allies.mix'' ''allies.mix'', mapping_of ''conquer.mix'' ''conquer.mix'',
     mapping_of ''interior.mix'' ''interior.mix'', mapping_of ''hires.mix'' ''hires.mix'',
     mapping_of ''lores.mix'' ''lores.mix'', mapping_of ''local.mix'' ''local.mix'',
     mapping_of ''speech.mix'' ''speech.mix'', mapping_of ''russian.mix'' ''russian.mix'',
     mapping_of ''snow.mix'' ''snow.mix'', mapping_of ''sounds.mix'' ''sounds.mix'',
     mapping_of ''temperat.mix'' ''temperat.mix'']"

definition BASE_FROM_REDALERT_MIX :: "file_mapping list" where
  "BASE_FROM_REDALERT_MIX =
    [mapping_of ''allies.mix'' ''allies.mix'', mapping_of ''conquer.mix'' ''conquer.mix'',
     mapping_of ''interior.mix'' ''interior.mix'', mapping_of ''hires.mix'' ''hires.mix'',
     mapping_of ''lores.mix'' ''lores.mix'', mapping_of ''local.mix'' ''local.mix'',
     mapping_of ''speech.mix'' ''speech.mix'', mapping_of ''russian.mix'' ''russian.mix'',
     mapping_of ''snow.mix'' ''snow.mix'', mapping_of ''sounds.mix'' ''sounds.mix'',
     mapping_of ''temperat.mix'' ''temperat.mix'']"

definition AFTERMATH_EXPAND_COPY :: "file_mapping list" where
  "AFTERMATH_EXPAND_COPY =
    [mapping_of ''expand/expand2.mix'' ''expand/expand2.mix'',
     mapping_of ''expand/hires1.mix'' ''expand/hires1.mix'',
     mapping_of ''expand/lores1.mix'' ''expand/lores1.mix'',
     mapping_of ''expand/chrotnk1.aud'' ''expand/chrotnk1.aud'',
     mapping_of ''expand/fixit1.aud'' ''expand/fixit1.aud'',
     mapping_of ''expand/jburn1.aud'' ''expand/jburn1.aud'',
     mapping_of ''expand/jchrge1.aud'' ''expand/jchrge1.aud'',
     mapping_of ''expand/jcrisp1.aud'' ''expand/jcrisp1.aud'',
     mapping_of ''expand/jdance1.aud'' ''expand/jdance1.aud'',
     mapping_of ''expand/jjuice1.aud'' ''expand/jjuice1.aud'',
     mapping_of ''expand/jjump1.aud'' ''expand/jjump1.aud'',
     mapping_of ''expand/jlight1.aud'' ''expand/jlight1.aud'',
     mapping_of ''expand/jpower1.aud'' ''expand/jpower1.aud'',
     mapping_of ''expand/jshock1.aud'' ''expand/jshock1.aud'',
     mapping_of ''expand/jyes1.aud'' ''expand/jyes1.aud'',
     mapping_of ''expand/madchrg2.aud'' ''expand/madchrg2.aud'',
     mapping_of ''expand/madexplo.aud'' ''expand/madexplo.aud'',
     mapping_of ''expand/mboss1.aud'' ''expand/mboss1.aud'',
     mapping_of ''expand/mhear1.aud'' ''expand/mhear1.aud'',
     mapping_of ''expand/mhotdig1.aud'' ''expand/mhotdig1.aud'',
     mapping_of ''expand/mhowdy1.aud'' ''expand/mhowdy1.aud'',
     mapping_of ''expand/mhuh1.aud'' ''expand/mhuh1.aud'',
     mapping_of ''expand/mlaff1.aud'' ''expand/mlaff1.aud'',
     mapping_of ''expand/mrise1.aud'' ''expand/mrise1.aud'',
     mapping_of ''expand/mwrench1.aud'' ''expand/mwrench1.aud'',
     mapping_of ''expand/myeehaw1.aud'' ''expand/myeehaw1.aud'',
     mapping_of ''expand/myes1.aud'' ''expand/myes1.aud'']"

section \<open>Red Alert: music and the Remastered Collection\<close>

definition CS_MUSIC_COPY :: "file_mapping list" where
  "CS_MUSIC_COPY =
    [mapping_of ''expand/2nd_hand.aud'' ''expand/2nd_hand.aud'',
     mapping_of ''expand/araziod.aud'' ''expand/araziod.aud'',
     mapping_of ''expand/backstab.aud'' ''expand/backstab.aud'',
     mapping_of ''expand/chaos2.aud'' ''expand/chaos2.aud'',
     mapping_of ''expand/shut_it.aud'' ''expand/shut_it.aud'',
     mapping_of ''expand/twinmix1.aud'' ''expand/twinmix1.aud'',
     mapping_of ''expand/under3.aud'' ''expand/under3.aud'', mapping_of ''expand/vr2.aud'' ''expand/vr2.aud'']"

definition AM_MUSIC_COPY :: "file_mapping list" where
  "AM_MUSIC_COPY =
    [mapping_of ''expand/await.aud'' ''expand/await.aud'', mapping_of ''expand/bog.aud'' ''expand/bog.aud'',
     mapping_of ''expand/float_v2.aud'' ''expand/float_v2.aud'',
     mapping_of ''expand/gloom.aud'' ''expand/gloom.aud'',
     mapping_of ''expand/grndwire.aud'' ''expand/grndwire.aud'',
     mapping_of ''expand/rpt.aud'' ''expand/rpt.aud'', mapping_of ''expand/search.aud'' ''expand/search.aud'',
     mapping_of ''expand/traction.aud'' ''expand/traction.aud'',
     mapping_of ''expand/wastelnd.aud'' ''expand/wastelnd.aud'']"

definition REMASTERED_BASE_COPY :: "file_mapping list" where
  "REMASTERED_BASE_COPY =
    [mapping_of ''Data/CNCDATA/RED_ALERT/CD1/allies.mix'' ''allies.mix'',
     mapping_of ''Data/CNCDATA/RED_ALERT/CD1/conquer.mix'' ''conquer.mix'',
     mapping_of ''Data/CNCDATA/RED_ALERT/CD1/interior.mix'' ''interior.mix'',
     mapping_of ''Data/CNCDATA/RED_ALERT/CD1/hires.mix'' ''hires.mix'',
     mapping_of ''Data/CNCDATA/RED_ALERT/CD1/lores.mix'' ''lores.mix'',
     mapping_of ''Data/CNCDATA/RED_ALERT/CD1/local.mix'' ''local.mix'',
     mapping_of ''Data/CNCDATA/RED_ALERT/CD1/speech.mix'' ''speech.mix'',
     mapping_of ''Data/CNCDATA/RED_ALERT/CD1/russian.mix'' ''russian.mix'',
     mapping_of ''Data/CNCDATA/RED_ALERT/CD1/snow.mix'' ''snow.mix'',
     mapping_of ''Data/CNCDATA/RED_ALERT/CD1/sounds.mix'' ''sounds.mix'',
     mapping_of ''Data/CNCDATA/RED_ALERT/CD1/temperat.mix'' ''temperat.mix'']"

definition REMASTERED_AFTERMATH_COPY :: "file_mapping list" where
  "REMASTERED_AFTERMATH_COPY =
    [mapping_of ''Data/CNCDATA/RED_ALERT/AFTERMATH/expand2.mix'' ''expand/expand2.mix'',
     mapping_of ''Data/CNCDATA/RED_ALERT/AFTERMATH/hires1.mix'' ''expand/hires1.mix'',
     mapping_of ''Data/CNCDATA/RED_ALERT/AFTERMATH/lores1.mix'' ''expand/lores1.mix'',
     mapping_of ''Data/CNCDATA/RED_ALERT/AFTERMATH/chrotnk1.aud'' ''expand/chrotnk1.aud'',
     mapping_of ''Data/CNCDATA/RED_ALERT/AFTERMATH/fixit1.aud'' ''expand/fixit1.aud'',
     mapping_of ''Data/CNCDATA/RED_ALERT/AFTERMATH/jburn1.aud'' ''expand/jburn1.aud'',
     mapping_of ''Data/CNCDATA/RED_ALERT/AFTERMATH/jchrge1.aud'' ''expand/jchrge1.aud'',
     mapping_of ''Data/CNCDATA/RED_ALERT/AFTERMATH/jcrisp1.aud'' ''expand/jcrisp1.aud'',
     mapping_of ''Data/CNCDATA/RED_ALERT/AFTERMATH/jdance1.aud'' ''expand/jdance1.aud'',
     mapping_of ''Data/CNCDATA/RED_ALERT/AFTERMATH/jjuice1.aud'' ''expand/jjuice1.aud'',
     mapping_of ''Data/CNCDATA/RED_ALERT/AFTERMATH/jjump1.aud'' ''expand/jjump1.aud'',
     mapping_of ''Data/CNCDATA/RED_ALERT/AFTERMATH/jlight1.aud'' ''expand/jlight1.aud'',
     mapping_of ''Data/CNCDATA/RED_ALERT/AFTERMATH/jpower1.aud'' ''expand/jpower1.aud'',
     mapping_of ''Data/CNCDATA/RED_ALERT/AFTERMATH/jshock1.aud'' ''expand/jshock1.aud'',
     mapping_of ''Data/CNCDATA/RED_ALERT/AFTERMATH/jyes1.aud'' ''expand/jyes1.aud'',
     mapping_of ''Data/CNCDATA/RED_ALERT/AFTERMATH/madchrg2.aud'' ''expand/madchrg2.aud'',
     mapping_of ''Data/CNCDATA/RED_ALERT/AFTERMATH/madexplo.aud'' ''expand/madexplo.aud'',
     mapping_of ''Data/CNCDATA/RED_ALERT/AFTERMATH/mboss1.aud'' ''expand/mboss1.aud'',
     mapping_of ''Data/CNCDATA/RED_ALERT/AFTERMATH/mhear1.aud'' ''expand/mhear1.aud'',
     mapping_of ''Data/CNCDATA/RED_ALERT/AFTERMATH/mhotdig1.aud'' ''expand/mhotdig1.aud'',
     mapping_of ''Data/CNCDATA/RED_ALERT/AFTERMATH/mhowdy1.aud'' ''expand/mhowdy1.aud'',
     mapping_of ''Data/CNCDATA/RED_ALERT/AFTERMATH/mhuh1.aud'' ''expand/mhuh1.aud'',
     mapping_of ''Data/CNCDATA/RED_ALERT/AFTERMATH/mlaff1.aud'' ''expand/mlaff1.aud'',
     mapping_of ''Data/CNCDATA/RED_ALERT/AFTERMATH/mrise1.aud'' ''expand/mrise1.aud'',
     mapping_of ''Data/CNCDATA/RED_ALERT/AFTERMATH/mwrench1.aud'' ''expand/mwrench1.aud'',
     mapping_of ''Data/CNCDATA/RED_ALERT/AFTERMATH/myeehaw1.aud'' ''expand/myeehaw1.aud'',
     mapping_of ''Data/CNCDATA/RED_ALERT/AFTERMATH/myes1.aud'' ''expand/myes1.aud'']"

definition REMASTERED_CS_MUSIC_COPY :: "file_mapping list" where
  "REMASTERED_CS_MUSIC_COPY =
    [mapping_of ''Data/CNCDATA/RED_ALERT/COUNTERSTRIKE/2nd_hand.aud'' ''expand/2nd_hand.aud'',
     mapping_of ''Data/CNCDATA/RED_ALERT/COUNTERSTRIKE/araziod.aud'' ''expand/araziod.aud'',
     mapping_of ''Data/CNCDATA/RED_ALERT/COUNTERSTRIKE/backstab.aud'' ''expand/backstab.aud'',
     mapping_of ''Data/CNCDATA/RED_ALERT/COUNTERSTRIKE/chaos2.aud'' ''expand/chaos2.aud'',
     mapping_of ''Data/CNCDATA/RED_ALERT/COUNTERSTRIKE/shut_it.aud'' ''expand/shut_it.aud'',
     mapping_of ''Data/CNCDATA/RED_ALERT/COUNTERSTRIKE/twinmix1.aud'' ''expand/twinmix1.aud'',
     mapping_of ''Data/CNCDATA/RED_ALERT/COUNTERSTRIKE/under3.aud'' ''expand/under3.aud'',
     mapping_of ''Data/CNCDATA/RED_ALERT/COUNTERSTRIKE/vr2.aud'' ''expand/vr2.aud'']"

definition REMASTERED_AM_MUSIC_COPY :: "file_mapping list" where
  "REMASTERED_AM_MUSIC_COPY =
    [mapping_of ''Data/CNCDATA/RED_ALERT/AFTERMATH/await.aud'' ''expand/await.aud'',
     mapping_of ''Data/CNCDATA/RED_ALERT/AFTERMATH/bog.aud'' ''expand/bog.aud'',
     mapping_of ''Data/CNCDATA/RED_ALERT/AFTERMATH/float_v2.aud'' ''expand/float_v2.aud'',
     mapping_of ''Data/CNCDATA/RED_ALERT/AFTERMATH/gloom.aud'' ''expand/gloom.aud'',
     mapping_of ''Data/CNCDATA/RED_ALERT/AFTERMATH/grndwire.aud'' ''expand/grndwire.aud'',
     mapping_of ''Data/CNCDATA/RED_ALERT/AFTERMATH/rpt.aud'' ''expand/rpt.aud'',
     mapping_of ''Data/CNCDATA/RED_ALERT/AFTERMATH/search.aud'' ''expand/search.aud'',
     mapping_of ''Data/CNCDATA/RED_ALERT/AFTERMATH/traction.aud'' ''expand/traction.aud'',
     mapping_of ''Data/CNCDATA/RED_ALERT/AFTERMATH/wastelnd.aud'' ''expand/wastelnd.aud'']"

section \<open>Red Alert: movies\<close>

definition TFD_VOLUMES :: "(u32 \<times> bytes) list" where
  "TFD_VOLUMES = [(1, ascii ''data1.cab''), (2, ascii ''data2.cab''), (3, ascii ''data3.cab''), (4, ascii ''data4.cab''), (5, ascii ''data5.cab'')]"

definition MOVIES_ALLIED_VQA_ENTRIES :: "file_mapping list" where
  "MOVIES_ALLIED_VQA_ENTRIES =
    [mapping_of ''aagun.vqa'' ''movies/aagun.vqa'', mapping_of ''aftrmath.vqa'' ''movies/aftrmath.vqa'',
     mapping_of ''ally1.vqa'' ''movies/ally1.vqa'', mapping_of ''ally10.vqa'' ''movies/ally10.vqa'',
     mapping_of ''ally10b.vqa'' ''movies/ally10b.vqa'', mapping_of ''ally11.vqa'' ''movies/ally11.vqa'',
     mapping_of ''ally12.vqa'' ''movies/ally12.vqa'', mapping_of ''ally14.vqa'' ''movies/ally14.vqa'',
     mapping_of ''ally2.vqa'' ''movies/ally2.vqa'', mapping_of ''ally4.vqa'' ''movies/ally4.vqa'',
     mapping_of ''ally5.vqa'' ''movies/ally5.vqa'', mapping_of ''ally6.vqa'' ''movies/ally6.vqa'',
     mapping_of ''ally8.vqa'' ''movies/ally8.vqa'', mapping_of ''ally9.vqa'' ''movies/ally9.vqa'',
     mapping_of ''allyend.vqa'' ''movies/allyend.vqa'', mapping_of ''allymorf.vqa'' ''movies/allymorf.vqa'',
     mapping_of ''apcescpe.vqa'' ''movies/apcescpe.vqa'', mapping_of ''assess.vqa'' ''movies/assess.vqa'',
     mapping_of ''battle.vqa'' ''movies/battle.vqa'', mapping_of ''binoc.vqa'' ''movies/binoc.vqa'',
     mapping_of ''bmap.vqa'' ''movies/bmap.vqa'', mapping_of ''brdgtilt.vqa'' ''movies/brdgtilt.vqa'',
     mapping_of ''crontest.vqa'' ''movies/crontest.vqa'', mapping_of ''cronfail.vqa'' ''movies/cronfail.vqa'',
     mapping_of ''destroyr.vqa'' ''movies/destroyr.vqa'', mapping_of ''dud.vqa'' ''movies/dud.vqa'',
     mapping_of ''elevator.vqa'' ''movies/elevator.vqa'', mapping_of ''flare.vqa'' ''movies/flare.vqa'',
     mapping_of ''frozen.vqa'' ''movies/frozen.vqa'', mapping_of ''grvestne.vqa'' ''movies/grvestne.vqa'',
     mapping_of ''landing.vqa'' ''movies/landing.vqa'', mapping_of ''masasslt.vqa'' ''movies/masasslt.vqa'',
     mapping_of ''mcv.vqa'' ''movies/mcv.vqa'', mapping_of ''mcv_land.vqa'' ''movies/mcv_land.vqa'',
     mapping_of ''montpass.vqa'' ''movies/montpass.vqa'', mapping_of ''oildrum.vqa'' ''movies/oildrum.vqa'',
     mapping_of ''overrun.vqa'' ''movies/overrun.vqa'', mapping_of ''prolog.vqa'' ''movies/prolog.vqa'',
     mapping_of ''redintro.vqa'' ''movies/redintro.vqa'', mapping_of ''shipsink.vqa'' ''movies/shipsink.vqa'',
     mapping_of ''shorbom1.vqa'' ''movies/shorbom1.vqa'', mapping_of ''shorbom2.vqa'' ''movies/shorbom2.vqa'',
     mapping_of ''shorbomb.vqa'' ''movies/shorbomb.vqa'', mapping_of ''snowbomb.vqa'' ''movies/snowbomb.vqa'',
     mapping_of ''soviet1.vqa'' ''movies/soviet1.vqa'', mapping_of ''sovtstar.vqa'' ''movies/sovtstar.vqa'',
     mapping_of ''spy.vqa'' ''movies/spy.vqa'', mapping_of ''tanya1.vqa'' ''movies/tanya1.vqa'',
     mapping_of ''tanya2.vqa'' ''movies/tanya2.vqa'', mapping_of ''toofar.vqa'' ''movies/toofar.vqa'',
     mapping_of ''trinity.vqa'' ''movies/trinity.vqa'']"

definition MOVIES_SOVIET_VQA_ENTRIES :: "file_mapping list" where
  "MOVIES_SOVIET_VQA_ENTRIES =
    [mapping_of ''aagun.vqa'' ''movies/aagun.vqa'', mapping_of ''airfield.vqa'' ''movies/airfield.vqa'',
     mapping_of ''ally1.vqa'' ''movies/ally1.vqa'', mapping_of ''allymorf.vqa'' ''movies/allymorf.vqa'',
     mapping_of ''averted.vqa'' ''movies/averted.vqa'', mapping_of ''beachead.vqa'' ''movies/beachead.vqa'',
     mapping_of ''bmap.vqa'' ''movies/bmap.vqa'', mapping_of ''bombrun.vqa'' ''movies/bombrun.vqa'',
     mapping_of ''countdwn.vqa'' ''movies/countdwn.vqa'', mapping_of ''cronfail.vqa'' ''movies/cronfail.vqa'',
     mapping_of ''double.vqa'' ''movies/double.vqa'', mapping_of ''dpthchrg.vqa'' ''movies/dpthchrg.vqa'',
     mapping_of ''execute.vqa'' ''movies/execute.vqa'', mapping_of ''flare.vqa'' ''movies/flare.vqa'',
     mapping_of ''landing.vqa'' ''movies/landing.vqa'', mapping_of ''mcvbrdge.vqa'' ''movies/mcvbrdge.vqa'',
     mapping_of ''mig.vqa'' ''movies/mig.vqa'', mapping_of ''movingin.vqa'' ''movies/movingin.vqa'',
     mapping_of ''mtnkfact.vqa'' ''movies/mtnkfact.vqa'', mapping_of ''nukestok.vqa'' ''movies/nukestok.vqa'',
     mapping_of ''onthprwl.vqa'' ''movies/onthprwl.vqa'', mapping_of ''periscop.vqa'' ''movies/periscop.vqa'',
     mapping_of ''prolog.vqa'' ''movies/prolog.vqa'', mapping_of ''radrraid.vqa'' ''movies/radrraid.vqa'',
     mapping_of ''redintro.vqa'' ''movies/redintro.vqa'', mapping_of ''search.vqa'' ''movies/search.vqa'',
     mapping_of ''sfrozen.vqa'' ''movies/sfrozen.vqa'', mapping_of ''sitduck.vqa'' ''movies/sitduck.vqa'',
     mapping_of ''slntsrvc.vqa'' ''movies/slntsrvc.vqa'', mapping_of ''snowbomb.vqa'' ''movies/snowbomb.vqa'',
     mapping_of ''snstrafe.vqa'' ''movies/snstrafe.vqa'', mapping_of ''sovbatl.vqa'' ''movies/sovbatl.vqa'',
     mapping_of ''sovcemet.vqa'' ''movies/sovcemet.vqa'', mapping_of ''sovfinal.vqa'' ''movies/sovfinal.vqa'',
     mapping_of ''soviet1.vqa'' ''movies/soviet1.vqa'', mapping_of ''soviet2.vqa'' ''movies/soviet2.vqa'',
     mapping_of ''soviet3.vqa'' ''movies/soviet3.vqa'', mapping_of ''soviet4.vqa'' ''movies/soviet4.vqa'',
     mapping_of ''soviet5.vqa'' ''movies/soviet5.vqa'', mapping_of ''soviet6.vqa'' ''movies/soviet6.vqa'',
     mapping_of ''soviet7.vqa'' ''movies/soviet7.vqa'', mapping_of ''soviet8.vqa'' ''movies/soviet8.vqa'',
     mapping_of ''soviet9.vqa'' ''movies/soviet9.vqa'', mapping_of ''soviet10.vqa'' ''movies/soviet10.vqa'',
     mapping_of ''soviet11.vqa'' ''movies/soviet11.vqa'', mapping_of ''soviet12.vqa'' ''movies/soviet12.vqa'',
     mapping_of ''soviet13.vqa'' ''movies/soviet13.vqa'', mapping_of ''soviet14.vqa'' ''movies/soviet14.vqa'',
     mapping_of ''sovmcv.vqa'' ''movies/sovmcv.vqa'', mapping_of ''sovtstar.vqa'' ''movies/sovtstar.vqa'',
     mapping_of ''spotter.vqa'' ''movies/spotter.vqa'', mapping_of ''strafe.vqa'' ''movies/strafe.vqa'',
     mapping_of ''take_off.vqa'' ''movies/take_off.vqa'', mapping_of ''tesla.vqa'' ''movies/tesla.vqa'',
     mapping_of ''v2rocket.vqa'' ''movies/v2rocket.vqa'']"

definition MOVIES_ALLIED_FROM_MAIN_MIX :: "install_action list" where
  "MOVIES_ALLIED_FROM_MAIN_MIX =
    [ExtractMix (ascii ''MAIN.MIX'') [mapping_of ''movies1.mix'' ''.tmp/movies1.mix''],
     ExtractMixFromContent (ascii ''.tmp/movies1.mix'') MOVIES_ALLIED_VQA_ENTRIES,
     Delete (ascii ''.tmp/movies1.mix'')]"

definition MOVIES_SOVIET_FROM_MAIN_MIX :: "install_action list" where
  "MOVIES_SOVIET_FROM_MAIN_MIX =
    [ExtractMix (ascii ''MAIN.MIX'') [mapping_of ''movies2.mix'' ''.tmp/movies2.mix''],
     ExtractMixFromContent (ascii ''.tmp/movies2.mix'') MOVIES_SOVIET_VQA_ENTRIES,
     Delete (ascii ''.tmp/movies2.mix'')]"

definition MOVIES_ALLIED_FROM_REMASTERED_MIX :: "install_action list" where
  "MOVIES_ALLIED_FROM_REMASTERED_MIX =
    [ExtractMix (ascii ''Data/CNCDATA/RED_ALERT/CD1/MAIN.MIX'') [mapping_of ''movies1.mix'' ''.tmp/movies1.mix''],
     ExtractMixFromContent (ascii ''.tmp/movies1.mix'') MOVIES_ALLIED_VQA_ENTRIES,
     Delete (ascii ''.tmp/movies1.mix'')]"

definition MOVIES_SOVIET_FROM_REMASTERED_MIX :: "install_action list" where
  "MOVIES_SOVIET_FROM_REMASTERED_MIX =
    [ExtractMix (ascii ''Data/CNCDATA/RED_ALERT/CD1/MAIN.MIX'') [mapping_of ''movies2.mix'' ''.tmp/movies2.mix''],
     ExtractMixFromContent (ascii ''.tmp/movies2.mix'') MOVIES_SOVIET_VQA_ENTRIES,
     Delete (ascii ''.tmp/movies2.mix'')]"

definition AFTERMATH_DISC_ACTIONS :: "install_action list" where
  "AFTERMATH_DISC_ACTIONS =
    [Copy AFTERMATH_EXPAND_COPY]"

definition AFTERMATH_DISC_MUSIC_ACTIONS :: "install_action list" where
  "AFTERMATH_DISC_MUSIC_ACTIONS =
    [Copy AM_MUSIC_COPY]"

definition CS_DISC_MUSIC_ACTIONS :: "install_action list" where
  "CS_DISC_MUSIC_ACTIONS =
    [Copy CS_MUSIC_COPY]"

section \<open>Red Alert 2 and Generals\<close>

definition RA2_BASE_COPY :: "file_mapping list" where
  "RA2_BASE_COPY =
    [mapping_of ''ra2.mix'' ''ra2.mix'', mapping_of ''language.mix'' ''language.mix'',
     mapping_of ''MULTI.MIX'' ''multi.mix'']"

definition RA2_YR_COPY :: "file_mapping list" where
  "RA2_YR_COPY =
    [mapping_of ''ra2md.mix'' ''ra2md.mix'', mapping_of ''langmd.mix'' ''langmd.mix'']"

definition RA2_MUSIC_COPY :: "file_mapping list" where
  "RA2_MUSIC_COPY =
    [mapping_of ''THEME.MIX'' ''theme.mix'']"

definition RA2_MOVIES_COPY :: "file_mapping list" where
  "RA2_MOVIES_COPY =
    [mapping_of ''ra2.vqa'' ''ra2.vqa'']"

definition RA2_DISC_BASE_COPY :: "file_mapping list" where
  "RA2_DISC_BASE_COPY =
    [mapping_of ''RA2.MIX'' ''ra2.mix'', mapping_of ''LANGUAGE.MIX'' ''language.mix'',
     mapping_of ''MULTI.MIX'' ''multi.mix'']"

definition RA2_DISC_YR_COPY :: "file_mapping list" where
  "RA2_DISC_YR_COPY =
    [mapping_of ''RA2MD.MIX'' ''ra2md.mix'', mapping_of ''LANGMD.MIX'' ''langmd.mix'']"

definition RA2_DISC_MOVIES_COPY :: "file_mapping list" where
  "RA2_DISC_MOVIES_COPY =
    [mapping_of ''RA2.VQA'' ''ra2.vqa'']"

definition GEN_BASE_COPY :: "file_mapping list" where
  "GEN_BASE_COPY =
    [mapping_of ''INI.big'' ''INI.big'', mapping_of ''Terrain.big'' ''Terrain.big'',
     mapping_of ''W3D.big'' ''W3D.big'']"

definition GEN_ZH_COPY :: "file_mapping list" where
  "GEN_ZH_COPY =
    [mapping_of ''INIZH.big'' ''INIZH.big'', mapping_of ''W3DZH.big'' ''W3DZH.big'']"

section \<open>Tiberian Dawn\<close>

definition TD_BASE_COPY :: "file_mapping list" where
  "TD_BASE_COPY =
    [mapping_of ''CONQUER.MIX'' ''conquer.mix'', mapping_of ''DESERT.MIX'' ''desert.mix'',
     mapping_of ''GENERAL.MIX'' ''general.mix'', mapping_of ''SCORES.MIX'' ''scores.mix'',
     mapping_of ''SOUNDS.MIX'' ''sounds.mix'', mapping_of ''SPEECH.MIX'' ''speech.mix'',
     mapping_of ''TEMPERAT.MIX'' ''temperat.mix'', mapping_of ''TRANSIT.MIX'' ''transit.mix'',
     mapping_of ''WINTER.MIX'' ''winter.mix'']"

definition TD_REMASTERED_BASE_COPY :: "file_mapping list" where
  "TD_REMASTERED_BASE_COPY =
    [mapping_of ''Data/CNCDATA/TIBERIAN_DAWN/CD1/CONQUER.MIX'' ''conquer.mix'',
     mapping_of ''Data/CNCDATA/TIBERIAN_DAWN/CD1/DESERT.MIX'' ''desert.mix'',
     mapping_of ''Data/CNCDATA/TIBERIAN_DAWN/CD1/GENERAL.MIX'' ''general.mix'',
     mapping_of ''Data/CNCDATA/TIBERIAN_DAWN/CD1/SCORES.MIX'' ''scores.mix'',
     mapping_of ''Data/CNCDATA/TIBERIAN_DAWN/CD1/SOUNDS.MIX'' ''sounds.mix'',
     mapping_of ''Data/CNCDATA/TIBERIAN_DAWN/CD1/SPEECH.MIX'' ''speech.mix'',
     mapping_of ''Data/CNCDATA/TIBERIAN_DAWN/CD1/TEMPERAT.MIX'' ''temperat.mix'',
     mapping_of ''Data/CNCDATA/TIBERIAN_DAWN/CD1/TRANSIT.MIX'' ''transit.mix'',
     mapping_of ''Data/CNCDATA/TIBERIAN_DAWN/CD1/WINTER.MIX'' ''winter.mix'']"

definition TD_COVERT_OPS_COPY :: "file_mapping list" where
  "TD_COVERT_OPS_COPY =
    [mapping_of ''SC-000.MIX'' ''sc-000.mix'', mapping_of ''SC-001.MIX'' ''sc-001.mix'']"

definition TD_MUSIC_COPY :: "file_mapping list" where
  "TD_MUSIC_COPY =
    [mapping_of ''SCORES.MIX'' ''scores.mix'']"

definition TD_MOVIES_GDI_DISC_COPY :: "file_mapping list" where
  "TD_MOVIES_GDI_DISC_COPY =
    [mapping_of ''GDI1.VQA'' ''movies/gdi1.vqa'', mapping_of ''GDI2.VQA'' ''movies/gdi2.vqa'',
     mapping_of ''GDI3.VQA'' ''movies/gdi3.vqa'', mapping_of ''GDI15.VQA'' ''movies/gdi15.vqa'',
     mapping_of ''LOGO.VQA'' ''movies/logo.vqa'']"

definition TD_MOVIES_NOD_DISC_COPY :: "file_mapping list" where
  "TD_MOVIES_NOD_DISC_COPY =
    [mapping_of ''NOD1.VQA'' ''movies/nod1.vqa'', mapping_of ''NOD2.VQA'' ''movies/nod2.vqa'',
     mapping_of ''NOD3.VQA'' ''movies/nod3.vqa'', mapping_of ''NOD10.VQA'' ''movies/nod10.vqa'',
     mapping_of ''LOGO.VQA'' ''movies/logo.vqa'']"

definition TD_MOVIES_GDI_STEAM_COPY :: "file_mapping list" where
  "TD_MOVIES_GDI_STEAM_COPY =
    [mapping_of ''MOVIES/GDI1.VQA'' ''movies/gdi1.vqa'', mapping_of ''MOVIES/GDI2.VQA'' ''movies/gdi2.vqa'',
     mapping_of ''MOVIES/GDI3.VQA'' ''movies/gdi3.vqa'', mapping_of ''MOVIES/GDI15.VQA'' ''movies/gdi15.vqa'',
     mapping_of ''MOVIES/LOGO.VQA'' ''movies/logo.vqa'']"

definition TD_MOVIES_NOD_STEAM_COPY :: "file_mapping list" where
  "TD_MOVIES_NOD_STEAM_COPY =
    [mapping_of ''MOVIES/NOD1.VQA'' ''movies/nod1.vqa'', mapping_of ''MOVIES/NOD2.VQA'' ''movies/nod2.vqa'',
     mapping_of ''MOVIES/NOD3.VQA'' ''movies/nod3.vqa'', mapping_of ''MOVIES/NOD10.VQA'' ''movies/nod10.vqa'',
     mapping_of ''MOVIES/LOGO.VQA'' ''movies/logo.vqa'']"

section \<open>Tiberian Sun\<close>

definition TS_BASE_COPY :: "file_mapping list" where
  "TS_BASE_COPY =
    [mapping_of ''TIBSUN.MIX'' ''tibsun.mix'', mapping_of ''CACHE.MIX'' ''cache.mix'',
     mapping_of ''CONQUER.MIX'' ''conquer.mix'', mapping_of ''LOCAL.MIX'' ''local.mix'',
     mapping_of ''ISOSNOW.MIX'' ''isosnow.mix'', mapping_of ''ISOTEMP.MIX'' ''isotemp.mix'']"

definition TS_FIRESTORM_COPY :: "file_mapping list" where
  "TS_FIRESTORM_COPY =
    [mapping_of ''E01SC01.MIX'' ''e01sc01.mix'', mapping_of ''E01SC02.MIX'' ''e01sc02.mix'']"

definition TS_MUSIC_COPY :: "file_mapping list" where
  "TS_MUSIC_COPY =
    [mapping_of ''SCORES.MIX'' ''scores.mix'']"

definition TS_MOVIES_COPY :: "file_mapping list" where
  "TS_MOVIES_COPY =
    [mapping_of ''MOVIES01.MIX'' ''movies01.mix'']"

section \<open>Dune\<close>

definition DUNE2_BASE_COPY :: "file_mapping list" where
  "DUNE2_BASE_COPY =
    [mapping_of ''DUNE2.EXE'' ''DUNE2.EXE'', mapping_of ''SCENARIO.PAK'' ''SCENARIO.PAK'',
     mapping_of ''SOUND.PAK'' ''SOUND.PAK'', mapping_of ''DUNE.PAK'' ''DUNE.PAK'',
     mapping_of ''ATRE.PAK'' ''ATRE.PAK'', mapping_of ''HARK.PAK'' ''HARK.PAK'',
     mapping_of ''ORDOS.PAK'' ''ORDOS.PAK'']"

definition DUNE2000_BASE_COPY :: "file_mapping list" where
  "DUNE2000_BASE_COPY =
    [mapping_of ''DUNE2000.EXE'' ''DUNE2000.EXE'', mapping_of ''SETUP.Z'' ''SETUP.Z'',
     mapping_of ''LEPTON.FNT'' ''LEPTON.FNT'', mapping_of ''ICON.ICN'' ''ICON.ICN'',
     mapping_of ''MOUSE.SHP'' ''MOUSE.SHP'']"

section \<open>Recipes\<close>

definition recipes_steam_tuc :: "install_recipe list" where
  "recipes_steam_tuc =
    [recipe_of Source_SteamTuc Package_RaBase [Copy BASE_DIRECT_COPY],
     recipe_of Source_SteamTuc Package_RaAftermathBase [Copy AFTERMATH_EXPAND_COPY],
     recipe_of Source_SteamTuc Package_RaMusic [ExtractMix (ascii ''MAIN.MIX'') [mapping_of ''scores.mix'' ''scores.mix'']],
     recipe_of Source_SteamTuc Package_RaMoviesAllied MOVIES_ALLIED_FROM_MAIN_MIX,
     recipe_of Source_SteamTuc Package_RaMoviesSoviet MOVIES_SOVIET_FROM_MAIN_MIX,
     recipe_of Source_SteamTuc Package_RaMusicCounterstrike [Copy CS_MUSIC_COPY],
     recipe_of Source_SteamTuc Package_RaMusicAftermath [Copy AM_MUSIC_COPY]]"

definition recipes_steam_remastered :: "install_recipe list" where
  "recipes_steam_remastered =
    [recipe_of Source_SteamRemastered Package_RaBase [Copy REMASTERED_BASE_COPY],
     recipe_of Source_SteamRemastered Package_RaAftermathBase [Copy REMASTERED_AFTERMATH_COPY],
     recipe_of Source_SteamRemastered Package_RaCncDesert [Copy [mapping_of ''Data/CNCDATA/TIBERIAN_DAWN/CD1/DESERT.MIX'' ''cnc/desert.mix'']],
     recipe_of Source_SteamRemastered Package_RaMusic [ExtractMix (ascii ''Data/CNCDATA/RED_ALERT/CD1/MAIN.MIX'') [mapping_of ''scores.mix'' ''scores.mix'']],
     recipe_of Source_SteamRemastered Package_RaMusicCounterstrike [Copy REMASTERED_CS_MUSIC_COPY],
     recipe_of Source_SteamRemastered Package_RaMusicAftermath [Copy REMASTERED_AM_MUSIC_COPY],
     recipe_of Source_SteamRemastered Package_RaMoviesAllied MOVIES_ALLIED_FROM_REMASTERED_MIX,
     recipe_of Source_SteamRemastered Package_RaMoviesSoviet MOVIES_SOVIET_FROM_REMASTERED_MIX]"

definition recipes_steam_cnc :: "install_recipe list" where
  "recipes_steam_cnc =
    [recipe_of Source_SteamCnc Package_RaCncDesert [Copy [mapping_of ''DESERT.MIX'' ''cnc/desert.mix'']]]"

definition recipes_origin_tuc :: "install_recipe list" where
  "recipes_origin_tuc =
    [recipe_of Source_OriginTuc Package_RaBase [Copy BASE_DIRECT_COPY],
     recipe_of Source_OriginTuc Package_RaAftermathBase [Copy AFTERMATH_EXPAND_COPY],
     recipe_of Source_OriginTuc Package_RaMusic [ExtractMix (ascii ''MAIN.MIX'') [mapping_of ''scores.mix'' ''scores.mix'']],
     recipe_of Source_OriginTuc Package_RaMoviesAllied MOVIES_ALLIED_FROM_MAIN_MIX,
     recipe_of Source_OriginTuc Package_RaMoviesSoviet MOVIES_SOVIET_FROM_MAIN_MIX,
     recipe_of Source_OriginTuc Package_RaMusicCounterstrike [Copy CS_MUSIC_COPY],
     recipe_of Source_OriginTuc Package_RaMusicAftermath [Copy AM_MUSIC_COPY]]"

definition recipes_origin_cnc :: "install_recipe list" where
  "recipes_origin_cnc =
    [recipe_of Source_OriginCnc Package_RaCncDesert [Copy [mapping_of ''DESERT.MIX'' ''cnc/desert.mix'']]]"

definition recipes_origin_remastered :: "install_recipe list" where
  "recipes_origin_remastered =
    [recipe_of Source_OriginRemastered Package_RaBase [Copy REMASTERED_BASE_COPY],
     recipe_of Source_OriginRemastered Package_RaAftermathBase [Copy REMASTERED_AFTERMATH_COPY],
     recipe_of Source_OriginRemastered Package_RaCncDesert [Copy [mapping_of ''Data/CNCDATA/TIBERIAN_DAWN/CD1/DESERT.MIX'' ''cnc/desert.mix'']],
     recipe_of Source_OriginRemastered Package_RaMusic [ExtractMix (ascii ''Data/CNCDATA/RED_ALERT/CD1/MAIN.MIX'') [mapping_of ''scores.mix'' ''scores.mix'']],
     recipe_of Source_OriginRemastered Package_RaMusicCounterstrike [Copy REMASTERED_CS_MUSIC_COPY],
     recipe_of Source_OriginRemastered Package_RaMusicAftermath [Copy REMASTERED_AM_MUSIC_COPY],
     recipe_of Source_OriginRemastered Package_RaMoviesAllied MOVIES_ALLIED_FROM_REMASTERED_MIX,
     recipe_of Source_OriginRemastered Package_RaMoviesSoviet MOVIES_SOVIET_FROM_REMASTERED_MIX]"

definition recipes_allied_disc :: "install_recipe list" where
  "recipes_allied_disc =
    [recipe_of Source_AlliedDisc Package_RaBase [ExtractMix (ascii ''INSTALL/REDALERT.MIX'') BASE_FROM_REDALERT_MIX],
     recipe_of Source_AlliedDisc Package_RaMusic [ExtractMix (ascii ''MAIN.MIX'') [mapping_of ''scores.mix'' ''scores.mix'']],
     recipe_of Source_AlliedDisc Package_RaMoviesAllied MOVIES_ALLIED_FROM_MAIN_MIX]"

definition recipes_soviet_disc :: "install_recipe list" where
  "recipes_soviet_disc =
    [recipe_of Source_SovietDisc Package_RaBase [ExtractMix (ascii ''INSTALL/REDALERT.MIX'') BASE_FROM_REDALERT_MIX],
     recipe_of Source_SovietDisc Package_RaMusic [ExtractMix (ascii ''MAIN.MIX'') [mapping_of ''scores.mix'' ''scores.mix'']],
     recipe_of Source_SovietDisc Package_RaMoviesSoviet MOVIES_SOVIET_FROM_MAIN_MIX]"

definition recipes_aftermath_disc :: "install_recipe list" where
  "recipes_aftermath_disc =
    [recipe_of Source_AftermathDisc Package_RaAftermathBase AFTERMATH_DISC_ACTIONS,
     recipe_of Source_AftermathDisc Package_RaMusicAftermath AFTERMATH_DISC_MUSIC_ACTIONS]"

definition recipes_counterstrike_disc :: "install_recipe list" where
  "recipes_counterstrike_disc =
    [recipe_of Source_CounterstrikeDisc Package_RaMusicCounterstrike CS_DISC_MUSIC_ACTIONS]"

definition recipes_the_first_decade :: "install_recipe list" where
  "recipes_the_first_decade =
    [recipe_of Source_TheFirstDecade Package_RaBase [ExtractIscab (ascii ''data1.hdr'') TFD_VOLUMES BASE_FROM_REDALERT_MIX],
     recipe_of Source_TheFirstDecade Package_RaCncDesert [ExtractIscab (ascii ''data1.hdr'') TFD_VOLUMES [mapping_of ''DESERT.MIX'' ''cnc/desert.mix'']],
     recipe_of Source_TheFirstDecade Package_RaAftermathBase [ExtractIscab (ascii ''data1.hdr'') TFD_VOLUMES AFTERMATH_EXPAND_COPY],
     recipe_of Source_TheFirstDecade Package_RaMusic [ExtractIscab (ascii ''data1.hdr'') TFD_VOLUMES [mapping_of ''scores.mix'' ''scores.mix'']],
     recipe_of Source_TheFirstDecade Package_RaMoviesAllied [ExtractIscab (ascii ''data1.hdr'') TFD_VOLUMES MOVIES_ALLIED_VQA_ENTRIES],
     recipe_of Source_TheFirstDecade Package_RaMoviesSoviet [ExtractIscab (ascii ''data1.hdr'') TFD_VOLUMES MOVIES_SOVIET_VQA_ENTRIES]]"

definition recipes_cnc95 :: "install_recipe list" where
  "recipes_cnc95 =
    [recipe_of Source_Cnc95 Package_RaCncDesert [Copy [mapping_of ''DESERT.MIX'' ''cnc/desert.mix'']]]"

definition RA_RECIPES :: "install_recipe list" where
  "RA_RECIPES = recipes_steam_tuc @ recipes_steam_remastered @ recipes_steam_cnc @ recipes_origin_tuc @
     recipes_origin_cnc @ recipes_origin_remastered @ recipes_allied_disc @ recipes_soviet_disc @
     recipes_aftermath_disc @ recipes_counterstrike_disc @ recipes_the_first_decade @ recipes_cnc95"

definition recipes_ra2_steam_tuc :: "install_recipe list" where
  "recipes_ra2_steam_tuc =
    [recipe_of Source_Ra2SteamTuc Package_Ra2Base [Copy RA2_BASE_COPY],
     recipe_of Source_Ra2SteamTuc Package_Ra2YurisRevenge [Copy RA2_YR_COPY],
     recipe_of Source_Ra2SteamTuc Package_Ra2Music [Copy RA2_MUSIC_COPY]]"

definition recipes_ra2_origin_tuc :: "install_recipe list" where
  "recipes_ra2_origin_tuc =
    [recipe_of Source_Ra2OriginTuc Package_Ra2Base [Copy RA2_BASE_COPY],
     recipe_of Source_Ra2OriginTuc Package_Ra2YurisRevenge [Copy RA2_YR_COPY],
     recipe_of Source_Ra2OriginTuc Package_Ra2Music [Copy RA2_MUSIC_COPY]]"

definition recipes_ra2_disc :: "install_recipe list" where
  "recipes_ra2_disc =
    [recipe_of Source_Ra2Disc Package_Ra2Base [Copy RA2_DISC_BASE_COPY],
     recipe_of Source_Ra2Disc Package_Ra2Music [Copy RA2_MUSIC_COPY],
     recipe_of Source_Ra2Disc Package_Ra2Movies [Copy RA2_DISC_MOVIES_COPY]]"

definition recipes_ra2_yr_disc :: "install_recipe list" where
  "recipes_ra2_yr_disc =
    [recipe_of Source_Ra2YrDisc Package_Ra2YurisRevenge [Copy RA2_DISC_YR_COPY]]"

definition recipes_ra2_the_first_decade :: "install_recipe list" where
  "recipes_ra2_the_first_decade =
    [recipe_of Source_Ra2TheFirstDecade Package_Ra2Base [Copy RA2_DISC_BASE_COPY],
     recipe_of Source_Ra2TheFirstDecade Package_Ra2YurisRevenge [Copy RA2_DISC_YR_COPY],
     recipe_of Source_Ra2TheFirstDecade Package_Ra2Music [Copy RA2_MUSIC_COPY],
     recipe_of Source_Ra2TheFirstDecade Package_Ra2Movies [Copy RA2_DISC_MOVIES_COPY]]"

definition recipes_ra2_steam_tuc_2 :: "install_recipe list" where
  "recipes_ra2_steam_tuc_2 =
    [recipe_of Source_Ra2SteamTuc Package_Ra2Movies [Copy RA2_MOVIES_COPY]]"

definition recipes_ra2_origin_tuc_2 :: "install_recipe list" where
  "recipes_ra2_origin_tuc_2 =
    [recipe_of Source_Ra2OriginTuc Package_Ra2Movies [Copy RA2_MOVIES_COPY]]"

definition recipes_gen_steam_tuc :: "install_recipe list" where
  "recipes_gen_steam_tuc =
    [recipe_of Source_GenSteamTuc Package_GenBase [Copy GEN_BASE_COPY]]"

definition recipes_gen_origin_tuc :: "install_recipe list" where
  "recipes_gen_origin_tuc =
    [recipe_of Source_GenOriginTuc Package_GenBase [Copy GEN_BASE_COPY]]"

definition recipes_gen_disc :: "install_recipe list" where
  "recipes_gen_disc =
    [recipe_of Source_GenDisc Package_GenBase [Copy GEN_BASE_COPY]]"

definition recipes_gen_zh_disc :: "install_recipe list" where
  "recipes_gen_zh_disc =
    [recipe_of Source_GenZhDisc Package_GenZeroHour [Copy GEN_ZH_COPY]]"

definition recipes_td_gdi_disc :: "install_recipe list" where
  "recipes_td_gdi_disc =
    [recipe_of Source_TdGdiDisc Package_TdBase [Copy TD_BASE_COPY],
     recipe_of Source_TdGdiDisc Package_TdMusic [Copy TD_MUSIC_COPY],
     recipe_of Source_TdGdiDisc Package_TdMoviesGdi [Copy TD_MOVIES_GDI_DISC_COPY]]"

definition recipes_td_nod_disc :: "install_recipe list" where
  "recipes_td_nod_disc =
    [recipe_of Source_TdNodDisc Package_TdBase [Copy TD_BASE_COPY],
     recipe_of Source_TdNodDisc Package_TdMusic [Copy TD_MUSIC_COPY],
     recipe_of Source_TdNodDisc Package_TdMoviesNod [Copy TD_MOVIES_NOD_DISC_COPY]]"

definition recipes_td_covert_ops_disc :: "install_recipe list" where
  "recipes_td_covert_ops_disc =
    [recipe_of Source_TdCovertOpsDisc Package_TdCovertOps [Copy TD_COVERT_OPS_COPY]]"

definition recipes_td_steam_cnc :: "install_recipe list" where
  "recipes_td_steam_cnc =
    [recipe_of Source_TdSteamCnc Package_TdBase [Copy TD_BASE_COPY],
     recipe_of Source_TdSteamCnc Package_TdCovertOps [Copy TD_COVERT_OPS_COPY],
     recipe_of Source_TdSteamCnc Package_TdMusic [Copy TD_MUSIC_COPY],
     recipe_of Source_TdSteamCnc Package_TdMoviesGdi [Copy TD_MOVIES_GDI_STEAM_COPY],
     recipe_of Source_TdSteamCnc Package_TdMoviesNod [Copy TD_MOVIES_NOD_STEAM_COPY]]"

definition recipes_td_steam_remastered :: "install_recipe list" where
  "recipes_td_steam_remastered =
    [recipe_of Source_TdSteamRemastered Package_TdBase [Copy TD_REMASTERED_BASE_COPY]]"

definition recipes_td_origin_cnc :: "install_recipe list" where
  "recipes_td_origin_cnc =
    [recipe_of Source_TdOriginCnc Package_TdBase [Copy TD_BASE_COPY],
     recipe_of Source_TdOriginCnc Package_TdCovertOps [Copy TD_COVERT_OPS_COPY],
     recipe_of Source_TdOriginCnc Package_TdMusic [Copy TD_MUSIC_COPY],
     recipe_of Source_TdOriginCnc Package_TdMoviesGdi [Copy TD_MOVIES_GDI_STEAM_COPY],
     recipe_of Source_TdOriginCnc Package_TdMoviesNod [Copy TD_MOVIES_NOD_STEAM_COPY]]"

definition RA2TD_RECIPES :: "install_recipe list" where
  "RA2TD_RECIPES = recipes_ra2_steam_tuc @ recipes_ra2_origin_tuc @ recipes_ra2_disc @ recipes_ra2_yr_disc @
     recipes_ra2_the_first_decade @ recipes_ra2_steam_tuc_2 @ recipes_ra2_origin_tuc_2 @ recipes_gen_steam_tuc @
     recipes_gen_origin_tuc @ recipes_gen_disc @ recipes_gen_zh_disc @ recipes_td_gdi_disc @
     recipes_td_nod_disc @ recipes_td_covert_ops_disc @ recipes_td_steam_cnc @ recipes_td_steam_remastered @
     recipes_td_origin_cnc"

definition recipes_ts_disc :: "install_recipe list" where
  "recipes_ts_disc =
    [recipe_of Source_TsDisc Package_TsBase [Copy TS_BASE_COPY],
     recipe_of Source_TsDisc Package_TsMusic [Copy TS_MUSIC_COPY],
     recipe_of Source_TsDisc Package_TsMovies [Copy TS_MOVIES_COPY]]"

definition recipes_ts_firestorm_disc :: "install_recipe list" where
  "recipes_ts_firestorm_disc =
    [recipe_of Source_TsFirestormDisc Package_TsFirestorm [Copy TS_FIRESTORM_COPY]]"

definition recipes_ts_steam_tuc :: "install_recipe list" where
  "recipes_ts_steam_tuc =
    [recipe_of Source_TsSteamTuc Package_TsBase [Copy TS_BASE_COPY],
     recipe_of Source_TsSteamTuc Package_TsFirestorm [Copy TS_FIRESTORM_COPY],
     recipe_of Source_TsSteamTuc Package_TsMusic [Copy TS_MUSIC_COPY],
     recipe_of Source_TsSteamTuc Package_TsMovies [Copy TS_MOVIES_COPY]]"

definition recipes_ts_origin_tuc :: "install_recipe list" where
  "recipes_ts_origin_tuc =
    [recipe_of Source_TsOriginTuc Package_TsBase [Copy TS_BASE_COPY],
     recipe_of Source_TsOriginTuc Package_TsFirestorm [Copy TS_FIRESTORM_COPY],
     recipe_of Source_TsOriginTuc Package_TsMusic [Copy TS_MUSIC_COPY],
     recipe_of Source_TsOriginTuc Package_TsMovies [Copy TS_MOVIES_COPY]]"

definition recipes_dune2_disc :: "install_recipe list" where
  "recipes_dune2_disc =
    [recipe_of Source_Dune2Disc Package_Dune2Base [Copy DUNE2_BASE_COPY]]"

definition recipes_gog_dune2 :: "install_recipe list" where
  "recipes_gog_dune2 =
    [recipe_of Source_GogDune2 Package_Dune2Base [Copy DUNE2_BASE_COPY]]"

definition recipes_dune2000_disc :: "install_recipe list" where
  "recipes_dune2000_disc =
    [recipe_of Source_Dune2000Disc Package_Dune2000Base [Copy DUNE2000_BASE_COPY]]"

definition recipes_gog_dune2000 :: "install_recipe list" where
  "recipes_gog_dune2000 =
    [recipe_of Source_GogDune2000 Package_Dune2000Base [Copy DUNE2000_BASE_COPY]]"

definition TS_DUNE_RECIPES :: "install_recipe list" where
  "TS_DUNE_RECIPES = recipes_ts_disc @ recipes_ts_firestorm_disc @ recipes_ts_steam_tuc @ recipes_ts_origin_tuc @
     recipes_dune2_disc @ recipes_gog_dune2 @ recipes_dune2000_disc @ recipes_gog_dune2000"

definition ALL_RECIPES :: "install_recipe list" where
  "ALL_RECIPES = RA_RECIPES @ RA2TD_RECIPES @ TS_DUNE_RECIPES"

lemmas recipe_defs =
  recipes_steam_tuc_def recipes_steam_remastered_def recipes_steam_cnc_def recipes_origin_tuc_def
  recipes_origin_cnc_def recipes_origin_remastered_def recipes_allied_disc_def recipes_soviet_disc_def
  recipes_aftermath_disc_def recipes_counterstrike_disc_def recipes_the_first_decade_def recipes_cnc95_def
  recipes_ra2_steam_tuc_def recipes_ra2_origin_tuc_def recipes_ra2_disc_def recipes_ra2_yr_disc_def
  recipes_ra2_the_first_decade_def recipes_ra2_steam_tuc_2_def recipes_ra2_origin_tuc_2_def
  recipes_gen_steam_tuc_def recipes_gen_origin_tuc_def recipes_gen_disc_def recipes_gen_zh_disc_def
  recipes_td_gdi_disc_def recipes_td_nod_disc_def recipes_td_covert_ops_disc_def recipes_td_steam_cnc_def
  recipes_td_steam_remastered_def recipes_td_origin_cnc_def recipes_ts_disc_def recipes_ts_firestorm_disc_def
  recipes_ts_steam_tuc_def recipes_ts_origin_tuc_def recipes_dune2_disc_def recipes_gog_dune2_def
  recipes_dune2000_disc_def recipes_gog_dune2000_def

lemmas action_defs =
  MOVIES_ALLIED_FROM_MAIN_MIX_def MOVIES_SOVIET_FROM_MAIN_MIX_def MOVIES_ALLIED_FROM_REMASTERED_MIX_def
  MOVIES_SOVIET_FROM_REMASTERED_MIX_def AFTERMATH_DISC_ACTIONS_def AFTERMATH_DISC_MUSIC_ACTIONS_def
  CS_DISC_MUSIC_ACTIONS_def

lemmas mapping_defs =
  BASE_DIRECT_COPY_def BASE_FROM_REDALERT_MIX_def AFTERMATH_EXPAND_COPY_def CS_MUSIC_COPY_def AM_MUSIC_COPY_def
  REMASTERED_BASE_COPY_def REMASTERED_AFTERMATH_COPY_def REMASTERED_CS_MUSIC_COPY_def
  REMASTERED_AM_MUSIC_COPY_def MOVIES_ALLIED_VQA_ENTRIES_def MOVIES_SOVIET_VQA_ENTRIES_def RA2_BASE_COPY_def
  RA2_YR_COPY_def RA2_MUSIC_COPY_def RA2_MOVIES_COPY_def RA2_DISC_BASE_COPY_def RA2_DISC_YR_COPY_def
  RA2_DISC_MOVIES_COPY_def GEN_BASE_COPY_def GEN_ZH_COPY_def TD_BASE_COPY_def TD_REMASTERED_BASE_COPY_def
  TD_COVERT_OPS_COPY_def TD_MUSIC_COPY_def TD_MOVIES_GDI_DISC_COPY_def TD_MOVIES_NOD_DISC_COPY_def
  TD_MOVIES_GDI_STEAM_COPY_def TD_MOVIES_NOD_STEAM_COPY_def TS_BASE_COPY_def TS_FIRESTORM_COPY_def
  TS_MUSIC_COPY_def TS_MOVIES_COPY_def DUNE2_BASE_COPY_def DUNE2000_BASE_COPY_def

end
