(* ===== verification/Verify.thy ===== *)
theory Verify
  imports Bits Content "HOL-Library.List_Lexorder" "HOL-Library.Multiset"
begin

text \<open>
  Content verification of the installer, \<open>src/verify\<close>: identification of a source by its files
  (\<open>mod.rs\<close>), the manifest of installed files, incremental verification (\<open>incremental.rs\<close>), and the
  bitfield of verified files (\<open>bitfield.rs\<close>). The hash functions SHA-1 and BLAKE3 are arguments. The
  parallel variants of the feature \<open>fast-verify\<close> are proved equal to the sequential ones.
\<close>

unbundle bit_operations_syntax

section \<open>Hashing files\<close>

definition hex_digit_byte :: "u8 \<Rightarrow> u8" where
  "hex_digit_byte v = (if v < 10 then 48 + v else 87 + v)"

definition hex_text :: "bytes \<Rightarrow> bytes" where
  "hex_text bs = concat (map (\<lambda>b. [hex_digit_byte (drop_bit 4 b), hex_digit_byte (b AND 15)]) bs)"

text \<open>The reading loop: what each \<open>read\<close> into a buffer of \<open>n\<close> bytes returns until it returns nothing.\<close>

function read_chunks :: "nat \<Rightarrow> bytes \<Rightarrow> bytes list" where
  "read_chunks n content =
     (if n = 0 \<or> content = [] then [] else take n content # read_chunks n (drop n content))"
  by pat_completeness auto
termination read_chunks
  by (relation "measure (\<lambda>(n, content). length content)") auto

declare read_chunks.simps [simp del]

type_synonym hash = "bytes \<Rightarrow> bytes"

definition sha1_file :: "hash \<Rightarrow> disk \<Rightarrow> path \<Rightarrow> u64 option \<Rightarrow> io_error + bytes" where
  "sha1_file sha1 fs p prefix_length =
     and_then (fs_read fs p) (\<lambda>content.
       case prefix_length of
         Some len \<Rightarrow> and_then (read_exact_at content 0 (unat len)) (\<lambda>buf. Inr (hex_text (sha1 buf)))
       | None \<Rightarrow> Inr (hex_text (sha1 (concat (read_chunks 65536 content)))))"

definition hash_file :: "hash \<Rightarrow> disk \<Rightarrow> path \<Rightarrow> io_error + bytes" where
  "hash_file blake3 fs p =
     and_then (fs_read fs p) (\<lambda>content. Inr (hex_text (blake3 (concat (read_chunks 65536 content)))))"

definition blake3_file :: "hash \<Rightarrow> disk \<Rightarrow> path \<Rightarrow> io_error + bytes" where
  "blake3_file blake3 fs p =
     and_then (fs_read fs p) (\<lambda>content. Inr (hex_text (blake3 (concat (read_chunks 65536 content)))))"

text \<open>\<open>Path::join\<close>: an absolute path replaces the root; a separator is added unless the root ends in one.\<close>

definition path_join :: "path \<Rightarrow> path \<Rightarrow> path" where
  "path_join root p =
     (if p \<noteq> [] \<and> hd p = 47 then p
      else if root = [] \<or> last root = 47 then root @ p
      else root @ 47 # p)"

section \<open>Sources\<close>

definition verify_id_file :: "hash \<Rightarrow> disk \<Rightarrow> path \<Rightarrow> id_file_check \<Rightarrow> io_error + bool" where
  "verify_id_file sha1 fs source_root check =
     (let p = path_join source_root (ic_path check) in
      if Mapping.lookup fs p = None then Inr False
      else and_then (sha1_file sha1 fs p (ic_prefix_length check)) (\<lambda>h. Inr (h = ic_sha1 check)))"

definition source_matches :: "hash \<Rightarrow> disk \<Rightarrow> path \<Rightarrow> content_source \<Rightarrow> bool" where
  "source_matches sha1 fs source_root source \<longleftrightarrow>
     list_all (\<lambda>check. case verify_id_file sha1 fs source_root check of Inr ok \<Rightarrow> ok | Inl _ \<Rightarrow> False) (cs_id_files source)"

definition identify_source :: "hash \<Rightarrow> content_source list \<Rightarrow> disk \<Rightarrow> path \<Rightarrow> source_id option" where
  "identify_source sha1 all_sources fs source_root = map_option cs_id (find (source_matches sha1 fs source_root) all_sources)"

section \<open>The manifest of installed content\<close>

record file_digest =
  fd_blake3 :: bytes
  fd_size :: u64

definition CONTENT_MANIFEST_VERSION :: u32 where "CONTENT_MANIFEST_VERSION = 2"

record content_manifest =
  cm_version :: u32
  cm_game :: bytes
  cm_content_version :: bytes
  cm_files :: "(bytes \<times> file_digest) list"

text \<open>\<open>BTreeMap::insert\<close> on the entries in the order of their keys.\<close>

fun btree_insert :: "'k::linorder \<Rightarrow> 'v \<Rightarrow> ('k \<times> 'v) list \<Rightarrow> ('k \<times> 'v) list" where
  "btree_insert k v [] = [(k, v)]"
| "btree_insert k v ((k', v') # m) =
     (if k < k' then (k, v) # (k', v') # m
      else if k = k' then (k, v) # m
      else (k', v') # btree_insert k v m)"

definition file_ok :: "hash \<Rightarrow> disk \<Rightarrow> path \<Rightarrow> bytes \<times> file_digest \<Rightarrow> bool" where
  "file_ok blake3 fs content_root entry \<longleftrightarrow>
     hash_file blake3 fs (path_join content_root (fst entry)) = Inr (fd_blake3 (snd entry))"

definition verify_installed_content :: "hash \<Rightarrow> disk \<Rightarrow> path \<Rightarrow> content_manifest \<Rightarrow> bytes list" where
  "verify_installed_content blake3 fs content_root manifest =
     map fst (filter (\<lambda>e. \<not> file_ok blake3 fs content_root e) (cm_files manifest))"

text \<open>The test files of the packages that exist, in order; an unknown package ends the collection.\<close>

fun collect_paths ::
  "content_package list \<Rightarrow> disk \<Rightarrow> path \<Rightarrow> package_id list \<Rightarrow> io_error + (bytes \<times> path) list"
where
  "collect_paths all_packages fs content_root [] = Inr []"
| "collect_paths all_packages fs content_root (i # is) =
     and_then (ok_or (find (\<lambda>p. cp_id p = i) all_packages) (IoOther ''no package definition'')) (\<lambda>pkg.
     and_then (collect_paths all_packages fs content_root is) (\<lambda>rest.
       Inr (map (\<lambda>f. (f, path_join content_root f))
              (filter (\<lambda>f. Mapping.lookup fs (path_join content_root f) \<noteq> None) (cp_test_files pkg)) @ rest)))"

primrec digest_files ::
  "hash \<Rightarrow> disk \<Rightarrow> (bytes \<times> path) list \<Rightarrow> (bytes \<times> file_digest) list \<Rightarrow> io_error + (bytes \<times> file_digest) list"
where
  "digest_files blake3 fs [] files = Inr files"
| "digest_files blake3 fs (f # fs') files =
     and_then (hash_file blake3 fs (snd f)) (\<lambda>h.
     and_then (fs_read fs (snd f)) (\<lambda>content.
       digest_files blake3 fs fs'
         (btree_insert (fst f) \<lparr>fd_blake3 = h, fd_size = word_of_nat (length content)\<rparr> files)))"

text \<open>
  The variants of the feature \<open>fast-verify\<close>: each file is hashed by itself, in any order, and the
  results are collected in the order of the files.
\<close>

definition verify_installed_content_parallel :: "hash \<Rightarrow> disk \<Rightarrow> path \<Rightarrow> content_manifest \<Rightarrow> bytes list" where
  "verify_installed_content_parallel blake3 fs content_root manifest =
     List.map_filter (\<lambda>e. if file_ok blake3 fs content_root e then None else Some (fst e)) (cm_files manifest)"

definition digest_task :: "hash \<Rightarrow> disk \<Rightarrow> bytes \<times> path \<Rightarrow> io_error + (bytes \<times> file_digest)" where
  "digest_task blake3 fs f =
     and_then (hash_file blake3 fs (snd f)) (\<lambda>h.
     and_then (fs_read fs (snd f)) (\<lambda>content.
       Inr (fst f, \<lparr>fd_blake3 = h, fd_size = word_of_nat (length content)\<rparr>)))"

primrec collect_digests ::
  "(io_error + (bytes \<times> file_digest)) list \<Rightarrow> (bytes \<times> file_digest) list \<Rightarrow> io_error + (bytes \<times> file_digest) list"
where
  "collect_digests [] files = Inr files"
| "collect_digests (r # rs) files =
     and_then r (\<lambda>(p, d). collect_digests rs (btree_insert p d files))"

definition digest_files_parallel :: "hash \<Rightarrow> disk \<Rightarrow> (bytes \<times> path) list \<Rightarrow> io_error + (bytes \<times> file_digest) list" where
  "digest_files_parallel blake3 fs paths = collect_digests (map (digest_task blake3 fs) paths) []"

definition generate_manifest ::
  "hash \<Rightarrow> content_package list \<Rightarrow> disk \<Rightarrow> path \<Rightarrow> bytes \<Rightarrow> bytes \<Rightarrow> package_id list \<Rightarrow> io_error + content_manifest"
where
  "generate_manifest blake3 all_packages fs content_root game content_version packages =
     and_then (collect_paths all_packages fs content_root packages) (\<lambda>paths.
     and_then (digest_files blake3 fs paths []) (\<lambda>files.
       Inr \<lparr>cm_version = CONTENT_MANIFEST_VERSION, cm_game = game, cm_content_version = content_version, cm_files = files\<rparr>))"

section \<open>Incremental verification\<close>

record incremental_result =
  ir_checked :: "bytes list"
  ir_failures :: "bytes list"
  ir_total_files :: nat
  ir_slot :: nat
  ir_num_slots :: nat

text \<open>\<open>None\<close> is the panic of a remainder by zero.\<close>

definition verify_incremental :: "hash \<Rightarrow> disk \<Rightarrow> path \<Rightarrow> content_manifest \<Rightarrow> nat \<Rightarrow> nat \<Rightarrow> incremental_result option" where
  "verify_incremental blake3 fs content_root manifest slot num_slots =
     (if num_slots = 0 then None
      else
        let entries = cm_files manifest;
            slot_entries = map snd (filter (\<lambda>(i, _). i mod num_slots = slot mod num_slots) (enumerate 0 entries))
        in Some \<lparr>ir_checked = map fst slot_entries,
                 ir_failures = map fst (filter (\<lambda>e. \<not> file_ok blake3 fs content_root e) slot_entries),
                 ir_total_files = length entries, ir_slot = slot mod num_slots, ir_num_slots = num_slots\<rparr>)"

section \<open>The bitfield of verified files\<close>

record verify_bitfield =
  vb_lanes :: "u64 list list"
  vb_length :: nat

definition VB_MAX_FILES :: nat where "VB_MAX_FILES = 16 * 256"

text \<open>\<open>None\<close> is the failed assertion.\<close>

definition vb_new :: "nat \<Rightarrow> verify_bitfield option" where
  "vb_new file_count =
     (if file_count \<le> VB_MAX_FILES
      then Some \<lparr>vb_lanes = replicate 16 (replicate 4 0), vb_length = file_count\<rparr> else None)"

definition vb_set :: "verify_bitfield \<Rightarrow> nat \<Rightarrow> verify_bitfield" where
  "vb_set f index =
     (if index \<ge> vb_length f then f
      else
        let lane = index div 256; bit_in_lane = index mod 256; word = bit_in_lane div 64; k = bit_in_lane mod 64
        in case get_at (vb_lanes f) lane of
             None \<Rightarrow> f
           | Some arr \<Rightarrow>
               (case get_at arr word of
                  None \<Rightarrow> f
                | Some w \<Rightarrow> f\<lparr>vb_lanes := (vb_lanes f)[lane := arr[word := w OR push_bit k 1]]\<rparr>))"

definition vb_get :: "verify_bitfield \<Rightarrow> nat \<Rightarrow> bool" where
  "vb_get f index =
     (if index \<ge> vb_length f then False
      else
        let lane = index div 256; bit_in_lane = index mod 256; word = bit_in_lane div 64; k = bit_in_lane mod 64
        in case get_at (vb_lanes f) lane of
             None \<Rightarrow> False
           | Some arr \<Rightarrow> (case get_at arr word of None \<Rightarrow> False | Some w \<Rightarrow> w AND push_bit k 1 \<noteq> 0))"

definition popcount :: "u64 \<Rightarrow> nat" where
  "popcount w = length (filter (bit w) [0..<64])"

definition vb_count_ones :: "verify_bitfield \<Rightarrow> nat" where
  "vb_count_ones f = sum_list (map (\<lambda>arr. sum_list (map popcount arr)) (vb_lanes f))"

text \<open>The subtraction would panic below zero.\<close>

definition vb_count_failures :: "verify_bitfield \<Rightarrow> nat option" where
  "vb_count_failures f = (if vb_count_ones f \<le> vb_length f then Some (vb_length f - vb_count_ones f) else None)"

definition vb_combine :: "(u64 \<Rightarrow> u64 \<Rightarrow> u64) \<Rightarrow> verify_bitfield \<Rightarrow> verify_bitfield \<Rightarrow> verify_bitfield option" where
  "vb_combine op f g =
     map_option (\<lambda>r. r\<lparr>vb_lanes := map2 (map2 op) (vb_lanes f) (vb_lanes g)\<rparr>) (vb_new (max (vb_length f) (vb_length g)))"

definition vb_and :: "verify_bitfield \<Rightarrow> verify_bitfield \<Rightarrow> verify_bitfield option" where
  "vb_and = vb_combine (AND)"

definition vb_or :: "verify_bitfield \<Rightarrow> verify_bitfield \<Rightarrow> verify_bitfield option" where
  "vb_or = vb_combine (OR)"

definition vb_and_not :: "verify_bitfield \<Rightarrow> verify_bitfield \<Rightarrow> verify_bitfield option" where
  "vb_and_not = vb_combine (\<lambda>a b. a AND NOT b)"

definition trailing_zeros :: "u64 \<Rightarrow> nat" where
  "trailing_zeros w = (case find (bit w) [0..<64] of None \<Rightarrow> 64 | Some k \<Rightarrow> k)"

text \<open>The loop of \<open>set_indices\<close> over one word; \<open>w &= w - 1\<close> clears the lowest set bit.\<close>

function word_indices :: "nat \<Rightarrow> nat \<Rightarrow> u64 \<Rightarrow> nat list" where
  "word_indices base len w =
     (if w = 0 then []
      else
        let index = base + trailing_zeros w;
            rest = word_indices base len (w AND (w - 1))
        in if index < len then index # rest else rest)"
  by pat_completeness auto
termination word_indices
proof (relation "measure (\<lambda>(base, len, w). unat w)")
  fix base len :: nat and w :: u64
  assume "w \<noteq> 0"
  then have "w AND (w - 1) \<le> w - 1" "w - 1 < w"
    by (simp_all add: word_and_le1 word_and_le2 word_less_1 measure_unat word_less_nat_alt)
  then have "w AND (w - 1) < w"
    by order
  then show "((base, len, w AND (w - 1)), base, len, w) \<in> measure (\<lambda>(base, len, w). unat w)"
    by (simp add: word_less_nat_alt)
qed simp

declare word_indices.simps [simp del]

definition vb_set_indices :: "verify_bitfield \<Rightarrow> nat list" where
  "vb_set_indices f =
     concat (map (\<lambda>(lane_idx, lane).
         concat (map (\<lambda>(word_idx, word). word_indices (lane_idx * 256 + word_idx * 64) (vb_length f) word) (enumerate 0 lane)))
       (enumerate 0 (vb_lanes f)))"

section \<open>The bits of a word\<close>

lemma find_Some_filter: "find P xs = Some t \<Longrightarrow> distinct xs \<Longrightarrow> filter P xs = t # filter (\<lambda>k. P k \<and> k \<noteq> t) xs"
  by (induction xs) (auto split: if_splits intro!: filter_cong)

lemma word_has_bit:
  fixes w :: u64
  assumes "w \<noteq> 0"
  obtains t where "find (bit w) [0..<64] = Some t" "trailing_zeros w = t" "bit w t" "\<forall>k<t. \<not> bit w k" "t < 64"
proof -
  obtain k where "bit w k"
    using assms by (auto simp: bit_eq_iff)
  moreover from this have "k < 64"
    using bit_imp_le_length by fastforce
  ultimately have "find (bit w) [0..<64] \<noteq> None"
    by (auto simp: find_None_iff)
  then obtain t where t: "find (bit w) [0..<64] = Some t"
    by auto
  then have "t < 64" "bit w t" "\<forall>k<t. \<not> bit w k"
    by (auto simp: find_Some_iff)
  then show thesis
    using t that by (simp add: trailing_zeros_def)
qed

lemma clear_lowest:
  fixes w :: u64
  assumes "bit w t" "\<forall>k<t. \<not> bit w k" "t < 64"
  shows "bit (w AND (w - 1)) k \<longleftrightarrow> bit w k \<and> k \<noteq> t"
proof -
  define v where "v = unset_bit t w"
  have "w = v OR 2 ^ t"
    using assms by (auto intro!: bit_word_eqI simp: v_def bit_or_iff bit_unset_bit_iff bit_exp_iff)
  moreover have "v AND 2 ^ t = 0"
    by (rule bit_word_eqI) (auto simp: v_def bit_and_iff bit_unset_bit_iff bit_exp_iff)
  ultimately have sum: "w = v + 2 ^ t"
    by (simp add: disjunctive_add_eq_or)
  have "v AND mask t = 0"
    using assms by (auto intro!: bit_word_eqI simp: v_def bit_and_iff bit_unset_bit_iff bit_mask_iff)
  then have "w - 1 = v OR mask t"
    unfolding sum by (simp add: disjunctive_add_eq_or [symmetric] mask_eq_decr_exp)
  then have "bit (w AND (w - 1)) k \<longleftrightarrow> bit w k \<and> (bit v k \<or> bit (mask t :: u64) k)"
    by (simp add: bit_and_iff bit_or_iff)
  then show ?thesis
    using assms by (auto simp: v_def bit_unset_bit_iff bit_mask_iff)
qed

lemma filter_bits_shift: "filter (\<lambda>i. bit w (i - base)) [base..<base + 64] = map (\<lambda>k. base + k) (filter (bit (w :: u64)) [0..<64])"
proof -
  have "[base..<base + 64] = map (\<lambda>k. base + k) [0..<64]"
    by (auto intro: nth_equalityI)
  then show ?thesis
    by (simp add: filter_map comp_def)
qed

lemma word_indices_bits: "word_indices base len w = filter (\<lambda>i. i < len) (map (\<lambda>k. base + k) (filter (bit w) [0..<64]))"
proof (induction base len w rule: word_indices.induct)
  case (1 base len w)
  show ?case
  proof (cases "w = 0")
    case True
    then show ?thesis
      by (simp add: word_indices.simps)
  next
    case False
    then obtain t where t: "find (bit w) [0..<64] = Some t" "trailing_zeros w = t" "bit w t" "\<forall>k<t. \<not> bit w k" "t < 64"
      by (rule word_has_bit)
    have "filter (bit w) [0..<64] = t # filter (bit (w AND (w - 1))) [0..<64]"
      by (simp add: find_Some_filter [OF t(1)] clear_lowest [OF t(3-5)] cong: filter_cong)
    then show ?thesis
      using 1 [OF False refl] False t(2) by (subst word_indices.simps) (simp add: Let_def)
  qed
qed

lemma word_indices_filter:
  "word_indices base len w = filter (\<lambda>i. i < len \<and> bit w (i - base)) [base..<base + 64]"
  by (simp add: word_indices_bits filter_bits_shift [symmetric] conj_commute)

section \<open>The bitfield as a set of indices\<close>

definition vb_shape :: "verify_bitfield \<Rightarrow> bool" where
  "vb_shape f \<longleftrightarrow> length (vb_lanes f) = 16 \<and> list_all (\<lambda>arr. length arr = 4) (vb_lanes f) \<and> vb_length f \<le> VB_MAX_FILES"

definition vb_bit :: "verify_bitfield \<Rightarrow> nat \<Rightarrow> bool" where
  "vb_bit f i \<longleftrightarrow> bit (vb_lanes f ! (i div 256) ! (i mod 256 div 64)) (i mod 64)"

definition vb_wf :: "verify_bitfield \<Rightarrow> bool" where
  "vb_wf f \<longleftrightarrow> vb_shape f \<and> list_all (\<lambda>i. vb_bit f i \<longrightarrow> i < vb_length f) [0..<VB_MAX_FILES]"

lemma shape_lane:
  assumes "vb_shape f" "i < VB_MAX_FILES"
  shows "i div 256 < length (vb_lanes f)" "i mod 256 div 64 < length (vb_lanes f ! (i div 256))"
proof -
  show *: "i div 256 < length (vb_lanes f)"
    using assms by (simp add: vb_shape_def VB_MAX_FILES_def less_mult_imp_div_less)
  have "i mod 256 div 64 < 4"
    by (rule less_mult_imp_div_less) simp
  then show "i mod 256 div 64 < length (vb_lanes f ! (i div 256))"
    using assms * by (simp add: vb_shape_def list_all_length)
qed

definition vb_in_range :: "verify_bitfield \<Rightarrow> nat \<Rightarrow> bool" where
  "vb_in_range f i \<longleftrightarrow>
     i < vb_length f \<and> i div 256 < length (vb_lanes f) \<and> i mod 256 div 64 < length (vb_lanes f ! (i div 256))"

lemma shape_range: "vb_shape f \<Longrightarrow> vb_in_range f i \<longleftrightarrow> i < vb_length f"
  using shape_lane [of f i] by (auto simp: vb_in_range_def vb_shape_def)

lemma vb_get_range: "vb_get f i \<longleftrightarrow> vb_in_range f i \<and> vb_bit f i"
  using mod_mod_cancel [of 64 256 i]
  by (simp add: vb_get_def vb_bit_def vb_in_range_def Let_def get_at_def bit_iff_and_push_bit_not_eq_0)

lemma vb_get_bit: "vb_shape f \<Longrightarrow> vb_get f i \<longleftrightarrow> i < vb_length f \<and> vb_bit f i"
  by (simp add: vb_get_range shape_range)

lemma concat_filter_blocks:
  "concat (map (\<lambda>k. filter P [a + k * c..<a + Suc k * c]) [0..<n]) = filter P [a..<a + n * c]"
proof (induction n)
  case (Suc n)
  have "[a..<a + Suc n * c] = [a..<a + n * c] @ [a + n * c..<a + Suc n * c]"
    using upt_add_eq_append [of a "a + n * c" c] by (simp add: algebra_simps)
  then show ?case
    using Suc by simp
qed simp

lemma enumerate_upt: "enumerate 0 xs = map (\<lambda>j. (j, xs ! j)) [0..<length xs]"
  by (auto intro!: nth_equalityI simp: nth_enumerate_eq)

lemma index_parts:
  fixes j k b :: nat
  assumes "k < 4" "b < 64"
  shows "(j * 256 + k * 64 + b) div 256 = j" "(j * 256 + k * 64 + b) mod 256 div 64 = k" "(j * 256 + k * 64 + b) mod 64 = b"
proof -
  have low: "k * 64 + b < 256"
    using assms by linarith
  have i: "j * 256 + k * 64 + b = j * 256 + (k * 64 + b)"
    by simp
  show "(j * 256 + k * 64 + b) div 256 = j"
    unfolding i using low by (simp only: div_mult_self3 div_less)
  show "(j * 256 + k * 64 + b) mod 256 div 64 = k"
    unfolding i using low assms by (simp only: mod_mult_self3 mod_less div_mult_self3 div_less)
  have "j * 256 + k * 64 + b = (j * 4 + k) * 64 + b"
    by simp
  then show "(j * 256 + k * 64 + b) mod 64 = b"
    using assms by (simp only: mod_mult_self3 mod_less)
qed

lemma lane_block:
  assumes "vb_shape f" "j < 16"
  shows "concat (map (\<lambda>(k, word). word_indices (j * 256 + k * 64) (vb_length f) word) (enumerate 0 (vb_lanes f ! j))) =
    filter (\<lambda>i. i < vb_length f \<and> vb_bit f i) [j * 256..<Suc j * 256]"
proof -
  let ?P = "\<lambda>i. i < vb_length f \<and> vb_bit f i"
  have four: "length (vb_lanes f ! j) = 4"
    using assms by (simp add: vb_shape_def list_all_length)
  have block: "word_indices (j * 256 + k * 64) (vb_length f) (vb_lanes f ! j ! k) =
      filter ?P [j * 256 + k * 64..<j * 256 + Suc k * 64]" if "k < 4" for k
  proof -
    have "bit (vb_lanes f ! j ! k) (i - (j * 256 + k * 64)) = vb_bit f i"
      if i: "i \<in> {j * 256 + k * 64..<j * 256 + k * 64 + 64}" for i
    proof -
      obtain r where r: "i = j * 256 + k * 64 + r" "r < 64"
        using i by (metis atLeastLessThan_iff le_Suc_ex nat_add_left_cancel_less)
      have "i - (j * 256 + k * 64) = r"
        unfolding r(1) by simp
      then show ?thesis
        unfolding r(1) by (simp only: vb_bit_def index_parts [OF \<open>k < 4\<close> r(2)])
    qed
    then show ?thesis
      unfolding word_indices_filter by (auto intro!: filter_cong simp: add.commute add.left_commute)
  qed
  have "concat (map (\<lambda>(k, word). word_indices (j * 256 + k * 64) (vb_length f) word) (enumerate 0 (vb_lanes f ! j))) =
      concat (map (\<lambda>k. filter ?P [j * 256 + k * 64..<j * 256 + Suc k * 64]) [0..<4])"
    unfolding enumerate_upt four map_map comp_def prod.case
    by (intro arg_cong [of _ _ concat] map_cong refl block) simp
  also have "\<dots> = filter ?P [j * 256..<j * 256 + 4 * 64]"
    by (rule concat_filter_blocks)
  finally show ?thesis
    by (simp add: add.commute)
qed

lemma set_indices_filter:
  assumes "vb_shape f"
  shows "vb_set_indices f = filter (vb_get f) [0..<VB_MAX_FILES]"
proof -
  let ?P = "\<lambda>i. i < vb_length f \<and> vb_bit f i"
  have sixteen: "length (vb_lanes f) = 16"
    using assms by (simp add: vb_shape_def)
  have "vb_set_indices f = concat (map (\<lambda>j. filter ?P [0 + j * 256..<0 + Suc j * 256]) [0..<16])"
    unfolding vb_set_indices_def enumerate_upt sixteen map_map comp_def prod.case add_0
    by (intro arg_cong [of _ _ concat] map_cong refl)
      (simp add: lane_block [OF assms, unfolded enumerate_upt map_map comp_def prod.case])
  also have "\<dots> = filter ?P [0..<0 + 16 * 256]"
    by (rule concat_filter_blocks)
  finally show ?thesis
    using assms by (simp add: VB_MAX_FILES_def vb_get_bit cong: filter_cong)
qed

section \<open>Operations on well-formed bitfields\<close>

lemma popcount_indices:
  assumes "vb_wf f"
  shows "vb_count_ones f = length (vb_set_indices f)"
proof -
  have shape: "vb_shape f" and inside: "\<And>i. i < VB_MAX_FILES \<Longrightarrow> vb_bit f i \<Longrightarrow> i < vb_length f"
    using assms by (auto simp: vb_wf_def list_all_iff)
  have *: "length (word_indices (j * 256 + k * 64) (vb_length f) (vb_lanes f ! j ! k)) = popcount (vb_lanes f ! j ! k)"
    if "j < 16" "k < 4" for j k
  proof -
    have "j * 256 + k * 64 + b < vb_length f" if b: "bit (vb_lanes f ! j ! k) b" "b < 64" for b
    proof (rule inside)
      show "vb_bit f (j * 256 + k * 64 + b)"
        using b(1) by (simp add: vb_bit_def index_parts [OF \<open>k < 4\<close> b(2)])
      show "j * 256 + k * 64 + b < VB_MAX_FILES"
        using \<open>j < 16\<close> \<open>k < 4\<close> b(2) by (simp add: VB_MAX_FILES_def)
    qed
    then have "filter (\<lambda>i. i < vb_length f) (map (\<lambda>b. j * 256 + k * 64 + b) (filter (bit (vb_lanes f ! j ! k)) [0..<64])) =
        map (\<lambda>b. j * 256 + k * 64 + b) (filter (bit (vb_lanes f ! j ! k)) [0..<64])"
      by (auto simp: filter_id_conv)
    then show ?thesis
      by (simp add: word_indices_bits popcount_def)
  qed
  have sizes: "length (vb_lanes f) = 16" "\<And>j. j < 16 \<Longrightarrow> length (vb_lanes f ! j) = 4"
    using shape by (auto simp: vb_shape_def list_all_length)
  have nths: "map g xs = map (\<lambda>j. g (xs ! j)) [0..<length xs]" for g :: "'x \<Rightarrow> 'y" and xs
    by (auto intro: nth_equalityI)
  have "vb_count_ones f = (\<Sum>j\<leftarrow>[0..<16]. \<Sum>k\<leftarrow>[0..<4]. popcount (vb_lanes f ! j ! k))"
    unfolding vb_count_ones_def nths [of _ "vb_lanes f"] sizes(1)
    by (intro arg_cong [of _ _ sum_list] map_cong refl) (subst nths, simp add: sizes(2))
  also have "\<dots> = (\<Sum>j\<leftarrow>[0..<16]. \<Sum>k\<leftarrow>[0..<4]. length (word_indices (j * 256 + k * 64) (vb_length f) (vb_lanes f ! j ! k)))"
    by (intro arg_cong [of _ _ sum_list] map_cong refl) (simp add: * del: upt.simps upt_rec_numeral)
  also have "\<dots> = length (vb_set_indices f)"
    unfolding vb_set_indices_def enumerate_upt length_concat map_map comp_def prod.case sizes(1)
    by (intro arg_cong [of _ _ sum_list] map_cong refl)
      (simp add: sizes(2) length_concat comp_def del: upt.simps upt_rec_numeral)
  finally show ?thesis .
qed

lemma vb_bit_set:
  assumes "vb_in_range f j"
  shows "vb_bit (vb_set f j) i \<longleftrightarrow> vb_bit f i \<or> i = j"
proof -
  have same: "i = j \<longleftrightarrow> i div 256 = j div 256 \<and> i mod 256 div 64 = j mod 256 div 64 \<and> i mod 64 = j mod 64"
  proof
    assume *: "i div 256 = j div 256 \<and> i mod 256 div 64 = j mod 256 div 64 \<and> i mod 64 = j mod 64"
    moreover have "i mod 256 mod 64 = i mod 64" "j mod 256 mod 64 = j mod 64"
      by (simp_all add: mod_mod_cancel)
    ultimately show "i = j"
      by (metis div_mult_mod_eq)
  qed simp
  have low: "j mod 256 mod 64 = j mod 64"
    by (simp add: mod_mod_cancel)
  have bits: "bit (w OR 2 ^ (j mod 64)) b \<longleftrightarrow> bit w b \<or> b = j mod 64" for w :: u64 and b
    by (auto simp: bit_or_iff bit_exp_iff)
  show ?thesis
    using assms
    by (auto simp: vb_in_range_def vb_bit_def vb_set_def Let_def get_at_def low bits same nth_list_update split: if_splits)
qed

lemma vb_set_shape: "vb_shape f \<Longrightarrow> vb_shape (vb_set f j)"
  by (auto simp: vb_shape_def vb_set_def Let_def list_all_length nth_list_update dest: get_at_Some split: option.splits)

lemma vb_set_length [simp]: "vb_length (vb_set f j) = vb_length f"
  by (simp add: vb_set_def Let_def split: option.splits)

lemma vb_set_out_of_range: "\<not> vb_in_range f j \<Longrightarrow> vb_set f j = f"
  by (auto simp: vb_in_range_def vb_set_def Let_def get_at_def)

lemma vb_range_set: "vb_in_range (vb_set f j) i = vb_in_range f i"
  by (auto simp: vb_in_range_def vb_set_def Let_def nth_list_update dest!: get_at_Some split: option.splits if_splits)

lemma vb_set_wf: "vb_wf f \<Longrightarrow> vb_wf (vb_set f j)"
  by (cases "vb_in_range f j")
    (auto simp: vb_wf_def vb_set_shape list_all_iff vb_bit_set vb_set_out_of_range shape_range)

lemma vb_get_set: "vb_get (vb_set f j) i \<longleftrightarrow> vb_get f i \<or> j = i \<and> vb_in_range f j"
  by (cases "vb_in_range f j") (auto simp: vb_get_range vb_range_set vb_bit_set vb_set_out_of_range)

interpretation verified: bitset vb_get vb_set vb_in_range
  by unfold_locales (simp_all only: vb_get_set vb_range_set, simp_all add: vb_get_range)

lemma vb_new_wf: "vb_new n = Some f \<Longrightarrow> vb_wf f \<and> vb_length f = n \<and> \<not> vb_get f i"
proof -
  assume "vb_new n = Some f"
  then have f: "f = \<lparr>vb_lanes = replicate 16 (replicate 4 0), vb_length = n\<rparr>" and n: "n \<le> VB_MAX_FILES"
    by (auto simp: vb_new_def split: if_splits)
  have shape: "vb_shape f"
    using n by (simp add: f vb_shape_def list_all_length)
  have "\<not> vb_bit f i" if "i < VB_MAX_FILES" for i
    using shape_lane [OF shape that] by (simp add: f vb_bit_def)
  then show ?thesis
    using shape n by (auto simp: vb_wf_def list_all_iff vb_get_bit f)
qed

lemma wf_get_bit: "vb_wf f \<Longrightarrow> i < VB_MAX_FILES \<Longrightarrow> vb_get f i = vb_bit f i"
  by (auto simp: vb_wf_def vb_get_bit list_all_iff)

lemma set_indices_below:
  assumes "vb_shape f"
  shows "vb_set_indices f = filter (vb_get f) [0..<vb_length f]"
proof -
  have "[0..<VB_MAX_FILES] = [0..<vb_length f] @ [vb_length f..<VB_MAX_FILES]"
    using assms upt_add_eq_append [of 0 "vb_length f" "VB_MAX_FILES - vb_length f"] by (simp add: vb_shape_def)
  moreover have "filter (vb_get f) [vb_length f..<VB_MAX_FILES] = []"
    using assms by (simp add: filter_empty_conv vb_get_bit)
  ultimately show ?thesis
    using assms by (simp add: set_indices_filter)
qed

lemma failures_indices:
  assumes "vb_wf f"
  shows "vb_count_failures f = Some (length (filter (\<lambda>i. \<not> vb_get f i) [0..<vb_length f]))"
proof -
  have "vb_count_ones f = length (filter (vb_get f) [0..<vb_length f])"
    using assms by (simp add: popcount_indices set_indices_below vb_wf_def)
  moreover have "length (filter (vb_get f) [0..<vb_length f]) + length (filter (\<lambda>i. \<not> vb_get f i) [0..<vb_length f]) = vb_length f"
    by (simp add: sum_length_filter_compl)
  ultimately show ?thesis
    by (simp add: vb_count_failures_def)
qed

lemma vb_combine_exact:
  assumes "vb_wf f" "vb_wf g"
    and bits: "\<And>a b n. n < 64 \<Longrightarrow> bit (op a b) n \<longleftrightarrow> P (bit a n) (bit b n)" and "\<not> P False False"
  shows "\<exists>r. vb_combine op f g = Some r \<and> vb_wf r \<and> vb_length r = max (vb_length f) (vb_length g)
    \<and> (\<forall>i. vb_get r i \<longleftrightarrow> P (vb_get f i) (vb_get g i))"
proof -
  let ?n = "max (vb_length f) (vb_length g)"
  have shapes: "vb_shape f" "vb_shape g"
    using assms by (simp_all add: vb_wf_def)
  then have n: "?n \<le> VB_MAX_FILES"
    by (simp add: vb_shape_def)
  define r where "r = \<lparr>vb_lanes = map2 (map2 op) (vb_lanes f) (vb_lanes g), vb_length = ?n\<rparr>"
  then have r: "vb_combine op f g = Some r" "vb_lanes r = map2 (map2 op) (vb_lanes f) (vb_lanes g)" "vb_length r = ?n"
    using n by (simp_all add: vb_combine_def vb_new_def)
  have shape: "vb_shape r"
    using shapes r by (auto simp: vb_shape_def list_all_length)
  have bit: "vb_bit r i \<longleftrightarrow> P (vb_bit f i) (vb_bit g i)" if i: "i < VB_MAX_FILES" for i
    using shape_lane [OF shapes(1) i] shape_lane [OF shapes(2) i] by (simp add: vb_bit_def r bits)
  have inside: "vb_bit h i \<longrightarrow> i < vb_length h" if "vb_wf h" "i < VB_MAX_FILES" for h i
    using that by (simp add: vb_wf_def list_all_iff)
  have "vb_wf r"
    unfolding vb_wf_def list_all_iff using shape bit inside [OF assms(1)] inside [OF assms(2)] assms(4) r(3)
    by (metis atLeastLessThan_iff atLeastLessThan_upt less_max_iff_disj)
  moreover have "vb_get r i \<longleftrightarrow> P (vb_get f i) (vb_get g i)" for i
  proof (cases "i < VB_MAX_FILES")
    case True
    then show ?thesis
      using \<open>vb_wf r\<close> assms(1,2) bit by (simp add: wf_get_bit)
  next
    case False
    then have "\<not> vb_get h i" if "vb_shape h" for h
      using that by (simp add: vb_get_bit vb_shape_def)
    then show ?thesis
      using assms(4) shape shapes by simp
  qed
  ultimately show ?thesis
    using r by blast
qed

text \<open>
  The bitfield of verified files is a set of file indices. For well-formed bitfields (the shape
  that \<open>new\<close> builds, with no bit at or above the number of files): \<open>set_indices\<close>, with its loop
  that clears the lowest set bit, lists exactly the indices that \<open>get\<close> accepts, in ascending order;
  \<open>count_failures\<close> does not underflow and counts the others; \<open>set\<close> keeps the bitfield well-formed,
  and setting a list of indices adds exactly those below the number of files; and \<open>and\<close>, \<open>or\<close>
  and \<open>and_not\<close> do not panic and are the intersection, the union and the difference.
\<close>

theorem verify_bitfield_exact:
  assumes "vb_wf f" "vb_wf g"
  shows "vb_set_indices f = filter (vb_get f) [0..<vb_length f]
    \<and> vb_count_failures f = Some (length (filter (\<lambda>i. \<not> vb_get f i) [0..<vb_length f]))
    \<and> vb_wf (fold (\<lambda>i s. vb_set s i) is f)
    \<and> (vb_get (fold (\<lambda>i s. vb_set s i) is f) j \<longleftrightarrow> vb_get f j \<or> j \<in> set is \<and> j < vb_length f)
    \<and> (\<exists>r. vb_and f g = Some r \<and> vb_wf r \<and> vb_length r = max (vb_length f) (vb_length g) \<and> (\<forall>i. vb_get r i \<longleftrightarrow> vb_get f i \<and> vb_get g i))
    \<and> (\<exists>r. vb_or f g = Some r \<and> vb_wf r \<and> vb_length r = max (vb_length f) (vb_length g) \<and> (\<forall>i. vb_get r i \<longleftrightarrow> vb_get f i \<or> vb_get g i))
    \<and> (\<exists>r. vb_and_not f g = Some r \<and> vb_wf r \<and> vb_length r = max (vb_length f) (vb_length g) \<and> (\<forall>i. vb_get r i \<longleftrightarrow> vb_get f i \<and> \<not> vb_get g i))"
proof -
  have shape: "vb_shape f"
    using assms(1) by (simp add: vb_wf_def)
  have indices: "vb_set_indices f = filter (vb_get f) [0..<vb_length f]"
    by (rule set_indices_below [OF shape])
  have "vb_wf (fold (\<lambda>i s. vb_set s i) is f)"
    using assms(1) by (induction "is" arbitrary: f) (simp_all add: vb_set_wf)
  then show ?thesis
    unfolding vb_and_def vb_or_def vb_and_not_def
    using indices failures_indices [OF assms(1)] verified.has_fold [of "is" f j] shape_range [OF shape]
      vb_combine_exact [OF assms, of "(AND)" "(\<and>)"] vb_combine_exact [OF assms, of "(OR)" "(\<or>)"]
      vb_combine_exact [OF assms, of "\<lambda>a b. a AND NOT b" "\<lambda>x y. x \<and> \<not> y"]
    by (simp add: bit_and_iff bit_or_iff bit_not_iff)
qed

theorem verify_bitfield_exact_witness:
  "\<exists>f. vb_new 3 = Some f \<and> vb_set_indices (vb_set f 1) = [1] \<and> vb_count_failures (vb_set f 1) = Some 2"
proof -
  obtain f where f: "vb_new 3 = Some f"
    by (simp add: vb_new_def VB_MAX_FILES_def)
  note new = vb_new_wf [OF f]
  then have range: "vb_in_range f 1"
    by (simp add: shape_range vb_wf_def)
  have g: "vb_wf (vb_set f 1)" "vb_length (vb_set f 1) = 3" "vb_get (vb_set f 1) = (\<lambda>i. i = 1)"
    using new range by (auto simp: vb_get_set vb_set_wf)
  have three: "[0..<3] = [0, 1, 2::nat]"
    by (simp add: upt_rec)
  show ?thesis
    using f verify_bitfield_exact [OF g(1) g(1), of "[]" 0] unfolding g(2,3) three by auto
qed

section \<open>Incremental verification covers the manifest\<close>

lemma mset_residues: "mset (concat (map (\<lambda>s. filter (\<lambda>x. g x = s) xs) [0..<n])) = mset (filter (\<lambda>x. g x < n) xs)"
proof (induction n)
  case (Suc n)
  have "mset (filter (\<lambda>x. g x < Suc n) xs) = mset (filter (\<lambda>x. g x < n) xs) + mset (filter (\<lambda>x. g x = n) xs)"
    by (induction xs) auto
  then show ?case
    using Suc by simp
qed simp

definition slot_entries :: "content_manifest \<Rightarrow> nat \<Rightarrow> nat \<Rightarrow> (bytes \<times> file_digest) list" where
  "slot_entries manifest slot num_slots =
     map snd (filter (\<lambda>(i, _). i mod num_slots = slot mod num_slots) (enumerate 0 (cm_files manifest)))"

lemma verify_incremental_slot:
  "0 < num_slots \<Longrightarrow> verify_incremental blake3 fs root manifest slot num_slots =
     Some \<lparr>ir_checked = map fst (slot_entries manifest slot num_slots),
           ir_failures = map fst (filter (\<lambda>e. \<not> file_ok blake3 fs root e) (slot_entries manifest slot num_slots)),
           ir_total_files = length (cm_files manifest), ir_slot = slot mod num_slots, ir_num_slots = num_slots\<rparr>"
  by (simp add: verify_incremental_def slot_entries_def Let_def)

lemma slot_entries_mod: "slot_entries manifest (slot mod num_slots) num_slots = slot_entries manifest slot num_slots"
  by (simp add: slot_entries_def)

lemma mset_slot_entries:
  assumes "0 < num_slots"
  shows "mset (concat (map (\<lambda>s. slot_entries manifest s num_slots) [0..<num_slots])) = mset (cm_files manifest)"
proof -
  let ?xs = "enumerate 0 (cm_files manifest)"
  have "concat (map (\<lambda>s. slot_entries manifest s num_slots) [0..<num_slots]) =
      map snd (concat (map (\<lambda>s. filter (\<lambda>x. fst x mod num_slots = s) ?xs) [0..<num_slots]))"
    unfolding map_concat map_map comp_def slot_entries_def case_prod_unfold
    by (intro arg_cong [of _ _ concat] map_cong refl) simp
  then have "mset (concat (map (\<lambda>s. slot_entries manifest s num_slots) [0..<num_slots])) =
      image_mset snd (mset (filter (\<lambda>x. fst x mod num_slots < num_slots) ?xs))"
    by (simp only: mset_map mset_residues)
  then show ?thesis
    using assms by (simp flip: mset_map)
qed

text \<open>The remainder by zero slots panics, even for an empty manifest.\<close>

lemma zero_slots_panic: "verify_incremental blake3 fs root manifest slot 0 = None"
  by (simp add: verify_incremental_def)

lemma mset_slots:
  assumes "0 < num_slots"
  shows "mset (concat (map (\<lambda>s. map fst (filter P (slot_entries manifest s num_slots))) [0..<num_slots])) =
    mset (map fst (filter P (cm_files manifest)))"
proof -
  have "concat (map (\<lambda>s. map fst (filter P (slot_entries manifest s num_slots))) [0..<num_slots]) =
      map fst (filter P (concat (map (\<lambda>s. slot_entries manifest s num_slots) [0..<num_slots])))"
    by (simp add: map_concat filter_concat comp_def)
  then show ?thesis
    by (simp only: mset_map mset_filter mset_slot_entries [OF assms])
qed

text \<open>
  C32: Incremental verification checks every file of the manifest exactly once in a round of its slots.
  For a positive number of slots, the files checked by the slots \<open>0..num_slots\<close> are together the files
  of the manifest, each once, and the failures they report are together the failures of
  \<open>verify_installed_content\<close>; a slot above the range is the slot of its remainder, so any
  consecutive hours form a round.
\<close>

theorem incremental_round:
  assumes "0 < num_slots"
  shows "mset (concat (map (\<lambda>s. case verify_incremental blake3 fs root manifest s num_slots of
          None \<Rightarrow> [] | Some r \<Rightarrow> ir_checked r) [0..<num_slots])) = mset (map fst (cm_files manifest))
    \<and> mset (concat (map (\<lambda>s. case verify_incremental blake3 fs root manifest s num_slots of
          None \<Rightarrow> [] | Some r \<Rightarrow> ir_failures r) [0..<num_slots])) = mset (verify_installed_content blake3 fs root manifest)
    \<and> verify_incremental blake3 fs root manifest slot num_slots = verify_incremental blake3 fs root manifest (slot mod num_slots) num_slots"
  using mset_slots [OF assms, of "\<lambda>_. True" manifest] mset_slots [OF assms, of "\<lambda>e. \<not> file_ok blake3 fs root e" manifest]
  unfolding verify_incremental_slot [OF assms] verify_installed_content_def
  by (simp add: slot_entries_mod)

theorem incremental_round_witness:
  "(let m = \<lparr>cm_version = 2, cm_game = [], cm_content_version = [], cm_files =
        [([97], \<lparr>fd_blake3 = [48, 49], fd_size = 1\<rparr>), ([98], \<lparr>fd_blake3 = [48, 50], fd_size = 1\<rparr>), ([99], \<lparr>fd_blake3 = [], fd_size = 1\<rparr>)]\<rparr>;
        fs = Mapping.of_alist [([114, 47, 97], [1]), ([114, 47, 98], [3])]
    in (0::nat) < 2 \<and> map_option ir_checked (verify_incremental (\<lambda>x. x) fs [114] m 0 2) = Some [[97], [99]]
      \<and> map_option ir_failures (verify_incremental (\<lambda>x. x) fs [114] m 1 2) = Some [[98]]
      \<and> verify_installed_content (\<lambda>x. x) fs [114] m = [[98], [99]]
      \<and> verify_incremental (\<lambda>x. x) fs [114] m 3 2 = verify_incremental (\<lambda>x. x) fs [114] m 1 2)"
  using incremental_round [of 2 "\<lambda>x. x" _ _ _ 3]
  by (simp add: Let_def verify_incremental_def verify_installed_content_def file_ok_def hash_file_def fs_read_def path_join_def
      read_chunks.simps lookup_of_alist hex_text_def hex_digit_byte_def ok_or_def)

section \<open>Manifests of installed content\<close>

lemma concat_read_chunks: "0 < n \<Longrightarrow> concat (read_chunks n content) = content"
proof (induction n content rule: read_chunks.induct)
  case (1 n content)
  then show ?case
    by (subst read_chunks.simps) simp
qed

lemma hash_file_content: "hash_file blake3 fs p = and_then (fs_read fs p) (\<lambda>c. Inr (hex_text (blake3 c)))"
  by (simp add: hash_file_def concat_read_chunks)

lemma collect_digests_sequential:
  "collect_digests (map (digest_task blake3 fs) paths) files = digest_files blake3 fs paths files"
  by (induction paths arbitrary: files) (simp_all add: digest_task_def and_then_def split: sum.splits)

lemma map_filter_if: "List.map_filter (\<lambda>e. if Q e then None else Some (g e)) xs = map g (filter (\<lambda>e. \<not> Q e) xs)"
  by (induction xs) (simp_all add: List.map_filter_simps)

lemma parallel_sequential:
  "verify_installed_content_parallel = verify_installed_content"
  "digest_files_parallel blake3 fs paths = digest_files blake3 fs paths []"
  by (intro ext, simp add: verify_installed_content_parallel_def verify_installed_content_def map_filter_if)
    (simp add: digest_files_parallel_def collect_digests_sequential)

lemma scratch_hash_file: "hash_file = blake3_file"
  by (simp add: fun_eq_iff hash_file_def blake3_file_def)

lemma hex_digit_byte_inj:
  assumes "hex_digit_byte v = hex_digit_byte w" "v < 16" "w < 16"
  shows "v = w"
proof -
  have n: "unat v < 16" "unat w < 16"
    using assms(2,3) by (simp_all add: word_less_nat_alt)
  have "unat (hex_digit_byte u) = (if unat u < 10 then 48 + unat u else 87 + unat u)" if "unat u < 16" for u
    using that by (simp add: hex_digit_byte_def word_less_nat_alt unat_word_ariths)
  then have "unat v = unat w"
    using arg_cong [OF assms(1), of unat] n by (simp split: if_splits)
  then show ?thesis
    by (simp add: word_unat_eq_iff)
qed

lemma hex_text_inj: "hex_text a = hex_text b \<longleftrightarrow> a = b"
proof (induction a arbitrary: b)
  case Nil
  then show ?case
    by (cases b) (simp_all add: hex_text_def)
next
  case (Cons x a)
  have low: "drop_bit 4 y < 16" "y AND 15 < 16" for y :: u8
  proof -
    show "drop_bit 4 y < 16"
    proof -
      have "unat y < 2 ^ LENGTH(8)"
        by (rule unsigned_less)
      then show ?thesis
        by (simp add: word_less_nat_alt drop_bit_eq_div unat_div less_mult_imp_div_less)
    qed
    show "y AND 15 < 16"
      using word_and_le1 [of y 15] by (simp add: word_less_nat_alt word_le_nat_alt)
  qed
  show ?case
  proof (cases b)
    case (Cons y b')
    have "x = y" if "drop_bit 4 x = drop_bit 4 y" "x AND 15 = y AND 15"
      using that bits_ident [of 4 x] bits_ident [of 4 y] by (simp add: take_bit_eq_mask mask_eq_exp_minus_1)
    then show ?thesis
      using Cons.IH [of b'] hex_digit_byte_inj low by (auto simp: Cons hex_text_def)
  qed (simp add: hex_text_def)
qed

lemma keys_btree_insert: "fst ` set (btree_insert k v m) = insert k (fst ` set m)"
  by (induction k v m rule: btree_insert.induct) auto

lemma set_btree_insert: "e \<in> set (btree_insert k v m) \<Longrightarrow> e = (k, v) \<or> e \<in> set m"
  by (induction k v m rule: btree_insert.induct) (auto split: if_splits)

lemma sorted_btree_insert: "sorted_wrt (<) (map fst m) \<Longrightarrow> sorted_wrt (<) (map fst (btree_insert k v m))"
proof (induction k v m rule: btree_insert.induct)
  case (2 k v k' v' m)
  then show ?case
    by (auto dest!: set_btree_insert)
qed simp

text \<open>What \<open>generate_manifest\<close> records of a file, and the files it records.\<close>

definition digest_of :: "hash \<Rightarrow> bytes \<Rightarrow> file_digest" where
  "digest_of blake3 c = \<lparr>fd_blake3 = hex_text (blake3 c), fd_size = word_of_nat (length c)\<rparr>"

definition describes :: "hash \<Rightarrow> disk \<Rightarrow> path \<Rightarrow> bytes \<times> file_digest \<Rightarrow> bool" where
  "describes blake3 fs root e \<longleftrightarrow> (\<exists>c. Mapping.lookup fs (path_join root (fst e)) = Some c \<and> snd e = digest_of blake3 c)"

lemma digest_files_exact:
  assumes "digest_files blake3 fs paths files = Inr files'" "sorted_wrt (<) (map fst files)"
    "\<forall>e\<in>set files. describes blake3 fs root e" "\<forall>f\<in>set paths. snd f = path_join root (fst f)"
  shows "sorted_wrt (<) (map fst files') \<and> (\<forall>e\<in>set files'. describes blake3 fs root e)
    \<and> fst ` set files' = fst ` set files \<union> fst ` set paths"
  using assms
proof (induction paths arbitrary: files)
  case (Cons f paths)
  then obtain c where c: "Mapping.lookup fs (path_join root (fst f)) = Some c"
    "digest_files blake3 fs paths (btree_insert (fst f) (digest_of blake3 c) files) = Inr files'"
    by (auto simp: hash_file_content fs_read_def digest_of_def ok_or_def and_then_Inr split: option.splits)
  have "\<forall>e\<in>set (btree_insert (fst f) (digest_of blake3 c) files). describes blake3 fs root e"
    using Cons.prems(3) c(1) by (auto dest!: set_btree_insert simp: describes_def)
  then show ?case
    using Cons.IH [OF c(2) sorted_btree_insert] Cons.prems by (auto simp: keys_btree_insert)
qed simp

lemma collect_paths_exact:
  assumes "collect_paths pkgs fs root ids = Inr paths"
  shows "(\<forall>f\<in>set paths. snd f = path_join root (fst f)) \<and> fst ` set paths = {f. Mapping.lookup fs (path_join root f) \<noteq> None \<and>
    (\<exists>i\<in>set ids. \<exists>pkg. find (\<lambda>p. cp_id p = i) pkgs = Some pkg \<and> f \<in> set (cp_test_files pkg))}"
  using assms
proof (induction pkgs fs root ids arbitrary: paths rule: collect_paths.induct)
  case (2 pkgs fs root i ids)
  from "2.prems" obtain pkg rest where p: "find (\<lambda>p. cp_id p = i) pkgs = Some pkg" "collect_paths pkgs fs root ids = Inr rest"
    "paths = map (\<lambda>f. (f, path_join root f)) (filter (\<lambda>f. Mapping.lookup fs (path_join root f) \<noteq> None) (cp_test_files pkg)) @ rest"
    by (auto simp: ok_or_def and_then_Inr split: option.splits)
  then show ?case
    using "2.IH" [OF _ p(2)] by (auto simp: ok_or_def image_Un image_image)
qed simp

text \<open>
  A generated manifest detects exactly the files that changed. When \<open>generate_manifest\<close> succeeds,
  the manifest lists, in ascending order and each once, the test files of the given packages that
  exist under the content root; and \<open>verify_installed_content\<close> against any later file system reports
  exactly those of them that are gone or whose content no longer has the same BLAKE3 hash, in the
  order of the manifest. The hexadecimal text in between loses nothing.
\<close>

theorem manifest_detects_changes:
  assumes "generate_manifest blake3 pkgs fs root game cv ids = Inr m"
  shows "sorted_wrt (<) (map fst (cm_files m))
    \<and> fst ` set (cm_files m) = {f. Mapping.lookup fs (path_join root f) \<noteq> None \<and>
        (\<exists>i\<in>set ids. \<exists>pkg. find (\<lambda>p. cp_id p = i) pkgs = Some pkg \<and> f \<in> set (cp_test_files pkg))}
    \<and> verify_installed_content blake3 fs' root m =
        filter (\<lambda>f. map_option blake3 (Mapping.lookup fs' (path_join root f)) \<noteq> map_option blake3 (Mapping.lookup fs (path_join root f)))
          (map fst (cm_files m))"
proof -
  obtain paths where p: "collect_paths pkgs fs root ids = Inr paths" "digest_files blake3 fs paths [] = Inr (cm_files m)"
    using assms by (auto simp: generate_manifest_def and_then_Inr)
  note paths = collect_paths_exact [OF p(1)]
  have files: "sorted_wrt (<) (map fst (cm_files m))" "\<forall>e\<in>set (cm_files m). describes blake3 fs root e"
    "fst ` set (cm_files m) = fst ` set paths"
    using digest_files_exact [OF p(2), of root] paths by auto
  have "file_ok blake3 fs' root e \<longleftrightarrow>
      map_option blake3 (Mapping.lookup fs' (path_join root (fst e))) = map_option blake3 (Mapping.lookup fs (path_join root (fst e)))"
    if "e \<in> set (cm_files m)" for e
    using files(2) that
    by (auto simp: describes_def file_ok_def hash_file_content fs_read_def ok_or_def digest_of_def hex_text_inj split: option.splits)
  then have "verify_installed_content blake3 fs' root m =
        filter (\<lambda>f. map_option blake3 (Mapping.lookup fs' (path_join root f)) \<noteq> map_option blake3 (Mapping.lookup fs (path_join root f)))
          (map fst (cm_files m))"
    by (simp add: verify_installed_content_def filter_map comp_def cong: filter_cong)
  then show ?thesis
    using files paths by simp
qed

definition sample_package :: content_package where
  "sample_package =
     \<lparr>cp_id = Package_RaMusic, cp_game = Game_RedAlert, cp_title = [], cp_required = False, cp_test_files = [[98], [97], [99]],
      cp_sources = [], cp_download = None\<rparr>"

theorem manifest_detects_changes_witness:
  "(let pkgs = [sample_package];
        fs = Mapping.of_alist [([114, 47, 97], [1]), ([114, 47, 98], [2])];
        fs' = Mapping.of_alist [([114, 47, 97], [1]), ([114, 47, 98], [3])]
    in case generate_manifest (\<lambda>x. x) pkgs fs [114] [] [] [Package_RaMusic] of
         Inl _ \<Rightarrow> False
       | Inr m \<Rightarrow> map fst (cm_files m) = [[97], [98]] \<and> verify_installed_content (\<lambda>x. x) fs' [114] m = [[98]])"
proof -
  let ?pkgs = "[sample_package]"
  let ?fs = "Mapping.of_alist [([114, 47, 97], [1]), ([114, 47, 98], [2])] :: disk"
  let ?fs' = "Mapping.of_alist [([114, 47, 97], [1]), ([114, 47, 98], [3])] :: disk"
  let ?m = "\<lparr>cm_version = 2, cm_game = [], cm_content_version = [],
      cm_files = [([97], digest_of (\<lambda>x. x) [1]), ([98], digest_of (\<lambda>x. x) [2])]\<rparr>"
  have m: "generate_manifest (\<lambda>x. x) ?pkgs ?fs [114] [] [] [Package_RaMusic] = Inr ?m"
    by (simp add: generate_manifest_def CONTENT_MANIFEST_VERSION_def hash_file_content fs_read_def path_join_def lookup_of_alist
        ok_or_def digest_of_def sample_package_def)
  show ?thesis
    using m manifest_detects_changes [OF m, of ?fs'] by (simp add: Let_def path_join_def lookup_of_alist)
qed

end
