(* ===== verification/Install.thy ===== *)
theory Install
  imports Packages Sources Recipes Verify
begin

text \<open>
  What the tables of the installer and its executor amount to together. The lookups of
  \<open>src/query.rs\<close> and \<open>src/source/mod.rs\<close> over the tables, the files that a recipe leaves behind, and
  the agreement of recipes, packages and sources. The environment variables, platform directories and
  tracker list of \<open>query.rs\<close> and the probes of the platforms are not modelled.
\<close>

section \<open>Lookups\<close>

definition package :: "package_id \<Rightarrow> content_package option" where
  "package i = find (\<lambda>p. cp_id p = i) ALL_PACKAGES"

definition source_of :: "source_id \<Rightarrow> content_source option" where
  "source_of i = find (\<lambda>s. cs_id s = i) ALL_SOURCES"

definition recipe :: "source_id \<Rightarrow> package_id \<Rightarrow> install_recipe option" where
  "recipe s p = find (\<lambda>r. rc_source r = s \<and> rc_package r = p) ALL_RECIPES"

definition recipes_for_source :: "source_id \<Rightarrow> install_recipe list" where
  "recipes_for_source s = filter (\<lambda>r. rc_source r = s) ALL_RECIPES"

definition packages_for_game :: "game_id \<Rightarrow> content_package list" where
  "packages_for_game game = filter (\<lambda>p. cp_game p = game) ALL_PACKAGES"

definition files_exist :: "disk \<Rightarrow> path \<Rightarrow> content_package \<Rightarrow> bool" where
  "files_exist fs content_root p \<longleftrightarrow> list_all (\<lambda>f. Mapping.lookup fs (path_join content_root f) \<noteq> None) (cp_test_files p)"

definition missing_packages :: "disk \<Rightarrow> path \<Rightarrow> game_id \<Rightarrow> content_package list" where
  "missing_packages fs content_root game = filter (\<lambda>p. cp_game p = game \<and> \<not> files_exist fs content_root p) ALL_PACKAGES"

definition missing_required_packages :: "disk \<Rightarrow> path \<Rightarrow> game_id \<Rightarrow> content_package list" where
  "missing_required_packages fs content_root game =
     filter (\<lambda>p. cp_game p = game \<and> cp_required p \<and> \<not> files_exist fs content_root p) ALL_PACKAGES"

definition is_content_complete :: "disk \<Rightarrow> path \<Rightarrow> game_id \<Rightarrow> bool" where
  "is_content_complete fs content_root game \<longleftrightarrow> missing_required_packages fs content_root game = []"

definition packages_for_source :: "source_id \<Rightarrow> package_id list" where
  "packages_for_source s = map cp_id (filter (\<lambda>p. s \<in> set (cp_sources p)) ALL_PACKAGES)"

record detected_source =
  ds_source_id :: source_id
  ds_path :: path
  ds_packages :: "package_id list"

definition identify_at_path :: "hash \<Rightarrow> disk \<Rightarrow> path \<Rightarrow> detected_source option" where
  "identify_at_path sha1 fs p =
     map_option (\<lambda>s. \<lparr>ds_source_id = s, ds_path = p, ds_packages = packages_for_source s\<rparr>)
       (identify_source sha1 ALL_SOURCES fs p)"

text \<open>The disc probe over the mount points that are directories: one source per mount point.\<close>

definition disc_probe :: "hash \<Rightarrow> disk \<Rightarrow> path list \<Rightarrow> detected_source list" where
  "disc_probe sha1 fs mount_points =
     concat (map (\<lambda>m. case find (source_matches sha1 fs m) (filter (\<lambda>s. cs_source_type s = Type_Disc) ALL_SOURCES) of
                   None \<Rightarrow> []
                 | Some s \<Rightarrow> [\<lparr>ds_source_id = cs_id s, ds_path = m, ds_packages = packages_for_source (cs_id s)\<rparr>]) mount_points)"

text \<open>The probes in their order; of several detections of a source the first one counts.\<close>

definition detect_all :: "detected_source list list \<Rightarrow> detected_source list" where
  "detect_all probes =
     fold (\<lambda>d results. if ds_source_id d \<in> ds_source_id ` set results then results else results @ [d]) (concat probes) []"

section \<open>The files a recipe leaves behind\<close>

fun targets_of :: "install_action \<Rightarrow> bytes list" where
  "targets_of (Copy files) = map fm_to files"
| "targets_of (ExtractMix _ es) = map fm_to es"
| "targets_of (ExtractIscab _ _ es) = map fm_to es"
| "targets_of (ExtractRaw es) = map re_to es"
| "targets_of (ExtractZip es) = map fm_to es"
| "targets_of (ExtractMixFromContent _ es) = map fm_to es"
| "targets_of (Delete _) = []"
| "targets_of (ExtractBig _ es) = map fm_to es"
| "targets_of (ExtractMeg _ es) = map fm_to es"
| "targets_of (ExtractBagIdx _ _ es) = map fm_to es"
| "targets_of (ExtractIso _ es) = map fm_to es"
| "targets_of (ExtractMixFromIso _ _ es) = map fm_to es"

fun left_behind :: "install_action list \<Rightarrow> bytes list \<Rightarrow> bytes list" where
  "left_behind [] files = files"
| "left_behind (Delete p # as) files = left_behind as (filter (\<lambda>f. f \<noteq> p) files)"
| "left_behind (a # as) files = left_behind as (files @ targets_of a)"

text \<open>A computation whose last event reports the file \<open>to\<close> of the content directory when it succeeds.\<close>

definition reports_target :: "environment \<Rightarrow> path \<Rightarrow> bytes \<Rightarrow> 'a exec \<Rightarrow> bool" where
  "reports_target env content to m \<longleftrightarrow>
     (\<forall>s k s'. m s = (Inr k, s') \<longrightarrow> (\<exists>p b. strict_join env content to = Inr p \<and> last (ex_events s') = FileWritten p b))"

text \<open>A computation whose events report all of some files when it succeeds.\<close>

definition reported :: "environment \<Rightarrow> path \<Rightarrow> bytes list \<Rightarrow> install_progress list \<Rightarrow> bool" where
  "reported env content tos es \<longleftrightarrow> (\<forall>to\<in>set tos. \<exists>p b. strict_join env content to = Inr p \<and> FileWritten p b \<in> set es)"

definition delivers :: "environment \<Rightarrow> path \<Rightarrow> bytes list \<Rightarrow> 'a exec \<Rightarrow> bool" where
  "delivers env content tos m \<longleftrightarrow>
     (\<forall>s k s'. m s = (Inr k, s') \<longrightarrow> (\<exists>es. ex_events s' = ex_events s @ es \<and> reported env content tos es))"

lemma exec_bind_Inr: "exec_bind m f s = (Inr k, s') \<longleftrightarrow> (\<exists>a s1. m s = (Inr a, s1) \<and> f a s1 = (Inr k, s'))"
  by (auto simp: exec_bind_def split: prod.splits sum.splits)

lemma reports_target_bind: "(\<And>a. reports_target env content to (f a)) \<Longrightarrow> reports_target env content to (exec_bind m f)"
  unfolding reports_target_def exec_bind_Inr by blast

lemma delivers_bind: "pure m \<Longrightarrow> (\<And>a. delivers env content tos (f a)) \<Longrightarrow> delivers env content tos (exec_bind m f)"
  unfolding delivers_def exec_bind_Inr by (metis pureD)

lemma delivers_fail: "delivers env content tos (fail_with e)"
  by (simp add: delivers_def fail_with_def)

lemma bounded_path_Inr [simp]: "bounded_path env content to = Inr p \<longleftrightarrow> strict_join env content to = Inr p"
  by (cases "strict_join env content to") (simp_all add: bounded_path_def)

lemma reports_target_tail:
  "reports_target env content to
     (exec_bind (lift_result (bounded_path env content to)) (\<lambda>dst. exec_bind (m dst) (\<lambda>_. exec_bind (on_progress (FileWritten dst b)) (\<lambda>_. ret k))))"
  by (auto simp: reports_target_def exec_bind_Inr lift_result_def on_progress_def ret_def)

lemma write_reported_target: "reports_target env content to (write_reported env content to data)"
  unfolding write_reported_def by (rule reports_target_tail)

lemma copy_target: "reports_target env content (fm_to m) (copy_mapping env source content m)"
  by (auto simp: copy_mapping_def reports_target_def exec_bind_Inr lift_result_def on_progress_def ret_def)

lemma raw_target: "reports_target env content (re_to entry) (raw_mapping env source content entry)"
  by (auto simp: raw_mapping_def reports_target_def exec_bind_Inr lift_result_def on_progress_def ret_def)

lemma unzip_target:
  "unzip_entry env content zip_path zip_rel name to s = (Inr (p, b), s') \<Longrightarrow> strict_join env content to = Inr p"
  by (auto simp: unzip_entry_def exec_bind_Inr lift_result_def ret_def fail_with_def split: option.splits)

lemma find_zip_target:
  "find_zip env source content seen parts to s = (Inr (Some (p, b)), s') \<Longrightarrow> strict_join env content to = Inr p"
  by (induction parts arbitrary: seen s)
    (auto simp: ret_def exec_bind_Inr Let_def lift_result_def file_exists_def split: if_splits dest: unzip_target)

lemma zip_target: "reports_target env content (fm_to m) (extract_zip_mapping env source content m)"
  unfolding extract_zip_mapping_def
  by (auto simp: reports_target_def exec_bind_Inr lift_result_def on_progress_def ret_def fail_with_def extract_zip_entry_def
      split: if_splits option.splits prod.splits) (rule find_zip_target)

context installer_environment
begin

lemma count_each_delivers:
  assumes "\<And>x. x \<in> set xs \<Longrightarrow> one_file env content (f x)" "\<And>x. x \<in> set xs \<Longrightarrow> reports_target env content (to x) (f x)"
  shows "delivers env content (map to xs) (count_each f xs c)"
  using assms
proof (induction xs arbitrary: c)
  case Nil
  then show ?case
    by (auto simp: delivers_def reported_def ret_def)
next
  case (Cons x xs)
  show ?case
    unfolding delivers_def
  proof (intro allI impI)
    fix s k s'
    assume "count_each f (x # xs) c s = (Inr k, s')"
    then obtain b s1 where x: "f x s = (Inr b, s1)" and rest: "count_each f xs (Suc (fst c), snd c + b) s1 = (Inr k, s')"
      by (auto simp: exec_bind_Inr)
    have "file_outcome env content s (Inr b) s1"
      using Cons.prems(1) [of x] x unfolding one_file_def by (metis fst_conv list.set_intros(1) snd_conv)
    then obtain q where q: "ex_events s1 = ex_events s @ [FileWritten q b]"
      by (auto simp: file_outcome_def)
    moreover obtain p where p: "strict_join env content (to x) = Inr p" "last (ex_events s1) = FileWritten p b"
      using Cons.prems(2) [of x] x q unfolding reports_target_def by fastforce
    moreover obtain es where "ex_events s' = ex_events s1 @ es" "reported env content (map to xs) es"
    proof -
      have "delivers env content (map to xs) (count_each f xs (Suc (fst c), snd c + b))"
        by (rule Cons.IH) (simp_all add: Cons.prems)
      then show ?thesis
        using rest that unfolding delivers_def by blast
    qed
    ultimately show "\<exists>es. ex_events s' = ex_events s @ es \<and> reported env content (map to (x # xs)) es"
      by (intro exI [of _ "FileWritten p b # es"]) (auto simp: reported_def)
  qed
qed

lemma mappings_deliver:
  "(\<And>name. pure (entry name)) \<Longrightarrow> delivers env content (map fm_to ms) (extract_mappings env content entry ms c)"
  unfolding extract_mappings_count
  by (intro count_each_delivers one_file_bind one_file_write reports_target_bind write_reported_target)

lemma archive_delivers:
  "delivers env content (map fm_to es) (extract_from_archive env content open_archive not_found missing p es)"
  unfolding extract_from_archive_def
  by (intro delivers_bind pure_intro) (auto intro!: delivers_fail delivers_bind pure_intro mappings_deliver)

lemma mix_in_iso_delivers: "delivers env content (map fm_to es) (extract_mix_from_iso env p content mix es name)"
  unfolding extract_mix_from_iso_def
  by (intro delivers_bind pure_intro) (auto intro!: delivers_fail delivers_bind pure_intro mappings_deliver)

lemma iscab_delivers: "delivers env content (map fm_to es) (extract_from_iscab env source content header volumes es)"
  unfolding extract_from_iscab_def by (intro delivers_bind pure_intro mappings_deliver)

lemma bag_delivers: "delivers env content (map fm_to es) (extract_from_bag_idx env source content idx bag es)"
  unfolding extract_from_bag_idx_def by (intro delivers_bind pure_intro mappings_deliver)

lemma run_action_delivers:
  "\<nexists>p. a = Delete p \<Longrightarrow> delivers env content (targets_of a) (run_action env source content a)"
  by (cases a)
    (simp_all add: run_action_def archive_formats archive_delivers mix_in_iso_delivers iscab_delivers bag_delivers
      extract_from_zip_def count_each_delivers one_file_copy one_file_raw one_file_zip copy_target raw_target zip_target
      delivers_bind pure_lift)

end

text \<open>A relative path without empty components, \<open>.\<close> and \<open>..\<close>.\<close>

definition plain_path :: "bytes \<Rightarrow> bool" where
  "plain_path p \<longleftrightarrow> list_all (\<lambda>c. c \<notin> {[], [46], [46, 46]}) (split_slash p)"

text \<open>
  The boundary of a directory without symbolic links: it accepts plain paths only if they are what
  \<open>Path::join\<close> makes of them. The roots are canonical, so they do not end in a separator.
\<close>

locale plain_directories = installer_environment +
  assumes join_plain: "plain_path sub \<Longrightarrow> strict_join env root sub = Inr p \<Longrightarrow> p = root @ 47 # sub"

definition present :: "path \<Rightarrow> exec_state \<Rightarrow> bytes \<Rightarrow> bool" where
  "present content s f \<longleftrightarrow> Mapping.lookup (ex_files s) (content @ 47 # f) \<noteq> None"

lemma present_events [simp]: "present content (s\<lparr>ex_events := e\<rparr>) f = present content s f"
  by (simp add: present_def)

lemma last_report_written: "FileWritten p b \<in> set es \<Longrightarrow> last_report es p \<noteq> None"
  by (induction es p rule: last_report.induct) (auto split: option.splits)

lemma accounted_present:
  assumes "accounted s s' es" "last_report es p \<noteq> None \<or> Mapping.lookup (ex_files s) p \<noteq> None"
  shows "Mapping.lookup (ex_files s') p \<noteq> None"
  using assms(1) [unfolded accounted_def, rule_format, of p] assms(2) by (auto split: option.splits)

context plain_directories
begin

lemma delete_leaves:
  assumes "run_action env source content (Delete p) s = (Inr k, s')" "plain_path p" "present content s f" "f \<noteq> p"
  shows "present content s' f"
proof -
  obtain t where t: "strict_join env content p = Inr t"
    using assms(1) by (auto simp: run_action_def exec_bind_Inr lift_result_def)
  then have "content @ 47 # f \<noteq> t"
    using join_plain [OF assms(2) t] assms(4) by simp
  then have "Mapping.lookup (snd (os_remove env t (ex_files s))) (content @ 47 # f) = Mapping.lookup (ex_files s) (content @ 47 # f)"
    by (rule remove_frame)
  then show ?thesis
    using assms(1,3) t
    by (auto simp: run_action_def exec_bind_Inr lift_result_def file_exists_def remove_file_def ret_def present_def
        split: if_splits prod.splits)
qed

lemma action_leaves:
  assumes run: "run_action env source content a s = (Inr k, s')" and a: "\<nexists>p. a = Delete p"
  shows "(\<forall>f\<in>set (targets_of a). plain_path f \<longrightarrow> present content s' f) \<and> (present content s f \<longrightarrow> present content s' f)"
proof -
  obtain es where es: "ex_events s' = ex_events s @ es" "accounted s s' es"
    using run_action_reports [of content a source] run a unfolding reports_def report_outcome_def
    by (metis fst_conv snd_conv)
  have "reported env content (targets_of a) es"
    using run_action_delivers [OF a, of content source] run es(1) unfolding delivers_def by fastforce
  then have "present content s' f" if "f \<in> set (targets_of a)" "plain_path f" for f
    using that join_plain [OF that(2)] accounted_present [OF es(2)] last_report_written
    unfolding reported_def present_def by metis
  moreover have "present content s f \<Longrightarrow> present content s' f"
    using accounted_present [OF es(2)] by (simp add: present_def)
  ultimately show ?thesis
    by blast
qed

lemma left_behind_Cons:
  "\<nexists>p. a = Delete p \<Longrightarrow> left_behind (a # as) files = left_behind as (files @ targets_of a)"
  by (cases a) simp_all

lemma run_actions_leave:
  assumes "run_actions env source content n i as c s = (Inr k, s')"
    and "\<forall>p. Delete p \<in> set as \<longrightarrow> plain_path p" and "\<forall>f\<in>set files. plain_path f \<longrightarrow> present content s f"
    and "f \<in> set (left_behind as files)" "plain_path f"
  shows "present content s' f"
  using assms
proof (induction as arbitrary: i c s files)
  case (Cons a as)
  let ?s = "s\<lparr>ex_events := ex_events s @ [ActionStarted i n (describe_action a)]\<rparr>"
  obtain w b s1 where run: "run_action env source content a ?s = (Inr (w, b), s1)"
    and rest: "run_actions env source content n (Suc i) as (fst c + w, snd c + b) s1 = (Inr k, s')"
    using Cons.prems(1) by (auto simp: exec_bind_Inr on_progress_def)
  show ?case
  proof (cases "\<exists>p. a = Delete p")
    case True
    then obtain p where p: "a = Delete p"
      by blast
    have "\<forall>g\<in>set (filter (\<lambda>g. g \<noteq> p) files). plain_path g \<longrightarrow> present content s1 g"
      using delete_leaves [OF run [unfolded p]] Cons.prems(2,3) by (auto simp: p)
    then show ?thesis
      using Cons.IH [OF rest, of "filter (\<lambda>g. g \<noteq> p) files"] Cons.prems by (simp add: p)
  next
    case False
    have "\<forall>g\<in>set (files @ targets_of a). plain_path g \<longrightarrow> present content s1 g"
      using action_leaves [OF run False] Cons.prems(3) by auto
    then show ?thesis
      using Cons.IH [OF rest, of "files @ targets_of a"] Cons.prems by (simp add: left_behind_Cons [OF False])
  qed
qed (simp add: ret_def)

lemma execute_recipe_leaves:
  assumes "execute_recipe env as source content s = (Inr (), s')"
    and "\<forall>p. Delete p \<in> set as \<longrightarrow> plain_path p" and "f \<in> set (left_behind as [])" "plain_path f"
  shows "present content s' f"
proof -
  obtain k s1 where "run_actions env source content (length as) 0 as (0, 0) s = (Inr k, s1)" "ex_files s' = ex_files s1"
    using assms(1) by (auto simp: execute_recipe_def exec_bind_Inr lift_result_def on_progress_def)
  with run_actions_leave [OF this(1) assms(2), of "[]" f] assms(3,4) show ?thesis
    by (simp add: present_def)
qed

end

interpretation plain_dirs: plain_directories plain_environment
  by unfold_locales (auto simp: plain_environment_def split: if_splits)

end
