(* ===== verification/Tables.thy ===== *)
theory Tables
  imports Install
begin

text \<open>
  The recipes, packages and sources of the installer agree with each other: what is checked here once
  for every row of the tables.
\<close>

section \<open>The tables agree\<close>

fun split_text :: "string \<Rightarrow> string list" where
  "split_text [] = [[]]"
| "split_text (c # cs) =
     (case split_text cs of
        [] \<Rightarrow> [[c]]
      | p # ps \<Rightarrow> if c = CHR ''/'' then [] # p # ps else (c # p) # ps)"

definition plain_text :: "string \<Rightarrow> bool" where
  "plain_text s \<longleftrightarrow> list_all (\<lambda>c. c \<notin> {[], ''.'', ''..''}) (split_text s)"

lemma split_slash_ascii: "split_slash (ascii s) = map ascii (split_text s)"
proof (induction s)
  case (Cons c s)
  have "ascii [c] = ascii ''/'' \<longleftrightarrow> c = CHR ''/''"
    by (simp only: ascii_inject) simp
  then have "of_char c = (47 :: u8) \<longleftrightarrow> c = CHR ''/''"
    by (simp add: ascii_def)
  moreover have "ascii (c # t) = of_char c # ascii t" for t
    by (simp add: ascii_def)
  moreover have "ascii [] = []"
    by (simp add: ascii_def)
  ultimately show ?case
    using Cons by (auto split: list.splits)
qed (simp add: ascii_def)

lemma plain_path_ascii: "plain_path (ascii s) \<longleftrightarrow> plain_text s"
proof -
  have "ascii c \<in> {[], [46], [46, 46]} \<longleftrightarrow> c \<in> {[], ''.'', ''..''}" for c
    using ascii_inject [of c "[]"] ascii_inject [of c "''.''"] ascii_inject [of c "''..''"]
    by (auto simp: ascii_def simp del: ascii_inject)
  then show ?thesis
    by (simp add: plain_path_def plain_text_def split_slash_ascii list_all_iff del: insert_iff)
qed

definition recipe_ok :: "install_recipe \<Rightarrow> bool" where
  "recipe_ok r \<longleftrightarrow>
     (case package (rc_package r) of
        None \<Rightarrow> False
      | Some p \<Rightarrow>
          rc_source r \<in> set (cp_sources p)
          \<and> left_behind (rc_actions r) [] = cp_test_files p
          \<and> list_all (\<lambda>a. case a of Delete d \<Rightarrow> plain_path d | _ \<Rightarrow> True) (rc_actions r))"

lemma package_lookups:
  "package Package_RaBase = Some package_ra_base"
  "package Package_RaAftermathBase = Some package_ra_aftermath_base"
  "package Package_RaCncDesert = Some package_ra_cnc_desert"
  "package Package_RaMusic = Some package_ra_music"
  "package Package_RaMoviesAllied = Some package_ra_movies_allied"
  "package Package_RaMoviesSoviet = Some package_ra_movies_soviet"
  "package Package_RaMusicCounterstrike = Some package_ra_music_counterstrike"
  "package Package_RaMusicAftermath = Some package_ra_music_aftermath"
  "package Package_TdBase = Some package_td_base"
  "package Package_TdCovertOps = Some package_td_covert_ops"
  "package Package_TdMusic = Some package_td_music"
  "package Package_TdMoviesGdi = Some package_td_movies_gdi"
  "package Package_TdMoviesNod = Some package_td_movies_nod"
  "package Package_Dune2Base = Some package_dune2_base"
  "package Package_Dune2000Base = Some package_dune2000_base"
  "package Package_TsBase = Some package_ts_base"
  "package Package_TsFirestorm = Some package_ts_firestorm"
  "package Package_TsMusic = Some package_ts_music"
  "package Package_TsMovies = Some package_ts_movies"
  "package Package_Ra2Base = Some package_ra2_base"
  "package Package_Ra2YurisRevenge = Some package_ra2_yuris_revenge"
  "package Package_Ra2Music = Some package_ra2_music"
  "package Package_Ra2Movies = Some package_ra2_movies"
  "package Package_GenBase = Some package_gen_base"
  "package Package_GenZeroHour = Some package_gen_zero_hour"
  by (simp_all add: package_def ALL_PACKAGES_def package_ids)

lemma test_files_plain: "list_all (\<lambda>p. list_all plain_path (cp_test_files p)) ALL_PACKAGES"
  by (simp add: ALL_PACKAGES_def package_defs plain_path_ascii plain_text_def)


text \<open>The targets of the tables of mappings are the files of the packages, in the same order.\<close>

lemma mapping_targets:
  "map fm_to BASE_DIRECT_COPY = cp_test_files package_ra_base"
  "map fm_to BASE_FROM_REDALERT_MIX = cp_test_files package_ra_base"
  "map fm_to AFTERMATH_EXPAND_COPY = cp_test_files package_ra_aftermath_base"
  "map fm_to CS_MUSIC_COPY = cp_test_files package_ra_music_counterstrike"
  "map fm_to AM_MUSIC_COPY = cp_test_files package_ra_music_aftermath"
  "map fm_to REMASTERED_BASE_COPY = cp_test_files package_ra_base"
  "map fm_to REMASTERED_AFTERMATH_COPY = cp_test_files package_ra_aftermath_base"
  "map fm_to REMASTERED_CS_MUSIC_COPY = cp_test_files package_ra_music_counterstrike"
  "map fm_to REMASTERED_AM_MUSIC_COPY = cp_test_files package_ra_music_aftermath"
  "map fm_to MOVIES_ALLIED_VQA_ENTRIES = cp_test_files package_ra_movies_allied"
  "map fm_to MOVIES_SOVIET_VQA_ENTRIES = cp_test_files package_ra_movies_soviet"
  "map fm_to RA2_BASE_COPY = cp_test_files package_ra2_base"
  "map fm_to RA2_YR_COPY = cp_test_files package_ra2_yuris_revenge"
  "map fm_to RA2_MUSIC_COPY = cp_test_files package_ra2_music"
  "map fm_to RA2_MOVIES_COPY = cp_test_files package_ra2_movies"
  "map fm_to RA2_DISC_BASE_COPY = cp_test_files package_ra2_base"
  "map fm_to RA2_DISC_YR_COPY = cp_test_files package_ra2_yuris_revenge"
  "map fm_to RA2_DISC_MOVIES_COPY = cp_test_files package_ra2_movies"
  "map fm_to GEN_BASE_COPY = cp_test_files package_gen_base"
  "map fm_to GEN_ZH_COPY = cp_test_files package_gen_zero_hour"
  "map fm_to TD_BASE_COPY = cp_test_files package_td_base"
  "map fm_to TD_REMASTERED_BASE_COPY = cp_test_files package_td_base"
  "map fm_to TD_COVERT_OPS_COPY = cp_test_files package_td_covert_ops"
  "map fm_to TD_MUSIC_COPY = cp_test_files package_td_music"
  "map fm_to TD_MOVIES_GDI_DISC_COPY = cp_test_files package_td_movies_gdi"
  "map fm_to TD_MOVIES_NOD_DISC_COPY = cp_test_files package_td_movies_nod"
  "map fm_to TD_MOVIES_GDI_STEAM_COPY = cp_test_files package_td_movies_gdi"
  "map fm_to TD_MOVIES_NOD_STEAM_COPY = cp_test_files package_td_movies_nod"
  "map fm_to TS_BASE_COPY = cp_test_files package_ts_base"
  "map fm_to TS_FIRESTORM_COPY = cp_test_files package_ts_firestorm"
  "map fm_to TS_MUSIC_COPY = cp_test_files package_ts_music"
  "map fm_to TS_MOVIES_COPY = cp_test_files package_ts_movies"
  "map fm_to DUNE2_BASE_COPY = cp_test_files package_dune2_base"
  "map fm_to DUNE2000_BASE_COPY = cp_test_files package_dune2000_base"
  by (simp_all add: mapping_defs package_defs)

lemma movies_filter:
  "filter (\<lambda>f. f \<noteq> ascii ''.tmp/movies1.mix'') (cp_test_files package_ra_movies_allied) = cp_test_files package_ra_movies_allied"
  "filter (\<lambda>f. f \<noteq> ascii ''.tmp/movies2.mix'') (cp_test_files package_ra_movies_soviet) = cp_test_files package_ra_movies_soviet"
  by (simp_all add: package_ra_movies_allied_def package_ra_movies_soviet_def)

lemma single_files:
  "cp_test_files package_ra_music = [ascii ''scores.mix'']"
  "cp_test_files package_ra_cnc_desert = [ascii ''cnc/desert.mix'']"
  by (simp_all add: package_defs)

lemma package_sources:
  "cp_sources package_ra_base = [Source_AlliedDisc, Source_SovietDisc, Source_TheFirstDecade, Source_SteamTuc, Source_OriginTuc,
      Source_SteamRemastered, Source_OriginRemastered]"
  "cp_sources package_ra_aftermath_base = [Source_AftermathDisc, Source_TheFirstDecade, Source_SteamTuc, Source_OriginTuc, Source_SteamRemastered,
      Source_OriginRemastered]"
  "cp_sources package_ra_cnc_desert = [Source_TheFirstDecade, Source_Cnc95, Source_SteamCnc, Source_OriginCnc, Source_SteamRemastered,
      Source_OriginRemastered]"
  "cp_sources package_ra_music = [Source_AlliedDisc, Source_SovietDisc, Source_TheFirstDecade, Source_SteamTuc, Source_OriginTuc,
      Source_SteamRemastered, Source_OriginRemastered]"
  "cp_sources package_ra_movies_allied = [Source_AlliedDisc, Source_TheFirstDecade, Source_SteamTuc, Source_OriginTuc, Source_SteamRemastered,
      Source_OriginRemastered]"
  "cp_sources package_ra_movies_soviet = [Source_SovietDisc, Source_TheFirstDecade, Source_SteamTuc, Source_OriginTuc, Source_SteamRemastered,
      Source_OriginRemastered]"
  "cp_sources package_ra_music_counterstrike = [Source_CounterstrikeDisc, Source_SteamTuc, Source_OriginTuc, Source_SteamRemastered,
      Source_OriginRemastered]"
  "cp_sources package_ra_music_aftermath = [Source_AftermathDisc, Source_SteamTuc, Source_OriginTuc, Source_SteamRemastered, Source_OriginRemastered]"
  "cp_sources package_td_base = [Source_TdGdiDisc, Source_TdNodDisc, Source_TdSteamCnc, Source_TdSteamRemastered, Source_TdOriginCnc]"
  "cp_sources package_td_covert_ops = [Source_TdCovertOpsDisc, Source_TdSteamCnc, Source_TdOriginCnc]"
  "cp_sources package_td_music = [Source_TdGdiDisc, Source_TdNodDisc, Source_TdSteamCnc, Source_TdOriginCnc]"
  "cp_sources package_td_movies_gdi = [Source_TdGdiDisc, Source_TdSteamCnc, Source_TdOriginCnc]"
  "cp_sources package_td_movies_nod = [Source_TdNodDisc, Source_TdSteamCnc, Source_TdOriginCnc]"
  "cp_sources package_dune2_base = [Source_Dune2Disc, Source_GogDune2]"
  "cp_sources package_dune2000_base = [Source_Dune2000Disc, Source_GogDune2000]"
  "cp_sources package_ts_base = [Source_TsDisc, Source_TsSteamTuc, Source_TsOriginTuc]"
  "cp_sources package_ts_firestorm = [Source_TsFirestormDisc, Source_TsSteamTuc, Source_TsOriginTuc]"
  "cp_sources package_ts_music = [Source_TsDisc, Source_TsSteamTuc, Source_TsOriginTuc]"
  "cp_sources package_ts_movies = [Source_TsDisc, Source_TsSteamTuc, Source_TsOriginTuc]"
  "cp_sources package_ra2_base = [Source_Ra2Disc, Source_Ra2TheFirstDecade, Source_Ra2SteamTuc, Source_Ra2OriginTuc]"
  "cp_sources package_ra2_yuris_revenge = [Source_Ra2YrDisc, Source_Ra2TheFirstDecade, Source_Ra2SteamTuc, Source_Ra2OriginTuc]"
  "cp_sources package_ra2_music = [Source_Ra2Disc, Source_Ra2TheFirstDecade, Source_Ra2SteamTuc, Source_Ra2OriginTuc]"
  "cp_sources package_ra2_movies = [Source_Ra2Disc, Source_Ra2TheFirstDecade, Source_Ra2SteamTuc, Source_Ra2OriginTuc]"
  "cp_sources package_gen_base = [Source_GenDisc, Source_GenSteamTuc, Source_GenOriginTuc]"
  "cp_sources package_gen_zero_hour = [Source_GenZhDisc]"
  by (simp_all add: package_defs)

lemmas recipe_checks =
  recipe_defs action_defs recipe_ok_def package_lookups mapping_targets movies_filter single_files package_sources plain_path_ascii plain_text_def

lemma ra_recipes_ok: "list_all recipe_ok RA_RECIPES"
  by (simp add: RA_RECIPES_def recipe_checks)

lemma ra2td_recipes_ok: "list_all recipe_ok RA2TD_RECIPES"
  by (simp add: RA2TD_RECIPES_def recipe_checks)

lemma ts_dune_recipes_ok: "list_all recipe_ok TS_DUNE_RECIPES"
  by (simp add: TS_DUNE_RECIPES_def recipe_checks)

lemma recipes_ok: "r \<in> set ALL_RECIPES \<Longrightarrow> recipe_ok r"
  using ra_recipes_ok ra2td_recipes_ok ts_dune_recipes_ok by (auto simp: ALL_RECIPES_def list_all_iff)

section \<open>Recipes complete packages\<close>

lemma recipe_Some: "recipe s p = Some r \<Longrightarrow> r \<in> set ALL_RECIPES \<and> rc_source r = s \<and> rc_package r = p"
  by (auto simp: recipe_def find_Some_iff)

lemma package_Some: "package i = Some p \<Longrightarrow> p \<in> set ALL_PACKAGES \<and> cp_id p = i"
  by (auto simp: package_def find_Some_iff)

lemma plain_path_join:
  assumes "plain_path f" "root \<noteq> []" "last root \<noteq> 47"
  shows "path_join root f = root @ 47 # f"
proof -
  have "split_slash g \<noteq> []" for g
    by (cases g) (auto split: list.splits)
  then have "hd f \<noteq> 47" if "f \<noteq> []"
    using that assms(1) by (cases f) (auto simp: plain_path_def split: list.splits)
  then show ?thesis
    using assms by (auto simp: path_join_def)
qed

text \<open>
  C34: a recipe that succeeds completes its package. Let a recipe of the tables be run from a source
  directory into a content directory (a canonical path), with a boundary that joins plain paths as
  \<open>Path::join\<close> does. When \<open>execute_recipe\<close> returns \<open>Ok\<close>, whatever the formats of the archives
  delivered, every test file of the recipe's package exists under the content root, so the package
  is no longer among the missing packages of its game, nor among the required ones.
\<close>

theorem recipe_completes_package:
  assumes "plain_directories env" "content \<noteq> []" "last content \<noteq> 47" "recipe src i = Some r"
    and "execute_recipe env (rc_actions r) root content s = (Inr (), s')"
  shows "\<exists>p. package i = Some p \<and> src \<in> set (cp_sources p) \<and> files_exist (ex_files s') content p
    \<and> p \<notin> set (missing_packages (ex_files s') content game) \<and> p \<notin> set (missing_required_packages (ex_files s') content game)"
proof -
  have r: "r \<in> set ALL_RECIPES" "rc_source r = src" "rc_package r = i"
    using recipe_Some [OF assms(4)] by simp_all
  then obtain p where p: "package i = Some p" "src \<in> set (cp_sources p)" "left_behind (rc_actions r) [] = cp_test_files p"
    "\<forall>d. Delete d \<in> set (rc_actions r) \<longrightarrow> plain_path d"
    using recipes_ok [OF r(1)] by (fastforce simp: recipe_ok_def list_all_iff split: option.splits)
  have "plain_path f \<and> present content s' f" if "f \<in> set (cp_test_files p)" for f
  proof -
    have "plain_path f"
      using test_files_plain package_Some [OF p(1)] that by (auto simp: list_all_iff)
    then show ?thesis
      using plain_directories.execute_recipe_leaves [OF assms(1,5) p(4)] p(3) that by simp
  qed
  then have "files_exist (ex_files s') content p"
    using plain_path_join [OF _ assms(2,3)] by (simp add: files_exist_def list_all_iff present_def)
  then show ?thesis
    using p(1,2) by (auto simp: missing_packages_def missing_required_packages_def)
qed

definition sample_disc :: exec_state where
  "sample_disc = \<lparr>ex_files = Mapping.update (ascii ''s/DESERT.MIX'') [1] Mapping.empty, ex_events = []\<rparr>"

theorem recipe_completes_package_witness:
  "\<exists>r. recipe Source_Cnc95 Package_RaCncDesert = Some r
     \<and> files_exist (ex_files (snd (execute_recipe plain_environment (rc_actions r) (ascii ''s'') (ascii ''t'') sample_disc))) (ascii ''t'')
         package_ra_cnc_desert"
proof -
  let ?r = "recipe_of Source_Cnc95 Package_RaCncDesert [Copy [mapping_of ''DESERT.MIX'' ''cnc/desert.mix'']]"
  have r: "recipe Source_Cnc95 Package_RaCncDesert = Some ?r"
    by (simp add: recipe_def ALL_RECIPES_def RA_RECIPES_def recipe_defs)
  obtain s' where run: "execute_recipe plain_environment (rc_actions ?r) (ascii ''s'') (ascii ''t'') sample_disc = (Inr (), s')"
    by (simp add: execute_recipe_def run_action_def copy_mapping_def exec_bind_def lift_result_def bounded_path_def
        plain_environment_def read_file_def fs_read_def write_file_def on_progress_def ret_def sample_disc_def
        lookup_update' Let_def ascii_def ok_or_def)
  have root: "ascii ''t'' \<noteq> []" "last (ascii ''t'') \<noteq> 47"
    by (simp_all add: ascii_def)
  show ?thesis
    using recipe_completes_package [OF plain_dirs.plain_directories_axioms root r run] r run
    by (simp add: package_lookups)
qed

section \<open>Sources and recipes\<close>

definition recipe_keys :: "(source_id \<times> package_id) list" where
  "recipe_keys = map (\<lambda>r. (rc_source r, rc_package r)) ALL_RECIPES"

lemma recipe_keys_list:
  "recipe_keys = map (\<lambda>r. (rc_source r, rc_package r)) RA_RECIPES @ map (\<lambda>r. (rc_source r, rc_package r)) RA2TD_RECIPES
     @ map (\<lambda>r. (rc_source r, rc_package r)) TS_DUNE_RECIPES"
  by (simp add: recipe_keys_def ALL_RECIPES_def)

lemmas key_lists = recipe_keys_list RA_RECIPES_def RA2TD_RECIPES_def TS_DUNE_RECIPES_def recipe_defs

lemma recipe_keys_distinct: "distinct recipe_keys"
  by (simp add: key_lists)

lemma sources_have_recipes: "list_all (\<lambda>p. list_all (\<lambda>s. (s, cp_id p) \<in> set recipe_keys) (cp_sources p)) ALL_PACKAGES"
  by (simp add: key_lists ALL_PACKAGES_def package_ids package_sources)

lemma package_in_table: "p \<in> set ALL_PACKAGES \<Longrightarrow> package (cp_id p) = Some p"
  by (auto simp: ALL_PACKAGES_def package_ids package_lookups)

lemma recipe_of_key:
  assumes "(s, i) \<in> set recipe_keys"
  obtains r where "recipe s i = Some r" "r \<in> set ALL_RECIPES" "rc_source r = s" "rc_package r = i"
proof -
  have "recipe s i \<noteq> None"
    using assms by (auto simp: recipe_keys_def recipe_def find_None_iff)
  then show thesis
    using that recipe_Some by blast
qed

lemma key_of_recipe: "r \<in> set ALL_RECIPES \<Longrightarrow> (rc_source r, rc_package r) \<in> set recipe_keys"
  by (auto simp: recipe_keys_def)

lemma recipe_unique:
  assumes "r \<in> set ALL_RECIPES"
  shows "recipe (rc_source r) (rc_package r) = Some r"
proof -
  obtain r' where "recipe (rc_source r) (rc_package r) = Some r'" "r' \<in> set ALL_RECIPES"
    "(rc_source r', rc_package r') = (rc_source r, rc_package r)"
    by (rule recipe_of_key [OF key_of_recipe [OF assms]]) auto
  moreover have "inj_on (\<lambda>r. (rc_source r, rc_package r)) (set ALL_RECIPES)"
    using recipe_keys_distinct by (simp add: recipe_keys_def distinct_map)
  ultimately show ?thesis
    using assms by (auto dest: inj_onD)
qed

text \<open>
  the tables agree. There is a recipe for a source and a package exactly if the package lists the
  source; every row of the recipe table is found by its key, so no recipe hides another; the packages
  offered for a detected source are exactly those it has recipes for; and what a recipe leaves in an
  empty content directory are exactly the test files of its package, in their order, with no temporary
  file among them.
\<close>

theorem tables_agree:
  "((\<exists>r. recipe s i = Some r) \<longleftrightarrow> (\<exists>p. package i = Some p \<and> s \<in> set (cp_sources p)))
    \<and> list_all (\<lambda>r. recipe (rc_source r) (rc_package r) = Some r) ALL_RECIPES
    \<and> set (packages_for_source s) = rc_package ` set (recipes_for_source s)
    \<and> list_all (\<lambda>r. map_option cp_test_files (package (rc_package r)) = Some (left_behind (rc_actions r) [])) ALL_RECIPES"
proof -
  have key: "(s, i) \<in> set recipe_keys \<longleftrightarrow> (\<exists>p. package i = Some p \<and> s \<in> set (cp_sources p))" for s i
  proof
    assume "(s, i) \<in> set recipe_keys"
    then obtain r where "r \<in> set ALL_RECIPES" "rc_source r = s" "rc_package r = i"
      by (rule recipe_of_key)
    then show "\<exists>p. package i = Some p \<and> s \<in> set (cp_sources p)"
      using recipes_ok by (fastforce simp: recipe_ok_def split: option.splits)
  next
    assume "\<exists>p. package i = Some p \<and> s \<in> set (cp_sources p)"
    then show "(s, i) \<in> set recipe_keys"
      using sources_have_recipes package_Some by (fastforce simp: list_all_iff)
  qed
  have "(\<exists>r. recipe s i = Some r) \<longleftrightarrow> (s, i) \<in> set recipe_keys"
  proof
    assume "\<exists>r. recipe s i = Some r"
    then obtain r where "r \<in> set ALL_RECIPES" "rc_source r = s" "rc_package r = i"
      using recipe_Some by blast
    then show "(s, i) \<in> set recipe_keys"
      using key_of_recipe by blast
  next
    assume "(s, i) \<in> set recipe_keys"
    then show "\<exists>r. recipe s i = Some r"
      by (rule recipe_of_key) blast
  qed
  moreover have "list_all (\<lambda>r. recipe (rc_source r) (rc_package r) = Some r) ALL_RECIPES"
    by (simp add: list_all_iff recipe_unique)
  moreover have "set (packages_for_source s) = rc_package ` set (recipes_for_source s)"
  proof -
    have "i \<in> set (packages_for_source s) \<longleftrightarrow> (s, i) \<in> set recipe_keys" for i
    proof -
      have "i \<in> set (packages_for_source s) \<longleftrightarrow> (\<exists>p. p \<in> set ALL_PACKAGES \<and> cp_id p = i \<and> s \<in> set (cp_sources p))"
        by (auto simp: packages_for_source_def)
      also have "\<dots> \<longleftrightarrow> (\<exists>p. package i = Some p \<and> s \<in> set (cp_sources p))"
        by (metis package_in_table package_Some)
      finally show ?thesis
        by (simp add: key)
    qed
    moreover have "i \<in> rc_package ` set (recipes_for_source s) \<longleftrightarrow> (s, i) \<in> set recipe_keys" for i
      by (auto simp: recipes_for_source_def recipe_keys_def)
    ultimately show ?thesis
      by blast
  qed
  moreover have "list_all (\<lambda>r. map_option cp_test_files (package (rc_package r)) = Some (left_behind (rc_actions r) [])) ALL_RECIPES"
    using recipes_ok by (fastforce simp: list_all_iff recipe_ok_def split: option.splits)
  ultimately show ?thesis
    using key by blast
qed

section \<open>Identification of sources\<close>

text \<open>The sources all of whose checks include those of an earlier source.\<close>

fun shadowed :: "content_source list \<Rightarrow> content_source list \<Rightarrow> source_id list" where
  "shadowed seen [] = []"
| "shadowed seen (s # ss) =
     (if list_ex (\<lambda>t. list_all (\<lambda>c. c \<in> set (cs_id_files s)) (cs_id_files t)) seen then [cs_id s] else [])
     @ shadowed (seen @ [s]) ss"

lemma find_not_shadowed:
  assumes "find P ss = Some s" "distinct (map cs_id (seen @ ss))" "list_all (\<lambda>t. \<not> P t) seen"
    and "\<And>s t. list_all (\<lambda>c. c \<in> set (cs_id_files s)) (cs_id_files t) \<Longrightarrow> P s \<Longrightarrow> P t"
  shows "cs_id s \<notin> set (shadowed seen ss)"
  using assms(1-3)
proof (induction ss arbitrary: seen)
  case (Cons x ss)
  show ?case
  proof (cases "P x")
    case True
    have "cs_id y \<noteq> cs_id x" if "y \<in> set ss" for y
      using Cons.prems(2) that by (simp add: image_iff) metis
    moreover have "set (shadowed seen' ss) \<subseteq> cs_id ` set ss" for seen' ss
      by (induction seen' ss rule: shadowed.induct) auto
    ultimately have "cs_id x \<notin> set (shadowed (seen @ [x]) ss)"
      by fastforce
    then show ?thesis
      using True Cons.prems(1,3) assms(4) [of x] by (fastforce simp: list_ex_iff list_all_iff)
  next
    case False
    have "cs_id s \<notin> set (shadowed (seen @ [x]) ss)"
      using Cons.IH [of "seen @ [x]"] Cons.prems False by simp
    moreover have "cs_id s \<noteq> cs_id x"
    proof -
      have "s \<in> set ss"
        using Cons.prems(1) False by (auto simp: find_Some_iff)
      then show ?thesis
        using Cons.prems(2) by (simp add: image_iff) metis
    qed
    ultimately show ?thesis
      by simp
  qed
qed simp

lemma source_ids_distinct: "distinct (map cs_id ALL_SOURCES)"
  by (simp add: ALL_SOURCES_def source_ids)

lemma more_checks_match:
  "list_all (\<lambda>c. c \<in> set (cs_id_files s)) (cs_id_files t) \<Longrightarrow> source_matches sha1 fs root s \<Longrightarrow> source_matches sha1 fs root t"
  by (auto simp: source_matches_def list_all_iff)

lemma shadowed_sources:
  "shadowed [] ALL_SOURCES =
     [Source_OriginTuc, Source_OriginCnc, Source_OriginRemastered, Source_TdGdiDisc, Source_TdNodDisc, Source_TdSteamCnc,
      Source_TdOriginCnc, Source_GogDune2, Source_GogDune2000, Source_TsSteamTuc, Source_TsOriginTuc, Source_Ra2TheFirstDecade,
      Source_Ra2OriginTuc, Source_GenOriginTuc]"
  by (simp add: ALL_SOURCES_def source_defs)

text \<open>
  identification takes the first source in the order of the table, and fourteen sources can never
  be identified. \<open>identify_source\<close> over the table returns a source of the table whose checks all hold
  and before which no source of the table has checks that all hold; and, whatever the hash and the
  files, it never returns one of the fourteen sources whose checks include all checks of an earlier
  source: among them both discs of Tiberian Dawn, which are taken for the Steam edition.
\<close>

theorem identify_first_match:
  assumes "identify_source sha1 ALL_SOURCES fs root = Some i"
  shows "(\<exists>earlier s later. ALL_SOURCES = earlier @ s # later \<and> cs_id s = i \<and> source_matches sha1 fs root s
      \<and> list_all (\<lambda>t. \<not> source_matches sha1 fs root t) earlier)
    \<and> i \<notin> {Source_OriginTuc, Source_OriginCnc, Source_OriginRemastered, Source_TdGdiDisc, Source_TdNodDisc, Source_TdSteamCnc,
      Source_TdOriginCnc, Source_GogDune2, Source_GogDune2000, Source_TsSteamTuc, Source_TsOriginTuc, Source_Ra2TheFirstDecade,
      Source_Ra2OriginTuc, Source_GenOriginTuc}"
proof -
  obtain s where s: "find (source_matches sha1 fs root) ALL_SOURCES = Some s" "cs_id s = i"
    using assms by (auto simp: identify_source_def)
  have "i \<notin> set (shadowed [] ALL_SOURCES)"
    using find_not_shadowed [OF s(1), of "[]"] more_checks_match source_ids_distinct s(2) by (simp add: list_all_iff)
  moreover have "\<exists>earlier later. ALL_SOURCES = earlier @ s # later \<and> list_all (\<lambda>t. \<not> source_matches sha1 fs root t) earlier"
    using find_split [THEN iffD1, OF s(1)] by (auto simp: list_all_iff)
  moreover have "source_matches sha1 fs root s"
    using s(1) by (auto simp: find_Some_iff)
  ultimately show ?thesis
    using s(2) by (simp add: shadowed_sources) blast
qed

text \<open>A disc of Tiberian Dawn: the checks of \<open>TdGdiDisc\<close> hold, and the Steam edition is identified.\<close>

definition td_disc :: disk where
  "td_disc = Mapping.update (ascii ''r/CONQUER.MIX'') [1] Mapping.empty"

definition td_sha1 :: hash where
  "td_sha1 content = [0x71, 0x3B, 0x53, 0xFA, 0x4C, 0x18, 0x8C, 0xA9, 0x61, 0x9C, 0x6B, 0xBE, 0xAD, 0xBF, 0xC8, 0x65, 0x13, 0x70, 0x42, 0x66]"

lemma td_file_names:
  "path_join (ascii ''r'') (ascii f) = (if f \<noteq> [] \<and> hd f = CHR ''/'' then ascii f else ascii (''r/'' @ f))"
proof -
  have "ascii (c # t) = of_char c # ascii t" for c t
    by (simp add: ascii_def)
  moreover have "of_char c = (47 :: u8) \<longleftrightarrow> c = CHR ''/''" for c
    using ascii_inject [of "[c]" "''/''"] by (simp add: ascii_def del: ascii_inject)
  ultimately show ?thesis
    by (cases f) (auto simp: path_join_def ascii_def)
qed

lemma td_disc_identified:
  "identify_source td_sha1 ALL_SOURCES td_disc (ascii ''r'') = Some Source_SteamCnc"
  "source_matches td_sha1 td_disc (ascii ''r'') source_td_gdi_disc"
proof -
  have hashed: "hex_text (td_sha1 c) = ascii ''713b53fa4c188ca9619c6bbeadbfc86513704266''" for c
    by (simp add: td_sha1_def hex_text_def hex_digit_byte_def ascii_def)
  have checks: "verify_id_file td_sha1 td_disc (ascii ''r'') (id_file f h None) = Inr (f = ''CONQUER.MIX'' \<and> h = ''713b53fa4c188ca9619c6bbeadbfc86513704266'')"
    if "f \<noteq> []" "hd f \<noteq> CHR ''/''" for f h
    using that
    by (auto simp: verify_id_file_def id_file_def td_file_names td_disc_def lookup_update' sha1_file_def fs_read_def ok_or_def hashed Let_def)
  show "source_matches td_sha1 td_disc (ascii ''r'') source_td_gdi_disc"
    by (simp add: source_matches_def source_defs checks)
  have "verify_id_file td_sha1 td_disc (ascii ''r'') (id_file f h (Some n)) = Inr False" if "f = ''MAIN.MIX''" for f h n
    using that by (simp add: verify_id_file_def id_file_def td_file_names td_disc_def lookup_update' Let_def)
  then show "identify_source td_sha1 ALL_SOURCES td_disc (ascii ''r'') = Some Source_SteamCnc"
    by (simp add: identify_source_def ALL_SOURCES_def source_matches_def source_defs checks)
qed

theorem identify_first_match_witness:
  "identify_source td_sha1 ALL_SOURCES td_disc (ascii ''r'') = Some Source_SteamCnc
    \<and> Source_SteamCnc \<notin> {Source_TdGdiDisc, Source_TdNodDisc}
    \<and> (\<exists>earlier s later. ALL_SOURCES = earlier @ s # later \<and> cs_id s = Source_SteamCnc)"
  using identify_first_match [OF td_disc_identified(1)] td_disc_identified(1) by blast

end
