(* ===== verification/Mirror.thy ===== *)
theory Mirror
  imports Files
begin

text \<open>
  The URLs of the installer's downloader: \<open>src/downloader/mirror.rs\<close> and \<open>resolve_mirrors\<close> of
  \<open>src/downloader/mod.rs\<close>. A URL is its bytes in UTF-8. The guard against mirrors in private networks
  is read as it stands, text before the first slash and the first colon; below it is compared with
  the ranges of addresses it names.
\<close>

section \<open>Text\<close>

text \<open>\<open>str::split\<close> with an ASCII character.\<close>

fun split_on :: "u8 \<Rightarrow> bytes \<Rightarrow> bytes list" where
  "split_on sep [] = [[]]"
| "split_on sep (b # bs) =
     (if b = sep then [] # split_on sep bs
      else case split_on sep bs of [] \<Rightarrow> [[b]] | p # ps \<Rightarrow> (b # p) # ps)"

definition starts_with :: "bytes \<Rightarrow> bytes \<Rightarrow> bool" where
  "starts_with s pre \<longleftrightarrow> take (length pre) s = pre"

definition str_strip_prefix :: "bytes \<Rightarrow> bytes \<Rightarrow> bytes option" where
  "str_strip_prefix s pre = (if starts_with s pre then Some (drop (length pre) s) else None)"

text \<open>
  \<open>str::lines\<close>: a line ends in a newline, which a carriage return may precede; the last one may end
  with the text.
\<close>

definition strip_cr :: "bytes \<Rightarrow> bytes" where
  "strip_cr l = (if l \<noteq> [] \<and> last l = 13 then butlast l else l)"

definition lines_of :: "bytes \<Rightarrow> bytes list" where
  "lines_of s =
     (let ps = split_on 10 s in
      map strip_cr (butlast ps) @ (if last ps = [] then [] else [last ps]))"

text \<open>
  \<open>str::trim\<close> removes the characters with the property \<open>White_Space\<close>, here in UTF-8. In a
  well-formed text these sequences of bytes begin and end at characters.
\<close>

definition white_space :: "bytes list" where
  "white_space =
     map (\<lambda>b. [b]) [9, 10, 11, 12, 13, 32]
     @ [[194, 133], [194, 160], [225, 154, 128]]
     @ map (\<lambda>b. [226, 128, b]) [128, 129, 130, 131, 132, 133, 134, 135, 136, 137, 138, 168, 169, 175]
     @ [[226, 129, 159], [227, 128, 128]]"

function trim_start :: "bytes \<Rightarrow> bytes" where
  "trim_start s =
     (case find (starts_with s) white_space of
        None \<Rightarrow> s
      | Some w \<Rightarrow> trim_start (drop (length w) s))"
  by pat_completeness auto

lemma white_space_nonempty: "w \<in> set white_space \<Longrightarrow> w \<noteq> []"
  by (auto simp: white_space_def)

termination trim_start
proof (relation "measure length")
  fix s w
  assume "find (starts_with s) white_space = Some w"
  then have "w \<in> set white_space" "take (length w) s = w"
    by (auto simp: find_Some_iff starts_with_def)
  then show "(drop (length w) s, s) \<in> measure length"
    using white_space_nonempty [of w] by (cases s) auto
qed simp

declare trim_start.simps [simp del]

function trim_end :: "bytes \<Rightarrow> bytes" where
  "trim_end s =
     (case find (\<lambda>w. starts_with (rev s) (rev w)) white_space of
        None \<Rightarrow> s
      | Some w \<Rightarrow> trim_end (take (length s - length w) s))"
  by pat_completeness auto

termination trim_end
proof (relation "measure length")
  fix s w
  assume "find (\<lambda>w. starts_with (rev s) (rev w)) white_space = Some w"
  then have "w \<in> set white_space" "take (length w) (rev s) = rev w"
    by (auto simp: find_Some_iff starts_with_def)
  then show "(take (length s - length w) s, s) \<in> measure length"
    using white_space_nonempty [of w] by (cases s) auto
qed simp

declare trim_end.simps [simp del]

definition trim :: "bytes \<Rightarrow> bytes" where
  "trim s = trim_end (trim_start s)"

section \<open>The guard\<close>

definition private_172 :: "bytes \<Rightarrow> bool" where
  "private_172 host \<longleftrightarrow>
     starts_with host (ascii ''172.'')
     \<and> (case get_at (split_on 46 host) 1 of
           None \<Rightarrow> False
         | Some second_octet \<Rightarrow>
             (case parse_unsigned 255 second_octet of None \<Rightarrow> False | Some n \<Rightarrow> 16 \<le> n \<and> n \<le> 31))"

definition private_prefix :: "bytes \<Rightarrow> bool" where
  "private_prefix host \<longleftrightarrow>
     starts_with host (ascii ''10.'') \<or> starts_with host (ascii ''192.168.'') \<or> starts_with host (ascii ''169.254.'')"

text \<open>The host without its port; an address in brackets is what stands between them.\<close>

definition host_of :: "bytes \<Rightarrow> bytes" where
  "host_of host =
     (if starts_with host [91]
      then let bracket_end = (case position (\<lambda>b. b = 93) host of None \<Rightarrow> length host | Some i \<Rightarrow> i)
           in (case get_range host 1 bracket_end of None \<Rightarrow> host | Some a \<Rightarrow> a)
      else hd (split_on 58 host))"

definition mapped_ipv4 :: "bytes \<Rightarrow> bytes option" where
  "mapped_ipv4 host_lower =
     (case str_strip_prefix host_lower (ascii ''::ffff:'') of
        Some m \<Rightarrow> Some m
      | None \<Rightarrow> str_strip_prefix host_lower (ascii ''0:0:0:0:0:ffff:''))"

definition is_safe_host :: "bytes \<Rightarrow> bool" where
  "is_safe_host host =
     (let host_no_port = host_of host;
          host_lower = to_ascii_lowercase host_no_port
      in if host_no_port \<in> {ascii ''localhost'', ascii ''127.0.0.1'', ascii ''::1'', ascii ''0.0.0.0''} then False
         else if (case mapped_ipv4 host_lower of
                    None \<Rightarrow> False
                  | Some m \<Rightarrow> m = ascii ''127.0.0.1'' \<or> private_prefix m \<or> private_172 m) then False
         else if starts_with host_lower (ascii ''fe80'') then False
         else if starts_with host_lower (ascii ''fc'') \<or> starts_with host_lower (ascii ''fd'') then False
         else if private_prefix host_no_port then False
         else if private_172 host_no_port then False
         else if \<not> starts_with host [91] \<and> 46 \<notin> set host_no_port then False
         else True)"

definition is_safe_mirror_url :: "bytes \<Rightarrow> bool" where
  "is_safe_mirror_url url =
     (if \<not> starts_with url (ascii ''http://'') \<and> \<not> starts_with url (ascii ''https://'') then False
      else if 10 \<in> set url \<or> 13 \<in> set url then False
      else case (case str_strip_prefix url (ascii ''https://'') of
                   Some rest \<Rightarrow> Some rest
                 | None \<Rightarrow> str_strip_prefix url (ascii ''http://'')) of
             None \<Rightarrow> False
           | Some after_scheme \<Rightarrow> is_safe_host (hd (split_on 47 after_scheme)))"

section \<open>Lists of mirrors\<close>

datatype download_error =
  MirrorListFetch bytes string
| NoUrls
| NotFreeware string
| AllMirrorsFailed nat string
| Sha1Mismatch bytes bytes
| DownloadIo io_error
| DownloadZip string

definition parse_mirror_list_response :: "bytes \<Rightarrow> download_error + bytes list" where
  "parse_mirror_list_response body =
     (let mirrors = filter (\<lambda>l. l \<noteq> [] \<and> is_safe_mirror_url l) (map trim (lines_of body))
      in if mirrors = [] then Inl NoUrls else Inr mirrors)"

text \<open>The request and the text of its answer, or the message of the error, are those of \<open>ureq\<close>.\<close>

definition fetch_mirror_list :: "(bytes \<Rightarrow> string + bytes) \<Rightarrow> bytes \<Rightarrow> download_error + bytes list" where
  "fetch_mirror_list get_text url =
     (case get_text url of
        Inl e \<Rightarrow> Inl (MirrorListFetch url e)
      | Inr body \<Rightarrow> parse_mirror_list_response body)"

text \<open>The step of the loops that merge: a URL is added unless it is there.\<close>

definition push_new :: "bytes list \<Rightarrow> bytes \<Rightarrow> bytes list" where
  "push_new urls u = (if u \<in> set urls then urls else urls @ [u])"

definition resolve_download_urls :: "bytes list option \<Rightarrow> bytes list \<Rightarrow> bytes list" where
  "resolve_download_urls mirror_urls direct_urls =
     foldl push_new (case mirror_urls of None \<Rightarrow> [] | Some mirrors \<Rightarrow> mirrors) direct_urls"

definition resolve_mirrors :: "bytes list \<Rightarrow> bytes list \<Rightarrow> bytes list \<Rightarrow> bytes list" where
  "resolve_mirrors compiled_mirrors runtime_mirrors direct_urls =
     (let urls = foldl push_new compiled_mirrors runtime_mirrors
      in resolve_download_urls (if urls = [] then None else Some urls) direct_urls)"

section \<open>Splitting\<close>

lemma split_on_nonempty [simp]: "split_on sep s \<noteq> []"
  by (induction s) (auto split: list.split)

lemma hd_split_on: "hd (split_on sep s) = takeWhile (\<lambda>b. b \<noteq> sep) s"
proof (induction s)
  case (Cons b s)
  then show ?case
    using split_on_nonempty [of sep s] by (auto split: list.split)
qed simp

lemma split_on_append: "sep \<notin> set s \<Longrightarrow> split_on sep (s @ sep # r) = s # split_on sep r"
  by (induction s) auto

lemma split_on_free: "sep \<notin> set s \<Longrightarrow> split_on sep s = [s]"
  by (induction s) auto

lemma starts_with_append: "starts_with (pre @ s) pre"
  by (simp add: starts_with_def)

lemma starts_with_subset: "starts_with s pre \<Longrightarrow> set pre \<subseteq> set s"
  unfolding starts_with_def by (metis set_take_subset)

lemma starts_with_Nil [simp]: "starts_with s []"
  by (simp add: starts_with_def)

lemma starts_with_Cons [simp]: "starts_with (b # s) (c # pre) \<longleftrightarrow> b = c \<and> starts_with s pre"
  by (auto simp: starts_with_def)

lemma starts_with_Nil_Cons [simp]: "\<not> starts_with [] (c # pre)"
  by (simp add: starts_with_def)

lemma starts_with_part:
  "sep \<notin> set s \<Longrightarrow> sep \<notin> set t \<Longrightarrow> starts_with (s @ sep # r) (t @ sep # u) \<longleftrightarrow> s = t \<and> starts_with r u"
proof (induction s arbitrary: t)
  case Nil
  then show ?case
    by (cases t) auto
next
  case (Cons b s)
  then show ?case
    by (cases t) auto
qed

section \<open>Addresses in dotted decimal notation\<close>

definition octet :: "nat \<Rightarrow> u32 \<Rightarrow> nat" where
  "octet k addr = unat addr div 256 ^ k mod 256"

definition dotted_quad :: "u32 \<Rightarrow> bytes" where
  "dotted_quad addr =
     nat_to_string (octet 3 addr) @ 46 # nat_to_string (octet 2 addr) @ 46 #
     nat_to_string (octet 1 addr) @ 46 # nat_to_string (octet 0 addr)"

definition address :: "nat \<Rightarrow> nat \<Rightarrow> nat \<Rightarrow> nat \<Rightarrow> u32" where
  "address a b c d = word_of_nat (((a * 256 + b) * 256 + c) * 256 + d)"

definition in_network :: "u32 \<Rightarrow> u32 \<times> nat \<Rightarrow> bool" where
  "in_network addr net = (case net of (base, len) \<Rightarrow> drop_bit (32 - len) addr = drop_bit (32 - len) base)"

text \<open>What the guard refuses: three private networks, the link-local one, and two single addresses.\<close>

definition refused_networks :: "(u32 \<times> nat) list" where
  "refused_networks =
     [(address 10 0 0 0, 8), (address 172 16 0 0, 12), (address 192 168 0 0, 16), (address 169 254 0 0, 16),
      (address 127 0 0 1, 32), (address 0 0 0 0, 32)]"

lemma octet_le: "octet k addr \<le> 255"
  by (simp add: octet_def)

lemma divide_chain: "n = ((n div 256 ^ 3 * 256 + n div 256 ^ 2 mod 256) * 256 + n div 256 mod 256) * 256 + n mod 256" for n :: nat
proof -
  have "n div 256 ^ 3 = n div 256 div 256 div 256" "n div 256 ^ 2 = n div 256 div 256"
    by (simp_all add: div_mult2_eq [symmetric])
  then show ?thesis
    by (simp only: div_mult_mod_eq)
qed

lemma address_octets: "unat addr = ((octet 3 addr * 256 + octet 2 addr) * 256 + octet 1 addr) * 256 + octet 0 addr"
proof -
  have "unat addr < 2 ^ 32"
    using unat_less_exp [of addr] by simp
  then have "unat addr div 256 ^ 3 < 256"
    by (intro less_mult_imp_div_less) simp
  then have "unat addr div 256 ^ 3 mod 256 = unat addr div 256 ^ 3"
    by (rule mod_less)
  then show ?thesis
    using divide_chain [of "unat addr"] unfolding octet_def by (simp only: power_0 power_one_right div_by_1)
qed

lemma unat_address:
  assumes "a \<le> 255" "b \<le> 255" "c \<le> 255" "d \<le> 255"
  shows "unat (address a b c d) = ((a * 256 + b) * 256 + c) * 256 + d"
proof -
  have "((a * 256 + b) * 256 + c) * 256 + d < 2 ^ 32"
    using assms by simp
  then show ?thesis
    unfolding address_def by (subst unat_of_nat) (rule mod_less, simp)
qed

lemma in_network_unat:
  "in_network addr (base, len) \<longleftrightarrow> unat addr div 2 ^ (32 - len) = unat base div 2 ^ (32 - len)"
proof -
  have "unat (drop_bit k w) = unat w div 2 ^ k" for k and w :: u32
    by (simp only: unat_drop_bit_eq) (simp only: drop_bit_eq_div)
  then show ?thesis
    by (simp only: in_network_def prod.case unat_eq_iff [symmetric])
qed

lemma quad_div:
  fixes a b c d :: nat
  assumes "b \<le> 255" "c \<le> 255" "d \<le> 255"
  defines "n \<equiv> ((a * 256 + b) * 256 + c) * 256 + d"
  shows "n div 2 ^ 24 = a" and "n div 2 ^ 16 = a * 256 + b" and "n div 2 ^ 20 = a * 16 + b div 16"
proof -
  have 8: "n div 256 = (a * 256 + b) * 256 + c"
    using assms(3) by (simp add: n_def)
  then have "n div 256 div 256 = a * 256 + b"
    using assms(2) by simp
  then show 16: "n div 2 ^ 16 = a * 256 + b"
    by (simp add: div_mult2_eq [symmetric])
  have "n div 2 ^ 16 div 256 = a"
    unfolding 16 using assms(1) by simp
  then show "n div 2 ^ 24 = a"
    by (simp add: div_mult2_eq [symmetric])
  have "n div 2 ^ 16 div 16 = a * 16 + b div 16"
    unfolding 16 by presburger
  then show "n div 2 ^ 20 = a * 16 + b div 16"
    by (simp add: div_mult2_eq [symmetric])
qed

lemma digits_inject:
  fixes d d' k x y :: nat
  assumes "d < k" "d' < k"
  shows "x * k + d = y * k + d' \<longleftrightarrow> x = y \<and> d = d'"
proof
  assume "x * k + d = y * k + d'"
  then have "(x * k + d) div k = (y * k + d') div k" "(x * k + d) mod k = (y * k + d') mod k"
    by simp_all
  then show "x = y \<and> d = d'"
    using assms by simp
qed simp

lemma digit_256: "d \<le> 255 \<Longrightarrow> d' \<le> 255 \<Longrightarrow> x * 256 + d = y * 256 + d' \<longleftrightarrow> x = y \<and> d = d'" for d d' x y :: nat
  by (rule digits_inject) simp_all

lemma quad_inject:
  fixes a b c d a' b' c' d' :: nat
  assumes "b \<le> 255" "c \<le> 255" "d \<le> 255" "b' \<le> 255" "c' \<le> 255" "d' \<le> 255"
  shows "((a * 256 + b) * 256 + c) * 256 + d = ((a' * 256 + b') * 256 + c') * 256 + d' \<longleftrightarrow>
           a = a' \<and> b = b' \<and> c = c' \<and> d = d'"
  by (simp only: digit_256 assms conj_assoc)

lemma in_network_quad:
  fixes a b c d a' b' c' d' :: nat
  assumes "a \<le> 255" "b \<le> 255" "c \<le> 255" "d \<le> 255" "unat addr = ((a * 256 + b) * 256 + c) * 256 + d"
    and "a' \<le> 255" "b' \<le> 255" "c' \<le> 255" "d' \<le> 255"
  shows "in_network addr (address a' b' c' d', 8) \<longleftrightarrow> a = a'"
    and "in_network addr (address a' b' c' d', 12) \<longleftrightarrow> a = a' \<and> b div 16 = b' div 16"
    and "in_network addr (address a' b' c' d', 16) \<longleftrightarrow> a = a' \<and> b = b'"
    and "in_network addr (address a' b' c' d', 32) \<longleftrightarrow> a = a' \<and> b = b' \<and> c = c' \<and> d = d'"
proof -
  note divs = quad_div [OF assms(2-4)] quad_div [OF assms(7-9)]
  have base: "unat (address a' b' c' d') = ((a' * 256 + b') * 256 + c') * 256 + d'"
    by (rule unat_address) fact+
  have len: "32 - 8 = (24::nat)" "32 - 12 = (20::nat)" "32 - 16 = (16::nat)" "32 - 32 = (0::nat)"
    by simp_all
  show "in_network addr (address a' b' c' d', 8) \<longleftrightarrow> a = a'"
    by (simp only: in_network_unat assms(5) base len divs)
  show "in_network addr (address a' b' c' d', 12) \<longleftrightarrow> a = a' \<and> b div 16 = b' div 16"
  proof -
    have "b div 16 < 16" "b' div 16 < 16"
      using assms(2,7) by simp_all
    then have "a * 16 + b div 16 = a' * 16 + b' div 16 \<longleftrightarrow> a = a' \<and> b div 16 = b' div 16"
      by (rule digits_inject)
    then show ?thesis
      by (simp only: in_network_unat assms(5) base len divs)
  qed
  show "in_network addr (address a' b' c' d', 16) \<longleftrightarrow> a = a' \<and> b = b'"
    by (simp only: in_network_unat assms(5) base len divs digit_256 assms)
  show "in_network addr (address a' b' c' d', 32) \<longleftrightarrow> a = a' \<and> b = b' \<and> c = c' \<and> d = d'"
    by (simp only: in_network_unat assms(5) base len power_0 div_by_1 quad_inject assms)
qed

lemma nat_to_string_inject [simp]: "nat_to_string m = nat_to_string n \<longleftrightarrow> m = n"
  by (metis option.inject parse_digits_nat_to_string)

lemma nat_to_string_no_sep: "\<not> is_digit b \<Longrightarrow> b \<notin> set (nat_to_string n)"
  using nat_to_string_digits by blast

lemma not_digit [simp]: "\<not> is_digit 46" "\<not> is_digit 47" "\<not> is_digit 58" "\<not> is_digit 91" "\<not> is_digit 10" "\<not> is_digit 13"
  by (simp_all add: is_digit_def)

lemma dotted_quad_chars: "b \<in> set (dotted_quad addr) \<Longrightarrow> is_digit b \<or> b = 46"
  using nat_to_string_digits by (auto simp: dotted_quad_def)

lemma split_dotted_quad:
  "split_on 46 (dotted_quad addr) =
     [nat_to_string (octet 3 addr), nat_to_string (octet 2 addr), nat_to_string (octet 1 addr), nat_to_string (octet 0 addr)]"
  by (simp add: dotted_quad_def split_on_append split_on_free nat_to_string_no_sep)

lemma ascii_simps [simp]: "ascii [] = []" "ascii (c # s) = of_char c # ascii s"
  by (simp_all add: ascii_def)

section \<open>The guard on addresses\<close>

definition schemes :: "bytes list" where
  "schemes = [ascii ''http://'', ascii ''https://'']"

lemma guard_after_scheme:
  assumes "scheme \<in> set schemes" "10 \<notin> set rest" "13 \<notin> set rest"
  shows "is_safe_mirror_url (scheme @ rest) \<longleftrightarrow> is_safe_host (takeWhile (\<lambda>b. b \<noteq> 47) rest)"
proof -
  have found: "str_strip_prefix (pre @ s) pre = Some s" for pre s
    by (simp add: str_strip_prefix_def starts_with_append)
  have not_https: "str_strip_prefix (ascii ''http://'' @ rest) (ascii ''https://'') = None"
    by (simp add: str_strip_prefix_def)
  have free: "10 \<notin> set (ascii ''http://'' @ rest)" "13 \<notin> set (ascii ''http://'' @ rest)"
    "10 \<notin> set (ascii ''https://'' @ rest)" "13 \<notin> set (ascii ''https://'' @ rest)"
    using assms(2,3) by auto
  have "is_safe_mirror_url (ascii ''http://'' @ rest) \<longleftrightarrow> is_safe_host (takeWhile (\<lambda>b. b \<noteq> 47) rest)"
    by (simp only: is_safe_mirror_url_def hd_split_on starts_with_append free not_https found option.case simp_thms if_False)
  moreover have "is_safe_mirror_url (ascii ''https://'' @ rest) \<longleftrightarrow> is_safe_host (takeWhile (\<lambda>b. b \<noteq> 47) rest)"
    by (simp only: is_safe_mirror_url_def hd_split_on starts_with_append free found option.case simp_thms if_False)
  moreover have "scheme = ascii ''http://'' \<or> scheme = ascii ''https://''"
    using assms(1) by (simp only: schemes_def set_simps insert_iff empty_iff simp_thms)
  ultimately show ?thesis
    by metis
qed

lemma host_before_colon:
  assumes "58 \<notin> set u" "u \<noteq> []" "hd u \<noteq> 91"
  shows "host_of (u @ 58 # rest) = u" and "host_of u = u"
proof -
  have hd_eq: "hd (split_on 58 (u @ 58 # rest)) = u" "hd (split_on 58 u) = u"
    using assms(1) by (simp_all add: split_on_append split_on_free)
  have "\<not> starts_with (u @ 58 # rest) [91]" "\<not> starts_with u [91]"
    using assms(2,3) by (cases u; simp)+
  then show "host_of (u @ 58 # rest) = u" "host_of u = u"
    by (simp_all only: host_of_def if_False hd_eq)
qed

lemma starts_with_hd: "u \<noteq> [] \<Longrightarrow> starts_with (u @ r) [b] \<longleftrightarrow> hd u = b"
  by (cases u) auto

lemma safe_host_before_colon:
  assumes "58 \<notin> set u" "u \<noteq> []" "hd u \<noteq> 91"
  shows "is_safe_host (u @ 58 # rest) \<longleftrightarrow> is_safe_host u"
proof -
  have "\<not> starts_with (u @ 58 # rest) [91]" "\<not> starts_with u [91]"
    using starts_with_hd [OF assms(2), of "58 # rest" 91] starts_with_hd [OF assms(2), of "[]" 91] assms(3) by simp_all
  then show ?thesis
    by (simp only: is_safe_host_def host_before_colon [OF assms])
qed

lemma dotted_quad_hd: "dotted_quad addr \<noteq> [] \<and> is_digit (hd (dotted_quad addr))"
proof -
  obtain d ds where "nat_to_string (octet 3 addr) = d # ds" "is_digit d"
    using nat_to_string_Cons by blast
  then show ?thesis
    by (simp add: dotted_quad_def)
qed

lemma dotted_quad_lower: "to_ascii_lowercase (dotted_quad addr) = dotted_quad addr"
proof -
  have "ascii_lower b = b" if "b \<in> set (dotted_quad addr)" for b
    using dotted_quad_chars [OF that] by (auto simp: ascii_lower_def is_digit_def word_le_nat_alt)
  then show ?thesis
    by (simp add: to_ascii_lowercase_def map_idI)
qed

lemma dotted_quad_free:
  assumes "\<not> is_digit b" "b \<noteq> 46"
  shows "b \<notin> set (dotted_quad addr)"
  using dotted_quad_chars assms by blast

lemma all_less_4: "(\<forall>k<4. P k) \<longleftrightarrow> P 3 \<and> P 2 \<and> P 1 \<and> P (0::nat)"
  by (auto simp: numeral_eq_Suc less_Suc_eq)

lemma dotted_quad_inject: "dotted_quad addr = dotted_quad addr' \<longleftrightarrow> (\<forall>k<4. octet k addr = octet k addr')"
proof -
  have "dotted_quad addr = dotted_quad addr' \<longleftrightarrow> split_on 46 (dotted_quad addr) = split_on 46 (dotted_quad addr')"
  proof
    assume "split_on 46 (dotted_quad addr) = split_on 46 (dotted_quad addr')"
    then show "dotted_quad addr = dotted_quad addr'"
      unfolding split_dotted_quad by (simp add: dotted_quad_def)
  qed simp
  then show ?thesis
    unfolding split_dotted_quad all_less_4 by simp
qed

lemma octet_address:
  assumes "a \<le> 255" "b \<le> 255" "c \<le> 255" "d \<le> 255"
  shows "octet 3 (address a b c d) = a" "octet 2 (address a b c d) = b" "octet 1 (address a b c d) = c" "octet 0 (address a b c d) = d"
proof -
  have "((octet 3 x * 256 + octet 2 x) * 256 + octet 1 x) * 256 + octet 0 x = ((a * 256 + b) * 256 + c) * 256 + d"
    if "x = address a b c d" for x
  proof -
    have "unat x = ((a * 256 + b) * 256 + c) * 256 + d"
      unfolding that by (rule unat_address) fact+
    then show ?thesis
      by (simp only: address_octets [of x])
  qed
  then show "octet 3 (address a b c d) = a" "octet 2 (address a b c d) = b" "octet 1 (address a b c d) = c" "octet 0 (address a b c d) = d"
    unfolding quad_inject [OF octet_le octet_le octet_le assms(2-4)] by blast+
qed

lemma single_addresses:
  "ascii ''127.0.0.1'' = dotted_quad (address 127 0 0 1)" "ascii ''0.0.0.0'' = dotted_quad (address 0 0 0 0)"
  unfolding dotted_quad_def by (simp_all add: octet_address [unfolded One_nat_def] octet_address nat_to_string.simps)

lemma private_prefix_quad:
  "private_prefix (dotted_quad addr) \<longleftrightarrow>
     octet 3 addr = 10 \<or> octet 3 addr = 192 \<and> octet 2 addr = 168 \<or> octet 3 addr = 169 \<and> octet 2 addr = 254"
proof -
  have prefixes: "ascii ''10.'' = nat_to_string 10 @ 46 # []"
    "ascii ''192.168.'' = nat_to_string 192 @ 46 # nat_to_string 168 @ 46 # []"
    "ascii ''169.254.'' = nat_to_string 169 @ 46 # nat_to_string 254 @ 46 # []"
    by (simp_all add: nat_to_string.simps)
  show ?thesis
    unfolding private_prefix_def prefixes dotted_quad_def
    by (simp only: starts_with_part nat_to_string_no_sep not_digit not_False_eq_True starts_with_Nil nat_to_string_inject simp_thms)
qed

lemma private_172_quad: "private_172 (dotted_quad addr) \<longleftrightarrow> octet 3 addr = 172 \<and> 16 \<le> octet 2 addr \<and> octet 2 addr \<le> 31"
proof -
  have "ascii ''172.'' = nat_to_string 172 @ 46 # []"
    by (simp add: nat_to_string.simps)
  then have "starts_with (dotted_quad addr) (ascii ''172.'') \<longleftrightarrow> octet 3 addr = 172"
    unfolding dotted_quad_def
    by (simp only: starts_with_part nat_to_string_no_sep not_digit not_False_eq_True starts_with_Nil nat_to_string_inject simp_thms)
  moreover have "parse_unsigned 255 (nat_to_string (octet 2 addr)) = Some (octet 2 addr)"
    by (simp add: parse_unsigned_nat_to_string octet_le)
  ultimately show ?thesis
    by (simp add: private_172_def split_dotted_quad get_at_def)
qed

lemma safe_dotted_quad:
  "is_safe_host (dotted_quad addr) \<longleftrightarrow>
     \<not> (dotted_quad addr = ascii ''127.0.0.1'' \<or> dotted_quad addr = ascii ''0.0.0.0''
        \<or> private_prefix (dotted_quad addr) \<or> private_172 (dotted_quad addr))"
proof -
  let ?d = "dotted_quad addr"
  note hd = dotted_quad_hd [of addr]
  have free: "58 \<notin> set ?d" "91 \<notin> set ?d" "102 \<notin> set ?d" "108 \<notin> set ?d"
    by (rule dotted_quad_free; simp add: is_digit_def)+
  have host: "host_of ?d = ?d"
    using hd free by (intro host_before_colon(2)) (auto dest: hd_in_set)
  have names: "?d \<noteq> ascii ''localhost''" "?d \<noteq> ascii ''::1''"
    using free by auto
  have no: "\<not> starts_with ?d (c # pre)" if "c \<notin> set ?d" for c pre
    using that starts_with_subset by fastforce
  have "\<not> starts_with ?d (ascii ''0:0:0:0:0:ffff:'')"
  proof
    assume "starts_with ?d (ascii ''0:0:0:0:0:ffff:'')"
    then have "58 \<in> set ?d"
      using starts_with_subset by fastforce
    then show False
      using free by simp
  qed
  then have "mapped_ipv4 ?d = None"
    using free by (simp add: mapped_ipv4_def str_strip_prefix_def no)
  moreover have "\<not> starts_with ?d (ascii ''fe80'')" "\<not> starts_with ?d (ascii ''fc'')" "\<not> starts_with ?d (ascii ''fd'')"
    "\<not> starts_with ?d [91]"
    using free by (simp_all add: no)
  moreover have "46 \<in> set ?d"
    by (simp add: dotted_quad_def)
  ultimately show ?thesis
    using names by (simp only: is_safe_host_def host Let_def dotted_quad_lower option.case insert_iff empty_iff)
      (simp del: ascii_simps split: if_split)
qed

section \<open>Lists of URLs\<close>

lemma split_on_lines: "10 \<notin> set l \<Longrightarrow> lines_of (l @ 10 # s) = strip_cr l # lines_of s"
  by (simp add: lines_of_def split_on_append Let_def)

lemma lines_of_concat:
  assumes "\<forall>l\<in>set ls. 10 \<notin> set l \<and> 13 \<notin> set l" "eol = [10] \<or> eol = [13, 10]"
  shows "lines_of (concat (map (\<lambda>l. l @ eol) ls)) = ls"
  using assms(1)
proof (induction ls)
  case Nil
  then show ?case
    by (simp add: lines_of_def)
next
  case (Cons l ls)
  let ?rest = "concat (map (\<lambda>l. l @ eol) ls)"
  have free: "10 \<notin> set l" "10 \<notin> set (l @ [13])" "strip_cr l = l" "strip_cr (l @ [13]) = l"
    using Cons.prems last_in_set [of l] by (auto simp: strip_cr_def simp del: last_in_set)
  have "lines_of (l @ 10 # ?rest) = l # lines_of ?rest" "lines_of ((l @ [13]) @ 10 # ?rest) = l # lines_of ?rest"
    by (simp_all only: split_on_lines [OF free(1)] split_on_lines [OF free(2)] free)
  then show ?case
    using Cons assms(2) by auto
qed

lemma safe_url_one_line: "is_safe_mirror_url u \<Longrightarrow> u \<noteq> [] \<and> 10 \<notin> set u \<and> 13 \<notin> set u"
  by (auto simp: is_safe_mirror_url_def split: if_splits)

lemma foldl_push_new: "foldl push_new urls us = urls @ rev (remdups (rev (filter (\<lambda>u. u \<notin> set urls) us)))"
proof (induction us rule: rev_induct)
  case (snoc u us)
  then show ?case
    by (auto simp: push_new_def)
qed simp

lemma white_space_ends: "w \<in> set white_space \<Longrightarrow> hd w < 33 \<or> 126 < hd w" "w \<in> set white_space \<Longrightarrow> last w < 33 \<or> 126 < last w"
  by (auto simp: white_space_def)

lemma starts_with_same_hd: "starts_with s w \<Longrightarrow> w \<noteq> [] \<Longrightarrow> hd s = hd w"
  by (cases s; cases w) auto

lemma trim_plain:
  assumes "s \<noteq> []" "33 \<le> hd s" "hd s \<le> 126" "33 \<le> last s" "last s \<le> 126"
  shows "trim s = s"
proof -
  have "\<not> starts_with s w" "\<not> starts_with (rev s) (rev w)" if "w \<in> set white_space" for w
  proof -
    show "\<not> starts_with s w"
      using starts_with_same_hd [of s w] white_space_ends(1) [OF that] white_space_nonempty [OF that] assms(2,3)
      by (auto simp: word_le_nat_alt word_less_nat_alt)
    show "\<not> starts_with (rev s) (rev w)"
      using starts_with_same_hd [of "rev s" "rev w"] white_space_ends(2) [OF that] white_space_nonempty [OF that] assms(1,4,5)
      by (auto simp: hd_rev word_le_nat_alt word_less_nat_alt)
  qed
  then have "find (starts_with s) white_space = None" "find (\<lambda>w. starts_with (rev s) (rev w)) white_space = None"
    by (auto simp: find_None_iff)
  then show ?thesis
    by (simp add: trim_def trim_start.simps trim_end.simps)
qed

lemma trim_Nil [simp]: "trim [] = []"
proof -
  have "find (starts_with []) white_space = None" "find (\<lambda>w. starts_with (rev []) (rev w)) white_space = None"
    using white_space_nonempty by (auto simp: find_None_iff starts_with_def)
  then show ?thesis
    by (simp add: trim_def trim_start.simps trim_end.simps)
qed

section \<open>Properties\<close>

text \<open>
  for a mirror that is an IPv4 address in dotted decimal notation the guard against private
  networks is exact. With either scheme, and with any port or path behind it, the URL is accepted
  unless the address lies in 10.0.0.0/8, 172.16.0.0/12, 192.168.0.0/16 or 169.254.0.0/16, or is
  127.0.0.1 or 0.0.0.0. The rest of the loopback network 127.0.0.0/8 is thus accepted.
\<close>

theorem mirror_guard_ipv4:
  assumes "scheme \<in> set schemes" "tail = [] \<or> hd tail \<in> {47, 58}" "10 \<notin> set tail" "13 \<notin> set tail"
  shows "is_safe_mirror_url (scheme @ dotted_quad addr @ tail) \<longleftrightarrow> \<not> list_ex (in_network addr) refused_networks"
proof -
  let ?d = "dotted_quad addr"
  note hd = dotted_quad_hd [of addr]
  have free: "58 \<notin> set ?d" "91 \<notin> set ?d" "47 \<notin> set ?d" "10 \<notin> set ?d" "13 \<notin> set ?d"
    by (rule dotted_quad_free; simp add: is_digit_def)+
  have "takeWhile (\<lambda>b. b \<noteq> 47) (?d @ tail) = ?d \<or> (\<exists>r. takeWhile (\<lambda>b. b \<noteq> 47) (?d @ tail) = ?d @ 58 # r)"
    using assms(2) free(3) by (cases tail) (auto simp: takeWhile_append)
  moreover have "is_safe_host (?d @ 58 # r) \<longleftrightarrow> is_safe_host ?d" for r
    using hd free by (intro safe_host_before_colon) (auto dest: hd_in_set)
  ultimately have "is_safe_mirror_url (scheme @ ?d @ tail) \<longleftrightarrow> is_safe_host ?d"
    using guard_after_scheme [OF assms(1), of "?d @ tail"] assms(3,4) free by auto
  also have "\<dots> \<longleftrightarrow> \<not> list_ex (in_network addr) refused_networks"
  proof -
    have "octet 2 addr div 16 = 1 \<longleftrightarrow> 16 \<le> octet 2 addr \<and> octet 2 addr \<le> 31"
      by presburger
    moreover note quad = in_network_quad [OF octet_le octet_le octet_le octet_le address_octets]
    ultimately have nets: "in_network addr (address 10 0 0 0, 8) \<longleftrightarrow> octet 3 addr = 10"
      "in_network addr (address 172 16 0 0, 12) \<longleftrightarrow> octet 3 addr = 172 \<and> 16 \<le> octet 2 addr \<and> octet 2 addr \<le> 31"
      "in_network addr (address 192 168 0 0, 16) \<longleftrightarrow> octet 3 addr = 192 \<and> octet 2 addr = 168"
      "in_network addr (address 169 254 0 0, 16) \<longleftrightarrow> octet 3 addr = 169 \<and> octet 2 addr = 254"
      "in_network addr (address 127 0 0 1, 32) \<longleftrightarrow> dotted_quad addr = ascii ''127.0.0.1''"
      "in_network addr (address 0 0 0 0, 32) \<longleftrightarrow> dotted_quad addr = ascii ''0.0.0.0''"
      unfolding single_addresses dotted_quad_inject all_less_4 by (simp_all add: quad octet_address octet_address [unfolded One_nat_def])
    show ?thesis
      unfolding safe_dotted_quad private_prefix_quad private_172_quad refused_networks_def by (simp add: nets nets [unfolded One_nat_def] del: ascii_simps) blast
  qed
  finally show ?thesis .
qed

theorem mirror_guard_ipv4_witness:
  "is_safe_mirror_url (ascii ''https://'' @ dotted_quad (address 93 184 216 34) @ ascii '':8080/ra.zip'')"
proof -
  have "is_safe_mirror_url (ascii ''https://'' @ dotted_quad (address 93 184 216 34) @ ascii '':8080/ra.zip'') \<longleftrightarrow>
    \<not> list_ex (in_network (address 93 184 216 34)) refused_networks"
    by (rule mirror_guard_ipv4) (simp_all add: schemes_def)
  then show ?thesis
    by (simp add: refused_networks_def in_network_quad [OF _ _ _ _ unat_address])
qed

text \<open>
  the guard reads the host up to the first colon, so it does not see a host behind credentials.
  Whatever host and path follow a user name, a password and an at sign, the URL is accepted exactly
  if the user name alone would be as a host: \<open>http://a.b:c@127.0.0.1/\<close> is accepted.
\<close>

theorem mirror_guard_stops_at_colon:
  assumes "scheme \<in> set schemes" "user \<noteq> []" "hd user \<noteq> 91" "47 \<notin> set user" "58 \<notin> set user" "10 \<notin> set user" "13 \<notin> set user"
    and "10 \<notin> set (password @ host @ path)" "13 \<notin> set (password @ host @ path)"
  shows "is_safe_mirror_url (scheme @ user @ 58 # password @ 64 # host @ path) \<longleftrightarrow> is_safe_mirror_url (scheme @ user)"
proof -
  obtain r where r: "takeWhile (\<lambda>b. b \<noteq> 47) (user @ 58 # password @ 64 # host @ path) = user @ 58 # r"
  proof
    show "takeWhile (\<lambda>b. b \<noteq> 47) (user @ 58 # password @ 64 # host @ path) =
        user @ 58 # takeWhile (\<lambda>b. b \<noteq> 47) (password @ 64 # host @ path)"
      using assms(4) by (subst takeWhile_append2) auto
  qed
  have user: "takeWhile (\<lambda>b. b \<noteq> 47) user = user"
    using assms(4) by (auto simp: takeWhile_eq_all_conv)
  have "is_safe_mirror_url (scheme @ user @ 58 # password @ 64 # host @ path) \<longleftrightarrow> is_safe_host (user @ 58 # r)"
    unfolding r [symmetric] using assms by (intro guard_after_scheme) auto
  then show ?thesis
    using guard_after_scheme [OF assms(1,6,7)] safe_host_before_colon [OF assms(5,2,3), of r] by (simp only: user)
qed

theorem mirror_guard_stops_at_colon_witness:
  "is_safe_mirror_url (ascii ''http://'' @ ascii ''a.b'' @ 58 # ascii ''c'' @ 64 # ascii ''127.0.0.1'' @ ascii ''/'')"
proof -
  have "is_safe_mirror_url (ascii ''http://'' @ ascii ''a.b'' @ 58 # ascii ''c'' @ 64 # ascii ''127.0.0.1'' @ ascii ''/'') \<longleftrightarrow>
    is_safe_mirror_url (ascii ''http://'' @ ascii ''a.b'')"
    by (rule mirror_guard_stops_at_colon) (simp_all add: schemes_def)
  then show ?thesis
    by (simp add: is_safe_mirror_url_def str_strip_prefix_def is_safe_host_def host_of_def mapped_ipv4_def private_prefix_def
        private_172_def to_ascii_lowercase_def ascii_lower_def Let_def)
qed

text \<open>
  the mirror list is read back as it was written. Of lines without white space around them,
  with either end of line, the accepted URLs are returned in their order; lines that are blank or that
  the guard refuses are dropped from between them.
\<close>

theorem mirror_list_roundtrip:
  assumes "eol = [10] \<or> eol = [13, 10]"
    and "\<forall>l\<in>set ls. 10 \<notin> set l \<and> 13 \<notin> set l \<and> trim l = l"
    and "urls = filter is_safe_mirror_url ls" "urls \<noteq> []"
  shows "parse_mirror_list_response (concat (map (\<lambda>l. l @ eol) ls)) = Inr urls"
proof -
  have "filter (\<lambda>l. l \<noteq> [] \<and> is_safe_mirror_url l) (map trim ls) = filter is_safe_mirror_url ls"
    using assms(2)
  proof (induction ls)
    case (Cons l ls)
    then show ?case
      using safe_url_one_line [of l] by auto
  qed simp
  moreover have "lines_of (concat (map (\<lambda>l. l @ eol) ls)) = ls"
    using assms(1,2) by (intro lines_of_concat) auto
  ultimately show ?thesis
    using assms(3,4) by (simp add: parse_mirror_list_response_def Let_def)
qed

theorem mirror_list_roundtrip_witness:
  "parse_mirror_list_response
     (concat (map (\<lambda>l. l @ [13, 10]) [ascii ''https://a.b/c'', [], ascii ''file:///etc'', ascii ''http://127.0.0.1/'']))
     = Inr [ascii ''https://a.b/c'']"
proof (rule mirror_list_roundtrip)
  have guard: "is_safe_mirror_url (ascii ''https://a.b/c'')" "\<not> is_safe_mirror_url []" "\<not> is_safe_mirror_url (ascii ''file:///etc'')"
    "\<not> is_safe_mirror_url (ascii ''http://127.0.0.1/'')"
    by (simp_all add: is_safe_mirror_url_def str_strip_prefix_def is_safe_host_def host_of_def mapped_ipv4_def private_prefix_def
        private_172_def to_ascii_lowercase_def ascii_lower_def Let_def)
  show "[ascii ''https://a.b/c''] =
      filter is_safe_mirror_url [ascii ''https://a.b/c'', [], ascii ''file:///etc'', ascii ''http://127.0.0.1/'']"
    using guard by (simp del: ascii_simps)
qed (simp_all add: trim_plain)

text \<open>
  the order in which mirrors are tried. The compiled mirrors come first and as they are, then every
  runtime mirror and every direct URL that is not among them, each once and in the order of its first
  occurrence. So a URL occurs twice only if the compiled list repeats it.
\<close>

theorem resolve_mirrors_order:
  "resolve_mirrors compiled runtime direct =
     compiled @ rev (remdups (rev (filter (\<lambda>u. u \<notin> set compiled) (runtime @ direct))))"
proof -
  have "resolve_mirrors compiled runtime direct = foldl push_new (foldl push_new compiled runtime) direct"
    by (simp add: resolve_mirrors_def resolve_download_urls_def Let_def)
  also have "\<dots> = foldl push_new compiled (runtime @ direct)"
    by simp
  finally show ?thesis
    by (simp only: foldl_push_new)
qed

end
