(* ===== verification/Race.thy ===== *)
theory Race
  imports Mirror Verify
begin

text \<open>
  One download over HTTP and the race of several mirrors for the same file:
  \<open>try_download\<close>, \<open>try_download_cancellable\<close> and \<open>parallel_download\<close> of \<open>src/downloader/mirror.rs\<close>.
  The answer of a server is a parameter: its status, its \<open>Content-Length\<close>, the pieces in which the body
  arrives and the error that ends it, if one does. A failure of the local file system ends a transfer
  as a failure of the connection does, so that error stands for both. SHA-1 is a parameter; a hasher
  that is fed piece by piece is the bytes it was fed. Counts of bytes are natural numbers, of which
  only the doubled size hint can reach the end of \<open>u64\<close>.
\<close>

section \<open>Answers\<close>

record http_response =
  hr_status :: nat
  hr_content_length :: "bytes option"
  hr_chunks :: "bytes list"
  hr_error :: "string option"

text \<open>The answer to a request for a URL, with a \<open>Range\<close> header or without.\<close>

type_synonym http = "bytes \<Rightarrow> bytes option \<Rightarrow> string + http_response"

text \<open>
  \<open>body.read\<close> into a buffer of the given size: what is left of the next piece at most. A read of no
  bytes is the end.
\<close>

definition next_read :: "nat \<Rightarrow> http_response \<Rightarrow> string + bytes \<times> http_response" where
  "next_read limit r =
     (case hr_chunks r of
        [] \<Rightarrow> (case hr_error r of None \<Rightarrow> Inr ([], r) | Some e \<Rightarrow> Inl e)
      | c # cs \<Rightarrow> Inr (take limit c, r\<lparr>hr_chunks := (if drop limit c = [] then cs else drop limit c # cs)\<rparr>))"

text \<open>What a reader can get before the end or the error, and the whole body if the end comes first.\<close>

definition available :: "http_response \<Rightarrow> bytes" where
  "available r = concat (takeWhile (\<lambda>c. c \<noteq> []) (hr_chunks r))"

definition served :: "http_response \<Rightarrow> bytes option" where
  "served r = (if hr_error r = None \<or> [] \<in> set (hr_chunks r) then Some (available r) else None)"

section \<open>A transfer\<close>

definition u64_max :: nat where "u64_max = 2 ^ 64 - 1"

definition MAX_PREALLOC_SIZE :: nat where "MAX_PREALLOC_SIZE = 2 * 1024 * 1024 * 1024"

definition BUFFER_SIZE :: nat where "BUFFER_SIZE = 65536"

definition MEGABYTE :: nat where "MEGABYTE = 1024 * 1024"

definition content_length :: "nat \<Rightarrow> http_response \<Rightarrow> nat option" where
  "content_length size_hint r =
     (case Option.bind (hr_content_length r) (parse_unsigned u64_max) of
        Some n \<Rightarrow> Some n
      | None \<Rightarrow> if 0 < size_hint then Some size_hint else None)"

text \<open>\<open>set_len\<close> cuts a file or extends it by zeros; a write at a position replaces what is there.\<close>

definition set_len :: "nat \<Rightarrow> bytes \<Rightarrow> bytes" where
  "set_len n f = take n f @ replicate (n - length f) 0"

definition write_at :: "nat \<Rightarrow> bytes \<Rightarrow> bytes \<Rightarrow> bytes" where
  "write_at pos s f = take pos f @ s @ drop (pos + length s) f"

definition preallocated :: "nat \<Rightarrow> http_response \<Rightarrow> bytes" where
  "preallocated size_hint r =
     (case content_length size_hint r of
        None \<Rightarrow> []
      | Some len \<Rightarrow>
          let cap = (if 0 < size_hint then min (size_hint * 2) u64_max else MAX_PREALLOC_SIZE)
          in set_len (min len cap) [])"

record transfer =
  tr_source :: http_response
  tr_file :: bytes
  tr_total :: nat
  tr_hashed :: bytes
  tr_reported_mb :: nat

definition start_transfer :: "nat \<Rightarrow> http_response \<Rightarrow> transfer" where
  "start_transfer size_hint r =
     \<lparr>tr_source = r, tr_file = preallocated size_hint r, tr_total = 0, tr_hashed = [], tr_reported_mb = 0\<rparr>"

text \<open>One turn of the loop: the error, the end, or the transfer with a further piece.\<close>

definition transfer_read :: "transfer \<Rightarrow> string + transfer option" where
  "transfer_read t =
     (case next_read BUFFER_SIZE (tr_source t) of
        Inl e \<Rightarrow> Inl e
      | Inr (s, src) \<Rightarrow>
          if s = [] then Inr None
          else Inr (Some (t\<lparr>tr_source := src, tr_file := write_at (tr_total t) s (tr_file t),
                            tr_total := tr_total t + length s, tr_hashed := tr_hashed t @ s\<rparr>)))"

definition transfer_report :: "transfer \<Rightarrow> transfer \<times> bool" where
  "transfer_report t =
     (let current_mb = tr_total t div MEGABYTE
      in if tr_reported_mb t < current_mb then (t\<lparr>tr_reported_mb := current_mb\<rparr>, True) else (t, False))"

definition transfer_file :: "transfer \<Rightarrow> bytes" where
  "transfer_file t = set_len (tr_total t) (tr_file t)"

definition transfer_sha1 :: "hash \<Rightarrow> transfer \<Rightarrow> bytes" where
  "transfer_sha1 sha1 t = hex_text (sha1 (tr_hashed t))"

section \<open>A single mirror\<close>

datatype download_progress =
  FetchingMirrors bytes
| TryingMirror nat nat bytes
| DownloadingBytes nat "nat option"
| VerifyingDownload
| VerifyingSkipped
| ExtractingEntry bytes nat nat
| DownloadComplete nat

function receive :: "nat option \<Rightarrow> transfer \<Rightarrow> download_progress list \<Rightarrow> string option \<times> transfer \<times> download_progress list" where
  "receive len t events =
     (case transfer_read t of
        Inl e \<Rightarrow> (Some e, t, events)
      | Inr None \<Rightarrow> (None, t, events @ [DownloadingBytes (tr_total t) len])
      | Inr (Some t') \<Rightarrow>
          (case transfer_report t' of
             (t'', report) \<Rightarrow> receive len t'' (if report then events @ [DownloadingBytes (tr_total t') len] else events)))"
  by pat_completeness auto

definition remaining :: "http_response \<Rightarrow> nat" where
  "remaining r = length (concat (hr_chunks r))"

lemma next_read_remaining: "next_read n r = Inr (s, r') \<Longrightarrow> remaining r = length s + remaining r'"
  by (cases "hr_chunks r") (auto simp: next_read_def remaining_def split: option.splits if_splits)

lemma transfer_read_Some:
  assumes "transfer_read t = Inr (Some t')"
  obtains s src where "next_read BUFFER_SIZE (tr_source t) = Inr (s, src)" "s \<noteq> []"
    "t' = t\<lparr>tr_source := src, tr_file := write_at (tr_total t) s (tr_file t),
            tr_total := tr_total t + length s, tr_hashed := tr_hashed t @ s\<rparr>"
  using assms by (auto simp: transfer_read_def split: sum.splits prod.splits if_splits)

lemma transfer_read_remaining: "transfer_read t = Inr (Some t') \<Longrightarrow> remaining (tr_source t') < remaining (tr_source t)"
  by (elim transfer_read_Some) (auto dest!: next_read_remaining)

lemma transfer_report_source: "transfer_report t = (t', b) \<Longrightarrow> tr_source t' = tr_source t"
  by (auto simp: transfer_report_def Let_def split: if_splits)

termination receive
  by (relation "measure (\<lambda>(_, t, _). remaining (tr_source t))")
    (auto dest: transfer_read_remaining simp: transfer_report_source [OF sym])

declare receive.simps [simp del]

text \<open>The result, what is at the destination afterwards, if anything was created there, and the events.\<close>

definition try_download ::
  "http \<Rightarrow> hash \<Rightarrow> bytes \<Rightarrow> nat \<Rightarrow> (string + nat \<times> bytes) \<times> bytes option \<times> download_progress list"
where
  "try_download net sha1 url size_hint =
     (case net url None of
        Inl e \<Rightarrow> (Inl e, None, [])
      | Inr r \<Rightarrow>
          (case receive (content_length size_hint r) (start_transfer size_hint r) [] of
             (Some e, t, events) \<Rightarrow> (Inl e, Some (tr_file t), events)
           | (None, t, events) \<Rightarrow> (Inr (tr_total t, transfer_sha1 sha1 t), Some (transfer_file t), events)))"

text \<open>The bytes that have arrived are at the beginning of the file and are the ones the hasher was fed.\<close>

definition transfer_ok :: "http_response \<Rightarrow> transfer \<Rightarrow> bool" where
  "transfer_ok r t \<longleftrightarrow>
     tr_total t = length (tr_hashed t) \<and> (\<exists>rest. tr_file t = tr_hashed t @ rest)
     \<and> available r = tr_hashed t @ available (tr_source t)
     \<and> (served r = None \<longleftrightarrow> served (tr_source t) = None)"

lemma transfer_ok_start: "transfer_ok r (start_transfer size_hint r)"
  by (simp add: transfer_ok_def start_transfer_def)

lemma next_read_available:
  assumes "next_read n r = Inr (s, r')" "s \<noteq> []"
  shows "available r = s @ available r'" "served r = None \<longleftrightarrow> served r' = None" "hr_status r' = hr_status r"
    "hr_content_length r' = hr_content_length r"
  using assms by (cases "hr_chunks r"; auto simp: next_read_def available_def served_def split: option.splits if_splits)+

lemma next_read_end:
  assumes "next_read n r = Inr ([], r')" "0 < n"
  shows "available r = []" "served r = Some []"
  using assms by (cases "hr_chunks r"; auto simp: next_read_def available_def served_def split: option.splits if_splits)+

lemma next_read_error:
  assumes "next_read n r = Inl e"
  shows "available r = []" "served r = None"
  using assms by (cases "hr_chunks r"; auto simp: next_read_def available_def served_def split: option.splits if_splits)+

lemma transfer_read_ok:
  assumes "transfer_ok r t" "transfer_read t = Inr (Some t')"
  shows "transfer_ok r t'"
  using assms(2)
proof (elim transfer_read_Some)
  fix s src
  assume read: "next_read BUFFER_SIZE (tr_source t) = Inr (s, src)" "s \<noteq> []"
    and t': "t' = t\<lparr>tr_source := src, tr_file := write_at (tr_total t) s (tr_file t),
        tr_total := tr_total t + length s, tr_hashed := tr_hashed t @ s\<rparr>"
  show ?thesis
    using assms(1) next_read_available [OF read] by (auto simp: transfer_ok_def t' write_at_def)
qed

lemma transfer_report_ok: "transfer_ok r t \<Longrightarrow> transfer_ok r (fst (transfer_report t))"
  by (simp add: transfer_ok_def transfer_report_def Let_def)

lemma transfer_ok_file: "transfer_ok r t \<Longrightarrow> transfer_file t = tr_hashed t"
  by (auto simp: transfer_ok_def transfer_file_def set_len_def)

lemma transfer_read_end:
  assumes "transfer_ok r t" "transfer_read t = Inr None"
  shows "served r = Some (transfer_file t)" "transfer_sha1 sha1 t = hex_text (sha1 (transfer_file t))"
proof -
  obtain src where "next_read BUFFER_SIZE (tr_source t) = Inr ([], src)"
    using assms(2) by (auto simp: transfer_read_def split: sum.splits prod.splits if_splits)
  then have "available (tr_source t) = []" "served (tr_source t) = Some []"
    by (rule next_read_end; simp add: BUFFER_SIZE_def)+
  then show "served r = Some (transfer_file t)"
    using assms(1) by (auto simp: transfer_ok_file [OF assms(1)] transfer_ok_def served_def split: if_splits)
  show "transfer_sha1 sha1 t = hex_text (sha1 (transfer_file t))"
    by (simp add: transfer_sha1_def transfer_ok_file [OF assms(1)])
qed

lemma transfer_read_error:
  assumes "transfer_ok r t" "transfer_read t = Inl e"
  shows "served r = None"
proof -
  have "next_read BUFFER_SIZE (tr_source t) = Inl e"
    using assms(2) by (auto simp: transfer_read_def split: sum.splits prod.splits if_splits)
  then show ?thesis
    using next_read_error assms(1) by (auto simp: transfer_ok_def)
qed

lemma receive_outcome:
  assumes "transfer_ok r t"
  shows "receive len t events = (err, t', events') \<Longrightarrow> transfer_ok r t' \<and>
    (case err of None \<Rightarrow> transfer_read t' = Inr None | Some e \<Rightarrow> served r = None)"
  using assms
proof (induction len t events rule: receive.induct)
  case (1 len t events)
  show ?case
  proof (cases "transfer_read t")
    case (Inl e)
    then show ?thesis
      using 1(2,3) transfer_read_error [OF 1(3) Inl] by (auto simp: receive.simps [of len t])
  next
    case (Inr more)
    show ?thesis
    proof (cases more)
      case None
      then show ?thesis
        using 1(2,3) Inr by (auto simp: receive.simps [of len t])
    next
      case (Some u)
      obtain v report where v: "transfer_report u = (v, report)"
        by fastforce
      have "transfer_ok r v"
        using transfer_report_ok [OF transfer_read_ok [OF 1(3)]] Inr Some v by (metis fst_conv)
      then show ?thesis
        using 1(1) [OF Inr Some v [symmetric]] 1(2) Inr Some v by (auto simp: receive.simps [of len t])
    qed
  qed
qed

lemma try_download_Inr:
  assumes "try_download net sha1 url size_hint = (Inr (n, h), file, events)"
  obtains r f where "net url None = Inr r" "served r = Some f" "file = Some f" "h = hex_text (sha1 f)" "n = length f"
proof -
  obtain r where r: "net url None = Inr r"
    using assms by (auto simp: try_download_def split: sum.splits)
  obtain err t evs where recv: "receive (content_length size_hint r) (start_transfer size_hint r) [] = (err, t, evs)"
    by (metis prod_cases3)
  have ok: "transfer_ok r t" "err = None" "transfer_read t = Inr None"
    using receive_outcome [OF transfer_ok_start recv] assms r recv by (auto simp: try_download_def split: option.splits)
  have "file = Some (transfer_file t)" "n = tr_total t" "h = transfer_sha1 sha1 t"
    using assms r recv ok(2) by (auto simp: try_download_def)
  moreover have "tr_total t = length (transfer_file t)"
    using ok(1) transfer_ok_file [OF ok(1)] by (simp add: transfer_ok_def)
  ultimately show thesis
    using that [OF r] transfer_read_end [OF ok(1,3)] by auto
qed

lemma try_download_Inl:
  assumes "try_download net sha1 url size_hint = (Inl e, file, events)"
  shows "\<not> (\<exists>r f. net url None = Inr r \<and> served r = Some f)"
proof
  assume "\<exists>r f. net url None = Inr r \<and> served r = Some f"
  then obtain r f where r: "net url None = Inr r" "served r = Some f"
    by blast
  obtain err t evs where recv: "receive (content_length size_hint r) (start_transfer size_hint r) [] = (err, t, evs)"
    by (metis prod_cases3)
  then show False
    using receive_outcome [OF transfer_ok_start recv] assms r by (auto simp: try_download_def split: option.splits)
qed

section \<open>The race\<close>

text \<open>
  The thread of a mirror: not started, receiving into its temporary file, done receiving with its file
  and SHA-1, the winner, whose file is about to be moved, or ended without a file. A step of thread
  \<open>i\<close> reads the shared flag and does what follows up to the next access to it.
\<close>

datatype racer = Waiting | Receiving transfer | Received bytes bytes | Winner bytes bytes | Ended

record race =
  ra_done :: bool
  ra_racers :: "racer list"
  ra_channel :: "(string + nat \<times> bytes) list"
  ra_best_bytes :: nat
  ra_best_total :: "nat option"

definition race_init :: "bytes list \<Rightarrow> race" where
  "race_init urls =
     \<lparr>ra_done = False, ra_racers = replicate (length urls) Waiting, ra_channel = [], ra_best_bytes = 0, ra_best_total = None\<rparr>"

definition set_racer :: "nat \<Rightarrow> racer \<Rightarrow> race \<Rightarrow> race" where
  "set_racer i x s = s\<lparr>ra_racers := (ra_racers s)[i := x]\<rparr>"

definition racer_fails :: "nat \<Rightarrow> string \<Rightarrow> race \<Rightarrow> race" where
  "racer_fails i e s = (set_racer i Ended s)\<lparr>ra_channel := ra_channel s @ [Inl e]\<rparr>"

definition cancelled_message :: string where
  "cancelled_message = ''cancelled: another mirror succeeded first''"

definition race_step :: "http \<Rightarrow> hash \<Rightarrow> nat \<Rightarrow> bytes list \<Rightarrow> nat \<Rightarrow> race \<Rightarrow> race" where
  "race_step net sha1 size_hint urls i s =
     (if length (ra_racers s) \<le> i then s
      else case ra_racers s ! i of
        Waiting \<Rightarrow>
          if ra_done s then set_racer i Ended s
          else (case net (urls ! i) None of
                  Inl e \<Rightarrow> racer_fails i e s
                | Inr r \<Rightarrow>
                    (set_racer i (Receiving (start_transfer size_hint r)) s)
                      \<lparr>ra_best_total := (case ra_best_total s of None \<Rightarrow> content_length size_hint r | Some n \<Rightarrow> Some n)\<rparr>)
      | Receiving t \<Rightarrow>
          if ra_done s then racer_fails i cancelled_message s
          else (case transfer_read t of
                  Inl e \<Rightarrow> racer_fails i e s
                | Inr None \<Rightarrow>
                    (set_racer i (Received (transfer_file t) (transfer_sha1 sha1 t)) s)
                      \<lparr>ra_best_bytes := max (ra_best_bytes s) (tr_total t)\<rparr>
                | Inr (Some t') \<Rightarrow>
                    (case transfer_report t' of
                       (t'', report) \<Rightarrow>
                         (set_racer i (Receiving t'') s)
                           \<lparr>ra_best_bytes := (if report then max (ra_best_bytes s) (tr_total t'') else ra_best_bytes s)\<rparr>))
      | Received f h \<Rightarrow>
          if ra_done s then set_racer i Ended s
          else (set_racer i (Winner f h) s)\<lparr>ra_done := True, ra_channel := ra_channel s @ [Inr (i, h)]\<rparr>
      | Winner f h \<Rightarrow> s
      | Ended \<Rightarrow> s)"

fun at_rest :: "racer \<Rightarrow> bool" where
  "at_rest (Winner _ _) = True"
| "at_rest Ended = True"
| "at_rest _ = False"

definition race_finished :: "race \<Rightarrow> bool" where
  "race_finished s \<longleftrightarrow> list_all at_rest (ra_racers s)"

text \<open>
  The receiver takes messages until a thread has won or all have ended. The winner's file becomes the
  destination, by a copy where it cannot be renamed.
\<close>

fun collect :: "(string + nat \<times> bytes) list \<Rightarrow> string \<Rightarrow> string + nat \<times> bytes" where
  "collect [] last_error = Inl last_error"
| "collect (Inl e # ms) last_error = collect ms e"
| "collect (Inr w # ms) last_error = Inr w"

fun racer_file :: "racer \<Rightarrow> bytes" where
  "racer_file (Winner f h) = f"
| "racer_file _ = []"

record file_moves =
  fm_rename :: "string option"
  fm_copy :: "string option"

text \<open>
  The result, the contents of the destination if it was written, and the events. The errors of
  \<open>rename\<close> and \<open>copy\<close> are parameters.
\<close>

definition race_result :: "file_moves \<Rightarrow> race \<Rightarrow> (string + bytes) \<times> bytes option \<times> download_progress list" where
  "race_result os s =
     (let events = (if 0 < ra_best_bytes s then [DownloadingBytes (ra_best_bytes s) (ra_best_total s)] else [])
      in case collect (ra_channel s) ''no mirrors available'' of
           Inl e \<Rightarrow> (Inl e, None, events)
         | Inr (i, h) \<Rightarrow>
             (case (fm_rename os, fm_copy os) of
                (Some e, Some e2) \<Rightarrow> (Inl (''rename failed: '' @ e @ ''; copy failed: '' @ e2), None, events)
              | _ \<Rightarrow> (Inr h, Some (racer_file (ra_racers s ! i)), events)))"

text \<open>The race under a schedule of its threads.\<close>

definition parallel_download ::
  "http \<Rightarrow> hash \<Rightarrow> file_moves \<Rightarrow> bytes list \<Rightarrow> nat \<Rightarrow> nat list \<Rightarrow> (string + bytes) \<times> bytes option \<times> download_progress list"
where
  "parallel_download net sha1 os urls size_hint schedule =
     race_result os (fold (race_step net sha1 size_hint urls) schedule (race_init urls))"

section \<open>The invariant of the race\<close>

definition serves :: "http \<Rightarrow> bytes \<Rightarrow> bytes \<Rightarrow> bool" where
  "serves net url f \<longleftrightarrow> (\<exists>r. net url None = Inr r \<and> served r = Some f)"

definition racer_ok :: "http \<Rightarrow> hash \<Rightarrow> bytes \<Rightarrow> bool \<Rightarrow> racer \<Rightarrow> bool" where
  "racer_ok net sha1 url d x =
     (case x of
        Waiting \<Rightarrow> True
      | Receiving t \<Rightarrow> \<exists>r. net url None = Inr r \<and> transfer_ok r t
      | Received f h \<Rightarrow> serves net url f \<and> h = hex_text (sha1 f)
      | Winner f h \<Rightarrow> serves net url f \<and> h = hex_text (sha1 f) \<and> d
      | Ended \<Rightarrow> d \<or> (\<forall>f. \<not> serves net url f))"

definition race_inv :: "http \<Rightarrow> hash \<Rightarrow> bytes list \<Rightarrow> race \<Rightarrow> bool" where
  "race_inv net sha1 urls s \<longleftrightarrow>
     length (ra_racers s) = length urls
     \<and> (\<forall>i < length urls. racer_ok net sha1 (urls ! i) (ra_done s) (ra_racers s ! i))
     \<and> (if ra_done s
        then \<exists>i f h ms ms'. i < length urls \<and> ra_racers s ! i = Winner f h \<and> ra_channel s = ms @ Inr (i, h) # ms'
               \<and> list_all isl ms \<and> list_all isl ms'
        else list_all isl (ra_channel s))"

lemma race_inv_init: "race_inv net sha1 urls (race_init urls)"
  by (simp add: race_inv_def race_init_def racer_ok_def)

lemma racer_ok_mono: "racer_ok net sha1 url d x \<Longrightarrow> d \<longrightarrow> d' \<Longrightarrow> racer_ok net sha1 url d' x"
  by (auto simp: racer_ok_def split: racer.splits)

text \<open>A step that leaves the flag alone, gives thread \<open>i\<close> a new state and may report an error.\<close>

lemma race_inv_local:
  assumes "race_inv net sha1 urls s" "i < length urls" "\<not> (\<exists>f h. ra_racers s ! i = Winner f h)"
    and "ra_done s' = ra_done s" "ra_racers s' = (ra_racers s)[i := x]" "racer_ok net sha1 (urls ! i) (ra_done s) x"
    and "ra_channel s' = ra_channel s @ ms" "list_all isl ms"
  shows "race_inv net sha1 urls s'"
proof -
  have len: "length (ra_racers s) = length urls"
    and ok: "\<forall>j < length urls. racer_ok net sha1 (urls ! j) (ra_done s) (ra_racers s ! j)"
    using assms(1) by (auto simp: race_inv_def)
  have "\<forall>j < length urls. racer_ok net sha1 (urls ! j) (ra_done s') (ra_racers s' ! j)"
    using ok len assms(2,4,5,6) by (auto simp: nth_list_update)
  moreover have "if ra_done s'
      then \<exists>j f h ms ms'. j < length urls \<and> ra_racers s' ! j = Winner f h \<and> ra_channel s' = ms @ Inr (j, h) # ms'
             \<and> list_all isl ms \<and> list_all isl ms'
      else list_all isl (ra_channel s')"
  proof (cases "ra_done s")
    case True
    then obtain j f h ms1 ms2 where j: "j < length urls" "ra_racers s ! j = Winner f h"
      "ra_channel s = ms1 @ Inr (j, h) # ms2" "list_all isl ms1" "list_all isl ms2"
      using assms(1) by (auto simp: race_inv_def)
    moreover from j(2) assms(3) have "j \<noteq> i"
      by auto
    ultimately have "j < length urls \<and> ra_racers s' ! j = Winner f h \<and> ra_channel s' = ms1 @ Inr (j, h) # (ms2 @ ms)
        \<and> list_all isl ms1 \<and> list_all isl (ms2 @ ms)"
      using assms(5,7,8) by simp
    then show ?thesis
      using True assms(4) by (simp only: simp_thms if_True) blast
  next
    case False
    then show ?thesis
      using assms(1,4,7,8) by (simp add: race_inv_def)
  qed
  ultimately show ?thesis
    using len assms(5) unfolding race_inv_def by simp
qed

lemma race_inv_win:
  assumes "race_inv net sha1 urls s" "i < length urls" "ra_racers s ! i = Received f h" "\<not> ra_done s"
  shows "race_inv net sha1 urls ((set_racer i (Winner f h) s)\<lparr>ra_done := True, ra_channel := ra_channel s @ [Inr (i, h)]\<rparr>)"
    (is "race_inv _ _ _ ?s'")
proof -
  have len: "length (ra_racers s) = length urls" and no_win: "list_all isl (ra_channel s)"
    and ok: "\<forall>j < length urls. racer_ok net sha1 (urls ! j) (ra_done s) (ra_racers s ! j)"
    using assms(1,4) by (auto simp: race_inv_def)
  have "racer_ok net sha1 (urls ! i) True (Winner f h)"
    using ok assms(2,3) by (force simp: racer_ok_def)
  then have "\<forall>j < length urls. racer_ok net sha1 (urls ! j) True (ra_racers ?s' ! j)"
    using ok len assms(2) racer_ok_mono [of net sha1 _ "ra_done s" _ True] by (auto simp: set_racer_def nth_list_update)
  moreover have "ra_racers ?s' ! i = Winner f h" "ra_channel ?s' = ra_channel s @ Inr (i, h) # []"
    using assms(2) len by (simp_all add: set_racer_def)
  moreover from this have "\<exists>j f h ms ms'. j < length urls \<and> ra_racers ?s' ! j = Winner f h \<and> ra_channel ?s' = ms @ Inr (j, h) # ms'
      \<and> list_all isl ms \<and> list_all isl ms'"
    using no_win assms(2) by (intro exI [of _ i] exI [of _ f] exI [of _ h] exI [of _ "ra_channel s"] exI [of _ "[]"]) simp
  moreover have "ra_done ?s'" "length (ra_racers ?s') = length urls"
    using len by (simp_all add: set_racer_def)
  ultimately show ?thesis
    unfolding race_inv_def by (simp only: if_True simp_thms)
qed

lemma race_inv_set_racer:
  assumes "race_inv net sha1 urls s" "i < length urls" "\<not> (\<exists>f h. ra_racers s ! i = Winner f h)"
  shows "racer_ok net sha1 (urls ! i) (ra_done s) x \<Longrightarrow> race_inv net sha1 urls (set_racer i x s)"
    and "racer_ok net sha1 (urls ! i) (ra_done s) x \<Longrightarrow> race_inv net sha1 urls ((set_racer i x s)\<lparr>ra_best_total := n\<rparr>)"
    and "racer_ok net sha1 (urls ! i) (ra_done s) x \<Longrightarrow> race_inv net sha1 urls ((set_racer i x s)\<lparr>ra_best_bytes := k\<rparr>)"
    and "racer_ok net sha1 (urls ! i) (ra_done s) Ended \<Longrightarrow> race_inv net sha1 urls (racer_fails i e s)"
  by (rule race_inv_local [OF assms, where ms = "[]"]; simp add: set_racer_def)+
    (rule race_inv_local [OF assms, where ms = "[Inl e]"]; simp add: set_racer_def racer_fails_def)

lemma race_inv_step: "race_inv net sha1 urls s \<Longrightarrow> race_inv net sha1 urls (race_step net sha1 size_hint urls i s)"
proof (cases "length (ra_racers s) \<le> i")
  case False
  assume inv: "race_inv net sha1 urls s"
  then have i: "i < length urls" and ok: "racer_ok net sha1 (urls ! i) (ra_done s) (ra_racers s ! i)"
    using False by (auto simp: race_inv_def)
  note set_racer = race_inv_set_racer [OF inv i]
  show ?thesis
  proof (cases "ra_racers s ! i")
    case Waiting
    then have "\<not> (\<exists>f h. ra_racers s ! i = Winner f h)"
      by simp
    note set_racer = set_racer [OF this]
    show ?thesis
      using Waiting False transfer_ok_start
      by (auto simp: race_step_def racer_ok_def serves_def intro!: set_racer split: sum.split)
  next
    case (Receiving t)
    then obtain r where r: "net (urls ! i) None = Inr r" "transfer_ok r t"
      using ok by (auto simp: racer_ok_def)
    from Receiving have "\<not> (\<exists>f h. ra_racers s ! i = Winner f h)"
      by simp
    note set_racer = set_racer [OF this]
    have error: "\<forall>f. \<not> serves net (urls ! i) f" if "transfer_read t = Inl e" for e
      using transfer_read_error [OF r(2) that] r(1) by (simp add: serves_def)
    have end_ok: "serves net (urls ! i) (transfer_file t)" if "transfer_read t = Inr None"
      using transfer_read_end [OF r(2) that] r(1) by (simp add: serves_def)
    have more_ok: "transfer_ok r t''" if "transfer_read t = Inr (Some t')" "transfer_report t' = (t'', report)" for t' t'' report
      using transfer_report_ok [OF transfer_read_ok [OF r(2) that(1)]] that(2) by simp
    show ?thesis
      using Receiving False r(1) error end_ok more_ok transfer_read_end(2) [OF r(2)]
      by (auto simp: race_step_def racer_ok_def intro!: set_racer split: sum.split option.split prod.split)
  next
    case (Received f h)
    then have "\<not> (\<exists>f h. ra_racers s ! i = Winner f h)"
      by simp
    note set_racer = set_racer [OF this]
    show ?thesis
      using Received False race_inv_win [OF inv i Received] by (auto simp: race_step_def racer_ok_def intro!: set_racer)
  qed (use inv False in \<open>simp_all add: race_step_def\<close>)
qed (simp add: race_step_def)

interpretation race: step_system "{race_init urls}" "race_step net sha1 size_hint urls" "race_inv net sha1 urls"
  for net sha1 size_hint urls
  by unfold_locales (auto intro: race_inv_init race_inv_step)

section \<open>The race ends\<close>

text \<open>The steps a thread can still take at most.\<close>

fun steps_left :: "http \<Rightarrow> bytes \<Rightarrow> racer \<Rightarrow> nat" where
  "steps_left net url Waiting = (case net url None of Inl e \<Rightarrow> 1 | Inr r \<Rightarrow> remaining r + 3)"
| "steps_left net url (Receiving t) = remaining (tr_source t) + 2"
| "steps_left net url (Received f h) = 1"
| "steps_left net url (Winner f h) = 0"
| "steps_left net url Ended = 0"

lemma race_step_other: "j \<noteq> i \<Longrightarrow> ra_racers (race_step net sha1 size_hint urls i s) ! j = ra_racers s ! j"
  by (simp add: race_step_def set_racer_def racer_fails_def split: racer.split sum.split option.split prod.split)

lemma race_step_length [simp]: "length (ra_racers (race_step net sha1 size_hint urls i s)) = length (ra_racers s)"
  by (simp add: race_step_def set_racer_def racer_fails_def split: racer.split sum.split option.split prod.split)

lemma race_step_progress:
  assumes "i < length (ra_racers s)"
  shows "steps_left net (urls ! i) (ra_racers (race_step net sha1 size_hint urls i s) ! i) \<le> steps_left net (urls ! i) (ra_racers s ! i) - 1"
proof (cases "ra_racers s ! i")
  case (Receiving t)
  then show ?thesis
    using assms transfer_read_remaining [of t] transfer_report_source
    by (fastforce simp: race_step_def set_racer_def racer_fails_def split: sum.splits option.splits prod.splits)
qed (use assms in \<open>auto simp: race_step_def set_racer_def racer_fails_def start_transfer_def split: sum.splits\<close>)

interpretation racers: thread_system "race_step net sha1 size_hint urls" ra_racers "\<lambda>i. steps_left net (urls ! i)"
  for net sha1 size_hint urls
  by unfold_locales (simp_all only: race_step_length race_step_other not_False_eq_True race_step_progress)

lemma no_steps_left: "steps_left net url x = 0 \<Longrightarrow> at_rest x"
  by (cases x) (auto split: sum.splits)

text \<open>Every thread gets as many turns as its mirror's answer is long, and three more.\<close>

definition fair :: "http \<Rightarrow> bytes list \<Rightarrow> nat list \<Rightarrow> bool" where
  "fair net urls schedule \<longleftrightarrow> (\<forall>i < length urls. steps_left net (urls ! i) Waiting \<le> count_list schedule i)"

lemma fair_finishes:
  assumes "fair net urls schedule"
  shows "race_finished (fold (race_step net sha1 size_hint urls) schedule (race_init urls))"
proof -
  have "at_rest (ra_racers (fold (race_step net sha1 size_hint urls) schedule (race_init urls)) ! i)" if "i < length urls" for i
    using assms that racers.turns_used_up [of i "race_init urls" net urls schedule sha1 size_hint]
    by (intro no_steps_left [of net "urls ! i"]) (simp add: race_init_def fair_def del: steps_left.simps)
  then show ?thesis
    by (simp add: race_finished_def list_all_length racers.fold_length) (simp add: race_init_def)
qed

lemma collect_append: "list_all isl ms \<Longrightarrow> collect (ms @ Inr w # ms') e = Inr w"
  by (induction ms arbitrary: e) (auto split: sum.splits simp: isl_def)

lemma collect_errors: "list_all isl ms \<Longrightarrow> isl (collect ms e)"
  by (induction ms arbitrary: e) (auto simp: isl_def)

text \<open>The outcome of a race: a complete answer of one of the mirrors, or no mirror has one.\<close>

definition race_outcome :: "http \<Rightarrow> hash \<Rightarrow> bytes list \<Rightarrow> string + bytes \<Rightarrow> bytes option \<Rightarrow> bool" where
  "race_outcome net sha1 urls result dest \<longleftrightarrow>
     (case result of
        Inr h \<Rightarrow> \<exists>url \<in> set urls. \<exists>f. serves net url f \<and> h = hex_text (sha1 f) \<and> dest = Some f
      | Inl e \<Rightarrow> dest = None \<and> (\<forall>url \<in> set urls. \<forall>f. \<not> serves net url f))"

lemma race_result_outcome:
  assumes "race_inv net sha1 urls s" "race_finished s" "fm_rename os = None \<or> fm_copy os = None"
    and "race_result os s = (result, dest, events)"
  shows "race_outcome net sha1 urls result dest"
proof (cases "ra_done s")
  case True
  then obtain i f h ms ms' where i: "i < length urls" "ra_racers s ! i = Winner f h" "ra_channel s = ms @ Inr (i, h) # ms'" "list_all isl ms"
    using assms(1) by (auto simp: race_inv_def)
  then have "collect (ra_channel s) ''no mirrors available'' = Inr (i, h)"
    by (simp add: collect_append)
  then have "result = Inr h \<and> dest = Some f"
    using assms(3,4) i(2) by (auto simp: race_result_def Let_def split: option.splits)
  moreover have "serves net (urls ! i) f \<and> h = hex_text (sha1 f)"
    using assms(1) i(1,2) by (force simp: race_inv_def racer_ok_def)
  ultimately show ?thesis
    using i(1) by (auto simp: race_outcome_def)
next
  case False
  then have "isl (collect (ra_channel s) ''no mirrors available'')"
    using assms(1) by (auto simp: race_inv_def intro: collect_errors)
  then have "\<exists>e. result = Inl e" "dest = None"
    using assms(4) by (auto simp: race_result_def Let_def isl_def)
  moreover have "\<not> serves net (urls ! i) f" if "i < length urls" for i f
  proof -
    have "at_rest (ra_racers s ! i)" "racer_ok net sha1 (urls ! i) False (ra_racers s ! i)"
      using assms(1,2) that False by (auto simp: race_inv_def race_finished_def list_all_length)
    then show ?thesis
      by (cases "ra_racers s ! i") (auto simp: racer_ok_def)
  qed
  ultimately show ?thesis
    by (auto simp: race_outcome_def in_set_conv_nth)
qed

text \<open>
  C29: the race of the mirrors, under every fair interleaving of its threads. If some mirror serves the
  file completely then the download succeeds, the destination holds a complete answer of one of the
  mirrors, not bytes of several, and the SHA-1 returned is that of what is there. If no mirror does, it
  fails and writes nothing. Only a winner that can be neither renamed nor copied changes this.
\<close>

theorem parallel_download_correct:
  assumes "fair net urls schedule" "fm_rename os = None \<or> fm_copy os = None"
    and "parallel_download net sha1 os urls size_hint schedule = (result, dest, events)"
  shows "race_outcome net sha1 urls result dest"
proof (rule race_result_outcome)
  show "race_inv net sha1 urls (fold (race_step net sha1 size_hint urls) schedule (race_init urls))"
    by (intro race.inv_fold race_inv_init)
  show "race_finished (fold (race_step net sha1 size_hint urls) schedule (race_init urls))"
    using assms(1) by (rule fair_finishes)
qed (use assms in \<open>auto simp: parallel_download_def\<close>)

definition sample_net :: http where
  "sample_net url rng =
     (if url = [98]
      then Inr \<lparr>hr_status = 200, hr_content_length = None, hr_chunks = [[1], [2, 3]], hr_error = None\<rparr>
      else Inl ''refused'')"

theorem parallel_download_correct_witness:
  "\<exists>events. parallel_download sample_net id \<lparr>fm_rename = None, fm_copy = None\<rparr> [[97], [98]] 0 [1, 0, 1, 1, 1, 1, 1]
     = (Inr (hex_text [1, 2, 3]), Some [1, 2, 3], events)"
proof -
  let ?os = "\<lparr>fm_rename = None, fm_copy = None\<rparr>"
  obtain result dest events where run: "parallel_download sample_net id ?os [[97], [98]] 0 [1, 0, 1, 1, 1, 1, 1] = (result, dest, events)"
    by (metis prod_cases3)
  have "fair sample_net [[97], [98]] [1, 0, 1, 1, 1, 1, 1]"
    by (simp add: fair_def sample_net_def remaining_def less_Suc_eq)
  then have "race_outcome sample_net id [[97], [98]] result dest"
    by (rule parallel_download_correct [OF _ _ run]) simp
  moreover have "serves sample_net [98] f \<longleftrightarrow> f = [1, 2, 3]" "\<not> serves sample_net [97] f" for f
    by (auto simp: serves_def sample_net_def served_def available_def)
  ultimately show ?thesis
    unfolding run by (auto simp: race_outcome_def split: sum.splits)
qed

end
