(* ===== verification/Segments.thy ===== *)
theory Segments
  imports Race
begin

text \<open>
  The segmented download of \<open>src/downloader/segmented.rs\<close>: the ranges of the segments, the thread of a
  segment with its fallback mirrors and the flag the threads share, and the assembly. The answers of
  the servers are a parameter as in \<open>Race\<close>; a mirror answers a request for a range in the same way
  each time. A segment's temporary file is kept with its thread; the
  assembly of the files does not fail.
\<close>

section \<open>Ranges\<close>

definition MIN_SEGMENT_SIZE :: nat where "MIN_SEGMENT_SIZE = 1024 * 1024"

definition effective_mirrors :: "nat \<Rightarrow> nat \<Rightarrow> nat" where
  "effective_mirrors mirror_count file_size = min mirror_count (max 1 (file_size div MIN_SEGMENT_SIZE))"

text \<open>Start and end of each segment, both inclusive.\<close>

definition segments :: "nat \<Rightarrow> nat \<Rightarrow> (nat \<times> nat) list" where
  "segments mirror_count file_size =
     (let n = effective_mirrors mirror_count file_size;
          segment_size = file_size div n
      in map (\<lambda>i. (i * segment_size, if i = n - 1 then file_size - 1 else (i + 1) * segment_size - 1)) [0..<n])"

definition range_header :: "nat \<Rightarrow> nat \<Rightarrow> bytes" where
  "range_header start end = ascii ''bytes='' @ nat_to_string start @ 45 # nat_to_string end"

definition probe_range_support :: "http \<Rightarrow> bytes \<Rightarrow> bool" where
  "probe_range_support net url =
     (case net url (Some (ascii ''bytes=0-0'')) of Inl e \<Rightarrow> False | Inr r \<Rightarrow> hr_status r = 206)"

section \<open>One segment\<close>

text \<open>The loop: it reads no more than is missing, and ends early at the end of the body.\<close>

function receive_segment :: "nat \<Rightarrow> bytes \<Rightarrow> http_response \<Rightarrow> string option \<times> bytes" where
  "receive_segment expected_len file r =
     (if expected_len \<le> length file then (None, file)
      else case next_read (min (expected_len - length file) BUFFER_SIZE) r of
             Inl e \<Rightarrow> (Some e, file)
           | Inr (s, r') \<Rightarrow> if s = [] then (None, file) else receive_segment expected_len (file @ s) r')"
  by pat_completeness auto

termination receive_segment
  by (relation "measure (\<lambda>(n, file, _). n - length file)") (auto simp: neq_Nil_conv)

declare receive_segment.simps [simp del]

definition segment_name :: "nat \<Rightarrow> nat \<Rightarrow> string" where
  "segment_name start end = ''segment '' @ show_nat start @ ''-'' @ show_nat end"

text \<open>The result, the segment file, and the bytes that were added to the shared count.\<close>

definition download_segment :: "http \<Rightarrow> bytes \<Rightarrow> nat \<Rightarrow> nat \<Rightarrow> (string + unit) \<times> bytes \<times> nat" where
  "download_segment net url start end =
     (let expected_len = end - start + 1 in
      case net url (Some (range_header start end)) of
        Inl e \<Rightarrow> (Inl (segment_name start end @ '' from '' @ message_text url @ '': '' @ e), [], 0)
      | Inr r \<Rightarrow>
          if hr_status r \<noteq> 206
          then (Inl (segment_name start end @ '': expected HTTP 206, got '' @ show_nat (hr_status r)), [], 0)
          else (case receive_segment expected_len [] r of
                  (Some e, file) \<Rightarrow> (Inl (segment_name start end @ '' read: '' @ e), file, length file)
                | (None, file) \<Rightarrow>
                    if length file \<noteq> expected_len
                    then (Inl (segment_name start end @ '': expected '' @ show_nat expected_len @ '' bytes, got ''
                           @ show_nat (length file)), file, length file)
                    else (Inr (), file, length file)))"

section \<open>The threads\<close>

datatype segment_thread =
  Primary
| Fallback string "bytes list"
| SegmentDone "string + bytes"

record segmented =
  sg_failed :: bool
  sg_downloaded :: nat
  sg_threads :: "segment_thread list"

definition segmented_init :: "nat \<Rightarrow> segmented" where
  "segmented_init n = \<lparr>sg_failed = False, sg_downloaded = 0, sg_threads = replicate n Primary\<rparr>"

definition primary_url :: "bytes list \<Rightarrow> nat \<Rightarrow> bytes" where
  "primary_url urls seg_idx = urls ! (seg_idx mod length urls)"

definition fallback_urls :: "bytes list \<Rightarrow> nat \<Rightarrow> bytes list" where
  "fallback_urls urls seg_idx = map snd (filter (\<lambda>(i, _). i \<noteq> seg_idx mod length urls) (enumerate 0 urls))"

definition set_thread :: "nat \<Rightarrow> segment_thread \<Rightarrow> nat \<Rightarrow> segmented \<Rightarrow> segmented" where
  "set_thread i x k s = s\<lparr>sg_threads := (sg_threads s)[i := x], sg_downloaded := sg_downloaded s + k\<rparr>"

text \<open>A turn of thread \<open>i\<close>: the attempt at its primary mirror, or one turn of the fallback loop.\<close>

definition segment_step :: "http \<Rightarrow> bytes list \<Rightarrow> (nat \<times> nat) list \<Rightarrow> nat \<Rightarrow> segmented \<Rightarrow> segmented" where
  "segment_step net urls ranges i s =
     (if length (sg_threads s) \<le> i then s
      else case sg_threads s ! i of
        Primary \<Rightarrow>
          (case download_segment net (primary_url urls i) (fst (ranges ! i)) (snd (ranges ! i)) of
             (Inr _, file, k) \<Rightarrow> set_thread i (SegmentDone (Inr file)) k s
           | (Inl e, file, k) \<Rightarrow> set_thread i (Fallback e (fallback_urls urls i)) k s)
      | Fallback e [] \<Rightarrow> (set_thread i (SegmentDone (Inl e)) 0 s)\<lparr>sg_failed := True\<rparr>
      | Fallback e (u # us) \<Rightarrow>
          if sg_failed s then (set_thread i (SegmentDone (Inl e)) 0 s)\<lparr>sg_failed := True\<rparr>
          else (case download_segment net u (fst (ranges ! i)) (snd (ranges ! i)) of
                  (Inr _, file, k) \<Rightarrow> set_thread i (SegmentDone (Inr file)) k s
                | (Inl _, file, k) \<Rightarrow> set_thread i (Fallback e us) k s)
      | SegmentDone r \<Rightarrow> s)"

text \<open>The threads are joined in their order; a thread without a result has not ended yet.\<close>

fun join_threads :: "segment_thread list \<Rightarrow> bool \<Rightarrow> string \<Rightarrow> string + unit" where
  "join_threads [] all_ok last_error = (if all_ok then Inr () else Inl last_error)"
| "join_threads (SegmentDone (Inl e) # xs) all_ok last_error = join_threads xs False e"
| "join_threads (_ # xs) all_ok last_error = join_threads xs all_ok last_error"

fun segment_file :: "segment_thread \<Rightarrow> bytes" where
  "segment_file (SegmentDone (Inr f)) = f"
| "segment_file _ = []"

definition assemble_segments :: "hash \<Rightarrow> bytes list \<Rightarrow> bytes \<times> bytes" where
  "assemble_segments sha1 files = (concat files, hex_text (sha1 (concat files)))"

definition segmented_result :: "hash \<Rightarrow> nat \<Rightarrow> segmented \<Rightarrow> (string + bytes) \<times> bytes option \<times> download_progress list" where
  "segmented_result sha1 file_size s =
     (let report = DownloadingBytes (sg_downloaded s) (Some file_size);
          events = (if 0 < sg_downloaded s then [report] else []) @ [report]
      in case join_threads (sg_threads s) True [] of
           Inl e \<Rightarrow> (Inl e, None, events)
         | Inr _ \<Rightarrow>
             (case assemble_segments sha1 (map segment_file (sg_threads s)) of
                (file, h) \<Rightarrow> (Inr h, Some file, events)))"

text \<open>
  The download under a schedule of its threads: of the segments, or of the race where the first
  mirror does not support ranges.
\<close>

definition segmented_download ::
  "http \<Rightarrow> hash \<Rightarrow> file_moves \<Rightarrow> bytes list \<Rightarrow> nat \<Rightarrow> nat list \<Rightarrow> (string + bytes) \<times> bytes option \<times> download_progress list"
where
  "segmented_download net sha1 os urls file_size schedule =
     (if urls = [] then (Inl ''no mirrors available'', None, [])
      else if \<not> probe_range_support net (hd urls) then parallel_download net sha1 os urls file_size schedule
      else let ranges = segments (length urls) file_size
           in segmented_result sha1 file_size
                (fold (segment_step net urls ranges) schedule (segmented_init (length ranges))))"

section \<open>The ranges tile the file\<close>

lemma effective_mirrors_bounds:
  assumes "0 < mirror_count" "0 < file_size"
  shows "0 < effective_mirrors mirror_count file_size" "effective_mirrors mirror_count file_size \<le> mirror_count"
    "effective_mirrors mirror_count file_size \<le> file_size"
  using assms by (auto simp: effective_mirrors_def MIN_SEGMENT_SIZE_def max_def min_def)

lemma length_segments [simp]: "length (segments m n) = effective_mirrors m n"
  by (simp add: segments_def Let_def)

lemma tile_prefix:
  assumes "k < n" "0 < g"
  shows "concat (map (\<lambda>i. [i * g..<Suc (if i = n - 1 then z else (i + 1) * g - 1)]) [0..<k]) = [0..<k * g]"
  using assms(1)
proof (induction k)
  case (Suc k)
  have "Suc (if k = n - 1 then z else (k + 1) * g - 1) = (k + 1) * g" "k < n"
    using assms(2) Suc.prems by auto
  then have "concat (map (\<lambda>i. [i * g..<Suc (if i = n - 1 then z else (i + 1) * g - 1)]) [0..<Suc k]) = [0..<k * g] @ [k * g..<(k + 1) * g]"
    using Suc.IH by (simp only: upt_Suc_append le0 map_append concat_append list.map concat.simps append_Nil2)
  also have "\<dots> = [0..<Suc k * g]"
    using upt_add_eq_append [of 0 "k * g" g] by (simp add: add.commute)
  finally show ?case .
qed simp

lemma segments_tile:
  assumes "0 < mirror_count" "0 < file_size"
  shows "concat (map (\<lambda>(start, end). [start..<Suc end]) (segments mirror_count file_size)) = [0..<file_size]"
proof -
  let ?n = "effective_mirrors mirror_count file_size"
  let ?g = "file_size div ?n"
  let ?seg = "\<lambda>i. [i * ?g..<Suc (if i = ?n - 1 then file_size - 1 else (i + 1) * ?g - 1)]"
  note n = effective_mirrors_bounds [OF assms]
  have g: "0 < ?g"
    using n by (simp add: div_greater_zero_iff)
  have last: "(?n - 1) * ?g \<le> file_size"
    by (meson diff_le_self div_times_less_eq_dividend mult_le_mono1 mult.commute order.trans times_div_less_eq_dividend)
  have "concat (map (\<lambda>(start, end). [start..<Suc end]) (segments mirror_count file_size)) = concat (map ?seg [0..<?n])"
    by (simp only: segments_def Let_def map_map comp_def prod.case)
  also have "[0..<?n] = [0..<?n - 1] @ [?n - 1]"
    using n(1) by (metis Suc_diff_1 less_nat_zero_code not_gr_zero upt_Suc_append zero_le)
  also have "concat (map ?seg ([0..<?n - 1] @ [?n - 1])) = [0..<(?n - 1) * ?g] @ [(?n - 1) * ?g..<file_size]"
    using tile_prefix [OF _ g, of "?n - 1" ?n "file_size - 1"] n(1) assms(2) by (simp del: upt_Suc)
  also have "\<dots> = [0..<file_size]"
    using last upt_add_eq_append [of 0 "(?n - 1) * ?g" "file_size - (?n - 1) * ?g"] by simp
  finally show ?thesis .
qed

lemma segment_nonempty:
  assumes "0 < mirror_count" "0 < file_size" "(start, end) \<in> set (segments mirror_count file_size)"
  shows "start \<le> end"
proof -
  let ?n = "effective_mirrors mirror_count file_size"
  note n = effective_mirrors_bounds [OF assms(1,2)]
  obtain i where i: "i < ?n" "start = i * (file_size div ?n)"
    "end = (if i = ?n - 1 then file_size - 1 else (i + 1) * (file_size div ?n) - 1)"
    using assms(3) by (auto simp: segments_def Let_def)
  have g: "0 < file_size div ?n"
    using n by (simp add: div_greater_zero_iff)
  have "(i + 1) * (file_size div ?n) \<le> file_size"
    using mult_le_mono1 [of "i + 1" ?n "file_size div ?n"] i(1) times_div_less_eq_dividend [of ?n file_size] by linarith
  moreover have "start < (i + 1) * (file_size div ?n)"
    using i(2) g by simp
  ultimately show ?thesis
    using i(3) by (auto split: if_splits)
qed

section \<open>What a segment download delivers\<close>

lemma receive_segment_outcome:
  assumes "length file \<le> n"
  shows "receive_segment n file r = (err, f) \<Longrightarrow>
    f = take n (file @ available r) \<and> (err \<noteq> None \<longrightarrow> length (file @ available r) < n)"
  using assms
proof (induction n "file" r rule: receive_segment.induct)
  case (1 n "file" r)
  show ?case
  proof (cases "n \<le> length file")
    case True
    then show ?thesis
      using 1(2,3) by (simp add: receive_segment.simps [of n "file" r]) (simp add: receive_segment.simps)
  next
    case more: False
    then have limit: "0 < min (n - length file) BUFFER_SIZE"
      by (simp add: BUFFER_SIZE_def)
    show ?thesis
    proof (cases "next_read (min (n - length file) BUFFER_SIZE) r")
      case (Inl e)
      then show ?thesis
        using 1(2) more next_read_error(1) [OF Inl] by (auto simp: receive_segment.simps [of n "file" r])
    next
      case (Inr read)
      obtain s r' where read: "next_read (min (n - length file) BUFFER_SIZE) r = Inr (s, r')"
        using Inr by (cases read) auto
      show ?thesis
      proof (cases "s = []")
        case True
        then show ?thesis
          using 1(2) more read next_read_end(1) [OF _ limit] by (auto simp: receive_segment.simps [of n "file" r])
      next
        case False
        have "length s \<le> n - length file"
          using read by (cases "hr_chunks r") (auto simp: next_read_def split: option.splits)
        then show ?thesis
          using 1(1) [OF more read refl False] 1(2) more read False next_read_available(1) [OF read False]
          by (auto simp: receive_segment.simps [of n "file" r])
      qed
    qed
  qed
qed

definition serves_range :: "http \<Rightarrow> bytes \<Rightarrow> nat \<times> nat \<Rightarrow> bytes \<Rightarrow> bool" where
  "serves_range net url rng f \<longleftrightarrow>
     (case rng of (start, end) \<Rightarrow>
        \<exists>r. net url (Some (range_header start end)) = Inr r \<and> hr_status r = 206 \<and> end - start < length (available r)
            \<and> f = take (end - start + 1) (available r))"

lemma download_segment_cases:
  obtains (served) f where "download_segment net url start end = (Inr (), f, length f)" "serves_range net url (start, end) f"
  | (failed) e f k where "download_segment net url start end = (Inl e, f, k)" "\<And>f. \<not> serves_range net url (start, end) f"
proof (cases "net url (Some (range_header start end))")
  case (Inl e)
  then show thesis
    using failed by (simp add: download_segment_def serves_range_def Let_def)
next
  case (Inr r)
  show thesis
  proof (cases "hr_status r = 206")
    case False
    then show thesis
      using failed Inr by (simp add: download_segment_def serves_range_def Let_def)
  next
    case True
    obtain err f where recv: "receive_segment (end - start + 1) [] r = (err, f)"
      by fastforce
    note out = receive_segment_outcome [OF _ recv]
    show thesis
    proof (cases "err = None \<and> length f = end - start + 1")
      case ok: True
      then have "end - start < length (available r)"
        using out by auto
      then show thesis
        using served [of f] ok True Inr recv out by (auto simp: download_segment_def serves_range_def)
    next
      case bad: False
      then have short: "\<not> end - start < length (available r)"
        using out by (cases err) auto
      show thesis
      proof (cases err)
        case None
        then show thesis
          using failed bad short True Inr recv by (simp add: download_segment_def serves_range_def Let_def)
      next
        case (Some e)
        then show thesis
          using failed short True Inr recv by (simp add: download_segment_def serves_range_def Let_def)
      qed
    qed
  qed
qed

section \<open>The invariant of the threads\<close>

definition unserved :: "http \<Rightarrow> bytes list \<Rightarrow> nat \<times> nat \<Rightarrow> bool" where
  "unserved net urls rng \<longleftrightarrow> (\<forall>u \<in> set urls. \<forall>f. \<not> serves_range net u rng f)"

fun thread_ok :: "http \<Rightarrow> bytes list \<Rightarrow> bool \<Rightarrow> nat \<times> nat \<Rightarrow> segment_thread \<Rightarrow> bool" where
  "thread_ok net urls d rng Primary = True"
| "thread_ok net urls d rng (Fallback e us) \<longleftrightarrow>
     set us \<subseteq> set urls \<and> (\<forall>u \<in> set urls - set us. \<forall>f. \<not> serves_range net u rng f)"
| "thread_ok net urls d rng (SegmentDone (Inr f)) \<longleftrightarrow> (\<exists>u \<in> set urls. serves_range net u rng f)"
| "thread_ok net urls d rng (SegmentDone (Inl e)) \<longleftrightarrow> d"

lemma thread_ok_mono: "thread_ok net urls d rng x \<Longrightarrow> d \<longrightarrow> d' \<Longrightarrow> thread_ok net urls d' rng x"
  by (cases "(net, urls, d, rng, x)" rule: thread_ok.cases) auto

definition segmented_inv :: "http \<Rightarrow> bytes list \<Rightarrow> (nat \<times> nat) list \<Rightarrow> segmented \<Rightarrow> bool" where
  "segmented_inv net urls ranges s \<longleftrightarrow>
     length (sg_threads s) = length ranges
     \<and> (\<forall>i < length ranges. thread_ok net urls (sg_failed s) (ranges ! i) (sg_threads s ! i))
     \<and> (sg_failed s \<longrightarrow> (\<exists>rng \<in> set ranges. unserved net urls rng))"

lemma segmented_inv_init: "segmented_inv net urls ranges (segmented_init (length ranges))"
  by (simp add: segmented_inv_def segmented_init_def)

lemma in_fallback_urls: "u \<in> set (fallback_urls urls i) \<longleftrightarrow> (\<exists>j < length urls. j \<noteq> i mod length urls \<and> u = urls ! j)"
  by (auto simp: fallback_urls_def in_set_enumerate_eq image_iff)

lemma fallback_urls_cover:
  assumes "urls \<noteq> []"
  shows "set (fallback_urls urls i) \<subseteq> set urls" "set urls \<subseteq> insert (primary_url urls i) (set (fallback_urls urls i))"
    "primary_url urls i \<in> set urls"
proof -
  show "set (fallback_urls urls i) \<subseteq> set urls" "primary_url urls i \<in> set urls"
    using assms by (auto simp: in_fallback_urls primary_url_def)
  show "set urls \<subseteq> insert (primary_url urls i) (set (fallback_urls urls i))"
  proof
    fix u
    assume "u \<in> set urls"
    then obtain j where "j < length urls" "u = urls ! j"
      by (auto simp: in_set_conv_nth)
    then show "u \<in> insert (primary_url urls i) (set (fallback_urls urls i))"
      by (cases "j = i mod length urls") (auto simp: in_fallback_urls primary_url_def)
  qed
qed

text \<open>A turn that gives thread \<open>i\<close> a new state and raises the flag only if some range is not served.\<close>

lemma segmented_inv_local:
  assumes "segmented_inv net urls ranges s" "i < length ranges"
    and "sg_threads s' = (sg_threads s)[i := x]" "sg_failed s \<longrightarrow> sg_failed s'"
    and "thread_ok net urls (sg_failed s') (ranges ! i) x"
    and "sg_failed s' \<longrightarrow> sg_failed s \<or> unserved net urls (ranges ! i)"
  shows "segmented_inv net urls ranges s'"
proof -
  have mono: "thread_ok net urls (sg_failed s') rng y" if "thread_ok net urls (sg_failed s) rng y" for rng y
    using that assms(4) by (rule thread_ok_mono)
  have len: "length (sg_threads s) = length ranges"
    using assms(1) by (simp add: segmented_inv_def)
  moreover have "\<forall>j < length ranges. thread_ok net urls (sg_failed s') (ranges ! j) (sg_threads s' ! j)"
    using assms(1,2,3,5) mono len by (auto simp: segmented_inv_def nth_list_update)
  moreover have "sg_failed s' \<longrightarrow> (\<exists>rng \<in> set ranges. unserved net urls rng)"
    using assms(1,2,6) by (auto simp: segmented_inv_def)
  ultimately show ?thesis
    using assms(3) by (simp add: segmented_inv_def)
qed

lemma segmented_inv_set_thread:
  assumes "segmented_inv net urls ranges s" "i < length ranges"
  shows "thread_ok net urls (sg_failed s) (ranges ! i) x \<Longrightarrow> segmented_inv net urls ranges (set_thread i x k s)"
    and "sg_failed s \<or> unserved net urls (ranges ! i) \<Longrightarrow>
      segmented_inv net urls ranges ((set_thread i (SegmentDone (Inl e)) k s)\<lparr>sg_failed := True\<rparr>)"
  by (rule segmented_inv_local [OF assms, where x = x]; simp add: set_thread_def)
    (rule segmented_inv_local [OF assms, where x = "SegmentDone (Inl e)"]; simp add: set_thread_def)

lemma segmented_inv_step:
  assumes "urls \<noteq> []" "segmented_inv net urls ranges s"
  shows "segmented_inv net urls ranges (segment_step net urls ranges i s)"
proof (cases "length (sg_threads s) \<le> i")
  case False
  then have i: "i < length ranges" and ok: "thread_ok net urls (sg_failed s) (ranges ! i) (sg_threads s ! i)"
    using assms(2) by (auto simp: segmented_inv_def)
  note set_thread = segmented_inv_set_thread [OF assms(2) i]
  note cover = fallback_urls_cover [OF assms(1), of i]
  obtain start "end" where rng: "ranges ! i = (start, end)"
    by fastforce
  show ?thesis
  proof (cases "sg_threads s ! i")
    case Primary
    show ?thesis
    proof (cases rule: download_segment_cases [of net "primary_url urls i" start "end"])
      case (served f)
      then show ?thesis
        using Primary False rng cover by (auto simp: segment_step_def intro!: set_thread)
    next
      case (failed e f k)
      have "\<not> serves_range net u (start, end) f" if "u \<in> set urls" "u \<notin> set (fallback_urls urls i)" for u f
        using that failed(2) cover(2) by blast
      then show ?thesis
        using Primary False rng cover failed(1) by (auto simp: segment_step_def intro!: set_thread)
    qed
  next
    case (Fallback e us)
    show ?thesis
    proof (cases us)
      case Nil
      then have "unserved net urls (ranges ! i)"
        using ok Fallback by (auto simp: unserved_def)
      then show ?thesis
        using Fallback Nil False by (auto simp: segment_step_def intro!: set_thread)
    next
      case (Cons u us')
      show ?thesis
      proof (cases rule: download_segment_cases [of net u start "end"])
        case (served f)
        then show ?thesis
          using Fallback Cons False rng ok by (auto simp: segment_step_def intro!: set_thread)
      next
        case (failed e' f k)
        have "\<not> serves_range net v (start, end) f" if "v \<in> set urls" "v \<notin> set us'" for v f
          using that failed(2) ok Fallback Cons rng by (cases "v = u") auto
        then show ?thesis
          using Fallback Cons False rng ok failed(1) by (auto simp: segment_step_def intro!: set_thread)
      qed
    qed
  qed (use assms False in \<open>simp add: segment_step_def\<close>)
qed (use assms in \<open>simp add: segment_step_def\<close>)

interpretation segments: step_system "{segmented_init (length ranges)}" "segment_step net urls ranges"
    "\<lambda>s. urls \<noteq> [] \<longrightarrow> segmented_inv net urls ranges s"
  for net urls ranges
  by unfold_locales (auto intro: segmented_inv_init segmented_inv_step)

section \<open>The threads end\<close>

fun turns_left :: "bytes list \<Rightarrow> nat \<Rightarrow> segment_thread \<Rightarrow> nat" where
  "turns_left urls i Primary = length (fallback_urls urls i) + 2"
| "turns_left urls i (Fallback e us) = length us + 1"
| "turns_left urls i (SegmentDone r) = 0"

lemma segment_step_other: "j \<noteq> i \<Longrightarrow> sg_threads (segment_step net urls ranges i s) ! j = sg_threads s ! j"
  by (simp add: segment_step_def set_thread_def split: segment_thread.split list.split sum.split prod.split)

lemma segment_step_length: "length (sg_threads (segment_step net urls ranges i s)) = length (sg_threads s)"
  by (simp add: segment_step_def set_thread_def split: segment_thread.split list.split sum.split prod.split)

lemma segment_step_progress:
  "i < length (sg_threads s) \<Longrightarrow>
     turns_left urls i (sg_threads (segment_step net urls ranges i s) ! i) \<le> turns_left urls i (sg_threads s ! i) - 1"
  by (simp add: segment_step_def set_thread_def split: segment_thread.split list.split sum.split prod.split)

interpretation segment_threads: thread_system "segment_step net urls ranges" sg_threads "turns_left urls"
  for net urls ranges
  by unfold_locales (simp_all only: segment_step_length segment_step_other not_False_eq_True segment_step_progress)

definition fair_segments :: "bytes list \<Rightarrow> nat \<Rightarrow> nat list \<Rightarrow> bool" where
  "fair_segments urls n schedule \<longleftrightarrow> (\<forall>i < n. turns_left urls i Primary \<le> count_list schedule i)"

lemma fair_segments_done:
  assumes "fair_segments urls (length ranges) schedule" "i < length ranges"
  obtains r where "sg_threads (fold (segment_step net urls ranges) schedule (segmented_init (length ranges))) ! i = SegmentDone r"
proof -
  let ?s = "fold (segment_step net urls ranges) schedule (segmented_init (length ranges))"
  have "turns_left urls i (sg_threads ?s ! i) = 0"
    using assms by (intro segment_threads.turns_used_up) (simp_all add: segmented_init_def fair_segments_def)
  then show thesis
    using that by (cases "sg_threads ?s ! i") auto
qed

lemma join_threads_Inr: "join_threads xs ok e = Inr u \<longleftrightarrow> ok \<and> (\<forall>x \<in> set xs. \<forall>e. x \<noteq> SegmentDone (Inl e))"
proof (induction xs arbitrary: ok e)
  case (Cons x xs)
  then show ?case
    by (cases "(x # xs, ok, e)" rule: join_threads.cases) auto
qed simp

text \<open>The outcome: each range as one mirror served it, or a range that no mirror serves.\<close>

definition segments_outcome ::
  "http \<Rightarrow> hash \<Rightarrow> bytes list \<Rightarrow> (nat \<times> nat) list \<Rightarrow> string + bytes \<Rightarrow> bytes option \<Rightarrow> bool"
where
  "segments_outcome net sha1 urls ranges result dest \<longleftrightarrow>
     (case result of
        Inr h \<Rightarrow> \<exists>files. list_all2 (\<lambda>rng f. \<exists>u \<in> set urls. serves_range net u rng f) ranges files
                   \<and> dest = Some (concat files) \<and> h = hex_text (sha1 (concat files))
      | Inl e \<Rightarrow> dest = None \<and> (\<exists>rng \<in> set ranges. unserved net urls rng))"

lemma segmented_result_outcome:
  assumes "segmented_inv net urls ranges s" "\<And>i. i < length ranges \<Longrightarrow> \<exists>r. sg_threads s ! i = SegmentDone r"
    and "segmented_result sha1 file_size s = (result, dest, events)"
  shows "segments_outcome net sha1 urls ranges result dest"
proof (cases "join_threads (sg_threads s) True []")
  case (Inl e)
  then obtain x e' where "x \<in> set (sg_threads s)" "x = SegmentDone (Inl e')"
    using join_threads_Inr [of "sg_threads s" True "[]" "()"] by auto
  then have "sg_failed s"
    using assms(1) by (fastforce simp: segmented_inv_def in_set_conv_nth)
  then show ?thesis
    using assms(1,3) Inl by (auto simp: segmented_result_def segments_outcome_def segmented_inv_def Let_def)
next
  case (Inr u)
  then have no_error: "\<And>x e. x \<in> set (sg_threads s) \<Longrightarrow> x \<noteq> SegmentDone (Inl e)"
    by (simp add: join_threads_Inr)
  let ?files = "map segment_file (sg_threads s)"
  have len: "length (sg_threads s) = length ranges"
    using assms(1) by (simp add: segmented_inv_def)
  have "\<exists>u \<in> set urls. serves_range net u (ranges ! i) (segment_file (sg_threads s ! i))" if i: "i < length ranges" for i
  proof -
    obtain r where "sg_threads s ! i = SegmentDone r"
      using assms(2) i by blast
    then obtain f where "sg_threads s ! i = SegmentDone (Inr f)"
      using no_error [of "sg_threads s ! i"] i len by (cases r) auto
    moreover have "thread_ok net urls (sg_failed s) (ranges ! i) (sg_threads s ! i)"
      using assms(1) i by (simp add: segmented_inv_def)
    ultimately show ?thesis
      by simp
  qed
  then have "list_all2 (\<lambda>rng f. \<exists>u \<in> set urls. serves_range net u rng f) ranges ?files"
    using len by (simp add: list_all2_conv_all_nth)
  then show ?thesis
    using assms(3) Inr by (auto simp: segmented_result_def segments_outcome_def assemble_segments_def Let_def)
qed

lemma served_files_length:
  assumes "list_all2 (\<lambda>rng f. \<exists>u \<in> set urls. serves_range net u rng f) ranges files" "\<And>s e. (s, e) \<in> set ranges \<Longrightarrow> s \<le> e"
  shows "length (concat files) = length (concat (map (\<lambda>(s, e). [s..<Suc e]) ranges))"
  using assms
proof (induction ranges files rule: list_all2_induct)
  case (Cons rng ranges f files)
  then show ?case
    by (cases rng) (auto simp: serves_range_def Suc_diff_le simp del: upt_Suc)
qed simp

section \<open>Properties\<close>

text \<open>
  the segmented download, under every fair interleaving of its threads. It succeeds unless some
  range is served by no mirror, although a thread gives up as soon as the shared flag is raised. When it
  succeeds the destination is made of one range after the other, each as some mirror served it; it has
  exactly the length of the file, and the SHA-1 returned is that of the destination.
\<close>

theorem segmented_download_outcome:
  assumes "urls \<noteq> []" "0 < file_size" "probe_range_support net (hd urls)"
    and "fair_segments urls (effective_mirrors (length urls) file_size) schedule"
    and "segmented_download net sha1 os urls file_size schedule = (result, dest, events)"
  shows "segments_outcome net sha1 urls (segments (length urls) file_size) result dest \<and>
    (\<forall>file. dest = Some file \<longrightarrow> length file = file_size)"
proof -
  let ?ranges = "segments (length urls) file_size"
  let ?s = "fold (segment_step net urls ?ranges) schedule (segmented_init (length ?ranges))"
  have "segmented_result sha1 file_size ?s = (result, dest, events)"
    using assms by (simp add: segmented_download_def Let_def)
  moreover have "segmented_inv net urls ?ranges ?s"
    using segments.inv_fold [of urls net ?ranges] segmented_inv_init assms(1) by blast
  ultimately have outcome: "segments_outcome net sha1 urls ?ranges result dest"
    using fair_segments_done [of urls ?ranges schedule _ net] assms(4) by (intro segmented_result_outcome) auto
  moreover have "length file = file_size" if found: "dest = Some file" for "file"
  proof -
    obtain files where "list_all2 (\<lambda>rng f. \<exists>u \<in> set urls. serves_range net u rng f) ?ranges files" "file = concat files"
      using outcome found by (auto simp: segments_outcome_def split: sum.splits)
    moreover from this(1) have "length (concat files) = length (concat (map (\<lambda>(s, e). [s..<Suc e]) ?ranges))"
      using assms(1,2) by (intro served_files_length) (auto intro: segment_nonempty)
    ultimately show ?thesis
      using segments_tile [of "length urls" file_size] assms(1,2) by simp
  qed
  ultimately show ?thesis
    by blast
qed

definition sample_mirrors :: http where
  "sample_mirrors url rng =
     Inr \<lparr>hr_status = 206, hr_content_length = None, hr_chunks = (if url = [98] then [[7], [8]] else [[7]]), hr_error = None\<rparr>"

lemma sample_segments: "segments (Suc (Suc 0)) 2 = [(0, 1)]" "segments (Suc (Suc 0)) (Suc (Suc 0)) = [(0, 1)]"
  by (simp_all add: segments_def effective_mirrors_def MIN_SEGMENT_SIZE_def)

lemma sample_fair: "fair_segments [[97], [98]] (effective_mirrors (length [[97 :: u8], [98]]) 2) [0, 0, 0]"
  by (simp add: fair_segments_def fallback_urls_def effective_mirrors_def MIN_SEGMENT_SIZE_def)

lemma sample_serves: "serves_range sample_mirrors url (0, 1) f \<longleftrightarrow> url = [98] \<and> f = [7, 8]"
  by (auto simp: serves_range_def sample_mirrors_def available_def)

theorem segmented_download_outcome_witness:
  "\<exists>events. segmented_download sample_mirrors id \<lparr>fm_rename = None, fm_copy = None\<rparr> [[97], [98]] 2 [0, 0, 0]
     = (Inr (hex_text [7, 8]), Some [7, 8], events)"
proof -
  let ?os = "\<lparr>fm_rename = None, fm_copy = None\<rparr>"
  obtain result dest events where run: "segmented_download sample_mirrors id ?os [[97], [98]] 2 [0, 0, 0] = (result, dest, events)"
    by (metis prod_cases3)
  have "segments_outcome sample_mirrors id [[97], [98]] (segments (length [[97 :: u8], [98]]) 2) result dest"
    using segmented_download_outcome [OF _ _ _ sample_fair run] by (simp add: probe_range_support_def sample_mirrors_def)
  moreover have "\<not> unserved sample_mirrors [[97], [98]] (0, 1)"
    by (simp add: unserved_def sample_serves del: One_nat_def)
  ultimately show ?thesis
    unfolding run by (auto simp: segments_outcome_def sample_segments sample_serves list_all2_Cons1 simp del: One_nat_def split: sum.splits)
qed






end
