(* ===== verification/Unzip.thy ===== *)
theory Unzip
  imports Race Install
begin

text \<open>
  What follows a download: \<open>src/downloader/extract.rs\<close>. The reader of ZIP archives is a parameter: the
  entries of an archive with their declared sizes, and what reading one delivers before it ends or
  fails. Paths, boundaries and writes are those of the executor's environment.
\<close>

section \<open>Computations\<close>

record dl_state =
  dl_files :: disk
  dl_events :: "download_progress list"

type_synonym 'a dl = "dl_state \<Rightarrow> (download_error + 'a) \<times> dl_state"

definition dl_return :: "'a \<Rightarrow> 'a dl" where
  "dl_return a s = (Inr a, s)"

definition dl_fail :: "download_error \<Rightarrow> 'a dl" where
  "dl_fail e s = (Inl e, s)"

definition dl_bind :: "'a dl \<Rightarrow> ('a \<Rightarrow> 'b dl) \<Rightarrow> 'b dl" where
  "dl_bind m f s = (case m s of (Inl e, s') \<Rightarrow> (Inl e, s') | (Inr a, s') \<Rightarrow> f a s')"

definition dl_result :: "download_error + 'a \<Rightarrow> 'a dl" where
  "dl_result r s = (r, s)"

definition dl_report :: "download_progress \<Rightarrow> unit dl" where
  "dl_report e s = (Inr (), s\<lparr>dl_events := dl_events s @ [e]\<rparr>)"

definition dl_read :: "path \<Rightarrow> bytes dl" where
  "dl_read p s = (map_sum DownloadIo id (fs_read (dl_files s) p), s)"

definition dl_write :: "environment \<Rightarrow> path \<Rightarrow> bytes \<Rightarrow> unit dl" where
  "dl_write env p data s =
     (case os_write env p data (dl_files s) of (r, fs) \<Rightarrow> (map_sum DownloadIo id r, s\<lparr>dl_files := fs\<rparr>))"

text \<open>\<open>let _ = fs::remove_file(p)\<close>.\<close>

definition dl_discard :: "environment \<Rightarrow> path \<Rightarrow> unit dl" where
  "dl_discard env p s = (Inr (), s\<lparr>dl_files := snd (os_remove env p (dl_files s))\<rparr>)"

section \<open>ZIP archives\<close>

record zip_entry =
  ze_name :: bytes
  ze_size :: u64
  ze_data :: bytes
  ze_error :: "io_error option"

type_synonym zip_reader = "bytes \<Rightarrow> string + (string + zip_entry) list"

definition MAX_ENTRY_UNCOMPRESSED :: u64 where "MAX_ENTRY_UNCOMPRESSED = 1073741824"

definition MAX_TOTAL_UNCOMPRESSED :: u64 where "MAX_TOTAL_UNCOMPRESSED = 5368709120"

definition MAX_ZIP_ENTRIES :: nat where "MAX_ZIP_ENTRIES = 100000"

definition is_directory_entry :: "bytes \<Rightarrow> bool" where
  "is_directory_entry name \<longleftrightarrow> name \<noteq> [] \<and> last name = 47"

definition quoted :: "bytes \<Rightarrow> string" where
  "quoted name = char_of (34 :: nat) # message_text name @ [char_of (34 :: nat)]"

definition entry_too_large :: "zip_entry \<Rightarrow> download_error" where
  "entry_too_large e =
     DownloadZip (''entry '' @ quoted (ze_name e) @ '' declares '' @ show_nat (unat (ze_size e)) @ '' bytes uncompressed (max ''
       @ show_nat (unat MAX_ENTRY_UNCOMPRESSED) @ '')'')"

definition archive_too_large :: download_error where
  "archive_too_large =
     DownloadZip (''total uncompressed size exceeds '' @ show_nat (unat MAX_TOTAL_UNCOMPRESSED) @ '' bytes '' @ em_dash
       @ '' possible archive bomb'')"

definition blocked_entry :: "bytes \<Rightarrow> string \<Rightarrow> download_error" where
  "blocked_entry name e = DownloadZip (''blocked path traversal in ZIP entry '' @ quoted name @ '': '' @ e)"

text \<open>
  The loop over the entries: the index, the files extracted so far and the sum of the declared sizes.
  \<open>io::copy\<close> writes what the entry delivers, also before an error.
\<close>

primrec extract_entries ::
  "environment \<Rightarrow> path \<Rightarrow> nat \<Rightarrow> (string + zip_entry) list \<Rightarrow> nat \<Rightarrow> nat \<Rightarrow> u64 \<Rightarrow> nat dl"
where
  "extract_entries env content n_entries [] i files total_uncompressed = dl_return files"
| "extract_entries env content n_entries (r # rs) i files total_uncompressed =
     dl_bind (dl_result (map_sum DownloadZip id r)) (\<lambda>e.
       if is_directory_entry (ze_name e)
       then extract_entries env content n_entries rs (Suc i) files total_uncompressed
       else if MAX_ENTRY_UNCOMPRESSED < ze_size e then dl_fail (entry_too_large e)
       else let sum = sat_add total_uncompressed (ze_size e) in
         if MAX_TOTAL_UNCOMPRESSED < sum then dl_fail archive_too_large
         else
           dl_bind (dl_report (ExtractingEntry (ze_name e) i n_entries)) (\<lambda>_.
           dl_bind (dl_result (map_sum (blocked_entry (ze_name e)) id (strict_join env content (ze_name e)))) (\<lambda>dest.
           dl_bind (dl_write env dest (ze_data e)) (\<lambda>_.
             case ze_error e of
               None \<Rightarrow> extract_entries env content n_entries rs (Suc i) (Suc files) sum
             | Some err \<Rightarrow> dl_fail (DownloadIo err)))))"

definition extract_zip :: "environment \<Rightarrow> zip_reader \<Rightarrow> path \<Rightarrow> path \<Rightarrow> nat dl" where
  "extract_zip env open_archive zip_path content =
     dl_bind (dl_read zip_path) (\<lambda>data.
     dl_bind (dl_result (map_sum DownloadZip id (open_archive data))) (\<lambda>entries.
       if MAX_ZIP_ENTRIES < length entries
       then dl_fail (DownloadZip (''archive has '' @ show_nat (length entries) @ '' entries (max '' @ show_nat MAX_ZIP_ENTRIES @ '')''))
       else
         dl_bind (dl_result (map_sum (\<lambda>e. DownloadZip (''failed to create content boundary: '' @ e)) id
             (try_create_boundary env content))) (\<lambda>_.
           extract_entries env content (length entries) entries 0 0 0)))"

section \<open>The output of a torrent\<close>

text \<open>\<open>Path::extension\<close> of a file name: what follows the last dot, unless the name begins with it.\<close>

definition file_extension :: "bytes \<Rightarrow> bytes" where
  "file_extension name =
     (let ext = takeWhile (\<lambda>b. b \<noteq> 46) (rev name)
      in if name = [46, 46] \<or> length name \<le> length ext + 1 then [] else rev ext)"

text \<open>
  A recipe runs with the executor's own events, which are not passed on; \<open>describe\<close> writes the package
  and an error of the executor as text.
\<close>

definition run_recipe :: "environment \<Rightarrow> (package_id \<Rightarrow> executor_error \<Rightarrow> string) \<Rightarrow> install_recipe \<Rightarrow> path \<Rightarrow> path \<Rightarrow> unit dl" where
  "run_recipe env describe r source_root content s =
     (case execute_recipe env (rc_actions r) source_root content \<lparr>ex_files = dl_files s, ex_events = []\<rparr> of
        (result, s') \<Rightarrow>
          (map_sum (\<lambda>e. DownloadZip (''recipe execution failed for '' @ describe (rc_package r) e)) id result, s\<lparr>dl_files := ex_files s'\<rparr>))"

text \<open>
  The first source of a provided package, in the order of the packages, that has a recipe for it.
  The error, which names the package in the code, is that of a package without definition.
\<close>

fun first_recipe_source :: "package_id list \<Rightarrow> download_error + source_id option" where
  "first_recipe_source [] = Inr None"
| "first_recipe_source (p # ps) =
     (case package p of
        None \<Rightarrow> Inl (DownloadIo (IoOther ''no package definition''))
      | Some pkg \<Rightarrow>
          (case find (\<lambda>s. recipe s p \<noteq> None) (cp_sources pkg) of
             Some s \<Rightarrow> Inr (Some s)
           | None \<Rightarrow> first_recipe_source ps))"

definition pkg_id_label :: "package_id \<Rightarrow> string" where
  "pkg_id_label i = (case package i of None \<Rightarrow> ''(unknown)'' | Some p \<Rightarrow> cp_title p)"

definition source_label :: "source_id \<Rightarrow> string" where
  "source_label i = (case source_of i of None \<Rightarrow> ''(unknown)'' | Some s \<Rightarrow> cs_title s)"

primrec run_recipes ::
  "environment \<Rightarrow> (package_id \<Rightarrow> executor_error \<Rightarrow> string) \<Rightarrow> path \<Rightarrow> path \<Rightarrow> nat \<Rightarrow> source_id \<Rightarrow> package_id list \<Rightarrow> nat \<Rightarrow> nat dl"
where
  "run_recipes env describe iso_path content n_packages source [] files = dl_return files"
| "run_recipes env describe iso_path content n_packages source (p # ps) files =
     (case recipe source p of
        None \<Rightarrow> run_recipes env describe iso_path content n_packages source ps files
      | Some r \<Rightarrow>
          dl_bind (dl_report (ExtractingEntry (ascii (''recipe: '' @ pkg_id_label p @ '' from '' @ source_label source)) files n_packages)) (\<lambda>_.
          dl_bind (run_recipe env describe r iso_path content) (\<lambda>_.
            run_recipes env describe iso_path content n_packages source ps (files + length (rc_actions r)))))"

definition extract_iso_via_recipes ::
  "environment \<Rightarrow> hash \<Rightarrow> (package_id \<Rightarrow> executor_error \<Rightarrow> string) \<Rightarrow> path \<Rightarrow> path \<Rightarrow> package_id list \<Rightarrow> nat dl"
where
  "extract_iso_via_recipes env sha1 describe iso_path content provides =
     dl_bind (\<lambda>s. case identify_source sha1 ALL_SOURCES (dl_files s) iso_path of
                    Some i \<Rightarrow> (Inr (Some i), s)
                  | None \<Rightarrow> (first_recipe_source provides, s)) (\<lambda>found.
       case found of
         None \<Rightarrow> dl_return 0
       | Some source \<Rightarrow> run_recipes env describe iso_path content (length provides) source provides 0)"

text \<open>
  The directory a torrent was downloaded to: the names of its files and its subdirectories, in the
  order they are listed.
\<close>

datatype directory = Directory "bytes list" "(bytes \<times> directory) list"

definition extract_torrent_file ::
  "environment \<Rightarrow> zip_reader \<Rightarrow> hash \<Rightarrow> (package_id \<Rightarrow> executor_error \<Rightarrow> string) \<Rightarrow> path \<Rightarrow> package_id list \<Rightarrow> path \<Rightarrow> bytes \<Rightarrow> nat dl"
where
  "extract_torrent_file env open_archive sha1 describe content provides dir name =
     (let p = path_join dir name; ext = to_ascii_lowercase (file_extension name) in
      if ext = ascii ''zip'' then extract_zip env open_archive p content
      else if ext = ascii ''iso'' then extract_iso_via_recipes env sha1 describe p content provides
      else if \<not> utf8_valid name then dl_fail (DownloadZip (''non-UTF-8 filename in torrent output: '' @ message_text p))
      else
        dl_bind (dl_result (map_sum (\<lambda>e. DownloadZip (''blocked path in torrent output '' @ quoted name @ '': '' @ e)) id
            (strict_join env content name))) (\<lambda>dest.
        dl_bind (dl_read p) (\<lambda>data.
        dl_bind (dl_write env dest data) (\<lambda>_. dl_return 1))))"

primrec sum_each :: "('a \<Rightarrow> nat dl) \<Rightarrow> 'a list \<Rightarrow> nat \<Rightarrow> nat dl" where
  "sum_each f [] n = dl_return n"
| "sum_each f (x # xs) n = dl_bind (f x) (\<lambda>k. sum_each f xs (n + k))"

fun extract_torrent_output ::
  "environment \<Rightarrow> zip_reader \<Rightarrow> hash \<Rightarrow> (package_id \<Rightarrow> executor_error \<Rightarrow> string) \<Rightarrow> path \<Rightarrow> package_id list \<Rightarrow> path \<Rightarrow> directory \<Rightarrow> nat dl"
and extract_subdirectories ::
  "environment \<Rightarrow> zip_reader \<Rightarrow> hash \<Rightarrow> (package_id \<Rightarrow> executor_error \<Rightarrow> string) \<Rightarrow> path \<Rightarrow> package_id list \<Rightarrow> path \<Rightarrow> (bytes \<times> directory) list
     \<Rightarrow> nat \<Rightarrow> nat dl"
where
  "extract_torrent_output env open_archive sha1 describe content provides dir (Directory names subdirs) =
     dl_bind (dl_result (map_sum (\<lambda>e. DownloadZip (''failed to create content boundary: '' @ e)) id
         (try_create_boundary env content))) (\<lambda>_.
     dl_bind (sum_each (extract_torrent_file env open_archive sha1 describe content provides dir) names 0) (\<lambda>n.
       extract_subdirectories env open_archive sha1 describe content provides dir subdirs n))"
| "extract_subdirectories env open_archive sha1 describe content provides dir [] n = dl_return n"
| "extract_subdirectories env open_archive sha1 describe content provides dir ((name, d) # ds) n =
     dl_bind (extract_torrent_output env open_archive sha1 describe content provides (path_join dir name) d) (\<lambda>k.
       extract_subdirectories env open_archive sha1 describe content provides dir ds (n + k))"

section \<open>Extraction stays inside the content directory\<close>

definition dl_confined :: "path \<Rightarrow> 'a dl \<Rightarrow> bool" where
  "dl_confined content m \<longleftrightarrow>
     (\<forall>s p. \<not> inside content p \<longrightarrow> Mapping.lookup (dl_files (snd (m s))) p = Mapping.lookup (dl_files s) p)"

lemma dl_confined_bind:
  "dl_confined content m \<Longrightarrow> (\<And>a. dl_confined content (f a)) \<Longrightarrow> dl_confined content (dl_bind m f)"
  unfolding dl_confined_def dl_bind_def by (simp split: prod.split sum.split) (metis snd_conv)

lemma map_sum_Inr [simp]: "map_sum f id r = Inr b \<longleftrightarrow> r = Inr b"
  by (cases r) auto

lemma dl_confined_pure [simp]:
  "dl_confined content (dl_return a)" "dl_confined content (dl_fail e)" "dl_confined content (dl_result r)"
  "dl_confined content (dl_report ev)" "dl_confined content (dl_read p)"
  by (simp_all add: dl_confined_def dl_return_def dl_fail_def dl_result_def dl_report_def dl_read_def)

context installer_environment
begin

lemma dl_confined_write: "inside content p \<Longrightarrow> dl_confined content (dl_write env p data)"
  using write_frame by (auto simp: dl_confined_def dl_write_def split: prod.splits) (metis snd_conv)

lemma dl_confined_joined:
  "(\<And>p. inside content p \<Longrightarrow> dl_confined content (f p)) \<Longrightarrow> dl_confined content (dl_bind (dl_result (map_sum e id (strict_join env content name))) f)"
  using join_inside by (cases "strict_join env content name") (auto simp: dl_confined_def dl_bind_def dl_result_def)

lemma extract_entries_confined: "dl_confined content (extract_entries env content n_entries rs i files total_size)"
proof (induction rs arbitrary: i files total_size)
  case (Cons r rs)
  then show ?case
    by (auto simp: Let_def intro!: dl_confined_bind dl_confined_joined dl_confined_write split: option.split)
qed simp

lemma extract_zip_confined: "dl_confined content (extract_zip env open_archive zip_path content)"
  by (auto simp: extract_zip_def intro!: dl_confined_bind extract_entries_confined)

lemma run_recipe_confined: "dl_confined content (run_recipe env describe r source_root content)"
proof -
  have "confined content s s'" if "execute_recipe env (rc_actions r) source_root content s = (result, s')" for s result s'
    using execute_recipe_outcome [OF that] by blast
  then show ?thesis
    by (fastforce simp: dl_confined_def run_recipe_def confined_def split: prod.splits)
qed

lemma run_recipes_confined: "dl_confined content (run_recipes env describe iso_path content n source ps files)"
  by (induction ps arbitrary: files) (auto intro!: dl_confined_bind run_recipe_confined split: option.split)

lemma extract_iso_confined: "dl_confined content (extract_iso_via_recipes env sha1 describe iso_path content provides)"
  unfolding extract_iso_via_recipes_def
  by (intro dl_confined_bind) (auto simp: dl_confined_def run_recipes_confined [unfolded dl_confined_def] dl_return_def split: option.split)

lemma sum_each_confined: "(\<And>x. dl_confined content (f x)) \<Longrightarrow> dl_confined content (sum_each f xs n)"
  by (induction xs arbitrary: n) (auto intro: dl_confined_bind)

lemma extract_torrent_file_confined:
  "dl_confined content (extract_torrent_file env open_archive sha1 describe content provides dir name)"
  by (auto simp: extract_torrent_file_def Let_def
      intro!: extract_zip_confined extract_iso_confined dl_confined_bind dl_confined_joined dl_confined_write)

lemma extract_subdirectories_confined:
  "(\<And>name d dir. (name, d) \<in> set ds \<Longrightarrow> dl_confined content (extract_torrent_output env open_archive sha1 describe content provides dir d)) \<Longrightarrow>
     dl_confined content (extract_subdirectories env open_archive sha1 describe content provides dir ds n)"
proof (induction ds arbitrary: n)
  case (Cons x ds)
  then show ?case
    by (cases x) (auto intro!: dl_confined_bind)
qed simp

lemma extract_torrent_output_confined:
  "dl_confined content (extract_torrent_output env open_archive sha1 describe content provides dir d)"
proof (induction d arbitrary: dir)
  case (Directory names subdirs)
  then show ?case
    by (force intro!: dl_confined_bind sum_each_confined extract_torrent_file_confined extract_subdirectories_confined)
qed

text \<open>A write that succeeds changes its own path only.\<close>

lemma dl_write_Inr:
  assumes "dl_write env p data s = (Inr u, s')"
  shows "Mapping.lookup (dl_files s') = (Mapping.lookup (dl_files s))(p \<mapsto> data)"
proof -
  obtain fs where fs: "os_write env p data (dl_files s) = (Inr (), fs)" "dl_files s' = fs"
    using assms by (auto simp: dl_write_def split: prod.splits sum.splits)
  then show ?thesis
    using write_stores [OF fs(1)] write_frame [of _ p data "dl_files s"] by (auto simp: fun_eq_iff)
qed

end

section \<open>What the extraction of an archive writes\<close>

definition file_entries :: "zip_entry list \<Rightarrow> zip_entry list" where
  "file_entries es = filter (\<lambda>e. \<not> is_directory_entry (ze_name e)) es"

text \<open>The writes of the entries, in their order: the path an entry is joined to, and its data.\<close>

definition zip_writes :: "environment \<Rightarrow> path \<Rightarrow> zip_entry list \<Rightarrow> (path \<times> bytes) list" where
  "zip_writes env content es = map (\<lambda>e. (projr (strict_join env content (ze_name e)), ze_data e)) (file_entries es)"

definition entry_ok :: "environment \<Rightarrow> path \<Rightarrow> zip_entry \<Rightarrow> bool" where
  "entry_ok env content e \<longleftrightarrow>
     ze_size e \<le> MAX_ENTRY_UNCOMPRESSED \<and> (\<exists>p. strict_join env content (ze_name e) = Inr p) \<and> ze_error e = None"

lemma dl_bind_Inr: "dl_bind m f s = (Inr a, s') \<longleftrightarrow> (\<exists>b s1. m s = (Inr b, s1) \<and> f b s1 = (Inr a, s'))"
  by (auto simp: dl_bind_def split: prod.splits sum.splits)

lemma dl_simps [simp]:
  "dl_return a s = (Inr b, s') \<longleftrightarrow> a = b \<and> s = s'" "dl_fail e s \<noteq> (Inr b, s')"
  "dl_result r s = (Inr b, s') \<longleftrightarrow> r = Inr b \<and> s = s'"
  "dl_report ev s = (Inr u, s') \<longleftrightarrow> s' = s\<lparr>dl_events := dl_events s @ [ev]\<rparr>"
  by (auto simp: dl_return_def dl_fail_def dl_result_def dl_report_def)

context installer_environment
begin

lemma extract_entries_Inr:
  assumes "extract_entries env content n_entries rs i files total_size s = (Inr n, s')" "total_size \<le> MAX_TOTAL_UNCOMPRESSED"
  shows "\<exists>es. rs = map Inr es \<and> n = files + length (file_entries es) \<and> (\<forall>e \<in> set (file_entries es). entry_ok env content e)
    \<and> unat total_size + sum_list (map (unat \<circ> ze_size) (file_entries es)) \<le> unat MAX_TOTAL_UNCOMPRESSED
    \<and> Mapping.lookup (dl_files s') = Mapping.lookup (dl_files s) ++ map_of (rev (zip_writes env content es))"
  using assms
proof (induction rs arbitrary: i files total_size s)
  case Nil
  then show ?case
    by (intro exI [of _ "[]"]) (auto simp: file_entries_def zip_writes_def word_le_nat_alt)
next
  case (Cons r rs)
  obtain e where r: "r = Inr e"
    using Cons.prems(1) by (auto simp: dl_bind_Inr)
  show ?case
  proof (cases "is_directory_entry (ze_name e)")
    case True
    then have "extract_entries env content n_entries rs (Suc i) files total_size s = (Inr n, s')"
      using Cons.prems(1) r by (auto simp: dl_bind_Inr)
    then obtain es where "rs = map Inr es" "n = files + length (file_entries es)" "\<forall>e \<in> set (file_entries es). entry_ok env content e"
      "unat total_size + sum_list (map (unat \<circ> ze_size) (file_entries es)) \<le> unat MAX_TOTAL_UNCOMPRESSED"
      "Mapping.lookup (dl_files s') = Mapping.lookup (dl_files s) ++ map_of (rev (zip_writes env content es))"
      using Cons.IH Cons.prems(2) by blast
    then show ?thesis
      using True r by (intro exI [of _ "e # es"]) (simp add: file_entries_def zip_writes_def comp_def)
  next
    case False
    let ?sum = "sat_add total_size (ze_size e)"
    obtain p u s1 where step: "ze_size e \<le> MAX_ENTRY_UNCOMPRESSED" "?sum \<le> MAX_TOTAL_UNCOMPRESSED"
      "strict_join env content (ze_name e) = Inr p" "ze_error e = None"
      "dl_write env p (ze_data e) (s\<lparr>dl_events := dl_events s @ [ExtractingEntry (ze_name e) i n_entries]\<rparr>) = (Inr u, s1)"
      "extract_entries env content n_entries rs (Suc i) (Suc files) ?sum s1 = (Inr n, s')"
      using Cons.prems(1) r False
      by (auto simp: dl_bind_Inr Let_def not_less split: if_splits option.splits)
    obtain es where es: "rs = map Inr es" "n = Suc files + length (file_entries es)" "\<forall>e \<in> set (file_entries es). entry_ok env content e"
      "unat ?sum + sum_list (map (unat \<circ> ze_size) (file_entries es)) \<le> unat MAX_TOTAL_UNCOMPRESSED"
      "Mapping.lookup (dl_files s') = Mapping.lookup (dl_files s1) ++ map_of (rev (zip_writes env content es))"
      using Cons.IH [OF step(6,2)] by blast
    have "unat ?sum = unat total_size + unat (ze_size e)"
      using step(2) by (simp add: unat_sat_add word_le_nat_alt MAX_TOTAL_UNCOMPRESSED_def min_def split: if_splits)
    then show ?thesis
      using es False r step dl_write_Inr [OF step(5)]
      by (intro exI [of _ "e # es"]) (simp add: file_entries_def zip_writes_def entry_ok_def comp_def)
  qed
qed

end

definition sample_zip :: zip_reader where
  "sample_zip data =
     (if data = [80, 75]
      then Inr [Inr \<lparr>ze_name = [97, 47], ze_size = 0, ze_data = [], ze_error = None\<rparr>,
                Inr \<lparr>ze_name = [97, 47, 98], ze_size = 2, ze_data = [1, 2], ze_error = None\<rparr>]
      else Inl ''not an archive'')"

definition sample_download :: dl_state where
  "sample_download = \<lparr>dl_files = Mapping.update [122] [80, 75] Mapping.empty, dl_events = []\<rparr>"

lemmas dl_run_defs =
  dl_bind_def dl_result_def dl_report_def dl_read_def dl_write_def dl_return_def dl_fail_def dl_discard_def fs_read_def

lemma extract_zip_outcome:
  assumes "installer_environment env" "extract_zip env open_archive zip_path content s = (Inr n, s')"
  shows "\<exists>data es. Mapping.lookup (dl_files s) zip_path = Some data \<and> open_archive data = Inr (map Inr es)
    \<and> length es \<le> MAX_ZIP_ENTRIES \<and> n = length (file_entries es) \<and> (\<forall>e \<in> set (file_entries es). entry_ok env content e)
    \<and> sum_list (map (unat \<circ> ze_size) (file_entries es)) \<le> unat MAX_TOTAL_UNCOMPRESSED
    \<and> Mapping.lookup (dl_files s') = Mapping.lookup (dl_files s) ++ map_of (rev (zip_writes env content es))"
proof -
  obtain data rs where open_ok: "Mapping.lookup (dl_files s) zip_path = Some data" "open_archive data = Inr rs" "length rs \<le> MAX_ZIP_ENTRIES"
    and run: "extract_entries env content (length rs) rs 0 0 0 s = (Inr n, s')"
    using assms(2) by (auto simp: extract_zip_def dl_bind_Inr dl_read_def fs_read_def not_less split: if_splits)
  have "(0 :: u64) \<le> MAX_TOTAL_UNCOMPRESSED"
    by simp
  then obtain es where "rs = map Inr es" "n = 0 + length (file_entries es)" "\<forall>e \<in> set (file_entries es). entry_ok env content e"
    "unat (0 :: u64) + sum_list (map (unat \<circ> ze_size) (file_entries es)) \<le> unat MAX_TOTAL_UNCOMPRESSED"
    "Mapping.lookup (dl_files s') = Mapping.lookup (dl_files s) ++ map_of (rev (zip_writes env content es))"
    using installer_environment.extract_entries_Inr [OF assms(1) run] by blast
  then show ?thesis
    using open_ok by (intro exI [of _ data] exI [of _ es]) simp
qed

section \<open>Properties\<close>

text \<open>
  C30: what unpacking an archive does. When it succeeds, every entry could be read, the entries are not
  more than the limit, none declares more than its limit and together they declare no more than theirs;
  the result is the number of entries that are not directories. The files are then exactly the old ones
  with the writes of the entries in their order, each to the path its name is joined to.
\<close>

theorem extract_zip_exact:
  assumes "installer_environment env" "extract_zip env open_archive zip_path content s = (Inr n, s')"
  shows "\<exists>data es. Mapping.lookup (dl_files s) zip_path = Some data \<and> open_archive data = Inr (map Inr es)
    \<and> length es \<le> MAX_ZIP_ENTRIES \<and> n = length (file_entries es) \<and> (\<forall>e \<in> set (file_entries es). entry_ok env content e)
    \<and> sum_list (map (unat \<circ> ze_size) (file_entries es)) \<le> unat MAX_TOTAL_UNCOMPRESSED
    \<and> Mapping.lookup (dl_files s') = Mapping.lookup (dl_files s) ++ map_of (rev (zip_writes env content es))"
  using extract_zip_outcome [OF assms] .

theorem extract_zip_exact_witness:
  "\<exists>s' es. extract_zip plain_environment sample_zip [122] [99] sample_download = (Inr 1, s') \<and> length (file_entries es) = 1
     \<and> Mapping.lookup (dl_files s') = Mapping.lookup (dl_files sample_download) ++ map_of (rev (zip_writes plain_environment [99] es))"
proof -
  obtain s' where run: "extract_zip plain_environment sample_zip [122] [99] sample_download = (Inr 1, s')"
    by (simp add: extract_zip_def dl_run_defs sample_download_def sample_zip_def MAX_ZIP_ENTRIES_def plain_environment_def
        is_directory_entry_def MAX_ENTRY_UNCOMPRESSED_def MAX_TOTAL_UNCOMPRESSED_def sat_add_def Let_def)
  then show ?thesis
    using extract_zip_exact [OF plain.installer_environment_axioms run] by metis
qed

end
