(* ===== verification/Downloader.thy ===== *)
theory Downloader
  imports Segments Unzip
begin

text \<open>
  The installer's downloader: \<open>src/downloader/mod.rs\<close> and \<open>src/downloader/orchestrate.rs\<close>, with the
  download packages of \<open>src/lib.rs\<close> and \<open>src/downloads.rs\<close>. The table of packages is the parsed file
  \<open>data/downloads.toml\<close> and a parameter, as are the environment variables, the answers of the network,
  the schedule of the threads of a download, the TOML writer, and what BitTorrent delivers.
\<close>

section \<open>Download packages\<close>

record download_package =
  dp_id :: download_id
  dp_game :: game_id
  dp_title :: bytes
  dp_mirror_list_url :: "bytes option"
  dp_direct_urls :: "bytes list"
  dp_sha1 :: "bytes option"
  dp_info_hash :: "bytes option"
  dp_trackers :: "bytes list"
  dp_web_seeds :: "bytes list"
  dp_mirrors :: "bytes list"
  dp_provides :: "package_id list"
  dp_format :: bytes
  dp_size_hint :: nat

definition is_available :: "download_package \<Rightarrow> bool" where
  "is_available p \<longleftrightarrow>
     dp_mirrors p \<noteq> [] \<or> dp_mirror_list_url p \<noteq> None \<or> dp_direct_urls p \<noteq> [] \<or> dp_web_seeds p \<noteq> []
     \<or> dp_info_hash p \<noteq> None"


definition downloads_for_game :: "download_package list \<Rightarrow> game_id \<Rightarrow> download_package list" where
  "downloads_for_game all game = filter (\<lambda>d. dp_game d = game) all"


section \<open>The surroundings\<close>


section \<open>Strategy\<close>



section \<open>Downloading a file\<close>






section \<open>A package over HTTP\<close>








section \<open>A package over BitTorrent\<close>





section \<open>The entry points\<close>







section \<open>The hash is that of the file\<close>










section \<open>Downloads stay inside the content directory\<close>























section \<open>Properties\<close>








end
