(* ===== verification/Metadata.thy ===== *)
theory Metadata
  imports Storage
begin

text \<open>
  The exchange of torrent metadata between peers (\<open>metadata_exchange.rs\<close>): the blocks of the info
  dictionary, received in any order from any peer, and their verification against the info hash.
  SHA-1 is an argument; a block index is a \<open>u32\<close>, sizes are \<open>usize\<close>.
\<close>

section \<open>Messages and errors\<close>

datatype metadata_message =
  MetaRequest u32
| MetaData u32 nat bytes
| MetaReject u32

fun meta_msg_type :: "metadata_message \<Rightarrow> u8" where
  "meta_msg_type (MetaRequest piece) = 0"
| "meta_msg_type (MetaData piece total_size payload) = 1"
| "meta_msg_type (MetaReject piece) = 2"

fun meta_piece :: "metadata_message \<Rightarrow> u32" where
  "meta_piece (MetaRequest piece) = piece"
| "meta_piece (MetaData piece total_size payload) = piece"
| "meta_piece (MetaReject piece) = piece"

datatype block_status = BlockMissing | BlockPending | BlockReceived

datatype metadata_error =
  MetaTooLarge nat nat
| EmptyMetadata
| MetaSizeMismatch nat nat
| InvalidBlock u32 u32
| BlockSizeMismatch u32 nat nat
| MetaIncomplete u32 u32
| MetaHashMismatch bytes bytes

section \<open>The exchange\<close>

definition METADATA_BLOCK_SIZE :: nat where
  "METADATA_BLOCK_SIZE = 16384"

definition MAX_METADATA_SIZE :: nat where
  "MAX_METADATA_SIZE = 10 * 1024 * 1024"

record metadata_exchange =
  mx_info_hash :: bytes
  mx_size :: "nat option"
  mx_blocks :: "block_status list"
  mx_buffer :: bytes
  mx_verified :: bool

definition mx_new :: "bytes \<Rightarrow> metadata_exchange" where
  "mx_new info_hash = \<lparr>mx_info_hash = info_hash, mx_size = None, mx_blocks = [], mx_buffer = [], mx_verified = False\<rparr>"

lemma METADATA_BLOCK_SIZE_pos [simp]: "0 < METADATA_BLOCK_SIZE" "METADATA_BLOCK_SIZE \<noteq> 0"
  by (simp_all add: METADATA_BLOCK_SIZE_def)

text \<open>\<open>usize::div_ceil\<close>.\<close>

definition div_ceil :: "nat \<Rightarrow> nat \<Rightarrow> nat" where
  "div_ceil a b = a div b + (if a mod b = 0 then 0 else 1)"

definition set_metadata_size :: "nat \<Rightarrow> metadata_exchange \<Rightarrow> (metadata_error + unit) \<times> metadata_exchange" where
  "set_metadata_size n mx =
     (if MAX_METADATA_SIZE < n then (Inl (MetaTooLarge n MAX_METADATA_SIZE), mx)
      else if n = 0 then (Inl EmptyMetadata, mx)
      else (Inr (), mx\<lparr>mx_size := Some n,
                       mx_blocks := replicate (div_ceil n METADATA_BLOCK_SIZE) BlockMissing,
                       mx_buffer := replicate n 0\<rparr>))"

definition next_needed_block :: "metadata_exchange \<Rightarrow> u32 option" where
  "next_needed_block mx = map_option word_of_nat (position (\<lambda>st. st = BlockMissing) (mx_blocks mx))"

definition mx_mark_pending :: "u32 \<Rightarrow> metadata_exchange \<Rightarrow> metadata_exchange" where
  "mx_mark_pending piece mx =
     (case get_at (mx_blocks mx) (unat piece) of
        Some BlockMissing \<Rightarrow> mx\<lparr>mx_blocks := (mx_blocks mx)[unat piece := BlockPending]\<rparr>
      | _ \<Rightarrow> mx)"

definition mx_handle_reject :: "u32 \<Rightarrow> metadata_exchange \<Rightarrow> metadata_exchange" where
  "mx_handle_reject piece mx =
     (case get_at (mx_blocks mx) (unat piece) of
        Some BlockPending \<Rightarrow> mx\<lparr>mx_blocks := (mx_blocks mx)[unat piece := BlockMissing]\<rparr>
      | _ \<Rightarrow> mx)"

definition block_offset :: "u32 \<Rightarrow> nat" where
  "block_offset piece = sat_mul_usize (unat piece) METADATA_BLOCK_SIZE"

definition block_length :: "nat \<Rightarrow> u32 \<Rightarrow> nat" where
  "block_length n piece = min METADATA_BLOCK_SIZE (n - block_offset piece)"

text \<open>The part of \<open>receive_block\<close> after the size is known.\<close>

definition store_block :: "u32 \<Rightarrow> nat \<Rightarrow> bytes \<Rightarrow> metadata_exchange \<Rightarrow> (metadata_error + unit) \<times> metadata_exchange" where
  "store_block piece total_size payload mx =
     (let meta_size = (case mx_size mx of None \<Rightarrow> 0 | Some n \<Rightarrow> n);
          offset = block_offset piece;
          expected_len = block_length meta_size piece
      in if total_size \<noteq> meta_size then (Inl (MetaSizeMismatch meta_size total_size), mx)
         else if length (mx_blocks mx) \<le> unat piece
         then (Inl (InvalidBlock piece (word_of_nat (length (mx_blocks mx)))), mx)
         else if length payload \<noteq> expected_len
         then (Inl (BlockSizeMismatch piece expected_len (length payload)), mx)
         else (Inr (), mx\<lparr>mx_buffer := (case get_range (mx_buffer mx) offset (sat_add_usize offset (length payload)) of
                                          None \<Rightarrow> mx_buffer mx
                                        | Some _ \<Rightarrow> overwrite offset payload (mx_buffer mx)),
                          mx_blocks := (mx_blocks mx)[unat piece := BlockReceived]\<rparr>))"

definition receive_block :: "u32 \<Rightarrow> nat \<Rightarrow> bytes \<Rightarrow> metadata_exchange \<Rightarrow> (metadata_error + unit) \<times> metadata_exchange" where
  "receive_block piece total_size payload mx =
     (if mx_size mx = None
      then (case set_metadata_size total_size mx of
              (Inl e, mx') \<Rightarrow> (Inl e, mx')
            | (Inr _, mx') \<Rightarrow> store_block piece total_size payload mx')
      else store_block piece total_size payload mx)"

definition all_blocks_received :: "metadata_exchange \<Rightarrow> bool" where
  "all_blocks_received mx \<longleftrightarrow> mx_blocks mx \<noteq> [] \<and> list_all (\<lambda>st. st = BlockReceived) (mx_blocks mx)"

definition mx_received_count :: "metadata_exchange \<Rightarrow> u32" where
  "mx_received_count mx = word_of_nat (length (filter (\<lambda>st. st = BlockReceived) (mx_blocks mx)))"

definition mx_verify :: "(bytes \<Rightarrow> bytes) \<Rightarrow> metadata_exchange \<Rightarrow> (metadata_error + bytes) \<times> metadata_exchange" where
  "mx_verify sha1 mx =
     (if \<not> all_blocks_received mx
      then (Inl (MetaIncomplete (mx_received_count mx) (word_of_nat (length (mx_blocks mx)))), mx)
      else let hash = sha1 (mx_buffer mx) in
        if hash \<noteq> mx_info_hash mx
        then (Inl (MetaHashMismatch (mx_info_hash mx) hash), mx\<lparr>mx_blocks := map (\<lambda>_. BlockMissing) (mx_blocks mx)\<rparr>)
        else (Inr (mx_buffer mx), mx\<lparr>mx_verified := True\<rparr>))"

definition mx_is_complete :: "metadata_exchange \<Rightarrow> bool" where
  "mx_is_complete mx = mx_verified mx"

definition mx_block_status :: "u32 \<Rightarrow> metadata_exchange \<Rightarrow> block_status option" where
  "mx_block_status piece mx = get_at (mx_blocks mx) (unat piece)"

section \<open>The machine\<close>

datatype mx_op =
  SetSize nat
| MarkPending u32
| ReceiveBlock u32 nat bytes
| HandleReject u32
| Verify

fun mx_step :: "(bytes \<Rightarrow> bytes) \<Rightarrow> mx_op \<Rightarrow> metadata_exchange \<Rightarrow> metadata_exchange" where
  "mx_step sha1 (SetSize n) mx = snd (set_metadata_size n mx)"
| "mx_step sha1 (MarkPending piece) mx = mx_mark_pending piece mx"
| "mx_step sha1 (ReceiveBlock piece total_size payload) mx = snd (receive_block piece total_size payload mx)"
| "mx_step sha1 (HandleReject piece) mx = mx_handle_reject piece mx"
| "mx_step sha1 Verify mx = snd (mx_verify sha1 mx)"

text \<open>The buffer has the announced size, and there are exactly as many blocks as it needs.\<close>

definition mx_inv :: "metadata_exchange \<Rightarrow> bool" where
  "mx_inv mx \<longleftrightarrow>
     (case mx_size mx of
        None \<Rightarrow> mx_blocks mx = [] \<and> mx_buffer mx = [] \<and> \<not> mx_verified mx
      | Some n \<Rightarrow> 0 < n \<and> n \<le> MAX_METADATA_SIZE \<and> length (mx_blocks mx) = div_ceil n METADATA_BLOCK_SIZE
                \<and> length (mx_buffer mx) = n)"

lemma mx_inv_new: "mx_inv (mx_new info_hash)"
  by (simp add: mx_inv_def mx_new_def)

lemma mx_inv_set_size: "mx_inv mx \<Longrightarrow> mx_inv (snd (set_metadata_size n mx))"
  by (cases "mx_size mx") (simp_all add: set_metadata_size_def mx_inv_def)

text \<open>A block that exists starts inside the metadata, so no product saturates.\<close>

lemma block_inside:
  assumes "unat piece < div_ceil n METADATA_BLOCK_SIZE" "n \<le> MAX_METADATA_SIZE"
  shows "block_offset piece = unat piece * METADATA_BLOCK_SIZE" "unat piece * METADATA_BLOCK_SIZE < n"
proof -
  have "unat piece \<le> n div METADATA_BLOCK_SIZE \<and> (n mod METADATA_BLOCK_SIZE = 0 \<longrightarrow> unat piece < n div METADATA_BLOCK_SIZE)"
    using assms(1) by (auto simp: div_ceil_def split: if_splits)
  then have "unat piece * METADATA_BLOCK_SIZE \<le> n" "n \<noteq> unat piece * METADATA_BLOCK_SIZE"
    by (auto simp: less_eq_div_iff_mult_less_eq)
  then show less: "unat piece * METADATA_BLOCK_SIZE < n"
    by simp
  then show "block_offset piece = unat piece * METADATA_BLOCK_SIZE"
    using assms(2) by (simp add: block_offset_def sat_mul_usize_def MAX_METADATA_SIZE_def usize_max_def)
qed

text \<open>What storing a block does, and that it can fail only for the three reasons of its errors.\<close>

lemma store_block_Inr:
  assumes "mx_inv mx" "mx_size mx = Some n" "unat piece < length (mx_blocks mx)" "length payload = block_length n piece"
  shows "store_block piece n payload mx =
    (Inr (), mx\<lparr>mx_buffer := overwrite (unat piece * METADATA_BLOCK_SIZE) payload (mx_buffer mx),
                mx_blocks := (mx_blocks mx)[unat piece := BlockReceived]\<rparr>)"
    and "unat piece * METADATA_BLOCK_SIZE + length payload \<le> n"
proof -
  have n: "n \<le> MAX_METADATA_SIZE" "length (mx_buffer mx) = n" "length (mx_blocks mx) = div_ceil n METADATA_BLOCK_SIZE"
    using assms(1,2) by (simp_all add: mx_inv_def)
  note inside = block_inside [of piece n, OF _ n(1)] 
  have off: "block_offset piece = unat piece * METADATA_BLOCK_SIZE" and less: "unat piece * METADATA_BLOCK_SIZE < n"
    using inside assms(3) n(3) by simp_all
  then show fits: "unat piece * METADATA_BLOCK_SIZE + length payload \<le> n"
    using assms(4) by (simp add: block_length_def)
  have "sat_add_usize (block_offset piece) (length payload) = block_offset piece + length payload"
    using fits n(1) off by (simp add: sat_add_usize_def MAX_METADATA_SIZE_def usize_max_def)
  then show "store_block piece n payload mx =
    (Inr (), mx\<lparr>mx_buffer := overwrite (unat piece * METADATA_BLOCK_SIZE) payload (mx_buffer mx),
                mx_blocks := (mx_blocks mx)[unat piece := BlockReceived]\<rparr>)"
    using assms fits n off by (simp add: store_block_def get_range_def Let_def)
qed

lemma store_block_cases:
  assumes "mx_inv mx" "mx_size mx = Some n"
  obtains e where "store_block piece total_size payload mx = (Inl e, mx)"
  | "total_size = n" "unat piece < length (mx_blocks mx)" "length payload = block_length n piece"
    "store_block piece total_size payload mx =
      (Inr (), mx\<lparr>mx_buffer := overwrite (unat piece * METADATA_BLOCK_SIZE) payload (mx_buffer mx),
                  mx_blocks := (mx_blocks mx)[unat piece := BlockReceived]\<rparr>)"
proof (cases "total_size = n \<and> unat piece < length (mx_blocks mx) \<and> length payload = block_length n piece")
  case True
  then show thesis
    using that(2) store_block_Inr(1) [OF assms] by blast
next
  case False
  then have "\<exists>e. store_block piece total_size payload mx = (Inl e, mx)"
    using assms(2) by (auto simp: store_block_def Let_def)
  then show thesis
    using that(1) by blast
qed

lemma store_block_inv:
  assumes "mx_inv mx" "mx_size mx = Some n"
  shows "mx_inv (snd (store_block piece total_size payload mx))"
    and "mx_size (snd (store_block piece total_size payload mx)) = Some n"
proof -
  show "mx_inv (snd (store_block piece total_size payload mx))"
  proof (cases rule: store_block_cases [OF assms, of piece total_size payload])
    case 2
    then show ?thesis
      using assms store_block_Inr(2) [OF assms, of piece payload] by (simp add: mx_inv_def)
  qed (use assms in simp)
  show "mx_size (snd (store_block piece total_size payload mx)) = Some n"
    by (cases rule: store_block_cases [OF assms, of piece total_size payload]) (use assms in simp_all)
qed

lemma set_size_cases:
  obtains e where "set_metadata_size n mx = (Inl e, mx)"
  | "0 < n" "n \<le> MAX_METADATA_SIZE"
    "set_metadata_size n mx = (Inr (), mx\<lparr>mx_size := Some n,
       mx_blocks := replicate (div_ceil n METADATA_BLOCK_SIZE) BlockMissing, mx_buffer := replicate n 0\<rparr>)"
  by (cases "MAX_METADATA_SIZE < n"; cases "n = 0") (auto simp: set_metadata_size_def)

lemma receive_block_inv:
  assumes "mx_inv mx"
  shows "mx_inv (snd (receive_block piece total_size payload mx))"
proof (cases "mx_size mx")
  case None
  show ?thesis
  proof (cases rule: set_size_cases [of total_size mx])
    case (1 e)
    then show ?thesis
      using None assms by (simp add: receive_block_def)
  next
    case 2
    then show ?thesis
      using None store_block_inv(1) [OF mx_inv_set_size [OF assms, of total_size], of total_size]
      by (simp add: receive_block_def)
  qed
next
  case (Some n)
  then show ?thesis
    using assms store_block_inv(1) by (simp add: receive_block_def)
qed

interpretation metadata: step_system "range mx_new" "mx_step sha1" mx_inv
proof unfold_locales
  fix s :: metadata_exchange and op
  show "s \<in> range mx_new \<Longrightarrow> mx_inv s"
    using mx_inv_new by auto
  assume "mx_inv s"
  then show "mx_inv (mx_step sha1 op s)"
  proof (cases op)
    case (SetSize n)
    then show ?thesis
      using \<open>mx_inv s\<close> by (simp add: mx_inv_set_size)
  next
    case (ReceiveBlock piece total_size payload)
    then show ?thesis
      using \<open>mx_inv s\<close> by (simp add: receive_block_inv)
  qed (auto simp: mx_inv_def mx_mark_pending_def mx_handle_reject_def mx_verify_def all_blocks_received_def Let_def
      split: option.splits block_status.splits)
qed


section \<open>Assembling the metadata\<close>

text \<open>The block of given metadata, and the operations of peers that announce and send nothing else.\<close>

definition block_of :: "bytes \<Rightarrow> u32 \<Rightarrow> bytes" where
  "block_of meta piece = take METADATA_BLOCK_SIZE (drop (block_offset piece) meta)"

fun honest_op :: "bytes \<Rightarrow> mx_op \<Rightarrow> bool" where
  "honest_op meta (SetSize n) \<longleftrightarrow> n = length meta"
| "honest_op meta (ReceiveBlock piece total_size payload) \<longleftrightarrow> total_size = length meta \<and> payload = block_of meta piece"
| "honest_op meta _ \<longleftrightarrow> True"

lemma length_block_of: "length (block_of meta piece) = block_length (length meta) piece"
  by (simp add: block_of_def block_length_def)

text \<open>The bytes of every received block are those of the metadata.\<close>

definition block_bytes_ok :: "bytes \<Rightarrow> metadata_exchange \<Rightarrow> bool" where
  "block_bytes_ok meta mx \<longleftrightarrow>
     (\<forall>p < length meta. mx_blocks mx ! (p div METADATA_BLOCK_SIZE) = BlockReceived \<longrightarrow> mx_buffer mx ! p = meta ! p)"

definition assembled_inv :: "bytes \<Rightarrow> metadata_exchange \<Rightarrow> bool" where
  "assembled_inv meta mx \<longleftrightarrow>
     mx_inv mx \<and> (case mx_size mx of None \<Rightarrow> True | Some n \<Rightarrow> n = length meta \<and> block_bytes_ok meta mx)"

lemma byte_block: "p < n \<Longrightarrow> p div METADATA_BLOCK_SIZE < div_ceil n METADATA_BLOCK_SIZE"
proof (cases "n mod METADATA_BLOCK_SIZE = 0")
  case True
  then have "n = n div METADATA_BLOCK_SIZE * METADATA_BLOCK_SIZE"
    by auto
  then show "p < n \<Longrightarrow> ?thesis"
    using True by (simp add: div_ceil_def div_less_iff_less_mult)
next
  case False
  then show "p < n \<Longrightarrow> ?thesis"
    using div_le_mono [of p n METADATA_BLOCK_SIZE] by (simp add: div_ceil_def)
qed

lemma block_bytes_ok_status:
  assumes "block_bytes_ok meta mx" "length (mx_blocks mx) = div_ceil (length meta) METADATA_BLOCK_SIZE" "st \<noteq> BlockReceived"
  shows "block_bytes_ok meta (mx\<lparr>mx_blocks := (mx_blocks mx)[i := st]\<rparr>)"
  unfolding block_bytes_ok_def
proof (intro allI impI)
  fix p
  assume "p < length meta" "mx_blocks (mx\<lparr>mx_blocks := (mx_blocks mx)[i := st]\<rparr>) ! (p div METADATA_BLOCK_SIZE) = BlockReceived"
  then show "mx_buffer (mx\<lparr>mx_blocks := (mx_blocks mx)[i := st]\<rparr>) ! p = meta ! p"
    using assms byte_block [of p "length meta"] by (cases "i = p div METADATA_BLOCK_SIZE") (auto simp: block_bytes_ok_def)
qed

lemma block_bytes_ok_store:
  assumes "block_bytes_ok meta mx" "length (mx_buffer mx) = length meta"
    "length (mx_blocks mx) = div_ceil (length meta) METADATA_BLOCK_SIZE" "length meta \<le> MAX_METADATA_SIZE"
    "unat piece < length (mx_blocks mx)"
  shows "block_bytes_ok meta (mx\<lparr>mx_buffer := overwrite (unat piece * METADATA_BLOCK_SIZE) (block_of meta piece) (mx_buffer mx),
      mx_blocks := (mx_blocks mx)[unat piece := BlockReceived]\<rparr>)"
proof -
  let ?off = "unat piece * METADATA_BLOCK_SIZE"
  have off: "block_offset piece = ?off" "?off < length meta"
    using block_inside [of piece "length meta"] assms(3-5) by simp_all
  have len: "length (block_of meta piece) = min METADATA_BLOCK_SIZE (length meta - ?off)"
    using off(1) by (simp add: length_block_of block_length_def)
  have "overwrite ?off (block_of meta piece) (mx_buffer mx) ! p = meta ! p"
    if p: "p < length meta" "(mx_blocks mx)[unat piece := BlockReceived] ! (p div METADATA_BLOCK_SIZE) = BlockReceived" for p
  proof (cases "?off \<le> p \<and> p < ?off + length (block_of meta piece)")
    case True
    then show ?thesis
      using off assms(2) len p(1) by (subst nth_overwrite) (auto simp: block_of_def off(1))
  next
    case False
    have "p div METADATA_BLOCK_SIZE \<noteq> unat piece"
    proof
      assume "p div METADATA_BLOCK_SIZE = unat piece"
      then have "?off \<le> p \<and> p < ?off + METADATA_BLOCK_SIZE"
        using div_mult_mod_eq [of p METADATA_BLOCK_SIZE] mod_less_divisor [of METADATA_BLOCK_SIZE p, OF METADATA_BLOCK_SIZE_pos(1)]
        by (metis le_add1 nat_add_left_cancel_less)
      then show False
        using False p(1) len by simp
    qed
    then have "mx_buffer mx ! p = meta ! p"
      using p assms(1) by (simp add: block_bytes_ok_def)
    then show ?thesis
      using False p(1) off len assms(2) by (subst nth_overwrite) auto
  qed
  then show ?thesis
    by (simp add: block_bytes_ok_def)
qed

lemma assembled_store:
  assumes "assembled_inv meta mx" "mx_size mx = Some (length meta)"
  shows "assembled_inv meta (snd (store_block piece (length meta) (block_of meta piece) mx))"
proof -
  have inv: "mx_inv mx" and ok: "block_bytes_ok meta mx"
    using assms by (simp_all add: assembled_inv_def)
  note store_inv = store_block_inv [OF inv assms(2)]
  show ?thesis
  proof (cases rule: store_block_cases [OF inv assms(2), of piece "length meta" "block_of meta piece"])
    case (1 e)
    then show ?thesis
      using assms(1) by simp
  next
    case 2
    moreover have "length (mx_buffer mx) = length meta" "length (mx_blocks mx) = div_ceil (length meta) METADATA_BLOCK_SIZE"
      "length meta \<le> MAX_METADATA_SIZE"
      using inv assms(2) by (simp_all add: mx_inv_def)
    ultimately have "block_bytes_ok meta (snd (store_block piece (length meta) (block_of meta piece) mx))"
      using block_bytes_ok_store [OF ok] by simp
    then show ?thesis
      using store_inv(1) [of piece "length meta" "block_of meta piece"] store_inv(2) [of piece "length meta" "block_of meta piece"]
      by (simp add: assembled_inv_def)
  qed
qed

lemma assembled_set_size:
  assumes "assembled_inv meta mx"
  shows "assembled_inv meta (snd (set_metadata_size (length meta) mx))"
proof (cases rule: set_size_cases [of "length meta" mx])
  case (1 e)
  then show ?thesis
    using assms by simp
next
  case 2
  have "mx_inv mx"
    using assms by (simp add: assembled_inv_def)
  from mx_inv_set_size [OF this, of "length meta"] 2 show ?thesis
    using byte_block [of _ "length meta"] by (simp add: assembled_inv_def block_bytes_ok_def)
qed

lemma assembled_step:
  assumes "assembled_inv meta mx" "honest_op meta op"
  shows "assembled_inv meta (mx_step sha1 op mx)"
proof (cases op)
  case (SetSize n)
  then show ?thesis
    using assms assembled_set_size by simp
next
  case (MarkPending piece)
  then show ?thesis
    using assms(1) block_bytes_ok_status [of meta mx BlockPending "unat piece"]
    by (auto simp: assembled_inv_def mx_inv_def mx_mark_pending_def split: option.splits block_status.splits)
next
  case (HandleReject piece)
  then show ?thesis
    using assms(1) block_bytes_ok_status [of meta mx BlockMissing "unat piece"]
    by (auto simp: assembled_inv_def mx_inv_def mx_handle_reject_def split: option.splits block_status.splits)
next
  case Verify
  then show ?thesis
    using assms(1) byte_block [of _ "length meta"]
    by (auto simp: assembled_inv_def mx_inv_def mx_verify_def block_bytes_ok_def all_blocks_received_def Let_def split: option.splits)
next
  case (ReceiveBlock piece total_size payload)
  then have honest: "total_size = length meta" "payload = block_of meta piece"
    using assms(2) by simp_all
  have "assembled_inv meta (snd (receive_block piece (length meta) (block_of meta piece) mx))"
  proof (cases "mx_size mx")
    case None
    show ?thesis
    proof (cases rule: set_size_cases [of "length meta" mx])
      case (1 e)
      then show ?thesis
        using None assms(1) by (simp add: receive_block_def)
    next
      case 2
      then show ?thesis
        using None assembled_store [OF assembled_set_size [OF assms(1)], of piece] by (simp add: receive_block_def)
    qed
  next
    case (Some n)
    then show ?thesis
      using assms(1) assembled_store [OF assms(1), of piece] by (simp add: receive_block_def assembled_inv_def)
  qed
  then show ?thesis
    using ReceiveBlock honest by simp
qed

lemma assembled_fold: "list_all (honest_op meta) ops \<Longrightarrow> assembled_inv meta mx \<Longrightarrow> assembled_inv meta (fold (mx_step sha1) ops mx)"
  by (induction ops arbitrary: mx) (auto intro: assembled_step)

lemma assembled_buffer:
  assumes "assembled_inv meta mx" "all_blocks_received mx"
  shows "mx_buffer mx = meta"
proof -
  obtain n where n: "mx_size mx = Some n"
    using assms by (cases "mx_size mx") (auto simp: assembled_inv_def mx_inv_def all_blocks_received_def)
  then have inv: "n = length meta" "length (mx_buffer mx) = length meta" "block_bytes_ok meta mx"
    "length (mx_blocks mx) = div_ceil (length meta) METADATA_BLOCK_SIZE"
    using assms(1) by (auto simp: assembled_inv_def mx_inv_def)
  show ?thesis
  proof (rule nth_equalityI)
    fix p
    assume "p < length (mx_buffer mx)"
    then show "mx_buffer mx ! p = meta ! p"
      using inv assms(2) byte_block [of p "length meta"] by (auto simp: block_bytes_ok_def all_blocks_received_def list_all_length)
  qed (use inv in simp)
qed


section \<open>Progress\<close>

lemma receive_unknown:
  "mx_size mx = None \<Longrightarrow> 0 < n \<Longrightarrow> n \<le> MAX_METADATA_SIZE \<Longrightarrow>
     receive_block piece n payload mx = store_block piece n payload (snd (set_metadata_size n mx))"
  by (simp add: receive_block_def set_metadata_size_def)








lemma verify_assembled:
  assumes "assembled_inv meta mx" "all_blocks_received mx"
  shows "fst (mx_verify sha1 mx) = (if sha1 meta = mx_info_hash mx then Inr meta else Inl (MetaHashMismatch (mx_info_hash mx) (sha1 meta)))"
  using assms assembled_buffer [OF assms] by (simp add: mx_verify_def Let_def)

text \<open>Without a new announcement by the caller the size of the first message stays.\<close>

lemma step_keeps_size:
  assumes "mx_inv mx" "mx_size mx = Some n" "\<forall>k. op \<noteq> SetSize k"
  shows "mx_size (mx_step sha1 op mx) = Some n"
  using assms store_block_inv(2) [OF assms(1,2)]
  by (cases op) (auto simp: mx_mark_pending_def mx_handle_reject_def mx_verify_def receive_block_def Let_def
      split: option.splits block_status.splits)

lemma fold_keeps_size:
  assumes "mx_inv mx" "mx_size mx = Some n" "\<forall>k. SetSize k \<notin> set ops"
  shows "mx_size (fold (mx_step sha1) ops mx) = Some n"
  using assms
proof (induction ops arbitrary: mx)
  case (Cons op ops)
  then show ?case
    using step_keeps_size [of mx n op sha1] metadata.inv_step [of mx sha1 op] by auto
qed simp

lemma step_keeps_hash: "mx_info_hash (mx_step sha1 op mx) = mx_info_hash mx"
  by (cases op) (auto simp: mx_mark_pending_def mx_handle_reject_def mx_verify_def receive_block_def store_block_def set_metadata_size_def
      Let_def split: option.splits block_status.splits)

lemma fold_keeps_hash: "mx_info_hash (fold (mx_step sha1) ops mx) = mx_info_hash mx"
  by (induction ops arbitrary: mx) (simp_all add: step_keeps_hash)

section \<open>Properties\<close>

text \<open>
  metadata is assembled whatever happens on the way. If all peers announce and send blocks of the same
  metadata, then after any sequence of announcements, requests, blocks, rejections and attempts to verify,
  in any order and with any repetitions, once all blocks are there the verification returns exactly that
  metadata if it has the info hash, and the mismatch of the two hashes if not.
\<close>

theorem metadata_assembled:
  assumes "list_all (honest_op meta) ops" "mx = fold (mx_step sha1) ops (mx_new h)" "all_blocks_received mx"
  shows "fst (mx_verify sha1 mx) = (if sha1 meta = h then Inr meta else Inl (MetaHashMismatch h (sha1 meta)))"
proof -
  have "assembled_inv meta (mx_new h)"
    by (simp add: assembled_inv_def mx_inv_new) (simp add: mx_new_def)
  from assembled_fold [OF assms(1) this, of sha1] assms(2,3) show ?thesis
    using verify_assembled [of meta mx sha1] fold_keeps_hash [of sha1 ops "mx_new h"] by (simp add: mx_new_def)
qed

theorem metadata_assembled_witness:
  "fst (mx_verify id (fold (mx_step id) [MarkPending 0, ReceiveBlock 0 2 [7, 8], Verify, HandleReject 0] (mx_new [7, 8]))) = Inr [7, 8]"
proof -
  let ?ops = "[MarkPending 0, ReceiveBlock 0 2 [7, 8], Verify, HandleReject 0] :: mx_op list"
  have run: "fold (mx_step id) ?ops (mx_new [7, 8]) =
    \<lparr>mx_info_hash = [7, 8], mx_size = Some 2, mx_blocks = [BlockReceived], mx_buffer = [7, 8], mx_verified = True\<rparr>"
    by (simp add: mx_new_def mx_mark_pending_def mx_handle_reject_def receive_block_def set_metadata_size_def store_block_def
        block_length_def block_offset_def sat_mul_usize_def sat_add_usize_def usize_max_def get_range_def get_at_def overwrite_def
        mx_verify_def all_blocks_received_def div_ceil_def METADATA_BLOCK_SIZE_def MAX_METADATA_SIZE_def Let_def numeral_2_eq_2)
  have "list_all (honest_op [7, 8]) ?ops"
    by (simp add: block_of_def block_offset_def sat_mul_usize_def METADATA_BLOCK_SIZE_def)
  from metadata_assembled [OF this refl, of id "[7, 8]"] run show ?thesis
    by (simp add: all_blocks_received_def)
qed



text \<open>
  one message with a wrong size blocks the exchange. If the first message announces another size than
  that of the metadata, even a message that is itself refused, then whatever is received, requested and
  verified after it, every honest block is refused for its size and the metadata is never returned.
\<close>

theorem metadata_size_poisoned:
  assumes "0 < n" "n \<le> MAX_METADATA_SIZE" "n \<noteq> length meta" "\<forall>k. SetSize k \<notin> set ops"
    and "mx = fold (mx_step sha1) ops (snd (receive_block piece n payload (mx_new h)))"
  shows "receive_block p (length meta) data mx = (Inl (MetaSizeMismatch n (length meta)), mx) \<and> fst (mx_verify sha1 mx) \<noteq> Inr meta"
proof -
  let ?first = "snd (receive_block piece n payload (mx_new h))"
  have inv: "mx_inv ?first"
    by (rule receive_block_inv [OF mx_inv_new])
  have "mx_size (mx_new h) = None" "mx_size (snd (set_metadata_size n (mx_new h))) = Some n"
    using assms(1,2) by (simp_all add: set_metadata_size_def mx_new_def)
  then have "mx_size ?first = Some n"
    using store_block_inv(2) [OF mx_inv_set_size [OF mx_inv_new], of n h n piece n payload] assms(1,2) by (simp add: receive_unknown)
  then have some: "mx_size mx = Some n"
    using fold_keeps_size [OF inv _ assms(4), of n sha1] assms(5) by simp
  moreover have "mx_inv mx"
    using metadata.inv_fold [OF inv, of sha1 ops] assms(5) by simp
  then have "length (mx_buffer mx) = n"
    using some by (simp add: mx_inv_def)
  then have "fst (mx_verify sha1 mx) \<noteq> Inr meta"
    using assms(3) by (auto simp: mx_verify_def Let_def)
  ultimately show ?thesis
    using assms(3) by (simp add: receive_block_def store_block_def Let_def)
qed

theorem metadata_size_poisoned_witness:
  "\<exists>mx. receive_block 0 2 [7, 8] mx = (Inl (MetaSizeMismatch 1 2), mx)"
proof -
  let ?mx = "fold (mx_step id) [Verify] (snd (receive_block 5 1 [9] (mx_new [7, 8])))"
  have "receive_block 0 (length [7 :: u8, 8]) [7, 8] ?mx = (Inl (MetaSizeMismatch 1 (length [7 :: u8, 8])), ?mx)
    \<and> fst (mx_verify id ?mx) \<noteq> Inr [7, 8]"
    by (rule metadata_size_poisoned [OF _ _ _ _ refl]) (simp_all add: MAX_METADATA_SIZE_def)
  then show ?thesis
    by (intro exI [of _ ?mx]) (simp add: numeral_2_eq_2 del: fold_simps)
qed

text \<open>The verified flag outlives the bytes it was set for.\<close>

lemma verified_then_overwritten:
  "mx_is_complete (fold (mx_step id) [ReceiveBlock 0 1 [7], Verify, ReceiveBlock 0 1 [9]] (mx_new [7]))
   \<and> fst (mx_verify id (fold (mx_step id) [ReceiveBlock 0 1 [7], Verify, ReceiveBlock 0 1 [9]] (mx_new [7]))) = Inl (MetaHashMismatch [7] [9])"
  by (simp add: mx_new_def receive_block_def set_metadata_size_def store_block_def mx_is_complete_def
      block_length_def block_offset_def sat_mul_usize_def sat_add_usize_def usize_max_def get_range_def overwrite_def
      mx_verify_def all_blocks_received_def div_ceil_def METADATA_BLOCK_SIZE_def MAX_METADATA_SIZE_def Let_def)

end
