(* ===== verification/Pem.thy ===== *)
theory Pem
  imports Decimal
begin

unbundle bit_operations_syntax

text \<open>
  Torrent files as text (\<open>torrent_pem.rs\<close>): Base64 in lines between two markers. A text is its UTF-8
  bytes. The reasons of an error are kept as constructors in place of their messages.
\<close>

section \<open>Base64\<close>

datatype base64_reason = UnexpectedEnd | UnexpectedCharacter u8

datatype pem_error =
  MissingHeader
| MissingFooter
| InvalidBase64 nat base64_reason

definition B64_ALPHABET :: bytes where
  "B64_ALPHABET = ascii ''ABCDEFGHIJKLMNOPQRSTUVWXYZabcdefghijklmnopqrstuvwxyz0123456789+/''"

definition push_b64_char :: "u8 \<Rightarrow> bytes" where
  "push_b64_char idx = (case get_at B64_ALPHABET (unat idx) of None \<Rightarrow> [] | Some ch \<Rightarrow> [ch])"

text \<open>The four indices of a group of three bytes.\<close>

fun base64_encode :: "bytes \<Rightarrow> bytes" where
  "base64_encode (a # b # c # data) =
     push_b64_char (drop_bit 2 a)
     @ push_b64_char (push_bit 4 (a AND 3) OR drop_bit 4 b)
     @ push_b64_char (push_bit 2 (b AND 15) OR drop_bit 6 c)
     @ push_b64_char (c AND 63)
     @ base64_encode data"
| "base64_encode [a, b] =
     push_b64_char (drop_bit 2 a)
     @ push_b64_char (push_bit 4 (a AND 3) OR drop_bit 4 b)
     @ push_b64_char (push_bit 2 (b AND 15))
     @ [61]"
| "base64_encode [a] = push_b64_char (drop_bit 2 a) @ push_b64_char (push_bit 4 (a AND 3)) @ [61, 61]"
| "base64_encode [] = []"

definition b64_value :: "u8 \<Rightarrow> u8 option" where
  "b64_value byte =
     (if 65 \<le> byte \<and> byte \<le> 90 then Some (byte - 65)
      else if 97 \<le> byte \<and> byte \<le> 122 then Some (byte - 97 + 26)
      else if 48 \<le> byte \<and> byte \<le> 57 then Some (byte - 48 + 52)
      else if byte = 43 then Some 62
      else if byte = 47 then Some 63
      else None)"

definition decode_b64_char :: "bytes \<Rightarrow> nat \<Rightarrow> pem_error + u8" where
  "decode_b64_char bs pos =
     and_then (ok_or (get_at bs pos) (InvalidBase64 pos UnexpectedEnd)) (\<lambda>byte.
       ok_or (b64_value byte) (InvalidBase64 pos (UnexpectedCharacter byte)))"

definition char_or_pad :: "bytes \<Rightarrow> nat \<Rightarrow> u8" where
  "char_or_pad bs pos = (case get_at bs pos of None \<Rightarrow> 61 | Some byte \<Rightarrow> byte)"

text \<open>What one round of the decoder pushes.\<close>

definition decode_group :: "bytes \<Rightarrow> nat \<Rightarrow> pem_error + bytes" where
  "decode_group bs i =
     and_then (decode_b64_char bs i) (\<lambda>a.
     and_then (decode_b64_char bs (i + 1)) (\<lambda>b.
       let c_byte = char_or_pad bs (i + 2); d_byte = char_or_pad bs (i + 3); x = push_bit 2 a OR drop_bit 4 b in
       if c_byte = 61 then Inr [x]
       else and_then (ok_or (b64_value c_byte) (InvalidBase64 (i + 2) (UnexpectedCharacter c_byte))) (\<lambda>c.
         let y = push_bit 4 b OR drop_bit 2 c in
         if d_byte = 61 then Inr [x, y]
         else and_then (ok_or (b64_value d_byte) (InvalidBase64 (i + 3) (UnexpectedCharacter d_byte))) (\<lambda>d.
           Inr [x, y, push_bit 6 c OR d]))))"

function base64_loop :: "bytes \<Rightarrow> nat \<Rightarrow> bytes \<Rightarrow> pem_error + bytes" where
  "base64_loop bs i out =
     (if length bs \<le> i then Inr out
      else and_then (decode_group bs i) (\<lambda>xs. base64_loop bs (i + 4) (out @ xs)))"
  by pat_completeness auto

termination base64_loop
  by (relation "measure (\<lambda>(bs, i, out). length bs - i)") auto

declare base64_loop.simps [simp del]

definition base64_decode :: "bytes \<Rightarrow> pem_error + bytes" where
  "base64_decode b64 = (if b64 = [] then Inr [] else base64_loop b64 0 [])"

section \<open>Lines and markers\<close>

definition BEGIN_MARKER :: bytes where
  "BEGIN_MARKER = ascii ''-----BEGIN TORRENT-----''"

definition END_MARKER :: bytes where
  "END_MARKER = ascii ''-----END TORRENT-----''"

definition LINE_WIDTH :: nat where
  "LINE_WIDTH = 76"

function wrap_lines :: "bytes \<Rightarrow> bytes" where
  "wrap_lines b64 = (if b64 = [] then [] else take LINE_WIDTH b64 @ 10 # wrap_lines (drop LINE_WIDTH b64))"
  by pat_completeness auto

termination wrap_lines
  by (relation "measure length") (auto simp: LINE_WIDTH_def)

declare wrap_lines.simps [simp del]

definition pem_encode :: "bytes \<Rightarrow> bytes" where
  "pem_encode torrent_data = BEGIN_MARKER @ 10 # wrap_lines (base64_encode torrent_data) @ END_MARKER @ [10]"

text \<open>\<open>str::find\<close> of a text: the position of its first occurrence.\<close>

fun str_find :: "bytes \<Rightarrow> bytes \<Rightarrow> nat option" where
  "str_find pat [] = (if pat = [] then Some 0 else None)"
| "str_find pat (c # s) = (if take (length pat) (c # s) = pat then Some 0 else map_option Suc (str_find pat s))"

definition is_ascii_whitespace :: "u8 \<Rightarrow> bool" where
  "is_ascii_whitespace b \<longleftrightarrow> b = 32 \<or> b = 9 \<or> b = 10 \<or> b = 12 \<or> b = 13"

definition pem_decode :: "bytes \<Rightarrow> pem_error + bytes" where
  "pem_decode pem =
     and_then (ok_or (str_find BEGIN_MARKER pem) MissingHeader) (\<lambda>header_start.
       let after_header = drop (header_start + length BEGIN_MARKER) pem in
       and_then (ok_or (str_find END_MARKER after_header) MissingFooter) (\<lambda>footer_offset.
         base64_decode (filter (\<lambda>c. \<not> is_ascii_whitespace c) (take footer_offset after_header))))"

section \<open>Groups\<close>

lemma alphabet_values: "list_all (\<lambda>i. b64_value (B64_ALPHABET ! i) = Some (word_of_nat i)) [0..<64]"
  by code_simp

lemma alphabet_free: "list_all (\<lambda>i. B64_ALPHABET ! i \<notin> {9, 10, 12, 13, 32, 45, 61}) [0..<64]"
  by code_simp

lemma length_alphabet: "length B64_ALPHABET = 64"
  by (simp add: B64_ALPHABET_def ascii_def)

lemma b64_char:
  assumes "unat idx < 64"
  obtains ch where "push_b64_char idx = [ch]" "b64_value ch = Some idx" "ch \<notin> {9, 10, 12, 13, 32, 45, 61}"
proof
  show "push_b64_char idx = [B64_ALPHABET ! unat idx]"
    using assms by (simp add: push_b64_char_def get_at_def length_alphabet)
  show "b64_value (B64_ALPHABET ! unat idx) = Some idx"
    using alphabet_values assms by (auto simp: list_all_iff)
  show "B64_ALPHABET ! unat idx \<notin> {9, 10, 12, 13, 32, 45, 61}"
    using alphabet_free assms unfolding list_all_iff by simp
qed

lemma byte_eqI:
  fixes x y :: u8
  assumes "\<forall>n < 8. bit x n = bit y n"
  shows "x = y"
  using assms by (intro bit_word_eqI) simp

lemma all_less_8: "(\<forall>n < (8 :: nat). P n) \<longleftrightarrow> P 0 \<and> P 1 \<and> P 2 \<and> P 3 \<and> P 4 \<and> P 5 \<and> P 6 \<and> P 7"
  by (simp add: numeral_eq_Suc All_less_Suc) auto

lemma sextet_bytes:
  fixes a b c :: u8
  shows "push_bit 2 (drop_bit 2 a) OR drop_bit 4 (push_bit 4 (a AND 3) OR drop_bit 4 b) = a"
    "push_bit 4 (push_bit 4 (a AND 3) OR drop_bit 4 b) OR drop_bit 2 (push_bit 2 (b AND 15) OR drop_bit 6 c) = b"
    "push_bit 6 (push_bit 2 (b AND 15) OR drop_bit 6 c) OR (c AND 63) = c"
    "push_bit 2 (drop_bit 2 a) OR drop_bit 4 (push_bit 4 (a AND 3)) = a"
    "push_bit 4 (push_bit 4 (a AND 3) OR drop_bit 4 b) OR drop_bit 2 (push_bit 2 (b AND 15)) = b"
  by (rule byte_eqI; unfold all_less_8; simp add: bit_simps)+

lemma less_64I:
  fixes x :: u8
  assumes "\<not> bit x 6" "\<not> bit x 7"
  shows "unat x < 64"
proof -
  have "x = take_bit 6 x"
    by (rule byte_eqI; unfold all_less_8) (use assms in \<open>simp add: bit_simps\<close>)
  then have "unat x = unat x mod 2 ^ 6"
    by (metis take_bit_eq_mod unsigned_take_bit_eq)
  then show ?thesis
    using mod_less_divisor [of "2 ^ 6" "unat x"] by simp
qed

lemma sextet_bounds:
  fixes a b c :: u8
  shows "unat (drop_bit 2 a) < 64" "unat (push_bit 4 (a AND 3) OR drop_bit 4 b) < 64"
    "unat (push_bit 2 (b AND 15) OR drop_bit 6 c) < 64" "unat (c AND 63) < 64"
    "unat (push_bit 4 (a AND 3)) < 64" "unat (push_bit 2 (b AND 15)) < 64"
  by (rule less_64I; simp add: bit_simps impossible_bit)+


lemma get_at_beyond: "get_at (pre @ xs) (length pre + k) = get_at xs k"
  by (simp add: get_at_def nth_append)

lemma get_at_beyond_Suc:
  "get_at (pre @ xs) (Suc (length pre)) = get_at xs (Suc 0)" "get_at (pre @ xs) (Suc (Suc (length pre))) = get_at xs (Suc (Suc 0))"
  by (simp_all add: get_at_def nth_append numeral_2_eq_2)

lemma get_at_front [simp]:
  "get_at (x # xs) 0 = Some x" "get_at [] k = None" "get_at (x # xs) (Suc k) = get_at xs k"
  by (simp_all add: get_at_def)

lemma get_at_front_numeral [simp]: "get_at (x # xs) (numeral k) = get_at xs (pred_numeral k)"
  by (simp add: numeral_eq_Suc)

lemma get_at_after: "get_at (pre @ x # xs) (length pre) = Some x"
  by (simp add: get_at_def)

lemmas group_defs = decode_group_def decode_b64_char_def char_or_pad_def get_at_beyond get_at_beyond_Suc get_at_after Let_def

lemma decode_group_full:
  assumes "b64_value w = Some a" "b64_value x = Some b" "b64_value y = Some c" "b64_value z = Some d" "y \<noteq> 61" "z \<noteq> 61"
  shows "decode_group (pre @ w # x # y # z # rest) (length pre) =
    Inr [push_bit 2 a OR drop_bit 4 b, push_bit 4 b OR drop_bit 2 c, push_bit 6 c OR d]"
  using assms by (simp add: group_defs)

lemma decode_group_two:
  assumes "b64_value w = Some a" "b64_value x = Some b" "b64_value y = Some c" "y \<noteq> 61"
  shows "decode_group (pre @ w # x # y # 61 # rest) (length pre) = Inr [push_bit 2 a OR drop_bit 4 b, push_bit 4 b OR drop_bit 2 c]"
  using assms by (simp add: group_defs)

lemma decode_group_one:
  assumes "b64_value w = Some a" "b64_value x = Some b"
  shows "decode_group (pre @ w # x # 61 # rest) (length pre) = Inr [push_bit 2 a OR drop_bit 4 b]"
  using assms by (simp add: group_defs)

lemma base64_loop_step:
  assumes "decode_group (pre @ quad @ rest) (length pre) = Inr xs" "length quad = 4"
  shows "base64_loop (pre @ quad @ rest) (length pre) out = base64_loop ((pre @ quad) @ rest) (length (pre @ quad)) (out @ xs)"
  using assms by (subst base64_loop.simps) simp

lemma base64_loop_end: "base64_loop bs (length bs) out = Inr out"
  by (simp add: base64_loop.simps)

lemma b64_char_ex: "unat idx < 64 \<Longrightarrow> \<exists>ch. push_b64_char idx = [ch] \<and> b64_value ch = Some idx \<and> ch \<noteq> 61"
  by (rule b64_char) auto

lemma base64_loop_encode: "base64_loop (pre @ base64_encode data) (length pre) out = Inr (out @ data)"
proof (induction data arbitrary: pre out rule: base64_encode.induct)
  case (1 a b c data)
  obtain w x y z where chars:
    "push_b64_char (drop_bit 2 a) = [w]" "b64_value w = Some (drop_bit 2 a)"
    "push_b64_char (push_bit 4 (a AND 3) OR drop_bit 4 b) = [x]" "b64_value x = Some (push_bit 4 (a AND 3) OR drop_bit 4 b)"
    "push_b64_char (push_bit 2 (b AND 15) OR drop_bit 6 c) = [y]" "b64_value y = Some (push_bit 2 (b AND 15) OR drop_bit 6 c)" "y \<noteq> 61"
    "push_b64_char (c AND 63) = [z]" "b64_value z = Some (c AND 63)" "z \<noteq> 61"
    using b64_char_ex [OF sextet_bounds(1) [of a]] b64_char_ex [OF sextet_bounds(2) [of a b]] b64_char_ex [OF sextet_bounds(3) [of b c]]
      b64_char_ex [OF sextet_bounds(4) [of c]] by blast
  have "decode_group (pre @ [w, x, y, z] @ base64_encode data) (length pre) = Inr [a, b, c]"
    using decode_group_full [OF chars(2,4,6,9,7,10)] sextet_bytes by simp
  from base64_loop_step [OF this] 1 [of "pre @ [w, x, y, z]" "out @ [a, b, c]"] show ?case
    using chars by simp
next
  case (2 a b)
  obtain w x y where chars:
    "push_b64_char (drop_bit 2 a) = [w]" "b64_value w = Some (drop_bit 2 a)"
    "push_b64_char (push_bit 4 (a AND 3) OR drop_bit 4 b) = [x]" "b64_value x = Some (push_bit 4 (a AND 3) OR drop_bit 4 b)"
    "push_b64_char (push_bit 2 (b AND 15)) = [y]" "b64_value y = Some (push_bit 2 (b AND 15))" "y \<noteq> 61"
    using b64_char_ex [OF sextet_bounds(1) [of a]] b64_char_ex [OF sextet_bounds(2) [of a b]] b64_char_ex [OF sextet_bounds(6) [of b]] by blast
  have "decode_group (pre @ [w, x, y, 61] @ []) (length pre) = Inr [a, b]"
    using decode_group_two [OF chars(2,4,6,7)] sextet_bytes by simp
  from base64_loop_step [OF this] show ?case
    using chars base64_loop_end [of "pre @ [w, x, y, 61]"] by simp
next
  case (3 a)
  obtain w x where chars:
    "push_b64_char (drop_bit 2 a) = [w]" "b64_value w = Some (drop_bit 2 a)"
    "push_b64_char (push_bit 4 (a AND 3)) = [x]" "b64_value x = Some (push_bit 4 (a AND 3))"
    using b64_char_ex [OF sextet_bounds(1) [of a]] b64_char_ex [OF sextet_bounds(5) [of a]] by blast
  have "decode_group (pre @ [w, x, 61, 61] @ []) (length pre) = Inr [a]"
    using decode_group_one [OF chars(2,4)] sextet_bytes by simp
  from base64_loop_step [OF this] show ?case
    using chars base64_loop_end [of "pre @ [w, x, 61, 61]"] by simp
next
  case 4
  then show ?case
    using base64_loop_end [of pre] by simp
qed

lemma base64_roundtrip: "base64_decode (base64_encode data) = Inr data"
  using base64_loop_encode [of "[]" data "[]"] by (auto simp: base64_decode_def base64_loop.simps)

section \<open>The armour\<close>

lemma push_free: "x \<in> set (push_b64_char idx) \<Longrightarrow> x \<notin> {9, 10, 12, 13, 32, 45, 61}"
proof (cases "unat idx < 64")
  case True
  then obtain ch where "push_b64_char idx = [ch]" "ch \<notin> {9, 10, 12, 13, 32, 45, 61}"
    by (rule b64_char)
  then show "x \<in> set (push_b64_char idx) \<Longrightarrow> ?thesis"
    by simp
next
  case False
  then show "x \<in> set (push_b64_char idx) \<Longrightarrow> ?thesis"
    by (simp add: push_b64_char_def get_at_def length_alphabet)
qed

lemma base64_text: "x \<in> set (base64_encode data) \<Longrightarrow> \<not> is_ascii_whitespace x \<and> x \<noteq> 45"
  by (induction data rule: base64_encode.induct) (auto simp: is_ascii_whitespace_def dest!: push_free)

lemma line_break: "is_ascii_whitespace 10"
  by (simp add: is_ascii_whitespace_def)

lemma filter_base64: "filter (\<lambda>c. \<not> is_ascii_whitespace c) (base64_encode data) = base64_encode data"
  by (rule filter_True) (use base64_text in blast)

lemma filter_wrap_lines:
  "filter (\<lambda>c. \<not> is_ascii_whitespace c) (wrap_lines b64) = filter (\<lambda>c. \<not> is_ascii_whitespace c) b64"
proof (induction b64 rule: wrap_lines.induct)
  case (1 b64)
  show ?case
  proof (cases "b64 = []")
    case False
    have "filter (\<lambda>c. \<not> is_ascii_whitespace c) b64
        = filter (\<lambda>c. \<not> is_ascii_whitespace c) (take LINE_WIDTH b64 @ drop LINE_WIDTH b64)"
      by simp
    then show ?thesis
      unfolding filter_append using 1 False by (subst wrap_lines.simps) (simp add: line_break)
  qed (simp add: wrap_lines.simps)
qed

lemma str_find_marker:
  assumes "hd pat \<notin> set pre" "pat \<noteq> []"
  shows "str_find pat (pre @ pat @ rest) = Some (length pre)"
  using assms
proof (induction pre)
  case Nil
  then show ?case
    by (cases pat) simp_all
next
  case (Cons c pre)
  then have "take (length pat) (c # pre @ pat @ rest) \<noteq> pat"
    by (cases pat) auto
  with Cons show ?case
    by simp
qed

lemma markers: "hd BEGIN_MARKER = 45" "BEGIN_MARKER \<noteq> []" "hd END_MARKER = 45" "END_MARKER \<noteq> []"
  by (simp_all add: BEGIN_MARKER_def END_MARKER_def ascii_def)

lemma pem_decode_body:
  assumes "45 \<notin> set before" "45 \<notin> set body"
  shows "pem_decode (before @ BEGIN_MARKER @ body @ END_MARKER @ after) = base64_decode (filter (\<lambda>c. \<not> is_ascii_whitespace c) body)"
  using assms str_find_marker [of BEGIN_MARKER before "body @ END_MARKER @ after"] str_find_marker [of END_MARKER body after] markers
  by (simp add: pem_decode_def)

lemma pem_body:
  assumes "45 \<notin> set before" "filter (\<lambda>c. \<not> is_ascii_whitespace c) body = base64_encode data"
  shows "pem_decode (before @ BEGIN_MARKER @ body @ END_MARKER @ after) = Inr data"
proof -
  have "45 \<notin> set body"
  proof
    assume "45 \<in> set body"
    then have "45 \<in> set (filter (\<lambda>c. \<not> is_ascii_whitespace c) body)"
      by (simp add: is_ascii_whitespace_def)
    then show False
      using base64_text [of 45 data] assms(2) by simp
  qed
  then show ?thesis
    using pem_decode_body [OF assms(1)] assms(2) base64_roundtrip by simp
qed

section \<open>The errors\<close>

text \<open>The position of an error is that of a character that is missing or not of the alphabet.\<close>

definition base64_fault :: "bytes \<Rightarrow> pem_error \<Rightarrow> bool" where
  "base64_fault bs e \<longleftrightarrow>
     (\<exists>pos. (e = InvalidBase64 pos UnexpectedEnd \<and> pos = length bs)
        \<or> (\<exists>ch. e = InvalidBase64 pos (UnexpectedCharacter ch) \<and> pos < length bs \<and> bs ! pos = ch \<and> b64_value ch = None))"

lemma decode_group_fault:
  assumes "decode_group bs i = Inl e" "i < length bs"
  shows "base64_fault bs e"
  using assms
  by (auto simp: decode_group_def decode_b64_char_def char_or_pad_def base64_fault_def get_at_def ok_or_def and_then_def Let_def
      split: if_splits option.splits)

lemma base64_loop_fault: "base64_loop bs i out = Inl e \<Longrightarrow> base64_fault bs e"
proof (induction bs i out rule: base64_loop.induct)
  case (1 bs i out)
  then show ?case
    using decode_group_fault [of bs i e]
    by (subst (asm) base64_loop.simps) (auto simp: and_then_def split: if_splits sum.splits)
qed

section \<open>Properties\<close>

text \<open>
  C40: armoured torrents are read back. The text that \<open>pem_encode\<close> writes decodes to the torrent, also with
  any text behind it and a text without dashes before it; so does every other layout of its lines, as
  long as only spaces, tabs and line breaks are changed.
\<close>

theorem pem_roundtrip:
  assumes "45 \<notin> set before" "filter (\<lambda>c. \<not> is_ascii_whitespace c) body = base64_encode data"
  shows "pem_decode (before @ pem_encode data @ after) = Inr data
    \<and> pem_decode (before @ BEGIN_MARKER @ body @ END_MARKER @ after) = Inr data"
proof -
  have "filter (\<lambda>c. \<not> is_ascii_whitespace c) (10 # wrap_lines (base64_encode data)) = base64_encode data"
    using filter_wrap_lines [of "base64_encode data"] filter_base64 [of data] line_break by simp
  from pem_body [OF assms(1) this, of "10 # after"] pem_body [OF assms, of after] show ?thesis
    by (simp add: pem_encode_def)
qed

theorem pem_roundtrip_witness:
  "pem_decode (ascii ''torrent: '' @ BEGIN_MARKER @ ascii ''Zm 9v'' @ END_MARKER @ []) = Inr (ascii ''foo'')"
proof -
  have "filter (\<lambda>c. \<not> is_ascii_whitespace c) (ascii ''Zm 9v'') = base64_encode (ascii ''foo'')"
    by code_simp
  moreover have "45 \<notin> set (ascii ''torrent: '')"
    by code_simp
  ultimately show ?thesis
    using pem_roundtrip by blast
qed

text \<open>
  the position in a Base64 error is exact. It is the position of a character that is not in the
  alphabet, which the error names, or the end of the text if the text ends inside a group.
\<close>

theorem base64_error_exact:
  assumes "base64_decode b64 = Inl e"
  shows "base64_fault b64 e"
  using assms base64_loop_fault [of b64 0 "[]" e] by (simp add: base64_decode_def split: if_splits)

theorem base64_error_exact_witness: "base64_fault (ascii ''Zm9vY'') (InvalidBase64 5 UnexpectedEnd)"
proof (rule base64_error_exact)
  show "base64_decode (ascii ''Zm9vY'') = Inl (InvalidBase64 5 UnexpectedEnd)"
    by code_simp
qed

text \<open>Padding may be missing, stand in the middle, or be followed by anything; spare bits are ignored.\<close>

lemma base64_accepts_noncanonical:
  "base64_decode (ascii ''Zg'') = Inr (ascii ''f'')" "base64_decode (ascii ''Zg==Zg=='') = Inr (ascii ''ff'')"
  "base64_decode (ascii ''Zg=!'') = Inr (ascii ''f'')" "base64_decode (ascii ''Zh=='') = Inr (ascii ''f'')"
  by code_simp+

end
