(* ===== verification/Catalog.thy ===== *)
theory Catalog
  imports Prelude "HOL-Library.List_Lexorder"
begin

text \<open>
  The content of a group: its manifest (\<open>manifest.rs\<close>), sorted and free of duplicates, with its
  canonical bytes and the difference of two versions, and the plan that brings a local copy up to
  date (\<open>catalog.rs\<close>). A path is its UTF-8 bytes; paths are compared byte by byte. The hash table of
  the local entries is a map in which the last entry of a path counts.
\<close>

section \<open>Manifests\<close>

datatype manifest_error =
  EmptyPath
| InvalidPath bytes string
| DuplicatePath bytes
| ZeroVersion

text \<open>\<open>path.contains("..")\<close>.\<close>

fun contains_dotdot :: "bytes \<Rightarrow> bool" where
  "contains_dotdot (a # b # s) \<longleftrightarrow> a = 46 \<and> b = 46 \<or> contains_dotdot (b # s)"
| "contains_dotdot _ \<longleftrightarrow> False"

definition validate_path :: "bytes \<Rightarrow> manifest_error + unit" where
  "validate_path path =
     (if path = [] then Inl EmptyPath
      else if 92 \<in> set path then Inl (InvalidPath path ''backslashes are not allowed (use forward slashes)'')
      else if take 1 path = [47] then Inl (InvalidPath path ''absolute paths are not allowed (no leading slash)'')
      else if contains_dotdot path then Inl (InvalidPath path ''parent traversal (`..`) is not allowed'')
      else if 0 \<in> set path then Inl (InvalidPath path ''null bytes are not allowed'')
      else Inr ())"

record content_entry =
  ce_path :: bytes
  ce_content_hash :: bytes
  ce_file_size :: u64
  ce_info_hash :: "bytes option"

definition ce_new :: "bytes \<Rightarrow> bytes \<Rightarrow> u64 \<Rightarrow> manifest_error + content_entry" where
  "ce_new path content_hash file_size =
     and_then (validate_path path) (\<lambda>_.
       Inr \<lparr>ce_path = path, ce_content_hash = content_hash, ce_file_size = file_size, ce_info_hash = None\<rparr>)"

definition with_info_hash :: "bytes \<Rightarrow> content_entry \<Rightarrow> content_entry" where
  "with_info_hash info_hash e = e\<lparr>ce_info_hash := Some info_hash\<rparr>"

record group_manifest =
  gm_version :: u64
  gm_network_id :: bytes
  gm_created_at :: u64
  gm_entries :: "content_entry list"
  gm_signature :: bytes
  gm_signer_id :: bytes

record manifest_builder =
  mb_network_id :: bytes
  mb_version :: u64
  mb_created_at :: u64
  mb_entries :: "content_entry list"

definition gm_builder :: "bytes \<Rightarrow> manifest_builder" where
  "gm_builder network_id = \<lparr>mb_network_id = network_id, mb_version = 0, mb_created_at = 0, mb_entries = []\<rparr>"

definition mb_add_entry :: "content_entry \<Rightarrow> manifest_builder \<Rightarrow> manifest_builder" where
  "mb_add_entry e b = b\<lparr>mb_entries := mb_entries b @ [e]\<rparr>"

text \<open>The loop over \<open>windows(2)\<close>: the first pair of neighbours with the same path.\<close>

fun first_duplicate :: "content_entry list \<Rightarrow> bytes option" where
  "first_duplicate (a # b # es) = (if ce_path a = ce_path b then Some (ce_path a) else first_duplicate (b # es))"
| "first_duplicate _ = None"

definition mb_build :: "manifest_builder \<Rightarrow> manifest_error + group_manifest" where
  "mb_build b =
     (if mb_version b = 0 then Inl ZeroVersion
      else let entries = sort_key ce_path (mb_entries b) in
        case first_duplicate entries of
          Some path \<Rightarrow> Inl (DuplicatePath path)
        | None \<Rightarrow> Inr \<lparr>gm_version = mb_version b, gm_network_id = mb_network_id b, gm_created_at = mb_created_at b,
                       gm_entries = entries, gm_signature = [], gm_signer_id = []\<rparr>)"

text \<open>\<open>slice::binary_search_by\<close>: the base of the half that is left, down to one element.\<close>

function search_base :: "bytes \<Rightarrow> content_entry list \<Rightarrow> nat \<Rightarrow> nat \<Rightarrow> nat" where
  "search_base path es base n =
     (if n \<le> 1 then base
      else search_base path es (if path < ce_path (es ! (base + n div 2)) then base else base + n div 2) (n - n div 2))"
  by pat_completeness auto

termination search_base
  by (relation "measure (\<lambda>(path, es, base, n). n)") auto

declare search_base.simps [simp del]

definition binary_search :: "bytes \<Rightarrow> content_entry list \<Rightarrow> nat option" where
  "binary_search path es =
     (if es = [] then None
      else let base = search_base path es 0 (length es) in if ce_path (es ! base) = path then Some base else None)"

definition get_entry :: "bytes \<Rightarrow> group_manifest \<Rightarrow> content_entry option" where
  "get_entry path m =
     (case binary_search path (gm_entries m) of None \<Rightarrow> None | Some i \<Rightarrow> get_at (gm_entries m) i)"

definition ce_bytes :: "content_entry \<Rightarrow> bytes" where
  "ce_bytes e =
     to_le (word_of_nat (length (ce_path e)) :: u32) @ ce_path e @ ce_content_hash e @ to_le (ce_file_size e)
     @ (case ce_info_hash e of Some h \<Rightarrow> 1 # h | None \<Rightarrow> [0])"

definition gm_canonical_bytes :: "group_manifest \<Rightarrow> bytes" where
  "gm_canonical_bytes m =
     to_le (gm_version m) @ gm_network_id m @ to_le (gm_created_at m)
     @ to_le (word_of_nat (length (gm_entries m)) :: u32) @ concat (map ce_bytes (gm_entries m))"

definition gm_total_size :: "group_manifest \<Rightarrow> u64" where
  "gm_total_size m = fold (\<lambda>e n. sat_add n (ce_file_size e)) (gm_entries m) 0"

section \<open>The difference of two manifests\<close>

datatype manifest_diff =
  DiffAdded content_entry
| DiffRemoved bytes
| DiffModified bytes bytes content_entry

fun diff_manifests :: "content_entry list \<Rightarrow> content_entry list \<Rightarrow> manifest_diff list" where
  "diff_manifests [] [] = []"
| "diff_manifests (old_entry # old) [] = DiffRemoved (ce_path old_entry) # diff_manifests old []"
| "diff_manifests [] (new_entry # new) = DiffAdded new_entry # diff_manifests [] new"
| "diff_manifests (old_entry # old) (new_entry # new) =
     (if ce_path old_entry < ce_path new_entry
      then DiffRemoved (ce_path old_entry) # diff_manifests old (new_entry # new)
      else if ce_path new_entry < ce_path old_entry
      then DiffAdded new_entry # diff_manifests (old_entry # old) new
      else (if ce_content_hash old_entry \<noteq> ce_content_hash new_entry \<or> ce_file_size old_entry \<noteq> ce_file_size new_entry
            then [DiffModified (ce_path old_entry) (ce_content_hash old_entry) new_entry] else [])
           @ diff_manifests old new)"

section \<open>The plan of a synchronisation\<close>

datatype sync_action = SyncDownload content_entry | SyncDelete bytes

datatype replication_policy = Full | PrefixFilter "bytes list"

fun policy_matches :: "replication_policy \<Rightarrow> bytes \<Rightarrow> bool" where
  "policy_matches Full path \<longleftrightarrow> True"
| "policy_matches (PrefixFilter prefixes) path \<longleftrightarrow> list_ex (\<lambda>p. take (length p) path = p) prefixes"

record sync_plan =
  sp_actions :: "sync_action list"
  sp_bytes :: u64
  sp_downloads :: u32
  sp_deletes :: u32

definition plan_download :: "content_entry \<Rightarrow> sync_plan \<Rightarrow> sync_plan" where
  "plan_download e p = p\<lparr>sp_bytes := sat_add (sp_bytes p) (ce_file_size e), sp_downloads := sat_add (sp_downloads p) 1,
     sp_actions := sp_actions p @ [SyncDownload e]\<rparr>"

definition plan_remote :: "(bytes \<rightharpoonup> content_entry) \<Rightarrow> replication_policy \<Rightarrow> content_entry \<Rightarrow> sync_plan \<Rightarrow> sync_plan" where
  "plan_remote local_map policy remote_entry p =
     (if \<not> policy_matches policy (ce_path remote_entry) then p
      else case local_map (ce_path remote_entry) of
             None \<Rightarrow> plan_download remote_entry p
           | Some local_entry \<Rightarrow>
               if ce_content_hash local_entry \<noteq> ce_content_hash remote_entry then plan_download remote_entry p else p)"

definition plan_local :: "bytes set \<Rightarrow> replication_policy \<Rightarrow> content_entry \<Rightarrow> sync_plan \<Rightarrow> sync_plan" where
  "plan_local remote_paths policy local_entry p =
     (if policy_matches policy (ce_path local_entry) \<and> ce_path local_entry \<notin> remote_paths
      then p\<lparr>sp_deletes := sat_add (sp_deletes p) 1, sp_actions := sp_actions p @ [SyncDelete (ce_path local_entry)]\<rparr>
      else p)"

definition entry_map :: "content_entry list \<Rightarrow> bytes \<rightharpoonup> content_entry" where
  "entry_map es = map_of (rev (map (\<lambda>e. (ce_path e, e)) es))"

definition plan_sync :: "content_entry list \<Rightarrow> group_manifest \<Rightarrow> replication_policy \<Rightarrow> sync_plan" where
  "plan_sync local_entries remote policy =
     (let start = \<lparr>sp_actions = [], sp_bytes = 0, sp_downloads = 0, sp_deletes = 0\<rparr>;
          forward = fold (plan_remote (entry_map local_entries) policy) (gm_entries remote) start
      in fold (plan_local (set (map ce_path (gm_entries remote))) policy) local_entries forward)"

section \<open>What the builder guarantees\<close>

definition sorted_entries :: "content_entry list \<Rightarrow> bool" where
  "sorted_entries es \<longleftrightarrow> sorted_wrt (<) (map ce_path es)"

lemma first_duplicate_None:
  "sorted (map ce_path es) \<Longrightarrow> first_duplicate es = None \<longleftrightarrow> sorted_entries es"
proof (induction es rule: first_duplicate.induct)
  case (1 a b es)
  then show ?case
    by (auto simp: sorted_entries_def intro: order.strict_trans2 order.not_eq_order_implies_strict)
qed (simp_all add: sorted_entries_def)

lemma build_Inr:
  assumes "mb_build b = Inr m"
  shows "sorted_entries (gm_entries m)" "set (gm_entries m) = set (mb_entries b)" "gm_version m \<noteq> 0"
  using assms first_duplicate_None [of "sort_key ce_path (mb_entries b)"]
  by (auto simp: mb_build_def Let_def split: if_splits option.splits)

lemma sorted_entries_less: "sorted_entries es \<Longrightarrow> i < j \<Longrightarrow> j < length es \<Longrightarrow> ce_path (es ! i) < ce_path (es ! j)"
  by (simp add: sorted_entries_def sorted_wrt_iff_nth_less)

lemma sorted_entries_distinct: "sorted_entries es \<Longrightarrow> distinct (map ce_path es)"
  by (auto simp: sorted_entries_def strict_sorted_iff)


section \<open>Lookup\<close>

lemma search_base_finds:
  "sorted_entries es \<Longrightarrow> ce_path (es ! k) = path \<Longrightarrow> base + n \<le> length es \<Longrightarrow> base \<le> k \<Longrightarrow> k < base + n \<Longrightarrow>
     search_base path es base n = k"
proof (induction path es base n rule: search_base.induct)
  case (1 path es base n)
  note sorted = 1(2) and path = 1(3) and bounds = 1(4-6)
  show ?case
  proof (cases "n \<le> 1")
    case True
    then show ?thesis
      using bounds by (subst search_base.simps) simp
  next
    case False
    let ?mid = "base + n div 2"
    have half: "n div 2 < n" "n div 2 \<le> n - n div 2"
      using False by simp_all
    have less: "path < ce_path (es ! ?mid) \<longleftrightarrow> k < ?mid"
    proof (cases "k < ?mid")
      case True
      then show ?thesis
        using sorted_entries_less [OF sorted True] half(1) bounds(1) path by simp
    next
      case nless: False
      then have "?mid = k \<or> ce_path (es ! ?mid) < path"
        using sorted_entries_less [OF sorted, of ?mid k] bounds path by (cases "?mid = k") auto
      then show ?thesis
        using nless less_not_sym path by blast
    qed
    show ?thesis
      using 1(1) [OF False sorted path] less half bounds by (subst search_base.simps) auto
  qed
qed

lemma get_entry_sorted:
  assumes "sorted_entries (gm_entries m)"
  shows "get_entry path m = Some e \<longleftrightarrow> e \<in> set (gm_entries m) \<and> ce_path e = path"
proof
  assume "get_entry path m = Some e"
  then show "e \<in> set (gm_entries m) \<and> ce_path e = path"
    by (auto simp: get_entry_def binary_search_def get_at_def Let_def split: if_splits) (metis nth_mem)
next
  assume e: "e \<in> set (gm_entries m) \<and> ce_path e = path"
  then obtain k where k: "k < length (gm_entries m)" "gm_entries m ! k = e"
    by (auto simp: in_set_conv_nth)
  then have "search_base path (gm_entries m) 0 (length (gm_entries m)) = k"
    using search_base_finds [OF assms, of k path 0 "length (gm_entries m)"] e by simp
  then show "get_entry path m = Some e"
    using k e by (auto simp: get_entry_def binary_search_def get_at_def)
qed

section \<open>Canonical bytes\<close>

definition entry_wf :: "content_entry \<Rightarrow> bool" where
  "entry_wf e \<longleftrightarrow> length (ce_path e) < 2 ^ 32 \<and> length (ce_content_hash e) = 32 \<and> (\<forall>h. ce_info_hash e = Some h \<longrightarrow> length h = 20)"

definition manifest_wf :: "group_manifest \<Rightarrow> bool" where
  "manifest_wf m \<longleftrightarrow> length (gm_network_id m) = 32 \<and> length (gm_entries m) < 2 ^ 32 \<and> list_all entry_wf (gm_entries m)"

lemma append_length_eq: "length xs = length ys \<Longrightarrow> xs @ us = ys @ vs \<Longrightarrow> xs = ys \<and> us = vs"
  by simp

lemma ce_bytes_inject:
  assumes "entry_wf a" "entry_wf b" "ce_bytes a @ xs = ce_bytes b @ ys"
  shows "a = b \<and> xs = ys"
proof -
  note bytes = assms(3) [unfolded ce_bytes_def append_assoc]
  have "(word_of_nat (length (ce_path a)) :: u32) = word_of_nat (length (ce_path b))"
    using append_length_eq [OF _ bytes] by (simp add: le32.length_enc le32.enc_inject)
  then have "unat (word_of_nat (length (ce_path a)) :: u32) = unat (word_of_nat (length (ce_path b)) :: u32)"
    by simp
  then have len: "length (ce_path a) = length (ce_path b)"
    using assms(1,2) by (simp add: entry_wf_def unsigned_of_nat take_bit_nat_eq_self)
  from bytes have path: "ce_path a = ce_path b"
    and rest: "ce_content_hash a @ to_le (ce_file_size a) @ (case ce_info_hash a of Some h \<Rightarrow> 1 # h | None \<Rightarrow> [0]) @ xs
      = ce_content_hash b @ to_le (ce_file_size b) @ (case ce_info_hash b of Some h \<Rightarrow> 1 # h | None \<Rightarrow> [0]) @ ys"
    using len by auto
  have hash: "ce_content_hash a = ce_content_hash b" and rest': "to_le (ce_file_size a) @ (case ce_info_hash a of Some h \<Rightarrow> 1 # h | None \<Rightarrow> [0]) @ xs
      = to_le (ce_file_size b) @ (case ce_info_hash b of Some h \<Rightarrow> 1 # h | None \<Rightarrow> [0]) @ ys"
    using append_length_eq [OF _ rest] assms(1,2) by (simp_all add: entry_wf_def)
  have sz: "ce_file_size a = ce_file_size b" and tail: "(case ce_info_hash a of Some h \<Rightarrow> 1 # h | None \<Rightarrow> [0]) @ xs
      = (case ce_info_hash b of Some h \<Rightarrow> 1 # h | None \<Rightarrow> [0]) @ ys"
    using append_length_eq [OF _ rest'] by (simp_all add: le64.length_enc le64.enc_inject)
  have "ce_info_hash a = ce_info_hash b \<and> xs = ys"
    using tail assms(1,2) by (auto simp: entry_wf_def split: option.splits)
  then show ?thesis
    using path hash sz by simp
qed

lemma entries_bytes_inject:
  assumes "list_all entry_wf as" "list_all entry_wf bs" "length as = length bs"
    and "concat (map ce_bytes as) = concat (map ce_bytes bs)"
  shows "as = bs"
  using assms(3,1,2,4)
proof (induction as bs rule: list_induct2)
  case (Cons a as b bs)
  then show ?case
    using ce_bytes_inject [of a b "concat (map ce_bytes as)" "concat (map ce_bytes bs)"] by simp
qed simp

section \<open>Applying differences and plans\<close>

fun apply_diff :: "manifest_diff \<Rightarrow> (bytes \<rightharpoonup> content_entry) \<Rightarrow> bytes \<rightharpoonup> content_entry" where
  "apply_diff (DiffAdded e) m = m(ce_path e \<mapsto> e)"
| "apply_diff (DiffRemoved path) m = m(path := None)"
| "apply_diff (DiffModified path old_hash e) m = m(path \<mapsto> e)"

fun apply_action :: "sync_action \<Rightarrow> (bytes \<rightharpoonup> content_entry) \<Rightarrow> bytes \<rightharpoonup> content_entry" where
  "apply_action (SyncDownload e) m = m(ce_path e \<mapsto> e)"
| "apply_action (SyncDelete path) m = m(path := None)"

definition same_file :: "content_entry option \<Rightarrow> content_entry option \<Rightarrow> bool" where
  "same_file a b \<longleftrightarrow> map_option (\<lambda>e. (ce_content_hash e, ce_file_size e)) a = map_option (\<lambda>e. (ce_content_hash e, ce_file_size e)) b"

lemma same_file_refl [simp]: "same_file a a"
  by (simp add: same_file_def)

fun diff_path :: "manifest_diff \<Rightarrow> bytes" where
  "diff_path (DiffAdded e) = ce_path e"
| "diff_path (DiffRemoved path) = path"
| "diff_path (DiffModified path old_hash e) = path"

lemma entry_map_distinct: "distinct (map ce_path es) \<Longrightarrow> entry_map es = map_of (map (\<lambda>e. (ce_path e, e)) es)"
proof
  fix path
  assume distinct: "distinct (map ce_path es)"
  let ?xs = "map (\<lambda>e. (ce_path e, e)) es"
  have "map fst ?xs = map ce_path es"
    by simp
  then have fst: "distinct (map fst ?xs)" "distinct (map fst (rev ?xs))"
    using distinct by (simp_all add: rev_map [of fst, symmetric] comp_def del: map_map)
  have "map_of (rev ?xs) path = Some e \<longleftrightarrow> map_of ?xs path = Some e" for e
    by (simp only: map_of_eq_Some_iff [OF fst(1)] map_of_eq_Some_iff [OF fst(2)] set_rev)
  then show "entry_map es path = map_of ?xs path"
    unfolding entry_map_def by (rule option_eqI)
qed

definition find_entry :: "content_entry list \<Rightarrow> bytes \<Rightarrow> content_entry option" where
  "find_entry es path = find (\<lambda>e. ce_path e = path) es"

lemma map_of_find: "map_of (map (\<lambda>e. (ce_path e, e)) es) path = find_entry es path"
  by (induction es) (auto simp: find_entry_def)

lemma entry_map_find: "sorted_entries es \<Longrightarrow> entry_map es path = find_entry es path"
  by (simp add: entry_map_distinct sorted_entries_distinct map_of_find)

lemma find_entry_simps [simp]:
  "find_entry [] path = None"
  "find_entry (e # es) path = (if ce_path e = path then Some e else find_entry es path)"
  by (simp_all add: find_entry_def)

lemma sorted_entries_Cons: "sorted_entries (e # es) \<longleftrightarrow> (\<forall>e' \<in> set es. ce_path e < ce_path e') \<and> sorted_entries es"
  by (auto simp: sorted_entries_def)

lemma find_entry_None: "find_entry es path = None \<longleftrightarrow> path \<notin> ce_path ` set es"
  by (auto simp: find_entry_def find_None_iff)

lemma find_entry_below: "sorted_entries es \<Longrightarrow> \<forall>e \<in> set es. path < ce_path e \<Longrightarrow> find_entry es path = None"
  by (auto simp: find_entry_None)

text \<open>What the difference says about one path.\<close>

definition diff_at :: "content_entry option \<Rightarrow> content_entry option \<Rightarrow> manifest_diff list" where
  "diff_at old new =
     (case (old, new) of
        (None, None) \<Rightarrow> []
      | (None, Some n) \<Rightarrow> [DiffAdded n]
      | (Some x, None) \<Rightarrow> [DiffRemoved (ce_path x)]
      | (Some x, Some n) \<Rightarrow> if same_file old new then [] else [DiffModified (ce_path x) (ce_content_hash x) n])"

lemma diff_manifests_at:
  "sorted_entries old \<Longrightarrow> sorted_entries new \<Longrightarrow>
     filter (\<lambda>d. diff_path d = path) (diff_manifests old new) = diff_at (find_entry old path) (find_entry new path)"
proof (induction old new rule: diff_manifests.induct)
  case (2 old_entry old)
  then show ?case
    using find_entry_below [of old path] by (cases "path = ce_path old_entry") (simp_all add: sorted_entries_Cons diff_at_def)
next
  case (3 new_entry new)
  then show ?case
    using find_entry_below [of new path] by (cases "path = ce_path new_entry") (simp_all add: sorted_entries_Cons diff_at_def)
next
  case (4 old_entry old new_entry new)
  note sorted = 4(4,5) [unfolded sorted_entries_Cons]
  consider (less) "ce_path old_entry < ce_path new_entry" | (greater) "ce_path new_entry < ce_path old_entry"
    | (eq) "ce_path old_entry = ce_path new_entry"
    by fastforce
  then show ?case
  proof cases
    case less
    have "find_entry (new_entry # new) (ce_path old_entry) = None" "find_entry old (ce_path old_entry) = None"
      using sorted less by (auto intro!: find_entry_below)
    then show ?thesis
      using 4(1) [OF less] 4(4,5) less by (cases "path = ce_path old_entry") (simp_all add: sorted_entries_Cons diff_at_def)
  next
    case greater
    have "find_entry (old_entry # old) (ce_path new_entry) = None" "find_entry new (ce_path new_entry) = None"
      using sorted greater by (auto intro!: find_entry_below)
    then show ?thesis
      using 4(2) [OF less_not_sym [OF greater] greater] 4(4,5) greater less_not_sym [OF greater] less_imp_neq [OF greater] by (cases "path = ce_path new_entry") (simp_all add: sorted_entries_Cons diff_at_def)
  next
    case eq
    have "find_entry old (ce_path new_entry) = None" "find_entry new (ce_path new_entry) = None"
      using sorted eq by (auto intro!: find_entry_below)
    moreover have "filter (\<lambda>d. diff_path d = path) (diff_manifests old new) = diff_at (find_entry old path) (find_entry new path)"
      using 4(3) sorted eq by simp
    ultimately show ?thesis
      using eq by (cases "path = ce_path new_entry") (simp_all add: diff_at_def same_file_def)
  qed
qed (simp add: diff_at_def)

lemma apply_diff_other: "diff_path d \<noteq> path \<Longrightarrow> apply_diff d m path = m path"
  by (cases d) auto

lemma apply_diff_local: "m path = m' path \<Longrightarrow> apply_diff d m path = apply_diff d m' path"
  by (cases d) auto

lemma fold_diff_local: "m path = m' path \<Longrightarrow> fold apply_diff ds m path = fold apply_diff ds m' path"
proof (induction ds arbitrary: m m')
  case (Cons d ds)
  show ?case
    using Cons.IH [of "apply_diff d m" "apply_diff d m'"] apply_diff_local [of m path m' d] Cons.prems by simp
qed simp

lemma fold_diff_at: "fold apply_diff ds m path = fold apply_diff (filter (\<lambda>d. diff_path d = path) ds) m path"
proof (induction ds arbitrary: m)
  case (Cons d ds)
  show ?case
    using Cons.IH [of "apply_diff d m"] fold_diff_local [of "apply_diff d m" path m "filter (\<lambda>d. diff_path d = path) ds"]
      apply_diff_other [of d path m] by (cases "diff_path d = path") simp_all
qed simp

section \<open>The plan\<close>

definition wanted :: "(bytes \<rightharpoonup> content_entry) \<Rightarrow> replication_policy \<Rightarrow> content_entry \<Rightarrow> bool" where
  "wanted local_map policy e \<longleftrightarrow> policy_matches policy (ce_path e)
     \<and> map_option ce_content_hash (local_map (ce_path e)) \<noteq> Some (ce_content_hash e)"

definition unwanted :: "bytes set \<Rightarrow> replication_policy \<Rightarrow> content_entry \<Rightarrow> bool" where
  "unwanted remote_paths policy e \<longleftrightarrow> policy_matches policy (ce_path e) \<and> ce_path e \<notin> remote_paths"

lemma min_min_add: "min (min a c + b) c = min (a + b) c"
  for a b c :: nat
  by (simp add: min_def)

lemma plan_remote_fold:
  "sp_actions (fold (plan_remote local_map policy) es p) = sp_actions p @ map SyncDownload (filter (wanted local_map policy) es)"
  "unat (sp_bytes (fold (plan_remote local_map policy) es p))
     = min (unat (sp_bytes p) + sum_list (map (unat \<circ> ce_file_size) (filter (wanted local_map policy) es))) (2 ^ 64 - 1)"
  "unat (sp_downloads (fold (plan_remote local_map policy) es p)) = min (unat (sp_downloads p) + length (filter (wanted local_map policy) es)) (2 ^ 32 - 1)"
  "sp_deletes (fold (plan_remote local_map policy) es p) = sp_deletes p"
proof (induction es arbitrary: p)
  case Nil
  {
    case 2
    show ?case
      using unat_less_exp [of "sp_bytes p"] by simp
  next
    case 3
    show ?case
      using unat_less_exp [of "sp_downloads p"] by simp
  }
next
  case (Cons e es)
  have step: "plan_remote local_map policy e p = (if wanted local_map policy e then plan_download e p else p)" for p
    by (auto simp: plan_remote_def wanted_def split: option.splits)
  {
    case 1
    show ?case
      using Cons(1) [of "plan_remote local_map policy e p"] by (simp add: step plan_download_def)
  next
    case 2
    show ?case
      using Cons(2) by (simp add: step plan_download_def unat_sat_add min_min_add add.assoc)
  next
    case 3
    show ?case
      using Cons(3) by (simp add: step plan_download_def unat_sat_add min_min_add add.assoc)
  next
    case 4
    show ?case
      using Cons(4) by (simp add: step plan_download_def)
  }
qed simp_all

lemma plan_local_fold:
  "sp_actions (fold (plan_local remote_paths policy) es p)
     = sp_actions p @ map (SyncDelete \<circ> ce_path) (filter (unwanted remote_paths policy) es)"
  "sp_bytes (fold (plan_local remote_paths policy) es p) = sp_bytes p"
  "sp_downloads (fold (plan_local remote_paths policy) es p) = sp_downloads p"
  by (induction es arbitrary: p) (simp_all add: plan_local_def unwanted_def)

lemma plan_sync_actions:
  "sp_actions (plan_sync local_entries remote policy) =
     map SyncDownload (filter (wanted (entry_map local_entries) policy) (gm_entries remote))
     @ map (SyncDelete \<circ> ce_path) (filter (unwanted (ce_path ` set (gm_entries remote)) policy) local_entries)"
  by (simp add: plan_sync_def Let_def plan_remote_fold(1) plan_local_fold(1))

lemma fold_downloads:
  "distinct (map ce_path es) \<Longrightarrow>
     fold apply_action (map SyncDownload es) m path = (case find_entry es path of Some e \<Rightarrow> Some e | None \<Rightarrow> m path)"
proof (induction es arbitrary: m)
  case (Cons e es)
  then have none: "find_entry es (ce_path e) = None"
    by (simp add: find_entry_None)
  show ?case
    using Cons none by (cases "ce_path e = path") (auto split: option.split)
qed simp

lemma fold_deletes:
  "fold apply_action (map (SyncDelete \<circ> ce_path) es) m path = (if path \<in> ce_path ` set es then None else m path)"
  by (induction es arbitrary: m) auto

lemma find_filter:
  "distinct (map ce_path es) \<Longrightarrow>
     find_entry (filter P es) path = (case find_entry es path of Some e \<Rightarrow> if P e then Some e else None | None \<Rightarrow> None)"
proof (induction es)
  case (Cons e es)
  then have "find_entry es (ce_path e) = None"
    by (simp add: find_entry_None)
  with Cons show ?case
    by auto
qed simp

lemma find_entry_Some: "find_entry es path = Some e \<Longrightarrow> e \<in> set es \<and> ce_path e = path"
  by (auto simp: find_entry_def find_Some_iff)

lemma entry_map_None: "entry_map es path = None \<longleftrightarrow> path \<notin> ce_path ` set es"
  by (auto simp: entry_map_def map_of_eq_None_iff image_image)

definition sample_entry :: "bytes \<Rightarrow> u8 \<Rightarrow> content_entry" where
  "sample_entry path h = \<lparr>ce_path = path, ce_content_hash = replicate 32 h, ce_file_size = 5, ce_info_hash = None\<rparr>"

definition sample_manifest :: "bytes \<Rightarrow> group_manifest" where
  "sample_manifest signature = \<lparr>gm_version = 1, gm_network_id = replicate 32 0, gm_created_at = 9,
     gm_entries = [sample_entry [97] 1, sample_entry [99] 2], gm_signature = signature, gm_signer_id = []\<rparr>"

lemma sample_sorted: "sorted_entries [sample_entry [97] 1, sample_entry [99] 2]" "sorted_entries [sample_entry [98] 3, sample_entry [99] 4]"
  by (simp_all add: sorted_entries_def sample_entry_def)

section \<open>Properties\<close>

text \<open>
  a manifest is a table. It is built exactly when its version is not 0 and no two entries have the
  same path; then the binary search returns, for every path, the entry that was added with this path,
  and nothing for any other path.
\<close>

theorem manifest_lookup_exact:
  "case mb_build b of
     Inr m \<Rightarrow> mb_version b \<noteq> 0 \<and> distinct (map ce_path (mb_entries b))
       \<and> (\<forall>path. get_entry path m = find (\<lambda>e. ce_path e = path) (mb_entries b))
   | Inl e \<Rightarrow> mb_version b = 0 \<or> \<not> distinct (map ce_path (mb_entries b))"
proof (cases "mb_build b")
  case (Inl e)
  have "first_duplicate (sort_key ce_path (mb_entries b)) = None" if "distinct (map ce_path (mb_entries b))"
  proof -
    have "sorted (map ce_path (sort_key ce_path (mb_entries b)))" "distinct (map ce_path (sort_key ce_path (mb_entries b)))"
      using that by (simp_all add: distinct_map)
    then show ?thesis
      by (simp add: first_duplicate_None) (simp add: sorted_entries_def strict_sorted_iff)
  qed
  then show ?thesis
    using Inl by (auto simp: mb_build_def Let_def split: if_splits option.splits)
next
  case (Inr m)
  note m = build_Inr [OF Inr]
  have entries: "gm_entries m = sort_key ce_path (mb_entries b)" "mb_version b \<noteq> 0"
    using Inr by (auto simp: mb_build_def Let_def split: if_splits option.splits)
  have distinct: "distinct (map ce_path (mb_entries b))"
    using sorted_entries_distinct [OF m(1)] unfolding entries(1) by (simp add: distinct_map)
  have "get_entry path m = find_entry (mb_entries b) path" for path
  proof -
    have "get_entry path m = Some e \<longleftrightarrow> find_entry (mb_entries b) path = Some e" for e
      using get_entry_sorted [OF m(1), of path e] m(2) distinct
        map_of_eq_Some_iff [of "map (\<lambda>e. (ce_path e, e)) (mb_entries b)" path e]
      by (auto simp: map_of_find comp_def)
    then show ?thesis
      by (metis not_Some_eq)
  qed
  then show ?thesis
    using Inr entries(2) distinct by (simp add: find_entry_def)
qed

text \<open>
  a signature on a manifest covers all of it. Two manifests with the same canonical bytes have the
  same version, network, time and entries, with all paths, hashes, sizes and info hashes, as long as the
  lengths that are written in 32 bits fit.
\<close>

theorem manifest_bytes_injective:
  assumes "manifest_wf m" "manifest_wf m'" "gm_canonical_bytes m = gm_canonical_bytes m'"
  shows "gm_version m = gm_version m' \<and> gm_network_id m = gm_network_id m' \<and> gm_created_at m = gm_created_at m' \<and> gm_entries m = gm_entries m'"
proof -
  note bytes = assms(3) [unfolded gm_canonical_bytes_def]
  have 1: "gm_version m = gm_version m'" and r1: "gm_network_id m @ to_le (gm_created_at m) @ to_le (word_of_nat (length (gm_entries m)) :: u32)
      @ concat (map ce_bytes (gm_entries m)) = gm_network_id m' @ to_le (gm_created_at m')
      @ to_le (word_of_nat (length (gm_entries m')) :: u32) @ concat (map ce_bytes (gm_entries m'))"
    using append_length_eq [OF _ bytes] by (simp_all add: le64.length_enc le64.enc_inject)
  have 2: "gm_network_id m = gm_network_id m'" and r2: "to_le (gm_created_at m) @ to_le (word_of_nat (length (gm_entries m)) :: u32)
      @ concat (map ce_bytes (gm_entries m)) = to_le (gm_created_at m')
      @ to_le (word_of_nat (length (gm_entries m')) :: u32) @ concat (map ce_bytes (gm_entries m'))"
    using append_length_eq [OF _ r1] assms(1,2) by (simp_all add: manifest_wf_def)
  have 3: "gm_created_at m = gm_created_at m'" and r3: "to_le (word_of_nat (length (gm_entries m)) :: u32)
      @ concat (map ce_bytes (gm_entries m)) = to_le (word_of_nat (length (gm_entries m')) :: u32) @ concat (map ce_bytes (gm_entries m'))"
    using append_length_eq [OF _ r2] by (simp_all add: le64.length_enc le64.enc_inject)
  have count: "(word_of_nat (length (gm_entries m)) :: u32) = word_of_nat (length (gm_entries m'))"
    and r4: "concat (map ce_bytes (gm_entries m)) = concat (map ce_bytes (gm_entries m'))"
    using append_length_eq [OF _ r3] by (simp_all add: le32.length_enc le32.enc_inject)
  have "unat (word_of_nat (length (gm_entries m)) :: u32) = unat (word_of_nat (length (gm_entries m')) :: u32)"
    using count by simp
  then have "length (gm_entries m) = length (gm_entries m')"
    using assms(1,2) by (simp add: manifest_wf_def unsigned_of_nat take_bit_nat_eq_self)
  then have "gm_entries m = gm_entries m'"
    using entries_bytes_inject [OF _ _ _ r4] assms(1,2) by (simp add: manifest_wf_def)
  then show ?thesis
    using 1 2 3 by simp
qed

theorem manifest_bytes_injective_witness:
  "gm_canonical_bytes (sample_manifest []) = gm_canonical_bytes (sample_manifest [7])
   \<and> gm_entries (sample_manifest []) = gm_entries (sample_manifest [7])"
proof -
  have same: "gm_canonical_bytes (sample_manifest []) = gm_canonical_bytes (sample_manifest [7])"
    by (simp add: gm_canonical_bytes_def sample_manifest_def)
  have "manifest_wf (sample_manifest signature)" for signature
    by (simp add: manifest_wf_def entry_wf_def sample_manifest_def sample_entry_def)
  then show ?thesis
    using manifest_bytes_injective [OF _ _ same] same by blast
qed

text \<open>
  the difference of two manifests is exact. Applied to the old entries it gives the new ones, up to
  the info hash, which is not compared; every path is mentioned at most once, and only if its file was
  added, removed or changed.
\<close>

theorem manifest_diff_exact:
  assumes "sorted_entries old" "sorted_entries new"
  shows "same_file (fold apply_diff (diff_manifests old new) (entry_map old) path) (entry_map new path)
    \<and> length (filter (\<lambda>d. diff_path d = path) (diff_manifests old new)) = (if same_file (entry_map old path) (entry_map new path) then 0 else 1)"
proof -
  have "fold apply_diff (diff_manifests old new) (entry_map old) path
      = fold apply_diff (diff_at (find_entry old path) (find_entry new path)) (entry_map old) path"
    using fold_diff_at [of "diff_manifests old new" "entry_map old" path] diff_manifests_at [OF assms] by simp
  then show ?thesis
    using diff_manifests_at [OF assms, of path] assms
    by (auto simp: entry_map_find diff_at_def same_file_def split: option.splits dest!: find_entry_Some)
qed

theorem manifest_diff_exact_witness:
  "same_file (fold apply_diff (diff_manifests [sample_entry [97] 1, sample_entry [99] 2] [sample_entry [98] 3, sample_entry [99] 4])
       (entry_map [sample_entry [97] 1, sample_entry [99] 2]) [99])
     (entry_map [sample_entry [98] 3, sample_entry [99] 4] [99])"
  using manifest_diff_exact [OF sample_sorted] by blast

text \<open>
  C36: a synchronisation plan does what it should and no more. After its actions every path the policy
  replicates has the content of the remote manifest, or no content if it is not in it, and every other
  path is as it was; it downloads only entries whose content is missing or different, and the bytes it
  announces are the sum of their sizes.
\<close>

theorem sync_plan_exact:
  assumes "sorted_entries (gm_entries remote)" and plan_def: "plan = plan_sync local_entries remote policy"
  shows "map_option ce_content_hash (fold apply_action (sp_actions plan) (entry_map local_entries) path) =
      map_option ce_content_hash (if policy_matches policy path then entry_map (gm_entries remote) path else entry_map local_entries path)
    \<and> (\<forall>e. SyncDownload e \<in> set (sp_actions plan) \<longleftrightarrow> e \<in> set (gm_entries remote) \<and> wanted (entry_map local_entries) policy e)
    \<and> unat (sp_bytes plan) = min (sum_list (map (unat \<circ> ce_file_size)
        (filter (wanted (entry_map local_entries) policy) (gm_entries remote)))) (2 ^ 64 - 1)"
proof -
  let ?local = "entry_map local_entries" and ?es = "gm_entries remote"
  let ?get = "filter (wanted ?local policy) ?es" and ?drop = "filter (unwanted (ce_path ` set ?es) policy) local_entries"
  have distinct: "distinct (map ce_path ?es)"
    by (rule sorted_entries_distinct [OF assms(1)])
  have result: "fold apply_action (sp_actions plan) ?local path =
      (if path \<in> ce_path ` set ?drop then None else case find_entry ?get path of Some e \<Rightarrow> Some e | None \<Rightarrow> ?local path)"
    using distinct by (simp add: plan_def plan_sync_actions fold_deletes fold_downloads distinct_map_filter)
  have "map_option ce_content_hash (fold apply_action (sp_actions plan) ?local path) =
      map_option ce_content_hash (if policy_matches policy path then entry_map ?es path else ?local path)"
  proof (cases "find_entry ?es path")
    case None
    then have "path \<in> ce_path ` set ?drop \<longleftrightarrow> policy_matches policy path \<and> path \<in> ce_path ` set local_entries"
      by (auto simp: unwanted_def find_entry_None)
    then show ?thesis
      using None result entry_map_None [of local_entries path] assms(1) by (auto simp: entry_map_find find_filter [OF distinct])
  next
    case (Some e)
    then have e: "e \<in> set ?es" "ce_path e = path"
      by (auto dest: find_entry_Some)
    then have "path \<in> ce_path ` set ?es"
      by blast
    then have "\<not> unwanted (ce_path ` set ?es) policy x" if "ce_path x = path" for x
      using that by (simp add: unwanted_def)
    then have "path \<notin> ce_path ` set ?drop"
      by auto
    then show ?thesis
      using Some result e assms(1) by (auto simp: entry_map_find find_filter [OF distinct] wanted_def)
  qed
  moreover have "unat (sp_bytes plan) = min (sum_list (map (unat \<circ> ce_file_size) ?get)) (2 ^ 64 - 1)"
    by (simp add: plan_def plan_sync_def Let_def plan_local_fold(2) plan_remote_fold(2))
  ultimately show ?thesis
    by (auto simp: plan_def plan_sync_actions)
qed

theorem sync_plan_exact_witness:
  "map_option ce_content_hash (fold apply_action (sp_actions (plan_sync [sample_entry [99] 8] (sample_manifest []) Full))
     (entry_map [sample_entry [99] 8]) [99]) = Some (replicate 32 2)"
proof -
  have "sorted_entries (gm_entries (sample_manifest []))"
    using sample_sorted(1) by (simp add: sample_manifest_def)
  then have "map_option ce_content_hash (fold apply_action (sp_actions (plan_sync [sample_entry [99] 8] (sample_manifest []) Full))
     (entry_map [sample_entry [99] 8]) [99])
     = map_option ce_content_hash (if policy_matches Full [99] then entry_map (gm_entries (sample_manifest [])) [99] else entry_map [sample_entry [99] 8] [99])"
    using sync_plan_exact [OF _ refl, of "sample_manifest []" "[sample_entry [99] 8]" Full "[99]"] by blast
  then show ?thesis
    by (simp add: entry_map_def sample_manifest_def sample_entry_def)
qed

text \<open>A change of the info hash alone is no difference.\<close>

lemma info_hash_not_compared:
  "diff_manifests [sample_entry [97] 1] [with_info_hash (replicate 20 6) (sample_entry [97] 1)] = []"
  by (simp add: with_info_hash_def sample_entry_def)

end
