(* ===== verification/PeerPool.thy ===== *)
theory PeerPool
  imports Prelude
begin

text \<open>
  The pool of peers (\<open>peer_pool.rs\<close>): admission up to a capacity, reconnection with exponential backoff,
  bans, and eviction of the peer with the lowest score. A peer is its 32 bytes; an instant is a number
  of seconds, and the time between two instants is never negative.
\<close>

section \<open>Entries\<close>

datatype pool_state = PoolActive | PoolDisconnected | PoolBanned

record pool_entry =
  pe_id :: bytes
  pe_state :: pool_state
  pe_score :: u64
  pe_disconnects :: u32
  pe_changed_at :: nat
  pe_reconnect_after :: "nat option"

definition pe_new_active :: "bytes \<Rightarrow> nat \<Rightarrow> pool_entry" where
  "pe_new_active p now = \<lparr>pe_id = p, pe_state = PoolActive, pe_score = 0, pe_disconnects = 0, pe_changed_at = now,
     pe_reconnect_after = None\<rparr>"

definition time_in_state :: "nat \<Rightarrow> pool_entry \<Rightarrow> nat" where
  "time_in_state now e = now - pe_changed_at e"

definition can_reconnect :: "nat \<Rightarrow> pool_entry \<Rightarrow> bool" where
  "can_reconnect now e \<longleftrightarrow>
     (case pe_state e of
        PoolDisconnected \<Rightarrow> (case pe_reconnect_after e of None \<Rightarrow> True | Some deadline \<Rightarrow> deadline \<le> now)
      | PoolActive \<Rightarrow> False
      | PoolBanned \<Rightarrow> False)"

section \<open>The pool\<close>

record pool_config =
  pc_max_peers :: nat
  pc_eviction_threshold :: u64
  pc_min_active :: nat

definition default_pool_config :: pool_config where
  "default_pool_config = \<lparr>pc_max_peers = 55, pc_eviction_threshold = 100, pc_min_active = 30\<rparr>"

record peer_pool =
  pp_config :: pool_config
  pp_entries :: "pool_entry list"

datatype pool_error = AtCapacity nat | BackoffActive | PeerBanned

definition pp_new :: "pool_config \<Rightarrow> peer_pool" where
  "pp_new config = \<lparr>pp_config = config, pp_entries = []\<rparr>"

definition pool_active_count :: "peer_pool \<Rightarrow> nat" where
  "pool_active_count pool = length (filter (\<lambda>e. pe_state e = PoolActive) (pp_entries pool))"

definition pool_position :: "bytes \<Rightarrow> peer_pool \<Rightarrow> nat option" where
  "pool_position p pool = position (\<lambda>e. pe_id e = p) (pp_entries pool)"

definition set_entry :: "nat \<Rightarrow> pool_entry \<Rightarrow> peer_pool \<Rightarrow> peer_pool" where
  "set_entry i e pool = pool\<lparr>pp_entries := (pp_entries pool)[i := e]\<rparr>"

definition try_add :: "bytes \<Rightarrow> nat \<Rightarrow> peer_pool \<Rightarrow> (pool_error + unit) \<times> peer_pool" where
  "try_add p now pool =
     (case pool_position p pool of
        Some i \<Rightarrow>
          let e = pp_entries pool ! i in
          (case pe_state e of
             PoolBanned \<Rightarrow> (Inl PeerBanned, pool)
           | PoolActive \<Rightarrow> (Inr (), pool)
           | PoolDisconnected \<Rightarrow>
               if \<not> can_reconnect now e then (Inl BackoffActive, pool)
               else (Inr (), set_entry i (e\<lparr>pe_state := PoolActive, pe_changed_at := now\<rparr>) pool))
      | None \<Rightarrow>
          if pc_max_peers (pp_config pool) \<le> pool_active_count pool
          then (Inl (AtCapacity (pc_max_peers (pp_config pool))), pool)
          else (Inr (), pool\<lparr>pp_entries := pp_entries pool @ [pe_new_active p now]\<rparr>))"

text \<open>\<open>u32::saturating_pow\<close> of 2, and the delay in seconds.\<close>

definition backoff_multiplier :: "u32 \<Rightarrow> nat" where
  "backoff_multiplier n = min (2 ^ unat n) (2 ^ 32 - 1)"

definition backoff :: "u32 \<Rightarrow> nat" where
  "backoff disconnects = min (5 * backoff_multiplier (sat_sub disconnects 1)) 300"

definition record_disconnect :: "bytes \<Rightarrow> nat \<Rightarrow> peer_pool \<Rightarrow> peer_pool" where
  "record_disconnect p now pool =
     (case pool_position p pool of
        None \<Rightarrow> pool
      | Some i \<Rightarrow>
          let e = pp_entries pool ! i; n = sat_add (pe_disconnects e) 1 in
          if pe_state e = PoolBanned then pool
          else set_entry i (e\<lparr>pe_disconnects := n, pe_state := PoolDisconnected, pe_changed_at := now,
                             pe_reconnect_after := Some (now + backoff n)\<rparr>) pool)"

definition pool_ban :: "bytes \<Rightarrow> nat \<Rightarrow> peer_pool \<Rightarrow> peer_pool" where
  "pool_ban p now pool =
     (case pool_position p pool of
        None \<Rightarrow> pool
      | Some i \<Rightarrow> set_entry i ((pp_entries pool ! i)\<lparr>pe_state := PoolBanned, pe_changed_at := now, pe_reconnect_after := None\<rparr>) pool)"

definition update_score :: "bytes \<Rightarrow> u64 \<Rightarrow> peer_pool \<Rightarrow> peer_pool" where
  "update_score p score pool =
     (case pool_position p pool of
        None \<Rightarrow> pool
      | Some i \<Rightarrow> set_entry i ((pp_entries pool ! i)\<lparr>pe_score := score\<rparr>) pool)"

text \<open>\<open>Iterator::min_by_key\<close>: of several minimal elements the first one is returned.\<close>

definition min_by_key :: "('a \<Rightarrow> 'k::linorder) \<Rightarrow> 'a list \<Rightarrow> 'a option" where
  "min_by_key f xs =
     fold (\<lambda>x best. case best of None \<Rightarrow> Some x | Some y \<Rightarrow> if f x < f y then Some x else Some y) xs None"

definition evictable :: "nat \<Rightarrow> peer_pool \<Rightarrow> pool_entry \<Rightarrow> bool" where
  "evictable now pool e \<longleftrightarrow>
     pe_state e = PoolActive \<and> pc_min_active (pp_config pool) \<le> time_in_state now e
     \<and> pe_score e < pc_eviction_threshold (pp_config pool)"

definition evict_worst :: "nat \<Rightarrow> peer_pool \<Rightarrow> bytes option \<times> peer_pool" where
  "evict_worst now pool =
     (case min_by_key (\<lambda>(i, e). pe_score e) (filter (\<lambda>(i, e). evictable now pool e) (enumerate 0 (pp_entries pool))) of
        None \<Rightarrow> (None, pool)
      | Some (i, e) \<Rightarrow> (Some (pe_id (pp_entries pool ! i)), pool\<lparr>pp_entries := remove_at i (pp_entries pool)\<rparr>))"

definition ranked_peers :: "peer_pool \<Rightarrow> pool_entry list" where
  "ranked_peers pool = sort_key (\<lambda>e. - uint (pe_score e)) (filter (\<lambda>e. pe_state e = PoolActive) (pp_entries pool))"

definition reconnectable_peers :: "nat \<Rightarrow> peer_pool \<Rightarrow> pool_entry list" where
  "reconnectable_peers now pool = filter (\<lambda>e. pe_state e = PoolDisconnected \<and> can_reconnect now e) (pp_entries pool)"

definition pool_has_capacity :: "peer_pool \<Rightarrow> bool" where
  "pool_has_capacity pool \<longleftrightarrow> pool_active_count pool < pc_max_peers (pp_config pool)"

definition prune_stale :: "nat \<Rightarrow> nat \<Rightarrow> peer_pool \<Rightarrow> peer_pool" where
  "prune_stale stale_threshold now pool =
     pool\<lparr>pp_entries := filter (\<lambda>e. pe_state e = PoolDisconnected \<longrightarrow> time_in_state now e < stale_threshold) (pp_entries pool)\<rparr>"

definition pool_get :: "bytes \<Rightarrow> peer_pool \<Rightarrow> pool_entry option" where
  "pool_get p pool = find (\<lambda>e. pe_id e = p) (pp_entries pool)"

section \<open>The machine\<close>

datatype pool_op =
  PoolAdd bytes nat
| PoolDisconnect bytes nat
| PoolBan bytes nat
| PoolScore bytes u64
| PoolEvict nat
| PoolPrune nat nat

fun peer_pool_step :: "pool_op \<Rightarrow> peer_pool \<Rightarrow> peer_pool" where
  "peer_pool_step (PoolAdd p now) pool = snd (try_add p now pool)"
| "peer_pool_step (PoolDisconnect p now) pool = record_disconnect p now pool"
| "peer_pool_step (PoolBan p now) pool = pool_ban p now pool"
| "peer_pool_step (PoolScore p score) pool = update_score p score pool"
| "peer_pool_step (PoolEvict now) pool = snd (evict_worst now pool)"
| "peer_pool_step (PoolPrune stale now) pool = prune_stale stale now pool"

definition pool_inv :: "peer_pool \<Rightarrow> bool" where
  "pool_inv pool \<longleftrightarrow> distinct (map pe_id (pp_entries pool))"


lemma min_by_key_snoc:
  "min_by_key f (xs @ [x]) =
     (case min_by_key f xs of None \<Rightarrow> Some x | Some y \<Rightarrow> if f x < f y then Some x else Some y)"
  by (simp add: min_by_key_def)

lemma min_by_key_Nil [simp]: "min_by_key f [] = None"
  by (simp add: min_by_key_def)

lemma min_by_key_None [simp]: "min_by_key f xs = None \<longleftrightarrow> xs = []"
  by (induction xs rule: rev_induct) (auto simp: min_by_key_snoc split: option.splits)

lemma min_by_key_Some: "min_by_key f xs = Some x \<Longrightarrow> x \<in> set xs \<and> (\<forall>y \<in> set xs. f x \<le> f y)"
proof (induction xs arbitrary: x rule: rev_induct)
  case (snoc z xs)
  show ?case
  proof (cases "min_by_key f xs")
    case None
    with snoc.prems show ?thesis
      by (simp add: min_by_key_snoc)
  next
    case (Some y)
    with snoc.prems snoc.IH [OF Some] show ?thesis
      by (auto simp: min_by_key_snoc not_less split: if_splits)
  qed
qed simp

section \<open>Lookups\<close>

lemma pool_position_Some:
  "pool_position p pool = Some i \<Longrightarrow> i < length (pp_entries pool) \<and> pe_id (pp_entries pool ! i) = p"
  by (simp add: pool_position_def position_Some)

lemma pool_position_get: "pool_get p pool = map_option (\<lambda>i. pp_entries pool ! i) (pool_position p pool)"
proof -
  have "find (\<lambda>e. pe_id e = p) es = map_option (\<lambda>i. es ! i) (position (\<lambda>e. pe_id e = p) es)" for es
    by (induction es) (auto simp: option.map_comp comp_def)
  then show ?thesis
    by (simp add: pool_get_def pool_position_def)
qed

lemma pool_get_Some:
  "pool_inv pool \<Longrightarrow> pool_get p pool = Some e \<longleftrightarrow> e \<in> set (pp_entries pool) \<and> pe_id e = p"
proof -
  have "distinct (map pe_id es) \<Longrightarrow> find (\<lambda>e. pe_id e = p) es = Some e \<longleftrightarrow> e \<in> set es \<and> pe_id e = p" for es
    by (induction es) (auto simp: image_iff)
  then show "pool_inv pool \<Longrightarrow> ?thesis"
    by (simp add: pool_get_def pool_inv_def)
qed

lemma set_entry_inv:
  assumes "pool_inv pool" "pool_position p pool = Some i" "pe_id e = p"
  shows "pool_inv (set_entry i e pool)"
    and "pool_get q (set_entry i e pool) = (if q = p then Some e else pool_get q pool)"
proof -
  note i = pool_position_Some [OF assms(2)]
  have "map pe_id ((pp_entries pool)[i := e]) = map pe_id (pp_entries pool)"
    using i assms(3) by (simp add: map_update list_update_same_conv)
  then show inv: "pool_inv (set_entry i e pool)"
    using assms(1) by (simp add: pool_inv_def set_entry_def)
  have distinct: "distinct (pp_entries pool)"
    using assms(1) by (simp add: pool_inv_def distinct_map)
  have set: "set ((pp_entries pool)[i := e]) = insert e (set (pp_entries pool) - {pp_entries pool ! i})"
    using i distinct by (simp add: set_update_distinct)
  have "pool_get q (set_entry i e pool) = Some x \<longleftrightarrow> (if q = p then Some e else pool_get q pool) = Some x" for x
    unfolding pool_get_Some [OF inv] using pool_get_Some [OF assms(1), of q x] pool_get_Some [OF assms(1), of p "pp_entries pool ! i"] i assms(3)
      pool_get_Some [OF assms(1), of p x]
    by (auto simp: set_entry_def set)
  then show "pool_get q (set_entry i e pool) = (if q = p then Some e else pool_get q pool)"
    by (rule option_eqI)
qed


section \<open>The pool as a table\<close>

lemma pool_get_position: "pool_get p pool = Some e \<Longrightarrow> \<exists>i. pool_position p pool = Some i \<and> pp_entries pool ! i = e"
  by (auto simp: pool_position_get)

lemma pool_get_id: "pool_inv pool \<Longrightarrow> pool_get p pool = Some e \<Longrightarrow> pe_id e = p"
  using pool_get_Some by blast

lemma try_add_known:
  assumes "pool_inv pool" "pool_get p pool = Some e"
  shows "try_add p now pool =
    (case pe_state e of
       PoolBanned \<Rightarrow> (Inl PeerBanned, pool)
     | PoolActive \<Rightarrow> (Inr (), pool)
     | PoolDisconnected \<Rightarrow>
         if \<not> can_reconnect now e then (Inl BackoffActive, pool)
         else (Inr (), set_entry (the (pool_position p pool)) (e\<lparr>pe_state := PoolActive, pe_changed_at := now\<rparr>) pool))"
  using pool_get_position [OF assms(2)] by (auto simp: try_add_def Let_def split: pool_state.split)

lemma try_add_table:
  assumes "pool_inv pool"
  shows "pool_inv (snd (try_add p now pool))"
    and "pool_get q (snd (try_add p now pool)) =
      (if q \<noteq> p then pool_get q pool
       else case pool_get p pool of
         Some e \<Rightarrow> Some (if pe_state e = PoolDisconnected \<and> can_reconnect now e then e\<lparr>pe_state := PoolActive, pe_changed_at := now\<rparr> else e)
       | None \<Rightarrow> if pc_max_peers (pp_config pool) \<le> pool_active_count pool then None else Some (pe_new_active p now))"
proof -
  have "pool_inv (snd (try_add p now pool)) \<and> pool_get q (snd (try_add p now pool)) =
      (if q \<noteq> p then pool_get q pool
       else case pool_get p pool of
         Some e \<Rightarrow> Some (if pe_state e = PoolDisconnected \<and> can_reconnect now e then e\<lparr>pe_state := PoolActive, pe_changed_at := now\<rparr> else e)
       | None \<Rightarrow> if pc_max_peers (pp_config pool) \<le> pool_active_count pool then None else Some (pe_new_active p now))"
  proof (cases "pool_position p pool")
    case None
    then have none: "pool_get p pool = None" "p \<notin> pe_id ` set (pp_entries pool)"
      by (auto simp: pool_position_get pool_position_def position_None)
    have "find (\<lambda>e. pe_id e = q) (es @ [x]) = (case find (\<lambda>e. pe_id e = q) es of None \<Rightarrow> if pe_id x = q then Some x else None | Some e \<Rightarrow> Some e)"
      for es and x :: pool_entry
      by (induction es) auto
    then have "pool_get q (pool\<lparr>pp_entries := pp_entries pool @ [pe_new_active p now]\<rparr>) =
        (if q = p then Some (pe_new_active p now) else pool_get q pool)"
      using none by (auto simp: pool_get_def pe_new_active_def split: option.split)
    then show ?thesis
      using None none assms by (auto simp: try_add_def pool_inv_def pe_new_active_def)
  next
    case (Some i)
    let ?e = "pp_entries pool ! i"
    have e: "pool_get p pool = Some ?e" "pe_id ?e = p"
      using Some pool_position_Some by (simp_all add: pool_position_get)
    note set_entry = set_entry_inv [OF assms Some, of "?e\<lparr>pe_state := PoolActive, pe_changed_at := now\<rparr>"]
    show ?thesis
      using e set_entry Some assms by (auto simp: try_add_def Let_def split: pool_state.split)
  qed
  then show "pool_inv (snd (try_add p now pool))"
    "pool_get q (snd (try_add p now pool)) =
      (if q \<noteq> p then pool_get q pool
       else case pool_get p pool of
         Some e \<Rightarrow> Some (if pe_state e = PoolDisconnected \<and> can_reconnect now e then e\<lparr>pe_state := PoolActive, pe_changed_at := now\<rparr> else e)
       | None \<Rightarrow> if pc_max_peers (pp_config pool) \<le> pool_active_count pool then None else Some (pe_new_active p now))"
    by blast+
qed

definition disconnected_entry :: "nat \<Rightarrow> pool_entry \<Rightarrow> pool_entry" where
  "disconnected_entry now e =
     (if pe_state e = PoolBanned then e
      else e\<lparr>pe_disconnects := sat_add (pe_disconnects e) 1, pe_state := PoolDisconnected, pe_changed_at := now,
             pe_reconnect_after := Some (now + backoff (sat_add (pe_disconnects e) 1))\<rparr>)"

text \<open>The operations that change one entry.\<close>

lemma update_table:
  assumes "pool_inv pool" "pool' = (case pool_position p pool of None \<Rightarrow> pool | Some i \<Rightarrow> set_entry i (f (pp_entries pool ! i)) pool)"
    and "\<And>e. pe_id (f e) = pe_id e"
  shows "pool_inv pool' \<and> pool_get q pool' = (if q = p then map_option f (pool_get p pool) else pool_get q pool)"
proof (cases "pool_position p pool")
  case None
  then show ?thesis
    using assms by (simp add: pool_position_get)
next
  case (Some i)
  then have "pe_id (f (pp_entries pool ! i)) = p" "pool_get p pool = Some (pp_entries pool ! i)"
    using assms(3) pool_position_Some by (simp_all add: pool_position_get)
  then show ?thesis
    using Some assms(2) set_entry_inv [OF assms(1) Some, of "f (pp_entries pool ! i)"] by auto
qed

lemma set_entry_same: "i < length (pp_entries pool) \<Longrightarrow> set_entry i (pp_entries pool ! i) pool = pool"
  by (simp add: set_entry_def)

lemma record_disconnect_table:
  assumes "pool_inv pool"
  shows "pool_inv (record_disconnect p now pool) \<and> pool_get q (record_disconnect p now pool) =
    (if q = p then map_option (disconnected_entry now) (pool_get p pool) else pool_get q pool)"
  by (rule update_table [OF assms])
    (auto simp: record_disconnect_def disconnected_entry_def Let_def set_entry_same dest: pool_position_Some split: option.split)

lemma pool_ban_table:
  assumes "pool_inv pool"
  shows "pool_inv (pool_ban p now pool) \<and> pool_get q (pool_ban p now pool) =
    (if q = p then map_option (\<lambda>e. e\<lparr>pe_state := PoolBanned, pe_changed_at := now, pe_reconnect_after := None\<rparr>) (pool_get p pool)
     else pool_get q pool)"
  by (rule update_table [OF assms]) (auto simp: pool_ban_def split: option.split)

lemma update_score_table:
  assumes "pool_inv pool"
  shows "pool_inv (update_score p score pool) \<and> pool_get q (update_score p score pool) =
    (if q = p then map_option (\<lambda>e. e\<lparr>pe_score := score\<rparr>) (pool_get p pool) else pool_get q pool)"
  by (rule update_table [OF assms]) (auto simp: update_score_def split: option.split)

lemma prune_stale_table:
  assumes "pool_inv pool"
  shows "pool_inv (prune_stale stale now pool) \<and> pool_get q (prune_stale stale now pool) =
    (case pool_get q pool of None \<Rightarrow> None
     | Some e \<Rightarrow> if pe_state e = PoolDisconnected \<longrightarrow> time_in_state now e < stale then Some e else None)"
proof
  show inv: "pool_inv (prune_stale stale now pool)"
    using assms by (simp add: pool_inv_def prune_stale_def distinct_map_filter)
  have "pool_get q (prune_stale stale now pool) = Some e \<longleftrightarrow> pool_get q pool = Some e
      \<and> (pe_state e = PoolDisconnected \<longrightarrow> time_in_state now e < stale)" for e
    unfolding pool_get_Some [OF inv] pool_get_Some [OF assms] by (auto simp: prune_stale_def)
  then show "pool_get q (prune_stale stale now pool) =
    (case pool_get q pool of None \<Rightarrow> None
     | Some e \<Rightarrow> if pe_state e = PoolDisconnected \<longrightarrow> time_in_state now e < stale then Some e else None)"
    by (intro option_eqI) (auto split: option.split if_splits)
qed

lemma evict_worst_cases:
  obtains "evict_worst now pool = (None, pool)" "\<forall>e \<in> set (pp_entries pool). \<not> evictable now pool e"
  | i where "i < length (pp_entries pool)" "evictable now pool (pp_entries pool ! i)"
      "\<forall>e \<in> set (pp_entries pool). evictable now pool e \<longrightarrow> pe_score (pp_entries pool ! i) \<le> pe_score e"
      "evict_worst now pool = (Some (pe_id (pp_entries pool ! i)), pool\<lparr>pp_entries := remove_at i (pp_entries pool)\<rparr>)"
proof -
  let ?cands = "filter (\<lambda>(i, e). evictable now pool e) (enumerate 0 (pp_entries pool))"
  have cands: "(i, e) \<in> set ?cands \<longleftrightarrow> i < length (pp_entries pool) \<and> e = pp_entries pool ! i \<and> evictable now pool e" for i e
    by (auto simp: in_set_enumerate_eq)
  show thesis
  proof (cases "min_by_key (\<lambda>(i, e). pe_score e) ?cands")
    case None
    then have "?cands = []"
      by simp
    then have "\<not> evictable now pool (pp_entries pool ! i)" if "i < length (pp_entries pool)" for i
      using cands that by (metis list.set(1) empty_iff)
    then have "\<forall>e \<in> set (pp_entries pool). \<not> evictable now pool e"
      by (metis in_set_conv_nth)
    then show thesis
      using that(1) None by (simp add: evict_worst_def)
  next
    case (Some x)
    obtain i e where x: "x = (i, e)"
      by fastforce
    have min: "(i, e) \<in> set ?cands" "\<And>j e'. (j, e') \<in> set ?cands \<Longrightarrow> pe_score e \<le> pe_score e'"
      using min_by_key_Some [OF Some] x by auto
    have "pe_score e \<le> pe_score e'" if "e' \<in> set (pp_entries pool)" "evictable now pool e'" for e'
    proof -
      obtain j where "j < length (pp_entries pool)" "e' = pp_entries pool ! j"
        using \<open>e' \<in> set (pp_entries pool)\<close> by (auto simp: in_set_conv_nth)
      then show ?thesis
        using min(2) cands that(2) by blast
    qed
    moreover have i: "i < length (pp_entries pool)" "e = pp_entries pool ! i" "evictable now pool e"
      using min(1) unfolding cands by auto
    moreover have "evict_worst now pool = (Some (pe_id (pp_entries pool ! i)), pool\<lparr>pp_entries := remove_at i (pp_entries pool)\<rparr>)"
      using Some x by (simp add: evict_worst_def)
    ultimately show thesis
      using that(2) [of i] by blast
  qed
qed

lemma evict_worst_table:
  assumes "pool_inv pool"
  shows "pool_inv (snd (evict_worst now pool)) \<and>
    pool_get q (snd (evict_worst now pool)) = (if fst (evict_worst now pool) = Some q then None else pool_get q pool)"
proof (cases rule: evict_worst_cases [of now pool])
  case 1
  then show ?thesis
    using assms by simp
next
  case (2 i)
  let ?e = "pp_entries pool ! i" and ?pool = "pool\<lparr>pp_entries := remove_at i (pp_entries pool)\<rparr>"
  have distinct: "distinct (map pe_id (pp_entries pool))" "distinct (pp_entries pool)"
    using assms by (simp_all add: pool_inv_def distinct_map)
  have inv: "pool_inv ?pool"
    using distinct_remove_at(1) [OF distinct(1), of i] 2(1) by (simp add: pool_inv_def map_remove_at)
  have set: "set (remove_at i (pp_entries pool)) = set (pp_entries pool) - {?e}"
    using distinct_remove_at(2) [OF distinct(2) 2(1)] .
  have uniq: "e \<in> set (pp_entries pool) \<Longrightarrow> pe_id e = pe_id ?e \<Longrightarrow> e = ?e" for e
    using distinct(1) 2(1) by (auto simp: distinct_map inj_on_def)
  have "pool_get q ?pool = Some e \<longleftrightarrow> (if q = pe_id ?e then None else pool_get q pool) = Some e" for e
    using pool_get_Some [OF inv, of q e] pool_get_Some [OF assms, of q e] uniq [of e] by (auto simp: set)
  then have "pool_get q ?pool = (if q = pe_id ?e then None else pool_get q pool)"
    by (rule option_eqI)
  then show ?thesis
    using 2(4) inv by auto
qed

interpretation pool: step_system "range pp_new" peer_pool_step pool_inv
proof unfold_locales
  fix s :: peer_pool and op
  show "s \<in> range pp_new \<Longrightarrow> pool_inv s"
    by (auto simp: pool_inv_def pp_new_def)
  show "pool_inv s \<Longrightarrow> pool_inv (peer_pool_step op s)"
    by (cases op) (simp_all add: try_add_table(1) record_disconnect_table pool_ban_table update_score_table evict_worst_table prune_stale_table)
qed


section \<open>Backoff\<close>

lemma backoff_mono: "m \<le> n \<Longrightarrow> backoff m \<le> backoff n"
proof -
  assume "m \<le> n"
  then have "unat (sat_sub m 1) \<le> unat (sat_sub n 1)"
    by (simp add: unat_sat_sub word_le_nat_alt)
  then have "(2 :: nat) ^ unat (sat_sub m 1) \<le> 2 ^ unat (sat_sub n 1)"
    by simp
  then have "backoff_multiplier (sat_sub m 1) \<le> backoff_multiplier (sat_sub n 1)"
    unfolding backoff_multiplier_def by (rule min.mono) simp
  then show ?thesis
    unfolding backoff_def by (intro min.mono mult_le_mono2) simp_all
qed

lemma backoff_bounds: "5 \<le> backoff n" "backoff n \<le> 300"
proof -
  have "1 \<le> backoff_multiplier m" for m
    by (simp add: backoff_multiplier_def)
  then show "5 \<le> backoff n"
    by (simp add: backoff_def)
  show "backoff n \<le> 300"
    by (simp add: backoff_def)
qed

lemma sat_add_ge: "n \<le> sat_add n 1"
  for n :: "'a::len word"
proof -
  have "unat n \<le> 2 ^ LENGTH('a) - 1"
    using unat_less_exp [of n] by linarith
  then show ?thesis
    by (simp add: word_le_nat_alt unat_sat_add)
qed

text \<open>An entry that has to wait until a deadline, or for ever.\<close>

definition waiting :: "nat \<Rightarrow> u32 \<Rightarrow> pool_entry \<Rightarrow> bool" where
  "waiting deadline n e \<longleftrightarrow>
     pe_state e = PoolBanned
     \<or> pe_state e = PoolDisconnected \<and> n \<le> pe_disconnects e \<and> (\<exists>d. pe_reconnect_after e = Some d \<and> deadline \<le> d)"

fun before_deadline :: "bytes \<Rightarrow> nat \<Rightarrow> nat \<Rightarrow> pool_op \<Rightarrow> bool" where
  "before_deadline p now deadline (PoolAdd q t) \<longleftrightarrow> q = p \<longrightarrow> t < deadline"
| "before_deadline p now deadline (PoolDisconnect q t) \<longleftrightarrow> q = p \<longrightarrow> now \<le> t"
| "before_deadline p now deadline (PoolPrune stale t) \<longleftrightarrow> False"
| "before_deadline p now deadline _ \<longleftrightarrow> True"

lemma waiting_refused:
  assumes "pool_inv pool" "pool_get p pool = Some e" "waiting deadline n e" "t < deadline"
  shows "fst (try_add p t pool) \<in> {Inl PeerBanned, Inl BackoffActive}"
  using try_add_known [OF assms(1,2), of t] assms(3,4) by (auto simp: waiting_def can_reconnect_def)

lemma pool_waiting_step:
  assumes "pool_inv pool" "pool_get p pool = Some e" "waiting (now + backoff n) n e" "before_deadline p now (now + backoff n) op"
  shows "\<exists>e'. pool_get p (peer_pool_step op pool) = Some e' \<and> waiting (now + backoff n) n e'"
proof (cases op)
  case (PoolAdd q t)
  then show ?thesis
    using assms try_add_table(2) [OF assms(1), of p q t] by (auto simp: waiting_def can_reconnect_def)
next
  case (PoolDisconnect q t)
  have "waiting (now + backoff n) n (disconnected_entry t e)" if "now \<le> t"
  proof -
    have "n \<le> pe_disconnects e \<Longrightarrow> n \<le> sat_add (pe_disconnects e) 1"
      using sat_add_ge [of "pe_disconnects e"] order_trans by blast
    then show ?thesis
      using that assms(3) backoff_mono [of n "sat_add (pe_disconnects e) 1"] by (auto simp: waiting_def disconnected_entry_def)
  qed
  then show ?thesis
    using PoolDisconnect assms(2-4) record_disconnect_table [OF assms(1), of q t p] by auto
next
  case (PoolBan q t)
  then show ?thesis
    using assms(2,3) pool_ban_table [OF assms(1), of q t p] by (auto simp: waiting_def)
next
  case (PoolScore q score)
  then show ?thesis
    using assms(2,3) update_score_table [OF assms(1), of q score p] by (auto simp: waiting_def)
next
  case (PoolEvict t)
  have "fst (evict_worst t pool) \<noteq> Some p"
  proof (cases rule: evict_worst_cases [of t pool])
    case (2 i)
    have "pe_state e \<noteq> PoolActive"
      using assms(3) by (auto simp: waiting_def)
    then have "pp_entries pool ! i \<noteq> e"
      using 2(2) by (auto simp: evictable_def)
    moreover have "pe_id (pp_entries pool ! i) = p \<Longrightarrow> pool_get p pool = Some (pp_entries pool ! i)"
      using pool_get_Some [OF assms(1)] 2(1) by simp
    ultimately show ?thesis
      using assms(2) 2(4) by auto
  qed simp
  then show ?thesis
    using PoolEvict assms(2,3) evict_worst_table [OF assms(1), of t p] by auto
next
  case (PoolPrune stale t)
  then show ?thesis
    using assms(4) by simp
qed

lemma waiting_fold:
  assumes "pool_inv pool" "pool_get p pool = Some e" "waiting (now + backoff n) n e" "list_all (before_deadline p now (now + backoff n)) ops"
  shows "\<exists>e'. pool_get p (fold peer_pool_step ops pool) = Some e' \<and> waiting (now + backoff n) n e'"
  using assms
proof (induction ops arbitrary: pool e)
  case (Cons op ops)
  obtain e' where "pool_get p (peer_pool_step op pool) = Some e'" "waiting (now + backoff n) n e'"
    using pool_waiting_step [OF Cons.prems(1-3)] Cons.prems(4) by auto
  then show ?case
    using Cons.IH [OF pool.inv_step [OF Cons.prems(1)]] Cons.prems(4) by simp
qed simp

section \<open>Bans\<close>

lemma banned_step:
  assumes "pool_inv pool" "pool_get p pool = Some e" "pe_state e = PoolBanned"
  shows "\<exists>e'. pool_get p (peer_pool_step op pool) = Some e' \<and> pe_state e' = PoolBanned"
proof (cases op)
  case (PoolPrune stale t)
  then show ?thesis
    using assms prune_stale_table [OF assms(1), of stale t p] by simp
next
  case (PoolEvict t)
  have "fst (evict_worst t pool) \<noteq> Some p"
  proof (cases rule: evict_worst_cases [of t pool])
    case (2 i)
    then have "pp_entries pool ! i \<noteq> e"
      using assms(3) by (auto simp: evictable_def)
    moreover have "pe_id (pp_entries pool ! i) = p \<Longrightarrow> pool_get p pool = Some (pp_entries pool ! i)"
      using pool_get_Some [OF assms(1)] 2(1) by simp
    ultimately show ?thesis
      using assms(2) 2(4) by auto
  qed simp
  then show ?thesis
    using PoolEvict assms(2,3) evict_worst_table [OF assms(1), of t p] by auto
next
  case (PoolAdd q t)
  then show ?thesis
    using assms try_add_table(2) [OF assms(1), of p q t] by auto
next
  case (PoolDisconnect q t)
  then show ?thesis
    using assms record_disconnect_table [OF assms(1), of q t p] by (auto simp: disconnected_entry_def)
next
  case (PoolBan q t)
  then show ?thesis
    using assms pool_ban_table [OF assms(1), of q t p] by auto
next
  case (PoolScore q score)
  then show ?thesis
    using assms update_score_table [OF assms(1), of q score p] by auto
qed

lemma banned_fold:
  assumes "pool_inv pool" "pool_get p pool = Some e" "pe_state e = PoolBanned"
  shows "\<exists>e'. pool_get p (fold peer_pool_step ops pool) = Some e' \<and> pe_state e' = PoolBanned"
  using assms
proof (induction ops arbitrary: pool e)
  case (Cons op ops)
  obtain e' where "pool_get p (peer_pool_step op pool) = Some e'" "pe_state e' = PoolBanned"
    using banned_step [OF Cons.prems] by blast
  then show ?case
    using Cons.IH [OF pool.inv_step [OF Cons.prems(1)]] by simp
qed simp


section \<open>Capacity\<close>

text \<open>A known peer that comes back is not counted against the capacity.\<close>

definition come_and_go :: "bytes list \<Rightarrow> pool_op list" where
  "come_and_go ps = concat (map (\<lambda>p. [PoolAdd p 0, PoolDisconnect p 0]) ps)"

definition come_back :: "bytes list \<Rightarrow> pool_op list" where
  "come_back ps = map (\<lambda>p. PoolAdd p 5) ps"

definition gone_entry :: "bytes \<Rightarrow> pool_entry" where
  "gone_entry p = disconnected_entry 0 (pe_new_active p 0)"

definition back_entry :: "bytes \<Rightarrow> pool_entry" where
  "back_entry p = (gone_entry p)\<lparr>pe_state := PoolActive, pe_changed_at := 5\<rparr>"

lemma entries_ids [simp]: "pe_id (gone_entry p) = p" "pe_id (back_entry p) = p" "pe_id (pe_new_active p now) = p"
  by (simp_all add: back_entry_def gone_entry_def disconnected_entry_def pe_new_active_def)

lemma entry_states: "pe_state (gone_entry p) = PoolDisconnected" "pe_state (back_entry p) = PoolActive" "can_reconnect 5 (gone_entry p)"
proof -
  have "(sat_add 0 1 :: u32) = 1"
    by (simp add: sat_add_def)
  then show "pe_state (gone_entry p) = PoolDisconnected" "pe_state (back_entry p) = PoolActive" "can_reconnect 5 (gone_entry p)"
    by (simp_all add: back_entry_def gone_entry_def disconnected_entry_def pe_new_active_def can_reconnect_def
        backoff_def backoff_multiplier_def sat_sub_def)
qed

lemma position_middle: "p \<notin> set (map pe_id xs) \<Longrightarrow> pe_id e = p \<Longrightarrow> position (\<lambda>e. pe_id e = p) (xs @ e # ys) = Some (length xs)"
  by (induction xs) auto

lemma come_and_go_run:
  assumes "0 < pc_max_peers config" "distinct (qs @ ps)"
  shows "fold peer_pool_step (come_and_go ps) \<lparr>pp_config = config, pp_entries = map gone_entry qs\<rparr>
    = \<lparr>pp_config = config, pp_entries = map gone_entry (qs @ ps)\<rparr>"
  using assms(2)
proof (induction ps arbitrary: qs)
  case (Cons p ps)
  let ?pool = "\<lambda>es. \<lparr>pp_config = config, pp_entries = es\<rparr>"
  have new: "position (\<lambda>e. pe_id e = p) (map gone_entry qs) = None"
    using Cons.prems by (auto simp: position_None)
  have at: "position (\<lambda>e. pe_id e = p) (map gone_entry qs @ [pe_new_active p 0]) = Some (length qs)"
    using Cons.prems position_middle [of p "map gone_entry qs" "pe_new_active p 0" "[]"] by (simp add: comp_def)
  have "pool_active_count (?pool (map gone_entry qs)) = 0"
    by (simp add: pool_active_count_def entry_states filter_empty_conv)
  then have "snd (try_add p 0 (?pool (map gone_entry qs))) = ?pool (map gone_entry qs @ [pe_new_active p 0])"
    using new assms(1) by (simp add: try_add_def pool_position_def)
  moreover have "record_disconnect p 0 (?pool (map gone_entry qs @ [pe_new_active p 0])) = ?pool (map gone_entry (qs @ [p]))"
    using at by (simp add: record_disconnect_def pool_position_def set_entry_def gone_entry_def disconnected_entry_def pe_new_active_def
        nth_append list_update_append Let_def)
  ultimately show ?case
    using Cons.IH [of "qs @ [p]"] Cons.prems by (simp add: come_and_go_def)
qed (simp add: come_and_go_def)

lemma come_back_run:
  assumes "distinct (qs @ ps)"
  shows "fold peer_pool_step (come_back ps) \<lparr>pp_config = config, pp_entries = map back_entry qs @ map gone_entry ps\<rparr>
    = \<lparr>pp_config = config, pp_entries = map back_entry (qs @ ps)\<rparr>"
  using assms
proof (induction ps arbitrary: qs)
  case (Cons p ps)
  let ?pool = "\<lparr>pp_config = config, pp_entries = map back_entry qs @ gone_entry p # map gone_entry ps\<rparr>"
  have "position (\<lambda>e. pe_id e = p) (map back_entry qs @ gone_entry p # map gone_entry ps) = Some (length qs)"
    using Cons.prems position_middle [of p "map back_entry qs" "gone_entry p"] by (simp add: comp_def)
  then have "snd (try_add p 5 ?pool) = \<lparr>pp_config = config, pp_entries = map back_entry (qs @ [p]) @ map gone_entry ps\<rparr>"
    by (simp add: try_add_def pool_position_def entry_states set_entry_def back_entry_def nth_append list_update_append Let_def)
  then show ?case
    using Cons.IH [of "qs @ [p]"] Cons.prems by (simp add: come_back_def)
qed (simp add: come_back_def)

section \<open>Properties\<close>

text \<open>
  C37: a disconnected peer waits. After a disconnection that is the \<open>n\<close>-th of a peer it cannot come back before
  its deadline, whatever is done to the pool meanwhile short of pruning it; the delay is at least 5
  and at most 300 seconds and never shrinks with further disconnections. A banned peer is refused too.
\<close>

theorem pool_backoff_enforced:
  assumes "reached (range pp_new) peer_pool_step pool" "pool_get p pool = Some e" "n = sat_add (pe_disconnects e) 1"
    and "list_all (before_deadline p now (now + backoff n)) ops" "t < now + backoff n"
  shows "fst (try_add p t (fold peer_pool_step ops (record_disconnect p now pool))) \<in> {Inl PeerBanned, Inl BackoffActive}
    \<and> 5 \<le> backoff n \<and> backoff n \<le> 300 \<and> (\<forall>m \<ge> n. backoff n \<le> backoff m)"
proof -
  have inv: "pool_inv pool"
    using assms(1) by (rule pool.reached_inv)
  note disc = record_disconnect_table [OF inv, of p now p]
  have "waiting (now + backoff n) n (disconnected_entry now e)"
    using assms(3) by (simp add: waiting_def disconnected_entry_def)
  then obtain e' where "pool_get p (fold peer_pool_step ops (record_disconnect p now pool)) = Some e'" "waiting (now + backoff n) n e'"
    using waiting_fold [OF conjunct1 [OF disc] _ _ assms(4)] disc assms(2) by auto
  then have "fst (try_add p t (fold peer_pool_step ops (record_disconnect p now pool))) \<in> {Inl PeerBanned, Inl BackoffActive}"
    using waiting_refused [OF pool.inv_fold [OF conjunct1 [OF disc]]] assms(5) by blast
  then show ?thesis
    using backoff_bounds backoff_mono by blast
qed

theorem pool_backoff_enforced_witness:
  "fst (try_add [1] 14 (fold peer_pool_step [PoolAdd [1] 12, PoolScore [1] 7] (record_disconnect [1] 10
     (fold peer_pool_step [PoolAdd [1] 0] (pp_new default_pool_config))))) \<in> {Inl PeerBanned, Inl BackoffActive}"
proof -
  let ?pool = "fold peer_pool_step [PoolAdd [1] 0] (pp_new default_pool_config)"
  have reach: "reached (range pp_new) peer_pool_step ?pool"
    by (rule reached_fold) simp
  have get: "pool_get [1] ?pool = Some (pe_new_active [1] 0)"
    by (simp add: try_add_def pp_new_def pool_position_def pool_active_count_def default_pool_config_def pool_get_def)
  have "backoff (sat_add 0 1) = 5"
    by (simp add: backoff_def backoff_multiplier_def sat_add_def sat_sub_def)
  then show ?thesis
    using pool_backoff_enforced [OF reach get refl, of 10 "[PoolAdd [1] 12, PoolScore [1] 7]" 14] by (simp add: pe_new_active_def)
qed

text \<open>
  a ban is for ever. Once a known peer has been banned, every later history of the pool, with
  disconnections, evictions and pruning, leaves it banned, and every attempt to add it is refused.
\<close>

theorem pool_ban_permanent:
  assumes "reached (range pp_new) peer_pool_step pool" "pool_get p pool \<noteq> None" "pool' = fold peer_pool_step ops (pool_ban p now pool)"
  shows "(\<exists>e. pool_get p pool' = Some e \<and> pe_state e = PoolBanned) \<and> try_add p t pool' = (Inl PeerBanned, pool')"
proof -
  have inv: "pool_inv pool"
    using assms(1) by (rule pool.reached_inv)
  note ban = pool_ban_table [OF inv, of p now p]
  obtain e where e: "pool_get p pool' = Some e" "pe_state e = PoolBanned"
    using banned_fold [OF conjunct1 [OF ban]] ban assms(2,3) by fastforce
  moreover have "pool_inv pool'"
    using pool.inv_fold [OF conjunct1 [OF ban]] assms(3) by simp
  ultimately show ?thesis
    using try_add_known by auto
qed

theorem pool_ban_permanent_witness:
  "\<exists>pool'. try_add [1] 1000 pool' = (Inl PeerBanned, pool') \<and>
     pool' = fold peer_pool_step [PoolDisconnect [1] 5, PoolPrune 0 900] (pool_ban [1] 3 (fold peer_pool_step [PoolAdd [1] 0] (pp_new default_pool_config)))"
proof -
  let ?pool = "fold peer_pool_step [PoolAdd [1] 0] (pp_new default_pool_config)"
  have "reached (range pp_new) peer_pool_step ?pool"
    by (rule reached_fold) simp
  moreover have "pool_get [1] ?pool \<noteq> None"
    by (simp add: try_add_def pp_new_def pool_position_def pool_active_count_def default_pool_config_def pool_get_def pe_new_active_def)
  ultimately show ?thesis
    using pool_ban_permanent [OF _ _ refl] by blast
qed

text \<open>
  the capacity does not bound the pool. Only peers that are new are counted against it, not
  disconnected ones that come back: in a pool with room for one peer any list of peers, each connected
  and disconnected in turn, can be active together five seconds later.
\<close>

theorem pool_capacity_not_enforced:
  assumes "0 < pc_max_peers config" "distinct ps"
  shows "pool_active_count (fold peer_pool_step (come_and_go ps @ come_back ps) (pp_new config)) = length ps"
  using come_and_go_run [OF assms(1), of "[]" ps] come_back_run [of "[]" ps config] assms(2)
  by (simp add: pp_new_def pool_active_count_def entry_states filter_id_conv)

theorem pool_capacity_not_enforced_witness:
  "pool_active_count (fold peer_pool_step (come_and_go [[1], [2], [3]] @ come_back [[1], [2], [3]])
     (pp_new \<lparr>pc_max_peers = 1, pc_eviction_threshold = 100, pc_min_active = 30\<rparr>)) = 3"
proof -
  have "pool_active_count (fold peer_pool_step (come_and_go [[1], [2], [3]] @ come_back [[1], [2], [3]])
     (pp_new \<lparr>pc_max_peers = 1, pc_eviction_threshold = 100, pc_min_active = 30\<rparr>)) = length [[1], [2], [3] :: bytes]"
    by (rule pool_capacity_not_enforced) simp_all
  then show ?thesis
    by simp
qed

text \<open>
  eviction takes exactly the worst peer. A peer is evicted if and only if some peer is active, has been
  so for the minimum time and scores below the threshold; the one evicted is such a peer with the lowest
  score, and all other peers stay as they are.
\<close>

theorem pool_evict_exact:
  assumes "reached (range pp_new) peer_pool_step pool"
  shows "case fst (evict_worst now pool) of
      None \<Rightarrow> (\<forall>e \<in> set (pp_entries pool). \<not> evictable now pool e) \<and> snd (evict_worst now pool) = pool
    | Some p \<Rightarrow> (\<exists>e. pool_get p pool = Some e \<and> evictable now pool e
          \<and> (\<forall>e' \<in> set (pp_entries pool). evictable now pool e' \<longrightarrow> pe_score e \<le> pe_score e'))
        \<and> (\<forall>q. pool_get q (snd (evict_worst now pool)) = (if q = p then None else pool_get q pool))"
proof -
  have inv: "pool_inv pool"
    using assms by (rule pool.reached_inv)
  show ?thesis
  proof (cases rule: evict_worst_cases [of now pool])
    case (2 i)
    have "pool_get (pe_id (pp_entries pool ! i)) pool = Some (pp_entries pool ! i)"
      using pool_get_Some [OF inv] 2(1) by simp
    then show ?thesis
      using 2 evict_worst_table [OF inv, of now] by auto
  qed simp
qed

theorem pool_evict_exact_witness:
  "fst (evict_worst 30 (fold peer_pool_step [PoolAdd [1] 0, PoolAdd [2] 0, PoolScore [1] 50] (pp_new default_pool_config))) = Some [2]"
proof -
  obtain pool where run: "pool = fold peer_pool_step [PoolAdd [1] 0, PoolAdd [2] 0, PoolScore [1] 50] (pp_new default_pool_config)"
    by blast
  have reach: "reached (range pp_new) peer_pool_step pool"
    unfolding run by (rule reached_fold) simp
  have pool: "pool = \<lparr>pp_config = default_pool_config, pp_entries = [(pe_new_active [1] 0)\<lparr>pe_score := 50\<rparr>, pe_new_active [2] 0]\<rparr>"
    by (simp add: run try_add_def update_score_def pp_new_def pool_position_def pool_active_count_def default_pool_config_def pe_new_active_def
        set_entry_def)
  then have "evictable 30 pool (pe_new_active [2] 0)"
    by (simp add: evictable_def time_in_state_def default_pool_config_def pe_new_active_def)
  then have "fst (evict_worst 30 pool) = Some [2]"
    using pool_evict_exact [OF reach, of 30] by (auto simp: pool pool_get_def pe_new_active_def split: option.splits if_splits)
  then show ?thesis
    unfolding run .
qed

end
