(* ===== verification/Reader.thy ===== *)
theory Reader
  imports Streaming
begin

text \<open>
  The streaming reader (\<open>reader.rs\<close>): reads and seeks in a file that is still arriving. The reader shares
  the map of available ranges with the notifier of the download, under a mutex with a condition
  variable. What happens around one read is an argument: the notifications between its two locks, those
  during the wait, in their order, whether the stream is cancelled before the flag is read, the bytes on
  the disk at that time and how many of them one call of the operating system returns. A wait whose
  notifications do not fulfil it runs into its timeout.
\<close>

section \<open>The shared state\<close>

record stream_state =
  ss_map :: byte_range_map
  ss_cancelled :: bool

datatype notification = PieceCompleted byte_range | MarkComplete | CancelStream

fun notify :: "notification \<Rightarrow> stream_state \<Rightarrow> stream_state" where
  "notify (PieceCompleted rng) s = s\<lparr>ss_map := bm_insert rng (ss_map s)\<rparr>"
| "notify MarkComplete s = s\<lparr>ss_map := bm_insert \<lparr>br_start = 0, br_end = bm_file_size (ss_map s)\<rparr> (ss_map s)\<rparr>"
| "notify CancelStream s = s\<lparr>ss_cancelled := True\<rparr>"

text \<open>\<open>Condvar::wait_timeout_while\<close>: the state when the wait ends, and whether it timed out.\<close>

primrec wait_while :: "(stream_state \<Rightarrow> bool) \<Rightarrow> notification list \<Rightarrow> stream_state \<Rightarrow> stream_state \<times> bool" where
  "wait_while condition [] s = (s, condition s)"
| "wait_while condition (n # ns) s = (if condition s then wait_while condition ns (notify n s) else (s, False))"

section \<open>The reader\<close>

record buffer_policy =
  bp_min_prebuffer :: u64
  bp_target_prebuffer :: u64
  bp_read_timeout :: nat
  bp_head_pieces :: u32
  bp_tail_pieces :: u32

definition default_policy :: buffer_policy where
  "default_policy =
     \<lparr>bp_min_prebuffer = 512 * 1024, bp_target_prebuffer = 2 * 1024 * 1024, bp_read_timeout = 30,
      bp_head_pieces = 0, bp_tail_pieces = 0\<rparr>"

definition local_policy :: buffer_policy where
  "local_policy =
     \<lparr>bp_min_prebuffer = 0, bp_target_prebuffer = 0, bp_read_timeout = 5, bp_head_pieces = 0, bp_tail_pieces = 0\<rparr>"

definition high_bitrate_policy :: buffer_policy where
  "high_bitrate_policy =
     \<lparr>bp_min_prebuffer = 2 * 1024 * 1024, bp_target_prebuffer = 8 * 1024 * 1024, bp_read_timeout = 60,
      bp_head_pieces = 2, bp_tail_pieces = 2\<rparr>"

record stream_reader =
  sr_file_size :: u64
  sr_position :: u64
  sr_policy :: buffer_policy
  sr_mapping :: "piece_mapping option"

definition from_complete_file :: "u64 \<Rightarrow> stream_reader \<times> stream_state" where
  "from_complete_file file_size =
     (\<lparr>sr_file_size = file_size, sr_position = 0, sr_policy = local_policy, sr_mapping = None\<rparr>,
      \<lparr>ss_map = fully_available file_size, ss_cancelled = False\<rparr>)"

definition new_streaming :: "u64 \<Rightarrow> byte_range_map \<Rightarrow> buffer_policy \<Rightarrow> stream_reader \<times> stream_state" where
  "new_streaming file_size range_map policy =
     (\<lparr>sr_file_size = file_size, sr_position = 0, sr_policy = policy, sr_mapping = None\<rparr>,
      \<lparr>ss_map = range_map, ss_cancelled = False\<rparr>)"

definition set_piece_mapping :: "piece_mapping \<Rightarrow> stream_reader \<Rightarrow> stream_reader" where
  "set_piece_mapping mapping rd = rd\<lparr>sr_mapping := Some mapping\<rparr>"

datatype stream_error = StreamCancelled | ReadTimedOut

record surround =
  sd_between :: "notification list"
  sd_during :: "notification list"
  sd_late_cancel :: bool
  sd_disk :: bytes
  sd_os_read :: nat

definition read_from_disk :: "nat \<Rightarrow> surround \<Rightarrow> stream_reader \<Rightarrow> bytes \<times> stream_reader" where
  "read_from_disk len sd rd =
     (let data = take (min len (sd_os_read sd)) (drop (unat (sr_position rd)) (sd_disk sd))
      in (data, rd\<lparr>sr_position := sr_position rd + word_of_nat (length data)\<rparr>))"

definition wait_and_read ::
  "nat \<Rightarrow> surround \<Rightarrow> stream_reader \<Rightarrow> stream_state \<Rightarrow> (stream_error + bytes) \<times> stream_reader \<times> stream_state"
where
  "wait_and_read buf_len sd rd s =
     (let needed_len = min buf_len (unat (sr_file_size rd - sr_position rd)) in
      if needed_len = 0 then (Inr [], rd, s)
      else if has_range (ss_map s) (sr_position rd) (word_of_nat needed_len)
      then (case read_from_disk needed_len sd rd of (data, rd') \<Rightarrow> (Inr data, rd', s))
      else
        case wait_while (\<lambda>s. \<not> ss_cancelled s \<and> contiguous_from (ss_map s) (sr_position rd) = 0) (sd_during sd)
               (fold notify (sd_between sd) s) of
          (s', timed_out) \<Rightarrow>
            if ss_cancelled s' \<or> sd_late_cancel sd then (Inl StreamCancelled, rd, s')
            else if timed_out then (Inl ReadTimedOut, rd, s')
            else (case read_from_disk (min needed_len (unat (contiguous_from (ss_map s') (sr_position rd)))) sd rd of
                    (data, rd') \<Rightarrow> (Inr data, rd', s')))"

definition stream_read ::
  "nat \<Rightarrow> surround \<Rightarrow> stream_reader \<Rightarrow> stream_state \<Rightarrow> (stream_error + bytes) \<times> stream_reader \<times> stream_state"
where
  "stream_read buf_len sd rd s =
     (if sr_file_size rd \<le> sr_position rd then (Inr [], rd, s) else wait_and_read buf_len sd rd s)"

text \<open>
  \<open>seek\<close>: the offsets from the end and from the current position are signed. The negation of the least
  \<open>i64\<close> wraps, as it does in a release build; its bits are then those of 2 to the 63rd.
\<close>

datatype seek_from = SeekStart u64 | SeekEnd i64 | SeekCurrent i64

definition seek_by :: "u64 \<Rightarrow> i64 \<Rightarrow> u64" where
  "seek_by base n = (if 0 \<le> sint n then sat_add base n else sat_sub base (- n))"

definition stream_seek :: "seek_from \<Rightarrow> stream_reader \<Rightarrow> u64 \<times> stream_reader" where
  "stream_seek pos rd =
     (let new_pos = (case pos of
                       SeekStart n \<Rightarrow> n
                     | SeekEnd n \<Rightarrow> seek_by (sr_file_size rd) n
                     | SeekCurrent n \<Rightarrow> seek_by (sr_position rd) n);
          p = min new_pos (sr_file_size rd)
      in (p, rd\<lparr>sr_position := p\<rparr>))"

definition is_playback_ready :: "stream_reader \<Rightarrow> stream_state \<Rightarrow> bool" where
  "is_playback_ready rd s \<longleftrightarrow>
     (let buffered = contiguous_from (ss_map s) (sr_position rd); remaining = sr_file_size rd - sr_position rd
      in bp_min_prebuffer (sr_policy rd) \<le> buffered \<or> remaining \<le> buffered)"

definition wait_for_prebuffer ::
  "notification list \<Rightarrow> bool \<Rightarrow> stream_reader \<Rightarrow> stream_state \<Rightarrow> (stream_error + bool) \<times> stream_state"
where
  "wait_for_prebuffer during late_cancel rd s =
     (case wait_while (\<lambda>s. \<not> ss_cancelled s
             \<and> (let buffered = contiguous_from (ss_map s) (sr_position rd); remaining = sr_file_size rd - sr_position rd
                in buffered < bp_min_prebuffer (sr_policy rd) \<and> buffered < remaining)) during s of
        (s', timed_out) \<Rightarrow>
          if ss_cancelled s' \<or> late_cancel then (Inl StreamCancelled, s') else (Inr (\<not> timed_out), s'))"

definition reader_needed_pieces :: "stream_reader \<Rightarrow> (u32 \<times> u32) option" where
  "reader_needed_pieces rd =
     (case sr_mapping rd of
        None \<Rightarrow> None
      | Some mapping \<Rightarrow> pieces_for_range mapping (sr_position rd) (bp_target_prebuffer (sr_policy rd)))"

record stream_progress =
  st_position :: u64
  st_file_size :: u64
  st_buffered_ahead :: u64
  st_total_available :: u64
  st_is_buffering :: bool
  st_fragment_count :: nat

definition reader_progress :: "stream_reader \<Rightarrow> stream_state \<Rightarrow> stream_progress" where
  "reader_progress rd s =
     (let buffered_ahead = contiguous_from (ss_map s) (sr_position rd)
      in \<lparr>st_position = sr_position rd, st_file_size = sr_file_size rd, st_buffered_ahead = buffered_ahead,
          st_total_available = available_bytes (ss_map s),
          st_is_buffering = (buffered_ahead < bp_min_prebuffer (sr_policy rd)
            \<and> sat_add (sr_position rd) buffered_ahead < sr_file_size rd),
          st_fragment_count = length (bm_ranges (ss_map s))\<rparr>)"

section \<open>Waiting\<close>

definition map_ok :: "stream_state \<Rightarrow> bool" where
  "map_ok s \<longleftrightarrow> separated (bm_ranges (ss_map s))"

lemma notify_ok: "map_ok s \<Longrightarrow> map_ok (notify n s)"
  by (cases n) (simp_all add: map_ok_def bm_insert_correct(1))

lemma notify_available: "map_ok s \<Longrightarrow> available (ss_map s) \<subseteq> available (ss_map (notify n s))"
  by (cases n) (auto simp: map_ok_def bm_insert_correct(2))

lemma fold_notify_ok: "map_ok s \<Longrightarrow> map_ok (fold notify ns s)"
  by (induction ns arbitrary: s) (simp_all add: notify_ok)

lemma wait_while_ok: "map_ok s \<Longrightarrow> map_ok (fst (wait_while c ns s))"
  by (induction ns arbitrary: s) (simp_all add: notify_ok)

lemma wait_while_end: "wait_while c ns s = (s', timed_out) \<Longrightarrow> timed_out = c s'"
  by (induction ns arbitrary: s) (auto split: if_splits)

lemma wait_while_prefix: "\<exists>k \<le> length ns. fst (wait_while c ns s) = fold notify (take k ns) s"
proof (induction ns arbitrary: s)
  case (Cons n ns)
  obtain k where "k \<le> length ns" "fst (wait_while c ns (notify n s)) = fold notify (take k ns) (notify n s)"
    using Cons by blast
  then show ?case
    by (cases "c s") (auto intro: exI [of _ "Suc k"] exI [of _ 0])
qed simp


section \<open>What a read returns\<close>

text \<open>The bytes from a position on that the map has, as a range of natural numbers.\<close>

definition arrived :: "stream_state \<Rightarrow> nat \<Rightarrow> nat \<Rightarrow> bool" where
  "arrived s p n \<longleftrightarrow> (\<forall>x. p \<le> unat x \<and> unat x < p + n \<longrightarrow> x \<in> available (ss_map s))"

lemma arrived_0 [simp]: "arrived s p 0"
  by (auto simp: arrived_def)

lemma arrived_less: "arrived s p n \<Longrightarrow> m \<le> n \<Longrightarrow> arrived s p m"
  by (simp add: arrived_def)

lemma arrived_contiguous:
  assumes "map_ok s" "n \<le> unat (contiguous_from (ss_map s) p)"
  shows "arrived s (unat p) n"
proof (cases "find (\<lambda>r. br_start r \<le> p \<and> br_end r > p) (bm_ranges (ss_map s))")
  case None
  then show ?thesis
    using assms(2) by (simp add: contiguous_from_def)
next
  case (Some r)
  then have r: "p < br_end r" "contiguous_from (ss_map s) p = br_end r - p"
    using find_covering(1) [OF Some] by (simp_all add: covers_pos_def contiguous_from_def)
  then have "n \<le> unat (br_end r) - unat p"
    using assms(2) by (simp add: unat_sub word_less_nat_alt word_le_nat_alt)
  then have "p \<le> x \<and> x < p + contiguous_from (ss_map s) p" if "unat p \<le> unat x \<and> unat x < unat p + n" for x
  proof -
    have "unat p < unat (br_end r)"
      using r(1) by (simp add: word_less_nat_alt)
    then have "unat x < unat (br_end r)"
      using that \<open>n \<le> unat (br_end r) - unat p\<close> by linarith
    then show ?thesis
      using that r(2) by (simp add: word_less_nat_alt word_le_nat_alt)
  qed
  then show ?thesis
    using contiguous_from_correct [of "ss_map s" p] assms(1) by (simp add: arrived_def map_ok_def)
qed

lemma arrived_has_range:
  assumes "map_ok s" "has_range (ss_map s) p (word_of_nat n)" "0 < n" "unat p + n < 2 ^ 64"
  shows "arrived s (unat p) n"
proof -
  have n: "unat (word_of_nat n :: u64) = n"
    using assms(4) by (simp add: unsigned_of_nat take_bit_nat_eq_self)
  then have add: "checked_add p (word_of_nat n) = Some (p + word_of_nat n)" "unat (p + word_of_nat n) = unat p + n"
    using assms(4) by (simp_all add: checked_add_def unat_word_ariths)
  have "word_of_nat n \<noteq> (0 :: u64)"
    using n assms(3) by (metis less_numeral_extra(3) unsigned_0)
  then have "\<forall>x. p \<le> x \<and> x < p + word_of_nat n \<longrightarrow> x \<in> available (ss_map s)"
    using has_range_iff [OF _ _ add(1)] assms(1,2) by (simp add: map_ok_def)
  then show ?thesis
    using add(2) by (simp add: arrived_def word_le_nat_alt word_less_nat_alt)
qed

definition read_ok :: "nat \<Rightarrow> surround \<Rightarrow> stream_reader \<Rightarrow> bytes \<Rightarrow> stream_reader \<Rightarrow> stream_state \<Rightarrow> bool" where
  "read_ok buf_len sd rd data rd' s' \<longleftrightarrow>
     length data \<le> buf_len \<and> data = take (length data) (drop (unat (sr_position rd)) (sd_disk sd))
     \<and> arrived s' (unat (sr_position rd)) (length data)
     \<and> unat (sr_position rd') = unat (sr_position rd) + length data \<and> sr_position rd' \<le> sr_file_size rd
     \<and> sr_file_size rd' = sr_file_size rd"

lemma read_from_disk_ok:
  assumes "read_from_disk len sd rd = (data, rd')" "len \<le> buf_len" "unat (sr_position rd) + len \<le> unat (sr_file_size rd)"
    and "arrived s' (unat (sr_position rd)) len"
  shows "read_ok buf_len sd rd data rd' s'"
proof -
  let ?all = "drop (unat (sr_position rd)) (sd_disk sd)"
  have data: "data = take (min len (sd_os_read sd)) ?all" "rd' = rd\<lparr>sr_position := sr_position rd + word_of_nat (length data)\<rparr>"
    using assms(1) by (auto simp: read_from_disk_def Let_def)
  then have len: "length data \<le> len" "data = take (length data) ?all"
    by (simp, metis append_eq_conv_conj append_take_drop_id)
  have "unat (sr_position rd) + length data < 2 ^ 64"
    using len(1) assms(3) unat_less_exp [of "sr_file_size rd"] by simp
  then have "unat (sr_position rd + word_of_nat (length data)) = unat (sr_position rd) + length data"
    by (simp add: unat_word_ariths unsigned_of_nat take_bit_nat_eq_self)
  then show ?thesis
    using data len assms(2,3) arrived_less [OF assms(4) len(1)] by (simp add: read_ok_def word_le_nat_alt)
qed

lemma stream_read_cases:
  assumes "stream_read buf_len sd rd s = (r, rd', s')" "sr_position rd \<le> sr_file_size rd" "map_ok s"
  shows "case r of Inl e \<Rightarrow> rd' = rd | Inr data \<Rightarrow> read_ok buf_len sd rd data rd' s'"
    and "map_ok s'"
proof -
  let ?needed = "min buf_len (unat (sr_file_size rd - sr_position rd))"
  have fits: "unat (sr_position rd) + ?needed \<le> unat (sr_file_size rd)"
    using assms(2) by (simp add: unat_sub word_le_nat_alt)
  then have small: "unat (sr_position rd) + ?needed < 2 ^ 64"
    using unat_less_exp [of "sr_file_size rd"] by simp
  have "(case r of Inl e \<Rightarrow> rd' = rd | Inr data \<Rightarrow> read_ok buf_len sd rd data rd' s') \<and> map_ok s'"
  proof (cases "sr_file_size rd \<le> sr_position rd \<or> ?needed = 0")
    case True
    then have "r = Inr []" "rd' = rd" "s' = s"
      using assms(1) by (auto simp: stream_read_def wait_and_read_def Let_def split: if_splits)
    then show ?thesis
      using assms(2,3) by (simp add: read_ok_def)
  next
    case ahead: False
    show ?thesis
    proof (cases "has_range (ss_map s) (sr_position rd) (word_of_nat ?needed)")
      case True
      then obtain data where run: "read_from_disk ?needed sd rd = (data, rd')" "r = Inr data" "s' = s"
        using assms(1) ahead by (auto simp: stream_read_def wait_and_read_def Let_def split: prod.splits if_splits)
      show ?thesis
        using read_from_disk_ok [OF run(1) _ fits] arrived_has_range [OF assms(3) True _ small] ahead run(2,3) assms(3) by simp
    next
      case False
      let ?c = "\<lambda>s. \<not> ss_cancelled s \<and> contiguous_from (ss_map s) (sr_position rd) = 0"
      obtain w timed_out where wait: "wait_while ?c (sd_during sd) (fold notify (sd_between sd) s) = (w, timed_out)"
        by fastforce
      have w: "map_ok w"
        using wait_while_ok [OF fold_notify_ok [OF assms(3)], of ?c "sd_during sd" "sd_between sd"] wait by simp
      show ?thesis
      proof (cases "ss_cancelled w \<or> sd_late_cancel sd \<or> timed_out")
        case True
        then have "s' = w \<and> rd' = rd \<and> isl r"
          using assms(1) ahead False wait by (auto simp: stream_read_def wait_and_read_def Let_def split: if_splits)
        then show ?thesis
          using w by (auto split: sum.split)
      next
        case go: False
        let ?len = "min ?needed (unat (contiguous_from (ss_map w) (sr_position rd)))"
        obtain data where run: "read_from_disk ?len sd rd = (data, rd')" "r = Inr data" "s' = w"
          using assms(1) ahead False wait go by (auto simp: stream_read_def wait_and_read_def Let_def split: prod.splits if_splits)
        show ?thesis
          using read_from_disk_ok [OF run(1), of buf_len w] fits arrived_contiguous [OF w, of ?len "sr_position rd"] run(2,3) w by simp
      qed
    qed
  qed
  then show "case r of Inl e \<Rightarrow> rd' = rd | Inr data \<Rightarrow> read_ok buf_len sd rd data rd' s'" "map_ok s'"
    by blast+
qed


section \<open>Seeking\<close>

lemma mod_neg_shift:
  fixes x m :: int
  assumes "x < 0" "- m \<le> x"
  shows "x mod m = x + m"
proof -
  have "x mod m = (x + m) mod m"
    by (rule mod_add_self2 [symmetric])
  also have "\<dots> = x + m"
    by (rule mod_pos_pos_trivial) (use assms in linarith)+
  finally show ?thesis .
qed

lemma uint_of_sint: "uint n = (if 0 \<le> sint n then sint n else sint n + 2 ^ 64)"
  for n :: i64
proof -
  have "uint n = sint n mod 2 ^ 64"
    by (simp add: uint_sint take_bit_eq_mod)
  moreover have "- (2 ^ 63) \<le> sint n" "sint n < 2 ^ 63"
    using sint_ge [of n] sint_lt [of n] by simp_all
  moreover have "sint n mod 2 ^ 64 = sint n + 2 ^ 64" if "sint n < 0" "- (2 ^ 63) \<le> sint n"
    using that by (simp add: mod_neg_shift)
  ultimately show ?thesis
    by (cases "0 \<le> sint n") (simp_all add: mod_pos_pos_trivial)
qed

lemma unat_nonneg: "0 \<le> sint n \<Longrightarrow> int (unat n) = sint n"
  for n :: i64
  using uint_of_sint [of n] by simp

lemma unat_negative: "sint n < 0 \<Longrightarrow> int (unat (- n)) = - sint n"
  for n :: i64
proof -
  assume neg: "sint n < 0"
  then have u: "uint n = sint n + 2 ^ 64"
    using uint_of_sint [of n] by simp
  have "uint (- n) = (- uint n) mod 2 ^ 64"
    by (simp add: uint_word_ariths)
  also have "\<dots> = - uint n + 2 ^ 64"
    using u neg uint_bounded [of n] sint_ge [of n] by (intro mod_neg_shift) simp_all
  finally show ?thesis
    using u by simp
qed

lemma int_min_diff: "int (min (b - m) l) = max 0 (min (int b - int m) (int l))"
  by (auto simp: min_def max_def)

lemma seek_by_min:
  "int (unat (min (seek_by base n) limit)) = max 0 (min (int (unat base) + sint n) (int (unat limit)))"
proof (cases "0 \<le> sint n")
  case True
  have "unat limit \<le> 2 ^ 64 - 1"
    using unat_less_exp [of limit] by simp
  then have "unat (min (seek_by base n) limit) = min (unat base + unat n) (unat limit)"
    using True by (simp add: seek_by_def unat_min unat_sat_add min.assoc)
  then show ?thesis
    using unat_nonneg [OF True] True by (simp only: of_nat_min of_nat_add)
next
  case False
  then have "unat (min (seek_by base n) limit) = min (unat base - unat (- n)) (unat limit)"
    by (simp add: seek_by_def unat_min unat_sat_sub)
  then show ?thesis
    using unat_negative [of n] False int_min_diff [of "unat base" "unat (- n)" "unat limit"] by (simp only: not_le) simp
qed

section \<open>Properties\<close>

text \<open>
  C38: the reader never shows bytes that have not arrived. Whatever the download reports before and while
  a read waits, a read that succeeds returns at most as many bytes as asked for, exactly the bytes of
  the disk at its position, each of which the map had when it returned, and moves the position behind
  them; a read that is cancelled or times out leaves the position. A position inside the file stays so,
  and with it the subtractions of the code do not underflow.
\<close>

theorem stream_read_truthful:
  assumes "stream_read buf_len sd rd s = (r, rd', s')" "sr_position rd \<le> sr_file_size rd" "map_ok s"
  shows "map_ok s' \<and> (case r of Inl e \<Rightarrow> rd' = rd | Inr data \<Rightarrow> read_ok buf_len sd rd data rd' s')"
  using stream_read_cases [OF assms] by blast

theorem stream_read_truthful_witness:
  "\<exists>rd' s'. stream_read 4 \<lparr>sd_between = [], sd_during = [PieceCompleted \<lparr>br_start = 0, br_end = 2\<rparr>], sd_late_cancel = False,
       sd_disk = [7, 8, 0, 0], sd_os_read = 9\<rparr> (fst (new_streaming 4 (bm_new 4) local_policy)) (snd (new_streaming 4 (bm_new 4) local_policy))
     = (Inr [7, 8], rd', s') \<and> arrived s' 0 2"
proof -
  let ?sd = "\<lparr>sd_between = [], sd_during = [PieceCompleted \<lparr>br_start = 0, br_end = 2\<rparr>], sd_late_cancel = False,
       sd_disk = [7, 8, 0, 0], sd_os_read = 9\<rparr>"
  let ?rd = "fst (new_streaming 4 (bm_new 4) local_policy)" and ?s = "snd (new_streaming 4 (bm_new 4) local_policy)"
  obtain rd' s' where run: "stream_read 4 ?sd ?rd ?s = (Inr [7, 8], rd', s')"
    by (simp add: stream_read_def wait_and_read_def new_streaming_def bm_new_def has_range_def checked_add_def contiguous_from_def
        bm_insert_def br_is_empty_def insert_pos_def read_from_disk_def Let_def unat_sub)
  have "map_ok ?s"
    by (simp add: map_ok_def new_streaming_def bm_new_def separated_def)
  then have "map_ok s' \<and> (case Inr [7, 8] of Inl e \<Rightarrow> rd' = ?rd | Inr data \<Rightarrow> read_ok 4 ?sd ?rd data rd' s')"
    using stream_read_truthful [OF run] by (simp add: new_streaming_def)
  then show ?thesis
    using run by (auto simp: read_ok_def new_streaming_def numeral_2_eq_2)
qed

text \<open>
  no bytes means the end. Of a file that is on the disk with all its bytes, a read into a buffer that
  is not empty returns no bytes only at the end of the file, as the contract of \<open>Read\<close> demands.
\<close>

theorem stream_read_progress:
  assumes "stream_read buf_len sd rd s = (Inr data, rd', s')" "sr_position rd < sr_file_size rd" "0 < buf_len"
    and "unat (sr_file_size rd) \<le> length (sd_disk sd)" "0 < sd_os_read sd"
  shows "data \<noteq> []"
proof -
  let ?needed = "min buf_len (unat (sr_file_size rd - sr_position rd))"
  have needed: "0 < ?needed"
    using assms(2,3) by (simp add: unat_sub word_less_nat_alt word_le_nat_alt)
  have disk: "drop (unat (sr_position rd)) (sd_disk sd) \<noteq> []"
    using assms(2,4) by (simp add: word_less_nat_alt)
  have nonempty: "fst (read_from_disk len sd rd) \<noteq> []" if "0 < len" for len
    using that disk assms(5) by (simp add: read_from_disk_def Let_def)
  show ?thesis
  proof (cases "has_range (ss_map s) (sr_position rd) (word_of_nat ?needed)")
    case True
    then have "data = fst (read_from_disk ?needed sd rd)"
      using assms(1,2) needed by (auto simp: stream_read_def wait_and_read_def Let_def not_le split: prod.splits if_splits)
    then show ?thesis
      using nonempty [OF needed] by simp
  next
    case False
    let ?c = "\<lambda>s. \<not> ss_cancelled s \<and> contiguous_from (ss_map s) (sr_position rd) = 0"
    obtain w timed_out where wait: "wait_while ?c (sd_during sd) (fold notify (sd_between sd) s) = (w, timed_out)"
      by fastforce
    have run: "\<not> ss_cancelled w" "\<not> timed_out"
        "data = fst (read_from_disk (min ?needed (unat (contiguous_from (ss_map w) (sr_position rd)))) sd rd)"
      using assms(1,2) needed False wait by (auto simp: stream_read_def wait_and_read_def Let_def not_le split: prod.splits if_splits)
    then have "contiguous_from (ss_map w) (sr_position rd) \<noteq> 0"
      using wait_while_end [OF wait] by blast
    then have "0 < unat (contiguous_from (ss_map w) (sr_position rd))"
      by (simp add: unat_gt_0)
    then show ?thesis
      using nonempty needed run(3) by simp
  qed
qed

theorem stream_read_progress_witness:
  "fst (stream_read 3 \<lparr>sd_between = [], sd_during = [], sd_late_cancel = False, sd_disk = [7], sd_os_read = 1\<rparr>
     (fst (from_complete_file 1)) (snd (from_complete_file 1))) \<noteq> Inr []"
proof
  let ?sd = "\<lparr>sd_between = [], sd_during = [], sd_late_cancel = False, sd_disk = [7], sd_os_read = 1\<rparr>"
  assume "fst (stream_read 3 ?sd (fst (from_complete_file 1)) (snd (from_complete_file 1))) = Inr []"
  then obtain rd' s' where "stream_read 3 ?sd (fst (from_complete_file 1)) (snd (from_complete_file 1)) = (Inr [], rd', s')"
    by (metis prod_cases3 fst_conv)
  from stream_read_progress [OF this] show False
    by (simp add: from_complete_file_def)
qed

text \<open>
  a seek goes where it should, inside the file. From the start, the end or the current position, with
  any offset, the new position is the wanted one, cut to the range from 0 to the size of the file.
\<close>

theorem stream_seek_exact:
  "(let target = (case pos of
                    SeekStart n \<Rightarrow> uint n
                  | SeekEnd n \<Rightarrow> uint (sr_file_size rd) + sint n
                  | SeekCurrent n \<Rightarrow> uint (sr_position rd) + sint n)
    in uint (fst (stream_seek pos rd)) = max 0 (min target (uint (sr_file_size rd))))
   \<and> snd (stream_seek pos rd) = rd\<lparr>sr_position := fst (stream_seek pos rd)\<rparr>"
proof -
  have "uint (min a b) = min (uint a) (uint b)" for a b :: u64
    by (simp add: min_def word_le_def)
  moreover have "uint (min (seek_by base n) limit) = max 0 (min (uint base + sint n) (uint limit))" for base n limit
    using seek_by_min [of base n limit] by simp
  ultimately show ?thesis
    by (cases pos) (simp_all add: stream_seek_def Let_def)
qed

end
