(* ===== verification/Gateway.thy ===== *)
theory Gateway
  imports Reader Mirror
begin

text \<open>
  The gateway from HTTP to the streaming reader (\<open>gateway.rs\<close>, \<open>gateway_adapter.rs\<close>): the header
  \<open>Range\<close>, the slice of the content it stands for, the metadata of the response, and the body read from
  the reader. A header is its bytes in UTF-8. The details of an error that the code formats for people
  are the kinds below, with the text they quote.
\<close>

section \<open>Range requests\<close>

datatype syntax_detail = MissingPrefix | MultiRange | MissingDash | InvalidSuffixLength bytes | InvalidStart bytes | InvalidEnd bytes

datatype range_error =
  InvalidSyntax syntax_detail
| StartBeyondEnd u64 u64
| StartGreaterThanEnd u64 u64
| UnsupportedUnit bytes

datatype range_request = Bounded u64 u64 | OpenEnded u64 | Suffix u64

definition parse_u64 :: "bytes \<Rightarrow> u64 option" where
  "parse_u64 s = map_option word_of_nat (parse_unsigned (2 ^ 64 - 1) s)"

definition range_unit :: "bytes \<Rightarrow> range_error + bytes" where
  "range_unit header =
     (case str_strip_prefix header (ascii ''bytes='') of
        Some rest \<Rightarrow> Inr (trim rest)
      | None \<Rightarrow>
          (case position (\<lambda>b. b = 61) header of
             Some eq_pos \<Rightarrow> Inl (UnsupportedUnit (take eq_pos header))
           | None \<Rightarrow> Inl (InvalidSyntax MissingPrefix)))"

definition range_parts :: "bytes \<Rightarrow> bytes \<Rightarrow> range_error + range_request" where
  "range_parts left right =
     (if left = [] then
        and_then (ok_or (parse_u64 right) (InvalidSyntax (InvalidSuffixLength right))) (\<lambda>n. Inr (Suffix n))
      else
        and_then (ok_or (parse_u64 left) (InvalidSyntax (InvalidStart left))) (\<lambda>start.
          if right = [] then Inr (OpenEnded start)
          else
            and_then (ok_or (parse_u64 right) (InvalidSyntax (InvalidEnd right))) (\<lambda>end_incl.
              if end_incl < start then Inl (StartGreaterThanEnd start end_incl)
              else Inr (Bounded start end_incl))))"

definition parse_range :: "bytes \<Rightarrow> range_error + range_request" where
  "parse_range header =
     and_then (range_unit header) (\<lambda>rest.
       if 44 \<in> set rest then Inl (InvalidSyntax MultiRange)
       else
         and_then (ok_or (position (\<lambda>b. b = 45) rest) (InvalidSyntax MissingDash)) (\<lambda>dash_pos.
           range_parts (take dash_pos rest) (drop (sat_add_usize dash_pos 1) rest)))"

record content_slice =
  cs_start :: u64
  cs_end :: u64
  cs_content_length :: u64

definition slice_len :: "content_slice \<Rightarrow> u64" where
  "slice_len s = sat_sub (cs_end s) (cs_start s)"

definition slice_is_empty :: "content_slice \<Rightarrow> bool" where
  "slice_is_empty s \<longleftrightarrow> slice_len s = 0"

fun resolve_range :: "range_request \<Rightarrow> u64 \<Rightarrow> range_error + content_slice" where
  "resolve_range (Bounded start end_incl) content_length =
     (if content_length \<le> start then Inl (StartBeyondEnd start content_length)
      else Inr \<lparr>cs_start = start, cs_end = min (sat_add end_incl 1) content_length, cs_content_length = content_length\<rparr>)"
| "resolve_range (OpenEnded start) content_length =
     (if content_length \<le> start then Inl (StartBeyondEnd start content_length)
      else Inr \<lparr>cs_start = start, cs_end = content_length, cs_content_length = content_length\<rparr>)"
| "resolve_range (Suffix n) content_length =
     Inr \<lparr>cs_start = sat_sub content_length n, cs_end = content_length, cs_content_length = content_length\<rparr>"

section \<open>Responses\<close>

record response_meta =
  rm_status :: u16
  rm_content_length :: u64
  rm_content_range :: "bytes option"

definition meta_full :: "u64 \<Rightarrow> response_meta" where
  "meta_full n = \<lparr>rm_status = 200, rm_content_length = n, rm_content_range = None\<rparr>"

definition meta_partial :: "content_slice \<Rightarrow> response_meta" where
  "meta_partial s =
     \<lparr>rm_status = 206, rm_content_length = slice_len s,
      rm_content_range = Some (ascii ''bytes '' @ nat_to_string (unat (cs_start s)) @ [45]
        @ nat_to_string (unat (sat_sub (cs_end s) 1)) @ [47] @ nat_to_string (unat (cs_content_length s)))\<rparr>"

definition MAX_READ_SIZE :: u64 where
  "MAX_READ_SIZE = 16 * 1024 * 1024"

datatype gateway_error = RangeFailed range_error | ReaderIo u64 stream_error

record gateway_response =
  gr_meta :: response_meta
  gr_body :: bytes

definition plan_response :: "bytes option \<Rightarrow> u64 \<Rightarrow> range_error + response_meta \<times> content_slice" where
  "plan_response range_header file_size =
     (case range_header of
        None \<Rightarrow>
          Inr (meta_full file_size,
            \<lparr>cs_start = 0, cs_end = min file_size MAX_READ_SIZE, cs_content_length = file_size\<rparr>)
      | Some header \<Rightarrow>
          and_then (parse_range header) (\<lambda>request.
            and_then (resolve_range request file_size) (\<lambda>resolved.
              Inr (meta_partial resolved,
                \<lparr>cs_start = cs_start resolved, cs_end = min (sat_add (cs_start resolved) MAX_READ_SIZE) (cs_end resolved),
                 cs_content_length = cs_content_length resolved\<rparr>))))"

definition serve_range ::
  "bytes option \<Rightarrow> surround \<Rightarrow> stream_reader \<Rightarrow> stream_state
     \<Rightarrow> (gateway_error + gateway_response) \<times> stream_reader \<times> stream_state"
where
  "serve_range range_header sd rd s =
     (case plan_response range_header (sr_file_size rd) of
        Inl e \<Rightarrow> (Inl (RangeFailed e), rd, s)
      | Inr (meta, sl) \<Rightarrow>
          (let read_len = sat_sub (cs_end sl) (cs_start sl);
               rd' = snd (stream_seek (SeekStart (cs_start sl)) rd)
           in case stream_read (unat read_len) sd rd' s of
                (Inl e, rd'', s') \<Rightarrow> (Inl (ReaderIo (cs_start sl) e), rd'', s')
              | (Inr body, rd'', s') \<Rightarrow> (Inr \<lparr>gr_meta = meta, gr_body = body\<rparr>, rd'', s')))"

section \<open>Headers as they are written\<close>

fun request_header :: "range_request \<Rightarrow> bytes" where
  "request_header (Bounded a b) = ascii ''bytes='' @ nat_to_string (unat a) @ 45 # nat_to_string (unat b)"
| "request_header (OpenEnded a) = ascii ''bytes='' @ nat_to_string (unat a) @ [45]"
| "request_header (Suffix n) = ascii ''bytes='' @ 45 # nat_to_string (unat n)"

lemma parse_u64_printed [simp]: "parse_u64 (nat_to_string (unat n)) = Some n"
proof -
  have "unat n \<le> 2 ^ 64 - 1"
    using unat_less_exp [of n] by simp
  then show ?thesis
    by (simp add: parse_u64_def parse_unsigned_nat_to_string)
qed

definition plain :: "bytes \<Rightarrow> bool" where
  "plain s \<longleftrightarrow> s \<noteq> [] \<and> (\<forall>b \<in> set s. is_digit b \<or> b = 45)"

lemma plain_trim: "plain s \<Longrightarrow> trim s = s"
proof (rule trim_plain)
  assume s: "plain s"
  then have "hd s \<in> set s" "last s \<in> set s"
    by (auto simp: plain_def)
  then have "is_digit (hd s) \<or> hd s = 45" "is_digit (last s) \<or> last s = 45"
    using s by (auto simp: plain_def)
  then show "33 \<le> hd s" "hd s \<le> 126" "33 \<le> last s" "last s \<le> 126"
    by (auto simp: is_digit_def word_le_nat_alt)
qed (simp add: plain_def)

lemma range_unit_bytes: "range_unit (ascii ''bytes='' @ s) = Inr (trim s)"
  by (simp add: range_unit_def str_strip_prefix_def starts_with_append)

lemma position_dash:
  assumes "\<forall>b \<in> set left. is_digit b"
  shows "position (\<lambda>b. b = 45) (left @ 45 # right) = Some (length left)"
  using assms by (intro position_append) (auto simp: is_digit_def)

lemma parse_range_plain:
  assumes "\<forall>b \<in> set left. is_digit b" "\<forall>b \<in> set right. is_digit b" "length left < usize_max"
  shows "parse_range (ascii ''bytes='' @ left @ 45 # right) = range_parts left right"
proof -
  have p: "plain (left @ 45 # right)"
    using assms(1,2) by (auto simp: plain_def)
  moreover have "\<not> (is_digit 44 \<or> (44 :: u8) = 45)"
    by (simp add: is_digit_def)
  ultimately have "44 \<notin> set (left @ 45 # right)"
    unfolding plain_def by blast
  moreover have "range_unit (ascii ''bytes='' @ left @ 45 # right) = Inr (left @ 45 # right)"
    by (simp only: range_unit_bytes plain_trim [OF p])
  ultimately show ?thesis
    using assms(3) unfolding parse_range_def
    by (simp only: and_then_simps) (simp add: position_dash [OF assms(1)] ok_or_def sat_add_usize_def)
qed

lemma printed_short: "length (nat_to_string (unat n)) < usize_max" for n :: u64
proof -
  have "length (nat_to_string (unat n)) \<le> 20"
    by (rule length_nat_to_string) (use unat_less_exp [of n] in simp_all)
  then show ?thesis
    by (simp add: usize_max_def)
qed

section \<open>What is served\<close>

text \<open>The positions of the content a request names.\<close>

fun selects :: "range_request \<Rightarrow> u64 \<Rightarrow> nat \<Rightarrow> bool" where
  "selects (Bounded a b) n x \<longleftrightarrow> unat a \<le> x \<and> x \<le> unat b"
| "selects (OpenEnded a) n x \<longleftrightarrow> unat a \<le> x"
| "selects (Suffix k) n x \<longleftrightarrow> unat n \<le> x + unat k"

lemma resolve_bounds:
  "resolve_range r n = Inr sl \<Longrightarrow> cs_start sl \<le> n \<and> cs_end sl \<le> n \<and> cs_content_length sl = n"
  by (cases r) (auto simp: sat_sub_le split: if_splits)

lemma plan_bounds:
  assumes "plan_response h n = Inr (meta, sl)"
  shows "cs_start sl \<le> n" "cs_end sl \<le> n" "unat (cs_end sl) \<le> unat (cs_start sl) + unat MAX_READ_SIZE"
proof -
  have "cs_start sl \<le> n \<and> cs_end sl \<le> n \<and> unat (cs_end sl) \<le> unat (cs_start sl) + unat MAX_READ_SIZE"
  proof (cases h)
    case None
    then show ?thesis
      using assms by (auto simp: plan_response_def unat_min)
  next
    case (Some header)
    then obtain r res where res: "resolve_range r n = Inr res" "cs_start sl = cs_start res"
        "cs_end sl = min (sat_add (cs_start res) MAX_READ_SIZE) (cs_end res)"
      using assms by (auto simp: plan_response_def and_then_Inr)
    then show ?thesis
      using resolve_bounds [OF res(1)] by (auto simp: unat_min unat_sat_add min.coboundedI2)
  qed
  then show "cs_start sl \<le> n" "cs_end sl \<le> n" "unat (cs_end sl) \<le> unat (cs_start sl) + unat MAX_READ_SIZE"
    by blast+
qed

lemma serve_run:
  assumes "serve_range h sd rd s = (Inr resp, rd', s')" "plan_response h (sr_file_size rd) = Inr (meta, sl)"
  shows "stream_read (unat (cs_end sl) - unat (cs_start sl)) sd (rd\<lparr>sr_position := cs_start sl\<rparr>) s = (Inr (gr_body resp), rd', s')"
    and "gr_meta resp = meta"
proof -
  have "snd (stream_seek (SeekStart (cs_start sl)) rd) = rd\<lparr>sr_position := cs_start sl\<rparr>"
    using plan_bounds(1) [OF assms(2)] by (simp add: stream_seek_def Let_def min_absorb1)
  then show "stream_read (unat (cs_end sl) - unat (cs_start sl)) sd (rd\<lparr>sr_position := cs_start sl\<rparr>) s = (Inr (gr_body resp), rd', s')"
      "gr_meta resp = meta"
    using assms by (auto simp: serve_range_def Let_def unat_sat_sub split: prod.splits sum.splits)
qed


lemma range_header_roundtrip_suffix: "parse_range (request_header (Suffix n)) = Inr (Suffix n)"
  using parse_range_plain [of "[]" "nat_to_string (unat n)"] nat_to_string_digits
  by (simp add: range_parts_def ok_or_def usize_max_def)

text \<open>
  A suffix of length zero is answered with 206 and a range whose last position lies before its first,
  where the RFC has 416.
\<close>

lemma empty_suffix_satisfied:
  "plan_response (Some (request_header (Suffix 0))) 5 =
     Inr (\<lparr>rm_status = 206, rm_content_length = 0, rm_content_range = Some (ascii ''bytes 5-4/5'')\<rparr>,
          \<lparr>cs_start = 5, cs_end = 5, cs_content_length = 5\<rparr>)"
  using range_header_roundtrip_suffix [of 0]
  by (simp add: plan_response_def meta_partial_def slice_len_def sat_sub_def sat_add_def MAX_READ_SIZE_def
      nat_to_string.simps ascii_def del: request_header.simps)

section \<open>Properties\<close>

text \<open>
  the three forms of the header mean what RFC 7233 says. A request written in its form is parsed to
  that request, except that one whose start lies behind its end is refused with both numbers; every
  value of 64 bits is accepted.
\<close>

theorem range_header_roundtrip:
  "parse_range (request_header r) =
     (case r of Bounded a b \<Rightarrow> if b < a then Inl (StartGreaterThanEnd a b) else Inr r | _ \<Rightarrow> Inr r)"
proof (cases r)
  case (Bounded a b)
  then show ?thesis
    using parse_range_plain [OF nat_to_string_digits nat_to_string_digits printed_short, of a "unat b"]
    by (simp add: range_parts_def ok_or_def)
next
  case (OpenEnded a)
  then show ?thesis
    using parse_range_plain [OF nat_to_string_digits _ printed_short, of "[]" a] by (simp add: range_parts_def ok_or_def)
next
  case (Suffix n)
  then show ?thesis
    using range_header_roundtrip_suffix [of n] by (simp del: request_header.simps)
qed

text \<open>
  a request is resolved to the bytes it names. The slice for content of any length holds exactly the
  positions of the content that the request selects: between its two ends, from its start on, or the
  last so many; it is refused only when it selects none, with its start and the length.
\<close>

theorem range_resolved_exact:
  "case resolve_range r n of
     Inr sl \<Rightarrow> cs_content_length sl = n
       \<and> {x. unat (cs_start sl) \<le> x \<and> x < unat (cs_end sl)} = {x. x < unat n \<and> selects r n x}
   | Inl e \<Rightarrow> {x. x < unat n \<and> selects r n x} = {} \<and> (\<exists>start. e = StartBeyondEnd start n \<and> n \<le> start)"
proof -
  have "unat n < 2 ^ 64"
    using unat_less_exp [of n] by simp
  then show ?thesis
    by (cases r) (auto simp: unat_min unat_sat_add unat_sat_sub word_le_nat_alt)
qed



text \<open>
  what a client without a range header gets of a large file. However often it is asked, the gateway
  announces the whole file and sends its first bytes, at most 16 MiB of them: the calls do not advance,
  so the loop over them that the documentation proposes never gets to the rest.
\<close>

theorem gateway_full_never_complete:
  assumes "serve_range None sd rd s = (Inr resp, rd', s')" "map_ok s" "16 * 1024 * 1024 < sr_file_size rd"
  shows "rm_status (gr_meta resp) = 200 \<and> rm_content_length (gr_meta resp) = sr_file_size rd
     \<and> gr_body resp = take (length (gr_body resp)) (sd_disk sd)
     \<and> length (gr_body resp) < unat (rm_content_length (gr_meta resp)) \<and> sr_file_size rd' = sr_file_size rd"
proof -
  let ?sl = "\<lparr>cs_start = 0, cs_end = min (sr_file_size rd) MAX_READ_SIZE, cs_content_length = sr_file_size rd\<rparr>"
  have p: "plan_response None (sr_file_size rd) = Inr (meta_full (sr_file_size rd), ?sl)"
    by (simp add: plan_response_def)
  have "read_ok (unat (cs_end ?sl) - unat (cs_start ?sl)) sd (rd\<lparr>sr_position := cs_start ?sl\<rparr>) (gr_body resp) rd' s'"
    using stream_read_cases(1) [OF serve_run(1) [OF assms(1) p] _ assms(2)] plan_bounds(1) [OF p] by simp
  then show ?thesis
    using serve_run(2) [OF assms(1) p] assms(3)
    by (auto simp: read_ok_def meta_full_def unat_min MAX_READ_SIZE_def word_less_nat_alt)
qed

theorem gateway_full_never_complete_witness:
  "\<exists>resp rd' s'. serve_range None
       \<lparr>sd_between = [], sd_during = [], sd_late_cancel = False, sd_disk = [7], sd_os_read = 1\<rparr>
       (fst (from_complete_file 16777217)) (snd (from_complete_file 16777217)) = (Inr resp, rd', s')
     \<and> length (gr_body resp) < 16777217"
proof -
  let ?sd = "\<lparr>sd_between = [], sd_during = [], sd_late_cancel = False, sd_disk = [7], sd_os_read = 1\<rparr>"
  let ?rd = "fst (from_complete_file 16777217)" and ?s = "snd (from_complete_file 16777217)"
  obtain resp rd' s' where run: "serve_range None ?sd ?rd ?s = (Inr resp, rd', s')"
    by (simp add: serve_range_def plan_response_def MAX_READ_SIZE_def from_complete_file_def fully_available_def bm_new_def
        stream_seek_def sat_sub_def stream_read_def wait_and_read_def has_range_def checked_add_def read_from_disk_def Let_def
        unat_sub contains_range_def)
  have "map_ok ?s"
    by (simp add: map_ok_def from_complete_file_def fully_available_def bm_new_def separated_def)
  then show ?thesis
    using gateway_full_never_complete [OF run] run by (auto simp: from_complete_file_def)
qed

end
