(* ===== verification/Spec2Isabelle.thy ===== *)
theory Spec2Isabelle
  imports Bencode Message FastExtension Bitfield PieceMap Resume PeerFile Storage Tiering Merkle Validator
    Streaming Lifecycle UploadQueue Cache ArcCache Group Dht Budget CoordinatorRun WorkStealing Announce Resolver
    Session Vdf Tables Downloader Metadata Pem Catalog PeerPool Gateway
begin

text \<open>
  A verification library of cnc-content: of \<open>p2p-distribute\<close>, its peer-to-peer content distribution
  crate (\<open>crates/p2p-distribute/src/\<close> under the source tree), of the Workshop crates that name,
  index, announce and resolve packages (\<open>crates/workshop-core\<close>, \<open>workshop-registry\<close>, \<open>workshop-resolver\<close>),
  and of the parts of the installer crate (\<open>src/\<close>) that read archives, run recipes and verify content.

  \<^bold>\<open>The program.\<close> A file is cut into pieces. A coordinator asks peers for pieces over the BitTorrent
  wire protocol, checks each piece against its SHA-1 digest, writes it to a storage backend and
  marks it in a shared piece map; the map is snapshotted into a resume file. Around it stand the
  peers (bitfields, connections, upload slots, connection budget), the choice of the next piece and
  of the peer that delivers it, the discovery of peers (a Kademlia node), closed groups of mirrors,
  work stealing between download threads, and the streaming reader's view of the bytes that are
  there. What is distributed are packages of the Workshop: a package has an identity, versions and a
  content digest, is listed in an index or registry, and its new versions are announced by signed
  messages. The installer turns discs and downloads into installed content: it identifies a source by
  hashes of its files, runs a recipe of extraction steps from the source into the content directory,
  and later verifies what is installed. The library models the parts that hold state, decide or
  define formats.

  \<^bold>\<open>Theories and sources.\<close> The names of definitions are those of the functions, with a prefix for the type
  where the crate uses one name several times.

    \<^item> \<open>Prelude\<close>: machine integers, saturating and checked arithmetic, slices, byte order, and the
      locales \<open>int_codec\<close>, \<open>roundtrip_codec\<close> and \<open>step_system\<close>. \<open>Decimal\<close>: decimal text and UTF-8 of
      the standard library. \<open>Bits\<close>: bits of a byte and the locale \<open>bitset\<close>.
    \<^item> \<open>Bencode\<close> (\<open>bencode.rs\<close>), \<open>Message\<close> (\<open>message.rs\<close>), \<open>FastExtension\<close> (\<open>fast_extension.rs\<close>): the formats.
      Encoders append to byte lists, decoders return a sum of error and value.
    \<^item> \<open>Bitfield\<close> (\<open>bitfield.rs\<close>): the pieces a peer has, bit by bit. \<open>PieceMap\<close> (\<open>piece_map.rs\<close>): the state of
      the pieces; an atomic operation is one step, a concurrent execution a sequence of steps.
    \<^item> \<open>Resume\<close> and \<open>PeerFile\<close> (\<open>resume.rs\<close>, records of \<open>peer_stats.rs\<close>): the two files, and a save that may
      stop at any byte. \<open>Resume\<close> uses \<open>PieceMap\<close>.
    \<^item> \<open>Storage\<close> (\<open>storage.rs\<close>): the backend interface as a record of operations (the trait object), its
      laws as the locale \<open>piece_storage\<close>, the memory backend and the coalescing wrapper. \<open>Tiering\<close>
      (\<open>tiering.rs\<close>): two backends behind one, in the locale \<open>two_tiers\<close> over those laws.
    \<^item> \<open>Merkle\<close> (\<open>merkle.rs\<close>), \<open>Validator\<close> (\<open>torrent_info.rs\<close>, \<open>piece_validator.rs\<close>): hashes of sub-pieces,
      piece geometry, validation, quarantine. SHA-1 and SHA-256 are arguments of the definitions.
    \<^item> \<open>Streaming\<close> (\<open>streaming.rs\<close>): the available byte ranges, the pieces of a range, peer priorities.
    \<^item> \<open>Lifecycle\<close> (\<open>state.rs\<close>, \<open>connection.rs\<close>): the two state machines.
    \<^item> \<open>UploadQueue\<close> (\<open>upload_queue.rs\<close>), \<open>Cache\<close> (\<open>cache.rs\<close>), \<open>ArcCache\<close>
      (\<open>piece_data_cache.rs\<close>), \<open>Budget\<close> (\<open>budget.rs\<close>): bounded resources.
    \<^item> \<open>Group\<close> (\<open>group.rs\<close>): roles and the roster. \<open>Dht\<close> (\<open>dht.rs\<close>): the Kademlia node.
    \<^item> \<open>Selection\<close> (\<open>priority.rs\<close>, \<open>selection.rs\<close>): which piece next. \<open>PeerChoice\<close> (\<open>peer.rs\<close> and the peer selection
      and partition recovery of \<open>coordinator.rs\<close>): which peer. Both order candidates by a key; the locale
      \<open>total_ranking\<close> holds the facts.
    \<^item> \<open>FileStorage\<close> (\<open>storage.rs\<close>): the output file, and the locale \<open>piece_sink\<close>, what a writer may rely
      on of a backend that can fail; every \<open>piece_storage\<close> is one.
    \<^item> \<open>Coordinator\<close>, \<open>CoordinatorSafety\<close>, \<open>CoordinatorRun\<close> (\<open>coordinator.rs\<close>): the worker threads as program
      counters over the shared state, their invariants, and a whole run from the checkpoint to the
      result. They use \<open>PieceMap\<close>, \<open>Resume\<close>, \<open>Validator\<close>, \<open>Selection\<close>, \<open>PeerChoice\<close> and the storage.
    \<^item> \<open>WorkStealing\<close> (\<open>work_stealing.rs\<close>): the byte ranges of the threads, thieves and owner interleaved.
    \<^item> \<open>Workshop\<close> (\<open>resource.rs\<close>, \<open>blob.rs\<close>, \<open>manifest.rs\<close>, \<open>error.rs\<close> of \<open>workshop-core\<close>, and
      \<open>workshop-registry\<close>): identities, digests, versions, the blob store, registry entries. \<open>Index\<close>
      (\<open>index.rs\<close>): failover over backends. \<open>Announce\<close> (\<open>update.rs\<close>): announcements and their validator.
      \<open>Resolver\<close> (\<open>workshop-resolver\<close>): resolution and lock files.
    \<^item> \<open>Session\<close> (\<open>session_manager.rs\<close>): the queue of downloads over the active slots.
    \<^item> \<open>Metadata\<close> (\<open>metadata_exchange.rs\<close>): the torrent's metadata fetched block by block, a machine in
      \<open>step_system\<close>, over the write of \<open>Storage\<close>. \<open>Pem\<close> (\<open>torrent_pem.rs\<close>): torrents as text. \<open>Catalog\<close> (\<open>manifest.rs\<close>,
      \<open>catalog.rs\<close>): the manifest of a group, differences and the plan that brings a mirror up to date.
    \<^item> \<open>PeerPool\<close> (\<open>peer_pool.rs\<close>): peers with their backoff, bans and eviction, a machine in \<open>step_system\<close>.
    \<^item> \<open>Reader\<close> (\<open>reader.rs\<close>): reads and seeks in a file that is still arriving, over \<open>Streaming\<close>. \<open>Gateway\<close>
      (\<open>gateway.rs\<close>, \<open>gateway_adapter.rs\<close>): HTTP range requests served from that reader.
    \<^item> The installer, over the file system of \<open>Files\<close>: \<open>Iscab\<close> (\<open>iscab/mod.rs\<close>), InstallShield archives;
      \<open>Vdf\<close> (\<open>source/vdf/mod.rs\<close>), Steam's text format; \<open>Executor\<close> (\<open>executor/\<close>, \<open>actions.rs\<close>), recipes in
      the locale \<open>installer_environment\<close>, which uses \<open>Iscab\<close>; \<open>Verify\<close> (\<open>verify/\<close>), identification,
      manifests, incremental verification and the bitfield, which provides the locale \<open>bitset\<close>.
      \<open>Content\<close> (\<open>lib.rs\<close>), \<open>Packages\<close>, \<open>Sources\<close> and \<open>Recipes\<close> hold the tables row by row; \<open>Install\<close>
      (\<open>query.rs\<close>, \<open>source/\<close>) the lookups and, in the locale \<open>plain_directories\<close>, what a recipe leaves
      behind; \<open>Tables\<close> proves that the tables agree with each other and with the executor.
    \<^item> The downloads of the installer (\<open>downloader/\<close>): \<open>Mirror\<close> (\<open>mirror.rs\<close>), the guard on URLs and the lists of
      mirrors; \<open>Race\<close> (\<open>mirror.rs\<close>), a transfer and the race of all mirrors; \<open>Segments\<close> (\<open>segmented.rs\<close>),
      one range per mirror; \<open>Unzip\<close> (\<open>extract.rs\<close>), archives and the output of a torrent; \<open>Downloader\<close>
      (\<open>mod.rs\<close>, \<open>orchestrate.rs\<close>), the strategies with their fallback up to \<open>download_missing\<close>. The threads
      of \<open>Race\<close> and \<open>Segments\<close> take their steps in the order of a schedule; both are interpretations of the
      locale \<open>thread_system\<close> of \<open>Prelude\<close>. The answers of the servers, the ZIP reader, the digests, the
      BitTorrent session and the schedule are arguments, collected in the record \<open>surroundings\<close>.

  \<^bold>\<open>Modelling.\<close> A struct is a record, an enum a datatype, \<open>u8\<close> to \<open>u64\<close> are words of that width, \<open>usize\<close> is a
  natural number with the bound \<open>usize_max\<close> written out where the code checks or saturates. A method
  on \<open>&mut self\<close> returns its result paired with the new state. Hash maps are mappings; where the code
  iterates over one, the model uses an order only if the code fixes one. Instants are numbers of
  seconds. A locked operation is one step; only the coordinator's mutex, which one loop holds over many
  accesses, is modelled as such.

  \<^bold>\<open>What the lemmas show.\<close> Formats: what is written is read back, decoders are total on any bytes and
  their answers are final (\<open>Bencode\<close>, \<open>Message\<close>, \<open>FastExtension\<close>, \<open>Resume\<close>, \<open>PeerFile\<close>). State: every
  operation keeps the invariant of its component, as an interpretation of \<open>step_system\<close> in
  \<open>PieceMap\<close>, \<open>Lifecycle\<close>, \<open>UploadQueue\<close>, \<open>Validator\<close>, \<open>Cache\<close>, \<open>Group\<close> and \<open>Dht\<close>. Refinement: coalescing and
  tiering against a flat file, the cache against a list, the suggestion cache against its history,
  the budget against a multiset of connections, the byte ranges against a set of bytes, the roster
  against the relation \<open>policy\<close>, the download machine against the relation \<open>diagram\<close>. Integrity: a
  Merkle proof accepted for a leaf fixes its bytes unless the hash collides on the strings named in
  the statement, and corrupt leaves are located exactly. Downloads: in every interleaving of the
  workers a piece marked done is in the storage with its digest, no two workers hold a piece, the
  retries are bounded, a checkpoint tells the truth, and \<open>Ok\<close> means complete. Announcements: no replay,
  no flood, no forged field, in every history. Resolution: exactly the newest version that is allowed.
  Installing: nothing outside the content directory changes, the progress events are true, and the
  files are what was reported; parsers of hostile files are total and exact; a manifest detects
  exactly the changed files, in one pass or in slots; every recipe of the tables, when it succeeds,
  completes its package. Downloading: under every fair schedule the race delivers what one mirror serves
  and the segments make one file; a file stays only if it has its digest; nothing outside the content
  directory changes, whatever the network answers. Mirrors and streams: a plan, once carried out, leaves
  the manifest's files under the policy; a peer waits out its backoff; a read shows only bytes that have
  arrived, at the place asked for, and a response holds the bytes of the request.

  \<^bold>\<open>Fuel and bounds.\<close> The bencode decoder recurs on the depth left, at most 64; its two loops have fuel
  \<open>Suc (length data)\<close>, and each round consumes a byte, so \<open>bencode_decode_total\<close> proves the fuel
  sufficient. The other loops are structural or have a measure; the loop of a worker and the retry of a
  thief are steps, so a run is a list of events of any length. A schedule is fair when every thread has at
  least the turns its answers give it work for; the theorems on races and segments assume this. Statements that need it bound the
  data by the address space or a count by the width of its counter.

  \<^bold>\<open>Deviations found.\<close> Lemmas with a concrete run record where the code departs from its documentation:
  non-canonical bencode, spare bits of bitfields, late failures of done pieces, lost writes after a
  failed flush, a threshold of zero, reads across tiers, empty files, inner nodes as leaves, empty
  corruption reports, endless retries, failing completed downloads, caches of capacity zero,
  administrators demoting each other, duplicate nodes after an eviction, untracked releases, verified
  pieces erased by a resumed download, bytes written by owner and thief, plus signs in digests, first
  announcements that block their publisher, lock files that never match a local dependency, queues
  that reverse equal arrivals, tables reserved by untrusted counts, documents accepted in part, a
  remainder by zero slots, sources that can never be identified, mirrors whose private address
  stands behind credentials, metadata sizes fixed by the first stranger, Base64 that is not canonical,
  pools above their capacity, and responses that never get past their first part.

  \<^bold>\<open>Not modelled.\<close> Sockets, HTTP and clocks, scores and estimators in floating point, signatures, the
  text formats of other crates (JSON, TOML, zip), and of the installer the probes of the platforms, the
  table of downloads (a TOML file), the settings of the HTTP agent, the temporary files of the download
  threads as paths (each thread keeps its file), I/O errors while segments are put together, the health
  scores of mirrors (floating point) and the foreign function interface. Next in line:
  endgame and superseeding, scrubbing, token buckets, credentials, and the configuration parsers.
\<close>

end
